(* ===== verification/Moo_Prelude.thy ===== *)
theory Moo_Prelude
  imports Main "HOL-Library.Word" "HOL-Library.Monad_Syntax"
begin

text \<open>
  Shared vocabulary of the development.

  A C operation that can kill the server is modelled as a function into \<open>'a option\<close>:
  \<open>None\<close> stands for a run that has no defined continuation, because the code calls
  \<open>server_panic\<close> (src/src/log.c aborts the process), dereferences a null or freed
  pointer, indexes outside an array, or loops for ever. Errors that the MOO language can see
  (\<open>E_TYPE\<close>, \<open>E_PERM\<close>, ...) are never \<open>None\<close>; they are values.

  The theory holds the machine integers, the collections of simplification rules, and the
  lemmas on option, list and checked array access that the components share.
\<close>

unbundle bit_operations_syntax

type_synonym int32 = "32 word"
type_synonym uint32 = "32 word"
type_synonym objid = int

named_theorems moo_defs \<open>definitions unfolded by the component proofs\<close>
named_theorems moo_eval \<open>equations that evaluate closed terms\<close>

section \<open>The option monad\<close>

text \<open>Evaluate the first computation before looking at the continuation.\<close>

lemma bind_weak_cong: "x = y \<Longrightarrow> Option.bind x f = Option.bind y f"
  by simp

lemma bind_Some_iff:
  "Option.bind m f = Some y \<longleftrightarrow> (\<exists>x. m = Some x \<and> f x = Some y)"
  by (cases m) auto

lemma bind_None_iff:
  "Option.bind m f = None \<longleftrightarrow> m = None \<or> (\<exists>x. m = Some x \<and> f x = None)"
  by (cases m) auto

section \<open>Checked array access\<close>

text \<open>Reading and writing a C array at an index: outside its bounds there is no result.\<close>

definition nth_opt :: "'a list \<Rightarrow> int \<Rightarrow> 'a option" where
  "nth_opt xs i = (if 0 \<le> i \<and> i < int (length xs) then Some (xs ! nat i) else None)"

definition upd_opt :: "'a list \<Rightarrow> int \<Rightarrow> 'a \<Rightarrow> 'a list option" where
  "upd_opt xs i v = (if 0 \<le> i \<and> i < int (length xs) then Some (xs[nat i := v]) else None)"

lemma nth_opt_Some [simp]: "0 \<le> i \<Longrightarrow> i < int (length xs) \<Longrightarrow> nth_opt xs i = Some (xs ! nat i)"
  by (simp add: nth_opt_def)

lemma nth_opt_int [simp]: "i < length xs \<Longrightarrow> nth_opt xs (int i) = Some (xs ! i)"
  by (simp add: nth_opt_def)

lemma nth_opt_eq_None: "nth_opt xs i = None \<longleftrightarrow> i < 0 \<or> int (length xs) \<le> i"
  by (auto simp: nth_opt_def)

lemma nth_opt_eq_Some:
  "nth_opt xs i = Some v \<longleftrightarrow> 0 \<le> i \<and> i < int (length xs) \<and> v = xs ! nat i"
  by (auto simp: nth_opt_def)

lemma upd_opt_int [simp]: "i < length xs \<Longrightarrow> upd_opt xs (int i) v = Some (xs[i := v])"
  by (simp add: upd_opt_def)

lemma upd_opt_eq_Some:
  "upd_opt xs i v = Some ys \<longleftrightarrow> 0 \<le> i \<and> i < int (length xs) \<and> ys = xs[nat i := v]"
  by (auto simp: upd_opt_def)

section \<open>Inserting into and deleting from a list by position\<close>

definition insert_at :: "nat \<Rightarrow> 'a \<Rightarrow> 'a list \<Rightarrow> 'a list" where
  "insert_at n x xs = take n xs @ x # drop n xs"

definition delete_at :: "nat \<Rightarrow> 'a list \<Rightarrow> 'a list" where
  "delete_at n xs = take n xs @ drop (Suc n) xs"

lemma length_insert_at [simp]: "length (insert_at n x xs) = Suc (length xs)"
  by (simp add: insert_at_def)

lemma length_delete_at [simp]: "n < length xs \<Longrightarrow> length (delete_at n xs) = length xs - 1"
  by (simp add: delete_at_def)

lemma delete_insert_at: "n \<le> length xs \<Longrightarrow> delete_at n (insert_at n x xs) = xs"
  by (simp add: delete_at_def insert_at_def)

lemma nth_insert_at:
  "n \<le> length xs \<Longrightarrow> i \<le> length xs \<Longrightarrow>
    insert_at n x xs ! i = (if i < n then xs ! i else if i = n then x else xs ! (i - 1))"
  by (auto simp: insert_at_def nth_append min_def nth_Cons')

lemma nth_delete_at:
  "n < length xs \<Longrightarrow> i < length xs - 1 \<Longrightarrow>
    delete_at n xs ! i = (if i < n then xs ! i else xs ! Suc i)"
  by (auto simp: delete_at_def nth_append min_def)

lemma set_insert_at: "n \<le> length xs \<Longrightarrow> set (insert_at n x xs) = insert x (set xs)"
  by (metis append_take_drop_id insert_at_def list.simps(15) set_append Un_insert_right)

lemma map_delete_at: "map f (delete_at n xs) = delete_at n (map f xs)"
  by (simp add: delete_at_def take_map drop_map)

lemma distinct_delete_at: "distinct xs \<Longrightarrow> distinct (delete_at n xs)"
  using set_take_disj_set_drop_if_distinct[of xs n "Suc n"]
  by (simp add: delete_at_def distinct_append)

lemma set_delete_at: "set (delete_at n xs) \<subseteq> set xs"
  using set_take_subset[of n xs] set_drop_subset[of "Suc n" xs] by (auto simp: delete_at_def)

lemma delete_at_append:
  "delete_at (length xs + n) (xs @ ys) = xs @ delete_at n ys"
  by (simp add: delete_at_def)

lemma delete_at_append_left:
  "n < length xs \<Longrightarrow> delete_at n (xs @ ys) = delete_at n xs @ ys"
  by (simp add: delete_at_def)

text \<open>Two arrays of the same length as a map from the entries of the first.\<close>

lemma zip_insert_at:
  "length xs = length ys \<Longrightarrow> zip (insert_at n x xs) (insert_at n y ys) = insert_at n (x, y) (zip xs ys)"
  by (simp add: insert_at_def zip_append1 take_zip drop_zip min_def)

lemma zip_delete_at:
  "length xs = length ys \<Longrightarrow> zip (delete_at n xs) (delete_at n ys) = delete_at n (zip xs ys)"
  by (simp add: delete_at_def zip_append1 take_zip drop_zip min_def)

lemma map_of_insert_at:
  "k \<notin> fst ` set xs \<Longrightarrow> map_of (insert_at n (k, v) xs) = (map_of xs)(k \<mapsto> v)"
proof -
  assume k: "k \<notin> fst ` set xs"
  have "map_of xs = map_of (drop n xs) ++ map_of (take n xs)"
    by (metis append_take_drop_id map_of_append)
  moreover have "k \<notin> fst ` set (take n xs)" using k set_take_subset[of n xs] by auto
  then have "map_of (take n xs) k = None" by (simp add: map_of_eq_None_iff)
  ultimately show ?thesis
    by (intro ext) (simp add: insert_at_def map_add_def split: option.splits)
qed

lemma map_of_delete_at:
  assumes "distinct (map fst xs)" "n < length xs"
  shows "map_of (delete_at n xs) = (map_of xs)(fst (xs ! n) := None)"
proof -
  have xs: "xs = take n xs @ xs ! n # drop (Suc n) xs" using assms(2) by (rule id_take_nth_drop)
  have "distinct (map fst (take n xs @ xs ! n # drop (Suc n) xs))" using assms(1) xs by simp
  then have "fst (xs ! n) \<notin> fst ` set (take n xs)" "fst (xs ! n) \<notin> fst ` set (drop (Suc n) xs)"
    by auto
  then have "map_of (take n xs) (fst (xs ! n)) = None" "map_of (drop (Suc n) xs) (fst (xs ! n)) = None"
    by (simp_all add: map_of_eq_None_iff)
  then have "map_of (delete_at n xs) = (map_of (take n xs @ xs ! n # drop (Suc n) xs))(fst (xs ! n) := None)"
    by (cases "xs ! n", intro ext) (simp add: delete_at_def map_add_def split: option.splits)
  then show ?thesis using xs by simp
qed

section \<open>Slices, searches\<close>

text \<open>The elements of an array from \<open>i\<close> up to before \<open>j\<close>; reading past the end has no result.\<close>

definition slice_opt :: "'a list \<Rightarrow> nat \<Rightarrow> nat \<Rightarrow> 'a list option" where
  "slice_opt xs i j = (if j \<le> i then Some [] else if j \<le> length xs
     then Some (take (j - i) (drop i xs)) else None)"

lemma slice_opt_Some [simp]: "j \<le> length xs \<Longrightarrow> slice_opt xs i j = Some (take (j - i) (drop i xs))"
  by (simp add: slice_opt_def)

lemma slice_opt_prefix [simp]: "slice_opt xs i i = Some []"
  by (simp add: slice_opt_def)

text \<open>The position of the first element that satisfies a test.\<close>

fun index_of :: "('a \<Rightarrow> bool) \<Rightarrow> 'a list \<Rightarrow> nat option" where
  "index_of P [] = None"
| "index_of P (x # xs) = (if P x then Some 0 else map_option Suc (index_of P xs))"

lemma index_of_None: "index_of P xs = None \<longleftrightarrow> (\<forall>x \<in> set xs. \<not> P x)"
  by (induction xs) auto

lemma index_of_Some: "index_of P xs = Some i \<longleftrightarrow> i < length xs \<and> P (xs ! i) \<and> (\<forall>j < i. \<not> P (xs ! j))"
proof (induction xs arbitrary: i)
  case (Cons x xs)
  show ?case
  proof (cases "P x")
    case True
    then show ?thesis by (cases i) auto
  next
    case False
    then show ?thesis by (cases i) (auto simp: Cons less_Suc_eq_0_disj)
  qed
qed simp

lemma index_of_append:
  "index_of P (xs @ ys) = (case index_of P xs of Some i \<Rightarrow> Some i
     | None \<Rightarrow> map_option (\<lambda>i. length xs + i) (index_of P ys))"
proof (induction xs)
  case Nil
  then show ?case by (cases "index_of P ys") simp_all
next
  case (Cons x xs)
  then show ?case by (cases "index_of P xs"; cases "index_of P ys") simp_all
qed

text \<open>A loop that stops at the first element for which a test succeeds.\<close>

fun any_opt :: "('a \<Rightarrow> bool option) \<Rightarrow> 'a list \<Rightarrow> bool option" where
  "any_opt f [] = Some False"
| "any_opt f (x # xs) = do { b \<leftarrow> f x; if b then Some True else any_opt f xs }"

lemma any_opt_Some: "(\<And>x. x \<in> set xs \<Longrightarrow> f x = Some (P x)) \<Longrightarrow> any_opt f xs = Some (\<exists>x \<in> set xs. P x)"
  by (induction xs) auto

lemma any_opt_mono [partial_function_mono]:
  assumes "\<And>x. mono_option (\<lambda>f. F f x)"
  shows "mono_option (\<lambda>f. any_opt (F f) xs)"
  by (induction xs) (auto intro!: partial_function_mono assms)

section \<open>Memo tables\<close>

text \<open>
  The contract of a cache in front of a function: whatever was asked before, a request
  returns what the function computes. The pattern cache and the verb cache are both used
  under this contract.
\<close>

fun memo_run :: "('s \<Rightarrow> 'k \<Rightarrow> ('v \<times> 's) option) \<Rightarrow> 's \<Rightarrow> 'k list \<Rightarrow> ('v list \<times> 's) option" where
  "memo_run get s [] = Some ([], s)"
| "memo_run get s (k # ks) = do {
     (v, s1) \<leftarrow> get s k;
     (vs, s2) \<leftarrow> memo_run get s1 ks;
     Some (v # vs, s2) }"

locale memo_table =
  fixes get :: "'s \<Rightarrow> 'k \<Rightarrow> ('v \<times> 's) option"
    and compute :: "'k \<Rightarrow> 'v"
    and good :: "'s \<Rightarrow> bool"
    and key_ok :: "'k \<Rightarrow> bool"
  assumes get_correct: "good s \<Longrightarrow> key_ok k \<Longrightarrow> \<exists>s'. get s k = Some (compute k, s') \<and> good s'"
begin

lemma memo_run_correct:
  "good s \<Longrightarrow> \<forall>k \<in> set ks. key_ok k \<Longrightarrow>
    \<exists>s'. memo_run get s ks = Some (map compute ks, s') \<and> good s'"
proof (induction ks arbitrary: s)
  case (Cons k ks)
  then obtain s1 where s1: "get s k = Some (compute k, s1)" "good s1"
    by (meson get_correct list.set_intros(1))
  moreover obtain s' where "memo_run get s1 ks = Some (map compute ks, s')" "good s'"
    using Cons.IH[OF s1(2)] Cons.prems by auto
  ultimately show ?case by auto
qed simp

end

end
