(* ===== verification/Moo_Structures.thy ===== *)
theory Moo_Structures
  imports Moo_Prelude
begin

text \<open>
  The data model of src/include/structures.h: object numbers, error codes and the tagged
  union \<open>Var\<close>, with the parts of src/src/utils.c and src/src/numbers.c that every
  component uses on values: truth, comparison of floats, and the type codes that
  \<open>typeof()\<close> returns.

  A \<open>TYPE_STR\<close> holds the characters of a C string before its terminating NUL. A
  \<open>TYPE_LIST\<close> holds the elements \<open>v.list[1..n]\<close>; the length that the code keeps in
  \<open>v.list[0]\<close> is the length of the HOL list. A \<open>TYPE_FLOAT\<close> holds the 64 bits of an
  IEEE double.
\<close>

section \<open>Object numbers\<close>

abbreviation (input) SYSTEM_OBJECT :: objid where "SYSTEM_OBJECT \<equiv> 0"
abbreviation (input) NOTHING :: objid where "NOTHING \<equiv> -1"
abbreviation (input) AMBIGUOUS :: objid where "AMBIGUOUS \<equiv> -2"
abbreviation (input) FAILED_MATCH :: objid where "FAILED_MATCH \<equiv> -3"

section \<open>Errors\<close>

datatype error =
    E_NONE | E_TYPE | E_DIV | E_PERM | E_PROPNF | E_VERBNF | E_VARNF | E_INVIND
  | E_RECMOVE | E_MAXREC | E_RANGE | E_ARGS | E_NACC | E_INVARG | E_QUOTA | E_FLOAT

fun err_code :: "error \<Rightarrow> nat" where
  "err_code E_NONE = 0" | "err_code E_TYPE = 1" | "err_code E_DIV = 2" | "err_code E_PERM = 3"
| "err_code E_PROPNF = 4" | "err_code E_VERBNF = 5" | "err_code E_VARNF = 6"
| "err_code E_INVIND = 7" | "err_code E_RECMOVE = 8" | "err_code E_MAXREC = 9"
| "err_code E_RANGE = 10" | "err_code E_ARGS = 11" | "err_code E_NACC = 12"
| "err_code E_INVARG = 13" | "err_code E_QUOTA = 14" | "err_code E_FLOAT = 15"

section \<open>Values\<close>

datatype var =
    VInt int32 | VObj objid | VStr string | VErr error | VList "var list"
  | VClear | VNone | VCatch int32 | VFinally int32 | VFloat "64 word"

text \<open>The type codes stored in the database, \<open>v.type & TYPE_DB_MASK\<close>.\<close>

fun var_type :: "var \<Rightarrow> nat" where
  "var_type (VInt _) = 0" | "var_type (VObj _) = 1" | "var_type (VStr _) = 2"
| "var_type (VErr _) = 3" | "var_type (VList _) = 4" | "var_type VClear = 5"
| "var_type VNone = 6" | "var_type (VCatch _) = 7" | "var_type (VFinally _) = 8"
| "var_type (VFloat _) = 9"

fun is_float :: "var \<Rightarrow> bool" where
  "is_float (VFloat _) = True" | "is_float _ = False"

text \<open>
  The values a MOO program can hold: no \<open>TYPE_CLEAR\<close>, \<open>TYPE_NONE\<close> or handler marker
  anywhere inside.
\<close>

fun moo_value :: "var \<Rightarrow> bool" where
  "moo_value (VList xs) = (\<forall>x \<in> set xs. moo_value x)"
| "moo_value VClear = False" | "moo_value VNone = False"
| "moo_value (VCatch _) = False" | "moo_value (VFinally _) = False"
| "moo_value _ = True"

section \<open>IEEE doubles as bit patterns\<close>

definition dbl_abs :: "64 word \<Rightarrow> 64 word" where
  "dbl_abs d = d AND 0x7FFFFFFFFFFFFFFF"

definition dbl_neg :: "64 word \<Rightarrow> bool" where
  "dbl_neg d \<longleftrightarrow> bit d 63"

definition dbl_nan :: "64 word \<Rightarrow> bool" where
  "dbl_nan d \<longleftrightarrow> dbl_abs d > 0x7FF0000000000000"

definition dbl_eq :: "64 word \<Rightarrow> 64 word \<Rightarrow> bool" where
  "dbl_eq a b \<longleftrightarrow> \<not> dbl_nan a \<and> \<not> dbl_nan b \<and> (a = b \<or> (dbl_abs a = 0 \<and> dbl_abs b = 0))"

definition dbl_lt :: "64 word \<Rightarrow> 64 word \<Rightarrow> bool" where
  "dbl_lt a b \<longleftrightarrow> \<not> dbl_nan a \<and> \<not> dbl_nan b \<and>
     (if dbl_neg a then (if dbl_neg b then dbl_abs b < dbl_abs a
                         else dbl_abs a \<noteq> 0 \<or> dbl_abs b \<noteq> 0)
      else \<not> dbl_neg b \<and> dbl_abs a < dbl_abs b)"

text \<open>\<open>do_equals\<close> of numbers.c: called when at least one side is a float.\<close>

fun do_equals :: "var \<Rightarrow> var \<Rightarrow> bool" where
  "do_equals (VFloat a) (VFloat b) = dbl_eq a b"
| "do_equals _ _ = False"

lemma dbl_eq_sym: "dbl_eq a b = dbl_eq b a"
  by (auto simp: dbl_eq_def)

lemma dbl_eq_trans: "dbl_eq a b \<Longrightarrow> dbl_eq b c \<Longrightarrow> dbl_eq a c"
  by (auto simp: dbl_eq_def)

lemma dbl_eq_refl: "dbl_eq a a \<longleftrightarrow> \<not> dbl_nan a"
  by (auto simp: dbl_eq_def)

section \<open>Truth\<close>

fun is_true :: "var \<Rightarrow> bool" where
  "is_true (VInt n) = (n \<noteq> 0)"
| "is_true (VFloat d) = (\<not> dbl_eq d 0)"
| "is_true (VStr s) = (s \<noteq> [])"
| "is_true (VList xs) = (xs \<noteq> [])"
| "is_true _ = False"

section \<open>Packages: what a built-in function returns (include/functions.h)\<close>

text \<open>The message of an error (unparse.c).\<close>

fun unparse_error :: "error \<Rightarrow> string" where
  "unparse_error E_NONE = ''No error''"
| "unparse_error E_TYPE = ''Type mismatch''"
| "unparse_error E_DIV = ''Division by zero''"
| "unparse_error E_PERM = ''Permission denied''"
| "unparse_error E_PROPNF = ''Property not found''"
| "unparse_error E_VERBNF = ''Verb not found''"
| "unparse_error E_VARNF = ''Variable not found''"
| "unparse_error E_INVIND = ''Invalid indirection''"
| "unparse_error E_RECMOVE = ''Recursive move''"
| "unparse_error E_MAXREC = ''Too many verb calls''"
| "unparse_error E_RANGE = ''Range error''"
| "unparse_error E_ARGS = ''Incorrect number of arguments''"
| "unparse_error E_NACC = ''Move refused by destination''"
| "unparse_error E_INVARG = ''Invalid argument''"
| "unparse_error E_QUOTA = ''Resource limit exceeded''"
| "unparse_error E_FLOAT = ''Floating-point arithmetic error''"

text \<open>
  \<open>'k\<close> is the type of the data a built-in function saves over a verb call; \<open>BI_CALL\<close>
  carries the program counter it resumes at. \<open>BI_RAISE\<close> carries the code, the message and the
  value of the exception. The function that \<open>BI_SUSPEND\<close> carries with its data is one of the
  two the server has.
\<close>

datatype susp_proc = enqueue_suspended_task int32 | make_reading_task objid

datatype 'k package =
    BI_RETURN var | BI_RAISE var string var | BI_CALL nat "'k option" | BI_SUSPEND susp_proc | BI_KILL

definition make_var_pack :: "var \<Rightarrow> 'k package" where
  "make_var_pack v = BI_RETURN v"

definition make_raise_pack :: "error \<Rightarrow> string \<Rightarrow> var \<Rightarrow> 'k package" where
  "make_raise_pack err msg val = BI_RAISE (VErr err) msg val"

definition make_error_pack :: "error \<Rightarrow> 'k package" where
  "make_error_pack e = make_raise_pack e (unparse_error e) (VInt 0)"

definition no_var_pack :: "'k package" where
  "no_var_pack = make_var_pack (VInt 0)"

definition make_call_pack :: "nat \<Rightarrow> 'k option \<Rightarrow> 'k package" where
  "make_call_pack pc d = BI_CALL pc d"

definition tail_call_pack :: "'k package" where
  "tail_call_pack = make_call_pack 0 None"

definition make_suspend_pack :: "susp_proc \<Rightarrow> 'k package" where
  "make_suspend_pack proc = BI_SUSPEND proc"

definition make_kill_pack :: "'k package" where
  "make_kill_pack = BI_KILL"

lemmas pack_defs = make_var_pack_def make_raise_pack_def make_error_pack_def no_var_pack_def
  make_call_pack_def tail_call_pack_def make_suspend_pack_def make_kill_pack_def

end
