(* ===== verification/Moo_Strings.thy ===== *)
theory Moo_Strings
  imports Moo_Structures "HOL-Library.Sublist"
begin

text \<open>
  The string half of src/src/utils.c: comparison with ASCII case folding, verb-name matching
  and the string hash, with the declarative reading of a verb name that the matcher implements.

  A C string is the list of its characters before the NUL, so a test of the current character
  against NUL is the test for the empty list.
\<close>

section \<open>ASCII case folding (include/utils.h)\<close>

definition ch :: "char \<Rightarrow> nat" where
  "ch c = of_char c"

definition ascii_tolower :: "char \<Rightarrow> char" where
  "ascii_tolower c = (if ch CHR ''A'' \<le> ch c \<and> ch c \<le> ch CHR ''Z''
     then char_of (ch c + (ch CHR ''a'' - ch CHR ''A'')) else c)"

abbreviation fold_case :: "string \<Rightarrow> string" where
  "fold_case s \<equiv> map ascii_tolower s"

lemma ch_inject [simp]: "ch a = ch b \<longleftrightarrow> a = b"
  by (simp add: ch_def)

lemma ch_less_256 [simp]: "ch c < 256"
  by (simp add: ch_def)

lemma ch_not_ge_256 [simp]: "\<not> 256 \<le> ch c" "\<not> 256 \<le> int (ch c)"
  by (simp_all add: not_le)

lemma ch_char_of [simp]: "n < 256 \<Longrightarrow> ch (char_of n) = n"
  by (simp add: ch_def)

lemma char_of_ch [simp]: "char_of (ch c) = c"
  by (simp add: ch_def)

lemma ascii_tolower_idem [simp]: "ascii_tolower (ascii_tolower c) = ascii_tolower c"
  by (auto simp: ascii_tolower_def ch_def)

section \<open>Case-insensitive comparison\<close>

text \<open>\<open>mystrcasecmp\<close>: the difference of the first pair of folded characters that differ.\<close>

fun mystrcasecmp :: "string \<Rightarrow> string \<Rightarrow> int" where
  "mystrcasecmp [] [] = 0"
| "mystrcasecmp [] (t # ts) = 0 - int (ch (ascii_tolower t))"
| "mystrcasecmp (s # ss) [] = int (ch (ascii_tolower s))"
| "mystrcasecmp (s # ss) (t # ts) =
     (let a = ascii_tolower s; b = ascii_tolower t
      in if a = b then mystrcasecmp ss ts else int (ch a) - int (ch b))"

fun mystrncasecmp :: "string \<Rightarrow> string \<Rightarrow> nat \<Rightarrow> int" where
  "mystrncasecmp ss ts 0 = 0"
| "mystrncasecmp [] [] (Suc n) = 0"
| "mystrncasecmp [] (t # ts) (Suc n) = 0 - int (ch (ascii_tolower t))"
| "mystrncasecmp (s # ss) [] (Suc n) = int (ch (ascii_tolower s))"
| "mystrncasecmp (s # ss) (t # ts) (Suc n) =
     (let a = ascii_tolower s; b = ascii_tolower t
      in if a = b then mystrncasecmp ss ts n else int (ch a) - int (ch b))"

text \<open>The C library's \<open>strcmp\<close> and \<open>strncmp\<close>: the same walk without folding.\<close>

fun c_strcmp :: "string \<Rightarrow> string \<Rightarrow> int" where
  "c_strcmp [] [] = 0"
| "c_strcmp [] (t # ts) = 0 - int (ch t)"
| "c_strcmp (s # ss) [] = int (ch s)"
| "c_strcmp (s # ss) (t # ts) = (if s = t then c_strcmp ss ts else int (ch s) - int (ch t))"

fun c_strncmp :: "string \<Rightarrow> string \<Rightarrow> nat \<Rightarrow> int" where
  "c_strncmp ss ts 0 = 0"
| "c_strncmp [] [] (Suc n) = 0"
| "c_strncmp [] (t # ts) (Suc n) = 0 - int (ch t)"
| "c_strncmp (s # ss) [] (Suc n) = int (ch s)"
| "c_strncmp (s # ss) (t # ts) (Suc n) =
     (if s = t then c_strncmp ss ts n else int (ch s) - int (ch t))"

text \<open>A C string has no NUL inside.\<close>

definition c_string :: "string \<Rightarrow> bool" where
  "c_string s \<longleftrightarrow> (\<forall>c \<in> set s. ch c \<noteq> 0)"

lemma c_string_simps [simp]:
  "c_string []" "c_string (c # s) \<longleftrightarrow> ch c \<noteq> 0 \<and> c_string s"
  "c_string (s @ t) \<longleftrightarrow> c_string s \<and> c_string t"
  by (auto simp: c_string_def)

lemma ch_ascii_tolower_0 [simp]: "ch (ascii_tolower c) = 0 \<longleftrightarrow> ch c = 0"
  by (auto simp: ascii_tolower_def ch_def)

lemma mystrcasecmp_eq_0:
  "c_string s \<Longrightarrow> c_string t \<Longrightarrow> mystrcasecmp s t = 0 \<longleftrightarrow> fold_case s = fold_case t"
  by (induction s t rule: mystrcasecmp.induct) (auto simp: Let_def)

lemma c_strcmp_eq_0: "c_string s \<Longrightarrow> c_string t \<Longrightarrow> c_strcmp s t = 0 \<longleftrightarrow> s = t"
  by (induction s t rule: c_strcmp.induct) auto

lemma mystrcasecmp_refl [simp]: "mystrcasecmp s s = 0"
  by (induction s) auto

lemma mystrcasecmp_antisym: "mystrcasecmp t s = - mystrcasecmp s t"
  by (induction s t rule: mystrcasecmp.induct) (auto simp: Let_def)

lemma mystrncasecmp_eq_0:
  "c_string s \<Longrightarrow> c_string t \<Longrightarrow>
    mystrncasecmp s t n = 0 \<longleftrightarrow> take n (fold_case s) = take n (fold_case t)"
  by (induction s t n rule: mystrncasecmp.induct) (auto simp: Let_def)

lemma c_strncmp_eq_0:
  "c_string s \<Longrightarrow> c_string t \<Longrightarrow> c_strncmp s t n = 0 \<longleftrightarrow> take n s = take n t"
  by (induction s t n rule: c_strncmp.induct) auto

section \<open>Verb-name matching\<close>

text \<open>
  \<open>verbcasecmp(verb, word)\<close>: \<open>verb\<close> is a space-separated list of name patterns; a star
  in a pattern lets the word stop anywhere from there on, and a star at the end of a pattern
  lets the word go on.

  \<open>vc_scan\<close> is the inner \<open>while (1)\<close> loop of the code with the star-skipping loop folded
  in: it returns the two pointers and the \<open>star\<close> variable at the \<open>break\<close>.
\<close>

datatype star = StarNone | StarInner | StarEnd

fun vc_scan :: "string \<Rightarrow> string \<Rightarrow> star \<Rightarrow> string \<times> string \<times> star" where
  "vc_scan [] w star = ([], w, star)"
| "vc_scan (c # v) w star =
     (if c = CHR ''*''
      then vc_scan v w (if v = [] \<or> hd v = CHR '' '' then StarEnd else StarInner)
      else if c = CHR '' '' \<or> w = [] \<or> ascii_tolower (hd w) \<noteq> ascii_tolower c
      then (c # v, w, star)
      else vc_scan v (tl w) star)"

definition vc_hit :: "string \<times> string \<times> star \<Rightarrow> bool" where
  "vc_hit r = (case r of (v, w, star) \<Rightarrow>
     if w = [] then star \<noteq> StarNone \<or> v = [] \<or> hd v = CHR '' '' else star = StarEnd)"

definition vc_skip :: "string \<Rightarrow> string" where
  "vc_skip v = dropWhile (\<lambda>c. c = CHR '' '') (dropWhile (\<lambda>c. c \<noteq> CHR '' '') v)"

lemma length_vc_scan: "length (fst (vc_scan v w star)) \<le> length v"
  by (induction v w star rule: vc_scan.induct) auto

lemma length_vc_skip: "v \<noteq> [] \<Longrightarrow> length (vc_skip v) < length v"
proof (cases v)
  case (Cons c u)
  have *: "length (dropWhile P xs) \<le> length xs" for P and xs :: string
    by (rule length_dropWhile_le)
  show ?thesis
  proof (cases "c = CHR '' ''")
    case True
    with Cons show ?thesis by (simp add: vc_skip_def less_Suc_eq_le *)
  next
    case False
    with Cons show ?thesis
      by (simp add: vc_skip_def less_Suc_eq_le) (meson * le_trans)
  qed
qed simp

lemma vc_skip_scan_less:
  assumes "v \<noteq> []" shows "length (vc_skip (fst (vc_scan v w star))) < length v"
proof (cases "fst (vc_scan v w star) = []")
  case True
  with assms show ?thesis by (simp add: vc_skip_def)
next
  case False
  then show ?thesis using length_vc_skip length_vc_scan less_le_trans by blast
qed

function verbcasecmp :: "string \<Rightarrow> string \<Rightarrow> bool" where
  "verbcasecmp v word =
     (if v = [] then False
      else let r = vc_scan v word StarNone
           in if vc_hit r then True else verbcasecmp (vc_skip (fst r)) word)"
  by pat_completeness auto
termination
  by (relation "measure (\<lambda>(v, word). length v)") (auto simp: vc_skip_scan_less)

declare verbcasecmp.simps [simp del]

text \<open>
  The reading of a verb name. Stripped of its stars a pattern is a word; a word matches if it
  is that word, or a proper beginning of it that reaches at least to the first star, or, when
  the pattern ends in a star, any continuation of it. Case is ignored.
\<close>

definition verb_letters :: "string \<Rightarrow> string" where
  "verb_letters n = filter (\<lambda>c. c \<noteq> CHR ''*'') n"

definition star_pos :: "string \<Rightarrow> nat" where
  "star_pos n = length (takeWhile (\<lambda>c. c \<noteq> CHR ''*'') n)"

definition name_matches :: "string \<Rightarrow> string \<Rightarrow> bool" where
  "name_matches n w \<longleftrightarrow>
     (let L = fold_case (verb_letters n); W = fold_case w in
       prefix W L \<and> (W = L \<or> CHR ''*'' \<in> set n \<and> star_pos n \<le> length w) \<or>
       n \<noteq> [] \<and> last n = CHR ''*'' \<and> prefix L W)"

function verb_names :: "string \<Rightarrow> string list" where
  "verb_names v = (if v = [] then []
     else takeWhile (\<lambda>c. c \<noteq> CHR '' '') v # verb_names (vc_skip v))"
  by pat_completeness auto
termination
  by (relation "measure length") (auto simp: length_vc_skip)

declare verb_names.simps [simp del]

lemma vc_skip_scan: "vc_skip (fst (vc_scan v w star)) = vc_skip v"
  by (induction v w star rule: vc_scan.induct) (auto simp: vc_skip_def)

lemma vc_hit_scan:
  assumes "CHR '' '' \<notin> set n" "rest = [] \<or> hd rest = CHR '' ''" "st = StarEnd \<longrightarrow> n = []"
  shows "vc_hit (vc_scan (n @ rest) w st) \<longleftrightarrow>
    (let L = fold_case (verb_letters n); W = fold_case w in
       prefix W L \<and> (st \<noteq> StarNone \<or> W = L \<or> CHR ''*'' \<in> set n \<and> star_pos n \<le> length w) \<or>
       (if n = [] then st = StarEnd else last n = CHR ''*'') \<and> prefix L W)"
  using assms
proof (induction n arbitrary: w st)
  case Nil
  then show ?case
    by (cases rest) (auto simp: vc_hit_def verb_letters_def star_pos_def)
next
  case (Cons c n)
  have sp: "c \<noteq> CHR '' ''" using Cons.prems by auto
  have st: "st \<noteq> StarEnd" using Cons.prems by auto
  show ?case
  proof (cases "c = CHR ''*''")
    case True
    define st2 where "st2 = (if n @ rest = [] \<or> hd (n @ rest) = CHR '' '' then StarEnd else StarInner)"
    have e: "st2 = StarEnd \<longleftrightarrow> n = []" "st2 \<noteq> StarNone"
      using Cons.prems by (cases n; auto simp: st2_def)+
    have "CHR '' '' \<notin> set n" "st2 = StarEnd \<longrightarrow> n = []"
      using Cons.prems(1) e by auto
    note ih = Cons.IH[OF this(1) Cons.prems(2) this(2), of w]
    have "vc_hit (vc_scan (n @ rest) w st2) \<longleftrightarrow>
      (let L = fold_case (verb_letters n); W = fold_case w in
       prefix W L \<or> (n = [] \<or> last n = CHR ''*'') \<and> prefix L W)"
      unfolding ih Let_def using e by (cases "n = []") simp_all
    moreover have "vc_scan ((c # n) @ rest) w st = vc_scan (n @ rest) w st2"
      using True by (simp add: st2_def)
    moreover have "verb_letters (c # n) = verb_letters n" "star_pos (c # n) = 0"
      "last (c # n) = CHR ''*'' \<longleftrightarrow> n = [] \<or> last n = CHR ''*''"
      using True by (simp_all add: verb_letters_def star_pos_def)
    ultimately show ?thesis
      using True by (simp only: Let_def list.simps set_simps if_True if_False simp_thms le0 insert_iff)
  next
    case False
    have n: "verb_letters (c # n) = c # verb_letters n" "star_pos (c # n) = Suc (star_pos n)"
      "CHR ''*'' \<in> set (c # n) \<longleftrightarrow> CHR ''*'' \<in> set n"
      "last (c # n) = CHR ''*'' \<longleftrightarrow> n \<noteq> [] \<and> last n = CHR ''*''"
      using False by (simp_all add: verb_letters_def star_pos_def)
    show ?thesis
    proof (cases "w = [] \<or> ascii_tolower (hd w) \<noteq> ascii_tolower c")
      case True
      then have "vc_scan ((c # n) @ rest) w st = ((c # n) @ rest, w, st)"
        using False sp by simp
      then show ?thesis using False sp st True unfolding Let_def n
        by (cases w) (auto simp: vc_hit_def)
    next
      case w: False
      then obtain x u where w': "w = x # u" "ascii_tolower x = ascii_tolower c"
        by (cases w) auto
      have s: "vc_scan ((c # n) @ rest) w st = vc_scan (n @ rest) u st"
        using False sp w' by simp
      have "CHR '' '' \<notin> set n" "st = StarEnd \<longrightarrow> n = []"
        using Cons.prems(1) st by auto
      note ih = Cons.IH[OF this(1) Cons.prems(2) this(2), of u]
      show ?thesis unfolding s unfolding ih Let_def n unfolding w'(1) using w'(2) st by (cases "n = []") simp_all
    qed
  qed
qed

lemma verb_names_split:
  "\<exists>rest. v = takeWhile (\<lambda>c. c \<noteq> CHR '' '') v @ rest \<and> (rest = [] \<or> hd rest = CHR '' '')"
proof (intro exI conjI)
  let ?r = "dropWhile (\<lambda>c. c \<noteq> CHR '' '') v"
  show "v = takeWhile (\<lambda>c. c \<noteq> CHR '' '') v @ ?r" by simp
  show "?r = [] \<or> hd ?r = CHR '' ''"
    using hd_dropWhile[of "\<lambda>c. c \<noteq> CHR '' ''" v] by blast
qed

lemma vc_hit_first_name:
  "vc_hit (vc_scan v w StarNone) \<longleftrightarrow> name_matches (takeWhile (\<lambda>c. c \<noteq> CHR '' '') v) w"
proof -
  let ?n = "takeWhile (\<lambda>c. c \<noteq> CHR '' '') v"
  obtain rest where r: "v = ?n @ rest" "rest = [] \<or> hd rest = CHR '' ''"
    using verb_names_split by blast
  have "CHR '' '' \<notin> set ?n" using set_takeWhileD by fastforce
  from vc_hit_scan[OF this r(2), of StarNone w] show ?thesis
    by (simp add: r(1)[symmetric] name_matches_def Let_def)
qed

lemma verbcasecmp_iff_names:
  "verbcasecmp v w \<longleftrightarrow> (\<exists>n \<in> set (verb_names v). name_matches n w)"
proof (induction v w rule: verbcasecmp.induct)
  case (1 v w)
  show ?case
    by (subst verbcasecmp.simps, subst verb_names.simps)
       (use 1 in \<open>auto simp: Let_def vc_hit_first_name vc_skip_scan\<close>)
qed

section \<open>The string hash\<close>

fun str_hash_from :: "uint32 \<Rightarrow> string \<Rightarrow> uint32" where
  "str_hash_from ans [] = ans"
| "str_hash_from ans (c # s) =
     str_hash_from (push_bit 3 ans + drop_bit 28 ans + word_of_nat (ch (ascii_tolower c))) s"

definition str_hash :: "string \<Rightarrow> uint32" where
  "str_hash s = str_hash_from 0 s"

lemma str_hash_from_fold_case: "str_hash_from a (fold_case s) = str_hash_from a s"
  by (induction s arbitrary: a) auto

lemma str_hash_fold_case_cong: "fold_case s = fold_case t \<Longrightarrow> str_hash s = str_hash t"
  by (metis str_hash_def str_hash_from_fold_case)

lemma mystrcasecmp_hash:
  assumes "c_string s" "c_string t" "mystrcasecmp s t = 0"
  shows "str_hash s = str_hash t"
  using assms by (intro str_hash_fold_case_cong) (simp add: mystrcasecmp_eq_0)

end
