(* ===== verification/Moo_Utils.thy ===== *)
theory Moo_Utils
  imports Moo_Strings
begin

text \<open>
  The rest of src/src/utils.c: equality of values, sizes of values, substring search and
  replacement, and the binary-string encoding.
\<close>

section \<open>Equality of values\<close>

text \<open>
  \<open>equality(lhs, rhs, case_matters)\<close>; \<open>None\<close> is the panic on a type that is no MOO value.
  The shortcut for two pointers to one list is not visible on values: it can differ from the
  element-wise walk only on a list with a NaN inside, which \<open>IS_REAL\<close> keeps out.
\<close>

fun equality :: "var \<Rightarrow> var \<Rightarrow> bool \<Rightarrow> bool option"
  and equality_list :: "var list \<Rightarrow> var list \<Rightarrow> bool \<Rightarrow> bool option" where
  "equality lhs rhs case_matters =
     (if is_float lhs \<or> is_float rhs then Some (do_equals lhs rhs)
      else if var_type lhs \<noteq> var_type rhs then Some False
      else case (lhs, rhs) of
        (VInt a, VInt b) \<Rightarrow> Some (a = b)
      | (VObj a, VObj b) \<Rightarrow> Some (a = b)
      | (VErr a, VErr b) \<Rightarrow> Some (a = b)
      | (VStr s, VStr t) \<Rightarrow>
          Some (if case_matters then c_strcmp s t = 0 else mystrcasecmp s t = 0)
      | (VList xs, VList ys) \<Rightarrow>
          (if length xs \<noteq> length ys then Some False else equality_list xs ys case_matters)
      | _ \<Rightarrow> None)"
| "equality_list (x # xs) (y # ys) case_matters =
     (case equality x y case_matters of
        None \<Rightarrow> None
      | Some b \<Rightarrow> if b then equality_list xs ys case_matters else Some False)"
| "equality_list _ _ _ = Some True"

declare equality.simps [simp del]

lemma equality_simps [simp]:
  "equality (VInt a) (VInt b) cm = Some (a = b)"
  "equality (VObj p) (VObj q) cm = Some (p = q)"
  "equality (VErr e1) (VErr e2) cm = Some (e1 = e2)"
  "equality (VStr s) (VStr t) cm = Some (if cm then c_strcmp s t = 0 else mystrcasecmp s t = 0)"
  "equality (VFloat d1) (VFloat d2) cm = Some (dbl_eq d1 d2)"
  "equality (VList xs) (VList ys) cm =
     (if length xs \<noteq> length ys then Some False else equality_list xs ys cm)"
  by (simp_all add: equality.simps)

lemma equality_type_neq: "var_type v \<noteq> var_type w \<Longrightarrow> equality v w cm = Some False"
  by (cases v; cases w) (simp_all add: equality.simps)

text \<open>What equality decides: the case-folded values are the same.\<close>

fun val_eq :: "bool \<Rightarrow> var \<Rightarrow> var \<Rightarrow> bool" where
  "val_eq cm (VFloat a) (VFloat b) = dbl_eq a b"
| "val_eq cm (VStr s) (VStr t) = (if cm then s = t else fold_case s = fold_case t)"
| "val_eq cm (VList xs) (VList ys) = list_all2 (val_eq cm) xs ys"
| "val_eq cm v w = (v = w)"

text \<open>All strings of a value are C strings.\<close>

fun c_value :: "var \<Rightarrow> bool" where
  "c_value (VStr s) = c_string s"
| "c_value (VList xs) = (\<forall>x \<in> set xs. c_value x)"
| "c_value _ = True"

lemma equality_list_val_eq:
  assumes "\<And>x y. x \<in> set xs \<Longrightarrow> y \<in> set ys \<Longrightarrow> equality x y cm = Some (val_eq cm x y)"
    and "length xs = length ys"
  shows "equality_list xs ys cm = Some (list_all2 (val_eq cm) xs ys)"
  using assms(2,1) by (induction xs ys rule: list_induct2) auto

lemma equality_val_eq:
  "moo_value v \<Longrightarrow> c_value v \<Longrightarrow> c_value w \<Longrightarrow> equality v w cm = Some (val_eq cm v w)"
proof (induction v arbitrary: w)
  case (VList xs)
  show ?case
  proof (cases w)
    case (VList ys)
    show ?thesis
    proof (cases "length xs = length ys")
      case True
      then have "equality_list xs ys cm = Some (list_all2 (val_eq cm) xs ys)"
        using VList.IH VList.prems VList by (intro equality_list_val_eq) auto
      with True VList show ?thesis by simp
    qed (use VList in \<open>auto dest: list_all2_lengthD\<close>)
  qed (simp_all add: equality_type_neq)
next
  case (VStr s)
  then show ?case
    by (cases w) (simp_all add: equality_type_neq mystrcasecmp_eq_0 c_strcmp_eq_0)
qed (case_tac w; simp add: equality_type_neq)+

section \<open>Sizes\<close>

text \<open>\<open>sizeof(Var)\<close> and \<open>sizeof(double)\<close> on the 64-bit targets.\<close>

definition sizeof_Var :: nat where "sizeof_Var = 16"
definition sizeof_double :: nat where "sizeof_double = 8"

fun value_bytes :: "var \<Rightarrow> nat" where
  "value_bytes (VStr s) = sizeof_Var + (length s + 1)"
| "value_bytes (VFloat d) = sizeof_Var + sizeof_double"
| "value_bytes (VList xs) = sizeof_Var + sizeof_Var + sum_list (map value_bytes xs)"
| "value_bytes _ = sizeof_Var"

section \<open>Substring search\<close>

text \<open>The comparison at one position of the source.\<close>

definition str_at :: "bool \<Rightarrow> string \<Rightarrow> string \<Rightarrow> bool" where
  "str_at case_counts s what \<longleftrightarrow>
     (if case_counts then c_strncmp s what (length what)
      else mystrncasecmp s what (length what)) = 0"

definition folded :: "bool \<Rightarrow> string \<Rightarrow> string" where
  "folded case_counts s = (if case_counts then s else fold_case s)"

lemma length_folded [simp]: "length (folded cc s) = length s"
  by (simp add: folded_def)

lemma str_at_prefix:
  assumes "c_string s" "c_string what"
  shows "str_at cc s what \<longleftrightarrow> prefix (folded cc what) (folded cc s)"
proof -
  have "str_at cc s what \<longleftrightarrow>
      take (length what) (folded cc s) = take (length what) (folded cc what)"
    using assms by (simp add: str_at_def folded_def c_strncmp_eq_0 mystrncasecmp_eq_0)
  also have "\<dots> \<longleftrightarrow> prefix (folded cc what) (folded cc s)"
    by (metis append_eq_conv_conj length_folded order_refl prefix_def take_all)
  finally show ?thesis .
qed

text \<open>\<open>strindex\<close> walks up while at least \<open>strlen(what)\<close> characters remain.\<close>

fun strindex_loop :: "bool \<Rightarrow> string \<Rightarrow> string \<Rightarrow> nat \<Rightarrow> nat" where
  "strindex_loop cc what [] i = (if what = [] then i + 1 else 0)"
| "strindex_loop cc what (c # s) i =
     (if length (c # s) < length what then 0
      else if str_at cc (c # s) what then i + 1
      else strindex_loop cc what s (i + 1))"

definition strindex :: "string \<Rightarrow> string \<Rightarrow> bool \<Rightarrow> nat" where
  "strindex source what cc = strindex_loop cc what source 0"

text \<open>\<open>strrindex\<close> walks down from the last position where \<open>what\<close> fits.\<close>

fun strrindex_loop :: "bool \<Rightarrow> string \<Rightarrow> string \<Rightarrow> nat \<Rightarrow> nat" where
  "strrindex_loop cc what source i =
     (if str_at cc (drop i source) what then i + 1
      else case i of 0 \<Rightarrow> 0 | Suc j \<Rightarrow> strrindex_loop cc what source j)"

declare strrindex_loop.simps [simp del]

definition strrindex :: "string \<Rightarrow> string \<Rightarrow> bool \<Rightarrow> nat" where
  "strrindex source what cc =
     (if length source < length what then 0
      else strrindex_loop cc what source (length source - length what))"

text \<open>\<open>what\<close> occurs in the source at a (zero-based) position.\<close>

definition occurs_at :: "bool \<Rightarrow> string \<Rightarrow> string \<Rightarrow> nat \<Rightarrow> bool" where
  "occurs_at cc source what i \<longleftrightarrow>
     i + length what \<le> length source \<and> prefix (folded cc what) (folded cc (drop i source))"

lemma c_string_drop [simp]: "c_string s \<Longrightarrow> c_string (drop i s)"
  by (auto simp: c_string_def dest: in_set_dropD)

lemma occurs_at_str_at:
  "c_string source \<Longrightarrow> c_string what \<Longrightarrow> i + length what \<le> length source \<Longrightarrow>
    occurs_at cc source what i \<longleftrightarrow> str_at cc (drop i source) what"
  by (simp add: occurs_at_def str_at_prefix)

lemma strindex_loop_Nil [simp]: "strindex_loop cc [] s i = i + 1"
  by (cases s) (simp_all add: str_at_def)

lemma strindex_loop_spec:
  assumes "c_string s" "c_string what"
  shows "strindex_loop cc what s i =
    (if \<exists>k. occurs_at cc s what k then (LEAST k. occurs_at cc s what k) + i + 1 else 0)"
  using assms(1)
proof (induction s arbitrary: i)
  case Nil
  then show ?case by (auto simp: occurs_at_def folded_def Least_eq_0)
next
  case (Cons c s)
  show ?case
  proof (cases "length (c # s) < length what")
    case True
    then show ?thesis by (auto simp: occurs_at_def)
  next
    case len: False
    have O0: "occurs_at cc (c # s) what 0 \<longleftrightarrow> str_at cc (c # s) what"
      using occurs_at_str_at[of "c # s" what 0 cc] Cons.prems assms(2) len by simp
    have OS: "occurs_at cc (c # s) what (Suc k) \<longleftrightarrow> occurs_at cc s what k" for k
      by (simp add: occurs_at_def)
    show ?thesis
    proof (cases "str_at cc (c # s) what")
      case True
      then show ?thesis using len O0 by (auto simp: Least_eq_0)
    next
      case False
      then have n0: "\<not> occurs_at cc (c # s) what 0" using O0 by simp
      have ex: "(\<exists>k. occurs_at cc (c # s) what k) \<longleftrightarrow> (\<exists>k. occurs_at cc s what k)"
        using n0 OS by (metis not0_implies_Suc)
      have "(LEAST k. occurs_at cc (c # s) what k) = Suc (LEAST k. occurs_at cc s what k)"
        if "occurs_at cc s what k" for k
        using Least_Suc[of "occurs_at cc (c # s) what" "Suc k"] that n0 OS by simp
      then show ?thesis using False len Cons ex by auto
    qed
  qed
qed

lemma strrindex_loop_spec:
  assumes "c_string s" "c_string what" "i + length what \<le> length s"
  shows "let r = strrindex_loop cc what s i in
    (r = 0 \<longrightarrow> (\<forall>k \<le> i. \<not> occurs_at cc s what k)) \<and>
    (0 < r \<longrightarrow> r \<le> i + 1 \<and> occurs_at cc s what (r - 1) \<and>
      (\<forall>k. r - 1 < k \<longrightarrow> k \<le> i \<longrightarrow> \<not> occurs_at cc s what k))"
  using assms(3)
proof (induction i)
  case 0
  then show ?case using occurs_at_str_at[OF assms(1,2), of 0 cc]
    by (auto simp: strrindex_loop.simps[of cc what s 0])
next
  case (Suc i)
  have O: "occurs_at cc s what (Suc i) \<longleftrightarrow> str_at cc (drop (Suc i) s) what"
    using occurs_at_str_at[OF assms(1,2)] Suc.prems by blast
  show ?case
  proof (cases "str_at cc (drop (Suc i) s) what")
    case True
    then show ?thesis using O by (simp add: strrindex_loop.simps[of cc what s "Suc i"])
  next
    case False
    then have e: "strrindex_loop cc what s (Suc i) = strrindex_loop cc what s i"
      by (simp add: strrindex_loop.simps[of cc what s "Suc i"])
    have "i + length what \<le> length s" using Suc.prems by simp
    note IH = Suc.IH[OF this, unfolded Let_def]
    show ?thesis unfolding Let_def e
      using IH False O by (metis le_SucE le_SucI trans_le_add1 add_Suc)
  qed
qed

section \<open>Replacement\<close>

text \<open>
  \<open>strsub\<close>: each leftmost occurrence of \<open>what\<close> is replaced and skipped. With an empty
  \<open>what\<close> the source pointer never moves and the loop does not end: \<open>None\<close>.
\<close>

partial_function (option) strsub_loop ::
  "bool \<Rightarrow> string \<Rightarrow> string \<Rightarrow> string \<Rightarrow> string \<Rightarrow> string option" where
  "strsub_loop cc what with source str =
     (case source of
        [] \<Rightarrow> Some str
      | c # rest \<Rightarrow>
          if str_at cc source what
          then strsub_loop cc what with (drop (length what) source) (str @ with)
          else strsub_loop cc what with rest (str @ [c]))"

declare strsub_loop.simps [code]

definition strsub :: "string \<Rightarrow> string \<Rightarrow> string \<Rightarrow> bool \<Rightarrow> string option" where
  "strsub source what with cc = strsub_loop cc what with source []"

text \<open>The result of a replacement, as a relation: \<open>replaced cc what with s r\<close>.\<close>

inductive replaced :: "bool \<Rightarrow> string \<Rightarrow> string \<Rightarrow> string \<Rightarrow> string \<Rightarrow> bool"
  for cc what "with" where
  replaced_none: "\<forall>i. \<not> occurs_at cc s what i \<Longrightarrow> replaced cc what with s s"
| replaced_first: "occurs_at cc s what i \<Longrightarrow> \<forall>j < i. \<not> occurs_at cc s what j \<Longrightarrow>
    replaced cc what with (drop (i + length what) s) r \<Longrightarrow>
    replaced cc what with s (take i s @ with @ r)"

lemma strsub_loop_Nil [simp]: "strsub_loop cc what with [] str = Some str"
  by (simp add: strsub_loop.simps)

lemma strsub_loop_Cons:
  "strsub_loop cc what with (c # s) str =
     (if str_at cc (c # s) what
      then strsub_loop cc what with (drop (length what) (c # s)) (str @ with)
      else strsub_loop cc what with s (str @ [c]))"
  by (subst strsub_loop.simps) simp

lemma occurs_at_Suc [simp]: "occurs_at cc (c # s) what (Suc k) \<longleftrightarrow> occurs_at cc s what k"
  by (simp add: occurs_at_def)

lemma replaced_Cons:
  assumes n0: "\<not> occurs_at cc (c # s) what 0" and r: "replaced cc what with s r"
  shows "replaced cc what with (c # s) (c # r)"
  using r
proof cases
  case replaced_none
  then have "\<forall>i. \<not> occurs_at cc (c # s) what i"
    using n0 by (metis not0_implies_Suc occurs_at_Suc)
  from replaced.replaced_none[OF this, of "with"] show ?thesis using replaced_none by simp
next
  case (replaced_first i r')
  have "replaced cc what with (c # s) (take (Suc i) (c # s) @ with @ r')"
  proof (rule replaced.replaced_first)
    show "\<forall>j < Suc i. \<not> occurs_at cc (c # s) what j"
      using replaced_first n0 by (metis less_Suc_eq_0_disj occurs_at_Suc)
  qed (use replaced_first in simp_all)
  then show ?thesis using replaced_first by simp
qed

lemma strsub_loop_replaced:
  assumes "what \<noteq> []" "c_string what" "c_string s"
  shows "\<exists>r. strsub_loop cc what with s str = Some (str @ r) \<and> replaced cc what with s r"
  using assms(3)
proof (induction "length s" arbitrary: s str rule: less_induct)
  case less
  show ?case
  proof (cases s)
    case Nil
    have "\<forall>i. \<not> occurs_at cc [] what i" using assms(1) by (simp add: occurs_at_def)
    from replaced.replaced_none[OF this] show ?thesis using Nil by auto
  next
    case (Cons c u)
    show ?thesis
    proof (cases "str_at cc s what")
      case True
      then have p: "prefix (folded cc what) (folded cc s)"
        using str_at_prefix assms(2) less.prems by simp
      then have "length what \<le> length s"
        using prefix_length_le by (metis length_folded)
      with p have o: "occurs_at cc s what 0" by (simp add: occurs_at_def)
      have "length (drop (length what) s) < length s"
        using assms(1) Cons by (simp add: diff_less)
      from less.hyps[OF this, of "str @ with"] less.prems obtain r where
        "strsub_loop cc what with (drop (length what) s) (str @ with) = Some (str @ with @ r)"
        "replaced cc what with (drop (0 + length what) s) r" by auto
      with replaced.replaced_first[OF o _ this(2)] True Cons show ?thesis
        by (auto simp: strsub_loop_Cons)
    next
      case False
      then have n: "\<not> occurs_at cc s what 0"
        using occurs_at_str_at[of s what 0] less.prems assms(2)
        by (metis drop0 occurs_at_def)
      from less.hyps[of u "str @ [c]"] less.prems Cons obtain r where
        "strsub_loop cc what with u (str @ [c]) = Some (str @ [c] @ r)"
        "replaced cc what with u r" by auto
      then show ?thesis using False Cons n replaced_Cons[of cc c u what "with" r]
        by (auto simp: strsub_loop_Cons)
    qed
  qed
qed

lemma str_at_Nil [simp]: "str_at cc s []"
  by (simp add: str_at_def)

lemma strsub_loop_Some_what:
  assumes "strsub_loop cc what with s str = Some r"
  shows "what = [] \<longrightarrow> s = []"
proof (rule strsub_loop.raw_induct
    [where P = "\<lambda>cc what with s str r. what = [] \<longrightarrow> s = []", OF _ assms])
  fix f :: "bool \<Rightarrow> string \<Rightarrow> string \<Rightarrow> string \<Rightarrow> string \<Rightarrow> string option"
    and cc what "with" source str r
  assume IH: "\<And>cc what with s str r. f cc what with s str = Some r \<Longrightarrow> what = [] \<longrightarrow> s = []"
    and eq: "(case source of [] \<Rightarrow> Some str
      | c # rest \<Rightarrow>
          if str_at cc source what
          then f cc what with (drop (length what) source) (str @ with)
          else f cc what with rest (str @ [c])) = Some r"
  show "what = [] \<longrightarrow> source = []"
  proof (cases source)
    case (Cons c rest)
    show ?thesis
    proof
      assume "what = []"
      with eq Cons have "f cc what with source (str @ with) = Some r" by simp
      with IH \<open>what = []\<close> show "source = []" by blast
    qed
  qed simp
qed

section \<open>The binary-string encoding\<close>

text \<open>\<open>isgraph\<close> and \<open>toupper\<close> of the C locale.\<close>

definition isgraph :: "char \<Rightarrow> bool" where
  "isgraph c \<longleftrightarrow> 33 \<le> ch c \<and> ch c \<le> 126"

definition toupper :: "char \<Rightarrow> char" where
  "toupper c = (if ch CHR ''a'' \<le> ch c \<and> ch c \<le> ch CHR ''z'' then char_of (ch c - 32) else c)"

definition hex_digit :: "nat \<Rightarrow> char" where
  "hex_digit n = (if n < 10 then char_of (48 + n) else char_of (87 + n))"

definition raw_byte_to_binary :: "char \<Rightarrow> string" where
  "raw_byte_to_binary c =
     (if c \<noteq> CHR ''~'' \<and> (isgraph c \<or> c = CHR '' '') then [c]
      else [CHR ''~'', hex_digit (ch c div 16), hex_digit (ch c mod 16)])"

definition raw_bytes_to_binary :: "string \<Rightarrow> string" where
  "raw_bytes_to_binary buffer = concat (map raw_byte_to_binary buffer)"

text \<open>One step of the inner loop: the value of a hexadecimal digit after \<open>toupper\<close>.\<close>

definition hex_value :: "char \<Rightarrow> nat option" where
  "hex_value c =
     (let c = ch (toupper c) in
      if 48 \<le> c \<and> c \<le> 57 then Some (c - 48)
      else if 65 \<le> c \<and> c \<le> 70 then Some (c - 65 + 10)
      else None)"

text \<open>
  Here \<open>None\<close> is the null pointer that the code returns for an ill-formed string. Reading
  the terminating NUL where a digit is due is such a case.
\<close>

fun binary_to_raw_bytes :: "string \<Rightarrow> string option" where
  "binary_to_raw_bytes [] = Some []"
| "binary_to_raw_bytes (c # s) =
     (if c \<noteq> CHR ''~'' then map_option (\<lambda>r. c # r) (binary_to_raw_bytes s)
      else case s of
        a # b # t \<Rightarrow>
          (case hex_value a of
             None \<Rightarrow> None
           | Some x \<Rightarrow>
               (case hex_value b of
                  None \<Rightarrow> None
                | Some y \<Rightarrow> map_option (\<lambda>r. char_of (x * 16 + y) # r) (binary_to_raw_bytes t)))
      | _ \<Rightarrow> None)"

lemma hex_value_digit: "n < 16 \<Longrightarrow> hex_value (hex_digit n) = Some n"
  by (auto simp: hex_value_def hex_digit_def toupper_def Let_def)
     (simp_all add: ch_def)

lemma binary_to_raw_byte:
  "binary_to_raw_bytes (raw_byte_to_binary c @ s) =
    map_option (\<lambda>r. c # r) (binary_to_raw_bytes s)"
proof -
  have "ch c div 16 < 16" "ch c mod 16 < 16"
    using ch_less_256[of c] by (simp_all add: less_mult_imp_div_less)
  then show ?thesis
    by (simp add: raw_byte_to_binary_def hex_value_digit)
qed

lemma binary_to_raw_bytes_to_binary:
  "binary_to_raw_bytes (raw_bytes_to_binary bs) = Some bs"
  by (induction bs) (simp_all add: raw_bytes_to_binary_def binary_to_raw_byte)

lemma hex_digit_graph: "n < 16 \<Longrightarrow> isgraph (hex_digit n)"
  by (auto simp: isgraph_def hex_digit_def ch_def)

lemma raw_bytes_to_binary_printable:
  "c \<in> set (raw_bytes_to_binary bs) \<Longrightarrow> isgraph c \<or> c = CHR '' ''"
proof -
  have "isgraph c \<or> c = CHR '' ''" if "c \<in> set (raw_byte_to_binary b)" for b
  proof -
    have "ch b div 16 < 16" "ch b mod 16 < 16" "isgraph CHR ''~''"
      using ch_less_256[of b] by (simp_all add: less_mult_imp_div_less isgraph_def ch_def)
    then show ?thesis using that
      by (auto simp: raw_byte_to_binary_def hex_digit_graph split: if_splits)
  qed
  then show "c \<in> set (raw_bytes_to_binary bs) \<Longrightarrow> isgraph c \<or> c = CHR '' ''"
    by (auto simp: raw_bytes_to_binary_def)
qed

end
