(* ===== verification/Moo_List.thy ===== *)
theory Moo_List
  imports Moo_Utils
begin

text \<open>
  src/src/list.c: the operations on MOO lists and strings, and the built-in functions over
  them. A list value is its elements; positions are the C \<open>int\<close>s of the code, so a position
  outside the list makes the model's result \<open>None\<close>, as the code would then read or write
  outside its array. The in-place branch of \<open>doinsert\<close>, taken when the list has one
  reference, computes the same value as the copying branch and is not told apart here.
\<close>

section \<open>List operations\<close>

definition new_list :: "int \<Rightarrow> var list option" where
  "new_list sz = (if sz < 0 then None else Some (replicate (nat sz) VNone))"

definition len :: "'a list \<Rightarrow> int" where
  "len xs = int (length xs)"

fun ismember_loop :: "var \<Rightarrow> var list \<Rightarrow> bool \<Rightarrow> int \<Rightarrow> int option" where
  "ismember_loop lhs [] cm i = Some 0"
| "ismember_loop lhs (x # xs) cm i =
     (case equality lhs x cm of
        None \<Rightarrow> None
      | Some b \<Rightarrow> if b then Some i else ismember_loop lhs xs cm (i + 1))"

definition ismember :: "var \<Rightarrow> var list \<Rightarrow> bool \<Rightarrow> int option" where
  "ismember lhs rhs cm = ismember_loop lhs rhs cm 1"

definition doinsert :: "var list \<Rightarrow> var \<Rightarrow> int \<Rightarrow> var list option" where
  "doinsert list value pos =
     (if 1 \<le> pos \<and> pos \<le> len list + 1 then Some (insert_at (nat (pos - 1)) value list) else None)"

definition listinsert :: "var list \<Rightarrow> var \<Rightarrow> int \<Rightarrow> var list option" where
  "listinsert list value pos =
     doinsert list value (if pos \<le> 0 then 1 else if pos > len list then len list + 1 else pos)"

definition listappend :: "var list \<Rightarrow> var \<Rightarrow> var list option" where
  "listappend list value = doinsert list value (len list + 1)"

definition listdelete :: "var list \<Rightarrow> int \<Rightarrow> var list option" where
  "listdelete list pos =
     (if 1 \<le> pos \<and> pos \<le> len list then Some (delete_at (nat (pos - 1)) list) else None)"

definition listset :: "var list \<Rightarrow> var \<Rightarrow> int \<Rightarrow> var list option" where
  "listset list value pos = upd_opt list (pos - 1) value"

definition listconcat :: "var list \<Rightarrow> var list \<Rightarrow> var list" where
  "listconcat first second = first @ second"

definition setadd :: "var list \<Rightarrow> var \<Rightarrow> var list option" where
  "setadd list value = do {
     i \<leftarrow> ismember value list False;
     if i \<noteq> 0 then Some list else listappend list value }"

definition setremove :: "var list \<Rightarrow> var \<Rightarrow> var list option" where
  "setremove list value = do {
     i \<leftarrow> ismember value list False;
     if i \<noteq> 0 then listdelete list i else Some list }"

text \<open>
  \<open>listrangeset\<close> and \<open>strrangeset\<close> copy \<open>lenleft\<close> elements of the base, the value, and
  \<open>lenright\<close> elements of the base from \<open>to + 1\<close>. Copying past either end of the base is
  \<open>None\<close>.
\<close>

definition rangeset :: "'a list \<Rightarrow> int \<Rightarrow> int \<Rightarrow> 'a list \<Rightarrow> 'a list option" where
  "rangeset base from to value =
     (let lenleft = (if from > 1 then from - 1 else 0);
          lenright = (if len base > to then len base - to else 0)
      in if lenleft \<le> len base \<and> (lenright = 0 \<or> 0 \<le> to)
         then Some (take (nat lenleft) base @ value @ (if lenright = 0 then [] else drop (nat to) base))
         else None)"

definition listrangeset :: "var list \<Rightarrow> int \<Rightarrow> int \<Rightarrow> var list \<Rightarrow> var list option" where
  "listrangeset base from to value = rangeset base from to value"

definition strrangeset :: "string \<Rightarrow> int \<Rightarrow> int \<Rightarrow> string \<Rightarrow> string option" where
  "strrangeset base from to value = rangeset base from to value"

definition subrange :: "'a list \<Rightarrow> int \<Rightarrow> int \<Rightarrow> 'a list option" where
  "subrange xs lower upper =
     (if lower > upper then Some []
      else if 1 \<le> lower \<and> upper \<le> len xs
      then Some (take (nat (upper - lower + 1)) (drop (nat (lower - 1)) xs))
      else None)"

definition sublist :: "var list \<Rightarrow> int \<Rightarrow> int \<Rightarrow> var list option" where
  "sublist list lower upper = subrange list lower upper"

definition substr :: "string \<Rightarrow> int \<Rightarrow> int \<Rightarrow> string option" where
  "substr str lower upper = subrange str lower upper"

definition strget :: "string \<Rightarrow> int \<Rightarrow> string option" where
  "strget str i = map_option (\<lambda>c. [c]) (nth_opt str (i - 1))"

section \<open>What the operations compute\<close>

lemma len_simps [simp]:
  "len [] = 0" "len (x # xs) = len xs + 1" "len (xs @ ys) = len xs + len ys" "0 \<le> len xs"
  by (simp_all add: len_def)

lemma ismember_loop_spec:
  assumes "moo_value v" "c_value v" "\<forall>x \<in> set xs. c_value x"
  shows "ismember_loop v xs cm i =
    Some (if \<exists>x \<in> set xs. val_eq cm v x
          then i + len (takeWhile (\<lambda>x. \<not> val_eq cm v x) xs) else 0)"
  using assms(3) by (induction xs arbitrary: i) (auto simp: equality_val_eq[OF assms(1,2)])

lemma ismember_spec:
  assumes "moo_value v" "c_value v" "\<forall>x \<in> set xs. c_value x"
  shows "ismember v xs cm =
    Some (if \<exists>x \<in> set xs. val_eq cm v x
          then 1 + len (takeWhile (\<lambda>x. \<not> val_eq cm v x) xs) else 0)"
  by (simp add: ismember_def ismember_loop_spec[OF assms])

lemma listappend_Some [simp]: "listappend xs v = Some (xs @ [v])"
  by (simp add: listappend_def doinsert_def insert_at_def len_def)

lemma listinsert_Some:
  "listinsert xs v pos = Some (insert_at (nat (min (len xs) (max 0 (pos - 1)))) v xs)"
  by (auto simp: listinsert_def doinsert_def len_def min_def max_def)

lemma setadd_spec:
  assumes "moo_value v" "c_value v" "\<forall>x \<in> set xs. c_value x"
  shows "setadd xs v = Some (if \<exists>x \<in> set xs. val_eq False v x then xs else xs @ [v])"
proof -
  have "0 \<le> len (takeWhile P xs)" for P by simp
  then show ?thesis
    by (auto simp: setadd_def ismember_spec[OF assms] add_nonneg_eq_0_iff)
qed

lemma takeWhile_delete_at:
  assumes "x \<in> set xs" "P x"
  shows "\<exists>ys y zs. xs = ys @ y # zs \<and> P y \<and> (\<forall>z \<in> set ys. \<not> P z) \<and>
    length (takeWhile (\<lambda>x. \<not> P x) xs) = length ys"
proof -
  obtain ys y zs where s: "xs = ys @ y # zs" "P y" "\<forall>z \<in> set ys. \<not> P z"
    using split_list_first_prop[of xs P] assms by blast
  then have "takeWhile (\<lambda>x. \<not> P x) xs = ys" by (simp add: takeWhile_append2)
  with s show ?thesis by auto
qed

lemma setremove_spec:
  assumes "moo_value v" "c_value v" "\<forall>x \<in> set xs. c_value x"
  shows "setremove xs v = Some xs \<and> (\<forall>x \<in> set xs. \<not> val_eq False v x) \<or>
    (\<exists>ys y zs. xs = ys @ y # zs \<and> val_eq False v y \<and> (\<forall>z \<in> set ys. \<not> val_eq False v z) \<and>
      setremove xs v = Some (ys @ zs))"
proof (cases "\<exists>x \<in> set xs. val_eq False v x")
  case True
  then obtain ys y zs where s: "xs = ys @ y # zs" "val_eq False v y"
      "\<forall>z \<in> set ys. \<not> val_eq False v z"
      "length (takeWhile (\<lambda>x. \<not> val_eq False v x) xs) = length ys"
    using takeWhile_delete_at[of _ xs "val_eq False v"] by blast
  have "ismember v xs False = Some (1 + int (length ys))"
    using True ismember_spec[OF assms, of False] s(4) by (simp add: len_def)
  then have "setremove xs v = listdelete xs (1 + int (length ys))"
    by (simp add: setremove_def)
  also have "\<dots> = Some (ys @ zs)"
    using s(1) by (simp add: listdelete_def len_def delete_at_def)
  finally show ?thesis using s by blast
next
  case False
  then show ?thesis by (simp add: setremove_def ismember_spec[OF assms])
qed

text \<open>Range replacement: the length of the result and where its elements come from.\<close>

lemma rangeset_spec:
  assumes "1 \<le> from" "from \<le> len base + 1" "0 \<le> to" "to \<le> len base"
  shows "rangeset base from to value =
    Some (take (nat (from - 1)) base @ value @ drop (nat to) base)"
  using assms by (auto simp: rangeset_def len_def Let_def)

lemma subrange_spec:
  "1 \<le> lower \<Longrightarrow> lower \<le> upper \<Longrightarrow> upper \<le> len xs \<Longrightarrow>
    subrange xs lower upper = Some (take (nat (upper - lower + 1)) (drop (nat (lower - 1)) xs))"
  by (simp add: subrange_def)

lemma rangeset_self:
  assumes "1 \<le> from" "from \<le> to + 1" "to \<le> len base" "subrange base from to = Some mid"
  shows "rangeset base from to mid = Some base"
proof -
  have "mid = take (nat (to - from + 1)) (drop (nat (from - 1)) base)"
    using assms by (auto simp: subrange_def split: if_splits)
  moreover have "nat (from - 1) + nat (to - from + 1) = nat to"
    using assms by (simp flip: nat_add_distrib)
  ultimately have "take (nat (from - 1)) base @ mid @ drop (nat to) base = base"
    by (metis append.assoc append_take_drop_id take_add)
  with rangeset_spec[of "from" base to mid] assms show ?thesis by simp
qed

lemma subrange_rangeset:
  assumes "1 \<le> from" "from \<le> len base + 1" "0 \<le> to" "to \<le> len base"
    "rangeset base from to value = Some r"
  shows "subrange r from (from + len value - 1) = Some value"
proof -
  have r: "r = take (nat (from - 1)) base @ value @ drop (nat to) base"
    using assms by (simp add: rangeset_spec)
  have "length (take (nat (from - 1)) base) = nat (from - 1)"
    using assms by (simp add: len_def)
  with r assms(1) show ?thesis by (auto simp: subrange_def len_def)
qed

end
