(* ===== verification/Bf_List.thy ===== *)
theory Bf_List
  imports Moo_List
begin

text \<open>
  The built-in functions of src/src/list.c over lists and strings, the conversion of values to
  strings, and the error names of src/src/unparse.c.

  A built-in takes the elements of its argument list. \<open>call_bi_func\<close> (src/src/functions.c)
  has checked their number and types before, so the argument shapes that cannot occur are
  \<open>None\<close>. \<open>%g\<close> formatting of doubles is the C library's and is the parameter
  \<open>fmt_g\<close>.
\<close>

type_synonym pack = "unit package"

section \<open>Errors as text\<close>

fun error_name :: "error \<Rightarrow> string" where
  "error_name E_NONE = ''E_NONE''" | "error_name E_TYPE = ''E_TYPE''"
| "error_name E_DIV = ''E_DIV''" | "error_name E_PERM = ''E_PERM''"
| "error_name E_PROPNF = ''E_PROPNF''" | "error_name E_VERBNF = ''E_VERBNF''"
| "error_name E_VARNF = ''E_VARNF''" | "error_name E_INVIND = ''E_INVIND''"
| "error_name E_RECMOVE = ''E_RECMOVE''" | "error_name E_MAXREC = ''E_MAXREC''"
| "error_name E_RANGE = ''E_RANGE''" | "error_name E_ARGS = ''E_ARGS''"
| "error_name E_NACC = ''E_NACC''" | "error_name E_INVARG = ''E_INVARG''"
| "error_name E_QUOTA = ''E_QUOTA''" | "error_name E_FLOAT = ''E_FLOAT''"

section \<open>Values as text\<close>

text \<open>\<open>printf("%d")\<close>.\<close>

fun show_nat :: "nat \<Rightarrow> string" where
  "show_nat n = (if n < 10 then [char_of (48 + n)] else show_nat (n div 10) @ [char_of (48 + n mod 10)])"

declare show_nat.simps [simp del]

definition show_int :: "int \<Rightarrow> string" where
  "show_int i = (if i < 0 then CHR ''-'' # show_nat (nat (- i)) else show_nat (nat i))"

text \<open>\<open>list2str\<close>: the values run together; an impossible type panics.\<close>

fun value2str :: "(64 word \<Rightarrow> string) \<Rightarrow> var \<Rightarrow> string option" where
  "value2str fmt_g (VInt n) = Some (show_int (sint n))"
| "value2str fmt_g (VObj obj) = Some (CHR ''#'' # show_int obj)"
| "value2str fmt_g (VStr s) = Some s"
| "value2str fmt_g (VErr e) = Some (unparse_error e)"
| "value2str fmt_g (VFloat d) = Some (fmt_g d)"
| "value2str fmt_g (VList xs) = Some ''{list}''"
| "value2str fmt_g _ = None"

fun list2str :: "(64 word \<Rightarrow> string) \<Rightarrow> var list \<Rightarrow> string option" where
  "list2str fmt_g [] = Some []"
| "list2str fmt_g (v # vs) = do {
     s \<leftarrow> value2str fmt_g v; t \<leftarrow> list2str fmt_g vs; Some (s @ t) }"

text \<open>\<open>print_to_stream\<close>, the literal form.\<close>

definition quote_chars :: "string \<Rightarrow> string" where
  "quote_chars s = concat (map (\<lambda>c. if c = CHR 34 \<or> c = CHR 92 then [CHR 92, c] else [c]) s)"

fun sep_by :: "string list \<Rightarrow> string" where
  "sep_by [] = []"
| "sep_by [s] = s"
| "sep_by (s # ss) = s @ '', '' @ sep_by ss"

fun value_to_literal :: "(64 word \<Rightarrow> string) \<Rightarrow> var \<Rightarrow> string" where
  "value_to_literal fmt_g (VInt n) = show_int (sint n)"
| "value_to_literal fmt_g (VObj obj) = CHR ''#'' # show_int obj"
| "value_to_literal fmt_g (VErr e) = error_name e"
| "value_to_literal fmt_g (VFloat d) = fmt_g d"
| "value_to_literal fmt_g (VStr s) = CHR 34 # quote_chars s @ [CHR 34]"
| "value_to_literal fmt_g (VList xs) =
     CHR ''{'' # sep_by (map (value_to_literal fmt_g) xs) @ ''}''"
| "value_to_literal fmt_g _ = ''>>Unknown value<<''"

text \<open>
  The string branch of the lexer (templates/parser.y), entered after the opening quote: the
  characters of the token and the rest of the input; \<open>None\<close> is the error
  \<open>Missing quote\<close>.
\<close>

fun lex_string :: "string \<Rightarrow> (string \<times> string) option" where
  "lex_string [] = None"
| "lex_string (c # s) =
     (if c = CHR 34 then Some ([], s)
      else if c = CHR 92 then
        (case s of [] \<Rightarrow> None
         | d # t \<Rightarrow> if d = CHR 10 then None
             else map_option (\<lambda>(tok, rest). (d # tok, rest)) (lex_string t))
      else if c = CHR 10 then None
      else map_option (\<lambda>(tok, rest). (c # tok, rest)) (lex_string s))"

lemma lex_string_quote_chars:
  "CHR 10 \<notin> set s \<Longrightarrow> lex_string (quote_chars s @ CHR 34 # rest) = Some (s, rest)"
  by (induction s) (auto simp: quote_chars_def)

section \<open>List built-ins\<close>

fun bf_length :: "var list \<Rightarrow> pack option" where
  "bf_length [VList xs] = Some (make_var_pack (VInt (word_of_nat (length xs))))"
| "bf_length [VStr s] = Some (make_var_pack (VInt (word_of_nat (length s))))"
| "bf_length [_] = Some (make_error_pack E_TYPE)"
| "bf_length _ = None"

fun bf_setadd :: "var list \<Rightarrow> pack option" where
  "bf_setadd [VList xs, v] = map_option (make_var_pack \<circ> VList) (setadd xs v)"
| "bf_setadd _ = None"

fun bf_setremove :: "var list \<Rightarrow> pack option" where
  "bf_setremove [VList xs, v] = map_option (make_var_pack \<circ> VList) (setremove xs v)"
| "bf_setremove _ = None"

text \<open>The position \<open>arglist[3] + 1\<close> is computed in 32 bits.\<close>

fun bf_listappend :: "var list \<Rightarrow> pack option" where
  "bf_listappend [VList xs, v] = map_option (make_var_pack \<circ> VList) (listappend xs v)"
| "bf_listappend [VList xs, v, VInt n] =
     map_option (make_var_pack \<circ> VList) (listinsert xs v (sint (n + 1)))"
| "bf_listappend _ = None"

fun bf_listinsert :: "var list \<Rightarrow> pack option" where
  "bf_listinsert [VList xs, v] = map_option (make_var_pack \<circ> VList) (listinsert xs v 1)"
| "bf_listinsert [VList xs, v, VInt n] =
     map_option (make_var_pack \<circ> VList) (listinsert xs v (sint n))"
| "bf_listinsert _ = None"

fun bf_listdelete :: "var list \<Rightarrow> pack option" where
  "bf_listdelete [VList xs, VInt n] =
     (if sint n \<le> 0 \<or> sint n > len xs then Some (make_error_pack E_RANGE)
      else map_option (make_var_pack \<circ> VList) (listdelete xs (sint n)))"
| "bf_listdelete _ = None"

fun bf_listset :: "var list \<Rightarrow> pack option" where
  "bf_listset [VList xs, v, VInt n] =
     (if sint n \<le> 0 \<or> sint n > len xs then Some (make_error_pack E_RANGE)
      else map_option (make_var_pack \<circ> VList) (listset xs v (sint n)))"
| "bf_listset _ = None"

definition bool_int :: "bool \<Rightarrow> var" where
  "bool_int b = VInt (if b then 1 else 0)"

fun bf_equal :: "var list \<Rightarrow> pack option" where
  "bf_equal [v, w] = map_option (make_var_pack \<circ> bool_int) (equality v w True)"
| "bf_equal _ = None"

fun bf_is_member :: "var list \<Rightarrow> pack option" where
  "bf_is_member [v, VList xs] =
     map_option (make_var_pack \<circ> VInt \<circ> word_of_int) (ismember v xs True)"
| "bf_is_member _ = None"

section \<open>String built-ins\<close>

fun bf_strsub :: "var list \<Rightarrow> pack option" where
  "bf_strsub (VStr source # VStr what # VStr with # opt) =
     (let case_matters = (case opt of [v] \<Rightarrow> is_true v | _ \<Rightarrow> False)
      in if what = [] then Some (make_error_pack E_INVARG)
         else map_option (make_var_pack \<circ> VStr) (strsub source what with case_matters))"
| "bf_strsub _ = None"

definition signum :: "int \<Rightarrow> int" where
  "signum x = (if x < 0 then -1 else if x > 0 then 1 else 0)"

fun bf_strcmp :: "var list \<Rightarrow> pack option" where
  "bf_strcmp [VStr s, VStr t] = Some (make_var_pack (VInt (word_of_int (signum (c_strcmp s t)))))"
| "bf_strcmp _ = None"

fun bf_index :: "var list \<Rightarrow> pack option" where
  "bf_index (VStr source # VStr what # opt) =
     (let case_matters = (case opt of [v] \<Rightarrow> is_true v | _ \<Rightarrow> False)
      in Some (make_var_pack (VInt (word_of_nat (strindex source what case_matters)))))"
| "bf_index _ = None"

fun bf_rindex :: "var list \<Rightarrow> pack option" where
  "bf_rindex (VStr source # VStr what # opt) =
     (let case_matters = (case opt of [v] \<Rightarrow> is_true v | _ \<Rightarrow> False)
      in Some (make_var_pack (VInt (word_of_nat (strrindex source what case_matters)))))"
| "bf_rindex _ = None"

fun bf_tostr :: "(64 word \<Rightarrow> string) \<Rightarrow> var list \<Rightarrow> pack option" where
  "bf_tostr fmt_g vs = map_option (make_var_pack \<circ> VStr) (list2str fmt_g vs)"

fun bf_toliteral :: "(64 word \<Rightarrow> string) \<Rightarrow> var list \<Rightarrow> pack option" where
  "bf_toliteral fmt_g [v] = Some (make_var_pack (VStr (value_to_literal fmt_g v)))"
| "bf_toliteral fmt_g _ = None"

fun bf_value_bytes :: "var list \<Rightarrow> pack option" where
  "bf_value_bytes [v] = Some (make_var_pack (VInt (word_of_nat (value_bytes v))))"
| "bf_value_bytes _ = None"

section \<open>substitute()\<close>

definition invalid_pair :: "int \<Rightarrow> int \<Rightarrow> int \<Rightarrow> bool" where
  "invalid_pair num1 num2 max_len =
     (\<not> ((num1 = 0 \<and> num2 = -1) \<or> (num1 > 0 \<and> num2 \<ge> num1 - 1 \<and> num2 \<le> max_len)))"

fun check_pair :: "int \<Rightarrow> var \<Rightarrow> bool" where
  "check_pair max_len (VList [VInt a, VInt b]) = (\<not> invalid_pair (sint a) (sint b) max_len)"
| "check_pair max_len _ = False"

text \<open>The types that \<open>check_subs_list\<close> asks of the four elements.\<close>

fun subs_parts :: "var list \<Rightarrow> (int32 \<times> int32 \<times> var list \<times> string) option" where
  "subs_parts [VInt a, VInt b, VList regs, VStr subj] = Some (a, b, regs, subj)"
| "subs_parts _ = None"

text \<open>True where the code's \<open>check_subs_list\<close> returns 0.\<close>

definition check_subs_list :: "var list \<Rightarrow> bool" where
  "check_subs_list subs = (case subs_parts subs of
     None \<Rightarrow> False
   | Some (a, b, regs, subj) \<Rightarrow>
       length regs = 9 \<and> \<not> invalid_pair (sint a) (sint b) (len subj) \<and>
       (\<forall>pair \<in> set regs. check_pair (len subj) pair))"

text \<open>The characters \<open>subject[start..end]\<close>, each read checked.\<close>

fun copy_range :: "string \<Rightarrow> int \<Rightarrow> nat \<Rightarrow> string option" where
  "copy_range subject pos 0 = Some []"
| "copy_range subject pos (Suc n) = do {
     c \<leftarrow> nth_opt subject pos; s \<leftarrow> copy_range subject (pos + 1) n; Some (c # s) }"

fun reg_bounds :: "var \<Rightarrow> (int \<times> int) option" where
  "reg_bounds (VList [VInt a, VInt b]) = Some (sint a, sint b)"
| "reg_bounds _ = None"

definition subs_bounds :: "var list \<Rightarrow> char \<Rightarrow> (int \<times> int) option" where
  "subs_bounds subs c = do {
     (a, b, regs, subj) \<leftarrow> subs_parts subs;
     if c = CHR ''0'' then Some (sint a, sint b)
     else do { pair \<leftarrow> nth_opt regs (int (ch c) - 49); reg_bounds pair } }"

text \<open>
  The template loop: \<open>Inl E_INVARG\<close> is the flag \<open>invarg\<close>, also set when the template ends
  after a \<open>%\<close>.
\<close>

fun subst_loop :: "var list \<Rightarrow> string \<Rightarrow> string \<Rightarrow> string \<Rightarrow> (error + string) option" where
  "subst_loop subs subject [] s = Some (Inr s)"
| "subst_loop subs subject (c # template) s =
     (if c \<noteq> CHR ''%'' then subst_loop subs subject template (s @ [c])
      else case template of
        [] \<Rightarrow> Some (Inl E_INVARG)
      | d # rest \<Rightarrow>
          if d = CHR ''%'' then subst_loop subs subject rest (s @ ''%'')
          else if 48 \<le> ch d \<and> ch d \<le> 57 then do {
            (start, stop) \<leftarrow> subs_bounds subs d;
            t \<leftarrow> copy_range subject (start - 1) (nat (stop - start + 1));
            subst_loop subs subject rest (s @ t) }
          else Some (Inl E_INVARG))"

fun bf_substitute :: "var list \<Rightarrow> pack option" where
  "bf_substitute [VStr template, VList subs] =
     (if \<not> check_subs_list subs then Some (make_error_pack E_INVARG)
      else case subs of
        [_, _, _, VStr subject] \<Rightarrow>
          map_option (\<lambda>r. case r of Inl e \<Rightarrow> make_error_pack e | Inr s \<Rightarrow> make_var_pack (VStr s))
            (subst_loop subs subject template [])
      | _ \<Rightarrow> None)"
| "bf_substitute _ = None"

lemma copy_range_Some:
  "0 \<le> i \<Longrightarrow> i + int n \<le> len s \<Longrightarrow> copy_range s i n = Some (take n (drop (nat i) s))"
proof (induction n arbitrary: i)
  case 0
  then show ?case by simp
next
  case (Suc n)
  then have "copy_range s (i + 1) n = Some (take n (drop (Suc (nat i)) s))"
    by (simp add: nat_add_distrib)
  moreover have "nat i < length s" using Suc.prems by (simp add: len_def)
  ultimately show ?case using Suc.prems
    by (simp add: len_def Cons_nth_drop_Suc[symmetric])
qed

lemma copy_range_valid_pair:
  assumes "\<not> invalid_pair a b (len s)"
  shows "copy_range s (a - 1) (nat (b - a + 1)) =
    Some (if a = 0 then [] else take (nat (b - a + 1)) (drop (nat (a - 1)) s))"
proof (cases "a = 0")
  case True
  then show ?thesis using assms by (simp add: invalid_pair_def)
next
  case False
  with assms show ?thesis by (auto simp: invalid_pair_def intro!: copy_range_Some)
qed

lemma subs_bounds_Some:
  assumes "check_subs_list [VInt a, VInt b, VList regs, VStr subj]" "48 \<le> ch d" "ch d \<le> 57"
  shows "\<exists>m n. subs_bounds [VInt a, VInt b, VList regs, VStr subj] d = Some (m, n) \<and>
    \<not> invalid_pair m n (len subj)"
proof (cases "d = CHR ''0''")
  case True
  with assms show ?thesis by (simp add: subs_bounds_def check_subs_list_def)
next
  case False
  then have "ch d \<noteq> 48" using ch_inject[of d "CHR ''0''"] by (simp add: ch_def)
  with assms have r: "0 \<le> int (ch d) - 49" "int (ch d) - 49 < int (length regs)"
    by (auto simp: check_subs_list_def)
  then have "nth_opt regs (int (ch d) - 49) = Some (regs ! nat (int (ch d) - 49))"
    by simp
  moreover have "check_pair (len subj) (regs ! nat (int (ch d) - 49))"
    using assms(1) r by (simp add: check_subs_list_def)
  ultimately show ?thesis using False by (auto simp: subs_bounds_def elim: check_pair.elims)
qed

lemma subst_loop_safe:
  assumes "check_subs_list [VInt a, VInt b, VList regs, VStr subj]"
  shows "subst_loop [VInt a, VInt b, VList regs, VStr subj] subj template s \<noteq> None"
proof (induction "length template" arbitrary: template s rule: less_induct)
  case less
  let ?subs = "[VInt a, VInt b, VList regs, VStr subj]"
  show ?case
  proof (cases template)
    case (Cons c t)
    show ?thesis
    proof (cases t)
      case Nil
      then show ?thesis using Cons less.hyps[of t] by simp
    next
      case t: (Cons d rest)
      show ?thesis
      proof (cases "c = CHR ''%'' \<and> d \<noteq> CHR ''%'' \<and> 48 \<le> ch d \<and> ch d \<le> 57")
        case True
        then obtain m n where mn: "subs_bounds ?subs d = Some (m, n)"
            "\<not> invalid_pair m n (len subj)"
          using subs_bounds_Some[OF assms] by blast
        then have "subst_loop ?subs subj template s =
            subst_loop ?subs subj rest (s @ (if m = 0 then []
              else take (nat (n - m + 1)) (drop (nat (m - 1)) subj)))"
          using Cons t True copy_range_valid_pair[OF mn(2)] by simp
        then show ?thesis using less.hyps[of rest] Cons t by simp
      next
        case False
        then show ?thesis using less.hyps[of t "s @ [c]"] less.hyps[of rest "s @ ''%''"] Cons t
          by auto
      qed
    qed
  qed simp
qed

lemma bf_substitute_safe: "bf_substitute [VStr template, VList subs] \<noteq> None"
proof (cases "check_subs_list subs")
  case True
  then obtain a b regs subj where s: "subs = [VInt a, VInt b, VList regs, VStr subj]"
    by (auto simp: check_subs_list_def split: option.splits elim: subs_parts.elims)
  from subst_loop_safe[of a b regs subj template "[]"] True show ?thesis
    by (auto simp: s)
qed simp

end
