(* ===== verification/Moo_Pattern.thy ===== *)
theory Moo_Pattern
  imports Bf_List
begin

text \<open>
  Regular-expression matching: the pattern translation and the wrapper of src/src/pattern.c, the
  pattern cache and \<open>do_match\<close> of src/src/list.c, and the built-ins that read the binary-string
  encoding.

  The regular-expression engine (src/src/regexpr.c, a third-party library) is a parameter:
  \<open>compile\<close> stands for \<open>re_compile_pattern\<close> (\<open>None\<close> for an ill-formed pattern; the flag
  says whether case matters, which selects the translation table) and \<open>search\<close> for
  \<open>re_search\<close>. What the code relies on is \<open>regs_ok\<close>: a successful search fills ten
  registers, each unset (\<open>-1, -1\<close>) or a range inside the subject.
\<close>

section \<open>Translation of patterns\<close>

definition re_escapes :: string where
  "re_escapes = ''.*+?[^$|()123456789bB<>wW''"

text \<open>Up to and including the closing bracket; \<open>None\<close> at the end of the pattern.\<close>

fun copy_charset :: "string \<Rightarrow> (string \<times> string) option" where
  "copy_charset [] = None"
| "copy_charset (c # p) =
     (if c = CHR '']'' then Some ([c], p)
      else map_option (\<lambda>(s, rest). (c # s, rest)) (copy_charset p))"

lemma copy_charset_length: "copy_charset p = Some (s, rest) \<Longrightarrow> length rest < length p"
  by (induction p arbitrary: s rest) (auto split: if_splits)

definition charset_start :: "string \<Rightarrow> string \<times> string" where
  "charset_start p =
     (let (s1, p1) = (case p of c # q \<Rightarrow> if c = CHR ''^'' then ([c], q) else ([], p) | [] \<Rightarrow> ([], p));
          (s2, p2) = (case p1 of c # q \<Rightarrow> if c = CHR '']'' then ([c], q) else ([], p1) | [] \<Rightarrow> ([], p1))
      in (s1 @ s2, p2))"

lemma charset_start_length: "length (snd (charset_start p)) \<le> length p"
  by (auto simp: charset_start_def Let_def split: list.splits if_splits)

function translate_pattern :: "string \<Rightarrow> string option" where
  "translate_pattern [] = Some []"
| "translate_pattern (c # p) =
     (if c = CHR ''%'' then
        (case p of [] \<Rightarrow> None
         | d # q \<Rightarrow> map_option
             (\<lambda>r. (if d \<in> set re_escapes then [CHR 92, d] else [d]) @ r) (translate_pattern q))
      else if c = CHR 92 then map_option (\<lambda>r. [CHR 92, CHR 92] @ r) (translate_pattern p)
      else if c = CHR ''['' then
        (case copy_charset (snd (charset_start p)) of
           None \<Rightarrow> None
         | Some (s, rest) \<Rightarrow>
             map_option (\<lambda>r. c # fst (charset_start p) @ s @ r) (translate_pattern rest))
      else map_option (\<lambda>r. c # r) (translate_pattern p))"
  by pat_completeness auto
termination
proof (relation "measure length")
  fix c :: char and p ps s rest
  assume "copy_charset (snd (charset_start p)) = Some ps" "(s, rest) = ps"
  then have "length rest < length (snd (charset_start p))"
    using copy_charset_length by metis
  then show "(rest, c # p) \<in> measure length"
    using charset_start_length[of p] by simp
qed auto

definition new_pattern :: "(string \<Rightarrow> bool \<Rightarrow> 'p option) \<Rightarrow> string \<Rightarrow> bool \<Rightarrow> 'p option" where
  "new_pattern compile pattern case_matters =
     (case translate_pattern pattern of None \<Rightarrow> None | Some t \<Rightarrow> compile t case_matters)"

section \<open>The pattern cache\<close>

definition PATTERN_CACHE_SIZE :: nat where "PATTERN_CACHE_SIZE = 20"

record 'p pat_cache_entry =
  pe_string :: "string option"
  pe_case :: bool
  pe_pattern :: "'p option"

text \<open>The cache is the list of its entries from the head pointer \<open>pat_cache\<close>.\<close>

definition setup_pattern_cache :: "'p pat_cache_entry list" where
  "setup_pattern_cache =
     replicate PATTERN_CACHE_SIZE \<lparr>pe_string = None, pe_case = False, pe_pattern = None\<rparr>"

definition pat_hit :: "string \<Rightarrow> bool \<Rightarrow> 'p pat_cache_entry \<Rightarrow> bool" where
  "pat_hit s cm e = (case pe_string e of None \<Rightarrow> False
     | Some t \<Rightarrow> c_strcmp s t = 0 \<and> cm = pe_case e)"

definition pat_fill :: "(string \<Rightarrow> bool \<Rightarrow> 'p option) \<Rightarrow> string \<Rightarrow> bool \<Rightarrow> 'p pat_cache_entry" where
  "pat_fill compile s cm =
     (let p = new_pattern compile s cm
      in \<lparr>pe_string = (case p of None \<Rightarrow> None | Some _ \<Rightarrow> Some s), pe_case = cm, pe_pattern = p\<rparr>)"

text \<open>
  The search: the entry that is hit, or else the last entry refilled, together with the list
  from which it is unlinked.
\<close>

fun pat_search :: "(string \<Rightarrow> bool \<Rightarrow> 'p option) \<Rightarrow> 'p pat_cache_entry list \<Rightarrow> string \<Rightarrow> bool \<Rightarrow>
    ('p pat_cache_entry \<times> 'p pat_cache_entry list) option" where
  "pat_search compile [] s cm = None"
| "pat_search compile (e # es) s cm =
     (if pat_hit s cm e then Some (e, es)
      else if es = [] then Some (pat_fill compile s cm, [])
      else map_option (\<lambda>(x, rest). (x, e # rest)) (pat_search compile es s cm))"

definition get_pattern :: "(string \<Rightarrow> bool \<Rightarrow> 'p option) \<Rightarrow> 'p pat_cache_entry list \<Rightarrow>
    string \<times> bool \<Rightarrow> ('p option \<times> 'p pat_cache_entry list) option" where
  "get_pattern compile cache key =
     map_option (\<lambda>(x, rest). (pe_pattern x, x # rest))
       (pat_search compile cache (fst key) (snd key))"

definition pat_entry_ok :: "(string \<Rightarrow> bool \<Rightarrow> 'p option) \<Rightarrow> 'p pat_cache_entry \<Rightarrow> bool" where
  "pat_entry_ok compile e \<longleftrightarrow> (\<forall>t. pe_string e = Some t \<longrightarrow>
     c_string t \<and> pe_pattern e = new_pattern compile t (pe_case e))"

definition pat_cache_ok :: "(string \<Rightarrow> bool \<Rightarrow> 'p option) \<Rightarrow> 'p pat_cache_entry list \<Rightarrow> bool" where
  "pat_cache_ok compile cache \<longleftrightarrow>
     length cache = PATTERN_CACHE_SIZE \<and> (\<forall>e \<in> set cache. pat_entry_ok compile e)"

lemma pat_search_ok:
  assumes "cache \<noteq> []" "\<forall>e \<in> set cache. pat_entry_ok compile e" "c_string s"
  shows "\<exists>x rest. pat_search compile cache s cm = Some (x, rest) \<and>
    pe_pattern x = new_pattern compile s cm \<and> pat_entry_ok compile x \<and>
    set rest \<subseteq> set cache \<and> Suc (length rest) = length cache"
  using assms(1,2)
proof (induction cache)
  case (Cons e es)
  show ?case
  proof (cases "pat_hit s cm e")
    case True
    then obtain t where "pe_string e = Some t" "c_strcmp s t = 0" "cm = pe_case e"
      by (auto simp: pat_hit_def split: option.splits)
    moreover have "pat_entry_ok compile e" using Cons.prems by simp
    ultimately have "pe_pattern e = new_pattern compile s cm"
      using c_strcmp_eq_0[OF assms(3)] by (auto simp: pat_entry_ok_def)
    then show ?thesis using True Cons.prems by auto
  next
    case False
    have "pat_entry_ok compile (pat_fill compile s cm)"
      using assms(3) by (auto simp: pat_entry_ok_def pat_fill_def Let_def split: option.splits)
    then show ?thesis using False Cons
      by (cases "es = []") (auto simp: pat_fill_def Let_def)
  qed
qed simp

interpretation pcache: memo_table "get_pattern compile" "\<lambda>(s, cm). new_pattern compile s cm"
    "pat_cache_ok compile" "\<lambda>(s, cm). c_string s" for compile :: "string \<Rightarrow> bool \<Rightarrow> 'p option"
proof unfold_locales
  fix cache and k :: "string \<times> bool"
  assume ok: "pat_cache_ok compile cache" and k: "case k of (s, cm) \<Rightarrow> c_string s"
  obtain s cm where [simp]: "k = (s, cm)" by (cases k)
  have "cache \<noteq> []" using ok by (auto simp: pat_cache_ok_def PATTERN_CACHE_SIZE_def)
  then obtain x rest where "pat_search compile cache s cm = Some (x, rest)"
    "pe_pattern x = new_pattern compile s cm" "pat_entry_ok compile x"
    "set rest \<subseteq> set cache" "Suc (length rest) = length cache"
    using pat_search_ok[of cache compile s cm] ok k by (auto simp: pat_cache_ok_def)
  with ok show "\<exists>s'. get_pattern compile cache k =
      Some (case k of (s, cm) \<Rightarrow> new_pattern compile s cm, s') \<and> pat_cache_ok compile s'"
    by (auto simp: get_pattern_def pat_cache_ok_def)
qed

lemma setup_pattern_cache_ok: "pat_cache_ok compile setup_pattern_cache"
  by (simp add: pat_cache_ok_def setup_pattern_cache_def pat_entry_ok_def)

section \<open>match() and rmatch()\<close>

datatype re_result = ReMatch "(int \<times> int) list" | ReFail | ReAbort

text \<open>What \<open>re_search\<close> promises about its registers.\<close>

definition reg_ok :: "string \<Rightarrow> int \<times> int \<Rightarrow> bool" where
  "reg_ok subject r \<longleftrightarrow> r = (-1, -1) \<or> (0 \<le> fst r \<and> fst r \<le> snd r \<and> snd r \<le> len subject)"

definition regs_ok :: "string \<Rightarrow> (int \<times> int) list \<Rightarrow> bool" where
  "regs_ok subject regs \<longleftrightarrow> length regs = 10 \<and> (\<forall>r \<in> set regs. reg_ok subject r)"

text \<open>From 0-based half-open to 1-based closed ranges.\<close>

definition match_indices :: "(int \<times> int) list \<Rightarrow> (int \<times> int) list" where
  "match_indices regs = map (\<lambda>(start, stop). (start + 1, stop)) regs"

definition reg_var :: "int \<times> int \<Rightarrow> var" where
  "reg_var r = VList [VInt (word_of_int (fst r)), VInt (word_of_int (snd r))]"

definition do_match :: "(string \<Rightarrow> bool \<Rightarrow> 'p option) \<Rightarrow> ('p \<Rightarrow> string \<Rightarrow> bool \<Rightarrow> re_result) \<Rightarrow>
    'p pat_cache_entry list \<Rightarrow> string \<Rightarrow> string \<Rightarrow> bool \<Rightarrow> bool \<Rightarrow>
    (pack \<times> 'p pat_cache_entry list) option" where
  "do_match compile search cache subject pattern case_matters reverse = do {
     (pat, cache') \<leftarrow> get_pattern compile cache (pattern, case_matters);
     Some (case pat of
        None \<Rightarrow> make_error_pack E_INVARG
      | Some p \<Rightarrow>
          (case search p subject reverse of
             ReFail \<Rightarrow> make_var_pack (VList [])
           | ReAbort \<Rightarrow> make_error_pack E_QUOTA
           | ReMatch raw \<Rightarrow>
               (let regs = match_indices raw
                in make_var_pack (VList
                  [VInt (word_of_int (fst (hd regs))), VInt (word_of_int (snd (hd regs))),
                   VList (map reg_var (tl regs)), VStr subject]))), cache') }"

fun bf_match :: "(string \<Rightarrow> bool \<Rightarrow> 'p option) \<Rightarrow> ('p \<Rightarrow> string \<Rightarrow> bool \<Rightarrow> re_result) \<Rightarrow>
    bool \<Rightarrow> 'p pat_cache_entry list \<Rightarrow> var list \<Rightarrow> (pack \<times> 'p pat_cache_entry list) option" where
  "bf_match compile search reverse cache (VStr subject # VStr pattern # opt) =
     do_match compile search cache subject pattern
       (case opt of [v] \<Rightarrow> is_true v | _ \<Rightarrow> False) reverse"
| "bf_match compile search reverse cache _ = None"

lemma sint_word_of_int_32:
  "- (2 ^ 31) \<le> i \<Longrightarrow> i < 2 ^ 31 \<Longrightarrow> sint (word_of_int i :: int32) = i"
  by (simp add: sint_word_ariths(1) signed_take_bit_int_eq_self sint_sbintrunc')

lemma reg_var_ok:
  assumes "reg_ok subject r" "len subject < 2 ^ 31 - 1"
  shows "\<not> invalid_pair (sint (word_of_int (fst r + 1) :: int32)) (sint (word_of_int (snd r) :: int32))
    (len subject)"
proof -
  have b: "- (2 ^ 31) \<le> fst r + 1" "fst r + 1 < 2 ^ 31" "- (2 ^ 31) \<le> snd r" "snd r < 2 ^ 31"
    using assms by (auto simp: reg_ok_def)
  show ?thesis
    unfolding sint_word_of_int_32[OF b(1,2)] sint_word_of_int_32[OF b(3,4)]
    using assms by (auto simp: reg_ok_def invalid_pair_def)
qed

lemma match_list_passes_check:
  assumes "regs_ok subject raw" "len subject < 2 ^ 31 - 1" "regs = match_indices raw"
  shows "check_subs_list [VInt (word_of_int (fst (hd regs))), VInt (word_of_int (snd (hd regs))),
    VList (map reg_var (tl regs)), VStr subject]"
proof -
  obtain r rs where raw: "raw = r # rs" "length rs = 9"
    using assms(1) by (cases raw) (auto simp: regs_ok_def)
  have "check_pair (len subject) (reg_var (fst q + 1, snd q))" if "q \<in> set rs" for q
    using assms(1,2) raw that reg_var_ok[of subject q] by (simp add: regs_ok_def reg_var_def)
  then show ?thesis
    using assms raw reg_var_ok[of subject r]
    by (auto simp: check_subs_list_def regs_ok_def match_indices_def case_prod_beta)
qed

section \<open>decode_binary() and encode_binary()\<close>

definition in_text :: "char \<Rightarrow> bool" where
  "in_text c \<longleftrightarrow> isgraph c \<or> c = CHR '' '' \<or> ch c = 9"

text \<open>The first pass counts the elements, the second fills exactly that many.\<close>

fun decode_count :: "string \<Rightarrow> nat \<Rightarrow> bool \<Rightarrow> nat" where
  "decode_count [] count in_string = count"
| "decode_count (c # bytes) count in_string =
     (if in_text c then decode_count bytes (if in_string then count else count + 1) True
      else decode_count bytes (count + 1) False)"

fun decode_items :: "string \<Rightarrow> string \<Rightarrow> bool \<Rightarrow> var list" where
  "decode_items [] s in_string = (if in_string then [VStr s] else [])"
| "decode_items (c # bytes) s in_string =
     (if in_text c then decode_items bytes (s @ [c]) True
      else (if in_string then [VStr s] else []) @ VInt (word_of_nat (ch c)) # decode_items bytes [] False)"

fun bf_decode_binary :: "var list \<Rightarrow> pack option" where
  "bf_decode_binary (VStr str # opt) =
     (case binary_to_raw_bytes str of
        None \<Rightarrow> Some (make_error_pack E_INVARG)
      | Some bytes \<Rightarrow>
          if (case opt of v # _ \<Rightarrow> is_true v | [] \<Rightarrow> False)
          then Some (make_var_pack (VList (map (\<lambda>c. VInt (word_of_nat (ch c))) bytes)))
          else if length (decode_items bytes [] False) = decode_count bytes 0 False
          then Some (make_var_pack (VList (decode_items bytes [] False)))
          else None)"
| "bf_decode_binary _ = None"

text \<open>\<open>encode_binary\<close> appends to the stream; \<open>None\<close> is its return value 0.\<close>

fun encode_binary :: "string \<Rightarrow> var \<Rightarrow> string option" where
  "encode_binary s (VInt n) =
     (if sint n < 0 \<or> sint n \<ge> 256 then None else Some (s @ [char_of (nat (sint n))]))"
| "encode_binary s (VStr t) = Some (s @ t)"
| "encode_binary s (VList []) = Some s"
| "encode_binary s (VList (v # vs)) = do {
     s1 \<leftarrow> encode_binary s v; encode_binary s1 (VList vs) }"
| "encode_binary s _ = None"

definition bf_encode_binary :: "var list \<Rightarrow> pack option" where
  "bf_encode_binary arglist = Some (case encode_binary [] (VList arglist) of
     None \<Rightarrow> make_error_pack E_INVARG
   | Some bytes \<Rightarrow> make_var_pack (VStr (raw_bytes_to_binary bytes)))"

lemma decode_count_Suc: "decode_count bytes (Suc n) b = Suc (decode_count bytes n b)"
  by (induction bytes arbitrary: n b) simp_all

lemma decode_count_items:
  "decode_count bytes n b + (if b then 1 else 0) = n + length (decode_items bytes s b)"
  by (induction bytes arbitrary: n b s) (auto simp: decode_count_Suc)

lemma sint_word_of_nat_byte [simp]: "sint (word_of_nat (ch c) :: int32) = int (ch c)"
  using sint_word_of_int_32[of "int (ch c)"] ch_less_256[of c] by simp

lemma encode_binary_ints:
  "encode_binary s (VList (map (\<lambda>c. VInt (word_of_nat (ch c))) bytes)) = Some (s @ bytes)"
  by (induction bytes arbitrary: s) auto

lemma encode_binary_items:
  "(\<not> b \<longrightarrow> t = []) \<Longrightarrow> encode_binary s (VList (decode_items bytes t b)) = Some (s @ t @ bytes)"
  by (induction bytes arbitrary: s t b) auto

lemma bf_decode_binary_encode:
  assumes "binary_to_raw_bytes str = Some bytes"
  shows "\<exists>vs. bf_decode_binary (VStr str # opt) = Some (make_var_pack (VList vs)) \<and>
    bf_encode_binary vs = Some (make_var_pack (VStr (raw_bytes_to_binary bytes)))"
proof -
  have "length (decode_items bytes [] False) = decode_count bytes 0 False"
    using decode_count_items[of bytes 0 False "[]"] by simp
  then show ?thesis
    using assms encode_binary_ints[of "[]" bytes] encode_binary_items[of False "[]" "[]" bytes]
    by (simp add: bf_encode_binary_def make_var_pack_def)
qed

end
