(* ===== verification/Moo_Numbers.thy ===== *)
theory Moo_Numbers
  imports Bf_List "HOL-Library.Signed_Division"
begin

text \<open>
  src/src/numbers.c: reading numbers from strings, conversion of values to numbers, the
  arithmetic of the virtual machine and the numeric built-in functions.

  An integer is a 32-bit word; signed overflow of \<open>+\<close>, \<open>-\<close> and \<open>*\<close> wraps around, as
  the supported compilers make it. A quotient that does not fit and a conversion of a double
  that does not fit an \<open>int\<close> have no defined result in C: \<open>None\<close>. The arithmetic of doubles,
  libm and the formatted output of the C library are the fields of \<open>fp_ops\<close>.
\<close>

section \<open>The C library's side\<close>

datatype c_errno = NO_ERRNO | EDOM | ERANGE

datatype math_fun =
    M_sqrt | M_sin | M_cos | M_tan | M_asin | M_acos | M_atan | M_sinh | M_cosh | M_tanh
  | M_exp | M_log | M_log10 | M_ceil | M_floor

type_synonym double = "64 word"

text \<open>
  \<open>fp_strtod s\<close> is the number at the start of \<open>s\<close> and how many characters it takes, 0 for
  none; \<open>fp_sprintf prec sci d\<close> is \<open>sprintf("%.<prec>f")\<close>, or \<open>e\<close> for \<open>sci\<close>.
\<close>

record fp_ops =
  fp_add :: "double \<Rightarrow> double \<Rightarrow> double"
  fp_subtract :: "double \<Rightarrow> double \<Rightarrow> double"
  fp_multiply :: "double \<Rightarrow> double \<Rightarrow> double"
  fp_divide :: "double \<Rightarrow> double \<Rightarrow> double"
  fp_fmod :: "double \<Rightarrow> double \<Rightarrow> double"
  fp_pow :: "double \<Rightarrow> double \<Rightarrow> double \<times> c_errno"
  fp_of_int :: "int \<Rightarrow> double"
  fp_math :: "math_fun \<Rightarrow> double \<Rightarrow> double \<times> c_errno"
  fp_atan2 :: "double \<Rightarrow> double \<Rightarrow> double \<times> c_errno"
  fp_strtod :: "string \<Rightarrow> double \<times> nat"
  fp_sprintf :: "int \<Rightarrow> bool \<Rightarrow> double \<Rightarrow> string"

section \<open>Doubles\<close>

text \<open>\<open>IS_REAL\<close> (include/misc.h): between \<open>-DBL_MAX\<close> and \<open>DBL_MAX\<close>.\<close>

definition DBL_MAX :: double where "DBL_MAX = 0x7FEFFFFFFFFFFFFF"

definition dbl_uminus :: "double \<Rightarrow> double" where
  "dbl_uminus d = d XOR 0x8000000000000000"

definition dbl_le :: "double \<Rightarrow> double \<Rightarrow> bool" where
  "dbl_le a b \<longleftrightarrow> dbl_lt a b \<or> dbl_eq a b"

definition IS_REAL :: "double \<Rightarrow> bool" where
  "IS_REAL d \<longleftrightarrow> dbl_le (dbl_uminus DBL_MAX) d \<and> dbl_le d DBL_MAX"

text \<open>The conversion of a double to an integer type drops the fraction.\<close>

definition dbl_truncate :: "double \<Rightarrow> int" where
  "dbl_truncate d =
     (let ex = uint (drop_bit 52 (dbl_abs d));
          frac = uint (d AND 0xFFFFFFFFFFFFF);
          m = (if ex = 0 then frac else frac + 2 ^ 52);
          e = (if ex = 0 then 1 else ex) - 1075;
          n = (if 0 \<le> e then m * 2 ^ nat e else m div 2 ^ nat (- e))
      in if dbl_neg d then - n else n)"

definition dbl_INT_MIN :: double where "dbl_INT_MIN = 0xC1E0000000000000"
definition dbl_INT_MAX :: double where "dbl_INT_MAX = 0x41DFFFFFFFC00000"

definition dbl_to_int :: "double \<Rightarrow> int32 option" where
  "dbl_to_int d = (if dbl_nan d \<or> dbl_truncate d < - (2 ^ 31) \<or> 2 ^ 31 \<le> dbl_truncate d
     then None else Some (word_of_int (dbl_truncate d)))"

section \<open>Numbers in strings\<close>

definition c_isspace :: "char \<Rightarrow> bool" where
  "c_isspace c \<longleftrightarrow> ch c = 32 \<or> (9 \<le> ch c \<and> ch c \<le> 13)"

definition c_isdigit :: "char \<Rightarrow> bool" where
  "c_isdigit c \<longleftrightarrow> 48 \<le> ch c \<and> ch c \<le> 57"

text \<open>
  \<open>strtol(s, &p, 10)\<close> on a 64-bit \<open>long\<close>: the number and the text from \<open>p\<close> on, which is
  the whole of \<open>s\<close> when there is no number.
\<close>

fun digits_value :: "nat \<Rightarrow> string \<Rightarrow> nat \<times> string" where
  "digits_value n [] = (n, [])"
| "digits_value n (c # s) =
     (if c_isdigit c then digits_value (10 * n + (ch c - 48)) s else (n, c # s))"

definition clamp_long :: "int \<Rightarrow> int" where
  "clamp_long i = max (- (2 ^ 63)) (min (2 ^ 63 - 1) i)"

definition take_sign :: "string \<Rightarrow> bool \<times> string" where
  "take_sign s = (case s of
     c # t \<Rightarrow> (if c = CHR ''-'' then (True, t) else if c = CHR ''+'' then (False, t) else (False, s))
   | [] \<Rightarrow> (False, []))"

definition strtol :: "string \<Rightarrow> int \<times> string" where
  "strtol s = (case take_sign (dropWhile c_isspace s) of (negative, t) \<Rightarrow>
     (case t of
        c # u \<Rightarrow>
          (if c_isdigit c
           then (case digits_value 0 t of (n, rest) \<Rightarrow>
             (clamp_long (if negative then - int n else int n), rest))
           else (0, s))
      | [] \<Rightarrow> (0, s)))"

definition all_spaces :: "string \<Rightarrow> bool" where
  "all_spaces s \<longleftrightarrow> (\<forall>c \<in> set s. c = CHR '' '')"

text \<open>\<open>parse_number\<close>: the inner \<open>None\<close> is its result 0.\<close>

definition parse_number :: "fp_ops \<Rightarrow> string \<Rightarrow> bool \<Rightarrow> int32 option option" where
  "parse_number fp str try_floating_point =
     (case strtol str of (l, p) \<Rightarrow>
        if try_floating_point \<and> (p = str \<or> (p \<noteq> [] \<and> hd p \<in> set ''.eE''))
        then (case fp_strtod fp str of (d, n) \<Rightarrow>
          do { i \<leftarrow> dbl_to_int d;
               Some (if n = 0 then None
                     else if all_spaces (drop n str) then Some i else None) })
        else Some (if p = str then None
                   else if all_spaces p then Some (word_of_int l) else None))"

definition skip_spaces :: "string \<Rightarrow> string" where
  "skip_spaces s = dropWhile (\<lambda>c. c = CHR '' '') s"

definition skip_char :: "char \<Rightarrow> string \<Rightarrow> string" where
  "skip_char c s = (if s \<noteq> [] \<and> hd s = c then tl s else s)"

definition parse_object :: "fp_ops \<Rightarrow> string \<Rightarrow> int32 option option" where
  "parse_object fp str = parse_number fp (skip_char CHR ''#'' (skip_spaces str)) False"

definition parse_float :: "fp_ops \<Rightarrow> string \<Rightarrow> double option" where
  "parse_float fp str =
     (let s = skip_spaces str;
          negative = (s \<noteq> [] \<and> hd s = CHR ''-'');
          t = skip_char CHR ''-'' s
      in case fp_strtod fp t of (d, n) \<Rightarrow>
        if n = 0 then None
        else if all_spaces (drop n t) then Some (if negative then dbl_uminus d else d)
        else None)"

section \<open>Conversions\<close>

fun become_integer :: "fp_ops \<Rightarrow> var \<Rightarrow> bool \<Rightarrow> (error + int32) option" where
  "become_integer fp (VInt n) called_from_tonum = Some (Inr n)"
| "become_integer fp (VStr s) called_from_tonum = do {
     r \<leftarrow> (if called_from_tonum then parse_number fp s True else parse_object fp s);
     Some (Inr (case r of Some n \<Rightarrow> n | None \<Rightarrow> 0)) }"
| "become_integer fp (VObj x) called_from_tonum = Some (Inr (word_of_int x))"
| "become_integer fp (VErr e) called_from_tonum = Some (Inr (word_of_nat (err_code e)))"
| "become_integer fp (VFloat d) called_from_tonum =
     (if dbl_lt d dbl_INT_MIN \<or> dbl_lt dbl_INT_MAX d then Some (Inl E_FLOAT)
      else map_option Inr (dbl_to_int d))"
| "become_integer fp (VList xs) called_from_tonum = Some (Inl E_TYPE)"
| "become_integer fp _ called_from_tonum = None"

fun become_float :: "fp_ops \<Rightarrow> var \<Rightarrow> (error + double) option" where
  "become_float fp (VInt n) = Some (Inr (fp_of_int fp (sint n)))"
| "become_float fp (VStr s) = Some
     (case parse_float fp s of
        None \<Rightarrow> Inl E_INVARG
      | Some d \<Rightarrow> if IS_REAL d then Inr d else Inl E_INVARG)"
| "become_float fp (VObj x) = Some (Inr (fp_of_int fp x))"
| "become_float fp (VErr e) = Some (Inr (fp_of_int fp (int (err_code e))))"
| "become_float fp (VFloat d) = Some (Inr d)"
| "become_float fp (VList xs) = Some (Inl E_TYPE)"
| "become_float fp _ = None"

section \<open>Operators\<close>

text \<open>The operators are called on two numbers, \<open>TYPE_INT\<close> or \<open>TYPE_FLOAT\<close>.\<close>

definition compare_integers :: "int32 \<Rightarrow> int32 \<Rightarrow> int" where
  "compare_integers a b = (if sint a < sint b then -1 else if a = b then 0 else 1)"

fun compare_numbers :: "var \<Rightarrow> var \<Rightarrow> var option" where
  "compare_numbers (VInt a) (VInt b) = Some (VInt (word_of_int (compare_integers a b)))"
| "compare_numbers (VFloat a) (VFloat b) =
     Some (VInt (if dbl_lt a b then -1 else if dbl_eq a b then 0 else 1))"
| "compare_numbers a b = (if var_type a \<noteq> var_type b then Some (VErr E_TYPE) else None)"

text \<open>A double is stored only when it is real.\<close>

definition float_or_error :: "double \<Rightarrow> var" where
  "float_or_error d = (if IS_REAL d then VFloat d else VErr E_FLOAT)"

fun simple_binary ::
  "(int32 \<Rightarrow> int32 \<Rightarrow> int32) \<Rightarrow> (double \<Rightarrow> double \<Rightarrow> double) \<Rightarrow> var \<Rightarrow> var \<Rightarrow> var option" where
  "simple_binary iop fop (VInt a) (VInt b) = Some (VInt (iop a b))"
| "simple_binary iop fop (VFloat a) (VFloat b) = Some (float_or_error (fop a b))"
| "simple_binary iop fop a b = (if var_type a \<noteq> var_type b then Some (VErr E_TYPE) else None)"

definition do_add :: "fp_ops \<Rightarrow> var \<Rightarrow> var \<Rightarrow> var option" where
  "do_add fp = simple_binary (+) (fp_add fp)"

definition do_subtract :: "fp_ops \<Rightarrow> var \<Rightarrow> var \<Rightarrow> var option" where
  "do_subtract fp = simple_binary (-) (fp_subtract fp)"

definition do_multiply :: "fp_ops \<Rightarrow> var \<Rightarrow> var \<Rightarrow> var option" where
  "do_multiply fp = simple_binary (*) (fp_multiply fp)"

text \<open>C's \<open>/\<close> and \<open>%\<close> truncate towards zero and trap when the quotient does not fit.\<close>

definition INT_MIN :: int32 where "INT_MIN = 0x80000000"

definition c_div :: "int32 \<Rightarrow> int32 \<Rightarrow> int32 option" where
  "c_div a b = (if a = INT_MIN \<and> b = -1 then None else Some (word_of_int (sint a sdiv sint b)))"

definition c_mod :: "int32 \<Rightarrow> int32 \<Rightarrow> int32 option" where
  "c_mod a b = (if a = INT_MIN \<and> b = -1 then None else Some (word_of_int (sint a smod sint b)))"

fun division_op ::
  "(int32 \<Rightarrow> int32 \<Rightarrow> int32 option) \<Rightarrow> (double \<Rightarrow> double \<Rightarrow> double) \<Rightarrow> var \<Rightarrow> var \<Rightarrow> var option" where
  "division_op iop fop (VInt a) (VInt b) =
     (if b \<noteq> 0 then map_option VInt (iop a b) else Some (VErr E_DIV))"
| "division_op iop fop (VFloat a) (VFloat b) =
     Some (if \<not> dbl_eq b 0 then float_or_error (fop a b) else VErr E_DIV)"
| "division_op iop fop a b = (if var_type a \<noteq> var_type b then Some (VErr E_TYPE) else None)"

definition do_divide :: "fp_ops \<Rightarrow> var \<Rightarrow> var \<Rightarrow> var option" where
  "do_divide fp = division_op c_div (fp_divide fp)"

definition do_modulus :: "fp_ops \<Rightarrow> var \<Rightarrow> var \<Rightarrow> var option" where
  "do_modulus fp = division_op c_mod (fp_fmod fp)"

text \<open>The loop of \<open>do_power\<close>, on an exponent that is not negative.\<close>

function power_loop :: "int32 \<Rightarrow> nat \<Rightarrow> int32 \<Rightarrow> int32" where
  "power_loop a b r =
     (if b = 0 then r else power_loop (a * a) (b div 2) (if b mod 2 \<noteq> 0 then r * a else r))"
  by pat_completeness auto
termination by (relation "measure (\<lambda>(a, b, r). b)") auto

declare power_loop.simps [simp del]

definition power_negative :: "int32 \<Rightarrow> int32 \<Rightarrow> var" where
  "power_negative a b =
     (if a = -1 then VInt (if even (sint b) then 1 else -1)
      else if a = 0 then VErr E_DIV else if a = 1 then VInt 1 else VInt 0)"

fun do_power :: "fp_ops \<Rightarrow> var \<Rightarrow> var \<Rightarrow> var" where
  "do_power fp (VInt a) rhs = (case rhs of
     VInt b \<Rightarrow> if sint b < 0 then power_negative a b
               else VInt (power_loop a (unat b) 1)
   | _ \<Rightarrow> VErr E_TYPE)"
| "do_power fp (VFloat a) rhs =
     (let pow = (\<lambda>d. case fp_pow fp a d of (r, errno) \<Rightarrow>
        if errno \<noteq> NO_ERRNO then VErr E_FLOAT else float_or_error r)
      in case rhs of
        VInt b \<Rightarrow> pow (fp_of_int fp (sint b))
      | VFloat b \<Rightarrow> pow b
      | _ \<Rightarrow> VErr E_TYPE)"
| "do_power fp _ rhs = VErr E_TYPE"

section \<open>Built-in functions\<close>

definition number_pack :: "(error + var) \<Rightarrow> pack" where
  "number_pack r = (case r of Inl e \<Rightarrow> make_error_pack e | Inr v \<Rightarrow> make_var_pack v)"

fun bf_toint :: "fp_ops \<Rightarrow> var list \<Rightarrow> pack option" where
  "bf_toint fp [v] = map_option (number_pack \<circ> map_sum id VInt) (become_integer fp v True)"
| "bf_toint fp _ = None"

fun bf_tofloat :: "fp_ops \<Rightarrow> var list \<Rightarrow> pack option" where
  "bf_tofloat fp [v] = map_option (number_pack \<circ> map_sum id VFloat) (become_float fp v)"
| "bf_tofloat fp _ = None"

text \<open>
  The loops of \<open>bf_min\<close> and \<open>bf_max\<close> over the rest of the arguments, with a comparison that
  tells when an argument replaces the best one so far; \<open>bad\<close> is \<open>bad_types\<close>.
\<close>

definition int_better :: "bool \<Rightarrow> int32 \<Rightarrow> int32 \<Rightarrow> bool" where
  "int_better want_min a b \<longleftrightarrow> (if want_min then sint a < sint b else sint a > sint b)"

definition float_better :: "bool \<Rightarrow> double \<Rightarrow> double \<Rightarrow> bool" where
  "float_better want_min a b \<longleftrightarrow> (if want_min then dbl_lt a b else dbl_lt b a)"

fun best_int :: "bool \<Rightarrow> int32 \<Rightarrow> bool \<Rightarrow> var list \<Rightarrow> int32 \<times> bool" where
  "best_int mn r bad [] = (r, bad)"
| "best_int mn r bad (VInt n # vs) = best_int mn (if int_better mn n r then n else r) bad vs"
| "best_int mn r bad (_ # vs) = best_int mn r True vs"

fun best_float :: "bool \<Rightarrow> double \<Rightarrow> bool \<Rightarrow> var list \<Rightarrow> double \<times> bool" where
  "best_float mn r bad [] = (r, bad)"
| "best_float mn r bad (VFloat d # vs) =
     best_float mn (if float_better mn d r then d else r) bad vs"
| "best_float mn r bad (_ # vs) = best_float mn r True vs"

fun bf_best :: "bool \<Rightarrow> var list \<Rightarrow> pack option" where
  "bf_best mn (VInt n # vs) = Some
     (case best_int mn n False vs of (r, bad) \<Rightarrow>
        if bad then make_error_pack E_TYPE else make_var_pack (VInt r))"
| "bf_best mn (VFloat d # vs) = Some
     (case best_float mn d False vs of (r, bad) \<Rightarrow>
        if bad then make_error_pack E_TYPE else make_var_pack (VFloat r))"
| "bf_best mn _ = None"

definition bf_min :: "var list \<Rightarrow> pack option" where "bf_min = bf_best True"
definition bf_max :: "var list \<Rightarrow> pack option" where "bf_max = bf_best False"

text \<open>\<open>fabs\<close> clears the sign bit.\<close>

fun bf_abs :: "var list \<Rightarrow> pack option" where
  "bf_abs [VInt n] = Some (make_var_pack (VInt (if sint n < 0 then - n else n)))"
| "bf_abs [VFloat d] = Some (make_var_pack (VFloat (dbl_abs d)))"
| "bf_abs _ = None"

definition math_pack :: "double \<times> c_errno \<Rightarrow> pack" where
  "math_pack r = (case r of (d, errno) \<Rightarrow>
     if errno = EDOM then make_error_pack E_INVARG
     else if errno \<noteq> NO_ERRNO \<or> \<not> IS_REAL d then make_error_pack E_FLOAT
     else make_var_pack (VFloat d))"

text \<open>\<open>MATH_FUNC(name)\<close> for every \<open>name\<close>; \<open>trunc\<close> and \<open>atan\<close> are written out in the code.\<close>

fun bf_math :: "math_fun \<Rightarrow> fp_ops \<Rightarrow> var list \<Rightarrow> pack option" where
  "bf_math f fp [VFloat d] = Some (math_pack (fp_math fp f d))"
| "bf_math f fp _ = None"

fun bf_trunc :: "fp_ops \<Rightarrow> var list \<Rightarrow> pack option" where
  "bf_trunc fp [VFloat d] =
     Some (math_pack (if dbl_lt d 0 then fp_math fp M_ceil d else fp_math fp M_floor d))"
| "bf_trunc fp _ = None"

fun bf_atan :: "fp_ops \<Rightarrow> var list \<Rightarrow> pack option" where
  "bf_atan fp [VFloat d] = Some (math_pack (fp_math fp M_atan d))"
| "bf_atan fp [VFloat d, VFloat dd] = Some (math_pack (fp_atan2 fp d dd))"
| "bf_atan fp _ = None"

text \<open>\<open>now\<close> is \<open>time(0)\<close>, a 64-bit number of which the low 32 bits are kept.\<close>

fun bf_time :: "int \<Rightarrow> var list \<Rightarrow> pack option" where
  "bf_time now [] = Some (make_var_pack (VInt (word_of_int now)))"
| "bf_time now _ = None"

text \<open>\<open>strftime\<close> with the format of the code is a parameter; the day's leading zero goes.\<close>

definition blank_day :: "string \<Rightarrow> string" where
  "blank_day buffer =
     (if 8 < length buffer \<and> buffer ! 8 = CHR ''0'' then buffer[8 := CHR '' ''] else buffer)"

fun bf_ctime :: "(int \<Rightarrow> string) \<Rightarrow> int \<Rightarrow> var list \<Rightarrow> pack option" where
  "bf_ctime strftime now [] = Some (make_var_pack (VStr (blank_day (strftime now))))"
| "bf_ctime strftime now [VInt c] = Some (make_var_pack (VStr (blank_day (strftime (sint c)))))"
| "bf_ctime strftime now _ = None"

text \<open>\<open>rnd\<close> is the next result of \<open>random()\<close>, a \<open>long\<close> between 0 and \<open>2^31 - 1\<close>.\<close>

fun bf_random :: "int \<Rightarrow> var list \<Rightarrow> pack option" where
  "bf_random rnd [] = Some (make_var_pack (VInt (word_of_int rnd)))"
| "bf_random rnd [VInt num] = Some
     (if sint num \<le> 0 then make_error_pack E_INVARG
      else make_var_pack (VInt (word_of_int (rnd smod sint num + 1))))"
| "bf_random rnd _ = None"

definition DBL_DIG :: int where "DBL_DIG = 15"

fun bf_floatstr :: "fp_ops \<Rightarrow> var list \<Rightarrow> pack option" where
  "bf_floatstr fp (VFloat d # VInt prec # opt) =
     (let use_sci = (case opt of v # _ \<Rightarrow> is_true v | [] \<Rightarrow> False)
      in Some (if sint prec > DBL_DIG + 4
               then make_var_pack (VStr (fp_sprintf fp (DBL_DIG + 4) use_sci d))
               else if sint prec < 0 then make_error_pack E_INVARG
               else make_var_pack (VStr (fp_sprintf fp (sint prec) use_sci d))))"
| "bf_floatstr fp _ = None"

section \<open>Arithmetic\<close>

lemma power_loop_power: "power_loop a b r = r * a ^ b"
proof (induction a b r rule: power_loop.induct)
  case (1 a b r)
  show ?case
  proof (cases "b = 0")
    case True
    then show ?thesis by (simp add: power_loop.simps)
  next
    case False
    have sq: "(a * a) ^ (b div 2) = a ^ (2 * (b div 2))"
      by (simp add: power_mult power2_eq_square)
    have "power_loop a b r = (if b mod 2 \<noteq> 0 then r * a else r) * (a * a) ^ (b div 2)"
      using 1[OF False] False by (subst power_loop.simps) simp
    also have "\<dots> = r * a ^ b"
    proof (cases "b mod 2 = 0")
      case True
      then have "2 * (b div 2) = b" by auto
      with True sq show ?thesis by simp
    next
      case odd: False
      then have "b = Suc (2 * (b div 2))" by presburger
      then have "a ^ b = a * a ^ (2 * (b div 2))" by (metis power_Suc)
      with odd sq show ?thesis by (simp add: mult.assoc)
    qed
    finally show ?thesis .
  qed
qed

lemma sint_bounds32: "- (2 ^ 31) \<le> sint (a :: int32)" "sint (a :: int32) < 2 ^ 31"
  using sint_ge[of a] sint_lt[of a] by simp_all

lemma sint_word_of_int32:
  "- (2 ^ 31) \<le> i \<Longrightarrow> i < 2 ^ 31 \<Longrightarrow> sint (word_of_int i :: int32) = i"
  by (simp add: int_word_sint)

lemma INT_MIN_iff: "a = INT_MIN \<longleftrightarrow> sint a = - (2 ^ 31)"
proof -
  have "sint INT_MIN = - (2 ^ 31)" by (simp add: INT_MIN_def)
  then show ?thesis by (metis signed_word_eqI)
qed

lemma minus_one_iff: "b = (-1 :: int32) \<longleftrightarrow> sint b = -1"
  by (metis sint_n1 signed_word_eqI)

lemma zero_iff: "b = (0 :: int32) \<longleftrightarrow> sint b = 0"
  by (metis signed_0 signed_word_eqI)

lemma one_iff: "b = (1 :: int32) \<longleftrightarrow> sint b = 1"
  using signed_1[where 'a=int and 'b=32] by (auto intro: signed_word_eqI)

text \<open>The quotient truncates, the remainder has the sign of the dividend.\<close>

lemma c_div_mod:
  assumes "b \<noteq> 0" "\<not> (a = INT_MIN \<and> b = -1)"
  shows "\<exists>q m. c_div a b = Some q \<and> c_mod a b = Some m \<and>
    sint q * sint b + sint m = sint a \<and> \<bar>sint m\<bar> < \<bar>sint b\<bar> \<and> (sint m = 0 \<or> sgn (sint m) = sgn (sint a))"
proof -
  let ?q = "sint a sdiv sint b" and ?m = "sint a smod sint b"
  have b0: "sint b \<noteq> 0" using assms(1) by (simp add: zero_iff)
  have q: "- (2 ^ 31) \<le> ?q" "?q \<le> 2 ^ 31"
    using sdiv_int_range[of "sint a" "sint b"] sint_bounds32[of a] by auto
  have "?q \<noteq> 2 ^ 31"
  proof
    assume e: "?q = 2 ^ 31"
    have r: "\<bar>?q\<bar> \<le> \<bar>sint a\<bar>" using sdiv_int_range[of "sint a" "sint b"] by auto
    then have a: "sint a = - (2 ^ 31)" using e sint_bounds32[of a] by auto
    then have "sint b = -1" using e int_sdiv_negated_is_minus1[of "sint a" "sint b"] by simp
    then show False using a assms(2) by (simp add: INT_MIN_iff minus_one_iff)
  qed
  with q have sq: "sint (word_of_int ?q :: int32) = ?q" by (intro sint_word_of_int32) simp_all
  have m: "\<bar>?m\<bar> < \<bar>sint b\<bar>" using smod_int_range[OF b0, of "sint a"] by auto
  then have sm: "sint (word_of_int ?m :: int32) = ?m"
    using sint_bounds32[of b] by (intro sint_word_of_int32) auto
  have "0 \<le> \<bar>sint a\<bar> mod \<bar>sint b\<bar>" using b0 by simp
  then have s: "?m = 0 \<or> sgn ?m = sgn (sint a)"
    unfolding smod_int_alt_def by (cases "\<bar>sint a\<bar> mod \<bar>sint b\<bar> = 0") (simp_all add: sgn_mult)
  show ?thesis using assms sq sm m s sdiv_mult_smod_eq[of "sint a" "sint b"]
    by (auto simp: c_div_def c_mod_def)
qed

text \<open>\<open>x\<close> raised to a negative power, rounded towards zero.\<close>

lemma power_negative_cases:
  assumes "sint b < 0"
  shows "power_negative a b = (if a = 0 then VErr E_DIV
    else VInt (word_of_int (1 sdiv (sint a ^ nat (- sint b)))))"
proof -
  obtain k where k: "nat (- sint b) = Suc k" using assms by (metis Suc_pred neg_0_less_iff_less zero_less_nat_eq)
  have ev: "even (sint b) = even (Suc k)"
    by (metis assms even_minus even_nat_iff k less_imp_le neg_0_le_iff_le)
  consider "a = -1" | "a = 0" | "a = 1" | "\<bar>sint a\<bar> > 1"
    using minus_one_iff[of a] zero_iff[of a] one_iff[of a] by linarith
  then show ?thesis
  proof cases
    case 1
    then show ?thesis using ev k by (simp add: power_negative_def sint_n1)
  next
    case 4
    have "\<bar>sint a\<bar> ^ Suc k > 1" using 4 by (meson one_less_power zero_less_Suc)
    then have g: "\<bar>sint a ^ Suc k\<bar> > 1" by (simp only: power_abs)
    then have "1 sdiv (sint a ^ Suc k) = 0" by (simp add: signed_divide_int_def)
    then show ?thesis using 4 k by (auto simp: power_negative_def sint_n1)
  qed (simp_all add: power_negative_def k)
qed

section \<open>Numbers in strings\<close>

lemma c_isdigit_char_of: "d < 10 \<Longrightarrow> c_isdigit (char_of (48 + d)) \<and> ch (char_of (48 + d)) = 48 + d"
  by (simp add: c_isdigit_def)

lemma show_nat_Cons: "\<exists>d s. show_nat n = d # s \<and> c_isdigit d"
proof (induction n rule: show_nat.induct)
  case (1 n)
  show ?case
  proof (cases "n < 10")
    case True
    then show ?thesis using c_isdigit_char_of[of n] by (simp add: show_nat.simps[of n])
  next
    case False
    then obtain d s where "show_nat (n div 10) = d # s" "c_isdigit d" using 1 by auto
    with False show ?thesis by (simp add: show_nat.simps[of n])
  qed
qed

lemma digits_value_show_nat: "digits_value 0 (show_nat n @ rest) = digits_value n rest"
proof (induction n arbitrary: rest rule: show_nat.induct)
  case (1 n)
  show ?case
  proof (cases "n < 10")
    case True
    then show ?thesis using c_isdigit_char_of[of n] by (simp add: show_nat.simps[of n])
  next
    case False
    have d: "c_isdigit (char_of (48 + n mod 10)) \<and> ch (char_of (48 + n mod 10)) = 48 + n mod 10"
      by (rule c_isdigit_char_of) simp
    show ?thesis using False 1 d by (simp add: show_nat.simps[of n])
  qed
qed

lemma digit_not_space: "c_isdigit c \<Longrightarrow> \<not> c_isspace c"
  by (auto simp: c_isdigit_def c_isspace_def)

lemma strtol_digits:
  assumes "rest = [] \<or> \<not> c_isdigit (hd rest)" "- (2 ^ 63) \<le> i" "i < 2 ^ 63"
  shows "strtol (show_int i @ rest) = (i, rest)"
proof -
  have dv: "digits_value n rest = (n, rest)" for n
    using assms(1) by (cases rest) simp_all
  have cl: "clamp_long i = i" using assms(2,3) by (simp add: clamp_long_def)
  have minus: "\<not> c_isspace CHR ''-''" by (simp add: c_isspace_def ch_def)
  have sgn: "\<not> c_isdigit CHR ''-''" "\<not> c_isdigit CHR ''+''" by (simp_all add: c_isdigit_def ch_def)
  show ?thesis
  proof (cases "i < 0")
    case True
    obtain d s where ds: "show_nat (nat (- i)) = d # s" "c_isdigit d" using show_nat_Cons by blast
    have "digits_value 0 (d # s @ rest) = (nat (- i), rest)"
      using digits_value_show_nat[of "nat (- i)" rest] dv ds(1) by simp
    then show ?thesis using True cl ds minus
      by (simp add: strtol_def show_int_def take_sign_def)
  next
    case False
    obtain d s where ds: "show_nat (nat i) = d # s" "c_isdigit d" using show_nat_Cons by blast
    have d: "d \<noteq> CHR ''-''" "d \<noteq> CHR ''+''" using ds(2) sgn by auto
    have "digits_value 0 (d # s @ rest) = (nat i, rest)"
      using digits_value_show_nat[of "nat i" rest] dv ds(1) by simp
    then show ?thesis using False cl ds d digit_not_space[of d]
      by (simp add: strtol_def show_int_def take_sign_def)
  qed
qed

lemma show_int_neq_Nil: "show_int i \<noteq> []"
  using show_nat_Cons[of "nat i"] by (auto simp: show_int_def)

lemma all_spaces_hd: "all_spaces s \<Longrightarrow> s = [] \<or> hd s = CHR '' ''"
  by (cases s) (auto simp: all_spaces_def)

lemma parse_number_show_int:
  assumes "all_spaces sp"
  shows "parse_number fp (show_int (sint n) @ sp) tfp = Some (Some n)"
proof -
  have "strtol (show_int (sint n) @ sp) = (sint n, sp)"
  proof (rule strtol_digits)
    show "sp = [] \<or> \<not> c_isdigit (hd sp)" using all_spaces_hd[OF assms]
      by (auto simp: c_isdigit_def ch_def)
  qed (use sint_bounds32[of n] in auto)
  then show ?thesis using assms all_spaces_hd[OF assms] show_int_neq_Nil[of "sint n"]
    by (auto simp: parse_number_def)
qed

lemma show_int_hd: "hd (show_int i) = CHR ''-'' \<or> c_isdigit (hd (show_int i))"
  using show_nat_Cons[of "nat i"] by (auto simp: show_int_def)

lemma parse_object_show_int:
  assumes "all_spaces pre" "all_spaces sp"
  shows "parse_object fp (pre @ CHR ''#'' # show_int (sint n) @ sp) = Some (Some n)"
    and "parse_object fp (pre @ show_int (sint n) @ sp) = Some (Some n)"
proof -
  have pre: "skip_spaces (pre @ s) = skip_spaces s" for s
    using assms(1) by (simp add: skip_spaces_def all_spaces_def dropWhile_append)
  have h: "hd (show_int (sint n)) \<noteq> CHR '' ''" "hd (show_int (sint n)) \<noteq> CHR ''#''"
    using show_int_hd[of "sint n"] by (auto simp: c_isdigit_def ch_def)
  then have "skip_spaces (show_int (sint n) @ sp) = show_int (sint n) @ sp"
    using show_int_neq_Nil[of "sint n"] by (cases "show_int (sint n)") (simp_all add: skip_spaces_def)
  then show "parse_object fp (pre @ CHR ''#'' # show_int (sint n) @ sp) = Some (Some n)"
      "parse_object fp (pre @ show_int (sint n) @ sp) = Some (Some n)"
    using h show_int_neq_Nil[of "sint n"] parse_number_show_int[OF assms(2)]
    by (auto simp: parse_object_def pre skip_char_def) (simp_all add: skip_spaces_def)
qed

section \<open>Least and greatest\<close>

lemma best_int_spec:
  "best_int mn r bad (map VInt ns) = (r', bad') \<Longrightarrow>
    bad' = bad \<and> r' \<in> set (r # ns) \<and> (\<forall>x \<in> set (r # ns). \<not> int_better mn x r')"
proof (induction ns arbitrary: r)
  case (Cons n ns)
  have t: "int_better mn n r \<Longrightarrow> int_better mn r x \<Longrightarrow> int_better mn n x"
      "\<not> int_better mn n r \<Longrightarrow> int_better mn n x \<Longrightarrow> int_better mn r x" for x
    by (auto simp: int_better_def split: if_splits)
  let ?r = "if int_better mn n r then n else r"
  have "bad' = bad \<and> r' \<in> set (?r # ns) \<and> (\<forall>x \<in> set (?r # ns). \<not> int_better mn x r')"
    using Cons.IH[of ?r] Cons.prems by simp
  then show ?case using t[of r'] by (auto split: if_splits)
qed (auto simp: int_better_def)

lemma best_int_bad: "snd (best_int mn r bad vs) \<longleftrightarrow> bad \<or> (\<exists>v \<in> set vs. var_type v \<noteq> 0)"
  by (induction mn r bad vs rule: best_int.induct) auto

lemma all_ints: "(\<forall>v \<in> set vs. var_type v = 0) \<Longrightarrow> \<exists>ns. vs = map VInt ns"
proof (induction vs)
  case (Cons v vs)
  then obtain ns where "vs = map VInt ns" by auto
  moreover obtain n where "v = VInt n" using Cons.prems by (cases v) auto
  ultimately show ?case by (metis list.map(2))
qed simp

lemma bf_best_ints:
  "\<exists>r. bf_best mn (map VInt (n # ns)) = Some (BI_RETURN (VInt r)) \<and> r \<in> set (n # ns) \<and>
    (\<forall>x \<in> set (n # ns). if mn then sint r \<le> sint x else sint x \<le> sint r)"
proof -
  obtain r bad where rb: "best_int mn n False (map VInt ns) = (r, bad)" by (cases "best_int mn n False (map VInt ns)")
  from best_int_spec[OF rb] show ?thesis
    using rb by (intro exI[of _ r]) (auto simp: pack_defs int_better_def not_less)
qed

lemma bf_best_bad:
  "\<exists>v \<in> set vs. var_type v \<noteq> 0 \<Longrightarrow> bf_best mn (VInt n # vs) = Some (make_error_pack E_TYPE)"
  using best_int_bad[of mn n False vs] by (auto simp: pack_defs split: prod.splits)

section \<open>Random numbers\<close>

lemma bf_random_range:
  assumes "0 \<le> rnd" "0 < sint num"
  shows "\<exists>r. bf_random rnd [VInt num] = Some (BI_RETURN (VInt r)) \<and> 1 \<le> sint r \<and> sint r \<le> sint num"
proof -
  let ?m = "rnd smod sint num"
  have m: "0 \<le> ?m" "?m < sint num" using assms by (simp_all add: smod_int_compares)
  then have "sint (word_of_int (?m + 1) :: int32) = ?m + 1"
    using sint_bounds32[of num] by (intro sint_word_of_int32) auto
  then show ?thesis using assms m by (auto simp: pack_defs)
qed

lemma division_op_type: "var_type v \<noteq> var_type w \<Longrightarrow> division_op iop fop v w = Some (VErr E_TYPE)"
  by (cases v; cases w) simp_all

lemma unat_eq_nat_sint: "0 \<le> sint (b :: int32) \<Longrightarrow> unat b = nat (sint b)"
  using sint_bounds32[of b] by (simp add: uint_sint take_bit_int_eq_self del: unsigned_eq_0_iff flip: nat_uint_eq)

text \<open>An instance of the library parameter to evaluate examples with: no number is read, every result is 0.\<close>

definition demo_fp :: fp_ops where
  "demo_fp = \<lparr>fp_add = (\<lambda>_ _. 0), fp_subtract = (\<lambda>_ _. 0), fp_multiply = (\<lambda>_ _. 0),
     fp_divide = (\<lambda>_ _. 0), fp_fmod = (\<lambda>_ _. 0), fp_pow = (\<lambda>_ _. (0, NO_ERRNO)), fp_of_int = (\<lambda>_. 0),
     fp_math = (\<lambda>_ _. (0, NO_ERRNO)), fp_atan2 = (\<lambda>_ _. (0, NO_ERRNO)), fp_strtod = (\<lambda>_. (0, 0)),
     fp_sprintf = (\<lambda>_ _ _. [])\<rparr>"

end
