(* ===== verification/Db_State.thy ===== *)
theory Db_State
  imports Moo_List
begin

text \<open>
  The in-memory object database: the structures of src/include/db_private.h and
  src/include/program.h, the object table, the attributes of an object and the flags
  (src/src/db_objects.c), and the flush of the verb cache (src/src/db_verbs.c), which the object
  operations call.

  \<open>objects db oid\<close> is the entry of the C array \<open>objects[oid]\<close>: \<open>None\<close> for a null pointer,
  and also for an index at which the array holds nothing the program may read. Reading
  \<open>objects[oid]->...\<close> there kills the server, so it makes an operation \<open>None\<close>. A
  \<open>Verbdef *\<close> is the pair of the object whose list holds it and its position in that list.
\<close>

section \<open>Records\<close>

record bytecodes =
  bc_numbytes_label :: nat
  bc_numbytes_literal :: nat
  bc_numbytes_fork :: nat
  bc_numbytes_var_name :: nat
  bc_numbytes_stack :: nat
  bc_vector :: "8 word list"
  bc_max_stack :: nat

record program =
  pg_version :: nat
  pg_first_lineno :: nat
  pg_main_vector :: bytecodes
  pg_literals :: "var list"
  pg_fork_vectors :: "bytecodes list"
  pg_var_names :: "string list"

record verbdef =
  vd_name :: string
  vd_program :: "program option"
  vd_owner :: objid
  vd_perms :: "16 word"
  vd_prep :: int

record propdef =
  pd_name :: string
  pd_hash :: uint32

record pval =
  pv_var :: var
  pv_owner :: objid
  pv_perms :: "16 word"

text \<open>The \<open>Proplist\<close> of an object is its definitions and the room allocated for them.\<close>

record obj =
  ob_id :: objid
  ob_owner :: objid
  ob_location :: objid
  ob_contents :: objid
  ob_next :: objid
  ob_parent :: objid
  ob_child :: objid
  ob_sibling :: objid
  ob_name :: string
  ob_flags :: int32
  ob_verbdefs :: "verbdef list"
  ob_propdefs :: "propdef list"
  ob_max_props :: nat
  ob_propval :: "pval list"

type_synonym verb_ptr = "objid \<times> nat"

record vc_entry =
  vc_hash :: uint32
  vc_oid_key :: objid
  vc_verbname :: string
  vc_handle :: "verb_ptr option"

record db =
  objects :: "objid \<Rightarrow> obj option"
  num_objects :: int
  max_objects :: int
  all_users :: "var list"
  vc_table :: "(nat \<Rightarrow> vc_entry list) option"
  db_verb_generation :: int
  verbcache_hit :: int
  verbcache_neg_hit :: int
  verbcache_miss :: int

section \<open>The object table\<close>

definition dbpriv_find_object :: "db \<Rightarrow> objid \<Rightarrow> obj option" where
  "dbpriv_find_object db oid =
     (if oid < 0 \<or> oid \<ge> num_objects db then None else objects db oid)"

definition valid :: "db \<Rightarrow> objid \<Rightarrow> bool" where
  "valid db oid \<longleftrightarrow> dbpriv_find_object db oid \<noteq> None"

definition db_last_used_objid :: "db \<Rightarrow> objid" where
  "db_last_used_objid db = num_objects db - 1"

text \<open>Lowering the high-water mark; with no object left the loop reads \<open>objects[-1]\<close>.\<close>

fun reset_loop :: "(objid \<Rightarrow> obj option) \<Rightarrow> nat \<Rightarrow> int option" where
  "reset_loop objs 0 = None"
| "reset_loop objs (Suc n) = (if objs (int n) = None then reset_loop objs n else Some (int n + 1))"

definition db_reset_last_used_objid :: "db \<Rightarrow> db option" where
  "db_reset_last_used_objid db =
     map_option (\<lambda>n. db\<lparr>num_objects := n\<rparr>) (reset_loop (objects db) (nat (num_objects db)))"

definition ensure_new_object :: "db \<Rightarrow> db" where
  "ensure_new_object db =
     (let db1 = (if max_objects db = 0 then db\<lparr>max_objects := 100\<rparr> else db)
      in if num_objects db1 \<ge> max_objects db1
         then db1\<lparr>max_objects := max_objects db1 * 2\<rparr> else db1)"

definition put_object :: "db \<Rightarrow> objid \<Rightarrow> obj option \<Rightarrow> db" where
  "put_object db oid o_opt = db\<lparr>objects := (objects db)(oid := o_opt)\<rparr>"

text \<open>\<open>objects[oid]->field = ...\<close>\<close>

definition mod_object :: "db \<Rightarrow> objid \<Rightarrow> (obj \<Rightarrow> obj) \<Rightarrow> db option" where
  "mod_object db oid f = map_option (\<lambda>ob. put_object db oid (Some (f ob))) (objects db oid)"

section \<open>The verb cache is flushed\<close>

definition db_priv_affected_callable_verb_lookup :: "db \<Rightarrow> db" where
  "db_priv_affected_callable_verb_lookup db =
     (case vc_table db of
        None \<Rightarrow> db
      | Some _ \<Rightarrow> db\<lparr>db_verb_generation := db_verb_generation db + 1, vc_table := Some (\<lambda>_. [])\<rparr>)"

section \<open>Attributes\<close>

definition db_object_owner :: "db \<Rightarrow> objid \<Rightarrow> objid option" where
  "db_object_owner db oid = map_option ob_owner (objects db oid)"

definition db_set_object_owner :: "db \<Rightarrow> objid \<Rightarrow> objid \<Rightarrow> db option" where
  "db_set_object_owner db oid owner = mod_object db oid (ob_owner_update (\<lambda>_. owner))"

definition db_object_name :: "db \<Rightarrow> objid \<Rightarrow> string option" where
  "db_object_name db oid = map_option ob_name (objects db oid)"

definition db_set_object_name :: "db \<Rightarrow> objid \<Rightarrow> string \<Rightarrow> db option" where
  "db_set_object_name db oid nm = mod_object db oid (ob_name_update (\<lambda>_. nm))"

definition db_object_parent :: "db \<Rightarrow> objid \<Rightarrow> objid option" where
  "db_object_parent db oid = map_option ob_parent (objects db oid)"

definition db_object_location :: "db \<Rightarrow> objid \<Rightarrow> objid option" where
  "db_object_location db oid = map_option ob_location (objects db oid)"

section \<open>Flags\<close>

datatype db_object_flag =
    FLAG_USER | FLAG_PROGRAMMER | FLAG_WIZARD | FLAG_OBSOLETE_1
  | FLAG_READ | FLAG_WRITE | FLAG_OBSOLETE_2 | FLAG_FERTILE

fun flag_bit :: "db_object_flag \<Rightarrow> nat" where
  "flag_bit FLAG_USER = 0" | "flag_bit FLAG_PROGRAMMER = 1" | "flag_bit FLAG_WIZARD = 2"
| "flag_bit FLAG_OBSOLETE_1 = 3" | "flag_bit FLAG_READ = 4" | "flag_bit FLAG_WRITE = 5"
| "flag_bit FLAG_OBSOLETE_2 = 6" | "flag_bit FLAG_FERTILE = 7"

definition has_flag :: "obj \<Rightarrow> db_object_flag \<Rightarrow> bool" where
  "has_flag ob f \<longleftrightarrow> ob_flags ob AND push_bit (flag_bit f) 1 \<noteq> 0"

definition db_object_has_flag :: "db \<Rightarrow> objid \<Rightarrow> db_object_flag \<Rightarrow> bool option" where
  "db_object_has_flag db oid f = map_option (\<lambda>ob. has_flag ob f) (objects db oid)"

definition db_set_object_flag :: "db \<Rightarrow> objid \<Rightarrow> db_object_flag \<Rightarrow> db option" where
  "db_set_object_flag db oid f = do {
     db1 \<leftarrow> mod_object db oid (ob_flags_update (\<lambda>fl. fl OR push_bit (flag_bit f) 1));
     if f = FLAG_USER
     then do { us \<leftarrow> setadd (all_users db1) (VObj oid); Some (db1\<lparr>all_users := us\<rparr>) }
     else Some db1 }"

definition db_clear_object_flag :: "db \<Rightarrow> objid \<Rightarrow> db_object_flag \<Rightarrow> db option" where
  "db_clear_object_flag db oid f = do {
     db1 \<leftarrow> mod_object db oid (ob_flags_update (\<lambda>fl. fl AND NOT (push_bit (flag_bit f) 1)));
     if f = FLAG_USER
     then do { us \<leftarrow> setremove (all_users db1) (VObj oid); Some (db1\<lparr>all_users := us\<rparr>) }
     else Some db1 }"

text \<open>The tests of a flag guarded by \<open>valid\<close> never read a null pointer.\<close>

definition valid_flag :: "db \<Rightarrow> objid \<Rightarrow> db_object_flag \<Rightarrow> bool" where
  "valid_flag db oid f \<longleftrightarrow> (case dbpriv_find_object db oid of None \<Rightarrow> False | Some ob \<Rightarrow> has_flag ob f)"

definition is_wizard :: "db \<Rightarrow> objid \<Rightarrow> bool" where
  "is_wizard db oid = valid_flag db oid FLAG_WIZARD"

definition is_programmer :: "db \<Rightarrow> objid \<Rightarrow> bool" where
  "is_programmer db oid = valid_flag db oid FLAG_PROGRAMMER"

definition is_user :: "db \<Rightarrow> objid \<Rightarrow> bool" where
  "is_user db oid = valid_flag db oid FLAG_USER"

definition db_object_allows :: "db \<Rightarrow> objid \<Rightarrow> objid \<Rightarrow> db_object_flag \<Rightarrow> bool option" where
  "db_object_allows db oid progr f = do {
     ow \<leftarrow> db_object_owner db oid;
     if progr = ow \<or> is_wizard db progr then Some True else db_object_has_flag db oid f }"

section \<open>Facts about the table\<close>

lemma objects_put [simp]: "objects (put_object db x o_opt) = (objects db)(x := o_opt)"
  by (simp add: put_object_def)

lemma put_object_fields [simp]:
  "num_objects (put_object db x o_opt) = num_objects db"
  "max_objects (put_object db x o_opt) = max_objects db"
  "all_users (put_object db x o_opt) = all_users db"
  "vc_table (put_object db x o_opt) = vc_table db"
  by (simp_all add: put_object_def)

lemma mod_object_Some: "objects db x = Some ob \<Longrightarrow> mod_object db x f = Some (put_object db x (Some (f ob)))"
  by (simp add: mod_object_def)

lemma mod_object_eq_Some:
  "mod_object db x f = Some db' \<longleftrightarrow>
    (\<exists>ob. objects db x = Some ob \<and> db' = put_object db x (Some (f ob)))"
  by (auto simp: mod_object_def)

lemma flush_fields [simp]:
  "objects (db_priv_affected_callable_verb_lookup db) = objects db"
  "num_objects (db_priv_affected_callable_verb_lookup db) = num_objects db"
  "max_objects (db_priv_affected_callable_verb_lookup db) = max_objects db"
  "all_users (db_priv_affected_callable_verb_lookup db) = all_users db"
  by (simp_all add: db_priv_affected_callable_verb_lookup_def split: option.splits)

lemma ensure_new_object_fields [simp]:
  "objects (ensure_new_object db) = objects db"
  "num_objects (ensure_new_object db) = num_objects db"
  "all_users (ensure_new_object db) = all_users db"
  "vc_table (ensure_new_object db) = vc_table db"
  by (simp_all add: ensure_new_object_def Let_def)

lemma ensure_new_object_room:
  assumes "0 \<le> num_objects db" "num_objects db \<le> max_objects db"
  shows "num_objects db < max_objects (ensure_new_object db)"
  using assms by (auto simp: ensure_new_object_def Let_def)

lemma find_object_Some_objects: "dbpriv_find_object db x = Some ob \<Longrightarrow> objects db x = Some ob"
  by (simp add: dbpriv_find_object_def split: if_splits)

text \<open>Flags are the bits of the flag word.\<close>

lemma has_flag_bit: "has_flag ob f \<longleftrightarrow> bit (ob_flags ob) (flag_bit f)"
proof -
  have "flag_bit f < 32" by (cases f) simp_all
  then show ?thesis
    unfolding has_flag_def push_bit_eq_mult
    by (simp add: and_exp_eq_0_iff_not_bit)
qed

lemma flag_bit_inject [simp]: "flag_bit f = flag_bit g \<longleftrightarrow> f = g"
  by (cases f; cases g) simp_all

lemma flag_bit_less: "flag_bit f < 32"
  by (cases f) simp_all

lemma has_flag_set:
  "has_flag (ob_flags_update (\<lambda>fl. fl OR push_bit (flag_bit f) 1) ob) g \<longleftrightarrow> g = f \<or> has_flag ob g"
  using flag_bit_less[of f] by (auto simp: has_flag_bit bit_simps)

lemma has_flag_clear:
  "has_flag (ob_flags_update (\<lambda>fl. fl AND NOT (push_bit (flag_bit f) 1)) ob) g \<longleftrightarrow>
    g \<noteq> f \<and> has_flag ob g"
  using flag_bit_less[of g] by (auto simp: has_flag_bit bit_simps)

end
