(* ===== verification/Db_Chain.thy ===== *)
theory Db_Chain
  imports Db_State
begin

text \<open>
  The linked lists of src/src/db_objects.c. The children of an object hang off its \<open>child\<close>
  field and are linked by \<open>sibling\<close>; its contents hang off \<open>contents\<close> and are linked by
  \<open>next\<close>. The macros \<open>LL_REMOVE\<close> and \<open>LL_APPEND\<close> work on either, so their models take
  the head field and the link field as getters and record updates.

  A list in memory is described by \<open>chain f x xs\<close>: following the link \<open>f\<close> from \<open>x\<close> visits
  exactly \<open>xs\<close> and ends in \<open>NOTHING\<close>. The same predicate describes the ancestors of an
  object, with \<open>parent\<close> as the link. The locale \<open>linked_list\<close> states what a pair of
  fields must satisfy, proves the macros correct once, and is interpreted for children and for
  contents.
\<close>

section \<open>Chains\<close>

fun chain :: "(objid \<Rightarrow> objid option) \<Rightarrow> objid \<Rightarrow> objid list \<Rightarrow> bool" where
  "chain f x [] \<longleftrightarrow> x = NOTHING"
| "chain f x (y # ys) \<longleftrightarrow> x = y \<and> x \<noteq> NOTHING \<and> (\<exists>z. f x = Some z \<and> chain f z ys)"

definition link :: "(obj \<Rightarrow> objid) \<Rightarrow> db \<Rightarrow> objid \<Rightarrow> objid option" where
  "link nx db x = map_option nx (objects db x)"

lemma link_Some: "link nx db x = Some z \<longleftrightarrow> (\<exists>ob. objects db x = Some ob \<and> z = nx ob)"
  by (auto simp: link_def)

lemma chain_NOTHING [simp]: "chain f (-1) xs \<longleftrightarrow> xs = []"
  by (cases xs) auto

lemma chain_unique: "chain f x xs \<Longrightarrow> chain f x ys \<Longrightarrow> xs = ys"
proof (induction xs arbitrary: x ys)
  case (Cons a xs)
  then show ?case by (cases ys) auto
qed (cases ys; simp)

lemma chain_nonempty: "x \<noteq> NOTHING \<Longrightarrow> chain f x xs \<Longrightarrow> \<exists>ys z. xs = x # ys \<and> f x = Some z \<and> chain f z ys"
  by (cases xs) auto

lemma chain_append:
  "chain f x (xs @ y # ys) \<Longrightarrow> \<exists>z. y \<noteq> NOTHING \<and> f y = Some z \<and> chain f y (y # ys)"
  by (induction xs arbitrary: x) auto

lemma chain_distinct: "chain f x xs \<Longrightarrow> distinct xs"
proof (induction xs arbitrary: x)
  case (Cons a xs)
  then obtain z where z: "f a = Some z" "chain f z xs" "x = a" by auto
  have "a \<notin> set xs"
  proof
    assume "a \<in> set xs"
    then obtain us vs where "xs = us @ a # vs" by (meson split_list)
    then have "chain f a (a # vs)" using chain_append z(2) by blast
    then have "chain f z vs" using z(1) by auto
    then have "xs = vs" using chain_unique z(2) by blast
    then show False using \<open>xs = us @ a # vs\<close> by (metis append_self_conv2 length_append
      list.size(4) not_add_less2 less_add_Suc2 add_Suc_right add.commute length_Cons lessI not_less_eq)
  qed
  with Cons.IH z(2) show ?case by simp
qed simp

lemma chain_not_NOTHING: "chain f x xs \<Longrightarrow> NOTHING \<notin> set xs"
  by (induction xs arbitrary: x) auto

lemma chain_defined: "chain f x xs \<Longrightarrow> y \<in> set xs \<Longrightarrow> \<exists>z. f y = Some z"
  by (induction xs arbitrary: x) auto

lemma chain_cong: "(\<And>y. y \<in> set xs \<Longrightarrow> f y = g y) \<Longrightarrow> chain f x xs = chain g x xs"
proof (induction xs arbitrary: x)
  case (Cons a xs)
  then show ?case by auto
qed simp

lemma chain_upd_other [simp]: "y \<notin> set xs \<Longrightarrow> chain (f(y := z)) x xs = chain f x xs"
  by (rule chain_cong) auto

text \<open>The end of a chain, and appending to it.\<close>

lemma chain_snoc:
  "chain f x (xs @ [l]) \<Longrightarrow> what \<notin> set (xs @ [l]) \<Longrightarrow> what \<noteq> NOTHING \<Longrightarrow>
    chain (f(l := Some what, what := Some (-1))) x (xs @ [l, what])"
proof (induction xs arbitrary: x)
  case (Cons a xs)
  have "a \<noteq> l" using chain_distinct[OF Cons.prems(1)] by auto
  then show ?case using Cons by auto
qed auto

text \<open>Bypassing an element.\<close>

lemma chain_bypass:
  "chain f x (xs @ [p, what] @ ys) \<Longrightarrow>
    chain (f(p := f what)) x (xs @ [p] @ ys)"
proof (induction xs arbitrary: x)
  case Nil
  then have d: "distinct (p # what # ys)" using chain_distinct by fastforce
  from Nil obtain z w where "x = p" "p \<noteq> NOTHING" "f what = Some w" "chain f w ys" by auto
  moreover have "chain (f(p := f what)) w ys"
    using d \<open>chain f w ys\<close> by (simp only: chain_upd_other list.set distinct.simps) auto
  ultimately show ?case
    by (simp del: fun_upd_apply add: fun_upd_same) 
next
  case (Cons a xs)
  have "a \<noteq> p" using chain_distinct[OF Cons.prems] by auto
  then show ?case using Cons by auto
qed

section \<open>The macros\<close>

text \<open>
  The loop of \<open>LL_REMOVE\<close>: the element whose link is \<open>what\<close>, or \<open>NOTHING\<close>. The loop of
  \<open>LL_APPEND\<close>: the element whose link is \<open>NOTHING\<close>.
\<close>

partial_function (option) ll_prev :: "(obj \<Rightarrow> objid) \<Rightarrow> db \<Rightarrow> objid \<Rightarrow> objid \<Rightarrow> objid option" where
  "ll_prev nx db lid what =
     (if lid = -1 then Some (-1)
      else do { ob \<leftarrow> objects db lid;
                if nx ob = what then Some lid else ll_prev nx db (nx ob) what })"

declare ll_prev.simps [code]

partial_function (option) ll_last :: "(obj \<Rightarrow> objid) \<Rightarrow> db \<Rightarrow> objid \<Rightarrow> objid option" where
  "ll_last nx db lid =
     do { ob \<leftarrow> objects db lid; if nx ob \<noteq> -1 then ll_last nx db (nx ob) else Some lid }"

declare ll_last.simps [code]

definition LL_REMOVE :: "(obj \<Rightarrow> objid) \<Rightarrow> ((objid \<Rightarrow> objid) \<Rightarrow> obj \<Rightarrow> obj) \<Rightarrow>
    (obj \<Rightarrow> objid) \<Rightarrow> ((objid \<Rightarrow> objid) \<Rightarrow> obj \<Rightarrow> obj) \<Rightarrow> db \<Rightarrow> objid \<Rightarrow> objid \<Rightarrow> db option" where
  "LL_REMOVE hd_f hd_upd nx nx_upd db where_id what = do {
     w \<leftarrow> objects db where_id;
     t \<leftarrow> objects db what;
     db1 \<leftarrow> (if hd_f w = what then mod_object db where_id (hd_upd (\<lambda>_. nx t))
       else do { lid \<leftarrow> ll_prev nx db (hd_f w) what;
                 if lid = -1 then Some db else mod_object db lid (nx_upd (\<lambda>_. nx t)) });
     mod_object db1 what (nx_upd (\<lambda>_. -1)) }"

definition LL_APPEND :: "(obj \<Rightarrow> objid) \<Rightarrow> ((objid \<Rightarrow> objid) \<Rightarrow> obj \<Rightarrow> obj) \<Rightarrow>
    (obj \<Rightarrow> objid) \<Rightarrow> ((objid \<Rightarrow> objid) \<Rightarrow> obj \<Rightarrow> obj) \<Rightarrow> db \<Rightarrow> objid \<Rightarrow> objid \<Rightarrow> db option" where
  "LL_APPEND hd_f hd_upd nx nx_upd db where_id what = do {
     w \<leftarrow> objects db where_id;
     db1 \<leftarrow> (if hd_f w = -1 then mod_object db where_id (hd_upd (\<lambda>_. what))
       else do { lid \<leftarrow> ll_last nx db (hd_f w); mod_object db lid (nx_upd (\<lambda>_. what)) });
     mod_object db1 what (nx_upd (\<lambda>_. -1)) }"

text \<open>Counting and collecting along the links.\<close>

partial_function (option) ll_list :: "(obj \<Rightarrow> objid) \<Rightarrow> db \<Rightarrow> objid \<Rightarrow> objid list option" where
  "ll_list nx db c =
     (if c = -1 then Some []
      else do { ob \<leftarrow> objects db c; cs \<leftarrow> ll_list nx db (nx ob); Some (c # cs) })"

declare ll_list.simps [code]

definition db_children :: "db \<Rightarrow> objid \<Rightarrow> objid list option" where
  "db_children db oid = do { ob \<leftarrow> objects db oid; ll_list ob_sibling db (ob_child ob) }"

definition db_count_children :: "db \<Rightarrow> objid \<Rightarrow> nat option" where
  "db_count_children db oid = map_option length (db_children db oid)"

definition db_contents :: "db \<Rightarrow> objid \<Rightarrow> objid list option" where
  "db_contents db oid = do { ob \<leftarrow> objects db oid; ll_list ob_next db (ob_contents ob) }"

definition db_count_contents :: "db \<Rightarrow> objid \<Rightarrow> nat option" where
  "db_count_contents db oid = map_option length (db_contents db oid)"

lemma ll_list_chain: "chain (link nx db) x xs \<Longrightarrow> ll_list nx db x = Some xs"
proof (induction xs arbitrary: x)
  case (Cons a xs)
  then show ?case by (subst ll_list.simps) (auto simp: link_Some)
qed (simp add: ll_list.simps)

lemma ll_list_Some_chain: "ll_list nx db x = Some xs \<Longrightarrow> chain (link nx db) x xs"
proof (induction xs arbitrary: x)
  case Nil
  then show ?case by (subst (asm) ll_list.simps) (auto simp: bind_Some_iff split: if_splits)
next
  case (Cons a xs)
  from Cons.prems show ?case
    by (subst (asm) ll_list.simps) (auto simp: bind_Some_iff link_Some Cons.IH split: if_splits)
qed

lemma ll_last_chain: "chain (link nx db) x (xs @ [l]) \<Longrightarrow> ll_last nx db x = Some l"
proof (induction xs arbitrary: x)
  case Nil
  then show ?case by (subst ll_last.simps) (auto simp: link_Some)
next
  case (Cons a xs)
  then obtain ob where ob: "objects db a = Some ob" "chain (link nx db) (nx ob) (xs @ [l])" "x = a"
    by (auto simp: link_Some)
  then have "nx ob \<noteq> -1" by (cases xs) auto
  with Cons.IH ob show ?case by (subst ll_last.simps) auto
qed

lemma ll_prev_chain:
  "chain (link nx db) x (xs @ [p, what] @ ys) \<Longrightarrow> ll_prev nx db x what = Some p"
proof (induction xs arbitrary: x)
  case Nil
  then show ?case by (subst ll_prev.simps) (auto simp: link_Some)
next
  case (Cons a xs)
  then obtain ob where ob: "objects db a = Some ob" "x = a" "a \<noteq> -1"
      "chain (link nx db) (nx ob) (xs @ [p, what] @ ys)"
    by (auto simp: link_Some)
  have "nx ob \<noteq> what"
  proof
    assume "nx ob = what"
    then have "hd (xs @ [p, what] @ ys) = what" using ob(4) by (cases xs) auto
    moreover have "distinct (xs @ [p, what] @ ys)" using chain_distinct ob(4) by blast
    ultimately show False by (cases xs) auto
  qed
  with Cons.IH ob show ?case by (subst ll_prev.simps) auto
qed

section \<open>The contract of the two fields\<close>

text \<open>The list that hangs off object \<open>p\<close>.\<close>

definition list_at :: "(obj \<Rightarrow> objid) \<Rightarrow> (obj \<Rightarrow> objid) \<Rightarrow> db \<Rightarrow> objid \<Rightarrow> objid list \<Rightarrow> bool" where
  "list_at hd_f nx db p xs \<longleftrightarrow> (\<exists>h. link hd_f db p = Some h \<and> chain (link nx db) h xs)"

text \<open>Two states that differ in the head and link fields of some objects only.\<close>

definition relinked :: "((objid \<Rightarrow> objid) \<Rightarrow> obj \<Rightarrow> obj) \<Rightarrow> ((objid \<Rightarrow> objid) \<Rightarrow> obj \<Rightarrow> obj) \<Rightarrow>
    db \<Rightarrow> db \<Rightarrow> bool" where
  "relinked hd_upd nx_upd db db' \<longleftrightarrow>
     (\<exists>h n. db' = db\<lparr>objects := \<lambda>x. map_option (\<lambda>ob. nx_upd (n x) (hd_upd (h x) ob)) (objects db x)\<rparr>)"

text \<open>Every object holds the list that \<open>K\<close> gives.\<close>

definition lists_at :: "(obj \<Rightarrow> objid) \<Rightarrow> (obj \<Rightarrow> objid) \<Rightarrow> db \<Rightarrow> (objid \<Rightarrow> objid list) \<Rightarrow> bool" where
  "lists_at hd_f nx db K \<longleftrightarrow> (\<forall>p. objects db p \<noteq> None \<longrightarrow> list_at hd_f nx db p (K p))"

lemma link_put [simp]: "link g (put_object db y (Some ob)) = (link g db)(y := Some (g ob))"
  by (auto simp: link_def)

locale linked_list =
  fixes hd_f :: "obj \<Rightarrow> objid" and hd_upd :: "(objid \<Rightarrow> objid) \<Rightarrow> obj \<Rightarrow> obj"
    and nx :: "obj \<Rightarrow> objid" and nx_upd :: "(objid \<Rightarrow> objid) \<Rightarrow> obj \<Rightarrow> obj"
  assumes hd_hd: "hd_f (hd_upd f ob) = f (hd_f ob)" and hd_nx: "hd_f (nx_upd f ob) = hd_f ob"
    and nx_nx: "nx (nx_upd f ob) = f (nx ob)" and nx_hd: "nx (hd_upd f ob) = nx ob"
    and hd_fuse: "hd_upd f (hd_upd g ob) = hd_upd (f \<circ> g) ob"
    and nx_fuse: "nx_upd f (nx_upd g ob) = nx_upd (f \<circ> g) ob"
    and commute: "hd_upd f (nx_upd g ob) = nx_upd g (hd_upd f ob)"
    and hd_id: "hd_upd (\<lambda>x. x) ob = ob" and nx_id: "nx_upd (\<lambda>x. x) ob = ob"
begin

lemma relinked_refl: "relinked hd_upd nx_upd db db"
  unfolding relinked_def
  by (rule exI[of _ "\<lambda>_ x. x"], rule exI[of _ "\<lambda>_ x. x"])
     (simp add: hd_id nx_id option.map_ident)

lemma relinked_trans:
  assumes "relinked hd_upd nx_upd a b" "relinked hd_upd nx_upd b c"
  shows "relinked hd_upd nx_upd a c"
proof -
  obtain h n h' n' where
    b: "b = a\<lparr>objects := \<lambda>x. map_option (\<lambda>ob. nx_upd (n x) (hd_upd (h x) ob)) (objects a x)\<rparr>" and
    c: "c = b\<lparr>objects := \<lambda>x. map_option (\<lambda>ob. nx_upd (n' x) (hd_upd (h' x) ob)) (objects b x)\<rparr>"
    using assms unfolding relinked_def by blast
  have "c = a\<lparr>objects := \<lambda>x. map_option
      (\<lambda>ob. nx_upd (n' x \<circ> n x) (hd_upd (h' x \<circ> h x) ob)) (objects a x)\<rparr>"
    unfolding b c by (simp add: option.map_comp comp_def commute hd_fuse nx_fuse)
  then show ?thesis unfolding relinked_def
    by (intro exI[of _ "\<lambda>x. h' x \<circ> h x"] exI[of _ "\<lambda>x. n' x \<circ> n x"])
qed

lemma relinked_mod_hd: "mod_object db y (hd_upd f) = Some db' \<Longrightarrow> relinked hd_upd nx_upd db db'"
  unfolding relinked_def mod_object_eq_Some
  by (rule exI[of _ "\<lambda>x. if x = y then f else (\<lambda>z. z)"], rule exI[of _ "\<lambda>_ z. z"])
     (auto simp: put_object_def hd_id nx_id option.map_ident fun_eq_iff intro!: arg_cong[where f = "\<lambda>x. db\<lparr>objects := x\<rparr>"])

lemma relinked_mod_nx: "mod_object db y (nx_upd f) = Some db' \<Longrightarrow> relinked hd_upd nx_upd db db'"
  unfolding relinked_def mod_object_eq_Some
  by (rule exI[of _ "\<lambda>_ z. z"], rule exI[of _ "\<lambda>x. if x = y then f else (\<lambda>z. z)"])
     (auto simp: put_object_def hd_id nx_id option.map_ident fun_eq_iff intro!: arg_cong[where f = "\<lambda>x. db\<lparr>objects := x\<rparr>"])

lemma relinked_field:
  assumes "relinked hd_upd nx_upd db db'" "\<And>f ob. g (hd_upd f ob) = g ob" "\<And>f ob. g (nx_upd f ob) = g ob"
  shows "map_option g (objects db' x) = map_option g (objects db x)"
  using assms by (auto simp: relinked_def option.map_comp comp_def)

lemma mod_hd:
  assumes "objects db y \<noteq> None"
  shows "\<exists>db'. mod_object db y (hd_upd (\<lambda>_. v)) = Some db' \<and>
    link hd_f db' = (link hd_f db)(y := Some v) \<and> link nx db' = link nx db \<and>
    relinked hd_upd nx_upd db db' \<and> (\<forall>x. objects db' x = None \<longleftrightarrow> objects db x = None)"
proof -
  obtain ob where ob: "objects db y = Some ob" using assms by auto
  have "link nx (put_object db y (Some (hd_upd (\<lambda>_. v) ob))) = link nx db"
    using ob by (auto simp: fun_eq_iff link_def nx_hd)
  then show ?thesis
    using ob relinked_mod_hd[of db y "\<lambda>_. v"] by (auto simp: mod_object_Some hd_hd)
qed

lemma mod_nx:
  assumes "objects db y \<noteq> None"
  shows "\<exists>db'. mod_object db y (nx_upd (\<lambda>_. v)) = Some db' \<and>
    link nx db' = (link nx db)(y := Some v) \<and> link hd_f db' = link hd_f db \<and>
    relinked hd_upd nx_upd db db' \<and> (\<forall>x. objects db' x = None \<longleftrightarrow> objects db x = None)"
proof -
  obtain ob where ob: "objects db y = Some ob" using assms by auto
  have "link hd_f (put_object db y (Some (nx_upd (\<lambda>_. v) ob))) = link hd_f db"
    using ob by (auto simp: fun_eq_iff link_def hd_nx)
  then show ?thesis
    using ob relinked_mod_nx[of db y "\<lambda>_. v"] by (auto simp: mod_object_Some nx_nx)
qed

lemma list_at_split:
  assumes "list_at hd_f nx db p xs" "what \<in> set xs"
  shows "(\<exists>w t rest. xs = what # rest \<and> objects db p = Some w \<and> objects db what = Some t \<and>
      hd_f w = what) \<or>
    (\<exists>w t us pv vs. xs = us @ [pv, what] @ vs \<and> objects db p = Some w \<and> objects db what = Some t \<and>
      hd_f w \<noteq> what \<and> chain (link nx db) (hd_f w) xs)"
proof -
  obtain w where w: "objects db p = Some w" "chain (link nx db) (hd_f w) xs"
    using assms(1) by (auto simp: list_at_def link_Some)
  obtain t where t: "objects db what = Some t"
    using chain_defined[OF w(2) assms(2)] by (auto simp: link_Some)
  obtain us vs where us: "xs = us @ what # vs" using assms(2) by (meson split_list)
  show ?thesis
  proof (cases us rule: rev_cases)
    case Nil
    then have "hd_f w = what" using w(2) us by auto
    then show ?thesis using w t us Nil by auto
  next
    case (snoc us' pv)
    have "distinct xs" using chain_distinct w(2) by blast
    then have "hd_f w \<noteq> what" using w(2) us snoc by (cases us') auto
    then show ?thesis using w t us snoc by auto
  qed
qed

lemma LL_REMOVE_correct:
  assumes "list_at hd_f nx db p xs" "what \<in> set xs"
  shows "\<exists>db'. LL_REMOVE hd_f hd_upd nx nx_upd db p what = Some db' \<and>
    list_at hd_f nx db' p (remove1 what xs) \<and>
    (\<forall>q ys. q \<noteq> p \<longrightarrow> set ys \<inter> set xs = {} \<longrightarrow> list_at hd_f nx db q ys \<longrightarrow> list_at hd_f nx db' q ys) \<and>
    relinked hd_upd nx_upd db db'"
  using list_at_split[OF assms]
proof (elim disjE exE conjE)
  fix w t rest
  assume h: "xs = what # rest" "objects db p = Some w" "objects db what = Some t" "hd_f w = what"
  obtain db1 where db1: "mod_object db p (hd_upd (\<lambda>_. nx t)) = Some db1"
    "link hd_f db1 = (link hd_f db)(p := Some (nx t))" "link nx db1 = link nx db"
    "relinked hd_upd nx_upd db db1" "\<forall>x. objects db1 x = None \<longleftrightarrow> objects db x = None"
    using mod_hd[of db p "nx t"] h by auto
  then obtain db2 where db2: "mod_object db1 what (nx_upd (\<lambda>_. -1)) = Some db2"
    "link nx db2 = (link nx db)(what := Some (-1))" "link hd_f db2 = (link hd_f db)(p := Some (nx t))"
    "relinked hd_upd nx_upd db1 db2"
    using mod_nx[of db1 what "-1"] h by auto
  have c: "chain (link nx db) (nx t) rest" "what \<notin> set rest"
    using assms(1) chain_distinct[of "link nx db" what xs] h by (auto simp: list_at_def link_Some)
  have "LL_REMOVE hd_f hd_upd nx nx_upd db p what = Some db2"
    using h db1 db2 by (simp add: LL_REMOVE_def)
  moreover have "list_at hd_f nx db2 p (remove1 what xs)"
    using c h(1) unfolding list_at_def db2 by (simp del: fun_upd_apply add: fun_upd_same)
  moreover have "list_at hd_f nx db2 q ys"
    if "q \<noteq> p" "set ys \<inter> set xs = {}" "list_at hd_f nx db q ys" for q ys
    using that h(1) unfolding list_at_def db2 by (auto simp del: fun_upd_apply simp: fun_upd_other)
  ultimately show ?thesis using relinked_trans db1(4) db2(4) by blast
next
  fix w t us pv vs
  assume h: "xs = us @ [pv, what] @ vs" "objects db p = Some w" "objects db what = Some t"
    "hd_f w \<noteq> what" "chain (link nx db) (hd_f w) xs"
  have d: "distinct xs" "pv \<noteq> -1"
    using chain_distinct[OF h(5)] chain_not_NOTHING[OF h(5)] h(1) by auto
  have "objects db pv \<noteq> None"
    using chain_defined[OF h(5), of pv] h(1) by (auto simp: link_Some)
  then obtain db1 where db1: "mod_object db pv (nx_upd (\<lambda>_. nx t)) = Some db1"
    "link nx db1 = (link nx db)(pv := Some (nx t))" "link hd_f db1 = link hd_f db"
    "relinked hd_upd nx_upd db db1" "\<forall>x. objects db1 x = None \<longleftrightarrow> objects db x = None"
    using mod_nx[of db pv "nx t"] h by auto
  then obtain db2 where db2: "mod_object db1 what (nx_upd (\<lambda>_. -1)) = Some db2"
    "link nx db2 = (link nx db)(pv := Some (nx t), what := Some (-1))" "link hd_f db2 = link hd_f db"
    "relinked hd_upd nx_upd db1 db2"
    using mod_nx[of db1 what "-1"] h by auto
  have "LL_REMOVE hd_f hd_upd nx nx_upd db p what = Some db2"
    using h db1 db2 ll_prev_chain[of nx db "hd_f w" us pv what vs] d by (simp add: LL_REMOVE_def)
  moreover have "list_at hd_f nx db2 p (remove1 what xs)"
  proof -
    have "chain ((link nx db)(pv := link nx db what)) (hd_f w) (us @ [pv] @ vs)"
      using chain_bypass h by blast
    moreover have "link nx db what = Some (nx t)" using h(3) by (simp add: link_def)
    moreover have "remove1 what xs = us @ [pv] @ vs" "what \<notin> set (us @ [pv] @ vs)"
      using d(1) h(1) by (auto simp: remove1_append)
    ultimately have "chain (link nx db2) (hd_f w) (remove1 what xs)"
      unfolding db2 by (simp del: fun_upd_apply append.simps append_Cons)
    moreover have "link hd_f db2 p = Some (hd_f w)" using db2 h(2) by (simp add: link_def)
    ultimately show ?thesis by (auto simp: list_at_def)
  qed
  moreover have "list_at hd_f nx db2 q ys"
    if "q \<noteq> p" "set ys \<inter> set xs = {}" "list_at hd_f nx db q ys" for q ys
  proof -
    have "pv \<notin> set ys" "what \<notin> set ys" using that(2) h(1) by auto
    then show ?thesis using that(3) unfolding list_at_def db2 by (auto simp del: fun_upd_apply)
  qed
  ultimately show ?thesis using relinked_trans db1(4) db2(4) by blast
qed

lemma LL_APPEND_correct:
  assumes "list_at hd_f nx db p xs" "what \<notin> set xs" "what \<noteq> NOTHING" "objects db what \<noteq> None"
  shows "\<exists>db'. LL_APPEND hd_f hd_upd nx nx_upd db p what = Some db' \<and>
    list_at hd_f nx db' p (xs @ [what]) \<and>
    (\<forall>q ys. q \<noteq> p \<longrightarrow> set ys \<inter> insert what (set xs) = {} \<longrightarrow>
      list_at hd_f nx db q ys \<longrightarrow> list_at hd_f nx db' q ys) \<and>
    relinked hd_upd nx_upd db db'"
proof -
  obtain w where w: "objects db p = Some w" "chain (link nx db) (hd_f w) xs"
    using assms(1) by (auto simp: list_at_def link_Some)
  show ?thesis
  proof (cases xs rule: rev_cases)
    case Nil
    obtain db1 where db1: "mod_object db p (hd_upd (\<lambda>_. what)) = Some db1"
      "link hd_f db1 = (link hd_f db)(p := Some what)" "link nx db1 = link nx db"
      "relinked hd_upd nx_upd db db1" "\<forall>x. objects db1 x = None \<longleftrightarrow> objects db x = None"
      using mod_hd[of db p what] w by auto
    then obtain db2 where db2: "mod_object db1 what (nx_upd (\<lambda>_. -1)) = Some db2"
      "link nx db2 = (link nx db)(what := Some (-1))" "link hd_f db2 = (link hd_f db)(p := Some what)"
      "relinked hd_upd nx_upd db1 db2"
      using mod_nx[of db1 what "-1"] assms(4) by auto
    have "LL_APPEND hd_f hd_upd nx nx_upd db p what = Some db2"
      using w db1 db2 Nil by (simp add: LL_APPEND_def)
    moreover have "list_at hd_f nx db2 p (xs @ [what])"
      using Nil assms(3) unfolding list_at_def db2 by simp
    moreover have "list_at hd_f nx db2 q ys"
      if "q \<noteq> p" "set ys \<inter> insert what (set xs) = {}" "list_at hd_f nx db q ys" for q ys
      using that unfolding list_at_def db2 by (auto simp del: fun_upd_apply simp: fun_upd_other)
    ultimately show ?thesis using relinked_trans db1(4) db2(4) by blast
  next
    case (snoc us l)
    have hw: "hd_f w \<noteq> -1" using w(2) snoc by (cases us) auto
    have "objects db l \<noteq> None" using chain_defined[OF w(2), of l] snoc by (auto simp: link_Some)
    then obtain db1 where db1: "mod_object db l (nx_upd (\<lambda>_. what)) = Some db1"
      "link nx db1 = (link nx db)(l := Some what)" "link hd_f db1 = link hd_f db"
      "relinked hd_upd nx_upd db db1" "\<forall>x. objects db1 x = None \<longleftrightarrow> objects db x = None"
      using mod_nx[of db l what] by auto
    then obtain db2 where db2: "mod_object db1 what (nx_upd (\<lambda>_. -1)) = Some db2"
      "link nx db2 = (link nx db)(l := Some what, what := Some (-1))" "link hd_f db2 = link hd_f db"
      "relinked hd_upd nx_upd db1 db2"
      using mod_nx[of db1 what "-1"] assms(4) by auto
    have "LL_APPEND hd_f hd_upd nx nx_upd db p what = Some db2"
      using w db1 db2 hw snoc ll_last_chain[of nx db "hd_f w" us l] by (simp add: LL_APPEND_def)
    moreover have "list_at hd_f nx db2 p (xs @ [what])"
    proof -
      have "chain ((link nx db)(l := Some what, what := Some (-1))) (hd_f w) (us @ [l, what])"
        using chain_snoc w(2) snoc assms(2,3) by blast
      moreover have "link hd_f db2 p = Some (hd_f w)" using db2 w(1) by (simp add: link_def)
      ultimately show ?thesis using snoc unfolding list_at_def db2 by auto
    qed
    moreover have "list_at hd_f nx db2 q ys"
      if "q \<noteq> p" "set ys \<inter> insert what (set xs) = {}" "list_at hd_f nx db q ys" for q ys
    proof -
      have "l \<notin> set ys" "what \<notin> set ys" using that(2) snoc by auto
      then show ?thesis using that(3) unfolding list_at_def db2 by (auto simp del: fun_upd_apply)
    qed
    ultimately show ?thesis using relinked_trans db1(4) db2(4) by blast
  qed
qed

lemma relinked_None: "relinked hd_upd nx_upd db db' \<Longrightarrow> objects db' q \<noteq> None \<Longrightarrow> objects db q \<noteq> None"
  by (auto simp: relinked_def)

lemma remove_member:
  assumes K: "lists_at hd_f nx db K" and "objects db p \<noteq> None" "r \<in> set (K p)"
    and disj: "\<And>q. q \<noteq> p \<Longrightarrow> objects db q \<noteq> None \<Longrightarrow> set (K q) \<inter> set (K p) = {}"
  shows "\<exists>db'. LL_REMOVE hd_f hd_upd nx nx_upd db p r = Some db' \<and>
    relinked hd_upd nx_upd db db' \<and> lists_at hd_f nx db' (K(p := remove1 r (K p)))"
proof -
  have "list_at hd_f nx db p (K p)" using K assms(2) by (simp add: lists_at_def)
  from LL_REMOVE_correct[OF this assms(3)] obtain db' where db':
    "LL_REMOVE hd_f hd_upd nx nx_upd db p r = Some db'" "list_at hd_f nx db' p (remove1 r (K p))"
    "\<forall>q ys. q \<noteq> p \<longrightarrow> set ys \<inter> set (K p) = {} \<longrightarrow> list_at hd_f nx db q ys \<longrightarrow> list_at hd_f nx db' q ys"
    "relinked hd_upd nx_upd db db'" by blast
  have "list_at hd_f nx db' q ((K(p := remove1 r (K p))) q)" if "objects db' q \<noteq> None" for q
  proof (cases "q = p")
    case False
    have q: "objects db q \<noteq> None" using relinked_None[OF db'(4) that] .
    have "list_at hd_f nx db q (K q)" using K q unfolding lists_at_def by blast
    then have "list_at hd_f nx db' q (K q)" using disj[OF False q] False db'(3) by blast
    then show ?thesis using False by simp
  qed (use db'(2) in simp)
  then have "lists_at hd_f nx db' (K(p := remove1 r (K p)))" unfolding lists_at_def by blast
  then show ?thesis using db'(1,4) by blast
qed

lemma append_member:
  assumes K: "lists_at hd_f nx db K" and "objects db p \<noteq> None" "r \<noteq> NOTHING" "objects db r \<noteq> None"
    and out: "\<And>q. objects db q \<noteq> None \<Longrightarrow> r \<notin> set (K q)"
    and disj: "\<And>q. q \<noteq> p \<Longrightarrow> objects db q \<noteq> None \<Longrightarrow> set (K q) \<inter> set (K p) = {}"
  shows "\<exists>db'. LL_APPEND hd_f hd_upd nx nx_upd db p r = Some db' \<and>
    relinked hd_upd nx_upd db db' \<and> lists_at hd_f nx db' (K(p := K p @ [r]))"
proof -
  have "list_at hd_f nx db p (K p)" using K assms(2) by (simp add: lists_at_def)
  from LL_APPEND_correct[OF this out[OF assms(2)] assms(3,4)] obtain db' where db':
    "LL_APPEND hd_f hd_upd nx nx_upd db p r = Some db'" "list_at hd_f nx db' p (K p @ [r])"
    "\<forall>q ys. q \<noteq> p \<longrightarrow> set ys \<inter> insert r (set (K p)) = {} \<longrightarrow>
      list_at hd_f nx db q ys \<longrightarrow> list_at hd_f nx db' q ys"
    "relinked hd_upd nx_upd db db'" by blast
  have "list_at hd_f nx db' q ((K(p := K p @ [r])) q)" if "objects db' q \<noteq> None" for q
  proof (cases "q = p")
    case False
    have q: "objects db q \<noteq> None" using relinked_None[OF db'(4) that] .
    have "list_at hd_f nx db q (K q)" using K q unfolding lists_at_def by blast
    moreover have "set (K q) \<inter> insert r (set (K p)) = {}" using disj[OF False q] out[OF q] by blast
    ultimately have "list_at hd_f nx db' q (K q)" using False db'(3) by blast
    then show ?thesis using False by simp
  qed (use db'(2) in simp)
  then have "lists_at hd_f nx db' (K(p := K p @ [r]))" unfolding lists_at_def by blast
  then show ?thesis using db'(1,4) by blast
qed

end

interpretation kids: linked_list ob_child ob_child_update ob_sibling ob_sibling_update
  by unfold_locales simp_all

interpretation conts: linked_list ob_contents ob_contents_update ob_next ob_next_update
  by unfold_locales simp_all

end
