(* ===== verification/Db_Hierarchy.thy ===== *)
theory Db_Hierarchy
  imports Db_Chain
begin

text \<open>
  The inheritance hierarchy: what makes the parent, child and sibling fields of the object table
  a forest (\<open>hier_ok\<close>), induction along it, and the recursion over a subtree that
  \<open>insert_prop_recursively\<close>, \<open>remove_prop_recursively\<close> and \<open>fix_props\<close> of
  src/src/db_properties.c share.
\<close>

section \<open>The forest invariant\<close>

definition parent_rel :: "db \<Rightarrow> (objid \<times> objid) set" where
  "parent_rel db = {(c, p). link ob_parent db c = Some p \<and> p \<noteq> NOTHING}"

definition subtree :: "db \<Rightarrow> objid \<Rightarrow> objid set" where
  "subtree db x = {y. (y, x) \<in> (parent_rel db)\<^sup>*}"

text \<open>Every entry of the table is below the high-water mark and knows its own number.\<close>

definition table_ok :: "db \<Rightarrow> bool" where
  "table_ok db \<longleftrightarrow> 0 \<le> num_objects db \<and> num_objects db \<le> max_objects db \<and>
     (\<forall>x ob. objects db x = Some ob \<longrightarrow> 0 \<le> x \<and> x < num_objects db \<and> ob_id ob = x)"

definition kids_ok :: "db \<Rightarrow> bool" where
  "kids_ok db \<longleftrightarrow> (\<forall>p. objects db p \<noteq> None \<longrightarrow>
     (\<exists>cs. list_at ob_child ob_sibling db p cs \<and> set cs = {c. link ob_parent db c = Some p}))"

definition hier_ok :: "db \<Rightarrow> bool" where
  "hier_ok db \<longleftrightarrow> table_ok db \<and> acyclic (parent_rel db) \<and>
     (\<forall>c p. (c, p) \<in> parent_rel db \<longrightarrow> objects db p \<noteq> None) \<and> kids_ok db"

lemma hier_okD:
  assumes "hier_ok db"
  shows "table_ok db" "acyclic (parent_rel db)" "kids_ok db"
    "(c, p) \<in> parent_rel db \<Longrightarrow> objects db p \<noteq> None"
  using assms by (auto simp: hier_ok_def)

lemma table_ok_find: "table_ok db \<Longrightarrow> dbpriv_find_object db x = objects db x"
  unfolding dbpriv_find_object_def table_ok_def
  by (metis not_less option.exhaust)

lemma table_ok_NOTHING: "table_ok db \<Longrightarrow> objects db (-1) = None"
  unfolding table_ok_def by (metis neg_0_le_iff_le not_one_le_zero option.exhaust)

lemma table_ok_valid: "table_ok db \<Longrightarrow> valid db x \<longleftrightarrow> objects db x \<noteq> None"
  by (simp add: valid_def table_ok_find)

lemma parent_rel_Some:
  "objects db c = Some ob \<Longrightarrow> (c, p) \<in> parent_rel db \<longleftrightarrow> ob_parent ob = p \<and> p \<noteq> NOTHING"
  by (auto simp: parent_rel_def link_def)

lemma parent_rel_unique: "(c, p) \<in> parent_rel db \<Longrightarrow> (c, q) \<in> parent_rel db \<Longrightarrow> p = q"
  by (auto simp: parent_rel_def)

lemma finite_objects: "table_ok db \<Longrightarrow> finite {x. objects db x \<noteq> None}"
proof (rule finite_subset)
  assume "table_ok db"
  then show "{x. objects db x \<noteq> None} \<subseteq> {0..<num_objects db}"
    by (auto simp: table_ok_def)
qed simp

lemma finite_parent_rel: "table_ok db \<Longrightarrow> finite (parent_rel db)"
proof (rule finite_subset)
  assume "table_ok db"
  then show "finite ((\<lambda>x. (x, the (link ob_parent db x))) ` {x. objects db x \<noteq> None})"
    using finite_objects by blast
  show "parent_rel db \<subseteq> (\<lambda>x. (x, the (link ob_parent db x))) ` {x. objects db x \<noteq> None}"
    by (auto simp: parent_rel_def link_def image_iff)
qed

lemma hier_wf:
  assumes "hier_ok db" shows "wf (parent_rel db)" "wf ((parent_rel db)\<inverse>)"
  using assms finite_acyclic_wf finite_acyclic_wf_converse finite_parent_rel
  by (auto simp: hier_ok_def)

text \<open>Induction towards the root and towards the leaves.\<close>

lemma hier_induct_up [consumes 2, case_names obj]:
  assumes "hier_ok db" "objects db x = Some ob"
    and step: "\<And>x ob. objects db x = Some ob \<Longrightarrow>
      (\<And>q. objects db (ob_parent ob) = Some q \<Longrightarrow> P (ob_parent ob) q) \<Longrightarrow> P x ob"
  shows "P x ob"
proof -
  have "\<forall>ob. objects db x = Some ob \<longrightarrow> P x ob"
  proof (induction x rule: wf_induct_rule[OF hier_wf(2)[OF assms(1)]])
    case (1 x)
    show ?case
    proof (intro allI impI)
      fix ob assume x: "objects db x = Some ob"
      show "P x ob"
      proof (rule step[OF x])
        fix q assume q: "objects db (ob_parent ob) = Some q"
        then have "ob_parent ob \<noteq> NOTHING"
          using table_ok_NOTHING[of db] hier_okD(1)[OF assms(1)] by auto
        then have "(ob_parent ob, x) \<in> (parent_rel db)\<inverse>" using x by (simp add: parent_rel_Some)
        with 1 q show "P (ob_parent ob) q" by blast
      qed
    qed
  qed
  with assms(2) show ?thesis by blast
qed

lemma hier_induct_down [consumes 1, case_names obj]:
  assumes "hier_ok db" and "\<And>p. (\<And>c. (c, p) \<in> parent_rel db \<Longrightarrow> P c) \<Longrightarrow> P p"
  shows "P p"
  using wf_induct_rule[OF hier_wf(1)[OF assms(1)], of P p] assms(2) by blast

section \<open>Subtrees\<close>

lemma subtree_self [simp]: "x \<in> subtree db x"
  by (simp add: subtree_def)

lemma subtree_child: "(c, p) \<in> parent_rel db \<Longrightarrow> p \<in> subtree db x \<Longrightarrow> c \<in> subtree db x"
  by (auto simp: subtree_def intro: converse_rtrancl_into_rtrancl)

lemma subtree_trans: "y \<in> subtree db x \<Longrightarrow> subtree db y \<subseteq> subtree db x"
  by (auto simp: subtree_def)

lemma subtree_cases: "y \<in> subtree db x \<Longrightarrow> y = x \<or> (\<exists>c. (c, x) \<in> parent_rel db \<and> y \<in> subtree db c)"
  by (auto simp: subtree_def elim: rtranclE)

lemma subtree_parent:
  "y \<in> subtree db x \<Longrightarrow> y \<noteq> x \<Longrightarrow> \<exists>p. (y, p) \<in> parent_rel db \<and> p \<in> subtree db x"
  by (auto simp: subtree_def elim: converse_rtranclE)

lemma subtree_acyclic:
  "acyclic (parent_rel db) \<Longrightarrow> (c, p) \<in> parent_rel db \<Longrightarrow> p \<notin> subtree db c"
  by (auto simp: subtree_def acyclic_def dest: rtrancl_into_trancl1)

lemma subtree_ancestors_linear:
  assumes "y \<in> subtree db a" "y \<in> subtree db b"
  shows "a \<in> subtree db b \<or> b \<in> subtree db a"
proof -
  have "(y, a) \<in> (parent_rel db)\<^sup>*" "(y, b) \<in> (parent_rel db)\<^sup>*"
    using assms by (auto simp: subtree_def)
  then show ?thesis
  proof (induction rule: converse_rtrancl_induct)
    case base
    then show ?case by (auto simp: subtree_def)
  next
    case (step y z)
    from step.prems show ?case
    proof (cases rule: converse_rtranclE)
      case base
      have "(y, a) \<in> (parent_rel db)\<^sup>*"
        using step.hyps by (rule converse_rtrancl_into_rtrancl)
      with base show ?thesis by (simp add: subtree_def)
    next
      case (step w)
      have "w = z" using parent_rel_unique[OF step(1) \<open>(y, z) \<in> parent_rel db\<close>] .
      with step(2) show ?thesis
        using \<open>(z, b) \<in> (parent_rel db)\<^sup>* \<Longrightarrow> a \<in> subtree db b \<or> b \<in> subtree db a\<close> by blast
    qed
  qed
qed

lemma subtree_siblings_disjoint:
  assumes "acyclic (parent_rel db)" "(c, p) \<in> parent_rel db" "(d, p) \<in> parent_rel db" "c \<noteq> d"
  shows "subtree db c \<inter> subtree db d = {}"
proof (rule ccontr)
  have no: False if "(a, p) \<in> parent_rel db" "(b, p) \<in> parent_rel db" "a \<noteq> b" "a \<in> subtree db b" for a b
  proof -
    from subtree_parent[OF that(4,3)]
    obtain q where q: "(a, q) \<in> parent_rel db" "q \<in> subtree db b" by blast
    then have "p \<in> subtree db b" using parent_rel_unique[OF q(1) that(1)] by simp
    then show False using subtree_acyclic assms(1) that(2) by blast
  qed
  assume "subtree db c \<inter> subtree db d \<noteq> {}"
  then have "c \<in> subtree db d \<or> d \<in> subtree db c" using subtree_ancestors_linear by blast
  then show False using no[OF assms(2,3,4)] no[OF assms(3,2)] assms(4) by auto
qed

lemma kids_ok_list:
  assumes "hier_ok db" "objects db p = Some ob"
  shows "\<exists>cs. chain (link ob_sibling db) (ob_child ob) cs \<and> set cs = {c. link ob_parent db c = Some p}"
proof -
  have "\<exists>cs. list_at ob_child ob_sibling db p cs \<and> set cs = {c. link ob_parent db c = Some p}"
    using hier_okD(3)[OF assms(1)] assms(2) unfolding kids_ok_def by blast
  then show ?thesis using assms(2) by (auto simp: list_at_def link_Some)
qed

lemma subtree_unfold:
  assumes "set cs = {c. link ob_parent db c = Some p}" "p \<noteq> NOTHING"
  shows "subtree db p = insert p (\<Union> (subtree db ` set cs))"
proof -
  have R: "(c, p) \<in> parent_rel db \<longleftrightarrow> c \<in> set cs" for c
    using assms by (auto simp: parent_rel_def)
  show ?thesis
  proof (intro equalityI subsetI)
    fix y assume "y \<in> subtree db p"
    from subtree_cases[OF this] show "y \<in> insert p (\<Union> (subtree db ` set cs))"
      unfolding R by blast
  next
    fix y assume "y \<in> insert p (\<Union> (subtree db ` set cs))"
    then consider "y = p" | c where "c \<in> set cs" "y \<in> subtree db c" by blast
    then show "y \<in> subtree db p"
    proof cases
      case (2 c)
      then have "c \<in> subtree db p" using R subtree_child[OF _ subtree_self] by blast
      from subtree_trans[OF this] 2 show ?thesis by blast
    qed simp
  qed
qed

section \<open>Ancestors\<close>

text \<open>The objects visited by \<open>for (o = find(oid); o; o = find(o->parent))\<close>.\<close>

partial_function (option) ancestors :: "db \<Rightarrow> objid \<Rightarrow> objid list option" where
  "ancestors db x = (case dbpriv_find_object db x of
     None \<Rightarrow> Some []
   | Some ob \<Rightarrow> do { xs \<leftarrow> ancestors db (ob_parent ob); Some (x # xs) })"

declare ancestors.simps [code]

lemma ancestors_unfold:
  assumes "table_ok db"
  shows "ancestors db x = (case objects db x of None \<Rightarrow> Some []
    | Some ob \<Rightarrow> map_option ((#) x) (ancestors db (ob_parent ob)))"
  by (subst ancestors.simps)
     (simp add: table_ok_find[OF assms] map_option_case split: option.splits bind_split)

lemma ancestors_Some:
  assumes "hier_ok db" "objects db x = Some ob"
  shows "\<exists>xs. ancestors db x = Some (x # xs) \<and> ancestors db (ob_parent ob) = Some xs"
  using assms
proof (induction rule: hier_induct_up)
  case (obj x ob)
  then show ?case
    using ancestors_unfold[OF hier_okD(1)[OF assms(1)], of x]
      ancestors_unfold[OF hier_okD(1)[OF assms(1)], of "ob_parent ob"]
    by (cases "objects db (ob_parent ob)") auto
qed

lemma ancestors_total: "hier_ok db \<Longrightarrow> \<exists>xs. ancestors db x = Some xs"
  using ancestors_Some[of db x] ancestors_unfold[of db x] hier_okD(1)[of db]
  by (cases "objects db x") auto

lemma ancestors_subtree:
  assumes "hier_ok db" "ancestors db x = Some xs" "objects db y \<noteq> None" "objects db x \<noteq> None"
  shows "y \<in> set xs \<longleftrightarrow> x \<in> subtree db y"
proof -
  obtain ob where "objects db x = Some ob" using assms(4) by auto
  from assms(1) this assms(2) show ?thesis
  proof (induction arbitrary: xs rule: hier_induct_up)
    case (obj x ob)
    obtain ys where ys: "xs = x # ys" "ancestors db (ob_parent ob) = Some ys"
      using ancestors_Some[OF assms(1) obj.hyps(1)] obj.prems by auto
    have sub: "x \<in> subtree db y \<longleftrightarrow> x = y \<or>
        (ob_parent ob \<noteq> NOTHING \<and> ob_parent ob \<in> subtree db y)"
    proof
      assume a: "x \<in> subtree db y"
      show "x = y \<or> (ob_parent ob \<noteq> NOTHING \<and> ob_parent ob \<in> subtree db y)"
      proof (cases "x = y")
        case False
        from subtree_parent[OF a False] show ?thesis
          unfolding parent_rel_Some[OF obj.hyps(1)] by blast
      qed simp
    next
      assume "x = y \<or> (ob_parent ob \<noteq> NOTHING \<and> ob_parent ob \<in> subtree db y)"
      then show "x \<in> subtree db y"
        using subtree_child[of x "ob_parent ob" db y]
        unfolding parent_rel_Some[OF obj.hyps(1)] by auto
    qed
    show ?case
    proof (cases "objects db (ob_parent ob)")
      case None
      then have "ob_parent ob = NOTHING"
        using hier_okD(4)[OF assms(1), of x "ob_parent ob"] parent_rel_Some[OF obj.hyps(1)] by auto
      then show ?thesis using sub ys None ancestors_unfold[OF hier_okD(1)[OF assms(1)], of "-1"]
        by auto
    next
      case (Some q)
      then have "ob_parent ob \<noteq> NOTHING"
        using table_ok_NOTHING[OF hier_okD(1)[OF assms(1)]] by auto
      then show ?thesis using sub ys obj.IH[OF Some ys(2)] by auto
    qed
  qed
qed

section \<open>The recursion over a subtree\<close>

text \<open>
  The common shape of the three recursive functions of db_properties.c, entered at the loop over
  the children of a node: \<open>visit db c a\<close> does the work at \<open>c\<close> with the argument \<open>a\<close>
  of the enclosing call and returns the argument for the calls on the children of \<open>c\<close>.
\<close>

partial_function (option) for_subtree ::
  "(db \<Rightarrow> objid \<Rightarrow> 'a \<Rightarrow> (db \<times> 'a) option) \<Rightarrow> db \<Rightarrow> objid \<Rightarrow> 'a \<Rightarrow> db option" where
  "for_subtree visit db c a =
     (if c = -1 then Some db
      else do {
        (db1, a1) \<leftarrow> visit db c a;
        o1 \<leftarrow> dbpriv_find_object db1 c;
        db2 \<leftarrow> for_subtree visit db1 (ob_child o1) a1;
        o2 \<leftarrow> dbpriv_find_object db2 c;
        for_subtree visit db2 (ob_sibling o2) a })"

declare for_subtree.simps [code]

text \<open>The state in which the objects of \<open>D\<close> have been changed by \<open>U\<close>.\<close>

definition app :: "(objid \<Rightarrow> obj \<Rightarrow> obj) \<Rightarrow> objid set \<Rightarrow> db \<Rightarrow> db" where
  "app U D db = db\<lparr>objects := \<lambda>x. if x \<in> D then map_option (U x) (objects db x) else objects db x\<rparr>"

definition keeps_hier :: "(objid \<Rightarrow> obj \<Rightarrow> obj) \<Rightarrow> bool" where
  "keeps_hier U \<longleftrightarrow> (\<forall>x ob. ob_child (U x ob) = ob_child ob \<and> ob_sibling (U x ob) = ob_sibling ob \<and>
     ob_parent (U x ob) = ob_parent ob \<and> ob_id (U x ob) = ob_id ob)"

lemma app_objects [simp]:
  "objects (app U D db) x = (if x \<in> D then map_option (U x) (objects db x) else objects db x)"
  by (simp add: app_def)

lemma app_fields [simp]:
  "num_objects (app U D db) = num_objects db" "max_objects (app U D db) = max_objects db"
  "all_users (app U D db) = all_users db" "vc_table (app U D db) = vc_table db"
  by (simp_all add: app_def)

lemma app_empty [simp]: "app U {} db = db"
  by (simp add: app_def)

lemma app_insert:
  assumes "objects db x = Some ob" "x \<notin> D"
  shows "put_object (app U D db) x (Some (U x ob)) = app U (insert x D) db"
  using assms by (auto simp: app_def put_object_def fun_eq_iff intro!: arg_cong[where f = "\<lambda>x. db\<lparr>objects := x\<rparr>"])

lemma find_app [simp]:
  "dbpriv_find_object (app U D db) x =
    (if x \<in> D then map_option (U x) (dbpriv_find_object db x) else dbpriv_find_object db x)"
  by (simp add: dbpriv_find_object_def)

lemma for_subtree_app:
  assumes hier: "hier_ok db" and keep: "keeps_hier U"
    and visit: "\<And>D c p ob. c \<notin> D \<Longrightarrow> p \<in> D \<Longrightarrow> D \<subseteq> subtree db r \<Longrightarrow> objects db c = Some ob \<Longrightarrow>
      ob_parent ob = p \<Longrightarrow> p \<noteq> NOTHING \<Longrightarrow> c \<in> subtree db r \<Longrightarrow>
      visit (app U D db) c (A p) = Some (app U (insert c D) db, A c)"
    and "p \<in> D" "D \<subseteq> subtree db r" "p \<noteq> NOTHING"
    and "chain (link ob_sibling db) c cs" "\<forall>c \<in> set cs. link ob_parent db c = Some p"
    and "D \<inter> \<Union> (subtree db ` set cs) = {}"
  shows "for_subtree visit (app U D db) c (A p) = Some (app U (D \<union> \<Union> (subtree db ` set cs)) db)"
  using hier assms(4-)
proof (induction p arbitrary: D c cs rule: hier_induct_down)
  case (obj p)
  from obj.prems show ?case
  proof (induction cs arbitrary: D c)
    case Nil
    then show ?case by (simp add: for_subtree.simps)
  next
    case (Cons c' cs)
    then obtain ob where ob: "c' = c" "c \<noteq> -1" "objects db c = Some ob"
      "chain (link ob_sibling db) (ob_sibling ob) cs" "ob_parent ob = p"
      by (auto simp: link_Some)
    have R: "(c, p) \<in> parent_rel db" using ob Cons.prems by (simp add: parent_rel_Some)
    obtain ds where ds: "chain (link ob_sibling db) (ob_child ob) ds"
        "set ds = {d. link ob_parent db d = Some c}"
      using kids_ok_list[OF hier ob(3)] by blast
    have sub: "subtree db c = insert c (\<Union> (subtree db ` set ds))"
      using subtree_unfold[OF ds(2) ob(2)] .
    have ac: "acyclic (parent_rel db)" using hier by (rule hier_okD)
    have cD: "c \<notin> D" and cr: "c \<in> subtree db r"
      using Cons.prems ob(1) subtree_child[OF R] by auto
    have c_notin: "c \<notin> \<Union> (subtree db ` set ds)"
      using subtree_acyclic[OF ac] ds(2) ob(2) by (auto simp: parent_rel_def)
    have find_c: "dbpriv_find_object db c = Some ob"
      using ob(3) table_ok_find[OF hier_okD(1)[OF hier]] by simp
    have 1: "visit (app U D db) c (A p) = Some (app U (insert c D) db, A c)"
      using visit[OF cD Cons.prems(1,2) ob(3,5) Cons.prems(3) cr] .
    have 2: "for_subtree visit (app U (insert c D) db) (ob_child ob) (A c) =
        Some (app U (insert c D \<union> \<Union> (subtree db ` set ds)) db)"
    proof (rule obj.IH[OF R])
      show "insert c D \<inter> \<Union> (subtree db ` set ds) = {}"
        using c_notin Cons.prems(6) ob(1) sub by auto
    qed (use Cons.prems(2) cr ds ob(2) in auto)
    have e: "insert c D \<union> \<Union> (subtree db ` set ds) = D \<union> subtree db c" using sub by auto
    have 3: "for_subtree visit (app U (D \<union> subtree db c) db) (ob_sibling ob) (A p) =
        Some (app U (D \<union> subtree db c \<union> \<Union> (subtree db ` set cs)) db)"
    proof (rule Cons.IH)
      have "c \<notin> set cs" using chain_distinct[OF Cons.prems(4)] ob(1) by simp
      moreover have "(d, p) \<in> parent_rel db" if "d \<in> set cs" for d
        using Cons.prems(3,5) that by (auto simp: parent_rel_def)
      ultimately have "subtree db c \<inter> subtree db d = {}" if "d \<in> set cs" for d
        using subtree_siblings_disjoint[OF ac R] that by blast
      then show "(D \<union> subtree db c) \<inter> \<Union> (subtree db ` set cs) = {}"
        using Cons.prems(6) by auto
    qed (use Cons.prems subtree_trans[OF cr] ob(4) in auto)
    have "ob_child (U c ob) = ob_child ob" "ob_sibling (U c ob) = ob_sibling ob"
      using keep by (auto simp: keeps_hier_def)
    then have "for_subtree visit (app U D db) c (A p) =
        Some (app U (D \<union> subtree db c \<union> \<Union> (subtree db ` set cs)) db)"
      using ob(2) 1 2 3 find_c e by (subst for_subtree.simps) simp
    then show ?case using ob(1) by (simp add: Un_assoc)
  qed
qed

text \<open>The recursion over all the descendants of a node that has been visited already.\<close>

lemma for_subtree_below:
  assumes hier: "hier_ok db" and keep: "keeps_hier U" and r: "objects db r = Some ob"
    and visit: "\<And>D c p ob. c \<notin> D \<Longrightarrow> p \<in> D \<Longrightarrow> D \<subseteq> subtree db r \<Longrightarrow> objects db c = Some ob \<Longrightarrow>
      ob_parent ob = p \<Longrightarrow> p \<noteq> NOTHING \<Longrightarrow> c \<in> subtree db r \<Longrightarrow>
      visit (app U D db) c (A p) = Some (app U (insert c D) db, A c)"
  shows "for_subtree visit (app U {r} db) (ob_child ob) (A r) = Some (app U (subtree db r) db)"
proof -
  have rn: "r \<noteq> NOTHING" using r table_ok_NOTHING[OF hier_okD(1)[OF hier]] by auto
  obtain cs where cs: "chain (link ob_sibling db) (ob_child ob) cs"
      "set cs = {d. link ob_parent db d = Some r}"
    using kids_ok_list[OF hier r] by blast
  have sub: "subtree db r = insert r (\<Union> (subtree db ` set cs))"
    using subtree_unfold[OF cs(2) rn] .
  have "r \<notin> \<Union> (subtree db ` set cs)"
    using subtree_acyclic[OF hier_okD(2)[OF hier]] cs(2) rn by (auto simp: parent_rel_def)
  then have "for_subtree visit (app U {r} db) (ob_child ob) (A r) =
      Some (app U ({r} \<union> \<Union> (subtree db ` set cs)) db)"
    by (intro for_subtree_app[OF hier keep, of r visit A] visit) (use cs rn in auto)
  then show ?thesis using sub by simp
qed

end
