(* ===== verification/Db_Properties.thy ===== *)
theory Db_Properties
  imports Db_Hierarchy
begin

text \<open>
  Properties: src/src/db_properties.c.

  The property definitions of an object and of its ancestors, in that order, number the slots of
  its \<open>propval\<close> array. The operations of this file insert, remove and replace slots in an object
  and in everything that inherits from it. A run that reads or writes outside a \<open>propval\<close> array
  has no result. The invariant of this layout is in \<open>Db_Layout\<close>.
\<close>

section \<open>Definitions of properties\<close>

definition dbpriv_new_propdef :: "string \<Rightarrow> propdef" where
  "dbpriv_new_propdef nm = \<lparr>pd_name = nm, pd_hash = str_hash nm\<rparr>"

definition propdef_matches :: "uint32 \<Rightarrow> string \<Rightarrow> propdef \<Rightarrow> bool" where
  "propdef_matches hash nm d \<longleftrightarrow> pd_hash d = hash \<and> mystrcasecmp (pd_name d) nm = 0"

partial_function (option) dbpriv_count_properties :: "db \<Rightarrow> objid \<Rightarrow> nat option" where
  "dbpriv_count_properties db oid = (case dbpriv_find_object db oid of
     None \<Rightarrow> Some 0
   | Some ob \<Rightarrow> do { n \<leftarrow> dbpriv_count_properties db (ob_parent ob);
                    Some (length (ob_propdefs ob) + n) })"

declare dbpriv_count_properties.simps [code]

text \<open>The loop over \<open>child\<close> and \<open>sibling\<close>, and the function that enters it.\<close>

partial_function (option) defined_in_children ::
  "db \<Rightarrow> string \<Rightarrow> uint32 \<Rightarrow> objid \<Rightarrow> bool option" where
  "defined_in_children db pname phash c =
     (if c = NOTHING then Some False
      else do {
        ob \<leftarrow> dbpriv_find_object db c;
        found \<leftarrow> (if \<exists>d \<in> set (ob_propdefs ob). propdef_matches phash pname d then Some True
                 else defined_in_children db pname phash (ob_child ob));
        if found then Some True else defined_in_children db pname phash (ob_sibling ob) })"

declare defined_in_children.simps [code]

definition property_defined_at_or_below :: "db \<Rightarrow> string \<Rightarrow> uint32 \<Rightarrow> objid \<Rightarrow> bool option" where
  "property_defined_at_or_below db pname phash oid = do {
     ob \<leftarrow> dbpriv_find_object db oid;
     if \<exists>d \<in> set (ob_propdefs ob). propdef_matches phash pname d then Some True
     else defined_in_children db pname phash (ob_child ob) }"

section \<open>Handles\<close>

datatype bi_prop =
    BP_NONE | BP_NAME | BP_OWNER | BP_PROGRAMMER | BP_WIZARD | BP_R | BP_W | BP_F
  | BP_LOCATION | BP_CONTENTS

text \<open>
  The \<open>ptr\<close> of a handle is null, points to the number of the object that was asked (built-in
  properties), or points to a slot of an object.
\<close>

datatype prop_ptr = Null | Bi_Ptr objid | Slot objid nat

record db_prop_handle =
  h_built_in :: bi_prop
  h_definer :: objid
  h_ptr :: prop_ptr

definition ptable :: "(string \<times> bi_prop) list" where
  "ptable = [(''name'', BP_NAME), (''owner'', BP_OWNER), (''programmer'', BP_PROGRAMMER),
     (''wizard'', BP_WIZARD), (''r'', BP_R), (''w'', BP_W), (''f'', BP_F),
     (''location'', BP_LOCATION), (''contents'', BP_CONTENTS)]"

definition bi_lookup :: "string \<Rightarrow> bi_prop option" where
  "bi_lookup nm = map_option snd
     (List.find (\<lambda>(n, p). str_hash n = str_hash nm \<and> mystrcasecmp nm n = 0) ptable)"

definition flag_value :: "bool \<Rightarrow> var" where
  "flag_value b = VInt (if b then 1 else 0)"

definition get_bi_value :: "db \<Rightarrow> db_prop_handle \<Rightarrow> var option" where
  "get_bi_value db h = (case h_ptr h of
     Bi_Ptr oid \<Rightarrow> (case h_built_in h of
         BP_NAME \<Rightarrow> map_option VStr (db_object_name db oid)
       | BP_OWNER \<Rightarrow> map_option VObj (db_object_owner db oid)
       | BP_PROGRAMMER \<Rightarrow> map_option flag_value (db_object_has_flag db oid FLAG_PROGRAMMER)
       | BP_WIZARD \<Rightarrow> map_option flag_value (db_object_has_flag db oid FLAG_WIZARD)
       | BP_R \<Rightarrow> map_option flag_value (db_object_has_flag db oid FLAG_READ)
       | BP_W \<Rightarrow> map_option flag_value (db_object_has_flag db oid FLAG_WRITE)
       | BP_F \<Rightarrow> map_option flag_value (db_object_has_flag db oid FLAG_FERTILE)
       | BP_LOCATION \<Rightarrow> map_option VObj (db_object_location db oid)
       | BP_CONTENTS \<Rightarrow> map_option (\<lambda>cs. VList (map VObj cs)) (db_contents db oid)
       | BP_NONE \<Rightarrow> None)
   | _ \<Rightarrow> None)"

text \<open>The search for the definition, and the walk past slots that are clear.\<close>

partial_function (option) find_slot ::
  "db \<Rightarrow> string \<Rightarrow> uint32 \<Rightarrow> objid \<Rightarrow> nat \<Rightarrow> (objid \<times> nat) option option" where
  "find_slot db nm hash oid n = (case dbpriv_find_object db oid of
     None \<Rightarrow> Some None
   | Some ob \<Rightarrow>
      (case index_of (propdef_matches hash nm) (ob_propdefs ob) of
         Some i \<Rightarrow> Some (Some (ob_id ob, n + i))
       | None \<Rightarrow> find_slot db nm hash (ob_parent ob) (n + length (ob_propdefs ob))))"

declare find_slot.simps [code]

partial_function (option) skip_clear :: "db \<Rightarrow> objid \<Rightarrow> int \<Rightarrow> var option" where
  "skip_clear db oid n = do {
     ob \<leftarrow> dbpriv_find_object db oid;
     pv \<leftarrow> nth_opt (ob_propval ob) n;
     if pv_var pv = VClear then skip_clear db (ob_parent ob) (n - int (length (ob_propdefs ob)))
     else Some (pv_var pv) }"

declare skip_clear.simps [code]

text \<open>The flag \<open>want\<close> says whether the caller passed a place for the value.\<close>

definition db_find_property ::
  "db \<Rightarrow> objid \<Rightarrow> string \<Rightarrow> bool \<Rightarrow> (db_prop_handle \<times> var option) option" where
  "db_find_property db oid nm want = (case bi_lookup nm of
     Some p \<Rightarrow>
       (let h = \<lparr>h_built_in = p, h_definer = NOTHING, h_ptr = Bi_Ptr oid\<rparr>
        in if want then do { v \<leftarrow> get_bi_value db h; Some (h, Some v) } else Some (h, None))
   | None \<Rightarrow> do {
       r \<leftarrow> find_slot db nm (str_hash nm) oid 0;
       case r of
         None \<Rightarrow> Some (\<lparr>h_built_in = BP_NONE, h_definer = NOTHING, h_ptr = Null\<rparr>, None)
       | Some (definer, n) \<Rightarrow>
           (let h = \<lparr>h_built_in = BP_NONE, h_definer = definer, h_ptr = Slot oid n\<rparr>
            in if want then do { v \<leftarrow> skip_clear db oid (int n); Some (h, Some v) }
               else Some (h, None)) })"

section \<open>Reading and writing through a handle\<close>

definition slot_of :: "db \<Rightarrow> prop_ptr \<Rightarrow> pval option" where
  "slot_of db ptr = (case ptr of
     Slot oid n \<Rightarrow> do { ob \<leftarrow> objects db oid; nth_opt (ob_propval ob) (int n) }
   | _ \<Rightarrow> None)"

definition mod_slot :: "db \<Rightarrow> prop_ptr \<Rightarrow> (pval \<Rightarrow> pval) \<Rightarrow> db option" where
  "mod_slot db ptr f = (case ptr of
     Slot oid n \<Rightarrow> do {
       ob \<leftarrow> objects db oid;
       pv \<leftarrow> nth_opt (ob_propval ob) (int n);
       Some (put_object db oid (Some (ob\<lparr>ob_propval := (ob_propval ob)[n := f pv]\<rparr>))) }
   | _ \<Rightarrow> None)"

definition db_property_value :: "db \<Rightarrow> db_prop_handle \<Rightarrow> var option" where
  "db_property_value db h =
     (if h_built_in h \<noteq> BP_NONE then get_bi_value db h else map_option pv_var (slot_of db (h_ptr h)))"

definition set_bi_flag :: "db \<Rightarrow> objid \<Rightarrow> db_object_flag \<Rightarrow> var \<Rightarrow> db option" where
  "set_bi_flag db oid flag v =
     (if is_true v then db_set_object_flag db oid flag else db_clear_object_flag db oid flag)"

definition db_set_property_value :: "db \<Rightarrow> db_prop_handle \<Rightarrow> var \<Rightarrow> db option" where
  "db_set_property_value db h v =
     (if h_built_in h = BP_NONE then mod_slot db (h_ptr h) (\<lambda>pv. pv\<lparr>pv_var := v\<rparr>)
      else case h_ptr h of
        Bi_Ptr oid \<Rightarrow> (case h_built_in h of
            BP_NAME \<Rightarrow> (case v of VStr s \<Rightarrow> db_set_object_name db oid s | _ \<Rightarrow> None)
          | BP_OWNER \<Rightarrow> (case v of VObj ow \<Rightarrow> db_set_object_owner db oid ow | _ \<Rightarrow> None)
          | BP_PROGRAMMER \<Rightarrow> set_bi_flag db oid FLAG_PROGRAMMER v
          | BP_WIZARD \<Rightarrow> set_bi_flag db oid FLAG_WIZARD v
          | BP_R \<Rightarrow> set_bi_flag db oid FLAG_READ v
          | BP_W \<Rightarrow> set_bi_flag db oid FLAG_WRITE v
          | BP_F \<Rightarrow> set_bi_flag db oid FLAG_FERTILE v
          | _ \<Rightarrow> None)
      | _ \<Rightarrow> None)"

definition db_property_owner :: "db \<Rightarrow> db_prop_handle \<Rightarrow> objid option" where
  "db_property_owner db h =
     (if h_built_in h \<noteq> BP_NONE then None else map_option pv_owner (slot_of db (h_ptr h)))"

definition db_set_property_owner :: "db \<Rightarrow> db_prop_handle \<Rightarrow> objid \<Rightarrow> db option" where
  "db_set_property_owner db h oid =
     (if h_built_in h \<noteq> BP_NONE then None else mod_slot db (h_ptr h) (\<lambda>pv. pv\<lparr>pv_owner := oid\<rparr>))"

text \<open>\<open>perms\<close> is a \<open>short\<close>: reading it extends the sign, writing it truncates.\<close>

abbreviation (input) PF_READ :: uint32 where "PF_READ \<equiv> 1"
abbreviation (input) PF_WRITE :: uint32 where "PF_WRITE \<equiv> 2"
abbreviation (input) PF_CHOWN :: uint32 where "PF_CHOWN \<equiv> 4"

definition perms_int :: "16 word \<Rightarrow> uint32" where
  "perms_int p = scast p"

definition chown :: "pval \<Rightarrow> bool" where
  "chown pv \<longleftrightarrow> perms_int (pv_perms pv) AND PF_CHOWN \<noteq> 0"

definition db_property_flags :: "db \<Rightarrow> db_prop_handle \<Rightarrow> uint32 option" where
  "db_property_flags db h =
     (if h_built_in h \<noteq> BP_NONE then None
      else map_option (\<lambda>pv. perms_int (pv_perms pv)) (slot_of db (h_ptr h)))"

definition db_set_property_flags :: "db \<Rightarrow> db_prop_handle \<Rightarrow> uint32 \<Rightarrow> db option" where
  "db_set_property_flags db h flags =
     (if h_built_in h \<noteq> BP_NONE then None
      else mod_slot db (h_ptr h) (\<lambda>pv. pv\<lparr>pv_perms := ucast flags\<rparr>))"

definition db_property_allows :: "db \<Rightarrow> db_prop_handle \<Rightarrow> objid \<Rightarrow> uint32 \<Rightarrow> bool option" where
  "db_property_allows db h progr flag = do {
     fl \<leftarrow> db_property_flags db h;
     if fl AND flag \<noteq> 0 then Some True
     else do { ow \<leftarrow> db_property_owner db h; Some (progr = ow \<or> is_wizard db progr) } }"

section \<open>Inserting a slot\<close>

definition slot_at :: "obj \<Rightarrow> pval \<Rightarrow> pval" where
  "slot_at ob pv = (if chown pv then pv\<lparr>pv_owner := ob_owner ob\<rparr> else pv)"

definition insert_prop :: "db \<Rightarrow> objid \<Rightarrow> nat \<Rightarrow> pval \<Rightarrow> db option" where
  "insert_prop db oid pos pv = do {
     nprops \<leftarrow> dbpriv_count_properties db oid;
     ob \<leftarrow> dbpriv_find_object db oid;
     below \<leftarrow> slice_opt (ob_propval ob) 0 pos;
     above \<leftarrow> slice_opt (ob_propval ob) pos (nprops - 1);
     if pos < nprops
     then Some (put_object db oid (Some (ob\<lparr>ob_propval := below @ slot_at ob pv # above\<rparr>)))
     else None }"

definition insert_visit :: "pval \<Rightarrow> db \<Rightarrow> objid \<Rightarrow> nat \<Rightarrow> (db \<times> nat) option" where
  "insert_visit pv db c root_pos = do {
     ob \<leftarrow> dbpriv_find_object db c;
     db1 \<leftarrow> insert_prop db c (length (ob_propdefs ob) + root_pos) pv;
     Some (db1, length (ob_propdefs ob) + root_pos) }"

definition insert_prop_recursively :: "db \<Rightarrow> objid \<Rightarrow> nat \<Rightarrow> pval \<Rightarrow> db option" where
  "insert_prop_recursively db root root_pos pv = do {
     db1 \<leftarrow> insert_prop db root root_pos pv;
     ob \<leftarrow> dbpriv_find_object db1 root;
     for_subtree (insert_visit (pv\<lparr>pv_var := VClear\<rparr>)) db1 (ob_child ob) root_pos }"

definition add_def :: "propdef \<Rightarrow> obj \<Rightarrow> obj" where
  "add_def d ob =
     (let ob1 = (if length (ob_propdefs ob) = ob_max_props ob
                 then ob\<lparr>ob_max_props := (if ob_max_props ob = 0 then 8 else 2 * ob_max_props ob)\<rparr>
                 else ob)
      in ob1\<lparr>ob_propdefs := ob_propdefs ob1 @ [d]\<rparr>)"

definition db_add_propdef ::
  "db \<Rightarrow> objid \<Rightarrow> string \<Rightarrow> var \<Rightarrow> objid \<Rightarrow> uint32 \<Rightarrow> (bool \<times> db) option" where
  "db_add_propdef db oid pname v owner flags = do {
     (h, _) \<leftarrow> db_find_property db oid pname False;
     below \<leftarrow> (if h_ptr h \<noteq> Null then Some True
              else property_defined_at_or_below db pname (str_hash pname) oid);
     if below then Some (False, db)
     else do {
       ob \<leftarrow> dbpriv_find_object db oid;
       db1 \<leftarrow> Some (put_object db oid (Some (add_def (dbpriv_new_propdef pname) ob)));
       db2 \<leftarrow> insert_prop_recursively db1 oid (length (ob_propdefs ob))
                \<lparr>pv_var = v, pv_owner = owner, pv_perms = ucast flags\<rparr>;
       Some (True, db2) } }"

definition db_rename_propdef :: "db \<Rightarrow> objid \<Rightarrow> string \<Rightarrow> string \<Rightarrow> (bool \<times> db) option" where
  "db_rename_propdef db oid old new = do {
     ob \<leftarrow> dbpriv_find_object db oid;
     case index_of (propdef_matches (str_hash old) old) (ob_propdefs ob) of
       None \<Rightarrow> Some (False, db)
     | Some i \<Rightarrow> do {
         clash \<leftarrow> (if mystrcasecmp old new \<noteq> 0
                  then do { (h, _) \<leftarrow> db_find_property db oid new False;
                            if h_ptr h \<noteq> Null then Some True
                            else property_defined_at_or_below db new (str_hash new) oid }
                  else Some False);
         if clash then Some (False, db)
         else Some (True, put_object db oid
           (Some (ob\<lparr>ob_propdefs := (ob_propdefs ob)[i := dbpriv_new_propdef new]\<rparr>))) } }"

section \<open>Removing a slot\<close>

definition remove_prop :: "db \<Rightarrow> objid \<Rightarrow> nat \<Rightarrow> db option" where
  "remove_prop db oid pos = do {
     ob \<leftarrow> dbpriv_find_object db oid;
     nprops \<leftarrow> dbpriv_count_properties db oid;
     _ \<leftarrow> nth_opt (ob_propval ob) (int pos);
     vals \<leftarrow> (if nprops \<noteq> 0
             then do { below \<leftarrow> slice_opt (ob_propval ob) 0 pos;
                       above \<leftarrow> slice_opt (ob_propval ob) (pos + 1) (nprops + 1);
                       if pos \<le> nprops then Some (below @ above) else None }
             else Some []);
     Some (put_object db oid (Some (ob\<lparr>ob_propval := vals\<rparr>))) }"

definition remove_visit :: "db \<Rightarrow> objid \<Rightarrow> nat \<Rightarrow> (db \<times> nat) option" where
  "remove_visit db c root_pos = do {
     ob \<leftarrow> dbpriv_find_object db c;
     db1 \<leftarrow> remove_prop db c (length (ob_propdefs ob) + root_pos);
     Some (db1, length (ob_propdefs ob) + root_pos) }"

definition remove_prop_recursively :: "db \<Rightarrow> objid \<Rightarrow> nat \<Rightarrow> db option" where
  "remove_prop_recursively db root root_pos = do {
     db1 \<leftarrow> remove_prop db root root_pos;
     ob \<leftarrow> dbpriv_find_object db1 root;
     for_subtree remove_visit db1 (ob_child ob) root_pos }"

definition drop_def :: "nat \<Rightarrow> obj \<Rightarrow> obj" where
  "drop_def i ob =
     (let mx = ob_max_props ob;
          ob1 = (if mx > 8 \<and> length (ob_propdefs ob) \<le> (mx * 3) div 8
                 then ob\<lparr>ob_max_props := mx div 2\<rparr> else ob)
      in ob1\<lparr>ob_propdefs := delete_at i (ob_propdefs ob1)\<rparr>)"

definition db_delete_propdef :: "db \<Rightarrow> objid \<Rightarrow> string \<Rightarrow> (bool \<times> db) option" where
  "db_delete_propdef db oid pname = do {
     ob \<leftarrow> dbpriv_find_object db oid;
     case index_of (propdef_matches (str_hash pname) pname) (ob_propdefs ob) of
       None \<Rightarrow> Some (False, db)
     | Some i \<Rightarrow> do {
         db1 \<leftarrow> Some (put_object db oid (Some (drop_def i ob)));
         db2 \<leftarrow> remove_prop_recursively db1 oid i;
         Some (True, db2) } }"

definition db_count_propdefs :: "db \<Rightarrow> objid \<Rightarrow> nat option" where
  "db_count_propdefs db oid = map_option (\<lambda>ob. length (ob_propdefs ob)) (dbpriv_find_object db oid)"

definition db_all_propdefs :: "db \<Rightarrow> objid \<Rightarrow> string list option" where
  "db_all_propdefs db oid = map_option (\<lambda>ob. map pd_name (ob_propdefs ob)) (dbpriv_find_object db oid)"

section \<open>Changing the inherited slots\<close>

definition inherited :: "obj \<Rightarrow> pval \<Rightarrow> pval" where
  "inherited me pv = pv\<lparr>pv_var := VClear, pv_owner := (if chown pv then ob_owner me else pv_owner pv)\<rparr>"

definition fix_node :: "nat \<Rightarrow> nat \<Rightarrow> nat \<Rightarrow> db \<Rightarrow> objid \<Rightarrow> nat \<Rightarrow> (db \<times> nat) option" where
  "fix_node old new common db oid parent_local = do {
     me \<leftarrow> dbpriv_find_object db oid;
     let loc = parent_local + length (ob_propdefs me);
     _ \<leftarrow> slice_opt (ob_propval me) loc (loc + old);
     vals \<leftarrow> (if loc + new + common \<noteq> 0 then do {
               own \<leftarrow> slice_opt (ob_propval me) 0 loc;
               inh \<leftarrow> (if new = 0 then Some []
                      else do { parent \<leftarrow> dbpriv_find_object db (ob_parent me);
                                pvs \<leftarrow> slice_opt (ob_propval parent) parent_local (parent_local + new);
                                Some (map (inherited me) pvs) });
               rest \<leftarrow> slice_opt (ob_propval me) (loc + old) (loc + old + common);
               Some (own @ inh @ rest) }
             else Some []);
     Some (put_object db oid (Some (me\<lparr>ob_propval := vals\<rparr>)), loc) }"

definition fix_props :: "db \<Rightarrow> objid \<Rightarrow> nat \<Rightarrow> nat \<Rightarrow> nat \<Rightarrow> nat \<Rightarrow> db option" where
  "fix_props db oid parent_local old new common = do {
     me \<leftarrow> dbpriv_find_object db oid;
     (db1, loc) \<leftarrow> fix_node old new common db oid parent_local;
     for_subtree (fix_node old new common) db1 (ob_child me) loc }"

partial_function (option) dbpriv_check_properties_for_chparent :: "db \<Rightarrow> objid \<Rightarrow> objid \<Rightarrow> bool option" where
  "dbpriv_check_properties_for_chparent db oid new_parent =
     (case dbpriv_find_object db new_parent of
        None \<Rightarrow> Some True
      | Some ob \<Rightarrow> do {
          clash \<leftarrow> any_opt (\<lambda>d. property_defined_at_or_below db (pd_name d) (pd_hash d) oid) (ob_propdefs ob);
          if clash then Some False
          else dbpriv_check_properties_for_chparent db oid (ob_parent ob) })"

declare dbpriv_check_properties_for_chparent.simps [code]

text \<open>The two nested loops that look for the nearest common ancestor.\<close>

partial_function (option) on_path :: "db \<Rightarrow> objid \<Rightarrow> objid \<Rightarrow> bool option" where
  "on_path db o1 o2 =
     (if o2 = NOTHING then Some False
      else if o1 = o2 then Some True
      else do { p \<leftarrow> db_object_parent db o2; on_path db o1 p })"

declare on_path.simps [code]

partial_function (option) common_ancestor :: "db \<Rightarrow> objid \<Rightarrow> objid \<Rightarrow> objid option" where
  "common_ancestor db o1 old_parent =
     (if o1 = NOTHING then Some NOTHING
      else do {
        found \<leftarrow> on_path db o1 old_parent;
        if found then Some o1
        else do { p \<leftarrow> db_object_parent db o1; common_ancestor db p old_parent } })"

declare common_ancestor.simps [code]

definition dbpriv_fix_properties_after_chparent :: "db \<Rightarrow> objid \<Rightarrow> objid \<Rightarrow> db option" where
  "dbpriv_fix_properties_after_chparent db oid old_parent = do {
     new_parent \<leftarrow> db_object_parent db oid;
     common \<leftarrow> common_ancestor db new_parent old_parent;
     common_props \<leftarrow> (if common \<noteq> NOTHING then dbpriv_count_properties db common else Some 0);
     old_count \<leftarrow> dbpriv_count_properties db old_parent;
     new_count \<leftarrow> dbpriv_count_properties db new_parent;
     fix_props db oid 0 (old_count - common_props) (new_count - common_props) common_props }"

end
