(* ===== verification/Db_Layout.thy ===== *)
theory Db_Layout
  imports Db_Properties
begin

text \<open>
  The layout of property slots. \<open>all_defs\<close> is the list of definitions an object has of its own
  and from its ancestors; \<open>layout_ok\<close> says that the slots of every object follow it one to one,
  that no two definitions of an object have the same name, and that an object's own properties
  have values. The theory shows what the searches of \<open>Db_Properties\<close> return on such a database.
\<close>

section \<open>Databases of the same shape\<close>

definition shape :: "obj \<Rightarrow> objid \<times> objid \<times> objid \<times> objid" where
  "shape ob = (ob_id ob, ob_parent ob, ob_child ob, ob_sibling ob)"

definition same_shape :: "db \<Rightarrow> db \<Rightarrow> bool" where
  "same_shape db db' \<longleftrightarrow> num_objects db' = num_objects db \<and> max_objects db' = max_objects db \<and>
     (\<forall>x. map_option shape (objects db' x) = map_option shape (objects db x))"

lemma same_shape_refl [simp]: "same_shape db db"
  by (simp add: same_shape_def)

lemma same_shape_sym: "same_shape db db' \<Longrightarrow> same_shape db' db"
  by (simp add: same_shape_def)

lemma same_shape_trans: "same_shape a b \<Longrightarrow> same_shape b c \<Longrightarrow> same_shape a c"
  by (simp add: same_shape_def)

lemma same_shape_objects:
  assumes "same_shape db db'" "objects db x = Some ob"
  shows "\<exists>ob'. objects db' x = Some ob' \<and> shape ob' = shape ob"
proof -
  have "map_option shape (objects db' x) = Some (shape ob)"
    using assms by (simp add: same_shape_def)
  then show ?thesis by (auto simp: map_option_eq_Some)
qed

lemma same_shape_None: "same_shape db db' \<Longrightarrow> objects db' x = None \<longleftrightarrow> objects db x = None"
  unfolding same_shape_def by (metis map_option_is_None)

lemma same_shape_link:
  assumes "same_shape db db'" "\<And>a b. shape a = shape b \<Longrightarrow> f a = f b"
  shows "link f db' = link f db"
proof
  fix x
  show "link f db' x = link f db x"
  proof (cases "objects db x")
    case None
    then show ?thesis using same_shape_None[OF assms(1)] by (simp add: link_def)
  next
    case (Some ob)
    from same_shape_objects[OF assms(1) Some]
    obtain ob' where "objects db' x = Some ob'" "shape ob' = shape ob" by blast
    with Some assms(2)[of ob' ob] show ?thesis by (simp add: link_def)
  qed
qed

lemma shape_fields:
  "shape a = shape b \<Longrightarrow> ob_id a = ob_id b" "shape a = shape b \<Longrightarrow> ob_parent a = ob_parent b"
  "shape a = shape b \<Longrightarrow> ob_child a = ob_child b" "shape a = shape b \<Longrightarrow> ob_sibling a = ob_sibling b"
  by (simp_all add: shape_def)

lemma same_shape_links:
  assumes "same_shape db db'"
  shows "link ob_parent db' = link ob_parent db" "link ob_child db' = link ob_child db"
    "link ob_sibling db' = link ob_sibling db" "parent_rel db' = parent_rel db"
    "subtree db' x = subtree db x"
proof -
  show 1: "link ob_parent db' = link ob_parent db" "link ob_child db' = link ob_child db"
    "link ob_sibling db' = link ob_sibling db"
    using same_shape_link[OF assms] shape_fields by blast+
  show "parent_rel db' = parent_rel db" by (simp add: parent_rel_def 1)
  then show "subtree db' x = subtree db x" by (simp add: subtree_def)
qed

lemma same_shape_hier:
  assumes "same_shape db db'" "hier_ok db" shows "hier_ok db'"
proof -
  have "table_ok db'"
    unfolding table_ok_def
  proof (intro conjI allI impI)
    fix x ob assume "objects db' x = Some ob"
    from same_shape_objects[OF same_shape_sym[OF assms(1)] this]
    obtain ob0 where ob0: "objects db x = Some ob0" "shape ob0 = shape ob" by blast
    then show "0 \<le> x" "x < num_objects db'" "ob_id ob = x"
      using hier_okD(1)[OF assms(2)] assms(1) shape_fields(1)[OF ob0(2)]
      by (auto simp: table_ok_def same_shape_def)
  qed (use hier_okD(1)[OF assms(2)] assms(1) in \<open>auto simp: table_ok_def same_shape_def\<close>)
  then show ?thesis
    using assms(2) same_shape_None[OF assms(1)] same_shape_links[OF assms(1)]
    by (simp add: hier_ok_def kids_ok_def list_at_def)
qed

lemma same_shape_put:
  "objects db x = Some ob \<Longrightarrow> shape ob' = shape ob \<Longrightarrow> same_shape db (put_object db x (Some ob'))"
  by (simp add: same_shape_def)

lemma keeps_hier_shape: "keeps_hier U \<Longrightarrow> shape (U x ob) = shape ob"
  by (simp add: keeps_hier_def shape_def)

lemma same_shape_app: "keeps_hier U \<Longrightarrow> same_shape db (app U D db)"
  by (simp add: same_shape_def option.map_comp comp_def keeps_hier_shape)

lemma ancestors_None: "hier_ok db \<Longrightarrow> objects db x = None \<Longrightarrow> ancestors db x = Some []"
  using ancestors_unfold[OF hier_okD(1), of db x] by simp

lemma same_shape_ancestors:
  assumes "hier_ok db" "same_shape db db'"
  shows "ancestors db' x = ancestors db x"
proof (cases "objects db x")
  case None
  then show ?thesis
    using ancestors_None[OF assms(1)] ancestors_None[OF same_shape_hier[OF assms(2,1)]]
      same_shape_None[OF assms(2)] by simp
next
  case (Some ob)
  from assms(1) this show ?thesis
  proof (induction rule: hier_induct_up)
    case (obj x ob)
    from same_shape_objects[OF assms(2) obj.hyps(1)]
    obtain ob' where ob': "objects db' x = Some ob'" "ob_parent ob' = ob_parent ob"
      using shape_fields by blast
    have eqs: "ancestors db x = map_option ((#) x) (ancestors db (ob_parent ob))"
      "ancestors db' x = map_option ((#) x) (ancestors db' (ob_parent ob))"
      using ancestors_unfold[OF hier_okD(1), of db x] ancestors_unfold[OF hier_okD(1), of db' x]
        assms same_shape_hier[OF assms(2,1)] ob' obj.hyps(1) by simp_all
    show ?case
    proof (cases "objects db (ob_parent ob)")
      case None
      then show ?thesis
        unfolding eqs
        using ancestors_None[OF assms(1)] ancestors_None[OF same_shape_hier[OF assms(2,1)]]
          same_shape_None[OF assms(2)] by simp
    next
      case (Some q)
      from obj.IH[OF Some] show ?thesis unfolding eqs by simp
    qed
  qed
qed

section \<open>The definitions an object has\<close>

definition defs_of :: "db \<Rightarrow> objid \<Rightarrow> propdef list" where
  "defs_of db x = (case objects db x of None \<Rightarrow> [] | Some ob \<Rightarrow> ob_propdefs ob)"

definition verbs_of :: "db \<Rightarrow> objid \<Rightarrow> verbdef list" where
  "verbs_of db x = (case objects db x of None \<Rightarrow> [] | Some ob \<Rightarrow> ob_verbdefs ob)"

text \<open>The fields that have nothing to do with properties or the hierarchy.\<close>

definition outer :: "obj \<Rightarrow> objid \<times> objid \<times> objid \<times> verbdef list" where
  "outer ob = (ob_location ob, ob_contents ob, ob_next ob, ob_verbdefs ob)"

definition ancs :: "db \<Rightarrow> objid \<Rightarrow> objid list" where
  "ancs db x = the (ancestors db x)"

definition all_defs :: "db \<Rightarrow> objid \<Rightarrow> propdef list" where
  "all_defs db x = concat (map (defs_of db) (ancs db x))"

text \<open>The definitions on the way from an object up to, and without, \<open>r\<close>.\<close>

definition path_defs :: "db \<Rightarrow> objid \<Rightarrow> objid \<Rightarrow> propdef list" where
  "path_defs db r x = concat (map (defs_of db) (takeWhile (\<lambda>y. y \<noteq> r) (ancs db x)))"

lemma defs_of_Some: "objects db x = Some ob \<Longrightarrow> defs_of db x = ob_propdefs ob"
  by (simp add: defs_of_def)

lemma defs_of_mem:
  "d \<in> set (defs_of db x) \<Longrightarrow> \<exists>ob. objects db x = Some ob \<and> d \<in> set (ob_propdefs ob)"
  by (cases "objects db x") (simp_all add: defs_of_def)

lemma ancs_None: "hier_ok db \<Longrightarrow> objects db x = None \<Longrightarrow> ancs db x = []"
  using ancestors_unfold[OF hier_okD(1), of db x] by (simp add: ancs_def)

lemma ancs_Some: "hier_ok db \<Longrightarrow> objects db x = Some ob \<Longrightarrow> ancs db x = x # ancs db (ob_parent ob)"
  using ancestors_Some[of db x ob] by (auto simp: ancs_def)

lemma ancs_subtree:
  assumes "hier_ok db" "objects db x \<noteq> None"
  shows "y \<in> set (ancs db x) \<longleftrightarrow> objects db y \<noteq> None \<and> x \<in> subtree db y"
proof -
  obtain xs where xs: "ancestors db x = Some xs" using ancestors_total[OF assms(1)] by blast
  have dom: "objects db z \<noteq> None" if "z \<in> set (ancs db w)" for z w
  proof (cases "objects db w")
    case None
    then show ?thesis using that ancs_None[OF assms(1)] by auto
  next
    case (Some ob)
    from assms(1) Some that show ?thesis
    proof (induction rule: hier_induct_up)
      case (obj w ob)
      show ?case
      proof (cases "objects db (ob_parent ob)")
        case None
        then show ?thesis using obj ancs_Some[OF assms(1)] ancs_None[OF assms(1)] by auto
      next
        case (Some q)
        then show ?thesis using obj ancs_Some[OF assms(1) obj.hyps(1)] by auto
      qed
    qed
  qed
  show ?thesis
  proof (cases "objects db y")
    case None
    then have "y \<notin> set (ancs db x)" using dom by blast
    then show ?thesis using None by simp
  next
    case (Some oy)
    then show ?thesis using ancestors_subtree[OF assms(1) xs _ assms(2), of y] xs by (simp add: ancs_def)
  qed
qed

lemma all_defs_None: "hier_ok db \<Longrightarrow> objects db x = None \<Longrightarrow> all_defs db x = []"
  by (simp add: all_defs_def ancs_None)

lemma all_defs_Some:
  "hier_ok db \<Longrightarrow> objects db x = Some ob \<Longrightarrow> all_defs db x = ob_propdefs ob @ all_defs db (ob_parent ob)"
  by (simp add: all_defs_def ancs_Some defs_of_def)

lemma path_defs_self: "hier_ok db \<Longrightarrow> objects db r = Some ob \<Longrightarrow> path_defs db r r = []"
  by (simp add: path_defs_def ancs_Some)

lemma path_defs_step:
  "hier_ok db \<Longrightarrow> objects db c = Some ob \<Longrightarrow> c \<noteq> r \<Longrightarrow>
    path_defs db r c = ob_propdefs ob @ path_defs db r (ob_parent ob)"
  by (simp add: path_defs_def ancs_Some defs_of_def)

lemma all_defs_split:
  assumes "hier_ok db" "objects db x = Some ob" "x \<in> subtree db r"
  shows "all_defs db x = path_defs db r x @ all_defs db r"
  using assms
proof (induction rule: hier_induct_up)
  case (obj x ob)
  show ?case
  proof (cases "x = r")
    case True
    then show ?thesis using obj.hyps(1) path_defs_self[OF assms(1)] by simp
  next
    case False
    from subtree_parent[OF obj.prems False] obtain p
      where p: "(x, p) \<in> parent_rel db" "p \<in> subtree db r" by blast
    then have "ob_parent ob = p" using parent_rel_Some[OF obj.hyps(1)] by simp
    moreover obtain q where q: "objects db p = Some q" using hier_okD(4)[OF assms(1) p(1)] by auto
    ultimately show ?thesis
      using obj.IH q p(2) all_defs_Some[OF assms(1) obj.hyps(1)]
        path_defs_step[OF assms(1) obj.hyps(1) False] by simp
  qed
qed

lemma count_properties:
  assumes "hier_ok db"
  shows "dbpriv_count_properties db x = Some (length (all_defs db x))"
proof (cases "objects db x")
  case None
  then show ?thesis
    using all_defs_None[OF assms] table_ok_find[OF hier_okD(1)[OF assms]]
    by (subst dbpriv_count_properties.simps) simp
next
  case (Some ob)
  from assms Some show ?thesis
  proof (induction rule: hier_induct_up)
    case (obj x ob)
    have "dbpriv_count_properties db (ob_parent ob) = Some (length (all_defs db (ob_parent ob)))"
    proof (cases "objects db (ob_parent ob)")
      case None
      then show ?thesis
        using all_defs_None[OF assms] table_ok_find[OF hier_okD(1)[OF assms]]
        by (subst dbpriv_count_properties.simps) simp
    qed (use obj.IH in blast)
    then show ?case
      using obj.hyps(1) all_defs_Some[OF assms obj.hyps(1)] table_ok_find[OF hier_okD(1)[OF assms]]
      by (subst dbpriv_count_properties.simps) simp
  qed
qed

section \<open>The invariant\<close>

definition key :: "propdef \<Rightarrow> string" where
  "key d = fold_case (pd_name d)"

definition def_ok :: "propdef \<Rightarrow> bool" where
  "def_ok d \<longleftrightarrow> c_string (pd_name d) \<and> pd_hash d = str_hash (pd_name d)"

definition obj_layout :: "db \<Rightarrow> objid \<Rightarrow> obj \<Rightarrow> bool" where
  "obj_layout db x ob \<longleftrightarrow>
     length (ob_propval ob) = length (all_defs db x) \<and>
     distinct (map key (all_defs db x)) \<and>
     (\<forall>d \<in> set (ob_propdefs ob). def_ok d) \<and>
     length (ob_propdefs ob) \<le> ob_max_props ob \<and>
     (\<forall>i < length (ob_propdefs ob). pv_var (ob_propval ob ! i) \<noteq> VClear)"

definition layout_ok :: "db \<Rightarrow> bool" where
  "layout_ok db \<longleftrightarrow> hier_ok db \<and> (\<forall>x ob. objects db x = Some ob \<longrightarrow> obj_layout db x ob)"

lemma layout_hier: "layout_ok db \<Longrightarrow> hier_ok db"
  by (simp add: layout_ok_def)

lemma layout_obj: "layout_ok db \<Longrightarrow> objects db x = Some ob \<Longrightarrow> obj_layout db x ob"
  by (simp add: layout_ok_def)

lemma layout_find: "layout_ok db \<Longrightarrow> dbpriv_find_object db x = objects db x"
  by (simp add: layout_ok_def hier_okD(1) table_ok_find)

lemma defs_ok:
  assumes "layout_ok db" "d \<in> set (all_defs db x)" shows "def_ok d"
proof -
  obtain y where "d \<in> set (defs_of db y)" using assms(2) by (auto simp: all_defs_def)
  then obtain ob where "objects db y = Some ob" "d \<in> set (ob_propdefs ob)"
    using defs_of_mem by blast
  then show ?thesis using assms(1) by (auto simp: layout_ok_def obj_layout_def)
qed

lemma matches_key:
  "def_ok d \<Longrightarrow> c_string nm \<Longrightarrow> propdef_matches (str_hash nm) nm d \<longleftrightarrow> key d = fold_case nm"
  using str_hash_fold_case_cong[of "pd_name d" nm]
  by (auto simp: propdef_matches_def def_ok_def key_def mystrcasecmp_eq_0)

lemma new_propdef_ok [simp]: "c_string nm \<Longrightarrow> def_ok (dbpriv_new_propdef nm)"
  by (simp add: def_ok_def dbpriv_new_propdef_def)

lemma new_propdef_key [simp]: "key (dbpriv_new_propdef nm) = fold_case nm"
  by (simp add: key_def dbpriv_new_propdef_def)

section \<open>Searching for a definition\<close>

lemma find_slot_index:
  assumes "hier_ok db"
  shows "\<exists>d. find_slot db nm hash x n =
      Some (map_option (\<lambda>i. (d, n + i)) (index_of (propdef_matches hash nm) (all_defs db x))) \<and>
    (index_of (propdef_matches hash nm) (all_defs db x) \<noteq> None \<longrightarrow>
      d \<in> set (ancs db x) \<and> (\<exists>p \<in> set (defs_of db d). propdef_matches hash nm p))"
proof (cases "objects db x")
  case None
  then show ?thesis
    using all_defs_None[OF assms] table_ok_find[OF hier_okD(1)[OF assms]]
    by (subst find_slot.simps) simp
next
  case (Some ob)
  from assms Some show ?thesis
  proof (induction arbitrary: n rule: hier_induct_up)
    case (obj x ob)
    let ?M = "propdef_matches hash nm" and ?n = "n + length (ob_propdefs ob)"
    note f = table_ok_find[OF hier_okD(1)[OF assms]]
    note ad = all_defs_Some[OF assms obj.hyps(1)] and an = ancs_Some[OF assms obj.hyps(1)]
    have id: "ob_id ob = x"
      using obj.hyps(1) hier_okD(1)[OF assms] by (auto simp: table_ok_def)
    show ?case
    proof (cases "index_of ?M (ob_propdefs ob)")
      case (Some i)
      then have "ob_propdefs ob ! i \<in> set (defs_of db x)" "?M (ob_propdefs ob ! i)"
        using obj.hyps(1) by (auto simp: index_of_Some defs_of_def)
      then show ?thesis using Some obj.hyps(1) f id ad an
        by (subst find_slot.simps) (auto simp: index_of_append)
    next
      case None
      have "\<exists>d. find_slot db nm hash (ob_parent ob) ?n =
          Some (map_option (\<lambda>i. (d, ?n + i)) (index_of ?M (all_defs db (ob_parent ob)))) \<and>
        (index_of ?M (all_defs db (ob_parent ob)) \<noteq> None \<longrightarrow>
          d \<in> set (ancs db (ob_parent ob)) \<and> (\<exists>p \<in> set (defs_of db d). ?M p))"
      proof (cases "objects db (ob_parent ob)")
        case None
        then show ?thesis using all_defs_None[OF assms] f by (subst find_slot.simps) simp
      qed (use obj.IH in blast)
      then obtain d where d: "find_slot db nm hash (ob_parent ob) ?n =
          Some (map_option (\<lambda>i. (d, ?n + i)) (index_of ?M (all_defs db (ob_parent ob))))"
        "index_of ?M (all_defs db (ob_parent ob)) \<noteq> None \<longrightarrow>
          d \<in> set (ancs db (ob_parent ob)) \<and> (\<exists>p \<in> set (defs_of db d). ?M p)" by blast
      have "find_slot db nm hash x n =
          Some (map_option (\<lambda>i. (d, n + i)) (index_of ?M (all_defs db x)))"
        using None obj.hyps(1) f d(1)
        by (subst find_slot.simps)
           (simp add: ad index_of_append option.map_comp comp_def add.assoc)
      moreover have "index_of ?M (all_defs db x) \<noteq> None \<longrightarrow>
          d \<in> set (ancs db x) \<and> (\<exists>p \<in> set (defs_of db d). ?M p)"
        using d(2) None by (simp add: ad an index_of_append)
      ultimately show ?thesis by blast
    qed
  qed
qed

lemma defined_in_children:
  assumes hier: "hier_ok db" and "p \<noteq> NOTHING" "chain (link ob_sibling db) c cs"
    "\<forall>c \<in> set cs. link ob_parent db c = Some p"
  shows "defined_in_children db nm hash c =
    Some (\<exists>y \<in> \<Union> (subtree db ` set cs). \<exists>d \<in> set (defs_of db y). propdef_matches hash nm d)"
  using hier assms(2-)
proof (induction p arbitrary: c cs rule: hier_induct_down)
  case (obj p)
  from obj.prems show ?case
  proof (induction cs arbitrary: c)
    case Nil
    then show ?case by (simp add: defined_in_children.simps)
  next
    case (Cons c' cs)
    then obtain ob where ob: "c' = c" "c \<noteq> -1" "objects db c = Some ob"
      "chain (link ob_sibling db) (ob_sibling ob) cs" "ob_parent ob = p"
      by (auto simp: link_Some)
    have R: "(c, p) \<in> parent_rel db" using ob Cons.prems by (simp add: parent_rel_Some)
    obtain ds where ds: "chain (link ob_sibling db) (ob_child ob) ds"
        "set ds = {d. link ob_parent db d = Some c}"
      using kids_ok_list[OF hier ob(3)] by blast
    let ?D = "\<lambda>y. \<exists>d \<in> set (defs_of db y). propdef_matches hash nm d"
    have 1: "defined_in_children db nm hash (ob_child ob) = Some (\<exists>y \<in> \<Union> (subtree db ` set ds). ?D y)"
      by (rule obj.IH[OF R ob(2) ds(1)]) (use ds(2) in simp)
    have 2: "defined_in_children db nm hash (ob_sibling ob) = Some (\<exists>y \<in> \<Union> (subtree db ` set cs). ?D y)"
      by (rule Cons.IH) (use Cons.prems ob in auto)
    have sub: "subtree db c = insert c (\<Union> (subtree db ` set ds))"
      using subtree_unfold[OF ds(2) ob(2)] .
    have "defined_in_children db nm hash c =
        Some (?D c \<or> (\<exists>y \<in> \<Union> (subtree db ` set ds). ?D y) \<or> (\<exists>y \<in> \<Union> (subtree db ` set cs). ?D y))"
      using ob(2,3) 1 2 table_ok_find[OF hier_okD(1)[OF hier], of c] defs_of_Some[OF ob(3)]
      by (subst defined_in_children.simps) (simp del: UN_iff bex_simps)
    moreover have "(\<Union> (subtree db ` set (c' # cs))) =
        insert c (\<Union> (subtree db ` set ds)) \<union> \<Union> (subtree db ` set cs)"
      using sub ob(1) by simp
    ultimately show ?case by (simp only: bex_simps Un_iff bex_Un disj_assoc)
  qed
qed

lemma property_defined_at_or_below:
  assumes hier: "hier_ok db" and r: "objects db r = Some ob"
  shows "property_defined_at_or_below db nm hash r =
    Some (\<exists>y \<in> subtree db r. \<exists>d \<in> set (defs_of db y). propdef_matches hash nm d)"
proof -
  have rn: "r \<noteq> NOTHING" using r table_ok_NOTHING[OF hier_okD(1)[OF hier]] by auto
  obtain cs where cs: "chain (link ob_sibling db) (ob_child ob) cs"
      "set cs = {d. link ob_parent db d = Some r}"
    using kids_ok_list[OF hier r] by blast
  have "defined_in_children db nm hash (ob_child ob) =
    Some (\<exists>y \<in> \<Union> (subtree db ` set cs). \<exists>d \<in> set (defs_of db y). propdef_matches hash nm d)"
    by (rule defined_in_children[OF hier rn cs(1)]) (use cs(2) in simp)
  then show ?thesis
    using r subtree_unfold[OF cs(2) rn] table_ok_find[OF hier_okD(1)[OF hier], of r] defs_of_Some[OF r]
    by (auto simp: property_defined_at_or_below_def)
qed

section \<open>The value of a property\<close>

text \<open>The slot of an object for a name, and the first one that is not clear, going up.\<close>

definition prop_slot :: "db \<Rightarrow> string \<Rightarrow> objid \<Rightarrow> pval option" where
  "prop_slot db nm x = do {
     ob \<leftarrow> objects db x;
     i \<leftarrow> index_of (\<lambda>d. key d = fold_case nm) (all_defs db x);
     nth_opt (ob_propval ob) (int i) }"

definition inherited_value :: "db \<Rightarrow> string \<Rightarrow> objid \<Rightarrow> var option" where
  "inherited_value db nm x =
     map_option pv_var (List.find (\<lambda>pv. pv_var pv \<noteq> VClear)
       (List.map_filter (prop_slot db nm) (ancs db x)))"

text \<open>The slots of an object as a map from names.\<close>

definition slot_map :: "db \<Rightarrow> objid \<Rightarrow> (string \<rightharpoonup> pval)" where
  "slot_map db x = (case objects db x of None \<Rightarrow> Map.empty
     | Some ob \<Rightarrow> map_of (zip (map key (all_defs db x)) (ob_propval ob)))"

lemma index_of_map_of:
  "length ds = length vs \<Longrightarrow> map_of (zip (map key ds) vs) k =
    (case index_of (\<lambda>d. key d = k) ds of None \<Rightarrow> None | Some i \<Rightarrow> Some (vs ! i))"
  by (induction ds vs rule: list_induct2) (auto split: option.splits)

lemma prop_slot_map:
  assumes "layout_ok db" shows "prop_slot db nm x = slot_map db x (fold_case nm)"
proof (cases "objects db x")
  case (Some ob)
  then have "length (all_defs db x) = length (ob_propval ob)"
    using layout_obj[OF assms Some] by (simp add: obj_layout_def)
  note m = index_of_map_of[OF this, of "fold_case nm"]
  show ?thesis
  proof (cases "index_of (\<lambda>d. key d = fold_case nm) (all_defs db x)")
    case None
    then show ?thesis using Some m by (simp add: prop_slot_def slot_map_def)
  next
    case (Some i)
    then have "i < length (ob_propval ob)"
      using \<open>length (all_defs db x) = length (ob_propval ob)\<close> by (simp add: index_of_Some)
    then show ?thesis using Some \<open>objects db x = Some ob\<close> m
      by (simp add: prop_slot_def slot_map_def)
  qed
qed (simp add: prop_slot_def slot_map_def)

lemma inherited_value_cong:
  assumes "ancs db' x = ancs db x" "\<And>y. y \<in> set (ancs db x) \<Longrightarrow>
    map_option pv_var (prop_slot db' nm y) = map_option pv_var (prop_slot db nm y)"
  shows "inherited_value db' nm x = inherited_value db nm x"
proof -
  have "map_option pv_var (List.find (\<lambda>pv. pv_var pv \<noteq> VClear) (List.map_filter f ys)) =
      map_option pv_var (List.find (\<lambda>pv. pv_var pv \<noteq> VClear) (List.map_filter g ys))"
    if "\<And>y. y \<in> set ys \<Longrightarrow> map_option pv_var (f y) = map_option pv_var (g y)"
    for f g :: "objid \<Rightarrow> pval option" and ys
    using that
  proof (induction ys)
    case (Cons y ys)
    have fg: "map_option pv_var (f y) = map_option pv_var (g y)" using Cons.prems by simp
    have IH: "map_option pv_var (List.find (\<lambda>pv. pv_var pv \<noteq> VClear) (List.map_filter f ys)) =
        map_option pv_var (List.find (\<lambda>pv. pv_var pv \<noteq> VClear) (List.map_filter g ys))"
      using Cons.IH Cons.prems by simp
    show ?case
    proof (cases "f y")
      case None
      then have "g y = None" using fg by simp
      with None IH show ?thesis by (simp add: List.map_filter_simps)
    next
      case (Some a)
      then obtain b where "g y = Some b" "pv_var b = pv_var a" using fg by (cases "g y") simp_all
      with Some IH show ?thesis by (simp add: List.map_filter_simps)
    qed
  qed (simp add: List.map_filter_simps)
  from this[OF assms(2)] show ?thesis by (simp only: inherited_value_def assms(1))
qed

lemma index_of_key_unique:
  assumes "distinct (map key ds)" "i < length ds"
  shows "index_of (\<lambda>d. key d = key (ds ! i)) ds = Some i"
  using assms unfolding index_of_Some
  by (metis (no_types, lifting) length_map less_trans nth_eq_iff_index_eq nth_map order_less_irrefl)

lemma index_of_cong: "(\<And>x. x \<in> set xs \<Longrightarrow> P x = Q x) \<Longrightarrow> index_of P xs = index_of Q xs"
  by (induction xs) auto

lemma index_of_matches:
  assumes "layout_ok db" "c_string nm"
  shows "index_of (propdef_matches (str_hash nm) nm) (all_defs db x) =
    index_of (\<lambda>d. key d = fold_case nm) (all_defs db x)"
  using matches_key[OF defs_ok[OF assms(1)] assms(2)] by (rule index_of_cong)

lemma skip_clear_value:
  assumes "layout_ok db" "objects db x = Some ob"
    "index_of (\<lambda>d. key d = fold_case nm) (all_defs db x) = Some i"
  shows "\<exists>v. skip_clear db x (int i) = Some v \<and> v \<noteq> VClear \<and> inherited_value db nm x = Some v"
  using layout_hier[OF assms(1)] assms(2,3)
proof (induction arbitrary: i rule: hier_induct_up)
  case (obj x ob)
  note hier = layout_hier[OF assms(1)]
  have L: "obj_layout db x ob" using layout_obj[OF assms(1) obj.hyps(1)] .
  have i: "i < length (ob_propval ob)" using obj.prems L by (simp add: obj_layout_def index_of_Some)
  have slot: "prop_slot db nm x = Some (ob_propval ob ! i)"
    using obj.hyps(1) obj.prems i by (simp add: prop_slot_def)
  note ad = all_defs_Some[OF hier obj.hyps(1)] and an = ancs_Some[OF hier obj.hyps(1)]
  have val: "inherited_value db nm x = (if pv_var (ob_propval ob ! i) = VClear
      then inherited_value db nm (ob_parent ob) else Some (pv_var (ob_propval ob ! i)))"
    by (simp add: inherited_value_def an List.map_filter_simps slot)
  show ?case
  proof (cases "pv_var (ob_propval ob ! i) = VClear")
    case False
    then show ?thesis using val obj.hyps(1) i layout_find[OF assms(1)]
      by (subst skip_clear.simps) simp
  next
    case True
    let ?l = "length (ob_propdefs ob)"
    have il: "?l \<le> i" using L True by (meson not_less obj_layout_def)
    have none: "index_of (\<lambda>d. key d = fold_case nm) (ob_propdefs ob) = None"
    proof (rule ccontr)
      assume "index_of (\<lambda>d. key d = fold_case nm) (ob_propdefs ob) \<noteq> None"
      then obtain j where j: "index_of (\<lambda>d. key d = fold_case nm) (ob_propdefs ob) = Some j" by blast
      then have "i = j" using obj.prems by (simp add: ad index_of_append)
      then show False using j il by (simp add: index_of_Some)
    qed
    then have k: "index_of (\<lambda>d. key d = fold_case nm) (all_defs db (ob_parent ob)) = Some (i - ?l)"
      using obj.prems by (auto simp: ad index_of_append)
    then obtain q where q: "objects db (ob_parent ob) = Some q"
      using all_defs_None[OF hier, of "ob_parent ob"] by (cases "objects db (ob_parent ob)") auto
    from obj.IH[OF q k] show ?thesis
      using True val obj.hyps(1) i il layout_find[OF assms(1)]
      by (subst skip_clear.simps) (simp add: of_nat_diff)
  qed
qed

text \<open>What \<open>db_find_property\<close> returns.\<close>

lemma db_find_property_bi:
  "bi_lookup nm = Some p \<Longrightarrow> db_find_property db x nm False =
    Some (\<lparr>h_built_in = p, h_definer = NOTHING, h_ptr = Bi_Ptr x\<rparr>, None)"
  by (simp add: db_find_property_def Let_def)

lemma db_find_property_none:
  assumes "layout_ok db" "c_string nm" "bi_lookup nm = None"
    "index_of (\<lambda>d. key d = fold_case nm) (all_defs db x) = None"
  shows "db_find_property db x nm want =
    Some (\<lparr>h_built_in = BP_NONE, h_definer = NOTHING, h_ptr = Null\<rparr>, None)"
proof -
  have "find_slot db nm (str_hash nm) x 0 = Some None"
    using find_slot_index[OF layout_hier[OF assms(1)], of nm "str_hash nm" x 0]
      index_of_matches[OF assms(1,2)] assms(4) by simp
  then show ?thesis using assms(3) by (simp add: db_find_property_def)
qed

lemma db_find_property_slot:
  assumes "layout_ok db" "c_string nm" "bi_lookup nm = None" "objects db x = Some ob"
    "index_of (\<lambda>d. key d = fold_case nm) (all_defs db x) = Some i"
  shows "\<exists>definer v. (\<forall>want. db_find_property db x nm want =
      Some (\<lparr>h_built_in = BP_NONE, h_definer = definer, h_ptr = Slot x i\<rparr>, if want then Some v else None)) \<and>
    definer \<in> set (ancs db x) \<and> (\<exists>d \<in> set (defs_of db definer). key d = fold_case nm) \<and>
    v \<noteq> VClear \<and> inherited_value db nm x = Some v"
proof -
  obtain d where d: "find_slot db nm (str_hash nm) x 0 = Some (Some (d, i))"
      "d \<in> set (ancs db x)" "\<exists>p \<in> set (defs_of db d). propdef_matches (str_hash nm) nm p"
    using find_slot_index[OF layout_hier[OF assms(1)], of nm "str_hash nm" x 0]
      index_of_matches[OF assms(1,2)] assms(5) by auto
  have ok: "def_ok p" if "p \<in> set (defs_of db d)" for p
    using that d(2) by (intro defs_ok[OF assms(1), of p x]) (auto simp: all_defs_def)
  then have k: "\<exists>p \<in> set (defs_of db d). key p = fold_case nm"
    using d(3) matches_key[OF _ assms(2)] by blast
  obtain v where v: "skip_clear db x (int i) = Some v" "v \<noteq> VClear" "inherited_value db nm x = Some v"
    using skip_clear_value[OF assms(1,4,5)] by blast
  have "db_find_property db x nm want =
      Some (\<lparr>h_built_in = BP_NONE, h_definer = d, h_ptr = Slot x i\<rparr>, if want then Some v else None)" for want
    using assms(3) d(1) v(1) by (simp add: db_find_property_def Let_def)
  then show ?thesis using d(2) k v by blast
qed

end
