(* ===== verification/Db_Layout_Ops.thy ===== *)
theory Db_Layout_Ops
  imports Db_Layout
begin

text \<open>
  Adding, renaming and deleting property definitions keep the layout of the slots: each of
  \<open>db_add_propdef\<close>, \<open>db_rename_propdef\<close>, \<open>db_delete_propdef\<close> is computed exactly, as one
  update of every object below the definer, and the invariant \<open>layout_ok\<close> is proved preserved.
\<close>

section \<open>One object\<close>

lemma insert_prop_eq:
  assumes "hier_ok db" "objects db c = Some ob"
    "length (all_defs db c) = Suc (length (ob_propval ob))" "pos \<le> length (ob_propval ob)"
  shows "insert_prop db c pos pv =
    Some (put_object db c (Some (ob\<lparr>ob_propval := insert_at pos (slot_at ob pv) (ob_propval ob)\<rparr>)))"
  using assms count_properties[OF assms(1), of c] table_ok_find[OF hier_okD(1)[OF assms(1)], of c]
  by (simp add: insert_prop_def insert_at_def)

lemma remove_prop_eq:
  assumes "hier_ok db" "objects db c = Some ob"
    "length (ob_propval ob) = Suc (length (all_defs db c))" "pos < length (ob_propval ob)"
  shows "remove_prop db c pos =
    Some (put_object db c (Some (ob\<lparr>ob_propval := delete_at pos (ob_propval ob)\<rparr>)))"
proof -
  have "pos = 0" if "all_defs db c = []"
    using that assms(3,4) by simp
  then show ?thesis
    using assms count_properties[OF assms(1), of c] table_ok_find[OF hier_okD(1)[OF assms(1)], of c]
    by (simp add: remove_prop_def delete_at_def)
qed

section \<open>Definitions after an update\<close>

definition keeps_defs :: "(objid \<Rightarrow> obj \<Rightarrow> obj) \<Rightarrow> bool" where
  "keeps_defs U \<longleftrightarrow> keeps_hier U \<and> (\<forall>x ob. ob_propdefs (U x ob) = ob_propdefs ob) \<and>
     (\<forall>x ob. outer (U x ob) = outer ob)"

lemma keeps_defsD:
  "keeps_defs U \<Longrightarrow> keeps_hier U" "keeps_defs U \<Longrightarrow> ob_propdefs (U x ob) = ob_propdefs ob"
  "keeps_defs U \<Longrightarrow> outer (U x ob) = outer ob"
  by (simp_all add: keeps_defs_def)

lemma defs_of_app: "keeps_defs U \<Longrightarrow> defs_of (app U D db) x = defs_of db x"
  by (cases "objects db x") (simp_all add: defs_of_def keeps_defsD)

lemma outer_app: "keeps_defs U \<Longrightarrow> map_option outer (objects (app U D db) x) = map_option outer (objects db x)"
  by (cases "objects db x") (simp_all add: keeps_defsD)

lemma same_shape_ancs: "hier_ok db \<Longrightarrow> same_shape db db' \<Longrightarrow> ancs db' x = ancs db x"
  unfolding ancs_def using same_shape_ancestors by metis

lemma all_defs_app:
  assumes "hier_ok db" "keeps_defs U"
  shows "hier_ok (app U D db)" "all_defs (app U D db) x = all_defs db x"
proof -
  have ss: "same_shape db (app U D db)" using same_shape_app[OF keeps_defsD(1)[OF assms(2)]] .
  show "hier_ok (app U D db)" using same_shape_hier[OF ss assms(1)] .
  have "defs_of (app U D db) = defs_of db"
    using defs_of_app[OF assms(2)] by blast
  then show "all_defs (app U D db) x = all_defs db x"
    using same_shape_ancs[OF assms(1) ss] by (simp only: all_defs_def)
qed

text \<open>Changing the definitions of \<open>r\<close> changes the middle of the list below it, and nothing elsewhere.\<close>

lemma all_defs_put:
  assumes hier: "hier_ok db" and r: "objects db r = Some rob" and sh: "shape rob' = shape rob"
    and x: "objects db x = Some ob"
  defines "db1 \<equiv> put_object db r (Some rob')"
  shows "x \<in> subtree db r \<Longrightarrow>
      all_defs db1 x = path_defs db r x @ ob_propdefs rob' @ all_defs db (ob_parent rob)"
    "x \<in> subtree db r \<Longrightarrow>
      all_defs db x = path_defs db r x @ ob_propdefs rob @ all_defs db (ob_parent rob)"
    "x \<notin> subtree db r \<Longrightarrow> all_defs db1 x = all_defs db x"
proof -
  have ss: "same_shape db db1" unfolding db1_def using same_shape_put[OF r sh] .
  have hier1: "hier_ok db1" using same_shape_hier[OF ss hier] .
  note an = same_shape_ancs[OF hier ss]
  have other: "defs_of db1 y = defs_of db y" if "y \<noteq> r" for y
    using that by (simp add: defs_of_def db1_def)
  have r1: "objects db1 r = Some rob'" by (simp add: db1_def)
  have notin: "all_defs db1 y = all_defs db y" if "r \<notin> set (ancs db y)" for y
  proof -
    have "map (defs_of db1) (ancs db y) = map (defs_of db) (ancs db y)"
      by (rule map_cong[OF refl], rule other) (use that in blast)
    then show ?thesis by (simp only: all_defs_def an)
  qed
  have path: "path_defs db1 r x = path_defs db r x"
  proof -
    have "map (defs_of db1) (takeWhile (\<lambda>y. y \<noteq> r) (ancs db x)) =
        map (defs_of db) (takeWhile (\<lambda>y. y \<noteq> r) (ancs db x))"
      by (rule map_cong[OF refl], rule other) (auto dest: set_takeWhileD)
    then show ?thesis by (simp only: path_defs_def an)
  qed
  have par: "all_defs db1 (ob_parent rob) = all_defs db (ob_parent rob)"
  proof (cases "objects db (ob_parent rob)")
    case None
    then show ?thesis by (intro notin) (simp add: ancs_None[OF hier])
  next
    case (Some q)
    then have "ob_parent rob \<noteq> NOTHING" using table_ok_NOTHING[OF hier_okD(1)[OF hier]] by auto
    then have "(r, ob_parent rob) \<in> parent_rel db" using r by (simp add: parent_rel_Some)
    then have "ob_parent rob \<notin> subtree db r" using subtree_acyclic[OF hier_okD(2)[OF hier]] by blast
    then show ?thesis using ancs_subtree[OF hier, of "ob_parent rob" r] Some by (intro notin) simp
  qed
  obtain ob1 where x1: "objects db1 x = Some ob1" using same_shape_objects[OF ss x] by blast
  show "all_defs db1 x = path_defs db r x @ ob_propdefs rob' @ all_defs db (ob_parent rob)"
    if "x \<in> subtree db r"
    using all_defs_split[OF hier1 x1, of r] that same_shape_links(5)[OF ss] path par
      all_defs_Some[OF hier1 r1] shape_fields(2)[OF sh] by simp
  show "all_defs db x = path_defs db r x @ ob_propdefs rob @ all_defs db (ob_parent rob)"
    if "x \<in> subtree db r"
    using all_defs_split[OF hier x that] all_defs_Some[OF hier r] by simp
  show "all_defs db1 x = all_defs db x" if "x \<notin> subtree db r"
    using that ancs_subtree[OF hier, of x r] x by (intro notin) simp
qed

text \<open>The number of definitions from a child up to below \<open>r\<close>.\<close>

lemma path_defs_child:
  assumes "hier_ok db" "objects db c = Some ob" "ob_parent ob = p" "p \<noteq> NOTHING" "p \<in> subtree db r"
  shows "path_defs db r c = ob_propdefs ob @ path_defs db r p"
proof -
  have R: "(c, p) \<in> parent_rel db" using assms by (simp add: parent_rel_Some)
  have "c \<noteq> r"
    using subtree_acyclic[OF hier_okD(2)[OF assms(1)] R] assms(5) by auto
  then show ?thesis using path_defs_step[OF assms(1,2)] assms(3) by simp
qed

lemma keep_app: "keeps_hier U \<Longrightarrow> same_shape db db1 \<Longrightarrow> same_shape db (app U D db1)"
  using same_shape_trans same_shape_app by blast

section \<open>Adding a definition\<close>

definition fresh_prop :: "db \<Rightarrow> objid \<Rightarrow> string \<Rightarrow> bool" where
  "fresh_prop db r nm \<longleftrightarrow> bi_lookup nm = None \<and>
     (\<forall>d \<in> set (all_defs db r). key d \<noteq> fold_case nm) \<and>
     (\<forall>y \<in> subtree db r. \<forall>d \<in> set (defs_of db y). key d \<noteq> fold_case nm)"

text \<open>The new slot of an object at or below the definer \<open>r\<close>.\<close>

definition new_slot :: "objid \<Rightarrow> pval \<Rightarrow> objid \<Rightarrow> obj \<Rightarrow> pval" where
  "new_slot r pv x ob = slot_at ob (if x = r then pv else pv\<lparr>pv_var := VClear\<rparr>)"

definition add_slot :: "db \<Rightarrow> objid \<Rightarrow> nat \<Rightarrow> pval \<Rightarrow> objid \<Rightarrow> obj \<Rightarrow> obj" where
  "add_slot db r pos pv x ob = ob\<lparr>ob_propval :=
     insert_at (length (path_defs db r x) + pos) (new_slot r pv x ob) (ob_propval ob)\<rparr>"

lemma add_slot_keeps [simp]: "keeps_defs (add_slot db r pos pv)" "keeps_hier (add_slot db r pos pv)"
  by (simp_all add: outer_def keeps_defs_def keeps_hier_def add_slot_def)

lemma shape_add_def [simp]: "shape (add_def d ob) = shape ob"
  by (simp add: shape_def add_def_def Let_def)

lemma add_def_fields [simp]:
  "ob_propdefs (add_def d ob) = ob_propdefs ob @ [d]" "ob_propval (add_def d ob) = ob_propval ob"
  "ob_child (add_def d ob) = ob_child ob" "ob_parent (add_def d ob) = ob_parent ob"
  "ob_owner (add_def d ob) = ob_owner ob"
  by (simp_all add: add_def_def Let_def)

lemma add_def_room: "length (ob_propdefs ob) \<le> ob_max_props ob \<Longrightarrow>
    Suc (length (ob_propdefs ob)) \<le> ob_max_props (add_def d ob)"
  by (auto simp: add_def_def Let_def)

lemma insert_prop_recursively_eq:
  fixes d :: propdef
  assumes L: "layout_ok db" and r: "objects db r = Some rob"
  defines "pos \<equiv> length (ob_propdefs rob)"
  defines "db1 \<equiv> put_object db r (Some (add_def d rob))"
  shows "insert_prop_recursively db1 r pos pv = Some (app (add_slot db r pos pv) (subtree db r) db1)"
proof -
  let ?U = "add_slot db r pos pv"
  note hier = layout_hier[OF L]
  have ss: "same_shape db db1" unfolding db1_def by (rule same_shape_put[OF r]) simp
  have hier1: "hier_ok db1" using same_shape_hier[OF ss hier] .
  have r1: "objects db1 r = Some (add_def d rob)" by (simp add: db1_def)
  have size: "length (all_defs (app ?U D db1) c) = Suc (length (ob_propval ob))"
      "length (path_defs db r c) + pos \<le> length (ob_propval ob)"
    if c: "objects db1 c = Some ob" "c \<in> subtree db r" for D c ob
  proof -
    obtain ob0 where ob0: "objects db c = Some ob0" "ob_propval ob0 = ob_propval ob"
      using c(1) r by (cases "c = r") (auto simp: db1_def)
    have "length (ob_propval ob0) = length (all_defs db c)"
      using layout_obj[OF L ob0(1)] by (simp add: obj_layout_def)
    then show "length (all_defs (app ?U D db1) c) = Suc (length (ob_propval ob))"
      "length (path_defs db r c) + pos \<le> length (ob_propval ob)"
      using all_defs_app(2)[OF hier1, of ?U] all_defs_put(1,2)[OF hier r _ ob0(1) c(2), of "add_def d rob"]
        ob0(2) by (simp_all add: db1_def pos_def)
  qed
  have ins: "insert_prop (app ?U D db1) c (length (path_defs db r c) + pos) w =
      Some (app ?U (insert c D) db1)"
    if c: "objects db1 c = Some ob" "c \<in> subtree db r" "c \<notin> D" "slot_at ob w = new_slot r pv c ob"
    for D c ob w
  proof -
    have "insert_prop (app ?U D db1) c (length (path_defs db r c) + pos) w =
        Some (put_object (app ?U D db1) c (Some (?U c ob)))"
      using insert_prop_eq[OF all_defs_app(1)[OF hier1, where U = ?U and D = D], where c = c and ob = ob]
        size[OF c(1,2)] c
      by (simp add: add_slot_def)
    then show ?thesis using app_insert[OF c(1,3)] by simp
  qed
  have first: "insert_prop db1 r pos pv = Some (app ?U {r} db1)"
    using ins[OF r1, of "{}" pv] path_defs_self[OF hier r] by (simp add: new_slot_def)
  have "for_subtree (insert_visit (pv\<lparr>pv_var := VClear\<rparr>)) (app ?U {r} db1)
      (ob_child (add_def d rob)) (length (path_defs db r r) + pos) = Some (app ?U (subtree db1 r) db1)"
  proof (rule for_subtree_below[OF hier1 _ r1, where A = "\<lambda>x. length (path_defs db r x) + pos"])
    fix D c p ob
    assume c: "c \<notin> D" "p \<in> D" "D \<subseteq> subtree db1 r" "objects db1 c = Some ob" "ob_parent ob = p"
      "p \<noteq> NOTHING" "c \<in> subtree db1 r"
    then have sub: "c \<in> subtree db r" "p \<in> subtree db r" using same_shape_links(5)[OF ss] by auto
    have cr: "c \<noteq> r"
      using c sub subtree_acyclic[OF hier_okD(2)[OF hier1], of c p] same_shape_links(5)[OF ss]
      by (auto simp: parent_rel_Some)
    then have "objects db c = Some ob" using c(4) by (simp add: db1_def)
    from path_defs_child[OF hier this c(5,6) sub(2)]
    show "insert_visit (pv\<lparr>pv_var := VClear\<rparr>) (app ?U D db1) c (length (path_defs db r p) + pos) =
        Some (app ?U (insert c D) db1, length (path_defs db r c) + pos)"
      using ins[OF c(4) sub(1) c(1), of "pv\<lparr>pv_var := VClear\<rparr>"] cr c(1,4)
        table_ok_find[OF hier_okD(1)[OF hier1], of c]
      by (simp add: insert_visit_def new_slot_def add.assoc)
  qed simp
  then show ?thesis
    using first r1 path_defs_self[OF hier r] table_ok_find[OF hier_okD(1)[OF hier1], of r]
      same_shape_links(5)[OF ss]
    by (simp add: insert_prop_recursively_def add_slot_def)
qed

lemma path_defs_subtree:
  assumes "hier_ok db" "objects db x = Some ob" "x \<in> subtree db r" "d \<in> set (path_defs db r x)"
  shows "\<exists>y \<in> subtree db r. d \<in> set (defs_of db y)"
  using assms
proof (induction rule: hier_induct_up)
  case (obj x ob)
  show ?case
  proof (cases "x = r")
    case True
    then show ?thesis using obj.prems(2) path_defs_self[OF assms(1)] obj.hyps(1) by simp
  next
    case False
    from subtree_parent[OF obj.prems(1) False] obtain p
      where p: "(x, p) \<in> parent_rel db" "p \<in> subtree db r" by blast
    then have "ob_parent ob = p" using parent_rel_Some[OF obj.hyps(1)] by simp
    moreover obtain q where "objects db p = Some q" using hier_okD(4)[OF assms(1) p(1)] by auto
    ultimately show ?thesis
      using obj.IH p(2) obj.prems path_defs_step[OF assms(1) obj.hyps(1) False]
        defs_of_Some[OF obj.hyps(1)] by (metis Un_iff set_append)
  qed
qed

lemma path_defs_own:
  "hier_ok db \<Longrightarrow> objects db x = Some ob \<Longrightarrow> x \<noteq> r \<Longrightarrow>
    length (ob_propdefs ob) \<le> length (path_defs db r x)"
  by (simp add: path_defs_step)

lemma table_app: "objects (app U D db) x = Some ob' \<Longrightarrow>
    \<exists>ob. objects db x = Some ob \<and> ob' = (if x \<in> D then U x ob else ob)"
  by (auto split: if_splits)

lemma add_prop_layout:
  fixes d :: propdef
  assumes L: "layout_ok db" and r: "objects db r = Some rob" and d: "def_ok d"
    and fresh: "\<forall>e \<in> set (all_defs db r). key e \<noteq> key d"
      "\<forall>y \<in> subtree db r. \<forall>e \<in> set (defs_of db y). key e \<noteq> key d"
    and v: "pv_var pv \<noteq> VClear"
  defines "pos \<equiv> length (ob_propdefs rob)"
  defines "db1 \<equiv> put_object db r (Some (add_def d rob))"
  shows "layout_ok (app (add_slot db r pos pv) (subtree db r) db1)"
proof -
  let ?U = "add_slot db r pos pv"
  note hier = layout_hier[OF L]
  have ss: "same_shape db db1" unfolding db1_def by (rule same_shape_put[OF r]) simp
  have hier1: "hier_ok db1" using same_shape_hier[OF ss hier] .
  note ad = all_defs_app(2)[OF hier1 add_slot_keeps(1)]
  have "obj_layout (app ?U (subtree db r) db1) x ob'"
    if "objects (app ?U (subtree db r) db1) x = Some ob'" for x ob'
  proof -
    from table_app[OF that] obtain ob1 where ob1: "objects db1 x = Some ob1"
      "ob' = (if x \<in> subtree db r then ?U x ob1 else ob1)" by blast
    obtain ob where ob: "objects db x = Some ob" "ob1 = (if x = r then add_def d ob else ob)" "x = r \<longrightarrow> ob = rob"
      using ob1(1) r by (cases "x = r") (auto simp: db1_def)
    have lay: "obj_layout db x ob" using layout_obj[OF L ob(1)] .
    note puts = all_defs_put[OF hier r _ ob(1), of "add_def d rob", folded db1_def, OF shape_add_def]
    show ?thesis
    proof (cases "x \<in> subtree db r")
      case False
      then have "x \<noteq> r" by auto
      then show ?thesis using lay ob ob1 False puts(3) ad by (simp add: obj_layout_def)
    next
      case True
      have new: "ob' = ?U x ob1" using ob1(2) True by simp
      have defs: "all_defs db x = path_defs db r x @ ob_propdefs rob @ all_defs db (ob_parent rob)"
        "all_defs db1 x = path_defs db r x @ ob_propdefs rob @ d # all_defs db (ob_parent rob)"
        using puts(1,2)[OF True] by simp_all
      have len: "length (path_defs db r x) + pos \<le> length (ob_propval ob)"
        using lay defs(1) by (simp add: obj_layout_def pos_def)
      have pv: "ob_propval ob1 = ob_propval ob" "ob_propdefs ob' = ob_propdefs ob1"
        "ob_max_props ob' = ob_max_props ob1"
        using ob(2) new by (simp_all add: add_slot_def)
      have "\<forall>e \<in> set (all_defs db x). key e \<noteq> key d"
        using path_defs_subtree[OF hier ob(1) True] fresh defs(1) all_defs_Some[OF hier r] by auto
      moreover have "distinct (map key (all_defs db x))" using lay by (simp add: obj_layout_def)
      ultimately have 1: "distinct (map key (all_defs db1 x))" unfolding defs by auto
      have 2: "length (ob_propval ob') = length (all_defs db1 x)"
        using lay defs new pv by (simp add: obj_layout_def add_slot_def)
      have 3: "(\<forall>d \<in> set (ob_propdefs ob'). def_ok d) \<and> length (ob_propdefs ob') \<le> ob_max_props ob'"
        using lay ob d pv add_def_room[of ob d] by (auto simp: obj_layout_def)
      have 4: "pv_var (ob_propval ob' ! i) \<noteq> VClear" if i: "i < length (ob_propdefs ob')" for i
      proof (cases "x = r")
        case True
        then have "i \<le> pos" "path_defs db r x = []"
          using i ob pv path_defs_self[OF hier r] by (auto simp: pos_def)
        then show ?thesis
          using lay i len new pv v ob True
          by (auto simp: obj_layout_def add_slot_def nth_insert_at new_slot_def slot_at_def pos_def)
      next
        case False
        then have "i < length (path_defs db r x)"
          using path_defs_own[OF hier ob(1) False] i pv ob by simp
        then show ?thesis
          using lay i len new pv ob False
          by (auto simp: obj_layout_def add_slot_def nth_insert_at)
      qed
      show ?thesis using 1 2 3 4 ad by (simp add: obj_layout_def)
    qed
  qed
  moreover have "hier_ok (app ?U (subtree db r) db1)"
    using all_defs_app(1)[OF hier1 add_slot_keeps(1)] .
  ultimately show ?thesis by (simp add: layout_ok_def)
qed

text \<open>The database after a definition has been added.\<close>

definition added :: "db \<Rightarrow> objid \<Rightarrow> obj \<Rightarrow> string \<Rightarrow> pval \<Rightarrow> db" where
  "added db r rob nm pv = app (add_slot db r (length (ob_propdefs rob)) pv) (subtree db r)
     (put_object db r (Some (add_def (dbpriv_new_propdef nm) rob)))"

lemma find_property_null:
  assumes "layout_ok db" "c_string nm" "objects db x = Some ob"
  shows "\<exists>h. db_find_property db x nm False = Some (h, None) \<and>
    (h_ptr h = Null \<longleftrightarrow> bi_lookup nm = None \<and> (\<forall>d \<in> set (all_defs db x). key d \<noteq> fold_case nm))"
proof (cases "bi_lookup nm")
  case (Some p)
  then show ?thesis by (simp add: db_find_property_bi)
next
  case None
  show ?thesis
  proof (cases "index_of (\<lambda>d. key d = fold_case nm) (all_defs db x)")
    case None
    then show ?thesis
      using db_find_property_none[OF assms(1,2) \<open>bi_lookup nm = None\<close> None, of False] \<open>bi_lookup nm = None\<close>
      by (simp add: index_of_None)
  next
    case (Some i)
    then have "\<exists>d \<in> set (all_defs db x). key d = fold_case nm" by (auto simp: index_of_Some)
    moreover obtain definer where "db_find_property db x nm False =
        Some (\<lparr>h_built_in = BP_NONE, h_definer = definer, h_ptr = Slot x i\<rparr>, None)"
      using db_find_property_slot[OF assms(1,2) \<open>bi_lookup nm = None\<close> assms(3) Some] by fastforce
    ultimately show ?thesis by auto
  qed
qed

lemma below_key:
  assumes "layout_ok db" "c_string nm" "objects db r = Some rob"
  shows "property_defined_at_or_below db nm (str_hash nm) r =
    Some (\<exists>y \<in> subtree db r. \<exists>d \<in> set (defs_of db y). key d = fold_case nm)"
proof -
  have "propdef_matches (str_hash nm) nm d \<longleftrightarrow> key d = fold_case nm" if "d \<in> set (defs_of db y)" for d y
  proof -
    from that obtain ob where ob: "objects db y = Some ob" "d \<in> set (ob_propdefs ob)"
      using defs_of_mem by blast
    then have "def_ok d" using layout_obj[OF assms(1) ob(1)] by (simp add: obj_layout_def)
    then show ?thesis using matches_key assms(2) by blast
  qed
  then show ?thesis
    using property_defined_at_or_below[OF layout_hier[OF assms(1)] assms(3), of nm "str_hash nm"] by auto
qed

lemma db_add_propdef_eq:
  assumes L: "layout_ok db" and r: "objects db r = Some rob" and nm: "c_string nm"
  shows "db_add_propdef db r nm v owner flags = Some (if fresh_prop db r nm
    then (True, added db r rob nm \<lparr>pv_var = v, pv_owner = owner, pv_perms = ucast flags\<rparr>)
    else (False, db))"
proof -
  obtain h where h: "db_find_property db r nm False = Some (h, None)"
    "h_ptr h = Null \<longleftrightarrow> bi_lookup nm = None \<and> (\<forall>d \<in> set (all_defs db r). key d \<noteq> fold_case nm)"
    using find_property_null[OF L nm r] by blast
  have b: "property_defined_at_or_below db nm (str_hash nm) r =
      Some (\<exists>y \<in> subtree db r. \<exists>d \<in> set (defs_of db y). key d = fold_case nm)"
    using below_key[OF L nm r] .
  have test: "(if h_ptr h \<noteq> Null then Some True
      else property_defined_at_or_below db nm (str_hash nm) r) = Some (\<not> fresh_prop db r nm)"
    unfolding b using h(2) by (auto simp: fresh_prop_def)
  show ?thesis
    using h(1) test r layout_find[OF L]
      insert_prop_recursively_eq[OF L r, where d = "dbpriv_new_propdef nm"]
    by (simp add: db_add_propdef_def added_def)
qed

lemma added_layout:
  assumes "layout_ok db" "objects db r = Some rob" "c_string nm" "fresh_prop db r nm" "pv_var pv \<noteq> VClear"
  shows "layout_ok (added db r rob nm pv)"
  unfolding added_def
  by (rule add_prop_layout[OF assms(1,2)]) (use assms(3-) in \<open>auto simp: fresh_prop_def\<close>)

section \<open>What an added definition changes\<close>

lemma added_ancs:
  assumes "layout_ok db" "objects db r = Some rob"
  shows "ancs (added db r rob nm pv) x = ancs db x"
proof -
  have "same_shape db (added db r rob nm pv)"
    unfolding added_def by (intro keep_app same_shape_put[OF assms(2)]) simp_all
  then show ?thesis using same_shape_ancs[OF layout_hier[OF assms(1)]] by blast
qed

lemma added_slots:
  assumes L: "layout_ok db" and r: "objects db r = Some rob" and nm: "c_string nm"
    and fresh: "fresh_prop db r nm" and x: "objects db x = Some ob"
  shows "slot_map (added db r rob nm pv) x = (if x \<in> subtree db r
      then (slot_map db x)(fold_case nm \<mapsto> new_slot r pv x ob) else slot_map db x)"
proof -
  let ?d = "dbpriv_new_propdef nm" and ?pos = "length (ob_propdefs rob)"
  note hier = layout_hier[OF L]
  define db1 where "db1 = put_object db r (Some (add_def ?d rob))"
  have ss: "same_shape db db1" unfolding db1_def by (rule same_shape_put[OF r]) simp
  have hier1: "hier_ok db1" using same_shape_hier[OF ss hier] .
  have ad: "all_defs (added db r rob nm pv) x = all_defs db1 x"
    unfolding added_def using all_defs_app(2)[OF hier1 add_slot_keeps(1)] by (simp add: db1_def)
  have len: "length (all_defs db x) = length (ob_propval ob)"
    using layout_obj[OF L x] by (simp add: obj_layout_def)
  have ob1: "objects db1 x = Some (if x = r then add_def ?d ob else ob)"
    using x r by (auto simp: db1_def)
  note puts = all_defs_put[OF hier r _ x, of "add_def ?d rob", folded db1_def, OF shape_add_def]
  show ?thesis
  proof (cases "x \<in> subtree db r")
    case False
    then have "x \<noteq> r" by auto
    then show ?thesis using False puts(3) ad ob1 x
      by (simp add: slot_map_def added_def flip: db1_def)
  next
    case True
    let ?n = "length (path_defs db r x) + ?pos"
    have defs: "all_defs db1 x = insert_at ?n ?d (all_defs db x)"
      using puts(1,2)[OF True] by (simp add: insert_at_def)
    have k: "fold_case nm \<notin> fst ` set (zip (map key (all_defs db x)) (ob_propval ob))"
      using path_defs_subtree[OF hier x True] fresh puts(2)[OF True] all_defs_Some[OF hier r]
      by (fastforce simp: fresh_prop_def dest: set_zip_leftD)
    have "objects (added db r rob nm pv) x = Some ((if x = r then add_def ?d ob else ob)
        \<lparr>ob_propval := insert_at ?n (new_slot r pv x ob) (ob_propval ob)\<rparr>)"
      using True ob1 by (simp add: added_def add_slot_def new_slot_def slot_at_def flip: db1_def)
    moreover have "map key (insert_at ?n ?d (all_defs db x)) =
        insert_at ?n (fold_case nm) (map key (all_defs db x))"
      by (simp add: insert_at_def take_map drop_map)
    ultimately have "slot_map (added db r rob nm pv) x =
        map_of (insert_at ?n (fold_case nm, new_slot r pv x ob) (zip (map key (all_defs db x)) (ob_propval ob)))"
      using len by (simp add: slot_map_def ad defs zip_insert_at)
    then show ?thesis using map_of_insert_at[OF k] True x by (simp add: slot_map_def)
  qed
qed

lemma added_other_value:
  assumes L: "layout_ok db" and r: "objects db r = Some rob" and nm: "c_string nm"
    and fresh: "fresh_prop db r nm" and v: "pv_var pv \<noteq> VClear" and x: "objects db x \<noteq> None"
    and other: "fold_case nm' \<noteq> fold_case nm"
  shows "inherited_value (added db r rob nm pv) nm' x = inherited_value db nm' x"
proof (rule inherited_value_cong[OF added_ancs[OF L r]])
  fix y assume "y \<in> set (ancs db x)"
  then obtain ob where y: "objects db y = Some ob"
    using ancs_subtree[OF layout_hier[OF L] x] by auto
  show "map_option pv_var (prop_slot (added db r rob nm pv) nm' y) = map_option pv_var (prop_slot db nm' y)"
    using added_slots[OF L r nm fresh y] other
      prop_slot_map[OF L] prop_slot_map[OF added_layout[OF L r nm fresh v]] by simp
qed

lemma slot_at_var [simp]: "pv_var (slot_at ob pv) = pv_var pv"
  by (simp add: slot_at_def)

lemma fresh_slot_None:
  assumes "layout_ok db" "fresh_prop db r nm" "objects db r = Some rob" "objects db x = Some ob"
    "r \<in> subtree db x"
  shows "slot_map db x (fold_case nm) = None"
proof -
  have "all_defs db r = path_defs db x r @ all_defs db x"
    using all_defs_split[OF layout_hier[OF assms(1)] assms(3,5)] .
  then have "\<forall>d \<in> set (all_defs db x). key d \<noteq> fold_case nm"
    using assms(2) by (auto simp: fresh_prop_def)
  then have "fold_case nm \<notin> key ` set (all_defs db x)" by (metis imageE)
  then have "fold_case nm \<notin> fst ` set (zip (map key (all_defs db x)) (ob_propval ob))"
    by (auto dest: set_zip_leftD)
  then show ?thesis using assms(4) by (simp add: slot_map_def map_of_eq_None_iff)
qed

text \<open>Every object below the definer has the new value.\<close>

lemma added_value:
  assumes L: "layout_ok db" and r: "objects db r = Some rob" and nm: "c_string nm"
    and fresh: "fresh_prop db r nm" and v: "pv_var pv \<noteq> VClear" and x: "objects db x = Some ob"
    and sub: "x \<in> subtree db r"
  shows "inherited_value (added db r rob nm pv) nm x = Some (pv_var pv)"
  using layout_hier[OF L] x sub
proof (induction rule: hier_induct_up)
  case (obj x ob)
  let ?db = "added db r rob nm pv"
  note hier = layout_hier[OF L]
  have slot: "prop_slot ?db nm x = Some (new_slot r pv x ob)"
    using prop_slot_map[OF added_layout[OF L r nm fresh v]] added_slots[OF L r nm fresh obj.hyps(1)]
      obj.prems by simp
  have an: "ancs ?db x = x # ancs ?db (ob_parent ob)"
    using added_ancs[OF L r] ancs_Some[OF hier obj.hyps(1)] by simp
  show ?case
  proof (cases "x = r")
    case True
    then show ?thesis using v an slot
      by (simp add: inherited_value_def List.map_filter_simps new_slot_def)
  next
    case False
    from subtree_parent[OF obj.prems False] obtain p
      where p: "(x, p) \<in> parent_rel db" "p \<in> subtree db r" by blast
    then have "ob_parent ob = p" using parent_rel_Some[OF obj.hyps(1)] by simp
    moreover obtain q where q: "objects db p = Some q" using hier_okD(4)[OF hier p(1)] by auto
    ultimately have "inherited_value ?db nm (ob_parent ob) = Some (pv_var pv)"
      using obj.IH p(2) by blast
    then show ?thesis using False an slot
      by (simp add: inherited_value_def List.map_filter_simps new_slot_def)
  qed
qed

section \<open>Deleting a definition\<close>

definition del_slot :: "db \<Rightarrow> objid \<Rightarrow> nat \<Rightarrow> objid \<Rightarrow> obj \<Rightarrow> obj" where
  "del_slot db r pos x ob = ob\<lparr>ob_propval := delete_at (length (path_defs db r x) + pos) (ob_propval ob)\<rparr>"

lemma del_slot_keeps [simp]: "keeps_defs (del_slot db r pos)" "keeps_hier (del_slot db r pos)"
  by (simp_all add: outer_def keeps_defs_def keeps_hier_def del_slot_def)

lemma shape_drop_def [simp]: "shape (drop_def i ob) = shape ob"
  by (simp add: shape_def drop_def_def Let_def)

lemma drop_def_fields [simp]:
  "ob_propdefs (drop_def i ob) = delete_at i (ob_propdefs ob)" "ob_propval (drop_def i ob) = ob_propval ob"
  "ob_child (drop_def i ob) = ob_child ob" "ob_parent (drop_def i ob) = ob_parent ob"
  "ob_owner (drop_def i ob) = ob_owner ob"
  by (simp_all add: drop_def_def Let_def)

lemma drop_def_room: "length (ob_propdefs ob) \<le> ob_max_props ob \<Longrightarrow> i < length (ob_propdefs ob) \<Longrightarrow>
    length (delete_at i (ob_propdefs ob)) \<le> ob_max_props (drop_def i ob)"
  by (auto simp: drop_def_def Let_def)

definition deleted :: "db \<Rightarrow> objid \<Rightarrow> obj \<Rightarrow> nat \<Rightarrow> db" where
  "deleted db r rob i = app (del_slot db r i) (subtree db r) (put_object db r (Some (drop_def i rob)))"

lemma dropped_defs:
  assumes L: "layout_ok db" and r: "objects db r = Some rob" and i: "i < length (ob_propdefs rob)"
    and x: "objects db x = Some ob"
  shows "all_defs (put_object db r (Some (drop_def i rob))) x = (if x \<in> subtree db r
      then delete_at (length (path_defs db r x) + i) (all_defs db x) else all_defs db x)"
    "x \<in> subtree db r \<Longrightarrow> length (path_defs db r x) + i < length (all_defs db x) \<and>
      all_defs db x ! (length (path_defs db r x) + i) = ob_propdefs rob ! i"
  using all_defs_put[OF layout_hier[OF L] r _ x, of "drop_def i rob", OF shape_drop_def] i
  by (auto simp: delete_at_append delete_at_append_left nth_append)

lemma remove_prop_recursively_eq:
  assumes L: "layout_ok db" and r: "objects db r = Some rob" and i: "i < length (ob_propdefs rob)"
  defines "db1 \<equiv> put_object db r (Some (drop_def i rob))"
  shows "remove_prop_recursively db1 r i = Some (deleted db r rob i)"
proof -
  let ?U = "del_slot db r i"
  note hier = layout_hier[OF L]
  have ss: "same_shape db db1" unfolding db1_def by (rule same_shape_put[OF r]) simp
  have hier1: "hier_ok db1" using same_shape_hier[OF ss hier] .
  have r1: "objects db1 r = Some (drop_def i rob)" by (simp add: db1_def)
  have size: "length (ob_propval ob) = Suc (length (all_defs (app ?U D db1) c))"
      "length (path_defs db r c) + i < length (ob_propval ob)"
    if c: "objects db1 c = Some ob" "c \<in> subtree db r" for D c ob
  proof -
    obtain ob0 where ob0: "objects db c = Some ob0" "ob_propval ob0 = ob_propval ob"
      using c(1) r by (cases "c = r") (auto simp: db1_def)
    have "length (ob_propval ob0) = length (all_defs db c)"
      using layout_obj[OF L ob0(1)] by (simp add: obj_layout_def)
    then show "length (ob_propval ob) = Suc (length (all_defs (app ?U D db1) c))"
      "length (path_defs db r c) + i < length (ob_propval ob)"
      using all_defs_app(2)[OF hier1, of ?U] dropped_defs[OF L r i ob0(1)] c(2) ob0(2)
      by (auto simp: db1_def)
  qed
  have rem: "remove_prop (app ?U D db1) c (length (path_defs db r c) + i) =
      Some (app ?U (insert c D) db1)"
    if c: "objects db1 c = Some ob" "c \<in> subtree db r" "c \<notin> D" for D c ob
  proof -
    have "remove_prop (app ?U D db1) c (length (path_defs db r c) + i) =
        Some (put_object (app ?U D db1) c (Some (?U c ob)))"
      using remove_prop_eq[OF all_defs_app(1)[OF hier1, where U = ?U and D = D], where c = c and ob = ob]
        size[OF c(1,2)] c by (simp add: del_slot_def)
    then show ?thesis using app_insert[OF c(1,3)] by simp
  qed
  have first: "remove_prop db1 r i = Some (app ?U {r} db1)"
    using rem[OF r1, of "{}"] path_defs_self[OF hier r] by simp
  have "for_subtree remove_visit (app ?U {r} db1)
      (ob_child (drop_def i rob)) (length (path_defs db r r) + i) = Some (app ?U (subtree db1 r) db1)"
  proof (rule for_subtree_below[OF hier1 _ r1, where A = "\<lambda>x. length (path_defs db r x) + i"])
    fix D c p ob
    assume c: "c \<notin> D" "p \<in> D" "D \<subseteq> subtree db1 r" "objects db1 c = Some ob" "ob_parent ob = p"
      "p \<noteq> NOTHING" "c \<in> subtree db1 r"
    then have sub: "c \<in> subtree db r" "p \<in> subtree db r" using same_shape_links(5)[OF ss] by auto
    have cr: "c \<noteq> r"
      using c sub subtree_acyclic[OF hier_okD(2)[OF hier1], of c p] same_shape_links(5)[OF ss]
      by (auto simp: parent_rel_Some)
    then have "objects db c = Some ob" using c(4) by (simp add: db1_def)
    from path_defs_child[OF hier this c(5,6) sub(2)]
    show "remove_visit (app ?U D db1) c (length (path_defs db r p) + i) =
        Some (app ?U (insert c D) db1, length (path_defs db r c) + i)"
      using rem[OF c(4) sub(1) c(1)] c(1,4) table_ok_find[OF hier_okD(1)[OF hier1], of c]
      by (simp add: remove_visit_def add.assoc)
  qed simp
  then show ?thesis
    using first r1 path_defs_self[OF hier r] table_ok_find[OF hier_okD(1)[OF hier1], of r]
      same_shape_links(5)[OF ss]
    by (simp add: remove_prop_recursively_def del_slot_def deleted_def flip: db1_def)
qed

lemma deleted_layout:
  assumes L: "layout_ok db" and r: "objects db r = Some rob" and i: "i < length (ob_propdefs rob)"
  shows "layout_ok (deleted db r rob i)"
proof -
  let ?U = "del_slot db r i"
  define db1 where "db1 = put_object db r (Some (drop_def i rob))"
  note hier = layout_hier[OF L]
  have ss: "same_shape db db1" unfolding db1_def by (rule same_shape_put[OF r]) simp
  have hier1: "hier_ok db1" using same_shape_hier[OF ss hier] .
  note ad = all_defs_app(2)[OF hier1 del_slot_keeps(1)]
  have "obj_layout (app ?U (subtree db r) db1) x ob'"
    if "objects (app ?U (subtree db r) db1) x = Some ob'" for x ob'
  proof -
    from table_app[OF that] obtain ob1 where ob1: "objects db1 x = Some ob1"
      "ob' = (if x \<in> subtree db r then ?U x ob1 else ob1)" by blast
    obtain ob where ob: "objects db x = Some ob" "ob1 = (if x = r then drop_def i ob else ob)" "x = r \<longrightarrow> ob = rob"
      using ob1(1) r by (cases "x = r") (auto simp: db1_def)
    have lay: "obj_layout db x ob" using layout_obj[OF L ob(1)] .
    note dd = dropped_defs[OF L r i ob(1), folded db1_def]
    show ?thesis
    proof (cases "x \<in> subtree db r")
      case False
      then have "x \<noteq> r" by auto
      then show ?thesis using lay ob ob1 False dd(1) ad by (simp add: obj_layout_def)
    next
      case True
      let ?n = "length (path_defs db r x) + i"
      have new: "ob' = ?U x ob1" using ob1(2) True by simp
      have n: "?n < length (ob_propval ob)" "length (ob_propval ob) = length (all_defs db x)"
        using dd(2)[OF True] lay by (simp_all add: obj_layout_def)
      have pv: "ob_propval ob1 = ob_propval ob" "ob_propdefs ob' = ob_propdefs ob1"
        "ob_max_props ob' = ob_max_props ob1" "ob_propval ob' = delete_at ?n (ob_propval ob)"
        using ob(2) new by (simp_all add: del_slot_def)
      have 1: "distinct (map key (all_defs db1 x))"
        using lay dd(1) True by (simp add: obj_layout_def map_delete_at distinct_delete_at)
      have 2: "length (ob_propval ob') = length (all_defs db1 x)"
        using n dd(1) True pv by simp
      have 3: "(\<forall>d \<in> set (ob_propdefs ob'). def_ok d) \<and> length (ob_propdefs ob') \<le> ob_max_props ob'"
        using lay ob pv drop_def_room[of ob i] i set_delete_at[of i "ob_propdefs ob"]
        by (cases "x = r") (auto simp: obj_layout_def simp del: length_delete_at)
      have 4: "pv_var (ob_propval ob' ! j) \<noteq> VClear" if j: "j < length (ob_propdefs ob')" for j
      proof (cases "x = r")
        case True
        then have "j < length (ob_propdefs ob) - 1" "path_defs db r x = []" "ob = rob"
          using j ob pv path_defs_self[OF hier r] i by auto
        moreover from this have "ob_propval ob' ! j = (if j < i then ob_propval rob ! j else ob_propval rob ! Suc j)"
          using n pv i all_defs_Some[OF hier r] True nth_delete_at[of i "ob_propval rob" j] by simp
        ultimately show ?thesis using lay by (auto simp: obj_layout_def)
      next
        case False
        then have "j < length (path_defs db r x)" "j < length (ob_propdefs ob)"
          using path_defs_own[OF hier ob(1) False] j pv ob by simp_all
        then show ?thesis
          using lay n pv by (auto simp: obj_layout_def nth_delete_at)
      qed
      show ?thesis using 1 2 3 4 ad by (simp add: obj_layout_def)
    qed
  qed
  moreover have "hier_ok (app ?U (subtree db r) db1)"
    using all_defs_app(1)[OF hier1 del_slot_keeps(1)] .
  ultimately show ?thesis by (simp add: layout_ok_def deleted_def flip: db1_def)
qed

lemma db_delete_propdef_eq:
  assumes L: "layout_ok db" and r: "objects db r = Some rob" and nm: "c_string nm"
  shows "db_delete_propdef db r nm =
    (case index_of (\<lambda>d. key d = fold_case nm) (ob_propdefs rob) of
       None \<Rightarrow> Some (False, db)
     | Some i \<Rightarrow> Some (True, deleted db r rob i))"
proof -
  have "index_of (propdef_matches (str_hash nm) nm) (ob_propdefs rob) =
      index_of (\<lambda>d. key d = fold_case nm) (ob_propdefs rob)"
    using layout_obj[OF L r] matches_key nm by (intro index_of_cong) (auto simp: obj_layout_def)
  moreover have "remove_prop_recursively (put_object db r (Some (drop_def i rob))) r i =
      Some (deleted db r rob i)"
    if "index_of (\<lambda>d. key d = fold_case nm) (ob_propdefs rob) = Some i" for i
    using that remove_prop_recursively_eq[OF L r] by (simp add: index_of_Some)
  ultimately show ?thesis
    using r layout_find[OF L] by (simp add: db_delete_propdef_def split: option.splits)
qed

end
