(* ===== verification/Db_Layout_Laws.thy ===== *)
theory Db_Layout_Laws
  imports Db_Layout_Ops
begin

text \<open>
  Laws of the property operations: a deleted definition takes its slots away and no others,
  deleting what was added gives the database back, renaming and writing through a handle keep
  the layout.
\<close>

section \<open>What a deleted definition changes\<close>

lemma deleted_slots:
  assumes L: "layout_ok db" and r: "objects db r = Some rob" and i: "i < length (ob_propdefs rob)"
    and x: "objects db x = Some ob"
  shows "slot_map (deleted db r rob i) x = (if x \<in> subtree db r
      then (slot_map db x)(key (ob_propdefs rob ! i) := None) else slot_map db x)"
proof -
  note hier = layout_hier[OF L]
  define db1 where "db1 = put_object db r (Some (drop_def i rob))"
  have ss: "same_shape db db1" unfolding db1_def by (rule same_shape_put[OF r]) simp
  have hier1: "hier_ok db1" using same_shape_hier[OF ss hier] .
  have ad: "all_defs (deleted db r rob i) x = all_defs db1 x"
    unfolding deleted_def using all_defs_app(2)[OF hier1 del_slot_keeps(1)] by (simp add: db1_def)
  have lay: "length (all_defs db x) = length (ob_propval ob)" "distinct (map key (all_defs db x))"
    using layout_obj[OF L x] by (simp_all add: obj_layout_def)
  have ob1: "objects db1 x = Some (if x = r then drop_def i ob else ob)"
    using x r by (auto simp: db1_def)
  note dd = dropped_defs[OF L r i x, folded db1_def]
  show ?thesis
  proof (cases "x \<in> subtree db r")
    case False
    then have "x \<noteq> r" by auto
    then show ?thesis using False dd(1) ad ob1 x
      by (simp add: slot_map_def deleted_def flip: db1_def)
  next
    case True
    let ?n = "length (path_defs db r x) + i" and ?zs = "zip (map key (all_defs db x)) (ob_propval ob)"
    have "objects (deleted db r rob i) x = Some ((if x = r then drop_def i ob else ob)
        \<lparr>ob_propval := delete_at ?n (ob_propval ob)\<rparr>)"
      using True ob1 by (simp add: deleted_def del_slot_def flip: db1_def)
    then have "slot_map (deleted db r rob i) x = map_of (delete_at ?n ?zs)"
      using lay dd(1) True by (simp add: slot_map_def ad map_delete_at zip_delete_at)
    also have "\<dots> = (map_of ?zs)(fst (?zs ! ?n) := None)"
      using dd(2)[OF True] lay by (intro map_of_delete_at) simp_all
    also have "fst (?zs ! ?n) = key (ob_propdefs rob ! i)"
      using dd(2)[OF True] lay by simp
    finally have "slot_map (deleted db r rob i) x = (map_of ?zs)(key (ob_propdefs rob ! i) := None)" .
    moreover have "slot_map db x = map_of ?zs" using x by (simp add: slot_map_def)
    ultimately show ?thesis using True by simp
  qed
qed

lemma deleted_ancs:
  assumes "layout_ok db" "objects db r = Some rob"
  shows "ancs (deleted db r rob i) x = ancs db x"
proof -
  have "same_shape db (deleted db r rob i)"
    unfolding deleted_def by (intro keep_app same_shape_put[OF assms(2)]) simp_all
  then show ?thesis using same_shape_ancs[OF layout_hier[OF assms(1)]] by blast
qed

lemma deleted_other_value:
  assumes L: "layout_ok db" and r: "objects db r = Some rob" and i: "i < length (ob_propdefs rob)"
    and x: "objects db x \<noteq> None" and other: "fold_case nm \<noteq> key (ob_propdefs rob ! i)"
  shows "inherited_value (deleted db r rob i) nm x = inherited_value db nm x"
proof (rule inherited_value_cong[OF deleted_ancs[OF L r]])
  fix y assume "y \<in> set (ancs db x)"
  then obtain ob where y: "objects db y = Some ob"
    using ancs_subtree[OF layout_hier[OF L] x] by auto
  show "map_option pv_var (prop_slot (deleted db r rob i) nm y) = map_option pv_var (prop_slot db nm y)"
    using deleted_slots[OF L r i y] other
      prop_slot_map[OF L] prop_slot_map[OF deleted_layout[OF L r i]] by simp
qed

section \<open>Deleting what was added\<close>

lemma path_defs_cong:
  assumes "ancs db' x = ancs db x" "\<And>y. y \<noteq> r \<Longrightarrow> defs_of db' y = defs_of db y"
  shows "path_defs db' r x = path_defs db r x"
proof -
  have "map (defs_of db') (takeWhile (\<lambda>y. y \<noteq> r) (ancs db x)) =
      map (defs_of db) (takeWhile (\<lambda>y. y \<noteq> r) (ancs db x))"
    by (rule map_cong[OF refl], rule assms(2)) (auto dest: set_takeWhileD)
  then show ?thesis by (simp only: path_defs_def assms(1))
qed

lemma added_path_defs:
  assumes "layout_ok db" "objects db r = Some rob"
  shows "path_defs (added db r rob nm pv) r x = path_defs db r x"
proof (rule path_defs_cong[OF added_ancs[OF assms]])
  fix y assume "y \<noteq> r"
  then show "defs_of (added db r rob nm pv) y = defs_of db y"
    unfolding added_def defs_of_app[OF add_slot_keeps(1)] by (simp add: defs_of_def)
qed

lemma drop_def_shape:
  "drop_def i ob = ob\<lparr>ob_propdefs := delete_at i (ob_propdefs ob), ob_max_props := m\<rparr>"
  if "m = ob_max_props (drop_def i ob)"
  using that by (simp add: drop_def_def Let_def)

lemma add_def_shape: "\<exists>m. add_def d ob = ob\<lparr>ob_propdefs := ob_propdefs ob @ [d], ob_max_props := m\<rparr>"
  by (rule exI[of _ "ob_max_props (add_def d ob)"]) (simp add: add_def_def Let_def)

text \<open>The object \<open>r\<close> keeps the room that the definition was given.\<close>

lemma delete_added:
  assumes L: "layout_ok db" and r: "objects db r = Some rob" and nm: "c_string nm"
    and fresh: "fresh_prop db r nm" and v: "pv_var pv \<noteq> VClear"
  shows "\<exists>db' m. db_delete_propdef (added db r rob nm pv) r nm = Some (True, db') \<and>
    (\<forall>x. objects db' x = (if x = r then Some (rob\<lparr>ob_max_props := m\<rparr>) else objects db x))"
proof -
  let ?d = "dbpriv_new_propdef nm" and ?n = "length (ob_propdefs rob)" and ?db = "added db r rob nm pv"
  note hier = layout_hier[OF L]
  have L1: "layout_ok ?db" using added_layout[OF L r nm fresh v] .
  let ?rob1 = "add_slot db r ?n pv r (add_def ?d rob)"
  have r1: "objects ?db r = Some ?rob1" by (simp add: added_def)
  have pd: "ob_propdefs ?rob1 = ob_propdefs rob @ [?d]" by (simp add: add_slot_def)
  have "index_of (\<lambda>d. key d = fold_case nm) (ob_propdefs rob) = None"
    using fresh all_defs_Some[OF hier r] by (auto simp: fresh_prop_def index_of_None)
  then have idx: "index_of (\<lambda>d. key d = fold_case nm) (ob_propdefs ?rob1) = Some ?n"
    unfolding pd by (simp add: index_of_append)
  have sub: "subtree ?db r = subtree db r"
    unfolding added_def by (intro same_shape_links(5) keep_app same_shape_put[OF r]) simp_all
  have val: "delete_at (length (path_defs db r x) + ?n)
      (insert_at (length (path_defs db r x) + ?n) w (ob_propval ob)) = ob_propval ob"
    if x: "x \<in> subtree db r" "objects db x = Some ob" for x ob w
  proof (rule delete_insert_at)
    show "length (path_defs db r x) + ?n \<le> length (ob_propval ob)"
      using all_defs_put(2)[OF hier r refl x(2,1)] layout_obj[OF L x(2)]
      by (simp add: obj_layout_def)
  qed
  have ob_id: "ob\<lparr>ob_propval := ob_propval ob\<rparr> = ob" for ob by simp
  have "objects (deleted ?db r ?rob1 ?n) x =
      (if x = r then Some (rob\<lparr>ob_max_props := ob_max_props (drop_def ?n ?rob1)\<rparr>) else objects db x)" for x
  proof (cases "x \<in> subtree db r")
    case False
    then have "x \<noteq> r" by auto
    then show ?thesis using False sub by (simp add: deleted_def added_def)
  next
    case True
    show ?thesis
    proof (cases "x = r")
      case True
      define m where "m = ob_max_props (drop_def ?n ?rob1)"
      obtain m1 where m1: "add_def ?d rob = rob\<lparr>ob_propdefs := ob_propdefs rob @ [?d], ob_max_props := m1\<rparr>"
        using add_def_shape by blast
      have "delete_at ?n (ob_propdefs rob @ [?d]) = ob_propdefs rob" by (simp add: delete_at_def)
      then have "del_slot ?db r ?n r (drop_def ?n ?rob1) = rob\<lparr>ob_max_props := m\<rparr>"
        unfolding drop_def_shape[OF m_def] using val[of r rob] r
        by (simp add: del_slot_def add_slot_def m1 added_path_defs[OF L r])
      moreover have "objects (deleted ?db r ?rob1 ?n) r =
          Some (del_slot ?db r ?n r (drop_def ?n ?rob1))"
        by (simp add: deleted_def)
      ultimately show ?thesis using True by (simp add: m_def)
    next
      case False
      then show ?thesis using True val sub added_path_defs[OF L r] ob_id
        by (cases "objects db x") (simp_all add: deleted_def del_slot_def added_def add_slot_def)
    qed
  qed
  moreover have "db_delete_propdef ?db r nm = Some (True, deleted ?db r ?rob1 ?n)"
    unfolding db_delete_propdef_eq[OF L1 r1 nm] idx by simp
  ultimately show ?thesis by blast
qed

section \<open>Renaming\<close>

definition renamed :: "db \<Rightarrow> objid \<Rightarrow> obj \<Rightarrow> nat \<Rightarrow> string \<Rightarrow> db" where
  "renamed db r rob i new =
     put_object db r (Some (rob\<lparr>ob_propdefs := (ob_propdefs rob)[i := dbpriv_new_propdef new]\<rparr>))"

lemma renamed_layout:
  assumes L: "layout_ok db" and r: "objects db r = Some rob" and i: "i < length (ob_propdefs rob)"
    and new: "c_string new"
    and fresh: "fresh_prop db r new \<or> fold_case new = key (ob_propdefs rob ! i)"
  shows "layout_ok (renamed db r rob i new)"
proof -
  let ?d = "dbpriv_new_propdef new"
  let ?rob1 = "rob\<lparr>ob_propdefs := (ob_propdefs rob)[i := ?d]\<rparr>"
  note hier = layout_hier[OF L]
  have sh: "shape ?rob1 = shape rob" by (simp add: shape_def)
  have ss: "same_shape db (renamed db r rob i new)"
    unfolding renamed_def using same_shape_put[OF r sh] .
  have "obj_layout (renamed db r rob i new) x ob'"
    if ob': "objects (renamed db r rob i new) x = Some ob'" for x ob'
  proof -
    obtain ob where ob: "objects db x = Some ob" "ob' = (if x = r then ?rob1 else ob)" "x = r \<longrightarrow> ob = rob"
      using ob' r by (cases "x = r") (auto simp: renamed_def)
    have lay: "obj_layout db x ob" using layout_obj[OF L ob(1)] .
    note puts = all_defs_put[OF hier r sh ob(1), folded renamed_def]
    show ?thesis
    proof (cases "x \<in> subtree db r")
      case False
      then have "x \<noteq> r" by auto
      then show ?thesis using lay ob False puts(3) by (simp add: obj_layout_def)
    next
      case True
      let ?n = "length (path_defs db r x) + i"
      have defs: "all_defs (renamed db r rob i new) x = (all_defs db x)[?n := ?d]"
        using puts(1,2)[OF True] i by (simp add: list_update_append)
      have n: "?n < length (all_defs db x)" "all_defs db x ! ?n = ob_propdefs rob ! i"
        using puts(2)[OF True] i by (simp_all add: nth_append)
      have dist: "distinct (map key (all_defs db x))" using lay by (simp add: obj_layout_def)
      have "distinct ((map key (all_defs db x))[?n := fold_case new])"
        using fresh
      proof
        assume fr: "fresh_prop db r new"
        then have "fold_case new \<notin> set (map key (all_defs db x))"
          using path_defs_subtree[OF hier ob(1) True] puts(2)[OF True] all_defs_Some[OF hier r]
          by (fastforce simp: fresh_prop_def)
        then show ?thesis using dist by (simp add: distinct_list_update)
      next
        assume "fold_case new = key (ob_propdefs rob ! i)"
        then have "(map key (all_defs db x))[?n := fold_case new] = map key (all_defs db x)"
          using n by (metis length_map list_update_id nth_map)
        then show ?thesis using dist by simp
      qed
      then have "distinct (map key (all_defs (renamed db r rob i new) x))"
        by (simp add: defs map_update)
      moreover have "\<forall>d \<in> set (ob_propdefs ob'). def_ok d"
        using lay ob new set_update_subset_insert[of "ob_propdefs rob" i ?d]
        by (auto simp: obj_layout_def)
      ultimately show ?thesis using lay ob defs by (auto simp: obj_layout_def)
    qed
  qed
  then show ?thesis using same_shape_hier[OF ss hier] by (simp add: layout_ok_def)
qed

lemma db_rename_propdef_eq:
  assumes L: "layout_ok db" and r: "objects db r = Some rob" and nm: "c_string old" "c_string new"
  shows "db_rename_propdef db r old new =
    (case index_of (\<lambda>d. key d = fold_case old) (ob_propdefs rob) of
       None \<Rightarrow> Some (False, db)
     | Some i \<Rightarrow> if fold_case old = fold_case new \<or> fresh_prop db r new
                then Some (True, renamed db r rob i new) else Some (False, db))"
proof -
  have idx: "index_of (propdef_matches (str_hash old) old) (ob_propdefs rob) =
      index_of (\<lambda>d. key d = fold_case old) (ob_propdefs rob)"
    using layout_obj[OF L r] matches_key nm by (intro index_of_cong) (auto simp: obj_layout_def)
  obtain h where h: "db_find_property db r new False = Some (h, None)"
    "h_ptr h = Null \<longleftrightarrow> bi_lookup new = None \<and> (\<forall>d \<in> set (all_defs db r). key d \<noteq> fold_case new)"
    using find_property_null[OF L nm(2) r] by blast
  have test: "(if h_ptr h \<noteq> Null then Some True
      else property_defined_at_or_below db new (str_hash new) r) = Some (\<not> fresh_prop db r new)"
    unfolding below_key[OF L nm(2) r] using h(2) by (auto simp: fresh_prop_def)
  show ?thesis
    using idx h(1) test r layout_find[OF L] mystrcasecmp_eq_0[OF nm]
    by (auto simp: db_rename_propdef_def renamed_def split: option.splits)
qed

section \<open>Summaries\<close>

lemma add_propdef_cases:
  assumes "layout_ok db" "objects db r = Some rob" "c_string nm" "v \<noteq> VClear"
  shows "if fresh_prop db r nm
    then \<exists>db'. db_add_propdef db r nm v owner flags = Some (True, db') \<and> layout_ok db' \<and>
      (\<forall>x ob. objects db x = Some ob \<longrightarrow> x \<in> subtree db r \<longrightarrow> inherited_value db' nm x = Some v) \<and>
      (\<forall>x nm'. objects db x \<noteq> None \<longrightarrow> fold_case nm' \<noteq> fold_case nm \<longrightarrow>
        inherited_value db' nm' x = inherited_value db nm' x)
    else db_add_propdef db r nm v owner flags = Some (False, db)"
proof (cases "fresh_prop db r nm")
  case True
  define pv where "pv = \<lparr>pv_var = v, pv_owner = owner, pv_perms = ucast flags\<rparr>"
  have pv: "pv_var pv \<noteq> VClear" "pv_var pv = v" using assms(4) by (simp_all add: pv_def)
  have "db_add_propdef db r nm v owner flags = Some (True, added db r rob nm pv)"
    using db_add_propdef_eq[OF assms(1-3), of v owner flags] True by (simp add: pv_def)
  moreover note added_layout[OF assms(1-3) True pv(1)] added_value[OF assms(1-3) True pv(1), unfolded pv(2)]
    added_other_value[OF assms(1-3) True pv(1)]
  ultimately show ?thesis using True by auto
next
  case False
  then show ?thesis using db_add_propdef_eq[OF assms(1-3), of v owner flags] by simp
qed

lemma delete_propdef_cases:
  assumes L: "layout_ok db" and r: "objects db r = Some rob" and nm: "c_string nm"
  shows "if \<exists>d \<in> set (ob_propdefs rob). key d = fold_case nm
    then \<exists>db'. db_delete_propdef db r nm = Some (True, db') \<and> layout_ok db' \<and>
      (\<forall>x \<in> subtree db r. prop_slot db' nm x = None) \<and>
      (\<forall>x nm'. objects db x \<noteq> None \<longrightarrow> fold_case nm' \<noteq> fold_case nm \<longrightarrow>
        inherited_value db' nm' x = inherited_value db nm' x)
    else db_delete_propdef db r nm = Some (False, db)"
proof (cases "index_of (\<lambda>d. key d = fold_case nm) (ob_propdefs rob)")
  case None
  then have "db_delete_propdef db r nm = Some (False, db)" using db_delete_propdef_eq[OF assms] by simp
  then show ?thesis using None by (auto simp: index_of_None)
next
  case (Some i)
  then have i: "i < length (ob_propdefs rob)" "key (ob_propdefs rob ! i) = fold_case nm"
    by (auto simp: index_of_Some)
  then have ex: "\<exists>d \<in> set (ob_propdefs rob). key d = fold_case nm" by auto
  let ?db = "deleted db r rob i"
  have "prop_slot ?db nm x = None" if "x \<in> subtree db r" for x
  proof (cases "objects db x")
    case None
    then have "objects ?db x = None" using r by (auto simp: deleted_def put_object_def)
    then show ?thesis by (simp add: prop_slot_def)
  next
    case (Some ob)
    then show ?thesis using deleted_slots[OF L r i(1) Some] that i(2)
        prop_slot_map[OF deleted_layout[OF L r i(1)]] by simp
  qed
  moreover have "inherited_value ?db nm' x = inherited_value db nm' x"
    if "objects db x \<noteq> None" "fold_case nm' \<noteq> fold_case nm" for x nm'
    using deleted_other_value[OF L r i(1) that(1)] that(2) i(2) by simp
  ultimately show ?thesis
    using ex db_delete_propdef_eq[OF assms] Some deleted_layout[OF L r i(1)] by simp
qed

lemma rename_propdef_cases:
  assumes L: "layout_ok db" and r: "objects db r = Some rob" and nm: "c_string old" "c_string new"
  shows "\<exists>done db'. db_rename_propdef db r old new = Some (done, db') \<and> layout_ok db' \<and>
    (done \<longleftrightarrow> (\<exists>d \<in> set (ob_propdefs rob). key d = fold_case old) \<and>
      (fold_case old = fold_case new \<or> fresh_prop db r new)) \<and> (\<not> done \<longrightarrow> db' = db)"
proof (cases "index_of (\<lambda>d. key d = fold_case old) (ob_propdefs rob)")
  case None
  then have "db_rename_propdef db r old new = Some (False, db)" using db_rename_propdef_eq[OF assms] by simp
  then show ?thesis using None L by (auto simp: index_of_None)
next
  case (Some i)
  then have i: "i < length (ob_propdefs rob)" "key (ob_propdefs rob ! i) = fold_case old"
    by (auto simp: index_of_Some)
  then have "\<exists>d \<in> set (ob_propdefs rob). key d = fold_case old" by auto
  moreover have "layout_ok (renamed db r rob i new)"
    if "fold_case old = fold_case new \<or> fresh_prop db r new"
    using renamed_layout[OF L r i(1) nm(2)] that i(2) by auto
  ultimately show ?thesis using db_rename_propdef_eq[OF assms] Some L by auto
qed

section \<open>Writing a slot\<close>

text \<open>A slot of an inherited property may become clear, one of a property defined here may not.\<close>

lemma mod_slot_layout_gen:
  assumes L: "layout_ok db" and "mod_slot db (Slot x n) f = Some db'"
    and f: "\<And>pv. n < length (defs_of db x) \<Longrightarrow> pv_var pv \<noteq> VClear \<Longrightarrow> pv_var (f pv) \<noteq> VClear"
  shows "layout_ok db'"
proof -
  note hier = layout_hier[OF L]
  obtain ob where ob: "objects db x = Some ob" "n < length (ob_propval ob)"
    "db' = put_object db x (Some (ob\<lparr>ob_propval := (ob_propval ob)[n := f (ob_propval ob ! n)]\<rparr>))"
    using assms(2) by (auto simp: mod_slot_def bind_Some_iff nth_opt_eq_Some)
  let ?ob1 = "ob\<lparr>ob_propval := (ob_propval ob)[n := f (ob_propval ob ! n)]\<rparr>"
  have sh: "shape ?ob1 = shape ob" by (simp add: shape_def)
  have ss: "same_shape db db'" unfolding ob(3) using same_shape_put[OF ob(1) sh] .
  have "defs_of db' y = defs_of db y" for y using ob by (simp add: defs_of_def)
  then have "defs_of db' = defs_of db" by blast
  then have ad: "all_defs db' y = all_defs db y" for y
    by (simp only: all_defs_def same_shape_ancs[OF hier ss])
  have "obj_layout db' y ob'" if "objects db' y = Some ob'" for y ob'
  proof (cases "y = x")
    case False
    then show ?thesis using that ob layout_obj[OF L] ad by (simp add: obj_layout_def)
  next
    case True
    have "pv_var ((ob_propval ob)[n := f (ob_propval ob ! n)] ! i) \<noteq> VClear"
      if "i < length (ob_propdefs ob)" for i
      using layout_obj[OF L ob(1)] that f ob(1,2)
      by (cases "i = n") (auto simp: obj_layout_def defs_of_def)
    then show ?thesis using that True ob layout_obj[OF L ob(1)] ad by (auto simp: obj_layout_def)
  qed
  then show ?thesis using same_shape_hier[OF ss hier] by (simp add: layout_ok_def)
qed

lemma mod_slot_layout:
  assumes "layout_ok db" "mod_slot db (Slot x n) f = Some db'"
    and "\<And>pv. pv_var pv \<noteq> VClear \<Longrightarrow> pv_var (f pv) \<noteq> VClear"
  shows "layout_ok db'"
  using mod_slot_layout_gen[OF assms(1,2)] assms(3) by blast

end
