(* ===== verification/Db_Fix.thy ===== *)
theory Db_Fix
  imports Db_Layout_Laws
begin

text \<open>
  The functions of src/src/db_properties.c that serve a change of parent: the check that no name
  would be defined twice, the nearest common ancestor of the old and the new parent, and
  \<open>fix_props\<close>, which replaces the inherited slots of an object and of all its descendants.
\<close>

section \<open>The check\<close>

lemma check_properties:
  assumes L: "layout_ok db" and r: "objects db r = Some rob"
  shows "dbpriv_check_properties_for_chparent db r np =
    Some (\<forall>d \<in> set (all_defs db np). \<forall>y \<in> subtree db r. \<forall>e \<in> set (defs_of db y). key e \<noteq> key d)"
proof -
  note hier = layout_hier[OF L]
  note unf = dbpriv_check_properties_for_chparent.simps[of db r np]
  show ?thesis
  proof (cases "objects db np")
    case None
    then show ?thesis unfolding unf using layout_find[OF L] all_defs_None[OF hier] by simp
  next
    case (Some ob)
    from hier Some show ?thesis
    proof (induction rule: hier_induct_up)
      case (obj x ob)
      let ?ok = "\<lambda>d. \<forall>y \<in> subtree db r. \<forall>e \<in> set (defs_of db y). key e \<noteq> key d"
      have up: "dbpriv_check_properties_for_chparent db r (ob_parent ob) =
          Some (\<forall>d \<in> set (all_defs db (ob_parent ob)). ?ok d)"
      proof (cases "objects db (ob_parent ob)")
        case None
        then show ?thesis
          by (subst dbpriv_check_properties_for_chparent.simps)
             (simp add: layout_find[OF L] all_defs_None[OF hier])
      qed (use obj.IH in blast)
      have one: "property_defined_at_or_below db (pd_name d) (pd_hash d) r = Some (\<not> ?ok d)"
        if "d \<in> set (ob_propdefs ob)" for d
      proof -
        have d: "def_ok d" using layout_obj[OF L obj.hyps(1)] that by (simp add: obj_layout_def)
        then have "fold_case (pd_name d) = key d" "pd_hash d = str_hash (pd_name d)" "c_string (pd_name d)"
          by (simp_all add: def_ok_def key_def)
        with below_key[OF L _ r, of "pd_name d"] show ?thesis by auto
      qed
      have "any_opt (\<lambda>d. property_defined_at_or_below db (pd_name d) (pd_hash d) r) (ob_propdefs ob) =
          Some (\<exists>d \<in> set (ob_propdefs ob). \<not> ?ok d)"
        by (rule any_opt_Some) (rule one)
      then show ?case
        using up obj.hyps(1) all_defs_Some[OF hier obj.hyps(1)]
        by (subst dbpriv_check_properties_for_chparent.simps) (auto simp: layout_find[OF L])
    qed
  qed
qed

section \<open>The nearest common ancestor\<close>

lemma on_path_eq:
  assumes hier: "hier_ok db" and "objects db z \<noteq> None \<or> z = NOTHING"
  shows "on_path db x z = Some (x \<in> set (ancs db z))"
proof (cases "objects db z")
  case None
  then show ?thesis using assms ancs_None[OF hier None] by (subst on_path.simps) auto
next
  case (Some oz)
  from hier Some show ?thesis
  proof (induction rule: hier_induct_up)
    case (obj z oz)
    have zn: "z \<noteq> NOTHING" using obj.hyps(1) table_ok_NOTHING[OF hier_okD(1)[OF hier]] by auto
    have "on_path db x (ob_parent oz) = Some (x \<in> set (ancs db (ob_parent oz)))"
    proof (cases "objects db (ob_parent oz)")
      case None
      then have "ob_parent oz = NOTHING"
        using hier_okD(4)[OF hier, of z "ob_parent oz"] parent_rel_Some[OF obj.hyps(1)] by blast
      then show ?thesis using ancs_None[OF hier None] by (subst on_path.simps) simp
    qed (use obj.IH in blast)
    then show ?case using zn obj.hyps(1) ancs_Some[OF hier obj.hyps(1)]
      by (subst on_path.simps) (auto simp: db_object_parent_def)
  qed
qed

lemma common_ancestor_eq:
  assumes hier: "hier_ok db" and "objects db z \<noteq> None \<or> z = NOTHING"
    and old: "objects db old \<noteq> None \<or> old = NOTHING"
  shows "common_ancestor db z old =
    Some (case List.find (\<lambda>y. y \<in> set (ancs db old)) (ancs db z) of Some c \<Rightarrow> c | None \<Rightarrow> NOTHING)"
proof (cases "objects db z")
  case None
  then show ?thesis using assms ancs_None[OF hier None] by (subst common_ancestor.simps) auto
next
  case (Some oz)
  from hier Some show ?thesis
  proof (induction rule: hier_induct_up)
    case (obj z oz)
    have zn: "z \<noteq> NOTHING" using obj.hyps(1) table_ok_NOTHING[OF hier_okD(1)[OF hier]] by auto
    have "common_ancestor db (ob_parent oz) old = Some (case List.find (\<lambda>y. y \<in> set (ancs db old))
        (ancs db (ob_parent oz)) of Some c \<Rightarrow> c | None \<Rightarrow> NOTHING)"
    proof (cases "objects db (ob_parent oz)")
      case None
      then have "ob_parent oz = NOTHING"
        using hier_okD(4)[OF hier, of z "ob_parent oz"] parent_rel_Some[OF obj.hyps(1)] by blast
      then show ?thesis using ancs_None[OF hier None] by (subst common_ancestor.simps) simp
    qed (use obj.IH in blast)
    then show ?case using zn obj.hyps(1) ancs_Some[OF hier obj.hyps(1)] on_path_eq[OF hier old]
      by (subst common_ancestor.simps) (auto simp: db_object_parent_def)
  qed
qed

section \<open>Replacing the inherited slots\<close>

text \<open>The number of definitions from an object up to and including \<open>r\<close>.\<close>

definition loc_of :: "db \<Rightarrow> objid \<Rightarrow> obj \<Rightarrow> objid \<Rightarrow> nat" where
  "loc_of db r rob x = length (path_defs db r x) + length (ob_propdefs rob)"

definition fix_slots :: "db \<Rightarrow> objid \<Rightarrow> obj \<Rightarrow> nat \<Rightarrow> pval list \<Rightarrow> objid \<Rightarrow> obj \<Rightarrow> obj" where
  "fix_slots db r rob old pvs x ob = ob\<lparr>ob_propval :=
     take (loc_of db r rob x) (ob_propval ob) @ map (inherited ob) pvs @
     drop (loc_of db r rob x + old) (ob_propval ob)\<rparr>"

lemma fix_slots_keeps [simp]: "keeps_defs (fix_slots db r rob old pvs)" "keeps_hier (fix_slots db r rob old pvs)"
  by (simp_all add: outer_def keeps_defs_def keeps_hier_def fix_slots_def)

lemma inherited_inherited: "inherited c (inherited p pv) = inherited c pv"
  by (simp add: inherited_def chown_def)

lemma fix_node_eq:
  assumes "dbpriv_find_object db c = Some me" "loc = pl + length (ob_propdefs me)"
    "length (ob_propval me) = loc + old + common"
    "new \<noteq> 0 \<Longrightarrow> dbpriv_find_object db (ob_parent me) = Some pob"
    "new \<noteq> 0 \<Longrightarrow> pl + new \<le> length (ob_propval pob)"
    "new \<noteq> 0 \<Longrightarrow> map (inherited me) (take new (drop pl (ob_propval pob))) = vs"
    "new = 0 \<Longrightarrow> vs = []"
  shows "fix_node old new common db c pl =
    Some (put_object db c (Some (me\<lparr>ob_propval := take loc (ob_propval me) @ vs @ drop (loc + old) (ob_propval me)\<rparr>)), loc)"
  using assms by (cases "new = 0") (auto simp: fix_node_def Let_def)

lemma fix_props_eq:
  assumes hier: "hier_ok db" and r: "objects db r = Some rob"
    and size: "\<And>x ob. x \<in> subtree db r \<Longrightarrow> objects db x = Some ob \<Longrightarrow>
      length (ob_propval ob) = loc_of db r rob x + old + common"
    and np: "new \<noteq> 0 \<Longrightarrow> objects db (ob_parent rob) = Some npob \<and> new \<le> length (ob_propval npob)"
    and pvs: "pvs = (if new = 0 then [] else take new (ob_propval npob))"
  shows "fix_props db r 0 old new common = Some (app (fix_slots db r rob old pvs) (subtree db r) db)"
proof -
  let ?U = "fix_slots db r rob old pvs" and ?loc = "loc_of db r rob"
  note find = table_ok_find[OF hier_okD(1)[OF hier]]
  have loc_r: "?loc r = length (ob_propdefs rob)"
    using path_defs_self[OF hier r] by (simp add: loc_of_def)
  have "fix_node old new common db r 0 = Some (put_object db r (Some (?U r rob)), ?loc r)"
    using fix_node_eq[of db r rob "?loc r" 0 old common new npob "map (inherited rob) pvs"]
      find r loc_r size[OF subtree_self r] np pvs by (simp add: fix_slots_def)
  then have first: "fix_node old new common db r 0 = Some (app ?U {r} db, ?loc r)"
    using app_insert[OF r, of "{}" ?U] by simp
  have "for_subtree (fix_node old new common) (app ?U {r} db) (ob_child rob) (?loc r) =
      Some (app ?U (subtree db r) db)"
  proof (rule for_subtree_below[OF hier _ r, where A = ?loc])
    fix D c p ob
    assume c: "c \<notin> D" "p \<in> D" "D \<subseteq> subtree db r" "objects db c = Some ob" "ob_parent ob = p"
      "p \<noteq> NOTHING" "c \<in> subtree db r"
    then have p: "p \<in> subtree db r" by blast
    have "(c, p) \<in> parent_rel db" using c by (simp add: parent_rel_Some)
    then obtain pob where pob: "objects db p = Some pob" using hier_okD(4)[OF hier] by auto
    have loc: "?loc c = ?loc p + length (ob_propdefs ob)"
      using path_defs_child[OF hier c(4,5,6) p] by (simp add: loc_of_def)
    have len: "length pvs = new" using np pvs by auto
    have psz: "length (ob_propval pob) = ?loc p + old + common" using size[OF p pob] .
    have slots: "take new (drop (?loc p) (ob_propval (?U p pob))) = map (inherited pob) pvs"
      using psz len by (simp add: fix_slots_def)
    have "fix_node old new common (app ?U D db) c (?loc p) =
        Some (put_object (app ?U D db) c (Some (?U c ob)), ?loc c)"
      unfolding fix_slots_def[of db r rob old pvs c]
    proof (rule fix_node_eq[where pob = "?U p pob" and common = common])
      show "map (inherited ob) (take new (drop (?loc p) (ob_propval (?U p pob)))) = map (inherited ob) pvs"
        unfolding slots by (simp add: inherited_inherited comp_def)
    qed (use c pob find loc size[OF c(7,4)] len psz in \<open>auto simp: fix_slots_def\<close>)
    then show "fix_node old new common (app ?U D db) c (?loc p) = Some (app ?U (insert c D) db, ?loc c)"
      using app_insert[OF c(4,1)] by simp
  qed simp
  then show ?thesis using first r find by (simp add: fix_props_def)
qed

end
