(* ===== verification/Db_Objects.thy ===== *)
theory Db_Objects
  imports Db_Fix
begin

text \<open>
  Creating, destroying, renumbering and moving objects: src/src/db_objects.c, the size of a
  program from src/src/program.c, and the ownership quota of src/src/quota.c.

  A new object is the memory \<open>mymalloc\<close> returned, so its creation takes that memory as an
  argument \<open>garbage\<close>; the initialisation leaves only its \<open>owner\<close> undetermined.
\<close>

section \<open>Creation\<close>

definition init_object :: "obj \<Rightarrow> obj" where
  "init_object o1 = o1\<lparr>ob_location := -1, ob_contents := -1, ob_next := -1, ob_parent := -1,
     ob_child := -1, ob_sibling := -1, ob_name := [], ob_flags := 0, ob_verbdefs := [],
     ob_propdefs := [], ob_max_props := 0, ob_propval := []\<rparr>"

definition dbpriv_new_object :: "db \<Rightarrow> obj \<Rightarrow> objid \<times> db" where
  "dbpriv_new_object db garbage =
     (let db1 = ensure_new_object db; oid = num_objects db1
      in (oid, (put_object db1 oid (Some (garbage\<lparr>ob_id := oid\<rparr>)))\<lparr>num_objects := oid + 1\<rparr>))"

definition dbpriv_new_object_for_renum :: "db \<Rightarrow> obj \<Rightarrow> objid \<times> db" where
  "dbpriv_new_object_for_renum db garbage =
     (let db1 = ensure_new_object db; oid = num_objects db1
      in (oid, put_object db1 oid (Some (garbage\<lparr>ob_id := oid\<rparr>))))"

definition dbpriv_new_recycled_object :: "db \<Rightarrow> db" where
  "dbpriv_new_recycled_object db =
     (let db1 = ensure_new_object db; oid = num_objects db1
      in (put_object db1 oid None)\<lparr>num_objects := oid + 1\<rparr>)"

definition db_create_object :: "db \<Rightarrow> obj \<Rightarrow> (objid \<times> db) option" where
  "db_create_object db garbage =
     (case dbpriv_new_object db garbage of
        (oid, db1) \<Rightarrow> map_option (Pair oid) (mod_object db1 oid init_object))"

section \<open>Changing the number of an object\<close>

text \<open>The field that holds \<open>old\<close> in a linked list is made to hold \<open>new\<close>; its absence is a panic.\<close>

partial_function (option) find_link :: "(obj \<Rightarrow> objid) \<Rightarrow> db \<Rightarrow> objid \<Rightarrow> objid \<Rightarrow> objid option" where
  "find_link nx db lid old = do {
     ob \<leftarrow> objects db lid;
     if nx ob = old then Some lid
     else if nx ob = NOTHING then None
     else find_link nx db (nx ob) old }"

declare find_link.simps [code]

definition replace_link :: "(obj \<Rightarrow> objid) \<Rightarrow> ((objid \<Rightarrow> objid) \<Rightarrow> obj \<Rightarrow> obj) \<Rightarrow>
    (obj \<Rightarrow> objid) \<Rightarrow> ((objid \<Rightarrow> objid) \<Rightarrow> obj \<Rightarrow> obj) \<Rightarrow> db \<Rightarrow> objid \<Rightarrow> objid \<Rightarrow> objid \<Rightarrow> db option" where
  "replace_link hd_f hd_upd nx nx_upd db where_id old new = do {
     w \<leftarrow> objects db where_id;
     if hd_f w = old then mod_object db where_id (hd_upd (\<lambda>_. new))
     else if hd_f w = NOTHING then None
     else do { lid \<leftarrow> find_link nx db (hd_f w) old; mod_object db lid (nx_upd (\<lambda>_. new)) } }"

text \<open>\<open>for (oid = c; oid != NOTHING; oid = objects[oid]->next) objects[oid]->field = ...\<close>\<close>

partial_function (option) update_along :: "(obj \<Rightarrow> objid) \<Rightarrow> (obj \<Rightarrow> obj) \<Rightarrow> db \<Rightarrow> objid \<Rightarrow> db option" where
  "update_along nx upd db c =
     (if c = NOTHING then Some db
      else do {
        db1 \<leftarrow> mod_object db c upd;
        ob \<leftarrow> objects db1 c;
        update_along nx upd db1 (nx ob) })"

declare update_along.simps [code]

fun replace_user :: "objid \<Rightarrow> objid \<Rightarrow> var list \<Rightarrow> var list" where
  "replace_user old new [] = []"
| "replace_user old new (v # vs) = (if v = VObj old then VObj new # vs else v # replace_user old new vs)"

definition new_owner :: "objid \<Rightarrow> objid \<Rightarrow> objid \<Rightarrow> objid" where
  "new_owner old new ow = (if ow = new then NOTHING else if ow = old then new else ow)"

definition fix_owner_of :: "objid \<Rightarrow> objid \<Rightarrow> db \<Rightarrow> objid \<Rightarrow> db option" where
  "fix_owner_of old new db oid = (case objects db oid of
     None \<Rightarrow> Some db
   | Some ob \<Rightarrow> do {
       count \<leftarrow> dbpriv_count_properties db oid;
       if length (ob_propval ob) < count then None
       else Some (put_object db oid (Some (ob\<lparr>
         ob_owner := new_owner old new (ob_owner ob),
         ob_verbdefs := map (vd_owner_update (new_owner old new)) (ob_verbdefs ob),
         ob_propval := map (pv_owner_update (new_owner old new)) (take count (ob_propval ob)) @
           drop count (ob_propval ob)\<rparr>))) })"

fun fix_owners :: "objid \<Rightarrow> objid \<Rightarrow> db \<Rightarrow> nat \<Rightarrow> db option" where
  "fix_owners old new db 0 = Some db"
| "fix_owners old new db (Suc n) = do {
     db1 \<leftarrow> fix_owners old new db n;
     fix_owner_of old new db1 (int n) }"

definition db_set_object_number :: "db \<Rightarrow> objid \<Rightarrow> objid \<Rightarrow> db option" where
  "db_set_object_number db0 old new = (let db = db_priv_affected_callable_verb_lookup db0 in
     if valid db new \<or> new < 0 \<or> max_objects db \<le> new then None
     else do {
       db1 \<leftarrow> Some (put_object (put_object db new (objects db old)) old None);
       db2 \<leftarrow> mod_object db1 new (ob_id_update (\<lambda>_. new));
       ob \<leftarrow> objects db2 new;
       db3 \<leftarrow> (if ob_parent ob \<noteq> NOTHING
              then replace_link ob_child ob_child_update ob_sibling ob_sibling_update
                     db2 (ob_parent ob) old new
              else Some db2);
       ob3 \<leftarrow> objects db3 new;
       db4 \<leftarrow> update_along ob_sibling (ob_parent_update (\<lambda>_. new)) db3 (ob_child ob3);
       ob4 \<leftarrow> objects db4 new;
       db5 \<leftarrow> (if ob_location ob4 \<noteq> NOTHING
              then replace_link ob_contents ob_contents_update ob_next ob_next_update
                     db4 (ob_location ob4) old new
              else Some db4);
       ob5 \<leftarrow> objects db5 new;
       db6 \<leftarrow> update_along ob_next (ob_location_update (\<lambda>_. new)) db5 (ob_contents ob5);
       db7 \<leftarrow> Some (if is_user db6 new
                  then db6\<lparr>all_users := replace_user old new (all_users db6)\<rparr> else db6);
       fix_owners old new db7 (nat (num_objects db7)) })"

text \<open>The first free number below \<open>old\<close>.\<close>

definition first_free :: "db \<Rightarrow> objid \<Rightarrow> objid option" where
  "first_free db old = map_option int (List.find (\<lambda>n. objects db (int n) = None) [0..<nat old])"

definition db_renumber_object :: "db \<Rightarrow> objid \<Rightarrow> (objid \<times> db) option" where
  "db_renumber_object db0 old = (let db = db_priv_affected_callable_verb_lookup db0 in
     case first_free db old of
       Some new \<Rightarrow> map_option (Pair new) (db_set_object_number db old new)
     | None \<Rightarrow> Some (old, db))"

definition db_create_object_and_renum :: "db \<Rightarrow> obj \<Rightarrow> (objid \<times> db) option" where
  "db_create_object_and_renum db garbage =
     (case dbpriv_new_object_for_renum db garbage of (ooid, db1) \<Rightarrow> do {
        db2 \<leftarrow> mod_object db1 ooid init_object;
        (oid, db3) \<leftarrow> db_renumber_object db2 ooid;
        Some (oid, if oid = ooid then db3\<lparr>num_objects := num_objects db3 + 1\<rparr> else db3) })"

definition db_create_object_with_num :: "db \<Rightarrow> obj \<Rightarrow> objid \<Rightarrow> (objid \<times> db) option" where
  "db_create_object_with_num db garbage num =
     (if num > num_objects db \<or> num < 0 then Some (-1, db)
      else if valid db num then Some (-1, db)
      else case dbpriv_new_object_for_renum db garbage of (oid, db1) \<Rightarrow> do {
        db2 \<leftarrow> mod_object db1 oid init_object;
        db3 \<leftarrow> db_set_object_number db2 oid num;
        Some (num, db3) })"

section \<open>Destruction\<close>

definition db_destroy_object :: "db \<Rightarrow> objid \<Rightarrow> db option" where
  "db_destroy_object db0 oid = (let db = db_priv_affected_callable_verb_lookup db0 in do {
     ob \<leftarrow> dbpriv_find_object db oid;
     if ob_location ob \<noteq> NOTHING \<or> ob_contents ob \<noteq> NOTHING \<or> ob_parent ob \<noteq> NOTHING \<or>
        ob_child ob \<noteq> NOTHING then None
     else do {
       us \<leftarrow> (if is_user db oid then setremove (all_users db) (VObj oid) else Some (all_users db));
       if length (ob_propval ob) < length (ob_propdefs ob) then None
       else Some (put_object (db\<lparr>all_users := us\<rparr>) oid None) } })"

section \<open>Sizes\<close>

definition sizeof_Object :: nat where "sizeof_Object = 80"
definition sizeof_Verbdef :: nat where "sizeof_Verbdef = 32"
definition sizeof_Propdef :: nat where "sizeof_Propdef = 16"
definition sizeof_Pval :: nat where "sizeof_Pval = 24"
definition sizeof_Program :: nat where "sizeof_Program = 104"
definition sizeof_Bytecodes :: nat where "sizeof_Bytecodes = 24"
definition sizeof_pointer :: nat where "sizeof_pointer = 8"

definition program_bytes :: "program \<Rightarrow> nat" where
  "program_bytes p = sizeof_Program + length (bc_vector (pg_main_vector p)) +
     sum_list (map value_bytes (pg_literals p)) +
     sizeof_Bytecodes * length (pg_fork_vectors p) +
     sum_list (map (\<lambda>b. length (bc_vector b)) (pg_fork_vectors p)) +
     sizeof_pointer * length (pg_var_names p) +
     sum_list (map (\<lambda>s. length s + 1) (pg_var_names p))"

definition verbdef_bytes :: "verbdef \<Rightarrow> nat" where
  "verbdef_bytes v = sizeof_Verbdef + (length (vd_name v) + 1) +
     (case vd_program v of None \<Rightarrow> 0 | Some p \<Rightarrow> program_bytes p)"

definition db_object_bytes :: "db \<Rightarrow> objid \<Rightarrow> nat option" where
  "db_object_bytes db oid = do {
     ob \<leftarrow> objects db oid;
     len \<leftarrow> dbpriv_count_properties db oid;
     pvs \<leftarrow> slice_opt (ob_propval ob) 0 len;
     Some (sizeof_Object + sizeof_pointer + (length (ob_name ob) + 1) +
       sum_list (map verbdef_bytes (ob_verbdefs ob)) +
       sizeof_Propdef * length (ob_propdefs ob) +
       sum_list (map (\<lambda>d. length (pd_name d) + 1) (ob_propdefs ob)) +
       (sizeof_Pval - sizeof_Var) * len +
       sum_list (map (\<lambda>pv. value_bytes (pv_var pv)) pvs)) }"

section \<open>Changing the parent and the location\<close>

definition db_change_parent :: "db \<Rightarrow> objid \<Rightarrow> objid \<Rightarrow> (bool \<times> db) option" where
  "db_change_parent db oid parent = do {
     ok \<leftarrow> dbpriv_check_properties_for_chparent db oid parent;
     if \<not> ok then Some (False, db)
     else do {
       ob \<leftarrow> objects db oid;
       db1 \<leftarrow> Some (if ob_child ob = NOTHING \<and> ob_verbdefs ob = [] then db
                  else db_priv_affected_callable_verb_lookup db);
       old_parent \<leftarrow> db_object_parent db1 oid;
       db2 \<leftarrow> (if old_parent \<noteq> NOTHING
              then LL_REMOVE ob_child ob_child_update ob_sibling ob_sibling_update db1 old_parent oid
              else Some db1);
       db3 \<leftarrow> (if parent \<noteq> NOTHING
              then LL_APPEND ob_child ob_child_update ob_sibling ob_sibling_update db2 parent oid
              else Some db2);
       db4 \<leftarrow> mod_object db3 oid (ob_parent_update (\<lambda>_. parent));
       db5 \<leftarrow> dbpriv_fix_properties_after_chparent db4 oid old_parent;
       Some (True, db5) } }"

definition db_change_location :: "db \<Rightarrow> objid \<Rightarrow> objid \<Rightarrow> db option" where
  "db_change_location db oid location = do {
     old_location \<leftarrow> db_object_location db oid;
     db1 \<leftarrow> (if valid db old_location
            then LL_REMOVE ob_contents ob_contents_update ob_next ob_next_update db old_location oid
            else Some db);
     db2 \<leftarrow> (if valid db1 location
            then LL_APPEND ob_contents ob_contents_update ob_next ob_next_update db1 location oid
            else Some db1);
     mod_object db2 oid (ob_location_update (\<lambda>_. location)) }"

section \<open>The ownership quota\<close>

definition quota_name :: string where "quota_name = ''ownership_quota''"

definition decr_quota :: "db \<Rightarrow> objid \<Rightarrow> (bool \<times> db) option" where
  "decr_quota db player =
     (if \<not> valid db player then Some (True, db)
      else do {
        (h, v) \<leftarrow> db_find_property db player quota_name True;
        if h_ptr h = Null then Some (True, db)
        else case v of
          Some (VInt n) \<Rightarrow>
            if n <=s 0 then Some (False, db)
            else do { db1 \<leftarrow> db_set_property_value db h (VInt (n - 1)); Some (True, db1) }
        | _ \<Rightarrow> Some (True, db) })"

definition incr_quota :: "db \<Rightarrow> objid \<Rightarrow> db option" where
  "incr_quota db player =
     (if \<not> valid db player then Some db
      else do {
        (h, v) \<leftarrow> db_find_property db player quota_name True;
        if h_ptr h = Null then Some db
        else case v of
          Some (VInt n) \<Rightarrow> db_set_property_value db h (VInt (n + 1))
        | _ \<Rightarrow> Some db })"

end
