(* ===== verification/Db_Chparent.thy ===== *)
theory Db_Chparent
  imports Db_Objects
begin

text \<open>
  \<open>db_change_parent\<close> keeps the database well formed: the lists of children stay exact, the
  parent relation stays a forest, and the slots of the moved object and of everything below it
  follow the definitions they inherit in the new place.
\<close>

section \<open>Moving an object in the forest\<close>

text \<open>Two states that differ in the \<open>child\<close> and \<open>sibling\<close> fields, and in the parent of \<open>r\<close>.\<close>

definition moved :: "db \<Rightarrow> objid \<Rightarrow> objid \<Rightarrow> db \<Rightarrow> bool" where
  "moved db r np db' \<longleftrightarrow> num_objects db' = num_objects db \<and> max_objects db' = max_objects db \<and>
     (\<forall>x. objects db x = None \<longrightarrow> objects db' x = None) \<and>
     (\<forall>x ob. objects db x = Some ob \<longrightarrow> (\<exists>c s. objects db' x =
        Some (ob\<lparr>ob_child := c, ob_sibling := s, ob_parent := (if x = r then np else ob_parent ob)\<rparr>)))"

lemma moved_Some:
  "moved db r np db' \<Longrightarrow> objects db x = Some ob \<Longrightarrow> \<exists>c s. objects db' x =
    Some (ob\<lparr>ob_child := c, ob_sibling := s, ob_parent := (if x = r then np else ob_parent ob)\<rparr>)"
  by (simp add: moved_def)

lemma moved_None: "moved db r np db' \<Longrightarrow> objects db' x = None \<longleftrightarrow> objects db x = None"
proof
  assume m: "moved db r np db'" and "objects db' x = None"
  then show "objects db x = None" using moved_Some[OF m, of x] by (cases "objects db x") auto
qed (simp add: moved_def)

lemma moved_back:
  assumes "moved db r np db'" "objects db' x = Some ob'"
  shows "\<exists>ob c s. objects db x = Some ob \<and>
    ob' = ob\<lparr>ob_child := c, ob_sibling := s, ob_parent := (if x = r then np else ob_parent ob)\<rparr>"
proof -
  obtain ob where ob: "objects db x = Some ob"
    using moved_None[OF assms(1), of x] assms(2) by (cases "objects db x") auto
  then show ?thesis using moved_Some[OF assms(1) ob] assms(2) by auto
qed

lemma moved_parent_rel:
  assumes "moved db r np db'" "objects db r = Some rob"
  shows "(c, p) \<in> parent_rel db' \<longleftrightarrow> (if c = r then p = np \<and> p \<noteq> NOTHING else (c, p) \<in> parent_rel db)"
proof (cases "objects db c")
  case None
  then show ?thesis using assms moved_None[OF assms(1), of c]
    by (auto simp: parent_rel_def link_def)
next
  case (Some ob)
  obtain cc s where "objects db' c =
      Some (ob\<lparr>ob_child := cc, ob_sibling := s, ob_parent := (if c = r then np else ob_parent ob)\<rparr>)"
    using moved_Some[OF assms(1) Some] by blast
  then show ?thesis using Some by (auto simp: parent_rel_Some)
qed

lemma moved_subtree:
  assumes m: "moved db r np db'" and hier: "hier_ok db" and r: "objects db r = Some rob"
    and np: "np \<notin> subtree db r"
  shows "subtree db' r = subtree db r" "acyclic (parent_rel db')"
proof -
  note R = moved_parent_rel[OF m r]
  have 1: "y \<in> subtree db' r" if "y \<in> subtree db r" for y
    using that unfolding subtree_def mem_Collect_eq
  proof (induction rule: converse_rtrancl_induct)
    case (step y z)
    show ?case
    proof (cases "y = r")
      case False
      then have "(y, z) \<in> parent_rel db'" using R step.hyps(1) by simp
      then show ?thesis using step.IH by (rule converse_rtrancl_into_rtrancl)
    qed simp
  qed simp
  have 2: "y \<in> subtree db r" if "y \<in> subtree db' r" for y
    using that unfolding subtree_def mem_Collect_eq
  proof (induction rule: converse_rtrancl_induct)
    case (step y z)
    show ?case
    proof (cases "y = r")
      case False
      then have "(y, z) \<in> parent_rel db" using R step.hyps(1) by simp
      then show ?thesis using step.IH by (rule converse_rtrancl_into_rtrancl)
    qed simp
  qed simp
  show "subtree db' r = subtree db r" using 1 2 by blast
  have sub: "parent_rel db' \<subseteq> insert (r, np) (parent_rel db)"
    by (auto simp: R split: if_splits)
  have "acyclic (insert (r, np) (parent_rel db))"
    using hier_okD(2)[OF hier] np by (auto simp: acyclic_insert subtree_def)
  then show "acyclic (parent_rel db')" using acyclic_subset sub by blast
qed

lemma moved_ancs_outside:
  assumes m: "moved db r np db'" and hier: "hier_ok db" "hier_ok db'" and r: "objects db r = Some rob"
    and "objects db x = None \<or> x \<notin> subtree db r"
  shows "ancs db' x = ancs db x"
proof (cases "objects db x")
  case None
  then show ?thesis using ancs_None hier moved_None[OF m] by simp
next
  case (Some ob)
  then have "x \<notin> subtree db r" using assms(5) by simp
  with hier(1) Some show ?thesis
  proof (induction rule: hier_induct_up)
    case (obj x ob)
    then have xr: "x \<noteq> r" by auto
    obtain c s where "objects db' x = Some (ob\<lparr>ob_child := c, ob_sibling := s\<rparr>)"
      using moved_Some[OF m obj.hyps(1)] xr by auto
    then have an: "ancs db' x = x # ancs db' (ob_parent ob)" using ancs_Some[OF hier(2)] by simp
    show ?case
    proof (cases "objects db (ob_parent ob)")
      case None
      then show ?thesis using an ancs_Some[OF hier(1) obj.hyps(1)] ancs_None hier moved_None[OF m] by simp
    next
      case (Some q)
      have "ob_parent ob \<noteq> NOTHING"
        using Some table_ok_NOTHING[OF hier_okD(1)[OF hier(1)]] by auto
      then have "(x, ob_parent ob) \<in> parent_rel db" using obj.hyps(1) by (simp add: parent_rel_Some)
      then have "ob_parent ob \<notin> subtree db r" using obj.prems subtree_child by blast
      then show ?thesis using obj.IH[OF Some] an ancs_Some[OF hier(1) obj.hyps(1)] by simp
    qed
  qed
qed

lemma moved_defs_of:
  assumes "moved db r np db'" shows "defs_of db' x = defs_of db x"
proof (cases "objects db x")
  case (Some ob)
  from moved_Some[OF assms Some] show ?thesis using Some by (auto simp: defs_of_def)
next
  case None
  then have "objects db' x = None" using moved_None[OF assms] by blast
  with None show ?thesis by (simp add: defs_of_def)
qed

lemma moved_outer: "moved db r np db' \<Longrightarrow> map_option outer (objects db' x) = map_option outer (objects db x)"
  using moved_None[of db r np db' x] moved_Some[of db r np db' x]
  by (cases "objects db x") (auto simp: outer_def)

lemma moved_all_defs_outside:
  assumes "moved db r np db'" "hier_ok db" "hier_ok db'" "objects db r = Some rob"
    "objects db x = None \<or> x \<notin> subtree db r"
  shows "all_defs db' x = all_defs db x"
proof -
  have "defs_of db' = defs_of db" using moved_defs_of[OF assms(1)] by blast
  then show ?thesis by (simp only: all_defs_def moved_ancs_outside[OF assms])
qed

lemma moved_path:
  assumes m: "moved db r np db'" and hier: "hier_ok db" "hier_ok db'" and r: "objects db r = Some rob"
    and np: "np \<notin> subtree db r"
    and "objects db x = Some ob" "x \<in> subtree db r"
  shows "path_defs db' r x = path_defs db r x"
  using hier(1) assms(6,7)
proof (induction rule: hier_induct_up)
  case (obj x ob)
  obtain rob' where r': "objects db' r = Some rob'" using moved_Some[OF m r] by blast
  show ?case
  proof (cases "x = r")
    case True
    then show ?thesis using path_defs_self[OF hier(1) r] path_defs_self[OF hier(2) r'] by simp
  next
    case False
    from subtree_parent[OF obj.prems False] obtain p
      where p: "(x, p) \<in> parent_rel db" "p \<in> subtree db r" by blast
    then have pp: "ob_parent ob = p" using parent_rel_Some[OF obj.hyps(1)] by simp
    obtain q where q: "objects db p = Some q" using hier_okD(4)[OF hier(1) p(1)] by auto
    obtain c s where "objects db' x = Some (ob\<lparr>ob_child := c, ob_sibling := s\<rparr>)"
      using moved_Some[OF m obj.hyps(1)] False by auto
    then show ?thesis
      using path_defs_step[OF hier(2) _ False] path_defs_step[OF hier(1) obj.hyps(1) False]
        obj.IH[of q] q p(2) pp by simp
  qed
qed

section \<open>The lists of children\<close>

text \<open>The moved object is taken out of one list and appended to another.\<close>

lemma relinked_Some:
  assumes "relinked ob_child_update ob_sibling_update a b" "objects a x = Some ob"
  shows "\<exists>c s. objects b x = Some (ob\<lparr>ob_child := c, ob_sibling := s\<rparr>)"
proof -
  obtain h n where b: "b = a\<lparr>objects := \<lambda>x. map_option
      (\<lambda>ob. ob_sibling_update (n x) (ob_child_update (h x) ob)) (objects a x)\<rparr>"
    using assms(1) unfolding relinked_def by blast
  have "ob_sibling_update (n x) (ob_child_update (h x) ob) =
      ob\<lparr>ob_child := h x (ob_child ob), ob_sibling := n x (ob_sibling ob)\<rparr>"
    by (cases ob) simp
  moreover have "objects b x = Some (ob_sibling_update (n x) (ob_child_update (h x) ob))"
    using assms(2) b by simp
  ultimately have "objects b x =
      Some (ob\<lparr>ob_child := h x (ob_child ob), ob_sibling := n x (ob_sibling ob)\<rparr>)" by simp
  then show ?thesis by blast
qed

lemma relinked_rest:
  assumes "relinked ob_child_update ob_sibling_update a b"
  shows "num_objects b = num_objects a" "max_objects b = max_objects a"
    "all_users b = all_users a" "vc_table b = vc_table a" "objects a x = None \<Longrightarrow> objects b x = None"
  using assms by (auto simp: relinked_def)

text \<open>\<open>kid_lists db K\<close>: the children of every object are exactly the list that \<open>K\<close> gives.\<close>

abbreviation kid_lists :: "db \<Rightarrow> (objid \<Rightarrow> objid list) \<Rightarrow> bool" where
  "kid_lists \<equiv> lists_at ob_child ob_sibling"

lemma kid_lists_ok:
  assumes "hier_ok db"
  obtains K where "kid_lists db K" "\<And>p. objects db p \<noteq> None \<Longrightarrow> set (K p) = {c. link ob_parent db c = Some p}"
proof -
  have "\<forall>p. \<exists>cs. objects db p \<noteq> None \<longrightarrow>
      list_at ob_child ob_sibling db p cs \<and> set cs = {c. link ob_parent db c = Some p}"
    using hier_okD(3)[OF assms] unfolding kids_ok_def by blast
  from choice[OF this] obtain K where "\<forall>p. objects db p \<noteq> None \<longrightarrow>
      list_at ob_child ob_sibling db p (K p) \<and> set (K p) = {c. link ob_parent db c = Some p}" ..
  then show thesis by (intro that[of K]) (auto simp: lists_at_def)
qed

lemma moved_hier:
  assumes hier: "hier_ok db" and m: "moved db r np db'" and r: "objects db r = Some rob"
    and np: "np \<notin> subtree db r" "np = NOTHING \<or> objects db np \<noteq> None"
    and K': "kid_lists db' K'"
    and sets: "\<And>p. objects db p \<noteq> None \<Longrightarrow> set (K' p) =
      {c. (if c = r then p = np else link ob_parent db c = Some p)}"
  shows "hier_ok db'"
proof -
  have par: "link ob_parent db' c = (if c = r then Some np else link ob_parent db c)" for c
  proof (cases "objects db c")
    case None
    then show ?thesis using moved_None[OF m] r by (auto simp: link_def)
  next
    case (Some ob)
    from moved_Some[OF m Some] show ?thesis using Some by (auto simp: link_def)
  qed
  have t: "table_ok db'"
    unfolding table_ok_def
  proof (intro conjI allI impI)
    fix x ob' assume "objects db' x = Some ob'"
    from moved_back[OF m this] obtain ob where "objects db x = Some ob" "ob_id ob' = ob_id ob" by auto
    then show "0 \<le> x" "x < num_objects db'" "ob_id ob' = x"
      using hier_okD(1)[OF hier] m by (auto simp: table_ok_def moved_def)
  qed (use hier_okD(1)[OF hier] m in \<open>auto simp: table_ok_def moved_def\<close>)
  have "kids_ok db'"
    unfolding kids_ok_def
  proof (intro allI impI)
    fix p assume p: "objects db' p \<noteq> None"
    have "p \<noteq> NOTHING" using p table_ok_NOTHING[OF t] by auto
    then have "set (K' p) = {c. link ob_parent db' c = Some p}"
      using sets[of p] p moved_None[OF m, of p] by (auto simp: par)
    then show "\<exists>cs. list_at ob_child ob_sibling db' p cs \<and> set cs = {c. link ob_parent db' c = Some p}"
      using K' p by (auto simp: lists_at_def)
  qed
  moreover have "objects db' p \<noteq> None" if "(c, p) \<in> parent_rel db'" for c p
    using that np(2) hier_okD(4)[OF hier] moved_None[OF m] moved_parent_rel[OF m r]
    by (auto split: if_splits)
  ultimately show ?thesis using t moved_subtree(2)[OF m hier r np(1)] by (simp add: hier_ok_def)
qed

section \<open>States with the same objects\<close>

lemma same_objects:
  assumes "objects db' = objects db" "num_objects db' = num_objects db" "max_objects db' = max_objects db"
  shows "hier_ok db' = hier_ok db" "hier_ok db \<Longrightarrow> ancs db' x = ancs db x"
    "hier_ok db \<Longrightarrow> all_defs db' x = all_defs db x" "layout_ok db' = layout_ok db"
proof -
  have ss: "same_shape db db'" using assms by (simp add: same_shape_def)
  show h: "hier_ok db' = hier_ok db" using same_shape_hier[OF ss] same_shape_hier[OF same_shape_sym[OF ss]] by blast
  show an: "ancs db' x = ancs db x" if "hier_ok db" for x using same_shape_ancs[OF that ss] .
  have "defs_of db' = defs_of db" using assms(1) by (simp add: fun_eq_iff defs_of_def)
  then show ad: "all_defs db' x = all_defs db x" if "hier_ok db" for x
    by (simp only: all_defs_def an[OF that])
  show "layout_ok db' = layout_ok db"
    using h ad assms(1) by (auto simp: layout_ok_def obj_layout_def)
qed

lemma moved_flush: "moved db r np db' \<Longrightarrow> objects db0 = objects db \<Longrightarrow>
    num_objects db0 = num_objects db \<Longrightarrow> max_objects db0 = max_objects db \<Longrightarrow> moved db0 r np db'"
  by (simp add: moved_def)

section \<open>Relinking\<close>

definition relink_parent :: "db \<Rightarrow> objid \<Rightarrow> objid \<Rightarrow> db option" where
  "relink_parent db1 oid parent = do {
     old_parent \<leftarrow> db_object_parent db1 oid;
     db2 \<leftarrow> (if old_parent \<noteq> NOTHING
            then LL_REMOVE ob_child ob_child_update ob_sibling ob_sibling_update db1 old_parent oid
            else Some db1);
     db3 \<leftarrow> (if parent \<noteq> NOTHING
            then LL_APPEND ob_child ob_child_update ob_sibling ob_sibling_update db2 parent oid
            else Some db2);
     mod_object db3 oid (ob_parent_update (\<lambda>_. parent)) }"

lemma kid_lists_put_parent:
  assumes "kid_lists db K" "objects db r = Some rob"
  shows "kid_lists (put_object db r (Some (rob\<lparr>ob_parent := np\<rparr>))) K"
proof -
  have "link ob_child (put_object db r (Some (rob\<lparr>ob_parent := np\<rparr>))) = link ob_child db"
    "link ob_sibling (put_object db r (Some (rob\<lparr>ob_parent := np\<rparr>))) = link ob_sibling db"
    using assms(2) by (auto simp: fun_eq_iff link_def)
  then show ?thesis using assms by (simp add: lists_at_def list_at_def)
qed

lemma relink_parent_correct:
  assumes hier: "hier_ok db" and r: "objects db r = Some rob"
    and np: "np \<notin> subtree db r" "np = NOTHING \<or> objects db np \<noteq> None"
  shows "\<exists>db'. relink_parent db r np = Some db' \<and> moved db r np db' \<and> hier_ok db' \<and>
    all_users db' = all_users db \<and> vc_table db' = vc_table db"
proof -
  let ?old = "ob_parent rob"
  have rn: "r \<noteq> NOTHING" using r table_ok_NOTHING[OF hier_okD(1)[OF hier]] by auto
  have rl: "link ob_parent db r = Some ?old" using r by (simp add: link_def)
  obtain K where K: "kid_lists db K" and sets: "\<And>p. objects db p \<noteq> None \<Longrightarrow> set (K p) = {c. link ob_parent db c = Some p}"
    using kid_lists_ok[OF hier] by blast
  have old: "objects db ?old \<noteq> None" if "?old \<noteq> NOTHING"
    using hier_okD(4)[OF hier, of r ?old] r that by (simp add: parent_rel_Some)
  have disj: "set (K q) \<inter> set (K p) = {}" if "q \<noteq> p" "objects db q \<noteq> None" "objects db p \<noteq> None" for p q
    using sets[OF that(2)] sets[OF that(3)] that(1) by auto
  have dist: "distinct (K p)" if "objects db p \<noteq> None" for p
    using K that chain_distinct by (auto simp: lists_at_def list_at_def)
  define K2 where "K2 = (if ?old \<noteq> NOTHING then K(?old := remove1 r (K ?old)) else K)"
  have "\<exists>db2. (if ?old \<noteq> NOTHING
      then LL_REMOVE ob_child ob_child_update ob_sibling ob_sibling_update db ?old r else Some db) = Some db2 \<and>
      relinked ob_child_update ob_sibling_update db db2 \<and> kid_lists db2 K2"
  proof (cases "?old = NOTHING")
    case True
    then show ?thesis using K kids.relinked_refl by (simp add: K2_def)
  next
    case False
    have "r \<in> set (K ?old)" using sets[OF old[OF False]] rl by simp
    from kids.remove_member[OF K old[OF False] this] disj old[OF False] show ?thesis
      using False by (auto simp: K2_def)
  qed
  then obtain db2 where db2: "(if ?old \<noteq> NOTHING
      then LL_REMOVE ob_child ob_child_update ob_sibling ob_sibling_update db ?old r else Some db) = Some db2"
    "relinked ob_child_update ob_sibling_update db db2" "kid_lists db2 K2" by blast
  have dom2: "objects db2 x \<noteq> None \<longleftrightarrow> objects db x \<noteq> None" for x
    using relinked_rest(5)[OF db2(2), of x] relinked_Some[OF db2(2), of x] by (cases "objects db x") auto
  have sets2: "set (K2 p) = {c. c \<noteq> r \<and> link ob_parent db c = Some p}" if p: "objects db p \<noteq> None" for p
  proof (cases "p = ?old")
    case True
    then have "p \<noteq> NOTHING" using p table_ok_NOTHING[OF hier_okD(1)[OF hier]] by auto
    then show ?thesis using True sets[OF p] dist[OF p] by (auto simp: K2_def)
  next
    case False
    then show ?thesis using sets[OF p] rl by (auto simp: K2_def)
  qed
  define K3 where "K3 = (if np \<noteq> NOTHING then K2(np := K2 np @ [r]) else K2)"
  have "\<exists>db3. (if np \<noteq> NOTHING
      then LL_APPEND ob_child ob_child_update ob_sibling ob_sibling_update db2 np r else Some db2) = Some db3 \<and>
      relinked ob_child_update ob_sibling_update db2 db3 \<and> kid_lists db3 K3"
  proof (cases "np = NOTHING")
    case True
    then show ?thesis using db2(3) kids.relinked_refl by (simp add: K3_def)
  next
    case False
    then have npv: "objects db np \<noteq> None" using np(2) by blast
    have d2: "set (K2 q) \<inter> set (K2 np) = {}" if "q \<noteq> np" "objects db2 q \<noteq> None" for q
      unfolding sets2[OF npv] sets2[OF dom2[THEN iffD1, OF that(2)]] using that(1) by auto
    have out: "r \<notin> set (K2 q)" if "objects db2 q \<noteq> None" for q
      unfolding sets2[OF dom2[THEN iffD1, OF that]] by simp
    have v: "objects db2 np \<noteq> None" "objects db2 r \<noteq> None" using npv r dom2 by auto
    show ?thesis using kids.append_member[OF db2(3) v(1) rn v(2) out d2] False by (simp add: K3_def)
  qed
  then obtain db3 where db3: "(if np \<noteq> NOTHING
      then LL_APPEND ob_child ob_child_update ob_sibling ob_sibling_update db2 np r else Some db2) = Some db3"
    "relinked ob_child_update ob_sibling_update db2 db3" "kid_lists db3 K3" by blast
  have rel: "relinked ob_child_update ob_sibling_update db db3" using kids.relinked_trans[OF db2(2) db3(2)] .
  obtain c s where r3: "objects db3 r = Some (rob\<lparr>ob_child := c, ob_sibling := s\<rparr>)"
    using relinked_Some[OF rel r] by blast
  define db4 where "db4 = put_object db3 r (Some (rob\<lparr>ob_child := c, ob_sibling := s, ob_parent := np\<rparr>))"
  have run: "relink_parent db r np = Some db4"
    using db2(1) db3(1) r r3
    by (simp add: relink_parent_def db_object_parent_def db4_def mod_object_Some)
  have m: "moved db r np db4"
    unfolding moved_def
  proof (intro conjI allI impI)
    fix x ob assume x: "objects db x = Some ob"
    show "\<exists>c s. objects db4 x =
      Some (ob\<lparr>ob_child := c, ob_sibling := s, ob_parent := (if x = r then np else ob_parent ob)\<rparr>)"
    proof (cases "x = r")
      case True
      then show ?thesis using x r by (auto simp: db4_def)
    next
      case False
      from relinked_Some[OF rel x] obtain c' s' where
        "objects db3 x = Some (ob\<lparr>ob_child := c', ob_sibling := s'\<rparr>)" by blast
      moreover have "ob\<lparr>ob_child := c', ob_sibling := s'\<rparr> =
          ob\<lparr>ob_child := c', ob_sibling := s', ob_parent := (if x = r then np else ob_parent ob)\<rparr>"
        using False by (cases ob) simp
      moreover have "objects db4 x = objects db3 x" using False by (simp add: db4_def)
      ultimately show ?thesis by metis
    qed
  next
    fix x assume "objects db x = None"
    then show "objects db4 x = None" using relinked_rest(5)[OF rel] r by (auto simp: db4_def)
  qed (use relinked_rest(1,2)[OF rel] in \<open>auto simp: db4_def\<close>)
  have K4: "kid_lists db4 K3"
    using kid_lists_put_parent[OF db3(3) r3, of np] by (simp add: db4_def)
  have "hier_ok db4"
  proof (rule moved_hier[OF hier m r np K4])
    fix p assume p: "objects db p \<noteq> None"
    then have "p \<noteq> NOTHING" using table_ok_NOTHING[OF hier_okD(1)[OF hier]] by auto
    then show "set (K3 p) = {c. (if c = r then p = np else link ob_parent db c = Some p)}"
      using sets2[OF p] by (auto simp: K3_def)
  qed
  then show ?thesis using run m relinked_rest(3,4)[OF rel] by (auto simp: db4_def)
qed

section \<open>The slots follow\<close>

text \<open>The common ancestor splits the definitions above the old and the new parent.\<close>

lemma common_split:
  assumes hier: "hier_ok db" and a: "objects db a \<noteq> None \<or> a = NOTHING"
    and b: "objects db b \<noteq> None \<or> b = NOTHING"
  obtains c A B where "common_ancestor db a b = Some c" "c = NOTHING \<or> objects db c \<noteq> None"
    "all_defs db a = A @ all_defs db c" "all_defs db b = B @ all_defs db c"
    "c = NOTHING \<longrightarrow> set (ancs db a) \<inter> set (ancs db b) = {}"
    "c \<noteq> NOTHING \<longrightarrow> c \<in> set (ancs db a) \<inter> set (ancs db b)"
proof -
  have nil: "all_defs db (-1) = []"
    using all_defs_None[OF hier] table_ok_NOTHING[OF hier_okD(1)[OF hier]] by blast
  have valid_ancs: "objects db x \<noteq> None" if "y \<in> set (ancs db x)" for x y
    using that ancs_None[OF hier, of x] by (cases "objects db x") auto
  have split: "\<exists>A. all_defs db x = A @ all_defs db c" if c: "c \<in> set (ancs db x)" for x c
  proof -
    obtain ob where "objects db x = Some ob" using valid_ancs[OF c] by auto
    with all_defs_split[OF hier this, of c] ancs_subtree[OF hier, of x c] c show ?thesis by auto
  qed
  note eq = common_ancestor_eq[OF hier a b]
  show thesis
  proof (cases "List.find (\<lambda>y. y \<in> set (ancs db b)) (ancs db a)")
    case None
    then have "set (ancs db a) \<inter> set (ancs db b) = {}" by (auto simp: find_None_iff)
    then show thesis using that[of "-1"] eq None nil by simp
  next
    case (Some c)
    then have c: "c \<in> set (ancs db a)" "c \<in> set (ancs db b)"
      by (auto simp: find_Some_iff in_set_conv_nth)
    have cv: "objects db c \<noteq> None" using ancs_subtree[OF hier valid_ancs[OF c(1)]] c(1) by blast
    then have "c \<noteq> NOTHING" using table_ok_NOTHING[OF hier_okD(1)[OF hier]] by auto
    then show thesis using that[of c] eq Some split[OF c(1)] split[OF c(2)] c cv by auto
  qed
qed

lemma fix_slots_apply:
  assumes "ob_propval ob = own @ mid @ rest" "length own = loc_of db r rob x" "length mid = old"
  shows "ob_propval (fix_slots db r rob old pvs x ob) = own @ map (inherited ob) pvs @ rest"
  using assms by (simp add: fix_slots_def)

text \<open>
  \<open>before\<close> is a well-formed database and \<open>db\<close> the state in which \<open>r\<close> has been linked to
  its new parent and the slots have not been touched.
\<close>

lemma fix_after_correct:
  assumes L: "layout_ok before" and r: "objects before r = Some rob"
    and np: "np \<notin> subtree before r" "np = NOTHING \<or> objects before np \<noteq> None"
    and m: "moved before r np db" and hier: "hier_ok db"
    and clash: "\<forall>d \<in> set (all_defs before np). \<forall>y \<in> subtree before r.
      \<forall>e \<in> set (defs_of before y). key e \<noteq> key d"
  shows "\<exists>db'. dbpriv_fix_properties_after_chparent db r (ob_parent rob) = Some db' \<and>
    layout_ok db' \<and> all_users db' = all_users db \<and> vc_table db' = vc_table db \<and>
    (\<exists>U. keeps_defs U \<and> db' = app U (subtree before r) db)"
proof -
  let ?old = "ob_parent rob"
  note hb = layout_hier[OF L]
  obtain c0 s0 where r': "objects db r = Some (rob\<lparr>ob_child := c0, ob_sibling := s0, ob_parent := np\<rparr>)"
    using moved_Some[OF m r] by auto
  let ?rob = "rob\<lparr>ob_child := c0, ob_sibling := s0, ob_parent := np\<rparr>"
  have old: "objects before ?old \<noteq> None \<or> ?old = NOTHING"
    using hier_okD(4)[OF hb, of r ?old] r by (auto simp: parent_rel_Some)
  have old_out: "objects before ?old = None \<or> ?old \<notin> subtree before r"
  proof (cases "?old = NOTHING")
    case True
    then show ?thesis using table_ok_NOTHING[OF hier_okD(1)[OF hb]] by simp
  next
    case False
    then have "(r, ?old) \<in> parent_rel before" using r by (simp add: parent_rel_Some)
    then show ?thesis using subtree_acyclic[OF hier_okD(2)[OF hb]] by blast
  qed
  have np_out: "objects before np = None \<or> np \<notin> subtree before r" using np by blast
  have ad_old: "all_defs db ?old = all_defs before ?old" and ad_np: "all_defs db np = all_defs before np"
    using moved_all_defs_outside[OF m hb hier r] old_out np_out by blast+
  have val: "objects db np \<noteq> None \<or> np = NOTHING" "objects db ?old \<noteq> None \<or> ?old = NOTHING"
    using np(2) old unfolding moved_None[OF m] by metis+
  obtain c A B where c: "common_ancestor db np ?old = Some c"
    "all_defs db np = A @ all_defs db c" "all_defs db ?old = B @ all_defs db c"
    using common_split[OF hier val] by metis
  let ?o = "length B" and ?n = "length A" and ?c = "length (all_defs db c)"
  have sub: "subtree db r = subtree before r" using moved_subtree(1)[OF m hb r np(1)] .
  have loc: "loc_of db r ?rob x = length (path_defs before r x) + length (ob_propdefs rob)"
    if "objects before x = Some ob" "x \<in> subtree before r" for x ob
    using moved_path[OF m hb hier r np(1) that] by (simp add: loc_of_def)
  have before_defs: "all_defs before x = path_defs before r x @ ob_propdefs rob @ B @ all_defs db c"
    if "objects before x = Some ob" "x \<in> subtree before r" for x ob
    using all_defs_put(2)[OF hb r refl that] ad_old c(3) by simp
  have size: "length (ob_propval ob) = loc_of db r ?rob x + ?o + ?c"
    if "x \<in> subtree db r" "objects db x = Some ob" for x ob
  proof -
    from moved_back[OF m that(2)] obtain ob0 where ob0: "objects before x = Some ob0"
      "ob_propval ob = ob_propval ob0" by auto
    have "length (ob_propval ob0) = length (all_defs before x)"
      using layout_obj[OF L ob0(1)] by (simp add: obj_layout_def)
    then show ?thesis using before_defs[OF ob0(1)] loc[OF ob0(1)] that(1) ob0(2) sub by simp
  qed
  define npob where "npob = the (objects db np)"
  have npob: "objects db np = Some npob \<and> length (ob_propval npob) = ?n + ?c" if "?n \<noteq> 0"
  proof -
    have "all_defs db np \<noteq> []" using that c(2) by auto
    then obtain q where q: "objects db np = Some q" using all_defs_None[OF hier] by (cases "objects db np") auto
    from moved_back[OF m q] obtain q0 where q0: "objects before np = Some q0" "ob_propval q = ob_propval q0" by auto
    have "length (ob_propval q0) = length (all_defs before np)"
      using layout_obj[OF L q0(1)] by (simp add: obj_layout_def)
    also have "\<dots> = ?n + ?c" unfolding ad_np[symmetric] c(2) by simp
    finally show ?thesis using q q0(2) by (simp add: npob_def)
  qed
  define pvs where "pvs = (if ?n = 0 then [] else take ?n (ob_propval npob))"
  let ?U = "fix_slots db r ?rob ?o pvs"
  let ?db = "app ?U (subtree db r) db"
  have len_pvs: "length pvs = ?n" using npob by (auto simp: pvs_def)
  have "fix_props db r 0 ?o ?n ?c = Some ?db"
    by (rule fix_props_eq[OF hier r' size]) (use npob in \<open>auto simp: pvs_def\<close>)
  moreover have "(if c \<noteq> NOTHING then dbpriv_count_properties db c else Some 0) = Some ?c"
    using count_properties[OF hier] all_defs_None[OF hier] table_ok_NOTHING[OF hier_okD(1)[OF hier]] by auto
  ultimately have run: "dbpriv_fix_properties_after_chparent db r ?old = Some ?db"
    using c r' count_properties[OF hier]
    by (simp add: dbpriv_fix_properties_after_chparent_def db_object_parent_def)
  have hier': "hier_ok ?db" and ad: "all_defs ?db x = all_defs db x" for x
    using all_defs_app[OF hier fix_slots_keeps(1)] by blast+
  have "obj_layout ?db x ob'" if x: "objects ?db x = Some ob'" for x ob'
  proof -
    from table_app[OF x] obtain ob where ob: "objects db x = Some ob"
      "ob' = (if x \<in> subtree db r then ?U x ob else ob)" by blast
    from moved_back[OF m ob(1)] obtain ob0 where ob0: "objects before x = Some ob0"
      "ob_propval ob = ob_propval ob0" "ob_propdefs ob = ob_propdefs ob0" "ob_max_props ob = ob_max_props ob0"
      by auto
    have lay: "obj_layout before x ob0" using layout_obj[OF L ob0(1)] .
    show ?thesis
    proof (cases "x \<in> subtree db r")
      case False
      then show ?thesis using lay ob ob0 ad moved_all_defs_outside[OF m hb hier r, of x] sub
        by (simp add: obj_layout_def)
    next
      case True
      then have xb: "x \<in> subtree before r" using sub by simp
      let ?P = "path_defs before r x @ ob_propdefs rob"
      have len: "length (ob_propval ob) = length ?P + ?o + ?c" "loc_of db r ?rob x = length ?P"
        using size[OF True ob(1)] loc[OF ob0(1) xb] by simp_all
      have new: "ob_propval ob' = take (length ?P) (ob_propval ob) @ map (inherited ob) pvs @
          drop (length ?P + ?o) (ob_propval ob)" "ob_propdefs ob' = ob_propdefs ob"
          "ob_max_props ob' = ob_max_props ob"
        using ob(2) True len(2) by (simp_all add: fix_slots_def)
      have defs: "all_defs db x = ?P @ A @ all_defs db c"
        using all_defs_split[OF hier ob(1) True] all_defs_Some[OF hier r'] c(2)
          moved_path[OF m hb hier r np(1) ob0(1) xb] by simp
      have in_P: "\<exists>y \<in> subtree before r. d \<in> set (defs_of before y)" if "d \<in> set ?P" for d
        using that path_defs_subtree[OF hb ob0(1) xb] defs_of_Some[OF r]
        by (metis Un_iff set_append subtree_self)
      have d1: "distinct (map key ?P)"
        using lay before_defs[OF ob0(1) xb] by (auto simp: obj_layout_def)
      have d2: "distinct (map key (A @ all_defs db c))"
      proof (cases "objects before np")
        case None
        then show ?thesis using all_defs_None[OF hb] ad_np c(2) by simp
      next
        case (Some q)
        then show ?thesis using layout_obj[OF L Some] ad_np c(2) by (simp add: obj_layout_def)
      qed
      have d3: "key d \<noteq> key e" if "d \<in> set ?P" "e \<in> set (A @ all_defs db c)" for d e
      proof -
        obtain y where "y \<in> subtree before r" "d \<in> set (defs_of before y)" using in_P \<open>d \<in> set ?P\<close> by blast
        moreover have "e \<in> set (all_defs before np)" using that(2) unfolding ad_np[symmetric] c(2) .
        ultimately show ?thesis using clash by blast
      qed
      have 1: "distinct (map key (all_defs db x))"
        unfolding defs map_append[of key ?P] distinct_append using d1 d2 d3 by fastforce
      have 2: "length (ob_propval ob') = length (all_defs db x)"
        using new(1) len len_pvs defs by simp
      have own: "length (ob_propdefs ob) \<le> length ?P"
        using path_defs_own[OF hb ob0(1), of r] r ob0(1,3) by (cases "x = r") auto
      have 3: "pv_var (ob_propval ob' ! i) \<noteq> VClear" if i: "i < length (ob_propdefs ob')" for i
      proof -
        have "ob_propval ob' ! i = ob_propval ob ! i"
          using i new own len by (simp add: nth_append)
        then show ?thesis using lay ob0 i new(2) by (simp add: obj_layout_def)
      qed
      show ?thesis using 1 2 3 lay ob0 new ad by (simp add: obj_layout_def)
    qed
  qed
  then have L': "layout_ok ?db" using hier' by (simp add: layout_ok_def)
  have same: "all_users ?db = all_users db" "vc_table ?db = vc_table db" by simp_all
  have "\<exists>U. keeps_defs U \<and> ?db = app U (subtree before r) db"
    unfolding sub using fix_slots_keeps(1) by blast
  then show ?thesis using run L' same by blast
qed

section \<open>\<open>db_change_parent\<close>\<close>

definition chparent_ok :: "db \<Rightarrow> objid \<Rightarrow> objid \<Rightarrow> bool" where
  "chparent_ok db r np \<longleftrightarrow> (\<forall>d \<in> set (all_defs db np). \<forall>y \<in> subtree db r.
     \<forall>e \<in> set (defs_of db y). key e \<noteq> key d)"

lemma db_change_parent_refused:
  assumes "layout_ok db" "objects db r = Some rob" "\<not> chparent_ok db r np"
  shows "db_change_parent db r np = Some (False, db)"
  using check_properties[OF assms(1,2), of np] assms(3)
  by (auto simp: db_change_parent_def chparent_ok_def)

lemma db_change_parent_correct:
  assumes L: "layout_ok db" and r: "objects db r = Some rob"
    and np: "np \<notin> subtree db r" "np = NOTHING \<or> objects db np \<noteq> None"
    and ok: "chparent_ok db r np"
  shows "\<exists>db'. db_change_parent db r np = Some (True, db') \<and> layout_ok db' \<and>
    (\<forall>x. link ob_parent db' x = (if x = r then Some np else link ob_parent db x)) \<and>
    (\<forall>x. defs_of db' x = defs_of db x) \<and> (\<forall>x. map_option outer (objects db' x) = map_option outer (objects db x)) \<and> all_users db' = all_users db \<and>
    vc_table db' = (if ob_child rob = NOTHING \<and> ob_verbdefs rob = [] then vc_table db
      else vc_table (db_priv_affected_callable_verb_lookup db))"
proof -
  define db1 where "db1 = (if ob_child rob = NOTHING \<and> ob_verbdefs rob = [] then db
    else db_priv_affected_callable_verb_lookup db)"
  have same: "objects db1 = objects db" "num_objects db1 = num_objects db" "max_objects db1 = max_objects db"
    "all_users db1 = all_users db"
    by (simp_all add: db1_def)
  note so = same_objects[OF same(1-3)]
  have L1: "layout_ok db1" using so(4) L by simp
  have "subtree db1 = subtree db"
    using same(1) by (simp add: fun_eq_iff subtree_def parent_rel_def link_def)
  then have np1: "np \<notin> subtree db1 r" "np = NOTHING \<or> objects db1 np \<noteq> None"
    and clash: "\<forall>d \<in> set (all_defs db1 np). \<forall>y \<in> subtree db1 r. \<forall>e \<in> set (defs_of db1 y). key e \<noteq> key d"
    using np ok so(3)[OF layout_hier[OF L]] same(1) by (simp_all add: chparent_ok_def defs_of_def)
  have r1: "objects db1 r = Some rob" using r same(1) by simp
  obtain db2 where db2: "relink_parent db1 r np = Some db2" "moved db1 r np db2" "hier_ok db2"
    "all_users db2 = all_users db1" "vc_table db2 = vc_table db1"
    using relink_parent_correct[OF layout_hier[OF L1] r1 np1] by blast
  obtain db3 U where db3: "dbpriv_fix_properties_after_chparent db2 r (ob_parent rob) = Some db3"
    "layout_ok db3" "all_users db3 = all_users db2" "vc_table db3 = vc_table db2"
    "keeps_defs U" "db3 = app U (subtree db1 r) db2"
    using fix_after_correct[OF L1 r1 np1 db2(2,3) clash] by blast
  have "dbpriv_check_properties_for_chparent db r np = Some True"
    using check_properties[OF L r] ok by (simp add: chparent_ok_def)
  then have run: "db_change_parent db r np = Some (True, db3)"
    using db2(1) db3(1) r r1
    by (auto simp: db_change_parent_def relink_parent_def db_object_parent_def bind_Some_iff
      simp flip: db1_def)
  have "link ob_parent db3 x = (if x = r then Some np else link ob_parent db x)" for x
  proof (cases "objects db x")
    case None
    then have "objects db2 x = None" using moved_None[OF db2(2)] same(1) by simp
    then show ?thesis using None r db3(6) by (auto simp: link_def)
  next
    case (Some ob)
    then have "objects db1 x = Some ob" using same(1) by simp
    from moved_Some[OF db2(2) this] obtain c s where "objects db2 x = Some (ob\<lparr>ob_child := c,
        ob_sibling := s, ob_parent := (if x = r then np else ob_parent ob)\<rparr>)" by blast
    then show ?thesis using Some db3(5,6) by (auto simp: link_def keeps_defs_def keeps_hier_def)
  qed
  moreover have "defs_of db3 x = defs_of db x" for x
    using defs_of_app[OF db3(5)] db3(6) moved_defs_of[OF db2(2)] same(1) by (simp add: defs_of_def)
  moreover have "map_option outer (objects db3 x) = map_option outer (objects db x)" for x
    using outer_app[OF db3(5)] db3(6) moved_outer[OF db2(2)] same(1) by simp
  moreover have "vc_table db3 = (if ob_child rob = NOTHING \<and> ob_verbdefs rob = [] then vc_table db
      else vc_table (db_priv_affected_callable_verb_lookup db))"
    using db2(5) db3(4) by (simp add: db1_def)
  ultimately show ?thesis using run db3(2,3) db2(4) same(4) by auto
qed

end
