(* ===== verification/Db_Lifecycle.thy ===== *)
theory Db_Lifecycle
  imports Db_Chparent
begin

text \<open>
  The life of an object: creation and destruction keep the database well formed, and a move
  between locations keeps the contents lists exact.
\<close>

section \<open>Writing fields the layout does not depend on\<close>

lemma layout_ok_put:
  assumes L: "layout_ok db" and x: "objects db x = Some ob" and sh: "shape ob' = shape ob"
    and f: "ob_propdefs ob' = ob_propdefs ob" "ob_propval ob' = ob_propval ob" "ob_max_props ob' = ob_max_props ob"
  shows "layout_ok (put_object db x (Some ob'))"
proof -
  note hier = layout_hier[OF L]
  have ss: "same_shape db (put_object db x (Some ob'))" using same_shape_put[OF x sh] .
  have "defs_of (put_object db x (Some ob')) y = defs_of db y" for y using x f by (simp add: defs_of_def)
  then have "defs_of (put_object db x (Some ob')) = defs_of db" by blast
  then have ad: "all_defs (put_object db x (Some ob')) y = all_defs db y" for y
    by (simp only: all_defs_def same_shape_ancs[OF hier ss])
  have "obj_layout (put_object db x (Some ob')) y o1"
    if "objects (put_object db x (Some ob')) y = Some o1" for y o1
    using that layout_obj[OF L] x f by (auto simp: obj_layout_def ad split: if_splits)
  then show ?thesis using same_shape_hier[OF ss hier] by (simp add: layout_ok_def)
qed

section \<open>An object that nothing refers to\<close>

text \<open>
  Two states that differ in one object only, which in both is missing or alone: no parent, no
  child, nobody's parent.
\<close>

definition alone :: "db \<Rightarrow> objid \<Rightarrow> bool" where
  "alone db n \<longleftrightarrow> (\<forall>ob. objects db n = Some ob \<longrightarrow> ob_parent ob = NOTHING \<and> ob_child ob = NOTHING) \<and> (\<forall>c. (c, n) \<notin> parent_rel db)"

lemma alone_kids_other:
  assumes "kids_ok db" "alone db n" "objects db p \<noteq> None" "p \<noteq> n" "p \<noteq> NOTHING"
  shows "\<exists>cs. list_at ob_child ob_sibling db p cs \<and> set cs = {c. link ob_parent db c = Some p} \<and> n \<notin> set cs"
proof -
  obtain cs where cs: "list_at ob_child ob_sibling db p cs" "set cs = {c. link ob_parent db c = Some p}"
    using assms(1,3) unfolding kids_ok_def by blast
  moreover have "link ob_parent db n \<noteq> Some p"
    using assms(2,5) by (auto simp: alone_def link_def)
  ultimately show ?thesis by blast
qed

lemma replace_alone_hier:
  assumes hier: "hier_ok db" and al: "alone db n" "alone db' n"
    and same: "\<And>y. y \<noteq> n \<Longrightarrow> objects db' y = objects db y" and t: "table_ok db'"
  shows "hier_ok db'"
proof -
  have pr: "parent_rel db' = parent_rel db"
  proof -
    have "(c, p) \<in> parent_rel db' \<longleftrightarrow> (c, p) \<in> parent_rel db" for c p
    proof (cases "c = n")
      case True
      then show ?thesis using al by (auto simp: parent_rel_def link_def alone_def)
    next
      case False
      then show ?thesis by (simp add: parent_rel_def link_def same)
    qed
    then show ?thesis by auto
  qed
  have "kids_ok db'"
    unfolding kids_ok_def
  proof (intro allI impI)
    fix p assume p: "objects db' p \<noteq> None"
    have pn: "p \<noteq> NOTHING" using p table_ok_NOTHING[OF t] by auto
    have ch: "{c. link ob_parent db' c = Some p} = {c. (c, p) \<in> parent_rel db'}" using pn by (auto simp: parent_rel_def)
    show "\<exists>cs. list_at ob_child ob_sibling db' p cs \<and> set cs = {c. link ob_parent db' c = Some p}"
    proof (cases "p = n")
      case True
      then have "link ob_child db' p = Some NOTHING" using p al(2) by (auto simp: alone_def link_def)
      then have "list_at ob_child ob_sibling db' p []" by (simp add: list_at_def)
      moreover have "{c. (c, p) \<in> parent_rel db'} = {}" using True al(2) by (auto simp: alone_def)
      ultimately show ?thesis unfolding ch by (metis list.set(1))
    next
      case False
      have p0: "objects db p \<noteq> None" using p False same by simp
      obtain cs where cs: "list_at ob_child ob_sibling db p cs" "set cs = {c. link ob_parent db c = Some p}" "n \<notin> set cs"
        using alone_kids_other[OF hier_okD(3)[OF hier] al(1) p0 False pn] by blast
      have "chain (link ob_sibling db') h cs = chain (link ob_sibling db) h cs" for h
        using cs(3) same by (intro chain_cong) (metis link_def)
      then have "list_at ob_child ob_sibling db' p cs" using cs(1) False same by (simp add: list_at_def link_def)
      moreover have "set cs = {c. (c, p) \<in> parent_rel db'}" using cs(2) pn pr by (auto simp: parent_rel_def)
      ultimately show ?thesis unfolding ch by blast
    qed
  qed
  moreover have "objects db' p \<noteq> None" if "(c, p) \<in> parent_rel db'" for c p
    using that pr hier_okD(4)[OF hier] al(2) same by (metis alone_def)
  ultimately show ?thesis using t hier_okD(2)[OF hier] pr by (simp add: hier_ok_def)
qed

lemma replace_alone_defs:
  assumes hier: "hier_ok db" "hier_ok db'" and al: "alone db n"
    and same: "\<And>y. y \<noteq> n \<Longrightarrow> objects db' y = objects db y" and x: "objects db x = Some ob" "x \<noteq> n"
  shows "all_defs db' x = all_defs db x"
  using hier(1) x
proof (induction rule: hier_induct_up)
  case (obj x ob)
  have o': "objects db' x = Some ob" using obj.hyps(1) obj.prems same by simp
  have "all_defs db' (ob_parent ob) = all_defs db (ob_parent ob)"
  proof (cases "ob_parent ob = NOTHING")
    case True
    then show ?thesis using all_defs_None hier table_ok_NOTHING hier_okD(1) by metis
  next
    case False
    then have p: "(x, ob_parent ob) \<in> parent_rel db" using parent_rel_Some[OF obj.hyps(1)] by simp
    then have "ob_parent ob \<noteq> n" using al by (auto simp: alone_def)
    then show ?thesis using obj.IH hier_okD(4)[OF hier(1) p] by auto
  qed
  then show ?case using all_defs_Some[OF hier(1) obj.hyps(1)] all_defs_Some[OF hier(2) o'] by simp
qed

lemma replace_alone_layout:
  assumes L: "layout_ok db" and al: "alone db n" "alone db' n"
    and same: "\<And>y. y \<noteq> n \<Longrightarrow> objects db' y = objects db y" and t: "table_ok db'"
    and n: "\<And>ob. objects db' n = Some ob \<Longrightarrow> ob_propdefs ob = [] \<and> ob_propval ob = []"
  shows "layout_ok db'"
proof -
  note hier = layout_hier[OF L]
  have hier': "hier_ok db'" using replace_alone_hier[OF hier al same t] .
  have "obj_layout db' x ob" if ob: "objects db' x = Some ob" for x ob
  proof (cases "x = n")
    case True
    have "all_defs db' (ob_parent ob) = []"
      using ob True al(2) all_defs_None[OF hier' table_ok_NOTHING[OF t]] by (simp add: alone_def)
    then show ?thesis using n ob True all_defs_Some[OF hier' ob] by (simp add: obj_layout_def)
  next
    case False
    then have o: "objects db x = Some ob" using ob same by simp
    then show ?thesis using layout_obj[OF L o] replace_alone_defs[OF hier hier' al(1) same o False]
      by (simp add: obj_layout_def)
  qed
  then show ?thesis using hier' by (simp add: layout_ok_def)
qed

section \<open>Creation and destruction\<close>

lemma create_object_correct:
  assumes L: "layout_ok db"
  shows "\<exists>db'. db_create_object db g = Some (num_objects db, db') \<and> layout_ok db' \<and>
    objects db (num_objects db) = None \<and>
    objects db' = (objects db)(num_objects db \<mapsto> init_object (g\<lparr>ob_id := num_objects db\<rparr>)) \<and>
    num_objects db' = num_objects db + 1 \<and> vc_table db' = vc_table db \<and> all_users db' = all_users db"
proof -
  let ?n = "num_objects db"
  note t = hier_okD(1)[OF layout_hier[OF L]]
  have none: "objects db ?n = None"
    using t unfolding table_ok_def by (metis less_irrefl option.exhaust)
  let ?ob = "init_object (g\<lparr>ob_id := ?n\<rparr>)"
  let ?db1 = "(put_object (ensure_new_object db) ?n (Some (g\<lparr>ob_id := ?n\<rparr>)))\<lparr>num_objects := ?n + 1\<rparr>"
  let ?db = "put_object ?db1 ?n (Some ?ob)"
  have run: "db_create_object db g = Some (?n, ?db)"
    by (simp add: db_create_object_def dbpriv_new_object_def Let_def mod_object_Some)
  have objs: "objects ?db = (objects db)(?n \<mapsto> ?ob)" by simp
  have room: "?n < max_objects (ensure_new_object db)"
    using t by (intro ensure_new_object_room) (simp_all add: table_ok_def)
  have t': "table_ok ?db"
    using t room by (auto simp: table_ok_def objs init_object_def split: if_splits)
      (metis less_le_not_le nle_le zle_add1_eq_le)+
  have noref: "(c, ?n) \<notin> parent_rel db" for c using none hier_okD(4)[OF layout_hier[OF L]] by metis
  have al: "alone db ?n" using none noref by (simp add: alone_def)
  have n0: "?n \<noteq> -1" using t by (simp add: table_ok_def)
  have al': "alone ?db ?n"
    unfolding alone_def
  proof (intro conjI allI impI)
    fix c show "(c, ?n) \<notin> parent_rel ?db"
      using noref[of c] n0 by (cases "c = ?n") (simp_all add: parent_rel_def link_def init_object_def)
  qed (simp_all add: init_object_def)
  have "layout_ok ?db"
    by (rule replace_alone_layout[OF L al al' _ t']) (simp_all add: init_object_def)
  then show ?thesis using run none by (intro exI[of _ ?db]) simp
qed

definition users_ok :: "db \<Rightarrow> bool" where
  "users_ok db \<longleftrightarrow> (\<forall>v \<in> set (all_users db). \<exists>x. v = VObj x)"

lemma destroy_object_correct:
  assumes L: "layout_ok db" and u: "users_ok db" and x: "objects db x = Some ob"
    and free: "ob_location ob = NOTHING" "ob_contents ob = NOTHING" "ob_parent ob = NOTHING" "ob_child ob = NOTHING"
  shows "\<exists>db'. db_destroy_object db x = Some db' \<and> layout_ok db' \<and>
    objects db' = (objects db)(x := None) \<and> num_objects db' = num_objects db \<and>
    (vc_table db' = None \<or> vc_table db' = Some (\<lambda>_. []))"
proof -
  note t = hier_okD(1)[OF layout_hier[OF L]]
  let ?f = "db_priv_affected_callable_verb_lookup db"
  have fnd: "dbpriv_find_object ?f x = Some ob" using x t by (simp add: dbpriv_find_object_def table_ok_def) force
  have len: "length (ob_propdefs ob) \<le> length (ob_propval ob)"
    using layout_obj[OF L x] all_defs_Some[OF layout_hier[OF L] x] by (simp add: obj_layout_def)
  have rm: "\<exists>us. setremove (all_users ?f) (VObj x) = Some us"
  proof -
    have "\<forall>v \<in> set (all_users db). c_value v" using u by (auto simp: users_ok_def)
    then show ?thesis using setremove_spec[of "VObj x" "all_users db"] by auto
  qed
  obtain us where us: "(if is_user ?f x then setremove (all_users ?f) (VObj x) else Some (all_users ?f)) = Some us"
    using rm by (cases "is_user ?f x") auto
  let ?db = "put_object (?f\<lparr>all_users := us\<rparr>) x None"
  have run: "db_destroy_object db x = Some ?db"
    using fnd free us len by (simp add: db_destroy_object_def Let_def)
  have noref: "(c, x) \<notin> parent_rel db" for c
  proof
    assume c: "(c, x) \<in> parent_rel db"
    obtain cs where cs: "list_at ob_child ob_sibling db x cs" "set cs = {c. link ob_parent db c = Some x}"
      using hier_okD(3)[OF layout_hier[OF L]] x unfolding kids_ok_def by blast
    have "cs = []" using cs(1) x free(4) by (simp add: list_at_def link_def)
    then show False using cs(2) c by (simp add: parent_rel_def)
  qed
  have al: "alone db x" using x free noref by (simp add: alone_def)
  have "parent_rel ?db \<subseteq> parent_rel db" by (auto simp: parent_rel_def link_def split: if_splits)
  then have al': "alone ?db x" using noref by (auto simp: alone_def)
  have t': "table_ok ?db" using t by (auto simp: table_ok_def split: if_splits)
  have "layout_ok ?db"
    by (rule replace_alone_layout[OF L al al' _ t']) simp_all
  moreover have "vc_table ?db = None \<or> vc_table ?db = Some (\<lambda>_. [])"
    by (simp add: db_priv_affected_callable_verb_lookup_def split: option.splits)
  ultimately show ?thesis using run by (intro exI[of _ ?db]) simp
qed

section \<open>Contents\<close>

text \<open>Every object holds the exact list of the objects located in it.\<close>

definition contents_ok :: "db \<Rightarrow> bool" where
  "contents_ok db \<longleftrightarrow> (\<exists>K. lists_at ob_contents ob_next db K \<and>
     (\<forall>p. objects db p \<noteq> None \<longrightarrow> set (K p) = {c. link ob_location db c = Some p}))"

lemma contents_of_list: "list_at ob_contents ob_next db p cs \<Longrightarrow> db_contents db p = Some cs"
  by (auto simp: list_at_def db_contents_def link_Some dest: ll_list_chain)

definition same_but_contents :: "db \<Rightarrow> db \<Rightarrow> bool" where
  "same_but_contents db db' \<longleftrightarrow> relinked ob_contents_update ob_next_update db db'"

lemma same_but_contents_Some:
  assumes "relinked ob_contents_update ob_next_update db db'" "objects db x = Some ob"
  shows "\<exists>c n. objects db' x = Some (ob\<lparr>ob_contents := c, ob_next := n\<rparr>)"
proof -
  obtain h n where "db' = db\<lparr>objects := \<lambda>x. map_option (\<lambda>ob. ob_next_update (n x) (ob_contents_update (h x) ob)) (objects db x)\<rparr>"
    using assms(1) unfolding relinked_def by blast
  then have "objects db' x = Some (ob\<lparr>ob_contents := h x (ob_contents ob), ob_next := n x (ob_next ob)\<rparr>)"
    using assms(2) by simp
  then show ?thesis by blast
qed

lemma same_but_contents_rest:
  assumes "relinked ob_contents_update ob_next_update db db'"
  shows "objects db x = None \<Longrightarrow> objects db' x = None" "num_objects db' = num_objects db"
    "max_objects db' = max_objects db" "all_users db' = all_users db" "vc_table db' = vc_table db"
    "link ob_location db' = link ob_location db"
  using assms by (auto simp: relinked_def link_def option.map_comp comp_def)

lemma same_but_contents_layout:
  assumes L: "layout_ok db" and r: "relinked ob_contents_update ob_next_update db db'"
  shows "layout_ok db'"
proof -
  note hier = layout_hier[OF L]
  have ss: "same_shape db db'"
    unfolding same_shape_def
  proof (intro conjI allI)
    fix x show "map_option shape (objects db' x) = map_option shape (objects db x)"
    proof (cases "objects db x")
      case (Some ob)
      then show ?thesis using same_but_contents_Some[OF r Some] by (auto simp: shape_def)
    qed (use same_but_contents_rest(1)[OF r] in simp)
  qed (use same_but_contents_rest(2,3)[OF r] in simp_all)
  have "defs_of db' y = defs_of db y" for y
  proof (cases "objects db y")
    case (Some ob)
    then show ?thesis using same_but_contents_Some[OF r Some] by (auto simp: defs_of_def)
  qed (use same_but_contents_rest(1)[OF r] in \<open>simp add: defs_of_def\<close>)
  then have "defs_of db' = defs_of db" by blast
  then have ad: "all_defs db' y = all_defs db y" for y
    by (simp only: all_defs_def same_shape_ancs[OF hier ss])
  have "obj_layout db' x ob'" if "objects db' x = Some ob'" for x ob'
  proof -
    have "objects db x \<noteq> None" using that same_but_contents_rest(1)[OF r, of x] by auto
    then obtain ob where ob: "objects db x = Some ob" by blast
    then show ?thesis using that same_but_contents_Some[OF r ob] layout_obj[OF L ob]
      by (auto simp: obj_layout_def ad)
  qed
  then show ?thesis using same_shape_hier[OF ss hier] by (simp add: layout_ok_def)
qed

definition lookup_part :: "obj \<Rightarrow> objid \<times> objid \<times> verbdef list" where
  "lookup_part ob = (ob_id ob, ob_parent ob, ob_verbdefs ob)"

lemma change_location_correct:
  assumes t: "table_ok db" and c: "contents_ok db" and r: "objects db r = Some rob"
  shows "\<exists>db'. db_change_location db r loc = Some db' \<and> contents_ok db' \<and>
    (\<forall>x. link ob_location db' x = (if x = r then Some loc else link ob_location db x)) \<and>
    (\<forall>p cs. db_contents db p = Some cs \<longrightarrow>
       db_contents db' p = Some (if p = loc then remove1 r cs @ [r] else remove1 r cs)) \<and>
    (layout_ok db \<longrightarrow> layout_ok db') \<and> vc_table db' = vc_table db \<and> all_users db' = all_users db \<and>
    num_objects db' = num_objects db \<and>
    (\<forall>x. map_option lookup_part (objects db' x) = map_option lookup_part (objects db x))"
proof -
  let ?old = "ob_location rob"
  obtain K where K: "lists_at ob_contents ob_next db K"
    and sets: "\<And>p. objects db p \<noteq> None \<Longrightarrow> set (K p) = {c. link ob_location db c = Some p}"
    using c unfolding contents_ok_def by blast
  have rn: "r \<noteq> NOTHING" using r table_ok_NOTHING[OF t] by auto
  have rl: "link ob_location db r = Some ?old" using r by (simp add: link_def)
  have val: "valid db p \<longleftrightarrow> objects db p \<noteq> None" for p using table_ok_valid[OF t] .
  have disj: "set (K q) \<inter> set (K p) = {}" if "q \<noteq> p" "objects db q \<noteq> None" "objects db p \<noteq> None" for p q
    using sets[OF that(2)] sets[OF that(3)] that(1) by auto
  have dist: "distinct (K p)" if "objects db p \<noteq> None" for p
    using K that chain_distinct by (auto simp: lists_at_def list_at_def)
  define K2 where "K2 = (if valid db ?old then K(?old := remove1 r (K ?old)) else K)"
  have "\<exists>db2. (if valid db ?old
      then LL_REMOVE ob_contents ob_contents_update ob_next ob_next_update db ?old r else Some db) = Some db2 \<and>
      relinked ob_contents_update ob_next_update db db2 \<and> lists_at ob_contents ob_next db2 K2"
  proof (cases "valid db ?old")
    case False
    then show ?thesis using K conts.relinked_refl by (simp add: K2_def)
  next
    case True
    then have o: "objects db ?old \<noteq> None" using val by blast
    have "r \<in> set (K ?old)" using sets[OF o] rl by simp
    from conts.remove_member[OF K o this] disj o show ?thesis
      using True by (auto simp: K2_def)
  qed
  then obtain db2 where db2: "(if valid db ?old
      then LL_REMOVE ob_contents ob_contents_update ob_next ob_next_update db ?old r else Some db) = Some db2"
    "relinked ob_contents_update ob_next_update db db2" "lists_at ob_contents ob_next db2 K2" by blast
  have dom2: "objects db2 x \<noteq> None \<longleftrightarrow> objects db x \<noteq> None" for x
    using same_but_contents_rest(1)[OF db2(2), of x] same_but_contents_Some[OF db2(2), of x]
    by (cases "objects db x") auto
  have K2r: "K2 p = remove1 r (K p)" if p: "objects db p \<noteq> None" for p
  proof (cases "p = ?old")
    case True
    then show ?thesis using p val by (simp add: K2_def)
  next
    case False
    then have "r \<notin> set (K p)" using sets[OF p] rl by simp
    then show ?thesis using False by (simp add: K2_def remove1_idem)
  qed
  have sets2: "set (K2 p) = {c. c \<noteq> r \<and> link ob_location db c = Some p}" if p: "objects db p \<noteq> None" for p
    using K2r[OF p] sets[OF p] dist[OF p] by auto
  have val2: "valid db2 loc \<longleftrightarrow> objects db loc \<noteq> None"
    using dom2[of loc] same_but_contents_rest(2)[OF db2(2)] t val[of loc]
    by (auto simp: valid_def dbpriv_find_object_def table_ok_def)
  define K3 where "K3 = (if objects db loc \<noteq> None then K2(loc := K2 loc @ [r]) else K2)"
  have "\<exists>db3. (if valid db2 loc
      then LL_APPEND ob_contents ob_contents_update ob_next ob_next_update db2 loc r else Some db2) = Some db3 \<and>
      relinked ob_contents_update ob_next_update db2 db3 \<and> lists_at ob_contents ob_next db3 K3"
  proof (cases "objects db loc = None")
    case True
    then show ?thesis using db2(3) conts.relinked_refl val2 by (simp add: K3_def)
  next
    case False
    have d2: "set (K2 q) \<inter> set (K2 loc) = {}" if "q \<noteq> loc" "objects db2 q \<noteq> None" for q
      unfolding sets2[OF False] sets2[OF dom2[THEN iffD1, OF that(2)]] using that(1) by auto
    have out: "r \<notin> set (K2 q)" if "objects db2 q \<noteq> None" for q
      unfolding sets2[OF dom2[THEN iffD1, OF that]] by simp
    have v: "objects db2 loc \<noteq> None" "objects db2 r \<noteq> None" using False r dom2 by auto
    show ?thesis using conts.append_member[OF db2(3) v(1) rn v(2) out d2] False val2 by (simp add: K3_def)
  qed
  then obtain db3 where db3: "(if valid db2 loc
      then LL_APPEND ob_contents ob_contents_update ob_next ob_next_update db2 loc r else Some db2) = Some db3"
    "relinked ob_contents_update ob_next_update db2 db3" "lists_at ob_contents ob_next db3 K3" by blast
  have rel: "relinked ob_contents_update ob_next_update db db3" using conts.relinked_trans[OF db2(2) db3(2)] .
  obtain cc n where r3: "objects db3 r = Some (rob\<lparr>ob_contents := cc, ob_next := n\<rparr>)"
    using same_but_contents_Some[OF rel r] by blast
  define db4 where "db4 = put_object db3 r (Some (rob\<lparr>ob_contents := cc, ob_next := n, ob_location := loc\<rparr>))"
  have run: "db_change_location db r loc = Some db4"
    using db2(1) db3(1) r r3 by (simp add: db_change_location_def db_object_location_def db4_def mod_object_Some)
  have lc: "link ob_location db4 x = (if x = r then Some loc else link ob_location db x)" for x
    using same_but_contents_rest(6)[OF rel] by (simp add: db4_def)
  have dom4: "objects db4 p \<noteq> None \<longleftrightarrow> objects db p \<noteq> None" for p
    using same_but_contents_rest(1)[OF rel, of p] same_but_contents_Some[OF rel, of p] r
    by (cases "objects db p") (auto simp: db4_def)
  have "link ob_contents db4 = link ob_contents db3" "link ob_next db4 = link ob_next db3"
    using r3 by (auto simp: db4_def fun_eq_iff link_def)
  then have K4: "lists_at ob_contents ob_next db4 K3"
    using db3(3) r3 by (simp add: lists_at_def list_at_def db4_def)
  have K3s: "K3 p = (if p = loc then remove1 r (K p) @ [r] else remove1 r (K p))" if "objects db p \<noteq> None" for p
    using K2r[OF that] that by (auto simp: K3_def)
  have "set (K3 p) = {c. link ob_location db4 c = Some p}" if p: "objects db4 p \<noteq> None" for p
    using K3s[OF dom4[THEN iffD1, OF p]] sets[OF dom4[THEN iffD1, OF p]] dist[OF dom4[THEN iffD1, OF p]]
    by (auto simp: lc split: if_splits)
  then have "contents_ok db4" using K4 unfolding contents_ok_def by blast
  moreover have "db_contents db4 p = Some (if p = loc then remove1 r cs @ [r] else remove1 r cs)"
    if "db_contents db p = Some cs" for p cs
  proof -
    have p: "objects db p \<noteq> None" using that by (auto simp: db_contents_def bind_Some_iff)
    then have "cs = K p" using K contents_of_list[of db p "K p"] that by (simp add: lists_at_def)
    moreover have "db_contents db4 p = Some (K3 p)"
      using K4 contents_of_list dom4 p by (simp add: lists_at_def)
    ultimately show ?thesis using K3s[OF p] by simp
  qed
  moreover have "layout_ok db4" if "layout_ok db"
    using layout_ok_put[OF same_but_contents_layout[OF that rel] r3,
      of "rob\<lparr>ob_contents := cc, ob_next := n, ob_location := loc\<rparr>"]
    by (simp add: db4_def shape_def)
  moreover have "map_option lookup_part (objects db4 x) = map_option lookup_part (objects db x)" for x
    using same_but_contents_Some[OF rel, of x] same_but_contents_rest(1)[OF rel, of x] r r3
    by (cases "objects db x") (auto simp: db4_def lookup_part_def)
  moreover have "vc_table db4 = vc_table db" "all_users db4 = all_users db" "num_objects db4 = num_objects db"
    using same_but_contents_rest(2,4,5)[OF rel] by (simp_all add: db4_def)
  ultimately show ?thesis using run lc by blast
qed

end
