(* ===== verification/Parse_Words.thy ===== *)
theory Parse_Words
  imports Moo_Numbers
begin

text \<open>
  Splitting a line into words: the first half of src/src/parse_cmd.c.

  \<open>parse_into_words\<close> works inside its argument: the words, their quotes and backslashes
  removed, are written over the text they came from. The buffer is a list of characters with its
  NUL, every read and write is checked, and \<open>ptr\<close> and \<open>input\<close> are positions in it.
  \<open>split_words\<close> is the reference: what the words of a text are.
\<close>

abbreviation NUL :: char where "NUL \<equiv> CHR 0x00"
abbreviation QUOTE :: char where "QUOTE \<equiv> CHR 34"
abbreviation BSLASH :: char where "BSLASH \<equiv> CHR 92"

section \<open>In place\<close>

text \<open>\<open>while (*input == ' ') input++;\<close>\<close>

partial_function (option) skip_blanks :: "string \<Rightarrow> nat \<Rightarrow> nat option" where
  "skip_blanks buf input = do {
     c \<leftarrow> nth_opt buf (int input);
     if c = CHR '' '' then skip_blanks buf (input + 1) else Some input }"

declare skip_blanks.simps [code]

text \<open>The characters of one word: the buffer, \<open>input\<close>, \<open>ptr\<close> and \<open>in_quotes\<close> at its end.\<close>

partial_function (option) word_loop ::
  "string \<Rightarrow> nat \<Rightarrow> nat \<Rightarrow> bool \<Rightarrow> (string \<times> nat \<times> nat \<times> bool) option" where
  "word_loop buf input ptr in_quotes = do {
     c \<leftarrow> nth_opt buf (int input);
     if c = NUL \<or> (\<not> in_quotes \<and> c = CHR '' '') then Some (buf, input, ptr, in_quotes)
     else if c = QUOTE then word_loop buf (input + 1) ptr (\<not> in_quotes)
     else if c = BSLASH then do {
       d \<leftarrow> nth_opt buf (int (input + 1));
       if d = NUL then word_loop buf (input + 1) ptr in_quotes
       else do {
         buf1 \<leftarrow> upd_opt buf (int ptr) d;
         word_loop buf1 (input + 2) (ptr + 1) in_quotes } }
     else do {
       buf1 \<leftarrow> upd_opt buf (int ptr) c;
       word_loop buf1 (input + 1) (ptr + 1) in_quotes } }"

declare word_loop.simps [code]

text \<open>The loop over the words; \<open>ws\<close> holds the positions stored in \<open>words\<close> so far.\<close>

partial_function (option) words_loop ::
  "string \<Rightarrow> nat \<Rightarrow> nat \<Rightarrow> bool \<Rightarrow> nat list \<Rightarrow> (nat list \<times> string) option" where
  "words_loop buf input ptr in_quotes ws = do {
     c \<leftarrow> nth_opt buf (int input);
     if c = NUL then Some (ws, buf)
     else do {
       (buf1, input1, ptr1, q1) \<leftarrow> word_loop buf input ptr in_quotes;
       input2 \<leftarrow> skip_blanks buf1 input1;
       buf2 \<leftarrow> upd_opt buf1 (int ptr1) NUL;
       words_loop buf2 input2 (ptr1 + 1) q1 (ws @ [ptr]) } }"

declare words_loop.simps [code]

definition parse_into_words :: "string \<Rightarrow> (nat list \<times> string) option" where
  "parse_into_words buf = do {
     input \<leftarrow> skip_blanks buf 0;
     words_loop buf input 0 False [] }"

text \<open>The C string that starts at a position of a buffer.\<close>

definition c_str :: "string \<Rightarrow> nat \<Rightarrow> string" where
  "c_str buf i = takeWhile (\<lambda>c. c \<noteq> NUL) (drop i buf)"

text \<open>The words of a string, as its callers use them.\<close>

definition words_of :: "string \<Rightarrow> string list option" where
  "words_of s = map_option (\<lambda>(ws, buf). map (c_str buf) ws) (parse_into_words (s @ [NUL]))"

fun build_string :: "string list \<Rightarrow> string" where
  "build_string [] = []"
| "build_string [w] = w"
| "build_string (w # ws) = w @ '' '' @ build_string ws"

definition parse_into_wordlist :: "string \<Rightarrow> var list option" where
  "parse_into_wordlist command = map_option (map VStr) (words_of command)"

section \<open>The reference\<close>

text \<open>The first word of a text and what follows it.\<close>

fun take_word :: "bool \<Rightarrow> string \<Rightarrow> string \<times> string" where
  "take_word q [] = ([], [])"
| "take_word q (c # s) =
     (if \<not> q \<and> c = CHR '' '' then ([], c # s)
      else if c = QUOTE then take_word (\<not> q) s
      else if c = BSLASH then
        (case s of [] \<Rightarrow> ([], []) | d # t \<Rightarrow> (case take_word q t of (w, r) \<Rightarrow> (d # w, r)))
      else (case take_word q s of (w, r) \<Rightarrow> (c # w, r)))"

lemma take_word_length: "length (snd (take_word q s)) \<le> length s"
proof (induction q s rule: take_word.induct)
  case (2 q c s)
  show ?case
  proof (cases "c = BSLASH \<and> (q \<or> c \<noteq> CHR '' '')")
    case True
    then show ?thesis using 2(2) by (cases s) (auto simp: case_prod_beta le_SucI)
  next
    case False
    then show ?thesis using 2(1,3) by (auto simp: case_prod_beta le_SucI)
  qed
qed simp

lemma take_word_shorter:
  assumes "c \<noteq> CHR '' ''"
  shows "length (snd (take_word False (c # s))) < length (c # s)"
proof (cases "c = QUOTE \<or> c \<noteq> BSLASH")
  case True
  then have "snd (take_word False (c # s)) = snd (take_word (c = QUOTE) s)"
    using assms by (auto simp: case_prod_beta)
  then show ?thesis using take_word_length[of "c = QUOTE" s] by simp
next
  case False
  then show ?thesis using take_word_length[of False "tl s"]
    by (cases s) (auto simp: case_prod_beta)
qed

lemma skip_spaces_hd: "skip_spaces s = c # t \<Longrightarrow> c \<noteq> CHR '' ''"
  using hd_dropWhile[of "\<lambda>c. c = CHR '' ''" s] by (simp add: skip_spaces_def)

lemma length_skip_spaces: "length (skip_spaces s) \<le> length s"
  by (simp add: skip_spaces_def length_dropWhile_le)

function split_words :: "string \<Rightarrow> string list" where
  "split_words s = (case skip_spaces s of
     [] \<Rightarrow> []
   | c # t \<Rightarrow> fst (take_word False (c # t)) # split_words (snd (take_word False (c # t))))"
  by pat_completeness auto
termination
proof (relation "measure length")
  fix s c t
  assume a: "skip_spaces s = c # t"
  then have "length (snd (take_word False (c # t))) < length (c # t)"
    by (rule take_word_shorter[OF skip_spaces_hd])
  also have "\<dots> \<le> length s" using length_skip_spaces[of s] a by simp
  finally show "(snd (take_word False (c # t)), s) \<in> measure length" by simp
qed simp

declare split_words.simps [simp del]

section \<open>The loops follow the reference\<close>

lemma nth_opt_append [simp]: "nth_opt (xs @ c # ys) (int (length xs)) = Some c"
  by (simp add: nth_opt_def)

lemma nth_opt_at: "i = length xs \<Longrightarrow> nth_opt (xs @ c # ys) (int i) = Some c"
  by simp

lemma upd_opt_at: "i = length xs \<Longrightarrow> upd_opt (xs @ c # ys) (int i) d = Some (xs @ d # ys)"
  by (simp add: upd_opt_def)

lemma skip_blanks_step:
  "nth_opt buf (int i) = Some c \<Longrightarrow>
    skip_blanks buf i = (if c = CHR '' '' then skip_blanks buf (i + 1) else Some i)"
  by (subst skip_blanks.simps) simp

lemma skip_blanks_correct:
  "skip_blanks (xs @ s @ [NUL]) (length xs) =
    Some (length xs + (length s - length (skip_spaces s)))"
proof (induction s arbitrary: xs)
  case Nil
  show ?case using skip_blanks_step[of "xs @ [NUL]" "length xs" NUL] nth_opt_at[of "length xs" xs NUL "[]"]
    by (simp add: skip_spaces_def)
next
  case (Cons c s)
  have rd: "nth_opt (xs @ (c # s) @ [NUL]) (int (length xs)) = Some c"
    using nth_opt_at[of "length xs" xs c "s @ [NUL]"] by simp
  show ?case
  proof (cases "c = CHR '' ''")
    case True
    have "skip_blanks ((xs @ [c]) @ s @ [NUL]) (length (xs @ [c])) =
        Some (length (xs @ [c]) + (length s - length (skip_spaces s)))"
      by (rule Cons.IH)
    then show ?thesis using True length_skip_spaces[of s] skip_blanks_step[OF rd]
      by (simp add: skip_spaces_def Suc_diff_le)
  next
    case False
    then show ?thesis using skip_blanks_step[OF rd] by (simp add: skip_spaces_def)
  qed
qed

text \<open>
  A word that overwrites the text from \<open>ptr\<close>: what is before \<open>ptr\<close> and after \<open>input\<close>
  stays, and the gap between them never closes beyond nothing.
\<close>

lemma write_at_gap:
  assumes "ptr = length out"
  shows "\<exists>gap'. upd_opt (out @ gap @ c # t) (int ptr) d = Some (out @ d # gap' @ t) \<and> length gap' = length gap"
proof (cases gap)
  case Nil
  then show ?thesis using assms by (simp add: upd_opt_at)
next
  case (Cons g gs)
  have "upd_opt (out @ g # gs @ c # t) (int ptr) d = Some (out @ d # (gs @ [c]) @ t)"
    using assms by (simp add: upd_opt_at)
  then show ?thesis using Cons by (metis append_Cons length_Cons length_append_singleton)
qed

lemma word_loop_stop:
  "nth_opt buf (int i) = Some c \<Longrightarrow> c = NUL \<or> \<not> q \<and> c = CHR '' '' \<Longrightarrow>
    word_loop buf i p q = Some (buf, i, p, q)"
  by (subst word_loop.simps) auto

lemma word_loop_quote:
  "nth_opt buf (int i) = Some QUOTE \<Longrightarrow> word_loop buf i p q = word_loop buf (i + 1) p (\<not> q)"
  by (subst word_loop.simps) simp

lemma word_loop_escape:
  "nth_opt buf (int i) = Some BSLASH \<Longrightarrow> nth_opt buf (int (i + 1)) = Some d \<Longrightarrow> d \<noteq> NUL \<Longrightarrow>
    upd_opt buf (int p) d = Some buf1 \<Longrightarrow> word_loop buf i p q = word_loop buf1 (i + 2) (p + 1) q"
  by (subst word_loop.simps) simp

lemma word_loop_last_escape:
  "nth_opt buf (int i) = Some BSLASH \<Longrightarrow> nth_opt buf (int (i + 1)) = Some NUL \<Longrightarrow>
    word_loop buf i p q = word_loop buf (i + 1) p q"
  by (subst word_loop.simps) simp

lemma word_loop_plain:
  "nth_opt buf (int i) = Some c \<Longrightarrow> \<not> (c = NUL \<or> \<not> q \<and> c = CHR '' '') \<Longrightarrow> c \<noteq> QUOTE \<Longrightarrow> c \<noteq> BSLASH \<Longrightarrow>
    upd_opt buf (int p) c = Some buf1 \<Longrightarrow> word_loop buf i p q = word_loop buf1 (i + 1) (p + 1) q"
  by (subst word_loop.simps) auto

text \<open>The state of the buffer at the end of a word.\<close>

definition word_done ::
  "string \<Rightarrow> nat \<Rightarrow> string \<Rightarrow> string \<Rightarrow> (string \<times> nat \<times> nat \<times> bool) option \<Rightarrow> bool" where
  "word_done out n w r res \<longleftrightarrow> (\<exists>gap q. res =
      Some (out @ w @ gap @ r @ [NUL], length (out @ w @ gap), length (out @ w), q) \<and>
    (r \<noteq> [] \<longrightarrow> \<not> q) \<and> n = length (w @ gap @ r))"

lemma word_done_Cons:
  "word_done (out @ [c]) n w r res \<Longrightarrow> word_done out (Suc n) (c # w) r res"
  unfolding word_done_def by fastforce

lemma word_done_stop:
  assumes "r \<noteq> [] \<longrightarrow> \<not> q"
  shows "word_done out (length (gap @ r)) [] r
    (Some (out @ gap @ r @ [NUL], length (out @ gap), length out, q))"
  unfolding word_done_def using assms by (intro exI[of _ gap] exI[of _ q]) simp

lemma word_loop_correct:
  assumes "c_string s"
  shows "word_done out (length (gap @ s)) (fst (take_word q s)) (snd (take_word q s))
    (word_loop (out @ gap @ s @ [NUL]) (length (out @ gap)) (length out) q)"
  using assms
proof (induction q s arbitrary: out gap rule: take_word.induct)
  case (1 q)
  have rd: "nth_opt (out @ gap @ [NUL]) (int (length (out @ gap))) = Some NUL"
    using nth_opt_at[of "length (out @ gap)" "out @ gap" NUL "[]"] by simp
  show ?case using word_loop_stop[OF rd] word_done_stop[of "[]"] by simp
next
  case (2 q c s)
  have c0: "c \<noteq> NUL" "c_string s" using 2(4) by (auto simp: ch_def)
  have rd: "nth_opt (out @ gap @ (c # s) @ [NUL]) (int (length (out @ gap))) = Some c"
    using nth_opt_at[of "length (out @ gap)" "out @ gap" c "s @ [NUL]"] by simp
  have one: "out @ gap @ (c # s) @ [NUL] = out @ (gap @ [c]) @ s @ [NUL]" by simp
  show ?case
  proof (cases "\<not> q \<and> c = CHR '' ''")
    case True
    then show ?thesis using word_loop_stop[OF rd, of q] word_done_stop[of "c # s" q out gap] by simp
  next
    case nsp: False
    show ?thesis
    proof (cases "c = QUOTE")
      case True
      have "word_loop (out @ gap @ (c # s) @ [NUL]) (length (out @ gap)) (length out) q =
          word_loop (out @ (gap @ [c]) @ s @ [NUL]) (length (out @ gap @ [c])) (length out) (\<not> q)"
        using word_loop_quote[OF rd[unfolded True], of "length out" q] True by simp
      then show ?thesis using 2(1)[OF nsp True c0(2), of out "gap @ [c]"] nsp True by simp
    next
      case nq: False
      show ?thesis
      proof (cases "c = BSLASH")
        case True
        show ?thesis
        proof (cases s)
          case Nil
          have n: "nth_opt (out @ gap @ (c # s) @ [NUL]) (int (length (out @ gap) + 1)) = Some NUL"
            using nth_opt_at[of "length (out @ gap) + 1" "out @ gap @ [c]" NUL "[]"] Nil by simp
          have "word_loop (out @ gap @ (c # s) @ [NUL]) (length (out @ gap)) (length out) q =
              Some (out @ gap @ (c # s) @ [NUL], length (out @ gap) + 1, length out, q)"
            using word_loop_last_escape[of _ _ "length out" q, OF _ n] word_loop_stop[OF n, of q] rd True by metis
          then show ?thesis using nsp nq True Nil word_done_stop[of "[]" q out "gap @ [c]"] by simp
        next
          case (Cons d t)
          have d0: "d \<noteq> NUL" "c_string t" using c0(2) Cons by (auto simp: ch_def)
          have n: "nth_opt (out @ gap @ (c # s) @ [NUL]) (int (length (out @ gap) + 1)) = Some d"
            using nth_opt_at[of "length (out @ gap) + 1" "out @ gap @ [c]" d "t @ [NUL]"] Cons by simp
          obtain gap1 where g: "upd_opt (out @ gap @ (c # s) @ [NUL]) (int (length out)) d =
              Some (out @ d # gap1 @ d # t @ [NUL])" "length gap1 = length gap"
            using write_at_gap[of "length out" out gap c "d # t @ [NUL]" d] Cons by auto
          have "word_loop (out @ gap @ (c # s) @ [NUL]) (length (out @ gap)) (length out) q =
              word_loop (out @ d # gap1 @ d # t @ [NUL]) (length (out @ gap) + 2) (length out + 1) q"
            using word_loop_escape[OF _ n d0(1) g(1)] rd True by blast
          moreover have "word_done (out @ [d]) (length ((gap1 @ [d]) @ t)) (fst (take_word q t)) (snd (take_word q t))
              (word_loop ((out @ [d]) @ (gap1 @ [d]) @ t @ [NUL]) (length ((out @ [d]) @ gap1 @ [d])) (length (out @ [d])) q)"
            by (rule 2(2)[OF nsp nq True Cons d0(2)])
          ultimately show ?thesis using nsp nq True Cons g(2)
            by (auto simp: case_prod_beta dest: word_done_Cons)
        qed
      next
        case False
        obtain gap1 where g: "upd_opt (out @ gap @ (c # s) @ [NUL]) (int (length out)) c =
            Some (out @ c # gap1 @ s @ [NUL])" "length gap1 = length gap"
          using write_at_gap[of "length out" out gap c "s @ [NUL]" c] by auto
        have "word_loop (out @ gap @ (c # s) @ [NUL]) (length (out @ gap)) (length out) q =
            word_loop (out @ c # gap1 @ s @ [NUL]) (length (out @ gap) + 1) (length out + 1) q"
          using word_loop_plain[OF rd _ nq False g(1)] nsp c0 by blast
        moreover have "word_done (out @ [c]) (length (gap1 @ s)) (fst (take_word q s)) (snd (take_word q s))
            (word_loop ((out @ [c]) @ gap1 @ s @ [NUL]) (length ((out @ [c]) @ gap1)) (length (out @ [c])) q)"
          by (rule 2(3)[OF nsp nq False c0(2)])
        ultimately show ?thesis using nsp nq False g(2)
          by (auto simp: case_prod_beta dest: word_done_Cons)
      qed
    qed
  qed
qed

lemma take_word_rest: "snd (take_word q s) \<noteq> [] \<Longrightarrow> hd (snd (take_word q s)) = CHR '' ''"
proof (induction q s rule: take_word.induct)
  case (2 q c s)
  then show ?case
    by (cases s; cases "\<not> q \<and> c = CHR '' ''"; cases "c = QUOTE"; cases "c = BSLASH")
      (simp_all add: case_prod_beta)
qed simp

lemma take_word_set:
  "set (fst (take_word q s)) \<subseteq> set s \<and> set (snd (take_word q s)) \<subseteq> set s"
proof (induction q s rule: take_word.induct)
  case (2 q c s)
  show ?case
  proof (cases "c = BSLASH \<and> (q \<or> c \<noteq> CHR '' '')")
    case True
    then show ?thesis using 2(2) by (cases s) (auto simp: case_prod_beta)
  next
    case False
    then show ?thesis using 2(1,3) by (auto simp: case_prod_beta)
  qed
qed simp

lemma c_string_subset: "c_string s \<Longrightarrow> set t \<subseteq> set s \<Longrightarrow> c_string t"
  by (auto simp: c_string_def)

lemma NUL_notin: "c_string w \<Longrightarrow> NUL \<notin> set w"
  by (auto simp: c_string_def ch_def)

lemma c_str_prefix:
  assumes "take (length out + length w + 1) buf = out @ w @ [NUL]" "c_string w"
  shows "c_str buf (length out) = w"
proof -
  have "take (length out + length w + 1) buf @ drop (length out + length w + 1) buf =
      out @ w @ NUL # drop (length out + length w + 1) buf"
    using assms(1) by simp
  then have "buf = out @ w @ NUL # drop (length out + length w + 1) buf" by (simp only: append_take_drop_id)
  then have "drop (length out) buf = w @ NUL # drop (length out + length w + 1) buf"
    by (metis append_eq_conv_conj)
  moreover have "takeWhile (\<lambda>c. c \<noteq> NUL) (w @ NUL # t) = w" for t
    using NUL_notin[OF assms(2)] by (induction w) auto
  ultimately show ?thesis by (simp add: c_str_def)
qed

lemma skip_spaces_split: "\<exists>sp. s = sp @ skip_spaces s \<and> all_spaces sp"
  unfolding skip_spaces_def all_spaces_def
  by (metis (full_types) set_takeWhileD takeWhile_dropWhile_id)

lemma skip_spaces_idem [simp]: "skip_spaces (skip_spaces s) = skip_spaces s"
  by (simp add: skip_spaces_def)

lemma words_loop_end:
  "nth_opt buf (int i) = Some NUL \<Longrightarrow> words_loop buf i p q ws = Some (ws, buf)"
  by (subst words_loop.simps) simp

lemma words_loop_step:
  assumes "nth_opt buf (int i) = Some c" "c \<noteq> NUL" "word_loop buf i p q = Some (buf1, i1, p1, q1)"
    "skip_blanks buf1 i1 = Some i2" "upd_opt buf1 (int p1) NUL = Some buf2"
  shows "words_loop buf i p q ws = words_loop buf2 i2 (p1 + 1) q1 (ws @ [p])"
  using assms by (subst words_loop.simps) simp

lemma split_words_step:
  "skip_spaces s = s \<Longrightarrow> s \<noteq> [] \<Longrightarrow>
    split_words s = fst (take_word False s) # split_words (snd (take_word False s))"
  by (subst split_words.simps) (cases s; simp del: take_word.simps)

lemma split_words_skip: "split_words (skip_spaces s) = split_words s"
  by (subst (1 2) split_words.simps) simp

lemma words_loop_correct:
  assumes "c_string s" "skip_spaces s = s"
  shows "\<exists>offs buf. words_loop (out @ gap @ s @ [NUL]) (length (out @ gap)) (length out) False ws =
      Some (ws @ offs, buf) \<and> take (length out) buf = out \<and> map (c_str buf) offs = split_words s"
  using assms
proof (induction "length s" arbitrary: s out gap ws rule: less_induct)
  case less
  show ?case
  proof (cases s)
    case Nil
    have rd: "nth_opt (out @ gap @ [NUL]) (int (length (out @ gap))) = Some NUL"
      using nth_opt_at[of "length (out @ gap)" "out @ gap" NUL "[]"] by simp
    have "split_words [] = []" by (subst split_words.simps) (simp add: skip_spaces_def)
    then show ?thesis using words_loop_end[OF rd, of "length out" False ws] Nil by simp
  next
    case (Cons c t)
    define w r where wr: "w = fst (take_word False s)" "r = snd (take_word False s)"
    have c0: "c \<noteq> NUL" using less.prems(1) Cons by (auto simp: ch_def)
    have cw: "c_string w" "c_string r"
      using take_word_set[of False s] c_string_subset[OF less.prems(1)] wr by auto
    have rl: "length r < length s"
      using take_word_shorter[of c t] skip_spaces_hd[of s c t] less.prems(2) Cons wr by simp
    have rd: "nth_opt (out @ gap @ s @ [NUL]) (int (length (out @ gap))) = Some c"
      using nth_opt_at[of "length (out @ gap)" "out @ gap" c "t @ [NUL]"] Cons by simp
    obtain gap1 q1 where wl: "word_loop (out @ gap @ s @ [NUL]) (length (out @ gap)) (length out) False =
        Some (out @ w @ gap1 @ r @ [NUL], length (out @ w @ gap1), length (out @ w), q1)" "r \<noteq> [] \<longrightarrow> \<not> q1"
      using word_loop_correct[OF less.prems(1), of out gap False] unfolding word_done_def wr by blast
    obtain sp where sp: "r = sp @ skip_spaces r" "all_spaces sp" using skip_spaces_split by blast
    have ls: "length r - length (skip_spaces r) = length sp" by (metis sp(1) add_diff_cancel_right' length_append)
    have sb: "skip_blanks (out @ w @ gap1 @ r @ [NUL]) (length (out @ w @ gap1)) =
        Some (length (out @ w @ gap1 @ sp))"
      using skip_blanks_correct[of "out @ w @ gap1" r] ls by simp
    have sw: "split_words s = w # split_words (skip_spaces r)"
      using split_words_step[of s] less.prems(2) Cons wr split_words_skip by simp
    show ?thesis
    proof (cases "skip_spaces r")
      case Nil
      have b: "out @ w @ gap1 @ r @ [NUL] = out @ w @ (gap1 @ sp) @ [NUL]" using sp(1) Nil by simp
      have e: "split_words [] = []" by (subst split_words.simps) (simp add: skip_spaces_def)
      obtain buf2 where b2: "upd_opt (out @ w @ gap1 @ r @ [NUL]) (int (length (out @ w))) NUL = Some buf2"
        "take (length out + length w + 1) buf2 = out @ w @ [NUL]"
        "nth_opt buf2 (int (length (out @ w @ gap1 @ sp))) = Some NUL"
      proof (cases "gap1 @ sp")
        case Nil
        have "upd_opt (out @ w @ gap1 @ r @ [NUL]) (int (length (out @ w))) NUL = Some (out @ w @ [NUL])"
          using upd_opt_at[of "length (out @ w)" "out @ w" NUL "[]" NUL] b Nil by simp
        moreover have "nth_opt (out @ w @ [NUL]) (int (length (out @ w @ gap1 @ sp))) = Some NUL"
          using nth_opt_at[of "length (out @ w)" "out @ w" NUL "[]"] Nil by simp
        ultimately show ?thesis using that by simp
      next
        case (Cons g gs)
        have "upd_opt (out @ w @ gap1 @ r @ [NUL]) (int (length (out @ w))) NUL =
            Some (out @ w @ NUL # gs @ [NUL])"
          unfolding b Cons using upd_opt_at[of "length (out @ w)" "out @ w" g "gs @ [NUL]" NUL] by simp
        moreover have "nth_opt (out @ w @ NUL # gs @ [NUL]) (int (length (out @ w @ gap1 @ sp))) = Some NUL"
          using nth_opt_at[of "length (out @ w @ NUL # gs)" "out @ w @ NUL # gs" NUL "[]"]
            arg_cong[OF Cons, of length] by simp
        ultimately show ?thesis using that by simp
      qed
      have "words_loop (out @ gap @ s @ [NUL]) (length (out @ gap)) (length out) False ws =
          Some (ws @ [length out], buf2)"
        using words_loop_step[OF rd c0 wl(1) sb b2(1)] words_loop_end[OF b2(3)] by simp
      moreover have "take (length out) buf2 = out"
        using arg_cong[OF b2(2), of "take (length out)"] by (simp add: min_def)
      moreover have "c_str buf2 (length out) = w" by (rule c_str_prefix[OF b2(2) cw(1)])
      ultimately show ?thesis using sw Nil e by (intro exI[of _ "[length out]"] exI[of _ buf2]) simp
    next
      case r2: (Cons d u)
      have "r \<noteq> []" using r2 sp(1) by auto
      then have "hd r = CHR '' ''" using take_word_rest[of False s] wr by simp
      then have "sp \<noteq> []" using sp(1) skip_spaces_hd[OF r2] r2 by (cases sp) auto
      then obtain g gs where g: "gap1 @ sp = g # gs" by (cases "gap1 @ sp") auto
      have b: "out @ w @ gap1 @ r @ [NUL] = out @ w @ (gap1 @ sp) @ skip_spaces r @ [NUL]"
        using sp(1) by (metis append_assoc)
      have b2: "upd_opt (out @ w @ gap1 @ r @ [NUL]) (int (length (out @ w))) NUL =
          Some ((out @ w @ [NUL]) @ gs @ skip_spaces r @ [NUL])"
        unfolding b g using upd_opt_at[of "length (out @ w)" "out @ w" g "gs @ skip_spaces r @ [NUL]" NUL] by simp
      have "words_loop (out @ gap @ s @ [NUL]) (length (out @ gap)) (length out) False ws =
          words_loop ((out @ w @ [NUL]) @ gs @ skip_spaces r @ [NUL]) (length (out @ w @ gap1 @ sp))
            (length (out @ w) + 1) q1 (ws @ [length out])"
        by (rule words_loop_step[OF rd c0 wl(1) sb b2])
      moreover have "length (out @ w @ gap1 @ sp) = length ((out @ w @ [NUL]) @ gs)"
        using arg_cong[OF g, of length] by simp
      moreover obtain offs buf where ih:
        "words_loop ((out @ w @ [NUL]) @ gs @ skip_spaces r @ [NUL]) (length ((out @ w @ [NUL]) @ gs))
          (length (out @ w @ [NUL])) False (ws @ [length out]) = Some ((ws @ [length out]) @ offs, buf)"
        "take (length (out @ w @ [NUL])) buf = out @ w @ [NUL]" "map (c_str buf) offs = split_words (skip_spaces r)"
      proof -
        have l: "length (skip_spaces r) < length s" using rl length_skip_spaces[of r] by simp
        have c: "c_string (skip_spaces r)" using cw(2) sp(1) by (metis c_string_simps(3))
        show ?thesis using less.hyps[OF l c skip_spaces_idem] that by blast
      qed
      moreover have "q1 = False" using wl(2) \<open>r \<noteq> []\<close> by simp
      moreover have "take (length out) buf = out"
        using arg_cong[OF ih(2), of "take (length out)"] by (simp add: min_def)
      moreover have "c_str buf (length out) = w"
        using ih(2) by (intro c_str_prefix[OF _ cw(1)]) simp
      ultimately show ?thesis using sw ih(3)
        by (intro exI[of _ "length out # offs"] exI[of _ buf]) simp
    qed
  qed
qed

lemma words_of_split_words: "c_string s \<Longrightarrow> words_of s = Some (split_words s)"
proof -
  assume s: "c_string s"
  obtain sp where sp: "s = sp @ skip_spaces s" "all_spaces sp" using skip_spaces_split by blast
  have c: "c_string (skip_spaces s)" using s sp(1) by (metis c_string_simps(3))
  have l: "length s - length (skip_spaces s) = length sp"
    by (metis sp(1) add_diff_cancel_right' length_append)
  have sb: "skip_blanks (s @ [NUL]) 0 = Some (length sp)"
    using skip_blanks_correct[of "[]" s] l by simp
  obtain offs buf where w: "words_loop (sp @ skip_spaces s @ [NUL]) (length sp) 0 False [] = Some (offs, buf)"
      "map (c_str buf) offs = split_words (skip_spaces s)"
    using words_loop_correct[OF c skip_spaces_idem, of "[]" sp "[]"] by auto
  have e: "s @ [NUL] = sp @ skip_spaces s @ [NUL]" using sp(1) by (metis append_assoc)
  have "words_loop (s @ [NUL]) (length sp) 0 False [] = Some (offs, buf)" using w(1) unfolding e .
  then show ?thesis using w(2) sb by (simp add: words_of_def parse_into_words_def split_words_skip)
qed

section \<open>Every list of words can be typed\<close>

definition quote_word :: "string \<Rightarrow> string" where
  "quote_word w = QUOTE # quote_chars w @ [QUOTE]"

lemma take_word_quote_chars:
  "take_word True (quote_chars w @ s) = (w @ fst (take_word True s), snd (take_word True s))"
proof (induction w)
  case (Cons c w)
  then show ?case by (simp add: quote_chars_def case_prod_beta)
qed (simp add: quote_chars_def)

lemma take_word_quote_word:
  "s = [] \<or> hd s = CHR '' '' \<Longrightarrow> take_word False (quote_word w @ s) = (w, s)"
  by (cases s) (simp_all add: quote_word_def take_word_quote_chars)

lemma split_words_quote:
  "s = [] \<or> hd s = CHR '' '' \<Longrightarrow> split_words (quote_word w @ s) = w # split_words s"
  using take_word_quote_word[of s w]
  by (subst split_words.simps) (simp add: skip_spaces_def quote_word_def del: take_word.simps)

lemma split_words_build_string: "split_words (build_string (map quote_word ws)) = ws"
proof (induction ws)
  case Nil
  show ?case by (subst split_words.simps) (simp add: skip_spaces_def)
next
  case (Cons w ws)
  show ?case
  proof (cases ws)
    case Nil
    have "split_words [] = []" by (subst split_words.simps) (simp add: skip_spaces_def)
    then show ?thesis using split_words_quote[of "[]" w] Nil by simp
  next
    case (Cons v vs)
    have "split_words (CHR '' '' # build_string (map quote_word ws)) = ws"
      using Cons.IH split_words_skip[of "CHR '' '' # build_string (map quote_word ws)"]
        split_words_skip[of "build_string (map quote_word ws)"] by (simp add: skip_spaces_def)
    then show ?thesis using split_words_quote[of "CHR '' '' # build_string (map quote_word ws)" w] Cons by simp
  qed
qed

lemma c_string_quote_chars [simp]: "c_string (quote_chars w) \<longleftrightarrow> c_string w"
  by (induction w) (auto simp: quote_chars_def ch_def)

lemma c_string_build_string: "(\<forall>w \<in> set ws. c_string w) \<Longrightarrow> c_string (build_string ws)"
  by (induction ws rule: build_string.induct) (auto simp: ch_def)

end
