(* ===== verification/Db_Preps.thy ===== *)
theory Db_Preps
  imports Parse_Words
begin

text \<open>
  Prepositions: the first part of src/src/db_verbs.c. A preposition is the index of its phrase
  list in \<open>prep_list\<close>; \<open>prep_table\<close> holds the words of every alias, as
  \<open>dbpriv_build_prep_table\<close> computes them when the server starts.
\<close>

abbreviation (input) PREP_ANY :: int where "PREP_ANY \<equiv> -2"
abbreviation (input) PREP_NONE :: int where "PREP_NONE \<equiv> -1"

definition prep_list :: "string list" where
  "prep_list = [''with/using'', ''at/to'', ''in front of'', ''in/inside/into'',
     ''on top of/on/onto/upon'', ''out of/from inside/from'', ''over'', ''through'',
     ''under/underneath/beneath'', ''behind'', ''beside'', ''for/about'', ''is'', ''as'',
     ''off/off of'']"

definition NPREPS :: nat where "NPREPS = length prep_list"

definition MAXPPHRASE :: nat where "MAXPPHRASE = 3"

text \<open>The aliases of one entry: the texts between slashes.\<close>

function aliases_of :: "string \<Rightarrow> string list" where
  "aliases_of [] = []"
| "aliases_of (c # p) =
     (let q = (if c = CHR ''/'' then p else c # p)
      in takeWhile (\<lambda>c. c \<noteq> CHR ''/'') q # aliases_of (dropWhile (\<lambda>c. c \<noteq> CHR ''/'') q))"
  by pat_completeness auto
termination
  by (relation "measure length")
    (auto simp: length_dropWhile_le less_Suc_eq_le)

text \<open>An entry of the table has room for \<open>MAXPPHRASE\<close> words.\<close>

definition prep_entry :: "string \<Rightarrow> string list option" where
  "prep_entry cprep = do {
     words \<leftarrow> words_of cprep;
     if length words \<le> MAXPPHRASE then Some words else None }"

fun build_all :: "('a \<Rightarrow> 'b option) \<Rightarrow> 'a list \<Rightarrow> 'b list option" where
  "build_all f [] = Some []"
| "build_all f (x # xs) = do { y \<leftarrow> f x; ys \<leftarrow> build_all f xs; Some (y # ys) }"

definition dbpriv_build_prep_table :: "string list list list option" where
  "dbpriv_build_prep_table = build_all (\<lambda>p. build_all prep_entry (aliases_of p)) prep_list"

definition prep_table :: "string list list list" where
  "prep_table = (case dbpriv_build_prep_table of Some t \<Rightarrow> t | None \<Rightarrow> [])"

text \<open>The words of an alias at position \<open>i\<close> of \<open>argv\<close>; with \<open>exact\<close>, up to its end.\<close>

definition alias_at :: "bool \<Rightarrow> string list \<Rightarrow> nat \<Rightarrow> string list \<Rightarrow> bool" where
  "alias_at exact_match argv i alias \<longleftrightarrow> i + length alias \<le> length argv \<and>
     (\<forall>(w, a) \<in> set (zip (drop i argv) alias). mystrcasecmp w a = 0) \<and>
     (\<not> exact_match \<or> i + length alias = length argv)"

fun prep_at :: "bool \<Rightarrow> string list \<Rightarrow> nat \<Rightarrow> nat \<Rightarrow> string list list list \<Rightarrow> (nat \<times> nat) option" where
  "prep_at exact_match argv i j [] = None"
| "prep_at exact_match argv i j (als # table) =
     (case List.find (alias_at exact_match argv i) als of
        Some alias \<Rightarrow> Some (j, length alias)
      | None \<Rightarrow> prep_at exact_match argv i (j + 1) table)"

text \<open>The loop over the positions: the preposition, \<open>*first\<close> and \<open>*last\<close>.\<close>

fun prep_loop :: "bool \<Rightarrow> string list \<Rightarrow> nat list \<Rightarrow> (nat \<times> nat \<times> int) option" where
  "prep_loop exact_match argv [] = None"
| "prep_loop exact_match argv (i # is) =
     (case prep_at exact_match argv i 0 prep_table of
        Some (j, n) \<Rightarrow> Some (j, i, int i + int n - 1)
      | None \<Rightarrow> if exact_match then None else prep_loop exact_match argv is)"

definition db_find_prep :: "bool \<Rightarrow> string list \<Rightarrow> (nat \<times> nat \<times> int) option" where
  "db_find_prep exact_match argv = prep_loop exact_match argv [0..<length argv]"

definition find_prep_code :: "string list \<Rightarrow> int" where
  "find_prep_code argv = (case db_find_prep True argv of Some (j, _) \<Rightarrow> int j | None \<Rightarrow> PREP_NONE)"

text \<open>\<open>strtol\<close> gives a \<open>long\<close>, of which \<open>prep\<close> keeps 32 bits.\<close>

definition db_match_prep :: "string \<Rightarrow> int option" where
  "db_match_prep prepname =
     (let s = skip_char CHR ''#'' prepname
      in case strtol s of (l, ptr) \<Rightarrow>
        let prep = sint (word_of_int l :: int32)
        in if ptr = []
           then Some (if s = [] \<or> \<not> c_isdigit (hd s) \<or> prep \<ge> int NPREPS then PREP_NONE else prep)
           else map_option find_prep_code (words_of (takeWhile (\<lambda>c. c \<noteq> CHR ''/'') s)))"

definition db_unparse_prep :: "int \<Rightarrow> string option" where
  "db_unparse_prep prep =
     (if prep = PREP_NONE then Some ''none''
      else if prep = PREP_ANY then Some ''any''
      else nth_opt prep_list prep)"

section \<open>The table\<close>

definition prep_words :: "string list list list" where
  "prep_words = [[[''with''], [''using'']], [[''at''], [''to'']], [[''in'', ''front'', ''of'']],
     [[''in''], [''inside''], [''into'']], [[''on'', ''top'', ''of''], [''on''], [''onto''], [''upon'']],
     [[''out'', ''of''], [''from'', ''inside''], [''from'']], [[''over'']], [[''through'']],
     [[''under''], [''underneath''], [''beneath'']], [[''behind'']], [[''beside'']],
     [[''for''], [''about'']], [[''is'']], [[''as'']], [[''off''], [''off'', ''of'']]]"

lemma prep_entry_split: "c_string s \<Longrightarrow> length (split_words s) \<le> 3 \<Longrightarrow> prep_entry s = Some (split_words s)"
  by (simp add: prep_entry_def words_of_split_words MAXPPHRASE_def)

lemma build_all_Some: "(\<And>x. x \<in> set xs \<Longrightarrow> f x = Some (g x)) \<Longrightarrow> build_all f xs = Some (map g xs)"
  by (induction xs) auto

lemma aliases_eval:
  "map (map split_words \<circ> aliases_of) prep_list = prep_words"
  by code_simp

lemma aliases_fit: "\<forall>p \<in> set prep_list. \<forall>a \<in> set (aliases_of p). c_string a \<and> length (split_words a) \<le> 3"
  by code_simp

lemma build_prep_table: "dbpriv_build_prep_table = Some prep_words"
proof -
  have "build_all prep_entry (aliases_of p) = Some (map split_words (aliases_of p))" if "p \<in> set prep_list" for p
    using aliases_fit that by (intro build_all_Some prep_entry_split) auto
  then have "dbpriv_build_prep_table = Some (map (\<lambda>p. map split_words (aliases_of p)) prep_list)"
    unfolding dbpriv_build_prep_table_def by (rule build_all_Some)
  then show ?thesis using aliases_eval by (simp add: comp_def)
qed

lemma prep_table_words [code]: "prep_table = prep_words"
  by (simp add: prep_table_def build_prep_table)

lemma db_match_prep_words:
  assumes "c_string name" "snd (strtol (skip_char CHR ''#'' name)) \<noteq> []"
  shows "db_match_prep name =
    Some (find_prep_code (split_words (takeWhile (\<lambda>c. c \<noteq> CHR ''/'') (skip_char CHR ''#'' name))))"
proof -
  have "c_string (takeWhile (\<lambda>c. c \<noteq> CHR ''/'') (skip_char CHR ''#'' name))"
    using assms(1) by (auto simp: c_string_def skip_char_def dest: set_takeWhileD list.set_sel(2) split: if_splits)
  from words_of_split_words[OF this] show ?thesis
    using assms(2) by (auto simp: db_match_prep_def Let_def split: prod.splits)
qed

lemma prep_phrases_words: "\<forall>n \<in> set prep_list. c_string n \<and> snd (strtol (skip_char CHR ''#'' n)) \<noteq> []"
  by code_simp

lemma prep_phrases_found:
  "map (\<lambda>n. find_prep_code (split_words (takeWhile (\<lambda>c. c \<noteq> CHR ''/'') (skip_char CHR ''#'' n)))) prep_list
    = map int [0..<15]"
  by code_simp

lemma db_match_unparse:
  assumes "0 \<le> p" "p < 15"
  shows "\<exists>n. db_unparse_prep p = Some n \<and> db_match_prep n = Some p"
proof -
  have l: "length prep_list = 15" by (simp add: prep_list_def)
  have u: "db_unparse_prep p = Some (prep_list ! nat p)"
    using assms l by (simp add: db_unparse_prep_def)
  have "prep_list ! nat p \<in> set prep_list" using assms l by simp
  with prep_phrases_words have "db_match_prep (prep_list ! nat p) =
      Some (find_prep_code (split_words (takeWhile (\<lambda>c. c \<noteq> CHR ''/'') (skip_char CHR ''#'' (prep_list ! nat p)))))"
    by (intro db_match_prep_words) auto
  also have "\<dots> = Some (int ([0..<15] ! nat p))"
    using arg_cong[OF prep_phrases_found, of "\<lambda>xs. xs ! nat p"] assms l by (simp add: nth_map del: upt_rec_numeral)
  finally show ?thesis using u assms by simp
qed

text \<open>What a number can name: the low 32 bits of it are used without a test for a negative result.\<close>

lemma digit_not_hash: "c_isdigit c \<Longrightarrow> c \<noteq> CHR ''#''"
  by (auto simp: c_isdigit_def ch_def)

lemma db_match_prep_number:
  assumes "0 \<le> i" "i < 2 ^ 63"
  shows "db_match_prep (show_int i) = Some (let prep = sint (word_of_int i :: int32) in
    if prep \<ge> 15 then PREP_NONE else prep)"
proof -
  obtain d s where d: "show_int i = d # s" "c_isdigit d"
    using show_nat_Cons[of "nat i"] assms by (auto simp: show_int_def)
  have "strtol (show_int i) = (i, [])" using strtol_digits[of "[]" i] assms by simp
  then show ?thesis using d digit_not_hash[OF d(2)]
    by (auto simp: db_match_prep_def skip_char_def NPREPS_def prep_list_def Let_def)
qed

lemma db_match_prep_wraps:
  "db_match_prep (show_int 4294967295) = Some PREP_NONE"
  "db_match_prep (show_int 3000000000) = Some (-1294967296) \<and> db_unparse_prep (-1294967296) = None"
  by (simp_all add: db_match_prep_number db_unparse_prep_def nth_opt_def)

text \<open>What \<open>db_find_prep\<close> finds is in the table.\<close>

lemma prep_at_Some:
  "prep_at e argv i j table = Some (k, n) \<Longrightarrow> j \<le> k \<and> k < j + length table \<and>
    (\<exists>al \<in> set (table ! (k - j)). alias_at e argv i al \<and> length al = n)"
proof (induction table arbitrary: j)
  case (Cons as table)
  show ?case
  proof (cases "List.find (alias_at e argv i) as")
    case None
    then have "prep_at e argv i (j + 1) table = Some (k, n)" using Cons.prems by simp
    note ih = Cons.IH[OF this]
    then have "k - j = Suc (k - (j + 1))" by linarith
    then have "(as # table) ! (k - j) = table ! (k - (j + 1))" by (simp only: nth_Cons_Suc)
    with ih show ?thesis by simp
  next
    case (Some al)
    then have "alias_at e argv i al" "al \<in> set as" by (auto simp: find_Some_iff)
    with Some Cons.prems show ?thesis by auto
  qed
qed simp

lemma prep_at_None:
  "prep_at e argv i j table = None \<longleftrightarrow> (\<forall>as \<in> set table. \<forall>a \<in> set as. \<not> alias_at e argv i a)"
proof (induction e argv i j table rule: prep_at.induct)
  case (2 e argv i j as table)
  show ?case
  proof (cases "List.find (alias_at e argv i) as")
    case None
    moreover have "\<forall>a \<in> set as. \<not> alias_at e argv i a" using None by (simp add: find_None_iff)
    ultimately show ?thesis using 2 by simp
  next
    case (Some al)
    then have "al \<in> set as" "alias_at e argv i al" by (auto simp: find_Some_iff)
    then show ?thesis using Some by auto
  qed
qed simp

lemma prep_loop_False:
  "prep_loop False argv is = (case List.find (\<lambda>i. prep_at False argv i 0 prep_table \<noteq> None) is of
     None \<Rightarrow> None
   | Some i \<Rightarrow> map_option (\<lambda>(j, n). (j, i, int i + int n - 1)) (prep_at False argv i 0 prep_table))"
  by (induction "is") (auto split: option.splits)

lemma db_find_prep_Some:
  assumes "db_find_prep False argv = Some (j, fst_w, lst_w)"
  shows "\<exists>al. j < NPREPS \<and> al \<in> set (prep_words ! j) \<and> lst_w = int fst_w + int (length al) - 1 \<and>
    fst_w + length al \<le> length argv \<and> fst_w < length argv \<and>
    (\<forall>k < length al. mystrcasecmp (argv ! (fst_w + k)) (al ! k) = 0) \<and>
    (\<forall>i < fst_w. \<forall>as \<in> set prep_words. \<forall>a \<in> set as. \<not> alias_at False argv i a)"
proof -
  from assms obtain n where n: "prep_at False argv fst_w 0 prep_table = Some (j, n)"
    "lst_w = int fst_w + int n - 1" "List.find (\<lambda>i. prep_at False argv i 0 prep_table \<noteq> None) [0..<length argv] = Some fst_w"
    by (auto simp: db_find_prep_def prep_loop_False split: option.splits)
  from n(3) have "fst_w < length argv \<and> (\<forall>i < fst_w. prep_at False argv i 0 prep_table = None)"
    unfolding find_Some_iff by (auto simp del: not_None_eq)
  moreover obtain al where a: "al \<in> set (prep_table ! j)" "alias_at False argv fst_w al"
    "length al = n" "j < length prep_table"
    using prep_at_Some[OF n(1)] by auto
  moreover have "length prep_table = NPREPS" by (simp add: prep_table_words prep_words_def NPREPS_def prep_list_def)
  moreover have "mystrcasecmp (argv ! (fst_w + k)) (al ! k) = 0" if "k < length al" for k
  proof -
    have "(argv ! (fst_w + k), al ! k) \<in> set (zip (drop fst_w argv) al)"
      using that a(2) by (auto simp: set_zip alias_at_def intro!: exI[of _ k])
    then show ?thesis using a(2) by (auto simp: alias_at_def)
  qed
  ultimately show ?thesis using n(2)
    by (intro exI[of _ al]) (auto simp: prep_at_None prep_table_words alias_at_def)
qed

end
