(* ===== verification/Db_Verbs.thy ===== *)
theory Db_Verbs
  imports Db_Chparent Db_Preps
begin

text \<open>
  Verbs: the rest of src/src/db_verbs.c. The list \<open>verbdefs\<close> of an object is a HOL list, and a
  non-null handle is the object that defines the verb and its position there, so a handle whose
  verb has been deleted can be told from a live one. A null handle makes the accessors panic:
  \<open>None\<close>.

  The hash table of the verb cache is \<open>vc_table\<close>, a list of entries for each bucket.
\<close>

section \<open>Flags and argument specifiers\<close>

abbreviation (input) VF_READ :: "16 word" where "VF_READ \<equiv> 1"
abbreviation (input) VF_WRITE :: "16 word" where "VF_WRITE \<equiv> 2"
abbreviation (input) VF_EXEC :: "16 word" where "VF_EXEC \<equiv> 4"
abbreviation (input) VF_DEBUG :: "16 word" where "VF_DEBUG \<equiv> 8"
abbreviation (input) VF_NOT_O :: "16 word" where "VF_NOT_O \<equiv> 0x400"

abbreviation (input) ASPEC_NONE :: "16 word" where "ASPEC_NONE \<equiv> 0"
abbreviation (input) ASPEC_ANY :: "16 word" where "ASPEC_ANY \<equiv> 1"
abbreviation (input) ASPEC_THIS :: "16 word" where "ASPEC_THIS \<equiv> 2"

definition PERMMASK :: "16 word" where "PERMMASK = 0x70F"
definition OBJMASK :: "16 word" where "OBJMASK = 3"

definition pack_perms :: "16 word \<Rightarrow> 16 word \<Rightarrow> 16 word \<Rightarrow> 16 word" where
  "pack_perms flags dobj iobj = flags OR push_bit 4 dobj OR push_bit 6 iobj"

definition dobj_spec :: "verbdef \<Rightarrow> 16 word" where
  "dobj_spec v = drop_bit 4 (vd_perms v) AND OBJMASK"

definition iobj_spec :: "verbdef \<Rightarrow> 16 word" where
  "iobj_spec v = drop_bit 6 (vd_perms v) AND OBJMASK"

section \<open>The verbs of one object\<close>

definition new_verbdef :: "string \<Rightarrow> objid \<Rightarrow> 16 word \<Rightarrow> 16 word \<Rightarrow> int \<Rightarrow> 16 word \<Rightarrow> verbdef" where
  "new_verbdef vnames owner flags dobj prep iobj =
     \<lparr>vd_name = vnames, vd_program = None, vd_owner = owner,
      vd_perms = pack_perms flags dobj iobj, vd_prep = prep\<rparr>"

definition db_add_verb ::
  "db \<Rightarrow> objid \<Rightarrow> string \<Rightarrow> objid \<Rightarrow> 16 word \<Rightarrow> 16 word \<Rightarrow> int \<Rightarrow> 16 word \<Rightarrow> (nat \<times> db) option" where
  "db_add_verb db0 oid vnames owner flags dobj prep iobj =
     (let db = db_priv_affected_callable_verb_lookup db0 in do {
        ob \<leftarrow> dbpriv_find_object db oid;
        Some (length (ob_verbdefs ob) + 1, put_object db oid (Some (ob\<lparr>ob_verbdefs :=
          ob_verbdefs ob @ [new_verbdef vnames owner flags dobj prep iobj]\<rparr>))) })"

definition find_verbdef_by_name :: "obj \<Rightarrow> string \<Rightarrow> bool \<Rightarrow> nat option" where
  "find_verbdef_by_name ob vname check_x_bit =
     index_of (\<lambda>v. verbcasecmp (vd_name v) vname \<and> (\<not> check_x_bit \<or> vd_perms v AND VF_EXEC \<noteq> 0))
       (ob_verbdefs ob)"

definition db_count_verbs :: "db \<Rightarrow> objid \<Rightarrow> nat option" where
  "db_count_verbs db oid = map_option (\<lambda>ob. length (ob_verbdefs ob)) (dbpriv_find_object db oid)"

definition db_all_verbs :: "db \<Rightarrow> objid \<Rightarrow> string list option" where
  "db_all_verbs db oid = map_option (\<lambda>ob. map vd_name (ob_verbdefs ob)) (dbpriv_find_object db oid)"

section \<open>Handles\<close>

type_synonym verb_handle = "verb_ptr option"

text \<open>\<open>h->verbdef->...\<close>\<close>

definition handle_verb :: "db \<Rightarrow> verb_handle \<Rightarrow> verbdef option" where
  "handle_verb db vh = do {
     (oid, i) \<leftarrow> vh; ob \<leftarrow> objects db oid;
     nth_opt (ob_verbdefs ob) (int i) }"

definition mod_verb :: "db \<Rightarrow> verb_handle \<Rightarrow> (verbdef \<Rightarrow> verbdef) \<Rightarrow> db option" where
  "mod_verb db vh f = do {
     (oid, i) \<leftarrow> vh; ob \<leftarrow> objects db oid;
     v \<leftarrow> nth_opt (ob_verbdefs ob) (int i);
     Some (put_object db oid (Some (ob\<lparr>ob_verbdefs := (ob_verbdefs ob)[i := f v]\<rparr>))) }"

definition db_delete_verb :: "db \<Rightarrow> verb_handle \<Rightarrow> db option" where
  "db_delete_verb db0 vh = (let db = db_priv_affected_callable_verb_lookup db0 in do {
     (oid, i) \<leftarrow> vh;
     ob \<leftarrow> dbpriv_find_object db oid;
     v \<leftarrow> nth_opt (ob_verbdefs ob) (int i);
     Some (put_object db oid (Some (ob\<lparr>ob_verbdefs := delete_at i (ob_verbdefs ob)\<rparr>))) })"

definition db_verb_definer :: "db \<Rightarrow> verb_handle \<Rightarrow> objid option" where
  "db_verb_definer db vh = map_option fst vh"

definition db_verb_names :: "db \<Rightarrow> verb_handle \<Rightarrow> string option" where
  "db_verb_names db vh = map_option vd_name (handle_verb db vh)"

definition db_set_verb_names :: "db \<Rightarrow> verb_handle \<Rightarrow> string \<Rightarrow> db option" where
  "db_set_verb_names db vh names =
     mod_verb (db_priv_affected_callable_verb_lookup db) vh (vd_name_update (\<lambda>_. names))"

definition db_verb_owner :: "db \<Rightarrow> verb_handle \<Rightarrow> objid option" where
  "db_verb_owner db vh = map_option vd_owner (handle_verb db vh)"

definition db_set_verb_owner :: "db \<Rightarrow> verb_handle \<Rightarrow> objid \<Rightarrow> db option" where
  "db_set_verb_owner db vh owner = mod_verb db vh (vd_owner_update (\<lambda>_. owner))"

definition db_verb_flags :: "db \<Rightarrow> verb_handle \<Rightarrow> 16 word option" where
  "db_verb_flags db vh = map_option (\<lambda>v. vd_perms v AND PERMMASK) (handle_verb db vh)"

definition db_set_verb_flags :: "db \<Rightarrow> verb_handle \<Rightarrow> 16 word \<Rightarrow> db option" where
  "db_set_verb_flags db vh flags =
     mod_verb (db_priv_affected_callable_verb_lookup db) vh
       (vd_perms_update (\<lambda>p. (p AND NOT PERMMASK) OR flags))"

text \<open>\<open>null_program\<close> (src/src/program.c) compiles the empty text; its result is a parameter.\<close>

definition db_verb_program :: "program \<Rightarrow> db \<Rightarrow> verb_handle \<Rightarrow> program option" where
  "db_verb_program null_prog db vh =
     map_option (\<lambda>v. case vd_program v of Some p \<Rightarrow> p | None \<Rightarrow> null_prog) (handle_verb db vh)"

definition db_set_verb_program :: "db \<Rightarrow> verb_handle \<Rightarrow> program \<Rightarrow> db option" where
  "db_set_verb_program db vh p = mod_verb db vh (vd_program_update (\<lambda>_. Some p))"

definition db_verb_arg_specs :: "db \<Rightarrow> verb_handle \<Rightarrow> (16 word \<times> int \<times> 16 word) option" where
  "db_verb_arg_specs db vh =
     map_option (\<lambda>v. (dobj_spec v, vd_prep v, iobj_spec v)) (handle_verb db vh)"

definition db_set_verb_arg_specs :: "db \<Rightarrow> verb_handle \<Rightarrow> 16 word \<Rightarrow> int \<Rightarrow> 16 word \<Rightarrow> db option" where
  "db_set_verb_arg_specs db vh dobj prep iobj =
     mod_verb (db_priv_affected_callable_verb_lookup db) vh
       (\<lambda>v. v\<lparr>vd_perms := pack_perms (vd_perms v AND PERMMASK) dobj iobj, vd_prep := prep\<rparr>)"

definition db_verb_allows :: "db \<Rightarrow> verb_handle \<Rightarrow> objid \<Rightarrow> 16 word \<Rightarrow> bool option" where
  "db_verb_allows db h progr flag = do {
     fl \<leftarrow> db_verb_flags db h;
     ow \<leftarrow> db_verb_owner db h;
     Some (fl AND flag \<noteq> 0 \<or> progr = ow \<or> is_wizard db progr) }"

section \<open>Looking a verb up\<close>

text \<open>The first verb that passes a test, on the object or the nearest ancestor with one.\<close>

partial_function (option) find_inherited :: "db \<Rightarrow> (verbdef \<Rightarrow> bool) \<Rightarrow> objid \<Rightarrow> verb_handle option" where
  "find_inherited db P oid = (case dbpriv_find_object db oid of
     None \<Rightarrow> Some None
   | Some ob \<Rightarrow>
      (case index_of P (ob_verbdefs ob) of
         Some i \<Rightarrow> Some (Some (ob_id ob, i))
       | None \<Rightarrow> find_inherited db P (ob_parent ob)))"

declare find_inherited.simps [code]

definition command_verb :: "string \<Rightarrow> 16 word \<Rightarrow> int \<Rightarrow> 16 word \<Rightarrow> verbdef \<Rightarrow> bool" where
  "command_verb verb dobj prep iobj v \<longleftrightarrow>
     verbcasecmp (vd_name v) verb \<and> (dobj_spec v = ASPEC_ANY \<or> dobj_spec v = dobj) \<and>
     (vd_prep v = PREP_ANY \<or> vd_prep v = prep) \<and>
     (iobj_spec v = ASPEC_ANY \<or> iobj_spec v = iobj)"

definition db_find_command_verb ::
  "db \<Rightarrow> objid \<Rightarrow> string \<Rightarrow> 16 word \<Rightarrow> int \<Rightarrow> 16 word \<Rightarrow> verb_handle option" where
  "db_find_command_verb db oid verb dobj prep iobj =
     find_inherited db (command_verb verb dobj prep iobj) oid"

text \<open>\<open>num\<close> is \<open>strtol\<close>'s \<open>long\<close> kept in an \<open>int\<close>.\<close>

definition verb_number :: "string \<Rightarrow> bool \<Rightarrow> int" where
  "verb_number vname allow_numbers =
     (case strtol vname of (l, p) \<Rightarrow>
        if \<not> allow_numbers \<or> (vname \<noteq> [] \<and> c_isspace (hd vname)) \<or> p \<noteq> [] then -1
        else sint (word_of_int l :: int32))"

definition db_find_defined_verb :: "db \<Rightarrow> objid \<Rightarrow> string \<Rightarrow> bool \<Rightarrow> verb_handle option" where
  "db_find_defined_verb db oid vname allow_numbers = do {
     ob \<leftarrow> dbpriv_find_object db oid;
     Some (map_option (Pair (ob_id ob))
       (List.find (\<lambda>i. int i = verb_number vname allow_numbers \<or>
            verbcasecmp (vd_name (ob_verbdefs ob ! i)) vname) [0..<length (ob_verbdefs ob)])) }"

definition db_find_indexed_verb :: "db \<Rightarrow> objid \<Rightarrow> nat \<Rightarrow> verb_handle option" where
  "db_find_indexed_verb db oid ix = do {
     ob \<leftarrow> dbpriv_find_object db oid;
     Some (if 1 \<le> ix \<and> ix \<le> length (ob_verbdefs ob) then Some (ob_id ob, ix - 1) else None) }"

section \<open>The verb cache\<close>

definition DEFAULT_VC_SIZE :: nat where "DEFAULT_VC_SIZE = 7507"

definition make_vc_table :: "db \<Rightarrow> db" where
  "make_vc_table db = db\<lparr>vc_table := Some (\<lambda>_. [])\<rparr>"

text \<open>The nearest object with verbs: its number, or \<open>NOTHING\<close>.\<close>

partial_function (option) first_with_verbs :: "db \<Rightarrow> objid \<Rightarrow> objid option" where
  "first_with_verbs db oid = (case dbpriv_find_object db oid of
     None \<Rightarrow> Some NOTHING
   | Some ob \<Rightarrow> if ob_verbdefs ob \<noteq> [] then Some (ob_id ob) else first_with_verbs db (ob_parent ob))"

declare first_with_verbs.simps [code]

definition vc_key_hash :: "string \<Rightarrow> objid \<Rightarrow> uint32" where
  "vc_key_hash verb oid = str_hash verb XOR NOT (word_of_int oid)"

definition vc_bucket :: "uint32 \<Rightarrow> nat" where
  "vc_bucket hash = unat hash mod DEFAULT_VC_SIZE"

definition vc_matches :: "uint32 \<Rightarrow> objid \<Rightarrow> string \<Rightarrow> vc_entry \<Rightarrow> bool" where
  "vc_matches hash oid verb vc \<longleftrightarrow>
     hash = vc_hash vc \<and> oid = vc_oid_key vc \<and> mystrcasecmp verb (vc_verbname vc) = 0"

definition exec_verb :: "string \<Rightarrow> verbdef \<Rightarrow> bool" where
  "exec_verb verb v \<longleftrightarrow> verbcasecmp (vd_name v) verb \<and> vd_perms v AND VF_EXEC \<noteq> 0"

definition vc_insert :: "db \<Rightarrow> nat \<Rightarrow> vc_entry \<Rightarrow> db" where
  "vc_insert db b e = db\<lparr>vc_table := map_option (\<lambda>t. t(b := e # t b)) (vc_table db)\<rparr>"

text \<open>
  The walk of a miss starts at the first object with verbs; with \<open>NOTHING\<close> there is no object.
\<close>

definition db_find_callable_verb :: "db \<Rightarrow> objid \<Rightarrow> string \<Rightarrow> (verb_handle \<times> db) option" where
  "db_find_callable_verb db0 oid verb = (let db = (if vc_table db0 = None then make_vc_table db0 else db0) in do {
     tab \<leftarrow> vc_table db;
     first_parent_with_verbs \<leftarrow> first_with_verbs db oid;
     let hash = vc_key_hash verb first_parent_with_verbs;
     let bucket = vc_bucket hash;
     case List.find (vc_matches hash first_parent_with_verbs verb) (tab bucket) of
       Some vc \<Rightarrow>
         Some (case vc_handle vc of
           Some h \<Rightarrow> (Some h, db\<lparr>verbcache_hit := verbcache_hit db + 1\<rparr>)
         | None \<Rightarrow> (None, db\<lparr>verbcache_neg_hit := verbcache_neg_hit db + 1\<rparr>))
     | None \<Rightarrow> do {
         let db1 = db\<lparr>verbcache_miss := verbcache_miss db + 1\<rparr>;
         h \<leftarrow> find_inherited db1 (exec_verb verb) first_parent_with_verbs;
         Some (h, vc_insert db1 bucket \<lparr>vc_hash = hash, vc_oid_key = first_parent_with_verbs,
           vc_verbname = verb, vc_handle = h\<rparr>) } })"

definition VC_CACHE_STATS_MAX :: nat where "VC_CACHE_STATS_MAX = 16"

definition vc_histogram :: "db \<Rightarrow> nat list" where
  "vc_histogram db = (case vc_table db of
     None \<Rightarrow> replicate (VC_CACHE_STATS_MAX + 1) 0
   | Some tab \<Rightarrow> map (\<lambda>d. length (filter (\<lambda>b. min (length (tab b)) VC_CACHE_STATS_MAX = d)
       [0..<DEFAULT_VC_SIZE])) [0..<VC_CACHE_STATS_MAX + 1])"

definition db_verb_cache_stats :: "db \<Rightarrow> var" where
  "db_verb_cache_stats db = VList
     [VInt (word_of_int (verbcache_hit db)), VInt (word_of_int (verbcache_neg_hit db)),
      VInt (word_of_int (verbcache_miss db)), VInt (word_of_int (db_verb_generation db)),
      VList (map (\<lambda>n. VInt (word_of_nat n)) (vc_histogram db))]"

end
