(* ===== verification/Db_Verb_Cache.thy ===== *)
theory Db_Verb_Cache
  imports Db_Verbs
begin

text \<open>
  Verb lookup is right and the verb cache does not change its answers: the declarative reading of
  a lookup, the invariant of the cache (\<open>vc_ok\<close>), the operations that keep it, and the cache as
  a memo table.
\<close>

section \<open>What a lookup finds\<close>

text \<open>
  A handle is the nearest verb with a property \<open>P\<close>: no ancestor below it has one, and on its
  object it is the first.
\<close>

definition nearest_verb :: "db \<Rightarrow> (verbdef \<Rightarrow> bool) \<Rightarrow> objid \<Rightarrow> verb_handle \<Rightarrow> bool" where
  "nearest_verb db P x h \<longleftrightarrow> (case h of
     None \<Rightarrow> (\<forall>y. x \<in> subtree db y \<longrightarrow> (\<forall>v \<in> set (verbs_of db y). \<not> P v))
   | Some (y, i) \<Rightarrow> x \<in> subtree db y \<and> index_of P (verbs_of db y) = Some i \<and>
       (\<forall>z. x \<in> subtree db z \<longrightarrow> z \<in> subtree db y \<longrightarrow> z \<noteq> y \<longrightarrow> (\<forall>v \<in> set (verbs_of db z). \<not> P v)))"

lemma verbs_of_Some: "objects db x = Some ob \<Longrightarrow> verbs_of db x = ob_verbdefs ob"
  by (simp add: verbs_of_def)

lemma verbs_of_None: "objects db x = None \<Longrightarrow> verbs_of db x = []"
  by (simp add: verbs_of_def)

text \<open>The ancestors of an object are itself and the ancestors of its parent.\<close>

lemma subtree_up:
  assumes "hier_ok db" "objects db x = Some ob"
  shows "x \<in> subtree db y \<longleftrightarrow> y = x \<or> (objects db (ob_parent ob) \<noteq> None \<and> ob_parent ob \<in> subtree db y)"
proof
  assume x: "x \<in> subtree db y"
  show "y = x \<or> (objects db (ob_parent ob) \<noteq> None \<and> ob_parent ob \<in> subtree db y)"
  proof (cases "y = x")
    case False
    then obtain p where p: "(x, p) \<in> parent_rel db" "p \<in> subtree db y"
      using subtree_parent[OF x] by blast
    then show ?thesis using parent_rel_Some[OF assms(2)] hier_okD(4)[OF assms(1) p(1)] by simp
  qed simp
next
  assume "y = x \<or> (objects db (ob_parent ob) \<noteq> None \<and> ob_parent ob \<in> subtree db y)"
  moreover have "(x, ob_parent ob) \<in> parent_rel db" if "objects db (ob_parent ob) \<noteq> None"
    using that parent_rel_Some[OF assms(2)] table_ok_NOTHING[OF hier_okD(1)[OF assms(1)]] by metis
  ultimately show "x \<in> subtree db y" using subtree_child by auto
qed

lemma subtree_None:
  assumes "hier_ok db" "objects db x = None" "x \<in> subtree db y"
  shows "y = x"
proof (rule ccontr)
  assume "y \<noteq> x"
  then obtain p where "(x, p) \<in> parent_rel db" using subtree_parent[OF assms(3)] by blast
  then show False using assms(2) by (simp add: parent_rel_def link_def)
qed

lemma find_inherited_None:
  "hier_ok db \<Longrightarrow> objects db x = None \<Longrightarrow> find_inherited db P x = Some None"
  by (subst find_inherited.simps) (simp add: table_ok_find hier_okD(1))

lemma find_inherited_Some:
  "hier_ok db \<Longrightarrow> objects db x = Some ob \<Longrightarrow> find_inherited db P x =
    (case index_of P (ob_verbdefs ob) of
       Some i \<Rightarrow> Some (Some (x, i))
     | None \<Rightarrow> find_inherited db P (ob_parent ob))"
  by (subst find_inherited.simps) (auto simp: table_ok_find hier_okD(1) hier_ok_def table_ok_def split: option.splits)

lemma find_inherited_nearest:
  assumes "hier_ok db"
  shows "\<exists>h. find_inherited db P x = Some h \<and> nearest_verb db P x h"
proof (cases "objects db x")
  case None
  have "\<not> P v" if "x \<in> subtree db y" "v \<in> set (verbs_of db y)" for y v
    using subtree_None[OF assms None that(1)] that(2) verbs_of_None[OF None] by simp
  then show ?thesis using find_inherited_None[OF assms None] by (simp add: nearest_verb_def)
next
  case (Some ob)
  from assms Some show ?thesis
  proof (induction rule: hier_induct_up)
    case (obj x ob)
    note up = subtree_up[OF assms obj.hyps(1)] and vs = verbs_of_Some[OF obj.hyps(1)]
    show ?case
    proof (cases "index_of P (ob_verbdefs ob)")
      case (Some i)
      have "z = x" if "x \<in> subtree db z" "z \<in> subtree db x" for z
        using that assms by (metis hier_okD(2) subtree_acyclic subtree_parent subtree_trans subsetD)
      then show ?thesis using Some find_inherited_Some[OF assms obj.hyps(1)] vs
        by (auto simp: nearest_verb_def)
    next
      case none: None
      have nP: "\<not> P v" if "v \<in> set (verbs_of db x)" for v
        using that none vs by (simp add: index_of_None)
      have eq: "find_inherited db P x = find_inherited db P (ob_parent ob)"
        using none find_inherited_Some[OF assms obj.hyps(1)] by simp
      show ?thesis
      proof (cases "objects db (ob_parent ob)")
        case None
        then have "y = x" if "x \<in> subtree db y" for y using that up by simp
        then show ?thesis using nP eq find_inherited_None[OF assms None] by (auto simp: nearest_verb_def)
      next
        case (Some q)
        from obj.IH[OF Some] obtain h where h: "find_inherited db P (ob_parent ob) = Some h"
          "nearest_verb db P (ob_parent ob) h" by blast
        have "nearest_verb db P x h"
        proof (cases h)
          case None
          then show ?thesis using h(2) nP up by (auto simp: nearest_verb_def)
        next
          case (Some yi)
          then show ?thesis using h(2) nP up \<open>objects db (ob_parent ob) = Some q\<close>
            by (cases yi) (auto simp: nearest_verb_def)
        qed
        then show ?thesis using h(1) eq by simp
      qed
    qed
  qed
qed

section \<open>States in which lookups agree\<close>

text \<open>What a lookup of an executable verb reads of an object.\<close>

definition vkey :: "db \<Rightarrow> objid \<Rightarrow> (objid \<times> objid \<times> (string \<times> 16 word) list) option" where
  "vkey db y = map_option (\<lambda>ob. (ob_id ob, ob_parent ob,
     map (\<lambda>v. (vd_name v, vd_perms v)) (ob_verbdefs ob))) (dbpriv_find_object db y)"

lemma index_of_map: "index_of P (map f xs) = index_of (P \<circ> f) xs"
  by (induction xs) auto

lemma exec_verb_key:
  "exec_verb w = (\<lambda>k. verbcasecmp (fst k) w \<and> snd k AND VF_EXEC \<noteq> 0) \<circ> (\<lambda>v. (vd_name v, vd_perms v))"
  by (simp add: fun_eq_iff exec_verb_def)

lemma find_inherited_vkey:
  "find_inherited db (exec_verb w) x = (case vkey db x of
     None \<Rightarrow> Some None
   | Some (i, p, ks) \<Rightarrow>
      (case index_of (\<lambda>k. verbcasecmp (fst k) w \<and> snd k AND VF_EXEC \<noteq> 0) ks of
         Some n \<Rightarrow> Some (Some (i, n))
       | None \<Rightarrow> find_inherited db (exec_verb w) p))"
  by (subst find_inherited.simps)
    (simp add: vkey_def exec_verb_key index_of_map[symmetric] split: option.splits)

lemma find_inherited_cong:
  assumes "hier_ok db" "\<And>y. k \<in> subtree db y \<Longrightarrow> vkey db' y = vkey db y"
  shows "find_inherited db' (exec_verb w) k = find_inherited db (exec_verb w) k"
proof (cases "objects db k")
  case None
  then have "vkey db k = None" using assms(1) by (simp add: vkey_def table_ok_find hier_okD(1))
  then show ?thesis using assms(2)[of k]
    by (subst (1 2) find_inherited_vkey) simp
next
  case (Some ob)
  from assms(1) Some assms(2) show ?thesis
  proof (induction rule: hier_induct_up)
    case (obj x ob)
    note up = subtree_up[OF assms(1) obj.hyps(1)]
    have v: "vkey db x = Some (ob_id ob, ob_parent ob, map (\<lambda>v. (vd_name v, vd_perms v)) (ob_verbdefs ob))"
      using obj.hyps(1) assms(1) by (simp add: vkey_def table_ok_find hier_okD(1))
    have "find_inherited db' (exec_verb w) (ob_parent ob) = find_inherited db (exec_verb w) (ob_parent ob)"
    proof (cases "objects db (ob_parent ob)")
      case None
      show ?thesis
      proof (cases "ob_parent ob = NOTHING")
        case True
        have "dbpriv_find_object d (- 1) = None" for d by (simp add: dbpriv_find_object_def)
        then show ?thesis using True
          by (subst (1 2) find_inherited_vkey) (simp add: vkey_def)
      next
        case False
        then have "(x, ob_parent ob) \<in> parent_rel db" using parent_rel_Some[OF obj.hyps(1)] by simp
        then show ?thesis using hier_okD(4)[OF assms(1)] None by blast
      qed
    next
      case (Some q)
      then show ?thesis using obj.IH[OF Some] obj.prems up by simp
    qed
    then show ?case using obj.prems[of x] v
      by (subst (1 2) find_inherited_vkey) (simp split: option.split)
  qed
qed

section \<open>The invariant of the cache\<close>

definition entry_ok :: "db \<Rightarrow> vc_entry \<Rightarrow> bool" where
  "entry_ok db e \<longleftrightarrow> c_string (vc_verbname e) \<and>
     (vc_oid_key e = NOTHING \<or> verbs_of db (vc_oid_key e) \<noteq> []) \<and>
     find_inherited db (exec_verb (vc_verbname e)) (vc_oid_key e) = Some (vc_handle e)"

definition vc_ok :: "db \<Rightarrow> bool" where
  "vc_ok db \<longleftrightarrow> (\<forall>tab b e. vc_table db = Some tab \<longrightarrow> e \<in> set (tab b) \<longrightarrow> entry_ok db e)"

lemma vc_ok_empty: "vc_table db = None \<or> vc_table db = Some (\<lambda>_. []) \<Longrightarrow> vc_ok db"
  by (auto simp: vc_ok_def)

lemma flush_empty:
  "vc_table (db_priv_affected_callable_verb_lookup db) = None \<or>
    vc_table (db_priv_affected_callable_verb_lookup db) = Some (\<lambda>_. [])"
  by (simp add: db_priv_affected_callable_verb_lookup_def split: option.splits)

text \<open>Verb names match words without regard to case, so one entry serves every spelling.\<close>

lemma verbcasecmp_cong:
  assumes "fold_case w = fold_case w'" shows "verbcasecmp v w = verbcasecmp v w'"
proof -
  have "length w = length w'" using assms by (metis length_map)
  then have "name_matches n w = name_matches n w'" for n
    using assms by (simp add: name_matches_def Let_def)
  then show ?thesis by (simp add: verbcasecmp_iff_names)
qed

lemma exec_verb_cong:
  "c_string w \<Longrightarrow> c_string w' \<Longrightarrow> mystrcasecmp w w' = 0 \<Longrightarrow> exec_verb w = exec_verb w'"
  by (simp add: fun_eq_iff exec_verb_def mystrcasecmp_eq_0 verbcasecmp_cong[of w w'])

lemma first_with_verbs_correct:
  assumes "hier_ok db"
  shows "\<exists>k. first_with_verbs db x = Some k \<and> find_inherited db P x = find_inherited db P k \<and>
    (k = NOTHING \<or> verbs_of db k \<noteq> [])"
proof (cases "objects db x")
  case None
  have "first_with_verbs db x = Some NOTHING"
    using None assms by (subst first_with_verbs.simps) (simp add: table_ok_find hier_okD(1))
  then show ?thesis using find_inherited_None[OF assms None]
      find_inherited_None[OF assms table_ok_NOTHING[OF hier_okD(1)[OF assms]]] by simp
next
  case (Some ob)
  from assms Some show ?thesis
  proof (induction rule: hier_induct_up)
    case (obj x ob)
    have id: "ob_id ob = x" using obj.hyps(1) hier_okD(1)[OF assms] by (simp add: table_ok_def)
    have f: "dbpriv_find_object db x = Some ob"
      using obj.hyps(1) assms by (simp add: table_ok_find hier_okD(1))
    show ?case
    proof (cases "ob_verbdefs ob = []")
      case False
      then have "first_with_verbs db x = Some x"
        using f id by (subst first_with_verbs.simps) simp
      then show ?thesis using False verbs_of_Some[OF obj.hyps(1)] by simp
    next
      case True
      then have eq: "first_with_verbs db x = first_with_verbs db (ob_parent ob)"
        using f by (subst first_with_verbs.simps) simp
      have eq2: "find_inherited db P x = find_inherited db P (ob_parent ob)"
        using True find_inherited_Some[OF assms obj.hyps(1), of P] by simp
      note eq = eq eq2
      show ?thesis
      proof (cases "objects db (ob_parent ob)")
        case None
        have "first_with_verbs db (ob_parent ob) = Some NOTHING"
          using None assms by (subst first_with_verbs.simps) (simp add: table_ok_find hier_okD(1))
        then show ?thesis using eq find_inherited_None[OF assms None]
            find_inherited_None[OF assms table_ok_NOTHING[OF hier_okD(1)[OF assms]]] by simp
      next
        case (Some q)
        then show ?thesis using obj.IH[OF Some] eq by simp
      qed
    qed
  qed
qed

section \<open>Cached lookups\<close>

text \<open>A lookup changes the cache and its counters, and nothing else.\<close>

definition same_base :: "db \<Rightarrow> db \<Rightarrow> bool" where
  "same_base db db' \<longleftrightarrow> objects db' = objects db \<and> num_objects db' = num_objects db \<and>
     max_objects db' = max_objects db \<and> all_users db' = all_users db"

lemma same_base_refl [simp]: "same_base db db"
  by (simp add: same_base_def)

lemma same_base_trans: "same_base a b \<Longrightarrow> same_base b c \<Longrightarrow> same_base a c"
  by (simp add: same_base_def)

lemma same_base_hier: "same_base db db' \<Longrightarrow> hier_ok db' = hier_ok db"
  unfolding same_base_def by (rule same_objects(1)) simp_all

lemma same_base_vkey: "same_base db db' \<Longrightarrow> vkey db' y = vkey db y"
  by (simp add: same_base_def vkey_def dbpriv_find_object_def)

lemma same_base_find:
  "same_base db db' \<Longrightarrow> hier_ok db \<Longrightarrow> find_inherited db' (exec_verb w) k = find_inherited db (exec_verb w) k"
  by (intro find_inherited_cong) (simp_all add: same_base_vkey)

lemma same_base_entry: "same_base db db' \<Longrightarrow> hier_ok db \<Longrightarrow> entry_ok db' e = entry_ok db e"
  by (simp add: entry_ok_def same_base_find) (simp add: same_base_def verbs_of_def)

lemma same_base_vc_ok:
  "same_base db db' \<Longrightarrow> hier_ok db \<Longrightarrow> vc_table db' = vc_table db \<Longrightarrow> vc_ok db \<Longrightarrow> vc_ok db'"
  by (simp add: vc_ok_def same_base_entry)

lemma first_with_verbs_same_base:
  "same_base db db' \<Longrightarrow> hier_ok db \<Longrightarrow> first_with_verbs db' x = first_with_verbs db x"
proof -
  assume b: "same_base db db'" and hier: "hier_ok db"
  have f: "dbpriv_find_object db' y = dbpriv_find_object db y" for y
    using b by (simp add: same_base_def dbpriv_find_object_def)
  show ?thesis
  proof (cases "objects db x")
    case None
    then have "dbpriv_find_object db x = None" using hier by (simp add: table_ok_find hier_okD(1))
    then show ?thesis using f by (subst (1 2) first_with_verbs.simps) simp
  next
    case (Some ob)
    from hier Some show ?thesis
    proof (induction rule: hier_induct_up)
      case (obj x ob)
      have "first_with_verbs db' (ob_parent ob) = first_with_verbs db (ob_parent ob)"
      proof (cases "objects db (ob_parent ob)")
        case None
        then have "dbpriv_find_object db (ob_parent ob) = None" using hier by (simp add: table_ok_find hier_okD(1))
        then show ?thesis using f by (subst (1 2) first_with_verbs.simps) simp
      qed (use obj.IH in blast)
      moreover have "dbpriv_find_object db x = Some ob"
        using obj.hyps(1) hier by (simp add: table_ok_find hier_okD(1))
      ultimately show ?case using f by (subst (1 2) first_with_verbs.simps) simp
    qed
  qed
qed

lemma find_callable_verb_correct:
  assumes hier: "hier_ok db" and vc: "vc_ok db" and w: "c_string verb"
  shows "\<exists>h db'. db_find_callable_verb db oid verb = Some (h, db') \<and>
    find_inherited db (exec_verb verb) oid = Some h \<and> same_base db db' \<and> vc_ok db'"
proof -
  define db1 where "db1 = (if vc_table db = None then make_vc_table db else db)"
  have b1: "same_base db db1" by (simp add: db1_def same_base_def make_vc_table_def)
  have v1: "vc_ok db1"
    using vc by (auto simp: db1_def vc_ok_def make_vc_table_def)
  have "vc_table db1 \<noteq> None" by (simp add: db1_def make_vc_table_def)
  then obtain tab where tab: "vc_table db1 = Some tab" by blast
  have hier1: "hier_ok db1" using same_base_hier[OF b1] hier by simp
  obtain k where k: "first_with_verbs db1 oid = Some k" "k = NOTHING \<or> verbs_of db1 k \<noteq> []"
      "find_inherited db1 (exec_verb verb) oid = find_inherited db1 (exec_verb verb) k"
    using first_with_verbs_correct[OF hier1, of oid "exec_verb verb"] by blast
  let ?hash = "vc_key_hash verb k"
  let ?b = "vc_bucket ?hash"
  have r: "find_inherited db (exec_verb verb) oid = find_inherited db1 (exec_verb verb) k"
    using k(3) same_base_find[OF b1 hier] by simp
  show ?thesis
  proof (cases "List.find (vc_matches ?hash k verb) (tab ?b)")
    case (Some e)
    then have e: "e \<in> set (tab ?b)" "vc_matches ?hash k verb e" by (auto simp: find_Some_iff)
    have eo: "entry_ok db1 e" using v1 tab e(1) by (auto simp: vc_ok_def)
    then have "exec_verb verb = exec_verb (vc_verbname e)"
      using e(2) w by (intro exec_verb_cong) (simp_all add: entry_ok_def vc_matches_def)
    then have f: "find_inherited db (exec_verb verb) oid = Some (vc_handle e)"
      using r eo e(2) by (simp add: entry_ok_def vc_matches_def)
    have sb: "same_base db (db1\<lparr>verbcache_hit := n\<rparr>)" "same_base db (db1\<lparr>verbcache_neg_hit := n\<rparr>)" for n
      using b1 by (simp_all add: same_base_def)
    have vb: "vc_ok (db1\<lparr>verbcache_hit := n\<rparr>)" "vc_ok (db1\<lparr>verbcache_neg_hit := n\<rparr>)" for n
      using same_base_vc_ok[OF _ hier1 _ v1] by (simp_all add: same_base_def)
    show ?thesis using k(1) tab Some f sb vb
      by (cases "vc_handle e") (simp_all add: db_find_callable_verb_def Let_def flip: db1_def)
  next
    case None
    let ?db2 = "db1\<lparr>verbcache_miss := verbcache_miss db1 + 1\<rparr>"
    have b2: "same_base db1 ?db2" by (simp add: same_base_def)
    obtain h where h: "find_inherited db1 (exec_verb verb) k = Some h"
      using find_inherited_nearest[OF hier1] by blast
    then have h2: "find_inherited ?db2 (exec_verb verb) k = Some h"
      using same_base_find[OF b2 hier1] by simp
    let ?e = "\<lparr>vc_hash = ?hash, vc_oid_key = k, vc_verbname = verb, vc_handle = h\<rparr>"
    let ?db3 = "vc_insert ?db2 ?b ?e"
    have b3: "same_base db1 ?db3" by (simp add: same_base_def vc_insert_def)
    have "entry_ok db1 ?e" using w k(2) h by (simp add: entry_ok_def)
    then have "vc_ok ?db3"
      using v1 tab same_base_entry[OF b3 hier1]
      by (auto simp: vc_ok_def vc_insert_def split: if_splits)
    moreover have "db_find_callable_verb db oid verb = Some (h, ?db3)"
      using k(1) tab None h2 by (simp add: db_find_callable_verb_def Let_def flip: db1_def)
    ultimately show ?thesis using r h same_base_trans[OF b1 b3] by auto
  qed
qed

section \<open>The cache as a memo table\<close>

definition lookup_state :: "db \<Rightarrow> db \<Rightarrow> bool" where
  "lookup_state db0 db \<longleftrightarrow> hier_ok db0 \<and> same_base db0 db \<and> vc_ok db"

definition lookup_verb :: "db \<Rightarrow> objid \<times> string \<Rightarrow> verb_handle" where
  "lookup_verb db k = (case find_inherited db (exec_verb (snd k)) (fst k) of Some h \<Rightarrow> h | None \<Rightarrow> None)"

interpretation vcache: memo_table "\<lambda>db (oid, verb). db_find_callable_verb db oid verb"
  "lookup_verb db0" "lookup_state db0" "\<lambda>k. c_string (snd k)"
  for db0
proof
  fix db k assume s: "lookup_state db0 db" and k: "c_string (snd (k :: objid \<times> string))"
  then have hier: "hier_ok db" "vc_ok db" using same_base_hier by (auto simp: lookup_state_def)
  obtain h db' where "db_find_callable_verb db (fst k) (snd k) = Some (h, db')"
    "find_inherited db (exec_verb (snd k)) (fst k) = Some h" "same_base db db'" "vc_ok db'"
    using find_callable_verb_correct[OF hier k] by blast
  then show "\<exists>s'. (case k of (oid, verb) \<Rightarrow> db_find_callable_verb db oid verb) = Some (lookup_verb db0 k, s') \<and>
      lookup_state db0 s'"
    using s same_base_trans same_base_find[of db0 db]
    by (auto simp: lookup_state_def lookup_verb_def case_prod_beta)
qed

section \<open>Operations that change verbs\<close>

lemma mod_verb_Some:
  assumes "mod_verb db vh f = Some db'"
  obtains x i ob where "vh = Some (x, i)" "objects db x = Some ob" "i < length (ob_verbdefs ob)"
    "db' = put_object db x (Some (ob\<lparr>ob_verbdefs := (ob_verbdefs ob)[i := f (ob_verbdefs ob ! i)]\<rparr>))"
  using assms by (auto simp: mod_verb_def bind_Some_iff nth_opt_eq_Some split: option.splits)

lemma mod_verb_vc_table: "mod_verb db vh f = Some db' \<Longrightarrow> vc_table db' = vc_table db"
  by (erule mod_verb_Some) simp

lemma flushed_ok: "vc_table db' = vc_table (db_priv_affected_callable_verb_lookup db) \<Longrightarrow> vc_ok db'"
  using flush_empty[of db] by (intro vc_ok_empty) simp

lemma mod_verb_flushed:
  "mod_verb (db_priv_affected_callable_verb_lookup db) vh f = Some db' \<Longrightarrow> vc_ok db'"
  by (rule flushed_ok, erule mod_verb_vc_table)

lemma add_verb_vc_ok: "db_add_verb db oid nm ow fl d p i = Some (n, db') \<Longrightarrow> vc_ok db'"
  by (rule flushed_ok) (auto simp: db_add_verb_def Let_def bind_Some_iff)

lemma delete_verb_vc_ok: "db_delete_verb db vh = Some db' \<Longrightarrow> vc_ok db'"
  by (rule flushed_ok) (auto simp: db_delete_verb_def Let_def bind_Some_iff split: option.splits)

text \<open>Programs and owners are no part of a lookup: their setters leave the cache alone.\<close>

lemma mod_verb_vkey:
  assumes "mod_verb db vh f = Some db'" "\<And>v. vd_name (f v) = vd_name v \<and> vd_perms (f v) = vd_perms v"
  shows "vkey db' y = vkey db y"
proof -
  from assms(1) obtain x i ob where m: "objects db x = Some ob" "i < length (ob_verbdefs ob)"
    "db' = put_object db x (Some (ob\<lparr>ob_verbdefs := (ob_verbdefs ob)[i := f (ob_verbdefs ob ! i)]\<rparr>))"
    by (rule mod_verb_Some)
  have "map (\<lambda>v. (vd_name v, vd_perms v)) ((ob_verbdefs ob)[i := f (ob_verbdefs ob ! i)]) =
      map (\<lambda>v. (vd_name v, vd_perms v)) (ob_verbdefs ob)"
    using m(2) assms(2) by (simp add: map_update list_update_same_conv)
  then show ?thesis using m by (simp add: vkey_def dbpriv_find_object_def)
qed

lemma vkey_verbs: "hier_ok db \<Longrightarrow> vkey db' y = vkey db y \<Longrightarrow> verbs_of db y \<noteq> [] \<Longrightarrow> verbs_of db' y \<noteq> []"
  by (auto simp: vkey_def verbs_of_def table_ok_find hier_okD(1) split: option.splits
      dest!: find_object_Some_objects)

lemma vc_ok_vkey:
  assumes "hier_ok db" "vc_ok db" "vc_table db' = vc_table db"
    and same: "\<And>k y. verbs_of db k \<noteq> [] \<Longrightarrow> k \<in> subtree db y \<Longrightarrow> vkey db' y = vkey db y"
    and none: "objects db' NOTHING = None" "hier_ok db'"
  shows "vc_ok db'"
proof -
  have "entry_ok db' e" if e: "entry_ok db e" for e
  proof (cases "vc_oid_key e = NOTHING")
    case True
    then show ?thesis using e find_inherited_None[OF none(2,1)] find_inherited_None[OF assms(1) table_ok_NOTHING[OF hier_okD(1)[OF assms(1)]]]
      by (simp add: entry_ok_def)
  next
    case False
    then have v: "verbs_of db (vc_oid_key e) \<noteq> []" using e by (simp add: entry_ok_def)
    have "find_inherited db' (exec_verb (vc_verbname e)) (vc_oid_key e) =
        find_inherited db (exec_verb (vc_verbname e)) (vc_oid_key e)"
      using find_inherited_cong[OF assms(1), of "vc_oid_key e" db'] same[OF v] by blast
    moreover have "verbs_of db' (vc_oid_key e) \<noteq> []"
      using vkey_verbs[OF assms(1) same[OF v subtree_self] v] .
    ultimately show ?thesis using e by (simp add: entry_ok_def)
  qed
  then show ?thesis using assms(2,3) by (auto simp: vc_ok_def)
qed

end
