(* ===== verification/Db_Reach.thy ===== *)
theory Db_Reach
  imports Db_Lifecycle Db_Verb_Cache Db_Layout_Laws
begin

text \<open>
  The database as a state machine: the operations the built-in functions use, each with the
  checks its caller makes, as one step relation; and the invariant of every database that they
  can build from an empty one.
\<close>

section \<open>The invariant\<close>

definition places_ok :: "db \<Rightarrow> bool" where
  "places_ok db \<longleftrightarrow> (\<forall>c p. link ob_location db c = Some p \<longrightarrow> p = NOTHING \<or> objects db p \<noteq> None)"

definition world_ok :: "db \<Rightarrow> bool" where
  "world_ok db \<longleftrightarrow> layout_ok db \<and> contents_ok db \<and> places_ok db \<and> users_ok db \<and> vc_ok db"

lemma world_okD:
  assumes "world_ok db"
  shows "layout_ok db" "contents_ok db" "places_ok db" "users_ok db" "vc_ok db" "hier_ok db" "table_ok db"
  using assms layout_hier hier_okD(1) by (auto simp: world_ok_def)

section \<open>The steps\<close>

definition empty_db :: db where
  "empty_db = \<lparr>objects = (\<lambda>_. None), num_objects = 0, max_objects = 0, all_users = [], vc_table = None,
     db_verb_generation = 0, verbcache_hit = 0, verbcache_neg_hit = 0, verbcache_miss = 0\<rparr>"

inductive db_step :: "db \<Rightarrow> db \<Rightarrow> bool" where
  create: "db_create_object db g = Some (n, db') \<Longrightarrow> db_step db db'"
| destroy: "db_destroy_object db x = Some db' \<Longrightarrow> db_step db db'"
| change_parent: "objects db r \<noteq> None \<Longrightarrow> np \<notin> subtree db r \<Longrightarrow> np = NOTHING \<or> objects db np \<noteq> None \<Longrightarrow>
    db_change_parent db r np = Some (b, db') \<Longrightarrow> db_step db db'"
| move: "loc = NOTHING \<or> objects db loc \<noteq> None \<Longrightarrow> db_change_location db x loc = Some db' \<Longrightarrow> db_step db db'"
| add_prop: "objects db x \<noteq> None \<Longrightarrow> c_string nm \<Longrightarrow> v \<noteq> VClear \<Longrightarrow> db_add_propdef db x nm v ow fl = Some (b, db') \<Longrightarrow> db_step db db'"
| delete_prop: "c_string nm \<Longrightarrow> db_delete_propdef db x nm = Some (b, db') \<Longrightarrow> db_step db db'"
| rename_prop: "c_string old \<Longrightarrow> c_string new \<Longrightarrow> db_rename_propdef db x old new = Some (b, db') \<Longrightarrow> db_step db db'"
| set_slot: "h_built_in h = BP_NONE \<Longrightarrow> v \<noteq> VClear \<Longrightarrow> db_set_property_value db h v = Some db' \<Longrightarrow> db_step db db'"
| set_flag: "db_set_object_flag db x f = Some db' \<Longrightarrow> db_step db db'"
| clear_flag: "db_clear_object_flag db x f = Some db' \<Longrightarrow> db_step db db'"
| add_verb: "db_add_verb db x nm ow fl d p i = Some (n, db') \<Longrightarrow> db_step db db'"
| delete_verb: "db_delete_verb db vh = Some db' \<Longrightarrow> db_step db db'"
| set_verb_names: "db_set_verb_names db vh nm = Some db' \<Longrightarrow> db_step db db'"
| set_verb_owner: "db_set_verb_owner db vh ow = Some db' \<Longrightarrow> db_step db db'"
| set_verb_flags: "db_set_verb_flags db vh fl = Some db' \<Longrightarrow> db_step db db'"
| set_verb_program: "db_set_verb_program db vh pr = Some db' \<Longrightarrow> db_step db db'"
| set_verb_args: "db_set_verb_arg_specs db vh d p i = Some db' \<Longrightarrow> db_step db db'"
| call_verb: "c_string w \<Longrightarrow> db_find_callable_verb db x w = Some (h, db') \<Longrightarrow> db_step db db'"

section \<open>Steps that keep the outer fields\<close>

text \<open>Same locations, contents, verbs, parents, users and cache: only names, flags and slots differ.\<close>

definition inner_change :: "db \<Rightarrow> db \<Rightarrow> bool" where
  "inner_change db db' \<longleftrightarrow> same_shape db db' \<and> all_users db' = all_users db \<and> vc_table db' = vc_table db \<and>
     (\<forall>x. map_option outer (objects db' x) = map_option outer (objects db x))"

lemma inner_change_trans: "inner_change a b \<Longrightarrow> inner_change b c \<Longrightarrow> inner_change a c"
  using same_shape_trans by (auto simp: inner_change_def)

lemma inner_change_refl: "inner_change db db"
  by (simp add: inner_change_def)

lemma inner_change_put:
  "objects db x = Some ob \<Longrightarrow> shape ob' = shape ob \<Longrightarrow> outer ob' = outer ob \<Longrightarrow>
    inner_change db (put_object db x (Some ob'))"
  using same_shape_put by (simp add: inner_change_def)

lemma inner_change_app: "keeps_defs U \<Longrightarrow> inner_change db (app U D db)"
  using same_shape_app[OF keeps_defsD(1)] outer_app by (simp add: inner_change_def)

lemma outer_link:
  assumes "\<forall>x. map_option outer (objects db' x) = map_option outer (objects db x)"
  shows "link ob_location db' = link ob_location db" "link ob_contents db' = link ob_contents db"
    "link ob_next db' = link ob_next db" "verbs_of db' = verbs_of db"
    "objects db' x = None \<longleftrightarrow> objects db x = None"
proof -
  have "link ob_location db' y = link ob_location db y \<and> link ob_contents db' y = link ob_contents db y \<and>
      link ob_next db' y = link ob_next db y \<and> verbs_of db' y = verbs_of db y \<and>
      (objects db' y = None \<longleftrightarrow> objects db y = None)" for y
    using assms[rule_format, of y]
    by (cases "objects db y"; cases "objects db' y") (auto simp: outer_def link_def verbs_of_def)
  then show "link ob_location db' = link ob_location db" "link ob_contents db' = link ob_contents db"
    "link ob_next db' = link ob_next db" "verbs_of db' = verbs_of db"
    "objects db' x = None \<longleftrightarrow> objects db x = None" by auto
qed

lemma outer_contents:
  assumes "\<forall>x. map_option outer (objects db' x) = map_option outer (objects db x)"
  shows "contents_ok db' = contents_ok db" "places_ok db' = places_ok db"
proof -
  have "lists_at ob_contents ob_next db' = lists_at ob_contents ob_next db"
    by (simp add: fun_eq_iff lists_at_def list_at_def outer_link(2,3,5)[OF assms] del: not_None_eq)
  then show "contents_ok db' = contents_ok db" "places_ok db' = places_ok db"
    by (simp_all add: contents_ok_def places_ok_def outer_link(1,5)[OF assms] del: not_None_eq)
qed

lemma inner_change_vkey:
  assumes "inner_change db db'" shows "vkey db' y = vkey db y"
proof -
  have ss: "same_shape db db'" and o: "map_option outer (objects db' y) = map_option outer (objects db y)"
    using assms by (auto simp: inner_change_def)
  have n: "num_objects db' = num_objects db" using ss by (simp add: same_shape_def)
  show ?thesis
  proof (cases "objects db y")
    case None
    then have "objects db' y = None" using o by simp
    then show ?thesis using None by (simp add: vkey_def dbpriv_find_object_def)
  next
    case (Some ob)
    obtain ob' where ob': "objects db' y = Some ob'" "shape ob' = shape ob"
      using same_shape_objects[OF ss Some] by blast
    then have "ob_verbdefs ob' = ob_verbdefs ob" using o Some by (simp add: outer_def)
    then show ?thesis using Some ob' n shape_fields(1,2)[OF ob'(2)]
      by (simp add: vkey_def dbpriv_find_object_def)
  qed
qed

lemma inner_change_world:
  assumes w: "world_ok db" and i: "inner_change db db'" and L: "layout_ok db'"
  shows "world_ok db'"
proof -
  have o: "\<forall>x. map_option outer (objects db' x) = map_option outer (objects db x)"
    and u: "all_users db' = all_users db" and vt: "vc_table db' = vc_table db"
    using i by (auto simp: inner_change_def)
  have "vc_ok db'"
    by (rule vc_ok_vkey[OF world_okD(6,5)[OF w] vt])
      (use inner_change_vkey[OF i] table_ok_NOTHING[OF hier_okD(1)[OF layout_hier[OF L]]] layout_hier[OF L] in auto)
  moreover have "users_ok db'" using world_okD(4)[OF w] u by (simp add: users_ok_def)
  ultimately show ?thesis
    using L world_okD(2,3)[OF w] outer_contents[OF o] by (simp add: world_ok_def)
qed

section \<open>Every step keeps the invariant\<close>

lemma add_def_outer [simp]: "outer (add_def d ob) = outer ob" "outer (drop_def i ob) = outer ob"
  by (simp_all add: outer_def add_def_def drop_def_def Let_def)

lemma added_inner: "objects db r = Some rob \<Longrightarrow> inner_change db (added db r rob nm pv)"
  unfolding added_def
  by (rule inner_change_trans[OF inner_change_put inner_change_app]) simp_all

lemma deleted_inner: "objects db r = Some rob \<Longrightarrow> inner_change db (deleted db r rob i)"
  unfolding deleted_def
  by (rule inner_change_trans[OF inner_change_put inner_change_app]) simp_all

lemma renamed_inner: "objects db r = Some rob \<Longrightarrow> inner_change db (renamed db r rob i new)"
  unfolding renamed_def by (rule inner_change_put) (simp_all add: shape_def outer_def)

lemma find_object_world: "world_ok db \<Longrightarrow> dbpriv_find_object db x = objects db x"
  by (simp add: table_ok_find world_okD(7))

lemma add_prop_world:
  assumes w: "world_ok db" and nm: "c_string nm" "v \<noteq> VClear" and run: "db_add_propdef db x nm v ow fl = Some (b, db')"
    and x: "objects db x = Some ob"
  shows "world_ok db'"
proof (cases "fresh_prop db x nm")
  case True
  then have "db' = added db x ob nm \<lparr>pv_var = v, pv_owner = ow, pv_perms = ucast fl\<rparr>"
    using run db_add_propdef_eq[OF world_okD(1)[OF w] x nm(1)] by simp
  then show ?thesis
    using inner_change_world[OF w added_inner[OF x] added_layout[OF world_okD(1)[OF w] x nm(1) True]] nm(2) by simp
next
  case False
  then show ?thesis using run db_add_propdef_eq[OF world_okD(1)[OF w] x nm(1)] w by simp
qed

lemma delete_prop_world:
  assumes w: "world_ok db" and nm: "c_string nm" and run: "db_delete_propdef db x nm = Some (b, db')"
  shows "world_ok db'"
proof -
  obtain ob where x: "objects db x = Some ob"
    using run find_object_world[OF w] by (auto simp: db_delete_propdef_def bind_Some_iff)
  have L: "layout_ok db'" using delete_propdef_cases[OF world_okD(1)[OF w] x nm] run world_okD(1)[OF w]
    by (auto split: if_splits)
  show ?thesis
    using run db_delete_propdef_eq[OF world_okD(1)[OF w] x nm] w
      inner_change_world[OF w deleted_inner[OF x]] L by (auto split: option.splits)
qed

lemma rename_prop_world:
  assumes w: "world_ok db" and nm: "c_string old" "c_string new"
    and run: "db_rename_propdef db x old new = Some (b, db')"
  shows "world_ok db'"
proof -
  obtain ob where x: "objects db x = Some ob"
    using run find_object_world[OF w] by (auto simp: db_rename_propdef_def bind_Some_iff)
  have L: "layout_ok db'" using rename_propdef_cases[OF world_okD(1)[OF w] x nm] run by auto
  show ?thesis
    using run db_rename_propdef_eq[OF world_okD(1)[OF w] x nm] w
      inner_change_world[OF w renamed_inner[OF x]] L by (auto split: option.splits if_splits)
qed

lemma set_slot_world:
  assumes w: "world_ok db" and "h_built_in h = BP_NONE" "v \<noteq> VClear" "db_set_property_value db h v = Some db'"
  shows "world_ok db'"
proof -
  obtain x n where h: "h_ptr h = Slot x n" and m: "mod_slot db (Slot x n) (\<lambda>pv. pv\<lparr>pv_var := v\<rparr>) = Some db'"
    using assms(2,4) by (cases "h_ptr h") (auto simp: db_set_property_value_def mod_slot_def)
  obtain ob vals where ob: "objects db x = Some ob" "db' = put_object db x (Some (ob\<lparr>ob_propval := vals\<rparr>))"
    using m by (auto simp: mod_slot_def bind_Some_iff)
  have "inner_change db db'"
    unfolding ob(2) using ob(1) by (rule inner_change_put) (simp_all add: shape_def outer_def)
  then show ?thesis using inner_change_world[OF w] mod_slot_layout[OF world_okD(1)[OF w] m] assms(3) by simp
qed

lemma put_world:
  assumes w: "world_ok db" and x: "objects db x = Some ob"
    and f: "shape ob' = shape ob" "ob_propdefs ob' = ob_propdefs ob" "ob_propval ob' = ob_propval ob"
      "ob_max_props ob' = ob_max_props ob" "outer ob' = outer ob"
  shows "world_ok (put_object db x (Some ob'))"
  using inner_change_world[OF w inner_change_put[OF x f(1,5)] layout_ok_put[OF world_okD(1)[OF w] x f(1-4)]] .

lemma vc_ok_users: "vc_ok db \<Longrightarrow> hier_ok db \<Longrightarrow> vc_ok (db\<lparr>all_users := us\<rparr>)"
proof -
  assume v: "vc_ok db" and h: "hier_ok db"
  have hier: "hier_ok (db\<lparr>all_users := us\<rparr>)" using same_objects(1)[of "db\<lparr>all_users := us\<rparr>" db] h by simp
  show ?thesis
    by (rule vc_ok_vkey[OF h v])
      (use hier table_ok_NOTHING[OF hier_okD(1)[OF h]] in \<open>auto simp: vkey_def dbpriv_find_object_def\<close>)
qed

lemma world_users:
  assumes "world_ok db" "\<forall>v \<in> set us. \<exists>x. v = VObj x" shows "world_ok (db\<lparr>all_users := us\<rparr>)"
proof -
  have "layout_ok (db\<lparr>all_users := us\<rparr>)" using same_objects(4)[of "db\<lparr>all_users := us\<rparr>" db] world_okD(1)[OF assms(1)] by simp
  moreover have "contents_ok (db\<lparr>all_users := us\<rparr>) = contents_ok db" "places_ok (db\<lparr>all_users := us\<rparr>) = places_ok db"
    using outer_contents[of "db\<lparr>all_users := us\<rparr>" db] by simp_all
  ultimately show ?thesis
    using assms(2) world_okD[OF assms(1)] vc_ok_users by (simp add: world_ok_def users_ok_def)
qed

lemma users_c_value: "users_ok db \<Longrightarrow> \<forall>v \<in> set (all_users db). c_value v"
  by (auto simp: users_ok_def)

lemma set_flag_world:
  assumes w: "world_ok db" and run: "db_set_object_flag db x f = Some db'"
  shows "world_ok db'"
proof -
  obtain ob where x: "objects db x = Some ob"
    using run by (auto simp: db_set_object_flag_def bind_Some_iff mod_object_eq_Some)
  let ?db1 = "put_object db x (Some (ob_flags_update (\<lambda>fl. fl OR push_bit (flag_bit f) 1) ob))"
  have w1: "world_ok ?db1" by (rule put_world[OF w x]) (simp_all add: shape_def outer_def)
  show ?thesis
  proof (cases "f = FLAG_USER")
    case True
    then obtain us where us: "setadd (all_users ?db1) (VObj x) = Some us" "db' = ?db1\<lparr>all_users := us\<rparr>"
      using run x by (auto simp: db_set_object_flag_def mod_object_Some bind_Some_iff)
    have "us = all_users ?db1 \<or> us = all_users ?db1 @ [VObj x]"
      using setadd_spec[of "VObj x" "all_users ?db1"] users_c_value[OF world_okD(4)[OF w1]] us(1)
      by (auto split: if_splits)
    then show ?thesis unfolding us(2)
      by (intro world_users[OF w1]) (use world_okD(4)[OF w1] in \<open>auto simp only: users_ok_def set_append list.set\<close>)
  qed (use run x w1 in \<open>simp add: db_set_object_flag_def mod_object_Some\<close>)
qed

lemma clear_flag_world:
  assumes w: "world_ok db" and run: "db_clear_object_flag db x f = Some db'"
  shows "world_ok db'"
proof -
  obtain ob where x: "objects db x = Some ob"
    using run by (auto simp: db_clear_object_flag_def bind_Some_iff mod_object_eq_Some)
  let ?db1 = "put_object db x (Some (ob_flags_update (\<lambda>fl. fl AND NOT (push_bit (flag_bit f) 1)) ob))"
  have w1: "world_ok ?db1" by (rule put_world[OF w x]) (simp_all add: shape_def outer_def)
  show ?thesis
  proof (cases "f = FLAG_USER")
    case True
    then obtain us where us: "setremove (all_users ?db1) (VObj x) = Some us" "db' = ?db1\<lparr>all_users := us\<rparr>"
      using run x by (auto simp: db_clear_object_flag_def mod_object_Some bind_Some_iff)
    have "set us \<subseteq> set (all_users ?db1)"
      using setremove_spec[of "VObj x" "all_users ?db1"] users_c_value[OF world_okD(4)[OF w1]] us(1) by auto
    then show ?thesis unfolding us(2)
      by (intro world_users[OF w1]) (use world_okD(4)[OF w1] in \<open>auto simp only: users_ok_def set_append list.set\<close>)
  qed (use run x w1 in \<open>simp add: db_clear_object_flag_def mod_object_Some\<close>)
qed

text \<open>Operations on verbs change nothing but verbs, and what they do to a lookup they flush.\<close>

lemma verbs_world:
  assumes w: "world_ok db" and x: "objects db x = Some ob" and v: "vc_ok db'"
    and db': "objects db' = objects (put_object db x (Some (ob\<lparr>ob_verbdefs := vs\<rparr>)))"
      "num_objects db' = num_objects db" "max_objects db' = max_objects db" "all_users db' = all_users db"
  shows "world_ok db'"
proof -
  let ?p = "put_object db x (Some (ob\<lparr>ob_verbdefs := vs\<rparr>))"
  have "layout_ok ?p" by (rule layout_ok_put[OF world_okD(1)[OF w] x]) (simp_all add: shape_def)
  then have L: "layout_ok db'" using same_objects(4)[of db' ?p] db' by simp
  have l: "link ob_location db' = link ob_location db" "link ob_contents db' = link ob_contents db"
      "link ob_next db' = link ob_next db" "objects db' y = None \<longleftrightarrow> objects db y = None" for y
    using x db'(1) by (auto simp: link_def fun_eq_iff)
  have "lists_at ob_contents ob_next db' = lists_at ob_contents ob_next db"
    by (simp add: fun_eq_iff lists_at_def list_at_def l del: not_None_eq)
  then have "contents_ok db' = contents_ok db" "places_ok db' = places_ok db"
    by (simp_all add: contents_ok_def places_ok_def l del: not_None_eq)
  then show ?thesis using L v world_okD[OF w] db'(4) by (simp add: world_ok_def users_ok_def)
qed

lemma flush_world: "world_ok db \<Longrightarrow> world_ok (db_priv_affected_callable_verb_lookup db)"
proof -
  assume w: "world_ok db"
  let ?f = "db_priv_affected_callable_verb_lookup db"
  have "layout_ok ?f" using same_objects(4)[of ?f db] world_okD(1)[OF w] by simp
  moreover have "contents_ok ?f = contents_ok db" "places_ok ?f = places_ok db"
    using outer_contents[of ?f db] by simp_all
  moreover have "vc_ok ?f" by (rule flushed_ok) simp
  ultimately show ?thesis using world_okD[OF w] by (simp add: world_ok_def users_ok_def)
qed

lemma mod_verb_world:
  assumes w: "world_ok db" and run: "mod_verb db vh f = Some db'" and v: "vc_ok db'"
  shows "world_ok db'"
proof -
  from run obtain x i ob where x: "objects db x = Some ob"
    "db' = put_object db x (Some (ob\<lparr>ob_verbdefs := (ob_verbdefs ob)[i := f (ob_verbdefs ob ! i)]\<rparr>))"
    by (rule mod_verb_Some)
  show ?thesis by (rule verbs_world[OF w x(1) v]) (simp_all add: x(2))
qed

lemma mod_verb_quiet_world:
  assumes w: "world_ok db" and run: "mod_verb db vh f = Some db'"
    and f: "\<And>v. vd_name (f v) = vd_name v \<and> vd_perms (f v) = vd_perms v"
  shows "world_ok db'"
proof -
  from run obtain x i ob where x: "objects db x = Some ob"
    "db' = put_object db x (Some (ob\<lparr>ob_verbdefs := (ob_verbdefs ob)[i := f (ob_verbdefs ob ! i)]\<rparr>))"
    by (rule mod_verb_Some)
  have "layout_ok db'" unfolding x(2) by (rule layout_ok_put[OF world_okD(1)[OF w] x(1)]) (simp_all add: shape_def)
  then have h: "hier_ok db'" by (rule layout_hier)
  have "vc_ok db'"
    by (rule vc_ok_vkey[OF world_okD(6,5)[OF w] mod_verb_vc_table[OF run]])
      (use mod_verb_vkey[OF run f] h table_ok_NOTHING[OF hier_okD(1)[OF h]] in auto)
  then show ?thesis by (rule mod_verb_world[OF w run])
qed

lemma add_verb_world: "world_ok db \<Longrightarrow> db_add_verb db x nm ow fl d p i = Some (n, db') \<Longrightarrow> world_ok db'"
proof -
  assume w: "world_ok db" and run: "db_add_verb db x nm ow fl d p i = Some (n, db')"
  let ?f = "db_priv_affected_callable_verb_lookup db"
  obtain ob where ob: "objects db x = Some ob"
      "db' = put_object ?f x (Some (ob\<lparr>ob_verbdefs := ob_verbdefs ob @ [new_verbdef nm ow fl d p i]\<rparr>))"
    using run find_object_world[OF flush_world[OF w]] by (auto simp: db_add_verb_def Let_def bind_Some_iff)
  show ?thesis by (rule verbs_world[OF w ob(1) add_verb_vc_ok[OF run]]) (simp_all add: ob(2))
qed

lemma delete_verb_world: "world_ok db \<Longrightarrow> db_delete_verb db vh = Some db' \<Longrightarrow> world_ok db'"
proof -
  assume w: "world_ok db" and run: "db_delete_verb db vh = Some db'"
  let ?f = "db_priv_affected_callable_verb_lookup db"
  obtain x i ob where ob: "objects db x = Some ob"
      "db' = put_object ?f x (Some (ob\<lparr>ob_verbdefs := delete_at i (ob_verbdefs ob)\<rparr>))"
    using run find_object_world[OF flush_world[OF w]]
    by (auto simp: db_delete_verb_def Let_def bind_Some_iff split: option.splits)
  show ?thesis by (rule verbs_world[OF w ob(1) delete_verb_vc_ok[OF run]]) (simp_all add: ob(2))
qed

lemma call_verb_world:
  assumes w: "world_ok db" and run: "c_string nm" "db_find_callable_verb db x nm = Some (h, db')"
  shows "world_ok db'"
proof -
  have b: "same_base db db'" "vc_ok db'"
    using find_callable_verb_correct[OF world_okD(6,5)[OF w] run(1), of x] run(2) by auto
  have "layout_ok db' = layout_ok db" by (rule same_objects(4)) (use b(1) in \<open>simp_all add: same_base_def\<close>)
  moreover have "contents_ok db' = contents_ok db" "places_ok db' = places_ok db"
    using outer_contents[of db' db] b(1) by (simp_all add: same_base_def)
  ultimately show ?thesis using b world_okD[OF w] by (simp add: world_ok_def users_ok_def same_base_def)
qed

lemma create_world:
  assumes w: "world_ok db" and run: "db_create_object db g = Some (n, db')"
  shows "world_ok db'"
proof -
  let ?n = "num_objects db"
  have c: "layout_ok db'" "objects db ?n = None"
    "objects db' = (objects db)(?n \<mapsto> init_object (g\<lparr>ob_id := ?n\<rparr>))"
    "num_objects db' = ?n + 1" "vc_table db' = vc_table db" "all_users db' = all_users db"
    using create_object_correct[OF world_okD(1)[OF w], of g] run by auto
  have n0: "?n \<noteq> NOTHING" using world_okD(7)[OF w] by (simp add: table_ok_def)
  have l: "link f db' y = (if y = ?n then Some (f (init_object (g\<lparr>ob_id := ?n\<rparr>))) else link f db y)" for f y
    using c(3) by (simp add: link_def)
  have nol: "link ob_location db y \<noteq> Some ?n" for y
    using world_okD(3)[OF w] c(2) n0 unfolding places_ok_def by blast
  obtain K where K: "lists_at ob_contents ob_next db K"
    "\<And>p. objects db p \<noteq> None \<Longrightarrow> set (K p) = {c. link ob_location db c = Some p}"
    using world_okD(2)[OF w] unfolding contents_ok_def by blast
  have "list_at ob_contents ob_next db' p ((K(?n := [])) p)" if p: "objects db' p \<noteq> None" for p
  proof (cases "p = ?n")
    case True
    then show ?thesis using l[of ob_contents ?n] by (simp add: list_at_def init_object_def)
  next
    case False
    then have p0: "objects db p \<noteq> None" using p c(3) by simp
    have "?n \<notin> set (K p)" using K(2)[OF p0] c(2) by (simp add: link_def)
    then have "chain (link ob_next db') h (K p) = chain (link ob_next db) h (K p)" for h
      by (intro chain_cong) (auto simp: l)
    then show ?thesis using K(1) p0 False by (simp add: lists_at_def list_at_def l)
  qed
  moreover have "set ((K(?n := [])) p) = {c. link ob_location db' c = Some p}" if p: "objects db' p \<noteq> None" for p
  proof (cases "p = ?n")
    case True
    then show ?thesis using nol n0 by (auto simp: l init_object_def)
  next
    case False
    then have p0: "objects db p \<noteq> None" using p c(3) by simp
    have "p \<noteq> NOTHING" using p0 table_ok_NOTHING[OF world_okD(7)[OF w]] by auto
    moreover have "link ob_location db ?n = None" using c(2) by (simp add: link_def)
    ultimately show ?thesis using False K(2)[OF p0] by (auto simp: l init_object_def)
  qed
  ultimately have "contents_ok db'" unfolding contents_ok_def lists_at_def by blast
  moreover have "places_ok db'"
    using world_okD(3)[OF w] c(3) by (auto simp: places_ok_def l init_object_def split: if_splits)
  moreover have "vc_ok db'"
  proof (rule vc_ok_vkey[OF world_okD(6,5)[OF w] c(5)])
    fix k y assume k: "verbs_of db k \<noteq> []" "k \<in> subtree db y"
    have "k \<noteq> ?n" using k(1) c(2) by (auto simp: verbs_of_def)
    then have "y \<noteq> ?n" using k(2) c(2) by (metis hier_okD(4) subtree_cases world_okD(6)[OF w])
    then show "vkey db' y = vkey db y" using c(3,4) by (auto simp: vkey_def dbpriv_find_object_def
          dest: world_okD(7)[OF w, unfolded table_ok_def, THEN conjunct2, THEN conjunct2, rule_format])
  qed (use layout_hier[OF c(1)] table_ok_NOTHING[OF hier_okD(1)[OF layout_hier[OF c(1)]]] in auto)
  ultimately show ?thesis using c(1,6) world_okD(4)[OF w] by (simp add: world_ok_def users_ok_def)
qed

lemma destroy_world:
  assumes w: "world_ok db" and run: "db_destroy_object db x = Some db'"
  shows "world_ok db'"
proof -
  let ?f = "db_priv_affected_callable_verb_lookup db"
  obtain ob where ob: "objects db x = Some ob" "ob_location ob = NOTHING" "ob_contents ob = NOTHING"
    "ob_parent ob = NOTHING" "ob_child ob = NOTHING"
    using run find_object_world[OF flush_world[OF w]]
    by (auto simp: db_destroy_object_def Let_def bind_Some_iff split: if_splits)
  have d: "layout_ok db'" "objects db' = (objects db)(x := None)" "vc_table db' = None \<or> vc_table db' = Some (\<lambda>_. [])"
    using destroy_object_correct[OF world_okD(1,4)[OF w] ob] run by auto
  obtain us where us: "all_users db' = us" "us = all_users db \<or> setremove (all_users db) (VObj x) = Some us"
    using run by (auto simp: db_destroy_object_def Let_def bind_Some_iff split: if_splits)
  have u: "users_ok db'"
    using us setremove_spec[of "VObj x" "all_users db"] users_c_value[OF world_okD(4)[OF w]] world_okD(4)[OF w]
    by (auto simp: users_ok_def)
  have x0: "x \<noteq> NOTHING" using ob(1) table_ok_NOTHING[OF world_okD(7)[OF w]] by auto
  have l: "link f db' y = (if y = x then None else link f db y)" for f y
    using d(2) by (simp add: link_def)
  obtain K where K: "lists_at ob_contents ob_next db K"
    "\<And>p. objects db p \<noteq> None \<Longrightarrow> set (K p) = {c. link ob_location db c = Some p}"
    using world_okD(2)[OF w] unfolding contents_ok_def by blast
  have "K x = []" using K(1) ob by (auto simp: lists_at_def list_at_def link_def)
  then have empty: "link ob_location db y \<noteq> Some x" for y using K(2)[of x] ob(1) by auto
  have notin: "x \<notin> set (K p)" if "objects db p \<noteq> None" for p
    using K(2)[OF that] ob(1,2) that table_ok_NOTHING[OF world_okD(7)[OF w]] by (auto simp: link_def)
  have "list_at ob_contents ob_next db' p (K p) \<and> set (K p) = {c. link ob_location db' c = Some p}"
    if p: "objects db' p \<noteq> None" for p
  proof -
    have p0: "objects db p \<noteq> None" "p \<noteq> x" using p d(2) by (auto split: if_splits)
    have "chain (link ob_next db') h (K p) = chain (link ob_next db) h (K p)" for h
      using notin[OF p0(1)] by (intro chain_cong) (auto simp: l)
    then have "list_at ob_contents ob_next db' p (K p)" using K(1) p0 by (simp add: lists_at_def list_at_def l)
    moreover have "link ob_location db x \<noteq> Some p" using ob(1,2) p0(1) table_ok_NOTHING[OF world_okD(7)[OF w]]
      by (auto simp: link_def)
    ultimately show ?thesis using K(2)[OF p0(1)] by (auto simp: l)
  qed
  then have "contents_ok db'" unfolding contents_ok_def lists_at_def by blast
  moreover have "places_ok db'"
    using world_okD(3)[OF w] d(2) empty by (auto simp: places_ok_def l split: if_splits)
  ultimately show ?thesis using d(1) u vc_ok_empty[OF d(3)] by (simp add: world_ok_def)
qed

lemma chparent_world:
  assumes w: "world_ok db" and r: "objects db r \<noteq> None" and np: "np \<notin> subtree db r" "np = NOTHING \<or> objects db np \<noteq> None"
    and run: "db_change_parent db r np = Some (b, db')"
  shows "world_ok db'"
proof -
  obtain rob where rob: "objects db r = Some rob" using r by blast
  show ?thesis
  proof (cases "chparent_ok db r np")
    case False
    then show ?thesis using db_change_parent_refused[OF world_okD(1)[OF w] rob] run w by simp
  next
    case True
    have d: "layout_ok db'" "\<And>x. link ob_parent db' x = (if x = r then Some np else link ob_parent db x)"
      "\<forall>x. map_option outer (objects db' x) = map_option outer (objects db x)" "all_users db' = all_users db"
      "vc_table db' = (if ob_child rob = NOTHING \<and> ob_verbdefs rob = [] then vc_table db
        else vc_table (db_priv_affected_callable_verb_lookup db))"
      using db_change_parent_correct[OF world_okD(1)[OF w] rob np True] run by auto
    note hier' = layout_hier[OF d(1)]
    have "vc_ok db'"
    proof (cases "ob_child rob = NOTHING \<and> ob_verbdefs rob = []")
      case False
      then have "vc_table db' = vc_table (db_priv_affected_callable_verb_lookup db)"
        using d(5) by (simp only: if_False)
      then show ?thesis by (rule flushed_ok)
    next
      case noflush: True
      have kids: "(c, r) \<notin> parent_rel db" for c
      proof
        assume c: "(c, r) \<in> parent_rel db"
        obtain cs where cs: "list_at ob_child ob_sibling db r cs" "set cs = {c. link ob_parent db c = Some r}"
          using hier_okD(3)[OF world_okD(6)[OF w]] rob unfolding kids_ok_def by blast
        have "cs = []" using cs(1) rob noflush by (simp add: list_at_def link_def)
        then show False using cs(2) c by (simp add: parent_rel_def)
      qed
      show ?thesis
      proof (rule vc_ok_vkey[OF world_okD(6,5)[OF w]])
        show "vc_table db' = vc_table db" using d(5) noflush by simp
        fix k y assume k: "verbs_of db k \<noteq> []" "k \<in> subtree db y"
        have "k \<noteq> r" using k(1) rob noflush by (auto simp: verbs_of_def)
        then have y: "y \<noteq> r" using k(2) kids subtree_cases by metis
        have o: "map_option outer (objects db' y) = map_option outer (objects db y)" using d(3) by blast
        have p: "link ob_parent db' y = link ob_parent db y" using d(2) y by simp
        show "vkey db' y = vkey db y"
        proof (cases "objects db y")
          case None
          then show ?thesis using o hier' world_okD(6)[OF w] by (simp add: vkey_def table_ok_find hier_okD(1))
        next
          case (Some ob)
          then obtain ob' where ob': "objects db' y = Some ob'" "outer ob' = outer ob" using o
            by (cases "objects db' y") auto
          have ids: "ob_id ob' = y" "ob_id ob = y"
            using ob'(1) Some hier_okD(1)[OF hier'] world_okD(7)[OF w] by (auto simp: table_ok_def)
          then show ?thesis using Some ob' p hier' world_okD(6)[OF w]
            by (simp add: vkey_def table_ok_find hier_okD(1) link_def outer_def)
        qed
      qed (use hier' table_ok_NOTHING[OF hier_okD(1)[OF hier']] in auto)
    qed
    then show ?thesis using d(1,4) world_okD[OF w] outer_contents[OF d(3)]
      by (simp add: world_ok_def users_ok_def)
  qed
qed

lemma move_world:
  assumes w: "world_ok db" and loc: "loc = NOTHING \<or> objects db loc \<noteq> None" and run: "db_change_location db x loc = Some db'"
  shows "world_ok db'"
proof -
  obtain ob where ob: "objects db x = Some ob"
    using run by (auto simp: db_change_location_def db_object_location_def bind_Some_iff)
  have d: "contents_ok db'" "\<And>y. link ob_location db' y = (if y = x then Some loc else link ob_location db y)"
    "layout_ok db'" "vc_table db' = vc_table db" "all_users db' = all_users db"
    "num_objects db' = num_objects db"
    "\<And>y. map_option lookup_part (objects db' y) = map_option lookup_part (objects db y)"
    using change_location_correct[OF world_okD(7,2)[OF w] ob, of loc] run world_okD(1)[OF w] by auto
  have vk: "vkey db' y = vkey db y" for y
    using d(7)[of y] d(6)
    by (cases "objects db y"; cases "objects db' y") (simp_all add: vkey_def dbpriv_find_object_def lookup_part_def)
  have "vc_ok db'"
    by (rule vc_ok_vkey[OF world_okD(6,5)[OF w] d(4)])
      (use vk layout_hier[OF d(3)] table_ok_NOTHING[OF hier_okD(1)[OF layout_hier[OF d(3)]]] in auto)
  moreover have "places_ok db'"
    unfolding places_ok_def
  proof (intro allI impI)
    fix c p assume c: "link ob_location db' c = Some p"
    have dom: "objects db' p \<noteq> None \<longleftrightarrow> objects db p \<noteq> None"
      using d(7)[of p] by (cases "objects db p"; cases "objects db' p") simp_all
    show "p = NOTHING \<or> objects db' p \<noteq> None"
      unfolding dom using c d(2)[of c] loc world_okD(3)[OF w] by (auto simp: places_ok_def split: if_splits)
  qed
  ultimately show ?thesis using d world_okD(4)[OF w] by (simp add: world_ok_def users_ok_def)
qed

lemma flushed_verb_world:
  "world_ok db \<Longrightarrow> mod_verb (db_priv_affected_callable_verb_lookup db) vh f = Some db' \<Longrightarrow> world_ok db'"
  using mod_verb_world[OF flush_world] mod_verb_flushed by blast

lemma db_step_world:
  assumes "db_step db db'" "world_ok db" shows "world_ok db'"
  using assms
proof cases
  case set_verb_owner
  then show ?thesis
    using mod_verb_quiet_world[OF assms(2), of _ "vd_owner_update _"] by (simp add: db_set_verb_owner_def)
next
  case set_verb_program
  then show ?thesis
    using mod_verb_quiet_world[OF assms(2), of _ "vd_program_update _"] by (simp add: db_set_verb_program_def)
next
  case add_prop
  then show ?thesis using add_prop_world[OF assms(2)] by blast
qed (simp_all add: db_set_verb_names_def db_set_verb_flags_def db_set_verb_arg_specs_def
    create_world[OF assms(2)] destroy_world[OF assms(2)] chparent_world[OF assms(2)] move_world[OF assms(2)]
    delete_prop_world[OF assms(2)] rename_prop_world[OF assms(2)] set_slot_world[OF assms(2)]
    set_flag_world[OF assms(2)] clear_flag_world[OF assms(2)] add_verb_world[OF assms(2)]
    delete_verb_world[OF assms(2)] call_verb_world[OF assms(2)] flushed_verb_world[OF assms(2)])

lemma empty_world: "world_ok empty_db"
proof -
  have "hier_ok empty_db"
    by (simp add: hier_ok_def table_ok_def kids_ok_def empty_db_def parent_rel_def link_def acyclic_def)
  then show ?thesis
    by (simp add: world_ok_def layout_ok_def contents_ok_def places_ok_def users_ok_def vc_ok_def)
      (simp add: empty_db_def lists_at_def link_def)
qed

lemma reachable_world: "db_step\<^sup>*\<^sup>* empty_db db \<Longrightarrow> world_ok db"
  by (induction rule: rtranclp_induct) (simp_all add: empty_world db_step_world)

end
