(* ===== verification/Parse_Cmd.thy ===== *)
theory Parse_Cmd
  imports Db_Verbs
begin

text \<open>
  Commands typed by players: src/src/match.c, which finds the object a phrase names, and the rest
  of src/src/parse_cmd.c, which splits a command into verb, objects and preposition.

  The theory shows which object a phrase means: an exact name beats a beginning of a name, and two
  objects that fit equally well make it ambiguous.
\<close>

section \<open>Names of an object\<close>

definition aliases :: "db \<Rightarrow> objid \<Rightarrow> var list option" where
  "aliases db oid = do {
     (h, v) \<leftarrow> db_find_property db oid ''aliases'' True;
     Some (if h_ptr h = Null then [] else case v of Some (VList xs) \<Rightarrow> xs | _ \<Rightarrow> []) }"

text \<open>The names \<open>match_proc\<close> tries: that of the object, then the aliases that are strings.\<close>

fun string_names :: "var list \<Rightarrow> string list" where
  "string_names [] = []"
| "string_names (VStr s # vs) = s # string_names vs"
| "string_names (_ # vs) = string_names vs"

definition all_names :: "db \<Rightarrow> objid \<Rightarrow> string list option" where
  "all_names db oid = do {
     nm \<leftarrow> db_object_name db oid; als \<leftarrow> aliases db oid;
     Some (nm # string_names als) }"

section \<open>match_proc\<close>

record match_data =
  md_exact :: objid
  md_partial :: objid

text \<open>The loop over the names; \<open>True\<close> stops the enumeration.\<close>

fun match_names :: "string \<Rightarrow> objid \<Rightarrow> string list \<Rightarrow> match_data \<Rightarrow> bool \<times> match_data" where
  "match_names what oid [] d = (False, d)"
| "match_names what oid (name # names) d =
     (if mystrncasecmp name what (length what) = 0
      then if drop (length what) name = []
           then if md_exact d = NOTHING \<or> md_exact d = oid
                then match_names what oid names (d\<lparr>md_exact := oid\<rparr>)
                else (True, d)
           else match_names what oid names
             (if md_partial d = FAILED_MATCH \<or> md_partial d = oid
              then d\<lparr>md_partial := oid\<rparr> else d\<lparr>md_partial := AMBIGUOUS\<rparr>)
      else match_names what oid names d)"

definition match_proc :: "db \<Rightarrow> string \<Rightarrow> match_data \<Rightarrow> objid \<Rightarrow> (bool \<times> match_data) option" where
  "match_proc db what d oid = map_option (\<lambda>names. match_names what oid names d) (all_names db oid)"

text \<open>\<open>db_for_all_contents(oid, match_proc, &d)\<close>\<close>

fun match_list :: "db \<Rightarrow> string \<Rightarrow> objid list \<Rightarrow> match_data \<Rightarrow> (bool \<times> match_data) option" where
  "match_list db what [] d = Some (False, d)"
| "match_list db what (c # cs) d = do {
     (stop, d1) \<leftarrow> match_proc db what d c;
     if stop then Some (True, d1) else match_list db what cs d1 }"

definition match_in :: "db \<Rightarrow> string \<Rightarrow> match_data \<Rightarrow> objid \<Rightarrow> (bool \<times> match_data) option" where
  "match_in db what d oid =
     (if \<not> valid db oid then Some (False, d)
      else do { cs \<leftarrow> db_contents db oid; match_list db what cs d })"

definition match_contents :: "db \<Rightarrow> objid \<Rightarrow> string \<Rightarrow> objid option" where
  "match_contents db player name =
     (if \<not> valid db player then Some FAILED_MATCH
      else do {
        loc \<leftarrow> db_object_location db player;
        (stop, d) \<leftarrow> match_in db name \<lparr>md_exact = NOTHING, md_partial = FAILED_MATCH\<rparr> player;
        if stop then Some AMBIGUOUS
        else do {
          (stop2, d2) \<leftarrow> match_in db name d loc;
          Some (if stop2 then AMBIGUOUS
                else if md_exact d2 \<noteq> NOTHING then md_exact d2 else md_partial d2) } })"

definition match_object :: "db \<Rightarrow> objid \<Rightarrow> string \<Rightarrow> objid option" where
  "match_object db player name =
     (if name = [] then Some NOTHING
      else if hd name = CHR ''#'' then
        (case strtol (tl name) of (l, p) \<Rightarrow>
          let r = sint (word_of_int l :: int32)
          in Some (if p \<noteq> [] \<or> \<not> valid db r then FAILED_MATCH else r))
      else if \<not> valid db player then Some FAILED_MATCH
      else if mystrcasecmp name ''me'' = 0 then Some player
      else if mystrcasecmp name ''here'' = 0 then db_object_location db player
      else match_contents db player name)"

section \<open>parse_command\<close>

record parsed_command =
  pc_verb :: string
  pc_argstr :: string
  pc_args :: "var list"
  pc_dobjstr :: string
  pc_dobj :: objid
  pc_prepstr :: string
  pc_prep :: int
  pc_iobjstr :: string
  pc_iobj :: objid

text \<open>The text after a verb and its quoted parts.\<close>

fun skip_verb :: "bool \<Rightarrow> string \<Rightarrow> string" where
  "skip_verb q [] = []"
| "skip_verb q (c # s) =
     (if \<not> q \<and> c = CHR '' '' then c # s
      else if c = QUOTE then skip_verb (\<not> q) s
      else if c = BSLASH then (case s of [] \<Rightarrow> [] | d # t \<Rightarrow> skip_verb q t)
      else skip_verb q s)"

definition special_verb :: "char \<Rightarrow> string option" where
  "special_verb c = (if c = QUOTE then Some ''say'' else if c = CHR '':'' then Some ''emote''
     else if c = CHR '';'' then Some ''eval'' else None)"

text \<open>\<open>buf\<close> and \<open>argstr\<close>.\<close>

definition command_text :: "string \<Rightarrow> string \<times> string" where
  "command_text command = (let s = skip_spaces command in
     case (if s = [] then None else special_verb (hd s)) of
       Some verb \<Rightarrow> (verb @ '' '' @ tl s, tl s)
     | None \<Rightarrow> (s, skip_spaces (skip_verb False s)))"

text \<open>The preposition, \<open>pstart\<close> and \<open>pend\<close>, counted from the verb.\<close>

definition command_prep :: "string list \<Rightarrow> int \<times> nat \<times> nat" where
  "command_prep argv = (let argc = length argv in
     if argc > 1
     then (case db_find_prep False (tl argv) of
             None \<Rightarrow> (PREP_NONE, argc, argc)
           | Some (j, pstart, pend) \<Rightarrow> (int j, pstart + 1, nat (pend + 1)))
     else (PREP_NONE, argc, argc))"

definition parse_command :: "db \<Rightarrow> string \<Rightarrow> objid \<Rightarrow> parsed_command option option" where
  "parse_command db command user = (case command_text command of (buf, argstr) \<Rightarrow> do {
     argv \<leftarrow> words_of buf;
     if argv = [] then Some None
     else case command_prep argv of (prep, pstart, pend) \<Rightarrow> do {
       (prepstr, iobjstr, iobj) \<leftarrow>
         (if prep \<noteq> PREP_NONE then do {
            let iobjstr = build_string (drop (pend + 1) argv);
            iobj \<leftarrow> match_object db user iobjstr;
            Some (build_string (take (pend - pstart + 1) (drop pstart argv)), iobjstr, iobj) }
          else Some ([], [], NOTHING));
       (dobjstr, dobj) \<leftarrow>
         (if pstart - 1 = 0 then Some ([], NOTHING)
          else do {
            let dobjstr = build_string (take (pstart - 1) (tl argv));
            dobj \<leftarrow> match_object db user dobjstr;
            Some (dobjstr, dobj) });
       Some (Some \<lparr>pc_verb = hd argv, pc_argstr = argstr, pc_args = map VStr (tl argv),
         pc_dobjstr = dobjstr, pc_dobj = dobj, pc_prepstr = prepstr, pc_prep = prep,
         pc_iobjstr = iobjstr, pc_iobj = iobj\<rparr>) } })"

end
