(* ===== verification/Match_Laws.thy ===== *)
theory Match_Laws
  imports Parse_Cmd Db_Lifecycle
begin

text \<open>
  Which object a phrase means. The candidates of \<open>match_contents\<close> are what the player carries
  and what is in the player's location; \<open>best_match\<close> says which of them is meant, in terms of the
  objects that have the phrase as a name and those that have a longer name beginning with it.
\<close>

definition names_of :: "db \<Rightarrow> objid \<Rightarrow> string list" where
  "names_of db x = (case all_names db x of Some ns \<Rightarrow> ns | None \<Rightarrow> [])"

definition is_name :: "string \<Rightarrow> string \<Rightarrow> bool" where
  "is_name what n \<longleftrightarrow> fold_case n = fold_case what"

definition begins_name :: "string \<Rightarrow> string \<Rightarrow> bool" where
  "begins_name what n \<longleftrightarrow> strict_prefix (fold_case what) (fold_case n)"

text \<open>The object of a set, if it is the only one.\<close>

definition only :: "objid set \<Rightarrow> objid \<Rightarrow> objid" where
  "only S none = (if S = {} then none else if \<exists>x. S = {x} then the_elem S else AMBIGUOUS)"

definition best_match :: "objid set \<Rightarrow> objid set \<Rightarrow> objid" where
  "best_match E P = (if E \<noteq> {} then only E NOTHING else only P FAILED_MATCH)"

definition candidates :: "db \<Rightarrow> objid \<Rightarrow> objid set" where
  "candidates db player = {c. \<exists>p. (p = player \<or> link ob_location db player = Some p) \<and>
     objects db p \<noteq> None \<and> link ob_location db c = Some p}"

lemma only_simps [simp]: "only {} n = n" "only {x} n = x"
  by (simp_all add: only_def)

lemma only_insert_other: "x \<in> S \<Longrightarrow> y \<in> S \<Longrightarrow> x \<noteq> y \<Longrightarrow> only S n = AMBIGUOUS"
  by (auto simp: only_def)

text \<open>The comparison of one name.\<close>

lemma name_test:
  assumes "c_string name" "c_string what"
  shows "mystrncasecmp name what (length what) = 0 \<longleftrightarrow> is_name what name \<or> begins_name what name"
    "mystrncasecmp name what (length what) = 0 \<Longrightarrow> drop (length what) name = [] \<longleftrightarrow> is_name what name"
proof -
  have "mystrncasecmp name what (length what) = 0 \<longleftrightarrow> take (length what) (fold_case name) = fold_case what"
    using mystrncasecmp_eq_0[OF assms] by simp
  also have "\<dots> \<longleftrightarrow> prefix (fold_case what) (fold_case name)"
    using take_is_prefix[of "length what" "fold_case name"] by (auto simp: prefix_def)
  finally have m: "mystrncasecmp name what (length what) = 0 \<longleftrightarrow> prefix (fold_case what) (fold_case name)" .
  then show "mystrncasecmp name what (length what) = 0 \<longleftrightarrow> is_name what name \<or> begins_name what name"
    by (auto simp: is_name_def begins_name_def strict_prefix_def)
  show "drop (length what) name = [] \<longleftrightarrow> is_name what name" if h: "mystrncasecmp name what (length what) = 0"
  proof -
    obtain t where t: "fold_case name = fold_case what @ t" using h m by (auto simp: prefix_def)
    then have "length name = length what + length t" by (metis length_append length_map)
    then show ?thesis using t by (auto simp: is_name_def)
  qed
qed

text \<open>What the state of the loop stands for: the exact and partial matches met so far.\<close>

definition represents :: "match_data \<Rightarrow> objid set \<Rightarrow> objid set \<Rightarrow> bool" where
  "represents d E P \<longleftrightarrow> (E = {} \<or> (\<exists>x. E = {x})) \<and> md_exact d = only E NOTHING \<and>
     md_partial d = only P FAILED_MATCH"

definition hit :: "(string \<Rightarrow> bool) \<Rightarrow> objid \<Rightarrow> string list \<Rightarrow> objid set \<Rightarrow> objid set" where
  "hit P oid names S = (if \<exists>n \<in> set names. P n then insert oid S else S)"

lemma hit_Cons: "hit P oid (n # names) S = hit P oid names (if P n then insert oid S else S)"
  by (auto simp: hit_def)

lemma only_insert:
  assumes "0 \<le> oid" "\<forall>x \<in> S. 0 \<le> x"
  shows "only (insert oid S) FAILED_MATCH =
    (if only S FAILED_MATCH = FAILED_MATCH \<or> only S FAILED_MATCH = oid then oid else AMBIGUOUS)"
proof -
  consider "S = {}" | x where "S = {x}" | a b where "a \<in> S" "b \<in> S" "a \<noteq> b" by blast
  then show ?thesis
  proof cases
    case 2
    show ?thesis
    proof (cases "x = oid")
      case False
      then have "only (insert oid S) FAILED_MATCH = AMBIGUOUS"
        using 2 by (intro only_insert_other[of x _ oid]) auto
      then show ?thesis using 2 False assms by auto
    qed (use 2 in simp)
  next
    case 3
    then have "only (insert oid S) FAILED_MATCH = AMBIGUOUS" "only S FAILED_MATCH = AMBIGUOUS"
      using only_insert_other[of a "insert oid S" b] only_insert_other[of a S b] by simp_all
    then show ?thesis using assms by simp
  qed simp
qed

lemma match_names_correct:
  assumes "\<forall>n \<in> set names. c_string n" "c_string what" "0 \<le> oid" "\<forall>x \<in> E \<union> P. 0 \<le> x" "represents d E P"
  shows "if fst (match_names what oid names d)
    then \<exists>a \<in> hit (is_name what) oid names E. \<exists>b \<in> hit (is_name what) oid names E. a \<noteq> b
    else represents (snd (match_names what oid names d)) (hit (is_name what) oid names E)
      (hit (begins_name what) oid names P)"
  using assms
proof (induction names arbitrary: d E P)
  case Nil
  then show ?case by (simp add: hit_def)
next
  case (Cons n names)
  have cn: "c_string n" "\<forall>n \<in> set names. c_string n" using Cons.prems(1) by auto
  note t = name_test[OF cn(1) Cons.prems(2)]
  have excl: "\<not> (is_name what n \<and> begins_name what n)"
    by (auto simp: is_name_def begins_name_def)
  consider (exact) "is_name what n" | (part) "begins_name what n" "\<not> is_name what n"
    | (no) "\<not> is_name what n" "\<not> begins_name what n" by blast
  then show ?case
  proof cases
    case exact
    then have c: "mystrncasecmp n what (length what) = 0" "drop (length what) n = []" using t by auto
    have nb: "\<not> begins_name what n" using exact excl by blast
    show ?thesis
    proof (cases "md_exact d = NOTHING \<or> md_exact d = oid")
      case True
      then have "E = {} \<or> E = {oid}" using Cons.prems(3-5) by (auto simp: represents_def)
      then have e: "insert oid E = {oid}" by auto
      then have "represents (d\<lparr>md_exact := oid\<rparr>) (insert oid E) P"
        using Cons.prems(5) unfolding e by (simp add: represents_def)
      note ih = Cons.IH[OF cn(2) Cons.prems(2,3) _ this]
      have "\<forall>x \<in> insert oid E \<union> P. 0 \<le> x" using Cons.prems(3,4) by auto
      from ih[OF this] show ?thesis using True c exact nb by (simp add: hit_Cons)
    next
      case False
      have r: "E = {} \<or> (\<exists>x. E = {x})" "md_exact d = only E NOTHING"
        using Cons.prems(5) unfolding represents_def by blast+
      have "E \<noteq> {}" using False r(2) by (metis only_simps(1))
      then obtain x where x: "E = {x}" using r(1) by blast
      then have "x \<noteq> oid" using False r(2) by (metis only_simps(2))
      note x = x this
      have "x \<in> hit (is_name what) oid (n # names) E" "oid \<in> hit (is_name what) oid (n # names) E"
        using exact x by (auto simp: hit_def)
      then show ?thesis using False c x by auto
    qed
  next
    case part
    then have c: "mystrncasecmp n what (length what) = 0" "drop (length what) n \<noteq> []" using t by auto
    let ?d = "if md_partial d = FAILED_MATCH \<or> md_partial d = oid
      then d\<lparr>md_partial := oid\<rparr> else d\<lparr>md_partial := AMBIGUOUS\<rparr>"
    have "represents ?d E (insert oid P)"
      using Cons.prems(3-5) only_insert[of oid P] by (auto simp: represents_def)
    note ih = Cons.IH[OF cn(2) Cons.prems(2,3) _ this]
    have "\<forall>x \<in> E \<union> insert oid P. 0 \<le> x" using Cons.prems(3,4) by auto
    from ih[OF this] show ?thesis using part c by (simp add: hit_Cons)
  next
    case no
    then have "mystrncasecmp n what (length what) \<noteq> 0" using t by auto
    then show ?thesis using Cons.IH[OF cn(2) Cons.prems(2-5)] no by (simp add: hit_Cons)
  qed
qed

text \<open>The objects of a list with a name that passes a test.\<close>

definition named :: "db \<Rightarrow> (string \<Rightarrow> bool) \<Rightarrow> objid set \<Rightarrow> objid set" where
  "named db P cs = {c \<in> cs. \<exists>n \<in> set (names_of db c). P n}"

lemma named_simps:
  "named db P {} = {}" "named db P (insert c cs) = hit P c (names_of db c) (named db P cs)"
  "named db P (cs \<union> ds) = named db P cs \<union> named db P ds"
  by (auto simp: named_def hit_def)

lemma hit_union: "hit P c ns S = S \<union> hit P c ns {}"
  by (auto simp: hit_def)

lemma named_list_Cons: "S \<union> named db P (set (c # cs)) = hit P c (names_of db c) S \<union> named db P (set cs)"
  by (auto simp: named_def hit_def)

definition names_ok :: "db \<Rightarrow> bool" where
  "names_ok db \<longleftrightarrow> (\<forall>x. objects db x \<noteq> None \<longrightarrow> all_names db x \<noteq> None \<and> (\<forall>n \<in> set (names_of db x). c_string n))"

lemma match_list_correct:
  assumes "names_ok db" "table_ok db" "c_string what" "\<forall>c \<in> set cs. objects db c \<noteq> None"
    "\<forall>x \<in> E \<union> P. 0 \<le> x" "represents d E P"
  shows "\<exists>stop d'. match_list db what cs d = Some (stop, d') \<and>
    (if stop then \<exists>a \<in> E \<union> named db (is_name what) (set cs). \<exists>b \<in> E \<union> named db (is_name what) (set cs). a \<noteq> b
     else represents d' (E \<union> named db (is_name what) (set cs)) (P \<union> named db (begins_name what) (set cs)))"
  using assms(4-6)
proof (induction cs arbitrary: d E P)
  case Nil
  then show ?case by (intro exI[of _ False] exI[of _ d]) (simp add: named_simps)
next
  case (Cons c cs)
  have c: "objects db c \<noteq> None" using Cons.prems(1) by simp
  then have c0: "0 \<le> c" using assms(2) by (auto simp: table_ok_def)
  have ns: "all_names db c = Some (names_of db c)" "\<forall>n \<in> set (names_of db c). c_string n"
    using assms(1) c by (auto simp: names_ok_def names_of_def split: option.splits)
  obtain stop d1 where m: "match_names what c (names_of db c) d = (stop, d1)" by fastforce
  note mc = match_names_correct[OF ns(2) assms(3) c0 Cons.prems(2,3), unfolded m fst_conv snd_conv]
  show ?case
  proof (cases stop)
    case True
    then have "match_list db what (c # cs) d = Some (True, d1)" using ns(1) m by (simp add: match_proc_def)
    moreover obtain a b where ab: "a \<in> hit (is_name what) c (names_of db c) E"
        "b \<in> hit (is_name what) c (names_of db c) E" "a \<noteq> b"
      using mc True by auto
    then have "a \<in> E \<union> named db (is_name what) (set (c # cs))" "b \<in> E \<union> named db (is_name what) (set (c # cs))"
      unfolding named_list_Cons by blast+
    ultimately show ?thesis using ab(3) by auto
  next
    case False
    let ?E = "hit (is_name what) c (names_of db c) E" and ?P = "hit (begins_name what) c (names_of db c) P"
    have r: "represents d1 ?E ?P" using mc False by simp
    have "\<forall>x \<in> ?E \<union> ?P. 0 \<le> x" using Cons.prems(2) c0 by (auto simp: hit_def)
    from Cons.IH[OF _ this r] Cons.prems(1) show ?thesis
      using False ns(1) m unfolding named_list_Cons by (simp add: match_proc_def)
  qed
qed

section \<open>The phrase of a player\<close>

lemma aliases_total:
  assumes "layout_ok db" "objects db x = Some ob"
  shows "aliases db x \<noteq> None"
proof -
  have bi: "bi_lookup ''aliases'' = None" by code_simp
  have c: "c_string ''aliases''" by (simp add: ch_def)
  show ?thesis
  proof (cases "index_of (\<lambda>d. key d = fold_case ''aliases'') (all_defs db x)")
    case None
    from db_find_property_none[OF assms(1) c bi None] show ?thesis by (simp add: aliases_def)
  next
    case (Some i)
    from db_find_property_slot[OF assms(1) c bi assms(2) Some] show ?thesis by (auto simp: aliases_def)
  qed
qed

lemma all_names_total: "layout_ok db \<Longrightarrow> objects db x = Some ob \<Longrightarrow> all_names db x \<noteq> None"
  using aliases_total[of db x ob] by (auto simp: all_names_def db_object_name_def bind_eq_None_conv)

lemma contents_list:
  assumes "contents_ok db" "objects db p \<noteq> None"
  shows "\<exists>cs. db_contents db p = Some cs \<and> set cs = {c. link ob_location db c = Some p}"
  using assms contents_of_list unfolding contents_ok_def lists_at_def by metis

lemma match_in_correct:
  fixes p :: objid
  assumes n: "names_ok db" and t: "table_ok db" and c: "contents_ok db" and w: "c_string what"
    and S: "\<forall>x \<in> E \<union> P. 0 \<le> x" "represents d E P"
  defines "cs \<equiv> {c. objects db p \<noteq> None \<and> link ob_location db c = Some p}"
  shows "\<exists>stop d'. match_in db what d p = Some (stop, d') \<and>
    (if stop then \<exists>a \<in> E \<union> named db (is_name what) cs. \<exists>b \<in> E \<union> named db (is_name what) cs. a \<noteq> b
     else represents d' (E \<union> named db (is_name what) cs) (P \<union> named db (begins_name what) cs))"
proof (cases "objects db p = None")
  case True
  then have "match_in db what d p = Some (False, d)" "cs = {}"
    using table_ok_valid[OF t, of p] by (simp_all add: match_in_def cs_def)
  then show ?thesis using S by (intro exI[of _ False] exI[of _ d]) (simp add: named_simps)
next
  case False
  then obtain xs where xs: "db_contents db p = Some xs" "set xs = {c. link ob_location db c = Some p}"
    using contents_list[OF c] by blast
  have "set xs = cs" using xs(2) False by (simp add: cs_def)
  moreover have "match_in db what d p = match_list db what xs d"
    using False xs(1) table_ok_valid[OF t, of p] by (simp add: match_in_def)
  moreover have "\<forall>c \<in> set xs. objects db c \<noteq> None" using xs(2) by (auto simp: link_def)
  ultimately show ?thesis using match_list_correct[OF n t w _ S, of xs] by (simp only:)
qed

lemma match_contents_correct:
  assumes n: "names_ok db" and t: "table_ok db" and c: "contents_ok db" and w: "c_string what"
    and pl: "objects db player = Some pob"
  shows "match_contents db player what = Some
    (best_match (named db (is_name what) (candidates db player)) (named db (begins_name what) (candidates db player)))"
proof -
  let ?loc = "ob_location pob"
  let ?A = "{c. objects db player \<noteq> None \<and> link ob_location db c = Some player}"
  let ?B = "{c. objects db ?loc \<noteq> None \<and> link ob_location db c = Some ?loc}"
  let ?E = "\<lambda>cs. named db (is_name what) cs" and ?P = "\<lambda>cs. named db (begins_name what) cs"
  have cand: "candidates db player = ?A \<union> ?B"
    using pl by (auto simp: candidates_def link_def)
  have pos: "\<forall>x \<in> ?E cs \<union> ?P cs. 0 \<le> x" if "cs \<subseteq> {c. objects db c \<noteq> None}" for cs
    using that t by (auto simp: named_def table_ok_def)
  have r0: "represents \<lparr>md_exact = NOTHING, md_partial = FAILED_MATCH\<rparr> {} {}"
    by (simp add: represents_def)
  have amb: "best_match E P = AMBIGUOUS" if "a \<in> E" "b \<in> E" "a \<noteq> b" for a b E P
    using that only_insert_other[of a E b] by (auto simp: best_match_def)
  obtain stop d where m1: "match_in db what \<lparr>md_exact = NOTHING, md_partial = FAILED_MATCH\<rparr> player = Some (stop, d)"
    "if stop then \<exists>a \<in> ?E ?A. \<exists>b \<in> ?E ?A. a \<noteq> b else represents d (?E ?A) (?P ?A)"
    using match_in_correct[OF n t c w _ r0, of player] unfolding Un_empty_left by blast
  have v: "valid db player" using pl table_ok_valid[OF t] by simp
  have l: "db_object_location db player = Some ?loc" using pl by (simp add: db_object_location_def)
  show ?thesis
  proof (cases stop)
    case True
    then obtain a b where "a \<in> ?E ?A" "b \<in> ?E ?A" "a \<noteq> b" using m1(2) by auto
    then have "best_match (?E (candidates db player)) (?P (candidates db player)) = AMBIGUOUS"
      by (intro amb[of a _ b]) (simp_all add: cand named_simps)
    then show ?thesis using True m1(1) v l by (simp add: match_contents_def)
  next
    case False
    have "?A \<subseteq> {c. objects db c \<noteq> None}" by (auto simp: link_def)
    note p1 = pos[OF this]
    obtain stop2 d2 where m2: "match_in db what d ?loc = Some (stop2, d2)"
      "if stop2 then \<exists>a \<in> ?E ?A \<union> ?E ?B. \<exists>b \<in> ?E ?A \<union> ?E ?B. a \<noteq> b
       else represents d2 (?E ?A \<union> ?E ?B) (?P ?A \<union> ?P ?B)"
      using match_in_correct[OF n t c w p1, of d ?loc] m1(2) False unfolding if_False by metis
    show ?thesis
    proof (cases stop2)
      case True
      then obtain a b where "a \<in> ?E ?A \<union> ?E ?B" "b \<in> ?E ?A \<union> ?E ?B" "a \<noteq> b" using m2(2) by auto
      then have "best_match (?E (candidates db player)) (?P (candidates db player)) = AMBIGUOUS"
        by (intro amb[of a _ b]) (simp_all add: cand named_simps)
      then show ?thesis using True False m1(1) m2(1) v l by (simp add: match_contents_def)
    next
      case stop2: False
      then have r: "represents d2 (?E (candidates db player)) (?P (candidates db player))"
        using m2(2) by (simp add: cand named_simps)
      have "(md_exact d2 \<noteq> NOTHING) = (?E (candidates db player) \<noteq> {})"
      proof -
        have "\<forall>x \<in> ?E (candidates db player). 0 \<le> x"
          using pos[of "candidates db player"] by (auto simp: candidates_def link_def)
        then show ?thesis using r by (auto simp: represents_def)
      qed
      then show ?thesis using stop2 False m1(1) m2(1) v l r
        by (simp add: match_contents_def best_match_def represents_def)
    qed
  qed
qed

section \<open>Commands\<close>

lemma split_words_c_string: "c_string s \<Longrightarrow> w \<in> set (split_words s) \<Longrightarrow> c_string w"
proof (induction s rule: split_words.induct)
  case (1 s)
  show ?case
  proof (cases "skip_spaces s")
    case Nil
    then show ?thesis using 1(3) by (subst (asm) split_words.simps) simp
  next
    case (Cons c t)
    obtain sp where sp: "s = sp @ skip_spaces s" using skip_spaces_split by blast
    then have cs: "c_string (c # t)" using 1(2) Cons by (metis c_string_simps(3))
    then have r: "c_string (fst (take_word False (c # t)))" "c_string (snd (take_word False (c # t)))"
      using take_word_set[of False "c # t"] c_string_subset[OF cs] by blast+
    have "w = fst (take_word False (c # t)) \<or> w \<in> set (split_words (snd (take_word False (c # t))))"
      using 1(3) Cons by (subst (asm) split_words.simps) (simp del: take_word.simps)
    then show ?thesis using 1(1)[OF Cons r(2)] r(1) by blast
  qed
qed

lemma match_object_total:
  assumes "names_ok db" "layout_ok db" "contents_ok db" "c_string what"
  shows "\<exists>x. match_object db player what = Some x"
proof -
  note t = hier_okD(1)[OF layout_hier[OF assms(2)]]
  show ?thesis
  proof (cases "objects db player")
    case None
    then show ?thesis using table_ok_valid[OF t, of player]
      by (auto simp: match_object_def Let_def split: prod.splits)
  next
    case (Some pob)
    show ?thesis using match_contents_correct[OF assms(1) t assms(3,4) Some] Some
      by (auto simp: match_object_def Let_def db_object_location_def split: prod.splits)
  qed
qed

lemma take_drop_parts:
  "a \<le> b \<Longrightarrow> xs = take a xs @ take (b - a) (drop a xs) @ drop b xs"
  by (metis append_take_drop_id drop_drop le_add_diff_inverse2)

text \<open>The parts of a command around its preposition.\<close>

definition command_parts :: "string list \<Rightarrow> int \<Rightarrow> string list \<Rightarrow> string list \<Rightarrow> string list \<Rightarrow> bool" where
  "command_parts ws prep ds ps ios \<longleftrightarrow> ws = ds @ ps @ ios \<and>
     (if prep = PREP_NONE
      then ps = [] \<and> ios = [] \<and> (\<forall>i < length ws. \<forall>als \<in> set prep_words. \<forall>al \<in> set als. \<not> alias_at False ws i al)
      else \<exists>al \<in> set (prep_words ! nat prep). 0 \<le> prep \<and> nat prep < NPREPS \<and> length ps = length al \<and>
        (\<forall>k < length al. mystrcasecmp (ps ! k) (al ! k) = 0) \<and>
        (\<forall>i < length ds. \<forall>als \<in> set prep_words. \<forall>a \<in> set als. \<not> alias_at False ws i a))"

lemma prep_words_facts: "length prep_words = NPREPS" "\<forall>als \<in> set prep_words. [] \<notin> set als"
  by (simp_all add: NPREPS_def prep_list_def prep_words_def)

lemma db_find_prep_None:
  "db_find_prep False ws = None \<Longrightarrow>
    \<forall>i < length ws. \<forall>als \<in> set prep_words. \<forall>al \<in> set als. \<not> alias_at False ws i al"
  by (auto simp: db_find_prep_def prep_loop_False find_None_iff find_Some_iff prep_at_None prep_table_words
      simp del: not_None_eq split: option.splits)

lemma command_prep_parts:
  assumes "argv \<noteq> []" "command_prep argv = (prep, pstart, pend)"
  shows "command_parts (tl argv) prep (take (pstart - 1) (tl argv))
      (if prep = PREP_NONE then [] else take (pend - pstart + 1) (drop pstart argv))
      (if prep = PREP_NONE then [] else drop (pend + 1) argv)"
    and "1 \<le> pstart"
proof -
  obtain v ws where argv: "argv = v # ws" using assms(1) by (cases argv) auto
  have empty: "\<forall>al \<in> set als. al \<noteq> []" if "als \<in> set prep_words" for als
    using that prep_words_facts(2) by blast
  show "command_parts (tl argv) prep (take (pstart - 1) (tl argv))
      (if prep = PREP_NONE then [] else take (pend - pstart + 1) (drop pstart argv))
      (if prep = PREP_NONE then [] else drop (pend + 1) argv)" "1 \<le> pstart"
  proof (atomize (full), cases "db_find_prep False ws")
    case None
    have pn: "prep = PREP_NONE \<and> pstart = Suc (length ws)"
      using assms(2) None argv by (auto simp: command_prep_def Let_def split: if_splits)
    then show "command_parts (tl argv) prep (take (pstart - 1) (tl argv))
        (if prep = PREP_NONE then [] else take (pend - pstart + 1) (drop pstart argv))
        (if prep = PREP_NONE then [] else drop (pend + 1) argv) \<and> 1 \<le> pstart"
      using db_find_prep_None[OF None] argv by (simp add: command_parts_def)
  next
    case (Some r)
    obtain j i e where r: "r = (j, i, e)" by (cases r)
    obtain al where al: "j < NPREPS" "al \<in> set (prep_words ! j)" "e = int i + int (length al) - 1"
      "i + length al \<le> length ws" "i < length ws" "\<forall>k < length al. mystrcasecmp (ws ! (i + k)) (al ! k) = 0"
      "\<forall>k < i. \<forall>as \<in> set prep_words. \<forall>a \<in> set as. \<not> alias_at False ws k a"
      using db_find_prep_Some[OF Some[unfolded r]] by blast
    have "prep_words ! j \<in> set prep_words" using al(1) prep_words_facts(1) by (metis nth_mem)
    then have "al \<noteq> []" using empty al(2) by blast
    then have la: "1 \<le> length al" by (cases al) simp_all
    have pn: "prep = int j" "pstart = i + 1" "pend = i + length al"
      using assms(2) Some argv r al(3,5) by (auto simp: command_prep_def Let_def nat_add_distrib split: if_splits)
    have parts: "ws = take i ws @ take (length al) (drop i ws) @ drop (i + length al) ws"
      using take_drop_parts[of i "i + length al" ws] by simp
    have ps: "take (pend - pstart + 1) (drop pstart argv) = take (length al) (drop i ws)"
      "drop (pend + 1) argv = drop (i + length al) ws"
      using pn argv Suc_pred'[OF la[unfolded One_nat_def Suc_le_eq]] by simp_all
    have k: "mystrcasecmp (take (length al) (drop i ws) ! k) (al ! k) = 0" if "k < length al" for k
      using al(4,6) that by simp
    show "command_parts (tl argv) prep (take (pstart - 1) (tl argv))
        (if prep = PREP_NONE then [] else take (pend - pstart + 1) (drop pstart argv))
        (if prep = PREP_NONE then [] else drop (pend + 1) argv) \<and> 1 \<le> pstart"
      unfolding command_parts_def ps using pn argv parts al k
      by (auto simp: min_def intro!: bexI[of _ al])
  qed
qed

lemma c_string_special: "c_string s \<Longrightarrow> special_verb (hd s) = Some v \<Longrightarrow> c_string v"
  by (auto simp: special_verb_def ch_def split: if_splits)

lemma command_text_c_string:
  assumes "c_string command" shows "c_string (fst (command_text command))"
proof -
  obtain sp where sp: "command = sp @ skip_spaces command" using skip_spaces_split by blast
  then have s: "c_string (skip_spaces command)" using assms by (metis c_string_simps(3))
  then have "c_string (tl (skip_spaces command))" by (cases "skip_spaces command") auto
  then show ?thesis using s c_string_special[OF s]
    by (auto simp: command_text_def Let_def ch_def split: option.splits)
qed

lemma parse_command_parts:
  assumes db: "names_ok db" "layout_ok db" "contents_ok db" and c: "c_string command"
    and tx: "command_text command = (buf, argstr)"
  shows "if split_words buf = [] then parse_command db command user = Some None
    else \<exists>pc ds ps ios. parse_command db command user = Some (Some pc) \<and>
      pc_verb pc = hd (split_words buf) \<and> pc_args pc = map VStr (tl (split_words buf)) \<and> pc_argstr pc = argstr \<and>
      command_parts (tl (split_words buf)) (pc_prep pc) ds ps ios \<and>
      pc_dobjstr pc = build_string ds \<and> pc_prepstr pc = build_string ps \<and> pc_iobjstr pc = build_string ios \<and>
      (if ds = [] then pc_dobj pc = NOTHING else match_object db user (build_string ds) = Some (pc_dobj pc)) \<and>
      (if pc_prep pc = PREP_NONE then pc_iobj pc = NOTHING else match_object db user (build_string ios) = Some (pc_iobj pc))"
proof -
  have cb: "c_string buf" using command_text_c_string[OF c] tx by simp
  note w = words_of_split_words[OF cb]
  let ?argv = "split_words buf"
  show ?thesis
  proof (cases "?argv = []")
    case True
    then show ?thesis using w tx by (simp add: parse_command_def)
  next
    case False
    obtain prep pstart pend where p: "command_prep ?argv = (prep, pstart, pend)" by (cases "command_prep ?argv")
    define ds where "ds = take (pstart - 1) (tl ?argv)"
    define ps where "ps = (if prep = PREP_NONE then [] else take (pend - pstart + 1) (drop pstart ?argv))"
    define ios where "ios = (if prep = PREP_NONE then [] else drop (pend + 1) ?argv)"
    note cp = command_prep_parts[OF False p]
    have parts: "command_parts (tl ?argv) prep ds ps ios" using cp(1) by (simp add: ds_def ps_def ios_def)
    have ts: "set ds \<subseteq> set ?argv" "set ios \<subseteq> set ?argv"
      using set_take_subset[of "pstart - 1" "tl ?argv"] set_drop_subset[of "pend + 1" ?argv]
        list.set_sel(2)[OF False] by (auto simp: ds_def ios_def)
    have cs: "c_string (build_string ds)" "c_string (build_string ios)"
      using ts split_words_c_string[OF cb] by (auto intro!: c_string_build_string)
    obtain dobj where dobj: "match_object db user (build_string ds) = Some dobj"
      using match_object_total[OF db cs(1)] by blast
    obtain iobj where iobj: "match_object db user (build_string ios) = Some iobj"
      using match_object_total[OF db cs(2)] by blast
    have de: "ds = [] \<longleftrightarrow> pstart - 1 = 0"
    proof
      assume d: "ds = []"
      have "prep = PREP_NONE \<Longrightarrow> pstart = length ?argv"
        using p by (auto simp: command_prep_def Let_def split: if_splits option.splits)
      moreover have "prep \<noteq> PREP_NONE \<Longrightarrow> pstart - 1 < length (tl ?argv)"
        using p db_find_prep_Some by (fastforce simp: command_prep_def Let_def split: if_splits option.splits)
      moreover have "tl ?argv = [] \<Longrightarrow> length ?argv = 1" using False by (cases ?argv) simp_all
      ultimately show "pstart - 1 = 0" using d by (cases "prep = PREP_NONE") (auto simp: ds_def)
    qed (simp add: ds_def)
    let ?pc = "\<lparr>pc_verb = hd ?argv, pc_argstr = argstr, pc_args = map VStr (tl ?argv), pc_dobjstr = build_string ds,
      pc_dobj = (if ds = [] then NOTHING else dobj), pc_prepstr = build_string ps, pc_prep = prep,
      pc_iobjstr = build_string ios, pc_iobj = (if prep = PREP_NONE then NOTHING else iobj)\<rparr>"
    have "parse_command db command user = Some (Some ?pc)"
    proof (cases "ds = []")
      case True
      then show ?thesis using False w tx p iobj de
        by (cases "prep = PREP_NONE") (simp_all add: parse_command_def ps_def ios_def Let_def)
    next
      case ne: False
      then show ?thesis using False w tx p iobj dobj de
        by (cases "prep = PREP_NONE") (simp_all add: parse_command_def ds_def ps_def ios_def Let_def)
    qed
    then show ?thesis using False parts dobj iobj
      by (simp only: if_False) (intro exI[of _ ?pc] exI[of _ ds] exI[of _ ps] exI[of _ ios], simp)
  qed
qed

end
