(* ===== verification/Db_Demo.thy ===== *)
theory Db_Demo
  imports Db_Reach Match_Laws
begin

text \<open>
  A small concrete database, on which the theorems about well-formed databases are instantiated:
  \<open>#0\<close> defines the property \<open>size\<close>, \<open>#1\<close> is its child and defines \<open>colour\<close>, \<open>#2\<close> stands
  alone inside \<open>#1\<close>.
\<close>

definition blank_obj :: obj where
  "blank_obj = \<lparr>ob_id = 0, ob_owner = 0, ob_location = -1, ob_contents = -1, ob_next = -1,
     ob_parent = -1, ob_child = -1, ob_sibling = -1, ob_name = '''', ob_flags = 0, ob_verbdefs = [],
     ob_propdefs = [], ob_max_props = 0, ob_propval = []\<rparr>"

definition demo_root :: obj where
  "demo_root = blank_obj\<lparr>ob_name := ''root'', ob_child := 1, ob_flags := 4,
     ob_propdefs := [dbpriv_new_propdef ''size''], ob_max_props := 8,
     ob_propval := [\<lparr>pv_var = VInt 7, pv_owner = 0, pv_perms = 1\<rparr>]\<rparr>"

definition demo_kid :: obj where
  "demo_kid = blank_obj\<lparr>ob_id := 1, ob_name := ''kid'', ob_parent := 0, ob_contents := 2,
     ob_propdefs := [dbpriv_new_propdef ''colour''], ob_max_props := 8,
     ob_propval := [\<lparr>pv_var = VStr ''red'', pv_owner = 1, pv_perms = 4\<rparr>,
       \<lparr>pv_var = VClear, pv_owner = 0, pv_perms = 1\<rparr>]\<rparr>"

definition demo_alone :: obj where
  "demo_alone = blank_obj\<lparr>ob_id := 2, ob_name := ''alone'', ob_location := 1\<rparr>"

definition demo_db :: db where
  "demo_db = \<lparr>objects = [0 \<mapsto> demo_root, 1 \<mapsto> demo_kid, 2 \<mapsto> demo_alone], num_objects = 3,
     max_objects = 100, all_users = [], vc_table = None, db_verb_generation = 0,
     verbcache_hit = 0, verbcache_neg_hit = 0, verbcache_miss = 0\<rparr>"

lemmas demo_ob_defs = demo_root_def demo_kid_def demo_alone_def blank_obj_def
lemmas demo_defs = demo_db_def demo_root_def demo_kid_def demo_alone_def blank_obj_def

lemma demo_objects:
  "objects demo_db 0 = Some demo_root" "objects demo_db 1 = Some demo_kid"
  "objects demo_db 2 = Some demo_alone"
  by (simp_all add: demo_db_def)

lemma demo_dom: "objects demo_db x \<noteq> None \<longleftrightarrow> x \<in> {0, 1, 2}"
  by (simp add: demo_db_def)

lemma demo_link_parent: "link ob_parent demo_db x =
    (if x = 1 then Some 0 else if x = 0 \<or> x = 2 then Some (-1) else None)"
  by (simp add: link_def demo_defs)

lemma demo_parent_rel: "parent_rel demo_db = {(1, 0)}"
  by (auto simp: parent_rel_def demo_link_parent split: if_splits)

lemma demo_hier: "hier_ok demo_db"
  unfolding hier_ok_def
proof (intro conjI)
  show "table_ok demo_db" by (auto simp: table_ok_def demo_defs split: if_splits)
  show "acyclic (parent_rel demo_db)" unfolding demo_parent_rel
    by (rule acyclicI_order[where f = "\<lambda>x. x"]) simp
  show "\<forall>c p. (c, p) \<in> parent_rel demo_db \<longrightarrow> objects demo_db p \<noteq> None"
    by (simp add: demo_parent_rel demo_objects)
  show "kids_ok demo_db"
    unfolding kids_ok_def
  proof (intro allI impI)
    fix p assume "objects demo_db p \<noteq> None"
    then consider "p = 0" | "p = 1" | "p = 2" unfolding demo_dom by blast
    then show "\<exists>cs. list_at ob_child ob_sibling demo_db p cs \<and>
        set cs = {c. link ob_parent demo_db c = Some p}"
    proof cases
      case 1
      have "list_at ob_child ob_sibling demo_db 0 [1]" by (simp add: list_at_def link_def demo_defs)
      moreover have "set [1] = {c. link ob_parent demo_db c = Some 0}"
        by (auto simp: demo_link_parent split: if_splits)
      ultimately show ?thesis using 1 by blast
    next
      case 2
      have "list_at ob_child ob_sibling demo_db 1 []" by (simp add: list_at_def link_def demo_defs)
      then show ?thesis using 2 by (auto simp: demo_link_parent intro!: exI[of _ "[]"])
    next
      case 3
      have "list_at ob_child ob_sibling demo_db 2 []" by (simp add: list_at_def link_def demo_defs)
      then show ?thesis using 3 by (auto simp: demo_link_parent intro!: exI[of _ "[]"])
    qed
  qed
qed

lemma demo_ancs: "ancs demo_db 0 = [0]" "ancs demo_db 1 = [1, 0]" "ancs demo_db 2 = [2]"
proof -
  have nil: "ancs demo_db (-1) = []" 
    by (rule ancs_None[OF demo_hier]) (simp add: demo_db_def)
  show 0: "ancs demo_db 0 = [0]"
    using ancs_Some[OF demo_hier demo_objects(1)] nil by (simp add: demo_root_def blank_obj_def)
  show "ancs demo_db 1 = [1, 0]"
    using ancs_Some[OF demo_hier demo_objects(2)] 0 by (simp add: demo_kid_def blank_obj_def)
  show "ancs demo_db 2 = [2]"
    using ancs_Some[OF demo_hier demo_objects(3)] nil by (simp add: demo_alone_def blank_obj_def)
qed

lemma demo_defs_of:
  "defs_of demo_db 0 = [dbpriv_new_propdef ''size'']"
  "defs_of demo_db 1 = [dbpriv_new_propdef ''colour'']" "defs_of demo_db 2 = []"
  by (simp_all add: defs_of_def demo_defs)

lemma demo_none: "objects demo_db (-1) = None"
  by (simp add: demo_db_def)

lemma demo_all_defs:
  "all_defs demo_db 0 = [dbpriv_new_propdef ''size'']"
  "all_defs demo_db 1 = [dbpriv_new_propdef ''colour'', dbpriv_new_propdef ''size'']"
  "all_defs demo_db 2 = []" "all_defs demo_db (-1) = []"
  by (simp_all add: all_defs_def demo_ancs demo_defs_of all_defs_None[OF demo_hier demo_none, unfolded all_defs_def])

lemma demo_names: "fold_case ''size'' = ''size''" "fold_case ''colour'' = ''colour''"
  "c_string ''size''" "c_string ''colour''"
  by (simp_all add: ascii_tolower_def ch_def)

lemma demo_layout: "layout_ok demo_db"
  unfolding layout_ok_def
proof (intro conjI allI impI)
  show "hier_ok demo_db" by (rule demo_hier)
  fix x ob assume x: "objects demo_db x = Some ob"
  then have "x \<in> {0, 1, 2}" using demo_dom[of x] by simp
  then consider "x = 0" "ob = demo_root" | "x = 1" "ob = demo_kid" | "x = 2" "ob = demo_alone"
    using x demo_objects by auto
  then show "obj_layout demo_db x ob"
    using new_propdef_ok[OF demo_names(3)] new_propdef_ok[OF demo_names(4)]
    by cases (auto simp: obj_layout_def demo_all_defs demo_names demo_ob_defs less_Suc_eq)
qed

lemma demo_subtree: "y \<in> subtree demo_db x \<longleftrightarrow> y = x \<or> (y = 1 \<and> x = 0)"
proof
  assume y: "y \<in> subtree demo_db x"
  show "y = x \<or> (y = 1 \<and> x = 0)"
  proof (rule disjCI)
    assume n: "\<not> (y = 1 \<and> x = 0)"
    show "y = x"
    proof (rule ccontr)
      assume "y \<noteq> x"
      from subtree_parent[OF y this] have 1: "y = 1" "0 \<in> subtree demo_db x"
        by (auto simp: demo_parent_rel)
      have "0 \<noteq> x" using n 1(1) by auto
      from subtree_parent[OF 1(2) this] show False by (simp add: demo_parent_rel)
    qed
  qed
next
  assume "y = x \<or> (y = 1 \<and> x = 0)"
  then show "y \<in> subtree demo_db x"
    using subtree_child[of 1 0 demo_db 0] by (auto simp: demo_parent_rel)
qed

lemma demo_chparent: "chparent_ok demo_db 2 1"
  by (auto simp: chparent_ok_def demo_subtree demo_all_defs demo_defs_of)

lemma demo_fresh: "fresh_prop demo_db 0 ''weight''"
proof -
  have "bi_lookup ''weight'' = None"
    by (simp add: bi_lookup_def ptable_def ascii_tolower_def ch_def)
  then show ?thesis
    by (auto simp: fresh_prop_def demo_subtree demo_all_defs demo_defs_of ascii_tolower_def ch_def)
qed

section \<open>Contents and verbs\<close>

lemma demo_link_location: "link ob_location demo_db x =
    (if x = 2 then Some 1 else if x = 0 \<or> x = 1 then Some (-1) else None)"
  by (simp add: link_def demo_defs)

lemma demo_contents_lists: "db_contents demo_db 1 = Some [2]" "db_contents demo_db 0 = Some []" "db_contents demo_db 2 = Some []"
proof -
  have "list_at ob_contents ob_next demo_db 1 [2]" "list_at ob_contents ob_next demo_db 0 []"
    "list_at ob_contents ob_next demo_db 2 []"
    by (simp_all add: list_at_def link_def demo_defs)
  then show "db_contents demo_db 1 = Some [2]" "db_contents demo_db 0 = Some []" "db_contents demo_db 2 = Some []"
    using contents_of_list by blast+
qed

lemma demo_contents: "contents_ok demo_db"
proof -
  let ?K = "\<lambda>p :: objid. if p = 1 then [2 :: objid] else []"
  have "list_at ob_contents ob_next demo_db p (?K p) \<and> set (?K p) = {c. link ob_location demo_db c = Some p}"
    if p: "objects demo_db p \<noteq> None" for p
  proof -
    have "p \<in> {0, 1, 2}" using p by (rule demo_dom[THEN iffD1])
    then show ?thesis
      by (auto simp: list_at_def link_def demo_link_location[unfolded link_def] demo_defs split: if_splits)
  qed
  then show ?thesis unfolding contents_ok_def lists_at_def by (intro exI[of _ ?K]) blast
qed

definition demo_verbs :: db where
  "demo_verbs = put_object demo_db 0 (Some (demo_root\<lparr>ob_verbdefs := [new_verbdef ''l*ook'' 0 5 0 (-1) 0]\<rparr>))"

lemma demo_verbs_hier: "hier_ok demo_verbs"
  unfolding demo_verbs_def
  by (rule same_shape_hier[OF same_shape_put[OF demo_objects(1)] demo_hier]) (simp add: shape_def)

lemma demo_verbs_vc: "vc_ok demo_verbs"
  by (rule vc_ok_empty) (simp add: demo_verbs_def demo_db_def)

lemma demo_verbs_of: "verbs_of demo_verbs x = (if x = 0 then [new_verbdef ''l*ook'' 0 5 0 (-1) 0] else [])"
  by (simp add: verbs_of_def demo_verbs_def demo_defs)

lemma demo_verbs_subtree: "1 \<in> subtree demo_verbs 0"
proof -
  have "(1, 0) \<in> parent_rel demo_verbs" by (simp add: parent_rel_def link_def demo_verbs_def demo_defs)
  then show ?thesis by (simp add: subtree_def)
qed

lemma demo_verbs_match: "exec_verb ''loo'' (new_verbdef ''l*ook'' 0 5 0 (-1) 0)"
proof -
  have "verbcasecmp ''l*ook'' ''loo''" by code_simp
  then show ?thesis by (simp add: exec_verb_def new_verbdef_def pack_perms_def)
qed

lemma demo_verbs_nearest: "nearest_verb demo_verbs (exec_verb ''loo'') 1 h \<Longrightarrow> h = Some (0, 0)"
proof (cases h)
  case None
  assume "nearest_verb demo_verbs (exec_verb ''loo'') 1 h"
  then show ?thesis using None demo_verbs_subtree demo_verbs_match by (auto simp: nearest_verb_def demo_verbs_of)
next
  case (Some yi)
  assume "nearest_verb demo_verbs (exec_verb ''loo'') 1 h"
  then show ?thesis using Some demo_verbs_match
    by (cases yi) (auto simp: nearest_verb_def demo_verbs_of split: if_splits)
qed

section \<open>Names\<close>

lemma demo_aliases:
  assumes "x \<in> {0, 1, 2}" shows "aliases demo_db x = Some []"
proof -
  have bi: "bi_lookup ''aliases'' = None" by code_simp
  have c: "c_string ''aliases''" by (simp add: ch_def)
  have "index_of (\<lambda>d. key d = fold_case ''aliases'') (all_defs demo_db x) = None"
    using assms by (auto simp: demo_all_defs demo_names ascii_tolower_def ch_def)
  from db_find_property_none[OF demo_layout c bi this] show ?thesis by (simp add: aliases_def)
qed

lemma demo_all_names: "all_names demo_db 0 = Some [''root'']" "all_names demo_db 1 = Some [''kid'']"
  "all_names demo_db 2 = Some [''alone'']"
  using demo_aliases[of 0] demo_aliases[of 1] demo_aliases[of 2]
  by (simp_all add: all_names_def db_object_name_def demo_objects) (simp_all add: demo_ob_defs)

lemma demo_names_of: "names_of demo_db 0 = [''root'']" "names_of demo_db 1 = [''kid'']"
  "names_of demo_db 2 = [''alone'']"
  by (simp_all add: names_of_def demo_all_names)

lemma demo_names_ok: "names_ok demo_db"
proof -
  have "all_names demo_db x \<noteq> None \<and> (\<forall>n \<in> set (names_of demo_db x). c_string n)" if x: "objects demo_db x \<noteq> None" for x
  proof -
    have "x \<in> {0, 1, 2}" using x by (rule demo_dom[THEN iffD1])
    then show ?thesis by (auto simp: demo_all_names demo_names_of ch_def)
  qed
  then show ?thesis unfolding names_ok_def by blast
qed

lemma demo_candidates: "candidates demo_db 1 = {2}"
  by (auto simp: candidates_def demo_link_location demo_objects demo_none split: if_splits)

lemma demo_named: "named demo_db (is_name ''al'') {2} = {}" "named demo_db (begins_name ''al'') {2} = {2}"
  by (auto simp: named_def demo_names_of is_name_def begins_name_def strict_prefix_def ascii_tolower_def ch_def)

end
