(* ===== verification/Moo_Opcode.thy ===== *)
theory Moo_Opcode
  imports Moo_Structures
begin

text \<open>
  The opcodes of the virtual machine: include/opcode.h, with \<open>BYTECODE_REDUCE_REF\<close> undefined as
  include/options.h has it. The ready variables make ranges \<open>OP_PUT + n\<close> and \<open>OP_PUSH + n\<close>, and the
  small integers the range from \<open>OPTIM_NUM_START\<close>; each range is a constructor with the offset.
\<close>

definition NUM_READY_VARS :: nat where "NUM_READY_VARS = 32"

datatype ext_opcode =
    EOP_RANGESET | EOP_LENGTH | EOP_PUSH_LABEL | EOP_END_CATCH | EOP_END_EXCEPT | EOP_END_FINALLY
  | EOP_CONTINUE | EOP_CATCH | EOP_TRY_EXCEPT | EOP_TRY_FINALLY | EOP_WHILE_ID | EOP_EXIT
  | EOP_EXIT_ID | EOP_SCATTER | EOP_EXP

definition ext_opcodes :: "ext_opcode list" where
  "ext_opcodes = [EOP_RANGESET, EOP_LENGTH, EOP_PUSH_LABEL, EOP_END_CATCH, EOP_END_EXCEPT,
     EOP_END_FINALLY, EOP_CONTINUE, EOP_CATCH, EOP_TRY_EXCEPT, EOP_TRY_FINALLY, EOP_WHILE_ID,
     EOP_EXIT, EOP_EXIT_ID, EOP_SCATTER, EOP_EXP]"

fun eop_num :: "ext_opcode \<Rightarrow> nat" where
  "eop_num EOP_RANGESET = 0" | "eop_num EOP_LENGTH = 1" | "eop_num EOP_PUSH_LABEL = 2"
| "eop_num EOP_END_CATCH = 3" | "eop_num EOP_END_EXCEPT = 4" | "eop_num EOP_END_FINALLY = 5"
| "eop_num EOP_CONTINUE = 6" | "eop_num EOP_CATCH = 7" | "eop_num EOP_TRY_EXCEPT = 8"
| "eop_num EOP_TRY_FINALLY = 9" | "eop_num EOP_WHILE_ID = 10" | "eop_num EOP_EXIT = 11"
| "eop_num EOP_EXIT_ID = 12" | "eop_num EOP_SCATTER = 13" | "eop_num EOP_EXP = 14"

definition eop_of_num :: "nat \<Rightarrow> ext_opcode option" where
  "eop_of_num n = (if n < 15 then Some (ext_opcodes ! n) else None)"

datatype opcode =
    OP_IF | OP_WHILE | OP_EIF | OP_FORK | OP_FORK_WITH_ID | OP_FOR_LIST | OP_FOR_RANGE
  | OP_INDEXSET | OP_PUSH_GET_PROP | OP_GET_PROP | OP_CALL_VERB | OP_PUT_PROP | OP_BI_FUNC_CALL
  | OP_IF_QUES | OP_REF | OP_RANGE_REF | OP_MAKE_SINGLETON_LIST | OP_CHECK_LIST_FOR_SPLICE
  | OP_MULT | OP_DIV | OP_MOD | OP_ADD | OP_MINUS | OP_EQ | OP_NE | OP_LT | OP_LE | OP_GT | OP_GE
  | OP_IN | OP_AND | OP_OR | OP_UNARY_MINUS | OP_NOT | OP_PUT nat | OP_G_PUT | OP_PUSH nat
  | OP_G_PUSH | OP_IMM | OP_MAKE_EMPTY_LIST | OP_LIST_ADD_TAIL | OP_LIST_APPEND | OP_PUSH_REF
  | OP_PUT_TEMP | OP_PUSH_TEMP | OP_JUMP | OP_RETURN | OP_RETURN0 | OP_DONE | OP_POP | OP_EXTENDED
  | OPTIM_NUM nat

fun op_num :: "opcode \<Rightarrow> nat" where
  "op_num OP_IF = 0" | "op_num OP_WHILE = 1" | "op_num OP_EIF = 2" | "op_num OP_FORK = 3"
| "op_num OP_FORK_WITH_ID = 4" | "op_num OP_FOR_LIST = 5" | "op_num OP_FOR_RANGE = 6"
| "op_num OP_INDEXSET = 7" | "op_num OP_PUSH_GET_PROP = 8" | "op_num OP_GET_PROP = 9"
| "op_num OP_CALL_VERB = 10" | "op_num OP_PUT_PROP = 11" | "op_num OP_BI_FUNC_CALL = 12"
| "op_num OP_IF_QUES = 13" | "op_num OP_REF = 14" | "op_num OP_RANGE_REF = 15"
| "op_num OP_MAKE_SINGLETON_LIST = 16" | "op_num OP_CHECK_LIST_FOR_SPLICE = 17"
| "op_num OP_MULT = 18" | "op_num OP_DIV = 19" | "op_num OP_MOD = 20" | "op_num OP_ADD = 21"
| "op_num OP_MINUS = 22" | "op_num OP_EQ = 23" | "op_num OP_NE = 24" | "op_num OP_LT = 25"
| "op_num OP_LE = 26" | "op_num OP_GT = 27" | "op_num OP_GE = 28" | "op_num OP_IN = 29"
| "op_num OP_AND = 30" | "op_num OP_OR = 31" | "op_num OP_UNARY_MINUS = 32" | "op_num OP_NOT = 33"
| "op_num (OP_PUT n) = 34 + n" | "op_num OP_G_PUT = 66" | "op_num (OP_PUSH n) = 67 + n"
| "op_num OP_G_PUSH = 99" | "op_num OP_IMM = 100" | "op_num OP_MAKE_EMPTY_LIST = 101"
| "op_num OP_LIST_ADD_TAIL = 102" | "op_num OP_LIST_APPEND = 103" | "op_num OP_PUSH_REF = 104"
| "op_num OP_PUT_TEMP = 105" | "op_num OP_PUSH_TEMP = 106" | "op_num OP_JUMP = 107"
| "op_num OP_RETURN = 108" | "op_num OP_RETURN0 = 109" | "op_num OP_DONE = 110"
| "op_num OP_POP = 111" | "op_num OP_EXTENDED = 112" | "op_num (OPTIM_NUM n) = 113 + n"

definition low_opcodes :: "opcode list" where
  "low_opcodes = [OP_IF, OP_WHILE, OP_EIF, OP_FORK, OP_FORK_WITH_ID, OP_FOR_LIST, OP_FOR_RANGE,
     OP_INDEXSET, OP_PUSH_GET_PROP, OP_GET_PROP, OP_CALL_VERB, OP_PUT_PROP, OP_BI_FUNC_CALL,
     OP_IF_QUES, OP_REF, OP_RANGE_REF, OP_MAKE_SINGLETON_LIST, OP_CHECK_LIST_FOR_SPLICE, OP_MULT,
     OP_DIV, OP_MOD, OP_ADD, OP_MINUS, OP_EQ, OP_NE, OP_LT, OP_LE, OP_GT, OP_GE, OP_IN, OP_AND,
     OP_OR, OP_UNARY_MINUS, OP_NOT]"

definition high_opcodes :: "opcode list" where
  "high_opcodes = [OP_G_PUSH, OP_IMM, OP_MAKE_EMPTY_LIST, OP_LIST_ADD_TAIL, OP_LIST_APPEND,
     OP_PUSH_REF, OP_PUT_TEMP, OP_PUSH_TEMP, OP_JUMP, OP_RETURN, OP_RETURN0, OP_DONE, OP_POP,
     OP_EXTENDED]"

definition op_of_num :: "nat \<Rightarrow> opcode" where
  "op_of_num n =
     (if n < 34 then low_opcodes ! n else if n < 66 then OP_PUT (n - 34)
      else if n = 66 then OP_G_PUT else if n < 99 then OP_PUSH (n - 67)
      else if n < 113 then high_opcodes ! (n - 99) else OPTIM_NUM (n - 113))"

section \<open>Small integers\<close>

definition OPTIM_NUM_LOW :: int where "OPTIM_NUM_LOW = -10"
definition OPTIM_NUM_HI :: int where "OPTIM_NUM_HI = 132"

definition IN_OPTIM_NUM_RANGE :: "int \<Rightarrow> bool" where
  "IN_OPTIM_NUM_RANGE i \<longleftrightarrow> OPTIM_NUM_LOW \<le> i \<and> i \<le> OPTIM_NUM_HI"

definition OPTIM_NUM_TO_OPCODE :: "int \<Rightarrow> opcode" where
  "OPTIM_NUM_TO_OPCODE i = OPTIM_NUM (nat (i - OPTIM_NUM_LOW))"

definition OPCODE_TO_OPTIM_NUM :: "nat \<Rightarrow> int" where
  "OPCODE_TO_OPTIM_NUM n = int n + OPTIM_NUM_LOW"

lemmas optim_defs = OPTIM_NUM_LOW_def OPTIM_NUM_HI_def IN_OPTIM_NUM_RANGE_def
  OPTIM_NUM_TO_OPCODE_def OPCODE_TO_OPTIM_NUM_def

section \<open>Ticks\<close>

definition COUNT_TICK :: "opcode \<Rightarrow> bool" where
  "COUNT_TICK op \<longleftrightarrow> op_num op \<le> 66"

definition COUNT_EOP_TICK :: "ext_opcode \<Rightarrow> bool" where
  "COUNT_EOP_TICK eop \<longleftrightarrow> eop_num eop \<ge> 7"

section \<open>Encoding\<close>

fun valid_op :: "opcode \<Rightarrow> bool" where
  "valid_op (OP_PUT n) = (n < 32)" | "valid_op (OP_PUSH n) = (n < 32)"
| "valid_op (OPTIM_NUM n) = (n < 143)" | "valid_op _ = True"

lemma op_of_op_num [simp]: "valid_op op \<Longrightarrow> op_of_num (op_num op) = op"
  by (cases op) (simp_all add: op_of_num_def low_opcodes_def high_opcodes_def)

lemma op_num_less: "valid_op op \<Longrightarrow> op_num op < 256"
  by (cases op) simp_all

lemma eop_of_eop_num [simp]: "eop_of_num (eop_num eop) = Some eop"
  by (cases eop) (simp_all add: eop_of_num_def ext_opcodes_def)

lemma eop_num_less: "eop_num eop < 256"
  by (cases eop) simp_all

text \<open>An opcode as the byte it is stored in.\<close>

definition op_byte :: "opcode \<Rightarrow> 8 word" where
  "op_byte op = word_of_nat (op_num op)"

definition byte_op :: "8 word \<Rightarrow> opcode" where
  "byte_op b = op_of_num (unat b)"

lemma byte_op_op_byte [simp]: "valid_op op \<Longrightarrow> byte_op (op_byte op) = op"
  using op_num_less[of op] by (simp add: byte_op_def op_byte_def unat_of_nat)

definition eop_byte :: "ext_opcode \<Rightarrow> 8 word" where
  "eop_byte eop = word_of_nat (eop_num eop)"

definition byte_eop :: "8 word \<Rightarrow> ext_opcode option" where
  "byte_eop b = eop_of_num (unat b)"

lemma byte_eop_eop_byte [simp]: "byte_eop (eop_byte eop) = Some eop"
  using eop_num_less[of eop] by (simp add: byte_eop_def eop_byte_def unat_of_nat)

end
