(* ===== verification/Vm_Values.thy ===== *)
theory Vm_Values
  imports Moo_Numbers Moo_Opcode
begin

text \<open>
  What the opcodes of src/src/execute.c compute on values. Each function takes the popped operands
  and returns the value to push, or the error code that \<open>PUSH_ERROR\<close> gets; \<open>None\<close> is undefined
  behaviour of the C code. The stack, the environment and the control flow are in the theories of
  the virtual machine.
\<close>

type_synonym answer = "(error + var) option"

definition ans_of :: "var \<Rightarrow> error + var" where
  "ans_of v = (case v of VErr e \<Rightarrow> Inl e | _ \<Rightarrow> Inr v)"

definition is_number :: "var \<Rightarrow> bool" where
  "is_number v \<longleftrightarrow> var_type v = 0 \<or> var_type v = 9"

definition bool_var :: "bool \<Rightarrow> var" where
  "bool_var b = VInt (if b then 1 else 0)"

fun vm_arith :: "fp_ops \<Rightarrow> opcode \<Rightarrow> var \<Rightarrow> var \<Rightarrow> answer" where
  "vm_arith fp op lhs rhs =
     (if is_number lhs \<and> is_number rhs then map_option ans_of
        (if op = OP_MULT then do_multiply fp lhs rhs
         else if op = OP_MINUS then do_subtract fp lhs rhs
         else if op = OP_DIV then do_divide fp lhs rhs
         else if op = OP_MOD then do_modulus fp lhs rhs else None)
      else Some (Inl E_TYPE))"

definition vm_add :: "fp_ops \<Rightarrow> var \<Rightarrow> var \<Rightarrow> answer" where
  "vm_add fp lhs rhs =
     (if is_number lhs \<and> is_number rhs then map_option ans_of (do_add fp lhs rhs)
      else case (lhs, rhs) of
        (VStr s, VStr t) \<Rightarrow> Some (Inr (VStr (s @ t)))
      | _ \<Rightarrow> Some (Inl E_TYPE))"

definition vm_exp :: "fp_ops \<Rightarrow> var \<Rightarrow> var \<Rightarrow> answer" where
  "vm_exp fp lhs rhs = Some (ans_of (do_power fp lhs rhs))"

definition vm_equal :: "bool \<Rightarrow> var \<Rightarrow> var \<Rightarrow> answer" where
  "vm_equal eq lhs rhs = map_option (\<lambda>b. Inr (bool_var (b = eq))) (equality rhs lhs False)"

fun same_type_compare :: "var \<Rightarrow> var \<Rightarrow> int" where
  "same_type_compare (VObj a) (VObj b) = (if a < b then -1 else if a = b then 0 else 1)"
| "same_type_compare (VErr a) (VErr b) = int (err_code a) - int (err_code b)"
| "same_type_compare (VStr a) (VStr b) = mystrcasecmp a b"
| "same_type_compare _ _ = 0"

definition comparison_holds :: "opcode \<Rightarrow> int \<Rightarrow> bool" where
  "comparison_holds op c =
     (if op = OP_LT then c < 0 else if op = OP_LE then c \<le> 0
      else if op = OP_GT then c > 0 else c \<ge> 0)"

definition vm_compare :: "opcode \<Rightarrow> var \<Rightarrow> var \<Rightarrow> answer" where
  "vm_compare op lhs rhs =
     (if is_number lhs \<and> is_number rhs then do {
        ans \<leftarrow> compare_numbers lhs rhs;
        case ans of
          VErr e \<Rightarrow> Some (Inl e)
        | VInt c \<Rightarrow> Some (Inr (bool_var (comparison_holds op (sint c))))
        | _ \<Rightarrow> None }
      else if var_type rhs \<noteq> var_type lhs \<or> var_type rhs = 4 then Some (Inl E_TYPE)
      else Some (Inr (bool_var (comparison_holds op (same_type_compare lhs rhs)))))"

definition vm_in :: "var \<Rightarrow> var \<Rightarrow> answer" where
  "vm_in lhs rhs = (case rhs of
     VList xs \<Rightarrow> map_option (\<lambda>i. Inr (VInt (word_of_int i))) (ismember lhs xs False)
   | _ \<Rightarrow> Some (Inl E_TYPE))"

fun vm_minus :: "var \<Rightarrow> answer" where
  "vm_minus (VInt n) = Some (Inr (VInt (- n)))"
| "vm_minus (VFloat d) = Some (Inr (VFloat (dbl_uminus d)))"
| "vm_minus _ = Some (Inl E_TYPE)"

definition vm_not :: "var \<Rightarrow> var" where
  "vm_not v = bool_var (\<not> is_true v)"

fun vm_ref :: "var \<Rightarrow> var \<Rightarrow> answer" where
  "vm_ref (VList xs) (VInt i) =
     (if sint i \<le> 0 \<or> sint i > len xs then Some (Inl E_RANGE)
      else map_option Inr (nth_opt xs (sint i - 1)))"
| "vm_ref (VStr s) (VInt i) =
     (if sint i \<le> 0 \<or> sint i > len s then Some (Inl E_RANGE)
      else map_option (Inr \<circ> VStr) (strget s (sint i)))"
| "vm_ref _ _ = Some (Inl E_TYPE)"

text \<open>\<open>OP_PUSH_REF\<close> keeps its operands and takes lists only.\<close>

fun vm_push_ref :: "var \<Rightarrow> var \<Rightarrow> answer" where
  "vm_push_ref (VList xs) (VInt i) =
     (if sint i \<le> 0 \<or> sint i > len xs then Some (Inl E_RANGE)
      else map_option Inr (nth_opt xs (sint i - 1)))"
| "vm_push_ref _ _ = Some (Inl E_TYPE)"

definition bad_range :: "int \<Rightarrow> int \<Rightarrow> int \<Rightarrow> bool" where
  "bad_range n from to \<longleftrightarrow> from \<le> to \<and> (from \<le> 0 \<or> from > n \<or> to \<le> 0 \<or> to > n)"

fun vm_range_ref :: "var \<Rightarrow> var \<Rightarrow> var \<Rightarrow> answer" where
  "vm_range_ref (VList xs) (VInt from) (VInt to) =
     (if bad_range (len xs) (sint from) (sint to) then Some (Inl E_RANGE)
      else map_option (Inr \<circ> VList) (sublist xs (sint from) (sint to)))"
| "vm_range_ref (VStr s) (VInt from) (VInt to) =
     (if bad_range (len s) (sint from) (sint to) then Some (Inl E_RANGE)
      else map_option (Inr \<circ> VStr) (substr s (sint from) (sint to)))"
| "vm_range_ref _ _ _ = Some (Inl E_TYPE)"

fun vm_indexset :: "var \<Rightarrow> var \<Rightarrow> var \<Rightarrow> answer" where
  "vm_indexset (VList xs) (VInt i) v =
     (if sint i < 1 \<or> sint i > len xs then Some (Inl E_RANGE)
      else map_option (Inr \<circ> VList) (listset xs v (sint i)))"
| "vm_indexset (VStr s) (VInt i) (VStr c) =
     (if sint i < 1 \<or> sint i > len s then Some (Inl E_RANGE)
      else if length c \<noteq> 1 then Some (Inl E_INVARG)
      else map_option (Inr \<circ> VStr) (upd_opt s (sint i - 1) (hd c)))"
| "vm_indexset _ _ _ = Some (Inl E_TYPE)"

definition rangeset_check :: "int \<Rightarrow> int \<Rightarrow> int \<Rightarrow> bool" where
  "rangeset_check last_pos from to \<longleftrightarrow> from > last_pos + 1 \<or> to < 0"

text \<open>
  \<open>EOP_RANGESET\<close> takes \<open>strlen\<close> of the base before it looks at its type: only a string or a list
  holds a pointer that may be read so.
\<close>

definition vm_rangeset :: "var \<Rightarrow> var \<Rightarrow> var \<Rightarrow> var \<Rightarrow> answer" where
  "vm_rangeset base from to v = (case (from, to) of
     (VInt f, VInt t) \<Rightarrow> (case base of
        VList xs \<Rightarrow> (case v of
            VList ys \<Rightarrow>
              if rangeset_check (len xs) (sint f) (sint t) then Some (Inl E_RANGE)
              else map_option (Inr \<circ> VList) (listrangeset xs (sint f) (sint t) ys)
          | _ \<Rightarrow> Some (Inl E_TYPE))
      | VStr s \<Rightarrow> (case v of
            VStr u \<Rightarrow>
              if rangeset_check (len s) (sint f) (sint t) then Some (Inl E_RANGE)
              else map_option (Inr \<circ> VStr) (strrangeset s (sint f) (sint t) u)
          | _ \<Rightarrow> Some (Inl E_TYPE))
      | _ \<Rightarrow> None)
   | _ \<Rightarrow> if var_type base = 2 \<or> var_type base = 4 then Some (Inl E_TYPE) else None)"

fun vm_list_add_tail :: "var \<Rightarrow> var \<Rightarrow> answer" where
  "vm_list_add_tail (VList xs) v = map_option (Inr \<circ> VList) (listappend xs v)"
| "vm_list_add_tail _ v = Some (Inl E_TYPE)"

fun vm_list_append :: "var \<Rightarrow> var \<Rightarrow> answer" where
  "vm_list_append (VList xs) (VList ys) = Some (Inr (VList (listconcat xs ys)))"
| "vm_list_append _ _ = Some (Inl E_TYPE)"

fun vm_length :: "var \<Rightarrow> answer" where
  "vm_length (VStr s) = Some (Inr (VInt (word_of_nat (length s))))"
| "vm_length (VList xs) = Some (Inr (VInt (word_of_nat (length xs))))"
| "vm_length _ = Some (Inl E_TYPE)"

section \<open>The operations do what their checks allow\<close>

text \<open>After the checks, no list or string operation reads or writes out of bounds.\<close>

lemma vm_ref_total: "vm_ref v i \<noteq> None"
  by (cases "(v, i)" rule: vm_ref.cases) (auto simp: strget_def nth_opt_def len_def)

lemma vm_push_ref_total: "vm_push_ref v i \<noteq> None"
  by (cases "(v, i)" rule: vm_push_ref.cases) (auto simp: nth_opt_def len_def)

lemma subrange_total: "\<not> bad_range (len xs) f t \<Longrightarrow> subrange xs f t \<noteq> None"
  by (auto simp: bad_range_def subrange_def)

lemma vm_range_ref_total: "vm_range_ref v f t \<noteq> None"
  by (cases "(v, f, t)" rule: vm_range_ref.cases)
    (use subrange_total in \<open>fastforce simp: sublist_def substr_def\<close>)+

lemma vm_indexset_total: "vm_indexset v i x \<noteq> None"
  by (cases "(v, i, x)" rule: vm_indexset.cases) (auto simp: listset_def upd_opt_def len_def)

lemma rangeset_total: "\<not> rangeset_check (len xs) f t \<Longrightarrow> rangeset xs f t ys \<noteq> None"
  by (auto simp: rangeset_check_def rangeset_def)

lemma vm_rangeset_total: "var_type v = 2 \<or> var_type v = 4 \<Longrightarrow> vm_rangeset v f t x \<noteq> None"
  by (cases v) (use rangeset_total in \<open>auto simp: vm_rangeset_def listrangeset_def strrangeset_def
    split: var.split\<close>)

lemma vm_list_add_tail_eq [simp]: "vm_list_add_tail (VList xs) v = Some (Inr (VList (xs @ [v])))"
  by (simp add: listappend_Some)

end
