(* ===== verification/Server_Options.thy ===== *)
theory Server_Options
  imports Db_Verbs
begin

text \<open>
  Options of the server that the database holds: \<open>get_server_option\<close> and its callers of
  src/src/server.c, and the properties of \<open>#0\<close> read by src/src/utils.c. A value read through a
  null place is \<open>None\<close>.
\<close>

definition get_system_property :: "db \<Rightarrow> string \<Rightarrow> var option" where
  "get_system_property db nm =
     (if \<not> valid db SYSTEM_OBJECT then Some (VErr E_INVIND)
      else do {
        (h, v) \<leftarrow> db_find_property db SYSTEM_OBJECT nm True;
        if h_ptr h = Null then Some (VErr E_PROPNF) else v })"

definition get_system_object :: "db \<Rightarrow> string \<Rightarrow> objid option" where
  "get_system_object db nm = do {
     v \<leftarrow> get_system_property db nm;
     Some (case v of VObj oid \<Rightarrow> oid | _ \<Rightarrow> NOTHING) }"

text \<open>A property looked up by name: \<open>Some None\<close> when there is no such property.\<close>

definition property_of :: "db \<Rightarrow> objid \<Rightarrow> string \<Rightarrow> var option option" where
  "property_of db oid nm = do {
     (h, v) \<leftarrow> db_find_property db oid nm True;
     if h_ptr h = Null then Some None else map_option Some v }"

definition options_object :: "db \<Rightarrow> objid \<Rightarrow> var option option" where
  "options_object db oid = do {
     first_try \<leftarrow> (if valid db oid then property_of db oid ''server_options'' else Some None);
     case first_try of
       Some v \<Rightarrow> Some (Some v)
     | None \<Rightarrow> (if valid db SYSTEM_OBJECT then property_of db SYSTEM_OBJECT ''server_options'' else Some None) }"

definition get_server_option :: "db \<Rightarrow> objid \<Rightarrow> string \<Rightarrow> var option option" where
  "get_server_option db oid nm = do {
     opts \<leftarrow> options_object db oid;
     case opts of
       Some (VObj opt) \<Rightarrow> if valid db opt then property_of db opt nm else Some None
     | _ \<Rightarrow> Some None }"

definition server_flag_option_default :: "db \<Rightarrow> string \<Rightarrow> bool \<Rightarrow> bool option" where
  "server_flag_option_default db nm defallt =
     map_option (\<lambda>opt. case opt of Some v \<Rightarrow> is_true v | None \<Rightarrow> defallt)
       (get_server_option db SYSTEM_OBJECT nm)"

definition server_flag_option :: "db \<Rightarrow> string \<Rightarrow> bool option" where
  "server_flag_option db nm = server_flag_option_default db nm False"

definition server_int_option :: "db \<Rightarrow> string \<Rightarrow> int \<Rightarrow> int option" where
  "server_int_option db nm defallt =
     map_option (\<lambda>opt. case opt of Some (VInt n) \<Rightarrow> sint n | _ \<Rightarrow> defallt)
       (get_server_option db SYSTEM_OBJECT nm)"

end
