(* ===== verification/Vm_State.thy ===== *)
theory Vm_State
  imports Vm_Values Server_Options
begin

text \<open>
  The state of the virtual machine: the activations of include/execute.h, the globals of
  src/src/execute.c, the environments of src/src/eval_env.c and the table of built-in functions of
  src/src/functions.c.

  \<open>activ_stack[0..top_activ_stack]\<close> is a list with the running activation \<open>RUN_ACTIV\<close> first. A
  run-time stack is a list with the top first; pushing on a full stack, or popping from an empty
  one, is \<open>None\<close>. \<open>'k\<close> is the type of the data that built-in functions keep over a verb call, \<open>'w\<close>
  the rest of the server's state, which only built-in functions and the task queues use. The local
  variables \<open>bv\<close>, \<open>error_bv\<close> and \<open>rts\<close> of \<open>run()\<close> are kept in the running activation all the time.
\<close>

section \<open>Activations\<close>

record 'k activation =
  av_prog :: program
  av_rt_env :: "var list"
  av_rt_stack :: "var list"
  av_rt_stack_size :: nat
  av_pc :: nat
  av_error_pc :: nat
  av_bi_func_pc :: nat
  av_bi_func_id :: nat
  av_bi_func_data :: "'k option"
  av_temp :: var
  av_this :: objid
  av_player :: objid
  av_progr :: objid
  av_vloc :: objid
  av_verb :: string
  av_verbname :: string
  av_debug :: bool

datatype outcome = OUTCOME_DONE | OUTCOME_ABORTED | OUTCOME_BLOCKED

datatype task_kind = TASK_INPUT | TASK_FORKED | TASK_SUSPENDED

text \<open>\<open>fin_code\<close>: the numbers the reasons have on the stack.\<close>

datatype finally_reason =
    FIN_FALL_THRU | FIN_RAISE | FIN_UNCAUGHT | FIN_RETURN | FIN_ABORT | FIN_EXIT

fun fin_code :: "finally_reason \<Rightarrow> int32" where
  "fin_code FIN_FALL_THRU = 0" | "fin_code FIN_RAISE = 1" | "fin_code FIN_UNCAUGHT = 2"
| "fin_code FIN_RETURN = 3" | "fin_code FIN_ABORT = 4" | "fin_code FIN_EXIT = 5"

record ('k, 'w) vm =
  vm_activs :: "'k activation list"
  vm_max_stack_size :: int
  vm_root_vector :: int
  vm_ticks :: int
  vm_timed_out :: bool
  vm_task_kind :: task_kind
  vm_handler :: "(string \<times> var) option"
  vm_db :: db
  vm_world :: 'w

abbreviation (input) MAIN_VECTOR :: int where "MAIN_VECTOR \<equiv> -1"

definition RT_STACK_QUICKSIZE :: nat where "RT_STACK_QUICKSIZE = 15"

definition run_activ :: "('k, 'w) vm \<Rightarrow> 'k activation option" where
  "run_activ vm = nth_opt (vm_activs vm) 0"

definition caller_activ :: "('k, 'w) vm \<Rightarrow> 'k activation option" where
  "caller_activ vm = nth_opt (vm_activs vm) 1"

definition set_activ :: "'k activation \<Rightarrow> ('k, 'w) vm \<Rightarrow> ('k, 'w) vm" where
  "set_activ a vm = vm\<lparr>vm_activs := a # tl (vm_activs vm)\<rparr>"

text \<open>The stack has room for \<open>max_stack\<close> values, and never for less than the quick size.\<close>

definition alloc_rt_stack :: "nat \<Rightarrow> 'k activation \<Rightarrow> 'k activation" where
  "alloc_rt_stack sz a = a\<lparr>av_rt_stack := [], av_rt_stack_size := sz\<rparr>"

definition push_val :: "var \<Rightarrow> 'k activation \<Rightarrow> 'k activation option" where
  "push_val v a = (if length (av_rt_stack a) < max (av_rt_stack_size a) RT_STACK_QUICKSIZE
     then Some (a\<lparr>av_rt_stack := v # av_rt_stack a\<rparr>) else None)"

fun pop_val :: "'k activation \<Rightarrow> (var \<times> 'k activation) option" where
  "pop_val a = (case av_rt_stack a of [] \<Rightarrow> None | v # st \<Rightarrow> Some (v, a\<lparr>av_rt_stack := st\<rparr>))"

definition push_activation :: "('k, 'w) vm \<Rightarrow> bool" where
  "push_activation vm \<longleftrightarrow> int (length (vm_activs vm)) < vm_max_stack_size vm"

section \<open>Environments (eval_env.c)\<close>

abbreviation (input) SLOT_NUM :: nat where "SLOT_NUM \<equiv> 0"
abbreviation (input) SLOT_OBJ :: nat where "SLOT_OBJ \<equiv> 1"
abbreviation (input) SLOT_STR :: nat where "SLOT_STR \<equiv> 2"
abbreviation (input) SLOT_LIST :: nat where "SLOT_LIST \<equiv> 3"
abbreviation (input) SLOT_ERR :: nat where "SLOT_ERR \<equiv> 4"
abbreviation (input) SLOT_PLAYER :: nat where "SLOT_PLAYER \<equiv> 5"
abbreviation (input) SLOT_THIS :: nat where "SLOT_THIS \<equiv> 6"
abbreviation (input) SLOT_CALLER :: nat where "SLOT_CALLER \<equiv> 7"
abbreviation (input) SLOT_VERB :: nat where "SLOT_VERB \<equiv> 8"
abbreviation (input) SLOT_ARGS :: nat where "SLOT_ARGS \<equiv> 9"
abbreviation (input) SLOT_ARGSTR :: nat where "SLOT_ARGSTR \<equiv> 10"
abbreviation (input) SLOT_DOBJ :: nat where "SLOT_DOBJ \<equiv> 11"
abbreviation (input) SLOT_DOBJSTR :: nat where "SLOT_DOBJSTR \<equiv> 12"
abbreviation (input) SLOT_PREPSTR :: nat where "SLOT_PREPSTR \<equiv> 13"
abbreviation (input) SLOT_IOBJ :: nat where "SLOT_IOBJ \<equiv> 14"
abbreviation (input) SLOT_IOBJSTR :: nat where "SLOT_IOBJSTR \<equiv> 15"
abbreviation (input) SLOT_INT :: nat where "SLOT_INT \<equiv> 16"
abbreviation (input) SLOT_FLOAT :: nat where "SLOT_FLOAT \<equiv> 17"

text \<open>One entry for each variable of the program.\<close>

definition new_rt_env :: "nat \<Rightarrow> var list" where
  "new_rt_env n = replicate n VNone"

fun set_slots :: "(nat \<times> var) list \<Rightarrow> var list \<Rightarrow> var list option" where
  "set_slots [] env = Some env"
| "set_slots ((slot, v) # rest) env = do { env \<leftarrow> upd_opt env (int slot) v; set_slots rest env }"

definition DBV_Float :: nat where "DBV_Float = 3"

definition fill_in_rt_consts :: "nat \<Rightarrow> var list \<Rightarrow> var list option" where
  "fill_in_rt_consts version env = set_slots
     ([(SLOT_ERR, VInt 3), (SLOT_NUM, VInt 0), (SLOT_STR, VInt 2), (SLOT_OBJ, VInt 1), (SLOT_LIST, VInt 4)] @
      (if version \<ge> DBV_Float then [(SLOT_INT, VInt 0), (SLOT_FLOAT, VInt 9)] else [])) env"

section \<open>Built-in functions (functions.c)\<close>

text \<open>
  A prototype is the type code of each argument, -1 for \<open>TYPE_ANY\<close> and -2 for \<open>TYPE_NUMERIC\<close>; a
  function takes the arguments, the program counter it is entered at, its data and the programmer.
\<close>

type_synonym ('k, 'w) bf = "var \<Rightarrow> nat \<Rightarrow> 'k option \<Rightarrow> objid \<Rightarrow> ('k, 'w) vm \<Rightarrow> ('k package \<times> ('k, 'w) vm) option"

record ('k, 'w) bft_entry =
  bf_name :: string
  bf_protect_str :: string
  bf_verb_str :: string
  bf_minargs :: int
  bf_maxargs :: int
  bf_prototype :: "int list"
  bf_func :: "('k, 'w) bf"
  bf_protected :: bool

text \<open>
  What the machine uses of the rest of the server: the table of built-in functions, the program of
  a verb without code, the line of a program counter, and the two functions of the task queues
  that it calls.
\<close>

record ('k, 'w) server =
  sv_fp :: fp_ops
  sv_table :: "('k, 'w) bft_entry list"
  sv_null_program :: program
  sv_line :: "program \<Rightarrow> int \<Rightarrow> nat \<Rightarrow> int"
  sv_suspend :: "susp_proc \<Rightarrow> ('k, 'w) vm \<Rightarrow> (error \<times> ('k, 'w) vm) option"
  sv_fork :: "nat \<Rightarrow> int \<Rightarrow> nat option \<Rightarrow> ('k, 'w) vm \<Rightarrow> (error \<times> ('k, 'w) vm) option"

definition name_func_by_num :: "('k, 'w) server \<Rightarrow> nat \<Rightarrow> string" where
  "name_func_by_num sv n =
     (if n \<ge> length (sv_table sv) then ''no such function'' else bf_name (sv_table sv ! n))"

definition FUNC_NOT_FOUND :: nat where "FUNC_NOT_FOUND = 256"

definition number_func_by_name :: "('k, 'w) server \<Rightarrow> string \<Rightarrow> nat" where
  "number_func_by_name sv nm =
     (case index_of (\<lambda>f. mystrcasecmp nm (bf_name f) = 0) (sv_table sv) of
        Some i \<Rightarrow> i | None \<Rightarrow> FUNC_NOT_FOUND)"

end
