(* ===== verification/Vm_Unwind.thy ===== *)
theory Vm_Unwind
  imports Vm_State Db_Verb_Cache
begin

text \<open>
  Calls and non-local exits of src/src/execute.c: calling a verb (\<open>call_verb2\<close>), calling a built-in
  function (\<open>call_bi_func\<close> of src/src/functions.c), raising an error and unwinding the stacks.
  \<open>unwind_stack\<close> and \<open>raise_error\<close> call each other; \<open>raise_error\<close> is its preparation \<open>raise_setup\<close>
  followed by \<open>unwind_stack\<close>. A built-in function that pushes an activation returns \<open>BI_CALL\<close>.
\<close>

section \<open>Calling a verb\<close>

definition env_copies :: "nat list" where
  "env_copies = [SLOT_ARGSTR, SLOT_DOBJ, SLOT_DOBJSTR, SLOT_PREPSTR, SLOT_IOBJ, SLOT_IOBJSTR]"

fun copy_slots :: "nat list \<Rightarrow> var list \<Rightarrow> var list \<Rightarrow> var list option" where
  "copy_slots [] from env = Some env"
| "copy_slots (slot # slots) from env = do {
     v \<leftarrow> nth_opt from (int slot);
     env \<leftarrow> upd_opt env (int slot) v;
     copy_slots slots from env }"

text \<open>The environment of a verb called from the activation \<open>ca\<close>, with the player.\<close>

definition verb_env :: "program \<Rightarrow> objid \<Rightarrow> string \<Rightarrow> var \<Rightarrow> db \<Rightarrow> 'k activation \<Rightarrow> (objid \<times> var list) option" where
  "verb_env prog this vname args db ca = do {
     env \<leftarrow> fill_in_rt_consts (pg_version prog) (new_rt_env (length (pg_var_names prog)));
     env \<leftarrow> set_slots [(SLOT_THIS, VObj this), (SLOT_CALLER, VObj (av_this ca))] env;
     env \<leftarrow> copy_slots env_copies (av_rt_env ca) env;
     pl \<leftarrow> nth_opt (av_rt_env ca) (int SLOT_PLAYER);
     let player = (if is_wizard db (av_progr ca)
       then (case pl of VObj p \<Rightarrow> p | _ \<Rightarrow> av_player ca) else av_player ca);
     env \<leftarrow> set_slots [(SLOT_PLAYER, VObj player), (SLOT_VERB, VStr vname), (SLOT_ARGS, args)] env;
     Some (player, env) }"

definition new_activation :: "program \<Rightarrow> bytecodes \<Rightarrow> var list \<Rightarrow> objid \<Rightarrow> objid \<Rightarrow> objid \<Rightarrow> objid \<Rightarrow> string \<Rightarrow> string \<Rightarrow> bool \<Rightarrow> 'k activation" where
  "new_activation prog bc env this player progr vloc vname vnames debug =
     \<lparr>av_prog = prog, av_rt_env = env, av_rt_stack = [], av_rt_stack_size = bc_max_stack bc,
      av_pc = 0, av_error_pc = 0, av_bi_func_pc = 0, av_bi_func_id = 0, av_bi_func_data = None,
      av_temp = VNone, av_this = this, av_player = player, av_progr = progr, av_vloc = vloc,
      av_verb = vname, av_verbname = vnames, av_debug = debug\<rparr>"

text \<open>The object whose verbs are searched; \<open>None\<close> for \<open>E_INVIND\<close>.\<close>

definition call_where :: "('k, 'w) vm \<Rightarrow> objid \<Rightarrow> bool \<Rightarrow> objid option option" where
  "call_where vm this do_pass =
     (if do_pass then do {
        a \<leftarrow> run_activ vm;
        if \<not> valid (vm_db vm) (av_vloc a) then Some None
        else map_option Some (db_object_parent (vm_db vm) (av_vloc a)) }
      else Some (Some this))"

definition call_verb2 ::
  "('k, 'w) server \<Rightarrow> objid \<Rightarrow> string \<Rightarrow> var \<Rightarrow> bool \<Rightarrow> ('k, 'w) vm \<Rightarrow> (error \<times> ('k, 'w) vm) option" where
  "call_verb2 sv this vname args do_pass vm = do {
     loc \<leftarrow> call_where vm this do_pass;
     case loc of
       None \<Rightarrow> Some (E_INVIND, vm)
     | Some w \<Rightarrow>
         if \<not> valid (vm_db vm) w then Some (E_INVIND, vm)
         else do {
           (h, db) \<leftarrow> db_find_callable_verb (vm_db vm) w vname;
           let vm = vm\<lparr>vm_db := db\<rparr>;
           if h = None then Some (E_VERBNF, vm)
           else if \<not> push_activation vm then Some (E_MAXREC, vm)
           else do {
             ca \<leftarrow> run_activ vm;
             prog \<leftarrow> db_verb_program (sv_null_program sv) db h;
             owner \<leftarrow> db_verb_owner db h;
             definer \<leftarrow> db_verb_definer db h;
             vnames \<leftarrow> db_verb_names db h;
             flags \<leftarrow> db_verb_flags db h;
             (player, env) \<leftarrow> verb_env prog this vname args db ca;
             Some (E_NONE, vm\<lparr>vm_activs :=
               new_activation prog (pg_main_vector prog) env this player owner definer vname vnames
                 (flags AND VF_DEBUG \<noteq> 0) # vm_activs vm\<rparr>) } } }"

section \<open>Calling a built-in function\<close>

definition proto_accepts :: "int \<Rightarrow> var \<Rightarrow> bool" where
  "proto_accepts proto v \<longleftrightarrow>
     proto = -1 \<or> (proto = -2 \<and> is_number v) \<or> proto = int (var_type v)"

text \<open>The check of the types of the first \<open>n\<close> arguments: the prototype must have that many.\<close>

fun args_accepted :: "nat \<Rightarrow> int list \<Rightarrow> var list \<Rightarrow> bool option" where
  "args_accepted 0 protos args = Some True"
| "args_accepted (Suc n) (p # protos) (v # args) =
     (if proto_accepts p v then args_accepted n protos args else Some False)"
| "args_accepted (Suc n) _ _ = None"

definition call_func_entry ::
  "('k, 'w) bft_entry \<Rightarrow> var \<Rightarrow> nat \<Rightarrow> objid \<Rightarrow> 'k option \<Rightarrow> ('k, 'w) vm \<Rightarrow> ('k package \<times> ('k, 'w) vm) option" where
  "call_func_entry f arglist func_pc progr vdata vm =
     (if func_pc \<noteq> 1 then bf_func f arglist func_pc vdata progr vm
      else case arglist of
        VList args \<Rightarrow>
          if len args < bf_minargs f \<or> (bf_maxargs f \<noteq> -1 \<and> len args > bf_maxargs f)
          then Some (make_error_pack E_ARGS, vm)
          else do {
            ok \<leftarrow> args_accepted (nat (if bf_maxargs f = -1 then bf_minargs f else len args))
              (bf_prototype f) args;
            if ok then bf_func f arglist func_pc vdata progr vm
            else Some (make_error_pack E_TYPE, vm) }
      | _ \<Rightarrow> None)"

definition call_bi_func ::
  "('k, 'w) server \<Rightarrow> nat \<Rightarrow> var \<Rightarrow> nat \<Rightarrow> objid \<Rightarrow> 'k option \<Rightarrow> ('k, 'w) vm \<Rightarrow> ('k package \<times> ('k, 'w) vm) option" where
  "call_bi_func sv n arglist func_pc progr vdata vm =
     (if n \<ge> length (sv_table sv) then Some (no_var_pack, vm)
      else let f = sv_table sv ! n in do {
        a \<leftarrow> run_activ vm;
        if func_pc = 1 \<and> av_this a \<noteq> SYSTEM_OBJECT \<and> bf_protected f then do {
          (e, vm) \<leftarrow> call_verb2 sv SYSTEM_OBJECT (bf_verb_str f) arglist False vm;
          if e = E_NONE then Some (tail_call_pack, vm)
          else if e = E_MAXREC \<or> \<not> is_wizard (vm_db vm) progr
          then Some (make_error_pack (if e = E_MAXREC then e else E_PERM), vm)
          else call_func_entry f arglist func_pc progr vdata vm }
        else call_func_entry f arglist func_pc progr vdata vm })"

section \<open>Tracebacks\<close>

definition line_of :: "('k, 'w) server \<Rightarrow> ('k, 'w) vm \<Rightarrow> bool \<Rightarrow> 'k activation \<Rightarrow> int" where
  "line_of sv vm is_root a =
     sv_line sv (av_prog a) (if is_root then vm_root_vector vm else MAIN_VECTOR) (av_error_pc a)"

text \<open>\<open>top_frame\<close> says whether the first activation is the running one.\<close>

fun backtrace_lines :: "('k, 'w) server \<Rightarrow> ('k, 'w) vm \<Rightarrow> string \<Rightarrow> bool \<Rightarrow> 'k activation list \<Rightarrow> string list" where
  "backtrace_lines sv vm msg top_frame [] = [''(End of traceback)'']"
| "backtrace_lines sv vm msg top_frame (a # as) =
     ((if top_frame then [] else ''... called from '') @ ''#'' @ show_int (av_vloc a) @ '':'' @ av_verbname a @
      (if av_vloc a \<noteq> av_this a then '' (this == #'' @ show_int (av_this a) @ '')'' else []) @
      '', line '' @ show_int (line_of sv vm (as = []) a) @ (if top_frame then '':  '' @ msg else [])) #
     (if as \<noteq> [] \<and> av_bi_func_pc a \<noteq> 0
      then [''... called from built-in function '' @ name_func_by_num sv (av_bi_func_id a) @ ''()''] else []) @
     backtrace_lines sv vm msg False as"

definition error_backtrace_list :: "('k, 'w) server \<Rightarrow> string \<Rightarrow> ('k, 'w) vm \<Rightarrow> var" where
  "error_backtrace_list sv msg vm = VList (map VStr (backtrace_lines sv vm msg True (vm_activs vm)))"

text \<open>
  The activations from the top down to the start; \<open>to_root\<close> says whether the last of them is the
  root activation.
\<close>

fun stack_frames :: "('k, 'w) server \<Rightarrow> ('k, 'w) vm \<Rightarrow> bool \<Rightarrow> bool \<Rightarrow> bool \<Rightarrow> 'k activation list \<Rightarrow> var list" where
  "stack_frames sv vm to_root include_end lines [] = []"
| "stack_frames sv vm to_root include_end lines (a # as) =
     (if include_end then
        [VList ([VObj (av_this a), VStr (av_verb a), VObj (av_progr a), VObj (av_vloc a), VObj (av_player a)] @
          (if lines then [VInt (word_of_int (line_of sv vm (to_root \<and> as = []) a))] else []))] else []) @
     (if as \<noteq> [] \<and> av_bi_func_pc a \<noteq> 0 then
        [VList ([VObj NOTHING, VStr (name_func_by_num sv (av_bi_func_id a)), VObj NOTHING, VObj NOTHING,
           VObj (av_player a)] @ (if lines then [VInt (word_of_nat (av_bi_func_pc a))] else []))] else []) @
     stack_frames sv vm to_root True lines as"

text \<open>\<open>start\<close> and the top are counted from the root, which is 0.\<close>

definition make_stack_list :: "('k, 'w) server \<Rightarrow> ('k, 'w) vm \<Rightarrow> nat \<Rightarrow> bool \<Rightarrow> bool \<Rightarrow> var" where
  "make_stack_list sv vm start include_end lines =
     VList (stack_frames sv vm (start = 0) include_end lines
       (take (length (vm_activs vm) - start) (vm_activs vm)))"

section \<open>Handlers on a run-time stack\<close>

text \<open>Whether a code list of a handler takes an error code.\<close>

definition codes_match :: "var \<Rightarrow> var \<Rightarrow> bool option" where
  "codes_match code codes = (case codes of
     VList xs \<Rightarrow> map_option (\<lambda>i. i \<noteq> 0) (ismember code xs False) | _ \<Rightarrow> Some True)"

text \<open>The arms below a \<open>TYPE_CATCH\<close> marker, lowest first: code list, program counter, code list, ...\<close>

fun find_arm :: "var \<Rightarrow> var list \<Rightarrow> nat option option" where
  "find_arm code [] = Some None"
| "find_arm code [v] = None"
| "find_arm code (codes # pc # arms) = do {
     hit \<leftarrow> codes_match code codes;
     if hit then (case pc of VInt n \<Rightarrow> Some (Some (unat n)) | _ \<Rightarrow> None) else find_arm code arms }"

text \<open>The arms of a marker with count \<open>n\<close> on top of \<open>st\<close>, and the stack below them.\<close>

definition marker_arms :: "int32 \<Rightarrow> var list \<Rightarrow> (var list \<times> var list) option" where
  "marker_arms n st = (let k = 2 * nat (sint n) in
     if k \<le> length st then Some (rev (take k st), drop k st) else None)"

datatype caught =
    Caught_Finally nat "var list" | Caught_Except nat "var list" | Not_Caught

function unwind_rt :: "finally_reason \<Rightarrow> var \<Rightarrow> nat \<Rightarrow> var list \<Rightarrow> caught option" where
  "unwind_rt why code goal st =
     (if length st \<le> goal then Some Not_Caught
      else case (hd st) of
        VFinally pc \<Rightarrow>
          if why \<noteq> FIN_ABORT then Some (Caught_Finally (unat pc) (tl st))
          else unwind_rt why code goal (tl st)
      | VCatch n \<Rightarrow>
          if why = FIN_RAISE then (case marker_arms n (tl st) of
              None \<Rightarrow> None
            | Some (arms, st') \<Rightarrow> (case find_arm code arms of
                None \<Rightarrow> None
              | Some (Some pc) \<Rightarrow> Some (Caught_Except pc st')
              | Some None \<Rightarrow> unwind_rt why code goal st'))
          else unwind_rt why code goal (tl st)
      | _ \<Rightarrow> unwind_rt why code goal (tl st))"
  by pat_completeness auto
termination
  by (relation "measure (\<lambda>(why, code, goal, st). length st)")
    (auto simp: marker_arms_def Let_def split: if_splits)

declare unwind_rt.simps [simp del]

text \<open>Whether a run-time stack has a handler for the code (\<open>find_handler_activ\<close>, one frame).\<close>

function frame_handles :: "var \<Rightarrow> var list \<Rightarrow> bool option" where
  "frame_handles code st = (case st of
     [] \<Rightarrow> Some False
   | v # st' \<Rightarrow> (case v of
       VCatch n \<Rightarrow> (case marker_arms n st' of
           None \<Rightarrow> None
         | Some (arms, st'') \<Rightarrow> (case find_arm code arms of
             None \<Rightarrow> None
           | Some (Some _) \<Rightarrow> Some True
           | Some None \<Rightarrow> frame_handles code st''))
     | _ \<Rightarrow> frame_handles code st'))"
  by pat_completeness auto
termination
  by (relation "measure (\<lambda>(code, st). length st)") (auto simp: marker_arms_def Let_def split: if_splits)

declare frame_handles.simps [simp del]

text \<open>The number, from the root, of the topmost activation with a handler.\<close>

fun find_handler_activ :: "var \<Rightarrow> 'k activation list \<Rightarrow> nat option option" where
  "find_handler_activ code [] = Some None"
| "find_handler_activ code (a # as) = do {
     hit \<leftarrow> frame_handles code (av_rt_stack a);
     if hit then Some (Some (length as)) else find_handler_activ code as }"

section \<open>Raising and unwinding\<close>

text \<open>\<open>raise_error\<close> up to its call of \<open>unwind_stack\<close>.\<close>

definition raise_setup ::
  "('k, 'w) server \<Rightarrow> var \<Rightarrow> string \<Rightarrow> var \<Rightarrow> ('k, 'w) vm \<Rightarrow> (finally_reason \<times> var \<times> ('k, 'w) vm) option" where
  "raise_setup sv code msg val vm = do {
     frame \<leftarrow> find_handler_activ code (vm_activs vm);
     case frame of
       Some start \<Rightarrow> Some (FIN_RAISE, VList [code, VStr msg, val, make_stack_list sv vm start True True], vm)
     | None \<Rightarrow> Some (FIN_UNCAUGHT, VInt 0, vm\<lparr>vm_handler := Some (''handle_uncaught_error'',
         VList [code, VStr msg, val, make_stack_list sv vm 0 True True, error_backtrace_list sv msg vm])\<rparr>) }"

text \<open>
  The calls of a built-in function that is unwound for an error: whatever it returns is ignored, and
  the verbs it calls are dropped at once.
\<close>

partial_function (option) squelch_bi_func ::
  "('k, 'w) server \<Rightarrow> nat \<Rightarrow> nat \<Rightarrow> 'k option \<Rightarrow> objid \<Rightarrow> ('k, 'w) vm \<Rightarrow> ('k, 'w) vm option" where
  "squelch_bi_func sv func_id func_pc vdata progr vm =
     Option.bind (call_bi_func sv func_id (VInt 0) func_pc progr vdata vm) (\<lambda>(p, vm1).
       case p of
         BI_CALL pc d \<Rightarrow>
           (let vm2 = vm1\<lparr>vm_activs := tl (vm_activs vm1)\<rparr>
            in if pc \<noteq> 0 then squelch_bi_func sv func_id pc d progr vm2 else Some vm2)
       | _ \<Rightarrow> Some vm1)"

declare squelch_bi_func.simps [code]

definition push_run :: "var \<Rightarrow> ('k, 'w) vm \<Rightarrow> ('k, 'w) vm option" where
  "push_run v vm = do { a \<leftarrow> run_activ vm; a \<leftarrow> push_val v a; Some (set_activ a vm) }"

text \<open>One round of \<open>unwind_stack\<close> in the running activation: the handler it enters, if any.\<close>

definition unwind_frame ::
  "finally_reason \<Rightarrow> var \<Rightarrow> ('k, 'w) vm \<Rightarrow> ('k, 'w) vm option option" where
  "unwind_frame why val vm = do {
     a \<leftarrow> run_activ vm;
     (code, goal, exit_pc) \<leftarrow> (case why of
         FIN_RAISE \<Rightarrow> (case val of VList (c # _) \<Rightarrow> Some (c, 0, 0) | _ \<Rightarrow> None)
       | FIN_EXIT \<Rightarrow> (case val of VList [VInt g, VInt pc] \<Rightarrow> Some (VInt 0, unat g, unat pc) | _ \<Rightarrow> None)
       | _ \<Rightarrow> Some (VInt 0, 0, 0));
     found \<leftarrow> unwind_rt why code goal (av_rt_stack a);
     case found of
       Caught_Finally pc st \<Rightarrow> do {
         a \<leftarrow> push_val (VInt (fin_code why)) (a\<lparr>av_pc := pc, av_rt_stack := st\<rparr>);
         a \<leftarrow> push_val val a;
         Some (Some (set_activ a vm)) }
     | Caught_Except pc st \<Rightarrow> do {
         a \<leftarrow> push_val val (a\<lparr>av_pc := pc, av_rt_stack := st\<rparr>);
         Some (Some (set_activ a vm)) }
     | Not_Caught \<Rightarrow>
         (let st = drop (length (av_rt_stack a) - goal) (av_rt_stack a) in
          if why = FIN_EXIT then Some (Some (set_activ (a\<lparr>av_pc := exit_pc, av_rt_stack := st\<rparr>) vm))
          else Some None) }"

text \<open>\<open>Some oc\<close>: the whole stack is unwound and \<open>run()\<close> stops with that outcome.\<close>

partial_function (option) unwind_stack ::
  "('k, 'w) server \<Rightarrow> finally_reason \<Rightarrow> var \<Rightarrow> ('k, 'w) vm \<Rightarrow> (outcome option \<times> ('k, 'w) vm) option" where
  "unwind_stack sv why val vm =
     Option.bind (unwind_frame why val vm) (\<lambda>entered. case entered of
       Some vm1 \<Rightarrow> Some (None, vm1)
     | None \<Rightarrow> (case vm_activs vm of
         [] \<Rightarrow> None
       | [a] \<Rightarrow> Some (Some (if why = FIN_RETURN then OUTCOME_DONE else OUTCOME_ABORTED),
                   set_activ (a\<lparr>av_rt_stack := []\<rparr>) vm)
       | a # b # as \<Rightarrow>
           (let vm1 = vm\<lparr>vm_activs := b # as\<rparr> in
            if av_bi_func_pc a = 0 then
              (if why = FIN_RETURN then map_option (Pair None) (push_run val vm1)
               else unwind_stack sv why val vm1)
            else if why \<noteq> FIN_RETURN then
              Option.bind (squelch_bi_func sv (av_bi_func_id a) (av_bi_func_pc a) (av_bi_func_data a)
                  (av_progr a) vm1)
                (\<lambda>vm2. unwind_stack sv why val vm2)
            else Option.bind (call_bi_func sv (av_bi_func_id a) val (av_bi_func_pc a) (av_progr b)
                  (av_bi_func_data a) vm1) (\<lambda>(p, vm2). case p of
                BI_RETURN ret \<Rightarrow> map_option (Pair None) (push_run ret vm2)
              | BI_RAISE code msg v \<Rightarrow>
                  (if av_debug b then Option.bind (raise_setup sv code msg v vm2)
                      (\<lambda>(why1, val1, vm3). unwind_stack sv why1 val1 vm3)
                   else map_option (Pair None) (push_run code vm2))
              | BI_SUSPEND proc \<Rightarrow> Option.bind (sv_suspend sv proc vm2) (\<lambda>(e, vm3).
                  if e = E_NONE then Some (Some OUTCOME_BLOCKED, vm3)
                  else unwind_stack sv FIN_RAISE (VErr e) vm3)
              | BI_CALL pc d \<Rightarrow> Option.bind (run_activ vm2) (\<lambda>c.
                  Some (None, set_activ (c\<lparr>av_bi_func_id := av_bi_func_id a, av_bi_func_pc := pc,
                    av_bi_func_data := d\<rparr>) vm2))
              | BI_KILL \<Rightarrow> unwind_stack sv FIN_ABORT (VInt 0) vm2))))"

declare unwind_stack.simps [code]

definition raise_error ::
  "('k, 'w) server \<Rightarrow> var \<Rightarrow> string \<Rightarrow> var \<Rightarrow> ('k, 'w) vm \<Rightarrow> (outcome option \<times> ('k, 'w) vm) option" where
  "raise_error sv code msg val vm = do {
     (why, v, vm) \<leftarrow> raise_setup sv code msg val vm;
     unwind_stack sv why v vm }"

definition abort_task :: "('k, 'w) server \<Rightarrow> bool \<Rightarrow> ('k, 'w) vm \<Rightarrow> ('k, 'w) vm option" where
  "abort_task sv is_ticks vm =
     (let msg = (if is_ticks then ''Task ran out of ticks'' else ''Task ran out of seconds'');
          v = VList [VStr (if is_ticks then ''ticks'' else ''seconds''),
                make_stack_list sv vm 0 True True, error_backtrace_list sv msg vm]
      in map_option snd (unwind_stack sv FIN_ABORT (VInt 0) (vm\<lparr>vm_handler := Some (''handle_task_timeout'', v)\<rparr>)))"

end
