(* ===== verification/Vm_Run.thy ===== *)
theory Vm_Run
  imports Vm_Unwind
begin

text \<open>
  The interpreter \<open>run()\<close> of src/src/execute.c. A machine that stops has an outcome and the value
  that was stored through \<open>result\<close>, if one was. \<open>step\<close> executes one instruction of the running
  activation, \<open>run\<close> repeats it; \<open>None\<close> is a panic or undefined behaviour. Each opcode is a function
  on the machine; what it computes on values is in \<open>Vm_Values\<close>.
\<close>

datatype ('k, 'w) progress = Running "('k, 'w) vm" | Stopped outcome "var option" "('k, 'w) vm"

section \<open>Reading the code\<close>

definition which_bytecodes :: "('k, 'w) vm \<Rightarrow> bytecodes option" where
  "which_bytecodes vm = do {
     a \<leftarrow> run_activ vm;
     if length (vm_activs vm) \<noteq> 1 \<or> vm_root_vector vm = MAIN_VECTOR then Some (pg_main_vector (av_prog a))
     else nth_opt (pg_fork_vectors (av_prog a)) (vm_root_vector vm) }"

definition be_value :: "8 word list \<Rightarrow> nat" where
  "be_value bs = foldl (\<lambda>n b. 256 * n + unat b) 0 bs"

text \<open>\<open>READ_BYTES\<close>: 1, 2, or for any other size 4 bytes, with the program counter moved by the size.\<close>

definition read_bytes :: "8 word list \<Rightarrow> nat \<Rightarrow> nat \<Rightarrow> (nat \<times> nat) option" where
  "read_bytes code pc nb =
     (let k = (if nb = 1 then 1 else if nb = 2 then 2 else 4) in
      if pc + nb \<le> length code \<and> k \<le> pc + nb
      then Some (be_value (take k (drop (pc + nb - k) code)), pc + nb) else None)"

text \<open>A reference operand of the running activation.\<close>

definition operand :: "(bytecodes \<Rightarrow> nat) \<Rightarrow> ('k, 'w) vm \<Rightarrow> (nat \<times> ('k, 'w) vm) option" where
  "operand nb vm = do {
     bc \<leftarrow> which_bytecodes vm;
     a \<leftarrow> run_activ vm;
     (v, pc) \<leftarrow> read_bytes (bc_vector bc) (av_pc a) (nb bc);
     Some (v, set_activ (a\<lparr>av_pc := pc\<rparr>) vm) }"

abbreviation op_label :: "('k, 'w) vm \<Rightarrow> (nat \<times> ('k, 'w) vm) option" where
  "op_label \<equiv> operand bc_numbytes_label"
abbreviation op_var :: "('k, 'w) vm \<Rightarrow> (nat \<times> ('k, 'w) vm) option" where
  "op_var \<equiv> operand bc_numbytes_var_name"
abbreviation op_byte1 :: "('k, 'w) vm \<Rightarrow> (nat \<times> ('k, 'w) vm) option" where
  "op_byte1 \<equiv> operand (\<lambda>_. 1)"

definition jump_to :: "nat \<Rightarrow> ('k, 'w) vm \<Rightarrow> ('k, 'w) vm option" where
  "jump_to pc vm = do { a \<leftarrow> run_activ vm; Some (set_activ (a\<lparr>av_pc := pc\<rparr>) vm) }"

section \<open>The stack and the environment\<close>

definition pop_run :: "('k, 'w) vm \<Rightarrow> (var \<times> ('k, 'w) vm) option" where
  "pop_run vm = do { a \<leftarrow> run_activ vm; (v, a) \<leftarrow> pop_val a; Some (v, set_activ a vm) }"

definition top_run :: "nat \<Rightarrow> ('k, 'w) vm \<Rightarrow> var option" where
  "top_run i vm = do { a \<leftarrow> run_activ vm; nth_opt (av_rt_stack a) (int i) }"

definition set_top :: "nat \<Rightarrow> var \<Rightarrow> ('k, 'w) vm \<Rightarrow> ('k, 'w) vm option" where
  "set_top i v vm = do {
     a \<leftarrow> run_activ vm;
     st \<leftarrow> upd_opt (av_rt_stack a) (int i) v;
     Some (set_activ (a\<lparr>av_rt_stack := st\<rparr>) vm) }"

definition get_var :: "nat \<Rightarrow> ('k, 'w) vm \<Rightarrow> var option" where
  "get_var slot vm = do { a \<leftarrow> run_activ vm; nth_opt (av_rt_env a) (int slot) }"

definition set_var :: "nat \<Rightarrow> var \<Rightarrow> ('k, 'w) vm \<Rightarrow> ('k, 'w) vm option" where
  "set_var slot v vm = do {
     a \<leftarrow> run_activ vm;
     env \<leftarrow> upd_opt (av_rt_env a) (int slot) v;
     Some (set_activ (a\<lparr>av_rt_env := env\<rparr>) vm) }"

section \<open>Errors\<close>

text \<open>
  \<open>RAISE_ERROR\<close>: with the debug bit the error is raised, which ends the instruction; without it
  the rest of the instruction, \<open>cont\<close>, goes on. A raise that unwinds everything returns
  \<open>OUTCOME_ABORTED\<close>.
\<close>

definition after_raise :: "(outcome option \<times> ('k, 'w) vm) \<Rightarrow> ('k, 'w) progress" where
  "after_raise r = (case r of (None, vm) \<Rightarrow> Running vm | (Some _, vm) \<Rightarrow> Stopped OUTCOME_ABORTED None vm)"

definition raise_or ::
  "('k, 'w) server \<Rightarrow> error \<Rightarrow> (('k, 'w) vm \<Rightarrow> ('k, 'w) progress option) \<Rightarrow> ('k, 'w) vm \<Rightarrow> ('k, 'w) progress option" where
  "raise_or sv e cont vm = do {
     a \<leftarrow> run_activ vm;
     if av_debug a then map_option after_raise (raise_error sv (VErr e) (unparse_error e) (VInt 0) vm)
     else cont vm }"

definition run_on :: "('k, 'w) vm option \<Rightarrow> ('k, 'w) progress option" where
  "run_on vm = map_option Running vm"

definition push_error :: "('k, 'w) server \<Rightarrow> error \<Rightarrow> ('k, 'w) vm \<Rightarrow> ('k, 'w) progress option" where
  "push_error sv e = raise_or sv e (\<lambda>vm. run_on (push_run (VErr e) vm))"

definition push_answer :: "('k, 'w) server \<Rightarrow> error + var \<Rightarrow> ('k, 'w) vm \<Rightarrow> ('k, 'w) progress option" where
  "push_answer sv ans vm = (case ans of Inl e \<Rightarrow> push_error sv e vm | Inr v \<Rightarrow> run_on (push_run v vm))"

definition unary :: "('k, 'w) server \<Rightarrow> (var \<Rightarrow> answer) \<Rightarrow> ('k, 'w) vm \<Rightarrow> ('k, 'w) progress option" where
  "unary sv f vm = do {
     (v, vm) \<leftarrow> pop_run vm;
     ans \<leftarrow> f v;
     push_answer sv ans vm }"

text \<open>The right operand is on top.\<close>

definition binary :: "('k, 'w) server \<Rightarrow> (var \<Rightarrow> var \<Rightarrow> answer) \<Rightarrow> ('k, 'w) vm \<Rightarrow> ('k, 'w) progress option" where
  "binary sv f vm = do {
     (rhs, vm) \<leftarrow> pop_run vm;
     (lhs, vm) \<leftarrow> pop_run vm;
     ans \<leftarrow> f lhs rhs;
     push_answer sv ans vm }"

definition ternary :: "('k, 'w) server \<Rightarrow> (var \<Rightarrow> var \<Rightarrow> var \<Rightarrow> answer) \<Rightarrow> ('k, 'w) vm \<Rightarrow> ('k, 'w) progress option" where
  "ternary sv f vm = do {
     (c, vm) \<leftarrow> pop_run vm;
     binary sv (\<lambda>a b. f a b c) vm }"

section \<open>Control flow\<close>

definition do_test :: "('k, 'w) vm \<Rightarrow> ('k, 'w) vm option" where
  "do_test vm = do {
     (cond, vm) \<leftarrow> pop_run vm;
     (lab, vm) \<leftarrow> op_label vm;
     if \<not> is_true cond \<and> lab \<noteq> 0 then jump_to lab vm else Some vm }"

definition drop_two_and_jump :: "nat \<Rightarrow> ('k, 'w) vm \<Rightarrow> ('k, 'w) vm option" where
  "drop_two_and_jump lab vm = do {
     (_, vm) \<leftarrow> pop_run vm;
     (_, vm) \<leftarrow> pop_run vm;
     jump_to lab vm }"

definition exec_for_list :: "('k, 'w) server \<Rightarrow> ('k, 'w) vm \<Rightarrow> ('k, 'w) progress option" where
  "exec_for_list sv vm = do {
     (slot, vm) \<leftarrow> op_var vm;
     (lab, vm) \<leftarrow> op_label vm;
     count \<leftarrow> top_run 0 vm;
     list \<leftarrow> top_run 1 vm;
     case list of
       VList xs \<Rightarrow> (case count of
           VInt i \<Rightarrow>
             if sint i > len xs then run_on (drop_two_and_jump lab vm)
             else do {
               x \<leftarrow> nth_opt xs (sint i - 1);
               vm \<leftarrow> set_var slot x vm;
               run_on (set_top 0 (VInt (i + 1)) vm) }
         | _ \<Rightarrow> None)
     | _ \<Rightarrow> raise_or sv E_TYPE (\<lambda>vm. run_on (drop_two_and_jump lab vm)) vm }"

text \<open>The bounds of a range loop: the next value of \<open>from\<close>, or \<open>None\<close> when the loop is over.\<close>

fun range_next :: "var \<Rightarrow> var \<Rightarrow> var option" where
  "range_next (VInt a) (VInt b) = (if sint a > sint b then None else Some (VInt (a + 1)))"
| "range_next (VObj a) (VObj b) = (if a > b then None else Some (VObj (a + 1)))"
| "range_next _ _ = None"

definition range_types :: "var \<Rightarrow> var \<Rightarrow> bool" where
  "range_types from to \<longleftrightarrow> (var_type to = 0 \<or> var_type to = 1) \<and> var_type to = var_type from"

definition exec_for_range :: "('k, 'w) server \<Rightarrow> ('k, 'w) vm \<Rightarrow> ('k, 'w) progress option" where
  "exec_for_range sv vm = do {
     (slot, vm) \<leftarrow> op_var vm;
     (lab, vm) \<leftarrow> op_label vm;
     to \<leftarrow> top_run 0 vm;
     from \<leftarrow> top_run 1 vm;
     if \<not> range_types from to then raise_or sv E_TYPE (\<lambda>vm. run_on (drop_two_and_jump lab vm)) vm
     else case range_next from to of
       None \<Rightarrow> run_on (drop_two_and_jump lab vm)
     | Some nxt \<Rightarrow> do { vm \<leftarrow> set_var slot from vm; run_on (set_top 1 nxt vm) } }"

text \<open>A literal whose next instruction pops it is skipped with it.\<close>

definition exec_imm :: "('k, 'w) vm \<Rightarrow> ('k, 'w) vm option" where
  "exec_imm vm = do {
     bc \<leftarrow> which_bytecodes vm;
     a \<leftarrow> run_activ vm;
     next_byte \<leftarrow> nth_opt (bc_vector bc) (int (av_pc a + bc_numbytes_literal bc));
     if byte_op next_byte = OP_POP then jump_to (av_pc a + bc_numbytes_literal bc + 1) vm
     else do {
       (slot, vm) \<leftarrow> operand bc_numbytes_literal vm;
       v \<leftarrow> nth_opt (pg_literals (av_prog a)) (int slot);
       push_run v vm } }"

definition exec_and_or :: "bool \<Rightarrow> ('k, 'w) vm \<Rightarrow> ('k, 'w) vm option" where
  "exec_and_or is_and vm = do {
     (lab, vm) \<leftarrow> op_label vm;
     lhs \<leftarrow> top_run 0 vm;
     if is_true lhs \<noteq> is_and then jump_to lab vm else map_option snd (pop_run vm) }"

section \<open>Variables\<close>

definition exec_push :: "('k, 'w) server \<Rightarrow> nat \<Rightarrow> ('k, 'w) vm \<Rightarrow> ('k, 'w) progress option" where
  "exec_push sv slot vm = do {
     v \<leftarrow> get_var slot vm;
     if v = VNone then push_error sv E_VARNF vm else run_on (push_run v vm) }"

text \<open>\<open>OP_PUT + n\<close> swallows an \<open>OP_POP\<close> that follows it.\<close>

definition exec_put :: "nat \<Rightarrow> ('k, 'w) vm \<Rightarrow> ('k, 'w) vm option" where
  "exec_put slot vm = do {
     bc \<leftarrow> which_bytecodes vm;
     a \<leftarrow> run_activ vm;
     next_byte \<leftarrow> nth_opt (bc_vector bc) (int (av_pc a));
     v \<leftarrow> top_run 0 vm;
     vm \<leftarrow> set_var slot v vm;
     if byte_op next_byte = OP_POP then do {
       (_, vm) \<leftarrow> pop_run vm;
       jump_to (av_pc a + 1) vm }
     else Some vm }"

definition exec_g_put :: "('k, 'w) vm \<Rightarrow> ('k, 'w) vm option" where
  "exec_g_put vm = do {
     (slot, vm) \<leftarrow> op_var vm;
     v \<leftarrow> top_run 0 vm;
     set_var slot v vm }"

section \<open>Properties\<close>

fun protect_name :: "bi_prop \<Rightarrow> string option" where
  "protect_name BP_NAME = Some ''protect_name''" | "protect_name BP_OWNER = Some ''protect_owner''"
| "protect_name BP_PROGRAMMER = Some ''protect_programmer''"
| "protect_name BP_WIZARD = Some ''protect_wizard''" | "protect_name BP_R = Some ''protect_r''"
| "protect_name BP_W = Some ''protect_w''" | "protect_name BP_F = Some ''protect_f''"
| "protect_name BP_LOCATION = Some ''protect_location''"
| "protect_name BP_CONTENTS = Some ''protect_contents''" | "protect_name BP_NONE = None"

definition bi_prop_protected :: "db \<Rightarrow> bi_prop \<Rightarrow> objid \<Rightarrow> bool option" where
  "bi_prop_protected db prop progr =
     (if is_wizard db progr then Some False
      else do { pname \<leftarrow> protect_name prop; server_flag_option db pname })"

text \<open>What reading \<open>obj.propname\<close> gives a programmer.\<close>

definition get_prop :: "db \<Rightarrow> objid \<Rightarrow> var \<Rightarrow> var \<Rightarrow> answer" where
  "get_prop db progr ob propname = (case (ob, propname) of
     (VObj oid, VStr nm) \<Rightarrow>
       if \<not> valid db oid then Some (Inl E_INVIND)
       else do {
         (h, v) \<leftarrow> db_find_property db oid nm True;
         if h_ptr h = Null then Some (Inl E_PROPNF)
         else do {
           refused \<leftarrow> (if h_built_in h \<noteq> BP_NONE then bi_prop_protected db (h_built_in h) progr
                      else map_option Not (db_property_allows db h progr PF_READ));
           if refused then Some (Inl E_PERM) else map_option Inr v } }
   | _ \<Rightarrow> Some (Inl E_TYPE))"

text \<open>The check of \<open>OP_PUT_PROP\<close> for a property that exists.\<close>

definition put_prop_error :: "db \<Rightarrow> objid \<Rightarrow> objid \<Rightarrow> db_prop_handle \<Rightarrow> var \<Rightarrow> error option" where
  "put_prop_error db progr oid h rhs = (case h_built_in h of
     BP_NONE \<Rightarrow> map_option (\<lambda>ok. if ok then E_NONE else E_PERM) (db_property_allows db h progr PF_WRITE)
   | BP_NAME \<Rightarrow>
       if var_type rhs \<noteq> 2 then Some E_TYPE
       else if \<not> is_wizard db progr then do {
         ow \<leftarrow> (if is_user db oid then Some progr else db_object_owner db oid);
         Some (if is_user db oid \<or> progr \<noteq> ow then E_PERM else E_NONE) }
       else Some E_NONE
   | BP_OWNER \<Rightarrow> Some (if var_type rhs \<noteq> 1 then E_TYPE else if \<not> is_wizard db progr then E_PERM else E_NONE)
   | BP_PROGRAMMER \<Rightarrow> Some (if is_wizard db progr then E_NONE else E_PERM)
   | BP_WIZARD \<Rightarrow> Some (if is_wizard db progr then E_NONE else E_PERM)
   | BP_LOCATION \<Rightarrow> Some E_PERM
   | BP_CONTENTS \<Rightarrow> Some E_PERM
   | _ \<Rightarrow> do {
       ow \<leftarrow> db_object_owner db oid;
       Some (if progr \<noteq> ow \<and> \<not> is_wizard db progr then E_PERM else E_NONE) })"

definition put_prop :: "db \<Rightarrow> objid \<Rightarrow> var \<Rightarrow> var \<Rightarrow> var \<Rightarrow> (error + db) option" where
  "put_prop db progr ob propname rhs = (case (ob, propname) of
     (VObj oid, VStr nm) \<Rightarrow>
       if \<not> valid db oid then Some (Inl E_INVIND)
       else do {
         (h, _) \<leftarrow> db_find_property db oid nm False;
         if h_ptr h = Null then Some (Inl E_PROPNF)
         else do {
           e \<leftarrow> put_prop_error db progr oid h rhs;
           if e = E_NONE then map_option Inr (db_set_property_value db h rhs) else Some (Inl e) } }
   | _ \<Rightarrow> Some (Inl E_TYPE))"

definition exec_get_prop :: "('k, 'w) server \<Rightarrow> ('k, 'w) vm \<Rightarrow> ('k, 'w) progress option" where
  "exec_get_prop sv vm = do {
     a \<leftarrow> run_activ vm;
     binary sv (get_prop (vm_db vm) (av_progr a)) vm }"

definition exec_push_get_prop :: "('k, 'w) server \<Rightarrow> ('k, 'w) vm \<Rightarrow> ('k, 'w) progress option" where
  "exec_push_get_prop sv vm = do {
     a \<leftarrow> run_activ vm;
     propname \<leftarrow> top_run 0 vm;
     ob \<leftarrow> top_run 1 vm;
     ans \<leftarrow> get_prop (vm_db vm) (av_progr a) ob propname;
     push_answer sv ans vm }"

definition exec_put_prop :: "('k, 'w) server \<Rightarrow> ('k, 'w) vm \<Rightarrow> ('k, 'w) progress option" where
  "exec_put_prop sv vm = do {
     a \<leftarrow> run_activ vm;
     (rhs, vm) \<leftarrow> pop_run vm;
     (propname, vm) \<leftarrow> pop_run vm;
     (ob, vm) \<leftarrow> pop_run vm;
     r \<leftarrow> put_prop (vm_db vm) (av_progr a) ob propname rhs;
     case r of
       Inl e \<Rightarrow> push_error sv e vm
     | Inr db \<Rightarrow> run_on (push_run rhs (vm\<lparr>vm_db := db\<rparr>)) }"

section \<open>Scattering assignment\<close>

record scatter_state =
  sc_offset :: int
  sc_nopt_avail :: int
  sc_where :: nat

text \<open>
  The loop over the targets: \<open>i\<close> is the position of the target, \<open>todo\<close> the number of targets left.
\<close>

fun scatter_loop ::
  "nat \<Rightarrow> int \<Rightarrow> int \<Rightarrow> int \<Rightarrow> var list \<Rightarrow> scatter_state \<Rightarrow> ('k, 'w) vm \<Rightarrow> (scatter_state \<times> ('k, 'w) vm) option" where
  "scatter_loop 0 i rest nrest xs st vm = Some (st, vm)"
| "scatter_loop (Suc todo) i rest nrest xs st vm = do {
     (slot, vm) \<leftarrow> op_var vm;
     (lab, vm) \<leftarrow> op_label vm;
     if i = rest then do {
       ys \<leftarrow> sublist xs i (i + nrest - 1);
       vm \<leftarrow> set_var slot (VList ys) vm;
       scatter_loop todo (i + 1) rest nrest xs (st\<lparr>sc_offset := sc_offset st + nrest - 1\<rparr>) vm }
     else if lab = 0 then do {
       x \<leftarrow> nth_opt xs (i + sc_offset st - 1);
       vm \<leftarrow> set_var slot x vm;
       scatter_loop todo (i + 1) rest nrest xs st vm }
     else if sc_nopt_avail st > 0 then do {
       x \<leftarrow> nth_opt xs (i + sc_offset st - 1);
       vm \<leftarrow> set_var slot x vm;
       scatter_loop todo (i + 1) rest nrest xs (st\<lparr>sc_nopt_avail := sc_nopt_avail st - 1\<rparr>) vm }
     else scatter_loop todo (i + 1) rest nrest xs
       (st\<lparr>sc_offset := sc_offset st - 1,
           sc_where := (if sc_where st = 0 \<and> lab \<noteq> 1 then lab else sc_where st)\<rparr>) vm }"

fun skip_operands :: "nat \<Rightarrow> ('k, 'w) vm \<Rightarrow> ('k, 'w) vm option" where
  "skip_operands 0 vm = Some vm"
| "skip_operands (Suc n) vm = do {
     (_, vm) \<leftarrow> op_var vm;
     (_, vm) \<leftarrow> op_label vm;
     skip_operands n vm }"

definition scatter_error :: "var \<Rightarrow> int \<Rightarrow> int \<Rightarrow> bool \<Rightarrow> error" where
  "scatter_error v nargs nreq have_rest = (case v of
     VList xs \<Rightarrow> if len xs < nreq \<or> (\<not> have_rest \<and> len xs > nargs) then E_ARGS else E_NONE
   | _ \<Rightarrow> E_TYPE)"

definition exec_scatter :: "('k, 'w) server \<Rightarrow> ('k, 'w) vm \<Rightarrow> ('k, 'w) progress option" where
  "exec_scatter sv vm = do {
     (nargs, vm) \<leftarrow> op_byte1 vm;
     (nreq, vm) \<leftarrow> op_byte1 vm;
     (rest, vm) \<leftarrow> op_byte1 vm;
     v \<leftarrow> top_run 0 vm;
     let have_rest = (rest \<le> nargs);
     let e = scatter_error v (int nargs) (int nreq) have_rest;
     if e \<noteq> E_NONE then do {
       (_, vm) \<leftarrow> pop_run vm;
       raise_or sv e (\<lambda>vm. do {
         vm \<leftarrow> push_run (VErr e) vm;
         vm \<leftarrow> skip_operands nargs vm;
         (done_label, vm) \<leftarrow> op_label vm;
         run_on (jump_to done_label vm) }) vm }
     else case v of
       VList xs \<Rightarrow> do {
         let nrest = (if have_rest \<and> len xs \<ge> int nargs then len xs - int nargs + 1 else 0);
         (st, vm) \<leftarrow> scatter_loop nargs 1 (int rest) nrest xs
           \<lparr>sc_offset = 0, sc_nopt_avail = len xs - int nreq, sc_where = 0\<rparr> vm;
         (done_label, vm) \<leftarrow> op_label vm;
         run_on (jump_to (if sc_where st = 0 then done_label else sc_where st) vm) }
     | _ \<Rightarrow> None }"

section \<open>Handlers, loops and forks\<close>

definition exec_push_label :: "(int32 \<Rightarrow> var) \<Rightarrow> ('k, 'w) vm \<Rightarrow> ('k, 'w) vm option" where
  "exec_push_label mk vm = do {
     (lab, vm) \<leftarrow> op_label vm;
     push_run (mk (word_of_nat lab)) vm }"

fun pop_arms :: "nat \<Rightarrow> ('k, 'w) vm \<Rightarrow> ('k, 'w) vm option" where
  "pop_arms 0 vm = Some vm"
| "pop_arms (Suc n) vm = do {
     (_, vm) \<leftarrow> pop_run vm;
     (_, vm) \<leftarrow> pop_run vm;
     pop_arms n vm }"

definition jump_unless_0 :: "('k, 'w) vm \<Rightarrow> ('k, 'w) vm option" where
  "jump_unless_0 vm = do {
     (lab, vm) \<leftarrow> op_label vm;
     if lab \<noteq> 0 then jump_to lab vm else Some vm }"

definition pop_marker :: "('k, 'w) vm \<Rightarrow> ('k, 'w) vm option" where
  "pop_marker vm = do {
     (marker, vm) \<leftarrow> pop_run vm;
     case marker of VCatch n \<Rightarrow> pop_arms (nat (sint n)) vm | _ \<Rightarrow> None }"

definition exec_end_catch :: "('k, 'w) vm \<Rightarrow> ('k, 'w) vm option" where
  "exec_end_catch vm = do {
     (v, vm) \<leftarrow> pop_run vm;
     vm \<leftarrow> pop_marker vm;
     vm \<leftarrow> push_run v vm;
     jump_unless_0 vm }"

definition exec_end_except :: "('k, 'w) vm \<Rightarrow> ('k, 'w) vm option" where
  "exec_end_except vm = do { vm \<leftarrow> pop_marker vm; jump_unless_0 vm }"

definition exec_end_finally :: "('k, 'w) vm \<Rightarrow> ('k, 'w) vm option" where
  "exec_end_finally vm = do {
     (v, vm) \<leftarrow> pop_run vm;
     case v of
       VFinally _ \<Rightarrow> do { vm \<leftarrow> push_run (VInt (fin_code FIN_FALL_THRU)) vm; push_run (VInt 0) vm }
     | _ \<Rightarrow> None }"

definition after_unwind :: "(outcome option \<times> ('k, 'w) vm) \<Rightarrow> ('k, 'w) progress" where
  "after_unwind r = (case r of (None, vm) \<Rightarrow> Running vm | (Some oc, vm) \<Rightarrow> Stopped oc None vm)"

definition reason_of :: "int32 \<Rightarrow> finally_reason option" where
  "reason_of n = (if n = 1 then Some FIN_RAISE else if n = 2 then Some FIN_UNCAUGHT
     else if n = 3 then Some FIN_RETURN else if n = 5 then Some FIN_EXIT else None)"

definition exec_continue :: "('k, 'w) server \<Rightarrow> ('k, 'w) vm \<Rightarrow> ('k, 'w) progress option" where
  "exec_continue sv vm = do {
     (v, vm) \<leftarrow> pop_run vm;
     (why, vm) \<leftarrow> pop_run vm;
     case why of
       VInt n \<Rightarrow>
         if n = fin_code FIN_FALL_THRU then Some (Running vm)
         else do {
           reason \<leftarrow> reason_of n;
           map_option after_unwind (unwind_stack sv reason v vm) }
     | _ \<Rightarrow> None }"

definition exec_exit :: "('k, 'w) server \<Rightarrow> ('k, 'w) vm \<Rightarrow> ('k, 'w) progress option" where
  "exec_exit sv vm = do {
     (depth, vm) \<leftarrow> operand bc_numbytes_stack vm;
     (lab, vm) \<leftarrow> op_label vm;
     map_option (Running \<circ> snd)
       (unwind_stack sv FIN_EXIT (VList [VInt (word_of_nat depth), VInt (word_of_nat lab)]) vm) }"

definition exec_while_id :: "('k, 'w) vm \<Rightarrow> ('k, 'w) vm option" where
  "exec_while_id vm = do {
     (slot, vm) \<leftarrow> op_var vm;
     v \<leftarrow> top_run 0 vm;
     vm \<leftarrow> set_var slot v vm;
     do_test vm }"

definition exec_length :: "('k, 'w) server \<Rightarrow> ('k, 'w) vm \<Rightarrow> ('k, 'w) progress option" where
  "exec_length sv vm = do {
     (i, vm) \<leftarrow> operand bc_numbytes_stack vm;
     a \<leftarrow> run_activ vm;
     item \<leftarrow> nth_opt (rev (av_rt_stack a)) (int i);
     ans \<leftarrow> vm_length item;
     push_answer sv ans vm }"

definition exec_fork :: "('k, 'w) server \<Rightarrow> bool \<Rightarrow> ('k, 'w) vm \<Rightarrow> ('k, 'w) progress option" where
  "exec_fork sv with_id vm = do {
     (time, vm) \<leftarrow> pop_run vm;
     (f_index, vm) \<leftarrow> operand bc_numbytes_fork vm;
     (slot, vm) \<leftarrow> (if with_id then map_option (\<lambda>(s, vm). (Some s, vm)) (op_var vm) else Some (None, vm));
     case time of
       VInt t \<Rightarrow>
         if sint t < 0 then raise_or sv E_INVARG (\<lambda>vm. Some (Running vm)) vm
         else do {
           (e, vm) \<leftarrow> sv_fork sv f_index (sint t) slot vm;
           if e \<noteq> E_NONE then raise_or sv e (\<lambda>vm. Some (Running vm)) vm else Some (Running vm) }
     | _ \<Rightarrow> raise_or sv E_TYPE (\<lambda>vm. Some (Running vm)) vm }"

section \<open>Calls and returns\<close>

definition exec_call_verb :: "('k, 'w) server \<Rightarrow> ('k, 'w) vm \<Rightarrow> ('k, 'w) progress option" where
  "exec_call_verb sv vm = do {
     (args, vm) \<leftarrow> pop_run vm;
     (vname, vm) \<leftarrow> pop_run vm;
     (ob, vm) \<leftarrow> pop_run vm;
     (e, vm) \<leftarrow> (case (args, vname, ob) of
         (VList _, VStr nm, VObj oid) \<Rightarrow>
           if \<not> valid (vm_db vm) oid then Some (E_INVIND, vm) else call_verb2 sv oid nm args False vm
       | _ \<Rightarrow> Some (E_TYPE, vm));
     if e \<noteq> E_NONE then push_error sv e vm else Some (Running vm) }"

text \<open>The returned value is stored when the last activation returns.\<close>

definition exec_return :: "('k, 'w) server \<Rightarrow> var \<Rightarrow> ('k, 'w) vm \<Rightarrow> ('k, 'w) progress option" where
  "exec_return sv v vm = map_option (\<lambda>r. case r of
      (None, vm) \<Rightarrow> Running vm
    | (Some oc, vm) \<Rightarrow> Stopped oc (if oc = OUTCOME_DONE then Some v else None) vm)
     (unwind_stack sv FIN_RETURN v vm)"

definition exec_bi_func_call :: "('k, 'w) server \<Rightarrow> ('k, 'w) vm \<Rightarrow> ('k, 'w) progress option" where
  "exec_bi_func_call sv vm = do {
     (func_id, vm) \<leftarrow> op_byte1 vm;
     (args, vm) \<leftarrow> pop_run vm;
     case args of
       VList _ \<Rightarrow> do {
         a \<leftarrow> run_activ vm;
         (p, vm) \<leftarrow> call_bi_func sv func_id args 1 (av_progr a) None vm;
         case p of
           BI_RETURN ret \<Rightarrow> run_on (push_run ret vm)
         | BI_RAISE code msg v \<Rightarrow> do {
             a \<leftarrow> run_activ vm;
             if av_debug a then map_option after_raise (raise_error sv code msg v vm)
             else run_on (push_run code vm) }
         | BI_CALL pc d \<Rightarrow> do {
             c \<leftarrow> run_activ vm;
             Some (Running (set_activ (c\<lparr>av_bi_func_id := func_id, av_bi_func_data := d,
               av_bi_func_pc := pc\<rparr>) vm)) }
         | BI_SUSPEND proc \<Rightarrow> do {
             (e, vm) \<leftarrow> sv_suspend sv proc vm;
             if e = E_NONE then Some (Stopped OUTCOME_BLOCKED None vm) else push_error sv e vm }
         | BI_KILL \<Rightarrow> map_option (\<lambda>(_, vm). Stopped OUTCOME_ABORTED None vm)
             (unwind_stack sv FIN_ABORT (VInt 0) vm) }
     | _ \<Rightarrow> push_error sv E_TYPE vm }"

section \<open>The interpreter loop\<close>

fun exec_extended :: "('k, 'w) server \<Rightarrow> ext_opcode \<Rightarrow> ('k, 'w) vm \<Rightarrow> ('k, 'w) progress option" where
  "exec_extended sv EOP_RANGESET vm = do {
     (v, vm) \<leftarrow> pop_run vm;
     ternary sv (\<lambda>base from to. vm_rangeset base from to v) vm }"
| "exec_extended sv EOP_LENGTH vm = exec_length sv vm"
| "exec_extended sv EOP_EXP vm = binary sv (vm_exp (sv_fp sv)) vm"
| "exec_extended sv EOP_SCATTER vm = exec_scatter sv vm"
| "exec_extended sv EOP_PUSH_LABEL vm = run_on (exec_push_label VInt vm)"
| "exec_extended sv EOP_TRY_FINALLY vm = run_on (exec_push_label VFinally vm)"
| "exec_extended sv EOP_CATCH vm = run_on (push_run (VCatch 1) vm)"
| "exec_extended sv EOP_TRY_EXCEPT vm = do {
     (n, vm) \<leftarrow> op_byte1 vm;
     run_on (push_run (VCatch (word_of_nat n)) vm) }"
| "exec_extended sv EOP_END_CATCH vm = run_on (exec_end_catch vm)"
| "exec_extended sv EOP_END_EXCEPT vm = run_on (exec_end_except vm)"
| "exec_extended sv EOP_END_FINALLY vm = run_on (exec_end_finally vm)"
| "exec_extended sv EOP_CONTINUE vm = exec_continue sv vm"
| "exec_extended sv EOP_WHILE_ID vm = run_on (exec_while_id vm)"
| "exec_extended sv EOP_EXIT_ID vm = do { (_, vm) \<leftarrow> op_var vm; exec_exit sv vm }"
| "exec_extended sv EOP_EXIT vm = exec_exit sv vm"

fun exec_op :: "('k, 'w) server \<Rightarrow> opcode \<Rightarrow> ('k, 'w) vm \<Rightarrow> ('k, 'w) progress option" where
  "exec_op sv OP_IF_QUES vm = run_on (do_test vm)"
| "exec_op sv OP_IF vm = run_on (do_test vm)"
| "exec_op sv OP_WHILE vm = run_on (do_test vm)"
| "exec_op sv OP_EIF vm = run_on (do_test vm)"
| "exec_op sv OP_JUMP vm = run_on (jump_unless_0 vm)"
| "exec_op sv OP_FOR_LIST vm = exec_for_list sv vm"
| "exec_op sv OP_FOR_RANGE vm = exec_for_range sv vm"
| "exec_op sv OP_POP vm = run_on (map_option snd (pop_run vm))"
| "exec_op sv OP_IMM vm = run_on (exec_imm vm)"
| "exec_op sv OP_MAKE_EMPTY_LIST vm = run_on (push_run (VList []) vm)"
| "exec_op sv OP_LIST_ADD_TAIL vm = binary sv vm_list_add_tail vm"
| "exec_op sv OP_LIST_APPEND vm = binary sv vm_list_append vm"
| "exec_op sv OP_INDEXSET vm = ternary sv vm_indexset vm"
| "exec_op sv OP_MAKE_SINGLETON_LIST vm = unary sv (\<lambda>v. Some (Inr (VList [v]))) vm"
| "exec_op sv OP_CHECK_LIST_FOR_SPLICE vm =
     unary sv (\<lambda>v. Some (if var_type v = 4 then Inr v else Inl E_TYPE)) vm"
| "exec_op sv OP_PUT_TEMP vm = do {
     v \<leftarrow> top_run 0 vm;
     a \<leftarrow> run_activ vm;
     Some (Running (set_activ (a\<lparr>av_temp := v\<rparr>) vm)) }"
| "exec_op sv OP_PUSH_TEMP vm = do {
     a \<leftarrow> run_activ vm;
     run_on (push_run (av_temp a) (set_activ (a\<lparr>av_temp := VNone\<rparr>) vm)) }"
| "exec_op sv OP_EQ vm = binary sv (vm_equal True) vm"
| "exec_op sv OP_NE vm = binary sv (vm_equal False) vm"
| "exec_op sv OP_GT vm = binary sv (vm_compare OP_GT) vm"
| "exec_op sv OP_LT vm = binary sv (vm_compare OP_LT) vm"
| "exec_op sv OP_GE vm = binary sv (vm_compare OP_GE) vm"
| "exec_op sv OP_LE vm = binary sv (vm_compare OP_LE) vm"
| "exec_op sv OP_IN vm = binary sv vm_in vm"
| "exec_op sv OP_MULT vm = binary sv (vm_arith (sv_fp sv) OP_MULT) vm"
| "exec_op sv OP_MINUS vm = binary sv (vm_arith (sv_fp sv) OP_MINUS) vm"
| "exec_op sv OP_DIV vm = binary sv (vm_arith (sv_fp sv) OP_DIV) vm"
| "exec_op sv OP_MOD vm = binary sv (vm_arith (sv_fp sv) OP_MOD) vm"
| "exec_op sv OP_ADD vm = binary sv (vm_add (sv_fp sv)) vm"
| "exec_op sv OP_AND vm = run_on (exec_and_or True vm)"
| "exec_op sv OP_OR vm = run_on (exec_and_or False vm)"
| "exec_op sv OP_NOT vm = unary sv (\<lambda>v. Some (Inr (vm_not v))) vm"
| "exec_op sv OP_UNARY_MINUS vm = unary sv vm_minus vm"
| "exec_op sv OP_REF vm = binary sv vm_ref vm"
| "exec_op sv OP_PUSH_REF vm = do {
     ix \<leftarrow> top_run 0 vm;
     list \<leftarrow> top_run 1 vm;
     ans \<leftarrow> vm_push_ref list ix;
     push_answer sv ans vm }"
| "exec_op sv OP_RANGE_REF vm = ternary sv vm_range_ref vm"
| "exec_op sv OP_G_PUT vm = run_on (exec_g_put vm)"
| "exec_op sv OP_G_PUSH vm = do { (slot, vm) \<leftarrow> op_var vm; exec_push sv slot vm }"
| "exec_op sv OP_GET_PROP vm = exec_get_prop sv vm"
| "exec_op sv OP_PUSH_GET_PROP vm = exec_push_get_prop sv vm"
| "exec_op sv OP_PUT_PROP vm = exec_put_prop sv vm"
| "exec_op sv OP_FORK vm = exec_fork sv False vm"
| "exec_op sv OP_FORK_WITH_ID vm = exec_fork sv True vm"
| "exec_op sv OP_CALL_VERB vm = exec_call_verb sv vm"
| "exec_op sv OP_RETURN vm = do { (v, vm) \<leftarrow> pop_run vm; exec_return sv v vm }"
| "exec_op sv OP_RETURN0 vm = exec_return sv (VInt 0) vm"
| "exec_op sv OP_DONE vm = exec_return sv (VInt 0) vm"
| "exec_op sv OP_BI_FUNC_CALL vm = exec_bi_func_call sv vm"
| "exec_op sv OP_EXTENDED vm = do {
     bc \<leftarrow> which_bytecodes vm;
     a \<leftarrow> run_activ vm;
     b \<leftarrow> nth_opt (bc_vector bc) (int (av_pc a));
     eop \<leftarrow> byte_eop b;
     let vm = set_activ (a\<lparr>av_pc := av_pc a + 1\<rparr>) vm;
     exec_extended sv eop (if COUNT_EOP_TICK eop then vm\<lparr>vm_ticks := vm_ticks vm - 1\<rparr> else vm) }"
| "exec_op sv (OP_PUSH slot) vm = exec_push sv slot vm"
| "exec_op sv (OP_PUT slot) vm = run_on (exec_put slot vm)"
| "exec_op sv (OPTIM_NUM n) vm = run_on (push_run (VInt (word_of_int (OPCODE_TO_OPTIM_NUM n))) vm)"

text \<open>One round of the loop: fetch, count the tick, execute.\<close>

definition step :: "('k, 'w) server \<Rightarrow> ('k, 'w) vm \<Rightarrow> ('k, 'w) progress option" where
  "step sv vm = do {
     bc \<leftarrow> which_bytecodes vm;
     a \<leftarrow> run_activ vm;
     b \<leftarrow> nth_opt (bc_vector bc) (int (av_pc a));
     let op = byte_op b;
     let vm = set_activ (a\<lparr>av_pc := av_pc a + 1, av_error_pc := av_pc a\<rparr>) vm;
     if COUNT_TICK op then
       (let vm = vm\<lparr>vm_ticks := vm_ticks vm - 1\<rparr> in
        if vm_ticks vm \<le> 0 then map_option (Stopped OUTCOME_ABORTED None) (abort_task sv True vm)
        else if vm_timed_out vm then map_option (Stopped OUTCOME_ABORTED None) (abort_task sv False vm)
        else exec_op sv op vm)
     else exec_op sv op vm }"

partial_function (option) run_loop ::
  "('k, 'w) server \<Rightarrow> ('k, 'w) vm \<Rightarrow> (outcome \<times> var option \<times> ('k, 'w) vm) option" where
  "run_loop sv vm = Option.bind (step sv vm) (\<lambda>p. case p of
     Running vm1 \<Rightarrow> run_loop sv vm1
   | Stopped oc v vm1 \<Rightarrow> Some (oc, v, vm1))"

declare run_loop.simps [code]

text \<open>\<open>run\<close>, with the error that is raised first, if one is.\<close>

definition run :: "('k, 'w) server \<Rightarrow> error option \<Rightarrow> ('k, 'w) vm \<Rightarrow> (outcome \<times> var option \<times> ('k, 'w) vm) option" where
  "run sv raise vm = (case raise of
     None \<Rightarrow> run_loop sv vm
   | Some e \<Rightarrow> do {
       a \<leftarrow> run_activ vm;
       p \<leftarrow> push_error sv e (set_activ (a\<lparr>av_error_pc := av_pc a\<rparr>) vm);
       case p of
         Running vm1 \<Rightarrow> run_loop sv vm1
       | Stopped oc v vm1 \<Rightarrow> Some (oc, v, vm1) })"

end
