(* ===== verification/Vm_Tasks.thy ===== *)
theory Vm_Tasks
  imports Vm_Run Parse_Cmd
begin

text \<open>
  Tasks of src/src/execute.c: the entry points that start or resume the interpreter, and the
  built-in functions defined there. \<open>notify\<close>, the line a player is sent when a task dies, is a
  parameter. A result that nothing has stored is \<open>None\<close>, and reading it is undefined.
\<close>

section \<open>Running the interpreter\<close>

definition DEFAULT_MAX_STACK_DEPTH :: int where "DEFAULT_MAX_STACK_DEPTH = 32"
definition DEFAULT_FG_TICKS :: int where "DEFAULT_FG_TICKS = 131072"
definition DEFAULT_BG_TICKS :: int where "DEFAULT_BG_TICKS = 65536"

text \<open>The timer that sets \<open>task_timed_out\<close> is outside the machine.\<close>

definition setup_task_execution_limits :: "int \<Rightarrow> ('k, 'w) vm \<Rightarrow> ('k, 'w) vm" where
  "setup_task_execution_limits ticks vm =
     vm\<lparr>vm_timed_out := False, vm_ticks := (if ticks < 100 then 100 else ticks)\<rparr>"

definition current_max_stack_size :: "db \<Rightarrow> int option" where
  "current_max_stack_size db = map_option (max DEFAULT_MAX_STACK_DEPTH)
     (server_int_option db ''max_stack_depth'' DEFAULT_MAX_STACK_DEPTH)"

text \<open>\<open>run_interpreter\<close> up to the handling of an aborted task.\<close>

definition run_limited ::
  "('k, 'w) server \<Rightarrow> error option \<Rightarrow> bool \<Rightarrow> ('k, 'w) vm \<Rightarrow> (outcome \<times> var option \<times> ('k, 'w) vm) option" where
  "run_limited sv raise is_fg vm = do {
     ticks \<leftarrow> (if is_fg then server_int_option (vm_db vm) ''fg_ticks'' DEFAULT_FG_TICKS
               else server_int_option (vm_db vm) ''bg_ticks'' DEFAULT_BG_TICKS);
     (ret, res, vm) \<leftarrow> run sv raise ((setup_task_execution_limits ticks vm)\<lparr>vm_handler := None\<rparr>);
     Some (ret, res, vm\<lparr>vm_timed_out := False\<rparr>) }"

type_synonym 'w notifier = "objid \<Rightarrow> string \<Rightarrow> 'w \<Rightarrow> 'w"

text \<open>The traceback is the last element of the handler's arguments.\<close>

fun notify_lines :: "'w notifier \<Rightarrow> objid \<Rightarrow> var list \<Rightarrow> 'w \<Rightarrow> 'w option" where
  "notify_lines nt player [] w = Some w"
| "notify_lines nt player (VStr line # lines) w = notify_lines nt player lines (nt player line w)"
| "notify_lines nt player (_ # lines) w = None"

definition print_traceback :: "'w notifier \<Rightarrow> var \<Rightarrow> ('k, 'w) vm \<Rightarrow> ('k, 'w) vm option" where
  "print_traceback nt args vm = (case args of
     VList xs \<Rightarrow> if xs = [] \<or> vm_activs vm = [] then None else (case last xs of
         VList lines \<Rightarrow> map_option (\<lambda>w. vm\<lparr>vm_world := w\<rparr>)
           (notify_lines nt (av_player (last (vm_activs vm))) lines (vm_world vm))
       | _ \<Rightarrow> None)
   | _ \<Rightarrow> None)"

text \<open>\<open>do_task\<close> up to the run: the activation of the task on an empty stack.\<close>

definition bytecodes_of :: "program \<Rightarrow> int \<Rightarrow> bytecodes option" where
  "bytecodes_of prog which =
     (if which = MAIN_VECTOR then Some (pg_main_vector prog) else nth_opt (pg_fork_vectors prog) which)"

definition start_task :: "program \<Rightarrow> int \<Rightarrow> 'k activation \<Rightarrow> ('k, 'w) vm \<Rightarrow> ('k, 'w) vm option" where
  "start_task prog which a vm = do {
     bc \<leftarrow> bytecodes_of prog which;
     let a = alloc_rt_stack (bc_max_stack bc)
       (a\<lparr>av_prog := prog, av_pc := 0, av_error_pc := 0, av_bi_func_pc := 0, av_temp := VNone\<rparr>);
     sz \<leftarrow> current_max_stack_size (vm_db vm);
     Some (vm\<lparr>vm_activs := [a], vm_root_vector := which, vm_max_stack_size := sz\<rparr>) }"

text \<open>The environment of a task: the object, the caller and the command.\<close>

definition task_env ::
  "program \<Rightarrow> objid \<Rightarrow> objid \<Rightarrow> objid \<Rightarrow> objid \<Rightarrow> objid \<Rightarrow> string \<Rightarrow> string \<Rightarrow> string \<Rightarrow> string \<Rightarrow> string \<Rightarrow> var \<Rightarrow> var list option" where
  "task_env prog player caller this dobj iobj dobjstr iobjstr argstr prepstr vrb args = do {
     env \<leftarrow> fill_in_rt_consts (pg_version prog) (new_rt_env (length (pg_var_names prog)));
     set_slots [(SLOT_PLAYER, VObj player), (SLOT_CALLER, VObj caller), (SLOT_THIS, VObj this),
       (SLOT_DOBJ, VObj dobj), (SLOT_IOBJ, VObj iobj), (SLOT_DOBJSTR, VStr dobjstr),
       (SLOT_IOBJSTR, VStr iobjstr), (SLOT_ARGSTR, VStr argstr), (SLOT_PREPSTR, VStr prepstr),
       (SLOT_VERB, VStr vrb), (SLOT_ARGS, args)] env }"

definition program_task ::
  "objid \<Rightarrow> string \<Rightarrow> var \<Rightarrow> objid \<Rightarrow> string \<Rightarrow> program \<Rightarrow> objid \<Rightarrow> bool \<Rightarrow> objid \<Rightarrow> string \<Rightarrow> ('k, 'w) vm \<Rightarrow> ('k, 'w) vm option" where
  "program_task this vrb args vloc verbname prog progr debug player argstr vm = do {
     env \<leftarrow> task_env prog player (-1) this NOTHING NOTHING [] [] argstr [] vrb args;
     start_task prog MAIN_VECTOR
       (new_activation prog (pg_main_vector prog) env this player progr vloc vrb verbname debug)
       (vm\<lparr>vm_task_kind := TASK_INPUT\<rparr>) }"

definition server_verb_task ::
  "('k, 'w) server \<Rightarrow> objid \<Rightarrow> string \<Rightarrow> var \<Rightarrow> verb_handle \<Rightarrow> objid \<Rightarrow> string \<Rightarrow> ('k, 'w) vm \<Rightarrow> ('k, 'w) vm option" where
  "server_verb_task sv this vrb args h player argstr vm = (let db = vm_db vm in do {
     definer \<leftarrow> db_verb_definer db h;
     vnames \<leftarrow> db_verb_names db h;
     prog \<leftarrow> db_verb_program (sv_null_program sv) db h;
     owner \<leftarrow> db_verb_owner db h;
     flags \<leftarrow> db_verb_flags db h;
     program_task this vrb args definer vnames prog owner (flags AND VF_DEBUG \<noteq> 0) player argstr vm })"

text \<open>
  An aborted task whose handler is known: the verb of \<open>#0\<close> is looked up, and without database
  tracebacks the traceback is printed.
\<close>

definition find_handler_verb :: "string \<Rightarrow> ('k, 'w) vm \<Rightarrow> (verb_handle \<times> ('k, 'w) vm) option" where
  "find_handler_verb nm vm = do {
     (h, db) \<leftarrow> db_find_callable_verb (vm_db vm) SYSTEM_OBJECT nm;
     Some (h, vm\<lparr>vm_db := db\<rparr>) }"

definition run_without_tracebacks ::
  "('k, 'w) server \<Rightarrow> 'w notifier \<Rightarrow> error option \<Rightarrow> bool \<Rightarrow> ('k, 'w) vm \<Rightarrow> (outcome \<times> var option \<times> ('k, 'w) vm) option" where
  "run_without_tracebacks sv nt raise is_fg vm = do {
     (ret, res, vm) \<leftarrow> run_limited sv raise is_fg vm;
     case vm_handler vm of
       Some (nm, args) \<Rightarrow>
         if ret = OUTCOME_ABORTED then do {
           (h, vm) \<leftarrow> find_handler_verb nm vm;
           vm \<leftarrow> print_traceback nt args vm;
           Some (ret, res, vm) }
         else Some (ret, res, vm)
     | None \<Rightarrow> Some (ret, res, vm) }"

text \<open>
  With tracebacks the verb of \<open>#0\<close> runs as a task of its own; when it neither handles the error nor
  blocks, its outcome becomes the outcome of the aborted task.
\<close>

definition run_interpreter ::
  "('k, 'w) server \<Rightarrow> 'w notifier \<Rightarrow> error option \<Rightarrow> bool \<Rightarrow> bool \<Rightarrow> ('k, 'w) vm \<Rightarrow> (outcome \<times> var option \<times> ('k, 'w) vm) option" where
  "run_interpreter sv nt raise is_fg tracebacks vm =
     (if \<not> tracebacks then run_without_tracebacks sv nt raise is_fg vm
      else do {
        (ret, res, vm) \<leftarrow> run_limited sv raise is_fg vm;
        case vm_handler vm of
          None \<Rightarrow> Some (ret, res, vm)
        | Some (nm, args) \<Rightarrow>
            if ret \<noteq> OUTCOME_ABORTED then Some (ret, res, vm)
            else do {
              (h, vm) \<leftarrow> find_handler_verb nm vm;
              if h = None then do { vm \<leftarrow> print_traceback nt args vm; Some (ret, res, vm) }
              else do {
                root \<leftarrow> (if vm_activs vm = [] then None else Some (last (vm_activs vm)));
                vm \<leftarrow> server_verb_task sv SYSTEM_OBJECT nm args h (av_player root) [] vm;
                (ret1, handled, vm) \<leftarrow> run_without_tracebacks sv nt None True vm;
                caught \<leftarrow> (if ret1 = OUTCOME_DONE then map_option is_true handled
                           else Some (ret1 = OUTCOME_BLOCKED));
                if caught then Some (OUTCOME_ABORTED, res, vm)
                else do { vm \<leftarrow> print_traceback nt args vm; Some (ret1, res, vm) } } } })"

section \<open>Starting and resuming tasks\<close>

definition do_task :: "('k, 'w) server \<Rightarrow> 'w notifier \<Rightarrow> bool \<Rightarrow> ('k, 'w) vm \<Rightarrow> (outcome \<times> var option \<times> ('k, 'w) vm) option" where
  "do_task sv nt tracebacks vm =
     run_interpreter sv nt None (vm_task_kind vm \<noteq> TASK_FORKED) tracebacks vm"

definition do_server_verb_task ::
  "('k, 'w) server \<Rightarrow> 'w notifier \<Rightarrow> objid \<Rightarrow> string \<Rightarrow> var \<Rightarrow> verb_handle \<Rightarrow> objid \<Rightarrow> string \<Rightarrow> bool \<Rightarrow> ('k, 'w) vm \<Rightarrow> (outcome \<times> var option \<times> ('k, 'w) vm) option" where
  "do_server_verb_task sv nt this vrb args h player argstr tracebacks vm = do {
     vm \<leftarrow> server_verb_task sv this vrb args h player argstr vm;
     do_task sv nt tracebacks vm }"

definition do_server_program_task ::
  "('k, 'w) server \<Rightarrow> 'w notifier \<Rightarrow> objid \<Rightarrow> string \<Rightarrow> var \<Rightarrow> objid \<Rightarrow> string \<Rightarrow> program \<Rightarrow> objid \<Rightarrow> bool \<Rightarrow> objid \<Rightarrow> string \<Rightarrow> bool \<Rightarrow> ('k, 'w) vm \<Rightarrow> (outcome \<times> var option \<times> ('k, 'w) vm) option" where
  "do_server_program_task sv nt this vrb args vloc verbname prog progr debug player argstr tracebacks vm = do {
     vm \<leftarrow> program_task this vrb args vloc verbname prog progr debug player argstr vm;
     do_task sv nt tracebacks vm }"

definition do_input_task ::
  "('k, 'w) server \<Rightarrow> 'w notifier \<Rightarrow> objid \<Rightarrow> parsed_command \<Rightarrow> objid \<Rightarrow> verb_handle \<Rightarrow> ('k, 'w) vm \<Rightarrow> (outcome \<times> var option \<times> ('k, 'w) vm) option" where
  "do_input_task sv nt user pc this vh vm = (let db = vm_db vm in do {
     prog \<leftarrow> db_verb_program (sv_null_program sv) db vh;
     owner \<leftarrow> db_verb_owner db vh;
     definer \<leftarrow> db_verb_definer db vh;
     vnames \<leftarrow> db_verb_names db vh;
     flags \<leftarrow> db_verb_flags db vh;
     env \<leftarrow> task_env prog user user this (pc_dobj pc) (pc_iobj pc) (pc_dobjstr pc) (pc_iobjstr pc)
       (pc_argstr pc) (pc_prepstr pc) (pc_verb pc) (VList (pc_args pc));
     vm \<leftarrow> start_task prog MAIN_VECTOR
       (new_activation prog (pg_main_vector prog) env this user owner definer (pc_verb pc) vnames
         (flags AND VF_DEBUG \<noteq> 0)) (vm\<lparr>vm_task_kind := TASK_INPUT\<rparr>);
     do_task sv nt True vm })"

definition do_forked_task ::
  "('k, 'w) server \<Rightarrow> 'w notifier \<Rightarrow> program \<Rightarrow> var list \<Rightarrow> 'k activation \<Rightarrow> int \<Rightarrow> ('k, 'w) vm \<Rightarrow> (outcome \<times> var option \<times> ('k, 'w) vm) option" where
  "do_forked_task sv nt prog env a f_id vm = do {
     vm \<leftarrow> start_task prog f_id (a\<lparr>av_rt_env := env\<rparr>) (vm\<lparr>vm_task_kind := TASK_FORKED\<rparr>);
     do_task sv nt True vm }"

text \<open>\<open>resume_from_previous_vm\<close>: the activations, the stack size and the root vector of the old machine.\<close>

definition resume_from_previous_vm ::
  "('k, 'w) server \<Rightarrow> 'w notifier \<Rightarrow> 'k activation list \<Rightarrow> int \<Rightarrow> int \<Rightarrow> var \<Rightarrow> task_kind \<Rightarrow> ('k, 'w) vm \<Rightarrow> (outcome \<times> var option \<times> ('k, 'w) vm) option" where
  "resume_from_previous_vm sv nt activs max_size root v kind vm =
     (let vm = vm\<lparr>vm_task_kind := kind, vm_max_stack_size := max_size, vm_activs := activs, vm_root_vector := root\<rparr>
      in case v of
        VErr e \<Rightarrow> run_interpreter sv nt (Some e) False True vm
      | _ \<Rightarrow> do { vm \<leftarrow> push_run v vm; run_interpreter sv nt None False True vm })"

definition setup_activ_for_eval :: "program \<Rightarrow> ('k, 'w) vm \<Rightarrow> (bool \<times> ('k, 'w) vm) option" where
  "setup_activ_for_eval prog vm =
     (if \<not> push_activation vm then Some (False, vm)
      else do {
        ca \<leftarrow> run_activ vm;
        env \<leftarrow> task_env prog (av_player ca) (av_this ca) NOTHING NOTHING NOTHING [] [] [] [] [] (VList []);
        Some (True, vm\<lparr>vm_activs := new_activation prog (pg_main_vector prog) env NOTHING (av_player ca)
          (av_progr ca) NOTHING [] ''Input to EVAL'' True # vm_activs vm\<rparr>) })"

section \<open>Built-in functions\<close>

type_synonym ('k, 'w) bf_result = "('k package \<times> ('k, 'w) vm) option"

text \<open>
  \<open>call_function()\<close> keeps the number of the function and its data while that function waits for a
  verb; \<open>wrap\<close> and \<open>unwrap\<close> store such a pair as data.
\<close>

definition bf_call_function ::
  "('k, 'w) server \<Rightarrow> (nat \<times> 'k option \<Rightarrow> 'k) \<Rightarrow> ('k \<Rightarrow> (nat \<times> 'k option) option) \<Rightarrow> ('k, 'w) bf" where
  "bf_call_function sv wrap unwrap arglist next_pc vdata progr vm =
     (if next_pc = 1 then (case arglist of
        VList (VStr fname # args) \<Rightarrow>
          let fnum = number_func_by_name sv fname in
          if fnum = FUNC_NOT_FOUND
          then Some (make_raise_pack E_INVARG ''Unknown built-in function'' (VStr fname), vm)
          else do {
            (p, vm) \<leftarrow> call_bi_func sv fnum (VList args) next_pc progr vdata vm;
            Some (case p of BI_CALL pc d \<Rightarrow> BI_CALL pc (Some (wrap (fnum, d))) | _ \<Rightarrow> p, vm) }
      | _ \<Rightarrow> None)
      else do {
        s \<leftarrow> vdata;
        (fnum, d) \<leftarrow> unwrap s;
        (p, vm) \<leftarrow> call_bi_func sv fnum arglist next_pc progr d vm;
        Some (case p of BI_CALL pc d \<Rightarrow> BI_CALL pc (Some (wrap (fnum, d))) | _ \<Rightarrow> p, vm) })"

text \<open>\<open>fmt_g\<close> prints doubles, in the message of a code that is not an error.\<close>

definition bf_raise :: "(64 word \<Rightarrow> string) \<Rightarrow> ('k, 'w) bf" where
  "bf_raise fmt_g arglist next_pc vdata progr vm = (case arglist of
     VList (code # rest) \<Rightarrow> do {
       msg \<leftarrow> (case rest of [] \<Rightarrow> value2str fmt_g code | VStr m # _ \<Rightarrow> Some m | _ \<Rightarrow> None);
       Some (BI_RAISE code msg (case rest of _ # v # _ \<Rightarrow> v | _ \<Rightarrow> VInt 0), vm) }
   | _ \<Rightarrow> None)"

definition bf_suspend :: "('k, 'w) bf" where
  "bf_suspend arglist next_pc vdata progr vm = (case arglist of
     VList [] \<Rightarrow> Some (make_suspend_pack (enqueue_suspended_task (-1)), vm)
   | VList [VInt s] \<Rightarrow> Some (if sint s < 0 then make_error_pack E_INVARG
       else make_suspend_pack (enqueue_suspended_task s), vm)
   | _ \<Rightarrow> None)"

definition bf_ticks_left :: "('k, 'w) bf" where
  "bf_ticks_left arglist next_pc vdata progr vm =
     Some (make_var_pack (VInt (word_of_int (vm_ticks vm))), vm)"

definition bf_pass :: "('k, 'w) server \<Rightarrow> ('k, 'w) bf" where
  "bf_pass sv arglist next_pc vdata progr vm = do {
     a \<leftarrow> run_activ vm;
     (e, vm) \<leftarrow> call_verb2 sv (av_this a) (av_verb a) arglist True vm;
     Some (if e = E_NONE then tail_call_pack else make_error_pack e, vm) }"

definition bf_set_task_perms :: "('k, 'w) bf" where
  "bf_set_task_perms arglist next_pc vdata progr vm = (case arglist of
     VList [VObj oid] \<Rightarrow>
       if progr \<noteq> oid \<and> \<not> is_wizard (vm_db vm) progr then Some (make_error_pack E_PERM, vm)
       else do {
         a \<leftarrow> run_activ vm;
         Some (no_var_pack, set_activ (a\<lparr>av_progr := oid\<rparr>) vm) }
   | _ \<Rightarrow> None)"

definition bf_caller_perms :: "('k, 'w) bf" where
  "bf_caller_perms arglist next_pc vdata progr vm =
     Some (make_var_pack (VObj (case caller_activ vm of Some a \<Rightarrow> av_progr a | None \<Rightarrow> NOTHING)), vm)"

definition bf_callers :: "('k, 'w) server \<Rightarrow> ('k, 'w) bf" where
  "bf_callers sv arglist next_pc vdata progr vm = (case arglist of
     VList args \<Rightarrow>
       Some (make_var_pack (make_stack_list sv vm 0 False (case args of v # _ \<Rightarrow> is_true v | [] \<Rightarrow> False)), vm)
   | _ \<Rightarrow> None)"

end
