(* ===== verification/Moo_Ast.thy ===== *)
theory Moo_Ast
  imports Moo_Structures
begin

text \<open>
  The abstract syntax of MOO programs: include/ast.h. A chain of nodes linked by \<open>next\<close> is a HOL
  list, so a null \<open>Arg_List *\<close>, \<open>Scatter *\<close> or \<open>Stmt *\<close> is \<open>[]\<close>; other pointers that may be null
  are options. The binary operators that the code generator treats alike are one constructor over
  an enumeration. An \<open>int id\<close> that is -1 when there is no variable is an \<open>int\<close>; an \<open>id\<close> that always
  is a variable slot is a \<open>nat\<close>. The fields \<open>label\<close> that the code generator uses for its own
  bookkeeping are results of its functions.
\<close>

datatype arg_kind = ARG_NORMAL | ARG_SPLICE

datatype scatter_kind = SCAT_REQUIRED | SCAT_OPTIONAL | SCAT_REST

datatype bin_kind =
    EXPR_PLUS | EXPR_MINUS | EXPR_TIMES | EXPR_DIVIDE | EXPR_MOD
  | EXPR_EQ | EXPR_NE | EXPR_LT | EXPR_LE | EXPR_GT | EXPR_GE | EXPR_IN

datatype expr =
    EXPR_VAR var
  | EXPR_ID nat
  | EXPR_PROP expr expr
  | EXPR_VERB expr expr "(arg_kind \<times> expr) list"
  | EXPR_INDEX expr expr
  | EXPR_RANGE expr expr expr
  | EXPR_ASGN expr expr
  | EXPR_CALL nat "(arg_kind \<times> expr) list"
  | EXPR_BIN bin_kind expr expr
  | EXPR_EXP expr expr
  | EXPR_NEGATE expr
  | EXPR_AND expr expr
  | EXPR_OR expr expr
  | EXPR_NOT expr
  | EXPR_LIST "(arg_kind \<times> expr) list"
  | EXPR_COND expr expr expr
  | EXPR_CATCH expr "(arg_kind \<times> expr) list" "expr option"
  | EXPR_LENGTH
  | EXPR_SCATTER "(scatter_kind \<times> nat \<times> expr option) list"

type_synonym arg_list = "(arg_kind \<times> expr) list"
type_synonym scatter = "scatter_kind \<times> nat \<times> expr option"

datatype stmt =
    STMT_COND "(expr \<times> stmt list) list" "stmt list"
  | STMT_LIST nat expr "stmt list"
  | STMT_RANGE nat expr expr "stmt list"
  | STMT_WHILE int expr "stmt list"
  | STMT_FORK int expr "stmt list"
  | STMT_EXPR expr
  | STMT_RETURN "expr option"
  | STMT_TRY_EXCEPT "stmt list" "(int \<times> arg_list \<times> stmt list) list"
  | STMT_TRY_FINALLY "stmt list" "stmt list"
  | STMT_BREAK int
  | STMT_CONTINUE int

end
