(* ===== verification/Code_Gen.thy ===== *)
theory Code_Gen
  imports Moo_Ast Moo_Opcode Moo_Utils Db_State
begin

text \<open>
  The code generator: src/src/code_gen.c. Code is emitted with one placeholder byte for every
  reference to a literal, a forked vector, a variable, a stack slot or a label; a fixup remembers
  what belongs there, and \<open>stmt_to_code\<close> replaces the placeholders by references of the size the
  whole program needs. \<open>struct state\<close> is the record \<open>gen\<close>, with the arrays as lists; the
  \<open>GState\<close> it points to is a field. A panic is \<open>None\<close>. \<open>saved_stack\<close> is \<open>None\<close> for \<open>UINT_MAX\<close>.
\<close>

section \<open>State\<close>

datatype fixup_kind = FIXUP_LITERAL | FIXUP_FORK | FIXUP_LABEL | FIXUP_VAR_REF | FIXUP_STACK

record fixup =
  fx_kind :: fixup_kind
  fx_pc :: nat
  fx_value :: nat
  fx_prev_literals :: nat
  fx_prev_forks :: nat
  fx_prev_var_refs :: nat
  fx_prev_labels :: nat
  fx_prev_stacks :: nat
  fx_next :: int

record gstate =
  total_var_refs :: nat
  gs_literals :: "var list"
  gs_fork_vectors :: "bytecodes list"

record loop =
  lp_id :: int
  lp_top_label :: fixup
  lp_top_stack :: int
  lp_bottom_label :: int
  lp_bottom_stack :: int

record gen =
  max_literal :: nat
  max_fork :: nat
  max_var_ref :: nat
  num_literals :: nat
  num_forks :: nat
  num_var_refs :: nat
  num_labels :: nat
  num_stacks :: nat
  fixups :: "fixup list"
  bytes :: "8 word list"
  cur_stack :: int
  max_stack :: int
  saved_stack :: "int option"
  loops :: "loop list"
  gs :: gstate

definition init_gstate :: gstate where
  "init_gstate = \<lparr>total_var_refs = 0, gs_literals = [], gs_fork_vectors = []\<rparr>"

definition init_state :: "gstate \<Rightarrow> gen" where
  "init_state g =
     \<lparr>max_literal = 0, max_fork = 0, max_var_ref = 0, num_literals = 0, num_forks = 0,
      num_var_refs = 0, num_labels = 0, num_stacks = 0, fixups = [], bytes = [], cur_stack = 0,
      max_stack = 0, saved_stack = None, loops = [], gs = g\<rparr>"

abbreviation num_bytes :: "gen \<Rightarrow> nat" where "num_bytes s \<equiv> length (bytes s)"

section \<open>Emitting\<close>

definition emit_byte :: "8 word \<Rightarrow> gen \<Rightarrow> gen" where
  "emit_byte b s = s\<lparr>bytes := bytes s @ [b]\<rparr>"

abbreviation emit_op :: "opcode \<Rightarrow> gen \<Rightarrow> gen" where "emit_op op \<equiv> emit_byte (op_byte op)"

definition emit_extended_byte :: "ext_opcode \<Rightarrow> gen \<Rightarrow> gen" where
  "emit_extended_byte b s = emit_byte (eop_byte b) (emit_op OP_EXTENDED s)"

definition add_known_fixup :: "fixup \<Rightarrow> gen \<Rightarrow> int \<times> gen" where
  "add_known_fixup f s =
     (int (length (fixups s)), emit_byte 0 (s\<lparr>fixups := fixups s @ [f\<lparr>fx_pc := num_bytes s\<rparr>]\<rparr>))"

definition add_linked_fixup :: "fixup_kind \<Rightarrow> nat \<Rightarrow> int \<Rightarrow> gen \<Rightarrow> int \<times> gen" where
  "add_linked_fixup k v nxt s = add_known_fixup
     \<lparr>fx_kind = k, fx_pc = 0, fx_value = v, fx_prev_literals = num_literals s,
      fx_prev_forks = num_forks s, fx_prev_var_refs = num_var_refs s,
      fx_prev_labels = num_labels s, fx_prev_stacks = num_stacks s, fx_next = nxt\<rparr> s"

definition add_fixup :: "fixup_kind \<Rightarrow> nat \<Rightarrow> gen \<Rightarrow> gen" where
  "add_fixup k v s = snd (add_linked_fixup k v (-1) s)"

text \<open>The index of an equal literal of the same type, or a new one; \<open>None\<close> is a panic in \<open>equality\<close>.\<close>

fun find_literal :: "var \<Rightarrow> nat \<Rightarrow> var list \<Rightarrow> nat option" where
  "find_literal v i [] = Some i"
| "find_literal v i (l # ls) =
     (if var_type v = var_type l then do {
        same \<leftarrow> equality v l True;
        if same then Some i else find_literal v (i + 1) ls }
      else find_literal v (i + 1) ls)"

definition add_literal :: "var \<Rightarrow> gen \<Rightarrow> gen option" where
  "add_literal v s = do {
     i \<leftarrow> find_literal v 0 (gs_literals (gs s));
     let s1 = (if i = length (gs_literals (gs s))
       then s\<lparr>gs := (gs s)\<lparr>gs_literals := gs_literals (gs s) @ [v]\<rparr>\<rparr> else s);
     let s2 = add_fixup FIXUP_LITERAL i s1;
     Some (s2\<lparr>num_literals := num_literals s2 + 1,
       max_literal := (if i > max_literal s2 then i else max_literal s2)\<rparr>) }"

definition add_fork :: "bytecodes \<Rightarrow> gen \<Rightarrow> gen" where
  "add_fork b s =
     (let i = length (gs_fork_vectors (gs s));
          s1 = s\<lparr>gs := (gs s)\<lparr>gs_fork_vectors := gs_fork_vectors (gs s) @ [b]\<rparr>\<rparr>;
          s2 = add_fixup FIXUP_FORK i s1
      in s2\<lparr>num_forks := num_forks s2 + 1, max_fork := (if i > max_fork s2 then i else max_fork s2)\<rparr>)"

definition add_var_ref :: "nat \<Rightarrow> gen \<Rightarrow> gen" where
  "add_var_ref slot s =
     (let s1 = add_fixup FIXUP_VAR_REF slot s
      in s1\<lparr>num_var_refs := num_var_refs s1 + 1,
            max_var_ref := (if slot > max_var_ref s1 then slot else max_var_ref s1),
            gs := (gs s1)\<lparr>total_var_refs := total_var_refs (gs s1) + 1\<rparr>\<rparr>)"

definition add_linked_label :: "int \<Rightarrow> gen \<Rightarrow> int \<times> gen" where
  "add_linked_label nxt s =
     (let (label, s1) = add_linked_fixup FIXUP_LABEL 0 nxt s
      in (label, s1\<lparr>num_labels := num_labels s1 + 1\<rparr>))"

definition add_label :: "gen \<Rightarrow> int \<times> gen" where
  "add_label s = add_linked_label (-1) s"

definition add_known_label :: "fixup \<Rightarrow> gen \<Rightarrow> int \<times> gen" where
  "add_known_label f s =
     (let (label, s1) = add_known_fixup f s in (label, s1\<lparr>num_labels := num_labels s1 + 1\<rparr>))"

definition add_pseudo_label :: "nat \<Rightarrow> gen \<Rightarrow> gen" where
  "add_pseudo_label v s =
     (let (_, s1) = add_known_fixup
        \<lparr>fx_kind = FIXUP_LABEL, fx_pc = 0, fx_value = v, fx_prev_literals = 0, fx_prev_forks = 0,
         fx_prev_var_refs = 0, fx_prev_labels = 0, fx_prev_stacks = 0, fx_next = -1\<rparr> s
      in s1\<lparr>num_labels := num_labels s1 + 1\<rparr>)"

definition capture_label :: "gen \<Rightarrow> fixup" where
  "capture_label s =
     \<lparr>fx_kind = FIXUP_LABEL, fx_pc = 0, fx_value = num_bytes s, fx_prev_literals = num_literals s,
      fx_prev_forks = num_forks s, fx_prev_var_refs = num_var_refs s,
      fx_prev_labels = num_labels s, fx_prev_stacks = num_stacks s, fx_next = -1\<rparr>"

text \<open>
  \<open>define_label\<close> follows the chain of \<open>next\<close>. A chain with more links than there are fixups goes
  round a cycle for ever.
\<close>

definition set_label :: "gen \<Rightarrow> fixup \<Rightarrow> fixup" where
  "set_label s f = f\<lparr>fx_value := num_bytes s, fx_prev_literals := num_literals s,
     fx_prev_forks := num_forks s, fx_prev_var_refs := num_var_refs s,
     fx_prev_labels := num_labels s, fx_prev_stacks := num_stacks s\<rparr>"

fun define_chain :: "nat \<Rightarrow> int \<Rightarrow> gen \<Rightarrow> fixup list \<Rightarrow> fixup list option" where
  "define_chain n label s fs =
     (if label = -1 then Some fs
      else case n of 0 \<Rightarrow> None
      | Suc m \<Rightarrow> do {
          f \<leftarrow> nth_opt fs label;
          fs1 \<leftarrow> upd_opt fs label (set_label s f);
          define_chain m (fx_next f) s fs1 })"

declare define_chain.simps [simp del]

definition define_label :: "int \<Rightarrow> gen \<Rightarrow> gen option" where
  "define_label label s =
     map_option (\<lambda>fs. s\<lparr>fixups := fs\<rparr>) (define_chain (length (fixups s)) label s (fixups s))"

definition add_stack_ref :: "int \<Rightarrow> gen \<Rightarrow> gen" where
  "add_stack_ref index s = add_fixup FIXUP_STACK (nat index) s"

section \<open>Tracking the run-time stack and the loops\<close>

definition push_stack :: "int \<Rightarrow> gen \<Rightarrow> gen" where
  "push_stack n s = s\<lparr>cur_stack := cur_stack s + n,
     max_stack := (if cur_stack s + n > max_stack s then cur_stack s + n else max_stack s)\<rparr>"

definition pop_stack :: "int \<Rightarrow> gen \<Rightarrow> gen" where
  "pop_stack n s = s\<lparr>cur_stack := cur_stack s - n\<rparr>"

definition save_stack_top :: "gen \<Rightarrow> int option \<times> gen" where
  "save_stack_top s = (saved_stack s, s\<lparr>saved_stack := Some (cur_stack s - 1)\<rparr>)"

definition restore_stack_top :: "int option \<Rightarrow> gen \<Rightarrow> gen" where
  "restore_stack_top old s = s\<lparr>saved_stack := old\<rparr>"

definition enter_loop :: "int \<Rightarrow> fixup \<Rightarrow> int \<Rightarrow> int \<Rightarrow> int \<Rightarrow> gen \<Rightarrow> gen" where
  "enter_loop i topl tstack bottom bstack s = s\<lparr>loops := loops s @
     [\<lparr>lp_id = i, lp_top_label = topl, lp_top_stack = tstack, lp_bottom_label = bottom,
       lp_bottom_stack = bstack\<rparr>]\<rparr>"

definition exit_loop :: "gen \<Rightarrow> (int \<times> gen) option" where
  "exit_loop s = (if loops s = [] then None
     else Some (lp_bottom_label (last (loops s)), s\<lparr>loops := butlast (loops s)\<rparr>))"

text \<open>A variable operation: \<open>op\<close> is the family \<open>OP_PUT\<close> or \<open>OP_PUSH\<close>, \<open>gop\<close> its general form.\<close>

definition emit_var_op :: "(nat \<Rightarrow> opcode) \<Rightarrow> opcode \<Rightarrow> nat \<Rightarrow> gen \<Rightarrow> gen" where
  "emit_var_op op gop slot s =
     (if slot \<ge> NUM_READY_VARS then add_var_ref slot (emit_op gop s) else emit_op (op slot) s)"

abbreviation emit_put :: "nat \<Rightarrow> gen \<Rightarrow> gen" where "emit_put \<equiv> emit_var_op OP_PUT OP_G_PUT"
abbreviation emit_push :: "nat \<Rightarrow> gen \<Rightarrow> gen" where "emit_push \<equiv> emit_var_op OP_PUSH OP_G_PUSH"

section \<open>Expressions\<close>

fun bin_op :: "bin_kind \<Rightarrow> opcode" where
  "bin_op EXPR_PLUS = OP_ADD" | "bin_op EXPR_MINUS = OP_MINUS" | "bin_op EXPR_TIMES = OP_MULT"
| "bin_op EXPR_DIVIDE = OP_DIV" | "bin_op EXPR_MOD = OP_MOD" | "bin_op EXPR_EQ = OP_EQ"
| "bin_op EXPR_NE = OP_NE" | "bin_op EXPR_LT = OP_LT" | "bin_op EXPR_LE = OP_LE"
| "bin_op EXPR_GT = OP_GT" | "bin_op EXPR_GE = OP_GE" | "bin_op EXPR_IN = OP_IN"

text \<open>The stores of an assignment, from the innermost index outwards.\<close>

fun assign_loop :: "expr \<Rightarrow> bool \<Rightarrow> gen \<Rightarrow> (bool \<times> gen) option" where
  "assign_loop (EXPR_RANGE base _ _) ix s =
     assign_loop base True (pop_stack 3 (emit_extended_byte EOP_RANGESET s))"
| "assign_loop (EXPR_INDEX base _) ix s =
     assign_loop base True (pop_stack 2 (emit_op OP_INDEXSET s))"
| "assign_loop (EXPR_ID slot) ix s = Some (ix, emit_put slot s)"
| "assign_loop (EXPR_PROP _ _) ix s = Some (ix, pop_stack 2 (emit_op OP_PUT_PROP s))"
| "assign_loop _ ix s = None"

text \<open>The operands of a scattering assignment; the labels are those of the default expressions.\<close>

fun scatter_refs :: "scatter list \<Rightarrow> gen \<Rightarrow> int list \<times> gen" where
  "scatter_refs [] s = ([], s)"
| "scatter_refs ((kind, slot, e) # sc) s =
     (let s1 = add_var_ref slot s in
      if kind \<noteq> SCAT_OPTIONAL then scatter_refs sc (add_pseudo_label 0 s1)
      else if e = None then scatter_refs sc (add_pseudo_label 1 s1)
      else let (label, s2) = add_label s1; (ls, s3) = scatter_refs sc s2 in (label # ls, s3))"

definition scatter_nreq :: "scatter list \<Rightarrow> nat" where
  "scatter_nreq sc = length (filter (\<lambda>(kind, _, _). kind = SCAT_REQUIRED) sc)"

fun scatter_rest :: "scatter list \<Rightarrow> nat \<Rightarrow> int \<Rightarrow> int" where
  "scatter_rest [] nargs rest = (if rest = -1 then int nargs + 1 else rest)"
| "scatter_rest ((kind, _, _) # sc) nargs rest =
     scatter_rest sc (nargs + 1) (if kind = SCAT_REST then int nargs + 1 else rest)"

fun is_indexed_lvalue :: "expr \<Rightarrow> bool" where
  "is_indexed_lvalue (EXPR_RANGE _ _ _) = True" | "is_indexed_lvalue (EXPR_INDEX _ _) = True"
| "is_indexed_lvalue _ = False"

function (sequential) generate_expr :: "expr \<Rightarrow> gen \<Rightarrow> gen option"
  and generate_arg_list :: "arg_list \<Rightarrow> gen \<Rightarrow> gen option"
  and generate_codes :: "arg_list \<Rightarrow> gen \<Rightarrow> gen option"
  and generate_args :: "bool \<Rightarrow> arg_list \<Rightarrow> gen \<Rightarrow> gen option"
  and push_lvalue :: "expr \<Rightarrow> bool \<Rightarrow> gen \<Rightarrow> gen option"
  and scatter_defaults :: "scatter list \<Rightarrow> int list \<Rightarrow> gen \<Rightarrow> gen option" where
  "generate_expr (EXPR_VAR v) s =
     (case v of
        VInt n \<Rightarrow> if IN_OPTIM_NUM_RANGE (sint n)
          then Some (push_stack 1 (emit_op (OPTIM_NUM_TO_OPCODE (sint n)) s))
          else map_option (push_stack 1) (add_literal v (emit_op OP_IMM s))
      | _ \<Rightarrow> map_option (push_stack 1) (add_literal v (emit_op OP_IMM s)))"
| "generate_expr (EXPR_ID slot) s = Some (push_stack 1 (emit_push slot s))"
| "generate_expr (EXPR_AND l r) s = do {
     s \<leftarrow> generate_expr l s;
     let (end_label, s) = add_label (emit_op OP_AND s);
     s \<leftarrow> generate_expr r (pop_stack 1 s);
     define_label end_label s }"
| "generate_expr (EXPR_OR l r) s = do {
     s \<leftarrow> generate_expr l s;
     let (end_label, s) = add_label (emit_op OP_OR s);
     s \<leftarrow> generate_expr r (pop_stack 1 s);
     define_label end_label s }"
| "generate_expr (EXPR_NEGATE e) s = map_option (emit_op OP_UNARY_MINUS) (generate_expr e s)"
| "generate_expr (EXPR_NOT e) s = map_option (emit_op OP_NOT) (generate_expr e s)"
| "generate_expr (EXPR_BIN k l r) s = do {
     s \<leftarrow> generate_expr l s;
     s \<leftarrow> generate_expr r s;
     Some (pop_stack 1 (emit_op (bin_op k) s)) }"
| "generate_expr (EXPR_PROP l r) s = do {
     s \<leftarrow> generate_expr l s;
     s \<leftarrow> generate_expr r s;
     Some (pop_stack 1 (emit_op OP_GET_PROP s)) }"
| "generate_expr (EXPR_EXP l r) s = do {
     s \<leftarrow> generate_expr l s;
     s \<leftarrow> generate_expr r s;
     Some (pop_stack 1 (emit_extended_byte EOP_EXP s)) }"
| "generate_expr (EXPR_INDEX l r) s = do {
     s \<leftarrow> generate_expr l s;
     let (old, s) = save_stack_top s;
     s \<leftarrow> generate_expr r s;
     Some (pop_stack 1 (emit_op OP_REF (restore_stack_top old s))) }"
| "generate_expr (EXPR_RANGE base from to) s = do {
     s \<leftarrow> generate_expr base s;
     let (old, s) = save_stack_top s;
     s \<leftarrow> generate_expr from s;
     s \<leftarrow> generate_expr to s;
     Some (pop_stack 2 (emit_op OP_RANGE_REF (restore_stack_top old s))) }"
| "generate_expr EXPR_LENGTH s =
     (case saved_stack s of None \<Rightarrow> None
      | Some saved \<Rightarrow> Some (push_stack 1 (add_stack_ref saved (emit_extended_byte EOP_LENGTH s))))"
| "generate_expr (EXPR_LIST args) s = generate_arg_list args s"
| "generate_expr (EXPR_CALL func args) s = do {
     s \<leftarrow> generate_arg_list args s;
     Some (emit_byte (word_of_nat func) (emit_op OP_BI_FUNC_CALL s)) }"
| "generate_expr (EXPR_VERB obj vrb args) s = do {
     s \<leftarrow> generate_expr obj s;
     s \<leftarrow> generate_expr vrb s;
     s \<leftarrow> generate_arg_list args s;
     Some (pop_stack 2 (emit_op OP_CALL_VERB s)) }"
| "generate_expr (EXPR_COND c t e) s = do {
     s \<leftarrow> generate_expr c s;
     let (else_label, s) = add_label (emit_op OP_IF_QUES s);
     s \<leftarrow> generate_expr t (pop_stack 1 s);
     let (end_label, s) = add_label (emit_op OP_JUMP s);
     s \<leftarrow> define_label else_label (pop_stack 1 s);
     s \<leftarrow> generate_expr e s;
     define_label end_label s }"
| "generate_expr (EXPR_ASGN lhs r) s =
     (case lhs of
        EXPR_SCATTER sc \<Rightarrow> do {
          s \<leftarrow> generate_expr r s;
          let s = emit_byte (word_of_int (scatter_rest sc 0 (-1)))
            (emit_byte (word_of_nat (scatter_nreq sc))
              (emit_byte (word_of_nat (length sc)) (emit_extended_byte EOP_SCATTER s)));
          let (labels, s) = scatter_refs sc s;
          let (done_label, s) = add_label s;
          s \<leftarrow> scatter_defaults sc labels s;
          define_label done_label s }
      | _ \<Rightarrow> do {
          s \<leftarrow> push_lvalue lhs False s;
          s \<leftarrow> generate_expr r s;
          let s = (if is_indexed_lvalue lhs then emit_op OP_PUT_TEMP s else s);
          (ix, s) \<leftarrow> assign_loop lhs False s;
          Some (if ix then emit_op OP_PUSH_TEMP (emit_op OP_POP s) else s) })"
| "generate_expr (EXPR_CATCH e codes exc) s = do {
     s \<leftarrow> generate_codes codes s;
     let (handler_label, s) = add_label (emit_extended_byte EOP_PUSH_LABEL s);
     let s = push_stack 1 (emit_extended_byte EOP_CATCH (push_stack 1 s));
     s \<leftarrow> generate_expr e s;
     let (end_label, s) = add_label (emit_extended_byte EOP_END_CATCH s);
     s \<leftarrow> define_label handler_label (pop_stack 3 s);
     s \<leftarrow> (case exc of
             Some x \<Rightarrow> generate_expr x (pop_stack 1 (emit_op OP_POP s))
           | None \<Rightarrow> Some (emit_op OP_REF (emit_op (OPTIM_NUM_TO_OPCODE 1) s)));
     define_label end_label s }"
| "generate_expr (EXPR_SCATTER sc) s = None"
| "generate_arg_list args s =
     (if args = [] then Some (push_stack 1 (emit_op OP_MAKE_EMPTY_LIST s))
      else generate_args True args s)"
| "generate_codes codes s =
     (if codes = [] then Some (push_stack 1 (emit_op (OPTIM_NUM_TO_OPCODE 0) s))
      else generate_arg_list codes s)"
| "generate_args first_arg [] s = Some s"
| "generate_args first_arg ((k, e) # args) s = do {
     s \<leftarrow> generate_expr e s;
     let s = emit_op
       (if k = ARG_NORMAL then (if first_arg then OP_MAKE_SINGLETON_LIST else OP_LIST_ADD_TAIL)
        else (if first_arg then OP_CHECK_LIST_FOR_SPLICE else OP_LIST_APPEND)) s;
     generate_args False args (pop_stack (if first_arg then 0 else 1) s) }"
| "push_lvalue lhs ixd s =
     (case lhs of
        EXPR_RANGE base from to \<Rightarrow> do {
          s \<leftarrow> push_lvalue base True s;
          let (old, s) = save_stack_top s;
          s \<leftarrow> generate_expr from s;
          s \<leftarrow> generate_expr to s;
          Some (restore_stack_top old s) }
      | EXPR_INDEX base ix \<Rightarrow> do {
          s \<leftarrow> push_lvalue base True s;
          let (old, s) = save_stack_top s;
          s \<leftarrow> generate_expr ix s;
          let s = restore_stack_top old s;
          Some (if ixd then push_stack 1 (emit_op OP_PUSH_REF s) else s) }
      | EXPR_ID slot \<Rightarrow> Some (if ixd then push_stack 1 (emit_push slot s) else s)
      | EXPR_PROP l r \<Rightarrow> do {
          s \<leftarrow> generate_expr l s;
          s \<leftarrow> generate_expr r s;
          Some (if ixd then push_stack 1 (emit_op OP_PUSH_GET_PROP s) else s) }
      | _ \<Rightarrow> None)"
| "scatter_defaults [] labels s = Some s"
| "scatter_defaults ((kind, slot, e) # sc) labels s =
     (case e of
        Some x \<Rightarrow>
          if kind = SCAT_OPTIONAL then (case labels of
              [] \<Rightarrow> None
            | label # labels' \<Rightarrow> do {
                s \<leftarrow> define_label label s;
                s \<leftarrow> generate_expr x s;
                scatter_defaults sc labels' (pop_stack 1 (emit_op OP_POP (emit_put slot s))) })
          else scatter_defaults sc labels s
      | None \<Rightarrow> scatter_defaults sc labels s)"
  by pat_completeness auto
termination
  by (relation "measure (case_sum
        (case_sum (\<lambda>(e, _). 3 * size e)
          (case_sum (\<lambda>(args, _). 3 * size_list (size_prod (\<lambda>_. 0) size) args + 1)
            (\<lambda>(args, _). 3 * size_list (size_prod (\<lambda>_. 0) size) args + 2)))
        (case_sum (\<lambda>(_, args, _). 3 * size_list (size_prod (\<lambda>_. 0) size) args)
          (case_sum (\<lambda>(e, _). 3 * size e)
            (\<lambda>(sc, _). 3 * size_list (size_prod (\<lambda>_. 0) (size_prod (\<lambda>_. 0) (size_option size))) sc))))")
    simp_all

section \<open>Linking\<close>

definition ref_size :: "nat \<Rightarrow> nat" where
  "ref_size n = (if n \<le> 256 then 1 else if n \<le> 256 * 256 then 2 else 4)"

text \<open>The bytes of a reference, most significant first.\<close>

definition ref_bytes :: "nat \<Rightarrow> nat \<Rightarrow> 8 word list option" where
  "ref_bytes nb v =
     (if nb = 4 then Some [word_of_nat (v div 2 ^ 24), word_of_nat (v div 2 ^ 16),
        word_of_nat (v div 2 ^ 8), word_of_nat v]
      else if nb = 2 then Some [word_of_nat (v div 2 ^ 8), word_of_nat v]
      else if nb = 1 then Some [word_of_nat v] else None)"

fun kind_size :: "bytecodes \<Rightarrow> fixup_kind \<Rightarrow> nat" where
  "kind_size bc FIXUP_LITERAL = bc_numbytes_literal bc"
| "kind_size bc FIXUP_FORK = bc_numbytes_fork bc"
| "kind_size bc FIXUP_VAR_REF = bc_numbytes_var_name bc"
| "kind_size bc FIXUP_STACK = bc_numbytes_stack bc"
| "kind_size bc FIXUP_LABEL = bc_numbytes_label bc"

definition fixup_value :: "bytecodes \<Rightarrow> fixup \<Rightarrow> nat" where
  "fixup_value bc f =
     (if fx_kind f = FIXUP_LABEL
      then fx_value f + fx_prev_literals f * (bc_numbytes_literal bc - 1)
        + fx_prev_forks f * (bc_numbytes_fork bc - 1)
        + fx_prev_var_refs f * (bc_numbytes_var_name bc - 1)
        + fx_prev_labels f * (bc_numbytes_label bc - 1)
        + fx_prev_stacks f * (bc_numbytes_stack bc - 1)
      else fx_value f)"

text \<open>
  The loop that copies the bytes and replaces the placeholders: \<open>old_i\<close> and the rest of the bytes
  and of the fixups.
\<close>

fun link_loop :: "bytecodes \<Rightarrow> nat \<Rightarrow> 8 word list \<Rightarrow> fixup list \<Rightarrow> 8 word list option" where
  "link_loop bc old_i [] fs = Some []"
| "link_loop bc old_i (b # bs) fs =
     (case fs of
        [] \<Rightarrow> map_option ((#) b) (link_loop bc (old_i + 1) bs [])
      | f # fs' \<Rightarrow>
          if fx_pc f = old_i then do {
            ref \<leftarrow> ref_bytes (kind_size bc (fx_kind f)) (fixup_value bc f);
            rest \<leftarrow> link_loop bc (old_i + 1) bs fs';
            Some (ref @ rest) }
          else map_option ((#) b) (link_loop bc (old_i + 1) bs fs))"

text \<open>The sizes of the references, and the size of the vector that is allocated.\<close>

definition code_sizes :: "gen \<Rightarrow> bytecodes \<times> nat" where
  "code_sizes s =
     (let lit = ref_size (max (max_literal s) (length (gs_literals (gs s))));
          frk = ref_size (max (max_fork s) (length (gs_fork_vectors (gs s))));
          var = ref_size (max (max_var_ref s) (total_var_refs (gs s)));
          total = num_bytes s + (lit - 1) * num_literals s + (frk - 1) * num_forks s
            + (var - 1) * num_var_refs s;
          lab = (if total \<le> 256 then 1 else if total + num_labels s \<le> 256 * 256 then 2 else 4);
          total = total + (lab - 1) * num_labels s
      in (\<lparr>bc_numbytes_label = lab, bc_numbytes_literal = lit, bc_numbytes_fork = frk,
           bc_numbytes_var_name = var, bc_numbytes_stack = ref_size (nat (max_stack s)),
           bc_vector = [], bc_max_stack = nat (max_stack s)\<rparr>, total))"

text \<open>
  \<open>None\<close>: the panics, and a run that writes more bytes than were allocated, or fewer, which leaves
  bytes that nothing has written.
\<close>

definition link_code :: "gen \<Rightarrow> bytecodes option" where
  "link_code s =
     (if cur_stack s \<noteq> 0 \<or> saved_stack s \<noteq> None then None
      else let (bc, total) = code_sizes s in do {
        v \<leftarrow> link_loop bc 0 (bytes s) (fixups s);
        if length v = total then Some (bc\<lparr>bc_vector := v\<rparr>) else None })"

section \<open>Statements\<close>

definition exited_loop :: "int \<Rightarrow> gen \<Rightarrow> nat option" where
  "exited_loop ex s =
     (if ex = -1 then (if loops s = [] then None else Some (length (loops s) - 1))
      else map_option (\<lambda>i. length (loops s) - 1 - i) (index_of (\<lambda>l. lp_id l = ex) (rev (loops s))))"

text \<open>\<open>STMT_BREAK\<close> and \<open>STMT_CONTINUE\<close>.\<close>

definition generate_exit :: "bool \<Rightarrow> int \<Rightarrow> gen \<Rightarrow> gen option" where
  "generate_exit cont ex s = do {
     let s = (if ex = -1 then emit_extended_byte EOP_EXIT s
              else add_var_ref (nat ex) (emit_extended_byte EOP_EXIT_ID s));
     i \<leftarrow> exited_loop ex s;
     let loop = loops s ! i;
     if cont then Some (snd (add_known_label (lp_top_label loop) (add_stack_ref (lp_top_stack loop) s)))
     else do {
       let (label, s) = add_linked_label (lp_bottom_label loop) (add_stack_ref (lp_bottom_stack loop) s);
       Some (s\<lparr>loops := (loops s)[i := loop\<lparr>lp_bottom_label := label\<rparr>]\<rparr>) } }"

text \<open>The code that pushes the codes and the label of every \<open>except\<close> arm.\<close>

fun generate_excepts :: "(int \<times> arg_list \<times> stmt list) list \<Rightarrow> gen \<Rightarrow> (int list \<times> gen) option" where
  "generate_excepts [] s = Some ([], s)"
| "generate_excepts ((slot, codes, body) # arms) s = do {
     s \<leftarrow> generate_codes codes s;
     let (label, s) = add_label (emit_extended_byte EOP_PUSH_LABEL s);
     (labels, s) \<leftarrow> generate_excepts arms (push_stack 1 s);
     Some (label # labels, s) }"

function (sequential) generate_stmts :: "stmt list \<Rightarrow> gen \<Rightarrow> gen option"
  and generate_stmt :: "stmt \<Rightarrow> gen \<Rightarrow> gen option"
  and generate_arms :: "bool \<Rightarrow> int \<Rightarrow> (expr \<times> stmt list) list \<Rightarrow> gen \<Rightarrow> (int \<times> gen) option"
  and generate_handlers ::
    "(int \<times> arg_list \<times> stmt list) list \<Rightarrow> int list \<Rightarrow> int \<Rightarrow> gen \<Rightarrow> (int \<times> gen) option" where
  "generate_stmts [] s = Some s"
| "generate_stmts (st # sts) s = do { s \<leftarrow> generate_stmt st s; generate_stmts sts s }"
| "generate_stmt (STMT_COND arms otherwise) s = do {
     (end_label, s) \<leftarrow> generate_arms True (-1) arms s;
     s \<leftarrow> generate_stmts otherwise s;
     define_label end_label s }"
| "generate_stmt (STMT_LIST slot e body) s = do {
     s \<leftarrow> generate_expr e s;
     let s = push_stack 1 (emit_op (OPTIM_NUM_TO_OPCODE 1) s);
     let loop_top = capture_label s;
     let (end_label, s) = add_label (add_var_ref slot (emit_op OP_FOR_LIST s));
     s \<leftarrow> generate_stmts body
       (enter_loop (int slot) loop_top (cur_stack s) end_label (cur_stack s - 2) s);
     (end_label, s) \<leftarrow> exit_loop s;
     let s = snd (add_known_label loop_top (emit_op OP_JUMP s));
     s \<leftarrow> define_label end_label s;
     Some (pop_stack 2 s) }"
| "generate_stmt (STMT_RANGE slot from to body) s = do {
     s \<leftarrow> generate_expr from s;
     s \<leftarrow> generate_expr to s;
     let loop_top = capture_label s;
     let (end_label, s) = add_label (add_var_ref slot (emit_op OP_FOR_RANGE s));
     s \<leftarrow> generate_stmts body
       (enter_loop (int slot) loop_top (cur_stack s) end_label (cur_stack s - 2) s);
     (end_label, s) \<leftarrow> exit_loop s;
     let s = snd (add_known_label loop_top (emit_op OP_JUMP s));
     s \<leftarrow> define_label end_label s;
     Some (pop_stack 2 s) }"
| "generate_stmt (STMT_WHILE slot c body) s = do {
     let loop_top = capture_label s;
     s \<leftarrow> generate_expr c s;
     let s = (if slot = -1 then emit_op OP_WHILE s
              else add_var_ref (nat slot) (emit_extended_byte EOP_WHILE_ID s));
     let (end_label, s) = add_label s;
     let s = pop_stack 1 s;
     s \<leftarrow> generate_stmts body (enter_loop slot loop_top (cur_stack s) end_label (cur_stack s) s);
     (end_label, s) \<leftarrow> exit_loop s;
     let s = snd (add_known_label loop_top (emit_op OP_JUMP s));
     define_label end_label s }"
| "generate_stmt (STMT_FORK slot time body) s = do {
     s \<leftarrow> generate_expr time s;
     let s = emit_op (if slot \<ge> 0 then OP_FORK_WITH_ID else OP_FORK) s;
     sub \<leftarrow> generate_stmts body (init_state (gs s));
     let sub = emit_op OP_DONE sub;
     bc \<leftarrow> link_code sub;
     let s = add_fork bc (s\<lparr>gs := gs sub\<rparr>);
     let s = (if slot \<ge> 0 then add_var_ref (nat slot) s else s);
     Some (pop_stack 1 s) }"
| "generate_stmt (STMT_EXPR e) s = map_option (pop_stack 1 \<circ> emit_op OP_POP) (generate_expr e s)"
| "generate_stmt (STMT_RETURN e) s =
     (case e of Some x \<Rightarrow> map_option (pop_stack 1 \<circ> emit_op OP_RETURN) (generate_expr x s)
      | None \<Rightarrow> Some (emit_op OP_RETURN0 s))"
| "generate_stmt (STMT_TRY_EXCEPT body excepts) s = do {
     (labels, s) \<leftarrow> generate_excepts excepts s;
     let s = push_stack 1 (emit_byte (word_of_nat (length excepts))
       (emit_extended_byte EOP_TRY_EXCEPT s));
     s \<leftarrow> generate_stmts body s;
     let (end_label, s) = add_label (emit_extended_byte EOP_END_EXCEPT s);
     let s = pop_stack (2 * int (length excepts) + 1) s;
     (end_label, s) \<leftarrow> generate_handlers excepts labels end_label s;
     define_label end_label s }"
| "generate_stmt (STMT_TRY_FINALLY body handler) s = do {
     let (handler_label, s) = add_label (emit_extended_byte EOP_TRY_FINALLY s);
     s \<leftarrow> generate_stmts body (push_stack 1 s);
     s \<leftarrow> define_label handler_label (pop_stack 1 (emit_extended_byte EOP_END_FINALLY s));
     s \<leftarrow> generate_stmts handler (push_stack 2 s);
     Some (pop_stack 2 (emit_extended_byte EOP_CONTINUE s)) }"
| "generate_stmt (STMT_BREAK ex) s = generate_exit False ex s"
| "generate_stmt (STMT_CONTINUE ex) s = generate_exit True ex s"
| "generate_arms first_arm end_label [] s = Some (end_label, s)"
| "generate_arms first_arm end_label ((c, body) # arms) s = do {
     s \<leftarrow> generate_expr c s;
     let (else_label, s) = add_label (emit_op (if first_arm then OP_IF else OP_EIF) s);
     s \<leftarrow> generate_stmts body (pop_stack 1 s);
     let (end_label, s) = add_linked_label end_label (emit_op OP_JUMP s);
     s \<leftarrow> define_label else_label s;
     generate_arms False end_label arms s }"
| "generate_handlers [] labels end_label s = Some (end_label, s)"
| "generate_handlers ((slot, codes, body) # arms) labels end_label s =
     (case labels of [] \<Rightarrow> None
      | label # labels' \<Rightarrow> do {
          s \<leftarrow> define_label label s;
          let s = push_stack 1 s;
          let s = (if slot \<ge> 0 then emit_put (nat slot) s else s);
          s \<leftarrow> generate_stmts body (pop_stack 1 (emit_op OP_POP s));
          if arms = [] then Some (end_label, s)
          else do {
            let (end_label, s) = add_linked_label end_label (emit_op OP_JUMP s);
            generate_handlers arms labels' end_label s } })"
  by pat_completeness auto
termination
  by (relation "measure (case_sum
        (case_sum (\<lambda>(sts, _). size_list size sts) (\<lambda>(st, _). size st))
        (case_sum (\<lambda>(_, _, arms, _). size_list (size_prod (\<lambda>_. 0) (size_list size)) arms)
          (\<lambda>(arms, _). size_list (size_prod (\<lambda>_. 0) (size_prod (\<lambda>_. 0) (size_list size))) arms)))")
    simp_all

definition stmt_to_code :: "stmt list \<Rightarrow> gstate \<Rightarrow> (bytecodes \<times> gstate) option" where
  "stmt_to_code sts g = do {
     s \<leftarrow> generate_stmts sts (init_state g);
     let s = emit_op OP_DONE s;
     bc \<leftarrow> link_code s;
     Some (bc, gs s) }"

definition generate_code :: "stmt list \<Rightarrow> nat \<Rightarrow> program option" where
  "generate_code sts version = do {
     (bc, g) \<leftarrow> stmt_to_code sts init_gstate;
     Some \<lparr>pg_version = version, pg_first_lineno = 1, pg_main_vector = bc,
       pg_literals = gs_literals g, pg_fork_vectors = gs_fork_vectors g, pg_var_names = []\<rparr> }"

end
