(* ===== verification/Code_Gen_Laws.thy ===== *)
theory Code_Gen_Laws
  imports Code_Gen
begin

text \<open>
  What the code generator guarantees. The bytes and fixups of a state are read as a sequence of
  items, an item being a byte of code or a reference. \<open>gen_inv\<close> is the invariant of the state while
  code is generated: the fixups are in order, the counters are right, and every label that is not
  still pending knows how many references lie before its target.
\<close>

section \<open>Items\<close>

datatype item = Byte "8 word" | Ref fixup_kind nat

definition fx_item :: "fixup \<Rightarrow> item" where
  "fx_item f = Ref (fx_kind f) (fx_value f)"

definition fx_at :: "gen \<Rightarrow> nat \<Rightarrow> fixup option" where
  "fx_at s i = map_of (map (\<lambda>f. (fx_pc f, f)) (fixups s)) i"

definition item_at :: "gen \<Rightarrow> nat \<Rightarrow> item" where
  "item_at s i = (case fx_at s i of Some f \<Rightarrow> fx_item f | None \<Rightarrow> Byte (bytes s ! i))"

definition cnt :: "fixup_kind \<Rightarrow> fixup list \<Rightarrow> nat \<Rightarrow> nat" where
  "cnt k fs n = length (filter (\<lambda>f. fx_kind f = k \<and> fx_pc f < n) fs)"

section \<open>The invariant\<close>

definition label_ok :: "gen \<Rightarrow> fixup \<Rightarrow> bool" where
  "label_ok s f \<longleftrightarrow> fx_value f \<le> num_bytes s \<and>
     fx_prev_literals f = cnt FIXUP_LITERAL (fixups s) (fx_value f) \<and>
     fx_prev_forks f = cnt FIXUP_FORK (fixups s) (fx_value f) \<and>
     fx_prev_var_refs f = cnt FIXUP_VAR_REF (fixups s) (fx_value f) \<and>
     fx_prev_labels f = cnt FIXUP_LABEL (fixups s) (fx_value f) \<and> fx_prev_stacks f = 0"

definition order_ok :: "gen \<Rightarrow> bool" where
  "order_ok s \<longleftrightarrow> sorted_wrt (<) (map fx_pc (fixups s)) \<and>
     (\<forall>f \<in> set (fixups s). 0 < fx_pc f \<and> fx_pc f < num_bytes s)"

definition counts_ok :: "gen \<Rightarrow> bool" where
  "counts_ok s \<longleftrightarrow> num_literals s = cnt FIXUP_LITERAL (fixups s) (num_bytes s) \<and>
     num_forks s = cnt FIXUP_FORK (fixups s) (num_bytes s) \<and>
     num_var_refs s = cnt FIXUP_VAR_REF (fixups s) (num_bytes s) \<and>
     num_labels s = cnt FIXUP_LABEL (fixups s) (num_bytes s) \<and> num_stacks s = 0"

definition refs_ok :: "gen \<Rightarrow> fixup \<Rightarrow> bool" where
  "refs_ok s f = (case fx_kind f of
     FIXUP_LITERAL \<Rightarrow> fx_value f < length (gs_literals (gs s)) \<and> fx_value f \<le> max_literal s
   | FIXUP_FORK \<Rightarrow> fx_value f < length (gs_fork_vectors (gs s)) \<and> fx_value f \<le> max_fork s
   | FIXUP_VAR_REF \<Rightarrow> fx_value f \<le> max_var_ref s
   | FIXUP_STACK \<Rightarrow> int (fx_value f) \<le> max_stack s
   | FIXUP_LABEL \<Rightarrow> True)"

text \<open>The literals that the parser makes.\<close>

fun plain_literal :: "var \<Rightarrow> bool" where
  "plain_literal (VInt _) = True" | "plain_literal (VObj _) = True" | "plain_literal (VStr _) = True"
| "plain_literal (VErr _) = True" | "plain_literal (VFloat _) = True" | "plain_literal _ = False"

text \<open>\<open>P\<close> is the set of the numbers of the pending labels.\<close>

definition gen_inv :: "nat set \<Rightarrow> gen \<Rightarrow> bool" where
  "gen_inv P s \<longleftrightarrow> order_ok s \<and> counts_ok s \<and>
     (\<forall>i < length (fixups s). fx_kind (fixups s ! i) = FIXUP_LABEL \<longrightarrow> i \<notin> P \<longrightarrow> label_ok s (fixups s ! i)) \<and>
     (\<forall>f \<in> set (fixups s). refs_ok s f) \<and> 0 \<le> cur_stack s \<and> cur_stack s \<le> max_stack s \<and>
     (\<forall>v \<in> set (gs_literals (gs s)). plain_literal v) \<and>
     (\<forall>j. saved_stack s = Some j \<longrightarrow> 0 \<le> j \<and> j < max_stack s)"

text \<open>\<open>s'\<close> continues \<open>s\<close>: nothing that was emitted changes.\<close>

definition ext :: "gen \<Rightarrow> gen \<Rightarrow> bool" where
  "ext s s' \<longleftrightarrow> prefix (bytes s) (bytes s') \<and> prefix (fixups s) (fixups s') \<and>
     (\<forall>i. length (fixups s) \<le> i \<longrightarrow> i < length (fixups s') \<longrightarrow> num_bytes s \<le> fx_pc (fixups s' ! i)) \<and>
     prefix (gs_literals (gs s)) (gs_literals (gs s')) \<and>
     prefix (gs_fork_vectors (gs s)) (gs_fork_vectors (gs s')) \<and>
     max_stack s \<le> max_stack s' \<and> max_literal s \<le> max_literal s' \<and> max_fork s \<le> max_fork s' \<and>
     max_var_ref s \<le> max_var_ref s'"

lemma prefix_nth: "prefix xs ys \<Longrightarrow> i < length xs \<Longrightarrow> ys ! i = xs ! i"
  by (auto simp: prefix_def nth_append)

lemma ext_refl [simp]: "ext s s"
  by (simp add: ext_def)

lemma ext_trans [trans]:
  assumes "ext s t" "ext t u" shows "ext s u"
proof -
  have "num_bytes s \<le> fx_pc (fixups u ! i)" if i: "length (fixups s) \<le> i" "i < length (fixups u)" for i
  proof (cases "i < length (fixups t)")
    case True
    then have "fixups u ! i = fixups t ! i" using assms(2) by (simp add: ext_def prefix_nth)
    then show ?thesis using assms(1) i True by (simp add: ext_def)
  next
    case False
    then have "num_bytes t \<le> fx_pc (fixups u ! i)" using assms(2) i by (simp add: ext_def)
    moreover have "num_bytes s \<le> num_bytes t" using assms(1) by (simp add: ext_def prefix_length_le)
    ultimately show ?thesis by simp
  qed
  then show ?thesis using assms unfolding ext_def by (simp, elim conjE) (blast intro: prefix_order.trans order_trans)
qed

lemma ext_len: "ext s s' \<Longrightarrow> num_bytes s \<le> num_bytes s' \<and> length (fixups s) \<le> length (fixups s')"
  by (simp add: ext_def prefix_length_le)

text \<open>Continuing the code does not change the items already there.\<close>

lemma map_of_append_fresh:
  assumes "\<forall>f \<in> set new. i < fx_pc f"
  shows "map_of (map (\<lambda>f. (fx_pc f, f)) (old @ new)) i = map_of (map (\<lambda>f. (fx_pc f, f)) old) i"
proof -
  have "map_of (map (\<lambda>f. (fx_pc f, f)) new) i = None" using assms by (fastforce simp: map_of_eq_None_iff)
  then show ?thesis by (simp add: map_add_def split: option.split)
qed

lemma ext_pc: "ext s s' \<Longrightarrow> length (fixups s) \<le> i \<Longrightarrow> i < length (fixups s') \<Longrightarrow> num_bytes s \<le> fx_pc (fixups s' ! i)"
  by (simp add: ext_def)

lemma ext_new:
  assumes "ext s s'" obtains new where "fixups s' = fixups s @ new" "\<forall>f \<in> set new. num_bytes s \<le> fx_pc f"
proof -
  obtain new where new: "fixups s' = fixups s @ new" using assms by (auto simp: ext_def prefix_def)
  have "num_bytes s \<le> fx_pc f" if f: "f \<in> set new" for f
  proof -
    obtain k where k: "k < length new" "new ! k = f" using f by (auto simp: in_set_conv_nth)
    show ?thesis using ext_pc[OF assms, of "length (fixups s) + k"] new k by simp
  qed
  with new that show thesis by blast
qed

lemma fx_at_ext:
  assumes "ext s s'" "i < num_bytes s" shows "fx_at s' i = fx_at s i"
proof -
  obtain new where new: "fixups s' = fixups s @ new" "\<forall>f \<in> set new. num_bytes s \<le> fx_pc f"
    using ext_new[OF assms(1)] .
  then have "\<forall>f \<in> set new. i < fx_pc f" using assms(2) by fastforce
  then show ?thesis unfolding fx_at_def new(1) by (rule map_of_append_fresh)
qed

lemma item_at_ext: "ext s s' \<Longrightarrow> i < num_bytes s \<Longrightarrow> item_at s' i = item_at s i"
  by (simp add: item_at_def fx_at_ext, simp add: ext_def prefix_nth split: option.split)

section \<open>How the invariant is kept\<close>

lemma cnt_append: "cnt k (xs @ ys) n = cnt k xs n + cnt k ys n"
  by (simp add: cnt_def)

lemma cnt_beyond: "\<forall>f \<in> set fs. n \<le> fx_pc f \<Longrightarrow> cnt k fs n = 0"
  by (auto simp: cnt_def filter_empty_conv)

lemma cnt_all: "\<forall>f \<in> set fs. fx_pc f < n \<Longrightarrow> cnt k fs n = length (filter (\<lambda>f. fx_kind f = k) fs)"
  unfolding cnt_def by (intro arg_cong[where f = length] filter_cong) auto

lemma cnt_ext: "ext s s' \<Longrightarrow> n \<le> num_bytes s \<Longrightarrow> cnt k (fixups s') n = cnt k (fixups s) n"
proof -
  assume e: "ext s s'" and n: "n \<le> num_bytes s"
  obtain new where new: "fixups s' = fixups s @ new" "\<forall>f \<in> set new. num_bytes s \<le> fx_pc f" using ext_new[OF e] .
  then have "\<forall>f \<in> set new. n \<le> fx_pc f" using n by fastforce
  then show ?thesis by (simp add: new(1) cnt_append cnt_beyond)
qed

lemma label_ok_ext: "ext s s' \<Longrightarrow> label_ok s f \<Longrightarrow> label_ok s' f"
  using ext_len[of s s'] by (simp add: label_ok_def cnt_ext)

lemma refs_ok_ext: "ext s s' \<Longrightarrow> refs_ok s f \<Longrightarrow> refs_ok s' f"
  by (auto simp: refs_ok_def ext_def dest: prefix_length_le split: fixup_kind.split)

lemma gen_invD:
  assumes "gen_inv P s"
  shows "order_ok s" "counts_ok s" "0 \<le> cur_stack s" "cur_stack s \<le> max_stack s"
    "\<forall>v \<in> set (gs_literals (gs s)). plain_literal v"
    "saved_stack s = Some j \<Longrightarrow> 0 \<le> j \<and> j < max_stack s"
  using assms by (auto simp: gen_inv_def)

lemma gen_inv_step:
  assumes "gen_inv P s" "ext s s'" "order_ok s'" "counts_ok s'" "0 \<le> cur_stack s'" "cur_stack s' \<le> max_stack s'"
    and "P \<subseteq> P'" "\<forall>v \<in> set (gs_literals (gs s')). plain_literal v"
    and "\<forall>j. saved_stack s' = Some j \<longrightarrow> 0 \<le> j \<and> j < max_stack s'"
    and new: "\<And>i. length (fixups s) \<le> i \<Longrightarrow> i < length (fixups s') \<Longrightarrow> refs_ok s' (fixups s' ! i) \<and>
      (fx_kind (fixups s' ! i) = FIXUP_LABEL \<longrightarrow> i \<notin> P' \<longrightarrow> label_ok s' (fixups s' ! i))"
  shows "gen_inv P' s'"
proof -
  have old: "fixups s' ! i = fixups s ! i" if "i < length (fixups s)" for i
    using assms(2) that by (simp add: ext_def prefix_nth)
  have "fx_kind (fixups s' ! i) = FIXUP_LABEL \<longrightarrow> i \<notin> P' \<longrightarrow> label_ok s' (fixups s' ! i)"
    "refs_ok s' (fixups s' ! i)" if i: "i < length (fixups s')" for i
  proof -
    show "fx_kind (fixups s' ! i) = FIXUP_LABEL \<longrightarrow> i \<notin> P' \<longrightarrow> label_ok s' (fixups s' ! i)"
      using assms(1,2,7) new[of i] i old[of i] label_ok_ext[of s s' "fixups s ! i"]
      by (cases "i < length (fixups s)") (auto simp: gen_inv_def)
    show "refs_ok s' (fixups s' ! i)"
      using assms(1,2) new[of i] i old[of i] refs_ok_ext[of s s' "fixups s ! i"]
      by (cases "i < length (fixups s)") (auto simp: gen_inv_def)
  qed
  then show ?thesis using assms by (auto simp: gen_inv_def in_set_conv_nth)
qed

lemma gen_inv_mono: "gen_inv P s \<Longrightarrow> P \<subseteq> Q \<Longrightarrow> gen_inv Q s"
  by (auto simp: gen_inv_def)

lemma order_ok_pc: "order_ok s \<Longrightarrow> f \<in> set (fixups s) \<Longrightarrow> fx_pc f < num_bytes s"
  by (simp add: order_ok_def)

text \<open>States that differ in nothing the invariant looks at.\<close>

lemma ext_eq_fields:
  assumes "bytes s' = bytes s" "fixups s' = fixups s" "gs s' = gs s" "max_stack s \<le> max_stack s'"
    "max_literal s' = max_literal s" "max_fork s' = max_fork s" "max_var_ref s' = max_var_ref s"
  shows "ext s s'"
  using assms by (simp add: ext_def)

lemma gen_inv_eq_fields:
  assumes "gen_inv P s" "bytes s' = bytes s" "fixups s' = fixups s" "gs s' = gs s" "max_stack s \<le> max_stack s'"
    "max_literal s' = max_literal s" "max_fork s' = max_fork s" "max_var_ref s' = max_var_ref s"
    "num_literals s' = num_literals s" "num_forks s' = num_forks s" "num_var_refs s' = num_var_refs s"
    "num_labels s' = num_labels s" "num_stacks s' = num_stacks s"
    "0 \<le> cur_stack s'" "cur_stack s' \<le> max_stack s'"
    "\<forall>j. saved_stack s' = Some j \<longrightarrow> 0 \<le> j \<and> j < max_stack s'"
  shows "gen_inv P s'"
proof (rule gen_inv_step[OF assms(1)])
  show "ext s s'" using assms by (intro ext_eq_fields) auto
  show "order_ok s'" "counts_ok s'" using assms by (auto simp: gen_inv_def order_ok_def counts_ok_def)
qed (use assms gen_invD(5)[OF assms(1)] in auto)

subsection \<open>Bytes\<close>

lemma emit_byte_fields [simp]:
  "bytes (emit_byte b s) = bytes s @ [b]" "fixups (emit_byte b s) = fixups s" "gs (emit_byte b s) = gs s"
  "cur_stack (emit_byte b s) = cur_stack s" "max_stack (emit_byte b s) = max_stack s"
  "saved_stack (emit_byte b s) = saved_stack s" "loops (emit_byte b s) = loops s"
  "num_literals (emit_byte b s) = num_literals s" "num_forks (emit_byte b s) = num_forks s"
  "num_var_refs (emit_byte b s) = num_var_refs s" "num_labels (emit_byte b s) = num_labels s"
  "num_stacks (emit_byte b s) = num_stacks s" "max_literal (emit_byte b s) = max_literal s"
  "max_fork (emit_byte b s) = max_fork s" "max_var_ref (emit_byte b s) = max_var_ref s"
  by (simp_all add: emit_byte_def)

lemma ext_emit_byte [simp]: "ext s (emit_byte b s)"
  by (auto simp: ext_def)

lemma gen_inv_emit_byte: "gen_inv P s \<Longrightarrow> gen_inv P (emit_byte b s)"
proof (rule gen_inv_step[where s = s and P = P])
  assume i: "gen_inv P s"
  then have o: "order_ok s" and c: "counts_ok s" by (auto simp: gen_inv_def)
  show "order_ok (emit_byte b s)" using o by (auto simp: order_ok_def)
  have "cnt k (fixups s) (Suc (num_bytes s)) = cnt k (fixups s) (num_bytes s)" for k
    using order_ok_pc[OF o] by (simp add: cnt_all less_Suc_eq)
  then show "counts_ok (emit_byte b s)" using c by (simp add: counts_ok_def)
qed (auto simp: gen_inv_def)

lemma fx_at_end: "order_ok s \<Longrightarrow> num_bytes s \<le> i \<Longrightarrow> fx_at s i = None"
  using order_ok_pc by (fastforce simp: fx_at_def map_of_eq_None_iff)

lemma item_at_emit: "order_ok s \<Longrightarrow> item_at (emit_byte b s) (num_bytes s) = Byte b"
proof -
  assume "order_ok s"
  then have "fx_at (emit_byte b s) (num_bytes s) = None" using fx_at_end[of s "num_bytes s"] by (simp add: fx_at_def)
  then show ?thesis by (simp add: item_at_def)
qed

section \<open>Steps of the generator\<close>

text \<open>
  \<open>gen_step P s k s'\<close>: from \<open>s\<close> the generator has come to \<open>s'\<close>, which continues \<open>s\<close>, keeps the
  invariant with the pending labels \<open>P\<close>, leaves the loops and the saved stack position as they were,
  and accounts for \<open>k\<close> more values on the run-time stack.
\<close>

definition gen_step :: "nat set \<Rightarrow> gen \<Rightarrow> int \<Rightarrow> gen \<Rightarrow> bool" where
  "gen_step P s k s' \<longleftrightarrow> gen_inv P s' \<and> ext s s' \<and> cur_stack s' = cur_stack s + k \<and>
     saved_stack s' = saved_stack s \<and> loops s' = loops s"

lemma gen_step_refl: "gen_inv P s \<Longrightarrow> gen_step P s 0 s"
  by (simp add: gen_step_def)

lemma gen_step_trans: "gen_step P s j t \<Longrightarrow> gen_step Q t k u \<Longrightarrow> m = j + k \<Longrightarrow> gen_step Q s m u"
  unfolding gen_step_def by (auto intro: ext_trans)

lemma gen_step_mono: "gen_step P s k t \<Longrightarrow> P \<subseteq> Q \<Longrightarrow> gen_step Q s k t"
  unfolding gen_step_def by (auto intro: gen_inv_mono)

lemma gen_stepD:
  assumes "gen_step P s k t"
  shows "gen_inv P t" "ext s t" "cur_stack t = cur_stack s + k" "saved_stack t = saved_stack s"
    "loops t = loops s" "num_bytes s \<le> num_bytes t" "length (fixups s) \<le> length (fixups t)"
  using assms ext_len unfolding gen_step_def by auto

lemma gen_step_byte: "gen_inv P s \<Longrightarrow> gen_step P s 0 (emit_byte b s)"
  by (simp add: gen_step_def gen_inv_emit_byte)

lemma gen_step_push: "gen_inv P s \<Longrightarrow> 0 \<le> n \<Longrightarrow> gen_step P s n (push_stack n s)"
  using gen_invD(3,4)[of P s] gen_invD(6)[of P s] unfolding gen_step_def
  by (fastforce simp: push_stack_def intro!: ext_eq_fields gen_inv_eq_fields[where s = s and P = P])

lemma gen_step_pop: "gen_inv P s \<Longrightarrow> 0 \<le> n \<Longrightarrow> n \<le> cur_stack s \<Longrightarrow> gen_step P s (- n) (pop_stack n s)"
  using gen_invD(3,4)[of P s] gen_invD(6)[of P s] unfolding gen_step_def
  by (fastforce simp: pop_stack_def intro!: ext_eq_fields gen_inv_eq_fields[where s = s and P = P])

subsection \<open>Fixups\<close>

text \<open>Adding a fixup with the state's counters, and counting it.\<close>

definition put_fixup :: "fixup \<Rightarrow> gen \<Rightarrow> gen" where
  "put_fixup f s = emit_byte 0 (s\<lparr>fixups := fixups s @ [f\<lparr>fx_pc := num_bytes s\<rparr>]\<rparr>)"

lemma add_known_fixup_eq: "add_known_fixup f s = (int (length (fixups s)), put_fixup f s)"
  by (simp add: add_known_fixup_def put_fixup_def)

lemma put_fixup_fields [simp]:
  "bytes (put_fixup f s) = bytes s @ [0]" "fixups (put_fixup f s) = fixups s @ [f\<lparr>fx_pc := num_bytes s\<rparr>]"
  "gs (put_fixup f s) = gs s"
  "cur_stack (put_fixup f s) = cur_stack s" "max_stack (put_fixup f s) = max_stack s"
  "saved_stack (put_fixup f s) = saved_stack s" "loops (put_fixup f s) = loops s"
  "num_literals (put_fixup f s) = num_literals s" "num_forks (put_fixup f s) = num_forks s"
  "num_var_refs (put_fixup f s) = num_var_refs s" "num_labels (put_fixup f s) = num_labels s"
  "num_stacks (put_fixup f s) = num_stacks s" "max_literal (put_fixup f s) = max_literal s"
  "max_fork (put_fixup f s) = max_fork s" "max_var_ref (put_fixup f s) = max_var_ref s"
  by (simp_all add: put_fixup_def)

text \<open>
  A state with one more fixup \<open>f\<close>, whose counters are the old ones plus one for the kind of \<open>f\<close>.
\<close>

definition with_fixup :: "fixup \<Rightarrow> gen \<Rightarrow> gen \<Rightarrow> bool" where
  "with_fixup f s s' \<longleftrightarrow> bytes s' = bytes s @ [0] \<and> fixups s' = fixups s @ [f] \<and> fx_pc f = num_bytes s \<and>
     cur_stack s' = cur_stack s \<and> max_stack s' = max_stack s \<and> saved_stack s' = saved_stack s \<and>
     loops s' = loops s \<and>
     num_literals s' = num_literals s + (if fx_kind f = FIXUP_LITERAL then 1 else 0) \<and>
     num_forks s' = num_forks s + (if fx_kind f = FIXUP_FORK then 1 else 0) \<and>
     num_var_refs s' = num_var_refs s + (if fx_kind f = FIXUP_VAR_REF then 1 else 0) \<and>
     num_labels s' = num_labels s + (if fx_kind f = FIXUP_LABEL then 1 else 0) \<and>
     num_stacks s' = num_stacks s \<and>
     max_literal s \<le> max_literal s' \<and> max_fork s \<le> max_fork s' \<and> max_var_ref s \<le> max_var_ref s' \<and>
     prefix (gs_literals (gs s)) (gs_literals (gs s')) \<and>
     prefix (gs_fork_vectors (gs s)) (gs_fork_vectors (gs s'))"

lemma with_fixup_ext: "with_fixup f s s' \<Longrightarrow> ext s s'"
  by (auto simp: with_fixup_def ext_def nth_append)

lemma with_fixup_step:
  assumes w: "with_fixup f s s'" and i: "gen_inv P s" and n: "0 < num_bytes s" and r: "refs_ok s' f"
    and lits: "\<forall>v \<in> set (gs_literals (gs s')). plain_literal v"
    and l: "fx_kind f = FIXUP_LABEL \<Longrightarrow> length (fixups s) \<notin> P' \<Longrightarrow> label_ok s' f" and P: "P \<subseteq> P'"
  shows "gen_step P' s 0 s'"
proof -
  have o: "order_ok s" and c: "counts_ok s" using i by (auto simp: gen_inv_def)
  have "order_ok s'" using w o n by (auto simp: order_ok_def with_fixup_def sorted_wrt_append)
  moreover have "counts_ok s'"
  proof -
    have "cnt k (fixups s') (num_bytes s') = cnt k (fixups s) (num_bytes s) + (if fx_kind f = k then 1 else 0)" for k
      using w order_ok_pc[OF o] cnt_all[of "fixups s" "Suc (num_bytes s)" k] cnt_all[of "fixups s" "num_bytes s" k]
      by (auto simp: with_fixup_def cnt_append less_Suc_eq) (auto simp: cnt_def)
    then show ?thesis using w c by (auto simp: counts_ok_def with_fixup_def)
  qed
  ultimately have "gen_inv P' s'"
  proof (rule gen_inv_step[OF i with_fixup_ext[OF w]])
    fix j assume "length (fixups s) \<le> j" "j < length (fixups s')"
    then have "j = length (fixups s)" using w by (simp add: with_fixup_def)
    moreover have "fixups s' ! length (fixups s) = f" using w by (simp add: with_fixup_def)
    ultimately have "j = length (fixups s)" "fixups s' ! j = f" by simp_all
    then show "refs_ok s' (fixups s' ! j) \<and>
      (fx_kind (fixups s' ! j) = FIXUP_LABEL \<longrightarrow> j \<notin> P' \<longrightarrow> label_ok s' (fixups s' ! j))"
      using r l by auto
  qed (use w i P lits in \<open>auto simp: with_fixup_def gen_inv_def\<close>)
  then show ?thesis using w with_fixup_ext[OF w] by (auto simp: gen_step_def with_fixup_def)
qed

lemma with_fixup_item: "with_fixup f s s' \<Longrightarrow> order_ok s \<Longrightarrow> item_at s' (num_bytes s) = fx_item f"
proof -
  assume w: "with_fixup f s s'" and o: "order_ok s"
  have "map_of (map (\<lambda>g. (fx_pc g, g)) (fixups s)) (num_bytes s) = None"
    using fx_at_end[OF o, of "num_bytes s"] by (simp add: fx_at_def)
  then show ?thesis using w by (simp add: item_at_def fx_at_def with_fixup_def map_add_def)
qed

text \<open>\<open>puts\<close>: a step that adds one item, which is \<open>x\<close>.\<close>

definition puts :: "nat set \<Rightarrow> gen \<Rightarrow> item \<Rightarrow> gen \<Rightarrow> bool" where
  "puts P s x s' \<longleftrightarrow> gen_step P s 0 s' \<and> num_bytes s' = Suc (num_bytes s) \<and> item_at s' (num_bytes s) = x"

lemma putsD:
  assumes "puts P s x s'"
  shows "gen_step P s 0 s'" "gen_inv P s'" "num_bytes s' = Suc (num_bytes s)" "item_at s' (num_bytes s) = x"
  using assms gen_stepD unfolding puts_def by auto

lemma puts_byte: "gen_inv P s \<Longrightarrow> puts P s (Byte b) (emit_byte b s)"
  by (simp add: puts_def gen_step_byte item_at_emit gen_invD)

lemma puts_fixup:
  assumes "with_fixup f s s'" "gen_inv P s" "0 < num_bytes s" "refs_ok s' f"
    "\<forall>v \<in> set (gs_literals (gs s')). plain_literal v" "P \<subseteq> P'"
    "fx_kind f = FIXUP_LABEL \<Longrightarrow> length (fixups s) \<notin> P' \<Longrightarrow> label_ok s' f"
  shows "puts P' s (fx_item f) s'"
  unfolding puts_def using assms(1) with_fixup_step[OF assms(1-5,7,6)] with_fixup_item[OF assms(1)] gen_invD(1)[OF assms(2)]
  by (simp add: with_fixup_def)

lemma puts_var_ref: "gen_inv P s \<Longrightarrow> 0 < num_bytes s \<Longrightarrow> puts P s (Ref FIXUP_VAR_REF slot) (add_var_ref slot s)"
proof -
  assume i: "gen_inv P s" and n: "0 < num_bytes s"
  define f where "f = \<lparr>fx_kind = FIXUP_VAR_REF, fx_pc = num_bytes s, fx_value = slot, fx_prev_literals = num_literals s,
    fx_prev_forks = num_forks s, fx_prev_var_refs = num_var_refs s, fx_prev_labels = num_labels s,
    fx_prev_stacks = num_stacks s, fx_next = -1\<rparr>"
  have "puts P s (fx_item f) (add_var_ref slot s)"
    by (rule puts_fixup[OF _ i n]) (auto simp: with_fixup_def add_var_ref_def Let_def add_fixup_def add_linked_fixup_def
        add_known_fixup_eq f_def refs_ok_def gen_invD(5)[OF i])
  then show ?thesis by (simp add: f_def fx_item_def)
qed

lemma find_literal_total:
  assumes "plain_literal v" "\<forall>l \<in> set ls. plain_literal l"
  shows "\<exists>i. find_literal v k ls = Some i \<and> k \<le> i \<and> i \<le> k + length ls \<and>
    (i < k + length ls \<longrightarrow> equality v (ls ! (i - k)) True = Some True \<and> var_type v = var_type (ls ! (i - k)))"
  using assms(2)
proof (induction ls arbitrary: k)
  case (Cons l ls)
  then obtain i where i: "find_literal v (k + 1) ls = Some i" "k + 1 \<le> i" "i \<le> k + 1 + length ls"
    "i < k + 1 + length ls \<longrightarrow> equality v (ls ! (i - (k + 1))) True = Some True \<and> var_type v = var_type (ls ! (i - (k + 1)))"
    by fastforce
  have "i - k = Suc (i - (k + 1))" using i(2) by simp
  then have n: "(l # ls) ! (i - k) = ls ! (i - (k + 1))" by simp
  have "var_type v = var_type l \<Longrightarrow> \<exists>b. equality v l True = Some b"
    using assms(1) Cons.prems by (cases v; cases l) auto
  then show ?case using i n by (auto simp del: nth_Cons_Suc)
qed simp

text \<open>The literal in a slot is the one that was added, up to the equality of values.\<close>

lemma puts_literal:
  assumes i: "gen_inv P s" and n: "0 < num_bytes s" and v: "plain_literal v"
  shows "\<exists>s' i. add_literal v s = Some s' \<and> puts P s (Ref FIXUP_LITERAL i) s' \<and> i < length (gs_literals (gs s')) \<and>
    (gs_literals (gs s') ! i = v \<or> equality v (gs_literals (gs s') ! i) True = Some True)"
proof -
  obtain k where k: "find_literal v 0 (gs_literals (gs s)) = Some k" "k \<le> length (gs_literals (gs s))"
    "k < length (gs_literals (gs s)) \<longrightarrow> equality v (gs_literals (gs s) ! k) True = Some True"
    using find_literal_total[OF v gen_invD(5)[OF i], of 0] by auto
  define f where "f = \<lparr>fx_kind = FIXUP_LITERAL, fx_pc = num_bytes s, fx_value = k, fx_prev_literals = num_literals s,
    fx_prev_forks = num_forks s, fx_prev_var_refs = num_var_refs s, fx_prev_labels = num_labels s,
    fx_prev_stacks = num_stacks s, fx_next = -1\<rparr>"
  obtain s' where s': "add_literal v s = Some s'" using k(1) by (auto simp: add_literal_def Let_def)
  have w: "with_fixup f s s'" and m: "k \<le> max_literal s'" "k < length (gs_literals (gs s'))"
    and l: "\<forall>v \<in> set (gs_literals (gs s')). plain_literal v"
    and e: "gs_literals (gs s') ! k = v \<or> equality v (gs_literals (gs s') ! k) True = Some True"
    using s' k gen_invD(5)[OF i] v
    by (auto simp: add_literal_def Let_def with_fixup_def add_fixup_def add_linked_fixup_def
        add_known_fixup_eq f_def split: if_splits)
  have "puts P s (fx_item f) s'"
    by (rule puts_fixup[OF w i n]) (use m l in \<open>auto simp: refs_ok_def f_def\<close>)
  with s' m e show ?thesis by (auto simp: f_def fx_item_def)
qed

lemma puts_fork:
  assumes i: "gen_inv P s" and n: "0 < num_bytes s"
  shows "puts P s (Ref FIXUP_FORK (length (gs_fork_vectors (gs s)))) (add_fork b s)"
proof -
  define f where "f = \<lparr>fx_kind = FIXUP_FORK, fx_pc = num_bytes s, fx_value = length (gs_fork_vectors (gs s)),
    fx_prev_literals = num_literals s,
    fx_prev_forks = num_forks s, fx_prev_var_refs = num_var_refs s, fx_prev_labels = num_labels s,
    fx_prev_stacks = num_stacks s, fx_next = -1\<rparr>"
  have "puts P s (fx_item f) (add_fork b s)"
    by (rule puts_fixup[OF _ i n]) (use gen_invD(5)[OF i] in \<open>auto simp: with_fixup_def add_fork_def Let_def add_fixup_def
        add_linked_fixup_def add_known_fixup_eq f_def refs_ok_def\<close>)
  then show ?thesis by (simp add: f_def fx_item_def)
qed

lemma puts_stack_ref:
  assumes i: "gen_inv P s" and n: "0 < num_bytes s" and j: "0 \<le> j" "j \<le> max_stack s"
  shows "puts P s (Ref FIXUP_STACK (nat j)) (add_stack_ref j s)"
proof -
  define f where "f = \<lparr>fx_kind = FIXUP_STACK, fx_pc = num_bytes s, fx_value = nat j,
    fx_prev_literals = num_literals s,
    fx_prev_forks = num_forks s, fx_prev_var_refs = num_var_refs s, fx_prev_labels = num_labels s,
    fx_prev_stacks = num_stacks s, fx_next = -1\<rparr>"
  have "puts P s (fx_item f) (add_stack_ref j s)"
    by (rule puts_fixup[OF _ i n]) (use gen_invD(5)[OF i] j in \<open>auto simp: with_fixup_def add_stack_ref_def Let_def add_fixup_def
        add_linked_fixup_def add_known_fixup_eq f_def refs_ok_def\<close>)
  then show ?thesis by (simp add: f_def fx_item_def)
qed

subsection \<open>Labels\<close>

text \<open>A label that is not yet defined may be used again while the chain is built.\<close>

lemma puts_linked_label:
  assumes i: "gen_inv P s" and n: "0 < num_bytes s"
  shows "\<exists>s'. add_linked_label nxt s = (int (length (fixups s)), s') \<and> fx_next (last (fixups s')) = nxt \<and>
    fx_kind (last (fixups s')) = FIXUP_LABEL \<and>
    length (fixups s') = Suc (length (fixups s)) \<and> gs s' = gs s \<and> max_stack s' = max_stack s \<and>
    puts (insert (length (fixups s)) P) s (Ref FIXUP_LABEL 0) s'"
proof -
  define f where "f = \<lparr>fx_kind = FIXUP_LABEL, fx_pc = num_bytes s, fx_value = 0,
    fx_prev_literals = num_literals s,
    fx_prev_forks = num_forks s, fx_prev_var_refs = num_var_refs s, fx_prev_labels = num_labels s,
    fx_prev_stacks = num_stacks s, fx_next = nxt\<rparr>"
  obtain s' where s': "add_linked_label nxt s = (int (length (fixups s)), s')"
    by (simp add: add_linked_label_def add_linked_fixup_def add_known_fixup_eq)
  then have w: "with_fixup f s s'" and l: "gs s' = gs s" "max_stack s' = max_stack s"
    by (auto simp: add_linked_label_def add_linked_fixup_def add_known_fixup_eq with_fixup_def f_def)
  have "puts (insert (length (fixups s)) P) s (fx_item f) s'"
    by (rule puts_fixup[OF w i n]) (use l gen_invD(5)[OF i] in \<open>auto simp: refs_ok_def f_def\<close>)
  with s' w l show ?thesis by (auto simp: f_def fx_item_def with_fixup_def)
qed

lemma puts_pseudo_label:
  assumes i: "gen_inv P s" and n: "0 < num_bytes s" and v: "v \<le> 1"
  shows "puts P s (Ref FIXUP_LABEL v) (add_pseudo_label v s)"
proof -
  define f where "f = \<lparr>fx_kind = FIXUP_LABEL, fx_pc = num_bytes s, fx_value = v,
    fx_prev_literals = 0, fx_prev_forks = 0, fx_prev_var_refs = 0, fx_prev_labels = 0, fx_prev_stacks = 0, fx_next = -1\<rparr>"
  have w: "with_fixup f s (add_pseudo_label v s)" and g: "gs (add_pseudo_label v s) = gs s"
    by (auto simp: add_pseudo_label_def add_known_fixup_eq with_fixup_def f_def)
  have "0 < fx_pc h" if "h \<in> set (fixups (add_pseudo_label v s))" for h
    using that w gen_invD(1)[OF i] n by (auto simp: with_fixup_def order_ok_def)
  then have c: "cnt k (fixups (add_pseudo_label v s)) v = 0" for k using v by (intro cnt_beyond) fastforce
  have "puts P s (fx_item f) (add_pseudo_label v s)"
    by (rule puts_fixup[OF w i n]) (use g v w c gen_invD(5)[OF i] in
      \<open>auto simp: refs_ok_def f_def label_ok_def with_fixup_def\<close>)
  then show ?thesis by (simp add: f_def fx_item_def)
qed

lemma capture_label_ok: "gen_inv P s \<Longrightarrow> label_ok s (capture_label s)"
  using gen_invD(2)[of P s] by (auto simp: label_ok_def capture_label_def counts_ok_def)

lemma puts_known_label:
  assumes i: "gen_inv P s" and n: "0 < num_bytes s" and l: "label_ok s f" "fx_kind f = FIXUP_LABEL"
  shows "puts P s (Ref FIXUP_LABEL (fx_value f)) (snd (add_known_label f s))"
proof -
  define g where "g = f\<lparr>fx_pc := num_bytes s\<rparr>"
  have w: "with_fixup g s (snd (add_known_label f s))" and e: "gs (snd (add_known_label f s)) = gs s"
    using l(2) by (auto simp: add_known_label_def add_known_fixup_eq with_fixup_def g_def)
  have "label_ok (snd (add_known_label f s)) f" using label_ok_ext[OF with_fixup_ext[OF w] l(1)] .
  then have "label_ok (snd (add_known_label f s)) g" by (simp add: label_ok_def g_def)
  then have "puts P s (fx_item g) (snd (add_known_label f s))"
    by (intro puts_fixup[OF w i n]) (use e l gen_invD(5)[OF i] in \<open>auto simp: refs_ok_def g_def\<close>)
  then show ?thesis by (simp add: g_def fx_item_def l(2))
qed

text \<open>The chain of the fixups of one label, latest first.\<close>

inductive chain :: "fixup list \<Rightarrow> int \<Rightarrow> nat set \<Rightarrow> bool" where
  chain_end: "chain fs (-1) {}"
| chain_link: "k < length fs \<Longrightarrow> fx_kind (fs ! k) = FIXUP_LABEL \<Longrightarrow> chain fs (fx_next (fs ! k)) C \<Longrightarrow>
    \<forall>j \<in> C. j < k \<Longrightarrow> chain fs (int k) (insert k C)"

lemma chain_bound: "chain fs l C \<Longrightarrow> C \<subseteq> {..< length fs} \<and> finite C"
  by (induction rule: chain.induct) auto

lemma chain_prefix: "chain fs l C \<Longrightarrow> prefix fs fs' \<Longrightarrow> chain fs' l C"
proof (induction rule: chain.induct)
  case (chain_link k fs C)
  have k: "k < length fs'" "fs' ! k = fs ! k"
    using chain_link.hyps(1) chain_link.prems prefix_length_le prefix_nth by (fastforce, metis)
  show ?case by (rule chain.chain_link) (use chain_link k in auto)
qed (rule chain.chain_end)

definition relabel :: "nat set \<Rightarrow> gen \<Rightarrow> fixup list \<Rightarrow> fixup list" where
  "relabel C s fs = map (\<lambda>i. if i \<in> C then set_label s (fs ! i) else fs ! i) [0..<length fs]"

lemma relabel_empty [simp]: "relabel {} s fs = fs"
  by (simp add: relabel_def map_nth)

lemma length_relabel [simp]: "length (relabel C s fs) = length fs"
  by (simp add: relabel_def)

lemma nth_relabel: "i < length fs \<Longrightarrow> relabel C s fs ! i = (if i \<in> C then set_label s (fs ! i) else fs ! i)"
  by (simp add: relabel_def)

lemma set_label_simps [simp]: "fx_next (set_label s f) = fx_next f" "fx_kind (set_label s f) = fx_kind f"
  "fx_pc (set_label s f) = fx_pc f" "fx_value (set_label s f) = num_bytes s"
  "set_label s (set_label s f) = set_label s f"
  by (simp_all add: set_label_def)

lemma define_chain_relabel:
  "chain fs l C \<Longrightarrow> card C \<le> n \<Longrightarrow> D \<inter> C = {} \<Longrightarrow> D \<subseteq> {..< length fs} \<Longrightarrow>
   define_chain n l s (relabel D s fs) = Some (relabel (D \<union> C) s fs)"
proof (induction arbitrary: n D rule: chain.induct)
  case (chain_link k fs C)
  have c: "k \<notin> C" "finite C" using chain_link.hyps chain_bound by auto
  then obtain m where m: "n = Suc m" "card C \<le> m" using chain_link.prems(1) by (cases n) auto
  have u: "upd_opt (relabel D s fs) (int k) (set_label s (fs ! k)) = Some (relabel (insert k D) s fs)"
    using chain_link.hyps(1) by (simp add: upd_opt_int)
      (auto intro!: nth_equalityI simp: nth_relabel nth_list_update)
  have "define_chain m (fx_next (fs ! k)) s (relabel (insert k D) s fs) = Some (relabel (insert k D \<union> C) s fs)"
    using chain_link.prems m c chain_link.hyps(1) by (intro chain_link.IH) auto
  moreover have "insert k D \<union> C = D \<union> insert k C" by auto
  moreover have "k \<notin> D" using chain_link.prems by auto
  ultimately show ?case using m u chain_link.hyps(1)
    by (subst define_chain.simps) (simp add: nth_opt_int nth_relabel)
qed (simp add: define_chain.simps)

lemma chain_kind: "chain fs l C \<Longrightarrow> i \<in> C \<Longrightarrow> fx_kind (fs ! i) = FIXUP_LABEL"
  by (induction rule: chain.induct) auto

lemma cnt_cong: "map fx_kind fs = map fx_kind hs \<Longrightarrow> map fx_pc fs = map fx_pc hs \<Longrightarrow> cnt k fs n = cnt k hs n"
proof (induction fs arbitrary: hs)
  case (Cons f fs)
  then obtain h hs' where h: "hs = h # hs'" by (cases hs) auto
  then have "cnt k fs n = cnt k hs' n" using Cons by simp
  then show ?case using h Cons.prems by (simp add: cnt_def)
qed (simp add: cnt_def)

lemma map_relabel: "map fx_kind (relabel C s fs) = map fx_kind fs" "map fx_pc (relabel C s fs) = map fx_pc fs"
  by (auto intro!: nth_equalityI simp: nth_relabel)

lemma cnt_relabel [simp]: "cnt k (relabel C s fs) n = cnt k fs n"
  by (rule cnt_cong) (simp_all add: map_relabel)

lemma prefix_relabel: "prefix xs fs \<Longrightarrow> \<forall>j \<in> C. length xs \<le> j \<Longrightarrow> prefix xs (relabel C s fs)"
proof -
  assume p: "prefix xs fs" and n: "\<forall>j \<in> C. length xs \<le> j"
  then have "take (length xs) (relabel C s fs) = xs"
  proof (intro nth_equalityI)
    fix i assume "i < length (take (length xs) (relabel C s fs))"
    then have i: "i < length xs" by simp
    then have "i < length fs" using prefix_length_le[OF p] by simp
    then show "take (length xs) (relabel C s fs) ! i = xs ! i"
      using i n prefix_nth[OF p i] by (auto simp: nth_relabel)
  qed (use prefix_length_le[OF p] in simp)
  then show ?thesis by (metis take_is_prefix)
qed

text \<open>The effect of defining a label whose uses all lie behind the start \<open>s0\<close>.\<close>

lemma define_label_step:
  assumes c: "chain (fixups s) l C" and st: "gen_step P s0 k s" and new: "\<forall>j \<in> C. length (fixups s0) \<le> j"
  shows "define_label l s = Some (s\<lparr>fixups := relabel C s (fixups s)\<rparr>)"
    "gen_step (P - C) s0 k (s\<lparr>fixups := relabel C s (fixups s)\<rparr>)" (is "gen_step _ _ _ ?s")
proof -
  have "card C \<le> length (fixups s)" using chain_bound[OF c] card_mono[of "{..< length (fixups s)}" C] by simp
  then show "define_label l s = Some ?s"
    using define_chain_relabel[OF c, of "length (fixups s)" "{}" s] by (simp add: define_label_def)
  note i = gen_stepD(1)[OF st] and e = gen_stepD(2)[OF st]
  have o: "order_ok ?s"
  proof -
    have "fx_pc ` set (relabel C s (fixups s)) = fx_pc ` set (fixups s)"
      by (metis list.set_map map_relabel(2))
    then have "\<forall>f \<in> set (relabel C s (fixups s)). 0 < fx_pc f \<and> fx_pc f < num_bytes s"
      using gen_invD(1)[OF i] unfolding order_ok_def by (metis (no_types, lifting) image_iff)
    then show ?thesis using gen_invD(1)[OF i] by (simp add: order_ok_def map_relabel)
  qed
  have ct: "counts_ok ?s" using gen_invD(2)[OF i] by (simp add: counts_ok_def)
  have lab: "label_ok ?s f" if "label_ok s f" for f using that by (simp add: label_ok_def)
  have set: "label_ok ?s (set_label s f)" for f
    using gen_invD(2)[OF i] by (simp add: label_ok_def set_label_def counts_ok_def)
  have "gen_inv (P - C) ?s"
    unfolding gen_inv_def
  proof (intro conjI allI impI ballI)
    fix j assume "j < length (fixups ?s)" "fx_kind (fixups ?s ! j) = FIXUP_LABEL" "j \<notin> P - C"
    then show "label_ok ?s (fixups ?s ! j)"
      using i lab set by (auto simp: nth_relabel gen_inv_def)
  next
    fix f assume "f \<in> set (fixups ?s)"
    then obtain j where j: "j < length (fixups s)" "f = relabel C s (fixups s) ! j"
      by (auto simp: in_set_conv_nth)
    have "refs_ok s (fixups s ! j)" using i j(1) by (simp add: gen_inv_def)
    then show "refs_ok ?s f" using j chain_kind[OF c] by (auto simp: nth_relabel refs_ok_def split: fixup_kind.splits)
  qed (use o ct gen_invD[OF i] in auto)
  moreover have "ext s0 ?s"
    using e new by (auto simp: ext_def intro: prefix_relabel)
      (metis map_relabel(2) length_relabel nth_map)
  ultimately show "gen_step (P - C) s0 k ?s" using st by (simp add: gen_step_def)
qed

end
