(* ===== verification/Code_Shape.thy ===== *)
theory Code_Shape
  imports Code_Gen_Laws
begin

text \<open>
  Which expressions the parser makes (\<open>wf_expr\<close>), and which items their code is made of (\<open>code_at\<close>),
  as a function of the expression alone. Calls and scattering assignments are not described.
\<close>

section \<open>Well-formed expressions\<close>

text \<open>The left sides that the parser accepts: a range only as the outermost index.\<close>

fun indexable :: "expr \<Rightarrow> bool" where
  "indexable (EXPR_ID _) = True" | "indexable (EXPR_PROP _ _) = True"
| "indexable (EXPR_INDEX b _) = indexable b" | "indexable _ = False"

fun is_lvalue :: "expr \<Rightarrow> bool" where
  "is_lvalue (EXPR_RANGE b _ _) = indexable b" | "is_lvalue e = indexable e"

lemma arg_size: "a \<in> set args \<Longrightarrow> size (snd a) < Suc (size_list (size_prod (\<lambda>_. 0) size) args + n)"
proof -
  assume "a \<in> set args"
  then have "size_prod (\<lambda>_. 0) size a \<le> size_list (size_prod (\<lambda>_. 0) size) args"
    by (rule size_list_estimation') simp
  then show ?thesis by (cases a) simp
qed

lemma scatter_size:
  "(k, slot, x) \<in> set sc \<Longrightarrow> e \<in> set_option x \<Longrightarrow>
   size e < Suc (size_list (size_prod (\<lambda>_. 0) (size_prod (\<lambda>_. 0) (size_option size))) sc + n)"
proof -
  assume m: "(k, slot, x) \<in> set sc" and e: "e \<in> set_option x"
  have "size_prod (\<lambda>_. 0) (size_prod (\<lambda>_. 0) (size_option size)) (k, slot, x) \<le>
      size_list (size_prod (\<lambda>_. 0) (size_prod (\<lambda>_. 0) (size_option size))) sc"
    by (rule size_list_estimation'[OF m]) simp
  then show ?thesis using e by (cases x) auto
qed

text \<open>\<open>d\<close> says whether the expression stands in the index of another one, where \<open>$\<close> is allowed.\<close>

function (sequential) wf_expr :: "bool \<Rightarrow> expr \<Rightarrow> bool" where
  "wf_expr d (EXPR_VAR v) = plain_literal v"
| "wf_expr d (EXPR_ID _) = True"
| "wf_expr d (EXPR_PROP l r) = (wf_expr d l \<and> wf_expr d r)"
| "wf_expr d (EXPR_VERB l r args) = (wf_expr d l \<and> wf_expr d r \<and> (\<forall>a \<in> set args. wf_expr d (snd a)))"
| "wf_expr d (EXPR_INDEX l r) = (wf_expr d l \<and> wf_expr True r)"
| "wf_expr d (EXPR_RANGE l f t) = (wf_expr d l \<and> wf_expr True f \<and> wf_expr True t)"
| "wf_expr d (EXPR_ASGN l r) = (wf_expr d r \<and> (case l of
     EXPR_SCATTER sc \<Rightarrow> \<forall>(k, slot, x) \<in> set sc. \<forall>e \<in> set_option x. wf_expr d e
   | _ \<Rightarrow> is_lvalue l \<and> wf_expr d l))"
| "wf_expr d (EXPR_CALL _ args) = (\<forall>a \<in> set args. wf_expr d (snd a))"
| "wf_expr d (EXPR_BIN _ l r) = (wf_expr d l \<and> wf_expr d r)"
| "wf_expr d (EXPR_EXP l r) = (wf_expr d l \<and> wf_expr d r)"
| "wf_expr d (EXPR_NEGATE e) = wf_expr d e"
| "wf_expr d (EXPR_AND l r) = (wf_expr d l \<and> wf_expr d r)"
| "wf_expr d (EXPR_OR l r) = (wf_expr d l \<and> wf_expr d r)"
| "wf_expr d (EXPR_NOT e) = wf_expr d e"
| "wf_expr d (EXPR_LIST args) = (\<forall>a \<in> set args. wf_expr d (snd a))"
| "wf_expr d (EXPR_COND c t e) = (wf_expr d c \<and> wf_expr d t \<and> wf_expr d e)"
| "wf_expr d (EXPR_CATCH e codes x) = (wf_expr d e \<and> (\<forall>a \<in> set codes. wf_expr d (snd a)) \<and>
     (\<forall>h \<in> set_option x. wf_expr d h))"
| "wf_expr d EXPR_LENGTH = d"
| "wf_expr d (EXPR_SCATTER _) = False"
  by pat_completeness auto
termination
  by (relation "measure (\<lambda>(_, e). size e)")
    (auto simp: elem_set dest: arg_size[where n = 0] scatter_size[where n = 0])

section \<open>The shape of the code\<close>

type_synonym code = "nat \<Rightarrow> item"

abbreviation Op :: "opcode \<Rightarrow> item" where "Op op \<equiv> Byte (op_byte op)"

definition eop_at :: "code \<Rightarrow> ext_opcode \<Rightarrow> nat \<Rightarrow> bool" where
  "eop_at it e p \<longleftrightarrow> it p = Op OP_EXTENDED \<and> it (Suc p) = Byte (eop_byte e)"

definition var_at :: "code \<Rightarrow> (nat \<Rightarrow> opcode) \<Rightarrow> opcode \<Rightarrow> nat \<Rightarrow> nat \<Rightarrow> nat \<Rightarrow> bool" where
  "var_at it op gop slot p q \<longleftrightarrow>
     (if slot \<ge> NUM_READY_VARS then it p = Op gop \<and> it (Suc p) = Ref FIXUP_VAR_REF slot \<and> q = Suc (Suc p)
      else it p = Op (op slot) \<and> q = Suc p)"

text \<open>How many values \<open>push_lvalue\<close> leaves for the stores.\<close>

fun lv_push :: "expr \<Rightarrow> int" where
  "lv_push (EXPR_PROP _ _) = 2" | "lv_push (EXPR_INDEX b _) = lv_push b + 2"
| "lv_push (EXPR_RANGE b _ _) = lv_push b + 3" | "lv_push _ = 0"

fun stores_at :: "code \<Rightarrow> expr \<Rightarrow> nat \<Rightarrow> nat \<Rightarrow> bool" where
  "stores_at it (EXPR_RANGE b _ _) p q = (eop_at it EOP_RANGESET p \<and> stores_at it b (p + 2) q)"
| "stores_at it (EXPR_INDEX b _) p q = (it p = Op OP_INDEXSET \<and> stores_at it b (Suc p) q)"
| "stores_at it (EXPR_ID slot) p q = var_at it OP_PUT OP_G_PUT slot p q"
| "stores_at it (EXPR_PROP _ _) p q = (it p = Op OP_PUT_PROP \<and> q = Suc p)"
| "stores_at it _ p q = False"

text \<open>
  \<open>code_at it ls sv d e p q\<close>: the items of \<open>it\<close> from \<open>p\<close> up to \<open>q\<close> are the code of \<open>e\<close>, with the
  literals \<open>ls\<close>, where \<open>$\<close> stands for the stack position \<open>sv\<close> and \<open>d\<close> values are on the stack.
\<close>

function (sequential) code_at ::
    "code \<Rightarrow> var list \<Rightarrow> int option \<Rightarrow> int \<Rightarrow> expr \<Rightarrow> nat \<Rightarrow> nat \<Rightarrow> bool"
  and args_at :: "code \<Rightarrow> var list \<Rightarrow> int option \<Rightarrow> int \<Rightarrow> bool \<Rightarrow> arg_list \<Rightarrow> nat \<Rightarrow> nat \<Rightarrow> bool"
  and list_at :: "code \<Rightarrow> var list \<Rightarrow> int option \<Rightarrow> int \<Rightarrow> arg_list \<Rightarrow> nat \<Rightarrow> nat \<Rightarrow> bool"
  and lval_at :: "code \<Rightarrow> var list \<Rightarrow> int option \<Rightarrow> int \<Rightarrow> expr \<Rightarrow> bool \<Rightarrow> nat \<Rightarrow> nat \<Rightarrow> bool" where
  "code_at it ls sv d (EXPR_VAR v) p q =
     (if (case v of VInt n \<Rightarrow> IN_OPTIM_NUM_RANGE (sint n) | _ \<Rightarrow> False)
      then it p = Op (OPTIM_NUM_TO_OPCODE (case v of VInt n \<Rightarrow> sint n)) \<and> q = Suc p
      else it p = Op OP_IMM \<and> q = Suc (Suc p) \<and> (\<exists>i. it (Suc p) = Ref FIXUP_LITERAL i \<and> i < length ls \<and>
        (ls ! i = v \<or> equality v (ls ! i) True = Some True)))"
| "code_at it ls sv d (EXPR_ID slot) p q = var_at it OP_PUSH OP_G_PUSH slot p q"
| "code_at it ls sv d (EXPR_PROP l r) p q =
     (\<exists>m n. code_at it ls sv d l p m \<and> code_at it ls sv (d + 1) r m n \<and> it n = Op OP_GET_PROP \<and> q = Suc n)"
| "code_at it ls sv d (EXPR_BIN k l r) p q =
     (\<exists>m n. code_at it ls sv d l p m \<and> code_at it ls sv (d + 1) r m n \<and> it n = Op (bin_op k) \<and> q = Suc n)"
| "code_at it ls sv d (EXPR_EXP l r) p q =
     (\<exists>m n. code_at it ls sv d l p m \<and> code_at it ls sv (d + 1) r m n \<and> eop_at it EOP_EXP n \<and> q = n + 2)"
| "code_at it ls sv d (EXPR_NEGATE e) p q = (\<exists>m. code_at it ls sv d e p m \<and> it m = Op OP_UNARY_MINUS \<and> q = Suc m)"
| "code_at it ls sv d (EXPR_NOT e) p q = (\<exists>m. code_at it ls sv d e p m \<and> it m = Op OP_NOT \<and> q = Suc m)"
| "code_at it ls sv d (EXPR_AND l r) p q =
     (\<exists>m. code_at it ls sv d l p m \<and> it m = Op OP_AND \<and> it (Suc m) = Ref FIXUP_LABEL q \<and>
        code_at it ls sv d r (m + 2) q)"
| "code_at it ls sv d (EXPR_OR l r) p q =
     (\<exists>m. code_at it ls sv d l p m \<and> it m = Op OP_OR \<and> it (Suc m) = Ref FIXUP_LABEL q \<and>
        code_at it ls sv d r (m + 2) q)"
| "code_at it ls sv d (EXPR_INDEX l r) p q =
     (\<exists>m n. code_at it ls sv d l p m \<and> code_at it ls (Some d) (d + 1) r m n \<and> it n = Op OP_REF \<and> q = Suc n)"
| "code_at it ls sv d (EXPR_RANGE l f t) p q =
     (\<exists>m n k. code_at it ls sv d l p m \<and> code_at it ls (Some d) (d + 1) f m n \<and>
        code_at it ls (Some d) (d + 2) t n k \<and> it k = Op OP_RANGE_REF \<and> q = Suc k)"
| "code_at it ls sv d EXPR_LENGTH p q =
     (\<exists>j. sv = Some j \<and> eop_at it EOP_LENGTH p \<and> it (p + 2) = Ref FIXUP_STACK (nat j) \<and> q = p + 3)"
| "code_at it ls sv d (EXPR_LIST args) p q = list_at it ls sv d args p q"
| "code_at it ls sv d (EXPR_COND c t e) p q =
     (\<exists>m n. code_at it ls sv d c p m \<and> it m = Op OP_IF_QUES \<and> it (Suc m) = Ref FIXUP_LABEL (n + 2) \<and>
        code_at it ls sv d t (m + 2) n \<and> it n = Op OP_JUMP \<and> it (Suc n) = Ref FIXUP_LABEL q \<and>
        code_at it ls sv d e (n + 2) q)"
| "code_at it ls sv d (EXPR_ASGN l r) p q =
     (case l of EXPR_SCATTER _ \<Rightarrow> True | _ \<Rightarrow>
        \<exists>a b c. lval_at it ls sv d l False p a \<and> code_at it ls sv (d + lv_push l) r a b \<and>
          (if is_indexed_lvalue l then it b = Op OP_PUT_TEMP \<and> stores_at it l (Suc b) c \<and>
             it c = Op OP_POP \<and> it (Suc c) = Op OP_PUSH_TEMP \<and> q = c + 2
           else stores_at it l b q))"
| "code_at it ls sv d (EXPR_CATCH e codes x) p q =
     (\<exists>a b. (if codes = [] then it p = Op (OPTIM_NUM_TO_OPCODE 0) \<and> a = Suc p else list_at it ls sv d codes p a) \<and>
        eop_at it EOP_PUSH_LABEL a \<and> it (a + 2) = Ref FIXUP_LABEL (b + 3) \<and> eop_at it EOP_CATCH (a + 3) \<and>
        code_at it ls sv (d + 3) e (a + 5) b \<and> eop_at it EOP_END_CATCH b \<and> it (b + 2) = Ref FIXUP_LABEL q \<and>
        (case x of None \<Rightarrow> it (b + 3) = Op (OPTIM_NUM_TO_OPCODE 1) \<and> it (b + 4) = Op OP_REF \<and> q = b + 5
         | Some h \<Rightarrow> it (b + 3) = Op OP_POP \<and> code_at it ls sv d h (b + 4) q))"
| "code_at it ls sv d _ p q = True"
| "args_at it ls sv d first_arg [] p q = (p = q)"
| "args_at it ls sv d first_arg ((k, e) # args) p q =
     (\<exists>m. code_at it ls sv (if first_arg then d else d + 1) e p m \<and>
        it m = Op (if k = ARG_NORMAL then (if first_arg then OP_MAKE_SINGLETON_LIST else OP_LIST_ADD_TAIL)
                   else (if first_arg then OP_CHECK_LIST_FOR_SPLICE else OP_LIST_APPEND)) \<and>
        args_at it ls sv d False args (Suc m) q)"
| "list_at it ls sv d args p q =
     (if args = [] then it p = Op OP_MAKE_EMPTY_LIST \<and> q = Suc p else args_at it ls sv d True args p q)"
| "lval_at it ls sv d (EXPR_RANGE b f t) ixd p q =
     (\<exists>m n. lval_at it ls sv d b True p m \<and> code_at it ls (Some (d + lv_push b)) (d + lv_push b + 1) f m n \<and>
        code_at it ls (Some (d + lv_push b)) (d + lv_push b + 2) t n q)"
| "lval_at it ls sv d (EXPR_INDEX b x) ixd p q =
     (\<exists>m n. lval_at it ls sv d b True p m \<and> code_at it ls (Some (d + lv_push b)) (d + lv_push b + 1) x m n \<and>
        (if ixd then it n = Op OP_PUSH_REF \<and> q = Suc n else q = n))"
| "lval_at it ls sv d (EXPR_ID slot) ixd p q = (if ixd then var_at it OP_PUSH OP_G_PUSH slot p q else p = q)"
| "lval_at it ls sv d (EXPR_PROP l r) ixd p q =
     (\<exists>m n. code_at it ls sv d l p m \<and> code_at it ls sv (d + 1) r m n \<and>
        (if ixd then it n = Op OP_PUSH_GET_PROP \<and> q = Suc n else q = n))"
| "lval_at it ls sv d _ ixd p q = False"
  by pat_completeness auto
termination
  by (relation "measure (case_sum
        (case_sum (\<lambda>(_, _, _, _, e, _). 3 * size e)
          (\<lambda>(_, _, _, _, _, args, _). 3 * size_list (size_prod (\<lambda>_. 0) size) args))
        (case_sum (\<lambda>(_, _, _, _, args, _). 3 * size_list (size_prod (\<lambda>_. 0) size) args + 1)
          (\<lambda>(_, _, _, _, e, _). 3 * size e)))")
    simp_all

end
