(* ===== verification/Code_Gen_Expr.thy ===== *)
theory Code_Gen_Expr
  imports Code_Shape
begin

text \<open>
  The generator on expressions: on every well-formed expression it succeeds, keeps the invariant of
  \<open>Code_Gen_Laws\<close>, accounts for one more value on the run-time stack, and emits the code that
  \<open>Code_Shape\<close> describes.
\<close>

section \<open>Stretches of code\<close>

abbreviation lits :: "gen \<Rightarrow> var list" where "lits s \<equiv> gs_literals (gs s)"

text \<open>
  \<open>has X s p q F\<close>: the items of \<open>s\<close> from \<open>p\<close> up to \<open>q\<close> and its literals satisfy \<open>F\<close>, and so do the
  items of any code that is the same there, except perhaps at the positions \<open>X\<close>, which hold the uses
  of labels that are not yet defined.
\<close>

definition has :: "nat set \<Rightarrow> gen \<Rightarrow> nat \<Rightarrow> nat \<Rightarrow> (code \<Rightarrow> var list \<Rightarrow> bool) \<Rightarrow> bool" where
  "has X s p q F \<longleftrightarrow> q \<le> num_bytes s \<and>
     (\<forall>it ls. (\<forall>i. p \<le> i \<longrightarrow> i < q \<longrightarrow> i \<notin> X \<longrightarrow> it i = item_at s i) \<longrightarrow> prefix (lits s) ls \<longrightarrow> F it ls)"

lemma hasI:
  "q \<le> num_bytes s \<Longrightarrow> (\<And>it ls. (\<And>i. p \<le> i \<Longrightarrow> i < q \<Longrightarrow> i \<notin> X \<Longrightarrow> it i = item_at s i) \<Longrightarrow> prefix (lits s) ls \<Longrightarrow> F it ls) \<Longrightarrow>
   has X s p q F"
  by (simp add: has_def)

lemma hasD:
  "has X s a b F \<Longrightarrow> (\<And>i. a \<le> i \<Longrightarrow> i < b \<Longrightarrow> i \<notin> X \<Longrightarrow> it i = item_at s i) \<Longrightarrow> prefix (lits s) ls \<Longrightarrow> F it ls"
  by (simp add: has_def)

lemma has_ext: "has X s p q F \<Longrightarrow> ext s t \<Longrightarrow> has X t p q F"
proof -
  assume h: "has X s p q F" and e: "ext s t"
  have q: "q \<le> num_bytes s" using h by (simp add: has_def)
  have l: "prefix (lits s) (lits t)" using e by (simp add: ext_def)
  show ?thesis
  proof (rule hasI)
    show "q \<le> num_bytes t" using q ext_len[OF e] by simp
    fix it ls assume a: "\<And>i. p \<le> i \<Longrightarrow> i < q \<Longrightarrow> i \<notin> X \<Longrightarrow> it i = item_at t i" and "prefix (lits t) ls"
    then show "F it ls"
      using q l item_at_ext[OF e] by (intro hasD[OF h]) (auto intro: prefix_order.trans)
  qed
qed

lemma has_mono: "has X s p q F \<Longrightarrow> (\<And>it ls. F it ls \<Longrightarrow> G it ls) \<Longrightarrow> has X s p q G"
  by (simp add: has_def)

text \<open>
  \<open>runs P X s k F r\<close>: the generator, started in \<open>s\<close>, returns \<open>r\<close>; it has come to a state, has \<open>k\<close> more
  values on the stack, and the new code satisfies \<open>F\<close>, which is given its start and its end.
\<close>

definition runs :: "nat set \<Rightarrow> nat set \<Rightarrow> gen \<Rightarrow> int \<Rightarrow> (nat \<Rightarrow> nat \<Rightarrow> code \<Rightarrow> var list \<Rightarrow> bool) \<Rightarrow> gen option \<Rightarrow> bool" where
  "runs P X s k F r \<longleftrightarrow> (\<exists>t. r = Some t \<and> gen_step P s k t \<and> (\<forall>x \<in> X. x < num_bytes t) \<and>
     has X t (num_bytes s) (num_bytes t) (F (num_bytes s) (num_bytes t)))"

abbreviation followed :: "(nat \<Rightarrow> nat \<Rightarrow> code \<Rightarrow> var list \<Rightarrow> bool) \<Rightarrow> (nat \<Rightarrow> nat \<Rightarrow> code \<Rightarrow> var list \<Rightarrow> bool) \<Rightarrow>
    nat \<Rightarrow> nat \<Rightarrow> code \<Rightarrow> var list \<Rightarrow> bool" where
  "followed F G \<equiv> \<lambda>p q it ls. \<exists>m. F p m it ls \<and> G m q it ls"

lemma runsE:
  assumes "runs P X s k F r"
  obtains t where "r = Some t" "runs P X s k F (Some t)" "gen_step P s k t" "gen_inv P t"
    "has X t (num_bytes s) (num_bytes t) (F (num_bytes s) (num_bytes t))"
  using assms gen_stepD(1) by (auto simp: runs_def)

lemma runs_gen_step: "runs P X s k F (Some t) \<Longrightarrow> gen_step P s k t"
  by (simp add: runs_def)

lemma runs_inv: "runs P X s k F (Some t) \<Longrightarrow> gen_inv P t"
  using gen_stepD(1) by (auto simp: runs_def)

lemma runs_start: "gen_inv P s \<Longrightarrow> runs P {} s 0 (\<lambda>p q it ls. p = q) (Some s)"
  by (simp add: runs_def gen_step_refl has_def)

lemma runs_weaken: "runs P X s k F r \<Longrightarrow> (\<And>p q it ls. F p q it ls \<Longrightarrow> G p q it ls) \<Longrightarrow> runs P X s k G r"
  unfolding runs_def by (blast intro: has_mono)

lemma runs_trans:
  assumes a: "runs P X s j F (Some t)" and b: "runs Q {} t k G r" and m: "m = j + k"
  shows "runs Q X s m (followed F G) r"
proof -
  obtain u where u: "r = Some u" "gen_step Q t k u" "has {} u (num_bytes t) (num_bytes u) (G (num_bytes t) (num_bytes u))"
    using b by (auto simp: runs_def)
  have x: "\<forall>x \<in> X. x < num_bytes t" and st: "gen_step P s j t" and h: "has X t (num_bytes s) (num_bytes t) (F (num_bytes s) (num_bytes t))"
    using a by (auto simp: runs_def)
  note h' = has_ext[OF h gen_stepD(2)[OF u(2)]]
  have "has X u (num_bytes s) (num_bytes u) (followed F G (num_bytes s) (num_bytes u))"
  proof (rule hasI)
    fix it ls assume *: "\<And>i. num_bytes s \<le> i \<Longrightarrow> i < num_bytes u \<Longrightarrow> i \<notin> X \<Longrightarrow> it i = item_at u i"
      and p: "prefix (lits u) ls"
    have "F (num_bytes s) (num_bytes t) it ls"
      by (rule hasD[OF h' _ p]) (use * gen_stepD(6)[OF u(2)] in simp)
    moreover have "G (num_bytes t) (num_bytes u) it ls"
    proof (rule hasD[OF u(3) _ p])
      fix i assume "num_bytes t \<le> i" "i < num_bytes u"
      moreover from this have "i \<notin> X" using x by auto
      ultimately show "it i = item_at u i" using * gen_stepD(6)[OF st] by simp
    qed
    ultimately show "followed F G (num_bytes s) (num_bytes u) it ls" by blast
  qed simp
  moreover have "\<forall>x \<in> X. x < num_bytes u" using x gen_stepD(6)[OF u(2)] by fastforce
  ultimately show ?thesis using u gen_step_trans[OF st u(2) m] by (simp add: runs_def)
qed

lemma runs_puts: "puts P s x t \<Longrightarrow> runs P {} s 0 (\<lambda>p q it ls. it p = x \<and> q = Suc p) (Some t)"
  unfolding runs_def using putsD[of P s x t] by (auto intro!: hasI)

text \<open>Continuing a run by one primitive.\<close>

lemma runs_then_puts:
  "runs P X s k F (Some t) \<Longrightarrow> puts Q t x u \<Longrightarrow>
   runs Q X s k (\<lambda>p q it ls. \<exists>m. F p m it ls \<and> it m = x \<and> q = Suc m) (Some u)"
  using runs_trans[OF _ runs_puts, of P X s k F t Q x u k] by simp

lemma runs_emit:
  "runs P X s k F (Some t) \<Longrightarrow>
   runs P X s k (\<lambda>p q it ls. \<exists>m. F p m it ls \<and> it m = Byte b \<and> q = Suc m) (Some (emit_byte b t))"
  by (rule runs_then_puts[OF _ puts_byte[OF runs_inv]])

lemma runs_emit_ext:
  assumes "runs P X s k F (Some t)"
  shows "runs P X s k (\<lambda>p q it ls. \<exists>m. F p m it ls \<and> eop_at it e m \<and> q = m + 2) (Some (emit_extended_byte e t))"
  unfolding emit_extended_byte_def
  by (rule runs_weaken[OF runs_emit[OF runs_emit[OF assms]]]) (auto simp: eop_at_def)

lemma runs_quiet:
  assumes "runs P X s j F (Some t)" "gen_step P t k u" "bytes u = bytes t" "m = j + k"
  shows "runs P X s m F (Some u)"
  using assms has_ext gen_stepD(2)[OF assms(2)] gen_step_trans[of P s j t P k u m] by (auto simp: runs_def)

lemma push_pop_bytes [simp]: "bytes (push_stack n s) = bytes s" "bytes (pop_stack n s) = bytes s"
  by (simp_all add: push_stack_def pop_stack_def)

lemma runs_push: "runs P X s j F (Some t) \<Longrightarrow> 0 \<le> n \<Longrightarrow> runs P X s (j + n) F (Some (push_stack n t))"
  by (rule runs_quiet[OF _ gen_step_push[OF runs_inv]]) simp_all

lemma runs_cur: "runs P X s j F (Some t) \<Longrightarrow> cur_stack t = cur_stack s + j \<and> saved_stack t = saved_stack s \<and>
    loops t = loops s \<and> num_bytes s \<le> num_bytes t \<and> ext s t"
  using gen_stepD[of P s j t] by (auto simp: runs_def)

lemma runs_pop:
  assumes "runs P X s j F (Some t)" "0 \<le> n" "n \<le> cur_stack s + j" shows "runs P X s (j - n) F (Some (pop_stack n t))"
  using runs_quiet[OF assms(1) gen_step_pop[OF runs_inv[OF assms(1)] assms(2)], of "j - n"] assms(3) runs_cur[OF assms(1)]
  by simp

lemma runs_pop':
  "runs P X s j F (Some t) \<Longrightarrow> 0 \<le> n \<Longrightarrow> n \<le> cur_stack s + j \<Longrightarrow> m = j - n \<Longrightarrow> runs P X s m F (Some (pop_stack n t))"
  using runs_pop by simp

text \<open>Code that is generated with another saved stack position.\<close>

lemma runs_saved:
  assumes a: "runs P X s j F (Some t)" and c: "1 \<le> cur_stack t"
    and b: "runs P {} (t\<lparr>saved_stack := Some (cur_stack t - 1)\<rparr>) k G (Some u)" and m: "m = j + k"
  shows "runs P X s m (followed F G) (Some (u\<lparr>saved_stack := saved_stack t\<rparr>))"
proof -
  let ?t = "t\<lparr>saved_stack := Some (cur_stack t - 1)\<rparr>" and ?u = "u\<lparr>saved_stack := saved_stack t\<rparr>"
  have t: "gen_inv P t" using runs_inv[OF a] .
  have u: "gen_step P ?t k u" and h: "has {} u (num_bytes t) (num_bytes u) (G (num_bytes t) (num_bytes u))"
    using b by (auto simp: runs_def)
  have e: "ext t u" using gen_stepD(2)[OF u] by (simp add: ext_def)
  have e': "ext t ?u" "ext u ?u" using e by (simp_all add: ext_def)
  have "gen_inv P ?u"
    using gen_invD[OF gen_stepD(1)[OF u]] gen_invD(6)[OF t] e
    by (intro gen_inv_eq_fields[OF gen_stepD(1)[OF u]]) (fastforce simp: ext_def)+
  then have "gen_step P t k ?u" using e' gen_stepD[OF u] by (simp add: gen_step_def)
  then have "runs P {} t k G (Some ?u)" using has_ext[OF h e'(2)] by (simp add: runs_def)
  from runs_trans[OF a this m] show ?thesis .
qed

lemma gen_inv_saved:
  assumes "gen_inv P s" "1 \<le> cur_stack s" shows "gen_inv P (s\<lparr>saved_stack := Some (cur_stack s - 1)\<rparr>)"
  by (rule gen_inv_eq_fields[OF assms(1)]) (use assms gen_invD(3,4)[OF assms(1)] in simp_all)

text \<open>Variables.\<close>

lemma runs_var_op:
  assumes "runs P X s k F (Some t)"
  shows "runs P X s k (\<lambda>p q it ls. \<exists>m. F p m it ls \<and> var_at it op gop slot m q) (Some (emit_var_op op gop slot t))"
proof (cases "slot \<ge> NUM_READY_VARS")
  case True
  have "puts P (emit_op gop t) (Ref FIXUP_VAR_REF slot) (add_var_ref slot (emit_op gop t))"
    by (rule puts_var_ref) (use runs_inv[OF runs_emit[OF assms]] in simp_all)
  from runs_then_puts[OF runs_emit[OF assms] this]
  have "runs P X s k (\<lambda>p q it ls. \<exists>m. F p m it ls \<and> var_at it op gop slot m q) (Some (add_var_ref slot (emit_op gop t)))"
    by (rule runs_weaken) (use True in \<open>auto simp: var_at_def\<close>)
  then show ?thesis using True by (simp add: emit_var_op_def)
next
  case False
  show ?thesis using runs_weaken[OF runs_emit[OF assms]] False
    by (simp add: emit_var_op_def var_at_def)
qed

section \<open>Labels used once\<close>

definition label_use :: "gen \<Rightarrow> nat \<Rightarrow> nat \<Rightarrow> bool" where
  "label_use s k p \<longleftrightarrow> k < length (fixups s) \<and> fx_pc (fixups s ! k) = p \<and>
     fx_kind (fixups s ! k) = FIXUP_LABEL \<and> fx_next (fixups s ! k) = -1"

lemma label_use_ext: "label_use s k p \<Longrightarrow> ext s t \<Longrightarrow> label_use t k p"
  using ext_len[of s t] by (auto simp: label_use_def ext_def prefix_nth)

lemma label_use_chain: "label_use s k p \<Longrightarrow> chain (fixups s) (int k) {k}"
  using chain_link[of k "fixups s" "{}"] by (simp add: label_use_def chain_end)

lemma add_label_use:
  assumes i: "gen_inv P s" and n: "0 < num_bytes s"
  obtains t where "add_label s = (int (length (fixups s)), t)"
    "puts (insert (length (fixups s)) P) s (Ref FIXUP_LABEL 0) t" "label_use t (length (fixups s)) (num_bytes s)"
    "gs t = gs s" "max_stack t = max_stack s"
proof -
  obtain t where t: "add_linked_label (-1) s = (int (length (fixups s)), t)" "fx_next (last (fixups t)) = -1"
    "fx_kind (last (fixups t)) = FIXUP_LABEL" "length (fixups t) = Suc (length (fixups s))"
    "gs t = gs s" "max_stack t = max_stack s"
    and p: "puts (insert (length (fixups s)) P) s (Ref FIXUP_LABEL 0) t"
    using puts_linked_label[OF i n, of "-1"] by blast
  have e: "ext s t" and q: "num_bytes t = Suc (num_bytes s)" using gen_stepD(2)[OF putsD(1)[OF p]] putsD(3)[OF p] by auto
  have l: "last (fixups t) = fixups t ! length (fixups s)" using t(4) by (metis diff_Suc_1 last_conv_nth list.size(3) nat.simps(3))
  have "fx_pc (fixups t ! length (fixups s)) = num_bytes s"
  proof -
    have "num_bytes s \<le> fx_pc (fixups t ! length (fixups s))" using ext_pc[OF e] t(4) by simp
    moreover have "fx_pc (fixups t ! length (fixups s)) < num_bytes t"
      using order_ok_pc[OF gen_invD(1)[OF putsD(2)[OF p]]] t(4) by simp
    ultimately show ?thesis using q by simp
  qed
  then have "label_use t (length (fixups s)) (num_bytes s)" using t l by (simp add: label_use_def)
  with t p that show thesis by (simp add: add_label_def)
qed

lemma fx_at_iff: "order_ok s \<Longrightarrow> fx_at s i = Some f \<longleftrightarrow> f \<in> set (fixups s) \<and> fx_pc f = i"
proof -
  assume "order_ok s"
  then have "distinct (map fx_pc (fixups s))" by (simp add: order_ok_def strict_sorted_iff)
  then have "distinct (map fst (map (\<lambda>f. (fx_pc f, f)) (fixups s)))" by (simp add: comp_def)
  from map_of_eq_Some_iff[OF this] show ?thesis by (auto simp: fx_at_def)
qed

lemma order_ok_relabel: "order_ok s \<Longrightarrow> order_ok (s\<lparr>fixups := relabel C s (fixups s)\<rparr>)"
proof -
  assume o: "order_ok s"
  have e: "fx_pc ` set (relabel C s (fixups s)) = fx_pc ` set (fixups s)"
    by (metis list.set_map map_relabel(2))
  have "0 < fx_pc f \<and> fx_pc f < num_bytes s" if "f \<in> set (relabel C s (fixups s))" for f
  proof -
    have "fx_pc f \<in> fx_pc ` set (fixups s)" using that e by (metis imageI)
    then show ?thesis using o by (auto simp: order_ok_def)
  qed
  then show ?thesis using o by (simp add: order_ok_def map_relabel)
qed

text \<open>Defining a label changes the item of its use and nothing else.\<close>

lemma relabel_items:
  assumes o: "order_ok s" and u: "label_use s k p"
  defines "t \<equiv> s\<lparr>fixups := relabel {k} s (fixups s)\<rparr>"
  shows "item_at t p = Ref FIXUP_LABEL (num_bytes s)" "i \<noteq> p \<Longrightarrow> item_at t i = item_at s i"
proof -
  have o': "order_ok t" unfolding t_def using order_ok_relabel[OF o] .
  have nth: "fixups t ! j = (if j = k then set_label s (fixups s ! j) else fixups s ! j)" if "j < length (fixups s)" for j
    using that by (simp add: t_def nth_relabel)
  have len: "length (fixups t) = length (fixups s)" by (simp add: t_def)
  have k: "k < length (fixups s)" "fx_pc (fixups s ! k) = p" "fx_kind (fixups s ! k) = FIXUP_LABEL"
    using u by (auto simp: label_use_def)
  have "set_label s (fixups s ! k) \<in> set (fixups t)" using k(1) len nth[OF k(1)] by (metis nth_mem)
  then have "fx_at t p = Some (set_label s (fixups s ! k))" using k by (simp add: fx_at_iff[OF o'])
  then show "item_at t p = Ref FIXUP_LABEL (num_bytes s)" using k by (simp add: item_at_def fx_item_def)
  assume i: "i \<noteq> p"
  have "f \<in> set (fixups t) \<longleftrightarrow> f \<in> set (fixups s)" if f: "fx_pc f = i" for f
  proof
    assume "f \<in> set (fixups t)"
    then obtain j where j: "j < length (fixups s)" "fixups t ! j = f" by (metis in_set_conv_nth len)
    then have "j \<noteq> k" using f i k nth by auto
    then show "f \<in> set (fixups s)" using j nth by force
  next
    assume "f \<in> set (fixups s)"
    then obtain j where j: "j < length (fixups s)" "fixups s ! j = f" by (metis in_set_conv_nth)
    then have "j \<noteq> k" using f i k by auto
    then show "f \<in> set (fixups t)" using j nth len by (metis nth_mem)
  qed
  then have "fx_at t i = Some f \<longleftrightarrow> fx_at s i = Some f" for f
    unfolding fx_at_iff[OF o'] fx_at_iff[OF o] by blast
  then have "fx_at t i = fx_at s i" by (metis option.exhaust)
  then show "item_at t i = item_at s i" unfolding item_at_def by (simp add: t_def split: option.split)
qed

text \<open>Using a label before it is defined, and defining it.\<close>

lemma runs_label:
  assumes r: "runs P X s j F (Some t)" and n: "0 < num_bytes t"
  obtains k u where "add_label t = (int k, u)" "label_use u k (num_bytes t)" "length (fixups s) \<le> k" "ext t u"
    "runs (insert k P) (insert (num_bytes t) X) s j (\<lambda>p q it ls. \<exists>m. F p m it ls \<and> m = num_bytes t \<and> q = Suc m) (Some u)"
proof -
  obtain u where u: "add_label t = (int (length (fixups t)), u)"
    and p: "puts (insert (length (fixups t)) P) t (Ref FIXUP_LABEL 0) u" and l: "label_use u (length (fixups t)) (num_bytes t)"
    using add_label_use[OF runs_inv[OF r] n] by metis
  have "runs (insert (length (fixups t)) P) X s j (\<lambda>p q it ls. \<exists>m. F p m it ls \<and> it m = Ref FIXUP_LABEL 0 \<and> q = Suc m) (Some u)"
    by (rule runs_then_puts[OF r p])
  have q: "num_bytes u = Suc (num_bytes t)" and st: "gen_step (insert (length (fixups t)) P) t 0 u"
    using putsD[OF p] by auto
  have h: "has X t (num_bytes s) (num_bytes t) (F (num_bytes s) (num_bytes t))" and x: "\<forall>x \<in> X. x < num_bytes t"
    using r by (auto simp: runs_def)
  have "has (insert (num_bytes t) X) u (num_bytes s) (num_bytes u)
      (\<lambda>it ls. \<exists>m. F (num_bytes s) m it ls \<and> m = num_bytes t \<and> num_bytes u = Suc m)"
  proof (rule hasI)
    fix it ls assume a: "\<And>i. num_bytes s \<le> i \<Longrightarrow> i < num_bytes u \<Longrightarrow> i \<notin> insert (num_bytes t) X \<Longrightarrow> it i = item_at u i"
      and p: "prefix (lits u) ls"
    have "F (num_bytes s) (num_bytes t) it ls"
      by (rule hasD[OF has_ext[OF h gen_stepD(2)[OF st]] _ p]) (use a q in auto)
    then show "\<exists>m. F (num_bytes s) m it ls \<and> m = num_bytes t \<and> num_bytes u = Suc m" using q by simp
  qed simp
  moreover have "gen_step (insert (length (fixups t)) P) s j u"
    using gen_step_trans[OF runs_gen_step[OF r] st] by simp
  moreover have "\<forall>x \<in> insert (num_bytes t) X. x < num_bytes u" using x q by auto
  ultimately have "runs (insert (length (fixups t)) P) (insert (num_bytes t) X) s j
      (\<lambda>p q it ls. \<exists>m. F p m it ls \<and> m = num_bytes t \<and> q = Suc m) (Some u)"
    by (simp add: runs_def)
  then show thesis using that u l gen_stepD(7)[OF runs_gen_step[OF r]] gen_stepD(2)[OF st] by blast
qed

lemma runs_jump:
  assumes r: "runs P X s j F (Some t)"
  obtains k u where "add_label (emit_op op t) = (int k, u)" "label_use u k (Suc (num_bytes t))" "length (fixups s) \<le> k"
    "ext t u" "runs (insert k P) (insert (Suc (num_bytes t)) X) s j
      (\<lambda>p q it ls. F p (num_bytes t) it ls \<and> it (num_bytes t) = Op op \<and> q = num_bytes t + 2) (Some u)"
proof -
  have n: "0 < num_bytes (emit_op op t)" by simp
  obtain k u where u: "add_label (emit_op op t) = (int k, u)" "label_use u k (num_bytes (emit_op op t))" "length (fixups s) \<le> k"
    "ext (emit_op op t) u" and a: "runs (insert k P) (insert (num_bytes (emit_op op t)) X) s j (\<lambda>p q it ls. \<exists>m.
      (\<exists>m'. F p m' it ls \<and> it m' = Op op \<and> m = Suc m') \<and> m = num_bytes (emit_op op t) \<and> q = Suc m) (Some u)"
    using runs_label[OF runs_emit[OF r] n] by blast
  have "ext t u" using ext_trans[OF ext_emit_byte u(4)] .
  with u a show thesis by (intro that) (auto elim: runs_weaken)
qed

lemma runs_jump_ext:
  assumes r: "runs P X s j F (Some t)"
  obtains k u where "add_label (emit_extended_byte e t) = (int k, u)" "label_use u k (num_bytes t + 2)" "length (fixups s) \<le> k"
    "ext t u" "runs (insert k P) (insert (num_bytes t + 2) X) s j
      (\<lambda>p q it ls. F p (num_bytes t) it ls \<and> eop_at it e (num_bytes t) \<and> q = num_bytes t + 3) (Some u)"
proof -
  have b: "num_bytes (emit_extended_byte e t) = num_bytes t + 2" by (simp add: emit_extended_byte_def)
  then have n: "0 < num_bytes (emit_extended_byte e t)" by simp
  obtain k u where u: "add_label (emit_extended_byte e t) = (int k, u)" "label_use u k (num_bytes (emit_extended_byte e t))"
    "length (fixups s) \<le> k" "ext (emit_extended_byte e t) u"
    and a: "runs (insert k P) (insert (num_bytes (emit_extended_byte e t)) X) s j (\<lambda>p q it ls. \<exists>m.
      (\<exists>m'. F p m' it ls \<and> eop_at it e m' \<and> m = m' + 2) \<and> m = num_bytes (emit_extended_byte e t) \<and> q = Suc m) (Some u)"
    using runs_label[OF runs_emit_ext[OF r] n] by blast
  have "ext t u" using ext_trans[OF ext_trans[OF ext_emit_byte ext_emit_byte] u(4)[unfolded emit_extended_byte_def]] .
  with u a b show thesis by (intro that) (auto elim: runs_weaken)
qed

lemma label_use_runs: "label_use t k p \<Longrightarrow> runs P X t j F (Some u) \<Longrightarrow> label_use u k p"
  using label_use_ext runs_cur by blast

lemma runs_define:
  assumes r: "runs Q X s j F (Some t)" and u: "label_use t k x" and new: "length (fixups s) \<le> k"
    and sub: "Q - {k} \<subseteq> P" and X: "x \<in> X"
  obtains v where "define_label (int k) t = Some v"
    "runs P (X - {x}) s j (\<lambda>p q it ls. F p q it ls \<and> it x = Ref FIXUP_LABEL q) (Some v)"
    "num_bytes v = num_bytes t" "\<forall>i y. label_use t i y \<longrightarrow> label_use v i y"
proof -
  let ?v = "t\<lparr>fixups := relabel {k} t (fixups t)\<rparr>"
  have c: "chain (fixups t) (int k) {k}" using label_use_chain[OF u] .
  have d: "define_label (int k) t = Some ?v" "gen_step P s j ?v"
    using define_label_step[OF c runs_gen_step[OF r]] new gen_step_mono[OF _ sub] by auto
  have i: "gen_inv Q t" using runs_inv[OF r] .
  note it = relabel_items[OF gen_invD(1)[OF i] u]
  have h: "has X t (num_bytes s) (num_bytes t) (F (num_bytes s) (num_bytes t))" using r by (simp add: runs_def)
  have b: "num_bytes s \<le> x" "x < num_bytes t"
  proof -
    show "x < num_bytes t" using order_ok_pc[OF gen_invD(1)[OF i], of "fixups t ! k"] u by (auto simp: label_use_def)
    have "num_bytes s \<le> fx_pc (fixups t ! k)"
      using ext_pc[OF gen_stepD(2)[OF runs_gen_step[OF r]] new] u by (auto simp: label_use_def)
    then show "num_bytes s \<le> x" using u by (simp add: label_use_def)
  qed
  have "has (X - {x}) ?v (num_bytes s) (num_bytes ?v)
      (\<lambda>it ls. F (num_bytes s) (num_bytes ?v) it ls \<and> it x = Ref FIXUP_LABEL (num_bytes ?v))"
  proof (rule hasI)
    fix it' ls assume a: "\<And>i. num_bytes s \<le> i \<Longrightarrow> i < num_bytes ?v \<Longrightarrow> i \<notin> X - {x} \<Longrightarrow> it' i = item_at ?v i"
      and p: "prefix (lits ?v) ls"
    have "F (num_bytes s) (num_bytes t) it' ls"
    proof (rule hasD[OF h])
      fix i assume "num_bytes s \<le> i" "i < num_bytes t" "i \<notin> X"
      then show "it' i = item_at t i" using a[of i] X it(2)[of i] by auto
    qed (use p in simp)
    moreover have "it' x = Ref FIXUP_LABEL (num_bytes t)" using a[of x] b it(1) by simp
    ultimately show "F (num_bytes s) (num_bytes ?v) it' ls \<and> it' x = Ref FIXUP_LABEL (num_bytes ?v)" by simp
  qed simp
  moreover have "\<forall>y \<in> X - {x}. y < num_bytes ?v" using r by (auto simp: runs_def)
  ultimately have "runs P (X - {x}) s j (\<lambda>p q it ls. F p q it ls \<and> it x = Ref FIXUP_LABEL q) (Some ?v)"
    using d(2) by (simp add: runs_def)
  moreover have "label_use t i y \<Longrightarrow> label_use ?v i y" for i y by (auto simp: label_use_def nth_relabel)
  ultimately show thesis using d(1) by (intro that[of ?v]) auto
qed

lemma runs_define_last:
  assumes "runs Q X s j F (Some t)" "label_use t k x" "length (fixups s) \<le> k" "Q - {k} \<subseteq> P" "x \<in> X" "Y = X - {x}"
  obtains v where "define_label (int k) t = Some v"
    "runs P Y s j (\<lambda>p q it ls. F p q it ls \<and> it x = Ref FIXUP_LABEL q) (Some v)"
  unfolding assms(6) by (rule runs_define[OF assms(1-5)])

section \<open>Expressions\<close>

text \<open>What is shown of every expression, and of every left side.\<close>

definition expr_ok :: "expr \<Rightarrow> bool" where
  "expr_ok e \<longleftrightarrow> (\<forall>P s. gen_inv P s \<longrightarrow> wf_expr (saved_stack s \<noteq> None) e \<longrightarrow>
     runs P {} s 1 (\<lambda>p q it ls. p < q \<and> code_at it ls (saved_stack s) (cur_stack s) e p q) (generate_expr e s))"

definition lvalue_ok :: "expr \<Rightarrow> bool" where
  "lvalue_ok e \<longleftrightarrow> (\<forall>P s ixd. gen_inv P s \<longrightarrow> wf_expr (saved_stack s \<noteq> None) e \<longrightarrow> (if ixd then indexable e else is_lvalue e) \<longrightarrow>
     runs P {} s (lv_push e + (if ixd then 1 else 0))
       (\<lambda>p q it ls. p \<le> q \<and> lval_at it ls (saved_stack s) (cur_stack s) e ixd p q) (push_lvalue e ixd s))"

lemma expr_okD:
  "expr_ok e \<Longrightarrow> gen_inv P s \<Longrightarrow> wf_expr (saved_stack s \<noteq> None) e \<Longrightarrow>
   runs P {} s 1 (\<lambda>p q it ls. p < q \<and> code_at it ls (saved_stack s) (cur_stack s) e p q) (generate_expr e s)"
  by (simp add: expr_ok_def)

text \<open>The code of one expression after another one.\<close>

lemma expr_then:
  assumes a: "runs P X s j F (Some t)" and e: "expr_ok e" and w: "wf_expr (saved_stack s \<noteq> None) e"
  obtains u where "generate_expr e t = Some u" "ext t u"
    "runs P X s (j + 1) (\<lambda>p q it ls. \<exists>m < q. F p m it ls \<and> code_at it ls (saved_stack s) (cur_stack s + j) e m q) (Some u)"
proof -
  have b: "runs P {} t 1 (\<lambda>p q it ls. p < q \<and> code_at it ls (saved_stack s) (cur_stack s + j) e p q) (generate_expr e t)"
    using expr_okD[OF e runs_inv[OF a]] w runs_cur[OF a] by simp
  from runs_trans[OF a this refl] obtain u where u: "generate_expr e t = Some u"
    "runs P X s (j + 1) (followed F (\<lambda>p q it ls. p < q \<and> code_at it ls (saved_stack s) (cur_stack s + j) e p q)) (Some u)"
    by (auto elim: runsE)
  have "ext t u" using b u(1) runs_cur by simp
  then show thesis by (rule that[OF u(1)]) (rule runs_weaken[OF u(2)], blast)
qed

lemma expr_then':
  assumes "runs P X s j F (Some t)" "expr_ok e" "wf_expr (saved_stack s \<noteq> None) e"
    and "S = saved_stack s" "c = cur_stack s + j" "m = j + 1"
  obtains u where "generate_expr e t = Some u" "ext t u"
    "runs P X s m (\<lambda>p q it ls. \<exists>m < q. F p m it ls \<and> code_at it ls S c e m q) (Some u)"
  using expr_then[OF assms(1-3)] unfolding assms(4-6) .

text \<open>The same in an index, where \<open>$\<close> stands for the value on top of the stack.\<close>

lemma index_then:
  assumes a: "runs P X s j F (Some t)" and e: "expr_ok e" and w: "wf_expr True e" and c: "1 \<le> cur_stack t"
  obtains u where "generate_expr e (t\<lparr>saved_stack := Some (cur_stack t - 1)\<rparr>) = Some u"
    "runs P {} (t\<lparr>saved_stack := Some (cur_stack t - 1)\<rparr>) 1 (\<lambda>p q it ls. p < q \<and> code_at it ls (Some (cur_stack t - 1)) (cur_stack t) e p q) (Some u)"
proof -
  have "runs P {} (t\<lparr>saved_stack := Some (cur_stack t - 1)\<rparr>) 1
      (\<lambda>p q it ls. p < q \<and> code_at it ls (Some (cur_stack t - 1)) (cur_stack t) e p q)
      (generate_expr e (t\<lparr>saved_stack := Some (cur_stack t - 1)\<rparr>))"
    using expr_okD[OF e gen_inv_saved[OF runs_inv[OF a] c]] w by simp
  then show thesis using that by (auto elim: runsE)
qed

lemma label_use_simps [simp]:
  "label_use (push_stack n s) k p = label_use s k p" "label_use (pop_stack n s) k p = label_use s k p"
  "label_use (emit_byte b s) k p = label_use s k p" "label_use (emit_extended_byte e s) k p = label_use s k p"
  by (simp_all add: label_use_def push_stack_def pop_stack_def emit_extended_byte_def)

lemma num_bytes_ext_byte [simp]: "num_bytes (emit_extended_byte e s) = num_bytes s + 2"
  by (simp add: emit_extended_byte_def)

lemma ok_unary:
  assumes e: "expr_ok e"
    and g: "\<And>s. generate_expr x s = map_option (emit_op op) (generate_expr e s)"
    and w: "\<And>d. wf_expr d x = wf_expr d e"
    and c: "\<And>it ls sv d p q. code_at it ls sv d x p q = (\<exists>m. code_at it ls sv d e p m \<and> it m = Op op \<and> q = Suc m)"
  shows "expr_ok x"
  unfolding expr_ok_def
proof (intro allI impI)
  fix P s assume i: "gen_inv P s" "wf_expr (saved_stack s \<noteq> None) x"
  obtain u where u: "generate_expr e s = Some u"
    "runs P {} s (0 + 1) (\<lambda>p q it ls. \<exists>m < q. p = m \<and> code_at it ls (saved_stack s) (cur_stack s + 0) e m q) (Some u)"
    using expr_then[OF runs_start[OF i(1)] e] i(2) w by auto
  show "runs P {} s 1 (\<lambda>p q it ls. p < q \<and> code_at it ls (saved_stack s) (cur_stack s) x p q) (generate_expr x s)"
    unfolding g u(1) option.map(2) by (rule runs_weaken[OF runs_emit[OF u(2), simplified]]) (auto simp: c)
qed

lemma ok_binary:
  assumes l: "expr_ok l" and r: "expr_ok r"
    and g: "\<And>s. generate_expr x s = do { s \<leftarrow> generate_expr l s; s \<leftarrow> generate_expr r s; Some (pop_stack 1 (emit_op op s)) }"
    and w: "\<And>d. wf_expr d x = (wf_expr d l \<and> wf_expr d r)"
    and c: "\<And>it ls sv d p q. code_at it ls sv d x p q =
      (\<exists>m n. code_at it ls sv d l p m \<and> code_at it ls sv (d + 1) r m n \<and> it n = Op op \<and> q = Suc n)"
  shows "expr_ok x"
  unfolding expr_ok_def
proof (intro allI impI)
  fix P s assume i: "gen_inv P s" "wf_expr (saved_stack s \<noteq> None) x"
  then have n: "0 \<le> cur_stack s" using gen_invD by blast
  obtain t where t: "generate_expr l s = Some t"
    and t2: "runs P {} s (0 + 1) (\<lambda>p q it ls. \<exists>m < q. p = m \<and> code_at it ls (saved_stack s) (cur_stack s + 0) l m q) (Some t)"
    using expr_then[OF runs_start[OF i(1)] l] i(2) w by auto
  obtain u where u: "generate_expr r t = Some u"
    and u2: "runs P {} s (0 + 1 + 1) (\<lambda>p q it ls. \<exists>m < q. (\<exists>m'<m. p = m' \<and> code_at it ls (saved_stack s) (cur_stack s + 0) l m' m) \<and>
      code_at it ls (saved_stack s) (cur_stack s + (0 + 1)) r m q) (Some u)"
    using expr_then[OF t2 r] i(2) w by auto
  show "runs P {} s 1 (\<lambda>p q it ls. p < q \<and> code_at it ls (saved_stack s) (cur_stack s) x p q) (generate_expr x s)"
    unfolding g t u Option.bind.simps
    by (rule runs_weaken[OF runs_pop[OF runs_emit[OF u2], where n = 1, simplified]]) (use n in \<open>auto simp: c\<close>)
qed

subsection \<open>Literals, variables and the length\<close>

lemma ok_literal: "expr_ok (EXPR_VAR v)"
  unfolding expr_ok_def
proof (intro allI impI)
  fix P s assume i: "gen_inv P s" and w: "wf_expr (saved_stack s \<noteq> None) (EXPR_VAR v)"
  let ?small = "case v of VInt n \<Rightarrow> IN_OPTIM_NUM_RANGE (sint n) | _ \<Rightarrow> False"
  show "runs P {} s 1 (\<lambda>p q it ls. p < q \<and> code_at it ls (saved_stack s) (cur_stack s) (EXPR_VAR v) p q) (generate_expr (EXPR_VAR v) s)"
  proof (cases ?small)
    case True
    then obtain n where n: "v = VInt n" "IN_OPTIM_NUM_RANGE (sint n)" by (auto split: var.splits)
    note a = runs_push[OF runs_emit[OF runs_start[OF i], of "op_byte (OPTIM_NUM_TO_OPCODE (sint n))"], of 1]
    have "generate_expr (EXPR_VAR v) s = Some (push_stack 1 (emit_op (OPTIM_NUM_TO_OPCODE (sint n)) s))"
      using n by simp
    then show ?thesis using n by (auto intro: runs_weaken[OF a[simplified]])
  next
    case False
    note a = runs_emit[OF runs_start[OF i], of "op_byte OP_IMM"]
    obtain t k where t: "add_literal v (emit_op OP_IMM s) = Some t" and p: "puts P (emit_op OP_IMM s) (Ref FIXUP_LITERAL k) t"
      and l: "k < length (lits t)" "lits t ! k = v \<or> equality v (lits t ! k) True = Some True"
      using puts_literal[OF runs_inv[OF a], of v] w by auto
    have g: "generate_expr (EXPR_VAR v) s = Some (push_stack 1 t)" using False t by (auto split: var.splits)
    note b = runs_push[OF runs_then_puts[OF a p], of 1, simplified]
    have "runs P {} s 1 (\<lambda>p q it ls. it p = Op OP_IMM \<and> it (Suc p) = Ref FIXUP_LITERAL k \<and> q = Suc (Suc p) \<and>
        prefix (lits t) ls) (Some (push_stack 1 t))"
    proof -
      have "lits (push_stack 1 t) = lits t" by (simp add: push_stack_def)
      then show ?thesis using b by (auto simp: runs_def has_def)
    qed
    then show ?thesis unfolding g
    proof (rule runs_weaken)
      fix p q it ls
      assume h: "it p = Op OP_IMM \<and> it (Suc p) = Ref FIXUP_LITERAL k \<and> q = Suc (Suc p) \<and> prefix (lits t) ls"
      then have "k < length ls" "ls ! k = lits t ! k" using l(1) prefix_length_le prefix_nth by fastforce+
      then show "p < q \<and> code_at it ls (saved_stack s) (cur_stack s) (EXPR_VAR v) p q" using h l(2) False by auto
    qed
  qed
qed

lemma ok_id: "expr_ok (EXPR_ID slot)"
  unfolding expr_ok_def
proof (intro allI impI)
  fix P s assume i: "gen_inv P s"
  note a = runs_push[OF runs_var_op[OF runs_start[OF i], where op = OP_PUSH and gop = OP_G_PUSH and slot = slot], of 1, simplified]
  show "runs P {} s 1 (\<lambda>p q it ls. p < q \<and> code_at it ls (saved_stack s) (cur_stack s) (EXPR_ID slot) p q) (generate_expr (EXPR_ID slot) s)"
    unfolding generate_expr.simps by (rule runs_weaken[OF a]) (auto simp: var_at_def split: if_splits)
qed

lemma ok_length: "expr_ok EXPR_LENGTH"
  unfolding expr_ok_def
proof (intro allI impI)
  fix P s assume i: "gen_inv P s" and w: "wf_expr (saved_stack s \<noteq> None) EXPR_LENGTH"
  then obtain j where j: "saved_stack s = Some j" by auto
  note a = runs_emit_ext[OF runs_start[OF i], of EOP_LENGTH]
  let ?t = "emit_extended_byte EOP_LENGTH s"
  have n: "0 < num_bytes ?t" by (simp add: emit_extended_byte_def)
  have "saved_stack ?t = Some j" using runs_cur[OF a] j by simp
  then have "puts P ?t (Ref FIXUP_STACK (nat j)) (add_stack_ref j ?t)"
    using puts_stack_ref[OF runs_inv[OF a] n] gen_invD(6)[OF runs_inv[OF a]] by auto
  from runs_push[OF runs_then_puts[OF a this], of 1, simplified]
  show "runs P {} s 1 (\<lambda>p q it ls. p < q \<and> code_at it ls (saved_stack s) (cur_stack s) EXPR_LENGTH p q) (generate_expr EXPR_LENGTH s)"
    using j by (auto intro: runs_weaken)
qed

subsection \<open>Indexes\<close>

lemma ok_index:
  assumes l: "expr_ok l" and r: "expr_ok r" shows "expr_ok (EXPR_INDEX l r)"
  unfolding expr_ok_def
proof (intro allI impI)
  fix P s assume i: "gen_inv P s" and w: "wf_expr (saved_stack s \<noteq> None) (EXPR_INDEX l r)"
  have n: "0 \<le> cur_stack s" using gen_invD i by blast
  obtain t where t: "generate_expr l s = Some t" and a: "runs P {} s 1 (\<lambda>p q it ls. p < q \<and> code_at it ls (saved_stack s) (cur_stack s) l p q) (Some t)"
    using expr_okD[OF l i] w by (auto elim: runsE)
  have c: "cur_stack t = cur_stack s + 1" using runs_cur[OF a] by simp
  obtain u where u: "generate_expr r (t\<lparr>saved_stack := Some (cur_stack t - 1)\<rparr>) = Some u"
    and b: "runs P {} (t\<lparr>saved_stack := Some (cur_stack t - 1)\<rparr>) 1
      (\<lambda>p q it ls. p < q \<and> code_at it ls (Some (cur_stack t - 1)) (cur_stack t) r p q) (Some u)"
    using index_then[OF a r] w c n by auto
  note d = runs_saved[OF a _ b, of 2]
  note e = runs_pop[OF runs_emit[OF d, of "op_byte OP_REF"], of 1]
  show "runs P {} s 1 (\<lambda>p q it ls. p < q \<and> code_at it ls (saved_stack s) (cur_stack s) (EXPR_INDEX l r) p q)
      (generate_expr (EXPR_INDEX l r) s)"
    using t u by (simp add: save_stack_top_def restore_stack_top_def)
      (rule runs_weaken[OF e[simplified]], use n c in \<open>auto intro: less_SucI less_trans\<close>)
qed

lemma ok_range:
  assumes l: "expr_ok l" and f: "expr_ok f" and r: "expr_ok r" shows "expr_ok (EXPR_RANGE l f r)"
  unfolding expr_ok_def
proof (intro allI impI)
  fix P s assume i: "gen_inv P s" and w: "wf_expr (saved_stack s \<noteq> None) (EXPR_RANGE l f r)"
  have n: "0 \<le> cur_stack s" using gen_invD i by blast
  obtain t where t: "generate_expr l s = Some t" and a: "runs P {} s 1 (\<lambda>p q it ls. p < q \<and> code_at it ls (saved_stack s) (cur_stack s) l p q) (Some t)"
    using expr_okD[OF l i] w by (auto elim: runsE)
  have c: "cur_stack t = cur_stack s + 1" using runs_cur[OF a] by simp
  let ?t = "t\<lparr>saved_stack := Some (cur_stack t - 1)\<rparr>"
  obtain u where u: "generate_expr f ?t = Some u"
    and b: "runs P {} ?t 1 (\<lambda>p q it ls. p < q \<and> code_at it ls (Some (cur_stack t - 1)) (cur_stack t) f p q) (Some u)"
    using index_then[OF a f] w c n by auto
  obtain v where v: "generate_expr r u = Some v"
    and b2: "runs P {} ?t (1 + 1) (\<lambda>p q it ls. \<exists>m<q. (p < m \<and> code_at it ls (Some (cur_stack t - 1)) (cur_stack t) f p m) \<and>
      code_at it ls (saved_stack ?t) (cur_stack ?t + 1) r m q) (Some v)"
    using expr_then[OF b r] w by auto
  note d = runs_saved[OF a _ b2, of 3]
  note e = runs_pop[OF runs_emit[OF d, of "op_byte OP_RANGE_REF"], of 2]
  show "runs P {} s 1 (\<lambda>p q it ls. p < q \<and> code_at it ls (saved_stack s) (cur_stack s) (EXPR_RANGE l f r) p q)
      (generate_expr (EXPR_RANGE l f r) s)"
    using t u v by (simp add: save_stack_top_def restore_stack_top_def)
      (rule runs_weaken[OF e[simplified]], use n c in \<open>auto simp: add.commute[of 2] intro: less_SucI less_trans\<close>)
qed

subsection \<open>Lists\<close>

lemma ok_args:
  "\<forall>a \<in> set args. expr_ok (snd a) \<and> wf_expr (saved_stack s \<noteq> None) (snd a) \<Longrightarrow> gen_inv P s \<Longrightarrow>
   (\<not> fa \<longrightarrow> 1 \<le> cur_stack s) \<Longrightarrow>
   runs P {} s (if fa \<and> args \<noteq> [] then 1 else 0)
     (\<lambda>p q it ls. p \<le> q \<and> (args \<noteq> [] \<longrightarrow> p < q) \<and>
        args_at it ls (saved_stack s) (if fa then cur_stack s else cur_stack s - 1) fa args p q)
     (generate_args fa args s)"
proof (induction args arbitrary: fa s)
  case Nil
  then show ?case using runs_start[of P s] by (auto intro: runs_weaken)
next
  case (Cons a args)
  obtain k e where a: "a = (k, e)" by (cases a)
  have n: "0 \<le> cur_stack s" using gen_invD Cons.prems(2) by blast
  define op where "op = (if k = ARG_NORMAL then (if fa then OP_MAKE_SINGLETON_LIST else OP_LIST_ADD_TAIL)
             else (if fa then OP_CHECK_LIST_FOR_SPLICE else OP_LIST_APPEND))"
  obtain t where t: "generate_expr e s = Some t" and r: "runs P {} s 1
      (\<lambda>p q it ls. p < q \<and> code_at it ls (saved_stack s) (cur_stack s) e p q) (Some t)"
    using expr_okD[of e P s] Cons.prems a by (auto elim: runsE)
  define u where "u = pop_stack (if fa then 0 else 1) (emit_op op t)"
  have b: "runs P {} s (if fa then 1 else 0) (\<lambda>p q it ls. \<exists>m. (p < m \<and> code_at it ls (saved_stack s) (cur_stack s) e p m) \<and>
      it m = Op op \<and> q = Suc m) (Some u)"
    using runs_pop[OF runs_emit[OF r, of "op_byte op"], of 0] runs_pop[OF runs_emit[OF r, of "op_byte op"], of 1] n
    unfolding u_def by (cases fa) simp_all
  have c: "cur_stack u = (if fa then cur_stack s + 1 else cur_stack s)" "saved_stack u = saved_stack s"
    using runs_cur[OF b] by auto
  have d: "runs P {} u 0 (\<lambda>p q it ls. p \<le> q \<and> (args \<noteq> [] \<longrightarrow> p < q) \<and>
      args_at it ls (saved_stack s) (if fa then cur_stack s else cur_stack s - 1) False args p q) (generate_args False args u)"
    using Cons.IH[of u False] Cons.prems a c n runs_inv[OF b] by (cases fa) simp_all
  have g: "generate_args fa (a # args) s = generate_args False args u" using t a by (simp add: u_def op_def Let_def)
  show ?case unfolding g
    by (rule runs_weaken[OF runs_trans[OF b d]]) (use a in \<open>auto simp: op_def\<close>)
qed

lemma ok_arg_list:
  assumes "\<forall>a \<in> set args. expr_ok (snd a) \<and> wf_expr (saved_stack s \<noteq> None) (snd a)" "gen_inv P s"
  shows "runs P {} s 1 (\<lambda>p q it ls. p < q \<and> list_at it ls (saved_stack s) (cur_stack s) args p q) (generate_arg_list args s)"
proof (cases "args = []")
  case True
  show ?thesis using runs_push[OF runs_emit[OF runs_start[OF assms(2)], of "op_byte OP_MAKE_EMPTY_LIST"], of 1] True
    by (auto intro: runs_weaken)
next
  case False
  show ?thesis using ok_args[OF assms, of True] False by (auto intro: runs_weaken)
qed

lemma ok_codes:
  assumes "\<forall>a \<in> set args. expr_ok (snd a) \<and> wf_expr (saved_stack s \<noteq> None) (snd a)" "gen_inv P s"
  shows "runs P {} s 1 (\<lambda>p q it ls. p < q \<and> (if args = [] then it p = Op (OPTIM_NUM_TO_OPCODE 0) \<and> q = Suc p
    else list_at it ls (saved_stack s) (cur_stack s) args p q)) (generate_codes args s)"
proof (cases "args = []")
  case True
  show ?thesis using runs_push[OF runs_emit[OF runs_start[OF assms(2)], of "op_byte (OPTIM_NUM_TO_OPCODE 0)"], of 1] True
    by (auto intro: runs_weaken)
next
  case False
  show ?thesis using ok_arg_list[OF assms] False by (auto intro: runs_weaken)
qed

lemma ok_list: "\<forall>a \<in> set args. expr_ok (snd a) \<Longrightarrow> expr_ok (EXPR_LIST args)"
  unfolding expr_ok_def[of "EXPR_LIST args"] using ok_arg_list by simp

lemma args_then:
  assumes a: "runs P X s j F (Some t)" and e: "\<forall>a \<in> set args. expr_ok (snd a) \<and> wf_expr (saved_stack s \<noteq> None) (snd a)"
  obtains u where "generate_arg_list args t = Some u" "runs P X s (j + 1) (\<lambda>p q it ls. \<exists>m < q. F p m it ls) (Some u)"
proof -
  have "runs P {} t 1 (\<lambda>p q it ls. p < q \<and> list_at it ls (saved_stack t) (cur_stack t) args p q) (generate_arg_list args t)"
    using ok_arg_list[OF _ runs_inv[OF a]] e runs_cur[OF a] by simp
  from runs_trans[OF a this refl] obtain u where u: "generate_arg_list args t = Some u"
    "runs P X s (j + 1) (followed F (\<lambda>p q it ls. p < q \<and> list_at it ls (saved_stack t) (cur_stack t) args p q)) (Some u)"
    by (auto elim: runsE)
  show thesis by (rule that[OF u(1)]) (rule runs_weaken[OF u(2)], blast)
qed

lemma ok_call: "\<forall>a \<in> set args. expr_ok (snd a) \<Longrightarrow> expr_ok (EXPR_CALL f args)"
  unfolding expr_ok_def[of "EXPR_CALL f args"]
proof (intro allI impI)
  fix P s assume e: "\<forall>a \<in> set args. expr_ok (snd a)" and i: "gen_inv P s" and w: "wf_expr (saved_stack s \<noteq> None) (EXPR_CALL f args)"
  have e': "\<forall>a \<in> set args. expr_ok (snd a) \<and> wf_expr (saved_stack s \<noteq> None) (snd a)" using e w by simp
  obtain u where u: "generate_arg_list args s = Some u" and r: "runs P {} s (0 + 1) (\<lambda>p q it ls. \<exists>m < q. p = m) (Some u)"
    using args_then[OF runs_start[OF i] e'] .
  note c = runs_emit[OF runs_emit[OF r, of "op_byte OP_BI_FUNC_CALL"], of "word_of_nat f"]
  have g: "generate_expr (EXPR_CALL f args) s = Some (emit_byte (word_of_nat f) (emit_op OP_BI_FUNC_CALL u))"
    using u by (simp del: generate_arg_list.simps)
  show "runs P {} s 1 (\<lambda>p q it ls. p < q \<and> code_at it ls (saved_stack s) (cur_stack s) (EXPR_CALL f args) p q)
      (generate_expr (EXPR_CALL f args) s)"
    unfolding g by (rule runs_weaken[OF c[simplified]]) auto
qed

lemma ok_verb: "expr_ok l \<Longrightarrow> expr_ok r \<Longrightarrow> \<forall>a \<in> set args. expr_ok (snd a) \<Longrightarrow> expr_ok (EXPR_VERB l r args)"
  unfolding expr_ok_def[of "EXPR_VERB l r args"]
proof (intro allI impI)
  fix P s assume l: "expr_ok l" and r: "expr_ok r" and e: "\<forall>a \<in> set args. expr_ok (snd a)"
    and i: "gen_inv P s" and w: "wf_expr (saved_stack s \<noteq> None) (EXPR_VERB l r args)"
  have n: "0 \<le> cur_stack s" using gen_invD i by blast
  have e': "\<forall>a \<in> set args. expr_ok (snd a) \<and> wf_expr (saved_stack s \<noteq> None) (snd a)" using e w by simp
  obtain t where t: "generate_expr l s = Some t" and a: "runs P {} s (0 + 1) (\<lambda>p q it ls. \<exists>m < q. p = m \<and>
      code_at it ls (saved_stack s) (cur_stack s + 0) l m q) (Some t)"
    using expr_then[OF runs_start[OF i] l] w by auto
  obtain u where u: "generate_expr r t = Some u" and b: "runs P {} s (0 + 1 + 1) (\<lambda>p q it ls. \<exists>m<q. (\<exists>m'<m. p = m' \<and>
      code_at it ls (saved_stack s) (cur_stack s + 0) l m' m) \<and> code_at it ls (saved_stack s) (cur_stack s + (0 + 1)) r m q) (Some u)"
    using expr_then[OF a r] w by auto
  have "runs P {} s (0 + 1 + 1) (\<lambda>p q it ls. p < q) (Some u)" by (rule runs_weaken[OF b]) auto
  then obtain v where v: "generate_arg_list args u = Some v"
    and c: "runs P {} s (0 + 1 + 1 + 1) (\<lambda>p q it ls. \<exists>m < q. p < m) (Some v)"
    using args_then[OF _ e'] by blast
  note d = runs_pop[OF runs_emit[OF c, of "op_byte OP_CALL_VERB"], of 2]
  have g: "generate_expr (EXPR_VERB l r args) s = Some (pop_stack 2 (emit_op OP_CALL_VERB v))"
    using t u v by (simp del: generate_arg_list.simps)
  show "runs P {} s 1 (\<lambda>p q it ls. p < q \<and> code_at it ls (saved_stack s) (cur_stack s) (EXPR_VERB l r args) p q)
      (generate_expr (EXPR_VERB l r args) s)"
    unfolding g by (rule runs_weaken[OF d[simplified]]) (use n in auto)
qed

subsection \<open>Jumps\<close>

lemma ok_short:
  assumes l: "expr_ok l" and r: "expr_ok r"
    and g: "\<And>s. generate_expr x s = do {
      s \<leftarrow> generate_expr l s;
      let (end_label, s) = add_label (emit_op op s);
      s \<leftarrow> generate_expr r (pop_stack 1 s);
      define_label end_label s }"
    and w: "\<And>d. wf_expr d x = (wf_expr d l \<and> wf_expr d r)"
    and c: "\<And>it ls sv d p q. code_at it ls sv d x p q = (\<exists>m. code_at it ls sv d l p m \<and> it m = Op op \<and>
      it (Suc m) = Ref FIXUP_LABEL q \<and> code_at it ls sv d r (m + 2) q)"
  shows "expr_ok x"
  unfolding expr_ok_def
proof (intro allI impI)
  fix P s assume i: "gen_inv P s" "wf_expr (saved_stack s \<noteq> None) x"
  have n: "0 \<le> cur_stack s" using gen_invD i by blast
  obtain t where t: "generate_expr l s = Some t" and a: "runs P {} s 1
      (\<lambda>p q it ls. p < q \<and> code_at it ls (saved_stack s) (cur_stack s) l p q) (Some t)"
    using expr_okD[OF l i(1)] i(2) w by (auto elim: runsE)
  obtain k u where u: "add_label (emit_op op t) = (int k, u)" "label_use u k (Suc (num_bytes t))" "length (fixups s) \<le> k" "ext t u"
    and d: "runs (insert k P) {Suc (num_bytes t)} s 1 (\<lambda>p q it ls. (p < num_bytes t \<and>
        code_at it ls (saved_stack s) (cur_stack s) l p (num_bytes t)) \<and> it (num_bytes t) = Op op \<and> q = num_bytes t + 2) (Some u)"
    using runs_jump[OF a, of op] .
  have d2: "runs (insert k P) {Suc (num_bytes t)} s 0 (\<lambda>p q it ls. (p < num_bytes t \<and>
        code_at it ls (saved_stack s) (cur_stack s) l p (num_bytes t)) \<and> it (num_bytes t) = Op op \<and> q = num_bytes t + 2) (Some (pop_stack 1 u))"
    by (rule runs_pop'[OF d]) (use n in simp_all)
  have wr: "wf_expr (saved_stack s \<noteq> None) r" using i(2) w by simp
  obtain v where v: "generate_expr r (pop_stack 1 u) = Some v" "ext (pop_stack 1 u) v" and e: "runs (insert k P) {Suc (num_bytes t)} s 1
      (\<lambda>p q it ls. \<exists>m<q. ((p < num_bytes t \<and> code_at it ls (saved_stack s) (cur_stack s) l p (num_bytes t)) \<and>
        it (num_bytes t) = Op op \<and> m = num_bytes t + 2) \<and> code_at it ls (saved_stack s) (cur_stack s) r m q) (Some v)"
    by (rule expr_then'[OF d2 r wr]) auto
  have lu: "label_use v k (Suc (num_bytes t))" using label_use_ext[OF _ v(2)] u(2) by simp
  have sub: "insert k P - {k} \<subseteq> P" "Suc (num_bytes t) \<in> {Suc (num_bytes t)}" "{} = {Suc (num_bytes t)} - {Suc (num_bytes t)}" by auto
  obtain z where z: "define_label (int k) v = Some z"
    "runs P {} s 1 (\<lambda>p q it ls. (\<exists>m<q. ((p < num_bytes t \<and>
        code_at it ls (saved_stack s) (cur_stack s) l p (num_bytes t)) \<and>
        it (num_bytes t) = Op op \<and> m = num_bytes t + 2) \<and> code_at it ls (saved_stack s) (cur_stack s) r m q) \<and>
        it (Suc (num_bytes t)) = Ref FIXUP_LABEL q) (Some z)"
    using runs_define_last[OF e lu u(3) sub] .
  have gz: "generate_expr x s = Some z" using t u v(1) z by (simp add: g)
  show "runs P {} s 1 (\<lambda>p q it ls. p < q \<and> code_at it ls (saved_stack s) (cur_stack s) x p q) (generate_expr x s)"
    unfolding gz by (rule runs_weaken[OF z(2)[simplified]]) (auto simp: c)
qed

lemma ok_cond:
  assumes c: "expr_ok c" and l: "expr_ok l" and r: "expr_ok r" shows "expr_ok (EXPR_COND c l r)"
  unfolding expr_ok_def
proof (intro allI impI)
  fix P s assume i: "gen_inv P s" and w: "wf_expr (saved_stack s \<noteq> None) (EXPR_COND c l r)"
  define S where "S = saved_stack s" define D where "D = cur_stack s"
  have n: "0 \<le> D" using gen_invD i unfolding D_def by blast
  obtain t where t: "generate_expr c s = Some t" and a: "runs P {} s 1 (\<lambda>p q it ls. p < q \<and> code_at it ls S D c p q) (Some t)"
    using expr_okD[OF c i] w unfolding S_def D_def by (auto elim: runsE)
  obtain k u where u: "add_label (emit_op OP_IF_QUES t) = (int k, u)" "label_use u k (Suc (num_bytes t))" "length (fixups s) \<le> k" "ext t u"
    and d: "runs (insert k P) {Suc (num_bytes t)} s 1 (\<lambda>p q it ls. (p < num_bytes t \<and> code_at it ls S D c p (num_bytes t)) \<and>
      it (num_bytes t) = Op OP_IF_QUES \<and> q = num_bytes t + 2) (Some u)"
    using runs_jump[OF a, of OP_IF_QUES] .
  have d2: "runs (insert k P) {Suc (num_bytes t)} s 0 (\<lambda>p q it ls. (p < num_bytes t \<and> code_at it ls S D c p (num_bytes t)) \<and>
      it (num_bytes t) = Op OP_IF_QUES \<and> q = num_bytes t + 2) (Some (pop_stack 1 u))"
    by (rule runs_pop'[OF d]) (use n D_def in simp_all)
  have wl: "wf_expr (saved_stack s \<noteq> None) l" and wr: "wf_expr (saved_stack s \<noteq> None) r" using w by simp_all
  obtain v where v: "generate_expr l (pop_stack 1 u) = Some v" "ext (pop_stack 1 u) v"
    and e: "runs (insert k P) {Suc (num_bytes t)} s 1 (\<lambda>p q it ls. \<exists>m<q. ((p < num_bytes t \<and> code_at it ls S D c p (num_bytes t)) \<and>
      it (num_bytes t) = Op OP_IF_QUES \<and> m = num_bytes t + 2) \<and> code_at it ls S D l m q) (Some v)"
    by (rule expr_then'[OF d2 l wl, of S D 1]) (simp_all add: S_def D_def)
  have e: "runs (insert k P) {Suc (num_bytes t)} s 1 (\<lambda>p q it ls. p < num_bytes t \<and> code_at it ls S D c p (num_bytes t) \<and>
      it (num_bytes t) = Op OP_IF_QUES \<and> num_bytes t + 2 < q \<and> code_at it ls S D l (num_bytes t + 2) q) (Some v)"
    by (rule runs_weaken[OF e]) blast
  have lu: "label_use v k (Suc (num_bytes t))" using label_use_ext[OF _ v(2)] u(2) by simp
  obtain k2 u2 where u2: "add_label (emit_op OP_JUMP v) = (int k2, u2)" "label_use u2 k2 (Suc (num_bytes v))"
      "length (fixups s) \<le> k2" "ext v u2"
    and f: "runs (insert k2 (insert k P)) {Suc (num_bytes v), Suc (num_bytes t)} s 1 (\<lambda>p q it ls. (p < num_bytes t \<and>
      code_at it ls S D c p (num_bytes t) \<and> it (num_bytes t) = Op OP_IF_QUES \<and> num_bytes t + 2 < num_bytes v \<and>
      code_at it ls S D l (num_bytes t + 2) (num_bytes v)) \<and> it (num_bytes v) = Op OP_JUMP \<and> q = num_bytes v + 2) (Some u2)"
    using runs_jump[OF e, of OP_JUMP] .
  have lu2: "label_use (pop_stack 1 u2) k (Suc (num_bytes t))"
    using label_use_ext[OF _ u2(4)] lu by simp
  have lu3: "label_use (pop_stack 1 u2) k2 (Suc (num_bytes v))" using u2(2) by simp
  have sub: "insert k2 (insert k P) - {k} \<subseteq> insert k2 P" "Suc (num_bytes t) \<in> {Suc (num_bytes v), Suc (num_bytes t)}" by auto
  have f2: "runs (insert k2 (insert k P)) {Suc (num_bytes v), Suc (num_bytes t)} s 0 (\<lambda>p q it ls. (p < num_bytes t \<and>
      code_at it ls S D c p (num_bytes t) \<and> it (num_bytes t) = Op OP_IF_QUES \<and> num_bytes t + 2 < num_bytes v \<and>
      code_at it ls S D l (num_bytes t + 2) (num_bytes v)) \<and> it (num_bytes v) = Op OP_JUMP \<and> q = num_bytes v + 2) (Some (pop_stack 1 u2))"
    by (rule runs_pop'[OF f]) (use n D_def in simp_all)
  obtain z where z: "define_label (int k) (pop_stack 1 u2) = Some z"
    and g: "runs (insert k2 P) ({Suc (num_bytes v), Suc (num_bytes t)} - {Suc (num_bytes t)}) s 0 (\<lambda>p q it ls. ((p < num_bytes t \<and>
      code_at it ls S D c p (num_bytes t) \<and> it (num_bytes t) = Op OP_IF_QUES \<and> num_bytes t + 2 < num_bytes v \<and>
      code_at it ls S D l (num_bytes t + 2) (num_bytes v)) \<and> it (num_bytes v) = Op OP_JUMP \<and> q = num_bytes v + 2) \<and>
      it (Suc (num_bytes t)) = Ref FIXUP_LABEL q) (Some z)"
    and nz: "num_bytes z = num_bytes (pop_stack 1 u2)" and lz0: "\<forall>i y. label_use (pop_stack 1 u2) i y \<longrightarrow> label_use z i y"
    using runs_define[OF f2 lu2 u(3) sub] .
  note lz = lz0[rule_format, OF lu3]
  have ne: "num_bytes v \<noteq> num_bytes t"
    using gen_stepD(6)[OF runs_gen_step[OF e]] e by (auto simp: runs_def has_def)
  obtain y where y: "generate_expr r z = Some y" "ext z y"
    and h: "runs (insert k2 P) ({Suc (num_bytes v), Suc (num_bytes t)} - {Suc (num_bytes t)}) s 1 (\<lambda>p q it ls. \<exists>m<q. (((p < num_bytes t \<and>
      code_at it ls S D c p (num_bytes t) \<and> it (num_bytes t) = Op OP_IF_QUES \<and> num_bytes t + 2 < num_bytes v \<and>
      code_at it ls S D l (num_bytes t + 2) (num_bytes v)) \<and> it (num_bytes v) = Op OP_JUMP \<and> m = num_bytes v + 2) \<and>
      it (Suc (num_bytes t)) = Ref FIXUP_LABEL m) \<and> code_at it ls S D r m q) (Some y)"
    by (rule expr_then'[OF g r wr, of S D 1]) (simp_all add: S_def D_def)
  have sub2: "insert k2 P - {k2} \<subseteq> P" "Suc (num_bytes v) \<in> {Suc (num_bytes v), Suc (num_bytes t)} - {Suc (num_bytes t)}"
    "{} = {Suc (num_bytes v), Suc (num_bytes t)} - {Suc (num_bytes t)} - {Suc (num_bytes v)}"
    using ne by auto
  obtain x where x: "define_label (int k2) y = Some x"
    and o: "runs P {} s 1 (\<lambda>p q it ls. (\<exists>m<q. (((p < num_bytes t \<and>
      code_at it ls S D c p (num_bytes t) \<and> it (num_bytes t) = Op OP_IF_QUES \<and> num_bytes t + 2 < num_bytes v \<and>
      code_at it ls S D l (num_bytes t + 2) (num_bytes v)) \<and> it (num_bytes v) = Op OP_JUMP \<and> m = num_bytes v + 2) \<and>
      it (Suc (num_bytes t)) = Ref FIXUP_LABEL m) \<and> code_at it ls S D r m q) \<and> it (Suc (num_bytes v)) = Ref FIXUP_LABEL q) (Some x)"
    using runs_define_last[OF h label_use_ext[OF lz y(2)] u2(3) sub2] .
  have gx: "generate_expr (EXPR_COND c l r) s = Some x" using t u(1) v(1) u2(1) z y(1) x by simp
  show "runs P {} s 1 (\<lambda>p q it ls. p < q \<and> code_at it ls (saved_stack s) (cur_stack s) (EXPR_COND c l r) p q) (generate_expr (EXPR_COND c l r) s)"
    unfolding gx S_def[symmetric] D_def[symmetric] by (rule runs_weaken[OF o]) auto
qed

lemma code_at_catchI:
  assumes "if codes = [] then it p = Op (OPTIM_NUM_TO_OPCODE 0) \<and> a = Suc p else list_at it ls sv d codes p a"
    "eop_at it EOP_PUSH_LABEL a" "it (a + 2) = Ref FIXUP_LABEL (b + 3)" "eop_at it EOP_CATCH (a + 3)"
    "code_at it ls sv (d + 3) e (a + 5) b" "eop_at it EOP_END_CATCH b" "it (b + 2) = Ref FIXUP_LABEL q"
    "case x of None \<Rightarrow> it (b + 3) = Op (OPTIM_NUM_TO_OPCODE 1) \<and> it (b + 4) = Op OP_REF \<and> q = b + 5
     | Some h \<Rightarrow> it (b + 3) = Op OP_POP \<and> code_at it ls sv d h (b + 4) q"
  shows "code_at it ls sv d (EXPR_CATCH e codes x) p q"
  unfolding code_at.simps using assms by blast

lemma ok_catch:
  assumes e: "expr_ok e" and cs: "\<forall>a \<in> set codes. expr_ok (snd a)" and h: "\<forall>h \<in> set_option x. expr_ok h"
  shows "expr_ok (EXPR_CATCH e codes x)"
  unfolding expr_ok_def
proof (intro allI impI)
  fix P s assume i: "gen_inv P s" and w: "wf_expr (saved_stack s \<noteq> None) (EXPR_CATCH e codes x)"
  define S where "S = saved_stack s" define D where "D = cur_stack s"
  have n: "0 \<le> D" using gen_invD i unfolding D_def by blast
  define C where "C = (\<lambda>p q it ls. p < q \<and> (if codes = [] then it p = Op (OPTIM_NUM_TO_OPCODE 0) \<and> q = Suc p
    else list_at it ls S D codes p q))"
  have cs': "\<forall>a \<in> set codes. expr_ok (snd a) \<and> wf_expr (saved_stack s \<noteq> None) (snd a)" using cs w by simp
  have we: "wf_expr (saved_stack s \<noteq> None) e" using w by simp
  have "runs P {} s 1 C (generate_codes codes s)" using ok_codes[OF cs' i] unfolding C_def S_def D_def .
  then obtain t where t: "generate_codes codes s = Some t" and a: "runs P {} s 1 C (Some t)" by (auto elim: runsE)
  obtain k u where u: "add_label (emit_extended_byte EOP_PUSH_LABEL t) = (int k, u)" "label_use u k (num_bytes t + 2)"
      "length (fixups s) \<le> k" "ext t u"
    and b: "runs (insert k P) {num_bytes t + 2} s 1
      (\<lambda>p q it ls. C p (num_bytes t) it ls \<and> eop_at it EOP_PUSH_LABEL (num_bytes t) \<and> q = num_bytes t + 3) (Some u)"
    using runs_jump_ext[OF a, of EOP_PUSH_LABEL] .
  define w2 where "w2 = push_stack 1 (emit_extended_byte EOP_CATCH (push_stack 1 u))"
  define G where "G = (\<lambda>p it ls. C p (num_bytes t) it ls \<and> eop_at it EOP_PUSH_LABEL (num_bytes t) \<and>
    eop_at it EOP_CATCH (num_bytes t + 3))"
  have c: "runs (insert k P) {num_bytes t + 2} s (1 + 1 + 1) (\<lambda>p q it ls. G p it ls \<and> q = num_bytes t + 5) (Some w2)"
    unfolding w2_def
    by (rule runs_weaken[OF runs_push[OF runs_emit_ext[OF runs_push[OF b, of 1], of EOP_CATCH], of 1]]) (auto simp: G_def)
  obtain v where v: "generate_expr e w2 = Some v" "ext w2 v"
    and d: "runs (insert k P) {num_bytes t + 2} s 4
      (\<lambda>p q it ls. \<exists>m<q. (G p it ls \<and> m = num_bytes t + 5) \<and> code_at it ls S (D + 3) e m q) (Some v)"
    by (rule expr_then'[OF c e we, of S "D + 3" 4]) (simp_all add: S_def D_def)
  have lv: "label_use v k (num_bytes t + 2)" using label_use_ext[OF _ v(2)] u(2) by (simp add: w2_def)
  define H where "H = (\<lambda>p it ls. C p (num_bytes t) it ls \<and> eop_at it EOP_PUSH_LABEL (num_bytes t) \<and>
    eop_at it EOP_CATCH (num_bytes t + 3) \<and> num_bytes t + 5 < num_bytes v \<and>
    code_at it ls S (D + 3) e (num_bytes t + 5) (num_bytes v) \<and> eop_at it EOP_END_CATCH (num_bytes v))"
  obtain k2 u2 where u2: "add_label (emit_extended_byte EOP_END_CATCH v) = (int k2, u2)" "label_use u2 k2 (num_bytes v + 2)"
      "length (fixups s) \<le> k2" "ext v u2"
    and f0: "runs (insert k2 (insert k P)) {num_bytes v + 2, num_bytes t + 2} s 4
      (\<lambda>p q it ls. (\<exists>m<num_bytes v. (G p it ls \<and> m = num_bytes t + 5) \<and> code_at it ls S (D + 3) e m (num_bytes v)) \<and>
        eop_at it EOP_END_CATCH (num_bytes v) \<and> q = num_bytes v + 3) (Some u2)"
    using runs_jump_ext[OF d, of EOP_END_CATCH] .
  have f: "runs (insert k2 (insert k P)) {num_bytes v + 2, num_bytes t + 2} s 1
      (\<lambda>p q it ls. H p it ls \<and> q = num_bytes v + 3) (Some (pop_stack 3 u2))"
    by (rule runs_weaken[OF runs_pop'[OF f0]]) (use n in \<open>auto simp: H_def G_def D_def\<close>)
  have ne: "num_bytes v \<noteq> num_bytes t" using d gen_stepD(6)[OF runs_gen_step[OF d]] by (auto simp: runs_def has_def)
  have lu: "label_use (pop_stack 3 u2) k (num_bytes t + 2)" using label_use_ext[OF lv u2(4)] by simp
  have lu2: "label_use (pop_stack 3 u2) k2 (num_bytes v + 2)" using u2(2) by simp
  have sub: "insert k2 (insert k P) - {k} \<subseteq> insert k2 P" "num_bytes t + 2 \<in> {num_bytes v + 2, num_bytes t + 2}" by auto
  obtain z where z: "define_label (int k) (pop_stack 3 u2) = Some z"
    and g0: "runs (insert k2 P) ({num_bytes v + 2, num_bytes t + 2} - {num_bytes t + 2}) s 1
      (\<lambda>p q it ls. (H p it ls \<and> q = num_bytes v + 3) \<and> it (num_bytes t + 2) = Ref FIXUP_LABEL q) (Some z)"
    and nz: "num_bytes z = num_bytes (pop_stack 3 u2)" and lz: "\<forall>i y. label_use (pop_stack 3 u2) i y \<longrightarrow> label_use z i y"
    using runs_define[OF f lu u(3) sub] .
  have X: "{num_bytes v + 2, num_bytes t + 2} - {num_bytes t + 2} = {num_bytes v + 2}" using ne by auto
  note g = g0[unfolded X]
  have gen: "generate_expr (EXPR_CATCH e codes x) s = do {
      s \<leftarrow> (case x of Some x \<Rightarrow> generate_expr x (pop_stack 1 (emit_op OP_POP z))
           | None \<Rightarrow> Some (emit_op OP_REF (emit_op (OPTIM_NUM_TO_OPCODE 1) z)));
      define_label (int k2) s }"
    using t u(1) v(1) u2(1) z by (simp add: w2_def del: generate_codes.simps)
  have sub2: "insert k2 P - {k2} \<subseteq> P" "num_bytes v + 2 \<in> {num_bytes v + 2}" "{} = {num_bytes v + 2} - {num_bytes v + 2}" by auto
  show "runs P {} s 1 (\<lambda>p q it ls. p < q \<and> code_at it ls (saved_stack s) (cur_stack s) (EXPR_CATCH e codes x) p q)
      (generate_expr (EXPR_CATCH e codes x) s)"
  proof (cases x)
    case None
    note r = runs_emit[OF runs_emit[OF g, of "op_byte (OPTIM_NUM_TO_OPCODE 1)"], of "op_byte OP_REF"]
    have l: "label_use (emit_op OP_REF (emit_op (OPTIM_NUM_TO_OPCODE 1) z)) k2 (num_bytes v + 2)" using lz lu2 by simp
    obtain y where y: "define_label (int k2) (emit_op OP_REF (emit_op (OPTIM_NUM_TO_OPCODE 1) z)) = Some y"
      and o: "runs P {} s 1 (\<lambda>p q it ls. (\<exists>m. (\<exists>m'. ((H p it ls \<and> m' = num_bytes v + 3) \<and> it (num_bytes t + 2) = Ref FIXUP_LABEL m') \<and>
        it m' = Op (OPTIM_NUM_TO_OPCODE 1) \<and> m = Suc m') \<and> it m = Op OP_REF \<and> q = Suc m) \<and>
        it (num_bytes v + 2) = Ref FIXUP_LABEL q) (Some y)"
      using runs_define_last[OF r l u2(3) sub2] .
    have gy: "generate_expr (EXPR_CATCH e codes x) s = Some y" using gen None y by simp
    show ?thesis unfolding gy S_def[symmetric] D_def[symmetric] using None
      by (intro runs_weaken[OF o]) (auto simp: H_def C_def add.commute simp del: list_at.simps code_at.simps intro!: code_at_catchI[of _ _ _ "num_bytes t" _ _ _ "num_bytes v"])
  next
    case (Some x')
    have ok: "expr_ok x'" and wx: "wf_expr (saved_stack s \<noteq> None) x'" using h w Some by simp_all
    have r: "runs (insert k2 P) {num_bytes v + 2} s 0
      (\<lambda>p q it ls. H p it ls \<and> it (num_bytes t + 2) = Ref FIXUP_LABEL (num_bytes v + 3) \<and> it (num_bytes v + 3) = Op OP_POP \<and>
        q = num_bytes v + 4) (Some (pop_stack 1 (emit_op OP_POP z)))"
      by (rule runs_weaken[OF runs_pop'[OF runs_emit[OF g]]]) (use n in \<open>auto simp: D_def\<close>)
    obtain y where y: "generate_expr x' (pop_stack 1 (emit_op OP_POP z)) = Some y" "ext (pop_stack 1 (emit_op OP_POP z)) y"
      and o: "runs (insert k2 P) {num_bytes v + 2} s 1 (\<lambda>p q it ls. \<exists>m<q. (H p it ls \<and>
        it (num_bytes t + 2) = Ref FIXUP_LABEL (num_bytes v + 3) \<and> it (num_bytes v + 3) = Op OP_POP \<and>
        m = num_bytes v + 4) \<and> code_at it ls S D x' m q) (Some y)"
      by (rule expr_then'[OF r ok wx, of S D 1]) (simp_all add: S_def D_def)
    have l: "label_use y k2 (num_bytes v + 2)" using label_use_ext[OF _ y(2)] lz lu2 by simp
    obtain y2 where y2: "define_label (int k2) y = Some y2"
      and o2: "runs P {} s 1 (\<lambda>p q it ls. (\<exists>m<q. (H p it ls \<and>
        it (num_bytes t + 2) = Ref FIXUP_LABEL (num_bytes v + 3) \<and> it (num_bytes v + 3) = Op OP_POP \<and>
        m = num_bytes v + 4) \<and> code_at it ls S D x' m q) \<and> it (num_bytes v + 2) = Ref FIXUP_LABEL q) (Some y2)"
      using runs_define_last[OF o l u2(3) sub2] .
    have gy: "generate_expr (EXPR_CATCH e codes x) s = Some y2" using gen Some y(1) y2 by simp
    show ?thesis unfolding gy S_def[symmetric] D_def[symmetric] using Some
      by (intro runs_weaken[OF o2]) (auto simp: H_def C_def simp del: list_at.simps code_at.simps intro!: code_at_catchI[of _ _ _ "num_bytes t" _ _ _ "num_bytes v"])
  qed
qed

subsection \<open>Left sides and assignments\<close>

lemma lvalue_okD:
  "lvalue_ok e \<Longrightarrow> gen_inv P s \<Longrightarrow> wf_expr (saved_stack s \<noteq> None) e \<Longrightarrow> (if ixd then indexable e else is_lvalue e) \<Longrightarrow>
   runs P {} s (lv_push e + (if ixd then 1 else 0))
     (\<lambda>p q it ls. p \<le> q \<and> lval_at it ls (saved_stack s) (cur_stack s) e ixd p q) (push_lvalue e ixd s)"
  by (simp add: lvalue_ok_def)

lemma indexable_is_lvalue: "indexable e \<Longrightarrow> is_lvalue e"
  by (cases e) auto

lemma lv_push_nonneg: "0 \<le> lv_push e"
  by (induction e) auto

lemma lvalue_id: "lvalue_ok (EXPR_ID slot)"
  unfolding lvalue_ok_def
proof (intro allI impI)
  fix P s ixd assume i: "gen_inv P s"
  note a = runs_push[OF runs_var_op[OF runs_start[OF i], where op = OP_PUSH and gop = OP_G_PUSH and slot = slot], of 1, simplified]
  show "runs P {} s (lv_push (EXPR_ID slot) + (if ixd then 1 else 0)) (\<lambda>p q it ls. p \<le> q \<and>
      lval_at it ls (saved_stack s) (cur_stack s) (EXPR_ID slot) ixd p q) (push_lvalue (EXPR_ID slot) ixd s)"
  proof (cases ixd)
    case True then show ?thesis by (auto intro!: runs_weaken[OF a] simp: var_at_def split: if_splits)
  next
    case False then show ?thesis using runs_weaken[OF runs_start[OF i]] by simp
  qed
qed

lemma lvalue_prop:
  assumes l: "expr_ok l" and r: "expr_ok r" shows "lvalue_ok (EXPR_PROP l r)"
  unfolding lvalue_ok_def
proof (intro allI impI)
  fix P s ixd assume i: "gen_inv P s" and w: "wf_expr (saved_stack s \<noteq> None) (EXPR_PROP l r)"
  have wl: "wf_expr (saved_stack s \<noteq> None) l" and wr: "wf_expr (saved_stack s \<noteq> None) r" using w by simp_all
  obtain t where t: "generate_expr l s = Some t" and a: "runs P {} s 1 (\<lambda>p q it ls. p < q \<and> code_at it ls (saved_stack s) (cur_stack s) l p q) (Some t)"
    using expr_okD[OF l i wl] by (auto elim: runsE)
  obtain u where u: "generate_expr r t = Some u" "ext t u" and b: "runs P {} s 2 (\<lambda>p q it ls. \<exists>m<q. (p < m \<and>
      code_at it ls (saved_stack s) (cur_stack s) l p m) \<and> code_at it ls (saved_stack s) (cur_stack s + 1) r m q) (Some u)"
    by (rule expr_then'[OF a r wr refl, of "cur_stack s + 1" 2]) simp_all
  note c = runs_push[OF runs_emit[OF b, of "op_byte OP_PUSH_GET_PROP"], of 1]
  show "runs P {} s (lv_push (EXPR_PROP l r) + (if ixd then 1 else 0)) (\<lambda>p q it ls. p \<le> q \<and>
      lval_at it ls (saved_stack s) (cur_stack s) (EXPR_PROP l r) ixd p q) (push_lvalue (EXPR_PROP l r) ixd s)"
  proof (cases ixd)
    case True
    then have g: "push_lvalue (EXPR_PROP l r) ixd s = Some (push_stack 1 (emit_op OP_PUSH_GET_PROP u))" using t u by simp
    show ?thesis unfolding g using True by (auto intro!: runs_weaken[OF c[simplified]])
  next
    case False
    then have g: "push_lvalue (EXPR_PROP l r) ixd s = Some u" using t u by simp
    show ?thesis unfolding g using False by (auto intro!: runs_weaken[OF b])
  qed
qed

lemma lvalue_index:
  assumes b: "lvalue_ok b" and x: "expr_ok x" shows "lvalue_ok (EXPR_INDEX b x)"
  unfolding lvalue_ok_def
proof (intro allI impI)
  fix P s ixd assume i: "gen_inv P s" and w: "wf_expr (saved_stack s \<noteq> None) (EXPR_INDEX b x)"
    and lv: "if ixd then indexable (EXPR_INDEX b x) else is_lvalue (EXPR_INDEX b x)"
  have n: "0 \<le> cur_stack s" "0 \<le> lv_push b" using gen_invD i lv_push_nonneg by blast+
  have lb: "indexable b" and wb: "wf_expr (saved_stack s \<noteq> None) b" and wx: "wf_expr True x"
    using lv w by (auto split: if_splits)
  obtain t where t: "push_lvalue b True s = Some t" and a: "runs P {} s (lv_push b + 1) (\<lambda>p q it ls. p \<le> q \<and>
      lval_at it ls (saved_stack s) (cur_stack s) b True p q) (Some t)"
    using lvalue_okD[OF b i wb, of True] lb by (auto elim: runsE)
  have c: "cur_stack t = cur_stack s + lv_push b + 1" using runs_cur[OF a] by simp
  have c1: "1 \<le> cur_stack t" using c n by simp
  obtain u where u: "generate_expr x (t\<lparr>saved_stack := Some (cur_stack t - 1)\<rparr>) = Some u"
    and d: "runs P {} (t\<lparr>saved_stack := Some (cur_stack t - 1)\<rparr>) 1
      (\<lambda>p q it ls. p < q \<and> code_at it ls (Some (cur_stack t - 1)) (cur_stack t) x p q) (Some u)"
    using index_then[OF a x wx c1] .
  note e = runs_saved[OF a c1 d refl]
  let ?u = "u\<lparr>saved_stack := saved_stack t\<rparr>"
  note f = runs_push[OF runs_emit[OF e, of "op_byte OP_PUSH_REF"], of 1]
  show "runs P {} s (lv_push (EXPR_INDEX b x) + (if ixd then 1 else 0)) (\<lambda>p q it ls. p \<le> q \<and>
      lval_at it ls (saved_stack s) (cur_stack s) (EXPR_INDEX b x) ixd p q) (push_lvalue (EXPR_INDEX b x) ixd s)"
  proof (cases ixd)
    case True
    then have g: "push_lvalue (EXPR_INDEX b x) ixd s = Some (push_stack 1 (emit_op OP_PUSH_REF ?u))"
      using t u by (simp add: save_stack_top_def restore_stack_top_def)
    have k: "lv_push b + 1 + 1 + 1 = lv_push (EXPR_INDEX b x) + (if ixd then 1 else 0)" using True by simp
    show ?thesis unfolding g using True c
      by (intro runs_weaken[OF f[unfolded k]]) (fastforce simp: add.assoc)+
  next
    case False
    then have g: "push_lvalue (EXPR_INDEX b x) ixd s = Some ?u"
      using t u by (simp add: save_stack_top_def restore_stack_top_def)
    have k: "lv_push b + 1 + 1 = lv_push (EXPR_INDEX b x) + (if ixd then 1 else 0)" using False by simp
    show ?thesis unfolding g using False c
      by (intro runs_weaken[OF e[unfolded k]]) (fastforce simp: add.assoc)+
  qed
qed

lemma lvalue_range:
  assumes b: "lvalue_ok b" and x: "expr_ok x" and y: "expr_ok y" shows "lvalue_ok (EXPR_RANGE b x y)"
  unfolding lvalue_ok_def
proof (intro allI impI)
  fix P s ixd assume i: "gen_inv P s" and w: "wf_expr (saved_stack s \<noteq> None) (EXPR_RANGE b x y)"
    and lv: "if ixd then indexable (EXPR_RANGE b x y) else is_lvalue (EXPR_RANGE b x y)"
  have n: "0 \<le> cur_stack s" "0 \<le> lv_push b" using gen_invD i lv_push_nonneg by blast+
  have lb: "indexable b" "\<not> ixd" and wb: "wf_expr (saved_stack s \<noteq> None) b" and wx: "wf_expr True x"
    using lv w by (auto split: if_splits)
  obtain t where t: "push_lvalue b True s = Some t" and a: "runs P {} s (lv_push b + 1) (\<lambda>p q it ls. p \<le> q \<and>
      lval_at it ls (saved_stack s) (cur_stack s) b True p q) (Some t)"
    using lvalue_okD[OF b i wb, of True] lb by (auto elim: runsE)
  have c: "cur_stack t = cur_stack s + lv_push b + 1" using runs_cur[OF a] by simp
  have c1: "1 \<le> cur_stack t" using c n by simp
  let ?t = "t\<lparr>saved_stack := Some (cur_stack t - 1)\<rparr>"
  obtain u where u: "generate_expr x ?t = Some u"
    and d: "runs P {} ?t 1 (\<lambda>p q it ls. p < q \<and> code_at it ls (Some (cur_stack t - 1)) (cur_stack t) x p q) (Some u)"
    using index_then[OF a x wx c1] .
  have wy: "wf_expr (saved_stack ?t \<noteq> None) y" using w by simp
  obtain v where v: "generate_expr y u = Some v" "ext u v"
    and d2: "runs P {} ?t 2 (\<lambda>p q it ls. \<exists>m<q. (p < m \<and> code_at it ls (Some (cur_stack t - 1)) (cur_stack t) x p m) \<and>
      code_at it ls (Some (cur_stack t - 1)) (cur_stack t + 1) y m q) (Some v)"
    by (rule expr_then'[OF d y wy, of "Some (cur_stack t - 1)" "cur_stack t + 1" 2]) simp_all
  note e = runs_saved[OF a c1 d2 refl]
  let ?v = "v\<lparr>saved_stack := saved_stack t\<rparr>"
  have g: "push_lvalue (EXPR_RANGE b x y) ixd s = Some ?v"
    using t u v by (simp add: save_stack_top_def restore_stack_top_def)
  have k: "lv_push b + 1 + 2 = lv_push (EXPR_RANGE b x y) + (if ixd then 1 else 0)" using lb by simp
  show "runs P {} s (lv_push (EXPR_RANGE b x y) + (if ixd then 1 else 0)) (\<lambda>p q it ls. p \<le> q \<and>
      lval_at it ls (saved_stack s) (cur_stack s) (EXPR_RANGE b x y) ixd p q) (push_lvalue (EXPR_RANGE b x y) ixd s)"
    unfolding g using c by (intro runs_weaken[OF e[unfolded k]]) (fastforce simp: add.assoc)+
qed

text \<open>The stores take what the left side pushed.\<close>

lemma ok_stores:
  "is_lvalue e \<Longrightarrow> runs P X s j F (Some t) \<Longrightarrow> lv_push e + 1 \<le> cur_stack s + j \<Longrightarrow> 0 \<le> cur_stack s \<Longrightarrow>
   \<exists>u. assign_loop e ix t = Some (ix \<or> is_indexed_lvalue e, u) \<and>
     runs P X s (j - lv_push e) (\<lambda>p q it ls. \<exists>m<q. F p m it ls \<and> stores_at it e m q) (Some u)"
proof (induction e arbitrary: ix t j F)
  case (EXPR_ID slot)
  note a = runs_var_op[OF EXPR_ID.prems(2), where op = OP_PUT and gop = OP_G_PUT and slot = slot]
  show ?case by (rule exI[of _ "emit_put slot t"], simp) (rule runs_weaken[OF a], auto simp: var_at_def split: if_splits)
next
  case (EXPR_PROP l r)
  note a = runs_pop[OF runs_emit[OF EXPR_PROP.prems(2), of "op_byte OP_PUT_PROP"], of 2]
  show ?case using EXPR_PROP.prems(3)
    by (intro exI[of _ "pop_stack 2 (emit_op OP_PUT_PROP t)"], simp) (rule runs_weaken[OF a], auto)
next
  case (EXPR_INDEX b x)
  have n: "0 \<le> lv_push b" by (rule lv_push_nonneg)
  have a: "runs P X s (j - 2) (\<lambda>p q it ls. \<exists>m. F p m it ls \<and> it m = Op OP_INDEXSET \<and> q = Suc m) (Some (pop_stack 2 (emit_op OP_INDEXSET t)))"
    by (rule runs_pop[OF runs_emit[OF EXPR_INDEX.prems(2)]]) (use EXPR_INDEX.prems(3) n in simp_all)
  have lv: "is_lvalue b" using EXPR_INDEX.prems(1) indexable_is_lvalue by simp
  obtain u where u: "assign_loop b True (pop_stack 2 (emit_op OP_INDEXSET t)) = Some (True, u)"
    and r: "runs P X s (j - 2 - lv_push b) (\<lambda>p q it ls. \<exists>m<q. (\<exists>m'. F p m' it ls \<and> it m' = Op OP_INDEXSET \<and> m = Suc m') \<and>
      stores_at it b m q) (Some u)"
    using EXPR_INDEX.IH(1)[OF lv a, of True] EXPR_INDEX.prems(3,4) by auto
  have k: "j - 2 - lv_push b = j - lv_push (EXPR_INDEX b x)" by simp
  show ?case using u by (intro exI[of _ u], simp) (rule runs_weaken[OF r[unfolded k, simplified]], auto intro: Suc_lessD)
next
  case (EXPR_RANGE b x y)
  have n: "0 \<le> lv_push b" by (rule lv_push_nonneg)
  have a: "runs P X s (j - 3) (\<lambda>p q it ls. \<exists>m. F p m it ls \<and> eop_at it EOP_RANGESET m \<and> q = m + 2) (Some (pop_stack 3 (emit_extended_byte EOP_RANGESET t)))"
    by (rule runs_pop[OF runs_emit_ext[OF EXPR_RANGE.prems(2)]]) (use EXPR_RANGE.prems(3) n in simp_all)
  have lv: "is_lvalue b" using EXPR_RANGE.prems(1) indexable_is_lvalue by simp
  obtain u where u: "assign_loop b True (pop_stack 3 (emit_extended_byte EOP_RANGESET t)) = Some (True, u)"
    and r: "runs P X s (j - 3 - lv_push b) (\<lambda>p q it ls. \<exists>m<q. (\<exists>m'. F p m' it ls \<and> eop_at it EOP_RANGESET m' \<and> m = m' + 2) \<and>
      stores_at it b m q) (Some u)"
    using EXPR_RANGE.IH(1)[OF lv a, of True] EXPR_RANGE.prems(3,4) by auto
  have k: "j - 3 - lv_push b = j - lv_push (EXPR_RANGE b x y)" by simp
  show ?case using u by (intro exI[of _ u], simp) (rule runs_weaken[OF r[unfolded k, simplified]], auto intro: Suc_lessD[OF Suc_lessD])
qed simp_all

lemma ok_assign:
  assumes l: "lvalue_ok l" and r: "expr_ok r" and lv: "is_lvalue l" shows "expr_ok (EXPR_ASGN l r)"
  unfolding expr_ok_def
proof (intro allI impI)
  fix P s assume i: "gen_inv P s" and w: "wf_expr (saved_stack s \<noteq> None) (EXPR_ASGN l r)"
  define S where "S = saved_stack s" define D where "D = cur_stack s"
  have n: "0 \<le> D" "0 \<le> lv_push l" using gen_invD i lv_push_nonneg unfolding D_def by blast+
  have wl: "wf_expr (saved_stack s \<noteq> None) l" and wr: "wf_expr (saved_stack s \<noteq> None) r"
    using w lv by (cases l; simp)+
  obtain t where t: "push_lvalue l False s = Some t" and a: "runs P {} s (lv_push l) (\<lambda>p q it ls. p \<le> q \<and> lval_at it ls S D l False p q) (Some t)"
    using lvalue_okD[OF l i wl, of False] lv unfolding S_def D_def by (auto elim: runsE)
  obtain u where u: "generate_expr r t = Some u" "ext t u" and b: "runs P {} s (lv_push l + 1)
      (\<lambda>p q it ls. \<exists>m<q. (p \<le> m \<and> lval_at it ls S D l False p m) \<and> code_at it ls S (D + lv_push l) r m q) (Some u)"
    by (rule expr_then'[OF a r wr, of S "D + lv_push l" "lv_push l + 1"]) (simp_all add: S_def D_def)
  define v where "v = (if is_indexed_lvalue l then emit_op OP_PUT_TEMP u else u)"
  define F where "F = (\<lambda>p q it ls. \<exists>a b. p < b \<and> lval_at it ls S D l False p a \<and> code_at it ls S (D + lv_push l) r a b \<and>
    (if is_indexed_lvalue l then it b = Op OP_PUT_TEMP \<and> q = Suc b else q = b))"
  have c: "runs P {} s (lv_push l + 1) F (Some v)"
  proof (cases "is_indexed_lvalue l")
    case True
    then show ?thesis unfolding v_def using runs_weaken[OF runs_emit[OF b, of "op_byte OP_PUT_TEMP"], of F]
      by (simp add: F_def) (meson le_less_trans)
  next
    case False
    then show ?thesis unfolding v_def using runs_weaken[OF b, of F] by (simp add: F_def) (meson le_less_trans)
  qed
  obtain x where x: "assign_loop l False v = Some (is_indexed_lvalue l, x)"
    and d: "runs P {} s (lv_push l + 1 - lv_push l) (\<lambda>p q it ls. \<exists>m<q. F p m it ls \<and> stores_at it l m q) (Some x)"
    using ok_stores[OF lv c, of False] n unfolding D_def by auto
  have d: "runs P {} s 1 (\<lambda>p q it ls. \<exists>m<q. F p m it ls \<and> stores_at it l m q) (Some x)" using d by simp
  have g: "generate_expr (EXPR_ASGN l r) s = Some (if is_indexed_lvalue l then emit_op OP_PUSH_TEMP (emit_op OP_POP x) else x)"
    using lv t u x v_def by (cases l) (simp_all add: Let_def)
  have shape: "code_at it ls S D (EXPR_ASGN l r) p q = (\<exists>a b c. lval_at it ls S D l False p a \<and> code_at it ls S (D + lv_push l) r a b \<and>
      (if is_indexed_lvalue l then it b = Op OP_PUT_TEMP \<and> stores_at it l (Suc b) c \<and>
         it c = Op OP_POP \<and> it (Suc c) = Op OP_PUSH_TEMP \<and> q = c + 2 else stores_at it l b q))" for it ls p q
    using lv by (cases l) simp_all
  show "runs P {} s 1 (\<lambda>p q it ls. p < q \<and> code_at it ls (saved_stack s) (cur_stack s) (EXPR_ASGN l r) p q) (generate_expr (EXPR_ASGN l r) s)"
    unfolding g S_def[symmetric] D_def[symmetric] shape
  proof (cases "is_indexed_lvalue l")
    case True
    show "runs P {} s 1 (\<lambda>p q it ls. p < q \<and> (\<exists>a b c. lval_at it ls S D l False p a \<and> code_at it ls S (D + lv_push l) r a b \<and>
      (if is_indexed_lvalue l then it b = Op OP_PUT_TEMP \<and> stores_at it l (Suc b) c \<and>
         it c = Op OP_POP \<and> it (Suc c) = Op OP_PUSH_TEMP \<and> q = c + 2 else stores_at it l b q)))
      (Some (if is_indexed_lvalue l then emit_op OP_PUSH_TEMP (emit_op OP_POP x) else x))"
    proof -
      have f: "is_indexed_lvalue l = True" using True by simp
      show ?thesis unfolding f if_True
        by (rule runs_weaken[OF runs_emit[OF runs_emit[OF d, of "op_byte OP_POP"], of "op_byte OP_PUSH_TEMP"]])
          (use True in \<open>fastforce simp: F_def\<close>)
    qed
  next
    case False
    show "runs P {} s 1 (\<lambda>p q it ls. p < q \<and> (\<exists>a b c. lval_at it ls S D l False p a \<and> code_at it ls S (D + lv_push l) r a b \<and>
      (if is_indexed_lvalue l then it b = Op OP_PUT_TEMP \<and> stores_at it l (Suc b) c \<and>
         it c = Op OP_POP \<and> it (Suc c) = Op OP_PUSH_TEMP \<and> q = c + 2 else stores_at it l b q)))
      (Some (if is_indexed_lvalue l then emit_op OP_PUSH_TEMP (emit_op OP_POP x) else x))"
    proof -
      have f: "is_indexed_lvalue l = False" using False by simp
      show ?thesis unfolding f if_False by (rule runs_weaken[OF d]) (use False in \<open>auto simp: F_def intro: less_trans\<close>)
    qed
  qed
qed

subsection \<open>Scattering assignments\<close>

definition defaults_of :: "scatter list \<Rightarrow> scatter list" where
  "defaults_of sc = filter (\<lambda>(kind, _, x). kind = SCAT_OPTIONAL \<and> x \<noteq> None) sc"

lemma ok_scatter_refs:
  "runs P X s j F (Some t) \<Longrightarrow> 0 < num_bytes t \<Longrightarrow>
   \<exists>ks u. scatter_refs sc t = (map int ks, u) \<and> length ks = length (defaults_of sc) \<and>
     (\<exists>Y. runs (P \<union> set ks) Y s j (\<lambda>p q it ls. True) (Some u)) \<and> ext t u \<and>
     (\<forall>k \<in> set ks. length (fixups s) \<le> k \<and> (\<exists>p. label_use u k p))"
proof (induction sc arbitrary: P X t F)
  case Nil
  then show ?case by (auto simp: defaults_of_def intro: runs_weaken intro!: exI[of _ "[]"])
next
  case (Cons a sc)
  obtain kind slot x where a: "a = (kind, slot, x)" by (cases a)
  have p: "puts P t (Ref FIXUP_VAR_REF slot) (add_var_ref slot t)" using puts_var_ref[OF runs_inv[OF Cons.prems(1)] Cons.prems(2)] .
  let ?t = "add_var_ref slot t"
  note b = runs_then_puts[OF Cons.prems(1) p]
  have n: "0 < num_bytes ?t" using putsD(3)[OF p] by simp
  have et: "ext t ?t" using gen_stepD(2)[OF putsD(1)[OF p]] .
  show ?case
  proof (cases "kind = SCAT_OPTIONAL \<and> x \<noteq> None")
    case True
    obtain k u where u: "add_label ?t = (int k, u)" "label_use u k (num_bytes ?t)" "length (fixups s) \<le> k" "ext ?t u"
      and c: "runs (insert k P) (insert (num_bytes ?t) X) s j (\<lambda>p q it ls. \<exists>m. (\<exists>m'. F p m' it ls \<and>
        it m' = Ref FIXUP_VAR_REF slot \<and> m = Suc m') \<and> m = num_bytes ?t \<and> q = Suc m) (Some u)"
      using runs_label[OF b n] .
    have nu: "0 < num_bytes u" using ext_len[OF u(4)] n by linarith
    obtain ks v Y where v: "scatter_refs sc u = (map int ks, v)" "length ks = length (defaults_of sc)"
      "runs (insert k P \<union> set ks) Y s j (\<lambda>p q it ls. True) (Some v)" "ext u v"
      "\<forall>k \<in> set ks. length (fixups s) \<le> k \<and> (\<exists>p. label_use v k p)"
      using Cons.IH[OF c nu] by blast
    have "scatter_refs (a # sc) t = (map int (k # ks), v)" using a True u(1) v(1) by (auto simp: Let_def)
    moreover have "ext t v" using et u(4) v(4) by (blast intro: ext_trans)
    moreover have "\<forall>k' \<in> set (k # ks). length (fixups s) \<le> k' \<and> (\<exists>p. label_use v k' p)"
      using v(5) u(3) label_use_ext[OF u(2) v(4)] by auto
    ultimately show ?thesis using v(2,3) a True
      by (intro exI[of _ "k # ks"] exI[of _ v]) (auto simp: defaults_of_def)
  next
    case False
    let ?v = "if kind \<noteq> SCAT_OPTIONAL then 0 else 1 :: nat"
    have q: "puts P ?t (Ref FIXUP_LABEL ?v) (add_pseudo_label ?v ?t)" using puts_pseudo_label[OF putsD(2)[OF p] n] by simp
    note c = runs_then_puts[OF b q]
    have nu: "0 < num_bytes (add_pseudo_label ?v ?t)" using putsD(3)[OF q] by simp
    obtain ks v Y where v: "scatter_refs sc (add_pseudo_label ?v ?t) = (map int ks, v)" "length ks = length (defaults_of sc)"
      "runs (P \<union> set ks) Y s j (\<lambda>p q it ls. True) (Some v)" "ext (add_pseudo_label ?v ?t) v"
      "\<forall>k \<in> set ks. length (fixups s) \<le> k \<and> (\<exists>p. label_use v k p)"
      using Cons.IH[OF c nu] by blast
    have "scatter_refs (a # sc) t = (map int ks, v)" using a False v(1) by (auto simp: Let_def)
    moreover have "ext t v" using et gen_stepD(2)[OF putsD(1)[OF q]] v(4) by (blast intro: ext_trans)
    ultimately show ?thesis using v(2,3,5) a False
      by (intro exI[of _ ks] exI[of _ v]) (auto simp: defaults_of_def)
  qed
qed

lemma ok_scatter_defaults:
  "runs (P \<union> set ks) Y s j (\<lambda>p q it ls. True) (Some t) \<Longrightarrow> length ks = length (defaults_of sc) \<Longrightarrow>
   \<forall>k \<in> set ks. length (fixups s) \<le> k \<and> (\<exists>p. label_use t k p) \<Longrightarrow>
   \<forall>(kind, slot, x) \<in> set sc. \<forall>e \<in> set_option x. expr_ok e \<and> wf_expr (saved_stack s \<noteq> None) e \<Longrightarrow> 0 \<le> cur_stack s + j \<Longrightarrow>
   \<exists>u Z. scatter_defaults sc (map int ks) t = Some u \<and> runs P Z s j (\<lambda>p q it ls. True) (Some u) \<and>
     (\<forall>i r. label_use t i r \<longrightarrow> label_use u i r)"
proof (induction sc arbitrary: ks Y t)
  case Nil
  then show ?case by (auto simp: defaults_of_def)
next
  case (Cons a sc)
  obtain kind slot x where a: "a = (kind, slot, x)" by (cases a)
  show ?case
  proof (cases "kind = SCAT_OPTIONAL \<and> x \<noteq> None")
    case True
    then obtain e where x: "x = Some e" and kind: "kind = SCAT_OPTIONAL" by auto
    obtain k ks' where ks: "ks = k # ks'" "length ks' = length (defaults_of sc)"
      using Cons.prems(2) a True by (cases ks) (auto simp: defaults_of_def)
    obtain p where l: "label_use t k p" "length (fixups s) \<le> k" using Cons.prems(3) ks by auto
    have e: "expr_ok e" and we: "wf_expr (saved_stack s \<noteq> None) e" using Cons.prems(4) a x by auto
    have r0: "runs (P \<union> set ks) (insert p Y) s j (\<lambda>p q it ls. True) (Some t)"
    proof -
      have "p < num_bytes t" using order_ok_pc[OF gen_invD(1)[OF runs_inv[OF Cons.prems(1)]], of "fixups t ! k"] l(1)
        by (auto simp: label_use_def)
      then show ?thesis using Cons.prems(1) by (auto simp: runs_def has_def)
    qed
    have sub: "P \<union> set ks - {k} \<subseteq> P \<union> set ks'" "p \<in> insert p Y" using ks by auto
    obtain v where v: "define_label (int k) t = Some v"
      and b: "runs (P \<union> set ks') (insert p Y - {p}) s j (\<lambda>p' q it ls. True \<and> it p = Ref FIXUP_LABEL q) (Some v)"
      and nv: "num_bytes v = num_bytes t" and lv: "\<forall>i y. label_use t i y \<longrightarrow> label_use v i y"
      using runs_define[OF r0 l sub] .
    obtain u where u: "generate_expr e v = Some u" "ext v u" and c: "runs (P \<union> set ks') (insert p Y - {p}) s (j + 1)
        (\<lambda>p' q it ls. \<exists>m<q. (True \<and> it p = Ref FIXUP_LABEL m) \<and> code_at it ls (saved_stack s) (cur_stack s + j) e m q) (Some u)"
      using expr_then[OF b e we] .
    let ?w = "pop_stack 1 (emit_op OP_POP (emit_put slot u))"
    have d: "runs (P \<union> set ks') (insert p Y - {p}) s j (\<lambda>p q it ls. True) (Some ?w)"
      by (rule runs_weaken[OF runs_pop'[OF runs_emit[OF runs_var_op[OF c]]]]) (use Cons.prems(5) in auto)
    have ew: "ext u (emit_put slot u)"
    proof -
      have s: "runs (P \<union> set ks') {} u 0 (\<lambda>p q it ls. p = q) (Some u)" by (rule runs_start[OF runs_inv[OF c]])
      show ?thesis using runs_cur[OF runs_var_op[OF s]] by blast
    qed
    have lw: "\<forall>i y. label_use t i y \<longrightarrow> label_use ?w i y"
      using lv label_use_ext[OF _ u(2)] label_use_ext[OF _ ew] by simp
    have "\<forall>k \<in> set ks'. length (fixups s) \<le> k \<and> (\<exists>p. label_use ?w k p)" using Cons.prems(3) ks(1) lw by (metis list.set_intros(2))
    moreover have "\<forall>(kind, slot, x) \<in> set sc. \<forall>e \<in> set_option x. expr_ok e \<and> wf_expr (saved_stack s \<noteq> None) e"
      using Cons.prems(4) by simp
    ultimately obtain y Z where y: "scatter_defaults sc (map int ks') ?w = Some y" "runs P Z s j (\<lambda>p q it ls. True) (Some y)"
      "\<forall>i r. label_use ?w i r \<longrightarrow> label_use y i r"
      using Cons.IH[OF d ks(2) _ _ Cons.prems(5)] by blast
    have "scatter_defaults (a # sc) (map int ks) t = Some y" using a x kind ks(1) v u(1) y(1) by simp
    then show ?thesis using y(2,3) lw by blast
  next
    case False
    have "length ks = length (defaults_of sc)" using Cons.prems(2) a False by (auto simp: defaults_of_def split: if_splits)
    moreover have "scatter_defaults (a # sc) (map int ks) t = scatter_defaults sc (map int ks) t"
      using a False by (auto split: option.split)
    moreover have "\<forall>(kind, slot, x) \<in> set sc. \<forall>e \<in> set_option x. expr_ok e \<and> wf_expr (saved_stack s \<noteq> None) e"
      using Cons.prems(4) by simp
    ultimately show ?thesis using Cons.IH[OF Cons.prems(1) _ Cons.prems(3) _ Cons.prems(5)] by simp
  qed
qed

lemma ok_scatter:
  assumes r: "expr_ok r" and sc: "\<forall>(kind, slot, x) \<in> set sc. \<forall>e \<in> set_option x. expr_ok e"
  shows "expr_ok (EXPR_ASGN (EXPR_SCATTER sc) r)"
  unfolding expr_ok_def
proof (intro allI impI)
  fix P s assume i: "gen_inv P s" and w: "wf_expr (saved_stack s \<noteq> None) (EXPR_ASGN (EXPR_SCATTER sc) r)"
  have n: "0 \<le> cur_stack s + 1" using gen_invD(3)[OF i] by simp
  have wr: "wf_expr (saved_stack s \<noteq> None) r" using w by simp
  have wsc: "\<forall>(kind, slot, x) \<in> set sc. \<forall>e \<in> set_option x. expr_ok e \<and> wf_expr (saved_stack s \<noteq> None) e"
    using w sc by auto
  obtain t where t: "generate_expr r s = Some t" and a: "runs P {} s 1 (\<lambda>p q it ls. p < q \<and> code_at it ls (saved_stack s) (cur_stack s) r p q) (Some t)"
    using expr_okD[OF r i wr] by (auto elim: runsE)
  define v where "v = emit_byte (word_of_int (scatter_rest sc 0 (-1)))
    (emit_byte (word_of_nat (scatter_nreq sc)) (emit_byte (word_of_nat (length sc)) (emit_extended_byte EOP_SCATTER t)))"
  have b: "runs P {} s 1 (\<lambda>p q it ls. True) (Some v)"
    unfolding v_def by (rule runs_weaken[OF runs_emit[OF runs_emit[OF runs_emit[OF runs_emit_ext[OF a]]]]]) simp
  have nv: "0 < num_bytes v" by (simp add: v_def)
  have tv: "num_bytes t < num_bytes v" by (simp add: v_def)
  obtain ks u Y where u: "scatter_refs sc v = (map int ks, u)" "length ks = length (defaults_of sc)"
    "runs (P \<union> set ks) Y s 1 (\<lambda>p q it ls. True) (Some u)" "ext v u"
    "\<forall>k \<in> set ks. length (fixups s) \<le> k \<and> (\<exists>p. label_use u k p)"
    using ok_scatter_refs[OF b nv] by blast
  have nu: "0 < num_bytes u" using ext_len[OF u(4)] nv by linarith
  obtain k u2 where u2: "add_label u = (int k, u2)" "label_use u2 k (num_bytes u)" "length (fixups s) \<le> k" "ext u u2"
    and c0: "runs (insert k (P \<union> set ks)) (insert (num_bytes u) Y) s 1 (\<lambda>p q it ls. \<exists>m. True \<and> m = num_bytes u \<and> q = Suc m) (Some u2)"
    using runs_label[OF u(3) nu] .
  have c: "runs (insert k P \<union> set ks) (insert (num_bytes u) Y) s 1 (\<lambda>p q it ls. True) (Some u2)"
    using runs_weaken[OF c0] by simp
  have "\<forall>k \<in> set ks. length (fixups s) \<le> k \<and> (\<exists>p. label_use u2 k p)" using u(5) label_use_ext[OF _ u2(4)] by blast
  then obtain x Z where x: "scatter_defaults sc (map int ks) u2 = Some x" "runs (insert k P) Z s 1 (\<lambda>p q it ls. True) (Some x)"
    "\<forall>i r. label_use u2 i r \<longrightarrow> label_use x i r"
    using ok_scatter_defaults[OF c u(2) _ wsc n] by blast
  have lx: "label_use x k (num_bytes u)" using x(3) u2(2) by blast
  have cx: "chain (fixups x) (int k) {k}" using label_use_chain[OF lx] .
  let ?z = "x\<lparr>fixups := relabel {k} x (fixups x)\<rparr>"
  have z: "define_label (int k) x = Some ?z" "gen_step P s 1 ?z"
  proof -
    have new: "\<forall>j \<in> {k}. length (fixups s) \<le> j" using u2(3) by simp
    note d = define_label_step[OF cx runs_gen_step[OF x(2)] new]
    show "define_label (int k) x = Some ?z" using d(1) .
    show "gen_step P s 1 ?z" using gen_step_mono[OF d(2)] by auto
  qed
  have g: "generate_expr (EXPR_ASGN (EXPR_SCATTER sc) r) s = Some ?z"
    using t u(1) u2(1) x(1) z(1) by (simp add: v_def Let_def)
  have "num_bytes s < num_bytes ?z"
    using gen_stepD(6)[OF runs_gen_step[OF a]] tv ext_len[OF u(4)] ext_len[OF u2(4)] order_ok_pc[OF gen_invD(1)[OF runs_inv[OF x(2)]], of "fixups x ! k"] lx
    by (auto simp: label_use_def)
  then show "runs P {} s 1 (\<lambda>p q it ls. p < q \<and> code_at it ls (saved_stack s) (cur_stack s) (EXPR_ASGN (EXPR_SCATTER sc) r) p q)
      (generate_expr (EXPR_ASGN (EXPR_SCATTER sc) r) s)"
    unfolding g using z(2) by (simp add: runs_def has_def)
qed

section \<open>Every expression\<close>

lemma ok_exp:
  assumes l: "expr_ok l" and r: "expr_ok r" shows "expr_ok (EXPR_EXP l r)"
  unfolding expr_ok_def
proof (intro allI impI)
  fix P s assume i: "gen_inv P s" and w: "wf_expr (saved_stack s \<noteq> None) (EXPR_EXP l r)"
  have n: "0 \<le> cur_stack s" using gen_invD i by blast
  have wl: "wf_expr (saved_stack s \<noteq> None) l" and wr: "wf_expr (saved_stack s \<noteq> None) r" using w by simp_all
  obtain t where t: "generate_expr l s = Some t" and a: "runs P {} s 1 (\<lambda>p q it ls. p < q \<and> code_at it ls (saved_stack s) (cur_stack s) l p q) (Some t)"
    using expr_okD[OF l i wl] by (auto elim: runsE)
  obtain u where u: "generate_expr r t = Some u" "ext t u" and b: "runs P {} s 2 (\<lambda>p q it ls. \<exists>m<q. (p < m \<and>
      code_at it ls (saved_stack s) (cur_stack s) l p m) \<and> code_at it ls (saved_stack s) (cur_stack s + 1) r m q) (Some u)"
    by (rule expr_then'[OF a r wr refl, of "cur_stack s + 1" 2]) simp_all
  have c: "runs P {} s 1 (\<lambda>p q it ls. \<exists>n. (\<exists>m<n. (p < m \<and> code_at it ls (saved_stack s) (cur_stack s) l p m) \<and>
      code_at it ls (saved_stack s) (cur_stack s + 1) r m n) \<and> eop_at it EOP_EXP n \<and> q = n + 2) (Some (pop_stack 1 (emit_extended_byte EOP_EXP u)))"
    by (rule runs_pop'[OF runs_emit_ext[OF b]]) (use n in auto)
  have g: "generate_expr (EXPR_EXP l r) s = Some (pop_stack 1 (emit_extended_byte EOP_EXP u))" using t u by simp
  show "runs P {} s 1 (\<lambda>p q it ls. p < q \<and> code_at it ls (saved_stack s) (cur_stack s) (EXPR_EXP l r) p q) (generate_expr (EXPR_EXP l r) s)"
    unfolding g by (rule runs_weaken[OF c]) auto
qed

lemma snd_in_snds: "snd a \<in> Basic_BNFs.snds a"
  by (cases a) auto

lemma lvalue_okI: "(\<And>ixd. \<not> (if ixd then indexable e else is_lvalue e)) \<Longrightarrow> lvalue_ok e"
  by (simp add: lvalue_ok_def)

definition defaults_ok :: "expr \<Rightarrow> bool" where
  "defaults_ok e \<longleftrightarrow> (case e of EXPR_SCATTER sc \<Rightarrow> \<forall>(kind, slot, x) \<in> set sc. \<forall>e \<in> set_option x. expr_ok e | _ \<Rightarrow> True)"

lemma all_exprs_ok: "expr_ok e \<and> lvalue_ok e \<and> defaults_ok e"
proof (induction e)
  case (EXPR_VAR v) show ?case using ok_literal by (simp add: lvalue_okI defaults_ok_def)
next
  case (EXPR_ID slot) show ?case using ok_id lvalue_id by (simp add: defaults_ok_def)
next
  case (EXPR_PROP l r) then show ?case
    using ok_binary[of l r "EXPR_PROP l r" OP_GET_PROP] lvalue_prop by (simp add: defaults_ok_def)
next
  case (EXPR_VERB l r args)
  then have "\<forall>a \<in> set args. expr_ok (snd a)" using snd_in_snds by blast
  then show ?case using ok_verb EXPR_VERB by (simp add: lvalue_okI defaults_ok_def)
next
  case (EXPR_INDEX l r) then show ?case using ok_index lvalue_index by (simp add: defaults_ok_def)
next
  case (EXPR_RANGE l f t) then show ?case using ok_range lvalue_range by (simp add: defaults_ok_def)
next
  case (EXPR_ASGN l r)
  have "expr_ok (EXPR_ASGN l r)"
  proof (cases "is_lvalue l")
    case True then show ?thesis using ok_assign EXPR_ASGN by blast
  next
    case False
    show ?thesis
    proof (cases l)
      case (EXPR_SCATTER sc)
      have "\<forall>(kind, slot, x) \<in> set sc. \<forall>e \<in> set_option x. expr_ok e"
        using EXPR_ASGN.IH(1) EXPR_SCATTER by (simp add: defaults_ok_def)
      then show ?thesis using ok_scatter[of r sc] EXPR_ASGN.IH EXPR_SCATTER by simp
    qed (use False in \<open>simp_all add: expr_ok_def\<close>)
  qed
  then show ?case by (simp add: lvalue_okI defaults_ok_def)
next
  case (EXPR_CALL f args)
  then have "\<forall>a \<in> set args. expr_ok (snd a)" using snd_in_snds by blast
  then show ?case using ok_call by (simp add: lvalue_okI defaults_ok_def)
next
  case (EXPR_BIN k l r) then show ?case
    using ok_binary[of l r "EXPR_BIN k l r" "bin_op k"] by (simp add: lvalue_okI defaults_ok_def)
next
  case (EXPR_EXP l r) then show ?case using ok_exp by (simp add: lvalue_okI defaults_ok_def)
next
  case (EXPR_NEGATE e) then show ?case
    using ok_unary[of e "EXPR_NEGATE e" OP_UNARY_MINUS] by (simp add: lvalue_okI defaults_ok_def)
next
  case (EXPR_AND l r) then show ?case
    using ok_short[of l r "EXPR_AND l r" OP_AND] by (simp add: lvalue_okI defaults_ok_def)
next
  case (EXPR_OR l r) then show ?case
    using ok_short[of l r "EXPR_OR l r" OP_OR] by (simp add: lvalue_okI defaults_ok_def)
next
  case (EXPR_NOT e) then show ?case
    using ok_unary[of e "EXPR_NOT e" OP_NOT] by (simp add: lvalue_okI defaults_ok_def)
next
  case (EXPR_LIST args)
  then have "\<forall>a \<in> set args. expr_ok (snd a)" using snd_in_snds by blast
  then show ?case using ok_list by (simp add: lvalue_okI defaults_ok_def)
next
  case (EXPR_COND c l r) then show ?case using ok_cond by (simp add: lvalue_okI defaults_ok_def)
next
  case (EXPR_CATCH e codes x)
  then have "\<forall>a \<in> set codes. expr_ok (snd a)" using snd_in_snds by blast
  then show ?case using ok_catch EXPR_CATCH by (simp add: lvalue_okI defaults_ok_def)
next
  case EXPR_LENGTH then show ?case using ok_length by (simp add: lvalue_okI defaults_ok_def)
next
  case (EXPR_SCATTER sc)
  have "expr_ok e" if "(kind, slot, x) \<in> set sc" "e \<in> set_option x" for kind slot x e
    using EXPR_SCATTER.IH[OF that(1) snd_in_snds, of x e] snd_in_snds[of "(slot, x)"] that(2) by simp
  then have "defaults_ok (EXPR_SCATTER sc)" by (auto simp: defaults_ok_def)
  then show ?case by (simp add: lvalue_okI expr_ok_def)
qed

text \<open>The generator on a well-formed expression.\<close>

lemma generate_expr_ok:
  "gen_inv P s \<Longrightarrow> wf_expr (saved_stack s \<noteq> None) e \<Longrightarrow>
   runs P {} s 1 (\<lambda>p q it ls. p < q \<and> code_at it ls (saved_stack s) (cur_stack s) e p q) (generate_expr e s)"
  using all_exprs_ok expr_okD by blast

end
