(* ===== verification/Code_Stack.thy ===== *)
theory Code_Stack
  imports Code_Gen_Expr
begin

text \<open>
  How much run-time stack the code generator reserves: \<open>expr_depth\<close> and \<open>stmts_depth\<close> compute it from
  the syntax alone, and the maximum in the state of the generator is exactly that.
\<close>

section \<open>Expressions\<close>

function (sequential) expr_depth :: "expr \<Rightarrow> int"
  and list_depth :: "arg_list \<Rightarrow> int"
  and args_depth :: "bool \<Rightarrow> arg_list \<Rightarrow> int"
  and lval_depth :: "expr \<Rightarrow> bool \<Rightarrow> int"
  and defaults_depth :: "scatter list \<Rightarrow> int" where
  "expr_depth (EXPR_PROP l r) = max (expr_depth l) (1 + expr_depth r)"
| "expr_depth (EXPR_BIN _ l r) = max (expr_depth l) (1 + expr_depth r)"
| "expr_depth (EXPR_EXP l r) = max (expr_depth l) (1 + expr_depth r)"
| "expr_depth (EXPR_INDEX l r) = max (expr_depth l) (1 + expr_depth r)"
| "expr_depth (EXPR_RANGE b f t) = max (expr_depth b) (max (1 + expr_depth f) (2 + expr_depth t))"
| "expr_depth (EXPR_AND l r) = max (expr_depth l) (expr_depth r)"
| "expr_depth (EXPR_OR l r) = max (expr_depth l) (expr_depth r)"
| "expr_depth (EXPR_NEGATE e) = expr_depth e"
| "expr_depth (EXPR_NOT e) = expr_depth e"
| "expr_depth (EXPR_LIST args) = list_depth args"
| "expr_depth (EXPR_CALL _ args) = list_depth args"
| "expr_depth (EXPR_VERB obj vrb args) =
     max (expr_depth obj) (max (1 + expr_depth vrb) (2 + list_depth args))"
| "expr_depth (EXPR_COND c t e) = max (expr_depth c) (max (expr_depth t) (expr_depth e))"
| "expr_depth (EXPR_CATCH e codes x) =
     max (if codes = [] then 1 else list_depth codes)
       (max (3 + expr_depth e) (case x of None \<Rightarrow> 1 | Some h \<Rightarrow> expr_depth h))"
| "expr_depth (EXPR_ASGN l r) =
     (case l of EXPR_SCATTER sc \<Rightarrow> max (expr_depth r) (1 + defaults_depth sc)
      | _ \<Rightarrow> max (lval_depth l False) (lv_push l + expr_depth r))"
| "expr_depth _ = 1"
| "list_depth args = (if args = [] then 1 else args_depth True args)"
| "args_depth first_arg [] = 0"
| "args_depth first_arg ((_, e) # args) =
     max (expr_depth e) ((if first_arg then 1 else 0) + args_depth False args)"
| "lval_depth (EXPR_RANGE b f t) ixd =
     max (lval_depth b True) (max (lv_push b + 1 + expr_depth f) (lv_push b + 2 + expr_depth t))"
| "lval_depth (EXPR_INDEX b x) ixd =
     max (max (lval_depth b True) (lv_push b + 1 + expr_depth x)) (if ixd then lv_push b + 3 else 0)"
| "lval_depth (EXPR_ID _) ixd = (if ixd then 1 else 0)"
| "lval_depth (EXPR_PROP l r) ixd = max (max (expr_depth l) (1 + expr_depth r)) (if ixd then 3 else 0)"
| "lval_depth _ ixd = 0"
| "defaults_depth [] = 0"
| "defaults_depth ((kind, _, x) # sc) =
     (case x of
        Some e \<Rightarrow> if kind = SCAT_OPTIONAL then max (expr_depth e) (defaults_depth sc) else defaults_depth sc
      | None \<Rightarrow> defaults_depth sc)"
  by pat_completeness auto
termination
  by (relation "measure (case_sum
        (case_sum (\<lambda>e. 3 * size e) (\<lambda>args. 3 * size_list (size_prod (\<lambda>_. 0) size) args + 1))
        (case_sum (\<lambda>(_, args). 3 * size_list (size_prod (\<lambda>_. 0) size) args)
          (case_sum (\<lambda>(e, _). 3 * size e)
            (\<lambda>sc. 3 * size_list (size_prod (\<lambda>_. 0) (size_prod (\<lambda>_. 0) (size_option size))) sc))))")
    simp_all

lemma depth_pos:
  "1 \<le> expr_depth e" "1 \<le> list_depth args" "(if args' = [] then 0 else 1) \<le> args_depth first_arg args'"
  "0 \<le> lval_depth l ixd" "0 \<le> defaults_depth sc"
proof (induction e and args and first_arg args' and l ixd and sc
    rule: expr_depth_list_depth_args_depth_lval_depth_defaults_depth.induct)
  case (15 l r)
  then show ?case using lv_push_nonneg[of l] by (cases l) auto
qed (auto simp: le_max_iff_disj split: option.splits if_splits)

lemma case_prod_Some: "(case p of (x, y) \<Rightarrow> f x y) = Some t \<longleftrightarrow> (\<exists>x y. p = (x, y) \<and> f x y = Some t)"
  by (cases p) simp

lemmas bind_Some = Option.bind_eq_Some_conv case_prod_Some

lemma stack_simps [simp]:
  "cur_stack (push_stack n s) = cur_stack s + n" "max_stack (push_stack n s) = max (max_stack s) (cur_stack s + n)"
  "cur_stack (pop_stack n s) = cur_stack s - n" "max_stack (pop_stack n s) = max_stack s"
  "cur_stack (restore_stack_top old s) = cur_stack s" "max_stack (restore_stack_top old s) = max_stack s"
  "cur_stack (emit_extended_byte b s) = cur_stack s" "max_stack (emit_extended_byte b s) = max_stack s"
  "cur_stack (snd (save_stack_top s)) = cur_stack s" "max_stack (snd (save_stack_top s)) = max_stack s"
  by (simp_all add: push_stack_def pop_stack_def restore_stack_top_def emit_extended_byte_def save_stack_top_def)

lemma stack_fixups [simp]:
  "cur_stack (add_fixup k v s) = cur_stack s" "max_stack (add_fixup k v s) = max_stack s"
  "cur_stack (snd (add_linked_label n s)) = cur_stack s" "max_stack (snd (add_linked_label n s)) = max_stack s"
  "cur_stack (snd (add_label s)) = cur_stack s" "max_stack (snd (add_label s)) = max_stack s"
  "cur_stack (snd (add_known_label f s)) = cur_stack s" "max_stack (snd (add_known_label f s)) = max_stack s"
  "cur_stack (add_pseudo_label v s) = cur_stack s" "max_stack (add_pseudo_label v s) = max_stack s"
  by (simp_all add: add_fixup_def add_label_def add_linked_label_def add_linked_fixup_def add_known_label_def
      add_pseudo_label_def add_known_fixup_eq)

lemma stack_refs [simp]:
  "cur_stack (add_var_ref v s) = cur_stack s" "max_stack (add_var_ref v s) = max_stack s"
  "cur_stack (add_stack_ref j s) = cur_stack s" "max_stack (add_stack_ref j s) = max_stack s"
  "cur_stack (add_fork b s) = cur_stack s" "max_stack (add_fork b s) = max_stack s"
  "cur_stack (emit_var_op op gop slot s) = cur_stack s" "max_stack (emit_var_op op gop slot s) = max_stack s"
  by (simp_all add: add_var_ref_def add_stack_ref_def add_fork_def emit_var_op_def Let_def)

lemma stack_literal: "add_literal v s = Some t \<Longrightarrow> cur_stack t = cur_stack s \<and> max_stack t = max_stack s"
  by (auto simp: add_literal_def Let_def bind_Some split: if_splits)

lemma stack_define: "define_label l s = Some t \<Longrightarrow> cur_stack t = cur_stack s \<and> max_stack t = max_stack s"
  by (auto simp: define_label_def)

lemma stack_save: "save_stack_top s = (old, t) \<Longrightarrow> cur_stack t = cur_stack s \<and> max_stack t = max_stack s"
  by (auto simp: save_stack_top_def)

lemma stack_add_label: "add_label s = (l, t) \<Longrightarrow> cur_stack t = cur_stack s \<and> max_stack t = max_stack s"
  using stack_fixups(5,6)[of s] by simp

lemma stack_add_linked_label: "add_linked_label n s = (l, t) \<Longrightarrow> cur_stack t = cur_stack s \<and> max_stack t = max_stack s"
  using stack_fixups(3,4)[of n s] by simp

lemma stack_scatter: "scatter_refs sc s = (ls, t) \<Longrightarrow> cur_stack t = cur_stack s \<and> max_stack t = max_stack s"
proof (induction sc arbitrary: s ls t)
  case (Cons a sc)
  obtain kind slot e where a: "a = (kind, slot, e)" by (cases a)
  obtain l u where u: "add_label (add_var_ref slot s) = (l, u)" by fastforce
  obtain ls' v where v: "scatter_refs sc u = (ls', v)" by fastforce
  have n: "scatter_refs sc (add_pseudo_label n (add_var_ref slot s)) = (ls, t) \<Longrightarrow> ?case" for n
    using Cons.IH[of "add_pseudo_label n (add_var_ref slot s)" ls t] by simp
  show ?case using Cons.prems n stack_add_label[OF u] Cons.IH[OF v] u v a
    by (auto simp: Let_def split: if_splits)
qed simp

lemma stack_assign_loop:
  "assign_loop l ix s = Some (b, t) \<Longrightarrow> cur_stack t = cur_stack s - lv_push l \<and> max_stack t = max_stack s"
  by (induction l ix s rule: assign_loop.induct) auto

text \<open>
  \<open>uses s k d t\<close>: on the way from \<open>s\<close> to \<open>t\<close> the generator has put at most \<open>k\<close> more values on the
  stack, and at most \<open>d\<close> more at any time.
\<close>

definition uses :: "gen \<Rightarrow> int \<Rightarrow> int \<Rightarrow> gen \<Rightarrow> bool" where
  "uses s k d t \<longleftrightarrow> cur_stack t \<le> cur_stack s + k \<and> max_stack t \<le> max (max_stack s) (cur_stack s + d)"

lemma uses_refl: "0 \<le> d \<Longrightarrow> uses s 0 d s"
  by (simp add: uses_def)

lemma uses_same:
  "uses s k d t \<Longrightarrow> cur_stack u = cur_stack t \<and> max_stack u = max_stack t \<Longrightarrow> uses s k d u"
  "uses u k d s \<Longrightarrow> cur_stack u = cur_stack t \<and> max_stack u = max_stack t \<Longrightarrow> uses t k d s"
  by (simp_all add: uses_def)

lemma uses_then:
  "uses s j d t \<Longrightarrow> uses t k e u \<Longrightarrow> j + k \<le> m \<Longrightarrow> d \<le> f \<Longrightarrow> j + e \<le> f \<Longrightarrow> uses s m f u"
  by (auto simp: uses_def)

lemma uses_push: "uses s j d t \<Longrightarrow> j + n \<le> m \<Longrightarrow> d \<le> e \<Longrightarrow> m \<le> e \<Longrightarrow> uses s m e (push_stack n t)"
  by (auto simp: uses_def)

lemma uses_weaken: "uses s j d t \<Longrightarrow> j \<le> k \<Longrightarrow> d \<le> e \<Longrightarrow> uses s k e t"
  by (auto simp: uses_def)

lemma uses_simps [simp]:
  "uses s k d (emit_byte b t) = uses s k d t" "uses s k d (emit_extended_byte e t) = uses s k d t"
  "uses s k d (pop_stack n t) = uses s (k + n) d t" "uses s k d (restore_stack_top old t) = uses s k d t"
  "uses s k d (add_var_ref v t) = uses s k d t" "uses s k d (add_stack_ref j t) = uses s k d t"
  "uses s k d (add_fork bc t) = uses s k d t" "uses s k d (emit_var_op op gop slot t) = uses s k d t"
  by (auto simp: uses_def)

lemma uses_facts:
  "add_literal v t = Some u \<Longrightarrow> uses s k d t \<Longrightarrow> uses s k d u"
  "define_label l t = Some u \<Longrightarrow> uses s k d t \<Longrightarrow> uses s k d u"
  "save_stack_top t = (old, u) \<Longrightarrow> uses s k d t \<Longrightarrow> uses s k d u"
  "add_label t = (lab, u) \<Longrightarrow> uses s k d t \<Longrightarrow> uses s k d u"
  "add_linked_label n t = (lab, u) \<Longrightarrow> uses s k d t \<Longrightarrow> uses s k d u"
  "scatter_refs sc t = (ls, u) \<Longrightarrow> uses s k d t \<Longrightarrow> uses s k d u"
  by (auto intro: uses_same dest: stack_literal stack_define stack_save stack_add_label stack_add_linked_label
      stack_scatter)

lemma uses_push_one [simp]: "uses s 1 1 (push_stack 1 s)" "uses s 1 1 (push_stack 1 (emit_byte b s))"
  by (auto simp: uses_def)

text \<open>What is shown of an expression: as a value, as a left side, and of the defaults of a scattering.\<close>

definition st_expr :: "expr \<Rightarrow> bool" where
  "st_expr e \<longleftrightarrow> (\<forall>s t. generate_expr e s = Some t \<longrightarrow> uses s 1 (expr_depth e) t)"

definition st_lval :: "expr \<Rightarrow> bool" where
  "st_lval e \<longleftrightarrow> (\<forall>ixd s t. push_lvalue e ixd s = Some t \<longrightarrow>
     uses s (lv_push e + (if ixd then 1 else 0)) (lval_depth e ixd) t)"

definition st_scatter :: "expr \<Rightarrow> bool" where
  "st_scatter e \<longleftrightarrow> (case e of EXPR_SCATTER sc \<Rightarrow> \<forall>(k, slot, x) \<in> set sc. \<forall>e \<in> set_option x. st_expr e | _ \<Rightarrow> True)"

lemma st_exprD: "st_expr e \<Longrightarrow> generate_expr e s = Some t \<Longrightarrow> uses s 1 (expr_depth e) t"
  by (simp add: st_expr_def)

lemma st_lvalD:
  "st_lval e \<Longrightarrow> push_lvalue e ixd s = Some t \<Longrightarrow> uses s (lv_push e + (if ixd then 1 else 0)) (lval_depth e ixd) t"
  by (simp add: st_lval_def)

lemma st_then:
  "st_expr e \<Longrightarrow> generate_expr e t = Some u \<Longrightarrow> uses s j d t \<Longrightarrow> j + 1 \<le> m \<Longrightarrow> d \<le> f \<Longrightarrow> j + expr_depth e \<le> f \<Longrightarrow>
   uses s m f u"
  using uses_then st_exprD by blast

lemma st_args:
  "\<forall>a \<in> set args. st_expr (snd a) \<Longrightarrow> generate_args first_arg args s = Some t \<Longrightarrow>
   uses s (if first_arg \<and> args \<noteq> [] then 1 else 0) (args_depth first_arg args) t"
proof (induction args arbitrary: first_arg s)
  case (Cons a args)
  obtain k e where a: "a = (k, e)" by (cases a)
  obtain u op where u: "generate_expr e s = Some u"
    "generate_args False args (pop_stack (if first_arg then 0 else 1) (emit_op op u)) = Some t"
    using Cons.prems(2) a by (auto simp: bind_Some Let_def)
  have e: "st_expr e" using Cons.prems(1) a by simp
  have "uses s (if first_arg then 1 else 0) (expr_depth e) (pop_stack (if first_arg then 0 else 1) (emit_op op u))"
    using st_exprD[OF e u(1)] by simp
  moreover have "uses (pop_stack (if first_arg then 0 else 1) (emit_op op u)) 0 (args_depth False args) t"
    using Cons.IH[OF _ u(2)] Cons.prems(1) by simp
  ultimately show ?case by (rule uses_then) (simp_all add: a)
qed (simp add: uses_refl)

lemma st_list:
  "\<forall>a \<in> set args. st_expr (snd a) \<Longrightarrow> generate_arg_list args s = Some t \<Longrightarrow> uses s 1 (list_depth args) t"
  using st_args[of args True s t] by (cases "args = []") auto

lemma st_codes:
  "\<forall>a \<in> set codes. st_expr (snd a) \<Longrightarrow> generate_codes codes s = Some t \<Longrightarrow>
   uses s 1 (if codes = [] then 1 else list_depth codes) t"
  using st_list[of codes s t] by (cases "codes = []") auto

lemma st_binary:
  assumes "st_expr l" "st_expr r" "\<And>s. generate_expr e s = do { s \<leftarrow> generate_expr l s; s \<leftarrow> generate_expr r s; Some (pop_stack 1 (op s)) }"
    "expr_depth e = max (expr_depth l) (1 + expr_depth r)" "\<And>s k d t. uses s k d (op t) = uses s k d t"
  shows "st_expr e"
  unfolding st_expr_def
proof (intro allI impI)
  fix s t assume "generate_expr e s = Some t"
  then obtain a b where a: "generate_expr l s = Some a" "generate_expr r a = Some b" "t = pop_stack 1 (op b)"
    using assms(3) by (auto simp: bind_Some)
  have "uses s 2 (expr_depth e) b"
    by (rule st_then[OF assms(2) a(2) st_exprD[OF assms(1) a(1)]]) (simp_all add: assms(4))
  then show "uses s 1 (expr_depth e) t" using a(3) assms(5) by simp
qed

lemma st_short:
  assumes "st_expr l" "st_expr r" "\<And>s. generate_expr e s = do {
     s \<leftarrow> generate_expr l s;
     let (end_label, s) = add_label (emit_op op s);
     s \<leftarrow> generate_expr r (pop_stack 1 s);
     define_label end_label s }"
    "expr_depth e = max (expr_depth l) (expr_depth r)"
  shows "st_expr e"
  unfolding st_expr_def
proof (intro allI impI)
  fix s t assume "generate_expr e s = Some t"
  then obtain a k b c where a: "generate_expr l s = Some a" "add_label (emit_op op a) = (k, b)"
    "generate_expr r (pop_stack 1 b) = Some c" "define_label k c = Some t"
    unfolding assms(3) by (auto simp: bind_Some)
  have "uses s 1 (expr_depth l) b" by (rule uses_facts(4)[OF a(2)]) (use st_exprD[OF assms(1) a(1)] in simp)
  then have "uses s 0 (expr_depth l) (pop_stack 1 b)" by simp
  from st_then[OF assms(2) a(3) this, of 1 "expr_depth e"] have "uses s 1 (expr_depth e) c" by (simp add: assms(4))
  then show "uses s 1 (expr_depth e) t" by (rule uses_facts(2)[OF a(4)])
qed

lemma st_unary:
  "st_expr l \<Longrightarrow> (\<And>s. generate_expr e s = map_option (emit_op op) (generate_expr l s)) \<Longrightarrow> expr_depth e = expr_depth l \<Longrightarrow>
   st_expr e"
  using st_exprD by (auto simp: st_expr_def)

lemma st_literal: "st_expr (EXPR_VAR v)"
proof -
  have "uses s 1 1 (push_stack 1 t)" if "add_literal v (emit_op OP_IMM s) = Some t" for s t
    by (rule uses_push[OF uses_facts(1)[OF that, of s 0 0]]) (simp_all add: uses_refl)
  then show ?thesis by (auto simp: st_expr_def split: var.splits if_splits)
qed

lemma st_atoms: "st_expr (EXPR_ID slot)" "st_expr EXPR_LENGTH"
  by (auto simp: st_expr_def uses_def split: option.splits)

lemma st_index: "st_expr l \<Longrightarrow> st_expr r \<Longrightarrow> st_expr (EXPR_INDEX l r)"
  unfolding st_expr_def[of "EXPR_INDEX l r"]
proof (intro allI impI)
  fix s t assume l: "st_expr l" and r: "st_expr r" and "generate_expr (EXPR_INDEX l r) s = Some t"
  then obtain a old b c where a: "generate_expr l s = Some a" "save_stack_top a = (old, b)"
    "generate_expr r b = Some c" "t = pop_stack 1 (emit_op OP_REF (restore_stack_top old c))"
    by (auto simp: bind_Some)
  have "uses s 1 (expr_depth l) b" by (rule uses_facts(3)[OF a(2) st_exprD[OF l a(1)]])
  from st_then[OF r a(3) this, of 2 "expr_depth (EXPR_INDEX l r)"] show "uses s 1 (expr_depth (EXPR_INDEX l r)) t"
    by (simp add: a(4))
qed

lemma st_range: "st_expr l \<Longrightarrow> st_expr f \<Longrightarrow> st_expr u \<Longrightarrow> st_expr (EXPR_RANGE l f u)"
  unfolding st_expr_def[of "EXPR_RANGE l f u"]
proof (intro allI impI)
  fix s t assume e: "st_expr l" "st_expr f" "st_expr u" and "generate_expr (EXPR_RANGE l f u) s = Some t"
  then obtain a old b c d where a: "generate_expr l s = Some a" "save_stack_top a = (old, b)"
    "generate_expr f b = Some c" "generate_expr u c = Some d"
    "t = pop_stack 2 (emit_op OP_RANGE_REF (restore_stack_top old d))"
    by (auto simp: bind_Some)
  have "uses s 1 (expr_depth l) b" by (rule uses_facts(3)[OF a(2) st_exprD[OF e(1) a(1)]])
  from st_then[OF e(2) a(3) this] have "uses s 2 (max (expr_depth l) (1 + expr_depth f)) c" by simp
  from st_then[OF e(3) a(4) this, of 3 "expr_depth (EXPR_RANGE l f u)"] show "uses s 1 (expr_depth (EXPR_RANGE l f u)) t"
    by (simp add: a(5))
qed

lemma st_call: "\<forall>a \<in> set args. st_expr (snd a) \<Longrightarrow> st_expr (EXPR_CALL f args)"
  unfolding st_expr_def[of "EXPR_CALL f args"] using st_list by (auto simp: bind_Some simp del: generate_arg_list.simps list_depth.simps)

lemma st_verb:
  "st_expr l \<Longrightarrow> st_expr r \<Longrightarrow> \<forall>a \<in> set args. st_expr (snd a) \<Longrightarrow> st_expr (EXPR_VERB l r args)"
  unfolding st_expr_def[of "EXPR_VERB l r args"]
proof (intro allI impI)
  let ?e = "EXPR_VERB l r args"
  fix s t assume e: "st_expr l" "st_expr r" "\<forall>a \<in> set args. st_expr (snd a)" and "generate_expr ?e s = Some t"
  then obtain a b c where a: "generate_expr l s = Some a" "generate_expr r a = Some b" "generate_arg_list args b = Some c"
    "t = pop_stack 2 (emit_op OP_CALL_VERB c)"
    by (auto simp: bind_Some)
  have "uses s 2 (expr_depth ?e) b" by (rule st_then[OF e(2) a(2) st_exprD[OF e(1) a(1)]]) simp_all
  from uses_then[OF this st_list[OF e(3) a(3)], of 3 "expr_depth ?e"] show "uses s 1 (expr_depth ?e) t"
    by (simp add: a(4))
qed

lemma st_cond: "st_expr c \<Longrightarrow> st_expr l \<Longrightarrow> st_expr r \<Longrightarrow> st_expr (EXPR_COND c l r)"
  unfolding st_expr_def[of "EXPR_COND c l r"]
proof (intro allI impI)
  let ?e = "EXPR_COND c l r"
  fix s t assume e: "st_expr c" "st_expr l" "st_expr r" and "generate_expr ?e s = Some t"
  then obtain a k b d m f g h where a: "generate_expr c s = Some a" "add_label (emit_op OP_IF_QUES a) = (k, b)"
    "generate_expr l (pop_stack 1 b) = Some d" "add_label (emit_op OP_JUMP d) = (m, f)"
    "define_label k (pop_stack 1 f) = Some g" "generate_expr r g = Some h" "define_label m h = Some t"
    by (auto simp: bind_Some)
  have "uses s 1 (expr_depth c) b" by (rule uses_facts(4)[OF a(2)]) (use st_exprD[OF e(1) a(1)] in simp)
  then have "uses s 0 (expr_depth c) (pop_stack 1 b)" by simp
  from st_then[OF e(2) a(3) this] have "uses s 1 (max (expr_depth c) (expr_depth l)) (emit_op OP_JUMP d)" by simp
  from uses_facts(4)[OF a(4) this] have "uses s 0 (max (expr_depth c) (expr_depth l)) (pop_stack 1 f)" by simp
  from st_then[OF e(3) a(6) uses_facts(2)[OF a(5) this], of 1 "expr_depth ?e"] have "uses s 1 (expr_depth ?e) h" by simp
  then show "uses s 1 (expr_depth ?e) t" by (rule uses_facts(2)[OF a(7)])
qed

lemma st_catch:
  "st_expr e \<Longrightarrow> \<forall>a \<in> set codes. st_expr (snd a) \<Longrightarrow> \<forall>h \<in> set_option x. st_expr h \<Longrightarrow> st_expr (EXPR_CATCH e codes x)"
  unfolding st_expr_def[of "EXPR_CATCH e codes x"]
proof (intro allI impI)
  let ?e = "EXPR_CATCH e codes x"
  let ?d = "max (if codes = [] then 1 else list_depth codes) (3 + expr_depth e)"
  fix s t assume e: "st_expr e" "\<forall>a \<in> set codes. st_expr (snd a)" "\<forall>h \<in> set_option x. st_expr h"
    and "generate_expr ?e s = Some t"
  then obtain a k b c m d f g where a: "generate_codes codes s = Some a"
    "add_label (emit_extended_byte EOP_PUSH_LABEL a) = (k, b)"
    "generate_expr e (push_stack 1 (emit_extended_byte EOP_CATCH (push_stack 1 b))) = Some c"
    "add_label (emit_extended_byte EOP_END_CATCH c) = (m, d)" "define_label k (pop_stack 3 d) = Some f"
    "(case x of Some h \<Rightarrow> generate_expr h (pop_stack 1 (emit_op OP_POP f))
      | None \<Rightarrow> Some (emit_op OP_REF (emit_op (OPTIM_NUM_TO_OPCODE 1) f))) = Some g" "define_label m g = Some t"
    by (auto simp: bind_Some)
  have "uses s 1 (if codes = [] then 1 else list_depth codes) b"
    by (rule uses_facts(4)[OF a(2)]) (use st_codes[OF e(2) a(1)] in simp)
  then have "uses s 3 (max (if codes = [] then 1 else list_depth codes) 3)
      (push_stack 1 (emit_extended_byte EOP_CATCH (push_stack 1 b)))"
    by (intro uses_push[where j = 2 and d = "max (if codes = [] then 1 else list_depth codes) 2"])
      (simp_all add: uses_push[where j = 1] del: list_depth.simps)
  from st_then[OF e(1) a(3) this] have "uses s 4 (max ?d 3) (emit_extended_byte EOP_END_CATCH c)" by simp
  from uses_facts(4)[OF a(4) this] have "uses s 1 (max ?d 3) (pop_stack 3 d)" by simp
  note f = uses_facts(2)[OF a(5) this]
  have "uses s 1 (expr_depth ?e) g"
  proof (cases x)
    case None then show ?thesis using a(6) uses_weaken[OF f] depth_pos(1)[of e] by auto
  next
    case (Some h)
    then have g: "generate_expr h (pop_stack 1 (emit_op OP_POP f)) = Some g" "st_expr h" using a(6) e(3) by auto
    show ?thesis
      by (rule st_then[OF g(2,1), of s 0 "max ?d 3"]) (use f Some depth_pos(1)[of e] in auto)
  qed
  then show "uses s 1 (expr_depth ?e) t" by (rule uses_facts(2)[OF a(7)])
qed

lemma st_lval_id: "st_lval (EXPR_ID slot)"
  by (auto simp: st_lval_def uses_def)

lemma st_lval_prop: "st_expr l \<Longrightarrow> st_expr r \<Longrightarrow> st_lval (EXPR_PROP l r)"
  unfolding st_lval_def
proof (intro allI impI)
  let ?e = "EXPR_PROP l r"
  fix ixd s t assume e: "st_expr l" "st_expr r" and "push_lvalue ?e ixd s = Some t"
  then obtain a b where a: "generate_expr l s = Some a" "generate_expr r a = Some b"
    "t = (if ixd then push_stack 1 (emit_op OP_PUSH_GET_PROP b) else b)"
    by (auto simp: bind_Some)
  have "uses s 2 (max (expr_depth l) (1 + expr_depth r)) b" by (rule st_then[OF e(2) a(2) st_exprD[OF e(1) a(1)]]) simp_all
  then show "uses s (lv_push ?e + (if ixd then 1 else 0)) (lval_depth ?e ixd) t"
    unfolding a(3) by (cases ixd) (auto intro!: uses_push elim: uses_weaken)
qed

lemma st_lval_index: "st_lval b \<Longrightarrow> st_expr x \<Longrightarrow> st_lval (EXPR_INDEX b x)"
  unfolding st_lval_def[of "EXPR_INDEX b x"]
proof (intro allI impI)
  let ?e = "EXPR_INDEX b x"
  fix ixd s t assume e: "st_lval b" "st_expr x" and "push_lvalue ?e ixd s = Some t"
  then obtain a old c d where a: "push_lvalue b True s = Some a" "save_stack_top a = (old, c)" "generate_expr x c = Some d"
    "t = (if ixd then push_stack 1 (emit_op OP_PUSH_REF (restore_stack_top old d)) else restore_stack_top old d)"
    by (auto simp: push_lvalue.simps[of "EXPR_INDEX b x"] Let_def bind_Some simp del: push_lvalue.simps)
  have "uses s (lv_push b + 1) (lval_depth b True) c" by (rule uses_facts(3)[OF a(2)]) (use st_lvalD[OF e(1) a(1)] in simp)
  from st_then[OF e(2) a(3) this]
  have "uses s (lv_push b + 2) (max (lval_depth b True) (lv_push b + 1 + expr_depth x)) d" by simp
  then show "uses s (lv_push ?e + (if ixd then 1 else 0)) (lval_depth ?e ixd) t"
    unfolding a(4) by (cases ixd) (auto intro!: uses_push elim: uses_weaken)
qed

lemma st_lval_range: "st_lval b \<Longrightarrow> st_expr f \<Longrightarrow> st_expr u \<Longrightarrow> st_lval (EXPR_RANGE b f u)"
  unfolding st_lval_def[of "EXPR_RANGE b f u"]
proof (intro allI impI)
  let ?e = "EXPR_RANGE b f u"
  fix ixd s t assume e: "st_lval b" "st_expr f" "st_expr u" and "push_lvalue ?e ixd s = Some t"
  then obtain a old c d g where a: "push_lvalue b True s = Some a" "save_stack_top a = (old, c)" "generate_expr f c = Some d"
    "generate_expr u d = Some g" "t = restore_stack_top old g"
    by (auto simp: push_lvalue.simps[of "EXPR_RANGE b f u"] Let_def bind_Some simp del: push_lvalue.simps)
  have "uses s (lv_push b + 1) (lval_depth b True) c" by (rule uses_facts(3)[OF a(2)]) (use st_lvalD[OF e(1) a(1)] in simp)
  from st_then[OF e(2) a(3) this]
  have "uses s (lv_push b + 2) (max (lval_depth b True) (lv_push b + 1 + expr_depth f)) d"
    by (simp add: add.commute)
  then have "uses s (lv_push b + 3) (lval_depth ?e ixd) t"
    unfolding a(5) uses_simps by (rule st_then[OF e(3) a(4)]) simp_all
  then show "uses s (lv_push ?e + (if ixd then 1 else 0)) (lval_depth ?e ixd) t"
    by (rule uses_weaken) simp_all
qed

lemma st_defaults:
  "\<forall>(k, slot, x) \<in> set sc. \<forall>e \<in> set_option x. st_expr e \<Longrightarrow> scatter_defaults sc ls s = Some t \<Longrightarrow>
   uses s 0 (max 0 (defaults_depth sc)) t"
proof (induction sc arbitrary: ls s)
  case (Cons a sc)
  obtain k slot x where a: "a = (k, slot, x)" by (cases a)
  have rest: "\<And>ls s. scatter_defaults sc ls s = Some t \<Longrightarrow> uses s 0 (max 0 (defaults_depth sc)) t"
    using Cons by simp
  show ?case
  proof (cases "\<exists>e. x = Some e \<and> k = SCAT_OPTIONAL")
    case True
    then obtain e l ls' b c where e: "x = Some e" "k = SCAT_OPTIONAL" "ls = l # ls'" "define_label l s = Some b"
      "generate_expr e b = Some c" "scatter_defaults sc ls' (pop_stack 1 (emit_op OP_POP (emit_put slot c))) = Some t"
      using Cons.prems(2) a by (auto simp: bind_Some split: list.splits)
    have "st_expr e" using Cons.prems(1) a e(1) by simp
    from st_then[OF this e(5) uses_facts(2)[OF e(4) uses_refl[of 0]]]
    have "uses s 0 (max 0 (expr_depth e)) (pop_stack 1 (emit_op OP_POP (emit_put slot c)))" by simp
    then show ?thesis by (rule uses_then[OF _ rest[OF e(6)]]) (simp_all add: a e(1,2))
  next
    case False
    then have "scatter_defaults sc ls s = Some t" "defaults_depth (a # sc) = defaults_depth sc"
      using Cons.prems(2) a by (auto split: option.splits)
    then show ?thesis using rest by simp
  qed
qed (simp add: uses_refl)

lemma st_scatter_assign:
  "st_expr r \<Longrightarrow> \<forall>(k, slot, x) \<in> set sc. \<forall>e \<in> set_option x. st_expr e \<Longrightarrow> st_expr (EXPR_ASGN (EXPR_SCATTER sc) r)"
  unfolding st_expr_def[of "EXPR_ASGN _ _"]
proof (intro allI impI)
  let ?e = "EXPR_ASGN (EXPR_SCATTER sc) r"
  fix s t assume e: "st_expr r" "\<forall>(k, slot, x) \<in> set sc. \<forall>e \<in> set_option x. st_expr e" and "generate_expr ?e s = Some t"
  then obtain a b ls c k d f where a: "generate_expr r s = Some a" "b = emit_byte (word_of_int (scatter_rest sc 0 (-1)))
      (emit_byte (word_of_nat (scatter_nreq sc)) (emit_byte (word_of_nat (length sc)) (emit_extended_byte EOP_SCATTER a)))"
    "scatter_refs sc b = (ls, c)" "add_label c = (k, d)" "scatter_defaults sc ls d = Some f" "define_label k f = Some t"
    by (auto simp: bind_Some Let_def)
  have b: "uses s 1 (expr_depth r) b" using st_exprD[OF e(1) a(1)] by (simp add: a(2))
  have f: "uses s 1 (expr_depth ?e) f"
    by (rule uses_then[OF uses_facts(4)[OF a(4) uses_facts(6)[OF a(3) b]] st_defaults[OF e(2) a(5)]])
      (use depth_pos(5)[of sc] in auto)
  show "uses s 1 (expr_depth ?e) t" by (rule uses_facts(2)[OF a(6) f])
qed

lemma st_assign:
  "st_lval l \<Longrightarrow> st_expr r \<Longrightarrow> \<forall>sc. l \<noteq> EXPR_SCATTER sc \<Longrightarrow> st_expr (EXPR_ASGN l r)"
  unfolding st_expr_def[of "EXPR_ASGN _ _"]
proof (intro allI impI)
  let ?e = "EXPR_ASGN l r"
  fix s t assume e: "st_lval l" "st_expr r" "\<forall>sc. l \<noteq> EXPR_SCATTER sc" and g: "generate_expr ?e s = Some t"
  have "generate_expr ?e s = do {
          s \<leftarrow> push_lvalue l False s;
          s \<leftarrow> generate_expr r s;
          let s = (if is_indexed_lvalue l then emit_op OP_PUT_TEMP s else s);
          (ix, s) \<leftarrow> assign_loop l False s;
          Some (if ix then emit_op OP_PUSH_TEMP (emit_op OP_POP s) else s) }"
    using e(3) by (cases l) auto
  then obtain a b c ix where a: "push_lvalue l False s = Some a" "generate_expr r a = Some b"
    "assign_loop l False (if is_indexed_lvalue l then emit_op OP_PUT_TEMP b else b) = Some (ix, c)"
    "t = (if ix then emit_op OP_PUSH_TEMP (emit_op OP_POP c) else c)"
    using g by (auto simp: bind_Some Let_def)
  have d: "expr_depth ?e = max (lval_depth l False) (lv_push l + expr_depth r)" using e(3) by (cases l) auto
  have "uses s (lv_push l + 1) (expr_depth ?e) b" by (rule st_then[OF e(2) a(2) st_lvalD[OF e(1) a(1)]]) (simp_all add: d del: expr_depth.simps)
  then have "uses s 1 (expr_depth ?e) c" using stack_assign_loop[OF a(3)] by (auto simp: uses_def)
  then show "uses s 1 (expr_depth ?e) t" using a(4) by simp
qed

lemma st_exprs: "st_expr e \<and> st_lval e \<and> st_scatter e"
proof (induction e)
  case (EXPR_VAR v) show ?case using st_literal by (simp add: st_lval_def st_scatter_def)
next
  case (EXPR_ID slot) show ?case using st_atoms st_lval_id by (simp add: st_scatter_def)
next
  case (EXPR_PROP l r) then show ?case
    using st_binary[of l r "EXPR_PROP l r" "emit_op OP_GET_PROP"] st_lval_prop by (simp add: st_scatter_def)
next
  case (EXPR_VERB l r args)
  then have "\<forall>a \<in> set args. st_expr (snd a)" using snd_in_snds by blast
  then show ?case using st_verb EXPR_VERB by (simp add: st_lval_def st_scatter_def)
next
  case (EXPR_INDEX l r) then show ?case using st_index st_lval_index by (simp add: st_scatter_def)
next
  case (EXPR_RANGE l f t) then show ?case using st_range st_lval_range by (simp add: st_scatter_def)
next
  case (EXPR_ASGN l r)
  have "st_expr (EXPR_ASGN l r)"
  proof (cases l)
    case (EXPR_SCATTER sc)
    have "\<forall>(kind, slot, x) \<in> set sc. \<forall>e \<in> set_option x. st_expr e"
      using EXPR_ASGN.IH(1) EXPR_SCATTER by (simp add: st_scatter_def)
    then show ?thesis using st_scatter_assign EXPR_ASGN.IH EXPR_SCATTER by simp
  qed (use st_assign EXPR_ASGN.IH in simp_all)
  then show ?case by (simp add: st_lval_def st_scatter_def)
next
  case (EXPR_CALL f args)
  then have "\<forall>a \<in> set args. st_expr (snd a)" using snd_in_snds by blast
  then show ?case using st_call by (simp add: st_lval_def st_scatter_def)
next
  case (EXPR_BIN k l r) then show ?case
    using st_binary[of l r "EXPR_BIN k l r" "emit_op (bin_op k)"] by (simp add: st_lval_def st_scatter_def)
next
  case (EXPR_EXP l r) then show ?case
    using st_binary[of l r "EXPR_EXP l r" "emit_extended_byte EOP_EXP"] by (simp add: st_lval_def st_scatter_def)
next
  case (EXPR_NEGATE e) then show ?case
    using st_unary[of e "EXPR_NEGATE e" OP_UNARY_MINUS] by (simp add: st_lval_def st_scatter_def)
next
  case (EXPR_AND l r) then show ?case
    using st_short[of l r "EXPR_AND l r" OP_AND] by (simp add: st_lval_def st_scatter_def)
next
  case (EXPR_OR l r) then show ?case
    using st_short[of l r "EXPR_OR l r" OP_OR] by (simp add: st_lval_def st_scatter_def)
next
  case (EXPR_NOT e) then show ?case
    using st_unary[of e "EXPR_NOT e" OP_NOT] by (simp add: st_lval_def st_scatter_def)
next
  case (EXPR_LIST args)
  then have "\<forall>a \<in> set args. st_expr (snd a)" using snd_in_snds by blast
  then show ?case using st_list by (simp add: st_lval_def st_scatter_def st_expr_def[of "EXPR_LIST args"])
next
  case (EXPR_COND c l r) then show ?case using st_cond by (simp add: st_lval_def st_scatter_def)
next
  case (EXPR_CATCH e codes x)
  then have "\<forall>a \<in> set codes. st_expr (snd a)" using snd_in_snds by blast
  then show ?case using st_catch EXPR_CATCH by (simp add: st_lval_def st_scatter_def)
next
  case EXPR_LENGTH then show ?case using st_atoms by (simp add: st_lval_def st_scatter_def)
next
  case (EXPR_SCATTER sc)
  have "st_expr e" if "(kind, slot, x) \<in> set sc" "e \<in> set_option x" for kind slot x e
    using EXPR_SCATTER.IH[OF that(1) snd_in_snds, of x e] snd_in_snds[of "(slot, x)"] that(2) by simp
  then have "st_scatter (EXPR_SCATTER sc)" by (auto simp: st_scatter_def)
  then show ?case by (simp add: st_lval_def st_expr_def)
qed

lemma generate_expr_uses: "generate_expr e s = Some t \<Longrightarrow> uses s 1 (expr_depth e) t"
  using st_exprs st_exprD by blast

lemma generate_codes_uses:
  "generate_codes codes s = Some t \<Longrightarrow> uses s 1 (if codes = [] then 1 else list_depth codes) t"
  using st_exprs st_codes by blast

section \<open>Statements\<close>

fun excepts_depth :: "(int \<times> arg_list \<times> stmt list) list \<Rightarrow> int" where
  "excepts_depth [] = 0"
| "excepts_depth ((_, codes, _) # arms) =
     max (if codes = [] then 1 else list_depth codes) (max 2 (2 + excepts_depth arms))"

function (sequential) stmts_depth :: "stmt list \<Rightarrow> int"
  and stmt_depth :: "stmt \<Rightarrow> int"
  and arms_depth :: "(expr \<times> stmt list) list \<Rightarrow> int"
  and handlers_depth :: "(int \<times> arg_list \<times> stmt list) list \<Rightarrow> int" where
  "stmts_depth [] = 0"
| "stmts_depth (st # sts) = max (stmt_depth st) (stmts_depth sts)"
| "stmt_depth (STMT_COND arms otherwise) = max (arms_depth arms) (stmts_depth otherwise)"
| "stmt_depth (STMT_LIST _ e body) = max (expr_depth e) (2 + stmts_depth body)"
| "stmt_depth (STMT_RANGE _ from to body) =
     max (expr_depth from) (max (1 + expr_depth to) (2 + stmts_depth body))"
| "stmt_depth (STMT_WHILE _ c body) = max (expr_depth c) (stmts_depth body)"
| "stmt_depth (STMT_FORK _ time body) = expr_depth time"
| "stmt_depth (STMT_EXPR e) = expr_depth e"
| "stmt_depth (STMT_RETURN e) = (case e of Some x \<Rightarrow> expr_depth x | None \<Rightarrow> 0)"
| "stmt_depth (STMT_TRY_EXCEPT body excepts) =
     max (excepts_depth excepts)
       (max (2 * int (length excepts) + 1 + stmts_depth body) (handlers_depth excepts))"
| "stmt_depth (STMT_TRY_FINALLY body handler) = max (1 + stmts_depth body) (2 + stmts_depth handler)"
| "stmt_depth _ = 0"
| "arms_depth [] = 0"
| "arms_depth ((c, body) # arms) = max (expr_depth c) (max (stmts_depth body) (arms_depth arms))"
| "handlers_depth [] = 0"
| "handlers_depth ((_, _, body) # arms) = max 1 (max (stmts_depth body) (handlers_depth arms))"
  by pat_completeness auto
termination
  by (relation "measure (case_sum
        (case_sum (\<lambda>sts. size_list size sts) (\<lambda>st. size st))
        (case_sum (\<lambda>arms. size_list (size_prod (\<lambda>_. 0) (size_list size)) arms)
          (\<lambda>arms. size_list (size_prod (\<lambda>_. 0) (size_prod (\<lambda>_. 0) (size_list size))) arms)))")
    simp_all

lemma stmts_depth_pos:
  "0 \<le> stmts_depth sts" "0 \<le> stmt_depth st" "0 \<le> arms_depth arms" "0 \<le> handlers_depth hs"
proof (induction sts and st and arms and hs rule: stmts_depth_stmt_depth_arms_depth_handlers_depth.induct)
qed (use depth_pos(1) in \<open>auto simp: le_max_iff_disj intro: order_trans[OF zero_le_one] split: option.splits\<close>)

lemma uses_known_label [simp]: "uses s k d (snd (add_known_label f t)) = uses s k d t"
  by (simp add: uses_def)

lemma uses_loops [simp]: "uses s k d (t\<lparr>loops := ls\<rparr>) = uses s k d t" "uses (t\<lparr>loops := ls\<rparr>) k d u = uses t k d u"
  "uses s k d (t\<lparr>gs := g\<rparr>) = uses s k d t"
  by (simp_all add: uses_def)

lemma uses_enter_loop [simp]: "uses s k d (enter_loop i topl ts bl bs t) = uses s k d t"
  "uses (enter_loop i topl ts bl bs t) k d u = uses t k d u"
  by (simp_all add: enter_loop_def)

lemma uses_exit_loop: "exit_loop t = Some (l, u) \<Longrightarrow> uses s k d t \<Longrightarrow> uses s k d u"
  by (auto simp: exit_loop_def split: if_splits)

lemma uses_exit: "generate_exit cont ex s = Some t \<Longrightarrow> uses s 0 0 t"
  by (auto simp: generate_exit_def Let_def bind_Some uses_refl uses_def dest: stack_add_linked_label split: if_splits)

lemma uses_expr_then:
  "generate_expr e t = Some u \<Longrightarrow> uses s j d t \<Longrightarrow> j + 1 \<le> m \<Longrightarrow> d \<le> f \<Longrightarrow> j + expr_depth e \<le> f \<Longrightarrow> uses s m f u"
  using uses_then generate_expr_uses by blast

lemma uses_excepts: "generate_excepts arms s = Some (ls, t) \<Longrightarrow> uses s (2 * int (length arms)) (excepts_depth arms) t"
proof (induction arms arbitrary: s ls)
  case (Cons a arms)
  obtain slot codes body where a: "a = (slot, codes, body)" by (cases a)
  obtain u k v ls' where u: "generate_codes codes s = Some u" "add_label (emit_extended_byte EOP_PUSH_LABEL u) = (k, v)"
    "generate_excepts arms (push_stack 1 v) = Some (ls', t)"
    using Cons.prems a by (auto simp: bind_Some)
  have "uses s 1 (if codes = [] then 1 else list_depth codes) v"
    by (rule uses_facts(4)[OF u(2)]) (use generate_codes_uses[OF u(1)] in simp)
  then have "uses s 2 (max (if codes = [] then 1 else list_depth codes) 2) (push_stack 1 v)"
    by (rule uses_push) simp_all
  then show ?case by (rule uses_then[OF _ Cons.IH[OF u(3)]]) (simp_all add: a)
qed (simp add: uses_refl)

text \<open>The end of a loop: its body, the jump back and the label behind it.\<close>

lemma uses_loop:
  assumes "\<forall>s t. generate_stmts body s = Some t \<longrightarrow> uses s 0 (stmts_depth body) t"
    and "generate_stmts body (enter_loop i topl ts k bs u) = Some v" "exit_loop v = Some (l, w)"
    and "define_label l (snd (add_known_label topl (emit_op OP_JUMP w))) = Some t"
    and "uses s j d u" "j + stmts_depth body \<le> f" "d \<le> f"
  shows "uses s j f t"
proof -
  have "uses s j f v" by (rule uses_then[OF _ assms(1)[rule_format, OF assms(2)], of s j d]) (use assms(5-7) in simp_all)
  then have "uses s j f (snd (add_known_label topl (emit_op OP_JUMP w)))" using uses_exit_loop[OF assms(3)] by simp
  then show ?thesis by (rule uses_facts(2)[OF assms(4)])
qed

lemma generate_stmts_uses:
  "generate_stmts sts s = Some t \<Longrightarrow> uses s 0 (stmts_depth sts) t"
  "generate_stmt st s = Some t \<Longrightarrow> uses s 0 (stmt_depth st) t"
  "generate_arms first_arm el arms s = Some (el', t) \<Longrightarrow> uses s 0 (arms_depth arms) t"
  "generate_handlers hs ls el s = Some (el', t) \<Longrightarrow> uses s 0 (handlers_depth hs) t"
proof (induction sts and st and arms and hs arbitrary: s t and s t and first_arm el el' s t and ls el el' s t
    rule: stmts_depth_stmt_depth_arms_depth_handlers_depth.induct)
  case 1 then show ?case by (simp add: uses_refl)
next
  case (2 st sts)
  then obtain u where u: "generate_stmt st s = Some u" "generate_stmts sts u = Some t" by (auto simp: bind_Some)
  show ?case by (rule uses_then[OF "2.IH"(1)[OF u(1)] "2.IH"(2)[OF u(2)]]) simp_all
next
  case (3 arms otherwise)
  then obtain el u v where u: "generate_arms True (-1) arms s = Some (el, u)" "generate_stmts otherwise u = Some v"
    "define_label el v = Some t" by (auto simp: bind_Some)
  show ?case
    by (rule uses_facts(2)[OF u(3) uses_then[OF "3.IH"(1)[OF u(1)] "3.IH"(2)[OF u(2)]]]) simp_all
next
  case (4 slot e body)
  have ih: "\<forall>s t. generate_stmts body s = Some t \<longrightarrow> uses s 0 (stmts_depth body) t"
    using "4.IH" by blast
  from "4.prems" obtain a k b c l d f where u: "generate_expr e s = Some a"
    "add_label (add_var_ref slot (emit_op OP_FOR_LIST (push_stack 1 (emit_op (OPTIM_NUM_TO_OPCODE 1) a)))) = (k, b)"
    "generate_stmts body (enter_loop (int slot) (capture_label (push_stack 1 (emit_op (OPTIM_NUM_TO_OPCODE 1) a)))
       (cur_stack b) k (cur_stack b - 2) b) = Some c"
    "exit_loop c = Some (l, d)"
    "define_label l (snd (add_known_label (capture_label (push_stack 1 (emit_op (OPTIM_NUM_TO_OPCODE 1) a)))
       (emit_op OP_JUMP d))) = Some f" "t = pop_stack 2 f"
    by (auto simp: bind_Some Let_def)
  have "uses s 2 (max (expr_depth e) 2) (push_stack 1 (emit_op (OPTIM_NUM_TO_OPCODE 1) a))"
    by (rule uses_push[where j = 1 and d = "expr_depth e"]) (use generate_expr_uses[OF u(1)] in simp_all)
  then have "uses s 2 (max (expr_depth e) 2) b" by (intro uses_facts(4)[OF u(2)]) simp
  then have "uses s 2 (stmt_depth (STMT_LIST slot e body)) f"
    by (rule uses_loop[OF ih u(3,4,5)]) (use stmts_depth_pos(1)[of body] in \<open>auto simp: max_def\<close>)
  then show ?case using u(6) by simp
next
  case (5 slot fe te body)
  have ih: "\<forall>s t. generate_stmts body s = Some t \<longrightarrow> uses s 0 (stmts_depth body) t"
    using "5.IH" by blast
  from "5.prems" obtain a0 a k b c l d f where u: "generate_expr fe s = Some a0" "generate_expr te a0 = Some a"
    "add_label (add_var_ref slot (emit_op OP_FOR_RANGE a)) = (k, b)"
    "generate_stmts body (enter_loop (int slot) (capture_label a) (cur_stack b) k (cur_stack b - 2) b) = Some c"
    "exit_loop c = Some (l, d)"
    "define_label l (snd (add_known_label (capture_label a) (emit_op OP_JUMP d))) = Some f" "t = pop_stack 2 f"
    by (auto simp: bind_Some Let_def)
  have "uses s 2 (max (expr_depth fe) (1 + expr_depth te)) a"
    by (rule uses_expr_then[OF u(2) generate_expr_uses[OF u(1)]]) simp_all
  then have "uses s 2 (max (expr_depth fe) (1 + expr_depth te)) b" by (intro uses_facts(4)[OF u(3)]) simp
  then have "uses s 2 (stmt_depth (STMT_RANGE slot fe te body)) f"
    by (rule uses_loop[OF ih u(4,5,6)]) simp_all
  then show ?case using u(7) by simp
next
  case (6 slot c body)
  have ih: "\<forall>s t. generate_stmts body s = Some t \<longrightarrow> uses s 0 (stmts_depth body) t"
    using "6.IH" by blast
  from "6.prems" obtain a b0 k b d l g where u: "generate_expr c s = Some a"
    "b0 = (if slot = -1 then emit_op OP_WHILE a else add_var_ref (nat slot) (emit_extended_byte EOP_WHILE_ID a))"
    "add_label b0 = (k, b)"
    "generate_stmts body (enter_loop slot (capture_label s) (cur_stack (pop_stack 1 b)) k (cur_stack (pop_stack 1 b)) (pop_stack 1 b)) = Some d"
    "exit_loop d = Some (l, g)" "define_label l (snd (add_known_label (capture_label s) (emit_op OP_JUMP g))) = Some t"
    by (auto simp: bind_Some Let_def)
  have "uses s 1 (expr_depth c) b0" using generate_expr_uses[OF u(1)] by (simp add: u(2))
  then have "uses s 0 (expr_depth c) (pop_stack 1 b)" using uses_facts(4)[OF u(3)] by simp
  then show ?case by (rule uses_loop[OF ih u(4,5,6)]) simp_all
next
  case (7 slot time body)
  then obtain a where "generate_expr time s = Some a" "uses s 0 (expr_depth time) t = uses s 1 (expr_depth time) a"
    by (auto simp: bind_Some Let_def)
  then show ?case using generate_expr_uses by simp
next
  case (8 e) then show ?case using generate_expr_uses by auto
next
  case (9 e) then show ?case using generate_expr_uses by (auto simp: uses_refl split: option.splits)
next
  case (10 body excepts)
  let ?n = "2 * int (length excepts)"
  obtain ls a b k c el d where u: "generate_excepts excepts s = Some (ls, a)"
    "generate_stmts body (push_stack 1 (emit_byte (word_of_nat (length excepts)) (emit_extended_byte EOP_TRY_EXCEPT a))) = Some b"
    "add_label (emit_extended_byte EOP_END_EXCEPT b) = (k, c)"
    "generate_handlers excepts ls k (pop_stack (?n + 1) c) = Some (el, d)" "define_label el d = Some t"
    using "10.prems" by (auto simp: bind_Some Let_def)
  have "uses s (?n + 1) (max (excepts_depth excepts) (?n + 1))
      (push_stack 1 (emit_byte (word_of_nat (length excepts)) (emit_extended_byte EOP_TRY_EXCEPT a)))"
    by (rule uses_push[where j = ?n and d = "excepts_depth excepts"]) (use uses_excepts[OF u(1)] in simp_all)
  from uses_then[OF this "10.IH"(1)[OF u(2)]]
  have "uses s (?n + 1) (stmt_depth (STMT_TRY_EXCEPT body excepts)) b"
    using stmts_depth_pos(1)[of body] by (simp add: max_def)
  then have "uses s 0 (stmt_depth (STMT_TRY_EXCEPT body excepts)) (pop_stack (?n + 1) c)"
    using uses_facts(4)[OF u(3)] by simp
  from uses_then[OF this "10.IH"(2)[OF u(4)]] have "uses s 0 (stmt_depth (STMT_TRY_EXCEPT body excepts)) d" by simp
  then show ?case by (rule uses_facts(2)[OF u(5)])
next
  case (11 body handler)
  obtain k a b c d where u: "add_label (emit_extended_byte EOP_TRY_FINALLY s) = (k, a)"
    "generate_stmts body (push_stack 1 a) = Some b"
    "define_label k (pop_stack 1 (emit_extended_byte EOP_END_FINALLY b)) = Some c"
    "generate_stmts handler (push_stack 2 c) = Some d" "t = pop_stack 2 (emit_extended_byte EOP_CONTINUE d)"
    using "11.prems" by (auto simp: bind_Some Let_def)
  have "uses s 0 0 a" by (rule uses_facts(4)[OF u(1)]) (simp add: uses_refl)
  then have "uses s 1 1 (push_stack 1 a)" by (rule uses_push) simp_all
  from uses_then[OF this "11.IH"(1)[OF u(2)], of 1 "1 + stmts_depth body"]
  have "uses s 0 (1 + stmts_depth body) (pop_stack 1 (emit_extended_byte EOP_END_FINALLY b))"
    using stmts_depth_pos(1)[of body] by simp
  from uses_push[OF uses_facts(2)[OF u(3) this], of 2 2 "max (1 + stmts_depth body) 2"]
  have "uses s 2 (max (1 + stmts_depth body) 2) (push_stack 2 c)" by simp
  from uses_then[OF this "11.IH"(2)[OF u(4)], of 2 "stmt_depth (STMT_TRY_FINALLY body handler)"]
  show ?case using u(5) stmts_depth_pos(1)[of handler] by (simp add: max_def)
next
  case "12_1" then show ?case using uses_exit by simp
next
  case "12_2" then show ?case using uses_exit by simp
next
  case 13 then show ?case by (simp add: uses_refl)
next
  case (14 c body arms)
  obtain a k b d l f g where u: "generate_expr c s = Some a" "add_label (emit_op (if first_arm then OP_IF else OP_EIF) a) = (k, b)"
    "generate_stmts body (pop_stack 1 b) = Some d" "add_linked_label el (emit_op OP_JUMP d) = (l, f)"
    "define_label k f = Some g" "generate_arms False l arms g = Some (el', t)"
    using "14.prems" by (auto simp: bind_Some Let_def)
  have "uses s 1 (expr_depth c) b" by (rule uses_facts(4)[OF u(2)]) (use generate_expr_uses[OF u(1)] in simp)
  then have "uses s 0 (expr_depth c) (pop_stack 1 b)" by simp
  from uses_then[OF this "14.IH"(1)[OF u(3)], of 0 "max (expr_depth c) (stmts_depth body)"]
  have "uses s 0 (max (expr_depth c) (stmts_depth body)) (emit_op OP_JUMP d)" by simp
  from uses_facts(2)[OF u(5) uses_facts(5)[OF u(4) this]] show ?case
    by (rule uses_then[OF _ "14.IH"(2)[OF u(6)]]) simp_all
next
  case 15 then show ?case by (simp add: uses_refl)
next
  case (16 slot codes body arms)
  obtain l ls' where ls: "ls = l # ls'" using "16.prems" by (auto split: list.splits)
  define op where "op = (\<lambda>s. if slot \<ge> 0 then emit_put (nat slot) s else s)"
  obtain a b where u: "define_label l s = Some a" "generate_stmts body (pop_stack 1 (emit_op OP_POP (op (push_stack 1 a)))) = Some b"
    and r: "(if arms = [] then Some (el, b) else do {
            let (end_label, s) = add_linked_label el (emit_op OP_JUMP b);
            generate_handlers arms ls' end_label s }) = Some (el', t)"
    using "16.prems" ls by (auto simp: bind_Some Let_def op_def)
  have "uses s 0 0 a" by (rule uses_facts(2)[OF u(1)]) (simp add: uses_refl)
  then have "uses s 1 1 (push_stack 1 a)" by (rule uses_push) simp_all
  then have "uses s 0 1 (pop_stack 1 (emit_op OP_POP (op (push_stack 1 a))))" by (simp add: op_def)
  from uses_then[OF this "16.IH"(1)[OF u(2)], of 0 "max 1 (stmts_depth body)"]
  have b: "uses s 0 (max 1 (stmts_depth body)) b" by simp
  show ?case
  proof (cases "arms = []")
    case True
    then have "t = b" using r by simp
    then show ?thesis using uses_weaken[OF b, of 0 "handlers_depth ((slot, codes, body) # arms)"] True by simp
  next
    case False
    then obtain m c where c: "add_linked_label el (emit_op OP_JUMP b) = (m, c)" "generate_handlers arms ls' m c = Some (el', t)"
      using r by (auto simp: case_prod_Some)
    have "uses s 0 (max 1 (stmts_depth body)) c" by (rule uses_facts(5)[OF c(1)]) (use b in simp)
    then show ?thesis by (rule uses_then[OF _ "16.IH"(2)[OF c(2)]]) simp_all
  qed
qed

lemma generate_stmts_depth:
  "generate_stmts sts s = Some t \<Longrightarrow> max_stack t \<le> max (max_stack s) (cur_stack s + stmts_depth sts)"
  using generate_stmts_uses(1) by (simp add: uses_def)

end
