(* ===== verification/Code_Link.thy ===== *)
theory Code_Link
  imports Code_Gen_Laws
begin

text \<open>
  Linking: the bytes of the vector that \<open>link_code\<close> makes of a state of the generator. The item at
  position \<open>n\<close> of the generated code lies at position \<open>n + extra bc fs n\<close> of the vector, and that is
  what a label with the target \<open>n\<close> is replaced by.
\<close>

definition size_of :: "bytecodes \<Rightarrow> fixup \<Rightarrow> nat" where
  "size_of bc f = kind_size bc (fx_kind f)"

definition sizes_ok :: "bytecodes \<Rightarrow> bool" where
  "sizes_ok bc \<longleftrightarrow> (\<forall>k. kind_size bc k \<in> {1, 2, 4})"

text \<open>By how much the references before \<open>n\<close> are longer than their placeholders.\<close>

definition extra :: "bytecodes \<Rightarrow> fixup list \<Rightarrow> nat \<Rightarrow> nat" where
  "extra bc fs n = (\<Sum>f\<leftarrow>fs. if fx_pc f < n then size_of bc f - 1 else 0)"

lemma extra_simps [simp]: "extra bc [] n = 0"
  "extra bc (f # fs) n = (if fx_pc f < n then size_of bc f - 1 else 0) + extra bc fs n"
  by (simp_all add: extra_def)

lemma extra_none: "\<forall>f \<in> set fs. n \<le> fx_pc f \<Longrightarrow> extra bc fs n = 0"
  by (induction fs) auto

lemma extra_cnt:
  "extra bc fs n = cnt FIXUP_LITERAL fs n * (bc_numbytes_literal bc - 1) + cnt FIXUP_FORK fs n * (bc_numbytes_fork bc - 1) +
     cnt FIXUP_VAR_REF fs n * (bc_numbytes_var_name bc - 1) + cnt FIXUP_LABEL fs n * (bc_numbytes_label bc - 1) +
     cnt FIXUP_STACK fs n * (bc_numbytes_stack bc - 1)"
proof (induction fs)
  case (Cons f fs)
  then show ?case by (cases "fx_kind f") (simp_all add: cnt_def size_of_def)
qed (simp add: cnt_def)

lemma ref_bytes_ok: "nb \<in> {1, 2, 4} \<Longrightarrow> \<exists>r. ref_bytes nb v = Some r \<and> length r = nb"
  by (auto simp: ref_bytes_def)

section \<open>The loop that copies the bytes\<close>

text \<open>What the vector holds, for the bytes from \<open>i\<close> on.\<close>

definition linked :: "bytecodes \<Rightarrow> nat \<Rightarrow> 8 word list \<Rightarrow> fixup list \<Rightarrow> 8 word list \<Rightarrow> bool" where
  "linked bc i bs fs v \<longleftrightarrow> length v = length bs + extra bc fs (i + length bs) \<and>
     (\<forall>n. i \<le> n \<longrightarrow> n < i + length bs \<longrightarrow> (\<forall>f \<in> set fs. fx_pc f \<noteq> n) \<longrightarrow> v ! (n - i + extra bc fs n) = bs ! (n - i)) \<and>
     (\<forall>f \<in> set fs. ref_bytes (size_of bc f) (fixup_value bc f) =
        Some (take (size_of bc f) (drop (fx_pc f - i + extra bc fs (fx_pc f)) v)))"

lemma link_loop_linked:
  assumes "sizes_ok bc" "sorted_wrt (<) (map fx_pc fs)" "\<forall>f \<in> set fs. i \<le> fx_pc f \<and> fx_pc f < i + length bs"
  shows "\<exists>v. link_loop bc i bs fs = Some v \<and> linked bc i bs fs v"
  using assms(2,3)
proof (induction bs arbitrary: i fs)
  case Nil then show ?case by (cases fs) (auto simp: linked_def)
next
  case (Cons b bs)
  show ?case
  proof (cases fs)
    case Nil
    obtain v where v: "link_loop bc (i + 1) bs [] = Some v" "linked bc (i + 1) bs [] v" using Cons.IH[of "[]" "i + 1"] by auto
    have "(b # v) ! (n - i) = (b # bs) ! (n - i)" if "i \<le> n" "n < i + length (b # bs)" for n
      using v(2) that by (cases "n = i") (auto simp: linked_def nth_Cons')
    then show ?thesis using v Nil by (auto simp: linked_def)
  next
    case (Cons f fs')
    show ?thesis
    proof (cases "fx_pc f = i")
      case True
      have new: "\<forall>g \<in> set fs'. i + 1 \<le> fx_pc g \<and> fx_pc g < i + 1 + length bs"
        using Cons.prems True Cons by fastforce
      obtain v where v: "link_loop bc (i + 1) bs fs' = Some v" "linked bc (i + 1) bs fs' v"
        using Cons.IH[of fs' "i + 1"] Cons.prems(1) new Cons by auto
      obtain r where r: "ref_bytes (size_of bc f) (fixup_value bc f) = Some r" "length r = size_of bc f"
        using ref_bytes_ok[of "size_of bc f"] assms(1) by (auto simp: sizes_ok_def size_of_def)
      have "size_of bc f \<in> {1, 2, 4}" using assms(1) unfolding sizes_ok_def size_of_def by blast
      then have p: "0 < size_of bc f" by auto
      have l: "link_loop bc i (b # bs) fs = Some (r @ v)" using v(1) r(1) True Cons by (simp add: size_of_def)
      have e: "n - i + extra bc fs n = length r + (n - (i + 1) + extra bc fs' n)" if "i < n" for n
        using that True p Cons r(2) by simp
      have e0: "extra bc fs i = 0" using new True Cons by (auto intro!: extra_none)
      have "linked bc i (b # bs) fs (r @ v)"
        unfolding linked_def
      proof (intro conjI allI impI ballI)
        show "length (r @ v) = length (b # bs) + extra bc fs (i + length (b # bs))"
          using v(2) r(2) p True Cons by (simp add: linked_def)
      next
        fix n assume n: "i \<le> n" "n < i + length (b # bs)" "\<forall>f \<in> set fs. fx_pc f \<noteq> n"
        then have i: "i < n" using True Cons by force
        have "v ! (n - (i + 1) + extra bc fs' n) = bs ! (n - (i + 1))" using v(2) n i Cons by (simp add: linked_def)
        then show "(r @ v) ! (n - i + extra bc fs n) = (b # bs) ! (n - i)"
          unfolding e[OF i] nth_append_length_plus using i by (simp add: nth_Cons')
      next
        fix g assume g: "g \<in> set fs"
        show "ref_bytes (size_of bc g) (fixup_value bc g) =
          Some (take (size_of bc g) (drop (fx_pc g - i + extra bc fs (fx_pc g)) (r @ v)))"
        proof (cases "g = f")
          case True then show ?thesis using r e0 \<open>fx_pc f = i\<close> by simp
        next
          case False
          then have g': "g \<in> set fs'" using g Cons by simp
          then have "i < fx_pc g" using new by fastforce
          from e[OF this] show ?thesis using v(2) g' by (simp add: linked_def)
        qed
      qed
      then show ?thesis using l by blast
    next
      case False
      have new: "\<forall>g \<in> set fs. i + 1 \<le> fx_pc g \<and> fx_pc g < i + 1 + length bs"
        using Cons.prems False Cons by fastforce
      obtain v where v: "link_loop bc (i + 1) bs fs = Some v" "linked bc (i + 1) bs fs v"
        using Cons.IH[of fs "i + 1"] Cons.prems(1) new by auto
      have l: "link_loop bc i (b # bs) fs = Some (b # v)" using v(1) False Cons by simp
      have e0: "extra bc fs i = 0" using new by (auto intro!: extra_none)
      have e: "n - i + extra bc fs n = Suc (n - (i + 1) + extra bc fs n)" if "i < n" for n using that by simp
      have "linked bc i (b # bs) fs (b # v)"
        unfolding linked_def
      proof (intro conjI allI impI ballI)
        show "length (b # v) = length (b # bs) + extra bc fs (i + length (b # bs))" using v(2) by (simp add: linked_def)
      next
        fix n assume n: "i \<le> n" "n < i + length (b # bs)" "\<forall>f \<in> set fs. fx_pc f \<noteq> n"
        show "(b # v) ! (n - i + extra bc fs n) = (b # bs) ! (n - i)"
        proof (cases "n = i")
          case False
          then have i: "i < n" using n by simp
          then show ?thesis unfolding e[OF i] using v(2) n by (simp add: linked_def nth_Cons')
        qed (simp add: e0)
      next
        fix g assume g: "g \<in> set fs"
        then have "i < fx_pc g" using new by fastforce
        from e[OF this] show "ref_bytes (size_of bc g) (fixup_value bc g) =
          Some (take (size_of bc g) (drop (fx_pc g - i + extra bc fs (fx_pc g)) (b # v)))"
          using v(2) g by (simp add: linked_def)
      qed
      then show ?thesis using l by blast
    qed
  qed
qed

section \<open>The whole vector\<close>

lemma ref_size_range: "ref_size n \<in> {1, 2, 4}"
  by (simp add: ref_size_def)

lemma code_sizes_ok: "sizes_ok (fst (code_sizes s))"
  unfolding sizes_ok_def
proof
  fix k show "kind_size (fst (code_sizes s)) k \<in> {1, 2, 4}"
    using ref_size_range by (cases k) (auto simp: code_sizes_def Let_def)
qed

lemma code_sizes_stack: "bc_numbytes_stack (fst (code_sizes s)) = ref_size (nat (max_stack s))"
  by (simp add: code_sizes_def Let_def)

lemma code_sizes_total: "snd (code_sizes s) = num_bytes s + (bc_numbytes_literal (fst (code_sizes s)) - 1) * num_literals s +
    (bc_numbytes_fork (fst (code_sizes s)) - 1) * num_forks s + (bc_numbytes_var_name (fst (code_sizes s)) - 1) * num_var_refs s +
    (bc_numbytes_label (fst (code_sizes s)) - 1) * num_labels s"
  by (simp add: code_sizes_def Let_def)

text \<open>A code that is finished is linked to a vector of exactly the size computed for it.\<close>

lemma link_code_linked:
  assumes i: "gen_inv {} s" and c: "cur_stack s = 0" "saved_stack s = None" and m: "max_stack s \<le> 256"
  obtains v where "link_code s = Some ((fst (code_sizes s))\<lparr>bc_vector := v\<rparr>)"
    "linked (fst (code_sizes s)) 0 (bytes s) (fixups s) v" "length v = snd (code_sizes s)"
proof -
  let ?bc = "fst (code_sizes s)"
  have o: "order_ok s" and ct: "counts_ok s" using gen_invD[OF i] by auto
  have "\<forall>f \<in> set (fixups s). 0 \<le> fx_pc f \<and> fx_pc f < 0 + length (bytes s)" "sorted_wrt (<) (map fx_pc (fixups s))"
    using o by (simp_all add: order_ok_def)
  from link_loop_linked[OF code_sizes_ok[of s] this(2,1)]
  obtain v where v: "link_loop ?bc 0 (bytes s) (fixups s) = Some v" "linked ?bc 0 (bytes s) (fixups s) v" by blast
  have "bc_numbytes_stack ?bc = 1" using m by (simp add: code_sizes_stack ref_size_def)
  then have "length v = snd (code_sizes s)"
    using v(2) ct by (simp add: linked_def extra_cnt counts_ok_def code_sizes_total mult.commute)
  moreover from this have "link_code s = Some (?bc\<lparr>bc_vector := v\<rparr>)" using v(1) c by (simp add: link_code_def split_beta)
  ultimately show thesis using that v(2) by blast
qed

text \<open>What stands for a label is the position of its target.\<close>

lemma fixup_value_label:
  assumes "label_ok s f" "fx_kind f = FIXUP_LABEL" "bc_numbytes_stack bc = 1"
  shows "fixup_value bc f = fx_value f + extra bc (fixups s) (fx_value f)"
  using assms by (simp add: fixup_value_def label_ok_def extra_cnt)

end
