(* ===== verification/Code_Gen_Stmt.thy ===== *)
theory Code_Gen_Stmt
  imports Code_Stack Code_Link
begin

text \<open>
  The generator on statements. The invariant is that of \<open>Code_Gen_Laws\<close>, and that the label behind
  every enclosing loop is a chain of uses, to which an \<open>exit\<close> adds. On every program that the parser
  makes the generator succeeds and the linked code has exactly the size that was computed for it.
\<close>

section \<open>Well-formed statements\<close>

text \<open>
  \<open>ids\<close> are the numbers of the enclosing loops, the outermost first. The code of a forked body is
  linked with the rest, so its stack is bounded here.
\<close>

definition exit_ok :: "int list \<Rightarrow> int \<Rightarrow> bool" where
  "exit_ok ids ex \<longleftrightarrow> (if ex = -1 then ids \<noteq> [] else ex \<in> set ids)"

function (sequential) wf_stmts :: "int list \<Rightarrow> stmt list \<Rightarrow> bool"
  and wf_stmt :: "int list \<Rightarrow> stmt \<Rightarrow> bool"
  and wf_arms :: "int list \<Rightarrow> (expr \<times> stmt list) list \<Rightarrow> bool"
  and wf_excepts :: "int list \<Rightarrow> (int \<times> arg_list \<times> stmt list) list \<Rightarrow> bool" where
  "wf_stmts ids [] = True"
| "wf_stmts ids (st # sts) = (wf_stmt ids st \<and> wf_stmts ids sts)"
| "wf_stmt ids (STMT_COND arms otherwise) = (wf_arms ids arms \<and> wf_stmts ids otherwise)"
| "wf_stmt ids (STMT_LIST slot e body) = (wf_expr False e \<and> wf_stmts (ids @ [int slot]) body)"
| "wf_stmt ids (STMT_RANGE slot from to body) =
     (wf_expr False from \<and> wf_expr False to \<and> wf_stmts (ids @ [int slot]) body)"
| "wf_stmt ids (STMT_WHILE slot c body) = (wf_expr False c \<and> wf_stmts (ids @ [slot]) body)"
| "wf_stmt ids (STMT_FORK slot time body) =
     (wf_expr False time \<and> wf_stmts [] body \<and> stmts_depth body < 256)"
| "wf_stmt ids (STMT_EXPR e) = wf_expr False e"
| "wf_stmt ids (STMT_RETURN e) = (case e of Some x \<Rightarrow> wf_expr False x | None \<Rightarrow> True)"
| "wf_stmt ids (STMT_TRY_EXCEPT body excepts) = (wf_stmts ids body \<and> wf_excepts ids excepts)"
| "wf_stmt ids (STMT_TRY_FINALLY body handler) = (wf_stmts ids body \<and> wf_stmts ids handler)"
| "wf_stmt ids (STMT_BREAK ex) = exit_ok ids ex"
| "wf_stmt ids (STMT_CONTINUE ex) = exit_ok ids ex"
| "wf_arms ids [] = True"
| "wf_arms ids ((c, body) # arms) = (wf_expr False c \<and> wf_stmts ids body \<and> wf_arms ids arms)"
| "wf_excepts ids [] = True"
| "wf_excepts ids ((slot, codes, body) # arms) =
     ((\<forall>a \<in> set codes. wf_expr False (snd a)) \<and> wf_stmts ids body \<and> wf_excepts ids arms)"
  by pat_completeness auto
termination
  by (relation "measure (case_sum
        (case_sum (\<lambda>(_, sts). size_list size sts) (\<lambda>(_, st). size st))
        (case_sum (\<lambda>(_, arms). size_list (size_prod (\<lambda>_. 0) (size_list size)) arms)
          (\<lambda>(_, arms). size_list (size_prod (\<lambda>_. 0) (size_prod (\<lambda>_. 0) (size_list size))) arms)))")
    simp_all

section \<open>Steps over statements\<close>

definition loop_ok :: "gen \<Rightarrow> loop \<Rightarrow> nat set \<Rightarrow> bool" where
  "loop_ok s l C \<longleftrightarrow> chain (fixups s) (lp_bottom_label l) C \<and> label_ok s (lp_top_label l) \<and>
     fx_kind (lp_top_label l) = FIXUP_LABEL \<and> 0 \<le> lp_top_stack l \<and> lp_top_stack l \<le> max_stack s \<and>
     0 \<le> lp_bottom_stack l \<and> lp_bottom_stack l \<le> max_stack s"

text \<open>\<open>Cs\<close> are the uses of the labels behind the loops; \<open>P\<close> the other labels not yet defined.\<close>

definition stmt_inv :: "nat set \<Rightarrow> nat set list \<Rightarrow> gen \<Rightarrow> bool" where
  "stmt_inv P Cs s \<longleftrightarrow> gen_inv (P \<union> \<Union>(set Cs)) s \<and> list_all2 (loop_ok s) (loops s) Cs \<and> saved_stack s = None"

definition same_loop :: "loop \<Rightarrow> loop \<Rightarrow> bool" where
  "same_loop l m \<longleftrightarrow> m\<lparr>lp_bottom_label := lp_bottom_label l\<rparr> = l"

definition grown :: "gen \<Rightarrow> nat set \<Rightarrow> nat set \<Rightarrow> bool" where
  "grown s C D \<longleftrightarrow> C \<subseteq> D \<and> (\<forall>j \<in> D. j \<in> C \<or> length (fixups s) \<le> j)"

definition stmt_step :: "nat set \<Rightarrow> nat set list \<Rightarrow> gen \<Rightarrow> int \<Rightarrow> nat set list \<Rightarrow> gen \<Rightarrow> bool" where
  "stmt_step P Cs s k Ds t \<longleftrightarrow> stmt_inv P Ds t \<and> ext s t \<and> cur_stack t = cur_stack s + k \<and>
     list_all2 same_loop (loops s) (loops t) \<and> list_all2 (grown s) Cs Ds"

lemma stmt_stepD:
  assumes "stmt_step P Cs s k Ds t"
  shows "stmt_inv P Ds t" "ext s t" "cur_stack t = cur_stack s + k" "list_all2 same_loop (loops s) (loops t)"
    "list_all2 (grown s) Cs Ds" "gen_inv (P \<union> \<Union>(set Ds)) t" "saved_stack t = None"
    "list_all2 (loop_ok t) (loops t) Ds" "length (fixups s) \<le> length (fixups t)" "num_bytes s \<le> num_bytes t"
  using assms ext_len by (auto simp: stmt_step_def stmt_inv_def)

lemma same_loop_refl [simp]: "same_loop l l"
  by (simp add: same_loop_def)

lemma same_loop_trans: "same_loop l m \<Longrightarrow> same_loop m n \<Longrightarrow> same_loop l n"
  by (cases l; cases m; cases n) (simp add: same_loop_def)

lemma same_loop_id: "same_loop l m \<Longrightarrow> lp_id m = lp_id l \<and> lp_top_label m = lp_top_label l \<and>
   lp_top_stack m = lp_top_stack l \<and> lp_bottom_stack m = lp_bottom_stack l"
  by (cases l; cases m) (simp add: same_loop_def)

lemma same_loops_ids: "list_all2 same_loop ls ms \<Longrightarrow> map lp_id ms = map lp_id ls"
  by (induction rule: list_all2_induct) (simp_all add: same_loop_id)

lemma grown_refl [simp]: "grown s C C"
  by (simp add: grown_def)

lemma stmt_step_refl: "stmt_inv P Cs s \<Longrightarrow> stmt_step P Cs s 0 Cs s"
  by (simp add: stmt_step_def list_all2_refl)

lemma stmt_step_trans:
  assumes "stmt_step P Cs s j Ds t" "stmt_step Q Ds t k Es u" "m = j + k"
  shows "stmt_step Q Cs s m Es u"
proof -
  have g: "grown t D E \<Longrightarrow> grown s D E" for D E
    using stmt_stepD(9)[OF assms(1)] by (auto simp: grown_def)
  have "list_all2 (grown s) Ds Es" using stmt_stepD(5)[OF assms(2)] g by (auto elim: list_all2_mono)
  with stmt_stepD(5)[OF assms(1)] have "list_all2 (grown s) Cs Es"
    by (rule list_all2_trans[of "grown s" "grown s" "grown s", rotated]) (auto simp: grown_def)
  moreover have "list_all2 same_loop (loops s) (loops u)"
    using list_all2_trans[of same_loop same_loop same_loop, OF _ stmt_stepD(4)[OF assms(1)] stmt_stepD(4)[OF assms(2)]]
      same_loop_trans by blast
  ultimately show ?thesis using assms ext_trans by (auto simp: stmt_step_def)
qed

lemma loop_ok_ext: "loop_ok s l C \<Longrightarrow> ext s t \<Longrightarrow> loop_ok t l C"
  unfolding loop_ok_def using label_ok_ext[of s t] chain_prefix by (auto simp: ext_def)

text \<open>A step of the expression generator is one over statements.\<close>

lemma stmt_step_gen:
  assumes st: "stmt_step P Cs s j Ds t" and g: "gen_step (Q \<union> \<Union>(set Ds)) t k u" and m: "m = j + k"
  shows "stmt_step Q Cs s m Ds u"
proof -
  have "list_all2 (loop_ok u) (loops u) Ds"
    using stmt_stepD(8)[OF st] gen_stepD(2,5)[OF g] loop_ok_ext by (auto elim: list_all2_mono)
  then have "stmt_inv Q Ds u" using gen_stepD(1,4)[OF g] stmt_stepD(7)[OF st] by (simp add: stmt_inv_def)
  then show ?thesis using st gen_stepD[OF g] ext_trans m by (auto simp: stmt_step_def)
qed

lemma stmt_step_mono: "stmt_step P Cs s k Ds t \<Longrightarrow> P \<subseteq> Q \<Longrightarrow> stmt_step Q Cs s k Ds t"
  unfolding stmt_step_def stmt_inv_def by (auto elim!: gen_inv_mono)

lemma step_byte: "stmt_step P Cs s k Ds t \<Longrightarrow> stmt_step P Cs s k Ds (emit_byte b t)"
  using stmt_step_gen gen_step_byte stmt_stepD(6) by fastforce

lemma step_ext: "stmt_step P Cs s k Ds t \<Longrightarrow> stmt_step P Cs s k Ds (emit_extended_byte e t)"
  by (simp add: emit_extended_byte_def step_byte)

lemma step_push: "stmt_step P Cs s k Ds t \<Longrightarrow> 0 \<le> n \<Longrightarrow> m = k + n \<Longrightarrow> stmt_step P Cs s m Ds (push_stack n t)"
  using stmt_step_gen gen_step_push stmt_stepD(6) by blast

lemma step_pop:
  assumes "stmt_step P Cs s k Ds t" "0 \<le> n" "0 \<le> cur_stack s" "n \<le> k" "m = k - n"
  shows "stmt_step P Cs s m Ds (pop_stack n t)"
proof -
  have "n \<le> cur_stack t" using stmt_stepD(3)[OF assms(1)] assms(3,4) by simp
  from stmt_step_gen[OF assms(1) gen_step_pop[OF stmt_stepD(6)[OF assms(1)] assms(2) this]] show ?thesis
    using assms(5) by simp
qed

lemma step_var:
  "stmt_step P Cs s k Ds t \<Longrightarrow> 0 < num_bytes t \<Longrightarrow> stmt_step P Cs s k Ds (add_var_ref slot t)"
  using stmt_step_gen putsD(1)[OF puts_var_ref] stmt_stepD(6) by fastforce

lemma step_fork: "stmt_step P Cs s k Ds t \<Longrightarrow> 0 < num_bytes t \<Longrightarrow> stmt_step P Cs s k Ds (add_fork b t)"
  using stmt_step_gen putsD(1)[OF puts_fork] stmt_stepD(6) by fastforce

lemma step_stack:
  "stmt_step P Cs s k Ds t \<Longrightarrow> 0 < num_bytes t \<Longrightarrow> 0 \<le> j \<Longrightarrow> j \<le> max_stack t \<Longrightarrow> stmt_step P Cs s k Ds (add_stack_ref j t)"
  using stmt_step_gen putsD(1)[OF puts_stack_ref] stmt_stepD(6) by fastforce

lemma step_known:
  "stmt_step P Cs s k Ds t \<Longrightarrow> 0 < num_bytes t \<Longrightarrow> label_ok t f \<Longrightarrow> fx_kind f = FIXUP_LABEL \<Longrightarrow>
   stmt_step P Cs s k Ds (snd (add_known_label f t))"
  using stmt_step_gen putsD(1)[OF puts_known_label] stmt_stepD(6) by fastforce

lemma step_put:
  "stmt_step P Cs s k Ds t \<Longrightarrow> stmt_step P Cs s k Ds (emit_var_op op gop slot t)"
  by (simp add: emit_var_op_def step_var step_byte)

lemma step_expr:
  assumes "stmt_step P Cs s k Ds t" "wf_expr False e" "m = k + 1"
  obtains u where "generate_expr e t = Some u" "stmt_step P Cs s m Ds u"
proof -
  have "runs (P \<union> \<Union>(set Ds)) {} t 1 (\<lambda>p q it ls. p < q \<and> code_at it ls (saved_stack t) (cur_stack t) e p q) (generate_expr e t)"
    by (rule generate_expr_ok) (use stmt_stepD(6,7)[OF assms(1)] assms(2) in simp_all)
  then obtain u where "generate_expr e t = Some u" "gen_step (P \<union> \<Union>(set Ds)) t 1 u"
    by (auto simp: runs_def)
  with that stmt_step_gen[OF assms(1) this(2)] assms(3) show thesis by blast
qed

lemma step_codes:
  assumes "stmt_step P Cs s k Ds t" "\<forall>a \<in> set codes. wf_expr False (snd a)" "m = k + 1"
  obtains u where "generate_codes codes t = Some u" "stmt_step P Cs s m Ds u"
proof -
  have e: "\<forall>a \<in> set codes. expr_ok (snd a) \<and> wf_expr (saved_stack t \<noteq> None) (snd a)"
    using all_exprs_ok assms(2) stmt_stepD(7)[OF assms(1)] by simp
  have "\<exists>F. runs (P \<union> \<Union>(set Ds)) {} t 1 F (generate_codes codes t)"
    using ok_codes[OF e stmt_stepD(6)[OF assms(1)]] by blast
  then obtain u where "generate_codes codes t = Some u" "gen_step (P \<union> \<Union>(set Ds)) t 1 u"
    by (auto simp: runs_def)
  with that stmt_step_gen[OF assms(1) this(2)] assms(3) show thesis by blast
qed

text \<open>One more use of a label: \<open>nxt\<close> is its last use so far, \<open>-1\<close> for none.\<close>

lemma step_label:
  assumes st: "stmt_step P Cs s k Ds t" and n: "0 < num_bytes t" and c: "chain (fixups t) nxt C"
  obtains l u where "add_linked_label nxt t = (int l, u)" "l = length (fixups t)"
    "stmt_step (insert l P) Cs s k Ds u" "chain (fixups u) (int l) (insert l C)" "prefix (fixups t) (fixups u)"
    "ext t u" "loops u = loops t" "num_bytes u = Suc (num_bytes t)" "cur_stack u = cur_stack t" "max_stack u = max_stack t"
proof -
  let ?l = "length (fixups t)"
  obtain u where u: "add_linked_label nxt t = (int ?l, u)" "fx_next (last (fixups u)) = nxt"
    "fx_kind (last (fixups u)) = FIXUP_LABEL" "length (fixups u) = Suc ?l" "max_stack u = max_stack t"
    "puts (insert ?l (P \<union> \<Union>(set Ds))) t (Ref FIXUP_LABEL 0) u"
    using puts_linked_label[OF stmt_stepD(6)[OF st] n, of nxt] by blast
  note g = putsD(1)[OF u(6)]
  have p: "prefix (fixups t) (fixups u)" using gen_stepD(2)[OF g] by (simp add: ext_def)
  have l: "fixups u ! ?l = last (fixups u)" using u(4) by (metis diff_Suc_1 last_conv_nth list.size(3) nat.simps(3))
  have "chain (fixups u) nxt C" using chain_prefix[OF c p] .
  then have "chain (fixups u) (int ?l) (insert ?l C)"
    using u l chain_bound[OF c] by (intro chain_link) auto
  moreover have "stmt_step (insert ?l P) Cs s k Ds u"
    by (rule stmt_step_gen[OF st]) (use g in simp_all)
  ultimately show thesis
    using that u(1,5) p gen_stepD(2,3,5)[OF g] putsD(3)[OF u(6)] by simp
qed

lemma step_label_new:
  assumes st: "stmt_step P Cs s k Ds t" and n: "0 < num_bytes t"
  obtains l u where "add_label t = (int l, u)" "l = length (fixups t)"
    "stmt_step (insert l P) Cs s k Ds u" "chain (fixups u) (int l) {l}" "prefix (fixups t) (fixups u)"
    "ext t u" "loops u = loops t" "num_bytes u = Suc (num_bytes t)" "cur_stack u = cur_stack t" "max_stack u = max_stack t"
  using step_label[OF st n chain_end] by (metis add_label_def)

text \<open>Defining a label all of whose uses are newer than \<open>s\<close>.\<close>

lemma chain_relabel: "chain fs l C \<Longrightarrow> chain (relabel D s fs) l C"
proof (induction rule: chain.induct)
  case (chain_link k fs C)
  then show ?case by (intro chain.chain_link) (auto simp: nth_relabel)
qed (rule chain_end)

lemma step_define:
  assumes st: "stmt_step P Cs s k Ds t" and c: "chain (fixups t) l C" and new: "\<forall>j \<in> C. length (fixups s) \<le> j"
  obtains u where "define_label l t = Some u" "stmt_step (P - C) Cs s k Ds u"
    "\<And>m D. chain (fixups t) m D \<Longrightarrow> chain (fixups u) m D" "num_bytes u = num_bytes t"
    "length (fixups u) = length (fixups t)" "cur_stack u = cur_stack t"
proof -
  let ?u = "t\<lparr>fixups := relabel C t (fixups t)\<rparr>" and ?s = "s\<lparr>loops := loops t, saved_stack := saved_stack t\<rparr>"
  have g: "gen_step (P \<union> \<Union>(set Ds)) ?s k t" using stmt_stepD[OF st] by (auto simp: gen_step_def ext_def)
  have d: "define_label l t = Some ?u" "gen_step (P \<union> \<Union>(set Ds) - C) ?s k ?u"
    using define_label_step[OF c g] new by auto
  have lab: "label_ok ?u f" if "label_ok t f" for f using that by (simp add: label_ok_def)
  have "list_all2 (loop_ok ?u) (loops ?u) Ds"
    using stmt_stepD(8)[OF st] lab chain_relabel by (auto simp: loop_ok_def elim!: list_all2_mono)
  moreover have "gen_inv (P - C \<union> \<Union>(set Ds)) ?u" by (rule gen_inv_mono[OF gen_stepD(1)[OF d(2)]]) auto
  moreover have "ext s ?u" using gen_stepD(2)[OF d(2)] by (auto simp: ext_def)
  ultimately have "stmt_step (P - C) Cs s k Ds ?u"
    using st by (simp add: stmt_step_def stmt_inv_def)
  with d(1) chain_relabel show thesis by (intro that[of ?u]) auto
qed

section \<open>Loops\<close>

definition stmts_ok :: "stmt list \<Rightarrow> bool" where
  "stmts_ok sts \<longleftrightarrow> (\<forall>P Cs s. stmt_inv P Cs s \<longrightarrow> wf_stmts (map lp_id (loops s)) sts \<longrightarrow>
     (\<exists>t Ds. generate_stmts sts s = Some t \<and> stmt_step P Cs s 0 Ds t))"

lemma step_stmts:
  assumes b: "stmts_ok body" and st: "stmt_step P Cs s k Ds t" and w: "wf_stmts (map lp_id (loops s)) body"
  obtains u Es where "generate_stmts body t = Some u" "stmt_step P Cs s k Es u" "ext t u"
proof -
  have "wf_stmts (map lp_id (loops t)) body" using w same_loops_ids[OF stmt_stepD(4)[OF st]] by simp
  then obtain u Es where u: "generate_stmts body t = Some u" "stmt_step P Ds t 0 Es u"
    using b stmt_stepD(1)[OF st] unfolding stmts_ok_def by blast
  show thesis by (rule that[OF u(1) stmt_step_trans[OF st u(2)] stmt_stepD(2)[OF u(2)]]) simp
qed

lemma stmt_inv_enter:
  assumes "stmt_inv (insert l P) Cs s" "chain (fixups s) (int l) {l}" "label_ok s topl" "fx_kind topl = FIXUP_LABEL"
    "0 \<le> ts" "ts \<le> max_stack s" "0 \<le> bs" "bs \<le> max_stack s"
  shows "stmt_inv P (Cs @ [{l}]) (enter_loop i topl ts (int l) bs s)"
proof -
  let ?t = "enter_loop i topl ts (int l) bs s"
  have i: "gen_inv (insert l P \<union> \<Union>(set Cs)) s" and l: "list_all2 (loop_ok s) (loops s) Cs" "saved_stack s = None"
    using assms(1) by (auto simp: stmt_inv_def)
  have e: "ext s ?t" by (rule ext_eq_fields) (simp_all add: enter_loop_def)
  have "gen_inv (insert l P \<union> \<Union>(set Cs)) ?t"
    by (rule gen_inv_eq_fields[OF i]) (use gen_invD[OF i] l(2) in \<open>simp_all add: enter_loop_def\<close>)
  moreover have "insert l P \<union> \<Union>(set Cs) = P \<union> \<Union>(set (Cs @ [{l}]))" by auto
  moreover have "list_all2 (loop_ok ?t) (loops s) Cs" using l(1) loop_ok_ext[OF _ e] by (auto elim: list_all2_mono)
  moreover have "label_ok ?t topl" using label_ok_ext[OF e assms(3)] .
  ultimately show ?thesis
    using assms l(2) by (auto simp: stmt_inv_def enter_loop_def loop_ok_def intro!: list_all2_appendI)
qed

lemma step_loop:
  assumes b: "stmts_ok body" and st: "stmt_step (insert l P) Cs s k Ds t" and new: "length (fixups s) \<le> l"
    and c: "chain (fixups t) (int l) {l}" and top: "label_ok t topl" "fx_kind topl = FIXUP_LABEL"
    and stk: "0 \<le> ts" "ts \<le> max_stack t" "0 \<le> bs" "bs \<le> max_stack t"
    and w: "wf_stmts (map lp_id (loops s) @ [i]) body"
  obtains v m x u Es where "generate_stmts body (enter_loop i topl ts (int l) bs t) = Some v"
    "exit_loop v = Some (m, x)" "define_label m (snd (add_known_label topl (emit_op OP_JUMP x))) = Some u"
    "stmt_step P Cs s k Es u"
proof -
  let ?t = "enter_loop i topl ts (int l) bs t"
  have ids: "map lp_id (loops ?t) = map lp_id (loops s) @ [i]"
    using same_loops_ids[OF stmt_stepD(4)[OF st]] by (simp add: enter_loop_def)
  have lt: "loops ?t = loops t @ [\<lparr>lp_id = i, lp_top_label = topl, lp_top_stack = ts, lp_bottom_label = int l, lp_bottom_stack = bs\<rparr>]"
    and ft: "fixups ?t = fixups t" by (simp_all add: enter_loop_def)
  obtain v Fs where v: "generate_stmts body ?t = Some v" "stmt_step P (Ds @ [{l}]) ?t 0 Fs v"
    using b stmt_inv_enter[OF stmt_stepD(1)[OF st] c top stk] w ids unfolding stmts_ok_def by (metis (no_types))
  obtain Es C where F: "Fs = Es @ [C]" "list_all2 (grown ?t) Ds Es" "grown ?t {l} C"
    using stmt_stepD(5)[OF v(2)] by (auto simp: list_all2_append1 list_all2_Cons1)
  obtain L lp where L: "loops v = L @ [lp]" "list_all2 same_loop (loops t) L"
    using stmt_stepD(4)[OF v(2)] by (auto simp: lt list_all2_append1 list_all2_Cons1)
  let ?x = "v\<lparr>loops := L\<rparr>"
  have ex: "exit_loop v = Some (lp_bottom_label lp, ?x)" using L(1) by (simp add: exit_loop_def)
  have ok: "list_all2 (loop_ok v) L Es" "loop_ok v lp C"
    using stmt_stepD(8)[OF v(2)] list_all2_lengthD[OF L(2)] list_all2_lengthD[OF F(2)] list_all2_lengthD[OF stmt_stepD(8)[OF st]]
    by (auto simp: L(1) F(1) list_all2_append)
  have e: "ext v ?x" "ext t ?t" by (rule ext_eq_fields; simp add: enter_loop_def)+
  have "list_all2 (loop_ok ?x) (loops ?x) Es" using ok(1) loop_ok_ext[OF _ e(1)] by (auto elim: list_all2_mono)
  moreover have "gen_inv (P \<union> C \<union> \<Union>(set Es)) ?x"
  proof -
    have "gen_inv (P \<union> \<Union>(set Fs)) ?x"
      by (rule gen_inv_eq_fields[OF stmt_stepD(6)[OF v(2)]]) (use gen_invD[OF stmt_stepD(6)[OF v(2)]] stmt_stepD(7)[OF v(2)] in simp_all)
    moreover have "P \<union> \<Union>(set Fs) = P \<union> C \<union> \<Union>(set Es)" by (auto simp: F(1))
    ultimately show ?thesis by simp
  qed
  moreover have et: "ext t ?x" using ext_trans[OF ext_trans[OF e(2) stmt_stepD(2)[OF v(2)]] e(1)] .
  moreover have "grown ?t = grown t" by (simp add: grown_def fun_eq_iff enter_loop_def)
  ultimately have "stmt_step (P \<union> C) Ds t 0 Es ?x"
    using L(2) F(2) stmt_stepD(3,7)[OF v(2)] by (simp add: stmt_step_def stmt_inv_def) (simp add: enter_loop_def)
  then have x: "stmt_step (P \<union> C) Cs s k Es ?x" by (rule stmt_step_trans[OF st]) simp
  let ?y = "snd (add_known_label topl (emit_op OP_JUMP ?x))"
  have "label_ok (emit_op OP_JUMP ?x) topl" using label_ok_ext[OF ext_trans[OF et ext_emit_byte] top(1)] .
  then have y: "stmt_step (P \<union> C) Cs s k Es ?y" by (intro step_known step_byte x top(2)) simp_all
  have ch: "chain (fixups ?y) (lp_bottom_label lp) C"
    by (rule chain_prefix[of "fixups v"]) (use ok(2) in \<open>auto simp: loop_ok_def add_known_label_def add_known_fixup_eq\<close>)
  have "\<forall>j \<in> C. length (fixups s) \<le> j"
    using F(3) new stmt_stepD(9)[OF st] by (auto simp: grown_def ft)
  from step_define[OF y ch this] obtain u where u: "define_label (lp_bottom_label lp) ?y = Some u"
    "stmt_step (P \<union> C - C) Cs s k Es u" .
  have "stmt_step P Cs s k Es u" by (rule stmt_step_mono[OF u(2)]) auto
  with that v(1) ex u(1) show thesis by blast
qed

section \<open>Leaving a loop\<close>

lemma exited_loop_bound: "exit_ok (map lp_id (loops s)) ex \<Longrightarrow> \<exists>i < length (loops s). exited_loop ex s = Some i"
proof (cases "ex = -1")
  case False
  assume "exit_ok (map lp_id (loops s)) ex"
  then have "index_of (\<lambda>l. lp_id l = ex) (rev (loops s)) \<noteq> None"
    using False by (auto simp: exit_ok_def index_of_None)
  then obtain j where j: "index_of (\<lambda>l. lp_id l = ex) (rev (loops s)) = Some j" by blast
  then have "j < length (rev (loops s))" unfolding index_of_Some by (rule conjunct1)
  then show ?thesis using False j
    by (intro exI[of _ "length (loops s) - 1 - j"]) (simp add: exited_loop_def)
qed (auto simp: exit_ok_def exited_loop_def)

lemma exited_loop_eq: "loops t = loops s \<Longrightarrow> exited_loop ex t = exited_loop ex s"
  by (simp only: exited_loop_def)

lemma step_break_label:
  assumes st: "stmt_step P Cs s k Ds t" and n: "0 < num_bytes t" and i: "i < length (loops t)"
  obtains l u where "add_linked_label (lp_bottom_label (loops t ! i)) t = (int l, u)" "loops u = loops t"
    "\<exists>Es. stmt_step P Cs s k Es (u\<lparr>loops := (loops u)[i := (loops t ! i)\<lparr>lp_bottom_label := int l\<rparr>]\<rparr>)"
proof -
  have lo: "loop_ok t (loops t ! i) (Ds ! i)" using stmt_stepD(8)[OF st] i by (rule list_all2_nthD)
  then have c: "chain (fixups t) (lp_bottom_label (loops t ! i)) (Ds ! i)" by (simp add: loop_ok_def)
  obtain l u where u: "add_linked_label (lp_bottom_label (loops t ! i)) t = (int l, u)" "l = length (fixups t)"
    "stmt_step (insert l P) Cs s k Ds u" "chain (fixups u) (int l) (insert l (Ds ! i))" "loops u = loops t" "ext t u"
    using step_label[OF st n c] by metis
  let ?lp = "(loops t ! i)\<lparr>lp_bottom_label := int l\<rparr>"
  let ?v = "u\<lparr>loops := (loops u)[i := ?lp]\<rparr>" and ?Es = "Ds[i := insert l (Ds ! i)]"
  have len: "length Ds = length (loops t)" using list_all2_lengthD[OF stmt_stepD(8)[OF st]] by simp
  have e: "ext u ?v" by (rule ext_eq_fields) simp_all
  have "loop_ok u ?lp (insert l (Ds ! i))"
    using loop_ok_ext[OF lo u(6)] u(4) by (simp add: loop_ok_def)
  then have "loop_ok ?v ?lp (insert l (Ds ! i))" using loop_ok_ext[OF _ e] by blast
  moreover have "list_all2 (loop_ok ?v) (loops u) Ds"
    using stmt_stepD(8)[OF u(3)] loop_ok_ext[OF _ e] by (auto elim: list_all2_mono)
  ultimately have ok: "list_all2 (loop_ok ?v) (loops ?v) ?Es" by (simp add: list_all2_update_cong)
  have "Ds ! k \<subseteq> \<Union>(set ?Es)" if "k < length Ds" for k
    using nth_mem[of k ?Es] that by (cases "k = i") (auto simp: nth_list_update)
  then have sub: "\<Union>(set Ds) \<subseteq> \<Union>(set ?Es)" by (auto simp: in_set_conv_nth[of _ Ds]) blast
  have "l \<in> \<Union>(set ?Es)" using nth_mem[of i ?Es] i len by auto
  note sub = sub this
  have "gen_inv (P \<union> \<Union>(set ?Es)) u"
    by (rule gen_inv_mono[OF stmt_stepD(6)[OF u(3)]]) (use sub in auto)
  then have inv: "gen_inv (P \<union> \<Union>(set ?Es)) ?v"
    by (rule gen_inv_eq_fields) (use gen_invD[OF stmt_stepD(6)[OF u(3)]] stmt_stepD(7)[OF u(3)] in simp_all)
  have "same_loop (loops t ! i) ?lp" by (simp add: same_loop_def)
  then have "list_all2 same_loop (loops t) (loops ?v)"
    unfolding u(5) using i by (auto simp: list_all2_conv_all_nth nth_list_update)
  then have sl: "list_all2 same_loop (loops s) (loops ?v)"
    using list_all2_trans[of same_loop same_loop same_loop, OF _ stmt_stepD(4)[OF st]] same_loop_trans by blast
  have "grown s (Cs ! i) (insert l (Ds ! i))" if "i < length Cs"
    using list_all2_nthD[OF stmt_stepD(5)[OF st] that] u(2) stmt_stepD(9)[OF st] by (auto simp: grown_def)
  then have "list_all2 (grown s) Cs ?Es"
    using stmt_stepD(5)[OF st] i len by (auto simp: list_all2_conv_all_nth nth_list_update)
  then have "stmt_step P Cs s k ?Es ?v"
    using inv ok sl stmt_stepD(2,3,7)[OF u(3)] ext_trans[OF stmt_stepD(2)[OF u(3)] e] by (simp add: stmt_step_def stmt_inv_def)
  then show thesis using that[OF u(1,5)] by blast
qed

lemma exit_ok_step:
  assumes i: "stmt_inv P Cs s" and w: "exit_ok (map lp_id (loops s)) ex"
  shows "\<exists>t Ds. generate_exit cont ex s = Some t \<and> stmt_step P Cs s 0 Ds t"
proof -
  define s1 where "s1 = (if ex = -1 then emit_extended_byte EOP_EXIT s else add_var_ref (nat ex) (emit_extended_byte EOP_EXIT_ID s))"
  have s1: "stmt_step P Cs s 0 Cs s1" unfolding s1_def
    using step_ext[OF stmt_step_refl[OF i]] by (auto intro!: step_var simp: emit_extended_byte_def)
  have n: "0 < num_bytes s1" "loops s1 = loops s"
    by (auto simp: s1_def add_var_ref_def Let_def add_fixup_def add_linked_fixup_def add_known_fixup_eq emit_extended_byte_def)
  obtain j where j: "j < length (loops s)" "exited_loop ex s1 = Some j"
    using exited_loop_bound[OF w] exited_loop_eq[OF n(2)] by auto
  have lo: "loop_ok s1 (loops s1 ! j) (Cs ! j)" using list_all2_nthD[OF stmt_stepD(8)[OF s1]] j n by simp
  define bs where "bs = (if cont then lp_top_stack else lp_bottom_stack) (loops s1 ! j)"
  let ?s2 = "add_stack_ref bs s1"
  have st: "stmt_step P Cs s 0 Cs ?s2"
    by (rule step_stack[OF s1 n(1)]) (use lo in \<open>auto simp: loop_ok_def bs_def\<close>)
  have l2: "loops ?s2 = loops s1" "0 < num_bytes ?s2"
    by (simp_all add: add_stack_ref_def add_fixup_def add_linked_fixup_def add_known_fixup_eq)
  have g: "generate_exit cont ex s = (if cont then Some (snd (add_known_label (lp_top_label (loops s1 ! j)) ?s2))
     else let (label, s) = add_linked_label (lp_bottom_label (loops s1 ! j)) ?s2
       in Some (s\<lparr>loops := (loops s)[j := (loops s1 ! j)\<lparr>lp_bottom_label := label\<rparr>]\<rparr>))"
    by (simp add: generate_exit_def s1_def[symmetric] j(2) bs_def Let_def)
  show ?thesis
  proof (cases cont)
    case True
    have lab: "label_ok ?s2 (lp_top_label (loops s1 ! j))" "fx_kind (lp_top_label (loops s1 ! j)) = FIXUP_LABEL"
      using list_all2_nthD[OF stmt_stepD(8)[OF st], of j] j n(2) l2(1) by (simp_all add: loop_ok_def)
    show ?thesis unfolding g using True step_known[OF st l2(2) lab] by auto
  next
    case False
    obtain l u where u: "add_linked_label (lp_bottom_label (loops ?s2 ! j)) ?s2 = (int l, u)" "loops u = loops s"
      "\<exists>Es. stmt_step P Cs s 0 Es (u\<lparr>loops := (loops u)[j := (loops ?s2 ! j)\<lparr>lp_bottom_label := int l\<rparr>]\<rparr>)"
      using step_break_label[OF st l2(2), of j] j(1) n(2) l2(1) by metis
    then show ?thesis unfolding g using False by (auto simp: l2(1) Let_def)
  qed
qed

section \<open>All statements\<close>

definition stmt_ok :: "stmt \<Rightarrow> bool" where
  "stmt_ok st \<longleftrightarrow> (\<forall>P Cs s. stmt_inv P Cs s \<longrightarrow> wf_stmt (map lp_id (loops s)) st \<longrightarrow>
     (\<exists>t Ds. generate_stmt st s = Some t \<and> stmt_step P Cs s 0 Ds t))"

definition arms_ok :: "(expr \<times> stmt list) list \<Rightarrow> bool" where
  "arms_ok arms \<longleftrightarrow> (\<forall>P Cs s Ds t C el first_arm. stmt_step (P \<union> C) Cs s 0 Ds t \<longrightarrow> chain (fixups t) el C \<longrightarrow>
     wf_arms (map lp_id (loops s)) arms \<longrightarrow>
     (\<exists>el' u Es D. generate_arms first_arm el arms t = Some (el', u) \<and> stmt_step (P \<union> D) Cs s 0 Es u \<and>
        chain (fixups u) el' D \<and> grown s C D))"

definition handlers_ok :: "(int \<times> arg_list \<times> stmt list) list \<Rightarrow> bool" where
  "handlers_ok hs \<longleftrightarrow> (\<forall>P Cs s Ds t C el ks. stmt_step (P \<union> C \<union> set ks) Cs s 0 Ds t \<longrightarrow> chain (fixups t) el C \<longrightarrow>
     length ks = length hs \<longrightarrow> (\<forall>k \<in> set ks. chain (fixups t) (int k) {k} \<and> length (fixups s) \<le> k) \<longrightarrow>
     wf_excepts (map lp_id (loops s)) hs \<longrightarrow>
     (\<exists>el' u Es D. generate_handlers hs (map int ks) el t = Some (el', u) \<and> stmt_step (P \<union> D) Cs s 0 Es u \<and>
        chain (fixups u) el' D \<and> grown s C D))"

lemma step_cur: "stmt_step P Cs s k Ds t \<Longrightarrow> 0 \<le> cur_stack t \<and> cur_stack t \<le> max_stack t"
  using gen_invD(3,4) stmt_stepD(6) by blast

lemma stmt_inv_cur: "stmt_inv P Cs s \<Longrightarrow> 0 \<le> cur_stack s"
  using gen_invD(3) by (auto simp: stmt_inv_def)

lemma chain_ext: "chain (fixups t) l C \<Longrightarrow> ext t u \<Longrightarrow> chain (fixups u) l C"
  using chain_prefix by (auto simp: ext_def)

lemma push_fixups [simp]: "fixups (push_stack n s) = fixups s" "fixups (pop_stack n s) = fixups s"
  "fixups (emit_extended_byte e s) = fixups s"
  by (simp_all add: push_stack_def pop_stack_def emit_extended_byte_def)

lemma ok_nil: "stmts_ok []"
  by (auto simp: stmts_ok_def intro: stmt_step_refl)

lemma ok_cons: "stmt_ok st \<Longrightarrow> stmts_ok sts \<Longrightarrow> stmts_ok (st # sts)"
  unfolding stmts_ok_def[of "st # sts"]
proof (intro allI impI)
  fix P Cs s assume a: "stmt_ok st" "stmts_ok sts" and i: "stmt_inv P Cs s" and w: "wf_stmts (map lp_id (loops s)) (st # sts)"
  obtain t Ds where t: "generate_stmt st s = Some t" "stmt_step P Cs s 0 Ds t"
    using a(1) i w unfolding stmt_ok_def by fastforce
  obtain u Es where u: "generate_stmts sts t = Some u" "stmt_step P Cs s 0 Es u"
    using step_stmts[OF a(2) t(2)] w by (metis wf_stmts.simps(2))
  show "\<exists>t Ds. generate_stmts (st # sts) s = Some t \<and> stmt_step P Cs s 0 Ds t" using t u by auto
qed

lemma ok_stmt_expr: "stmt_ok (STMT_EXPR e)"
  unfolding stmt_ok_def
proof (intro allI impI)
  fix P Cs s assume i: "stmt_inv P Cs s" and w: "wf_stmt (map lp_id (loops s)) (STMT_EXPR e)"
  obtain t where t: "generate_expr e s = Some t" "stmt_step P Cs s 1 Cs t"
    using step_expr[OF stmt_step_refl[OF i], of e 1] w by auto
  have "stmt_step P Cs s 0 Cs (pop_stack 1 (emit_op OP_POP t))"
    by (rule step_pop[OF step_byte[OF t(2)]]) (use stmt_inv_cur[OF i] in simp_all)
  then show "\<exists>t Ds. generate_stmt (STMT_EXPR e) s = Some t \<and> stmt_step P Cs s 0 Ds t" using t(1) by auto
qed

lemma ok_return: "stmt_ok (STMT_RETURN x)"
  unfolding stmt_ok_def
proof (intro allI impI)
  fix P Cs s assume i: "stmt_inv P Cs s" and w: "wf_stmt (map lp_id (loops s)) (STMT_RETURN x)"
  show "\<exists>t Ds. generate_stmt (STMT_RETURN x) s = Some t \<and> stmt_step P Cs s 0 Ds t"
  proof (cases x)
    case None then show ?thesis using step_byte[OF stmt_step_refl[OF i]] by auto
  next
    case (Some e)
    then obtain t where t: "generate_expr e s = Some t" "stmt_step P Cs s 1 Cs t"
      using step_expr[OF stmt_step_refl[OF i], of e 1] w by auto
    have "stmt_step P Cs s 0 Cs (pop_stack 1 (emit_op OP_RETURN t))"
      by (rule step_pop[OF step_byte[OF t(2)]]) (use stmt_inv_cur[OF i] in simp_all)
    then show ?thesis using t(1) Some by auto
  qed
qed

lemma ok_exit: "stmt_ok (STMT_BREAK ex)" "stmt_ok (STMT_CONTINUE ex)"
  using exit_ok_step by (auto simp: stmt_ok_def)

lemma bytes_refs [simp]: "bytes (add_var_ref slot s) = bytes s @ [0]" "bytes (add_fork b s) = bytes s @ [0]"
  by (simp_all add: add_var_ref_def add_fork_def Let_def add_fixup_def add_linked_fixup_def add_known_fixup_eq)

lemma ext_var: "gen_inv P s \<Longrightarrow> 0 < num_bytes s \<Longrightarrow> ext s (add_var_ref slot s)"
  using gen_stepD(2) putsD(1) puts_var_ref by blast

text \<open>The loops over a list and over a range, from the state \<open>b\<close> at their top.\<close>

lemma step_for:
  assumes body: "stmts_ok body" and b: "stmt_step P Cs s 2 Cs b" and c0: "0 \<le> cur_stack s"
    and w: "wf_stmts (map lp_id (loops s) @ [int slot]) body"
  obtains l d v m x u Es where "add_label (add_var_ref slot (emit_op op b)) = (int l, d)"
    "generate_stmts body (enter_loop (int slot) (capture_label b) (cur_stack d) (int l) (cur_stack d - 2) d) = Some v"
    "exit_loop v = Some (m, x)" "define_label m (snd (add_known_label (capture_label b) (emit_op OP_JUMP x))) = Some u"
    "stmt_step P Cs s 0 Es (pop_stack 2 u)"
proof -
  let ?c = "add_var_ref slot (emit_op op b)"
  have c: "stmt_step P Cs s 2 Cs ?c" by (intro step_var step_byte b) simp
  obtain l d where d: "add_label ?c = (int l, d)" "l = length (fixups ?c)" "stmt_step (insert l P) Cs s 2 Cs d"
    "chain (fixups d) (int l) {l}" "ext ?c d"
    using step_label_new[OF c] by (metis bytes_refs(1) length_append_singleton zero_less_Suc)
  have "ext (emit_op op b) ?c" by (rule ext_var[OF stmt_stepD(6)[OF step_byte[OF b]]]) simp
  then have e: "ext b d" using d(5) ext_trans ext_emit_byte by metis
  have top: "label_ok d (capture_label b)" "fx_kind (capture_label b) = FIXUP_LABEL"
    using label_ok_ext[OF e capture_label_ok[OF stmt_stepD(6)[OF b]]] by (auto simp: capture_label_def)
  have k: "length (fixups s) \<le> l" using stmt_stepD(9)[OF c] d(2) by simp
  have st: "0 \<le> cur_stack d" "cur_stack d \<le> max_stack d" "0 \<le> cur_stack d - 2" "cur_stack d - 2 \<le> max_stack d"
    using step_cur[OF d(3)] stmt_stepD(3)[OF d(3)] c0 by auto
  obtain v m x u Es where v: "generate_stmts body (enter_loop (int slot) (capture_label b) (cur_stack d) (int l) (cur_stack d - 2) d) = Some v"
    "exit_loop v = Some (m, x)" "define_label m (snd (add_known_label (capture_label b) (emit_op OP_JUMP x))) = Some u"
    "stmt_step P Cs s 2 Es u"
    by (rule step_loop[OF body d(3) k d(4) top st w])
  have "stmt_step P Cs s 0 Es (pop_stack 2 u)" by (rule step_pop[OF v(4)]) (use c0 in simp_all)
  with that d(1) v(1-3) show thesis by blast
qed

lemma ok_for_list:
  assumes b: "stmts_ok body" shows "stmt_ok (STMT_LIST slot e body)"
  unfolding stmt_ok_def
proof (intro allI impI)
  fix P Cs s assume i: "stmt_inv P Cs s" and w: "wf_stmt (map lp_id (loops s)) (STMT_LIST slot e body)"
  obtain a where a: "generate_expr e s = Some a" "stmt_step P Cs s 1 Cs a"
    using step_expr[OF stmt_step_refl[OF i], of e 1] w by auto
  let ?b = "push_stack 1 (emit_op (OPTIM_NUM_TO_OPCODE 1) a)"
  have b1: "stmt_step P Cs s 2 Cs ?b" by (rule step_push[OF step_byte[OF a(2)]]) simp_all
  obtain l d v m x u Es where "add_label (add_var_ref slot (emit_op OP_FOR_LIST ?b)) = (int l, d)"
    "generate_stmts body (enter_loop (int slot) (capture_label ?b) (cur_stack d) (int l) (cur_stack d - 2) d) = Some v"
    "exit_loop v = Some (m, x)" "define_label m (snd (add_known_label (capture_label ?b) (emit_op OP_JUMP x))) = Some u"
    "stmt_step P Cs s 0 Es (pop_stack 2 u)"
    using step_for[OF b b1 stmt_inv_cur[OF i]] w unfolding wf_stmt.simps by blast
  then show "\<exists>t Ds. generate_stmt (STMT_LIST slot e body) s = Some t \<and> stmt_step P Cs s 0 Ds t"
    using a(1) by (auto simp: Let_def)
qed

lemma ok_for_range:
  assumes b: "stmts_ok body" shows "stmt_ok (STMT_RANGE slot fe te body)"
  unfolding stmt_ok_def
proof (intro allI impI)
  fix P Cs s assume i: "stmt_inv P Cs s" and w: "wf_stmt (map lp_id (loops s)) (STMT_RANGE slot fe te body)"
  obtain a where a: "generate_expr fe s = Some a" "stmt_step P Cs s 1 Cs a"
    using step_expr[OF stmt_step_refl[OF i], of fe 1] w by auto
  obtain a' where a': "generate_expr te a = Some a'" "stmt_step P Cs s 2 Cs a'"
    using step_expr[OF a(2), of te 2] w by auto
  obtain l d v m x u Es where "add_label (add_var_ref slot (emit_op OP_FOR_RANGE a')) = (int l, d)"
    "generate_stmts body (enter_loop (int slot) (capture_label a') (cur_stack d) (int l) (cur_stack d - 2) d) = Some v"
    "exit_loop v = Some (m, x)" "define_label m (snd (add_known_label (capture_label a') (emit_op OP_JUMP x))) = Some u"
    "stmt_step P Cs s 0 Es (pop_stack 2 u)"
    using step_for[OF b a'(2) stmt_inv_cur[OF i]] w unfolding wf_stmt.simps by blast
  then show "\<exists>t Ds. generate_stmt (STMT_RANGE slot fe te body) s = Some t \<and> stmt_step P Cs s 0 Ds t"
    using a(1) a'(1) by (auto simp: Let_def)
qed

lemma ok_while:
  assumes b: "stmts_ok body" shows "stmt_ok (STMT_WHILE slot c body)"
  unfolding stmt_ok_def
proof (intro allI impI)
  fix P Cs s assume i: "stmt_inv P Cs s" and w: "wf_stmt (map lp_id (loops s)) (STMT_WHILE slot c body)"
  obtain a where a: "generate_expr c s = Some a" "stmt_step P Cs s 1 Cs a"
    using step_expr[OF stmt_step_refl[OF i], of c 1] w by auto
  define f where "f = (if slot = -1 then emit_op OP_WHILE a else add_var_ref (nat slot) (emit_extended_byte EOP_WHILE_ID a))"
  have f: "stmt_step P Cs s 1 Cs f"
    using step_byte[OF a(2)] step_ext[OF a(2)] by (auto simp: f_def emit_extended_byte_def intro!: step_var)
  have n: "0 < num_bytes f" by (simp add: f_def)
  obtain l d where d: "add_label f = (int l, d)" "l = length (fixups f)" "stmt_step (insert l P) Cs s 1 Cs d"
    "chain (fixups d) (int l) {l}"
    using step_label_new[OF f n] by metis
  let ?d = "pop_stack 1 d"
  have d1: "stmt_step (insert l P) Cs s 0 Cs ?d" by (rule step_pop[OF d(3)]) (use stmt_inv_cur[OF i] in simp_all)
  have ig: "gen_inv (P \<union> \<Union>(set Cs)) s" using i by (simp add: stmt_inv_def)
  have top: "label_ok ?d (capture_label s)" "fx_kind (capture_label s) = FIXUP_LABEL"
    using label_ok_ext[OF stmt_stepD(2)[OF d1] capture_label_ok[OF ig]] by (auto simp: capture_label_def)
  have k: "length (fixups s) \<le> l" using stmt_stepD(9)[OF f] d(2) by simp
  have st: "0 \<le> cur_stack ?d" "cur_stack ?d \<le> max_stack ?d" using step_cur[OF d1] by auto
  have ch: "chain (fixups ?d) (int l) {l}" using d(4) by simp
  have w': "wf_stmts (map lp_id (loops s) @ [slot]) body" using w by simp
  obtain v m x u Es where v: "generate_stmts body (enter_loop slot (capture_label s) (cur_stack ?d) (int l) (cur_stack ?d) ?d) = Some v"
    "exit_loop v = Some (m, x)" "define_label m (snd (add_known_label (capture_label s) (emit_op OP_JUMP x))) = Some u"
    "stmt_step P Cs s 0 Es u"
    by (rule step_loop[OF b d1 k ch top st st w'])
  then show "\<exists>t Ds. generate_stmt (STMT_WHILE slot c body) s = Some t \<and> stmt_step P Cs s 0 Ds t"
    using a(1) d(1) unfolding f_def by (auto simp: Let_def)
qed

section \<open>Forks\<close>

text \<open>The tables of literals and forked vectors may grow on the side.\<close>

lemma gen_step_gs:
  assumes i: "gen_inv P s" and p: "prefix (gs_literals (gs s)) (gs_literals g)" "prefix (gs_fork_vectors (gs s)) (gs_fork_vectors g)"
    and l: "\<forall>v \<in> set (gs_literals g). plain_literal v"
  shows "gen_step P s 0 (s\<lparr>gs := g\<rparr>)"
proof -
  have e: "ext s (s\<lparr>gs := g\<rparr>)" using p by (simp add: ext_def)
  have "gen_inv P (s\<lparr>gs := g\<rparr>)"
    by (rule gen_inv_step[OF i e]) (use gen_invD[OF i] l in \<open>simp_all add: order_ok_def counts_ok_def\<close>)
  then show ?thesis using e by (simp add: gen_step_def)
qed

lemma gen_inv_init: "\<forall>v \<in> set (gs_literals g). plain_literal v \<Longrightarrow> gen_inv {} (init_state g)"
  by (simp add: gen_inv_def init_state_def order_ok_def counts_ok_def cnt_def)

lemma stmt_inv_init: "\<forall>v \<in> set (gs_literals g). plain_literal v \<Longrightarrow> stmt_inv {} [] (init_state g)"
  using gen_inv_init by (simp add: stmt_inv_def) (simp add: init_state_def)

text \<open>A whole program: it is generated and linked, within the stack that its syntax says.\<close>

lemma program_ok:
  assumes b: "stmts_ok sts" and w: "wf_stmts [] sts" and d: "stmts_depth sts < 256"
    and l: "\<forall>v \<in> set (gs_literals g). plain_literal v"
  obtains s v where "generate_stmts sts (init_state g) = Some s" "gen_inv {} s"
    "ext (init_state g) s" "link_code (emit_op OP_DONE s) = Some ((fst (code_sizes (emit_op OP_DONE s)))\<lparr>bc_vector := v\<rparr>)"
    "linked (fst (code_sizes (emit_op OP_DONE s))) 0 (bytes s @ [op_byte OP_DONE]) (fixups s) v"
    "length v = snd (code_sizes (emit_op OP_DONE s))" "max_stack s \<le> stmts_depth sts"
proof -
  have "wf_stmts (map lp_id (loops (init_state g))) sts" using w by (simp add: init_state_def)
  then obtain s Ds where s: "generate_stmts sts (init_state g) = Some s" "stmt_step {} [] (init_state g) 0 Ds s"
    using b stmt_inv_init[OF l] unfolding stmts_ok_def by blast
  have "Ds = []" using stmt_stepD(5)[OF s(2)] by simp
  then have i: "gen_inv {} s" using stmt_stepD(6)[OF s(2)] by simp
  have ii: "gen_inv {} (emit_op OP_DONE s)" by (rule gen_inv_emit_byte[OF i])
  have c: "cur_stack s = 0" "saved_stack s = None" using stmt_stepD(3,7)[OF s(2)] by (simp_all add: init_state_def)
  have m: "max_stack s \<le> stmts_depth sts"
    using generate_stmts_depth[OF s(1)] stmts_depth_pos(1)[of sts] by (simp add: init_state_def)
  obtain v where "link_code (emit_op OP_DONE s) = Some ((fst (code_sizes (emit_op OP_DONE s)))\<lparr>bc_vector := v\<rparr>)"
    "linked (fst (code_sizes (emit_op OP_DONE s))) 0 (bytes (emit_op OP_DONE s)) (fixups (emit_op OP_DONE s)) v"
    "length v = snd (code_sizes (emit_op OP_DONE s))"
    using link_code_linked[OF ii] c m d by (metis emit_byte_fields(4-6) less_imp_le order_trans)
  with that s(1) i stmt_stepD(2)[OF s(2)] m show thesis by simp
qed

lemma ok_fork:
  assumes b: "stmts_ok body" shows "stmt_ok (STMT_FORK slot time body)"
  unfolding stmt_ok_def
proof (intro allI impI)
  fix P Cs s assume i: "stmt_inv P Cs s" and w: "wf_stmt (map lp_id (loops s)) (STMT_FORK slot time body)"
  obtain a where a: "generate_expr time s = Some a" "stmt_step P Cs s 1 Cs a"
    using step_expr[OF stmt_step_refl[OF i], of time 1] w by auto
  let ?b = "emit_op (if slot \<ge> 0 then OP_FORK_WITH_ID else OP_FORK) a"
  have b1: "stmt_step P Cs s 1 Cs ?b" by (rule step_byte[OF a(2)])
  have l: "\<forall>v \<in> set (gs_literals (gs ?b)). plain_literal v" using gen_invD(5)[OF stmt_stepD(6)[OF b1]] .
  have wb: "wf_stmts [] body" "stmts_depth body < 256" using w by auto
  obtain t v where t: "generate_stmts body (init_state (gs ?b)) = Some t" "gen_inv {} t"
    "ext (init_state (gs ?b)) t" "link_code (emit_op OP_DONE t) = Some ((fst (code_sizes (emit_op OP_DONE t)))\<lparr>bc_vector := v\<rparr>)"
    using program_ok[OF b wb l] by metis
  define bc where "bc = (fst (code_sizes (emit_op OP_DONE t)))\<lparr>bc_vector := v\<rparr>"
  let ?c = "?b\<lparr>gs := gs (emit_op OP_DONE t)\<rparr>"
  have p: "prefix (gs_literals (gs ?b)) (gs_literals (gs (emit_op OP_DONE t)))"
    "prefix (gs_fork_vectors (gs ?b)) (gs_fork_vectors (gs (emit_op OP_DONE t)))"
    using t(3) by (simp_all add: ext_def init_state_def)
  have "gen_step (P \<union> \<Union>(set Cs)) ?b 0 ?c"
    by (rule gen_step_gs[OF stmt_stepD(6)[OF b1] p gen_invD(5)[OF gen_inv_emit_byte[OF t(2)]]])
  from stmt_step_gen[OF b1 this] have c: "stmt_step P Cs s 1 Cs ?c" by simp
  let ?d = "add_fork bc ?c"
  have d: "stmt_step P Cs s 1 Cs ?d" by (rule step_fork[OF c]) simp
  have "0 < num_bytes ?d" by simp
  then have "stmt_step P Cs s 1 Cs (if slot \<ge> 0 then add_var_ref (nat slot) ?d else ?d)" using d by (auto intro: step_var)
  from step_pop[OF this, of 1 0] have "stmt_step P Cs s 0 Cs (pop_stack 1 (if slot \<ge> 0 then add_var_ref (nat slot) ?d else ?d))"
    using stmt_inv_cur[OF i] by simp
  then show "\<exists>t Ds. generate_stmt (STMT_FORK slot time body) s = Some t \<and> stmt_step P Cs s 0 Ds t"
    using a(1) t(1,4) bc_def by (intro exI[of _ "pop_stack 1 (if slot \<ge> 0 then add_var_ref (nat slot) ?d else ?d)"] exI[of _ Cs] conjI)
      (simp_all add: Let_def)
qed

section \<open>Conditionals\<close>

lemma grown_insert_new: "grown s C D \<Longrightarrow> length (fixups s) \<le> l \<Longrightarrow> grown s C (insert l D)"
  by (auto simp: grown_def)

lemma grown_trans: "grown s C D \<Longrightarrow> grown s D E \<Longrightarrow> grown s C E"
  by (auto simp: grown_def)

lemma ok_arms_nil: "arms_ok []"
  unfolding arms_ok_def by (auto intro: grown_refl)

lemma ok_arms_cons:
  assumes b: "stmts_ok body" and rest: "arms_ok arms" shows "arms_ok ((c, body) # arms)"
  unfolding arms_ok_def
proof (intro allI impI)
  fix P Cs s Ds t C el first_arm
  assume st: "stmt_step (P \<union> C) Cs s 0 Ds t" and ch: "chain (fixups t) el C" and w: "wf_arms (map lp_id (loops s)) ((c, body) # arms)"
  define op where "op = (if first_arm then OP_IF else OP_EIF)"
  have wc: "wf_expr False c" and wb: "wf_stmts (map lp_id (loops s)) body" and wr: "wf_arms (map lp_id (loops s)) arms" using w by auto
  have c0: "0 \<le> cur_stack s" using step_cur[OF st] stmt_stepD(3)[OF st] by simp
  obtain a where a: "generate_expr c t = Some a" "stmt_step (P \<union> C) Cs s 1 Ds a" using step_expr[OF st wc, of 1] by auto
  have ch1: "chain (fixups a) el C"
  proof -
    have "\<exists>k. gen_step (P \<union> C \<union> \<Union>(set Ds)) t k a"
      using generate_expr_ok[OF stmt_stepD(6)[OF st], of c] wc stmt_stepD(7)[OF st] a(1) by (auto simp: runs_def)
    then show ?thesis using chain_ext[OF ch] gen_stepD(2) by blast
  qed
  have n: "0 < num_bytes (emit_op op a)" by simp
  obtain l d where d: "add_label (emit_op op a) = (int l, d)" "l = length (fixups (emit_op op a))"
    "stmt_step (insert l (P \<union> C)) Cs s 1 Ds d" "chain (fixups d) (int l) {l}" "ext (emit_op op a) d"
    using step_label_new[OF step_byte[OF a(2)] n] by metis
  have new: "length (fixups s) \<le> l" using stmt_stepD(9)[OF a(2)] d(2) by simp
  let ?d = "pop_stack 1 d"
  have d1: "stmt_step (insert l (P \<union> C)) Cs s 0 Ds ?d" by (rule step_pop[OF d(3)]) (use c0 in simp_all)
  obtain g Es where g: "generate_stmts body ?d = Some g" "stmt_step (insert l (P \<union> C)) Cs s 0 Es g" "ext ?d g"
    using step_stmts[OF b d1 wb] by metis
  have chg: "chain (fixups g) el C" "chain (fixups g) (int l) {l}"
    using chain_ext[OF _ g(3)] chain_ext[OF _ d(5)] ch1 d(4) by simp_all
  have n2: "0 < num_bytes (emit_op OP_JUMP g)" and chg': "chain (fixups (emit_op OP_JUMP g)) el C" using chg(1) by simp_all
  obtain m h where h: "add_linked_label el (emit_op OP_JUMP g) = (int m, h)" "m = length (fixups (emit_op OP_JUMP g))"
    "stmt_step (insert m (insert l (P \<union> C))) Cs s 0 Es h" "chain (fixups h) (int m) (insert m C)" "prefix (fixups (emit_op OP_JUMP g)) (fixups h)"
    using step_label[OF step_byte[OF g(2)] n2 chg'] by metis
  have newm: "length (fixups s) \<le> m" using stmt_stepD(9)[OF g(2)] h(2) by simp
  have chl: "chain (fixups h) (int l) {l}" using chain_prefix[OF chg(2), of "fixups h"] h(5) by simp
  have newl: "\<forall>j \<in> {l}. length (fixups s) \<le> j" using new by simp
  obtain k where k: "define_label (int l) h = Some k" "stmt_step (insert m (insert l (P \<union> C)) - {l}) Cs s 0 Es k"
    "\<And>m D. chain (fixups h) m D \<Longrightarrow> chain (fixups k) m D"
    using step_define[OF h(3) chl newl] by metis
  have k1: "stmt_step (P \<union> insert m C) Cs s 0 Es k" by (rule stmt_step_mono[OF k(2)]) auto
  obtain el' u Fs D where u: "generate_arms False (int m) arms k = Some (el', u)" "stmt_step (P \<union> D) Cs s 0 Fs u"
    "chain (fixups u) el' D" "grown s (insert m C) D"
    using rest k1 k(3)[OF h(4)] wr unfolding arms_ok_def by blast
  have "grown s C D" by (rule grown_trans[OF grown_insert_new[OF grown_refl newm] u(4)])
  moreover have "generate_arms first_arm el ((c, body) # arms) t = Some (el', u)"
    using a(1) d(1) g(1) h(1) k(1) u(1) by (simp add: op_def Let_def)
  ultimately show "\<exists>el' u Es D. generate_arms first_arm el ((c, body) # arms) t = Some (el', u) \<and>
      stmt_step (P \<union> D) Cs s 0 Es u \<and> chain (fixups u) el' D \<and> grown s C D"
    using u(2,3) by blast
qed

lemma ok_cond_stmt:
  assumes a: "arms_ok arms" and b: "stmts_ok otherwise" shows "stmt_ok (STMT_COND arms otherwise)"
  unfolding stmt_ok_def
proof (intro allI impI)
  fix P Cs s assume i: "stmt_inv P Cs s" and w: "wf_stmt (map lp_id (loops s)) (STMT_COND arms otherwise)"
  have st: "stmt_step (P \<union> {}) Cs s 0 Cs s" using stmt_step_refl[OF i] by simp
  have wa: "wf_arms (map lp_id (loops s)) arms" and wo: "wf_stmts (map lp_id (loops s)) otherwise" using w by simp_all
  obtain el t Ds D where t: "generate_arms True (-1) arms s = Some (el, t)" "stmt_step (P \<union> D) Cs s 0 Ds t"
    "chain (fixups t) el D" "grown s {} D"
    using a st chain_end wa unfolding arms_ok_def by blast
  obtain u Es where u: "generate_stmts otherwise t = Some u" "stmt_step (P \<union> D) Cs s 0 Es u" "ext t u"
    using step_stmts[OF b t(2) wo] by metis
  have new: "\<forall>j \<in> D. length (fixups s) \<le> j" using t(4) by (auto simp: grown_def)
  obtain v where v: "define_label el u = Some v" "stmt_step (P \<union> D - D) Cs s 0 Es v"
    using step_define[OF u(2) chain_ext[OF t(3) u(3)] new] by metis
  have "stmt_step P Cs s 0 Es v" by (rule stmt_step_mono[OF v(2)]) auto
  then show "\<exists>t Ds. generate_stmt (STMT_COND arms otherwise) s = Some t \<and> stmt_step P Cs s 0 Ds t"
    using t(1) u(1) v(1) by auto
qed

section \<open>Handlers\<close>

lemma ok_finally:
  assumes b: "stmts_ok body" and h: "stmts_ok handler" shows "stmt_ok (STMT_TRY_FINALLY body handler)"
  unfolding stmt_ok_def
proof (intro allI impI)
  fix P Cs s assume i: "stmt_inv P Cs s" and w: "wf_stmt (map lp_id (loops s)) (STMT_TRY_FINALLY body handler)"
  have c0: "0 \<le> cur_stack s" using stmt_inv_cur[OF i] .
  have wb: "wf_stmts (map lp_id (loops s)) body" and wh: "wf_stmts (map lp_id (loops s)) handler" using w by simp_all
  have st: "stmt_step P Cs s 0 Cs (emit_extended_byte EOP_TRY_FINALLY s)" by (rule step_ext[OF stmt_step_refl[OF i]])
  have n: "0 < num_bytes (emit_extended_byte EOP_TRY_FINALLY s)" by (simp add: emit_extended_byte_def)
  obtain l a where a: "add_label (emit_extended_byte EOP_TRY_FINALLY s) = (int l, a)"
    "l = length (fixups (emit_extended_byte EOP_TRY_FINALLY s))" "stmt_step (insert l P) Cs s 0 Cs a" "chain (fixups a) (int l) {l}"
    using step_label_new[OF st n] by metis
  have a1: "stmt_step (insert l P) Cs s 1 Cs (push_stack 1 a)" by (rule step_push[OF a(3)]) simp_all
  obtain c Ds where c: "generate_stmts body (push_stack 1 a) = Some c" "stmt_step (insert l P) Cs s 1 Ds c" "ext (push_stack 1 a) c"
    using step_stmts[OF b a1 wb] by metis
  let ?c = "pop_stack 1 (emit_extended_byte EOP_END_FINALLY c)"
  have c1: "stmt_step (insert l P) Cs s 0 Ds ?c" by (rule step_pop[OF step_ext[OF c(2)]]) (use c0 in simp_all)
  have ch: "chain (fixups ?c) (int l) {l}" using chain_ext[OF _ c(3), of "int l" "{l}"] a(4) by simp
  have new: "\<forall>j \<in> {l}. length (fixups s) \<le> j" using a(2) by simp
  obtain d where d: "define_label (int l) ?c = Some d" "stmt_step (insert l P - {l}) Cs s 0 Ds d"
    using step_define[OF c1 ch new] by metis
  have "stmt_step P Cs s 0 Ds d" by (rule stmt_step_mono[OF d(2)]) auto
  then have d1: "stmt_step P Cs s 2 Ds (push_stack 2 d)" by (rule step_push) simp_all
  obtain e Es where e: "generate_stmts handler (push_stack 2 d) = Some e" "stmt_step P Cs s 2 Es e"
    using step_stmts[OF h d1 wh] by metis
  have "stmt_step P Cs s 0 Es (pop_stack 2 (emit_extended_byte EOP_CONTINUE e))"
    by (rule step_pop[OF step_ext[OF e(2)]]) (use c0 in simp_all)
  then show "\<exists>t Ds. generate_stmt (STMT_TRY_FINALLY body handler) s = Some t \<and> stmt_step P Cs s 0 Ds t"
    using a(1) c(1) d(1) e(1) by (auto simp: Let_def)
qed

lemma step_excepts:
  "stmt_step P Cs s k Ds t \<Longrightarrow> wf_excepts ids arms \<Longrightarrow>
   \<exists>ks u. generate_excepts arms t = Some (map int ks, u) \<and> length ks = length arms \<and> ext t u \<and>
     stmt_step (P \<union> set ks) Cs s (k + 2 * int (length arms)) Ds u \<and>
     (\<forall>l \<in> set ks. chain (fixups u) (int l) {l} \<and> length (fixups s) \<le> l)"
proof (induction arms arbitrary: P k t)
  case Nil then show ?case by (auto intro!: exI[of _ "[]"])
next
  case (Cons x arms)
  obtain slot codes body where x: "x = (slot, codes, body)" by (cases x)
  have wc: "\<forall>a \<in> set codes. wf_expr False (snd a)" and wr: "wf_excepts ids arms" using Cons.prems(2) x by auto
  obtain a where a: "generate_codes codes t = Some a" "stmt_step P Cs s (k + 1) Ds a"
    using step_codes[OF Cons.prems(1) wc, of "k + 1"] by auto
  have ea: "ext t a"
  proof -
    have e: "\<forall>a \<in> set codes. expr_ok (snd a) \<and> wf_expr (saved_stack t \<noteq> None) (snd a)"
      using all_exprs_ok wc stmt_stepD(7)[OF Cons.prems(1)] by simp
    show ?thesis using ok_codes[OF e stmt_stepD(6)[OF Cons.prems(1)]] a(1) by (auto simp: runs_def gen_step_def)
  qed
  let ?a = "emit_extended_byte EOP_PUSH_LABEL a"
  have n: "0 < num_bytes ?a" by (simp add: emit_extended_byte_def)
  obtain l d where d: "add_label ?a = (int l, d)" "l = length (fixups ?a)" "stmt_step (insert l P) Cs s (k + 1) Ds d"
    "chain (fixups d) (int l) {l}" "ext ?a d"
    using step_label_new[OF step_ext[OF a(2)] n] by metis
  have d1: "stmt_step (insert l P) Cs s (k + 2) Ds (push_stack 1 d)" by (rule step_push[OF d(3)]) simp_all
  obtain ks u where u: "generate_excepts arms (push_stack 1 d) = Some (map int ks, u)" "length ks = length arms"
    "ext (push_stack 1 d) u" "stmt_step (insert l P \<union> set ks) Cs s (k + 2 + 2 * int (length arms)) Ds u"
    "\<forall>l \<in> set ks. chain (fixups u) (int l) {l} \<and> length (fixups s) \<le> l"
    using Cons.IH[OF d1 wr] by blast
  have e: "ext d (push_stack 1 d)" by (rule ext_eq_fields) (simp_all add: push_stack_def)
  have "ext a ?a" unfolding emit_extended_byte_def by (rule ext_trans[OF ext_emit_byte ext_emit_byte])
  then have "ext t u" using ea d(5) e u(3) ext_trans by metis
  moreover have "chain (fixups u) (int l) {l}" using chain_ext[OF _ u(3)] d(4) by simp
  moreover have "length (fixups s) \<le> l" using stmt_stepD(9)[OF a(2)] d(2) by simp
  moreover have "generate_excepts (x # arms) t = Some (map int (l # ks), u)" using a(1) d(1) u(1) x by simp
  moreover have "stmt_step (P \<union> set (l # ks)) Cs s (k + 2 * int (length (x # arms))) Ds u"
    using u(4) by (simp add: algebra_simps)
  ultimately show ?case using u(2,5) by (intro exI[of _ "l # ks"] exI[of _ u]) auto
qed

lemma ok_handlers_nil: "handlers_ok []"
  unfolding handlers_ok_def by (auto intro: grown_refl)

lemma ok_handlers_cons:
  assumes b: "stmts_ok body" and rest: "handlers_ok arms" shows "handlers_ok ((slot, codes, body) # arms)"
  unfolding handlers_ok_def
proof (intro allI impI)
  fix P Cs s Ds t C el ks
  assume st: "stmt_step (P \<union> C \<union> set ks) Cs s 0 Ds t" and ch: "chain (fixups t) el C"
    and len: "length ks = length ((slot, codes, body) # arms)"
    and labs: "\<forall>k \<in> set ks. chain (fixups t) (int k) {k} \<and> length (fixups s) \<le> k"
    and w: "wf_excepts (map lp_id (loops s)) ((slot, codes, body) # arms)"
  let ?goal = "\<lambda>el' u. \<exists>Es D. stmt_step (P \<union> D) Cs s 0 Es u \<and> chain (fixups u) el' D \<and> grown s C D"
  obtain k ks' where ks: "ks = k # ks'" using len by (cases ks) auto
  have c0: "0 \<le> cur_stack s" using step_cur[OF st] stmt_stepD(3)[OF st] by simp
  have wb: "wf_stmts (map lp_id (loops s)) body" and wr: "wf_excepts (map lp_id (loops s)) arms" using w by simp_all
  have k: "chain (fixups t) (int k) {k}" "\<forall>j \<in> {k}. length (fixups s) \<le> j" using labs ks by simp_all
  obtain a where a: "define_label (int k) t = Some a" "stmt_step (P \<union> C \<union> set ks - {k}) Cs s 0 Ds a"
    "\<And>m D. chain (fixups t) m D \<Longrightarrow> chain (fixups a) m D"
    using step_define[OF st k] by metis
  have a1: "stmt_step (P \<union> C \<union> set ks') Cs s 0 Ds a" by (rule stmt_step_mono[OF a(2)]) (auto simp: ks)
  let ?b = "if slot \<ge> 0 then emit_put (nat slot) (push_stack 1 a) else push_stack 1 a"
  have "stmt_step (P \<union> C \<union> set ks') Cs s 1 Ds (push_stack 1 a)" by (rule step_push[OF a1]) simp_all
  then have b1: "stmt_step (P \<union> C \<union> set ks') Cs s 1 Ds ?b" by (auto intro: step_put)
  let ?c = "pop_stack 1 (emit_op OP_POP ?b)"
  have c1: "stmt_step (P \<union> C \<union> set ks') Cs s 0 Ds ?c" by (rule step_pop[OF step_byte[OF b1]]) (use c0 in simp_all)
  have pc: "prefix (fixups a) (fixups ?c)"
    by (auto simp: emit_var_op_def add_var_ref_def Let_def add_fixup_def add_linked_fixup_def add_known_fixup_eq)
  obtain d Es where d: "generate_stmts body ?c = Some d" "stmt_step (P \<union> C \<union> set ks') Cs s 0 Es d" "ext ?c d"
    using step_stmts[OF b c1 wb] by metis
  have keep: "chain (fixups d) m D" if "chain (fixups t) m D" for m D
    using chain_ext[OF chain_prefix[OF a(3)[OF that] pc] d(3)] .
  show "\<exists>el' u Es D. generate_handlers ((slot, codes, body) # arms) (map int ks) el t = Some (el', u) \<and>
      stmt_step (P \<union> D) Cs s 0 Es u \<and> chain (fixups u) el' D \<and> grown s C D"
  proof (cases "arms = []")
    case True
    then have "ks' = []" using len ks by simp
    then have "stmt_step (P \<union> C) Cs s 0 Es d" using d(2) by simp
    moreover have "generate_handlers ((slot, codes, body) # arms) (map int ks) el t = Some (el, d)"
      using a(1) d(1) True ks by (simp add: Let_def)
    ultimately show ?thesis using keep[OF ch] grown_refl by blast
  next
    case False
    have n: "0 < num_bytes (emit_op OP_JUMP d)" and chd: "chain (fixups (emit_op OP_JUMP d)) el C" using keep[OF ch] by simp_all
    obtain m h where h: "add_linked_label el (emit_op OP_JUMP d) = (int m, h)" "m = length (fixups (emit_op OP_JUMP d))"
      "stmt_step (insert m (P \<union> C \<union> set ks')) Cs s 0 Es h" "chain (fixups h) (int m) (insert m C)"
      "prefix (fixups (emit_op OP_JUMP d)) (fixups h)"
      using step_label[OF step_byte[OF d(2)] n chd] by metis
    have newm: "length (fixups s) \<le> m" using stmt_stepD(9)[OF d(2)] h(2) by simp
    have "insert m (P \<union> C \<union> set ks') = P \<union> insert m C \<union> set ks'" by auto
    then have h3: "stmt_step (P \<union> insert m C \<union> set ks') Cs s 0 Es h" using h(3) by simp
    have labs': "\<forall>k \<in> set ks'. chain (fixups h) (int k) {k} \<and> length (fixups s) \<le> k"
      using labs ks keep chain_prefix[OF _ h(5)[unfolded emit_byte_fields]] by auto
    have len': "length ks' = length arms" using len ks by simp
    obtain el' u Fs D where u: "generate_handlers arms (map int ks') (int m) h = Some (el', u)" "stmt_step (P \<union> D) Cs s 0 Fs u"
      "chain (fixups u) el' D" "grown s (insert m C) D"
      using rest[unfolded handlers_ok_def, rule_format, OF h3 h(4) len' labs'[rule_format] wr] by blast
    have "grown s C D" by (rule grown_trans[OF grown_insert_new[OF grown_refl newm] u(4)])
    moreover have "generate_handlers ((slot, codes, body) # arms) (map int ks) el t = Some (el', u)"
      using a(1) d(1) h(1) u(1) False ks by (simp add: Let_def)
    ultimately show ?thesis using u(2,3) by blast
  qed
qed

lemma ok_try_except:
  assumes b: "stmts_ok body" and h: "handlers_ok excepts" shows "stmt_ok (STMT_TRY_EXCEPT body excepts)"
  unfolding stmt_ok_def
proof (intro allI impI)
  fix P Cs s assume i: "stmt_inv P Cs s" and w: "wf_stmt (map lp_id (loops s)) (STMT_TRY_EXCEPT body excepts)"
  let ?n = "2 * int (length excepts)"
  have c0: "0 \<le> cur_stack s" using stmt_inv_cur[OF i] .
  have wb: "wf_stmts (map lp_id (loops s)) body" and we: "wf_excepts (map lp_id (loops s)) excepts" using w by simp_all
  obtain ks a where a: "generate_excepts excepts s = Some (map int ks, a)" "length ks = length excepts"
    "stmt_step (P \<union> set ks) Cs s ?n Cs a" "\<forall>l \<in> set ks. chain (fixups a) (int l) {l} \<and> length (fixups s) \<le> l"
    using step_excepts[OF stmt_step_refl[OF i] we] by auto
  let ?a = "push_stack 1 (emit_byte (word_of_nat (length excepts)) (emit_extended_byte EOP_TRY_EXCEPT a))"
  have a1: "stmt_step (P \<union> set ks) Cs s (?n + 1) Cs ?a" by (rule step_push[OF step_byte[OF step_ext[OF a(3)]]]) simp_all
  obtain c Ds where c: "generate_stmts body ?a = Some c" "stmt_step (P \<union> set ks) Cs s (?n + 1) Ds c" "ext ?a c"
    using step_stmts[OF b a1 wb] by metis
  let ?c = "emit_extended_byte EOP_END_EXCEPT c"
  have n: "0 < num_bytes ?c" by (simp add: emit_extended_byte_def)
  obtain l d where d: "add_label ?c = (int l, d)" "l = length (fixups ?c)" "stmt_step (insert l (P \<union> set ks)) Cs s (?n + 1) Ds d"
    "chain (fixups d) (int l) {l}" "ext ?c d"
    using step_label_new[OF step_ext[OF c(2)] n] by metis
  let ?d = "pop_stack (?n + 1) d"
  have "insert l (P \<union> set ks) = P \<union> {l} \<union> set ks" by auto
  then have d1: "stmt_step (P \<union> {l} \<union> set ks) Cs s 0 Ds ?d" using step_pop[OF d(3), of "?n + 1" 0] c0 by simp
  have newl: "length (fixups s) \<le> l" using stmt_stepD(9)[OF c(2)] d(2) by simp
  have "chain (fixups ?d) (int k) {k}" if "k \<in> set ks" for k
    using chain_ext[OF chain_ext[OF _ c(3)], of "int k" "{k}"] chain_ext[OF _ d(5)] a(4) that by simp
  then have labs: "\<And>k. k \<in> set ks \<Longrightarrow> chain (fixups ?d) (int k) {k} \<and> length (fixups s) \<le> k" using a(4) by blast
  have chl: "chain (fixups ?d) (int l) {l}" using d(4) by simp
  obtain el u Es D where u: "generate_handlers excepts (map int ks) (int l) ?d = Some (el, u)" "stmt_step (P \<union> D) Cs s 0 Es u"
    "chain (fixups u) el D" "grown s {l} D"
    using h[unfolded handlers_ok_def, rule_format, OF d1 chl a(2) labs we] by blast
  have new: "\<forall>j \<in> D. length (fixups s) \<le> j" using u(4) newl by (auto simp: grown_def)
  obtain v where v: "define_label el u = Some v" "stmt_step (P \<union> D - D) Cs s 0 Es v"
    using step_define[OF u(2,3) new] by metis
  have "stmt_step P Cs s 0 Es v" by (rule stmt_step_mono[OF v(2)]) auto
  then show "\<exists>t Ds. generate_stmt (STMT_TRY_EXCEPT body excepts) s = Some t \<and> stmt_step P Cs s 0 Ds t"
    using a(1) c(1) d(1) u(1) v(1) by (auto simp: Let_def)
qed

section \<open>The result\<close>

lemma all_stmts_ok: "stmts_ok sts" "stmt_ok st" "arms_ok arms" "handlers_ok hs"
  for ids :: "int list"
proof (induction ids sts and ids st and ids arms and ids hs rule: wf_stmts_wf_stmt_wf_arms_wf_excepts.induct)
qed (simp_all add: ok_nil ok_cons ok_cond_stmt ok_for_list ok_for_range ok_while ok_fork ok_stmt_expr ok_return ok_try_except
    ok_finally ok_exit ok_arms_nil ok_arms_cons ok_handlers_nil ok_handlers_cons)

text \<open>
  The program of every well-formed list of statements: the linked vector has exactly the size that was
  allocated, the items of the generated code lie in it in order, and the stack it asks for is bounded
  by the syntax.
\<close>

lemma stmt_to_code_ok:
  assumes "wf_stmts [] sts" "stmts_depth sts < 256" "\<forall>v \<in> set (gs_literals g). plain_literal v"
  obtains s bc g' where "generate_stmts sts (init_state g) = Some s" "stmt_to_code sts g = Some (bc, g')"
    "gen_inv {} s" "linked bc 0 (bytes s @ [op_byte OP_DONE]) (fixups s) (bc_vector bc)"
    "length (bc_vector bc) = snd (code_sizes (emit_op OP_DONE s))" "bc_max_stack bc = nat (max_stack s)"
    "max_stack s \<le> stmts_depth sts" "bc_numbytes_stack bc = 1" "sizes_ok bc"
    "kind_size bc = kind_size (fst (code_sizes (emit_op OP_DONE s)))" "g' = gs s"
proof -
  obtain s v where s: "generate_stmts sts (init_state g) = Some s" "gen_inv {} s"
    "link_code (emit_op OP_DONE s) = Some ((fst (code_sizes (emit_op OP_DONE s)))\<lparr>bc_vector := v\<rparr>)"
    "linked (fst (code_sizes (emit_op OP_DONE s))) 0 (bytes s @ [op_byte OP_DONE]) (fixups s) v"
    "length v = snd (code_sizes (emit_op OP_DONE s))" "max_stack s \<le> stmts_depth sts"
    using program_ok[OF all_stmts_ok(1) assms] by metis
  let ?bc = "(fst (code_sizes (emit_op OP_DONE s)))\<lparr>bc_vector := v\<rparr>"
  have k: "kind_size ?bc k = kind_size (fst (code_sizes (emit_op OP_DONE s))) k" for k by (cases k) simp_all
  have eqs: "size_of ?bc = size_of (fst (code_sizes (emit_op OP_DONE s)))"
    "fixup_value ?bc = fixup_value (fst (code_sizes (emit_op OP_DONE s)))"
    unfolding size_of_def k by (simp_all add: fixup_value_def fun_eq_iff)
  have "linked ?bc 0 (bytes s @ [op_byte OP_DONE]) (fixups s) v"
    using s(4) unfolding linked_def extra_def eqs .
  moreover have "sizes_ok ?bc" using code_sizes_ok[of "emit_op OP_DONE s"] unfolding sizes_ok_def k .
  moreover have "bc_max_stack ?bc = nat (max_stack s)" by (simp add: code_sizes_def Let_def)
  moreover have "bc_numbytes_stack ?bc = 1" using code_sizes_stack s(6) assms(2) by (simp add: ref_size_def)
  moreover have "kind_size ?bc = kind_size (fst (code_sizes (emit_op OP_DONE s)))" using k by auto
  ultimately show thesis using that[of s ?bc "gs s"] s by (simp add: stmt_to_code_def)
qed

end
