(* ===== verification/Code_Operands.thy ===== *)
theory Code_Operands
  imports Code_Gen_Stmt Vm_Run
begin

text \<open>
  The references in linked code, as the interpreter reads them: \<open>read_bytes\<close> at the place of a
  reference gives the number that the generator put there, and for a label the position of its target.
\<close>

lemma be_value_simps [simp]: "be_value [a] = unat a" "be_value [a, b] = 256 * unat a + unat b"
  "be_value [a, b, c, d] = 256 * (256 * (256 * unat a + unat b) + unat c) + unat d"
  by (simp_all add: be_value_def)

lemma ref_bytes_value: "ref_bytes nb v = Some r \<Longrightarrow> v < 256 ^ nb \<Longrightarrow> be_value r = v \<and> length r = nb \<and> nb \<in> {1, 2, 4}"
proof -
  assume r: "ref_bytes nb v = Some r" and v: "v < 256 ^ nb"
  have u: "unat (word_of_nat n :: 8 word) = n mod 256" for n by (simp add: unat_of_nat)
  have "nb = 1 \<or> nb = 2 \<or> nb = 4" using r by (auto simp: ref_bytes_def split: if_splits)
  then show ?thesis
  proof (elim disjE)
    assume n: "nb = 2"
    then have r2: "r = [word_of_nat (v div 256), word_of_nat v]" using r by (simp add: ref_bytes_def)
    have "v div 256 < 256" using v n by (simp add: less_mult_imp_div_less)
    then show ?thesis unfolding r2 using n by (simp add: u)
  next
    assume n: "nb = 4"
    define x y z where "x = v div 256" and "y = x div 256" and "z = y div 256"
    have "v div 65536 = y" "v div 16777216 = z" by (simp_all add: x_def y_def z_def div_mult2_eq[symmetric])
    then have r4: "r = [word_of_nat z, word_of_nat y, word_of_nat x, word_of_nat v]" using r n by (simp add: ref_bytes_def x_def)
    have "z < 256" using v n by (simp add: x_def y_def z_def less_mult_imp_div_less)
    moreover have "v = 256 * x + v mod 256" "x = 256 * y + x mod 256" "y = 256 * z + y mod 256"
      by (simp_all add: x_def y_def z_def)
    ultimately show ?thesis unfolding r4 using n by (simp add: u)
  qed (use r v in \<open>auto simp: ref_bytes_def u\<close>)
qed

text \<open>Where the item at \<open>n\<close> of the generated code lies in the vector.\<close>

definition place :: "bytecodes \<Rightarrow> gen \<Rightarrow> nat \<Rightarrow> nat" where
  "place bc s n = n + extra bc (fixups s) n"

lemma extra_mono: "m \<le> n \<Longrightarrow> extra bc fs m \<le> extra bc fs n"
  by (induction fs) (auto intro: add_mono)

lemma extra_at: "f \<in> set fs \<Longrightarrow> fx_pc f = m \<Longrightarrow> m < n \<Longrightarrow> extra bc fs m + (size_of bc f - 1) \<le> extra bc fs n"
proof (induction fs)
  case (Cons g fs)
  then show ?case using extra_mono[of m n bc fs] by (cases "g = f") (auto intro: add_mono)
qed simp

lemma size_of_pos: "sizes_ok bc \<Longrightarrow> 0 < size_of bc f"
  by (metis (no_types, lifting) insertE neq0_conv not_less_iff_gr_or_eq one_neq_zero sizes_ok_def size_of_def
      zero_neq_numeral empty_iff)

lemma reference_read:
  assumes l: "linked bc 0 bs fs v" and z: "sizes_ok bc" and f: "f \<in> set fs" "fx_pc f < length bs"
    and fit: "fixup_value bc f < 256 ^ size_of bc f"
  shows "read_bytes v (fx_pc f + extra bc fs (fx_pc f)) (size_of bc f) =
    Some (fixup_value bc f, fx_pc f + extra bc fs (fx_pc f) + size_of bc f)"
proof -
  let ?p = "fx_pc f + extra bc fs (fx_pc f)"
  have r: "ref_bytes (size_of bc f) (fixup_value bc f) = Some (take (size_of bc f) (drop ?p v))"
    using l f(1) by (simp add: linked_def)
  have "extra bc fs (fx_pc f) + (size_of bc f - 1) \<le> extra bc fs (length bs)" by (rule extra_at[OF f(1) refl f(2)])
  then have "?p + size_of bc f \<le> length v" using l f(2) by (simp add: linked_def)
  moreover have "size_of bc f = (if size_of bc f = 1 then 1 else if size_of bc f = 2 then 2 else 4)"
    using ref_bytes_value[OF r fit] by auto
  ultimately show ?thesis using ref_bytes_value[OF r fit] by (simp add: read_bytes_def Let_def)
qed

lemma byte_read:
  assumes "linked bc 0 bs fs v" "n < length bs" "\<forall>f \<in> set fs. fx_pc f \<noteq> n"
  shows "v ! (n + extra bc fs n) = bs ! n"
  using assms by (simp add: linked_def)

section \<open>Every reference fits\<close>

lemma ref_size_below: "v < n \<Longrightarrow> n \<le> 2 ^ 32 \<Longrightarrow> v < 256 ^ ref_size n"
  by (auto simp: ref_size_def)

lemma ref_size_upto: "v \<le> m \<Longrightarrow> m \<le> n \<Longrightarrow> m \<noteq> 256 \<Longrightarrow> m \<noteq> 65536 \<Longrightarrow> n < 2 ^ 32 \<Longrightarrow> v < 256 ^ ref_size n"
  by (auto simp: ref_size_def)

lemma code_sizes_label:
  "bc_numbytes_label (fst (code_sizes s)) = 1 \<and> snd (code_sizes s) \<le> 256 \<or>
   bc_numbytes_label (fst (code_sizes s)) = 2 \<and> snd (code_sizes s) \<le> 65536 \<or> bc_numbytes_label (fst (code_sizes s)) = 4"
  by (auto simp: code_sizes_def Let_def)

lemma code_sizes_refs:
  "bc_numbytes_literal (fst (code_sizes s)) = ref_size (max (max_literal s) (length (gs_literals (gs s))))"
  "bc_numbytes_fork (fst (code_sizes s)) = ref_size (max (max_fork s) (length (gs_fork_vectors (gs s))))"
  "bc_numbytes_var_name (fst (code_sizes s)) = ref_size (max (max_var_ref s) (total_var_refs (gs s)))"
  by (simp_all add: code_sizes_def Let_def)

text \<open>The numbers that the C code keeps in 32 bits; slot 256 or 65536 as the last one is cut off.\<close>

definition small_code :: "gen \<Rightarrow> bytecodes \<Rightarrow> bool" where
  "small_code s bc \<longleftrightarrow> length (bc_vector bc) \<le> 2 ^ 32 \<and> max (max_literal s) (length (gs_literals (gs s))) \<le> 2 ^ 32 \<and>
     max (max_fork s) (length (gs_fork_vectors (gs s))) \<le> 2 ^ 32 \<and>
     max (max_var_ref s) (total_var_refs (gs s)) < 2 ^ 32 \<and> max_var_ref s \<noteq> 256 \<and> max_var_ref s \<noteq> 65536"

lemma references_read:
  assumes "wf_stmts [] sts" "stmts_depth sts < 256" "\<forall>v \<in> set (gs_literals g). plain_literal v"
    and "generate_stmts sts (init_state g) = Some s" "stmt_to_code sts g = Some (bc, g')" "small_code s bc"
    and f: "f \<in> set (fixups s)"
  shows "read_bytes (bc_vector bc) (place bc s (fx_pc f)) (size_of bc f) =
      Some (if fx_kind f = FIXUP_LABEL then place bc s (fx_value f) else fx_value f, place bc s (fx_pc f) + size_of bc f)"
    "fx_kind f = FIXUP_LABEL \<Longrightarrow> place bc s (fx_value f) < length (bc_vector bc)"
proof -
  let ?t = "emit_op OP_DONE s"
  have i: "gen_inv {} s" and l: "linked bc 0 (bytes s @ [op_byte OP_DONE]) (fixups s) (bc_vector bc)"
    and len: "length (bc_vector bc) = snd (code_sizes ?t)" and m: "max_stack s \<le> stmts_depth sts"
    and st: "bc_numbytes_stack bc = 1" and z: "sizes_ok bc" and k: "kind_size bc = kind_size (fst (code_sizes ?t))"
    using stmt_to_code_ok[OF assms(1-3)] assms(4,5) by (metis option.inject prod.inject)+
  have r: "refs_ok s f" and lab: "fx_kind f = FIXUP_LABEL \<Longrightarrow> label_ok s f"
    using i f by (auto simp: gen_inv_def in_set_conv_nth)
  have val: "fixup_value bc f = (if fx_kind f = FIXUP_LABEL then place bc s (fx_value f) else fx_value f)"
    using fixup_value_label[OF lab _ st] by (auto simp: place_def fixup_value_def)
  show inside: "place bc s (fx_value f) < length (bc_vector bc)" if "fx_kind f = FIXUP_LABEL"
  proof -
    have "fx_value f \<le> num_bytes s" using lab[OF that] by (simp add: label_ok_def)
    moreover from this have "extra bc (fixups s) (fx_value f) \<le> extra bc (fixups s) (Suc (num_bytes s))" by (intro extra_mono) simp
    ultimately show ?thesis using l by (simp add: linked_def place_def)
  qed
  have sm: "length (gs_literals (gs s)) \<le> 2 ^ 32" "length (gs_fork_vectors (gs s)) \<le> 2 ^ 32"
    using assms(6) by (auto simp: small_code_def)
  have "fixup_value bc f < 256 ^ kind_size bc (fx_kind f)"
  proof (cases "fx_kind f")
    case FIXUP_LITERAL
    have "fx_value f < max (max_literal ?t) (length (gs_literals (gs ?t)))"
      using r FIXUP_LITERAL by (simp add: refs_ok_def less_max_iff_disj)
    then show ?thesis
      unfolding k val using FIXUP_LITERAL ref_size_below assms(6) by (simp add: code_sizes_refs small_code_def)
  next
    case FIXUP_FORK
    have "fx_value f < max (max_fork ?t) (length (gs_fork_vectors (gs ?t)))"
      using r FIXUP_FORK by (simp add: refs_ok_def less_max_iff_disj)
    then show ?thesis
      unfolding k val using FIXUP_FORK ref_size_below assms(6) by (simp add: code_sizes_refs small_code_def)
  next
    case FIXUP_VAR_REF
    have "fx_value f \<le> max_var_ref s" using r FIXUP_VAR_REF by (simp add: refs_ok_def)
    from ref_size_upto[OF this max.cobounded1, of "total_var_refs (gs s)"] show ?thesis
      unfolding k val using FIXUP_VAR_REF assms(6) by (simp add: code_sizes_refs small_code_def)
  next
    case FIXUP_STACK
    then have "fx_value f < 256" using r m assms(2) by (simp add: refs_ok_def)
    then show ?thesis unfolding val using FIXUP_STACK st by simp
  next
    case FIXUP_LABEL
    have "fixup_value bc f < snd (code_sizes ?t)" using inside[OF FIXUP_LABEL] FIXUP_LABEL val len by simp
    moreover have "snd (code_sizes ?t) \<le> 2 ^ 32" using assms(6) len by (simp add: small_code_def)
    ultimately show ?thesis unfolding k using FIXUP_LABEL code_sizes_label[of ?t] by auto
  qed
  then have fit: "fixup_value bc f < 256 ^ size_of bc f" by (simp add: size_of_def)
  have "fx_pc f < length (bytes s @ [op_byte OP_DONE])" using order_ok_pc[OF gen_invD(1)[OF i] f] by simp
  from reference_read[OF l z f this fit] show "read_bytes (bc_vector bc) (place bc s (fx_pc f)) (size_of bc f) =
      Some (if fx_kind f = FIXUP_LABEL then place bc s (fx_value f) else fx_value f, place bc s (fx_pc f) + size_of bc f)"
    unfolding val by (simp add: place_def)
qed

text \<open>The bytes that are not references are the generated ones.\<close>

lemma bytes_read:
  assumes "wf_stmts [] sts" "stmts_depth sts < 256" "\<forall>v \<in> set (gs_literals g). plain_literal v"
    and "generate_stmts sts (init_state g) = Some s" "stmt_to_code sts g = Some (bc, g')"
    and n: "n \<le> num_bytes s" "\<forall>f \<in> set (fixups s). fx_pc f \<noteq> n"
  shows "bc_vector bc ! place bc s n = (bytes s @ [op_byte OP_DONE]) ! n"
proof -
  have "linked bc 0 (bytes s @ [op_byte OP_DONE]) (fixups s) (bc_vector bc)"
    using stmt_to_code_ok[OF assms(1-3)] assms(4,5) by (metis option.inject prod.inject)
  from byte_read[OF this, of n] show ?thesis using n by (simp add: place_def)
qed

end
