(* ===== verification/Bf_Property.thy ===== *)
theory Bf_Property
  imports Bf_List Db_Reach
begin

text \<open>
  The built-in functions on properties: src/src/property.c. A function takes the database, the
  programmer and the arguments, whose number and types \<open>call_bi_func\<close> has checked, and returns a
  package and the database.
\<close>

type_synonym 'k db_bf = "db \<Rightarrow> objid \<Rightarrow> var list \<Rightarrow> ('k package \<times> db) option"

definition fails :: "db \<Rightarrow> error \<Rightarrow> ('k package \<times> db) option" where
  "fails db e = Some (make_error_pack e, db)"

definition returns :: "db \<Rightarrow> var \<Rightarrow> ('k package \<times> db) option" where
  "returns db v = Some (make_var_pack v, db)"

definition done_pack :: "db \<Rightarrow> ('k package \<times> db) option" where
  "done_pack db = Some (no_var_pack, db)"

fun bf_properties :: "'k db_bf" where
  "bf_properties db progr [VObj oid] =
     (if \<not> valid db oid then fails db E_INVARG
      else do {
        ok \<leftarrow> db_object_allows db oid progr FLAG_READ;
        if \<not> ok then fails db E_PERM
        else do { names \<leftarrow> db_all_propdefs db oid; returns db (VList (map VStr names)) } })"
| "bf_properties db progr _ = None"

definition prop_flag_string :: "uint32 \<Rightarrow> string" where
  "prop_flag_string flags = (if flags AND PF_READ \<noteq> 0 then ''r'' else []) @
     (if flags AND PF_WRITE \<noteq> 0 then ''w'' else []) @ (if flags AND PF_CHOWN \<noteq> 0 then ''c'' else [])"

fun bf_prop_info :: "'k db_bf" where
  "bf_prop_info db progr [VObj oid, VStr pname] =
     (if \<not> valid db oid then fails db E_INVARG
      else do {
        (h, _) \<leftarrow> db_find_property db oid pname False;
        if h_ptr h = Null \<or> h_built_in h \<noteq> BP_NONE then fails db E_PROPNF
        else do {
          ok \<leftarrow> db_property_allows db h progr PF_READ;
          if \<not> ok then fails db E_PERM
          else do {
            owner \<leftarrow> db_property_owner db h;
            flags \<leftarrow> db_property_flags db h;
            returns db (VList [VObj owner, VStr (prop_flag_string flags)]) } } })"
| "bf_prop_info db progr _ = None"

text \<open>The letters of the permissions; \<open>None\<close> for any other letter.\<close>

fun prop_flags :: "string \<Rightarrow> uint32 \<Rightarrow> uint32 option" where
  "prop_flags [] flags = Some flags"
| "prop_flags (c # s) flags =
     (if c = CHR ''r'' \<or> c = CHR ''R'' then prop_flags s (flags OR PF_READ)
      else if c = CHR ''w'' \<or> c = CHR ''W'' then prop_flags s (flags OR PF_WRITE)
      else if c = CHR ''c'' \<or> c = CHR ''C'' then prop_flags s (flags OR PF_CHOWN)
      else None)"

definition checked_info :: "db \<Rightarrow> objid \<Rightarrow> string \<Rightarrow> string option \<Rightarrow> error + objid \<times> uint32 \<times> string option" where
  "checked_info db owner perms nm =
     (if \<not> valid db owner then Inl E_INVARG
      else case prop_flags perms 0 of None \<Rightarrow> Inl E_INVARG | Some flags \<Rightarrow> Inr (owner, flags, nm))"

fun validate_prop_info :: "db \<Rightarrow> var \<Rightarrow> error + objid \<times> uint32 \<times> string option" where
  "validate_prop_info db (VList [VObj owner, VStr perms]) = checked_info db owner perms None"
| "validate_prop_info db (VList [VObj owner, VStr perms, VStr nm]) = checked_info db owner perms (Some nm)"
| "validate_prop_info db _ = Inl E_TYPE"

definition set_prop_info :: "db \<Rightarrow> objid \<Rightarrow> objid \<Rightarrow> string \<Rightarrow> var \<Rightarrow> ('k package \<times> db) option" where
  "set_prop_info db progr oid pname info =
     (if \<not> valid db oid then fails db E_INVARG
      else case validate_prop_info db info of
        Inl e \<Rightarrow> fails db e
      | Inr (owner', new_flags, new_name) \<Rightarrow> do {
          (h, _) \<leftarrow> db_find_property db oid pname False;
          if h_ptr h = Null \<or> h_built_in h \<noteq> BP_NONE then fails db E_PROPNF
          else do {
            ok \<leftarrow> db_property_allows db h progr PF_WRITE;
            owner \<leftarrow> db_property_owner db h;
            if \<not> ok \<or> (\<not> is_wizard db progr \<and> owner \<noteq> owner') then fails db E_PERM
            else do {
              (renamed, h, db) \<leftarrow> (case new_name of
                  None \<Rightarrow> Some (True, h, db)
                | Some nm \<Rightarrow> do {
                    (renamed, db) \<leftarrow> db_rename_propdef db oid pname nm;
                    if renamed then do { (h, _) \<leftarrow> db_find_property db oid nm False; Some (True, h, db) }
                    else Some (False, h, db) });
              if \<not> renamed then fails db E_INVARG
              else do {
                db \<leftarrow> db_set_property_owner db h owner';
                db \<leftarrow> db_set_property_flags db h new_flags;
                done_pack db } } } })"

fun bf_set_prop_info :: "'k db_bf" where
  "bf_set_prop_info db progr [VObj oid, VStr pname, info] = set_prop_info db progr oid pname info"
| "bf_set_prop_info db progr _ = None"

fun bf_add_prop :: "'k db_bf" where
  "bf_add_prop db progr [VObj oid, VStr pname, v, info] = (case validate_prop_info db info of
     Inl e \<Rightarrow> fails db e
   | Inr (owner, flags, new_name) \<Rightarrow>
       if new_name \<noteq> None then fails db E_TYPE
       else if \<not> valid db oid then fails db E_INVARG
       else do {
         ok \<leftarrow> db_object_allows db oid progr FLAG_WRITE;
         if \<not> ok \<or> (progr \<noteq> owner \<and> \<not> is_wizard db progr) then fails db E_PERM
         else do {
           (added, db) \<leftarrow> db_add_propdef db oid pname v owner flags;
           if added then done_pack db else fails db E_INVARG } })"
| "bf_add_prop db progr _ = None"

fun bf_delete_prop :: "'k db_bf" where
  "bf_delete_prop db progr [VObj oid, VStr pname] =
     (if \<not> valid db oid then fails db E_INVARG
      else do {
        ok \<leftarrow> db_object_allows db oid progr FLAG_WRITE;
        if \<not> ok then fails db E_PERM
        else do {
          (found, db) \<leftarrow> db_delete_propdef db oid pname;
          if found then done_pack db else fails db E_PROPNF } })"
| "bf_delete_prop db progr _ = None"

fun bf_clear_prop :: "'k db_bf" where
  "bf_clear_prop db progr [VObj oid, VStr pname] =
     (if \<not> valid db oid then fails db E_INVARG
      else do {
        (h, _) \<leftarrow> db_find_property db oid pname False;
        if h_ptr h = Null then fails db E_PROPNF
        else if h_built_in h \<noteq> BP_NONE then fails db E_PERM
        else do {
          owner \<leftarrow> db_property_owner db h;
          if progr \<noteq> owner \<and> \<not> is_wizard db progr then fails db E_PERM
          else if h_definer h = oid then fails db E_INVARG
          else do { db \<leftarrow> db_set_property_value db h VClear; done_pack db } } })"
| "bf_clear_prop db progr _ = None"

fun bf_is_clear_prop :: "'k db_bf" where
  "bf_is_clear_prop db progr [VObj oid, VStr pname] =
     (if \<not> valid db oid then fails db E_INVARG
      else do {
        (h, _) \<leftarrow> db_find_property db oid pname False;
        if h_ptr h = Null then fails db E_PROPNF
        else if h_built_in h \<noteq> BP_NONE then returns db (VInt 0)
        else do {
          ok \<leftarrow> db_property_allows db h progr PF_READ;
          if \<not> ok then fails db E_PERM
          else do { v \<leftarrow> db_property_value db h; returns db (VInt (if v = VClear then 1 else 0)) } } })"
| "bf_is_clear_prop db progr _ = None"

text \<open>\<open>register_property\<close>: the number of arguments, the function, and the types of its arguments.\<close>

definition register_property :: "(string \<times> int \<times> int \<times> 'k db_bf \<times> int list) list" where
  "register_property =
     [(''properties'', 1, 1, bf_properties, [1]), (''property_info'', 2, 2, bf_prop_info, [1, 2]),
      (''set_property_info'', 3, 3, bf_set_prop_info, [1, 2, 4]),
      (''add_property'', 4, 4, bf_add_prop, [1, 2, -1, 4]),
      (''delete_property'', 2, 2, bf_delete_prop, [1, 2]),
      (''clear_property'', 2, 2, bf_clear_prop, [1, 2]),
      (''is_clear_property'', 2, 2, bf_is_clear_prop, [1, 2])]"

end
