(* ===== verification/Bf_Verbs.thy ===== *)
theory Bf_Verbs
  imports Bf_Property Server_Options
begin

text \<open>
  The built-in functions on verbs: src/src/verbs.c, except \<open>eval\<close>, which is in \<open>Bf_Objects\<close>. A
  word of a list of verb names is a string without blanks; a pointer into it is the rest of it. The
  parser of programs and the printer are arguments of the functions that use them.
\<close>

section \<open>Checking the arguments\<close>

fun bf_verbs :: "'k db_bf" where
  "bf_verbs db progr [VObj oid] =
     (if \<not> valid db oid then fails db E_INVARG
      else do {
        ok \<leftarrow> db_object_allows db oid progr FLAG_READ;
        if \<not> ok then fails db E_PERM
        else do { names \<leftarrow> db_all_verbs db oid; returns db (VList (map VStr names)) } })"
| "bf_verbs db progr _ = None"

text \<open>The letters of the permissions: \<open>b\<close> in the blocked notation, \<open>o\<close> in the other.\<close>

fun verb_flags :: "bool \<Rightarrow> string \<Rightarrow> 16 word \<Rightarrow> 16 word option" where
  "verb_flags blocked [] flags = Some flags"
| "verb_flags blocked (c # s) flags =
     (if c = CHR ''r'' \<or> c = CHR ''R'' then verb_flags blocked s (flags OR VF_READ)
      else if c = CHR ''w'' \<or> c = CHR ''W'' then verb_flags blocked s (flags OR VF_WRITE)
      else if c = CHR ''x'' \<or> c = CHR ''X'' then verb_flags blocked s (flags OR VF_EXEC)
      else if c = CHR ''d'' \<or> c = CHR ''D'' then verb_flags blocked s (flags OR VF_DEBUG)
      else if blocked \<and> (c = CHR ''b'' \<or> c = CHR ''B'') then verb_flags blocked s (flags OR VF_NOT_O)
      else if \<not> blocked \<and> (c = CHR ''o'' \<or> c = CHR ''O'') then verb_flags blocked s (flags AND NOT VF_NOT_O)
      else None)"

definition validate_verb_info :: "db \<Rightarrow> var \<Rightarrow> (error + objid \<times> 16 word \<times> string) option" where
  "validate_verb_info db v = (case v of
     VList [VObj owner, VStr perms, VStr names] \<Rightarrow>
       if \<not> valid db owner then Some (Inl E_INVARG)
       else do {
         blocked \<leftarrow> server_flag_option db ''use_blocked_notation'';
         Some (case verb_flags blocked perms (if blocked then 0 else VF_NOT_O) of
             None \<Rightarrow> Inl E_INVARG
           | Some flags \<Rightarrow>
               let names = dropWhile (\<lambda>c. c = CHR '' '') names in
               if names = [] then Inl E_INVARG else Inr (owner, flags, names)) }
   | _ \<Rightarrow> Some (Inl E_TYPE))"

definition match_arg_spec :: "string \<Rightarrow> 16 word option" where
  "match_arg_spec s =
     (if mystrcasecmp s ''none'' = 0 then Some ASPEC_NONE
      else if mystrcasecmp s ''any'' = 0 then Some ASPEC_ANY
      else if mystrcasecmp s ''this'' = 0 then Some ASPEC_THIS else None)"

text \<open>\<open>None\<close>: undefined behaviour in \<open>db_match_prep\<close>; \<open>Some None\<close>: no match.\<close>

definition match_prep_spec :: "string \<Rightarrow> int option option" where
  "match_prep_spec s =
     (if mystrcasecmp s ''none'' = 0 then Some (Some PREP_NONE)
      else if mystrcasecmp s ''any'' = 0 then Some (Some PREP_ANY)
      else map_option (\<lambda>p. if p = PREP_NONE then None else Some p) (db_match_prep s))"

definition validate_verb_args :: "var \<Rightarrow> (error + 16 word \<times> int \<times> 16 word) option" where
  "validate_verb_args v = (case v of
     VList [VStr d, VStr p, VStr i] \<Rightarrow>
       (case match_arg_spec d of None \<Rightarrow> Some (Inl E_INVARG)
        | Some dobj \<Rightarrow> do {
            pr \<leftarrow> match_prep_spec p;
            case pr of None \<Rightarrow> Some (Inl E_INVARG)
            | Some prep \<Rightarrow>
                (case match_arg_spec i of None \<Rightarrow> Some (Inl E_INVARG)
                 | Some iobj \<Rightarrow> Some (Inr (dobj, prep, iobj))) })
   | _ \<Rightarrow> Some (Inl E_TYPE))"

section \<open>Names that clash\<close>

text \<open>The first loop: \<open>Inl\<close> is a result, \<open>Inr\<close> the places where a star was met.\<close>

fun ns_start :: "string \<Rightarrow> string \<Rightarrow> bool + string \<times> string" where
  "ns_start [] [] = Inl True"
| "ns_start [] (b # bs) = (if b = CHR ''*'' then Inr ([], b # bs) else Inl False)"
| "ns_start (a # as) [] = (if a = CHR ''*'' then Inr (a # as, []) else Inl False)"
| "ns_start (a # as) (b # bs) =
     (if a = CHR ''*'' \<or> b = CHR ''*'' then Inr (a # as, b # bs)
      else if ascii_tolower a \<noteq> ascii_tolower b then Inl False else ns_start as bs)"

text \<open>
  The inner loop over the name \<open>xs\<close> with the star and the other one, up to a star in that; the flag is
  \<open>xs[-1] == '*'\<close>. \<open>None\<close> is a mismatch.
\<close>

fun ns_scan :: "bool \<Rightarrow> string \<Rightarrow> string \<Rightarrow> (bool \<times> string \<times> string) option" where
  "ns_scan p (x # xs) (y # ys) =
     (if y = CHR ''*'' then Some (p, x # xs, y # ys)
      else if x = CHR ''*'' then ns_scan True xs (y # ys)
      else if ascii_tolower x \<noteq> ascii_tolower y then None else ns_scan False xs ys)"
| "ns_scan p xs ys = Some (p, xs, ys)"

text \<open>The last loop, and the test at its end.\<close>

fun ns_end :: "string \<Rightarrow> string \<Rightarrow> bool" where
  "ns_end (a # as) (b # bs) =
     (if a = CHR ''*'' then ns_end as (b # bs)
      else if b = CHR ''*'' then ns_end (a # as) bs
      else if ascii_tolower a \<noteq> ascii_tolower b then False else ns_end as bs)"
| "ns_end as bs = True"

text \<open>The second \<open>while\<close>, where only \<open>foo\<close> has met a star.\<close>

definition ns_foo_star :: "string \<Rightarrow> string \<Rightarrow> bool + string \<times> string" where
  "ns_foo_star foo bar = (case ns_scan False foo bar of
     None \<Rightarrow> Inl False
   | Some (p, foo, bar) \<Rightarrow>
       if bar = [] then Inl True else if hd bar = CHR ''*'' then Inr (foo, bar) else Inl p)"

text \<open>The third \<open>while\<close>: when \<open>foo\<close> meets a star the code sets \<open>barstar\<close>, and goes round again.\<close>

partial_function (option) ns_bar_star :: "bool \<Rightarrow> string \<Rightarrow> string \<Rightarrow> bool option" where
  "ns_bar_star p foo bar = (case ns_scan p bar foo of
     None \<Rightarrow> Some False
   | Some (p, bar, foo) \<Rightarrow>
       if foo = [] then Some True else if hd foo = CHR ''*'' then ns_bar_star p foo bar else Some p)"

declare ns_bar_star.simps [code]

definition starts_star :: "string \<Rightarrow> bool" where
  "starts_star s \<longleftrightarrow> s \<noteq> [] \<and> hd s = CHR ''*''"

definition single_names_share_namespace :: "string \<Rightarrow> string \<Rightarrow> bool option" where
  "single_names_share_namespace foo bar = (case ns_start foo bar of
     Inl r \<Rightarrow> Some r
   | Inr (foo, bar) \<Rightarrow>
       if starts_star foo \<and> \<not> starts_star bar
       then (case ns_foo_star foo bar of Inl r \<Rightarrow> Some r | Inr (foo, bar) \<Rightarrow> Some (ns_end foo bar))
       else if \<not> starts_star foo \<and> starts_star bar then ns_bar_star False foo bar
       else Some (ns_end foo bar))"

text \<open>The words between blanks.\<close>

fun blank_words :: "string \<Rightarrow> string \<Rightarrow> string list" where
  "blank_words w [] = (if w = [] then [] else [rev w])"
| "blank_words w (c # s) =
     (if c = CHR '' '' then (if w = [] then [] else [rev w]) @ blank_words [] s else blank_words (c # w) s)"

definition verbnames_share_namespace :: "string \<Rightarrow> string \<Rightarrow> bool option" where
  "verbnames_share_namespace foo bar =
     any_opt (\<lambda>f. any_opt (single_names_share_namespace f) (blank_words [] bar)) (blank_words [] foo)"

text \<open>A loop over the verbs of an object that stops at the first for which the test holds.\<close>

definition any_verb :: "db \<Rightarrow> objid \<Rightarrow> (verb_handle \<Rightarrow> bool option) \<Rightarrow> bool option" where
  "any_verb db oid test = do {
     n \<leftarrow> db_count_verbs db oid;
     any_opt (\<lambda>i. do { h \<leftarrow> db_find_indexed_verb db oid (i + 1); test h }) [0..<n] }"

definition ancestor_clash :: "db \<Rightarrow> objid \<Rightarrow> string \<Rightarrow> verb_handle \<Rightarrow> bool option" where
  "ancestor_clash db owner names h = do {
     flags \<leftarrow> db_verb_flags db h;
     ow \<leftarrow> db_verb_owner db h;
     if flags AND VF_NOT_O \<noteq> 0 \<and> ow \<noteq> owner
     then do { vn \<leftarrow> db_verb_names db h; verbnames_share_namespace names vn } else Some False }"

partial_function (option) name_conflict_with_ancestor :: "db \<Rightarrow> objid \<Rightarrow> objid \<Rightarrow> string \<Rightarrow> bool option" where
  "name_conflict_with_ancestor db victim owner names =
     (if valid db victim then do {
        clash \<leftarrow> any_verb db victim (ancestor_clash db owner names);
        if clash then Some True
        else do { p \<leftarrow> db_object_parent db victim; name_conflict_with_ancestor db p owner names } }
      else Some False)"

declare name_conflict_with_ancestor.simps [code]

definition descendant_clash :: "db \<Rightarrow> objid \<Rightarrow> string \<Rightarrow> verb_handle \<Rightarrow> bool option" where
  "descendant_clash db owner names h = do {
     ow \<leftarrow> db_verb_owner db h;
     if \<not> is_wizard db ow \<and> ow \<noteq> owner
     then do { vn \<leftarrow> db_verb_names db h; verbnames_share_namespace names vn } else Some False }"

partial_function (option) name_conflict_with_descendants_recursive ::
  "db \<Rightarrow> objid \<Rightarrow> string \<Rightarrow> objid \<Rightarrow> bool option" where
  "name_conflict_with_descendants_recursive db owner names oid = do {
     clash \<leftarrow> any_verb db oid (descendant_clash db owner names);
     if clash then Some True
     else do {
       cs \<leftarrow> db_children db oid;
       any_opt (\<lambda>c. name_conflict_with_descendants_recursive db owner names c) cs } }"

declare name_conflict_with_descendants_recursive.simps [code]

definition name_conflict_with_descendants :: "db \<Rightarrow> objid \<Rightarrow> objid \<Rightarrow> string \<Rightarrow> bool option" where
  "name_conflict_with_descendants db oid owner names = do {
     cs \<leftarrow> db_children db oid;
     any_opt (name_conflict_with_descendants_recursive db owner names) cs }"

definition chparent_clash :: "db \<Rightarrow> objid \<Rightarrow> verb_handle \<Rightarrow> bool option" where
  "chparent_clash db new_parent h = do {
     ow \<leftarrow> db_verb_owner db h;
     if \<not> is_wizard db ow
     then do { vn \<leftarrow> db_verb_names db h; name_conflict_with_ancestor db new_parent ow vn } else Some False }"

partial_function (option) check_verbs_before_chparent :: "db \<Rightarrow> objid \<Rightarrow> objid \<Rightarrow> bool option" where
  "check_verbs_before_chparent db new_parent oid = do {
     clash \<leftarrow> any_verb db oid (chparent_clash db new_parent);
     if clash then Some True
     else do {
       cs \<leftarrow> db_children db oid;
       any_opt (\<lambda>c. check_verbs_before_chparent db new_parent c) cs } }"

declare check_verbs_before_chparent.simps [code]

section \<open>Adding and finding verbs\<close>

fun bf_add_verb :: "'k db_bf" where
  "bf_add_verb db progr [VObj oid, info, args] = do {
     vi \<leftarrow> validate_verb_info db info;
     case vi of Inl e \<Rightarrow> fails db e
     | Inr (owner, flags, names) \<Rightarrow> do {
         va \<leftarrow> validate_verb_args args;
         case va of Inl e \<Rightarrow> fails db e
         | Inr (dobj, prep, iobj) \<Rightarrow>
             if \<not> valid db oid then fails db E_INVARG
             else do {
               ok \<leftarrow> db_object_allows db oid progr FLAG_WRITE;
               if \<not> ok \<or> (progr \<noteq> owner \<and> \<not> is_wizard db progr) then fails db E_PERM
               else do {
                 protected \<leftarrow> (if \<not> is_wizard db progr \<and> flags AND VF_NOT_O \<noteq> 0
                   then server_flag_option db ''protect_o_flag'' else Some False);
                 if protected then fails db E_PERM
                 else do {
                   up \<leftarrow> (if \<not> is_wizard db owner
                     then do { p \<leftarrow> db_object_parent db oid; name_conflict_with_ancestor db p owner names }
                     else Some False);
                   if up then fails db E_PERM
                   else do {
                     down \<leftarrow> (if flags AND VF_NOT_O \<noteq> 0
                       then name_conflict_with_descendants db oid owner names else Some False);
                     if down then fails db E_INVARG
                     else do {
                       (n, db) \<leftarrow> db_add_verb db oid names owner flags dobj prep iobj;
                       returns db (VInt (word_of_nat n)) } } } } } } }"
| "bf_add_verb db progr _ = None"

fun validate_verb_descriptor :: "var \<Rightarrow> error" where
  "validate_verb_descriptor (VStr _) = E_NONE"
| "validate_verb_descriptor (VInt n) = (if sint n \<le> 0 then E_INVARG else E_NONE)"
| "validate_verb_descriptor _ = E_TYPE"

definition find_described_verb :: "db \<Rightarrow> objid \<Rightarrow> var \<Rightarrow> verb_handle option" where
  "find_described_verb db oid desc = (case desc of
     VInt n \<Rightarrow> db_find_indexed_verb db oid (unat n)
   | VStr s \<Rightarrow> do {
       flag \<leftarrow> server_flag_option db ''support_numeric_verbname_strings'';
       db_find_defined_verb db oid s flag }
   | _ \<Rightarrow> None)"

text \<open>The checks that six of the functions begin with.\<close>

definition with_verb :: "db \<Rightarrow> objid \<Rightarrow> var \<Rightarrow> (verb_handle \<Rightarrow> ('k package \<times> db) option) \<Rightarrow> ('k package \<times> db) option" where
  "with_verb db oid desc act =
     (if validate_verb_descriptor desc \<noteq> E_NONE then fails db (validate_verb_descriptor desc)
      else if \<not> valid db oid then fails db E_INVARG
      else do {
        h \<leftarrow> find_described_verb db oid desc;
        if h = None then fails db E_VERBNF else act h })"

fun bf_delete_verb :: "'k db_bf" where
  "bf_delete_verb db progr [VObj oid, desc] =
     (if validate_verb_descriptor desc \<noteq> E_NONE then fails db (validate_verb_descriptor desc)
      else if \<not> valid db oid then fails db E_INVARG
      else do {
        ok \<leftarrow> db_object_allows db oid progr FLAG_WRITE;
        if \<not> ok then fails db E_PERM
        else do {
          h \<leftarrow> find_described_verb db oid desc;
          if h = None then fails db E_VERBNF
          else do { db \<leftarrow> db_delete_verb db h; done_pack db } } })"
| "bf_delete_verb db progr _ = None"

section \<open>Information about a verb\<close>

text \<open>The letters are written into the copy of ''xxxx'': a fifth one leaves no room for the NUL.\<close>

definition verb_flag_string :: "16 word \<Rightarrow> bool \<Rightarrow> string" where
  "verb_flag_string flags blocked = (if flags AND VF_READ \<noteq> 0 then ''r'' else []) @
     (if flags AND VF_WRITE \<noteq> 0 then ''w'' else []) @ (if flags AND VF_EXEC \<noteq> 0 then ''x'' else []) @
     (if flags AND VF_DEBUG \<noteq> 0 then ''d'' else []) @
     (if flags AND VF_NOT_O = 0 \<and> \<not> blocked then ''o''
      else if flags AND VF_NOT_O \<noteq> 0 \<and> blocked then ''b'' else [])"

fun bf_verb_info :: "'k db_bf" where
  "bf_verb_info db progr [VObj oid, desc] = with_verb db oid desc (\<lambda>h. do {
     ok \<leftarrow> db_verb_allows db h progr VF_READ;
     if \<not> ok then fails db E_PERM
     else do {
       owner \<leftarrow> db_verb_owner db h;
       flags \<leftarrow> db_verb_flags db h;
       blocked \<leftarrow> server_flag_option db ''use_blocked_notation'';
       names \<leftarrow> db_verb_names db h;
       let s = verb_flag_string flags blocked;
       if length s \<le> 4 then returns db (VList [VObj owner, VStr s, VStr names]) else None } })"
| "bf_verb_info db progr _ = None"

fun bf_set_verb_info :: "'k db_bf" where
  "bf_set_verb_info db progr [VObj oid, desc, info] =
     (if validate_verb_descriptor desc \<noteq> E_NONE then fails db (validate_verb_descriptor desc)
      else if \<not> valid db oid then fails db E_INVARG
      else do {
        vi \<leftarrow> validate_verb_info db info;
        case vi of Inl e \<Rightarrow> fails db e
        | Inr (owner', flags', names') \<Rightarrow> do {
            h \<leftarrow> find_described_verb db oid desc;
            if h = None then fails db E_VERBNF
            else do {
              ok \<leftarrow> db_verb_allows db h progr VF_WRITE;
              owner \<leftarrow> db_verb_owner db h;
              flags \<leftarrow> db_verb_flags db h;
              names \<leftarrow> db_verb_names db h;
              if \<not> ok \<or> (\<not> is_wizard db progr \<and> owner \<noteq> owner') then fails db E_PERM
              else do {
                protected \<leftarrow> (if \<not> is_wizard db progr then server_flag_option db ''protect_o_flag'' else Some False);
                if protected \<and> flags' AND VF_NOT_O \<noteq> flags AND VF_NOT_O then fails db E_PERM
                else do {
                  up \<leftarrow> (if (owner' \<noteq> owner \<or> mystrcasecmp names' names \<noteq> 0) \<and> \<not> is_wizard db owner'
                    then do { p \<leftarrow> db_object_parent db oid; name_conflict_with_ancestor db p owner' names' }
                    else Some False);
                  if up then fails db E_PERM
                  else do {
                    down \<leftarrow> (if flags' AND VF_NOT_O \<noteq> 0 \<and>
                        (owner' \<noteq> owner \<or> flags AND VF_NOT_O = 0 \<or> mystrcasecmp names' names = 0)
                      then name_conflict_with_descendants db oid owner' names' else Some False);
                    if down then fails db E_INVARG
                    else do {
                      h \<leftarrow> find_described_verb db oid desc;
                      db \<leftarrow> db_set_verb_owner db h owner';
                      db \<leftarrow> db_set_verb_flags db h flags';
                      db \<leftarrow> db_set_verb_names db h names';
                      done_pack db } } } } } } })"
| "bf_set_verb_info db progr _ = None"

definition unparse_arg_spec :: "16 word \<Rightarrow> string option" where
  "unparse_arg_spec spec =
     (if spec = ASPEC_NONE then Some ''none'' else if spec = ASPEC_ANY then Some ''any''
      else if spec = ASPEC_THIS then Some ''this'' else None)"

fun bf_verb_args :: "'k db_bf" where
  "bf_verb_args db progr [VObj oid, desc] = with_verb db oid desc (\<lambda>h. do {
     ok \<leftarrow> db_verb_allows db h progr VF_READ;
     if \<not> ok then fails db E_PERM
     else do {
       (dobj, prep, iobj) \<leftarrow> db_verb_arg_specs db h;
       d \<leftarrow> unparse_arg_spec dobj;
       p \<leftarrow> db_unparse_prep prep;
       i \<leftarrow> unparse_arg_spec iobj;
       returns db (VList [VStr d, VStr p, VStr i]) } })"
| "bf_verb_args db progr _ = None"

fun bf_set_verb_args :: "'k db_bf" where
  "bf_set_verb_args db progr [VObj oid, desc, args] =
     (if validate_verb_descriptor desc \<noteq> E_NONE then fails db (validate_verb_descriptor desc)
      else if \<not> valid db oid then fails db E_INVARG
      else do {
        va \<leftarrow> validate_verb_args args;
        case va of Inl e \<Rightarrow> fails db e
        | Inr (dobj, prep, iobj) \<Rightarrow> do {
            h \<leftarrow> find_described_verb db oid desc;
            if h = None then fails db E_VERBNF
            else do {
              ok \<leftarrow> db_verb_allows db h progr VF_WRITE;
              if \<not> ok then fails db E_PERM
              else do { db \<leftarrow> db_set_verb_arg_specs db h dobj prep iobj; done_pack db } } } })"
| "bf_set_verb_args db progr _ = None"

section \<open>Programs\<close>

text \<open>\<open>unparse\<close> stands for \<open>unparse_program\<close>; its flags are the parentheses and the indentation.\<close>

fun bf_verb_code :: "(program \<Rightarrow> bool \<Rightarrow> bool \<Rightarrow> string list) \<Rightarrow> program \<Rightarrow> 'k db_bf" where
  "bf_verb_code unparse null_prog db progr (VObj oid # desc # rest) = with_verb db oid desc (\<lambda>h. do {
     ok \<leftarrow> db_verb_allows db h progr VF_READ;
     if \<not> ok then fails db E_PERM
     else do {
       prog \<leftarrow> db_verb_program null_prog db h;
       let parens = (case rest of v # _ \<Rightarrow> is_true v | [] \<Rightarrow> False);
       let indent = (case rest of _ # v # _ \<Rightarrow> is_true v | _ \<Rightarrow> True);
       returns db (VList (map VStr (unparse prog parens indent))) } })"
| "bf_verb_code unparse null_prog db progr _ = None"

text \<open>
  \<open>parse\<close> stands for \<open>parse_list_as_program\<close>: the program, if there is one, and the list of the errors;
  \<open>timed_out\<close> is \<open>task_timed_out\<close> after it.
\<close>

fun bf_set_verb_code :: "(var list \<Rightarrow> program option \<times> var) \<Rightarrow> bool \<Rightarrow> 'k db_bf" where
  "bf_set_verb_code parse timed_out db progr [VObj oid, desc, VList code] =
     (if \<exists>v \<in> set code. var_type v \<noteq> 2 then fails db E_TYPE
      else with_verb db oid desc (\<lambda>h. do {
        ok \<leftarrow> (if is_programmer db progr then db_verb_allows db h progr VF_WRITE else Some False);
        if \<not> ok then fails db E_PERM
        else (case parse code of
            (Some prog, errors) \<Rightarrow>
              if timed_out then returns db errors
              else do { db \<leftarrow> db_set_verb_program db h prog; returns db errors }
          | (None, errors) \<Rightarrow> returns db errors) }))"
| "bf_set_verb_code parse timed_out db progr _ = None"

end
