(* ===== verification/Bf_Objects.thy ===== *)
theory Bf_Objects
  imports Bf_Property Bf_Verbs Vm_Tasks
begin

text \<open>
  The built-in functions on objects (src/src/objects.c) and \<open>eval()\<close> of src/src/verbs.c. Those that
  call a verb return \<open>BI_CALL\<close> and are entered again, at the program counter they name, with the
  value of the verb and the data they kept.
\<close>

section \<open>Data kept over a verb call\<close>

text \<open>The structures the functions keep: those of \<open>move\<close>, of \<open>create\<close> and \<open>recycle\<close>, of \<open>call_function\<close>.\<close>

datatype bf_data = Move_Data objid objid | Oid_Data objid | Call_Data nat "bf_data option"

definition finishes :: "('k, 'w) vm \<Rightarrow> 'k package \<Rightarrow> ('k package \<times> ('k, 'w) vm) option" where
  "finishes vm p = Some (p, vm)"

text \<open>A function that works on the database alone.\<close>

definition on_db :: "'k db_bf \<Rightarrow> ('k, 'w) bf" where
  "on_db f arglist next_pc vdata progr vm = (case arglist of
     VList args \<Rightarrow> map_option (\<lambda>(p, db). (p, vm\<lparr>vm_db := db\<rparr>)) (f (vm_db vm) progr args)
   | _ \<Rightarrow> None)"

definition controls :: "db \<Rightarrow> objid \<Rightarrow> objid \<Rightarrow> bool option" where
  "controls db who what =
     (if is_wizard db who then Some True else map_option ((=) who) (db_object_owner db what))"

definition make_arglist :: "objid \<Rightarrow> var" where
  "make_arglist what = VList [VObj what]"

definition with_db :: "('k, 'w) vm \<Rightarrow> db option \<Rightarrow> ('k, 'w) vm option" where
  "with_db vm db = map_option (\<lambda>db. vm\<lparr>vm_db := db\<rparr>) db"

text \<open>Whether \<open>what\<close> is met on the way up from \<open>oid\<close>; a way that never ends gives \<open>None\<close>.\<close>

partial_function (option) is_above :: "(db \<Rightarrow> objid \<Rightarrow> objid option) \<Rightarrow> db \<Rightarrow> objid \<Rightarrow> objid \<Rightarrow> bool option" where
  "is_above up db what oid =
     (if oid = NOTHING then Some False
      else if oid = what then Some True
      else do { next_oid \<leftarrow> up db oid; is_above up db what next_oid })"

declare is_above.simps [code]

section \<open>Moving\<close>

text \<open>\<open>do_move\<close> at its four entries, the last first.\<close>

definition move_finished :: "(bf_data, 'w) vm \<Rightarrow> (bf_data package \<times> (bf_data, 'w) vm) option" where
  "move_finished vm = finishes vm no_var_pack"

definition move_left ::
  "(bf_data, 'w) server \<Rightarrow> objid \<Rightarrow> objid \<Rightarrow> (bf_data, 'w) vm \<Rightarrow> (bf_data package \<times> (bf_data, 'w) vm) option" where
  "move_left sv what dest vm = (let db = vm_db vm in
     if valid db dest \<and> valid db what \<and> db_object_location db what = Some dest then do {
       (e, vm) \<leftarrow> call_verb2 sv dest ''enterfunc'' (make_arglist what) False vm;
       if e = E_NONE then finishes vm (BI_CALL 4 (Some (Move_Data what dest)))
       else if e = E_MAXREC then finishes vm (make_error_pack e)
       else move_finished vm }
     else move_finished vm)"

definition move_decided ::
  "(bf_data, 'w) server \<Rightarrow> objid \<Rightarrow> objid \<Rightarrow> bool \<Rightarrow> objid \<Rightarrow> (bf_data, 'w) vm \<Rightarrow> (bf_data package \<times> (bf_data, 'w) vm) option" where
  "move_decided sv what dest accepts progr vm = (let db = vm_db vm in
     if \<not> is_wizard db progr \<and> \<not> accepts then finishes vm (make_error_pack E_NACC)
     else if \<not> valid db what \<or> (dest \<noteq> NOTHING \<and> \<not> valid db dest) \<or> db_object_location db what = Some dest
     then finishes vm no_var_pack
     else do {
       loops \<leftarrow> is_above db_object_location db what dest;
       if loops then finishes vm (make_error_pack E_RECMOVE)
       else do {
         oldloc \<leftarrow> db_object_location db what;
         vm \<leftarrow> with_db vm (db_change_location db what dest);
         (e, vm) \<leftarrow> call_verb2 sv oldloc ''exitfunc'' (make_arglist what) False vm;
         if e = E_NONE then finishes vm (BI_CALL 3 (Some (Move_Data what dest)))
         else if e = E_MAXREC then finishes vm (make_error_pack e)
         else move_left sv what dest vm } })"

definition move_asked ::
  "(bf_data, 'w) server \<Rightarrow> objid \<Rightarrow> objid \<Rightarrow> objid \<Rightarrow> (bf_data, 'w) vm \<Rightarrow> (bf_data package \<times> (bf_data, 'w) vm) option" where
  "move_asked sv what dest progr vm = (let db = vm_db vm in
     if \<not> valid db what \<or> (\<not> valid db dest \<and> dest \<noteq> NOTHING) then finishes vm (make_error_pack E_INVARG)
     else do {
       ok \<leftarrow> controls db progr what;
       if \<not> ok then finishes vm (make_error_pack E_PERM)
       else if dest = NOTHING then move_decided sv what dest True progr vm
       else do {
         (e, vm) \<leftarrow> call_verb2 sv dest ''accept'' (make_arglist what) False vm;
         if e = E_NONE then finishes vm (BI_CALL 2 (Some (Move_Data what dest)))
         else if e = E_VERBNF then move_decided sv what dest False progr vm
         else finishes vm (make_error_pack e) } })"

definition do_move ::
  "(bf_data, 'w) server \<Rightarrow> var \<Rightarrow> nat \<Rightarrow> objid \<Rightarrow> objid \<Rightarrow> objid \<Rightarrow> (bf_data, 'w) vm \<Rightarrow> (bf_data package \<times> (bf_data, 'w) vm) option" where
  "do_move sv arglist next_pc what dest progr vm =
     (if next_pc = 1 then move_asked sv what dest progr vm
      else if next_pc = 2 then move_decided sv what dest (is_true arglist) progr vm
      else if next_pc = 3 then move_left sv what dest vm
      else if next_pc = 4 then move_finished vm
      else None)"

definition bf_move :: "(bf_data, 'w) server \<Rightarrow> (bf_data, 'w) bf" where
  "bf_move sv arglist next_pc vdata progr vm =
     (if next_pc = 1 then (case arglist of
        VList [VObj what, VObj dest] \<Rightarrow> do_move sv arglist next_pc what dest progr vm | _ \<Rightarrow> None)
      else (case vdata of
        Some (Move_Data what dest) \<Rightarrow> do_move sv arglist next_pc what dest progr vm | _ \<Rightarrow> None))"

section \<open>Simple functions\<close>

fun bf_toobj :: "fp_ops \<Rightarrow> 'k db_bf" where
  "bf_toobj fp db progr [v] = do {
     r \<leftarrow> become_integer fp v False;
     case r of Inl e \<Rightarrow> fails db e | Inr i \<Rightarrow> returns db (VObj (sint i)) }"
| "bf_toobj fp db progr _ = None"

fun bf_typeof :: "'k db_bf" where
  "bf_typeof db progr [v] = returns db (VInt (word_of_nat (var_type v)))"
| "bf_typeof db progr _ = None"

fun bf_valid :: "'k db_bf" where
  "bf_valid db progr [VObj oid] = returns db (VInt (if valid db oid then 1 else 0))"
| "bf_valid db progr _ = None"

fun bf_max_object :: "'k db_bf" where
  "bf_max_object db progr [] = returns db (VObj (db_last_used_objid db))"
| "bf_max_object db progr _ = None"

fun bf_parent :: "'k db_bf" where
  "bf_parent db progr [VObj oid] =
     (if \<not> valid db oid then fails db E_INVARG
      else do { p \<leftarrow> db_object_parent db oid; returns db (VObj p) })"
| "bf_parent db progr _ = None"

fun bf_children :: "'k db_bf" where
  "bf_children db progr [VObj oid] =
     (if \<not> valid db oid then fails db E_INVARG
      else do { cs \<leftarrow> db_children db oid; returns db (VList (map VObj cs)) })"
| "bf_children db progr _ = None"

fun bf_players :: "'k db_bf" where
  "bf_players db progr [] = returns db (VList (all_users db))"
| "bf_players db progr _ = None"

fun bf_is_player :: "'k db_bf" where
  "bf_is_player db progr [VObj oid] =
     (if \<not> valid db oid then fails db E_INVARG
      else returns db (VInt (if is_user db oid then 1 else 0)))"
| "bf_is_player db progr _ = None"

fun bf_object_bytes :: "'k db_bf" where
  "bf_object_bytes db progr [VObj oid] =
     (if \<not> is_wizard db progr then fails db E_PERM
      else if \<not> valid db oid then fails db E_INVIND
      else do { n \<leftarrow> db_object_bytes db oid; returns db (VInt (word_of_nat n)) })"
| "bf_object_bytes db progr _ = None"

text \<open>\<open>boot\<close> stands for \<open>boot_player\<close> of the network.\<close>

definition bf_set_player_flag :: "(objid \<Rightarrow> 'w \<Rightarrow> 'w) \<Rightarrow> ('k, 'w) bf" where
  "bf_set_player_flag boot arglist next_pc vdata progr vm = (case arglist of
     VList [VObj oid, v] \<Rightarrow>
       if \<not> valid (vm_db vm) oid then finishes vm (make_error_pack E_INVARG)
       else if \<not> is_wizard (vm_db vm) progr then finishes vm (make_error_pack E_PERM)
       else if is_true v then do {
         vm \<leftarrow> with_db vm (db_set_object_flag (vm_db vm) oid FLAG_USER);
         finishes vm no_var_pack }
       else do {
         vm \<leftarrow> with_db (vm\<lparr>vm_world := boot oid (vm_world vm)\<rparr>) (db_clear_object_flag (vm_db vm) oid FLAG_USER);
         finishes vm no_var_pack }
   | _ \<Rightarrow> None)"

section \<open>Changing the parent\<close>

fun bf_chparent :: "'k db_bf" where
  "bf_chparent db progr [VObj what, VObj parent] =
     (if \<not> valid db what \<or> (\<not> valid db parent \<and> parent \<noteq> NOTHING) then fails db E_INVARG
      else do {
        ok \<leftarrow> controls db progr what;
        fertile \<leftarrow> (if ok \<and> valid db parent then db_object_allows db parent progr FLAG_FERTILE else Some True);
        if \<not> ok \<or> \<not> fertile then fails db E_PERM
        else do {
          loops \<leftarrow> is_above db_object_parent db what parent;
          if loops then fails db E_RECMOVE
          else do {
            clash \<leftarrow> check_verbs_before_chparent db parent what;
            if clash then fails db E_INVARG
            else do {
              (changed, db) \<leftarrow> db_change_parent db what parent;
              if changed then done_pack db else fails db E_INVARG } } } })"
| "bf_chparent db progr _ = None"

section \<open>Creating\<close>

text \<open>Whether the programmer may create a child of \<open>parent\<close>.\<close>

definition parent_allows :: "db \<Rightarrow> objid \<Rightarrow> objid \<Rightarrow> bool option" where
  "parent_allows db parent progr =
     (if valid db parent then db_object_allows db parent progr FLAG_FERTILE else Some (parent = NOTHING))"

text \<open>The quota of the owner.\<close>

definition take_quota :: "db \<Rightarrow> objid \<Rightarrow> (bool \<times> db) option" where
  "take_quota db owner = (if valid db owner then decr_quota db owner else Some (True, db))"

definition set_up_object :: "db \<Rightarrow> objid \<Rightarrow> objid \<Rightarrow> objid \<Rightarrow> db option" where
  "set_up_object db oid owner parent = do {
     db \<leftarrow> db_set_object_name db oid [];
     db \<leftarrow> db_set_object_owner db oid (if owner = NOTHING then oid else owner);
     (_, db) \<leftarrow> db_change_parent db oid parent;
     Some db }"

text \<open>The call of \<open>:initialize\<close>.\<close>

definition initialize_object ::
  "(bf_data, 'w) server \<Rightarrow> objid \<Rightarrow> (bf_data, 'w) vm \<Rightarrow> (bf_data package \<times> (bf_data, 'w) vm) option" where
  "initialize_object sv oid vm = do {
     (e, vm) \<leftarrow> call_verb2 sv oid ''initialize'' (VList []) False vm;
     finishes vm (if e = E_NONE then BI_CALL 2 (Some (Oid_Data oid))
       else if e = E_MAXREC then make_error_pack e
       else make_var_pack (VObj oid)) }"

text \<open>\<open>may\<close> is what the caller allows beside the parent; \<open>new\<close> makes the object, or refuses to.\<close>

definition create_object ::
  "(bf_data, 'w) server \<Rightarrow> (db \<Rightarrow> (objid option \<times> db) option) \<Rightarrow> bool \<Rightarrow> objid \<Rightarrow> objid \<Rightarrow> objid \<Rightarrow> (bf_data, 'w) vm \<Rightarrow> (bf_data package \<times> (bf_data, 'w) vm) option" where
  "create_object sv new may parent owner progr vm = do {
     ok \<leftarrow> parent_allows (vm_db vm) parent progr;
     if \<not> ok \<or> \<not> may then finishes vm (make_error_pack E_PERM)
     else do {
       (paid, db) \<leftarrow> take_quota (vm_db vm) owner;
       let vm = vm\<lparr>vm_db := db\<rparr>;
       if \<not> paid then finishes vm (make_error_pack E_QUOTA)
       else do {
         (obj_made, db) \<leftarrow> new db;
         case obj_made of
           None \<Rightarrow> finishes (vm\<lparr>vm_db := db\<rparr>) (make_error_pack E_NACC)
         | Some oid \<Rightarrow> do {
             vm \<leftarrow> with_db vm (set_up_object db oid owner parent);
             initialize_object sv oid vm } } } }"

definition always_made :: "(objid \<times> db) option \<Rightarrow> (objid option \<times> db) option" where
  "always_made r = map_option (\<lambda>(oid, db). (Some oid, db)) r"

definition made_unless_minus_one :: "(objid \<times> db) option \<Rightarrow> (objid option \<times> db) option" where
  "made_unless_minus_one r = map_option (\<lambda>(oid, db). (if oid = -1 then None else Some oid, db)) r"

definition created :: "(bf_data, 'w) bf" where
  "created arglist next_pc vdata progr vm =
     (case vdata of Some (Oid_Data oid) \<Rightarrow> finishes vm (make_var_pack (VObj oid)) | _ \<Rightarrow> None)"

fun owner_arg :: "objid \<Rightarrow> var list \<Rightarrow> objid option" where
  "owner_arg progr [] = Some progr"
| "owner_arg progr [VObj owner] = Some owner"
| "owner_arg progr _ = None"

text \<open>\<open>mem\<close> is what the memory of a new object holds.\<close>

definition bf_create :: "(bf_data, 'w) server \<Rightarrow> ('w \<Rightarrow> obj) \<Rightarrow> (bf_data, 'w) bf" where
  "bf_create sv mem arglist next_pc vdata progr vm =
     (if next_pc \<noteq> 1 then created arglist next_pc vdata progr vm
      else case arglist of
        VList (VObj parent # rest) \<Rightarrow> do {
          owner \<leftarrow> owner_arg progr rest;
          create_object sv (\<lambda>db. always_made (db_create_object db (mem (vm_world vm))))
            (owner = progr \<or> is_wizard (vm_db vm) progr) parent owner progr vm }
      | _ \<Rightarrow> None)"

definition bf_create_and_renumber :: "(bf_data, 'w) server \<Rightarrow> ('w \<Rightarrow> obj) \<Rightarrow> (bf_data, 'w) bf" where
  "bf_create_and_renumber sv mem arglist next_pc vdata progr vm =
     (if next_pc \<noteq> 1 then created arglist next_pc vdata progr vm
      else case arglist of
        VList (VObj parent # rest) \<Rightarrow> do {
          owner \<leftarrow> owner_arg progr rest;
          create_object sv (\<lambda>db. always_made (db_create_object_and_renum db (mem (vm_world vm))))
            (owner = progr \<or> is_wizard (vm_db vm) progr) parent owner progr vm }
      | _ \<Rightarrow> None)"

definition bf_create_with_id :: "(bf_data, 'w) server \<Rightarrow> ('w \<Rightarrow> obj) \<Rightarrow> (bf_data, 'w) bf" where
  "bf_create_with_id sv mem arglist next_pc vdata progr vm =
     (if next_pc \<noteq> 1 then created arglist next_pc vdata progr vm
      else case arglist of
        VList (VObj n # VObj parent # rest) \<Rightarrow> do {
          owner \<leftarrow> owner_arg progr rest;
          create_object sv (\<lambda>db. made_unless_minus_one (db_create_object_with_num db (mem (vm_world vm)) n))
            (is_wizard (vm_db vm) progr) parent owner progr vm }
      | _ \<Rightarrow> None)"

section \<open>Recycling\<close>

definition move_to_nothing ::
  "(bf_data, 'w) server \<Rightarrow> objid \<Rightarrow> (bf_data, 'w) vm \<Rightarrow> (bool \<times> (bf_data, 'w) vm) option" where
  "move_to_nothing sv oid vm = do {
     oldloc \<leftarrow> db_object_location (vm_db vm) oid;
     vm \<leftarrow> with_db vm (db_change_location (vm_db vm) oid NOTHING);
     (e, vm) \<leftarrow> call_verb2 sv oldloc ''exitfunc'' (make_arglist oid) False vm;
     Some (e = E_NONE, vm) }"

text \<open>The first of the contents or of the children, or \<open>NOTHING\<close>.\<close>

definition get_first :: "(obj \<Rightarrow> objid) \<Rightarrow> db \<Rightarrow> objid \<Rightarrow> objid option" where
  "get_first first db oid = map_option first (objects db oid)"

text \<open>The contents are moved away one by one; true once an \<open>:exitfunc\<close> has been called.\<close>

partial_function (option) move_contents ::
  "(bf_data, 'w) server \<Rightarrow> objid \<Rightarrow> (bf_data, 'w) vm \<Rightarrow> (bool \<times> (bf_data, 'w) vm) option" where
  "move_contents sv oid vm = do {
     c \<leftarrow> get_first ob_contents (vm_db vm) oid;
     if c = NOTHING then Some (False, vm)
     else do {
       (called, vm) \<leftarrow> move_to_nothing sv c vm;
       if called then Some (True, vm) else move_contents sv oid vm } }"

declare move_contents.simps [code]

partial_function (option) reparent_children :: "objid \<Rightarrow> db \<Rightarrow> db option" where
  "reparent_children oid db = do {
     c \<leftarrow> get_first ob_child db oid;
     if c = NOTHING then Some db
     else do {
       p \<leftarrow> db_object_parent db oid;
       (_, db) \<leftarrow> db_change_parent db c p;
       reparent_children oid db } }"

declare reparent_children.simps [code]

definition demolish :: "objid \<Rightarrow> db \<Rightarrow> db option" where
  "demolish oid db = do {
     db \<leftarrow> reparent_children oid db;
     (_, db) \<leftarrow> db_change_parent db oid NOTHING;
     owner \<leftarrow> db_object_owner db oid;
     db \<leftarrow> incr_quota db owner;
     db_destroy_object db oid }"

definition recycle_contents ::
  "(bf_data, 'w) server \<Rightarrow> objid \<Rightarrow> (bf_data, 'w) vm \<Rightarrow> (bf_data package \<times> (bf_data, 'w) vm) option" where
  "recycle_contents sv oid vm =
     (if \<not> valid (vm_db vm) oid then finishes vm no_var_pack
      else do {
        (called, vm) \<leftarrow> move_contents sv oid vm;
        if called then finishes vm (BI_CALL 2 (Some (Oid_Data oid)))
        else do {
          loc \<leftarrow> db_object_location (vm_db vm) oid;
          (called, vm) \<leftarrow> (if loc \<noteq> NOTHING then move_to_nothing sv oid vm else Some (False, vm));
          if called then finishes vm (BI_CALL 2 (Some (Oid_Data oid)))
          else do {
            vm \<leftarrow> with_db vm (demolish oid (vm_db vm));
            finishes vm no_var_pack } } })"

definition bf_recycle :: "(bf_data, 'w) server \<Rightarrow> (bf_data, 'w) bf" where
  "bf_recycle sv arglist func_pc vdata progr vm =
     (if func_pc = 1 then (case arglist of
        VList [VObj oid] \<Rightarrow>
          if \<not> valid (vm_db vm) oid then finishes vm (make_error_pack E_INVARG)
          else do {
            ok \<leftarrow> controls (vm_db vm) progr oid;
            if \<not> ok then finishes vm (make_error_pack E_PERM)
            else do {
              (e, vm) \<leftarrow> call_verb2 sv oid ''recycle'' (VList []) False vm;
              if e = E_NONE then finishes vm (BI_CALL 2 (Some (Oid_Data oid)))
              else recycle_contents sv oid vm } }
      | _ \<Rightarrow> None)
      else if func_pc = 2 then (case vdata of
        Some (Oid_Data oid) \<Rightarrow> recycle_contents sv oid vm | _ \<Rightarrow> None)
      else None)"

section \<open>Evaluating\<close>

text \<open>\<open>parse\<close> stands for \<open>parse_list_as_program\<close>: the program, if there is one, and the errors.\<close>

definition bf_eval :: "(var list \<Rightarrow> program option \<times> var) \<Rightarrow> ('k, 'w) bf" where
  "bf_eval parse arglist next_pc vdata progr vm =
     (if next_pc = 1 then (case arglist of
        VList code \<Rightarrow>
          if \<not> is_programmer (vm_db vm) progr then finishes vm (make_error_pack E_PERM)
          else (case parse code of
              (Some prog, errors) \<Rightarrow> do {
                (ok, vm) \<leftarrow> setup_activ_for_eval prog vm;
                finishes vm (if ok then BI_CALL 2 None else make_error_pack E_MAXREC) }
            | (None, errors) \<Rightarrow> finishes vm (make_var_pack (VList [VInt 0, errors])))
      | _ \<Rightarrow> None)
      else finishes vm (make_var_pack (VList [VInt 1, arglist])))"

section \<open>Registration\<close>

text \<open>\<open>register_objects\<close>: the number of arguments, the function, and the types of its arguments.\<close>

definition register_objects ::
  "(bf_data, 'w) server \<Rightarrow> ('w \<Rightarrow> obj) \<Rightarrow> (objid \<Rightarrow> 'w \<Rightarrow> 'w) \<Rightarrow> (string \<times> int \<times> int \<times> (bf_data, 'w) bf \<times> int list) list" where
  "register_objects sv mem boot =
     [(''toobj'', 1, 1, on_db (bf_toobj (sv_fp sv)), [-1]), (''typeof'', 1, 1, on_db bf_typeof, [-1]),
      (''create'', 1, 2, bf_create sv mem, [1, 1]),
      (''create_and_renumber'', 1, 2, bf_create_and_renumber sv mem, [1, 1]),
      (''create_with_id'', 2, 3, bf_create_with_id sv mem, [1, 1, 1]),
      (''recycle'', 1, 1, bf_recycle sv, [1]), (''object_bytes'', 1, 1, on_db bf_object_bytes, [1]),
      (''valid'', 1, 1, on_db bf_valid, [1]), (''parent'', 1, 1, on_db bf_parent, [1]),
      (''children'', 1, 1, on_db bf_children, [1]), (''chparent'', 2, 2, on_db bf_chparent, [1, 1]),
      (''max_object'', 0, 0, on_db bf_max_object, []), (''players'', 0, 0, on_db bf_players, []),
      (''is_player'', 1, 1, on_db bf_is_player, [1]),
      (''set_player_flag'', 2, 2, bf_set_player_flag boot, [1, -1]),
      (''move'', 2, 2, bf_move sv, [1, 1])]"

text \<open>\<open>register_verbs\<close>; \<open>late\<close> says whether the task has timed out once the code is parsed.\<close>

definition register_verbs ::
  "(program \<Rightarrow> bool \<Rightarrow> bool \<Rightarrow> string list) \<Rightarrow> (var list \<Rightarrow> program option \<times> var) \<Rightarrow> bool \<Rightarrow> (bf_data, 'w) server \<Rightarrow> (string \<times> int \<times> int \<times> (bf_data, 'w) bf \<times> int list) list" where
  "register_verbs unparse parse late sv =
     [(''verbs'', 1, 1, on_db bf_verbs, [1]), (''verb_info'', 2, 2, on_db bf_verb_info, [1, -1]),
      (''set_verb_info'', 3, 3, on_db bf_set_verb_info, [1, -1, 4]),
      (''verb_args'', 2, 2, on_db bf_verb_args, [1, -1]),
      (''set_verb_args'', 3, 3, on_db bf_set_verb_args, [1, -1, 4]),
      (''add_verb'', 3, 3, on_db bf_add_verb, [1, 4, 4]), (''delete_verb'', 2, 2, on_db bf_delete_verb, [1, -1]),
      (''verb_code'', 2, 4, on_db (bf_verb_code unparse (sv_null_program sv)), [1, -1, -1, -1]),
      (''set_verb_code'', 3, 3, on_db (bf_set_verb_code parse late), [1, -1, 4]),
      (''eval'', 1, 1, bf_eval parse, [2])]"

end
