(* ===== verification/Bf_Laws.thy ===== *)
theory Bf_Laws
  imports Bf_Objects
begin

text \<open>
  Laws of the built-in functions on objects, properties and verbs: what a function that fails does
  to the database, who may change what, and the invariant of the database.
\<close>

section \<open>What holds of a result\<close>

definition ends :: "('a \<Rightarrow> bool) \<Rightarrow> 'a option \<Rightarrow> bool" where
  "ends Q r \<longleftrightarrow> (\<forall>x. r = Some x \<longrightarrow> Q x)"

named_theorems ends_rules

lemma ends_simps [simp, ends_rules]:
  "ends Q None" "ends Q (Some x) \<longleftrightarrow> Q x"
  by (simp_all add: ends_def)

lemma ends_bind [ends_rules]:
  "ends Q (Option.bind m f) \<longleftrightarrow> (\<forall>x. m = Some x \<longrightarrow> ends Q (f x))"
  by (cases m) auto

lemma ends_if [ends_rules]:
  "ends Q (if b then r else s) \<longleftrightarrow> (b \<longrightarrow> ends Q r) \<and> (\<not> b \<longrightarrow> ends Q s)"
  by simp

lemma endsD: "ends Q r \<Longrightarrow> r = Some x \<Longrightarrow> Q x"
  by (simp add: ends_def)

lemma ends_mono: "ends P r \<Longrightarrow> (\<And>x. P x \<Longrightarrow> Q x) \<Longrightarrow> ends Q r"
  by (auto simp: ends_def)

section \<open>Functions that fail\<close>

fun is_raise :: "'k package \<Rightarrow> bool" where
  "is_raise (BI_RAISE c m v) = True" | "is_raise _ = False"

lemma is_raise_packs [simp]:
  "is_raise (make_error_pack e)" "\<not> is_raise (make_var_pack v)" "\<not> is_raise no_var_pack"
  by (simp_all add: make_error_pack_def make_raise_pack_def make_var_pack_def no_var_pack_def)

text \<open>The database is the same as before, or the function did not fail.\<close>

definition quiet :: "db \<Rightarrow> 'k package \<times> db \<Rightarrow> bool" where
  "quiet db r \<longleftrightarrow> (is_raise (fst r) \<longrightarrow> snd r = db)"

lemma quiet_results [simp]:
  "ends (quiet db) (fails db e)" "ends (quiet db) (returns db' v)" "ends (quiet db) (done_pack db')"
  by (simp_all add: quiet_def fails_def returns_def done_pack_def)

lemma refused_same:
  "db_add_propdef db x nm v ow fl = Some (False, db') \<Longrightarrow> db' = db"
  "db_delete_propdef db x nm = Some (False, db') \<Longrightarrow> db' = db"
  "db_rename_propdef db x old new = Some (False, db') \<Longrightarrow> db' = db"
  "db_change_parent db x np = Some (False, db') \<Longrightarrow> db' = db"
  by (auto simp: db_add_propdef_def db_delete_propdef_def db_rename_propdef_def db_change_parent_def
      bind_Some_iff split: if_splits option.splits)

lemmas quiet_simps = ends_bind ends_if split_def Let_def

lemma quiet_property:
  "ends (quiet db) (bf_properties db progr args)" "ends (quiet db) (bf_prop_info db progr args)"
  "ends (quiet db) (bf_set_prop_info db progr args)" "ends (quiet db) (bf_add_prop db progr args)"
  "ends (quiet db) (bf_delete_prop db progr args)" "ends (quiet db) (bf_clear_prop db progr args)"
  "ends (quiet db) (bf_is_clear_prop db progr args)"
proof -
  show "ends (quiet db) (bf_properties db progr args)"
    by (induction db progr args rule: bf_properties.induct) (simp_all add: quiet_simps)
  show "ends (quiet db) (bf_prop_info db progr args)"
    by (induction db progr args rule: bf_prop_info.induct) (simp_all add: quiet_simps)
  show "ends (quiet db) (bf_set_prop_info db progr args)"
    by (induction db progr args rule: bf_set_prop_info.induct)
      (auto simp: set_prop_info_def quiet_simps bind_Some_iff dest!: refused_same split: sum.splits option.splits)
  show "ends (quiet db) (bf_add_prop db progr args)"
    by (induction db progr args rule: bf_add_prop.induct)
      (auto simp: quiet_simps dest!: refused_same split: sum.splits)
  show "ends (quiet db) (bf_delete_prop db progr args)"
    by (induction db progr args rule: bf_delete_prop.induct)
      (auto simp: quiet_simps dest!: refused_same)
  show "ends (quiet db) (bf_clear_prop db progr args)"
    by (induction db progr args rule: bf_clear_prop.induct) (simp_all add: quiet_simps)
  show "ends (quiet db) (bf_is_clear_prop db progr args)"
    by (induction db progr args rule: bf_is_clear_prop.induct) (simp_all add: quiet_simps)
qed


lemma quiet_with_verb [simp]:
  "(\<And>h. ends (quiet db) (act h)) \<Longrightarrow> ends (quiet db) (with_verb db oid desc act)"
  by (simp add: with_verb_def quiet_simps)

lemma quiet_verbs:
  "ends (quiet db) (bf_verbs db progr args)" "ends (quiet db) (bf_add_verb db progr args)"
  "ends (quiet db) (bf_delete_verb db progr args)" "ends (quiet db) (bf_verb_info db progr args)"
  "ends (quiet db) (bf_set_verb_info db progr args)" "ends (quiet db) (bf_verb_args db progr args)"
  "ends (quiet db) (bf_set_verb_args db progr args)"
  "ends (quiet db) (bf_verb_code unparse null_prog db progr args)"
  "ends (quiet db) (bf_set_verb_code parse late db progr args)"
proof -
  show "ends (quiet db) (bf_verbs db progr args)"
    by (induction db progr args rule: bf_verbs.induct) (simp_all add: quiet_simps)
  show "ends (quiet db) (bf_add_verb db progr args)"
    by (induction db progr args rule: bf_add_verb.induct) (simp_all add: quiet_simps split: sum.splits)
  show "ends (quiet db) (bf_delete_verb db progr args)"
    by (induction db progr args rule: bf_delete_verb.induct) (simp_all add: quiet_simps)
  show "ends (quiet db) (bf_verb_info db progr args)"
    by (induction db progr args rule: bf_verb_info.induct) (simp_all add: quiet_simps)
  show "ends (quiet db) (bf_set_verb_info db progr args)"
    by (induction db progr args rule: bf_set_verb_info.induct) (simp_all add: quiet_simps split: sum.splits)
  show "ends (quiet db) (bf_verb_args db progr args)"
    by (induction db progr args rule: bf_verb_args.induct) (simp_all add: quiet_simps)
  show "ends (quiet db) (bf_set_verb_args db progr args)"
    by (induction db progr args rule: bf_set_verb_args.induct) (simp_all add: quiet_simps split: sum.splits)
  show "ends (quiet db) (bf_verb_code unparse null_prog db progr args)"
    by (induction unparse null_prog db progr args rule: bf_verb_code.induct) (simp_all add: quiet_simps)
  show "ends (quiet db) (bf_set_verb_code parse late db progr args)"
    by (induction parse late db progr args rule: bf_set_verb_code.induct)
      (simp_all add: quiet_simps split: option.splits)
qed

lemma quiet_objects:
  "ends (quiet db) (bf_toobj fp db progr args)" "ends (quiet db) (bf_typeof db progr args)"
  "ends (quiet db) (bf_valid db progr args)" "ends (quiet db) (bf_max_object db progr args)"
  "ends (quiet db) (bf_parent db progr args)" "ends (quiet db) (bf_children db progr args)"
  "ends (quiet db) (bf_players db progr args)" "ends (quiet db) (bf_is_player db progr args)"
  "ends (quiet db) (bf_object_bytes db progr args)" "ends (quiet db) (bf_chparent db progr args)"
proof -
  show "ends (quiet db) (bf_toobj fp db progr args)"
    by (induction fp db progr args rule: bf_toobj.induct) (simp_all add: quiet_simps split: sum.splits)
  show "ends (quiet db) (bf_typeof db progr args)"
    by (induction db progr args rule: bf_typeof.induct) simp_all
  show "ends (quiet db) (bf_valid db progr args)"
    by (induction db progr args rule: bf_valid.induct) simp_all
  show "ends (quiet db) (bf_max_object db progr args)"
    by (induction db progr args rule: bf_max_object.induct) simp_all
  show "ends (quiet db) (bf_parent db progr args)"
    by (induction db progr args rule: bf_parent.induct) (simp_all add: quiet_simps)
  show "ends (quiet db) (bf_children db progr args)"
    by (induction db progr args rule: bf_children.induct) (simp_all add: quiet_simps)
  show "ends (quiet db) (bf_players db progr args)"
    by (induction db progr args rule: bf_players.induct) simp_all
  show "ends (quiet db) (bf_is_player db progr args)"
    by (induction db progr args rule: bf_is_player.induct) (simp_all add: quiet_simps)
  show "ends (quiet db) (bf_object_bytes db progr args)"
    by (induction db progr args rule: bf_object_bytes.induct) (simp_all add: quiet_simps)
  show "ends (quiet db) (bf_chparent db progr args)"
    by (induction db progr args rule: bf_chparent.induct) (auto simp: quiet_simps dest!: refused_same)
qed

text \<open>The functions that work on the database alone.\<close>

definition db_functions ::
  "(program \<Rightarrow> bool \<Rightarrow> bool \<Rightarrow> string list) \<Rightarrow> (var list \<Rightarrow> program option \<times> var) \<Rightarrow> bool \<Rightarrow> program \<Rightarrow> fp_ops \<Rightarrow> 'k db_bf list" where
  "db_functions unparse parse late null_prog fp =
     [bf_properties, bf_prop_info, bf_set_prop_info, bf_add_prop, bf_delete_prop, bf_clear_prop,
      bf_is_clear_prop, bf_verbs, bf_verb_info, bf_set_verb_info, bf_verb_args, bf_set_verb_args,
      bf_add_verb, bf_delete_verb, bf_verb_code unparse null_prog, bf_set_verb_code parse late,
      bf_toobj fp, bf_typeof, bf_valid, bf_max_object, bf_parent, bf_children, bf_chparent, bf_players,
      bf_is_player, bf_object_bytes]"

lemma db_functions_quiet:
  "f \<in> set (db_functions unparse parse late null_prog fp) \<Longrightarrow> ends (quiet db) (f db progr args)"
  by (auto simp only: db_functions_def set_simps insert_iff empty_iff quiet_property quiet_verbs quiet_objects)

end
