(* ===== verification/Bf_World.thy ===== *)
theory Bf_World
  imports Bf_Laws
begin

text \<open>
  What the built-in functions on the database keep: the invariant of the database, and the
  definitions, verbs and place of every object that is closed to the programmer.
\<close>

section \<open>What stays the same at an object\<close>

definition kept :: "db \<Rightarrow> db \<Rightarrow> objid \<Rightarrow> bool" where
  "kept db db' x \<longleftrightarrow> link ob_parent db' x = link ob_parent db x \<and> defs_of db' x = defs_of db x \<and>
     map_option outer (objects db' x) = map_option outer (objects db x)"

lemma kept_refl [simp]: "kept db db x"
  by (simp add: kept_def)

lemma kept_trans: "kept a b x \<Longrightarrow> kept b c x \<Longrightarrow> kept a c x"
  by (simp add: kept_def)

lemma kept_objects: "objects db' x = objects db x \<Longrightarrow> kept db db' x"
  by (simp add: kept_def link_def defs_of_def)

lemma inner_kept: "inner_change db db' \<Longrightarrow> defs_of db' x = defs_of db x \<Longrightarrow> kept db db' x"
proof -
  assume i: "inner_change db db'" and d: "defs_of db' x = defs_of db x"
  have s: "map_option shape (objects db' x) = map_option shape (objects db x)"
    using i by (simp add: inner_change_def same_shape_def)
  have "link ob_parent db' x = link ob_parent db x"
    using s by (cases "objects db x"; cases "objects db' x") (auto simp: link_def shape_def)
  then show ?thesis using i d by (simp add: kept_def inner_change_def)
qed

lemma put_kept: "x \<noteq> y \<Longrightarrow> kept db (put_object db y ob) x"
  by (rule kept_objects) simp

lemma mod_slot_kept: "mod_slot db (Slot y n) f = Some db' \<Longrightarrow> kept db db' x"
  by (cases "x = y")
    (auto simp: mod_slot_def bind_Some_iff kept_def link_def defs_of_def outer_def put_kept)

lemma add_prop_kept:
  assumes "layout_ok db" "objects db y = Some ob" "c_string nm"
    "db_add_propdef db y nm v ow fl = Some (b, db')" "x \<noteq> y"
  shows "kept db db' x"
proof (cases "fresh_prop db y nm")
  case True
  then have d: "db' = added db y ob nm \<lparr>pv_var = v, pv_owner = ow, pv_perms = ucast fl\<rparr>"
    using assms(4) db_add_propdef_eq[OF assms(1-3)] by simp
  have "defs_of db' x = defs_of db x"
    using assms(5) unfolding d added_def by (simp add: defs_of_app) (simp add: defs_of_def)
  then show ?thesis using inner_kept[OF added_inner[OF assms(2)]] d by simp
qed (use assms db_add_propdef_eq[OF assms(1-3)] in simp)

lemma delete_prop_kept:
  assumes "layout_ok db" "objects db y = Some ob" "c_string nm"
    "db_delete_propdef db y nm = Some (b, db')" "x \<noteq> y"
  shows "kept db db' x"
proof (cases "db' = db")
  case False
  then obtain i where d: "db' = deleted db y ob i"
    using assms(4) db_delete_propdef_eq[OF assms(1-3)] by (auto split: option.splits)
  have "defs_of db' x = defs_of db x"
    using assms(5) unfolding d deleted_def by (simp add: defs_of_app) (simp add: defs_of_def)
  then show ?thesis using inner_kept[OF deleted_inner[OF assms(2)]] d by simp
qed simp

lemma rename_prop_kept:
  "db_rename_propdef db y old new = Some (b, db') \<Longrightarrow> x \<noteq> y \<Longrightarrow> kept db db' x"
  by (auto simp: db_rename_propdef_def bind_Some_iff put_kept split: option.splits if_splits)

lemma mod_verb_kept: "mod_verb db (Some (y, i)) f = Some db' \<Longrightarrow> x \<noteq> y \<Longrightarrow> kept db db' x"
  by (auto elim!: mod_verb_Some simp: put_kept)

lemma flush_kept: "kept (db_priv_affected_callable_verb_lookup db) db' x = kept db db' x"
  by (simp add: kept_def link_def defs_of_def)

lemma set_verb_kept:
  assumes "x \<noteq> y"
  shows "db_set_verb_owner db (Some (y, i)) ow = Some db' \<Longrightarrow> kept db db' x"
    "db_set_verb_flags db (Some (y, i)) fl = Some db' \<Longrightarrow> kept db db' x"
    "db_set_verb_names db (Some (y, i)) nm = Some db' \<Longrightarrow> kept db db' x"
    "db_set_verb_program db (Some (y, i)) pr = Some db' \<Longrightarrow> kept db db' x"
    "db_set_verb_arg_specs db (Some (y, i)) d p io = Some db' \<Longrightarrow> kept db db' x"
  using mod_verb_kept[OF _ assms, where db = db] mod_verb_kept[OF _ assms, where db = "db_priv_affected_callable_verb_lookup db"]
  by (auto simp: db_set_verb_owner_def db_set_verb_flags_def db_set_verb_names_def db_set_verb_program_def
      db_set_verb_arg_specs_def flush_kept)

lemma add_verb_kept: "db_add_verb db y nm ow fl d p i = Some (n, db') \<Longrightarrow> x \<noteq> y \<Longrightarrow> kept db db' x"
  by (auto simp: db_add_verb_def Let_def bind_Some_iff kept_def link_def defs_of_def)

lemma delete_verb_kept: "db_delete_verb db (Some (y, i)) = Some db' \<Longrightarrow> x \<noteq> y \<Longrightarrow> kept db db' x"
  by (auto simp: db_delete_verb_def Let_def bind_Some_iff kept_def link_def defs_of_def)

lemma change_parent_kept:
  assumes L: "layout_ok db" and r: "objects db r = Some rob" "np \<notin> subtree db r" "np = NOTHING \<or> objects db np \<noteq> None"
    and run: "db_change_parent db r np = Some (b, db')" and x: "x \<noteq> r"
  shows "kept db db' x"
proof (cases "chparent_ok db r np")
  case True
  then show ?thesis using db_change_parent_correct[OF L r True] run x by (auto simp: kept_def)
next
  case False
  then show ?thesis using db_change_parent_refused[OF L r(1)] run by simp
qed

section \<open>The invariant\<close>

lemma verb_steps_world:
  assumes "world_ok db"
  shows "db_set_verb_owner db h ow = Some db' \<Longrightarrow> world_ok db'"
    "db_set_verb_flags db h fl = Some db' \<Longrightarrow> world_ok db'"
    "db_set_verb_names db h nm = Some db' \<Longrightarrow> world_ok db'"
    "db_set_verb_program db h pr = Some db' \<Longrightarrow> world_ok db'"
    "db_set_verb_arg_specs db h d p i = Some db' \<Longrightarrow> world_ok db'"
  by (blast intro: db_step_world[OF _ assms] db_step.set_verb_owner db_step.set_verb_flags
      db_step.set_verb_names db_step.set_verb_program db_step.set_verb_args)+

lemma mod_slot_world:
  assumes w: "world_ok db" and m: "mod_slot db (Slot x n) f = Some db'"
    and f: "\<And>pv. n < length (defs_of db x) \<Longrightarrow> pv_var pv \<noteq> VClear \<Longrightarrow> pv_var (f pv) \<noteq> VClear"
  shows "world_ok db'"
proof -
  obtain ob vals where ob: "objects db x = Some ob" "db' = put_object db x (Some (ob\<lparr>ob_propval := vals\<rparr>))"
    using m by (auto simp: mod_slot_def bind_Some_iff)
  have "inner_change db db'"
    unfolding ob(2) using ob(1) by (rule inner_change_put) (simp_all add: shape_def outer_def)
  then show ?thesis using inner_change_world[OF w] mod_slot_layout_gen[OF world_okD(1)[OF w] m f] by blast
qed

lemma bi_lookup_some: "bi_lookup nm = Some p \<Longrightarrow> p \<noteq> BP_NONE"
  by (auto simp: bi_lookup_def ptable_def split: if_splits)

lemma found_slot:
  assumes h: "hier_ok db" and x: "objects db x = Some ob"
    and f: "db_find_property db x nm want = Some (ph, r)" "h_ptr ph \<noteq> Null" "h_built_in ph = BP_NONE"
  shows "\<exists>n. h_ptr ph = Slot x n \<and> (h_definer ph \<noteq> x \<longrightarrow> length (defs_of db x) \<le> n)"
proof -
  have bi: "bi_lookup nm = None"
    using f(1,3) bi_lookup_some by (cases "bi_lookup nm") (auto simp: db_find_property_def Let_def bind_Some_iff split: if_splits)
  obtain d n where s1: "find_slot db nm (str_hash nm) x 0 = Some (Some (d, n))"
    using f(1,2) bi by (auto simp: db_find_property_def bind_Some_iff split: option.splits)
  then have s: "find_slot db nm (str_hash nm) x 0 = Some (Some (d, n))" "h_ptr ph = Slot x n" "h_definer ph = d"
    using f(1) bi by (auto simp: db_find_property_def Let_def bind_Some_iff split: if_splits)
  have ob: "dbpriv_find_object db x = Some ob" "ob_id ob = x"
    using x hier_okD(1)[OF h] by (auto simp: table_ok_find table_ok_def)
  have "length (ob_propdefs ob) \<le> n" if "d \<noteq> x"
  proof (cases "index_of (propdef_matches (str_hash nm) nm) (ob_propdefs ob)")
    case None
    then have "find_slot db nm (str_hash nm) (ob_parent ob) (length (ob_propdefs ob)) = Some (Some (d, n))"
      using s(1) ob by (subst (asm) find_slot.simps) simp
    then show ?thesis using find_slot_index[OF h, of nm "str_hash nm" "ob_parent ob" "length (ob_propdefs ob)"]
      by (auto simp: eq_commute[of "Some (d, n)"])
  next
    case (Some i)
    then show ?thesis using s(1) ob that by (subst (asm) find_slot.simps) simp
  qed
  then show ?thesis using s(2,3) x by (auto simp: defs_of_def)
qed

lemma described_verb:
  "table_ok db \<Longrightarrow> find_described_verb db oid desc = Some (Some (y, i)) \<Longrightarrow> y = oid"
  by (auto simp: find_described_verb_def db_find_indexed_verb_def db_find_defined_verb_def bind_Some_iff
      table_ok_find table_ok_def split: var.splits if_splits)

lemma is_above_subtree:
  assumes h: "hier_ok db" and y: "y \<in> subtree db x" and x: "x \<noteq> NOTHING"
  shows "is_above db_object_parent db x y \<noteq> Some False"
proof -
  have "(y, x) \<in> (parent_rel db)\<^sup>*" using y by (simp add: subtree_def)
  then show ?thesis
  proof (induction rule: converse_rtrancl_induct)
    case base
    then show ?case using x by (subst is_above.simps) simp
  next
    case (step a b)
    have "a \<noteq> NOTHING" using step(1) table_ok_NOTHING[OF hier_okD(1)[OF h]]
      by (auto simp: parent_rel_def link_def)
    moreover have "db_object_parent db a = Some b"
      using step(1) by (simp add: parent_rel_def link_def db_object_parent_def)
    ultimately show ?case using step(3) by (subst is_above.simps) simp
  qed
qed

section \<open>Every function keeps both\<close>

text \<open>The programmer may change nothing of the object: the tests of the code say so.\<close>

definition closed_to :: "db \<Rightarrow> objid \<Rightarrow> objid \<Rightarrow> bool" where
  "closed_to db progr x \<longleftrightarrow> db_object_allows db x progr FLAG_WRITE \<noteq> Some True \<and>
     (\<forall>i. db_verb_allows db (Some (x, i)) progr VF_WRITE \<noteq> Some True) \<and>
     (\<forall>h n. h_ptr h = Slot x n \<longrightarrow> db_property_allows db h progr PF_WRITE \<noteq> Some True)"

definition keeps :: "db \<Rightarrow> objid \<Rightarrow> db \<Rightarrow> bool" where
  "keeps db progr db' \<longleftrightarrow> world_ok db' \<and> (\<forall>x. closed_to db progr x \<longrightarrow> kept db db' x)"

definition orderly :: "db \<Rightarrow> objid \<Rightarrow> 'k package \<times> db \<Rightarrow> bool" where
  "orderly db progr r \<longleftrightarrow> keeps db progr (snd r)"

lemma keepsI:
  "world_ok db' \<Longrightarrow> (\<And>x. closed_to db progr x \<Longrightarrow> kept db db' x) \<Longrightarrow> keeps db progr db'"
  by (simp add: keeps_def)

lemma keeps_same [simp]: "world_ok db \<Longrightarrow> keeps db progr db"
  by (simp add: keeps_def)

lemma orderly_results:
  "ends (orderly db progr) (fails db' e) = keeps db progr db'"
  "ends (orderly db progr) (returns db' v) = keeps db progr db'"
  "ends (orderly db progr) (done_pack db') = keeps db progr db'"
  by (simp_all add: fails_def returns_def done_pack_def orderly_def)

lemmas orderly_simps = orderly_results ends_bind ends_if split_def Let_def

definition good_args :: "var list \<Rightarrow> bool" where
  "good_args args \<longleftrightarrow> (\<forall>v \<in> set args. c_value v \<and> moo_value v)"

lemma good_args_simps [simp]:
  "good_args [] \<longleftrightarrow> True" "good_args (v # vs) \<longleftrightarrow> c_value v \<and> moo_value v \<and> good_args vs"
  by (auto simp: good_args_def)

lemma info_name:
  "validate_prop_info db info = Inr (owner, flags, Some nm) \<Longrightarrow> c_value info \<Longrightarrow> c_string nm"
  by (induction db info rule: validate_prop_info.induct) (auto simp: checked_info_def split: option.splits if_splits)

lemma not_clear: "moo_value v \<Longrightarrow> v \<noteq> VClear"
  by auto

lemma controls_allows:
  "controls db progr x = Some True \<Longrightarrow> objects db x \<noteq> None \<Longrightarrow> db_object_allows db x progr f = Some True"
  by (auto simp: controls_def db_object_allows_def db_object_owner_def split: if_splits)

text \<open>A change of one object.\<close>

definition touches :: "db \<Rightarrow> objid \<Rightarrow> db \<Rightarrow> bool" where
  "touches db y db' \<longleftrightarrow> world_ok db' \<and> (\<forall>x. x \<noteq> y \<longrightarrow> kept db db' x)"

lemma touches_trans: "touches a y b \<Longrightarrow> touches b y c \<Longrightarrow> touches a y c"
  using kept_trans by (auto simp: touches_def)

lemma touches_keeps: "touches db y db' \<Longrightarrow> \<not> closed_to db progr y \<Longrightarrow> keeps db progr db'"
  by (auto simp: touches_def keeps_def)

lemma not_closed:
  "db_object_allows db y progr FLAG_WRITE = Some True \<Longrightarrow> \<not> closed_to db progr y"
  "db_verb_allows db (Some (y, i)) progr VF_WRITE = Some True \<Longrightarrow> \<not> closed_to db progr y"
  "h_ptr h = Slot y n \<Longrightarrow> db_property_allows db h progr PF_WRITE = Some True \<Longrightarrow> \<not> closed_to db progr y"
  by (auto simp: closed_to_def)

lemma valid_object: "world_ok db \<Longrightarrow> valid db y \<Longrightarrow> \<exists>ob. objects db y = Some ob"
  using world_okD(7) table_ok_valid by blast

lemma prop_touches:
  assumes w: "world_ok db" and y: "objects db y \<noteq> None" and nm: "c_string nm"
  shows "db_add_propdef db y nm v ow fl = Some (b, db') \<Longrightarrow> v \<noteq> VClear \<Longrightarrow> touches db y db'"
    "db_delete_propdef db y nm = Some (b, db') \<Longrightarrow> touches db y db'"
    "db_rename_propdef db y nm new = Some (b, db') \<Longrightarrow> c_string new \<Longrightarrow> touches db y db'"
  using y unfolding touches_def
  by (auto intro: add_prop_world[OF w nm] add_prop_kept[OF world_okD(1)[OF w] _ nm] delete_prop_world[OF w nm]
      delete_prop_kept[OF world_okD(1)[OF w] _ nm] rename_prop_world[OF w nm] rename_prop_kept)

lemma slot_touches:
  assumes "world_ok db" "mod_slot db (Slot y n) f = Some db'"
    and "\<And>pv. n < length (defs_of db y) \<Longrightarrow> pv_var pv \<noteq> VClear \<Longrightarrow> pv_var (f pv) \<noteq> VClear"
  shows "touches db y db'"
  using mod_slot_world[OF assms] mod_slot_kept[OF assms(2)] by (simp add: touches_def)

lemma handle_touches:
  assumes "world_ok db" "h_ptr h = Slot y n" "h_built_in h = BP_NONE"
  shows "db_set_property_owner db h ow = Some db' \<Longrightarrow> touches db y db'"
    "db_set_property_flags db h fl = Some db' \<Longrightarrow> touches db y db'"
    "db_set_property_value db h VClear = Some db' \<Longrightarrow> length (defs_of db y) \<le> n \<Longrightarrow> touches db y db'"
    "db_set_property_value db h v = Some db' \<Longrightarrow> v \<noteq> VClear \<Longrightarrow> touches db y db'"
  using slot_touches[OF assms(1)] assms(2,3)
  by (fastforce simp: db_set_property_owner_def db_set_property_flags_def db_set_property_value_def)+

lemma verb_touches:
  assumes w: "world_ok db"
  shows "db_set_verb_owner db (Some (y, i)) ow = Some db' \<Longrightarrow> touches db y db'"
    "db_set_verb_flags db (Some (y, i)) fl = Some db' \<Longrightarrow> touches db y db'"
    "db_set_verb_names db (Some (y, i)) nm = Some db' \<Longrightarrow> touches db y db'"
    "db_set_verb_program db (Some (y, i)) pr = Some db' \<Longrightarrow> touches db y db'"
    "db_set_verb_arg_specs db (Some (y, i)) d p io = Some db' \<Longrightarrow> touches db y db'"
    "db_add_verb db y nm ow' fl d p io = Some (n, db') \<Longrightarrow> touches db y db'"
    "db_delete_verb db (Some (y, i)) = Some db' \<Longrightarrow> touches db y db'"
  unfolding touches_def
  by (auto intro: verb_steps_world[OF w] set_verb_kept add_verb_world[OF w] add_verb_kept
      delete_verb_world[OF w] delete_verb_kept)

lemma change_parent_touches:
  assumes w: "world_ok db" and y: "objects db y \<noteq> None" "np \<notin> subtree db y" "np = NOTHING \<or> objects db np \<noteq> None"
    and run: "db_change_parent db y np = Some (b, db')"
  shows "touches db y db'"
  using y chparent_world[OF w y run] change_parent_kept[OF world_okD(1)[OF w] _ y(2,3) run]
  unfolding touches_def by blast

subsection \<open>Functions on properties\<close>

lemma orderly_add_prop:
  assumes "world_ok db" "good_args args" shows "ends (orderly db progr) (bf_add_prop db progr args)"
  using assms
proof (induction db progr args rule: bf_add_prop.induct)
  case (1 db progr oid pname v info)
  have "keeps db progr db'" if "db_object_allows db oid progr FLAG_WRITE = Some True" "valid db oid"
    "db_add_propdef db oid pname v ow fl = Some (b, db')" for db' ow fl b
    using touches_keeps[OF prop_touches(1)[OF 1(1) _ _ that(3)] not_closed(1)[OF that(1)]]
      valid_object[OF 1(1) that(2)] 1(2) not_clear by auto
  then show ?case using 1 by (auto simp: orderly_simps split: sum.splits)
qed simp_all

lemma orderly_delete_prop:
  assumes "world_ok db" "good_args args" shows "ends (orderly db progr) (bf_delete_prop db progr args)"
  using assms
proof (induction db progr args rule: bf_delete_prop.induct)
  case (1 db progr oid pname)
  have "keeps db progr db'" if "db_object_allows db oid progr FLAG_WRITE = Some True" "valid db oid"
    "db_delete_propdef db oid pname = Some (b, db')" for db' b
    using touches_keeps[OF prop_touches(2)[OF 1(1) _ _ that(3)] not_closed(1)[OF that(1)]]
      valid_object[OF 1(1) that(2)] 1(2) by auto
  then show ?case using 1 by (auto simp: orderly_simps)
qed simp_all

lemma handle_slot:
  assumes "world_ok db" "valid db y" "db_find_property db y nm want = Some (h, r)" "h_ptr h \<noteq> Null" "h_built_in h = BP_NONE"
  shows "\<exists>n. h_ptr h = Slot y n \<and> (h_definer h \<noteq> y \<longrightarrow> length (defs_of db y) \<le> n)"
  using valid_object[OF assms(1,2)] found_slot[OF world_okD(6)[OF assms(1)] _ assms(3-5)] by blast

lemma owner_allows:
  "h_ptr h = Slot y n \<Longrightarrow> db_property_owner db h = Some progr \<or> db_property_owner db h = Some ow \<and> is_wizard db progr \<Longrightarrow>
    db_property_allows db h progr PF_WRITE = Some True"
  by (auto simp: db_property_allows_def db_property_owner_def db_property_flags_def split: if_splits)

lemma orderly_clear_prop:
  assumes "world_ok db" shows "ends (orderly db progr) (bf_clear_prop db progr args)"
  using assms
proof (induction db progr args rule: bf_clear_prop.induct)
  case (1 db progr oid pname)
  have "keeps db progr db'" if "valid db oid" "db_find_property db oid pname False = Some (h, r)"
    "h_ptr h \<noteq> Null" "h_built_in h = BP_NONE" "db_property_owner db h = Some ow" "progr = ow \<or> is_wizard db progr"
    "h_definer h \<noteq> oid" "db_set_property_value db h VClear = Some db'" for h r ow db'
  proof -
    from handle_slot[OF 1 that(1-4)] that(7)
    obtain n where n: "h_ptr h = Slot oid n" "length (defs_of db oid) \<le> n" by blast
    then show ?thesis
      using touches_keeps[OF handle_touches(3)[OF 1 n(1) that(4,8) n(2)] not_closed(3)[OF n(1) owner_allows[OF n(1)]]]
        that(5,6) by auto
  qed
  then show ?case using 1 by (auto simp: orderly_simps)
qed simp_all

lemma set_info_keeps:
  assumes w: "world_ok db" and "h_ptr h = Slot y n" "h_built_in h = BP_NONE"
    and "db_set_property_owner db h ow = Some db1" "db_set_property_flags db1 h fl = Some db2"
  shows "touches db y db2"
proof -
  have t: "touches db y db1" by (rule handle_touches(1)[OF assms(1-4)])
  then have "world_ok db1" by (simp add: touches_def)
  then show ?thesis using touches_trans[OF t handle_touches(2)[OF _ assms(2,3,5)]] by blast
qed

lemma orderly_set_prop_info:
  assumes w: "world_ok db" and a: "good_args args"
  shows "ends (orderly db progr) (bf_set_prop_info db progr args)"
  using assms
proof (induction db progr args rule: bf_set_prop_info.induct)
  case (1 db progr oid pname info)
  note w = 1(1)
  have plain: "keeps db progr db2" if "valid db oid" "db_find_property db oid pname False = Some (h, r)"
    "h_ptr h \<noteq> Null" "h_built_in h = BP_NONE" "db_property_allows db h progr PF_WRITE = Some True"
    "db_set_property_owner db h ow = Some db1" "db_set_property_flags db1 h fl = Some db2" for h r ow fl db1 db2
  proof -
    from handle_slot[OF w that(1-4)] obtain n where n: "h_ptr h = Slot oid n" by blast
    show ?thesis
      using touches_keeps[OF set_info_keeps[OF w n that(4,6,7)] not_closed(3)[OF n that(5)]] .
  qed
  have renaming: "keeps db progr db2" if "valid db oid" "db_find_property db oid pname False = Some (h, r)"
    "h_ptr h \<noteq> Null" "h_built_in h = BP_NONE" "db_property_allows db h progr PF_WRITE = Some True"
    "db_rename_propdef db oid pname nm = Some (True, db0)" "db_find_property db0 oid nm False = Some (h', r')"
    "db_set_property_owner db0 h' ow = Some db1" "db_set_property_flags db1 h' fl = Some db2" "c_string nm"
    for h r nm db0 h' r' ow fl db1 db2
  proof -
    from handle_slot[OF w that(1-4)] obtain n where n: "h_ptr h = Slot oid n" by blast
    have v: "objects db oid \<noteq> None" using valid_object[OF w that(1)] by blast
    have t: "touches db oid db0" using prop_touches(3)[OF w v _ that(6,10)] 1(2) by simp
    then have w0: "world_ok db0" by (simp add: touches_def)
    have "objects db0 oid \<noteq> None" using that(6) v
      by (auto simp: db_rename_propdef_def bind_Some_iff split: option.splits if_splits)
    then have v0: "valid db0 oid" using table_ok_valid world_okD(7)[OF w0] by blast
    have b: "h_built_in h' = BP_NONE" using that(8) by (simp add: db_set_property_owner_def split: if_splits)
    have "h_ptr h' \<noteq> Null" using that(8) b by (auto simp: db_set_property_owner_def mod_slot_def)
    from handle_slot[OF w0 v0 that(7) this b] obtain n' where n': "h_ptr h' = Slot oid n'" by blast
    show ?thesis
      using touches_keeps[OF touches_trans[OF t set_info_keeps[OF w0 n' b that(8,9)]] not_closed(3)[OF n that(5)]] .
  qed
  have refused: "keeps db progr db0" if "db_rename_propdef db oid pname nm = Some (False, db0)" for nm db0
    using refused_same(3)[OF that] w by simp
  show ?case
    using w info_name 1(2) plain renaming refused
    by (auto simp: set_prop_info_def orderly_simps bind_Some_iff split: sum.splits option.splits)
qed simp_all

lemma keeps_reading:
  assumes "world_ok db"
  shows "ends (orderly db progr) (bf_properties db progr args)" "ends (orderly db progr) (bf_prop_info db progr args)"
    "ends (orderly db progr) (bf_is_clear_prop db progr args)"
proof -
  show "ends (orderly db progr) (bf_properties db progr args)"
    using assms by (induction db progr args rule: bf_properties.induct) (simp_all add: orderly_simps)
  show "ends (orderly db progr) (bf_prop_info db progr args)"
    using assms by (induction db progr args rule: bf_prop_info.induct) (simp_all add: orderly_simps)
  show "ends (orderly db progr) (bf_is_clear_prop db progr args)"
    using assms by (induction db progr args rule: bf_is_clear_prop.induct) (simp_all add: orderly_simps)
qed

subsection \<open>Functions on verbs\<close>

lemma described:
  assumes "world_ok db" "find_described_verb db oid desc = Some h" "h \<noteq> None"
  shows "\<exists>i. h = Some (oid, i)"
  using described_verb[OF world_okD(7)[OF assms(1)], of oid desc] assms(2,3) by (cases h) auto

lemma orderly_with_verb:
  assumes "world_ok db" "\<And>i. ends (orderly db progr) (act (Some (oid, i)))"
  shows "ends (orderly db progr) (with_verb db oid desc act)"
  using assms described[OF assms(1), of oid desc] by (auto simp: with_verb_def orderly_simps)

lemma orderly_add_verb:
  assumes "world_ok db" shows "ends (orderly db progr) (bf_add_verb db progr args)"
  using assms
proof (induction db progr args rule: bf_add_verb.induct)
  case (1 db progr oid info args)
  have "keeps db progr db'" if "db_object_allows db oid progr FLAG_WRITE = Some True"
    "db_add_verb db oid nm ow fl d p io = Some (n, db')" for nm ow fl d p io n db'
    using touches_keeps[OF verb_touches(6)[OF 1 that(2)] not_closed(1)[OF that(1)]] .
  then show ?case using 1 by (auto simp: orderly_simps split: sum.splits)
qed simp_all

lemma orderly_delete_verb:
  assumes "world_ok db" shows "ends (orderly db progr) (bf_delete_verb db progr args)"
  using assms
proof (induction db progr args rule: bf_delete_verb.induct)
  case (1 db progr oid desc)
  have "keeps db progr db'" if "db_object_allows db oid progr FLAG_WRITE = Some True"
    "find_described_verb db oid desc = Some h" "h \<noteq> None" "db_delete_verb db h = Some db'" for h db'
  proof -
    from described[OF 1 that(2,3)] obtain i where "h = Some (oid, i)" by blast
    then show ?thesis using touches_keeps[OF verb_touches(7)[OF 1] not_closed(1)[OF that(1)]] that(4) by blast
  qed
  then show ?case using 1 by (auto simp: orderly_simps)
qed simp_all

lemma set_verb_touches:
  assumes w: "world_ok db" and "db_set_verb_owner db (Some (y, i)) ow = Some db1"
    "db_set_verb_flags db1 (Some (y, i)) fl = Some db2" "db_set_verb_names db2 (Some (y, i)) nm = Some db3"
  shows "touches db y db3"
proof -
  have t: "touches db y db1" by (rule verb_touches(1)[OF assms(1,2)])
  have t2: "touches db1 y db2" using t verb_touches(2)[OF _ assms(3)] by (simp add: touches_def)
  have "touches db2 y db3" using t2 verb_touches(3)[OF _ assms(4)] by (simp add: touches_def)
  then show ?thesis using touches_trans[OF touches_trans[OF t t2]] by blast
qed

lemma orderly_set_verb_info:
  assumes "world_ok db" shows "ends (orderly db progr) (bf_set_verb_info db progr args)"
  using assms
proof (induction db progr args rule: bf_set_verb_info.induct)
  case (1 db progr oid desc info)
  have "keeps db progr db3" if "find_described_verb db oid desc = Some h" "h \<noteq> None"
    "db_verb_allows db h progr VF_WRITE = Some True" "db_set_verb_owner db h ow = Some db1"
    "db_set_verb_flags db1 h fl = Some db2" "db_set_verb_names db2 h nm = Some db3" for h ow fl nm db1 db2 db3
  proof -
    from described[OF 1 that(1,2)] obtain i where h: "h = Some (oid, i)" by blast
    show ?thesis
      using touches_keeps[OF set_verb_touches[OF 1 that(4-6)[unfolded h]] not_closed(2)[OF that(3)[unfolded h]]] .
  qed
  then show ?case using 1 by (auto simp: orderly_simps split: sum.splits)
qed simp_all

lemma orderly_set_verb_args:
  assumes "world_ok db" shows "ends (orderly db progr) (bf_set_verb_args db progr args)"
  using assms
proof (induction db progr args rule: bf_set_verb_args.induct)
  case (1 db progr oid desc args)
  have "keeps db progr db'" if "find_described_verb db oid desc = Some h" "h \<noteq> None"
    "db_verb_allows db h progr VF_WRITE = Some True" "db_set_verb_arg_specs db h d p io = Some db'" for h d p io db'
  proof -
    from described[OF 1 that(1,2)] obtain i where h: "h = Some (oid, i)" by blast
    show ?thesis
      using touches_keeps[OF verb_touches(5)[OF 1 that(4)[unfolded h]] not_closed(2)[OF that(3)[unfolded h]]] .
  qed
  then show ?case using 1 by (auto simp: orderly_simps split: sum.splits)
qed simp_all

lemma orderly_set_verb_code:
  assumes "world_ok db" shows "ends (orderly db progr) (bf_set_verb_code parse late db progr args)"
  using assms
proof (induction parse late db progr args rule: bf_set_verb_code.induct)
  case (1 parse late db progr oid desc code)
  have "keeps db progr db'" if "db_verb_allows db (Some (oid, i)) progr VF_WRITE = Some True"
    "db_set_verb_program db (Some (oid, i)) pr = Some db'" for i pr db'
    using touches_keeps[OF verb_touches(4)[OF 1 that(2)] not_closed(2)[OF that(1)]] .
  then show ?case using 1
    by (auto simp: orderly_simps intro!: orderly_with_verb split: option.splits)
qed simp_all

lemma orderly_reading_verbs:
  assumes "world_ok db"
  shows "ends (orderly db progr) (bf_verbs db progr args)" "ends (orderly db progr) (bf_verb_info db progr args)"
    "ends (orderly db progr) (bf_verb_args db progr args)"
    "ends (orderly db progr) (bf_verb_code unparse null_prog db progr args)"
proof -
  show "ends (orderly db progr) (bf_verbs db progr args)"
    using assms by (induction db progr args rule: bf_verbs.induct) (simp_all add: orderly_simps)
  show "ends (orderly db progr) (bf_verb_info db progr args)"
    using assms by (induction db progr args rule: bf_verb_info.induct) (auto simp: orderly_simps intro!: orderly_with_verb)
  show "ends (orderly db progr) (bf_verb_args db progr args)"
    using assms by (induction db progr args rule: bf_verb_args.induct) (auto simp: orderly_simps intro!: orderly_with_verb)
  show "ends (orderly db progr) (bf_verb_code unparse null_prog db progr args)"
    using assms by (induction unparse null_prog db progr args rule: bf_verb_code.induct)
      (auto simp: orderly_simps intro!: orderly_with_verb)
qed

subsection \<open>Functions on objects\<close>

lemma orderly_chparent:
  assumes "world_ok db" shows "ends (orderly db progr) (bf_chparent db progr args)"
  using assms
proof (induction db progr args rule: bf_chparent.induct)
  case (1 db progr what parent)
  note w = 1
  have "keeps db progr db'" if "valid db what" "valid db parent \<or> parent = NOTHING" "controls db progr what = Some True"
    "is_above db_object_parent db what parent = Some False" "db_change_parent db what parent = Some (b, db')" for b db'
  proof -
    have y: "objects db what \<noteq> None" using valid_object[OF w that(1)] by blast
    then have n: "what \<noteq> NOTHING" using table_ok_NOTHING[OF world_okD(7)[OF w]] by auto
    have "parent \<notin> subtree db what" using is_above_subtree[OF world_okD(6)[OF w] _ n] that(4) by blast
    moreover have "parent = NOTHING \<or> objects db parent \<noteq> None" using that(2) valid_object[OF w] by blast
    ultimately have "touches db what db'" using change_parent_touches[OF w y _ _ that(5)] by blast
    then show ?thesis using touches_keeps not_closed(1)[OF controls_allows[OF that(3) y]] by blast
  qed
  then show ?case using w by (auto simp: orderly_simps)
qed simp_all

lemma orderly_reading_objects:
  assumes "world_ok db"
  shows "ends (orderly db progr) (bf_toobj fp db progr args)" "ends (orderly db progr) (bf_typeof db progr args)"
    "ends (orderly db progr) (bf_valid db progr args)" "ends (orderly db progr) (bf_max_object db progr args)"
    "ends (orderly db progr) (bf_parent db progr args)" "ends (orderly db progr) (bf_children db progr args)"
    "ends (orderly db progr) (bf_players db progr args)" "ends (orderly db progr) (bf_is_player db progr args)"
    "ends (orderly db progr) (bf_object_bytes db progr args)"
proof -
  show "ends (orderly db progr) (bf_toobj fp db progr args)"
    using assms by (induction fp db progr args rule: bf_toobj.induct) (simp_all add: orderly_simps split: sum.splits)
  show "ends (orderly db progr) (bf_typeof db progr args)"
    using assms by (induction db progr args rule: bf_typeof.induct) (simp_all add: orderly_simps)
  show "ends (orderly db progr) (bf_valid db progr args)"
    using assms by (induction db progr args rule: bf_valid.induct) (simp_all add: orderly_simps)
  show "ends (orderly db progr) (bf_max_object db progr args)"
    using assms by (induction db progr args rule: bf_max_object.induct) (simp_all add: orderly_simps)
  show "ends (orderly db progr) (bf_parent db progr args)"
    using assms by (induction db progr args rule: bf_parent.induct) (simp_all add: orderly_simps)
  show "ends (orderly db progr) (bf_children db progr args)"
    using assms by (induction db progr args rule: bf_children.induct) (simp_all add: orderly_simps)
  show "ends (orderly db progr) (bf_players db progr args)"
    using assms by (induction db progr args rule: bf_players.induct) (simp_all add: orderly_simps)
  show "ends (orderly db progr) (bf_is_player db progr args)"
    using assms by (induction db progr args rule: bf_is_player.induct) (simp_all add: orderly_simps)
  show "ends (orderly db progr) (bf_object_bytes db progr args)"
    using assms by (induction db progr args rule: bf_object_bytes.induct) (simp_all add: orderly_simps)
qed

lemma db_functions_orderly:
  assumes "world_ok db" "good_args args" "f \<in> set (db_functions unparse parse late null_prog fp)"
  shows "ends (orderly db progr) (f db progr args)"
  using assms(3) orderly_add_prop[OF assms(1,2)] orderly_set_prop_info[OF assms(1,2)]
    orderly_delete_prop[OF assms(1,2)] orderly_clear_prop[OF assms(1)] keeps_reading[OF assms(1)]
    orderly_add_verb[OF assms(1)] orderly_delete_verb[OF assms(1)] orderly_set_verb_info[OF assms(1)]
    orderly_set_verb_args[OF assms(1)] orderly_set_verb_code[OF assms(1)] orderly_reading_verbs[OF assms(1)]
    orderly_chparent[OF assms(1)] orderly_reading_objects[OF assms(1)]
  by (auto simp only: db_functions_def set_simps insert_iff empty_iff)

end
