(* ===== verification/Bf_Recycle.thy ===== *)
theory Bf_Recycle
  imports Bf_World
begin

text \<open>
  The built-in functions that call verbs: every one of them keeps the invariant of the database, and
  the two loops of \<open>recycle()\<close> end.
\<close>

section \<open>The invariant over verb calls\<close>

lemma call_verb2_db:
  assumes "call_verb2 sv this nm args False vm = Some (e, vm')"
  shows "vm_db vm' = vm_db vm \<or> (\<exists>h. db_find_callable_verb (vm_db vm) this nm = Some (h, vm_db vm'))"
  using assms by (auto simp: call_verb2_def call_where_def Let_def bind_Some_iff split: if_splits)

lemma call_verb2_world:
  "call_verb2 sv this nm args False vm = Some (e, vm') \<Longrightarrow> world_ok (vm_db vm) \<Longrightarrow> c_string nm \<Longrightarrow> world_ok (vm_db vm')"
  using call_verb2_db call_verb_world by metis

lemma verb_names [simp]:
  "c_string ''exitfunc''" "c_string ''enterfunc''" "c_string ''accept''" "c_string ''initialize''" "c_string ''recycle''"
  by code_simp+

lemmas call_world = verb_names[THEN call_verb2_world[rotated 2]]

definition sound :: "'k package \<times> ('k, 'w) vm \<Rightarrow> bool" where
  "sound r \<longleftrightarrow> world_ok (vm_db (snd r))"

lemma sound_finishes [simp]: "ends sound (finishes vm p) \<longleftrightarrow> world_ok (vm_db vm)"
  by (simp add: finishes_def sound_def)

lemma sound_on_db:
  "(\<And>args. arglist = VList args \<Longrightarrow> ends (orderly (vm_db vm) progr) (f (vm_db vm) progr args)) \<Longrightarrow>
    ends sound (on_db f arglist pc d progr vm)"
  by (auto simp: on_db_def ends_def sound_def orderly_def keeps_def split: var.splits)

lemmas sound_simps = ends_bind ends_if split_def Let_def with_db_def

lemma valid_world: "world_ok db \<Longrightarrow> valid db x \<longleftrightarrow> objects db x \<noteq> None"
  using world_okD(7) table_ok_valid by blast

section \<open>Moving\<close>

lemma sound_move_left: "world_ok (vm_db vm) \<Longrightarrow> ends sound (move_left sv what dest vm)"
  by (auto simp: move_left_def move_finished_def sound_simps dest: call_world)

lemma sound_move_decided:
  assumes w: "world_ok (vm_db vm)" shows "ends sound (move_decided sv what dest accepts progr vm)"
proof -
  have m: "world_ok db'" if "dest = NOTHING \<or> valid (vm_db vm) dest" "db_change_location (vm_db vm) what dest = Some db'" for db'
    using move_world[OF w _ that(2)] that(1) valid_world[OF w] by blast
  show ?thesis
    using w m by (auto simp: move_decided_def sound_simps intro!: sound_move_left dest!: call_world)
qed

lemma sound_move: "world_ok (vm_db vm) \<Longrightarrow> ends sound (bf_move sv arglist pc d progr vm)"
  by (auto simp: bf_move_def do_move_def move_asked_def move_finished_def sound_simps
      intro!: sound_move_decided sound_move_left dest!: call_world
      split: var.splits list.splits option.splits bf_data.splits)

section \<open>Creating\<close>

lemma set_header_world:
  assumes w: "world_ok db"
  shows "db_set_object_name db x nm = Some db' \<Longrightarrow> world_ok db'"
    "db_set_object_owner db x ow = Some db' \<Longrightarrow> world_ok db'"
  using put_world[OF w]
  by (auto simp: db_set_object_name_def db_set_object_owner_def mod_object_eq_Some shape_def outer_def)

lemma set_header_links:
  assumes "db_set_object_name db x nm = Some db' \<or> db_set_object_owner db x ow = Some db'"
  shows "link ob_parent db' = link ob_parent db" "objects db' y = None \<longleftrightarrow> objects db y = None"
  using assms by (auto simp: db_set_object_name_def db_set_object_owner_def mod_object_eq_Some link_def fun_eq_iff
      split: if_splits)

lemma quota_slot:
  assumes "world_ok db" "valid db x" "db_find_property db x quota_name True = Some (h, v)" "h_ptr h \<noteq> Null"
  shows "h_built_in h = BP_NONE" "\<exists>n. h_ptr h = Slot x n"
proof -
  have "bi_lookup quota_name = None" by code_simp
  then show b: "h_built_in h = BP_NONE" using assms(3)
    by (auto simp: db_find_property_def Let_def bind_Some_iff split: option.splits if_splits)
  show "\<exists>n. h_ptr h = Slot x n" using handle_slot[OF assms b] by blast
qed

lemma quota_touches:
  assumes w: "world_ok db" and x: "valid db x"
  shows "decr_quota db x = Some (b, db') \<Longrightarrow> touches db x db'" "incr_quota db x = Some db' \<Longrightarrow> touches db x db'"
proof -
  have same: "touches db x db" using w by (simp add: touches_def)
  have t: "touches db x db'" if "db_find_property db x quota_name True = Some (h, v)" "h_ptr h \<noteq> Null"
    "db_set_property_value db h (VInt n) = Some db'" for h v n
    using quota_slot[OF w x that(1,2)] handle_touches(4)[OF w _ _ that(3)] by auto
  show "decr_quota db x = Some (b, db') \<Longrightarrow> touches db x db'" "incr_quota db x = Some db' \<Longrightarrow> touches db x db'"
    using x same t by (auto simp: decr_quota_def incr_quota_def bind_Some_iff split: if_splits option.splits var.splits)
qed

lemma take_quota_world: "world_ok db \<Longrightarrow> take_quota db owner = Some (b, db') \<Longrightarrow> world_ok db'"
  using quota_touches(1) by (auto simp: take_quota_def touches_def split: if_splits)

text \<open>A new object has no descendant but itself.\<close>

lemma no_kids_subtree:
  assumes "\<And>c. link ob_parent db c \<noteq> Some x" "y \<in> subtree db x" shows "y = x"
proof (rule ccontr)
  assume "y \<noteq> x"
  moreover have "(y, x) \<in> (parent_rel db)\<^sup>*" using assms(2) by (simp add: subtree_def)
  ultimately obtain c where "(c, x) \<in> parent_rel db" by (metis rtranclE)
  then show False using assms(1) by (simp add: parent_rel_def)
qed

lemma new_object_links:
  assumes w: "world_ok db" and run: "db_create_object db g = Some (n, db')"
  shows "objects db n = None" "link ob_parent db' c \<noteq> Some n" "objects db' y \<noteq> None \<longleftrightarrow> y = n \<or> objects db y \<noteq> None"
proof -
  have c: "n = num_objects db" "objects db n = None" "objects db' = (objects db)(n \<mapsto> init_object (g\<lparr>ob_id := n\<rparr>))"
    using create_object_correct[OF world_okD(1)[OF w], of g] run by auto
  show "objects db n = None" "objects db' y \<noteq> None \<longleftrightarrow> y = n \<or> objects db y \<noteq> None" using c by auto
  have n0: "n \<noteq> NOTHING" using c(1) world_okD(7)[OF w] by (simp add: table_ok_def)
  have "(c, n) \<notin> parent_rel db" using c(2) hier_okD(4)[OF world_okD(6)[OF w]] by metis
  then show "link ob_parent db' c \<noteq> Some n"
    using n0 by (auto simp: link_def c(3) init_object_def parent_rel_def)
qed

lemma created_world:
  assumes w: "world_ok db" and run: "db_create_object db g = Some (n, db1)" "set_up_object db1 n owner parent = Some db2"
    and p: "parent = NOTHING \<or> objects db parent \<noteq> None"
  shows "world_ok db2"
proof -
  note new = new_object_links[OF w run(1)]
  obtain d1 d2 b where d: "db_set_object_name db1 n [] = Some d1"
    "db_set_object_owner d1 n (if owner = NOTHING then n else owner) = Some d2" "db_change_parent d2 n parent = Some (b, db2)"
    using run(2) by (auto simp: set_up_object_def bind_Some_iff)
  have w1: "world_ok db1" using create_world[OF w run(1)] .
  have w2: "world_ok d2" using set_header_world(2)[OF set_header_world(1)[OF w1 d(1)] d(2)] .
  have l: "link ob_parent d2 = link ob_parent db1" "\<And>y. objects d2 y = None \<longleftrightarrow> objects db1 y = None"
    using set_header_links[OF disjI1[OF d(1)]] set_header_links[OF disjI2[OF d(2)]] by auto
  have "parent \<noteq> n" using p new(1) world_okD(7)[OF w] run(1) create_object_correct[OF world_okD(1)[OF w], of g]
    by (auto simp: table_ok_def)
  then have "parent \<notin> subtree d2 n" using no_kids_subtree[of d2 n parent] new(2) l(1) by auto
  moreover have "objects d2 n \<noteq> None" "parent = NOTHING \<or> objects d2 parent \<noteq> None"
    using l(2) new(3) p by auto
  ultimately show ?thesis using chparent_world[OF w2 _ _ _ d(3)] by blast
qed

lemma quota_objects: "take_quota db owner = Some (b, db') \<Longrightarrow> world_ok db \<Longrightarrow> objects db' y = None \<longleftrightarrow> objects db y = None"
proof -
  assume q: "take_quota db owner = Some (b, db')" and w: "world_ok db"
  have slot: "objects db' y = None \<longleftrightarrow> objects db y = None"
    if "valid db owner" "db_find_property db owner quota_name True = Some (h, v)" "h_ptr h \<noteq> Null"
      "db_set_property_value db h u = Some db'" for h v u
    using quota_slot[OF w that(1-3)] that(4)
    by (auto simp: db_set_property_value_def mod_slot_def bind_Some_iff split: if_splits)
  show ?thesis using q slot
    by (auto simp: take_quota_def decr_quota_def bind_Some_iff split: if_splits option.splits var.splits)
qed

lemma sound_create:
  assumes w: "world_ok (vm_db vm)" shows "ends sound (bf_create sv mem arglist pc d progr vm)"
proof -
  have c: "world_ok db3" if "parent_allows (vm_db vm) parent progr = Some True"
    "take_quota (vm_db vm) owner = Some (b, db1)" "db_create_object db1 g = Some (n, db2)"
    "set_up_object db2 n owner parent = Some db3" for parent owner b db1 g n db2 db3
  proof -
    have w1: "world_ok db1" using take_quota_world[OF w that(2)] .
    have "parent = NOTHING \<or> objects (vm_db vm) parent \<noteq> None"
      using that(1) valid_world[OF w] by (auto simp: parent_allows_def split: if_splits)
    then show ?thesis using created_world[OF w1 that(3,4)] quota_objects[OF that(2) w] by simp
  qed
  show ?thesis
    using w c take_quota_world[OF w]
    by (auto simp: bf_create_def created_def create_object_def initialize_object_def always_made_def sound_simps
        dest!: call_world split: var.splits list.splits option.splits bf_data.splits)
qed

section \<open>Recycling\<close>

lemma move_to_nothing_world:
  "move_to_nothing sv x vm = Some (c, vm') \<Longrightarrow> world_ok (vm_db vm) \<Longrightarrow> world_ok (vm_db vm')"
proof -
  assume run: "move_to_nothing sv x vm = Some (c, vm')" and w: "world_ok (vm_db vm)"
  obtain loc db e where r: "db_change_location (vm_db vm) x NOTHING = Some db"
    "call_verb2 sv loc ''exitfunc'' (make_arglist x) False (vm\<lparr>vm_db := db\<rparr>) = Some (e, vm')"
    using run by (auto simp: move_to_nothing_def with_db_def bind_Some_iff)
  have "world_ok db" using move_world[OF w disjI1[OF refl] r(1)] .
  then show "world_ok (vm_db vm')" using call_verb2_world[OF r(2) _ verb_names(1)] by simp
qed

lemma move_contents_world:
  assumes "move_contents sv x vm = Some r" "world_ok (vm_db vm)" shows "world_ok (vm_db (snd r))"
proof -
  have "world_ok (vm_db vm) \<longrightarrow> world_ok (vm_db (snd r))"
  proof (rule move_contents.raw_induct[OF _ assms(1)])
    fix f :: "(bf_data, 'a) server \<Rightarrow> objid \<Rightarrow> (bf_data, 'a) vm \<Rightarrow> (bool \<times> (bf_data, 'a) vm) option"
      and sv oid vm r
    assume IH: "\<And>sv oid vm r. f sv oid vm = Some r \<Longrightarrow> world_ok (vm_db vm) \<longrightarrow> world_ok (vm_db (snd r))"
      and eq: "get_first ob_contents (vm_db vm) oid \<bind> (\<lambda>c. if c = NOTHING then Some (False, vm)
        else move_to_nothing sv c vm \<bind> (\<lambda>(called, vm). if called then Some (True, vm) else f sv oid vm)) = Some r"
    show "world_ok (vm_db vm) \<longrightarrow> world_ok (vm_db (snd r))"
    proof
      assume w: "world_ok (vm_db vm)"
      obtain c where c: "get_first ob_contents (vm_db vm) oid = Some c" using eq by (auto simp: bind_Some_iff)
      show "world_ok (vm_db (snd r))"
      proof (cases "c = NOTHING")
        case False
        then obtain called vm1 where m: "move_to_nothing sv c vm = Some (called, vm1)"
          "(if called then Some (True, vm1) else f sv oid vm1) = Some r"
          using eq c by (auto simp: bind_Some_iff)
        show ?thesis using m(2) IH[of sv oid vm1 r] move_to_nothing_world[OF m(1) w] by (auto split: if_splits)
      qed (use eq c w in auto)
    qed
  qed
  then show ?thesis using assms(2) by blast
qed

lemma NOTHING_above:
  assumes h: "hier_ok db" and x: "objects db x \<noteq> None" shows "NOTHING \<notin> subtree db x"
proof
  assume n: "NOTHING \<in> subtree db x"
  have "x \<noteq> NOTHING" using x table_ok_NOTHING[OF hier_okD(1)[OF h]] by auto
  moreover have "(NOTHING, x) \<in> (parent_rel db)\<^sup>*" using n by (simp add: subtree_def)
  ultimately obtain q where "(NOTHING, q) \<in> parent_rel db" by (metis converse_rtranclE)
  then show False using table_ok_NOTHING[OF hier_okD(1)[OF h]] by (auto simp: parent_rel_def link_def)
qed

text \<open>The grandparent of a child is not below the child.\<close>

lemma first_child:
  assumes h: "hier_ok db" and c: "get_first ob_child db x = Some c" "c \<noteq> NOTHING"
  shows "link ob_parent db c = Some x" "objects db c \<noteq> None"
proof -
  obtain ob where ob: "objects db x = Some ob" "ob_child ob = c" using c(1) by (auto simp: get_first_def)
  obtain cs where cs: "list_at ob_child ob_sibling db x cs" "set cs = {c. link ob_parent db c = Some x}"
    using hier_okD(3)[OF h] ob(1) unfolding kids_ok_def by blast
  have "c \<in> set cs" using cs(1) ob c(2) by (cases cs) (auto simp: list_at_def link_def)
  then show "link ob_parent db c = Some x" using cs(2) by simp
  then show "objects db c \<noteq> None" by (auto simp: link_def)
qed

lemma grandparent_free:
  assumes h: "hier_ok db" and c: "link ob_parent db c = Some x" "x \<noteq> NOTHING" and p: "link ob_parent db x = Some p"
  shows "p \<notin> subtree db c"
proof
  assume pc: "p \<in> subtree db c"
  have cx: "(c, x) \<in> parent_rel db" using c by (simp add: parent_rel_def)
  have "c \<noteq> NOTHING" "objects db c \<noteq> None" using c(1) table_ok_NOTHING[OF hier_okD(1)[OF h]] by (auto simp: link_def)
  then have "p \<noteq> NOTHING" using pc NOTHING_above[OF h] by blast
  then have xp: "(x, p) \<in> parent_rel db" using p by (simp add: parent_rel_def)
  have "(p, c) \<in> (parent_rel db)\<^sup>*" using pc by (simp add: subtree_def)
  then have "(c, c) \<in> (parent_rel db)\<^sup>+" using cx xp by (meson rtrancl_into_trancl2 rtrancl_trancl_trancl trancl.r_into_trancl trancl_trans)
  then show False using hier_okD(2)[OF h] by (simp add: acyclic_def)
qed

lemma parent_present:
  "hier_ok db \<Longrightarrow> link ob_parent db x = Some p \<Longrightarrow> p = NOTHING \<or> objects db p \<noteq> None"
  using hier_okD(4) by (auto simp: parent_rel_def)

lemma reparent_step:
  assumes w: "world_ok db" and c: "get_first ob_child db x = Some c" "c \<noteq> NOTHING" "db_object_parent db x = Some p"
    and run: "db_change_parent db c p = Some (b, db')"
  shows "world_ok db'"
proof -
  note h = world_okD(6)[OF w] and f = first_child[OF world_okD(6)[OF w] c(1,2)]
  have x: "x \<noteq> NOTHING" using c(1) table_ok_NOTHING[OF world_okD(7)[OF w]] by (auto simp: get_first_def)
  have p: "link ob_parent db x = Some p" using c(3) by (simp add: link_def db_object_parent_def)
  show ?thesis
    using chparent_world[OF w f(2) grandparent_free[OF h f(1) x p] parent_present[OF h p] run] .
qed

lemma reparent_children_world:
  assumes "reparent_children x db = Some db'" "world_ok db" shows "world_ok db'"
proof -
  have "world_ok db \<longrightarrow> world_ok db'"
  proof (rule reparent_children.raw_induct[OF _ assms(1)])
    fix f :: "objid \<Rightarrow> db \<Rightarrow> db option" and x db db'
    assume IH: "\<And>x db db'. f x db = Some db' \<Longrightarrow> world_ok db \<longrightarrow> world_ok db'"
      and eq: "get_first ob_child db x \<bind> (\<lambda>c. if c = NOTHING then Some db
        else db_object_parent db x \<bind> (\<lambda>p. db_change_parent db c p \<bind> (\<lambda>(b, db). f x db))) = Some db'"
    show "world_ok db \<longrightarrow> world_ok db'"
    proof
      assume w: "world_ok db"
      obtain c where c: "get_first ob_child db x = Some c" using eq by (auto simp: bind_Some_iff)
      show "world_ok db'"
      proof (cases "c = NOTHING")
        case False
        then obtain p b db1 where r: "db_object_parent db x = Some p" "db_change_parent db c p = Some (b, db1)"
          "f x db1 = Some db'"
          using eq c by (auto simp: bind_Some_iff)
        show ?thesis using IH[OF r(3)] reparent_step[OF w c False r(1,2)] by blast
      qed (use eq c w in auto)
    qed
  qed
  then show ?thesis using assms(2) by blast
qed

lemma demolish_world: "demolish x db = Some db' \<Longrightarrow> world_ok db \<Longrightarrow> world_ok db'"
proof -
  assume run: "demolish x db = Some db'" and w: "world_ok db"
  obtain d1 b d2 ow d3 where d: "reparent_children x db = Some d1" "db_change_parent d1 x NOTHING = Some (b, d2)"
    "db_object_owner d2 x = Some ow" "incr_quota d2 ow = Some d3" "db_destroy_object d3 x = Some db'"
    using run by (auto simp: demolish_def bind_Some_iff)
  have w1: "world_ok d1" using reparent_children_world[OF d(1) w] .
  have x: "objects d1 x \<noteq> None"
  proof (cases b)
    case False
    then show ?thesis using refused_same(4)[of d1 x NOTHING d2] d(2,3) by (auto simp: db_object_owner_def)
  next
    case True
    then show ?thesis using d(2) by (auto simp: db_change_parent_def bind_Some_iff split: if_splits)
  qed
  have w2: "world_ok d2" using chparent_world[OF w1 x NOTHING_above[OF world_okD(6)[OF w1] x] disjI1[OF refl] d(2)] .
  have "world_ok d3"
  proof (cases "valid d2 ow")
    case True
    show ?thesis using quota_touches(2)[OF w2 True d(4)] by (simp add: touches_def)
  next
    case False
    then show ?thesis using d(4) w2 by (simp add: incr_quota_def)
  qed
  then show ?thesis using destroy_world d(5) by blast
qed

lemma sound_recycle_contents:
  assumes w: "world_ok (vm_db vm)" shows "ends sound (recycle_contents sv x vm)"
proof -
  have m: "world_ok (vm_db vm1)" if "move_contents sv x vm = Some (c, vm1)" for c vm1
    using move_contents_world[OF that w] by simp
  show ?thesis
    using w m move_to_nothing_world demolish_world
    by (auto simp: recycle_contents_def sound_simps) blast+
qed

lemma sound_recycle: "world_ok (vm_db vm) \<Longrightarrow> ends sound (bf_recycle sv arglist pc d progr vm)"
  by (auto simp: bf_recycle_def sound_simps intro!: sound_recycle_contents dest!: call_world
      split: var.splits list.splits option.splits bf_data.splits)

lemma sound_set_player_flag:
  assumes w: "world_ok (vm_db vm)" shows "ends sound (bf_set_player_flag boot arglist pc d progr vm)"
  using w set_flag_world[OF w] clear_flag_world[OF w]
  by (auto simp: bf_set_player_flag_def sound_simps split: var.splits list.splits)

lemma setup_eval_db: "setup_activ_for_eval prog vm = Some (ok, vm') \<Longrightarrow> vm_db vm' = vm_db vm"
  by (auto simp: setup_activ_for_eval_def bind_Some_iff split: if_splits)

lemma sound_eval: "world_ok (vm_db vm) \<Longrightarrow> ends sound (bf_eval parse arglist pc d progr vm)"
  by (auto simp: bf_eval_def sound_simps split: var.splits option.splits dest!: setup_eval_db)

section \<open>All of them\<close>

definition vm_functions ::
  "(program \<Rightarrow> bool \<Rightarrow> bool \<Rightarrow> string list) \<Rightarrow> (var list \<Rightarrow> program option \<times> var) \<Rightarrow> bool \<Rightarrow> (bf_data, 'w) server \<Rightarrow>
    ('w \<Rightarrow> obj) \<Rightarrow> (objid \<Rightarrow> 'w \<Rightarrow> 'w) \<Rightarrow> (bf_data, 'w) bf list" where
  "vm_functions unparse parse late sv mem boot =
     map on_db (db_functions unparse parse late (sv_null_program sv) (sv_fp sv)) @
     [bf_create sv mem, bf_recycle sv, bf_move sv, bf_set_player_flag boot, bf_eval parse]"

lemma vm_functions_sound:
  assumes f: "f \<in> set (vm_functions unparse parse late sv mem boot)" and w: "world_ok (vm_db vm)"
    and a: "c_value arglist" "moo_value arglist"
  shows "ends sound (f arglist pc d progr vm)"
proof -
  have "ends sound (on_db g arglist pc d progr vm)"
    if "g \<in> set (db_functions unparse parse late (sv_null_program sv) (sv_fp sv))" for g :: "bf_data db_bf"
    by (rule sound_on_db) (rule db_functions_orderly[OF w _ that], use a in \<open>auto simp: good_args_def\<close>)
  then show ?thesis
    using f sound_create[OF w] sound_recycle[OF w] sound_move[OF w] sound_set_player_flag[OF w] sound_eval[OF w]
    by (auto simp: vm_functions_def)
qed

end
