(* ===== verification/Bf_Recycle_Ends.thy ===== *)
theory Bf_Recycle_Ends
  imports Bf_Recycle
begin

text \<open>
  \<open>recycle()\<close> ends when no verb is there to be called: its loops move every object it contains to
  nothing and give every child to the parent, and the object is destroyed.
\<close>

section \<open>Verbs that are not there\<close>

definition silent :: "db \<Rightarrow> bool" where
  "silent db \<longleftrightarrow> (\<forall>x. \<forall>v \<in> set (verbs_of db x).
     \<not> exec_verb ''recycle'' v \<and> \<not> exec_verb ''exitfunc'' v)"

lemma find_inherited_none:
  assumes h: "hier_ok db" and none: "\<And>y v. v \<in> set (verbs_of db y) \<Longrightarrow> \<not> P v"
  shows "find_inherited db P x = Some None"
proof (cases "objects db x")
  case None
  then show ?thesis using table_ok_find[OF hier_okD(1)[OF h]] by (subst find_inherited.simps) simp
next
  case (Some ob)
  from h Some show ?thesis
  proof (induction rule: hier_induct_up)
    case (obj x ob)
    have "\<forall>v \<in> set (ob_verbdefs ob). \<not> P v" using none[of _ x] obj.hyps(1) by (simp add: verbs_of_def)
    then have i: "index_of P (ob_verbdefs ob) = None" by (simp add: index_of_None)
    have "find_inherited db P (ob_parent ob) = Some None"
    proof (cases "objects db (ob_parent ob)")
      case None
      then show ?thesis using table_ok_find[OF hier_okD(1)[OF h]] by (subst find_inherited.simps) simp
    qed (use obj.IH in blast)
    then show ?case using i obj.hyps(1) table_ok_find[OF hier_okD(1)[OF h]] by (subst find_inherited.simps) simp
  qed
qed

lemma call_silent:
  assumes w: "world_ok (vm_db vm)" and s: "silent (vm_db vm)" and nm: "nm = ''recycle'' \<or> nm = ''exitfunc''"
  shows "\<exists>e db. call_verb2 sv x nm args False vm = Some (e, vm\<lparr>vm_db := db\<rparr>) \<and> e \<noteq> E_NONE \<and>
    objects db = objects (vm_db vm) \<and> world_ok db"
proof (cases "valid (vm_db vm) x")
  case False
  then have "call_verb2 sv x nm args False vm = Some (E_INVIND, vm\<lparr>vm_db := vm_db vm\<rparr>)"
    by (simp add: call_verb2_def call_where_def)
  then show ?thesis using w by (intro exI[of _ E_INVIND] exI[of _ "vm_db vm"]) simp
next
  case True
  have c: "c_string nm" using nm verb_names by blast
  obtain h db where f: "db_find_callable_verb (vm_db vm) x nm = Some (h, db)"
    "find_inherited (vm_db vm) (exec_verb nm) x = Some h" "same_base (vm_db vm) db"
    using find_callable_verb_correct[OF world_okD(6,5)[OF w] c, of x] by blast
  have "find_inherited (vm_db vm) (exec_verb nm) x = Some None"
    by (rule find_inherited_none[OF world_okD(6)[OF w]]) (use s nm in \<open>auto simp: silent_def\<close>)
  then have "h = None" using f(2) by simp
  then have "call_verb2 sv x nm args False vm = Some (E_VERBNF, vm\<lparr>vm_db := db\<rparr>)"
    using True f(1) by (simp add: call_verb2_def call_where_def Let_def)
  moreover have "world_ok db" using call_verb_world[OF w c f(1)] .
  ultimately show ?thesis using f(3) by (intro exI[of _ E_VERBNF] exI[of _ db]) (simp add: same_base_def)
qed

section \<open>Moving everything out\<close>

text \<open>Only locations and contents differ.\<close>

definition places_only :: "db \<Rightarrow> db \<Rightarrow> bool" where
  "places_only db db' \<longleftrightarrow> (\<forall>y. map_option lookup_part (objects db' y) = map_option lookup_part (objects db y))"

lemma places_only_facts:
  assumes "places_only db db'"
  shows "verbs_of db' y = verbs_of db y" "link ob_parent db' y = link ob_parent db y"
    "objects db' y = None \<longleftrightarrow> objects db y = None" "silent db' = silent db"
proof -
  have v: "verbs_of db' y = verbs_of db y \<and> link ob_parent db' y = link ob_parent db y \<and>
      (objects db' y = None \<longleftrightarrow> objects db y = None)" for y
    using assms[unfolded places_only_def, rule_format, of y]
    by (cases "objects db y"; cases "objects db' y") (auto simp: lookup_part_def verbs_of_def link_def)
  then show "verbs_of db' y = verbs_of db y" "link ob_parent db' y = link ob_parent db y"
    "objects db' y = None \<longleftrightarrow> objects db y = None" "silent db' = silent db" by (auto simp: silent_def)
qed

lemma places_only_trans: "places_only a b \<Longrightarrow> places_only b c \<Longrightarrow> places_only a c"
  by (simp add: places_only_def)

lemma move_to_nothing_silent:
  assumes w: "world_ok (vm_db vm)" and s: "silent (vm_db vm)" and c: "objects (vm_db vm) c \<noteq> None"
  shows "\<exists>vm'. move_to_nothing sv c vm = Some (False, vm') \<and> world_ok (vm_db vm') \<and>
    places_only (vm_db vm) (vm_db vm') \<and>
    (\<forall>y. link ob_location (vm_db vm') y = (if y = c then Some NOTHING else link ob_location (vm_db vm) y))"
proof -
  obtain ob where ob: "objects (vm_db vm) c = Some ob" using c by blast
  obtain db where m: "db_change_location (vm_db vm) c NOTHING = Some db"
    "\<forall>y. link ob_location db y = (if y = c then Some NOTHING else link ob_location (vm_db vm) y)"
    "places_only (vm_db vm) db"
    using change_location_correct[OF world_okD(7,2)[OF w] ob, of NOTHING] by (auto simp: places_only_def)
  have w1: "world_ok db" using move_world[OF w disjI1[OF refl] m(1)] .
  have "silent db" using places_only_facts(4)[OF m(3)] s by simp
  then obtain e db2 where k: "call_verb2 sv (ob_location ob) ''exitfunc'' (make_arglist c) False (vm\<lparr>vm_db := db\<rparr>) =
      Some (e, vm\<lparr>vm_db := db2\<rparr>)" "e \<noteq> E_NONE" "objects db2 = objects db" "world_ok db2"
    using call_silent[of "vm\<lparr>vm_db := db\<rparr>" "''exitfunc''" sv] w1 by fastforce
  have "move_to_nothing sv c vm = Some (False, vm\<lparr>vm_db := db2\<rparr>)"
    using ob m(1) k(1,2) by (simp add: move_to_nothing_def db_object_location_def with_db_def)
  moreover have "link ob_location db2 = link ob_location db" using k(3) by (simp add: link_def fun_eq_iff)
  ultimately show ?thesis using m(2,3) k(3,4) by (intro exI[of _ "vm\<lparr>vm_db := db2\<rparr>"]) (simp add: places_only_def)
qed

lemma finite_located:
  assumes "world_ok db" shows "finite {c. link ob_location db c = Some x}"
  by (rule finite_subset[OF _ finite_objects[OF world_okD(7)[OF assms]]]) (auto simp: link_def)

lemma first_content:
  assumes w: "world_ok db" and x: "objects db x \<noteq> None"
  obtains c where "get_first ob_contents db x = Some c"
    "c = NOTHING \<longleftrightarrow> (\<forall>y. link ob_location db y \<noteq> Some x)" "c \<noteq> NOTHING \<Longrightarrow> link ob_location db c = Some x"
proof -
  obtain ob where ob: "objects db x = Some ob" using x by blast
  obtain K where K: "lists_at ob_contents ob_next db K" "set (K x) = {c. link ob_location db c = Some x}"
    using world_okD(2)[OF w] x unfolding contents_ok_def by blast
  have l: "list_at ob_contents ob_next db x (K x)" using K(1) x by (simp add: lists_at_def)
  have n: "NOTHING \<notin> set (K x)" using K(2) table_ok_NOTHING[OF world_okD(7)[OF w]] by (auto simp: link_def)
  have g: "get_first ob_contents db x = Some (ob_contents ob)" using ob by (simp add: get_first_def)
  have h: "ob_contents ob = (case K x of [] \<Rightarrow> NOTHING | c # cs \<Rightarrow> c)"
    using l ob by (cases "K x") (auto simp: list_at_def link_def)
  have mem: "y \<in> set (K x) \<longleftrightarrow> link ob_location db y = Some x" for y using K(2) by blast
  show ?thesis
  proof (cases "K x")
    case Nil
    then have "ob_contents ob = NOTHING" "\<forall>y. link ob_location db y \<noteq> Some x" using h mem by auto
    then show ?thesis using that[OF g] by blast
  next
    case (Cons c cs)
    then have "ob_contents ob \<noteq> NOTHING" "link ob_location db (ob_contents ob) = Some x"
      using h n mem[of c] by auto
    then show ?thesis using that[OF g] by blast
  qed
qed

lemma move_contents_silent:
  assumes "world_ok (vm_db vm)" "silent (vm_db vm)" "objects (vm_db vm) x \<noteq> None"
  shows "\<exists>vm'. move_contents sv x vm = Some (False, vm') \<and> world_ok (vm_db vm') \<and>
    places_only (vm_db vm) (vm_db vm') \<and>
    (\<forall>y. link ob_location (vm_db vm') y =
      (if link ob_location (vm_db vm) y = Some x then Some NOTHING else link ob_location (vm_db vm) y))"
  using assms
proof (induction "card {c. link ob_location (vm_db vm) c = Some x}" arbitrary: vm rule: less_induct)
  case less
  note w = less.prems(1)
  obtain c where c: "get_first ob_contents (vm_db vm) x = Some c"
    "c = NOTHING \<longleftrightarrow> (\<forall>y. link ob_location (vm_db vm) y \<noteq> Some x)" "c \<noteq> NOTHING \<Longrightarrow> link ob_location (vm_db vm) c = Some x"
    using first_content[OF w less.prems(3)] by metis
  show ?case
  proof (cases "c = NOTHING")
    case True
    then have "move_contents sv x vm = Some (False, vm)" using c(1) by (subst move_contents.simps) simp
    then show ?thesis using w c(2) True by (intro exI[of _ vm]) (simp add: places_only_def)
  next
    case False
    note l = c(3)[OF False]
    then have o: "objects (vm_db vm) c \<noteq> None" by (auto simp: link_def)
    obtain vm1 where m: "move_to_nothing sv c vm = Some (False, vm1)" "world_ok (vm_db vm1)"
      "places_only (vm_db vm) (vm_db vm1)"
      "\<forall>y. link ob_location (vm_db vm1) y = (if y = c then Some NOTHING else link ob_location (vm_db vm) y)"
      using move_to_nothing_silent[OF w less.prems(2) o] by blast
    have x: "x \<noteq> NOTHING" using less.prems(3) table_ok_NOTHING[OF world_okD(7)[OF w]] by auto
    have "{d. link ob_location (vm_db vm1) d = Some x} \<subset> {d. link ob_location (vm_db vm) d = Some x}"
      using m(4) l x by auto
    then have "card {d. link ob_location (vm_db vm1) d = Some x} < card {d. link ob_location (vm_db vm) d = Some x}"
      using psubset_card_mono[OF finite_located[OF w]] by blast
    from less.hyps[OF this m(2)] obtain vm2 where r: "move_contents sv x vm1 = Some (False, vm2)" "world_ok (vm_db vm2)"
      "places_only (vm_db vm1) (vm_db vm2)"
      "\<forall>y. link ob_location (vm_db vm2) y =
        (if link ob_location (vm_db vm1) y = Some x then Some NOTHING else link ob_location (vm_db vm1) y)"
      using places_only_facts(3,4)[OF m(3)] less.prems(2,3) by auto
    have "move_contents sv x vm = Some (False, vm2)"
      using c(1) False m(1) r(1) by (subst move_contents.simps) simp
    then show ?thesis using r(2,4) m(4) l x places_only_trans[OF m(3) r(3)] by (intro exI[of _ vm2]) auto
  qed
qed

section \<open>Giving the children away\<close>

text \<open>A child may always go to its grandparent: no name is defined twice on the way up.\<close>

lemma grandparent_ok:
  assumes L: "layout_ok db" and c: "link ob_parent db c = Some x" "x \<noteq> NOTHING" and p: "link ob_parent db x = Some p"
  shows "chparent_ok db c p"
  unfolding chparent_ok_def
proof (intro ballI)
  fix d y e assume d: "d \<in> set (all_defs db p)" and y: "y \<in> subtree db c" and e: "e \<in> set (defs_of db y)"
  note h = layout_hier[OF L]
  obtain oy where oy: "objects db y = Some oy" "e \<in> set (ob_propdefs oy)" using defs_of_mem[OF e] by blast
  obtain oc where oc: "objects db c = Some oc" "ob_parent oc = x" using c(1) by (auto simp: link_def)
  obtain ox where ox: "objects db x = Some ox" "ob_parent ox = p" using p by (auto simp: link_def)
  have "d \<in> set (all_defs db (ob_parent oc))"
    using d all_defs_Some[OF h ox(1)] ox(2) oc(2) by simp
  then have above: "d \<in> set (all_defs db (ob_parent oy))"
  proof (cases "y = c")
    case True
    then show ?thesis using oy(1) oc(1) \<open>d \<in> set (all_defs db (ob_parent oc))\<close> by simp
  next
    case False
    from subtree_parent[OF y False] obtain q where q: "(y, q) \<in> parent_rel db" "q \<in> subtree db c" by blast
    then have "ob_parent oy = q" using parent_rel_Some[OF oy(1)] by simp
    moreover obtain oq where "objects db q = Some oq" using hier_okD(4)[OF h q(1)] by blast
    ultimately show ?thesis using all_defs_split[OF h _ q(2)] all_defs_Some[OF h oc(1)]
        \<open>d \<in> set (all_defs db (ob_parent oc))\<close> by auto
  qed
  have "distinct (map key (ob_propdefs oy @ all_defs db (ob_parent oy)))"
    using layout_obj[OF L oy(1)] all_defs_Some[OF h oy(1)] by (simp add: obj_layout_def)
  then show "key e \<noteq> key d" using oy(2) above by (force simp: disjoint_iff image_iff)
qed

text \<open>Only parents and the slots of inherited properties differ.\<close>

definition parents_only :: "db \<Rightarrow> db \<Rightarrow> bool" where
  "parents_only db db' \<longleftrightarrow> (\<forall>y. map_option outer (objects db' y) = map_option outer (objects db y))"

lemma parents_only_facts:
  assumes "parents_only db db'"
  shows "objects db' y = None \<longleftrightarrow> objects db y = None" "link ob_location db' y = link ob_location db y"
  using assms outer_link[of db' db] by (auto simp: parents_only_def)

lemma parents_only_trans: "parents_only a b \<Longrightarrow> parents_only b c \<Longrightarrow> parents_only a c"
  by (simp add: parents_only_def)

lemma finite_children:
  assumes "world_ok db" shows "finite {c. link ob_parent db c = Some x}"
  by (rule finite_subset[OF _ finite_objects[OF world_okD(7)[OF assms]]]) (auto simp: link_def)

lemma first_child_none:
  assumes w: "world_ok db" and x: "objects db x = Some ob" "ob_child ob = NOTHING"
  shows "link ob_parent db c \<noteq> Some x"
proof -
  obtain cs where cs: "list_at ob_child ob_sibling db x cs" "set cs = {c. link ob_parent db c = Some x}"
    using hier_okD(3)[OF world_okD(6)[OF w]] x(1) unfolding kids_ok_def by blast
  have "cs = []" using cs(1) x by (cases cs) (auto simp: list_at_def link_def)
  then have "{c. link ob_parent db c = Some x} = {}" using cs(2) by simp
  then show ?thesis by blast
qed

lemma not_own_parent:
  "hier_ok db \<Longrightarrow> x \<noteq> NOTHING \<Longrightarrow> link ob_parent db x \<noteq> Some x"
  using hier_okD(2)[of db] by (auto simp: acyclic_def parent_rel_def)

lemma reparent_children_ends:
  assumes "world_ok db" "objects db x \<noteq> None" "link ob_parent db x = Some p"
  shows "\<exists>db'. reparent_children x db = Some db' \<and> world_ok db' \<and> parents_only db db' \<and>
    (\<forall>y. link ob_parent db' y = (if link ob_parent db y = Some x then Some p else link ob_parent db y))"
  using assms
proof (induction "card {c. link ob_parent db c = Some x}" arbitrary: db rule: less_induct)
  case less
  note w = less.prems(1)
  note h = world_okD(6)[OF w]
  obtain ob where ob: "objects db x = Some ob" using less.prems(2) by blast
  have xn: "x \<noteq> NOTHING" using ob table_ok_NOTHING[OF world_okD(7)[OF w]] by auto
  have g: "get_first ob_child db x = Some (ob_child ob)" using ob by (simp add: get_first_def)
  show ?case
  proof (cases "ob_child ob = NOTHING")
    case True
    then have "reparent_children x db = Some db" using g by (subst reparent_children.simps) simp
    then show ?thesis using w first_child_none[OF w ob True] by (intro exI[of _ db]) (simp add: parents_only_def)
  next
    case False
    let ?c = "ob_child ob"
    note c = first_child[OF h g False]
    obtain cb where cb: "objects db ?c = Some cb" using c(2) by blast
    have free: "p \<notin> subtree db ?c" by (rule grandparent_free[OF h c(1) xn less.prems(3)])
    have pres: "p = NOTHING \<or> objects db p \<noteq> None" by (rule parent_present[OF h less.prems(3)])
    obtain db1 where d: "db_change_parent db ?c p = Some (True, db1)"
      "\<forall>y. link ob_parent db1 y = (if y = ?c then Some p else link ob_parent db y)" "parents_only db db1"
      using db_change_parent_correct[OF world_okD(1)[OF w] cb free pres
          grandparent_ok[OF world_okD(1)[OF w] c(1) xn less.prems(3)]] by (auto simp: parents_only_def)
    have par: "db_object_parent db x = Some p" using less.prems(3) by (simp add: db_object_parent_def link_def)
    have w1: "world_ok db1" by (rule reparent_step[OF w g False par d(1)])
    have xc: "x \<noteq> ?c" using not_own_parent[OF h xn] c(1) by auto
    have px: "p \<noteq> x" using not_own_parent[OF h xn] less.prems(3) by auto
    have "{y. link ob_parent db1 y = Some x} \<subset> {y. link ob_parent db y = Some x}"
      using d(2) c(1) px by auto
    then have "card {y. link ob_parent db1 y = Some x} < card {y. link ob_parent db y = Some x}"
      using psubset_card_mono[OF finite_children[OF w]] by blast
    from less.hyps[OF this w1] obtain db2 where r: "reparent_children x db1 = Some db2" "world_ok db2" "parents_only db1 db2"
      "\<forall>y. link ob_parent db2 y = (if link ob_parent db1 y = Some x then Some p else link ob_parent db1 y)"
      using parents_only_facts(1)[OF d(3)] ob d(2) xc less.prems(3) by auto
    have "reparent_children x db = Some db2"
      using g False par d(1) r(1) by (subst reparent_children.simps) simp
    then show ?thesis using r(2,4) d(2) c(1) px parents_only_trans[OF d(3) r(3)]
      by (intro exI[of _ db2]) auto
  qed
qed

lemma incr_quota_total:
  assumes w: "world_ok db"
  shows "\<exists>db'. incr_quota db x = Some db' \<and> world_ok db' \<and> (\<forall>y. kept db db' y)"
proof (cases "valid db x")
  case False
  then show ?thesis using w by (auto simp: incr_quota_def)
next
  case True
  note L = world_okD(1)[OF w]
  obtain ob where ob: "objects db x = Some ob" using valid_object[OF w True] by blast
  have c: "c_string quota_name" "bi_lookup quota_name = None" by code_simp+
  show ?thesis
  proof (cases "index_of (\<lambda>d. key d = fold_case quota_name) (all_defs db x)")
    case None
    have "incr_quota db x = Some db"
      using True db_find_property_none[OF L c None] by (simp add: incr_quota_def)
    then show ?thesis using w by auto
  next
    case (Some i)
    obtain df v where f: "db_find_property db x quota_name True =
        Some (\<lparr>h_built_in = BP_NONE, h_definer = df, h_ptr = Slot x i\<rparr>, Some v)"
      using db_find_property_slot[OF L c ob Some] by auto
    have i: "i < length (ob_propval ob)"
      using Some layout_obj[OF L ob] by (auto simp: index_of_Some obj_layout_def)
    let ?h = "\<lparr>h_built_in = BP_NONE, h_definer = df, h_ptr = Slot x i\<rparr>"
    obtain db' where s: "db_set_property_value db ?h u = Some (db' u)" for u
      using ob i by (auto simp: db_set_property_value_def mod_slot_def nth_opt_def)
    have k: "world_ok (db' (VInt n)) \<and> (\<forall>y. kept db (db' (VInt n)) y)" for n
      using set_slot_world[OF w _ _ s, of "VInt n"] mod_slot_kept[of db x i _ "db' (VInt n)"] s[of "VInt n"]
      by (auto simp: db_set_property_value_def)
    show ?thesis using True f s k w by (cases v) (auto simp: incr_quota_def)
  qed
qed

section \<open>The end\<close>

lemma nothing_in_or_below:
  assumes w: "world_ok db" and x: "objects db x = Some ob"
    and no: "\<And>c. link ob_parent db c \<noteq> Some x" "\<And>c. link ob_location db c \<noteq> Some x"
  shows "ob_child ob = NOTHING" "ob_contents ob = NOTHING"
proof -
  show "ob_child ob = NOTHING"
    using first_child[OF world_okD(6)[OF w], of x "ob_child ob"] x no(1) by (auto simp: get_first_def)
  obtain c where "get_first ob_contents db x = Some c" "c = NOTHING \<longleftrightarrow> (\<forall>y. link ob_location db y \<noteq> Some x)"
    using first_content[OF w, of x] x by blast
  then show "ob_contents ob = NOTHING" using x no(2) by (auto simp: get_first_def)
qed

text \<open>What an object that is recycled leaves behind.\<close>

definition left_behind :: "db \<Rightarrow> objid \<Rightarrow> db \<Rightarrow> bool" where
  "left_behind db x db' \<longleftrightarrow> world_ok db' \<and> objects db' x = None \<and>
     (\<forall>y. y \<noteq> x \<longrightarrow> (objects db' y = None \<longleftrightarrow> objects db y = None) \<and>
       link ob_parent db' y = (if link ob_parent db y = Some x then link ob_parent db x else link ob_parent db y) \<and>
       link ob_location db' y = (if link ob_location db y = Some x then Some NOTHING else link ob_location db y))"

lemma demolish_ends:
  assumes w: "world_ok db" and x: "objects db x \<noteq> None" and loc: "link ob_location db x = Some NOTHING"
    and empty: "\<And>y. link ob_location db y \<noteq> Some x"
  shows "\<exists>db'. demolish x db = Some db' \<and> left_behind db x db'"
proof -
  have xn: "x \<noteq> NOTHING" using x table_ok_NOTHING[OF world_okD(7)[OF w]] by auto
  obtain p where p: "link ob_parent db x = Some p" using x by (auto simp: link_def)
  have px: "p \<noteq> x" using not_own_parent[OF world_okD(6)[OF w] xn] p by auto
  obtain db1 where r: "reparent_children x db = Some db1" "world_ok db1" "parents_only db db1"
    "\<forall>y. link ob_parent db1 y = (if link ob_parent db y = Some x then Some p else link ob_parent db y)"
    using reparent_children_ends[OF w x p] by blast
  obtain ob1 where ob1: "objects db1 x = Some ob1" using parents_only_facts(1)[OF r(3), of x] x by auto
  have n: "NOTHING \<notin> subtree db1 x" using NOTHING_above[OF world_okD(6)[OF r(2)]] ob1 by simp
  have ok: "chparent_ok db1 x NOTHING"
    using all_defs_None[OF world_okD(6)[OF r(2)] table_ok_NOTHING[OF world_okD(7)[OF r(2)]]]
    by (simp add: chparent_ok_def)
  obtain db2 where d: "db_change_parent db1 x NOTHING = Some (True, db2)" "parents_only db1 db2"
    "\<forall>y. link ob_parent db2 y = (if y = x then Some NOTHING else link ob_parent db1 y)"
    using db_change_parent_correct[OF world_okD(1)[OF r(2)] ob1 n _ ok] by (auto simp: parents_only_def)
  have w2: "world_ok db2" using chparent_world[OF r(2) _ n _ d(1)] ob1 by simp
  obtain ob2 where ob2: "objects db2 x = Some ob2" using parents_only_facts(1)[OF d(2), of x] ob1 by auto
  obtain db3 where q: "incr_quota db2 (ob_owner ob2) = Some db3" "world_ok db3" "\<forall>y. kept db2 db3 y"
    using incr_quota_total[OF w2] by blast
  have par: "link ob_parent db3 y = link ob_parent db2 y" for y using q(3) by (simp add: kept_def)
  have out: "parents_only db db3"
    using parents_only_trans[OF r(3) d(2)] q(3) by (simp add: parents_only_def kept_def)
  note f = parents_only_facts[OF out]
  obtain ob3 where ob3: "objects db3 x = Some ob3" using f(1)[of x] x by auto
  have no_kid: "link ob_parent db3 y \<noteq> Some x" for y
    using par d(3) r(4) px xn by auto
  have no_content: "link ob_location db3 y \<noteq> Some x" for y using f(2) empty by simp
  have "ob_location ob3 = NOTHING" "ob_parent ob3 = NOTHING"
    using f(2)[of x] loc par[of x] d(3) ob3 by (auto simp: link_def)
  then obtain db4 where e: "db_destroy_object db3 x = Some db4" "objects db4 = (objects db3)(x := None)"
    using destroy_object_correct[OF world_okD(1,4)[OF q(2)] ob3] nothing_in_or_below[OF q(2) ob3 no_kid no_content]
    by blast
  have "demolish x db = Some db4"
    using r(1) d(1) ob2 q(1) e(1) by (simp add: demolish_def db_object_owner_def)
  moreover have l: "link g db4 y = (if y = x then None else link g db3 y)" for g y
    using e(2) by (simp add: link_def)
  moreover have "left_behind db x db4"
    using destroy_world[OF q(2) e(1)] e(2) f l par d(3) r(4) p empty by (auto simp: left_behind_def)
  ultimately show ?thesis by blast
qed

lemma left_behind_places:
  assumes "places_only db db1" "left_behind db1 x db'" "x \<noteq> NOTHING"
    "\<And>y. y \<noteq> x \<Longrightarrow> link ob_location db1 y = (if link ob_location db y = Some x then Some NOTHING else link ob_location db y)"
  shows "left_behind db x db'"
  using assms places_only_facts[OF assms(1)] by (auto simp: left_behind_def)

lemma recycle_contents_ends:
  assumes w: "world_ok (vm_db vm)" and s: "silent (vm_db vm)" and x: "objects (vm_db vm) x \<noteq> None"
  shows "\<exists>vm'. recycle_contents sv x vm = Some (no_var_pack, vm') \<and> left_behind (vm_db vm) x (vm_db vm')"
proof -
  have xn: "x \<noteq> NOTHING" using x table_ok_NOTHING[OF world_okD(7)[OF w]] by auto
  have v: "valid (vm_db vm) x" using x valid_world[OF w] by simp
  obtain vm1 where m: "move_contents sv x vm = Some (False, vm1)" "world_ok (vm_db vm1)" "places_only (vm_db vm) (vm_db vm1)"
    "\<forall>y. link ob_location (vm_db vm1) y =
      (if link ob_location (vm_db vm) y = Some x then Some NOTHING else link ob_location (vm_db vm) y)"
    using move_contents_silent[OF w s x] by blast
  have x1: "objects (vm_db vm1) x \<noteq> None" using places_only_facts(3)[OF m(3), of x] x by simp
  have s1: "silent (vm_db vm1)" using places_only_facts(4)[OF m(3)] s by simp
  obtain loc where loc: "db_object_location (vm_db vm1) x = Some loc" "link ob_location (vm_db vm1) x = Some loc"
    using x1 by (auto simp: db_object_location_def link_def)
  obtain vm2 where m2: "(if loc \<noteq> NOTHING then move_to_nothing sv x vm1 else Some (False, vm1)) = Some (False, vm2)"
    "world_ok (vm_db vm2)" "places_only (vm_db vm1) (vm_db vm2)"
    "\<forall>y. link ob_location (vm_db vm2) y = (if y = x then Some NOTHING else link ob_location (vm_db vm1) y)"
  proof (cases "loc = NOTHING")
    case True
    then show ?thesis using that[of vm1] m(2) loc by (simp add: places_only_def)
  next
    case False
    then show ?thesis using that move_to_nothing_silent[OF m(2) s1 x1] by auto
  qed
  have x2: "objects (vm_db vm2) x \<noteq> None" using places_only_facts(3)[OF m2(3), of x] x1 by simp
  have "link ob_location (vm_db vm2) y \<noteq> Some x" for y using m(4) m2(4) xn by auto
  then obtain db where d: "demolish x (vm_db vm2) = Some db" "left_behind (vm_db vm2) x db"
    using demolish_ends[OF m2(2) x2] m2(4) by auto
  have "recycle_contents sv x vm = Some (no_var_pack, vm2\<lparr>vm_db := db\<rparr>)"
    using v m(1) loc(1) m2(1) d(1) by (simp add: recycle_contents_def with_db_def finishes_def)
  moreover have "left_behind (vm_db vm) x db"
    by (rule left_behind_places[OF places_only_trans[OF m(3) m2(3)] d(2) xn]) (use m(4) m2(4) in auto)
  ultimately show ?thesis by (intro exI[of _ "vm2\<lparr>vm_db := db\<rparr>"]) simp
qed

lemma bf_recycle_ends:
  assumes w: "world_ok (vm_db vm)" and s: "silent (vm_db vm)" and x: "valid (vm_db vm) x"
    and c: "controls (vm_db vm) progr x = Some True"
  shows "\<exists>vm'. bf_recycle sv (VList [VObj x]) 1 d progr vm = Some (no_var_pack, vm') \<and>
    left_behind (vm_db vm) x (vm_db vm')"
proof -
  obtain e db where k: "call_verb2 sv x ''recycle'' (VList []) False vm = Some (e, vm\<lparr>vm_db := db\<rparr>)" "e \<noteq> E_NONE"
    "objects db = objects (vm_db vm)" "world_ok db"
    using call_silent[OF w s, of "''recycle''" sv x "VList []"] by blast
  have same: "link g db = link g (vm_db vm)" for g :: "obj \<Rightarrow> objid" using k(3) by (simp add: link_def fun_eq_iff)
  have "silent db" using s k(3) by (simp add: silent_def verbs_of_def)
  moreover have "objects db x \<noteq> None" using x valid_world[OF w] k(3) by simp
  ultimately obtain vm' where "recycle_contents sv x (vm\<lparr>vm_db := db\<rparr>) = Some (no_var_pack, vm')" "left_behind db x (vm_db vm')"
    using recycle_contents_ends[of "vm\<lparr>vm_db := db\<rparr>" x sv] k(4) by auto
  then show ?thesis
    using x c k(1,2,3) same by (intro exI[of _ vm']) (simp add: bf_recycle_def left_behind_def)
qed

end
