(* ===== verification/Bf_Names.thy ===== *)
theory Bf_Names
  imports Bf_Verbs
begin

text \<open>
  When the test of two verb names for a common name ends: the third loop of
  \<open>single_names_share_namespace\<close> goes round for ever once it stands at a star of the first name.
\<close>

lemma ns_scan_stop:
  "starts_star foo \<Longrightarrow> ns_scan p bar foo = Some (p, bar, foo)"
  by (cases bar; cases foo) (auto simp: starts_star_def)

lemma ns_bar_star_loops:
  assumes "starts_star foo" shows "ns_bar_star p foo bar = None"
proof (rule ccontr)
  assume "ns_bar_star p foo bar \<noteq> None"
  then obtain r where "ns_bar_star p foo bar = Some r" by blast
  then have "\<not> starts_star foo"
  proof (rule ns_bar_star.raw_induct[where P = "\<lambda>p foo bar r. \<not> starts_star foo", rotated])
    fix f :: "bool \<Rightarrow> string \<Rightarrow> string \<Rightarrow> bool option" and p foo bar r
    assume IH: "\<And>p foo bar r. f p foo bar = Some r \<Longrightarrow> \<not> starts_star foo"
      and eq: "(case ns_scan p bar foo of None \<Rightarrow> Some False
        | Some (p, bar, foo) \<Rightarrow> if foo = [] then Some True else if hd foo = CHR ''*'' then f p foo bar else Some p) = Some r"
    show "\<not> starts_star foo"
    proof
      assume s: "starts_star foo"
      then have "f p foo bar = Some r" using eq ns_scan_stop[OF s, of p bar] by (auto simp: starts_star_def)
      then show False using IH s by blast
    qed
  qed
  then show False using assms by simp
qed

lemma ns_bar_star_cases:
  "ns_bar_star p foo bar = None \<longleftrightarrow> (\<exists>q bar' foo'. ns_scan p bar foo = Some (q, bar', foo') \<and> starts_star foo')"
proof (cases "ns_scan p bar foo")
  case None
  then show ?thesis by (subst ns_bar_star.simps) simp
next
  case (Some t)
  obtain q bar' foo' where t: "t = (q, bar', foo')" by (cases t)
  show ?thesis
  proof (cases "starts_star foo'")
    case True
    then have "ns_bar_star q foo' bar' = None" by (rule ns_bar_star_loops)
    then show ?thesis using Some t True by (subst ns_bar_star.simps) (auto simp: starts_star_def)
  next
    case False
    then show ?thesis using Some t by (subst ns_bar_star.simps) (auto simp: starts_star_def)
  qed
qed

lemma share_namespace_hangs:
  "single_names_share_namespace foo bar = None \<longleftrightarrow>
    (\<exists>f b q b' f'. ns_start foo bar = Inr (f, b) \<and> \<not> starts_star f \<and> starts_star b \<and>
      ns_scan False b f = Some (q, b', f') \<and> starts_star f')"
  by (auto simp: single_names_share_namespace_def ns_bar_star_cases split: sum.splits)

end
