(* ===== verification/Bf_Registry.thy ===== *)
theory Bf_Registry
  imports Bf_Objects
begin

text \<open>
  The table of built-in functions: registration, \<open>function_info()\<close> and the flags that protect a
  function (src/src/functions.c). A row is the name, the number of arguments, the function and the
  types of its arguments. The functions that save the data of a built-in are not part of an entry.
\<close>

type_synonym ('k, 'w) bf_row = "string \<times> int \<times> int \<times> ('k, 'w) bf \<times> int list"

definition MAX_FUNC :: nat where "MAX_FUNC = 256"

definition num_arg_types :: "int \<Rightarrow> int \<Rightarrow> nat" where
  "num_arg_types minargs maxargs = nat (if maxargs = -1 then minargs else maxargs)"

text \<open>A full table is left alone.\<close>

fun register_common :: "('k, 'w) bf_row \<Rightarrow> ('k, 'w) bft_entry list \<Rightarrow> ('k, 'w) bft_entry list" where
  "register_common (nm, minargs, maxargs, f, protos) tab =
     (if length tab = MAX_FUNC then tab
      else tab @ [\<lparr>bf_name = nm, bf_protect_str = ''protect_'' @ nm, bf_verb_str = ''bf_'' @ nm,
        bf_minargs = minargs, bf_maxargs = maxargs, bf_prototype = take (num_arg_types minargs maxargs) protos,
        bf_func = f, bf_protected = False\<rparr>])"

definition register_all :: "('k, 'w) bf_row list \<Rightarrow> ('k, 'w) bft_entry list" where
  "register_all rows = fold register_common rows []"

section \<open>Descriptions\<close>

text \<open>The type of an argument; a negative one is no type of the database.\<close>

definition function_description :: "('k, 'w) bft_entry \<Rightarrow> var option" where
  "function_description e =
     (let nargs = num_arg_types (bf_minargs e) (bf_maxargs e) in
      if length (bf_prototype e) < nargs then None
      else Some (VList [VStr (bf_name e), VInt (word_of_int (bf_minargs e)), VInt (word_of_int (bf_maxargs e)),
        VList (map (\<lambda>p. VInt (word_of_int p)) (take nargs (bf_prototype e)))]))"

fun all_descriptions :: "('k, 'w) bft_entry list \<Rightarrow> var list option" where
  "all_descriptions [] = Some []"
| "all_descriptions (e # es) = do {
     d \<leftarrow> function_description e;
     ds \<leftarrow> all_descriptions es;
     Some (d # ds) }"

definition bf_function_info :: "('k, 'w) server \<Rightarrow> ('k, 'w) bf" where
  "bf_function_info sv arglist next_pc vdata progr vm = (case arglist of
     VList [VStr nm] \<Rightarrow>
       let i = number_func_by_name sv nm in
       if i = FUNC_NOT_FOUND then finishes vm (make_error_pack E_INVARG)
       else do { d \<leftarrow> function_description (sv_table sv ! i); finishes vm (make_var_pack d) }
   | VList [] \<Rightarrow> do { ds \<leftarrow> all_descriptions (sv_table sv); finishes vm (make_var_pack (VList ds)) }
   | _ \<Rightarrow> None)"

section \<open>Protection\<close>

text \<open>Each flag is the option of the server of that name.\<close>

fun load_server_protect_flags :: "db \<Rightarrow> ('k, 'w) bft_entry list \<Rightarrow> ('k, 'w) bft_entry list option" where
  "load_server_protect_flags db [] = Some []"
| "load_server_protect_flags db (e # es) = do {
     b \<leftarrow> server_flag_option db (bf_protect_str e);
     es \<leftarrow> load_server_protect_flags db es;
     Some (e\<lparr>bf_protected := b\<rparr> # es) }"

text \<open>The table is the result, beside the package: the machine reads it and does not change it.\<close>

definition bf_load_server_options ::
  "db \<Rightarrow> objid \<Rightarrow> ('k, 'w) bft_entry list \<Rightarrow> ('k package \<times> ('k, 'w) bft_entry list) option" where
  "bf_load_server_options db progr tab =
     (if \<not> is_wizard db progr then Some (make_error_pack E_PERM, tab)
      else do { tab \<leftarrow> load_server_protect_flags db tab; Some (no_var_pack, tab) })"

section \<open>Finding a function\<close>

lemma register_names:
  "length tab + length rows \<le> MAX_FUNC \<Longrightarrow>
    map bf_name (fold register_common rows tab) = map bf_name tab @ map fst rows"
  by (induction rows arbitrary: tab) auto

lemma registered_function:
  assumes n: "length rows \<le> MAX_FUNC" and c: "\<forall>r \<in> set rows. c_string (fst r)"
    and d: "distinct (map (\<lambda>r. fold_case (fst r)) rows)" and i: "i < length rows"
    and t: "sv_table sv = register_all rows"
    and nm: "c_string nm" "fold_case nm = fold_case (fst (rows ! i))"
  shows "number_func_by_name sv nm = i" "name_func_by_num sv i = fst (rows ! i)"
proof -
  have names: "map bf_name (sv_table sv) = map fst rows"
    using register_names[of "[]" rows] n t by (simp add: register_all_def)
  have len: "length (sv_table sv) = length rows" using names by (metis length_map)
  have nth: "bf_name (sv_table sv ! j) = fst (rows ! j)" if "j < length rows" for j
    using names that len by (metis nth_map)
  have hit: "mystrcasecmp nm (bf_name (sv_table sv ! j)) = 0 \<longleftrightarrow> j = i" if j: "j < length rows" for j
  proof -
    have "c_string (fst (rows ! j))" using c j by simp
    then have "mystrcasecmp nm (fst (rows ! j)) = 0 \<longleftrightarrow> fold_case (fst (rows ! i)) = fold_case (fst (rows ! j))"
      using mystrcasecmp_eq_0[OF nm(1)] nm(2) by simp
    also have "\<dots> \<longleftrightarrow> j = i" using d i j nth_eq_iff_index_eq[OF d, of i j] by auto
    finally show ?thesis using nth[OF j] by simp
  qed
  then have "index_of (\<lambda>f. mystrcasecmp nm (bf_name f) = 0) (sv_table sv) = Some i"
    using i len by (simp add: index_of_Some)
  then show "number_func_by_name sv nm = i" by (simp add: number_func_by_name_def)
  show "name_func_by_num sv i = fst (rows ! i)" using nth[OF i] i len by (simp add: name_func_by_num_def)
qed

end
