(* ===== verification/Bf_Demo.thy ===== *)
theory Bf_Demo
  imports Db_Demo Bf_Recycle_Ends Bf_Names Bf_Registry
begin

text \<open>A machine on the small database of \<open>Db_Demo\<close>, for the theorems about built-in functions.\<close>

lemma demo_world: "world_ok demo_db"
proof -
  have "places_ok demo_db" using demo_dom by (auto simp: places_ok_def demo_link_location split: if_splits)
  moreover have "users_ok demo_db" by (simp add: users_ok_def demo_db_def)
  moreover have "vc_ok demo_db" by (rule vc_ok_empty) (simp add: demo_db_def)
  ultimately show ?thesis using demo_layout demo_contents by (simp add: world_ok_def)
qed

definition demo_vm :: "(bf_data, unit) vm" where
  "demo_vm = \<lparr>vm_activs = [], vm_max_stack_size = 50, vm_root_vector = -1, vm_ticks = 100, vm_timed_out = False,
     vm_task_kind = TASK_INPUT, vm_handler = None, vm_db = demo_db, vm_world = ()\<rparr>"

lemma demo_vm_db [simp]: "vm_db demo_vm = demo_db"
  by (simp add: demo_vm_def)

lemma demo_silent: "silent demo_db"
  by (auto simp: silent_def verbs_of_def demo_defs split: option.splits if_splits)

lemma demo_wizard: "is_wizard demo_db 0" "\<not> is_wizard demo_db 1"
  by (simp_all add: is_wizard_def valid_flag_def dbpriv_find_object_def has_flag_def demo_defs)

text \<open>The programmer \<open>#1\<close> may change nothing of \<open>#0\<close>, and gives \<open>colour\<close> of \<open>#1\<close> new permissions.\<close>

lemma demo_closed: "closed_to demo_db 1 0"
proof -
  have "db_object_allows demo_db 0 1 FLAG_WRITE = Some False"
    by (simp add: db_object_allows_def db_object_owner_def db_object_has_flag_def has_flag_def demo_wizard demo_objects)
      (simp add: demo_defs)
  moreover have "db_verb_allows demo_db (Some (0, i)) 1 VF_WRITE \<noteq> Some True" for i
    by (simp add: db_verb_allows_def db_verb_flags_def handle_verb_def demo_objects bind_Some_iff)
      (simp add: demo_defs nth_opt_def)
  moreover have "db_property_allows demo_db h 1 PF_WRITE \<noteq> Some True" if "h_ptr h = Slot 0 n" for h n
    using that demo_wizard(2)
    by (auto simp: db_property_allows_def db_property_flags_def db_property_owner_def slot_of_def demo_objects
        bind_Some_iff nth_opt_eq_Some perms_int_def demo_ob_defs split: if_splits)
  ultimately show ?thesis by (simp add: closed_to_def)
qed


lemma demo_set_info_pack:
  "map_option fst (bf_set_prop_info demo_db 1 [VObj 1, VStr ''colour'', VList [VObj 1, VStr ''r'']]) = Some (no_var_pack :: bf_data package)"
  by code_simp

lemma demo_refused:
  "map_option fst (bf_chparent demo_db 0 [VObj 0, VObj 1]) = Some (make_error_pack E_RECMOVE :: bf_data package)"
  by code_simp

lemma demo_rename_hangs: "single_names_share_namespace ''ab*c'' ''a*bc'' = None"
  unfolding share_namespace_hangs
  by (rule exI[of _ "''b*c''"], rule exI[of _ "''*bc''"], rule exI[of _ False], rule exI[of _ "''c''"],
      rule exI[of _ "''*c''"]) code_simp

end
