(* ===== verification/Server_Net.thy ===== *)
theory Server_Net
  imports Bf_Objects
begin

text \<open>
  The connections of src/src/server.c: the handles that tie a connection of the network layer to a
  player, the listening points, and what of them needs no task to be run. \<open>'n\<close> is the state of the
  network layer and of the operating system. A handle is known by its address, and using the address
  of a handle that has been freed is \<open>None\<close>. Emergency mode is not modelled, nor are log files.
\<close>

section \<open>The network layer\<close>

text \<open>
  The functions of include/network.h on a handle of the network, \<open>time(0)\<close>, \<open>RANDOM()\<close>, and the parser,
  which gives a program unless there are errors, and the lines about these.
\<close>

record 'n network =
  nw_time :: "'n \<Rightarrow> int \<times> 'n"
  nw_random :: "'n \<Rightarrow> int32 \<times> 'n"
  nw_send_line :: "nat \<Rightarrow> string \<Rightarrow> bool \<Rightarrow> 'n \<Rightarrow> int32 \<times> 'n"
  nw_send_bytes :: "nat \<Rightarrow> string \<Rightarrow> bool \<Rightarrow> 'n \<Rightarrow> int32 \<times> 'n"
  nw_suspend_input :: "nat \<Rightarrow> 'n \<Rightarrow> 'n"
  nw_resume_input :: "nat \<Rightarrow> 'n \<Rightarrow> 'n"
  nw_close :: "nat \<Rightarrow> 'n \<Rightarrow> 'n"
  nw_connection_name :: "nat \<Rightarrow> 'n \<Rightarrow> string"
  nw_set_binary :: "nat \<Rightarrow> bool \<Rightarrow> 'n \<Rightarrow> 'n"
  nw_set_option :: "nat \<Rightarrow> string \<Rightarrow> var \<Rightarrow> 'n \<Rightarrow> bool \<times> 'n"
  nw_option :: "nat \<Rightarrow> string \<Rightarrow> 'n \<Rightarrow> var option"
  nw_options :: "nat \<Rightarrow> var list \<Rightarrow> 'n \<Rightarrow> var list"
  nw_buffered_output_length :: "nat \<Rightarrow> 'n \<Rightarrow> int32"
  nw_make_listener :: "nat \<Rightarrow> var \<Rightarrow> var \<Rightarrow> 'n \<Rightarrow> (error + nat \<times> var \<times> string \<times> var) \<times> 'n"
  nw_listen :: "nat \<Rightarrow> 'n \<Rightarrow> bool \<times> 'n"
  nw_close_listener :: "nat \<Rightarrow> 'n \<Rightarrow> 'n"
  nw_parse :: "string \<Rightarrow> program option \<times> string list"

section \<open>Handles\<close>

record shandle =
  sh_ptr :: nat
  sh_nhandle :: nat
  sh_connection_time :: int
  sh_last_activity_time :: int
  sh_player :: objid
  sh_listener :: objid
  sh_tasks :: nat
  sh_disconnect_me :: bool
  sh_outbound :: bool
  sh_binary :: bool
  sh_print_messages :: bool

record slistener =
  sl_ptr :: nat
  sl_nlistener :: nat
  sl_oid :: objid
  sl_desc :: var
  sl_options :: var
  sl_print_messages :: bool
  sl_name :: string

text \<open>\<open>cn_shutdown\<close> is \<open>shutdown_message\<close>, \<open>cn_checkpoint\<close> says that \<open>checkpoint_requested\<close> is not \<open>CHKPT_OFF\<close>.\<close>

record 'n conns =
  cn_handles :: "shandle list"
  cn_listeners :: "slistener list"
  cn_fresh :: nat
  cn_next_player :: objid
  cn_shutdown :: "string option"
  cn_checkpoint :: bool
  cn_net :: 'n

definition on_net :: "('n \<Rightarrow> 'n) \<Rightarrow> 'n conns \<Rightarrow> 'n conns" where
  "on_net f c = c\<lparr>cn_net := f (cn_net c)\<rparr>"

definition ask_net :: "('n \<Rightarrow> 'a \<times> 'n) \<Rightarrow> 'n conns \<Rightarrow> 'a \<times> 'n conns" where
  "ask_net f c = (case f (cn_net c) of (r, n) \<Rightarrow> (r, c\<lparr>cn_net := n\<rparr>))"

definition find_shandle :: "objid \<Rightarrow> 'n conns \<Rightarrow> shandle option" where
  "find_shandle player c = find (\<lambda>h. sh_player h = player) (cn_handles c)"

definition shandle_at :: "nat \<Rightarrow> 'n conns \<Rightarrow> shandle option" where
  "shandle_at p c = find (\<lambda>h. sh_ptr h = p) (cn_handles c)"

definition upd_shandle :: "nat \<Rightarrow> (shandle \<Rightarrow> shandle) \<Rightarrow> 'n conns \<Rightarrow> 'n conns" where
  "upd_shandle p f c = c\<lparr>cn_handles := map (\<lambda>h. if sh_ptr h = p then f h else h) (cn_handles c)\<rparr>"

definition drop_shandle :: "nat \<Rightarrow> 'n conns \<Rightarrow> 'n conns" where
  "drop_shandle p c = c\<lparr>cn_handles := filter (\<lambda>h. sh_ptr h \<noteq> p) (cn_handles c)\<rparr>"

text \<open>A connection without a handle would be followed through a null pointer.\<close>

definition server_suspend_input :: "'n network \<Rightarrow> objid \<Rightarrow> 'n conns \<Rightarrow> 'n conns option" where
  "server_suspend_input nw connection c =
     map_option (\<lambda>h. on_net (nw_suspend_input nw (sh_nhandle h)) c) (find_shandle connection c)"

definition server_resume_input :: "'n network \<Rightarrow> objid \<Rightarrow> 'n conns \<Rightarrow> 'n conns option" where
  "server_resume_input nw connection c =
     map_option (\<lambda>h. on_net (nw_resume_input nw (sh_nhandle h)) c) (find_shandle connection c)"

definition send_line :: "'n network \<Rightarrow> nat \<Rightarrow> string \<Rightarrow> 'n conns \<Rightarrow> 'n conns" where
  "send_line nw nh line c = on_net (\<lambda>n. snd (nw_send_line nw nh line True n)) c"

definition notify :: "'n network \<Rightarrow> objid \<Rightarrow> string \<Rightarrow> 'n conns \<Rightarrow> 'n conns" where
  "notify nw player message c = (case find_shandle player c of
     Some h \<Rightarrow> if sh_disconnect_me h then c else send_line nw (sh_nhandle h) message c
   | None \<Rightarrow> c)"

definition boot_player :: "objid \<Rightarrow> 'n conns \<Rightarrow> 'n conns" where
  "boot_player player c = (case find_shandle player c of
     Some h \<Rightarrow> upd_shandle (sh_ptr h) (sh_disconnect_me_update (\<lambda>_. True)) c
   | None \<Rightarrow> c)"

definition is_connected :: "objid \<Rightarrow> 'n conns \<Rightarrow> bool" where
  "is_connected what c \<longleftrightarrow> (\<exists>h \<in> set (cn_handles c). \<not> sh_disconnect_me h \<and> sh_player h = what)"

section \<open>Messages\<close>

text \<open>The lines a listener's option holds, or the default ones.\<close>

definition message_lines :: "db \<Rightarrow> objid \<Rightarrow> string \<Rightarrow> string list \<Rightarrow> string list option" where
  "message_lines db listener msg_name defaults = do {
     opt \<leftarrow> get_server_option db listener msg_name;
     Some (case opt of
       None \<Rightarrow> defaults
     | Some (VStr s) \<Rightarrow> [s]
     | Some (VList vs) \<Rightarrow> concat (map (\<lambda>v. case v of VStr s \<Rightarrow> [s] | _ \<Rightarrow> []) vs)
     | _ \<Rightarrow> []) }"

definition send_message :: "'n network \<Rightarrow> db \<Rightarrow> objid \<Rightarrow> nat \<Rightarrow> string \<Rightarrow> string list \<Rightarrow> 'n conns \<Rightarrow> 'n conns option" where
  "send_message nw db listener nh msg_name defaults c =
     map_option (\<lambda>lines. fold (send_line nw nh) lines c) (message_lines db listener msg_name defaults)"

definition send_shutdown_message :: "'n network \<Rightarrow> string \<Rightarrow> 'n conns \<Rightarrow> 'n conns" where
  "send_shutdown_message nw msg c =
     fold (\<lambda>h. send_line nw (sh_nhandle h) (''*** Shutting down: '' @ msg @ '' ***'')) (cn_handles c) c"

definition object_name :: "db \<Rightarrow> objid \<Rightarrow> string option" where
  "object_name db oid =
     (if valid db oid then map_option (\<lambda>nm. nm @ '' (#'' @ show_int oid @ '')'') (db_object_name db oid)
      else Some (CHR ''#'' # show_int oid))"

section \<open>Options of a connection\<close>

text \<open>\<open>None\<close> is an option the server does not know.\<close>

definition server_set_connection_option ::
  "'n network \<Rightarrow> shandle \<Rightarrow> string \<Rightarrow> var \<Rightarrow> 'n conns \<Rightarrow> 'n conns option" where
  "server_set_connection_option nw h option v c =
     (if mystrcasecmp option ''binary'' = 0
      then Some (on_net (nw_set_binary nw (sh_nhandle h) (is_true v))
        (upd_shandle (sh_ptr h) (sh_binary_update (\<lambda>_. is_true v)) c))
      else None)"

definition binary_value :: "shandle \<Rightarrow> var" where
  "binary_value h = VInt (if sh_binary h then 1 else 0)"

definition server_connection_option :: "shandle \<Rightarrow> string \<Rightarrow> var option" where
  "server_connection_option h option = (if mystrcasecmp option ''binary'' = 0 then Some (binary_value h) else None)"

definition server_connection_options :: "shandle \<Rightarrow> var list \<Rightarrow> var list" where
  "server_connection_options h list = list @ [VList [VStr ''binary'', binary_value h]]"

section \<open>Options of the server\<close>

definition server_string_option :: "db \<Rightarrow> string \<Rightarrow> string option \<Rightarrow> string option option" where
  "server_string_option db nm defallt =
     map_option (\<lambda>opt. case opt of Some (VStr s) \<Rightarrow> Some s | Some _ \<Rightarrow> None | None \<Rightarrow> defallt)
       (get_server_option db SYSTEM_OBJECT nm)"

text \<open>
  The seconds between checkpoints, as \<open>set_checkpoint_timer\<close> computes them: \<open>sizeof\<close> is a \<open>size_t\<close>, to which
  the difference and the sum are converted before they are compared.
\<close>

definition checkpoint_interval :: "db \<Rightarrow> int32 \<Rightarrow> int32 option" where
  "checkpoint_interval db now = do {
     v \<leftarrow> get_system_property db ''dump_interval'';
     Some (case v of
       VInt n \<Rightarrow>
         if sint n < 60 \<or> (ucast (now + n) :: 64 word) < 2 - scast n then 3600 else n
     | _ \<Rightarrow> 3600) }"

text \<open>The second test is always met, so that every interval is an hour.\<close>

lemma checkpoint_interval_hourly:
  assumes "checkpoint_interval db now = Some i"
  shows "i = 3600"
proof -
  have "(ucast (now + n) :: 64 word) < 2 - scast n" if n: "\<not> sint n < 60" for n :: int32
  proof -
    have lt: "sint n < 2 ^ 31" using sint_lt[of n] by simp
    have "(2 - scast n :: 64 word) = word_of_int (2 - sint n)"
      unfolding scast_eq wi_hom_sub[symmetric] by (subst word_of_int_numeral) (rule refl)
    then have "uint (2 - scast n :: 64 word) = (2 - sint n) mod 2 ^ 64" by (simp only: uint_word_of_int) simp
    also have "\<dots> = (2 - sint n + 2 ^ 64) mod 2 ^ 64" by (rule mod_add_self2[symmetric])
    also have "\<dots> = 2 - sint n + 2 ^ 64" using n lt by (intro mod_pos_pos_trivial) simp_all
    finally have "uint (2 - scast n :: 64 word) = 2 - sint n + 2 ^ 64" .
    moreover have "uint (ucast (now + n) :: 64 word) = uint (now + n)" by (rule uint_up_ucast) (simp add: is_up)
    moreover have "uint (now + n) < 2 ^ 32" using uint_lt2p[of "now + n"] by simp
    ultimately show ?thesis using lt by (simp add: word_less_alt)
  qed
  then have "sint n < 60 \<or> (ucast (now + n) :: 64 word) < 2 - scast n" for n :: int32 by blast
  moreover obtain v where "i = (case v of VInt n \<Rightarrow>
      if sint n < 60 \<or> (ucast (now + n) :: 64 word) < 2 - scast n then 3600 else n | _ \<Rightarrow> 3600)"
    using assms by (auto simp: checkpoint_interval_def bind_eq_Some_conv)
  ultimately show ?thesis by (cases v) simp_all
qed

end
