(* ===== verification/Task_Queues.thy ===== *)
theory Task_Queues
  imports Server_Net
begin

text \<open>
  The queues of src/src/tasks.c: one queue for each player or connection, with its lines of input and
  the tasks that are ready to run, and the list of the tasks that wait for their time.

  A queue is a cell of a store, because the network layer and the scheduler hold pointers to it;
  \<open>tk_idle\<close> and \<open>tk_active\<close> are the two linked lists. Reading a cell that has been freed, or unlinking
  a queue that is not on the list of idle ones, is \<open>None\<close>. \<open>'n\<close> is the state of the network layer.
\<close>

section \<open>Tasks\<close>

text \<open>\<open>vmstruct\<close> of include/execute.h, the running activation first.\<close>

record 'k saved_vm =
  sm_task_id :: int32
  sm_activs :: "'k activation list"
  sm_max_stack_size :: int
  sm_root_vector :: int

definition top_activ :: "'k saved_vm \<Rightarrow> 'k activation option" where
  "top_activ m = nth_opt (sm_activs m) 0"

definition progr_of_cur_verb :: "'k saved_vm \<Rightarrow> objid option" where
  "progr_of_cur_verb m = map_option av_progr (top_activ m)"

record 'k forked_task =
  ft_id :: int32
  ft_program :: program
  ft_activ :: "'k activation"
  ft_rt_env :: "var list"
  ft_f_index :: int
  ft_start_time :: int

record 'k suspended_task =
  st_vm :: "'k saved_vm"
  st_start_time :: int
  st_value :: var

datatype 'k bg_task = Forked "'k forked_task" | Suspended "'k suspended_task"

datatype 'k task = Input string | Background "'k bg_task"

fun get_start_time :: "'k bg_task \<Rightarrow> int" where
  "get_start_time (Forked f) = ft_start_time f"
| "get_start_time (Suspended s) = st_start_time s"

fun bg_progr :: "'k bg_task \<Rightarrow> objid option" where
  "bg_progr (Forked f) = Some (av_progr (ft_activ f))"
| "bg_progr (Suspended s) = progr_of_cur_verb (st_vm s)"

fun bg_id :: "'k bg_task \<Rightarrow> int32" where
  "bg_id (Forked f) = ft_id f"
| "bg_id (Suspended s) = sm_task_id (st_vm s)"

section \<open>Queues\<close>

text \<open>
  \<open>tq_program\<close> is the program a player is typing in with the object and the name of its verb, when
  \<open>program_stream\<close> is set; \<open>tq_reading\<close> the machine that waits in \<open>read()\<close>, when \<open>reading\<close> is.
\<close>

record 'k tqueue =
  tq_player :: objid
  tq_handler :: objid
  tq_connected :: bool
  tq_input :: "string list"
  tq_total_input_length :: int
  tq_last_input_task_id :: int32
  tq_input_suspended :: bool
  tq_bg :: "'k bg_task list"
  tq_usage :: int32
  tq_num_bg_tasks :: int
  tq_hold_input :: bool
  tq_output_prefix :: "string option"
  tq_output_suffix :: "string option"
  tq_flush_cmd :: "string option"
  tq_program :: "(string \<times> objid \<times> string) option"
  tq_reading :: "'k saved_vm option"

record ('k, 'n) tasks =
  tk_queues :: "nat \<Rightarrow> 'k tqueue option"
  tk_fresh :: nat
  tk_idle :: "nat list"
  tk_active :: "nat list"
  tk_waiting :: "'k bg_task list"
  tk_current :: int32
  tk_net :: "'n conns"

type_synonym ('k, 'n) task_vm = "('k, ('k, 'n) tasks) vm"

definition INPUT_HIWAT :: int where "INPUT_HIWAT = 131072"
definition INPUT_LOWAT :: int where "INPUT_LOWAT = INPUT_HIWAT div 2"
definition NO_USAGE :: int32 where "NO_USAGE = -1"

definition upd_tq :: "nat \<Rightarrow> ('k tqueue \<Rightarrow> 'k tqueue) \<Rightarrow> ('k, 'n) tasks \<Rightarrow> ('k, 'n) tasks option" where
  "upd_tq q f ts = do {
     t \<leftarrow> tk_queues ts q;
     Some (ts\<lparr>tk_queues := (tk_queues ts)(q \<mapsto> f t)\<rparr>) }"

definition at_net :: "('n conns \<Rightarrow> 'n conns) \<Rightarrow> ('k, 'n) tasks \<Rightarrow> ('k, 'n) tasks" where
  "at_net f ts = ts\<lparr>tk_net := f (tk_net ts)\<rparr>"

definition at_net_opt :: "('n conns \<Rightarrow> 'n conns option) \<Rightarrow> ('k, 'n) tasks \<Rightarrow> ('k, 'n) tasks option" where
  "at_net_opt f ts = map_option (\<lambda>c. ts\<lparr>tk_net := c\<rparr>) (f (tk_net ts))"

definition time_now :: "'n network \<Rightarrow> ('k, 'n) tasks \<Rightarrow> int \<times> ('k, 'n) tasks" where
  "time_now nw ts = (case ask_net (nw_time nw) (tk_net ts) of (now, c) \<Rightarrow> (now, ts\<lparr>tk_net := c\<rparr>))"

subsection \<open>Idle and active queues\<close>

definition deactivate_tqueue :: "nat \<Rightarrow> ('k, 'n) tasks \<Rightarrow> ('k, 'n) tasks option" where
  "deactivate_tqueue q ts = do {
     ts \<leftarrow> upd_tq q (tq_usage_update (\<lambda>_. NO_USAGE)) ts;
     Some (ts\<lparr>tk_idle := q # tk_idle ts\<rparr>) }"

fun place_by_usage :: "(nat \<Rightarrow> 'k tqueue option) \<Rightarrow> int32 \<Rightarrow> nat \<Rightarrow> nat list \<Rightarrow> nat list option" where
  "place_by_usage heap u q [] = Some [q]"
| "place_by_usage heap u q (a # as) = do {
     t \<leftarrow> heap a;
     if sint (tq_usage t) \<le> sint u then map_option (Cons a) (place_by_usage heap u q as)
     else Some (q # a # as) }"

definition activate_tqueue :: "nat \<Rightarrow> ('k, 'n) tasks \<Rightarrow> ('k, 'n) tasks option" where
  "activate_tqueue q ts = do {
     t \<leftarrow> tk_queues ts q;
     as \<leftarrow> place_by_usage (tk_queues ts) (tq_usage t) q (tk_active ts);
     Some (ts\<lparr>tk_active := as\<rparr>) }"

definition least_usage :: "('k, 'n) tasks \<Rightarrow> int32 option" where
  "least_usage ts = (case tk_active ts of [] \<Rightarrow> Some 0 | a # _ \<Rightarrow> map_option tq_usage (tk_queues ts a))"

text \<open>A queue without usage is taken to be idle: its \<open>prev\<close> is followed.\<close>

definition ensure_usage :: "nat \<Rightarrow> ('k, 'n) tasks \<Rightarrow> ('k, 'n) tasks option" where
  "ensure_usage q ts = do {
     t \<leftarrow> tk_queues ts q;
     if tq_usage t = NO_USAGE then do {
       u \<leftarrow> least_usage ts;
       ts \<leftarrow> upd_tq q (tq_usage_update (\<lambda>_. u)) ts;
       if q \<in> set (tk_idle ts) then activate_tqueue q (ts\<lparr>tk_idle := remove1 q (tk_idle ts)\<rparr>)
       else None }
     else Some ts }"

definition default_flush_command :: "db \<Rightarrow> string option option" where
  "default_flush_command db = do {
     s \<leftarrow> server_string_option db ''default_flush_command'' (Some ''.flush'');
     Some (if s = Some [] then None else s) }"

fun queue_of :: "(nat \<Rightarrow> 'k tqueue option) \<Rightarrow> objid \<Rightarrow> nat list \<Rightarrow> nat option option" where
  "queue_of heap player [] = Some None"
| "queue_of heap player (a # as) = do {
     t \<leftarrow> heap a;
     if tq_player t = player then Some (Some a) else queue_of heap player as }"

text \<open>\<open>find_tqueue\<close> without and with the creation of a queue that is not there.\<close>

definition find_tqueue :: "objid \<Rightarrow> ('k, 'n) tasks \<Rightarrow> nat option option" where
  "find_tqueue player ts = queue_of (tk_queues ts) player (tk_active ts @ tk_idle ts)"

definition new_tqueue :: "objid \<Rightarrow> string option \<Rightarrow> 'k tqueue" where
  "new_tqueue player flush = \<lparr>tq_player = player, tq_handler = 0, tq_connected = False, tq_input = [],
     tq_total_input_length = 0, tq_last_input_task_id = 0, tq_input_suspended = False, tq_bg = [],
     tq_usage = NO_USAGE, tq_num_bg_tasks = 0, tq_hold_input = False, tq_output_prefix = None,
     tq_output_suffix = None, tq_flush_cmd = flush, tq_program = None, tq_reading = None\<rparr>"

definition have_tqueue :: "db \<Rightarrow> objid \<Rightarrow> ('k, 'n) tasks \<Rightarrow> (nat \<times> ('k, 'n) tasks) option" where
  "have_tqueue db player ts = do {
     found \<leftarrow> find_tqueue player ts;
     case found of
       Some q \<Rightarrow> Some (q, ts)
     | None \<Rightarrow> do {
         flush \<leftarrow> default_flush_command db;
         let q = tk_fresh ts;
         ts \<leftarrow> deactivate_tqueue q (ts\<lparr>tk_queues := (tk_queues ts)(q \<mapsto> new_tqueue player flush),
           tk_fresh := q + 1\<rparr>);
         Some (q, ts) } }"

definition free_tqueue :: "nat \<Rightarrow> ('k, 'n) tasks \<Rightarrow> ('k, 'n) tasks option" where
  "free_tqueue q ts =
     (if tk_queues ts q = None \<or> q \<notin> set (tk_idle ts) then None
      else Some (ts\<lparr>tk_idle := remove1 q (tk_idle ts), tk_queues := (tk_queues ts)(q := None)\<rparr>))"

subsection \<open>Adding and taking\<close>

definition enqueue_bg_task :: "nat \<Rightarrow> 'k bg_task \<Rightarrow> ('k, 'n) tasks \<Rightarrow> ('k, 'n) tasks option" where
  "enqueue_bg_task q t ts = upd_tq q (tq_bg_update (\<lambda>bg. bg @ [t])) ts"

definition dequeue_bg_task :: "nat \<Rightarrow> ('k, 'n) tasks \<Rightarrow> ('k bg_task option \<times> ('k, 'n) tasks) option" where
  "dequeue_bg_task q ts = do {
     tq \<leftarrow> tk_queues ts q;
     case tq_bg tq of
       [] \<Rightarrow> Some (None, ts)
     | t # bg \<Rightarrow> do {
         ts \<leftarrow> upd_tq q (\<lambda>tq. tq\<lparr>tq_bg := bg, tq_num_bg_tasks := tq_num_bg_tasks tq - 1\<rparr>) ts;
         Some (Some t, ts) } }"

text \<open>A connection whose input was suspended is resumed at the lower mark.\<close>

definition dequeue_input_task ::
  "'n network \<Rightarrow> nat \<Rightarrow> ('k, 'n) tasks \<Rightarrow> (string option \<times> ('k, 'n) tasks) option" where
  "dequeue_input_task nw q ts = do {
     tq \<leftarrow> tk_queues ts q;
     case tq_input tq of
       [] \<Rightarrow> Some (None, ts)
     | s # inp \<Rightarrow> do {
         let len = tq_total_input_length tq - int (length s);
         ts \<leftarrow> upd_tq q (\<lambda>tq. tq\<lparr>tq_input := inp, tq_total_input_length := len\<rparr>) ts;
         if tq_input_suspended tq \<and> tq_connected tq \<and> len < INPUT_LOWAT then do {
           ts \<leftarrow> at_net_opt (server_resume_input nw (tq_player tq)) ts;
           ts \<leftarrow> upd_tq q (tq_input_suspended_update (\<lambda>_. False)) ts;
           Some (Some s, ts) }
         else Some (Some s, ts) } }"

definition dequeue_any_task ::
  "'n network \<Rightarrow> nat \<Rightarrow> ('k, 'n) tasks \<Rightarrow> ('k task option \<times> ('k, 'n) tasks) option" where
  "dequeue_any_task nw q ts = do {
     (line, ts) \<leftarrow> dequeue_input_task nw q ts;
     case line of
       Some s \<Rightarrow> Some (Some (Input s), ts)
     | None \<Rightarrow> do {
         (t, ts) \<leftarrow> dequeue_bg_task q ts;
         Some (map_option Background t, ts) } }"

text \<open>Zero is no task: another number is drawn.\<close>

partial_function (option) new_task_id :: "('n \<Rightarrow> int32 \<times> 'n) \<Rightarrow> 'n \<Rightarrow> (int32 \<times> 'n) option" where
  "new_task_id rnd n = (case rnd n of (i, n') \<Rightarrow> if i = 0 then new_task_id rnd n' else Some (i, n'))"

declare new_task_id.simps [code]

definition draw_task_id :: "'n network \<Rightarrow> ('k, 'n) tasks \<Rightarrow> (int32 \<times> ('k, 'n) tasks) option" where
  "draw_task_id nw ts = do {
     (i, n) \<leftarrow> new_task_id (nw_random nw) (cn_net (tk_net ts));
     Some (i, at_net (on_net (\<lambda>_. n)) ts) }"

end
