(* ===== verification/Task_Sched.thy ===== *)
theory Task_Sched
  imports Task_Queues
begin

text \<open>
  The interface of src/src/tasks.c to the network layer and to the interpreter: connections and
  their options, lines of input, forked, suspended and reading tasks.
\<close>

section \<open>Connections\<close>

definition is_out_of_input :: "'k tqueue \<Rightarrow> bool" where
  "is_out_of_input tq \<longleftrightarrow> \<not> tq_connected tq \<and> tq_input tq = []"

definition new_task_queue :: "db \<Rightarrow> objid \<Rightarrow> objid \<Rightarrow> ('k, 'n) tasks \<Rightarrow> (nat \<times> ('k, 'n) tasks) option" where
  "new_task_queue db player handler ts = do {
     (q, ts) \<leftarrow> have_tqueue db player ts;
     ts \<leftarrow> upd_tq q (\<lambda>tq. tq\<lparr>tq_connected := True, tq_handler := handler\<rparr>) ts;
     Some (q, ts) }"

definition free_task_queue :: "nat \<Rightarrow> ('k, 'n) tasks \<Rightarrow> ('k, 'n) tasks option" where
  "free_task_queue q ts = do {
     ts \<leftarrow> upd_tq q (tq_connected_update (\<lambda>_. False)) ts;
     tq \<leftarrow> tk_queues ts q;
     if tq_reading tq \<noteq> None then ensure_usage q ts else Some ts }"

subsection \<open>Options of a connection\<close>

definition tasks_set_connection_option ::
  "nat \<Rightarrow> string \<Rightarrow> var \<Rightarrow> ('k, 'n) tasks \<Rightarrow> (bool \<times> ('k, 'n) tasks) option" where
  "tasks_set_connection_option q option v ts =
     (if mystrcasecmp option ''flush-command'' = 0 then do {
        ts \<leftarrow> upd_tq q (tq_flush_cmd_update (\<lambda>_. case v of VStr (c # cs) \<Rightarrow> Some (c # cs) | _ \<Rightarrow> None)) ts;
        Some (True, ts) }
      else if mystrcasecmp option ''hold-input'' = 0 then do {
        ts \<leftarrow> upd_tq q (tq_hold_input_update (\<lambda>_. is_true v)) ts;
        tq \<leftarrow> tk_queues ts q;
        ts \<leftarrow> (if \<not> tq_hold_input tq \<and> tq_input tq \<noteq> [] then ensure_usage q ts else Some ts);
        Some (True, ts) }
      else Some (False, ts))"

definition flush_value :: "'k tqueue \<Rightarrow> var" where
  "flush_value tq = VStr (case tq_flush_cmd tq of Some s \<Rightarrow> s | None \<Rightarrow> [])"

definition hold_value :: "'k tqueue \<Rightarrow> var" where
  "hold_value tq = VInt (if tq_hold_input tq then 1 else 0)"

definition tasks_connection_option :: "nat \<Rightarrow> string \<Rightarrow> ('k, 'n) tasks \<Rightarrow> var option option" where
  "tasks_connection_option q option ts = do {
     tq \<leftarrow> tk_queues ts q;
     Some (if mystrcasecmp option ''flush-command'' = 0 then Some (flush_value tq)
           else if mystrcasecmp option ''hold-input'' = 0 then Some (hold_value tq)
           else None) }"

definition tasks_connection_options :: "nat \<Rightarrow> var list \<Rightarrow> ('k, 'n) tasks \<Rightarrow> var list option" where
  "tasks_connection_options q list ts = do {
     tq \<leftarrow> tk_queues ts q;
     Some (list @ [VList [VStr ''flush-command'', flush_value tq], VList [VStr ''hold-input'', hold_value tq]]) }"

section \<open>Input\<close>

definition suspend_if :: "'n network \<Rightarrow> nat \<Rightarrow> ('k tqueue \<Rightarrow> bool) \<Rightarrow> ('k, 'n) tasks \<Rightarrow> ('k, 'n) tasks option" where
  "suspend_if nw q full ts = do {
     tq \<leftarrow> tk_queues ts q;
     if \<not> tq_input_suspended tq \<and> tq_connected tq \<and> full tq then do {
       ts \<leftarrow> at_net_opt (server_suspend_input nw (tq_player tq)) ts;
       upd_tq q (tq_input_suspended_update (\<lambda>_. True)) ts }
     else Some ts }"

definition enqueue_input_task ::
  "'n network \<Rightarrow> nat \<Rightarrow> string \<Rightarrow> bool \<Rightarrow> ('k, 'n) tasks \<Rightarrow> ('k, 'n) tasks option" where
  "enqueue_input_task nw q input at_front ts = do {
     ts \<leftarrow> upd_tq q (\<lambda>tq. tq\<lparr>tq_total_input_length := tq_total_input_length tq + int (length input),
       tq_input := (if at_front then input # tq_input tq else tq_input tq @ [input])\<rparr>) ts;
     tq \<leftarrow> tk_queues ts q;
     ts \<leftarrow> (if \<not> tq_hold_input tq \<or> tq_reading tq \<noteq> None then ensure_usage q ts else Some ts);
     suspend_if nw q (\<lambda>tq. tq_total_input_length tq > INPUT_HIWAT) ts }"

definition task_suspend_input :: "'n network \<Rightarrow> nat \<Rightarrow> ('k, 'n) tasks \<Rightarrow> ('k, 'n) tasks option" where
  "task_suspend_input nw q ts = suspend_if nw q (\<lambda>_. True) ts"

text \<open>The lines of a queue are taken one after the other; \<open>n\<close> of them are there.\<close>

definition tell :: "'n network \<Rightarrow> bool \<Rightarrow> objid \<Rightarrow> string \<Rightarrow> ('k, 'n) tasks \<Rightarrow> ('k, 'n) tasks" where
  "tell nw show_messages player line ts = (if show_messages then at_net (notify nw player line) ts else ts)"

fun flush_lines ::
  "'n network \<Rightarrow> nat \<Rightarrow> objid \<Rightarrow> bool \<Rightarrow> nat \<Rightarrow> ('k, 'n) tasks \<Rightarrow> ('k, 'n) tasks option" where
  "flush_lines nw q player show_messages 0 ts = Some ts"
| "flush_lines nw q player show_messages (Suc n) ts = do {
     (line, ts) \<leftarrow> dequeue_input_task nw q ts;
     s \<leftarrow> line;
     flush_lines nw q player show_messages n (tell nw show_messages player (''>>     '' @ s) ts) }"

definition flush_input :: "'n network \<Rightarrow> nat \<Rightarrow> bool \<Rightarrow> ('k, 'n) tasks \<Rightarrow> ('k, 'n) tasks option" where
  "flush_input nw q show_messages ts = do {
     tq \<leftarrow> tk_queues ts q;
     let player = tq_player tq;
     if tq_input tq \<noteq> [] then do {
       let ts = tell nw show_messages player ''>> Flushing the following pending input:'' ts;
       ts \<leftarrow> flush_lines nw q player show_messages (length (tq_input tq)) ts;
       Some (tell nw show_messages player ''>> (Done flushing)'' ts) }
     else Some (tell nw show_messages player ''>> No pending input to flush...'' ts) }"

definition new_input_task :: "'n network \<Rightarrow> nat \<Rightarrow> string \<Rightarrow> ('k, 'n) tasks \<Rightarrow> ('k, 'n) tasks option" where
  "new_input_task nw q input ts = do {
     tq \<leftarrow> tk_queues ts q;
     case tq_flush_cmd tq of
       Some cmd \<Rightarrow> if mystrcasecmp input cmd = 0 then flush_input nw q True ts
                    else enqueue_input_task nw q input False ts
     | None \<Rightarrow> enqueue_input_task nw q input False ts }"

section \<open>Waiting tasks\<close>

text \<open>By time, behind the tasks of the same time.\<close>

fun insert_waiting :: "'k bg_task \<Rightarrow> 'k bg_task list \<Rightarrow> 'k bg_task list" where
  "insert_waiting t [] = [t]"
| "insert_waiting t (w # ws) =
     (if get_start_time t < get_start_time w then t # w # ws else w # insert_waiting t ws)"

definition enqueue_waiting :: "db \<Rightarrow> 'k bg_task \<Rightarrow> ('k, 'n) tasks \<Rightarrow> ('k, 'n) tasks option" where
  "enqueue_waiting db t ts = do {
     progr \<leftarrow> bg_progr t;
     (q, ts) \<leftarrow> have_tqueue db progr ts;
     ts \<leftarrow> upd_tq q (\<lambda>tq. tq\<lparr>tq_num_bg_tasks := tq_num_bg_tasks tq + 1\<rparr>) ts;
     Some (ts\<lparr>tk_waiting := insert_waiting t (tk_waiting ts)\<rparr>) }"

definition enqueue_ft ::
  "db \<Rightarrow> program \<Rightarrow> 'k activation \<Rightarrow> var list \<Rightarrow> int \<Rightarrow> int \<Rightarrow> int32 \<Rightarrow> ('k, 'n) tasks \<Rightarrow> ('k, 'n) tasks option" where
  "enqueue_ft db prog a env f_index start_time tid ts =
     enqueue_waiting db (Forked \<lparr>ft_id = tid, ft_program = prog,
       ft_activ = a\<lparr>av_rt_env := env, av_prog := prog, av_rt_stack := []\<rparr>, ft_rt_env = env,
       ft_f_index = f_index, ft_start_time = start_time\<rparr>) ts"

definition user_task_limit :: "db \<Rightarrow> objid \<Rightarrow> int option" where
  "user_task_limit db user = do {
     v \<leftarrow> (if valid db user then property_of db user ''queued_task_limit'' else Some None);
     let limit = (case v of Some (VInt n) \<Rightarrow> sint n | _ \<Rightarrow> -1);
     if limit < 0 then server_int_option db ''queued_task_limit'' (-1) else Some limit }"

definition check_user_task_limit :: "db \<Rightarrow> objid \<Rightarrow> ('k, 'n) tasks \<Rightarrow> bool option" where
  "check_user_task_limit db user ts = do {
     found \<leftarrow> find_tqueue user ts;
     limit \<leftarrow> user_task_limit db user;
     n \<leftarrow> (case found of Some q \<Rightarrow> map_option tq_num_bg_tasks (tk_queues ts q) | None \<Rightarrow> Some 0);
     Some (limit < 0 \<or> n < limit) }"

text \<open>
  The number of the task is stored in the variable of the running activation, whose environment is
  then copied.
\<close>

definition enqueue_forked_task2 ::
  "'n network \<Rightarrow> nat \<Rightarrow> int \<Rightarrow> nat option \<Rightarrow> ('k, 'n) task_vm \<Rightarrow> (error \<times> ('k, 'n) task_vm) option" where
  "enqueue_forked_task2 nw f_index after_seconds vid vm = do {
     a \<leftarrow> run_activ vm;
     ok \<leftarrow> check_user_task_limit (vm_db vm) (av_progr a) (vm_world vm);
     if \<not> ok then Some (E_QUOTA, vm)
     else do {
       (tid, ts) \<leftarrow> draw_task_id nw (vm_world vm);
       env \<leftarrow> (case vid of Some slot \<Rightarrow> upd_opt (av_rt_env a) (int slot) (VInt tid) | None \<Rightarrow> Some (av_rt_env a));
       let (now, ts) = time_now nw ts;
       ts \<leftarrow> enqueue_ft (vm_db vm) (av_prog a) a env (int f_index)
         (now + uint (word_of_int after_seconds :: 32 word)) tid ts;
       Some (E_NONE, (set_activ (a\<lparr>av_rt_env := env\<rparr>) vm)\<lparr>vm_world := ts\<rparr>) } }"

text \<open>A time that does not fit, as that of a task suspended for ever does not, is \<open>INT_MAX\<close>.\<close>

definition wake_time :: "32 word \<Rightarrow> 32 word \<Rightarrow> int" where
  "wake_time now after_seconds =
     (if now + after_seconds < now then 2147483647 else uint (now + after_seconds))"

definition do_enqueue_suspended ::
  "'n network \<Rightarrow> db \<Rightarrow> 'k saved_vm \<Rightarrow> int32 \<Rightarrow> ('k, 'n) tasks \<Rightarrow> (error \<times> ('k, 'n) tasks) option" where
  "do_enqueue_suspended nw db m after_seconds ts = do {
     let (now, ts) = time_now nw ts;
     progr \<leftarrow> progr_of_cur_verb m;
     ok \<leftarrow> check_user_task_limit db progr ts;
     if ok then do {
       ts \<leftarrow> enqueue_waiting db (Suspended \<lparr>st_vm = m,
         st_start_time = wake_time (word_of_int now) after_seconds, st_value = VInt 0\<rparr>) ts;
       Some (E_NONE, ts) }
     else Some (E_QUOTA, ts) }"

definition resume_task :: "db \<Rightarrow> 'k saved_vm \<Rightarrow> var \<Rightarrow> ('k, 'n) tasks \<Rightarrow> ('k, 'n) tasks option" where
  "resume_task db m v ts = do {
     progr \<leftarrow> progr_of_cur_verb m;
     (q, ts) \<leftarrow> have_tqueue db progr ts;
     ts \<leftarrow> enqueue_bg_task q (Suspended \<lparr>st_vm = m, st_start_time = 0, st_value = v\<rparr>) ts;
     ensure_usage q ts }"

section \<open>Reading\<close>

definition read_input_now :: "'n network \<Rightarrow> objid \<Rightarrow> ('k, 'n) tasks \<Rightarrow> (var \<times> ('k, 'n) tasks) option" where
  "read_input_now nw connection ts = do {
     found \<leftarrow> find_tqueue connection ts;
     case found of
       None \<Rightarrow> Some (VErr E_INVARG, ts)
     | Some q \<Rightarrow> do {
         tq \<leftarrow> tk_queues ts q;
         if is_out_of_input tq then Some (VErr E_INVARG, ts)
         else do {
           (line, ts) \<leftarrow> dequeue_input_task nw q ts;
           Some (case line of None \<Rightarrow> VInt 0 | Some s \<Rightarrow> VStr s, ts) } } }"

definition do_make_reading :: "'k saved_vm \<Rightarrow> objid \<Rightarrow> ('k, 'n) tasks \<Rightarrow> (error \<times> ('k, 'n) tasks) option" where
  "do_make_reading m player ts = do {
     found \<leftarrow> find_tqueue player ts;
     case found of
       None \<Rightarrow> Some (E_INVARG, ts)
     | Some q \<Rightarrow> do {
         tq \<leftarrow> tk_queues ts q;
         if tq_reading tq \<noteq> None \<or> is_out_of_input tq then Some (E_INVARG, ts)
         else do {
           ts \<leftarrow> upd_tq q (tq_reading_update (\<lambda>_. Some m)) ts;
           ts \<leftarrow> (if tq_input tq \<noteq> [] then ensure_usage q ts else Some ts);
           Some (E_NONE, ts) } } }"

text \<open>\<open>suspend_task\<close> of src/src/execute.c: the machine is saved and handed to the queues.\<close>

definition save_vm :: "('k, 'n) task_vm \<Rightarrow> 'k saved_vm" where
  "save_vm vm = \<lparr>sm_task_id = tk_current (vm_world vm), sm_activs = vm_activs vm,
     sm_max_stack_size = vm_max_stack_size vm, sm_root_vector = vm_root_vector vm\<rparr>"

definition suspend_task ::
  "'n network \<Rightarrow> susp_proc \<Rightarrow> ('k, 'n) task_vm \<Rightarrow> (error \<times> ('k, 'n) task_vm) option" where
  "suspend_task nw p vm = do {
     (e, ts) \<leftarrow> (case p of
         enqueue_suspended_task s \<Rightarrow> do_enqueue_suspended nw (vm_db vm) (save_vm vm) s (vm_world vm)
       | make_reading_task player \<Rightarrow> do_make_reading (save_vm vm) player (vm_world vm));
     Some (e, vm\<lparr>vm_world := ts\<rparr>) }"

text \<open>The server whose interpreter forks and suspends tasks into these queues.\<close>

definition with_queues :: "'n network \<Rightarrow> ('k, ('k, 'n) tasks) server \<Rightarrow> ('k, ('k, 'n) tasks) server" where
  "with_queues nw sv = sv\<lparr>sv_suspend := suspend_task nw, sv_fork := enqueue_forked_task2 nw\<rparr>"

section \<open>Questions\<close>

definition last_input_task_id :: "objid \<Rightarrow> ('k, 'n) tasks \<Rightarrow> int32 option" where
  "last_input_task_id player ts = do {
     found \<leftarrow> find_tqueue player ts;
     case found of None \<Rightarrow> Some 0 | Some q \<Rightarrow> map_option tq_last_input_task_id (tk_queues ts q) }"

fun any_ready :: "(nat \<Rightarrow> 'k tqueue option) \<Rightarrow> nat list \<Rightarrow> bool option" where
  "any_ready heap [] = Some False"
| "any_ready heap (a # as) = do {
     tq \<leftarrow> heap a;
     if tq_input tq \<noteq> [] \<or> tq_bg tq \<noteq> [] then Some True else any_ready heap as }"

text \<open>The seconds until a task can run, as an \<open>int\<close>; -1 when none is queued.\<close>

definition next_task_start :: "'n network \<Rightarrow> ('k, 'n) tasks \<Rightarrow> (int \<times> ('k, 'n) tasks) option" where
  "next_task_start nw ts = do {
     ready \<leftarrow> any_ready (tk_queues ts) (tk_active ts);
     if ready then Some (0, ts)
     else case tk_waiting ts of
       w # _ \<Rightarrow> let (now, ts) = time_now nw ts in Some (max 0 (sint (word_of_int (get_start_time w - now) :: int32)), ts)
     | [] \<Rightarrow> Some (-1, ts) }"

end
