(* ===== verification/Task_Run.thy ===== *)
theory Task_Run
  imports Task_Sched
begin

text \<open>
  How src/src/tasks.c runs tasks: commands, logins, the typing of programs, and \<open>run_ready_tasks\<close>, the
  scheduler proper. \<open>sv\<close> is the server the interpreter runs on (see \<open>with_queues\<close>); commands are not
  logged, as \<open>LOG_COMMANDS\<close> is not set.
\<close>

definition in_world :: "('k, 'n) task_vm \<Rightarrow> ('k, 'n) tasks option \<Rightarrow> ('k, 'n) task_vm option" where
  "in_world vm ts = map_option (\<lambda>ts. vm\<lparr>vm_world := ts\<rparr>) ts"

definition queue_in :: "nat \<Rightarrow> ('k, 'n) task_vm \<Rightarrow> 'k tqueue option" where
  "queue_in q vm = tk_queues (vm_world vm) q"

definition notify_task :: "'n network \<Rightarrow> ('k, 'n) tasks notifier" where
  "notify_task nw player line ts = at_net (notify nw player line) ts"

definition say :: "'n network \<Rightarrow> objid \<Rightarrow> string \<Rightarrow> ('k, 'n) task_vm \<Rightarrow> ('k, 'n) task_vm" where
  "say nw player line vm = vm\<lparr>vm_world := notify_task nw player line (vm_world vm)\<rparr>"

definition now_running :: "int32 \<Rightarrow> ('k, 'n) task_vm \<Rightarrow> ('k, 'n) task_vm" where
  "now_running i vm = vm\<lparr>vm_world := (vm_world vm)\<lparr>tk_current := i\<rparr>\<rparr>"

section \<open>Tasks of the server\<close>

definition fresh_task :: "'n network \<Rightarrow> ('k, 'n) task_vm \<Rightarrow> (int32 \<times> ('k, 'n) task_vm) option" where
  "fresh_task nw vm = do {
     (i, ts) \<leftarrow> draw_task_id nw (vm_world vm);
     Some (i, now_running i (vm\<lparr>vm_world := ts\<rparr>)) }"

text \<open>A verb that is not there is an empty verb. \<open>keep\<close> is the queue that remembers the number of the task.\<close>

definition run_server_task_setting_id ::
  "('k, ('k, 'n) tasks) server \<Rightarrow> 'n network \<Rightarrow> objid \<Rightarrow> objid \<Rightarrow> string \<Rightarrow> var \<Rightarrow> string \<Rightarrow> nat option \<Rightarrow>
     ('k, 'n) task_vm \<Rightarrow> (outcome \<times> var option \<times> ('k, 'n) task_vm) option" where
  "run_server_task_setting_id sv nw player what verb args argstr keep vm = do {
     (i, vm) \<leftarrow> fresh_task nw vm;
     vm \<leftarrow> (case keep of
         Some q \<Rightarrow> in_world vm (upd_tq q (tq_last_input_task_id_update (\<lambda>_. i)) (vm_world vm))
       | None \<Rightarrow> Some vm);
     (h, db) \<leftarrow> db_find_callable_verb (vm_db vm) what verb;
     let vm = vm\<lparr>vm_db := db\<rparr>;
     if h \<noteq> None then do_server_verb_task sv (notify_task nw) what verb args h player argstr True vm
     else Some (OUTCOME_DONE, Some (VInt 0), vm) }"

definition run_server_task ::
  "('k, ('k, 'n) tasks) server \<Rightarrow> 'n network \<Rightarrow> objid \<Rightarrow> objid \<Rightarrow> string \<Rightarrow> var \<Rightarrow> string \<Rightarrow>
     ('k, 'n) task_vm \<Rightarrow> (outcome \<times> var option \<times> ('k, 'n) task_vm) option" where
  "run_server_task sv nw player what verb args argstr vm =
     run_server_task_setting_id sv nw player what verb args argstr None vm"

definition run_server_program_task ::
  "('k, ('k, 'n) tasks) server \<Rightarrow> 'n network \<Rightarrow> objid \<Rightarrow> string \<Rightarrow> var \<Rightarrow> objid \<Rightarrow> string \<Rightarrow> program \<Rightarrow> objid \<Rightarrow> bool \<Rightarrow>
     objid \<Rightarrow> string \<Rightarrow> ('k, 'n) task_vm \<Rightarrow> (outcome \<times> var option \<times> ('k, 'n) task_vm) option" where
  "run_server_program_task sv nw this verb args vloc verbname prog progr debug player argstr vm = do {
     (_, vm) \<leftarrow> fresh_task nw vm;
     do_server_program_task sv (notify_task nw) this verb args vloc verbname prog progr debug player argstr True vm }"

section \<open>Typing a program\<close>

text \<open>The verb \<open>object:verb\<close> names, the line for the player, and the name of the verb.\<close>

definition no_object_message :: "objid \<Rightarrow> string \<Rightarrow> string" where
  "no_object_message oid ob =
     (if oid = FAILED_MATCH then ''I don't see '' @ QUOTE # ob @ QUOTE # '' here.''
      else if oid = AMBIGUOUS then ''I don't know which '' @ QUOTE # ob @ QUOTE # '' you mean.''
      else QUOTE # ob @ QUOTE # '' is not a valid object.'')"

definition may_program :: "db \<Rightarrow> objid \<Rightarrow> verb_handle \<Rightarrow> bool option" where
  "may_program db player h = do {
     ok \<leftarrow> db_verb_allows db h player VF_WRITE;
     if \<not> ok then Some False
     else do {
       protect \<leftarrow> server_flag_option db ''protect_set_verb_code'';
       Some (\<not> (protect \<and> \<not> is_wizard db player)) } }"

definition find_verb_for_programming :: "db \<Rightarrow> objid \<Rightarrow> string \<Rightarrow> (verb_handle \<times> string \<times> string) option" where
  "find_verb_for_programming db player verbref =
     (let ob = takeWhile (\<lambda>c. c \<noteq> CHR '':'') verbref; vname = drop (length ob + 1) verbref in
      if vname = [] then Some (None, ''You must specify a verb; use the format object:verb.'', [])
      else do {
        oid \<leftarrow> (if ob \<noteq> [] \<and> hd ob = CHR ''$'' then get_system_object db (tl ob) else match_object db player ob);
        if \<not> valid db oid then Some (None, no_object_message oid ob, vname)
        else do {
          h \<leftarrow> find_described_verb db oid (VStr vname);
          if h = None then Some (None, ''That object does not have that verb definition.'', vname)
          else do {
            ok \<leftarrow> may_program db player h;
            if \<not> ok then Some (None, ''Permission denied.'', vname)
            else do {
              nm \<leftarrow> db_object_name db oid;
              vnames \<leftarrow> db_verb_names db h;
              Some (h, ''Now programming '' @ nm @ '':'' @ vnames @ ''.  Use '' @ QUOTE # ''.'' @ QUOTE # '' to end.'', vname) } } } })"

definition start_programming ::
  "'n network \<Rightarrow> nat \<Rightarrow> string \<Rightarrow> ('k, 'n) task_vm \<Rightarrow> ('k, 'n) task_vm option" where
  "start_programming nw q argstr vm = do {
     tq \<leftarrow> queue_in q vm;
     (h, msg, vname) \<leftarrow> find_verb_for_programming (vm_db vm) (tq_player tq) argstr;
     let vm = say nw (tq_player tq) msg vm;
     if h = None then Some vm
     else do {
       definer \<leftarrow> db_verb_definer (vm_db vm) h;
       in_world vm (upd_tq q (tq_program_update (\<lambda>_. Some ([], definer, vname))) (vm_world vm)) } }"

definition program_verb ::
  "'n network \<Rightarrow> objid \<Rightarrow> string \<Rightarrow> objid \<Rightarrow> string \<Rightarrow> ('k, 'n) task_vm \<Rightarrow> ('k, 'n) task_vm option" where
  "program_verb nw player source oid vname vm =
     (if \<not> valid (vm_db vm) oid then Some (say nw player ''That object appears to have disappeared ...'' vm)
      else do {
        h \<leftarrow> find_described_verb (vm_db vm) oid (VStr vname);
        if h = None then Some (say nw player ''That verb appears to have disappeared ...'' vm)
        else case nw_parse nw source of (prog, errors) \<Rightarrow>
          let vm = say nw player (show_int (int (length errors)) @ '' error(s).'') (fold (say nw player) errors vm)
          in case prog of
            Some p \<Rightarrow> do {
              vm \<leftarrow> with_db vm (db_set_verb_program (vm_db vm) h p);
              Some (say nw player ''Verb programmed.'' vm) }
          | None \<Rightarrow> Some (say nw player ''Verb not programmed.'' vm) })"

definition end_programming :: "'n network \<Rightarrow> nat \<Rightarrow> ('k, 'n) task_vm \<Rightarrow> ('k, 'n) task_vm option" where
  "end_programming nw q vm = do {
     tq \<leftarrow> queue_in q vm;
     (source, oid, vname) \<leftarrow> tq_program tq;
     vm \<leftarrow> program_verb nw (tq_player tq) source oid vname vm;
     in_world vm (upd_tq q (tq_program_update (\<lambda>_. None)) (vm_world vm)) }"

section \<open>Commands\<close>

definition find_verb_on :: "db \<Rightarrow> parsed_command \<Rightarrow> objid \<Rightarrow> verb_handle option" where
  "find_verb_on db pc oid =
     (if \<not> valid db oid then Some None
      else let spec = (\<lambda>ob. if ob = oid then ASPEC_THIS else if ob = NOTHING then ASPEC_NONE else ASPEC_ANY)
        in db_find_command_verb db oid (pc_verb pc) (spec (pc_dobj pc)) (pc_prep pc) (spec (pc_iobj pc)))"

fun first_verb :: "db \<Rightarrow> parsed_command \<Rightarrow> objid list \<Rightarrow> (objid \<times> verb_handle) option option" where
  "first_verb db pc [] = Some None"
| "first_verb db pc (this # rest) = do {
     h \<leftarrow> find_verb_on db pc this;
     if h \<noteq> None then Some (Some (this, h)) else first_verb db pc rest }"

text \<open>The verb of a command: on the player, the room, the objects, or \<open>huh\<close> of the room.\<close>

definition verb_of_command ::
  "parsed_command \<Rightarrow> objid \<Rightarrow> objid \<Rightarrow> ('k, 'n) task_vm \<Rightarrow> ((objid \<times> verb_handle) option \<times> ('k, 'n) task_vm) option" where
  "verb_of_command pc player location vm = do {
     found \<leftarrow> first_verb (vm_db vm) pc [player, location, pc_dobj pc, pc_iobj pc];
     case found of
       Some hit \<Rightarrow> Some (Some hit, vm)
     | None \<Rightarrow>
         if valid (vm_db vm) location then do {
           (h, db) \<leftarrow> db_find_callable_verb (vm_db vm) location ''huh'';
           Some (if h = None then None else Some (location, h), vm\<lparr>vm_db := db\<rparr>) }
         else Some (None, vm) }"

definition set_delimiter :: "string \<Rightarrow> string option" where
  "set_delimiter s = (if s = [] then None else Some s)"

definition say_delimiter ::
  "'n network \<Rightarrow> nat \<Rightarrow> ('k tqueue \<Rightarrow> string option) \<Rightarrow> ('k, 'n) task_vm \<Rightarrow> ('k, 'n) task_vm option" where
  "say_delimiter nw q delim vm = do {
     tq \<leftarrow> queue_in q vm;
     Some (case delim tq of Some line \<Rightarrow> say nw (tq_player tq) line vm | None \<Rightarrow> vm) }"

definition perform_command ::
  "('k, ('k, 'n) tasks) server \<Rightarrow> 'n network \<Rightarrow> nat \<Rightarrow> string \<Rightarrow> parsed_command \<Rightarrow> ('k, 'n) task_vm \<Rightarrow> ('k, 'n) task_vm option" where
  "perform_command sv nw q command pc vm = do {
     tq \<leftarrow> queue_in q vm;
     location \<leftarrow> (if valid (vm_db vm) (tq_player tq) then db_object_location (vm_db vm) (tq_player tq) else Some NOTHING);
     vm \<leftarrow> say_delimiter nw q tq_output_prefix vm;
     words \<leftarrow> parse_into_wordlist command;
     (ret, res, vm) \<leftarrow> run_server_task_setting_id sv nw (tq_player tq) (tq_handler tq) ''do_command'' (VList words)
       command (Some q) vm;
     handled \<leftarrow> (if ret \<noteq> OUTCOME_DONE then Some True else map_option is_true res);
     vm \<leftarrow> (if handled then Some vm
       else do {
         tq \<leftarrow> queue_in q vm;
         (found, vm) \<leftarrow> verb_of_command pc (tq_player tq) location vm;
         case found of
           Some (this, h) \<Rightarrow> map_option (\<lambda>(_, _, vm). vm) (do_input_task sv (notify_task nw) (tq_player tq) pc this h vm)
         | None \<Rightarrow> (let vm = say nw (tq_player tq) ''I couldn't understand that.'' vm in
             in_world vm (upd_tq q (tq_last_input_task_id_update (\<lambda>_. 0)) (vm_world vm))) });
     say_delimiter nw q tq_output_suffix vm }"

text \<open>\<open>Some None\<close> is the answer 0: there was no command, and nothing has happened.\<close>

definition do_command_task ::
  "('k, ('k, 'n) tasks) server \<Rightarrow> 'n network \<Rightarrow> nat \<Rightarrow> string \<Rightarrow> ('k, 'n) task_vm \<Rightarrow> ('k, 'n) task_vm option option" where
  "do_command_task sv nw q command vm = do {
     tq \<leftarrow> queue_in q vm;
     case tq_program tq of
       Some (source, oid, vname) \<Rightarrow>
         if command = ''.'' then map_option Some (end_programming nw q vm)
         else map_option Some (in_world vm (upd_tq q
           (tq_program_update (\<lambda>_. Some (source @ command @ [CHR 10], oid, vname))) (vm_world vm)))
     | None \<Rightarrow> do {
         parsed \<leftarrow> parse_command (vm_db vm) command (tq_player tq);
         case parsed of
           None \<Rightarrow> Some None
         | Some pc \<Rightarrow> map_option Some
             (if is_programmer (vm_db vm) (tq_player tq) \<and> verbcasecmp ''.pr*ogram'' (pc_verb pc) then
                (case pc_args pc of
                   [VStr verbref] \<Rightarrow> start_programming nw q verbref vm
                 | _ \<Rightarrow> Some (say nw (tq_player tq) ''Usage:  .program object:verb'' vm))
              else if pc_verb pc \<in> {''PREFIX'', ''OUTPUTPREFIX''} then
                in_world vm (upd_tq q (tq_output_prefix_update (\<lambda>_. set_delimiter (pc_argstr pc))) (vm_world vm))
              else if pc_verb pc \<in> {''SUFFIX'', ''OUTPUTSUFFIX''} then
                in_world vm (upd_tq q (tq_output_suffix_update (\<lambda>_. set_delimiter (pc_argstr pc))) (vm_world vm))
              else perform_command sv nw q command pc vm) } }"

end
