(* ===== verification/Server_Conns.thy ===== *)
theory Server_Conns
  imports Task_Run
begin

text \<open>
  The part of src/src/server.c that runs verbs: connections that are opened, send a line and are closed,
  the player a connection logs in as, and the sweep of useless connections in \<open>main_loop\<close>.
\<close>

definition conns_of :: "('k, 'n) task_vm \<Rightarrow> 'n conns" where
  "conns_of vm = tk_net (vm_world vm)"

definition on_conns :: "('n conns \<Rightarrow> 'n conns) \<Rightarrow> ('k, 'n) task_vm \<Rightarrow> ('k, 'n) task_vm" where
  "on_conns f vm = vm\<lparr>vm_world := at_net f (vm_world vm)\<rparr>"

definition handle_in :: "nat \<Rightarrow> ('k, 'n) task_vm \<Rightarrow> shandle option" where
  "handle_in p vm = shandle_at p (conns_of vm)"

definition free_shandle :: "nat \<Rightarrow> ('k, 'n) tasks \<Rightarrow> ('k, 'n) tasks option" where
  "free_shandle p ts = do {
     h \<leftarrow> shandle_at p (tk_net ts);
     free_task_queue (sh_tasks h) (at_net (drop_shandle p) ts) }"

definition call_notifier ::
  "('k, ('k, 'n) tasks) server \<Rightarrow> 'n network \<Rightarrow> objid \<Rightarrow> objid \<Rightarrow> string \<Rightarrow> ('k, 'n) task_vm \<Rightarrow> ('k, 'n) task_vm option" where
  "call_notifier sv nw player handler verb_name vm =
     map_option (\<lambda>(_, _, vm). vm) (run_server_task sv nw player handler verb_name (VList [VObj player]) [] vm)"

definition send_if ::
  "'n network \<Rightarrow> shandle \<Rightarrow> string \<Rightarrow> string \<Rightarrow> ('k, 'n) task_vm \<Rightarrow> ('k, 'n) task_vm option" where
  "send_if nw h msg_name line vm =
     (if sh_print_messages h
      then in_world vm (at_net_opt (send_message nw (vm_db vm) (sh_listener h) (sh_nhandle h) msg_name [line]) (vm_world vm))
      else Some vm)"

section \<open>Calls of the network layer\<close>

text \<open>A listening point, or \<open>None\<close> for a connection that the server opened itself.\<close>

definition server_new_connection ::
  "'n network \<Rightarrow> db \<Rightarrow> slistener option \<Rightarrow> nat \<Rightarrow> ('k, 'n) tasks \<Rightarrow> (nat \<times> ('k, 'n) tasks) option" where
  "server_new_connection nw db l nh ts = do {
     let (now, ts) = time_now nw ts;
     let player = cn_next_player (tk_net ts);
     let p = cn_fresh (tk_net ts);
     let listener = (case l of Some l \<Rightarrow> sl_oid l | None \<Rightarrow> SYSTEM_OBJECT);
     (q, ts) \<leftarrow> new_task_queue db player listener ts;
     let h = \<lparr>sh_ptr = p, sh_nhandle = nh, sh_connection_time = 0, sh_last_activity_time = now,
       sh_player = player, sh_listener = listener, sh_tasks = q, sh_disconnect_me = False,
       sh_outbound = (l = None), sh_binary = False,
       sh_print_messages = (case l of Some l \<Rightarrow> sl_print_messages l | None \<Rightarrow> False)\<rparr>;
     let ts = at_net (\<lambda>c. c\<lparr>cn_handles := h # cn_handles c, cn_fresh := p + 1, cn_next_player := player - 1\<rparr>) ts;
     ts \<leftarrow> (if l = None then Some ts
       else do { ts \<leftarrow> new_input_task nw q [] ts; task_suspend_input nw q ts });
     Some (p, ts) }"

definition server_refuse_connection :: "'n network \<Rightarrow> db \<Rightarrow> slistener \<Rightarrow> nat \<Rightarrow> 'n conns \<Rightarrow> 'n conns option" where
  "server_refuse_connection nw db l nh c =
     (if sl_print_messages l
      then send_message nw db (sl_oid l) nh ''server_full_msg''
        [''*** Sorry, but the server cannot accept any more connections right now.'', ''*** Please try again later.''] c
      else Some c)"

definition server_receive_line :: "'n network \<Rightarrow> nat \<Rightarrow> string \<Rightarrow> ('k, 'n) tasks \<Rightarrow> ('k, 'n) tasks option" where
  "server_receive_line nw p line ts = do {
     h \<leftarrow> shandle_at p (tk_net ts);
     let (now, ts) = time_now nw ts;
     new_input_task nw (sh_tasks h) line
       (at_net (upd_shandle p (sh_last_activity_time_update (\<lambda>_. now))) ts) }"

definition server_close ::
  "('k, ('k, 'n) tasks) server \<Rightarrow> 'n network \<Rightarrow> nat \<Rightarrow> ('k, 'n) task_vm \<Rightarrow> ('k, 'n) task_vm option" where
  "server_close sv nw p vm = do {
     h \<leftarrow> handle_in p vm;
     vm \<leftarrow> call_notifier sv nw (sh_player h) (sh_listener h) ''user_client_disconnected''
       (on_conns (upd_shandle p (sh_disconnect_me_update (\<lambda>_. True))) vm);
     in_world vm (free_shandle p (vm_world vm)) }"

section \<open>Logging in\<close>

text \<open>
  An older connection of the player is told, closed and freed; then the code compares its listener,
  a field of the handle that has just been freed, with that of the new one.
\<close>

definition redirect_connection ::
  "('k, ('k, 'n) tasks) server \<Rightarrow> 'n network \<Rightarrow> objid \<Rightarrow> shandle \<Rightarrow> shandle \<Rightarrow> ('k, 'n) task_vm \<Rightarrow> ('k, 'n) task_vm option" where
  "redirect_connection sv nw new_id existing new_h vm = do {
     vm \<leftarrow> send_if nw existing ''redirect_from_msg'' ''*** Redirecting connection to new port ***'' vm;
     vm \<leftarrow> send_if nw new_h ''redirect_to_msg'' ''*** Redirecting old connection to this port ***'' vm;
     let vm = on_conns (on_net (nw_close nw (sh_nhandle existing))) vm;
     vm \<leftarrow> in_world vm (free_shandle (sh_ptr existing) (vm_world vm));
     freed \<leftarrow> handle_in (sh_ptr existing) vm;
     if sh_listener freed = sh_listener new_h
     then call_notifier sv nw new_id (sh_listener new_h) ''user_reconnected'' vm
     else do {
       vm \<leftarrow> call_notifier sv nw new_id (sh_listener freed) ''user_client_disconnected'' vm;
       call_notifier sv nw new_id (sh_listener new_h) ''user_connected'' vm } }"

text \<open>The handle of the new connection gets the player and the time.\<close>

definition name_connection :: "'n network \<Rightarrow> shandle \<Rightarrow> objid \<Rightarrow> ('k, 'n) tasks \<Rightarrow> ('k, 'n) tasks" where
  "name_connection nw h new_id ts = (case time_now nw ts of (now, ts) \<Rightarrow>
     at_net (upd_shandle (sh_ptr h) (\<lambda>h. h\<lparr>sh_player := new_id, sh_connection_time := now\<rparr>)) ts)"

definition player_connected ::
  "('k, ('k, 'n) tasks) server \<Rightarrow> 'n network \<Rightarrow> objid \<Rightarrow> objid \<Rightarrow> bool \<Rightarrow> ('k, 'n) task_vm \<Rightarrow> ('k, 'n) task_vm option" where
  "player_connected sv nw old_id new_id is_newly_created vm = do {
     let existing = find_shandle new_id (conns_of vm);
     new_h \<leftarrow> find_shandle old_id (conns_of vm);
     let vm = vm\<lparr>vm_world := name_connection nw new_h new_id (vm_world vm)\<rparr>;
     case existing of
       Some h \<Rightarrow> redirect_connection sv nw new_id h new_h vm
     | None \<Rightarrow> do {
         vm \<leftarrow> (if is_newly_created then send_if nw new_h ''create_msg'' ''*** Created ***'' vm
           else send_if nw new_h ''connect_msg'' ''*** Connected ***'' vm);
         call_notifier sv nw new_id (sh_listener new_h)
           (if is_newly_created then ''user_created'' else ''user_connected'') vm } }"

section \<open>Useless connections\<close>

definition DEFAULT_CONNECT_TIMEOUT :: int where "DEFAULT_CONNECT_TIMEOUT = 300"

definition timed_out :: "db \<Rightarrow> int \<Rightarrow> shandle \<Rightarrow> bool option" where
  "timed_out db now h =
     (if sh_outbound h \<or> sh_connection_time h \<noteq> 0 then Some False
      else map_option (\<lambda>opt. let idle = sint (word_of_int now :: int32) - sh_last_activity_time h in case opt of
          Some (VInt v) \<Rightarrow> sint v > 0 \<and> idle > sint v
        | Some _ \<Rightarrow> False
        | None \<Rightarrow> idle > DEFAULT_CONNECT_TIMEOUT)
        (get_server_option db (sh_listener h) ''connect_timeout''))"

definition drop_connection ::
  "('k, ('k, 'n) tasks) server \<Rightarrow> 'n network \<Rightarrow> bool \<Rightarrow> string \<Rightarrow> string \<Rightarrow> shandle \<Rightarrow> ('k, 'n) task_vm \<Rightarrow> ('k, 'n) task_vm option" where
  "drop_connection sv nw notifies msg_name line h vm = do {
     vm \<leftarrow> (if notifies then call_notifier sv nw (sh_player h) (sh_listener h) ''user_disconnected'' vm else Some vm);
     h \<leftarrow> handle_in (sh_ptr h) vm;
     vm \<leftarrow> send_if nw h msg_name line vm;
     let vm = on_conns (on_net (nw_close nw (sh_nhandle h))) vm;
     in_world vm (free_shandle (sh_ptr h) (vm_world vm)) }"

definition check_connection ::
  "('k, ('k, 'n) tasks) server \<Rightarrow> 'n network \<Rightarrow> int \<Rightarrow> nat \<Rightarrow> ('k, 'n) task_vm \<Rightarrow> ('k, 'n) task_vm option" where
  "check_connection sv nw now p vm = do {
     h \<leftarrow> handle_in p vm;
     late \<leftarrow> timed_out (vm_db vm) now h;
     if late then drop_connection sv nw True ''timeout_msg'' ''*** Timed-out waiting for login. ***'' h vm
     else if sh_connection_time h \<noteq> 0 \<and> \<not> valid (vm_db vm) (sh_player h)
     then drop_connection sv nw False ''recycle_msg'' ''*** Recycled ***'' h vm
     else if sh_disconnect_me h then drop_connection sv nw True ''boot_msg'' ''*** Disconnected ***'' h vm
     else Some vm }"

fun check_connections ::
  "('k, ('k, 'n) tasks) server \<Rightarrow> 'n network \<Rightarrow> int \<Rightarrow> nat list \<Rightarrow> ('k, 'n) task_vm \<Rightarrow> ('k, 'n) task_vm option" where
  "check_connections sv nw now [] vm = Some vm"
| "check_connections sv nw now (p # ps) vm = do {
     vm \<leftarrow> check_connection sv nw now p vm;
     check_connections sv nw now ps vm }"

definition sweep_connections ::
  "('k, ('k, 'n) tasks) server \<Rightarrow> 'n network \<Rightarrow> ('k, 'n) task_vm \<Rightarrow> ('k, 'n) task_vm option" where
  "sweep_connections sv nw vm = (case time_now nw (vm_world vm) of (now, ts) \<Rightarrow>
     check_connections sv nw now (map sh_ptr (cn_handles (tk_net ts))) (vm\<lparr>vm_world := ts\<rparr>))"

end
