(* ===== verification/Task_Ready.thy ===== *)
theory Task_Ready
  imports Server_Conns
begin

text \<open>
  Logins and \<open>run_ready_tasks\<close> of src/src/tasks.c. The loops that empty a queue are counted by what
  the queue holds; the loop over the tasks of a queue ends because only a line of input that holds
  no command is passed over, and the loop over the queues because a queue without a task leaves the
  list of active ones.
\<close>

section \<open>Logging in\<close>

fun move_bg_tasks :: "nat \<Rightarrow> nat \<Rightarrow> nat \<Rightarrow> ('k, 'n) tasks \<Rightarrow> ('k, 'n) tasks option" where
  "move_bg_tasks q dest 0 ts = Some ts"
| "move_bg_tasks q dest (Suc n) ts = do {
     (found, ts) \<leftarrow> dequeue_bg_task q ts;
     t \<leftarrow> found;
     ts \<leftarrow> enqueue_bg_task dest t ts;
     move_bg_tasks q dest n ts }"

fun drain_queue :: "'n network \<Rightarrow> nat \<Rightarrow> nat \<Rightarrow> nat \<Rightarrow> ('k, 'n) tasks \<Rightarrow> ('k, 'n) tasks option" where
  "drain_queue nw q dest 0 ts = Some ts"
| "drain_queue nw q dest (Suc n) ts = do {
     (found, ts) \<leftarrow> dequeue_any_task nw q ts;
     t \<leftarrow> found;
     ts \<leftarrow> (case t of Input _ \<Rightarrow> Some ts | Background b \<Rightarrow> enqueue_bg_task dest b ts);
     drain_queue nw q dest n ts }"

text \<open>The tasks of the connection itself, then those of the queue the player had.\<close>

definition keep_anonymous_tasks :: "db \<Rightarrow> nat \<Rightarrow> objid \<Rightarrow> ('k, 'n) tasks \<Rightarrow> ('k, 'n) tasks option" where
  "keep_anonymous_tasks db q old_player ts = do {
     tq \<leftarrow> tk_queues ts q;
     if tq_num_bg_tasks tq = 0 then Some ts
     else do {
       (old, ts) \<leftarrow> have_tqueue db old_player ts;
       ts \<leftarrow> upd_tq old (tq_num_bg_tasks_update (\<lambda>_. tq_num_bg_tasks tq)) ts;
       ts \<leftarrow> move_bg_tasks q old (length (tq_bg tq)) ts;
       upd_tq q (tq_num_bg_tasks_update (\<lambda>_. 0)) ts } }"

definition take_over_queue :: "'n network \<Rightarrow> nat \<Rightarrow> nat option \<Rightarrow> ('k, 'n) tasks \<Rightarrow> ('k, 'n) tasks option" where
  "take_over_queue nw q dead ts = (case dead of
     None \<Rightarrow> Some ts
   | Some d \<Rightarrow> do {
       tq \<leftarrow> tk_queues ts d;
       ts \<leftarrow> upd_tq q (tq_num_bg_tasks_update (\<lambda>_. tq_num_bg_tasks tq)) ts;
       ts \<leftarrow> drain_queue nw d q (length (tq_input tq) + length (tq_bg tq)) ts;
       upd_tq d (\<lambda>tq. tq\<lparr>tq_player := NOTHING, tq_num_bg_tasks := 0\<rparr>) ts })"

definition hand_over :: "'n network \<Rightarrow> db \<Rightarrow> nat \<Rightarrow> objid \<Rightarrow> ('k, 'n) tasks \<Rightarrow> ('k, 'n) tasks option" where
  "hand_over nw db q new_player ts = do {
     tq \<leftarrow> tk_queues ts q;
     dead \<leftarrow> find_tqueue new_player ts;
     ts \<leftarrow> upd_tq q (tq_player_update (\<lambda>_. new_player)) ts;
     ts \<leftarrow> keep_anonymous_tasks db q (tq_player tq) ts;
     take_over_queue nw q dead ts }"

definition log_in ::
  "('k, ('k, 'n) tasks) server \<Rightarrow> 'n network \<Rightarrow> nat \<Rightarrow> objid \<Rightarrow> objid \<Rightarrow> ('k, 'n) task_vm \<Rightarrow> ('k, 'n) task_vm option" where
  "log_in sv nw q new_player old_max_object vm = do {
     tq \<leftarrow> queue_in q vm;
     vm \<leftarrow> in_world vm (hand_over nw (vm_db vm) q new_player (vm_world vm));
     player_connected sv nw (tq_player tq) new_player (new_player > old_max_object) vm }"

definition do_login_task ::
  "('k, ('k, 'n) tasks) server \<Rightarrow> 'n network \<Rightarrow> nat \<Rightarrow> string \<Rightarrow> ('k, 'n) task_vm \<Rightarrow> ('k, 'n) task_vm option" where
  "do_login_task sv nw q command vm = do {
     tq \<leftarrow> queue_in q vm;
     let old_max_object = db_last_used_objid (vm_db vm);
     words \<leftarrow> parse_into_wordlist command;
     (_, res, vm) \<leftarrow> run_server_task_setting_id sv nw (tq_player tq) (tq_handler tq) ''do_login_command'' (VList words)
       command (Some q) vm;
     tq \<leftarrow> queue_in q vm;
     case res of
       Some (VObj new_player) \<Rightarrow>
         if tq_connected tq \<and> is_user (vm_db vm) new_player then log_in sv nw q new_player old_max_object vm
         else Some vm
     | _ \<Rightarrow> Some vm }"

definition OUT_OF_BAND_PREFIX :: string where "OUT_OF_BAND_PREFIX = ''#$#''"

definition do_out_of_band_command ::
  "('k, ('k, 'n) tasks) server \<Rightarrow> 'n network \<Rightarrow> nat \<Rightarrow> string \<Rightarrow> ('k, 'n) task_vm \<Rightarrow> ('k, 'n) task_vm option" where
  "do_out_of_band_command sv nw q command vm = do {
     tq \<leftarrow> queue_in q vm;
     words \<leftarrow> parse_into_wordlist command;
     (_, _, vm) \<leftarrow> run_server_task sv nw (tq_player tq) (tq_handler tq) ''do_out_of_band_command'' (VList words) command vm;
     Some vm }"

section \<open>Running one task\<close>

definition resume_saved ::
  "('k, ('k, 'n) tasks) server \<Rightarrow> 'n network \<Rightarrow> 'k saved_vm \<Rightarrow> var \<Rightarrow> task_kind \<Rightarrow> ('k, 'n) task_vm \<Rightarrow> ('k, 'n) task_vm option" where
  "resume_saved sv nw m v kind vm = map_option (\<lambda>(_, _, vm). vm)
     (resume_from_previous_vm sv (notify_task nw) (sm_activs m) (sm_max_stack_size m) (sm_root_vector m) v kind
       (now_running (sm_task_id m) vm))"

definition stop_reading :: "nat \<Rightarrow> ('k, 'n) task_vm \<Rightarrow> ('k, 'n) task_vm option" where
  "stop_reading q vm = in_world vm (upd_tq q (tq_reading_update (\<lambda>_. None)) (vm_world vm))"

definition run_input ::
  "('k, ('k, 'n) tasks) server \<Rightarrow> 'n network \<Rightarrow> nat \<Rightarrow> string \<Rightarrow> ('k, 'n) task_vm \<Rightarrow> ('k, 'n) task_vm option option" where
  "run_input sv nw q s vm = do {
     tq \<leftarrow> queue_in q vm;
     if take (length OUT_OF_BAND_PREFIX) s = OUT_OF_BAND_PREFIX then map_option Some (do_out_of_band_command sv nw q s vm)
     else case tq_reading tq of
       Some m \<Rightarrow> do {
         vm \<leftarrow> stop_reading q vm;
         map_option Some (resume_saved sv nw m (VStr s) TASK_INPUT vm) }
     | None \<Rightarrow> if tq_player tq \<ge> 0 then do_command_task sv nw q s vm
               else map_option Some (do_login_task sv nw q s vm) }"

fun run_background ::
  "('k, ('k, 'n) tasks) server \<Rightarrow> 'n network \<Rightarrow> 'k bg_task \<Rightarrow> ('k, 'n) task_vm \<Rightarrow> ('k, 'n) task_vm option" where
  "run_background sv nw (Forked f) vm = map_option (\<lambda>(_, _, vm). vm)
     (do_forked_task sv (notify_task nw) (ft_program f) (ft_rt_env f) (ft_activ f) (ft_f_index f) (now_running (ft_id f) vm))"
| "run_background sv nw (Suspended s) vm = resume_saved sv nw (st_vm s) (st_value s) TASK_SUSPENDED vm"

fun run_task ::
  "('k, ('k, 'n) tasks) server \<Rightarrow> 'n network \<Rightarrow> nat \<Rightarrow> 'k task \<Rightarrow> ('k, 'n) task_vm \<Rightarrow> ('k, 'n) task_vm option option" where
  "run_task sv nw q (Input s) vm = run_input sv nw q s vm"
| "run_task sv nw q (Background b) vm = map_option Some (run_background sv nw b vm)"

section \<open>Running a queue\<close>

text \<open>A queue that holds its input back runs only background tasks, unless a task reads from it.\<close>

definition next_task :: "'n network \<Rightarrow> nat \<Rightarrow> ('k, 'n) tasks \<Rightarrow> ('k task option \<times> ('k, 'n) tasks) option" where
  "next_task nw q ts = do {
     tq \<leftarrow> tk_queues ts q;
     if tq_hold_input tq \<and> tq_reading tq = None then do {
       (t, ts) \<leftarrow> dequeue_bg_task q ts;
       Some (map_option Background t, ts) }
     else dequeue_any_task nw q ts }"

definition lines_of :: "nat \<Rightarrow> ('k, 'n) tasks \<Rightarrow> nat" where
  "lines_of q ts = (case tk_queues ts q of Some tq \<Rightarrow> length (tq_input tq) | None \<Rightarrow> 0)"

lemma upd_tq_Some [simp]:
  "upd_tq q f ts = Some ts' \<longleftrightarrow>
     (\<exists>t. tk_queues ts q = Some t \<and> ts' = ts\<lparr>tk_queues := (tk_queues ts)(q \<mapsto> f t)\<rparr>)"
  by (auto simp: upd_tq_def bind_eq_Some_conv)

lemma at_net_opt_Some [simp]:
  "at_net_opt f ts = Some ts' \<longleftrightarrow> (\<exists>c. f (tk_net ts) = Some c \<and> ts' = ts\<lparr>tk_net := c\<rparr>)"
  by (auto simp: at_net_opt_def)

lemma dequeue_bg_task_others:
  "dequeue_bg_task q ts = Some (t, ts') \<Longrightarrow> tk_active ts' = tk_active ts"
  by (cases "tk_queues ts q"; cases "tq_bg (the (tk_queues ts q))")
    (auto simp: dequeue_bg_task_def bind_eq_Some_conv)

lemma dequeue_input_task_cases:
  assumes "dequeue_input_task nw q ts = Some (line, ts')"
  shows "line = None \<and> ts' = ts \<and> lines_of q ts = 0 \<or>
    (\<exists>tq tq' c inp s. line = Some s \<and> tk_queues ts q = Some tq \<and> tq_input tq = s # inp \<and> tq_input tq' = inp \<and>
      ts' = ts\<lparr>tk_net := c, tk_queues := (tk_queues ts)(q \<mapsto> tq')\<rparr>)"
proof -
  obtain tq where tq: "tk_queues ts q = Some tq" using assms by (auto simp: dequeue_input_task_def bind_eq_Some_conv)
  show ?thesis
  proof (cases "tq_input tq")
    case Nil
    then show ?thesis using assms tq by (auto simp: dequeue_input_task_def lines_of_def)
  next
    case (Cons s inp)
    define tq1 where "tq1 = tq\<lparr>tq_input := inp, tq_total_input_length := tq_total_input_length tq - int (length s)\<rparr>"
    have "line = Some s \<and> (\<exists>tq' c. tq_input tq' = inp \<and> ts' = ts\<lparr>tk_net := c, tk_queues := (tk_queues ts)(q \<mapsto> tq')\<rparr>)"
    proof (cases "tq_input_suspended tq \<and> tq_connected tq \<and> tq_total_input_length tq1 < INPUT_LOWAT")
      case True
      with assms tq Cons obtain c where "line = Some s"
        "ts' = ts\<lparr>tk_net := c, tk_queues := (tk_queues ts)(q \<mapsto> tq1\<lparr>tq_input_suspended := False\<rparr>)\<rparr>"
        by (auto simp: dequeue_input_task_def bind_eq_Some_conv Let_def tq1_def)
      then show ?thesis by (intro conjI exI[of _ "tq1\<lparr>tq_input_suspended := False\<rparr>"] exI[of _ c]) (simp_all add: tq1_def)
    next
      case False
      with assms tq Cons have "line = Some s" "ts' = ts\<lparr>tk_queues := (tk_queues ts)(q \<mapsto> tq1)\<rparr>"
        by (auto simp: dequeue_input_task_def bind_eq_Some_conv Let_def tq1_def)
      then show ?thesis by (intro conjI exI[of _ tq1] exI[of _ "tk_net ts"]) (simp_all add: tq1_def)
    qed
    then show ?thesis using tq Cons by blast
  qed
qed

lemma dequeue_input_task_others:
  assumes "dequeue_input_task nw q ts = Some (line, ts')"
  shows "tk_active ts' = tk_active ts" "line \<noteq> None \<Longrightarrow> lines_of q ts' < lines_of q ts"
  using dequeue_input_task_cases[OF assms] by (auto simp: lines_of_def)

lemma next_task_others:
  assumes "next_task nw q ts = Some (t, ts')"
  shows "tk_active ts' = tk_active ts" "t = Some (Input s) \<Longrightarrow> lines_of q ts' < lines_of q ts"
proof -
  obtain tq where tq: "tk_queues ts q = Some tq" using assms by (auto simp: next_task_def bind_eq_Some_conv)
  have taken: "(\<exists>b. dequeue_bg_task q ts = Some (b, ts') \<and> t = map_option Background b) \<or>
    (\<exists>l. dequeue_input_task nw q ts = Some (Some l, ts')) \<or>
    (\<exists>ts1 b. dequeue_input_task nw q ts = Some (None, ts1) \<and> dequeue_bg_task q ts1 = Some (b, ts') \<and>
      t = map_option Background b)"
  proof (cases "tq_hold_input tq \<and> tq_reading tq = None")
    case True
    with assms tq show ?thesis by (auto simp: next_task_def bind_eq_Some_conv)
  next
    case False
    with assms tq have "dequeue_any_task nw q ts = Some (t, ts')" by (auto simp: next_task_def)
    then obtain l ts1 where l: "dequeue_input_task nw q ts = Some (l, ts1)"
      by (auto simp: dequeue_any_task_def bind_eq_Some_conv)
    with \<open>dequeue_any_task nw q ts = _\<close> show ?thesis
      by (cases l) (auto simp: dequeue_any_task_def bind_eq_Some_conv)
  qed
  then show "tk_active ts' = tk_active ts" by (metis dequeue_bg_task_others dequeue_input_task_others(1))
  assume "t = Some (Input s)"
  then have "t \<noteq> map_option Background b" for b by (cases b) auto
  with taken show "lines_of q ts' < lines_of q ts" by (auto dest: dequeue_input_task_others)
qed

lemma run_task_again: "run_task sv nw q t vm = Some None \<Longrightarrow> \<exists>s. t = Input s"
  by (cases t) auto

function run_queue ::
  "('k, ('k, 'n) tasks) server \<Rightarrow> 'n network \<Rightarrow> nat \<Rightarrow> ('k, 'n) task_vm \<Rightarrow> (bool \<times> ('k, 'n) task_vm) option" where
  "run_queue sv nw q vm = (case next_task nw q (vm_world vm) of
     None \<Rightarrow> None
   | Some (None, ts) \<Rightarrow> Some (False, vm\<lparr>vm_world := ts\<rparr>)
   | Some (Some t, ts) \<Rightarrow> (case run_task sv nw q t (vm\<lparr>vm_world := ts\<rparr>) of
       None \<Rightarrow> None
     | Some (Some vm') \<Rightarrow> Some (True, vm')
     | Some None \<Rightarrow> run_queue sv nw q (vm\<lparr>vm_world := ts\<rparr>)))"
  by pat_completeness auto

termination
proof (relation "measure (\<lambda>(sv, nw, q, vm). lines_of q (vm_world vm))", goal_cases)
  case 2
  then show ?case by (auto dest!: run_task_again next_task_others(2))
qed simp

declare run_queue.simps [simp del]

lemma run_queue_active:
  "run_queue sv nw q vm = Some (False, vm') \<Longrightarrow> tk_active (vm_world vm') = tk_active (vm_world vm)"
proof (induction sv nw q vm rule: run_queue.induct)
  case (1 sv nw q vm)
  from "1.prems" obtain t ts where n: "next_task nw q (vm_world vm) = Some (t, ts)"
    by (subst (asm) run_queue.simps) (auto split: option.splits)
  show ?case
  proof (cases t)
    case None
    then show ?thesis using "1.prems" n
      by (subst (asm) run_queue.simps) (auto dest: next_task_others(1))
  next
    case (Some t')
    with "1.prems" n have r: "run_task sv nw q t' (vm\<lparr>vm_world := ts\<rparr>) = Some None"
      "run_queue sv nw q (vm\<lparr>vm_world := ts\<rparr>) = Some (False, vm')"
      by (subst (asm) run_queue.simps; simp split: option.splits)+
    from "1.IH"[OF n refl Some r(1) refl r(2)] show ?thesis using next_task_others(1)[OF n] by simp
  qed
qed

text \<open>A task that reads from a queue that will have no more input is resumed with an error.\<close>

definition run_head ::
  "('k, ('k, 'n) tasks) server \<Rightarrow> 'n network \<Rightarrow> nat \<Rightarrow> ('k, 'n) task_vm \<Rightarrow> (bool \<times> ('k, 'n) task_vm) option" where
  "run_head sv nw q vm = do {
     tq \<leftarrow> queue_in q vm;
     case (if is_out_of_input tq then tq_reading tq else None) of
       Some m \<Rightarrow> do {
         vm \<leftarrow> stop_reading q vm;
         vm \<leftarrow> resume_saved sv nw m (VErr E_INVARG) TASK_INPUT vm;
         Some (True, vm) }
     | None \<Rightarrow> run_queue sv nw q vm }"

section \<open>The scheduler\<close>

text \<open>The tasks whose time has come go to the queues of their programmers.\<close>

fun wake_tasks :: "db \<Rightarrow> int \<Rightarrow> 'k bg_task list \<Rightarrow> ('k, 'n) tasks \<Rightarrow> ('k, 'n) tasks option" where
  "wake_tasks db now [] ts = Some (ts\<lparr>tk_waiting := []\<rparr>)"
| "wake_tasks db now (t # ws) ts =
     (if get_start_time t \<le> now then do {
        progr \<leftarrow> bg_progr t;
        (q, ts) \<leftarrow> have_tqueue db progr ts;
        ts \<leftarrow> ensure_usage q ts;
        ts \<leftarrow> enqueue_bg_task q t ts;
        wake_tasks db now ws ts }
      else Some (ts\<lparr>tk_waiting := t # ws\<rparr>))"

definition behind :: "nat \<Rightarrow> nat list \<Rightarrow> nat list" where
  "behind q qs = tl (dropWhile (\<lambda>a. a \<noteq> q) qs)"

definition unlink_head :: "nat \<Rightarrow> ('k, 'n) tasks \<Rightarrow> ('k, 'n) tasks" where
  "unlink_head q ts = ts\<lparr>tk_active := behind q (tk_active ts)\<rparr>"

definition charge_queue :: "'n network \<Rightarrow> int \<Rightarrow> nat \<Rightarrow> ('k, 'n) tasks \<Rightarrow> ('k, 'n) tasks option" where
  "charge_queue nw start q ts = do {
     let (end_time, ts) = time_now nw ts;
     ts \<leftarrow> upd_tq q (tq_usage_update (\<lambda>u. word_of_int (sint u + (end_time - start)))) ts;
     activate_tqueue q ts }"

lemma behind_head [simp]: "behind q (q # qs) = qs"
  by (simp add: behind_def)

lemma deactivate_tqueue_active [simp]: "deactivate_tqueue q ts = Some ts' \<Longrightarrow> tk_active ts' = tk_active ts"
  by (auto simp: deactivate_tqueue_def bind_eq_Some_conv)

lemma run_head_active: "run_head sv nw q vm = Some (False, vm') \<Longrightarrow> tk_active (vm_world vm') = tk_active (vm_world vm)"
  by (auto simp: run_head_def bind_eq_Some_conv split: option.splits if_splits dest: run_queue_active)

function run_active ::
  "('k, ('k, 'n) tasks) server \<Rightarrow> 'n network \<Rightarrow> int \<Rightarrow> ('k, 'n) task_vm \<Rightarrow> ('k, 'n) task_vm option" where
  "run_active sv nw start vm = (case tk_active (vm_world vm) of
     [] \<Rightarrow> Some vm
   | q # _ \<Rightarrow> (case run_head sv nw q vm of
       None \<Rightarrow> None
     | Some (True, vm') \<Rightarrow> in_world vm' (charge_queue nw start q (unlink_head q (vm_world vm')))
     | Some (False, vm') \<Rightarrow> (case deactivate_tqueue q (unlink_head q (vm_world vm')) of
         None \<Rightarrow> None
       | Some ts \<Rightarrow> run_active sv nw start (vm'\<lparr>vm_world := ts\<rparr>))))"
  by pat_completeness auto

termination
proof (relation "measure (\<lambda>(sv, nw, start, vm). length (tk_active (vm_world vm)))", goal_cases)
  case (2 sv nw start vm q qs a b vm' ts)
  then show ?case using run_head_active[of sv nw q vm vm'] by (simp add: unlink_head_def)
qed simp

declare run_active.simps [simp del]

text \<open>Queues that are not connected and hold nothing are destroyed.\<close>

fun free_empty_queues :: "nat list \<Rightarrow> ('k, 'n) tasks \<Rightarrow> ('k, 'n) tasks option" where
  "free_empty_queues [] ts = Some ts"
| "free_empty_queues (q # qs) ts = do {
     tq \<leftarrow> tk_queues ts q;
     ts \<leftarrow> (if \<not> tq_connected tq \<and> tq_input tq = [] \<and> tq_num_bg_tasks tq = 0 then free_tqueue q ts else Some ts);
     free_empty_queues qs ts }"

definition run_ready_tasks ::
  "('k, ('k, 'n) tasks) server \<Rightarrow> 'n network \<Rightarrow> ('k, 'n) task_vm \<Rightarrow> ('k, 'n) task_vm option" where
  "run_ready_tasks sv nw vm = do {
     let (now, ts) = time_now nw (vm_world vm);
     ts \<leftarrow> wake_tasks (vm_db vm) now (tk_waiting ts) ts;
     let (start, ts) = time_now nw ts;
     vm \<leftarrow> run_active sv nw start (vm\<lparr>vm_world := ts\<rparr>);
     in_world vm (free_empty_queues (tk_idle (vm_world vm)) (vm_world vm)) }"

end
