(* ===== verification/Task_Bf.thy ===== *)
theory Task_Bf
  imports Task_Ready
begin

text \<open>
  The built-in functions of src/src/tasks.c. No queue outside tasks.c is ever registered, so the
  external queues are empty.
\<close>

type_synonym ('k, 'n) task_bf = "('k, ('k, 'n) tasks) bf"

section \<open>Queues and the running task\<close>

fun players_of :: "(nat \<Rightarrow> 'k tqueue option) \<Rightarrow> nat list \<Rightarrow> objid list option" where
  "players_of heap [] = Some []"
| "players_of heap (q # qs) = do {
     tq \<leftarrow> heap q;
     ps \<leftarrow> players_of heap qs;
     Some (tq_player tq # ps) }"

text \<open>The list is filled from its end.\<close>

definition bf_queue_info :: "('k, 'n) task_bf" where
  "bf_queue_info arglist next_pc vdata progr vm = (let ts = vm_world vm in case arglist of
     VList [] \<Rightarrow> do {
       ps \<leftarrow> players_of (tk_queues ts) (tk_active ts @ tk_idle ts);
       finishes vm (make_var_pack (VList (rev (map VObj ps)))) }
   | VList [VObj who] \<Rightarrow> do {
       found \<leftarrow> find_tqueue who ts;
       n \<leftarrow> (case found of Some q \<Rightarrow> map_option tq_num_bg_tasks (tk_queues ts q) | None \<Rightarrow> Some 0);
       finishes vm (make_var_pack (VInt (word_of_int n))) }
   | _ \<Rightarrow> None)"

definition bf_task_id :: "('k, 'n) task_bf" where
  "bf_task_id arglist next_pc vdata progr vm = finishes vm (make_var_pack (VInt (tk_current (vm_world vm))))"

section \<open>Descriptions of tasks\<close>

definition sizeof_activation :: nat where "sizeof_activation = 112"
definition sizeof_forked_task :: nat where "sizeof_forked_task = 152"
definition sizeof_vmstruct :: nat where "sizeof_vmstruct = 32"

definition activation_bytes :: "'k activation \<Rightarrow> nat" where
  "activation_bytes a = sizeof_activation + program_bytes (av_prog a) + sum_list (map value_bytes (av_rt_env a)) +
     sum_list (map value_bytes (av_rt_stack a)) + (value_bytes (av_temp a) - sizeof_Var) +
     (length (av_verb a) + 1) + (length (av_verbname a) + 1)"

definition forked_task_bytes :: "'k forked_task \<Rightarrow> nat" where
  "forked_task_bytes f = sizeof_forked_task + (activation_bytes (ft_activ f) - sizeof_activation)"

definition suspended_task_bytes :: "'k saved_vm \<Rightarrow> nat" where
  "suspended_task_bytes m = sizeof_vmstruct + sum_list (map activation_bytes (sm_activs m))"

definition suspended_lineno_of_vm :: "('k, 'w) server \<Rightarrow> 'k saved_vm \<Rightarrow> int option" where
  "suspended_lineno_of_vm sv m = do {
     top \<leftarrow> top_activ m;
     Some (sv_line sv (av_prog top) (if length (sm_activs m) = 1 then sm_root_vector m else MAIN_VECTOR) (av_error_pc top)) }"

definition list_for_forked_task :: "('k, 'w) server \<Rightarrow> 'k forked_task \<Rightarrow> var" where
  "list_for_forked_task sv f = (let a = ft_activ f in
     VList [VInt (ft_id f), VInt (word_of_int (ft_start_time f)), VInt 0, VInt (word_of_int DEFAULT_BG_TICKS),
       VObj (av_progr a), VObj (av_vloc a), VStr (av_verbname a),
       VInt (word_of_int (sv_line sv (ft_program f) (ft_f_index f) 0)), VObj (av_this a),
       VInt (word_of_nat (forked_task_bytes f))])"

text \<open>\<open>list_for_vm\<close>, with the second and the fifth element, which its callers store.\<close>

definition list_for_vm :: "('k, 'w) server \<Rightarrow> int \<Rightarrow> objid \<Rightarrow> 'k saved_vm \<Rightarrow> var option" where
  "list_for_vm sv start who m = do {
     top \<leftarrow> top_activ m;
     line \<leftarrow> suspended_lineno_of_vm sv m;
     Some (VList [VInt (sm_task_id m), VInt (word_of_int start), VInt 0, VInt (word_of_int DEFAULT_BG_TICKS),
       VObj who, VObj (av_vloc top), VStr (av_verbname top), VInt (word_of_int line), VObj (av_this top),
       VInt (word_of_nat (suspended_task_bytes m))]) }"

definition list_for_suspended_task :: "('k, 'w) server \<Rightarrow> 'k suspended_task \<Rightarrow> var option" where
  "list_for_suspended_task sv s = do {
     progr \<leftarrow> progr_of_cur_verb (st_vm s);
     list_for_vm sv (st_start_time s) progr (st_vm s) }"

definition list_for_reading_task :: "('k, 'w) server \<Rightarrow> objid \<Rightarrow> 'k saved_vm \<Rightarrow> var option" where
  "list_for_reading_task sv player m = list_for_vm sv (-1) player m"

text \<open>The tasks of one programmer, or all of them.\<close>

fun list_for_bg :: "('k, 'w) server \<Rightarrow> 'k bg_task \<Rightarrow> var option" where
  "list_for_bg sv (Forked f) = Some (list_for_forked_task sv f)"
| "list_for_bg sv (Suspended s) = list_for_suspended_task sv s"

fun list_bg_tasks :: "('k, 'w) server \<Rightarrow> bool \<Rightarrow> objid \<Rightarrow> 'k bg_task list \<Rightarrow> var list option" where
  "list_bg_tasks sv show_all progr [] = Some []"
| "list_bg_tasks sv show_all progr (t # rest) = do {
     owner \<leftarrow> bg_progr t;
     vs \<leftarrow> (if show_all \<or> owner = progr then map_option (\<lambda>v. [v]) (list_for_bg sv t) else Some []);
     more \<leftarrow> list_bg_tasks sv show_all progr rest;
     Some (vs @ more) }"

definition list_reading :: "('k, 'w) server \<Rightarrow> bool \<Rightarrow> objid \<Rightarrow> 'k tqueue \<Rightarrow> var list option" where
  "list_reading sv show_all progr tq = (case tq_reading tq of
     Some m \<Rightarrow> if show_all \<or> tq_player tq = progr
       then map_option (\<lambda>v. [v]) (list_for_reading_task sv (tq_player tq) m) else Some []
   | None \<Rightarrow> Some [])"

fun list_queues ::
  "('k, 'w) server \<Rightarrow> (nat \<Rightarrow> 'k tqueue option) \<Rightarrow> bool \<Rightarrow> bool \<Rightarrow> objid \<Rightarrow> nat list \<Rightarrow> var list option" where
  "list_queues sv heap active show_all progr [] = Some []"
| "list_queues sv heap active show_all progr (q # qs) = do {
     tq \<leftarrow> heap q;
     r \<leftarrow> list_reading sv show_all progr tq;
     b \<leftarrow> (if active then list_bg_tasks sv show_all progr (tq_bg tq) else Some []);
     more \<leftarrow> list_queues sv heap active show_all progr qs;
     Some (r @ b @ more) }"

definition bf_queued_tasks :: "('k, ('k, 'n) tasks) server \<Rightarrow> ('k, 'n) task_bf" where
  "bf_queued_tasks sv arglist next_pc vdata progr vm = (let ts = vm_world vm; show_all = is_wizard (vm_db vm) progr in do {
     idle \<leftarrow> list_queues sv (tk_queues ts) False show_all progr (tk_idle ts);
     active \<leftarrow> list_queues sv (tk_queues ts) True show_all progr (tk_active ts);
     waiting \<leftarrow> list_bg_tasks sv show_all progr (tk_waiting ts);
     finishes vm (make_var_pack (VList (idle @ active @ waiting))) })"

section \<open>Killing\<close>

definition find_first :: "('a \<Rightarrow> bool) \<Rightarrow> 'a list \<Rightarrow> 'a option" where
  "find_first P xs = (case dropWhile (\<lambda>x. \<not> P x) xs of [] \<Rightarrow> None | x # _ \<Rightarrow> Some x)"

definition without_first :: "('a \<Rightarrow> bool) \<Rightarrow> 'a list \<Rightarrow> 'a list" where
  "without_first P xs = takeWhile (\<lambda>x. \<not> P x) xs @ tl (dropWhile (\<lambda>x. \<not> P x) xs)"

definition reads_in :: "int32 \<Rightarrow> 'k tqueue \<Rightarrow> bool" where
  "reads_in tid tq \<longleftrightarrow> (case tq_reading tq of Some m \<Rightarrow> sm_task_id m = tid | None \<Rightarrow> False)"

definition may_touch :: "db \<Rightarrow> objid \<Rightarrow> objid \<Rightarrow> bool" where
  "may_touch db who owner \<longleftrightarrow> is_wizard db who \<or> who = owner"

text \<open>A task that waits is charged to the queue of its programmer.\<close>

definition uncharge :: "objid \<Rightarrow> ('k, 'n) tasks \<Rightarrow> ('k, 'n) tasks option" where
  "uncharge progr ts = do {
     found \<leftarrow> find_tqueue progr ts;
     case found of
       Some q \<Rightarrow> upd_tq q (\<lambda>tq. tq\<lparr>tq_num_bg_tasks := tq_num_bg_tasks tq - 1\<rparr>) ts
     | None \<Rightarrow> Some ts }"

definition kill_waiting :: "db \<Rightarrow> objid \<Rightarrow> int32 \<Rightarrow> 'k bg_task \<Rightarrow> ('k, 'n) tasks \<Rightarrow> (error \<times> ('k, 'n) tasks) option" where
  "kill_waiting db owner tid t ts = do {
     progr \<leftarrow> bg_progr t;
     if \<not> may_touch db owner progr then Some (E_PERM, ts)
     else do {
       ts \<leftarrow> uncharge progr ts;
       Some (E_NONE, ts\<lparr>tk_waiting := without_first (\<lambda>t. bg_id t = tid) (tk_waiting ts)\<rparr>) } }"

text \<open>On an active queue the ready tasks are searched too. \<open>Some None\<close> goes on to the next queue.\<close>

definition kill_on_queue ::
  "bool \<Rightarrow> db \<Rightarrow> objid \<Rightarrow> int32 \<Rightarrow> nat \<Rightarrow> ('k, 'n) tasks \<Rightarrow> (error \<times> ('k, 'n) tasks) option option" where
  "kill_on_queue active db owner tid q ts = do {
     tq \<leftarrow> tk_queues ts q;
     if reads_in tid tq then
       (if \<not> may_touch db owner (tq_player tq) then Some (Some (E_PERM, ts))
        else map_option (\<lambda>ts. Some (E_NONE, ts)) (upd_tq q (tq_reading_update (\<lambda>_. None)) ts))
     else if active \<and> (\<exists>t \<in> set (tq_bg tq). bg_id t = tid) then
       (if \<not> may_touch db owner (tq_player tq) then Some (Some (E_PERM, ts))
        else map_option (\<lambda>ts. Some (E_NONE, ts)) (upd_tq q (\<lambda>tq. tq\<lparr>
          tq_bg := without_first (\<lambda>t. bg_id t = tid) (tq_bg tq), tq_num_bg_tasks := tq_num_bg_tasks tq - 1\<rparr>) ts))
     else Some None }"

fun kill_on_queues ::
  "bool \<Rightarrow> db \<Rightarrow> objid \<Rightarrow> int32 \<Rightarrow> nat list \<Rightarrow> ('k, 'n) tasks \<Rightarrow> (error \<times> ('k, 'n) tasks) option option" where
  "kill_on_queues active db owner tid [] ts = Some None"
| "kill_on_queues active db owner tid (q # qs) ts = do {
     r \<leftarrow> kill_on_queue active db owner tid q ts;
     case r of Some res \<Rightarrow> Some (Some res) | None \<Rightarrow> kill_on_queues active db owner tid qs ts }"

definition kill_task :: "db \<Rightarrow> int32 \<Rightarrow> objid \<Rightarrow> ('k, 'n) tasks \<Rightarrow> (error \<times> ('k, 'n) tasks) option" where
  "kill_task db tid owner ts =
     (if tid = tk_current ts then Some (E_NONE, ts)
      else case find_first (\<lambda>t. bg_id t = tid) (tk_waiting ts) of
        Some t \<Rightarrow> kill_waiting db owner tid t ts
      | None \<Rightarrow> do {
          idle \<leftarrow> kill_on_queues False db owner tid (tk_idle ts) ts;
          case idle of
            Some res \<Rightarrow> Some res
          | None \<Rightarrow> do {
              active \<leftarrow> kill_on_queues True db owner tid (tk_active ts) ts;
              case active of Some res \<Rightarrow> Some res | None \<Rightarrow> Some (E_INVARG, ts) } })"

definition bf_kill_task :: "('k, 'n) task_bf" where
  "bf_kill_task arglist next_pc vdata progr vm = (case arglist of
     VList [VInt tid] \<Rightarrow> do {
       (e, ts) \<leftarrow> kill_task (vm_db vm) tid progr (vm_world vm);
       finishes (vm\<lparr>vm_world := ts\<rparr>)
         (if e \<noteq> E_NONE then make_error_pack e
          else if tid = tk_current ts then make_kill_pack else no_var_pack) }
   | _ \<Rightarrow> None)"

section \<open>Resuming\<close>

fun resumes :: "int32 \<Rightarrow> 'k bg_task \<Rightarrow> bool" where
  "resumes tid (Forked f) = False"
| "resumes tid (Suspended s) = (sm_task_id (st_vm s) = tid)"

fun with_value :: "var \<Rightarrow> 'k bg_task \<Rightarrow> 'k bg_task" where
  "with_value v (Forked f) = Forked f"
| "with_value v (Suspended s) = Suspended (s\<lparr>st_value := v\<rparr>)"

fun with_start :: "int \<Rightarrow> 'k bg_task \<Rightarrow> 'k bg_task" where
  "with_start now (Forked f) = Forked (f\<lparr>ft_start_time := now\<rparr>)"
| "with_start now (Suspended s) = Suspended (s\<lparr>st_start_time := now\<rparr>)"

fun change_first :: "('a \<Rightarrow> bool) \<Rightarrow> ('a \<Rightarrow> 'a) \<Rightarrow> 'a list \<Rightarrow> 'a list" where
  "change_first P f [] = []"
| "change_first P f (x # xs) = (if P x then f x # xs else x # change_first P f xs)"

definition resume_waiting ::
  "'n network \<Rightarrow> db \<Rightarrow> int32 \<Rightarrow> var \<Rightarrow> objid \<Rightarrow> 'k bg_task \<Rightarrow> ('k, 'n) tasks \<Rightarrow> (error \<times> ('k, 'n) tasks) option" where
  "resume_waiting nw db tid v progr t ts = do {
     owner \<leftarrow> bg_progr t;
     if \<not> may_touch db progr owner then Some (E_PERM, ts)
     else do {
       let (now, ts) = time_now nw ts;
       (q, ts) \<leftarrow> have_tqueue db owner ts;
       ts \<leftarrow> ensure_usage q (ts\<lparr>tk_waiting := without_first (resumes tid) (tk_waiting ts)\<rparr>);
       ts \<leftarrow> enqueue_bg_task q (with_value v (with_start now t)) ts;
       Some (E_NONE, ts) } }"

text \<open>A task that was resumed already gets the new value.\<close>

fun resume_active ::
  "db \<Rightarrow> int32 \<Rightarrow> var \<Rightarrow> objid \<Rightarrow> nat list \<Rightarrow> ('k, 'n) tasks \<Rightarrow> (error \<times> ('k, 'n) tasks) option" where
  "resume_active db tid v progr [] ts = Some (E_INVARG, ts)"
| "resume_active db tid v progr (q # qs) ts = do {
     tq \<leftarrow> tk_queues ts q;
     if \<exists>t \<in> set (tq_bg tq). resumes tid t then
       (if \<not> may_touch db progr (tq_player tq) then Some (E_PERM, ts)
        else map_option (Pair E_NONE) (upd_tq q (tq_bg_update (change_first (resumes tid) (with_value v))) ts))
     else resume_active db tid v progr qs ts }"

definition do_resume ::
  "'n network \<Rightarrow> db \<Rightarrow> int32 \<Rightarrow> var \<Rightarrow> objid \<Rightarrow> ('k, 'n) tasks \<Rightarrow> (error \<times> ('k, 'n) tasks) option" where
  "do_resume nw db tid v progr ts = (case find_first (resumes tid) (tk_waiting ts) of
     Some t \<Rightarrow> resume_waiting nw db tid v progr t ts
   | None \<Rightarrow> resume_active db tid v progr (tk_active ts) ts)"

definition bf_resume :: "'n network \<Rightarrow> ('k, 'n) task_bf" where
  "bf_resume nw arglist next_pc vdata progr vm = (case arglist of
     VList (VInt tid # rest) \<Rightarrow> do {
       v \<leftarrow> (case rest of [] \<Rightarrow> Some (VInt 0) | [v] \<Rightarrow> Some v | _ \<Rightarrow> None);
       (e, ts) \<leftarrow> do_resume nw (vm_db vm) tid v progr (vm_world vm);
       finishes (vm\<lparr>vm_world := ts\<rparr>) (if e \<noteq> E_NONE then make_error_pack e else no_var_pack) }
   | _ \<Rightarrow> None)"

text \<open>\<open>find_suspended_task\<close>: a waiting task, a reading one, or one that is ready.\<close>

fun vm_of_bg :: "'k bg_task \<Rightarrow> 'k saved_vm option" where
  "vm_of_bg (Forked f) = None"
| "vm_of_bg (Suspended s) = Some (st_vm s)"

fun vm_on_queues ::
  "(nat \<Rightarrow> 'k tqueue option) \<Rightarrow> bool \<Rightarrow> int32 \<Rightarrow> nat list \<Rightarrow> 'k saved_vm option option" where
  "vm_on_queues heap active tid [] = Some None"
| "vm_on_queues heap active tid (q # qs) = do {
     tq \<leftarrow> heap q;
     if reads_in tid tq then Some (tq_reading tq)
     else case (if active then find_first (resumes tid) (tq_bg tq) else None) of
       Some t \<Rightarrow> Some (vm_of_bg t)
     | None \<Rightarrow> vm_on_queues heap active tid qs }"

definition find_suspended_task :: "int32 \<Rightarrow> ('k, 'n) tasks \<Rightarrow> 'k saved_vm option option" where
  "find_suspended_task tid ts = (case find_first (resumes tid) (tk_waiting ts) of
     Some t \<Rightarrow> Some (vm_of_bg t)
   | None \<Rightarrow> do {
       idle \<leftarrow> vm_on_queues (tk_queues ts) False tid (tk_idle ts);
       case idle of Some m \<Rightarrow> Some (Some m) | None \<Rightarrow> vm_on_queues (tk_queues ts) True tid (tk_active ts) })"

section \<open>Input and output of a connection\<close>

definition bf_output_delimiters :: "('k, 'n) task_bf" where
  "bf_output_delimiters arglist next_pc vdata progr vm = (case arglist of
     VList [VObj player] \<Rightarrow>
       if \<not> may_touch (vm_db vm) progr player then finishes vm (make_error_pack E_PERM)
       else do {
         found \<leftarrow> find_tqueue player (vm_world vm);
         case found of
           None \<Rightarrow> finishes vm (make_error_pack E_INVARG)
         | Some q \<Rightarrow> do {
             tq \<leftarrow> queue_in q vm;
             finishes vm (if \<not> tq_connected tq then make_error_pack E_INVARG
               else make_var_pack (VList (map (\<lambda>d. VStr (case d of Some s \<Rightarrow> s | None \<Rightarrow> []))
                 [tq_output_prefix tq, tq_output_suffix tq]))) } }
   | _ \<Rightarrow> None)"

definition bf_force_input :: "'n network \<Rightarrow> ('k, 'n) task_bf" where
  "bf_force_input nw arglist next_pc vdata progr vm = (case arglist of
     VList (VObj conn # VStr line # rest) \<Rightarrow>
       if \<not> may_touch (vm_db vm) progr conn then finishes vm (make_error_pack E_PERM)
       else do {
         (q, ts) \<leftarrow> have_tqueue (vm_db vm) conn (vm_world vm);
         ts \<leftarrow> enqueue_input_task nw q line (case rest of v # _ \<Rightarrow> is_true v | [] \<Rightarrow> False) ts;
         finishes (vm\<lparr>vm_world := ts\<rparr>) no_var_pack }
   | _ \<Rightarrow> None)"

definition bf_flush_input :: "'n network \<Rightarrow> ('k, 'n) task_bf" where
  "bf_flush_input nw arglist next_pc vdata progr vm = (case arglist of
     VList (VObj conn # rest) \<Rightarrow>
       if \<not> may_touch (vm_db vm) progr conn then finishes vm (make_error_pack E_PERM)
       else do {
         (q, ts) \<leftarrow> have_tqueue (vm_db vm) conn (vm_world vm);
         ts \<leftarrow> flush_input nw q (case rest of v # _ \<Rightarrow> is_true v | [] \<Rightarrow> False) ts;
         finishes (vm\<lparr>vm_world := ts\<rparr>) no_var_pack }
   | _ \<Rightarrow> None)"

definition register_tasks ::
  "('k, ('k, 'n) tasks) server \<Rightarrow> 'n network \<Rightarrow> (string \<times> int \<times> int \<times> ('k, 'n) task_bf \<times> int list) list" where
  "register_tasks sv nw =
     [(''task_id'', 0, 0, bf_task_id, []), (''queued_tasks'', 0, 0, bf_queued_tasks sv, []),
      (''kill_task'', 1, 1, bf_kill_task, [0]), (''output_delimiters'', 1, 1, bf_output_delimiters, [1]),
      (''queue_info'', 0, 1, bf_queue_info, [1]), (''resume'', 1, 2, bf_resume nw, [0, -1]),
      (''force_input'', 2, 3, bf_force_input nw, [1, 2, -1]), (''flush_input'', 1, 2, bf_flush_input nw, [1, -1])]"

end
