(* ===== verification/Server_Bf.thy ===== *)
theory Server_Bf
  imports Task_Bf
begin

text \<open>
  The built-in functions of src/src/server.c, and the option lists of src/src/list.c that \<open>listen()\<close> takes.
  Left out are \<open>memory_usage()\<close>, \<open>db_disk_size()\<close> and \<open>open_network_connection()\<close>, which only call the storage
  manager, the database files and the network layer.
\<close>

definition with_conns :: "('k, 'n) task_vm \<Rightarrow> 'n conns \<Rightarrow> ('k, 'n) task_vm" where
  "with_conns vm c = vm\<lparr>vm_world := (vm_world vm)\<lparr>tk_net := c\<rparr>\<rparr>"

section \<open>The server\<close>

definition bf_server_version :: "string \<Rightarrow> ('k, 'n) task_bf" where
  "bf_server_version server_version arglist next_pc vdata progr vm = finishes vm (make_var_pack (VStr server_version))"

definition bf_renumber :: "('k, 'n) task_bf" where
  "bf_renumber arglist next_pc vdata progr vm = (case arglist of
     VList [VObj x] \<Rightarrow>
       if \<not> valid (vm_db vm) x then finishes vm (make_error_pack E_INVARG)
       else if \<not> is_wizard (vm_db vm) progr then finishes vm (make_error_pack E_PERM)
       else do {
         (new, db) \<leftarrow> db_renumber_object (vm_db vm) x;
         finishes (vm\<lparr>vm_db := db\<rparr>) (make_var_pack (VObj new)) }
   | _ \<Rightarrow> None)"

definition bf_reset_max_object :: "('k, 'n) task_bf" where
  "bf_reset_max_object arglist next_pc vdata progr vm =
     (if \<not> is_wizard (vm_db vm) progr then finishes vm (make_error_pack E_PERM)
      else do {
        vm \<leftarrow> with_db vm (db_reset_last_used_objid (vm_db vm));
        finishes vm no_var_pack })"

definition bf_shutdown :: "('k, 'n) task_bf" where
  "bf_shutdown arglist next_pc vdata progr vm =
     (if \<not> is_wizard (vm_db vm) progr then finishes vm (make_error_pack E_PERM)
      else do {
        who \<leftarrow> object_name (vm_db vm) progr;
        msg \<leftarrow> (case arglist of VList [] \<Rightarrow> Some [] | VList [VStr msg] \<Rightarrow> Some ('': '' @ msg) | _ \<Rightarrow> None);
        finishes (on_conns (cn_shutdown_update (\<lambda>_. Some (''shutdown() called by '' @ who @ msg))) vm) no_var_pack })"

definition bf_dump_database :: "('k, 'n) task_bf" where
  "bf_dump_database arglist next_pc vdata progr vm =
     (if \<not> is_wizard (vm_db vm) progr then finishes vm (make_error_pack E_PERM)
      else finishes (on_conns (cn_checkpoint_update (\<lambda>_. True)) vm) no_var_pack)"

section \<open>Connections\<close>

text \<open>The handle of a connection that is not to be closed.\<close>

definition live_handle :: "objid \<Rightarrow> 'n conns \<Rightarrow> shandle option" where
  "live_handle player c = (case find_shandle player c of
     Some h \<Rightarrow> if sh_disconnect_me h then None else Some h | None \<Rightarrow> None)"

definition bf_connected_players :: "('k, 'n) task_bf" where
  "bf_connected_players arglist next_pc vdata progr vm = (case arglist of
     VList args \<Rightarrow>
       let show_all = (case args of v # _ \<Rightarrow> is_true v | [] \<Rightarrow> False);
           hs = filter (\<lambda>h. (show_all \<or> sh_connection_time h \<noteq> 0) \<and> \<not> sh_disconnect_me h) (cn_handles (conns_of vm))
       in finishes vm (make_var_pack (VList (map (\<lambda>h. VObj (sh_player h)) hs)))
   | _ \<Rightarrow> None)"

text \<open>The time since a moment, or -1, as an \<open>int\<close>; what is negative is an error.\<close>

definition seconds_since ::
  "'n network \<Rightarrow> int option \<Rightarrow> ('k, 'n) task_vm \<Rightarrow> ('k package \<times> ('k, 'n) task_vm) option" where
  "seconds_since nw since vm = (case since of
     None \<Rightarrow> finishes vm (make_error_pack E_INVARG)
   | Some t0 \<Rightarrow> (case time_now nw (vm_world vm) of (now, ts) \<Rightarrow>
       let n = word_of_int (now - t0) :: int32 in
       finishes (vm\<lparr>vm_world := ts\<rparr>) (if sint n < 0 then make_error_pack E_INVARG else make_var_pack (VInt n))))"

definition bf_connected_seconds :: "'n network \<Rightarrow> ('k, 'n) task_bf" where
  "bf_connected_seconds nw arglist next_pc vdata progr vm = (case arglist of
     VList [VObj player] \<Rightarrow> seconds_since nw (case live_handle player (conns_of vm) of
         Some h \<Rightarrow> if sh_connection_time h \<noteq> 0 then Some (sh_connection_time h) else None
       | None \<Rightarrow> None) vm
   | _ \<Rightarrow> None)"

definition bf_idle_seconds :: "'n network \<Rightarrow> ('k, 'n) task_bf" where
  "bf_idle_seconds nw arglist next_pc vdata progr vm = (case arglist of
     VList [VObj player] \<Rightarrow>
       seconds_since nw (map_option sh_last_activity_time (live_handle player (conns_of vm))) vm
   | _ \<Rightarrow> None)"

definition bf_connection_name :: "'n network \<Rightarrow> ('k, 'n) task_bf" where
  "bf_connection_name nw arglist next_pc vdata progr vm = (case arglist of
     VList [VObj who] \<Rightarrow>
       if \<not> may_touch (vm_db vm) progr who then finishes vm (make_error_pack E_PERM)
       else (case live_handle who (conns_of vm) of
         None \<Rightarrow> finishes vm (make_error_pack E_INVARG)
       | Some h \<Rightarrow> finishes vm
           (make_var_pack (VStr (nw_connection_name nw (sh_nhandle h) (cn_net (conns_of vm))))))
   | _ \<Rightarrow> None)"

definition bf_notify :: "'n network \<Rightarrow> ('k, 'n) task_bf" where
  "bf_notify nw arglist next_pc vdata progr vm = (case arglist of
     VList (VObj conn # VStr line # rest) \<Rightarrow>
       let no_flush = (case rest of v # _ \<Rightarrow> is_true v | [] \<Rightarrow> False) in
       if \<not> may_touch (vm_db vm) progr conn then finishes vm (make_error_pack E_PERM)
       else (case live_handle conn (conns_of vm) of
         None \<Rightarrow> finishes vm (make_var_pack (VInt 1))
       | Some h \<Rightarrow>
           if sh_binary h then (case binary_to_raw_bytes line of
               None \<Rightarrow> finishes vm (make_error_pack E_INVARG)
             | Some bytes \<Rightarrow> (case ask_net (nw_send_bytes nw (sh_nhandle h) bytes (\<not> no_flush)) (conns_of vm) of
                 (r, c) \<Rightarrow> finishes (with_conns vm c) (make_var_pack (VInt r))))
           else (case ask_net (nw_send_line nw (sh_nhandle h) line (\<not> no_flush)) (conns_of vm) of
             (r, c) \<Rightarrow> finishes (with_conns vm c) (make_var_pack (VInt r))))
   | _ \<Rightarrow> None)"

definition bf_boot_player :: "('k, 'n) task_bf" where
  "bf_boot_player arglist next_pc vdata progr vm = (case arglist of
     VList [VObj oid] \<Rightarrow>
       if \<not> may_touch (vm_db vm) progr oid then finishes vm (make_error_pack E_PERM)
       else finishes (on_conns (boot_player oid) vm) no_var_pack
   | _ \<Rightarrow> None)"

text \<open>The server, the queues and the network are asked in turn whether they know the option.\<close>

definition set_option_of ::
  "'n network \<Rightarrow> shandle \<Rightarrow> string \<Rightarrow> var \<Rightarrow> ('k, 'n) tasks \<Rightarrow> (bool \<times> ('k, 'n) tasks) option" where
  "set_option_of nw h option v ts = (case server_set_connection_option nw h option v (tk_net ts) of
     Some c \<Rightarrow> Some (True, ts\<lparr>tk_net := c\<rparr>)
   | None \<Rightarrow> do {
       (known, ts) \<leftarrow> tasks_set_connection_option (sh_tasks h) option v ts;
       if known then Some (True, ts)
       else (case ask_net (nw_set_option nw (sh_nhandle h) option v) (tk_net ts) of
         (known, c) \<Rightarrow> Some (known, ts\<lparr>tk_net := c\<rparr>)) })"

definition bf_set_connection_option :: "'n network \<Rightarrow> ('k, 'n) task_bf" where
  "bf_set_connection_option nw arglist next_pc vdata progr vm = (case arglist of
     VList [VObj oid, VStr option, v] \<Rightarrow>
       if \<not> may_touch (vm_db vm) progr oid then finishes vm (make_error_pack E_PERM)
       else (case live_handle oid (conns_of vm) of
         None \<Rightarrow> finishes vm (make_error_pack E_INVARG)
       | Some h \<Rightarrow> do {
           (known, ts) \<leftarrow> set_option_of nw h option v (vm_world vm);
           finishes (vm\<lparr>vm_world := ts\<rparr>) (if known then no_var_pack else make_error_pack E_INVARG) })
   | _ \<Rightarrow> None)"

definition option_of :: "'n network \<Rightarrow> shandle \<Rightarrow> string \<Rightarrow> ('k, 'n) tasks \<Rightarrow> var option option" where
  "option_of nw h option ts = (case server_connection_option h option of
     Some v \<Rightarrow> Some (Some v)
   | None \<Rightarrow> do {
       v \<leftarrow> tasks_connection_option (sh_tasks h) option ts;
       Some (case v of Some v \<Rightarrow> Some v | None \<Rightarrow> nw_option nw (sh_nhandle h) option (cn_net (tk_net ts))) })"

definition bf_connection_options :: "'n network \<Rightarrow> ('k, 'n) task_bf" where
  "bf_connection_options nw arglist next_pc vdata progr vm = (case arglist of
     VList (VObj oid # rest) \<Rightarrow>
       (case live_handle oid (conns_of vm) of
         None \<Rightarrow> finishes vm (make_error_pack E_INVARG)
       | Some h \<Rightarrow>
           if \<not> may_touch (vm_db vm) progr oid then finishes vm (make_error_pack E_PERM)
           else (case rest of
             VStr oname # _ \<Rightarrow> do {
               v \<leftarrow> option_of nw h oname (vm_world vm);
               finishes vm (case v of Some v \<Rightarrow> make_var_pack v | None \<Rightarrow> make_error_pack E_INVARG) }
           | [] \<Rightarrow> do {
               list \<leftarrow> tasks_connection_options (sh_tasks h) (server_connection_options h []) (vm_world vm);
               finishes vm (make_var_pack (VList (nw_options nw (sh_nhandle h) list (cn_net (conns_of vm))))) }
           | _ \<Rightarrow> None))
   | _ \<Rightarrow> None)"

definition bf_buffered_output_length :: "'n network \<Rightarrow> ('k, 'n) task_bf" where
  "bf_buffered_output_length nw arglist next_pc vdata progr vm = (case arglist of
     VList [] \<Rightarrow> finishes vm (make_var_pack (VInt 131072))
   | VList [VObj conn] \<Rightarrow> (case find_shandle conn (conns_of vm) of
       None \<Rightarrow> finishes vm (make_error_pack E_INVARG)
     | Some h \<Rightarrow>
         if \<not> may_touch (vm_db vm) progr conn then finishes vm (make_error_pack E_PERM)
         else finishes vm (make_var_pack (VInt (nw_buffered_output_length nw (sh_nhandle h) (cn_net (conns_of vm))))))
   | _ \<Rightarrow> None)"

section \<open>Listening points\<close>

text \<open>Lists of pairs of a name and a value (list.c).\<close>

fun is_option_pair :: "var \<Rightarrow> bool" where
  "is_option_pair (VList [VStr _, _]) = True"
| "is_option_pair _ = False"

definition is_options_list :: "var \<Rightarrow> bool" where
  "is_options_list options = (case options of VList vs \<Rightarrow> list_all is_option_pair vs | _ \<Rightarrow> False)"

fun options_list_value :: "var list \<Rightarrow> string \<Rightarrow> var option option" where
  "options_list_value [] nm = Some None"
| "options_list_value (VList [VStr s, v] # rest) nm =
     (if mystrcasecmp nm s = 0 then Some (Some v) else options_list_value rest nm)"
| "options_list_value (_ # rest) nm = None"

definition find_slistener :: "var \<Rightarrow> 'n conns \<Rightarrow> slistener option option" where
  "find_slistener desc c = foldr (\<lambda>l r. Option.bind (equality desc (sl_desc l) False)
     (\<lambda>eq. if eq then Some (Some l) else r)) (cn_listeners c) (Some None)"

text \<open>An option list without \<open>print-messages\<close> gets one, with the default of the server.\<close>

definition listener_options :: "db \<Rightarrow> var \<Rightarrow> (bool \<times> var) option" where
  "listener_options db options = (case options of
     VList vs \<Rightarrow> do {
       found \<leftarrow> options_list_value vs ''print-messages'';
       case found of
         Some v \<Rightarrow> Some (is_true v, options)
       | None \<Rightarrow> do {
           b \<leftarrow> server_flag_option_default db ''listener_print_messages'' True;
           Some (b, VList (vs @ [VList [VStr ''print-messages'', VInt (if b then 1 else 0)]])) } }
   | _ \<Rightarrow> None)"

definition new_slistener ::
  "'n network \<Rightarrow> db \<Rightarrow> objid \<Rightarrow> var \<Rightarrow> var \<Rightarrow> 'n conns \<Rightarrow> ((error + slistener) \<times> 'n conns) option" where
  "new_slistener nw db oid desc options c =
     (let p = cn_fresh c in case ask_net (nw_make_listener nw p desc options) (c\<lparr>cn_fresh := p + 1\<rparr>) of
        (Inl e, c) \<Rightarrow> Some (Inl e, c)
      | (Inr (nl, canon, nm, options), c) \<Rightarrow> do {
          (print, options) \<leftarrow> listener_options db options;
          let l = \<lparr>sl_ptr = p, sl_nlistener = nl, sl_oid = oid, sl_desc = canon, sl_options = options,
            sl_print_messages = print, sl_name = nm\<rparr>;
          Some (Inr l, c\<lparr>cn_listeners := l # cn_listeners c\<rparr>) })"

text \<open>A listening point that cannot be started is an error, but stays on the list.\<close>

definition bf_listen :: "'n network \<Rightarrow> ('k, 'n) task_bf" where
  "bf_listen nw arglist next_pc vdata progr vm = (case arglist of
     VList (VObj oid # desc # rest) \<Rightarrow>
       if \<not> is_wizard (vm_db vm) progr then finishes vm (make_error_pack E_PERM)
       else if \<not> valid (vm_db vm) oid then finishes vm (make_error_pack E_INVARG)
       else do {
         found \<leftarrow> find_slistener desc (conns_of vm);
         let options = (case rest of v # _ \<Rightarrow> v | [] \<Rightarrow> VList []);
         if found \<noteq> None then finishes vm (make_error_pack E_INVARG)
         else if \<not> is_options_list options then finishes vm (make_error_pack E_TYPE)
         else do {
           (r, c) \<leftarrow> new_slistener nw (vm_db vm) oid desc options (conns_of vm);
           case r of
             Inl e \<Rightarrow> finishes (with_conns vm c) (make_error_pack e)
           | Inr l \<Rightarrow> (case ask_net (nw_listen nw (sl_nlistener l)) c of (started, c) \<Rightarrow>
               finishes (with_conns vm c) (if started then make_var_pack (sl_desc l) else make_error_pack E_QUOTA)) } }
   | _ \<Rightarrow> None)"

definition free_slistener :: "'n network \<Rightarrow> slistener \<Rightarrow> 'n conns \<Rightarrow> 'n conns" where
  "free_slistener nw l c = on_net (nw_close_listener nw (sl_nlistener l))
     (c\<lparr>cn_listeners := filter (\<lambda>k. sl_ptr k \<noteq> sl_ptr l) (cn_listeners c)\<rparr>)"

definition bf_unlisten :: "'n network \<Rightarrow> ('k, 'n) task_bf" where
  "bf_unlisten nw arglist next_pc vdata progr vm = (case arglist of
     VList [desc] \<Rightarrow>
       if \<not> is_wizard (vm_db vm) progr then finishes vm (make_error_pack E_PERM)
       else do {
         found \<leftarrow> find_slistener desc (conns_of vm);
         case found of
           None \<Rightarrow> finishes vm (make_error_pack E_INVARG)
         | Some l \<Rightarrow> finishes (on_conns (free_slistener nw l) vm) no_var_pack }
   | _ \<Rightarrow> None)"

definition bf_listeners :: "('k, 'n) task_bf" where
  "bf_listeners arglist next_pc vdata progr vm = finishes vm (make_var_pack (VList
     (map (\<lambda>l. VList [VObj (sl_oid l), sl_desc l, sl_options l]) (cn_listeners (conns_of vm)))))"

section \<open>Registration\<close>

definition register_server ::
  "string \<Rightarrow> 'n network \<Rightarrow> (string \<times> int \<times> int \<times> ('k, 'n) task_bf \<times> int list) list" where
  "register_server server_version nw =
     [(''server_version'', 0, 0, bf_server_version server_version, []), (''renumber'', 1, 1, bf_renumber, [1]),
      (''reset_max_object'', 0, 0, bf_reset_max_object, []), (''shutdown'', 0, 1, bf_shutdown, [2]),
      (''dump_database'', 0, 0, bf_dump_database, []), (''connected_players'', 0, 1, bf_connected_players, [-1]),
      (''connected_seconds'', 1, 1, bf_connected_seconds nw, [1]), (''idle_seconds'', 1, 1, bf_idle_seconds nw, [1]),
      (''connection_name'', 1, 1, bf_connection_name nw, [1]), (''notify'', 2, 3, bf_notify nw, [1, 2, -1]),
      (''boot_player'', 1, 1, bf_boot_player, [1]),
      (''set_connection_option'', 3, 3, bf_set_connection_option nw, [1, 2, -1]),
      (''connection_option'', 2, 2, bf_connection_options nw, [1, 2]),
      (''connection_options'', 1, 1, bf_connection_options nw, [1]),
      (''listen'', 2, 3, bf_listen nw, [1, -1, 4]), (''unlisten'', 1, 1, bf_unlisten nw, [-1]),
      (''listeners'', 0, 0, bf_listeners, []), (''buffered_output_length'', 0, 1, bf_buffered_output_length nw, [1])]"

end
