(* ===== verification/Task_Invariant.thy ===== *)
theory Task_Invariant
  imports Server_Bf
begin

text \<open>
  When the queues of src/src/tasks.c are in order: each queue is on exactly one of the two lists, the
  active ones by usage; no player has two queues; the counts of a queue are those of its lines and
  of its tasks, ready or waiting; the waiting tasks are in the order of their times; an idle queue has
  nothing to run; and a queue is connected exactly while a connection refers to it. An operation may
  leave a set \<open>X\<close> of queues with something to run until they are activated.
\<close>

section \<open>The parts\<close>

definition usage_of :: "('k, 'n) tasks \<Rightarrow> nat \<Rightarrow> int" where
  "usage_of ts q = (case tk_queues ts q of Some tq \<Rightarrow> sint (tq_usage tq) | None \<Rightarrow> 0)"

definition threaded :: "('k, 'n) tasks \<Rightarrow> bool" where
  "threaded ts \<longleftrightarrow> distinct (tk_active ts @ tk_idle ts) \<and>
     dom (tk_queues ts) = set (tk_active ts) \<union> set (tk_idle ts) \<and> (\<forall>q \<in> dom (tk_queues ts). q < tk_fresh ts) \<and>
     (\<forall>q tq. tk_queues ts q = Some tq \<longrightarrow> (q \<in> set (tk_idle ts) \<longleftrightarrow> tq_usage tq = NO_USAGE)) \<and>
     sorted (map (usage_of ts) (tk_active ts))"

definition players_apart :: "('k, 'n) tasks \<Rightarrow> bool" where
  "players_apart ts \<longleftrightarrow> (\<forall>q r a b. tk_queues ts q = Some a \<and> tk_queues ts r = Some b \<and> tq_player a = tq_player b \<and>
     tq_player a \<noteq> NOTHING \<longrightarrow> q = r)"

definition waiting_for :: "objid \<Rightarrow> 'k bg_task list \<Rightarrow> nat" where
  "waiting_for p ws = length (filter (\<lambda>t. bg_progr t = Some p) ws)"

text \<open>Every saved machine has an activation.\<close>

definition whole :: "'k bg_task \<Rightarrow> bool" where
  "whole t \<longleftrightarrow> bg_progr t \<noteq> None"

definition owned :: "('k, 'n) tasks \<Rightarrow> bool" where
  "owned ts \<longleftrightarrow> (\<forall>t \<in> set (tk_waiting ts). whole t) \<and> (\<forall>p. p \<noteq> NOTHING \<and> waiting_for p (tk_waiting ts) \<noteq> 0 \<longrightarrow>
     (\<exists>q tq. tk_queues ts q = Some tq \<and> tq_player tq = p))"

definition counted :: "'k bg_task list \<Rightarrow> 'k tqueue \<Rightarrow> bool" where
  "counted ws tq \<longleftrightarrow> tq_total_input_length tq = int (sum_list (map length (tq_input tq))) \<and>
     (\<forall>t \<in> set (tq_bg tq). whole t) \<and> (\<forall>m. tq_reading tq = Some m \<longrightarrow> top_activ m \<noteq> None) \<and>
     (tq_player tq \<noteq> NOTHING \<longrightarrow> tq_num_bg_tasks tq = int (length (tq_bg tq) + waiting_for (tq_player tq) ws))"

definition may_run :: "'k tqueue \<Rightarrow> bool" where
  "may_run tq \<longleftrightarrow> tq_bg tq \<noteq> [] \<or> (tq_input tq \<noteq> [] \<and> (\<not> tq_hold_input tq \<or> tq_reading tq \<noteq> None)) \<or>
     (tq_reading tq \<noteq> None \<and> is_out_of_input tq)"

definition rested :: "'k tqueue \<Rightarrow> bool" where
  "rested tq \<longleftrightarrow> (tq_usage tq = NO_USAGE \<longrightarrow> \<not> may_run tq)"

text \<open>Handles and connected queues belong to each other, and new connections get numbers not yet used.\<close>

definition wired :: "('k, 'n) tasks \<Rightarrow> bool" where
  "wired ts \<longleftrightarrow> (let hs = cn_handles (tk_net ts) in distinct (map sh_ptr hs) \<and> distinct (map sh_tasks hs) \<and>
     (\<forall>h \<in> set hs. sh_ptr h < cn_fresh (tk_net ts) \<and> sh_player h > cn_next_player (tk_net ts) \<and> sh_player h \<noteq> NOTHING \<and>
       (\<exists>tq. tk_queues ts (sh_tasks h) = Some tq \<and> tq_connected tq \<and> tq_player tq = sh_player h)) \<and>
     (\<forall>q tq. tk_queues ts q = Some tq \<and> tq_connected tq \<longrightarrow> q \<in> sh_tasks ` set hs) \<and>
     cn_next_player (tk_net ts) < NOTHING)"

definition queues_but :: "nat set \<Rightarrow> ('k, 'n) tasks \<Rightarrow> bool" where
  "queues_but X ts \<longleftrightarrow> threaded ts \<and> players_apart ts \<and> owned ts \<and> sorted (map get_start_time (tk_waiting ts)) \<and>
     (\<forall>q tq. tk_queues ts q = Some tq \<longrightarrow> counted (tk_waiting ts) tq \<and> (q \<notin> X \<longrightarrow> rested tq))"

abbreviation "queues_ok \<equiv> queues_but {}"

lemma queues_butD:
  assumes "queues_but X ts"
  shows "threaded ts" "players_apart ts" "owned ts" "sorted (map get_start_time (tk_waiting ts))"
    "tk_queues ts q = Some tq \<Longrightarrow> counted (tk_waiting ts) tq"
    "tk_queues ts q = Some tq \<Longrightarrow> q \<notin> X \<Longrightarrow> rested tq"
  using assms by (auto simp: queues_but_def)

lemma queues_but_mono: "queues_but X ts \<Longrightarrow> X \<subseteq> Y \<Longrightarrow> queues_but Y ts"
  by (auto simp: queues_but_def)

lemma queues_but_net [simp]: "queues_but X (ts\<lparr>tk_net := c\<rparr>) = queues_but X ts"
  "queues_but X (at_net f ts) = queues_but X ts" "queues_but X (ts\<lparr>tk_current := i\<rparr>) = queues_but X ts"
  by (simp_all add: queues_but_def threaded_def players_apart_def owned_def usage_of_def[abs_def] at_net_def)

lemma lists_apart [simp]:
  "players_apart (ts\<lparr>tk_idle := qs\<rparr>) = players_apart ts" "players_apart (ts\<lparr>tk_active := qs\<rparr>) = players_apart ts"
  "players_apart (ts\<lparr>tk_waiting := ws\<rparr>) = players_apart ts" "players_apart (ts\<lparr>tk_fresh := n\<rparr>) = players_apart ts"
  "owned (ts\<lparr>tk_idle := qs\<rparr>) = owned ts" "owned (ts\<lparr>tk_active := qs\<rparr>) = owned ts"
  "owned (ts\<lparr>tk_fresh := n\<rparr>) = owned ts" "wired (ts\<lparr>tk_idle := qs\<rparr>) = wired ts"
  "wired (ts\<lparr>tk_active := qs\<rparr>) = wired ts" "wired (ts\<lparr>tk_waiting := ws\<rparr>) = wired ts"
  "wired (ts\<lparr>tk_fresh := n\<rparr>) = wired ts" "threaded (ts\<lparr>tk_waiting := ws\<rparr>) = threaded ts"
  by (simp_all add: players_apart_def owned_def wired_def threaded_def usage_of_def[abs_def])

lemma wired_upd:
  assumes "wired ts" "tk_queues ts q = Some t" "tq_player t' = tq_player t" "tq_connected t' = tq_connected t"
  shows "wired (ts\<lparr>tk_queues := (tk_queues ts)(q \<mapsto> t')\<rparr>)"
proof -
  have "\<exists>tq. ((tk_queues ts)(q \<mapsto> t')) r = Some tq \<and> tq_connected tq \<and> tq_player tq = p"
    if "\<exists>tq. tk_queues ts r = Some tq \<and> tq_connected tq \<and> tq_player tq = p" for r p
    using that assms(2-4) by auto
  moreover have "\<exists>tq. tk_queues ts r = Some tq \<and> tq_connected tq"
    if "((tk_queues ts)(q \<mapsto> t')) r = Some tq" "tq_connected tq" for r tq
    using that assms(2-4) by (auto split: if_splits)
  ultimately show ?thesis using assms(1) unfolding wired_def Let_def by simp
qed

lemma wired_new:
  assumes "wired ts" "tk_queues ts q = None" "\<not> tq_connected t"
  shows "wired (ts\<lparr>tk_queues := (tk_queues ts)(q \<mapsto> t)\<rparr>)"
proof -
  have "\<exists>tq. ((tk_queues ts)(q \<mapsto> t)) r = Some tq \<and> tq_connected tq \<and> tq_player tq = p"
    if "\<exists>tq. tk_queues ts r = Some tq \<and> tq_connected tq \<and> tq_player tq = p" for r p
    using that assms(2,3) by auto
  moreover have "\<exists>tq. tk_queues ts r = Some tq \<and> tq_connected tq"
    if "((tk_queues ts)(q \<mapsto> t)) r = Some tq" "tq_connected tq" for r tq
    using that assms(2,3) by (auto split: if_splits)
  ultimately show ?thesis using assms(1) unfolding wired_def Let_def by simp
qed

lemma wired_net [simp]:
  "wired (ts\<lparr>tk_net := on_net f (tk_net ts)\<rparr>) = wired ts" "wired (at_net (on_net f) ts) = wired ts"
  "wired (ts\<lparr>tk_current := i\<rparr>) = wired ts"
  by (simp_all add: wired_def on_net_def at_net_def)

lemma wired_handle:
  assumes "wired ts" "tk_queues ts q = Some tq" "tq_connected tq"
  shows "\<exists>h. find_shandle (tq_player tq) (tk_net ts) = Some h"
proof -
  obtain h where h: "h \<in> set (cn_handles (tk_net ts))" "sh_tasks h = q" using assms by (auto simp: wired_def Let_def)
  then have "sh_player h = tq_player tq" using assms by (fastforce simp: wired_def Let_def)
  with h(1) have "find_shandle (tq_player tq) (tk_net ts) \<noteq> None" by (auto simp: find_shandle_def find_None_iff)
  then show ?thesis by blast
qed

lemma at_net_simps [simp]:
  "tk_queues (at_net f ts) = tk_queues ts" "tk_active (at_net f ts) = tk_active ts" "tk_idle (at_net f ts) = tk_idle ts"
  "tk_waiting (at_net f ts) = tk_waiting ts" "tk_current (at_net f ts) = tk_current ts" "tk_net (at_net f ts) = f (tk_net ts)"
  "tk_fresh (at_net f ts) = tk_fresh ts"
  by (simp_all add: at_net_def)

lemma threaded_cell: "threaded ts \<Longrightarrow> q \<in> set (tk_active ts) \<or> q \<in> set (tk_idle ts) \<longleftrightarrow> (\<exists>tq. tk_queues ts q = Some tq)"
  unfolding threaded_def by (metis UnE UnI1 UnI2 domD domI)

section \<open>One queue\<close>

text \<open>A change of one queue that leaves its usage and its player.\<close>

lemma threaded_upd:
  assumes "threaded ts" "tk_queues ts q = Some t" "tq_usage t' = tq_usage t"
  shows "threaded (ts\<lparr>tk_queues := (tk_queues ts)(q \<mapsto> t')\<rparr>)"
proof -
  have "usage_of (ts\<lparr>tk_queues := (tk_queues ts)(q \<mapsto> t')\<rparr>) = usage_of ts"
    using assms by (auto simp: usage_of_def fun_eq_iff)
  moreover have "dom ((tk_queues ts)(q \<mapsto> t')) = dom (tk_queues ts)" using assms(2) by auto
  ultimately show ?thesis using assms by (auto simp: threaded_def)
qed

lemma players_apart_upd:
  assumes "players_apart ts" "tk_queues ts q = Some t" "tq_player t' = tq_player t"
  shows "players_apart (ts\<lparr>tk_queues := (tk_queues ts)(q \<mapsto> t')\<rparr>)"
  unfolding players_apart_def
proof (intro allI impI, elim conjE)
  fix x r a b
  assume x: "tk_queues (ts\<lparr>tk_queues := (tk_queues ts)(q \<mapsto> t')\<rparr>) x = Some a"
    and r: "tk_queues (ts\<lparr>tk_queues := (tk_queues ts)(q \<mapsto> t')\<rparr>) r = Some b"
    and eq: "tq_player a = tq_player b" "tq_player a \<noteq> NOTHING"
  obtain a' b' where "tk_queues ts x = Some a'" "tk_queues ts r = Some b'" "tq_player a' = tq_player a"
      "tq_player b' = tq_player b"
    using x r assms(2,3) by (auto split: if_splits)
  with assms(1) eq show "x = r" unfolding players_apart_def by metis
qed

lemma owned_upd:
  assumes "owned ts" "tk_queues ts q = Some t" "tq_player t' = tq_player t"
  shows "owned (ts\<lparr>tk_queues := (tk_queues ts)(q \<mapsto> t')\<rparr>)"
  using assms unfolding owned_def by simp (metis option.inject)

lemma queues_upd:
  assumes "queues_but X ts" "tk_queues ts q = Some t" "tq_usage t' = tq_usage t" "tq_player t' = tq_player t"
    "counted (tk_waiting ts) t'" "X \<subseteq> insert q Y" "q \<notin> Y \<Longrightarrow> rested t'"
  shows "queues_but Y (ts\<lparr>tk_queues := (tk_queues ts)(q \<mapsto> t')\<rparr>)"
  using assms threaded_upd[of ts q t t'] players_apart_upd[of ts q t t'] owned_upd[of ts q t t']
  by (auto simp: queues_but_def)

lemma upd_tq_returns:
  assumes "queues_but X ts" "tk_queues ts q = Some t" "tq_usage (f t) = tq_usage t" "tq_player (f t) = tq_player t"
    "counted (tk_waiting ts) (f t)" "X \<subseteq> insert q Y" "q \<notin> Y \<Longrightarrow> rested (f t)"
  shows "\<exists>ts'. upd_tq q f ts = Some ts' \<and> ts' = ts\<lparr>tk_queues := (tk_queues ts)(q \<mapsto> f t)\<rparr> \<and> queues_but Y ts'"
  using queues_upd[OF assms(1-6)] assms(2,7) by (auto simp: upd_tq_def)

section \<open>Finding a queue\<close>

lemma queue_of_returns:
  assumes "\<forall>q \<in> set qs. heap q \<noteq> None"
  shows "\<exists>r. queue_of heap player qs = Some r \<and> (case r of
      Some q \<Rightarrow> q \<in> set qs \<and> (\<exists>tq. heap q = Some tq \<and> tq_player tq = player)
    | None \<Rightarrow> \<forall>q \<in> set qs. \<forall>tq. heap q = Some tq \<longrightarrow> tq_player tq \<noteq> player)"
  using assms by (induction qs) (auto split: option.splits)

lemma find_tqueue_returns:
  assumes "threaded ts"
  shows "\<exists>r. find_tqueue player ts = Some r \<and> (case r of
      Some q \<Rightarrow> \<exists>tq. tk_queues ts q = Some tq \<and> tq_player tq = player
    | None \<Rightarrow> \<forall>q tq. tk_queues ts q = Some tq \<longrightarrow> tq_player tq \<noteq> player)"
proof -
  have d: "dom (tk_queues ts) = set (tk_active ts @ tk_idle ts)" using assms by (auto simp: threaded_def)
  then have "\<forall>q \<in> set (tk_active ts @ tk_idle ts). tk_queues ts q \<noteq> None" by auto
  from queue_of_returns[OF this, of player] obtain r
    where r: "find_tqueue player ts = Some r" "case r of
      Some q \<Rightarrow> q \<in> set (tk_active ts @ tk_idle ts) \<and> (\<exists>tq. tk_queues ts q = Some tq \<and> tq_player tq = player)
    | None \<Rightarrow> \<forall>q \<in> set (tk_active ts @ tk_idle ts). \<forall>tq. tk_queues ts q = Some tq \<longrightarrow> tq_player tq \<noteq> player"
    by (auto simp: find_tqueue_def)
  then show ?thesis using d[symmetric] by (intro exI[of _ r] conjI) (auto split: option.splits)
qed

section \<open>Having a queue\<close>

lemma owned_none:
  assumes "owned ts" "\<forall>q tq. tk_queues ts q = Some tq \<longrightarrow> tq_player tq \<noteq> p" "p \<noteq> NOTHING"
  shows "waiting_for p (tk_waiting ts) = 0"
  using assms by (metis owned_def)

lemma new_tqueue_simps [simp]:
  "tq_usage (new_tqueue p flush) = NO_USAGE" "tq_player (new_tqueue p flush) = p" "tq_bg (new_tqueue p flush) = []"
  "tq_input (new_tqueue p flush) = []" "tq_reading (new_tqueue p flush) = None"
  "tq_num_bg_tasks (new_tqueue p flush) = 0" "tq_total_input_length (new_tqueue p flush) = 0"
  "tq_connected (new_tqueue p flush) = False" "new_tqueue p flush\<lparr>tq_usage := NO_USAGE\<rparr> = new_tqueue p flush"
  by (simp_all add: new_tqueue_def)

text \<open>A new queue, idle, for a player who has none.\<close>

lemma new_queue_ok:
  assumes "queues_but X ts" "\<forall>q tq. tk_queues ts q = Some tq \<longrightarrow> tq_player tq \<noteq> player"
  shows "queues_but X (ts\<lparr>tk_fresh := tk_fresh ts + 1,
    tk_queues := (tk_queues ts)(tk_fresh ts \<mapsto> new_tqueue player flush), tk_idle := tk_fresh ts # tk_idle ts\<rparr>)"
proof -
  let ?ts = "ts\<lparr>tk_fresh := tk_fresh ts + 1,
    tk_queues := (tk_queues ts)(tk_fresh ts \<mapsto> new_tqueue player flush), tk_idle := tk_fresh ts # tk_idle ts\<rparr>"
  note ok = queues_butD[OF assms(1)]
  have fresh: "tk_queues ts (tk_fresh ts) = None" using ok(1) by (fastforce simp: threaded_def dom_def)
  then have out: "tk_fresh ts \<notin> set (tk_active ts)" "tk_fresh ts \<notin> set (tk_idle ts)"
    using ok(1) by (auto simp: threaded_def)
  have "usage_of ?ts a = usage_of ts a" if "a \<in> set (tk_active ts)" for a
    using that out by (auto simp: usage_of_def)
  then have "map (usage_of ?ts) (tk_active ts) = map (usage_of ts) (tk_active ts)" by simp
  then have "sorted (map (usage_of ?ts) (tk_active ts))" using ok(1) unfolding threaded_def by metis
  then have "threaded ?ts" using ok(1) out unfolding threaded_def by (intro conjI) (auto simp: less_Suc_eq)
  moreover have "players_apart ?ts" using ok(2) assms(2) fresh by (auto simp: players_apart_def)
  moreover have "owned ?ts" using ok(3) fresh unfolding owned_def by simp (metis option.distinct(1))
  moreover have "counted (tk_waiting ts) (new_tqueue player flush)"
    using owned_none[OF ok(3) assms(2)] by (auto simp: counted_def)
  moreover have "rested (new_tqueue player flush)" by (simp add: rested_def may_run_def)
  ultimately show ?thesis using assms(1) by (auto simp: queues_but_def)
qed

end
