(* ===== verification/Task_Laws.thy ===== *)
theory Task_Laws
  imports Task_Invariant Db_Reach
begin

text \<open>
  The elementary operations of the queues return, and keep the queues in order: no list is broken
  and no pointer to nothing is followed. Each lemma also says what is left unchanged.
\<close>

section \<open>Options\<close>

lemma property_of_returns:
  assumes "world_ok db" "valid db x" "c_string nm" "bi_lookup nm = None"
  shows "\<exists>r. property_of db x nm = Some r"
proof -
  note lay = world_okD(1)[OF assms(1)]
  obtain ob where ob: "objects db x = Some ob" using assms(2) table_ok_valid[OF world_okD(7)[OF assms(1)]] by blast
  show ?thesis
  proof (cases "index_of (\<lambda>d. key d = fold_case nm) (all_defs db x)")
    case None
    then show ?thesis using db_find_property_none[OF lay assms(3,4)] by (simp add: property_of_def)
  next
    case (Some i)
    from db_find_property_slot[OF lay assms(3,4) ob Some] show ?thesis by (auto simp: property_of_def)
  qed
qed

lemma get_server_option_returns:
  assumes "world_ok db" "c_string nm" "bi_lookup nm = None"
  shows "\<exists>r. get_server_option db x nm = Some r"
proof -
  have s: "c_string ''server_options''" "bi_lookup ''server_options'' = None" by code_simp+
  have p: "\<exists>r. (if valid db y then property_of db y ''server_options'' else Some None) = Some r" for y
    using property_of_returns[OF assms(1) _ s] by simp
  have q: "\<exists>r. (if valid db y then property_of db y nm else Some None) = Some r" for y
    using property_of_returns[OF assms(1) _ assms(2,3)] by simp
  obtain r where r: "(if valid db x then property_of db x ''server_options'' else Some None) = Some r" using p by blast
  obtain a where "options_object db x = Some a"
    using r p[of SYSTEM_OBJECT] by (cases r) (auto simp: options_object_def)
  then show ?thesis using q by (auto simp: get_server_option_def split: option.splits var.splits)
qed

lemma server_int_option_returns:
  "world_ok db \<Longrightarrow> c_string nm \<Longrightarrow> bi_lookup nm = None \<Longrightarrow> \<exists>r. server_int_option db nm d = Some r"
  using get_server_option_returns[of db nm SYSTEM_OBJECT] by (auto simp: server_int_option_def)

lemma default_flush_command_returns:
  assumes "world_ok db"
  shows "\<exists>r. default_flush_command db = Some r"
proof -
  have "c_string ''default_flush_command''" "bi_lookup ''default_flush_command'' = None" by code_simp+
  from get_server_option_returns[OF assms this, of SYSTEM_OBJECT] show ?thesis
    by (auto simp: default_flush_command_def server_string_option_def)
qed

section \<open>Having a queue, and activating one\<close>

lemma have_tqueue_returns:
  assumes "queues_but X ts" "world_ok db"
  shows "\<exists>q ts' tq. have_tqueue db player ts = Some (q, ts') \<and> queues_but X ts' \<and>
    tk_queues ts' q = Some tq \<and> tq_player tq = player \<and> tk_waiting ts' = tk_waiting ts \<and> tk_net ts' = tk_net ts \<and>
    tk_active ts' = tk_active ts \<and> tk_current ts' = tk_current ts \<and>
    (\<forall>r t. tk_queues ts r = Some t \<longrightarrow> tk_queues ts' r = Some t) \<and> (wired ts \<longrightarrow> wired ts')"
proof -
  note lk = queues_butD(1)[OF assms(1)]
  obtain r where r: "find_tqueue player ts = Some r" "case r of
      Some q \<Rightarrow> \<exists>tq. tk_queues ts q = Some tq \<and> tq_player tq = player
    | None \<Rightarrow> \<forall>q tq. tk_queues ts q = Some tq \<longrightarrow> tq_player tq \<noteq> player"
    using find_tqueue_returns[OF lk, of player] by blast
  show ?thesis
  proof (cases r)
    case (Some q)
    then show ?thesis using r assms(1) by (auto simp: have_tqueue_def)
  next
    case None
    obtain flush where f: "default_flush_command db = Some flush" using default_flush_command_returns[OF assms(2)] by blast
    let ?n = "tk_fresh ts"
    let ?ts = "ts\<lparr>tk_fresh := ?n + 1, tk_queues := (tk_queues ts)(?n \<mapsto> new_tqueue player flush), tk_idle := ?n # tk_idle ts\<rparr>"
    have new: "tk_queues ts ?n = None" using lk by (fastforce simp: threaded_def dom_def)
    have "have_tqueue db player ts = Some (?n, ?ts)"
      using r(1) None f by (simp add: have_tqueue_def deactivate_tqueue_def upd_tq_def Let_def)
    moreover have "queues_but X ?ts" using new_queue_ok[OF assms(1)] r(2) None by simp
    moreover have "wired ts \<longrightarrow> wired ?ts"
      using wired_new[of "ts\<lparr>tk_fresh := ?n + 1\<rparr>" ?n "new_tqueue player flush"] new by simp
    ultimately show ?thesis using new by auto
  qed
qed

lemma place_by_usage_sorted:
  assumes "sorted (map f qs)" "\<forall>a \<in> set qs. \<exists>t. heap a = Some t \<and> f a = sint (tq_usage t)" "f q = sint u"
  shows "\<exists>rs. place_by_usage heap u q qs = Some rs \<and> sorted (map f rs) \<and> set rs = insert q (set qs) \<and>
    (q \<notin> set qs \<and> distinct qs \<longrightarrow> distinct rs)"
  using assms
proof (induction qs)
  case (Cons a qs)
  then obtain t where t: "heap a = Some t" "f a = sint (tq_usage t)" by auto
  show ?case
  proof (cases "sint (tq_usage t) \<le> sint u")
    case True
    from Cons obtain rs where "place_by_usage heap u q qs = Some rs" "sorted (map f rs)" "set rs = insert q (set qs)"
      "q \<notin> set qs \<and> distinct qs \<longrightarrow> distinct rs" by auto
    then show ?thesis using True t Cons.prems by auto
  next
    case False
    then have "sint u \<le> f b" if "b \<in> set qs" for b
      using that t(2) Cons.prems(1) by (metis image_eqI less_le_not_le linear list.set_map list.simps(9) order_trans sorted_simps(2))
    then show ?thesis using False t Cons.prems by auto
  qed
qed simp

lemma usage_ofI: "tk_queues ts q = Some tq \<Longrightarrow> usage_of ts q = sint (tq_usage tq)"
  by (simp add: usage_of_def)

lemma least_usage_returns:
  assumes "threaded ts"
  shows "\<exists>u. least_usage ts = Some u \<and> u \<noteq> NO_USAGE"
proof (cases "tk_active ts")
  case Nil
  then show ?thesis by (simp add: least_usage_def NO_USAGE_def)
next
  case (Cons a as)
  moreover obtain t where t: "tk_queues ts a = Some t" using threaded_cell[OF assms, of a] Cons by auto
  moreover have "a \<notin> set (tk_idle ts)" using assms Cons by (auto simp: threaded_def)
  then have "tq_usage t \<noteq> NO_USAGE" using assms t unfolding threaded_def by blast
  ultimately show ?thesis by (simp add: least_usage_def)
qed

text \<open>A queue that has something to run is put on the list of the active ones.\<close>

lemma activate_from_idle:
  assumes "threaded ts" "tk_queues ts q = Some tq" "q \<in> set (tk_idle ts)" "u \<noteq> NO_USAGE"
  shows "\<exists>as. activate_tqueue q (ts\<lparr>tk_queues := (tk_queues ts)(q \<mapsto> tq\<lparr>tq_usage := u\<rparr>), tk_idle := remove1 q (tk_idle ts)\<rparr>) =
      Some (ts\<lparr>tk_queues := (tk_queues ts)(q \<mapsto> tq\<lparr>tq_usage := u\<rparr>), tk_idle := remove1 q (tk_idle ts), tk_active := as\<rparr>) \<and>
    threaded (ts\<lparr>tk_queues := (tk_queues ts)(q \<mapsto> tq\<lparr>tq_usage := u\<rparr>), tk_idle := remove1 q (tk_idle ts), tk_active := as\<rparr>)"
proof -
  let ?t = "ts\<lparr>tk_queues := (tk_queues ts)(q \<mapsto> tq\<lparr>tq_usage := u\<rparr>), tk_idle := remove1 q (tk_idle ts)\<rparr>"
  have d: "distinct (tk_active ts)" "distinct (tk_idle ts)" "set (tk_active ts) \<inter> set (tk_idle ts) = {}"
    "dom (tk_queues ts) = set (tk_active ts) \<union> set (tk_idle ts)" "sorted (map (usage_of ts) (tk_active ts))"
    using assms(1) by (auto simp: threaded_def)
  then have q: "q \<notin> set (tk_active ts)" using assms(3) by auto
  have same: "usage_of ?t a = usage_of ts a" if "a \<in> set (tk_active ts)" for a
    using that q by (auto simp: usage_of_def)
  then have "map (usage_of ?t) (tk_active ts) = map (usage_of ts) (tk_active ts)" by simp
  then have s: "sorted (map (usage_of ?t) (tk_active ts))" using d(5) by metis
  have "\<exists>t. tk_queues ?t a = Some t \<and> usage_of ?t a = sint (tq_usage t)" if "a \<in> set (tk_active ts)" for a
  proof -
    from that obtain t where "tk_queues ts a = Some t" using threaded_cell[OF assms(1), of a] by blast
    with that q show ?thesis by (intro exI[of _ t]) (auto simp: usage_of_def)
  qed
  then have "\<forall>a \<in> set (tk_active ts). \<exists>t. tk_queues ?t a = Some t \<and> usage_of ?t a = sint (tq_usage t)" by blast
  with place_by_usage_sorted[OF s, of "tk_queues ?t" q u] obtain as
    where as: "place_by_usage (tk_queues ?t) u q (tk_active ts) = Some as" "sorted (map (usage_of ?t) as)"
      "set as = insert q (set (tk_active ts))" "distinct as"
    using q d(1) by (auto simp: usage_of_def)
  have "activate_tqueue q ?t = Some (?t\<lparr>tk_active := as\<rparr>)" using as(1) by (simp add: activate_tqueue_def)
  moreover have "threaded (?t\<lparr>tk_active := as\<rparr>)"
  proof -
    have "usage_of (?t\<lparr>tk_active := as\<rparr>) = usage_of ?t" by (simp add: usage_of_def fun_eq_iff)
    then have "sorted (map (usage_of (?t\<lparr>tk_active := as\<rparr>)) as)" using as(2) by metis
    moreover have "insert q (set (tk_active ts) \<union> set (tk_idle ts)) = insert q (set (tk_active ts)) \<union> (set (tk_idle ts) - {q})"
      by auto
    moreover have "(q \<in> set (remove1 q (tk_idle ts)) \<longleftrightarrow> False)" using d(2) by simp
    ultimately show ?thesis using assms as(3,4) d q by (simp add: threaded_def) blast
  qed
  ultimately show ?thesis by (intro exI[of _ as]) simp
qed

lemma ensure_usage_returns:
  assumes "queues_but X ts" "tk_queues ts q = Some tq"
  shows "\<exists>ts' tq'. ensure_usage q ts = Some ts' \<and> queues_but (X - {q}) ts' \<and> tk_waiting ts' = tk_waiting ts \<and>
    tk_net ts' = tk_net ts \<and> tk_current ts' = tk_current ts \<and> (\<exists>u. tq' = tq\<lparr>tq_usage := u\<rparr>) \<and> tq_usage tq' \<noteq> NO_USAGE \<and>
    tk_queues ts' = (tk_queues ts)(q \<mapsto> tq') \<and> (wired ts \<longrightarrow> wired ts')"
proof (cases "tq_usage tq = NO_USAGE")
  case False
  then have "queues_but (X - {q}) ts" using assms by (auto simp: queues_but_def rested_def)
  moreover have "tk_queues ts = (tk_queues ts)(q \<mapsto> tq)" using assms(2) by auto
  ultimately show ?thesis using False assms(2)
    by (intro exI[of _ ts] exI[of _ tq]) (auto simp: ensure_usage_def intro!: exI[of _ "tq_usage tq"])
next
  case True
  note ok = queues_butD[OF assms(1)]
  have idle: "q \<in> set (tk_idle ts)" using ok(1) assms(2) True by (auto simp: threaded_def)
  obtain u where u: "least_usage ts = Some u" "u \<noteq> NO_USAGE" using least_usage_returns[OF ok(1)] by blast
  let ?q = "(tk_queues ts)(q \<mapsto> tq\<lparr>tq_usage := u\<rparr>)"
  obtain as where as: "activate_tqueue q (ts\<lparr>tk_queues := ?q, tk_idle := remove1 q (tk_idle ts)\<rparr>) =
      Some (ts\<lparr>tk_queues := ?q, tk_idle := remove1 q (tk_idle ts), tk_active := as\<rparr>)"
    "threaded (ts\<lparr>tk_queues := ?q, tk_idle := remove1 q (tk_idle ts), tk_active := as\<rparr>)"
    using activate_from_idle[OF ok(1) assms(2) idle u(2)] by blast
  let ?ts = "ts\<lparr>tk_queues := ?q, tk_idle := remove1 q (tk_idle ts), tk_active := as\<rparr>"
  have same: "tq_player (tq\<lparr>tq_usage := u\<rparr>) = tq_player tq" by simp
  have "players_apart ?ts" using players_apart_upd[OF ok(2) assms(2) same] by simp
  moreover have "owned ?ts" using owned_upd[OF ok(3) assms(2) same] by simp
  moreover have "counted (tk_waiting ts) (tq\<lparr>tq_usage := u\<rparr>)" using ok(5)[OF assms(2)] by (simp add: counted_def)
  moreover have "rested (tq\<lparr>tq_usage := u\<rparr>)" using u(2) by (simp add: rested_def)
  moreover have "counted (tk_waiting ts) t \<and> (r \<notin> X - {q} \<longrightarrow> rested t)"
    if "tk_queues ?ts r = Some t" for r t
    using that ok(5,6) \<open>counted _ _\<close> \<open>rested _\<close> by (auto split: if_splits)
  ultimately have "queues_but (X - {q}) ?ts" using ok(4) as(2) by (simp add: queues_but_def)
  moreover have "wired ts \<longrightarrow> wired ?ts" using wired_upd[OF _ assms(2) same] by simp
  moreover have "ensure_usage q ts = Some ?ts"
    using True assms(2) u(1) idle as(1) by (simp add: ensure_usage_def upd_tq_def)
  ultimately show ?thesis using u(2) by auto
qed

end
