(* ===== verification/Task_Keeps.thy ===== *)
theory Task_Keeps
  imports Task_Laws
begin

text \<open>
  Taking from a queue and adding to it, and the list of the waiting tasks: every operation returns and
  leaves the queues in order.
\<close>

definition sched_but :: "nat set \<Rightarrow> ('k, 'n) tasks \<Rightarrow> bool" where
  "sched_but X ts \<longleftrightarrow> queues_but X ts \<and> wired ts"

abbreviation "sched_ok \<equiv> sched_but {}"

lemma sched_butD:
  assumes "sched_but X ts"
  shows "queues_but X ts" "wired ts" "threaded ts" "players_apart ts" "owned ts" "sorted (map get_start_time (tk_waiting ts))"
    "tk_queues ts q = Some tq \<Longrightarrow> counted (tk_waiting ts) tq" "tk_queues ts q = Some tq \<Longrightarrow> q \<notin> X \<Longrightarrow> rested tq"
  using assms queues_butD[of X ts] by (auto simp: sched_but_def)

lemma sched_but_net [simp]:
  "sched_but X (ts\<lparr>tk_net := on_net f (tk_net ts)\<rparr>) = sched_but X ts" "sched_but X (at_net (on_net f) ts) = sched_but X ts"
  "sched_but X (ts\<lparr>tk_current := i\<rparr>) = sched_but X ts"
  by (simp_all add: sched_but_def)

lemma sched_upd:
  assumes "sched_but X ts" "tk_queues ts q = Some t" "tq_usage t' = tq_usage t" "tq_player t' = tq_player t"
    "tq_connected t' = tq_connected t" "counted (tk_waiting ts) t'" "X \<subseteq> insert q Y" "q \<notin> Y \<Longrightarrow> rested t'"
  shows "sched_but Y (ts\<lparr>tk_queues := (tk_queues ts)(q \<mapsto> t')\<rparr>)"
  using assms queues_upd[OF _ assms(2-4,6-8)] wired_upd[OF _ assms(2,4,5)] by (auto simp: sched_but_def)

lemma have_tqueue_ok:
  assumes "sched_but X ts" "world_ok db"
  obtains q ts' tq where "have_tqueue db player ts = Some (q, ts')" "sched_but X ts'" "tk_queues ts' q = Some tq"
    "tq_player tq = player" "tk_waiting ts' = tk_waiting ts" "tk_net ts' = tk_net ts" "tk_active ts' = tk_active ts"
    "\<And>r t. tk_queues ts r = Some t \<Longrightarrow> tk_queues ts' r = Some t"
  using have_tqueue_returns[OF sched_butD(1)[OF assms(1)] assms(2), of player] sched_butD(2)[OF assms(1)]
  by (auto simp: sched_but_def)

lemma ensure_usage_ok:
  assumes "sched_but X ts" "tk_queues ts q = Some tq"
  obtains ts' u where "ensure_usage q ts = Some ts'" "sched_but (X - {q}) ts'" "tk_waiting ts' = tk_waiting ts"
    "tk_net ts' = tk_net ts" "u \<noteq> NO_USAGE" "tk_queues ts' = (tk_queues ts)(q \<mapsto> tq\<lparr>tq_usage := u\<rparr>)"
proof -
  obtain ts' tq' u where "ensure_usage q ts = Some ts'" "queues_but (X - {q}) ts'" "tk_waiting ts' = tk_waiting ts"
    "tk_net ts' = tk_net ts" "tq' = tq\<lparr>tq_usage := u\<rparr>" "tq_usage tq' \<noteq> NO_USAGE" "tk_queues ts' = (tk_queues ts)(q \<mapsto> tq')" "wired ts'"
    using ensure_usage_returns[OF sched_butD(1)[OF assms(1)] assms(2)] sched_butD(2)[OF assms(1)] by blast
  with that[of ts' u] show thesis by (simp add: sched_but_def)
qed

section \<open>Taking\<close>

lemma dequeue_bg_ok:
  assumes "sched_but X ts" "tk_queues ts q = Some tq"
  shows "\<exists>r ts'. dequeue_bg_task q ts = Some (r, ts') \<and> sched_but X ts' \<and>
    (r = None \<and> ts' = ts \<and> tq_bg tq = [] \<or>
     (\<exists>t bg. r = Some t \<and> whole t \<and> tq_bg tq = t # bg \<and> ts' = ts\<lparr>tk_queues := (tk_queues ts)(q \<mapsto>
       tq\<lparr>tq_bg := bg, tq_num_bg_tasks := tq_num_bg_tasks tq - 1\<rparr>)\<rparr>))"
proof (cases "tq_bg tq")
  case Nil
  then show ?thesis using assms by (auto simp: dequeue_bg_task_def)
next
  case (Cons t bg)
  let ?t = "tq\<lparr>tq_bg := bg, tq_num_bg_tasks := tq_num_bg_tasks tq - 1\<rparr>"
  have c: "counted (tk_waiting ts) ?t" "whole t"
    using sched_butD(7)[OF assms] Cons by (auto simp: counted_def)
  have "rested ?t" if "q \<notin> X" using sched_butD(8)[OF assms that] Cons by (auto simp: rested_def may_run_def)
  with c have "sched_but X (ts\<lparr>tk_queues := (tk_queues ts)(q \<mapsto> ?t)\<rparr>)" by (intro sched_upd[OF assms]) auto
  then show ?thesis using assms(2) Cons c(2) by (auto simp: dequeue_bg_task_def upd_tq_def)
qed

lemma dequeue_input_ok:
  assumes "sched_but X ts" "tk_queues ts q = Some tq"
  shows "\<exists>r ts'. dequeue_input_task nw q ts = Some (r, ts') \<and> sched_but X ts' \<and> tk_waiting ts' = tk_waiting ts \<and>
    tk_active ts' = tk_active ts \<and> tk_idle ts' = tk_idle ts \<and>
    (r = None \<and> ts' = ts \<and> tq_input tq = [] \<or>
     (\<exists>s inp tq'. r = Some s \<and> tq_input tq = s # inp \<and> tk_queues ts' = (tk_queues ts)(q \<mapsto> tq') \<and> tq_input tq' = inp))"
proof (cases "tq_input tq")
  case Nil
  then show ?thesis using assms by (auto simp: dequeue_input_task_def)
next
  case (Cons s inp)
  let ?len = "tq_total_input_length tq - int (length s)"
  let ?t = "tq\<lparr>tq_input := inp, tq_total_input_length := ?len\<rparr>"
  let ?ts = "ts\<lparr>tk_queues := (tk_queues ts)(q \<mapsto> ?t)\<rparr>"
  have c: "counted (tk_waiting ts) ?t" "counted (tk_waiting ts) (?t\<lparr>tq_input_suspended := b\<rparr>)" for b
    using sched_butD(7)[OF assms] Cons by (auto simp: counted_def)
  have r: "rested ?t" "rested (?t\<lparr>tq_input_suspended := b\<rparr>)" if "q \<notin> X" for b
    using sched_butD(8)[OF assms that] Cons by (auto simp: rested_def may_run_def is_out_of_input_def)
  have ok: "sched_but X ?ts" using c r by (intro sched_upd[OF assms]) auto
  show ?thesis
  proof (cases "tq_input_suspended tq \<and> tq_connected tq \<and> ?len < INPUT_LOWAT")
    case False
    then have "dequeue_input_task nw q ts = Some (Some s, ?ts)"
      using assms(2) Cons by (auto simp: dequeue_input_task_def upd_tq_def Let_def)
    then show ?thesis using ok Cons by (intro exI[of _ "Some s"] exI[of _ ?ts]) auto
  next
    case True
    obtain h where h: "find_shandle (tq_player tq) (tk_net ts) = Some h"
      using wired_handle[OF sched_butD(2)[OF assms(1)] assms(2)] True by blast
    let ?r = "?ts\<lparr>tk_net := on_net (nw_resume_input nw (sh_nhandle h)) (tk_net ts),
      tk_queues := (tk_queues ts)(q \<mapsto> ?t\<lparr>tq_input_suspended := False\<rparr>)\<rparr>"
    have "dequeue_input_task nw q ts = Some (Some s, ?r)"
      using assms(2) Cons True h
      by (simp add: dequeue_input_task_def upd_tq_def Let_def at_net_opt_def server_resume_input_def)
    moreover have "sched_but X (?ts\<lparr>tk_net := on_net (nw_resume_input nw (sh_nhandle h)) (tk_net ?ts)\<rparr>)"
      using ok by (simp only: sched_but_net)
    then have "sched_but X ?r"
      using sched_upd[of X "?ts\<lparr>tk_net := on_net (nw_resume_input nw (sh_nhandle h)) (tk_net ts)\<rparr>" q ?t
          "?t\<lparr>tq_input_suspended := False\<rparr>" X] c r by auto
    ultimately show ?thesis using Cons by (intro exI[of _ "Some s"] exI[of _ ?r]) auto
  qed
qed

lemma next_task_ok:
  assumes "sched_but X ts" "tk_queues ts q = Some tq"
  shows "\<exists>r ts'. next_task nw q ts = Some (r, ts') \<and> sched_but X ts' \<and> tk_active ts' = tk_active ts \<and>
    (r = None \<longrightarrow> ts' = ts \<and> (tq_bg tq = [] \<and> (tq_input tq = [] \<or> tq_hold_input tq \<and> tq_reading tq = None)))"
proof (cases "tq_hold_input tq \<and> tq_reading tq = None")
  case True
  then show ?thesis using dequeue_bg_ok[OF assms] assms(2) by (auto simp: next_task_def)
next
  case False
  obtain line ts1 where 1: "dequeue_input_task nw q ts = Some (line, ts1)" "sched_but X ts1"
    "tk_active ts1 = tk_active ts" "line = None \<Longrightarrow> ts1 = ts \<and> tq_input tq = []"
    using dequeue_input_ok[OF assms, of nw] by blast
  show ?thesis
  proof (cases line)
    case None
    then show ?thesis using 1 False dequeue_bg_ok[OF assms] assms(2) by (auto simp: next_task_def dequeue_any_task_def)
  next
    case (Some s)
    then show ?thesis using 1 False assms(2) by (auto simp: next_task_def dequeue_any_task_def)
  qed
qed

section \<open>Lines of input\<close>

lemma suspend_if_ok:
  assumes "sched_but X ts" "tk_queues ts q = Some tq"
  shows "\<exists>ts' b. suspend_if nw q full ts = Some ts' \<and> sched_but X ts' \<and> tk_waiting ts' = tk_waiting ts \<and>
    tk_queues ts' = (tk_queues ts)(q \<mapsto> tq\<lparr>tq_input_suspended := b\<rparr>)"
proof (cases "\<not> tq_input_suspended tq \<and> tq_connected tq \<and> full tq")
  case False
  moreover have "tk_queues ts = (tk_queues ts)(q \<mapsto> tq\<lparr>tq_input_suspended := tq_input_suspended tq\<rparr>)" using assms(2) by auto
  ultimately show ?thesis using assms by (intro exI[of _ ts] exI[of _ "tq_input_suspended tq"]) (auto simp: suspend_if_def)
next
  case True
  obtain h where h: "find_shandle (tq_player tq) (tk_net ts) = Some h"
    using wired_handle[OF sched_butD(2)[OF assms(1)] assms(2)] True by blast
  let ?ts = "ts\<lparr>tk_net := on_net (nw_suspend_input nw (sh_nhandle h)) (tk_net ts)\<rparr>"
  let ?t = "tq\<lparr>tq_input_suspended := True\<rparr>"
  have "sched_but X ?ts" using assms(1) by simp
  moreover have "counted (tk_waiting ts) ?t" using sched_butD(7)[OF assms] by (simp add: counted_def)
  moreover have "rested ?t" if "q \<notin> X"
    using sched_butD(8)[OF assms that] by (simp add: rested_def may_run_def is_out_of_input_def)
  ultimately have "sched_but X (?ts\<lparr>tk_queues := (tk_queues ts)(q \<mapsto> ?t)\<rparr>)"
    using sched_upd[of X ?ts q tq ?t X] assms(2) by auto
  then show ?thesis using True assms(2) h
    by (intro exI[of _ "?ts\<lparr>tk_queues := (tk_queues ts)(q \<mapsto> ?t)\<rparr>"] exI[of _ True])
      (simp add: suspend_if_def at_net_opt_def server_suspend_input_def upd_tq_def)
qed

lemma enqueue_input_ok:
  assumes "sched_ok ts" "tk_queues ts q = Some tq"
  shows "\<exists>ts' t. enqueue_input_task nw q input at_front ts = Some ts' \<and> sched_ok ts' \<and> tk_queues ts' q = Some t"
proof -
  let ?t = "tq\<lparr>tq_total_input_length := tq_total_input_length tq + int (length input),
    tq_input := (if at_front then input # tq_input tq else tq_input tq @ [input])\<rparr>"
  let ?ts = "ts\<lparr>tk_queues := (tk_queues ts)(q \<mapsto> ?t)\<rparr>"
  have c: "counted (tk_waiting ts) ?t" using sched_butD(7)[OF assms] by (auto simp: counted_def)
  have "\<exists>ts2 tq2. (if \<not> tq_hold_input ?t \<or> tq_reading ?t \<noteq> None then ensure_usage q ?ts else Some ?ts) = Some ts2 \<and>
    sched_ok ts2 \<and> tk_queues ts2 q = Some tq2"
  proof (cases "\<not> tq_hold_input ?t \<or> tq_reading ?t \<noteq> None")
    case True
    have "sched_but {q} ?ts" using c by (intro sched_upd[OF assms]) auto
    then obtain ts2 u where "ensure_usage q ?ts = Some ts2" "sched_but ({q} - {q}) ts2"
      "tk_queues ts2 = (tk_queues ?ts)(q \<mapsto> ?t\<lparr>tq_usage := u\<rparr>)"
      by (rule ensure_usage_ok[where q = q and tq = ?t]) simp_all
    then show ?thesis using True by (intro exI[of _ ts2]) simp
  next
    case False
    have "rested tq" using sched_butD(8)[OF assms] by simp
    then have "rested ?t" using False by (auto simp: rested_def may_run_def)
    with c have "sched_ok ?ts" by (intro sched_upd[OF assms]) auto
    then show ?thesis using False by simp
  qed
  then obtain ts2 tq2 where 2: "(if \<not> tq_hold_input ?t \<or> tq_reading ?t \<noteq> None then ensure_usage q ?ts else Some ?ts) = Some ts2"
    "sched_ok ts2" "tk_queues ts2 q = Some tq2" by blast
  from suspend_if_ok[OF 2(2,3), of nw "\<lambda>tq. tq_total_input_length tq > INPUT_HIWAT"] 2(1) assms(2)
  show ?thesis by (auto simp: enqueue_input_task_def upd_tq_def split: if_splits)
qed

lemma tell_ok [simp]: "sched_but X (tell nw b p line ts) = sched_but X ts"
  by (auto simp: tell_def notify_def send_line_def at_net_def split: option.splits)

lemma tell_queues [simp]: "tk_queues (tell nw b p line ts) = tk_queues ts"
  by (simp add: tell_def)

lemma flush_lines_ok:
  assumes "sched_ok ts" "tk_queues ts q = Some tq" "n = length (tq_input tq)"
  shows "\<exists>ts' t. flush_lines nw q player b n ts = Some ts' \<and> sched_ok ts' \<and> tk_queues ts' q = Some t"
  using assms
proof (induction n arbitrary: ts tq)
  case (Suc n)
  obtain s ts1 tq1 where "dequeue_input_task nw q ts = Some (Some s, ts1)" "sched_ok ts1" "tk_queues ts1 q = Some tq1"
    "length (tq_input tq1) = n"
    using dequeue_input_ok[OF Suc.prems(1,2), of nw] Suc.prems(3) by fastforce
  then show ?case using Suc.IH[of "tell nw b player (''>>     '' @ s) ts1" tq1] by auto
qed auto

lemma flush_input_ok:
  assumes "sched_ok ts" "tk_queues ts q = Some tq"
  shows "\<exists>ts' t. flush_input nw q b ts = Some ts' \<and> sched_ok ts' \<and> tk_queues ts' q = Some t"
  using assms flush_lines_ok[of "tell nw b (tq_player tq) ''>> Flushing the following pending input:'' ts" q tq _ nw "tq_player tq" b]
  by (auto simp: flush_input_def Let_def)

lemma new_input_ok:
  assumes "sched_ok ts" "tk_queues ts q = Some tq"
  shows "\<exists>ts' t. new_input_task nw q input ts = Some ts' \<and> sched_ok ts' \<and> tk_queues ts' q = Some t"
  using assms flush_input_ok[OF assms, of nw True] enqueue_input_ok[OF assms, of nw input False]
  by (auto simp: new_input_task_def split: option.splits)

end
