(* ===== verification/Task_Waits.thy ===== *)
theory Task_Waits
  imports Task_Keeps
begin

text \<open>
  The tasks that wait for their time: forking and suspending, waking, killing and resuming return and
  leave the queues in order.
\<close>

section \<open>Changing the list of the waiting tasks\<close>

lemma waiting_for_simps [simp]:
  "waiting_for p [] = 0" "waiting_for p (t # ws) = (if bg_progr t = Some p then 1 else 0) + waiting_for p ws"
  "waiting_for p (ws @ vs) = waiting_for p ws + waiting_for p vs"
  by (simp_all add: waiting_for_def)

text \<open>The tasks of one programmer change, and with them a queue of that programmer.\<close>

lemma sched_waiting:
  assumes "sched_but X ts" "tk_queues ts q = Some tq" "\<And>p. p \<noteq> tq_player tq \<Longrightarrow> waiting_for p ws = waiting_for p (tk_waiting ts)"
    "sorted (map get_start_time ws)" "\<And>t. t \<in> set ws \<Longrightarrow> whole t" "tq_usage t' = tq_usage tq" "tq_player t' = tq_player tq"
    "tq_connected t' = tq_connected tq" "counted ws t'" "X \<subseteq> insert q Y" "q \<notin> Y \<Longrightarrow> rested t'"
  shows "sched_but Y (ts\<lparr>tk_queues := (tk_queues ts)(q \<mapsto> t'), tk_waiting := ws\<rparr>)"
proof -
  note ok = sched_butD[OF assms(1)]
  let ?ts = "ts\<lparr>tk_queues := (tk_queues ts)(q \<mapsto> t'), tk_waiting := ws\<rparr>"
  have "owned ?ts" unfolding owned_def
  proof (intro conjI allI impI ballI)
    fix p assume p: "p \<noteq> NOTHING \<and> waiting_for p (tk_waiting ?ts) \<noteq> 0"
    show "\<exists>r t. tk_queues ?ts r = Some t \<and> tq_player t = p"
    proof (cases "p = tq_player tq")
      case True
      then show ?thesis using assms(7) by (intro exI[of _ q] exI[of _ t']) simp
    next
      case False
      then obtain r t where r: "tk_queues ts r = Some t" "tq_player t = p"
        using ok(5) p assms(3) by (auto simp: owned_def)
      with False assms(2) have "r \<noteq> q" by auto
      with r show ?thesis by (intro exI[of _ r] exI[of _ t]) simp
    qed
  qed (use assms(5) in simp)
  moreover have "threaded ?ts" using threaded_upd[OF ok(3) assms(2,6)] by simp
  moreover have "players_apart ?ts" using players_apart_upd[OF ok(4) assms(2,7)] by simp
  moreover have "wired ?ts" using wired_upd[OF ok(2) assms(2,7,8)] by simp
  moreover have "counted ws t \<and> (r \<notin> Y \<longrightarrow> rested t)" if "tk_queues ?ts r = Some t" for r t
  proof (cases "r = q")
    case True
    then show ?thesis using that assms(9,11) by auto
  next
    case False
    then have r: "tk_queues ts r = Some t" using that by simp
    have "tq_player t \<noteq> NOTHING \<Longrightarrow> tq_player t \<noteq> tq_player tq" using ok(4) r assms(2) False unfolding players_apart_def by blast
    then have "counted ws t" using ok(7)[OF r] assms(3) by (auto simp: counted_def)
    moreover have "rested t" if "r \<notin> Y" using ok(8)[OF r] that False assms(10) by blast
    ultimately show ?thesis by blast
  qed
  ultimately show ?thesis using assms(4) by (simp add: sched_but_def queues_but_def)
qed

text \<open>A task of no player may go away alone.\<close>

lemma sched_waiting_none:
  assumes "sched_but X ts" "\<And>p. p \<noteq> NOTHING \<Longrightarrow> waiting_for p ws = waiting_for p (tk_waiting ts)"
    "sorted (map get_start_time ws)" "\<And>t. t \<in> set ws \<Longrightarrow> whole t"
  shows "sched_but X (ts\<lparr>tk_waiting := ws\<rparr>)"
  using assms sched_butD[OF assms(1)]
  by (auto simp: sched_but_def queues_but_def owned_def counted_def)

section \<open>Putting a task on the list\<close>

lemma insert_waiting_set [simp]: "set (insert_waiting t ws) = insert t (set ws)"
  by (induction ws) auto

lemma insert_waiting_for [simp]: "waiting_for p (insert_waiting t ws) = waiting_for p (t # ws)"
  by (induction ws) auto

lemma insert_waiting_sorted: "sorted (map get_start_time ws) \<Longrightarrow> sorted (map get_start_time (insert_waiting t ws))"
  by (induction ws) (auto simp: not_less)

lemma enqueue_waiting_ok:
  assumes "sched_ok ts" "world_ok db" "whole t"
  shows "\<exists>ts'. enqueue_waiting db t ts = Some ts' \<and> sched_ok ts'"
proof -
  obtain p where p: "bg_progr t = Some p" using assms(3) by (auto simp: whole_def)
  obtain q ts1 tq where 1: "have_tqueue db p ts = Some (q, ts1)" "sched_ok ts1" "tk_queues ts1 q = Some tq"
    "tq_player tq = p" "tk_waiting ts1 = tk_waiting ts"
    using have_tqueue_ok[OF assms(1,2)] by metis
  let ?t = "tq\<lparr>tq_num_bg_tasks := tq_num_bg_tasks tq + 1\<rparr>"
  let ?ts = "ts1\<lparr>tk_queues := (tk_queues ts1)(q \<mapsto> ?t), tk_waiting := insert_waiting t (tk_waiting ts1)\<rparr>"
  have "sched_ok ?ts"
  proof (rule sched_waiting[OF 1(2,3)])
    show "sorted (map get_start_time (insert_waiting t (tk_waiting ts1)))"
      by (rule insert_waiting_sorted) (rule sched_butD(6)[OF 1(2)])
    show "whole u" if "u \<in> set (insert_waiting t (tk_waiting ts1))" for u
      using that assms(3) sched_butD(5)[OF 1(2)] by (auto simp: owned_def)
    show "counted (insert_waiting t (tk_waiting ts1)) ?t"
      using sched_butD(7)[OF 1(2,3)] p 1(4) by (auto simp: counted_def)
    show "rested ?t" using sched_butD(8)[OF 1(2,3)] by (simp add: rested_def may_run_def is_out_of_input_def)
  qed (use p 1(4) in auto)
  then show ?thesis using p 1(1,3) by (auto simp: enqueue_waiting_def upd_tq_def)
qed

lemma enqueue_ft_ok:
  assumes "sched_ok ts" "world_ok db"
  shows "\<exists>ts'. enqueue_ft db prog a env f_index start_time tid ts = Some ts' \<and> sched_ok ts'"
  unfolding enqueue_ft_def by (rule enqueue_waiting_ok[OF assms]) (simp add: whole_def)

lemma time_now_ok:
  assumes "time_now nw ts = (now, ts')"
  shows "sched_but X ts' = sched_but X ts" "tk_queues ts' = tk_queues ts" "tk_waiting ts' = tk_waiting ts"
    "tk_active ts' = tk_active ts"
proof -
  obtain n where n: "ts' = at_net (on_net (\<lambda>_. n)) ts"
    using assms by (auto simp: time_now_def ask_net_def at_net_def on_net_def split: prod.splits)
  show "sched_but X ts' = sched_but X ts" "tk_queues ts' = tk_queues ts" "tk_waiting ts' = tk_waiting ts"
    "tk_active ts' = tk_active ts" unfolding n by simp_all
qed

lemma user_task_limit_returns:
  assumes "world_ok db"
  shows "\<exists>r. user_task_limit db user = Some r"
proof -
  have s: "c_string ''queued_task_limit''" "bi_lookup ''queued_task_limit'' = None" by code_simp+
  obtain v where "(if valid db user then property_of db user ''queued_task_limit'' else Some None) = Some v"
    using property_of_returns[OF assms _ s] by fastforce
  then show ?thesis using server_int_option_returns[OF assms s, of "-1"] by (auto simp: user_task_limit_def Let_def)
qed

lemma check_user_task_limit_returns:
  assumes "sched_but X ts" "world_ok db"
  shows "\<exists>b. check_user_task_limit db user ts = Some b"
  using find_tqueue_returns[OF sched_butD(3)[OF assms(1)], of user] user_task_limit_returns[OF assms(2), of user]
  by (auto simp: check_user_task_limit_def split: option.splits)

lemma do_enqueue_suspended_ok:
  assumes "sched_ok ts" "world_ok db" "top_activ m \<noteq> None"
  shows "\<exists>e ts'. do_enqueue_suspended nw db m after ts = Some (e, ts') \<and> sched_ok ts'"
proof -
  obtain now ts1 where 1: "time_now nw ts = (now, ts1)" by fastforce
  have ok: "sched_ok ts1" using time_now_ok(1)[OF 1] assms(1) by simp
  obtain p where p: "progr_of_cur_verb m = Some p" using assms(3) by (auto simp: progr_of_cur_verb_def)
  obtain b where b: "check_user_task_limit db p ts1 = Some b" using check_user_task_limit_returns[OF ok assms(2)] by blast
  have "whole (Suspended \<lparr>st_vm = m, st_start_time = wake_time (word_of_int now) after, st_value = VInt 0\<rparr>)"
    using p by (simp add: whole_def)
  from enqueue_waiting_ok[OF ok assms(2) this] show ?thesis
    using 1 p b ok by (cases b) (auto simp: do_enqueue_suspended_def)
qed

section \<open>Reading\<close>

lemma find_tqueue_ok:
  assumes "sched_but X ts"
  obtains "find_tqueue p ts = Some None" "\<forall>q tq. tk_queues ts q = Some tq \<longrightarrow> tq_player tq \<noteq> p"
  | q tq where "find_tqueue p ts = Some (Some q)" "tk_queues ts q = Some tq" "tq_player tq = p"
proof -
  obtain r where r: "find_tqueue p ts = Some r" "case r of
      Some q \<Rightarrow> \<exists>tq. tk_queues ts q = Some tq \<and> tq_player tq = p
    | None \<Rightarrow> \<forall>q tq. tk_queues ts q = Some tq \<longrightarrow> tq_player tq \<noteq> p"
    using find_tqueue_returns[OF sched_butD(3)[OF assms], of p] by blast
  show thesis by (cases r) (use r that in auto)
qed

lemma read_input_now_ok:
  assumes "sched_ok ts"
  shows "\<exists>v ts'. read_input_now nw c ts = Some (v, ts') \<and> sched_ok ts'"
proof (cases rule: find_tqueue_ok[OF assms, of c])
  case 1
  then show ?thesis using assms by (auto simp: read_input_now_def)
next
  case (2 q tq)
  from dequeue_input_ok[OF assms 2(2), of nw] 2 assms show ?thesis by (auto simp: read_input_now_def)
qed

lemma do_make_reading_ok:
  assumes "sched_ok ts" "top_activ m \<noteq> None"
  shows "\<exists>e ts'. do_make_reading m p ts = Some (e, ts') \<and> sched_ok ts'"
proof (cases rule: find_tqueue_ok[OF assms(1), of p])
  case 1
  then show ?thesis using assms by (auto simp: do_make_reading_def)
next
  case (2 q tq)
  show ?thesis
  proof (cases "tq_reading tq \<noteq> None \<or> is_out_of_input tq")
    case True
    then show ?thesis using 2 assms by (auto simp: do_make_reading_def)
  next
    case False
    let ?t = "tq\<lparr>tq_reading := Some m\<rparr>"
    let ?ts = "ts\<lparr>tk_queues := (tk_queues ts)(q \<mapsto> ?t)\<rparr>"
    have c: "counted (tk_waiting ts) ?t" using sched_butD(7)[OF assms(1) 2(2)] assms(2) by (simp add: counted_def)
    show ?thesis
    proof (cases "tq_input tq = []")
      case True
      have "rested ?t" using sched_butD(8)[OF assms(1) 2(2)] False True
        by (auto simp: rested_def may_run_def is_out_of_input_def)
      with c have "sched_ok ?ts" by (intro sched_upd[OF assms(1) 2(2)]) auto
      then show ?thesis using 2 False True by (auto simp: do_make_reading_def upd_tq_def)
    next
      case ne: False
      have "sched_but {q} ?ts" using c by (intro sched_upd[OF assms(1) 2(2)]) auto
      then obtain ts' where "ensure_usage q ?ts = Some ts'" "sched_ok ts'"
        by (rule ensure_usage_ok[where q = q and tq = ?t]) auto
      then show ?thesis using 2 False ne by (auto simp: do_make_reading_def upd_tq_def)
    qed
  qed
qed

section \<open>Making a waiting task ready\<close>

lemma have_tqueue_waiting:
  "have_tqueue db p (ts\<lparr>tk_waiting := ws\<rparr>) = map_option (\<lambda>(q, t). (q, t\<lparr>tk_waiting := ws\<rparr>)) (have_tqueue db p ts)"
  by (auto simp: have_tqueue_def find_tqueue_def deactivate_tqueue_def upd_tq_def Let_def bind_eq_Some_conv
      split: Option.bind_splits option.splits)

lemma ensure_usage_waiting:
  "ensure_usage q (ts\<lparr>tk_waiting := ws\<rparr>) = map_option (tk_waiting_update (\<lambda>_. ws)) (ensure_usage q ts)"
  by (auto simp: ensure_usage_def least_usage_def activate_tqueue_def upd_tq_def split: Option.bind_splits list.splits)

lemma enqueue_bg_waiting:
  "enqueue_bg_task q t (ts\<lparr>tk_waiting := ws\<rparr>) = map_option (tk_waiting_update (\<lambda>_. ws)) (enqueue_bg_task q t ts)"
  by (auto simp: enqueue_bg_task_def upd_tq_def split: Option.bind_splits)

text \<open>\<open>t\<close> leaves the list, and \<open>t'\<close>, of the same programmer, goes to the queue.\<close>

lemma ready_waiting:
  assumes "sched_ok ts" "world_ok db" "tk_waiting ts = us @ t # ws" "bg_progr t = Some p" "bg_progr t' = Some p"
  shows "\<exists>q ts1 ts2 ts3. have_tqueue db p ts = Some (q, ts1) \<and> ensure_usage q ts1 = Some ts2 \<and>
    enqueue_bg_task q t' ts2 = Some ts3 \<and> sched_ok (ts3\<lparr>tk_waiting := us @ ws\<rparr>)"
proof -
  obtain q ts1 tq where 1: "have_tqueue db p ts = Some (q, ts1)" "sched_ok ts1" "tk_queues ts1 q = Some tq"
    "tq_player tq = p" "tk_waiting ts1 = tk_waiting ts"
    using have_tqueue_ok[OF assms(1,2)] by metis
  obtain ts2 u where 2: "ensure_usage q ts1 = Some ts2" "sched_ok ts2" "tk_waiting ts2 = tk_waiting ts1"
    "u \<noteq> NO_USAGE" "tk_queues ts2 = (tk_queues ts1)(q \<mapsto> tq\<lparr>tq_usage := u\<rparr>)"
    by (rule ensure_usage_ok[OF 1(2,3)]) simp
  let ?t2 = "tq\<lparr>tq_usage := u\<rparr>"
  let ?t3 = "?t2\<lparr>tq_bg := tq_bg tq @ [t']\<rparr>"
  have q2: "tk_queues ts2 q = Some ?t2" using 2(5) by simp
  have w: "tk_waiting ts2 = us @ t # ws" using 1(5) 2(3) assms(3) by simp
  have "sched_ok (ts2\<lparr>tk_queues := (tk_queues ts2)(q \<mapsto> ?t3), tk_waiting := us @ ws\<rparr>)"
  proof (rule sched_waiting[OF 2(2) q2])
    show "sorted (map get_start_time (us @ ws))" using sched_butD(6)[OF 2(2)] w by (auto simp: sorted_append)
    show "whole u" if "u \<in> set (us @ ws)" for u using that sched_butD(5)[OF 2(2)] w by (auto simp: owned_def)
    show "counted (us @ ws) ?t3" using sched_butD(7)[OF 2(2) q2] w assms(4,5) 1(4) by (auto simp: counted_def whole_def)
    show "rested ?t3" using 2(4) by (simp add: rested_def)
  qed (use w assms(4) 1(4) in auto)
  moreover have "enqueue_bg_task q t' ts2 = Some (ts2\<lparr>tk_queues := (tk_queues ts2)(q \<mapsto> ?t3)\<rparr>)"
    using q2 by (cases tq) (simp add: enqueue_bg_task_def upd_tq_def)
  ultimately show ?thesis using 1(1) 2(1)
    by (intro exI[of _ q] exI[of _ ts1] exI[of _ ts2] exI[of _ "ts2\<lparr>tk_queues := (tk_queues ts2)(q \<mapsto> ?t3)\<rparr>"]) simp
qed

lemma wake_tasks_ok:
  assumes "sched_ok (ts\<lparr>tk_waiting := ws\<rparr>)" "world_ok db"
  shows "\<exists>ts'. wake_tasks db now ws ts = Some ts' \<and> sched_ok ts'"
  using assms(1)
proof (induction ws arbitrary: ts)
  case (Cons t ws)
  show ?case
  proof (cases "get_start_time t \<le> now")
    case True
    obtain p where p: "bg_progr t = Some p"
      using sched_butD(5)[OF Cons.prems] by (auto simp: owned_def whole_def)
    obtain q ts1 ts2 ts3 where "have_tqueue db p (ts\<lparr>tk_waiting := t # ws\<rparr>) = Some (q, ts1)" "ensure_usage q ts1 = Some ts2"
      "enqueue_bg_task q t ts2 = Some ts3" and ok: "sched_ok (ts3\<lparr>tk_waiting := ws\<rparr>)"
      using ready_waiting[OF Cons.prems assms(2), of "[]" t ws p t] p by auto
    then obtain us1 us2 us3 where "have_tqueue db p ts = Some (q, us1)" "ts1 = us1\<lparr>tk_waiting := t # ws\<rparr>"
      "ensure_usage q us1 = Some us2" "ts2 = us2\<lparr>tk_waiting := t # ws\<rparr>" "enqueue_bg_task q t us2 = Some us3"
      "ts3 = us3\<lparr>tk_waiting := t # ws\<rparr>"
      by (auto simp: have_tqueue_waiting ensure_usage_waiting enqueue_bg_waiting)
    then show ?thesis using True p Cons.IH[of us3] ok by simp
  qed (use Cons.prems in simp)
qed simp

end
