(* ===== verification/Task_Rounds.thy ===== *)
theory Task_Rounds
  imports Task_Waits
begin

text \<open>
  A round of the scheduler, killing and resuming, and the connections: every operation returns and
  leaves the queues in order.
\<close>

section \<open>The two lists\<close>

lemma parts_cong:
  "tk_queues ts = tk_queues us \<Longrightarrow> players_apart ts \<longleftrightarrow> players_apart us"
  "tk_queues ts = tk_queues us \<Longrightarrow> tk_waiting ts = tk_waiting us \<Longrightarrow> owned ts \<longleftrightarrow> owned us"
  "tk_queues ts = tk_queues us \<Longrightarrow> tk_net ts = on_net f (tk_net us) \<Longrightarrow> wired ts \<longleftrightarrow> wired us"
  by (simp_all add: players_apart_def owned_def wired_def on_net_def)

text \<open>A queue changes its usage and its place.\<close>

lemma sched_relink:
  assumes "sched_but X ts" "tk_queues ts q = Some tq" "tk_net ts' = on_net f (tk_net ts)" "tk_waiting ts' = tk_waiting ts"
    "tk_queues ts' = (tk_queues ts)(q \<mapsto> tq\<lparr>tq_usage := u\<rparr>)" "threaded ts'" "X \<subseteq> insert q Y"
    "q \<notin> Y \<Longrightarrow> rested (tq\<lparr>tq_usage := u\<rparr>)"
  shows "sched_but Y ts'"
proof -
  note ok = sched_butD[OF assms(1)]
  have same: "tq_player (tq\<lparr>tq_usage := u\<rparr>) = tq_player tq" "tq_connected (tq\<lparr>tq_usage := u\<rparr>) = tq_connected tq" by simp_all
  let ?ts = "ts\<lparr>tk_queues := (tk_queues ts)(q \<mapsto> tq\<lparr>tq_usage := u\<rparr>)\<rparr>"
  have e: "tk_queues ts' = tk_queues ?ts" "tk_waiting ts' = tk_waiting ?ts" "tk_net ts' = on_net f (tk_net ?ts)"
    using assms(3-5) by simp_all
  have "players_apart ts'" using players_apart_upd[OF ok(4) assms(2) same(1)] parts_cong(1)[OF e(1)] by blast
  moreover have "owned ts'" using owned_upd[OF ok(5) assms(2) same(1)] parts_cong(2)[OF e(1,2)] by blast
  moreover have "wired ts'" using wired_upd[OF ok(2) assms(2) same] parts_cong(3)[OF e(1,3)] by blast
  moreover have "counted (tk_waiting ts) t \<and> (r \<notin> Y \<longrightarrow> rested t)" if "tk_queues ts' r = Some t" for r t
  proof (cases "r = q")
    case True
    then show ?thesis using that ok(7)[OF assms(2)] assms(5,8) by (auto simp: counted_def)
  next
    case False
    then have r: "tk_queues ts r = Some t" using that assms(5) by simp
    have "rested t" if "r \<notin> Y" using ok(8)[OF r] that False assms(7) by blast
    with ok(7)[OF r] show ?thesis by blast
  qed
  ultimately show ?thesis using ok(6) assms(4,6) by (simp add: sched_but_def queues_but_def)
qed

lemma threaded_head:
  assumes "threaded ts" "tk_active ts = q # qs"
  shows "\<exists>tq. tk_queues ts q = Some tq \<and> tq_usage tq \<noteq> NO_USAGE" "q \<notin> set qs" "q \<notin> set (tk_idle ts)"
    "distinct qs" "sorted (map (usage_of ts) qs)"
proof -
  show "q \<notin> set qs" "distinct qs" "sorted (map (usage_of ts) qs)" using assms by (auto simp: threaded_def)
  show i: "q \<notin> set (tk_idle ts)" using assms by (auto simp: threaded_def)
  obtain tq where "tk_queues ts q = Some tq" using threaded_cell[OF assms(1), of q] assms(2) by auto
  with i assms(1) show "\<exists>tq. tk_queues ts q = Some tq \<and> tq_usage tq \<noteq> NO_USAGE" unfolding threaded_def by blast
qed

text \<open>The head of the active list is charged and put where its usage belongs.\<close>

lemma charge_queue_ok:
  assumes "sched_but X ts" "tk_active ts = q # qs" "tk_queues ts q = Some tq"
    "\<And>now ts'. time_now nw (unlink_head q ts) = (now, ts') \<Longrightarrow> (word_of_int (sint (tq_usage tq) + (now - start)) :: int32) \<noteq> NO_USAGE"
  shows "\<exists>ts'. charge_queue nw start q (unlink_head q ts) = Some ts' \<and> sched_but (X - {q}) ts'"
proof -
  note ok = sched_butD[OF assms(1)]
  note hd = threaded_head[OF ok(3) assms(2)]
  obtain now n where now: "nw_time nw (cn_net (tk_net ts)) = (now, n)" by fastforce
  let ?u = "word_of_int (sint (tq_usage tq) + (now - start)) :: int32"
  let ?ts = "ts\<lparr>tk_active := qs, tk_net := on_net (\<lambda>_. n) (tk_net ts), tk_queues := (tk_queues ts)(q \<mapsto> tq\<lparr>tq_usage := ?u\<rparr>)\<rparr>"
  have t: "time_now nw (unlink_head q ts) = (now, ts\<lparr>tk_active := qs, tk_net := on_net (\<lambda>_. n) (tk_net ts)\<rparr>)"
    using now assms(2) by (simp add: time_now_def ask_net_def unlink_head_def on_net_def)
  have u: "?u \<noteq> NO_USAGE" using assms(4)[OF t] .
  have same: "usage_of ?ts a = usage_of ts a" if "a \<in> set qs" for a using that hd(2) by (auto simp: usage_of_def)
  then have "map (usage_of ?ts) qs = map (usage_of ts) qs" by simp
  then have s: "sorted (map (usage_of ?ts) qs)" using hd(5) by metis
  have "\<exists>t. tk_queues ?ts a = Some t \<and> usage_of ?ts a = sint (tq_usage t)" if "a \<in> set qs" for a
  proof -
    from that assms(2) obtain t where "tk_queues ts a = Some t" using threaded_cell[OF ok(3), of a] by auto
    with that hd(2) show ?thesis by (intro exI[of _ t]) (auto simp: usage_of_def)
  qed
  then have "\<forall>a \<in> set qs. \<exists>t. tk_queues ?ts a = Some t \<and> usage_of ?ts a = sint (tq_usage t)" by blast
  with place_by_usage_sorted[OF s, of "tk_queues ?ts" q ?u] obtain as
    where as: "place_by_usage (tk_queues ?ts) ?u q qs = Some as" "sorted (map (usage_of ?ts) as)"
      "set as = insert q (set qs)" "distinct as"
    using hd(2,4) by (auto simp: usage_of_def)
  let ?r = "?ts\<lparr>tk_active := as\<rparr>"
  have "threaded ?r"
  proof -
    have "usage_of ?r = usage_of ?ts" by (simp add: usage_of_def fun_eq_iff)
    then have "sorted (map (usage_of ?r) as)" using as(2) by metis
    then show ?thesis using ok(3) as(3,4) assms(2,3) u by (auto simp: threaded_def)
  qed
  then have "sched_but (X - {q}) ?r"
    using u by (intro sched_relink[OF assms(1,3), of ?r "\<lambda>_. n" ?u]) (auto simp: rested_def)
  moreover have "charge_queue nw start q (unlink_head q ts) = Some ?r"
    using t as(1) assms(3) by (cases tq) (simp add: charge_queue_def upd_tq_def activate_tqueue_def)
  ultimately show ?thesis by blast
qed

lemma deactivate_head_ok:
  assumes "sched_but X ts" "tk_active ts = q # qs" "tk_queues ts q = Some tq" "\<not> may_run tq"
  shows "\<exists>ts'. deactivate_tqueue q (unlink_head q ts) = Some ts' \<and> sched_but (X - {q}) ts'"
proof -
  note ok = sched_butD[OF assms(1)]
  note hd = threaded_head[OF ok(3) assms(2)]
  let ?ts = "ts\<lparr>tk_active := qs, tk_queues := (tk_queues ts)(q \<mapsto> tq\<lparr>tq_usage := NO_USAGE\<rparr>), tk_idle := q # tk_idle ts\<rparr>"
  have "usage_of ?ts a = usage_of ts a" if "a \<in> set qs" for a using that hd(2) by (auto simp: usage_of_def)
  then have "map (usage_of ?ts) qs = map (usage_of ts) qs" by simp
  then have s: "sorted (map (usage_of ?ts) qs)" using hd(5) by metis
  have d: "distinct (tk_active ts @ tk_idle ts)" "dom (tk_queues ts) = set (tk_active ts) \<union> set (tk_idle ts)"
    "\<forall>q \<in> dom (tk_queues ts). q < tk_fresh ts" "\<And>r t. tk_queues ts r = Some t \<Longrightarrow> r \<in> set (tk_idle ts) \<longleftrightarrow> tq_usage t = NO_USAGE"
    using ok(3) unfolding threaded_def by blast+
  have "dom (tk_queues ?ts) = set (tk_active ?ts) \<union> set (tk_idle ?ts)" using d(2) assms(2) by auto
  moreover have "distinct (tk_active ?ts @ tk_idle ?ts)" using d(1) hd assms(2) by auto
  moreover have "\<forall>r \<in> dom (tk_queues ?ts). r < tk_fresh ?ts" using d(2,3) assms(2) by auto
  moreover have "r \<in> set (tk_idle ?ts) \<longleftrightarrow> tq_usage t = NO_USAGE" if "tk_queues ?ts r = Some t" for r t
    using that d(4)[of r t] by (cases "r = q") auto
  moreover have "sorted (map (usage_of ?ts) (tk_active ?ts))" using s by simp
  ultimately have "threaded ?ts" unfolding threaded_def by blast
  then have "sched_but (X - {q}) ?ts"
    using assms(4) by (intro sched_relink[OF assms(1,3), of ?ts id NO_USAGE])
      (auto simp: rested_def may_run_def is_out_of_input_def on_net_def)
  then show ?thesis using assms(2,3) by (simp add: deactivate_tqueue_def upd_tq_def unlink_head_def)
qed

lemma free_tqueue_ok:
  assumes "sched_ok ts" "tk_queues ts q = Some tq" "q \<in> set (tk_idle ts)" "\<not> tq_connected tq" "tq_num_bg_tasks tq = 0"
  shows "\<exists>ts'. free_tqueue q ts = Some ts' \<and> sched_ok ts' \<and> tk_idle ts' = remove1 q (tk_idle ts) \<and>
    tk_queues ts' = (tk_queues ts)(q := None)"
proof -
  note ok = sched_butD[OF assms(1)]
  let ?ts = "ts\<lparr>tk_idle := remove1 q (tk_idle ts), tk_queues := (tk_queues ts)(q := None)\<rparr>"
  have d: "distinct (tk_active ts)" "distinct (tk_idle ts)" "set (tk_active ts) \<inter> set (tk_idle ts) = {}"
    "dom (tk_queues ts) = set (tk_active ts) \<union> set (tk_idle ts)"
    using ok(3) by (auto simp: threaded_def)
  then have out: "q \<notin> set (tk_active ts)" using assms(3) by auto
  then have "usage_of ?ts a = usage_of ts a" if "a \<in> set (tk_active ts)" for a using that by (auto simp: usage_of_def)
  then have "map (usage_of ?ts) (tk_active ts) = map (usage_of ts) (tk_active ts)" by simp
  then have "sorted (map (usage_of ?ts) (tk_active ts))" using ok(3) unfolding threaded_def by metis
  moreover have "dom ((tk_queues ts)(q := None)) = set (tk_active ts) \<union> set (remove1 q (tk_idle ts))"
    using d out by auto
  ultimately have "threaded ?ts" using ok(3) d(2) by (auto simp: threaded_def)
  moreover have sub: "tk_queues ts r = Some t" if "tk_queues ?ts r = Some t" for r t using that by (auto split: if_splits)
  then have "players_apart ?ts" using ok(4) unfolding players_apart_def by blast
  moreover have "owned ?ts" unfolding owned_def
  proof (intro conjI allI impI ballI)
    fix p assume p: "p \<noteq> NOTHING \<and> waiting_for p (tk_waiting ?ts) \<noteq> 0"
    then obtain r t where r: "tk_queues ts r = Some t" "tq_player t = p" using ok(5) by (auto simp: owned_def)
    have "waiting_for (tq_player tq) (tk_waiting ts) = 0" if "tq_player tq \<noteq> NOTHING"
      using ok(7)[OF assms(2)] assms(5) that by (auto simp: counted_def)
    with r p assms(2) have "r \<noteq> q" by auto
    with r show "\<exists>r t. tk_queues ?ts r = Some t \<and> tq_player t = p" by (intro exI[of _ r] exI[of _ t]) simp
  qed (use ok(5) in \<open>simp add: owned_def\<close>)
  moreover have "wired ?ts"
  proof -
    have "\<exists>t. ((tk_queues ts)(q := None)) r = Some t \<and> tq_connected t \<and> tq_player t = p"
      if "\<exists>t. tk_queues ts r = Some t \<and> tq_connected t \<and> tq_player t = p" for r p
      using that assms(2,4) by auto
    then have held: "\<exists>t. tk_queues ?ts r = Some t \<and> tq_connected t \<and> tq_player t = p"
      if "\<exists>t. tk_queues ts r = Some t \<and> tq_connected t \<and> tq_player t = p" for r p using that by simp
    have net: "tk_net ?ts = tk_net ts" by simp
    show ?thesis using ok(2) held sub unfolding wired_def Let_def net by blast
  qed
  moreover have "counted (tk_waiting ts) t \<and> rested t" if "tk_queues ?ts r = Some t" for r t
    using that ok(7,8) by (auto split: if_splits)
  ultimately have "sched_ok ?ts" using ok(6) by (simp add: sched_but_def queues_but_def)
  then show ?thesis using assms(2,3) by (simp add: free_tqueue_def)
qed

lemma free_empty_queues_ok:
  assumes "sched_ok ts" "set qs \<subseteq> set (tk_idle ts)" "distinct qs"
  shows "\<exists>ts'. free_empty_queues qs ts = Some ts' \<and> sched_ok ts'"
  using assms
proof (induction qs arbitrary: ts)
  case (Cons q qs)
  obtain tq where q: "tk_queues ts q = Some tq"
    using threaded_cell[OF sched_butD(3)[OF Cons.prems(1)], of q] Cons.prems(2) by auto
  show ?case
  proof (cases "\<not> tq_connected tq \<and> tq_input tq = [] \<and> tq_num_bg_tasks tq = 0")
    case True
    obtain ts1 where 1: "free_tqueue q ts = Some ts1" "sched_ok ts1" "tk_idle ts1 = remove1 q (tk_idle ts)"
      using free_tqueue_ok[OF Cons.prems(1) q] True Cons.prems(2) by auto
    have "set qs \<subseteq> set (tk_idle ts1)" using 1(3) Cons.prems(2,3) sched_butD(3)[OF Cons.prems(1)] by (auto simp: threaded_def)
    from Cons.IH[OF 1(2) this] Cons.prems(3) True q 1(1) show ?thesis by auto
  qed (use Cons q in auto)
qed auto

end
