(* ===== verification/Task_Kills.thy ===== *)
theory Task_Kills
  imports Task_Rounds
begin

text \<open>
  Killing and resuming tasks, forced input, and the connections: every operation returns and leaves
  the queues in order.
\<close>

section \<open>Killing\<close>

lemma find_first_split:
  assumes "find_first P xs = Some x"
  obtains us ws where "xs = us @ x # ws" "without_first P xs = us @ ws" "P x"
proof -
  obtain ws where "dropWhile (\<lambda>x. \<not> P x) xs = x # ws" using assms by (auto simp: find_first_def split: list.splits)
  with that[of "takeWhile (\<lambda>x. \<not> P x) xs" ws] show thesis
    by (metis dropWhile_eq_Cons_conv list.sel(3) takeWhile_dropWhile_id without_first_def)
qed

lemma without_first_split:
  assumes "\<exists>x \<in> set xs. P x"
  obtains us x ws where "xs = us @ x # ws" "without_first P xs = us @ ws"
proof -
  have "dropWhile (\<lambda>x. \<not> P x) xs \<noteq> []" using assms by (auto simp: dropWhile_eq_Nil_conv)
  then obtain x where "find_first P xs = Some x" by (cases "dropWhile (\<lambda>x. \<not> P x) xs") (simp_all add: find_first_def)
  from find_first_split[OF this] that show thesis by metis
qed

lemma kill_waiting_ok:
  assumes "sched_ok ts" "find_first (\<lambda>t. bg_id t = tid) (tk_waiting ts) = Some t"
  shows "\<exists>e ts'. kill_waiting db owner tid t ts = Some (e, ts') \<and> sched_ok ts'"
proof -
  obtain us ws where s: "tk_waiting ts = us @ t # ws" "without_first (\<lambda>t. bg_id t = tid) (tk_waiting ts) = us @ ws"
    using find_first_split[OF assms(2)] by metis
  note ok = sched_butD[OF assms(1)]
  have so: "sorted (map get_start_time (us @ ws))" using ok(6) s(1) by (auto simp: sorted_append)
  have wh: "whole u" if "u \<in> set (us @ ws)" for u using that ok(5) s(1) by (auto simp: owned_def)
  obtain p where p: "bg_progr t = Some p" using ok(5) s(1) by (auto simp: owned_def whole_def)
  have cnt: "waiting_for r (tk_waiting ts) = waiting_for r (us @ ws) + (if r = p then 1 else 0)" for r
    using s(1) p by auto
  show ?thesis
  proof (cases "may_touch db owner p")
    case False
    then show ?thesis using p assms(1) by (simp add: kill_waiting_def)
  next
    case True
    show ?thesis
    proof (cases rule: find_tqueue_ok[OF assms(1), of p])
      case 1
      have "p = NOTHING" using owned_none[OF ok(5) 1(2)] cnt[of p] by auto
      then have "sched_ok (ts\<lparr>tk_waiting := us @ ws\<rparr>)"
        using cnt by (intro sched_waiting_none[OF assms(1) _ so wh]) auto
      then show ?thesis using True p 1(1) s(2) by (simp add: kill_waiting_def uncharge_def)
    next
      case (2 q tq)
      let ?t = "tq\<lparr>tq_num_bg_tasks := tq_num_bg_tasks tq - 1\<rparr>"
      have "sched_ok (ts\<lparr>tk_queues := (tk_queues ts)(q \<mapsto> ?t), tk_waiting := us @ ws\<rparr>)"
      proof (rule sched_waiting[OF assms(1) 2(2) _ so wh])
        show "counted (us @ ws) ?t" using ok(7)[OF 2(2)] cnt[of p] 2(3) by (auto simp: counted_def)
        show "rested ?t" using ok(8)[OF 2(2)] by (simp add: rested_def may_run_def is_out_of_input_def)
        show "waiting_for r (us @ ws) = waiting_for r (tk_waiting ts)" if "r \<noteq> tq_player tq" for r
          using cnt[of r] that 2(3) by simp
      qed simp_all
      then show ?thesis using True p 2 s(2) by (simp add: kill_waiting_def uncharge_def upd_tq_def)
    qed
  qed
qed

lemma kill_on_queue_ok:
  assumes "sched_ok ts" "tk_queues ts q = Some tq"
  shows "\<exists>r. kill_on_queue active db owner tid q ts = Some r \<and> (case r of Some (e, ts') \<Rightarrow> sched_ok ts' | None \<Rightarrow> True)"
proof -
  note ok = sched_butD[OF assms(1)]
  let ?r = "tq\<lparr>tq_reading := None\<rparr>"
  let ?b = "tq\<lparr>tq_bg := without_first (\<lambda>t. bg_id t = tid) (tq_bg tq), tq_num_bg_tasks := tq_num_bg_tasks tq - 1\<rparr>"
  have "sched_ok (ts\<lparr>tk_queues := (tk_queues ts)(q \<mapsto> ?r)\<rparr>)" if "reads_in tid tq"
  proof (rule sched_upd[OF assms])
    show "counted (tk_waiting ts) ?r" using ok(7)[OF assms(2)] by (simp add: counted_def)
    show "rested ?r" using ok(8)[OF assms(2)] that
      by (auto simp: rested_def may_run_def is_out_of_input_def reads_in_def split: option.splits)
  qed simp_all
  moreover have "sched_ok (ts\<lparr>tk_queues := (tk_queues ts)(q \<mapsto> ?b)\<rparr>)" if hit: "\<exists>t \<in> set (tq_bg tq). bg_id t = tid"
  proof (rule sched_upd[OF assms])
    obtain us t ws where s: "tq_bg tq = us @ t # ws" "without_first (\<lambda>t. bg_id t = tid) (tq_bg tq) = us @ ws"
      using without_first_split[OF hit] by metis
    then show "counted (tk_waiting ts) ?b" using ok(7)[OF assms(2)] by (auto simp: counted_def)
    show "rested ?b" using ok(8)[OF assms(2)] s(1) by (auto simp: rested_def may_run_def)
  qed simp_all
  ultimately show ?thesis using assms by (simp add: kill_on_queue_def upd_tq_def)
qed

lemma kill_on_queues_ok:
  assumes "sched_ok ts" "\<And>q. q \<in> set qs \<Longrightarrow> \<exists>tq. tk_queues ts q = Some tq"
  shows "\<exists>r. kill_on_queues active db owner tid qs ts = Some r \<and> (case r of Some (e, ts') \<Rightarrow> sched_ok ts' | None \<Rightarrow> True)"
  using assms(2)
proof (induction qs)
  case (Cons q qs)
  obtain tq where q: "tk_queues ts q = Some tq" using Cons.prems[of q] by auto
  obtain r where r: "kill_on_queue active db owner tid q ts = Some r" "case r of Some (e, ts') \<Rightarrow> sched_ok ts' | None \<Rightarrow> True"
    using kill_on_queue_ok[OF assms(1) q] by blast
  show ?case
  proof (cases r)
    case None
    then show ?thesis using r(1) Cons by simp
  next
    case (Some x)
    then show ?thesis using r by simp
  qed
qed simp

lemma kill_task_ok:
  assumes "sched_ok ts"
  shows "\<exists>e ts'. kill_task db tid owner ts = Some (e, ts') \<and> sched_ok ts'"
proof -
  note cell = threaded_cell[OF sched_butD(3)[OF assms]]
  obtain i where i: "kill_on_queues False db owner tid (tk_idle ts) ts = Some i"
    "case i of Some (e, ts') \<Rightarrow> sched_ok ts' | None \<Rightarrow> True"
    using kill_on_queues_ok[OF assms, of "tk_idle ts"] cell by blast
  obtain a where a: "kill_on_queues True db owner tid (tk_active ts) ts = Some a"
    "case a of Some (e, ts') \<Rightarrow> sched_ok ts' | None \<Rightarrow> True"
    using kill_on_queues_ok[OF assms, of "tk_active ts"] cell by blast
  show ?thesis
  proof (cases "find_first (\<lambda>t. bg_id t = tid) (tk_waiting ts)")
    case (Some t)
    then show ?thesis using kill_waiting_ok[OF assms Some] assms by (simp add: kill_task_def)
  next
    case None
    then show ?thesis using i a assms by (cases i; cases a) (auto simp: kill_task_def)
  qed
qed

section \<open>Resuming\<close>

lemma bg_progr_changes [simp]:
  "bg_progr (with_value v t) = bg_progr t" "bg_progr (with_start now t) = bg_progr t"
  by (cases t; simp)+

lemma resume_waiting_ok:
  assumes "sched_ok ts" "world_ok db" "find_first (resumes tid) (tk_waiting ts) = Some t"
  shows "\<exists>e ts'. resume_waiting nw db tid v progr t ts = Some (e, ts') \<and> sched_ok ts'"
proof -
  obtain p where p: "bg_progr t = Some p"
    using sched_butD(5)[OF assms(1)] find_first_split[OF assms(3)] by (metis in_set_conv_decomp not_None_eq owned_def whole_def)
  show ?thesis
  proof (cases "may_touch db progr p")
    case False
    then show ?thesis using p assms(1) by (simp add: resume_waiting_def)
  next
    case True
    obtain now ts0 where 0: "time_now nw ts = (now, ts0)" by fastforce
    note same = time_now_ok[OF 0]
    have ok: "sched_ok ts0" using same(1) assms(1) by simp
    obtain us ws where s: "tk_waiting ts0 = us @ t # ws" "without_first (resumes tid) (tk_waiting ts0) = us @ ws"
      using find_first_split[OF assms(3)] same(3) by metis
    obtain q ts1 ts2 ts3 where 1: "have_tqueue db p ts0 = Some (q, ts1)" "ensure_usage q ts1 = Some ts2"
      "enqueue_bg_task q (with_value v (with_start now t)) ts2 = Some ts3" "sched_ok (ts3\<lparr>tk_waiting := us @ ws\<rparr>)"
      using ready_waiting[OF ok assms(2) s(1) p, of "with_value v (with_start now t)"] p by auto
    have "tk_waiting ts1 = tk_waiting ts0" using have_tqueue_ok[OF ok assms(2), of p] 1(1) by (metis option.inject prod.inject)
    then show ?thesis using True p 0 1 s(2)
      by (simp add: resume_waiting_def ensure_usage_waiting enqueue_bg_waiting)
  qed
qed

lemma change_first_simps [simp]:
  "length (change_first P f xs) = length xs"
  "change_first P f xs = [] \<longleftrightarrow> xs = []"
  by (induction xs) auto

lemma change_first_set: "x \<in> set (change_first P f xs) \<Longrightarrow> x \<in> set xs \<or> (\<exists>y \<in> set xs. x = f y)"
  by (induction xs) (auto split: if_splits)

lemma resume_active_ok:
  assumes "sched_ok ts" "\<And>q. q \<in> set qs \<Longrightarrow> \<exists>tq. tk_queues ts q = Some tq"
  shows "\<exists>e ts'. resume_active db tid v progr qs ts = Some (e, ts') \<and> sched_ok ts'"
  using assms(2)
proof (induction qs)
  case (Cons q qs)
  obtain tq where q: "tk_queues ts q = Some tq" using Cons.prems[of q] by auto
  note ok = sched_butD[OF assms(1)]
  let ?t = "tq\<lparr>tq_bg := change_first (resumes tid) (with_value v) (tq_bg tq)\<rparr>"
  have "sched_ok (ts\<lparr>tk_queues := (tk_queues ts)(q \<mapsto> ?t)\<rparr>)"
  proof (rule sched_upd[OF assms(1) q])
    have "whole t" if "t \<in> set (change_first (resumes tid) (with_value v) (tq_bg tq))" for t
      using change_first_set[OF that] ok(7)[OF q] by (auto simp: counted_def whole_def)
    then show "counted (tk_waiting ts) ?t" using ok(7)[OF q] by (simp add: counted_def)
    show "rested ?t" using ok(8)[OF q] by (simp add: rested_def may_run_def is_out_of_input_def)
  qed simp_all
  then have "\<exists>ts'. upd_tq q (tq_bg_update (change_first (resumes tid) (with_value v))) ts = Some ts' \<and> sched_ok ts'"
    using q by (cases tq) (simp add: upd_tq_def)
  moreover obtain e ts' where "resume_active db tid v progr qs ts = Some (e, ts')" "sched_ok ts'"
    using Cons.IH Cons.prems by auto
  ultimately show ?case using q assms(1) by (auto simp del: upd_tq_Some)
qed (use assms(1) in simp)

lemma do_resume_ok:
  assumes "sched_ok ts" "world_ok db"
  shows "\<exists>e ts'. do_resume nw db tid v progr ts = Some (e, ts') \<and> sched_ok ts'"
proof (cases "find_first (resumes tid) (tk_waiting ts)")
  case (Some t)
  then show ?thesis using resume_waiting_ok[OF assms Some] by (simp add: do_resume_def)
next
  case None
  have "\<exists>tq. tk_queues ts q = Some tq" if "q \<in> set (tk_active ts)" for q
    using threaded_cell[OF sched_butD(3)[OF assms(1)], of q] that by blast
  from resume_active_ok[OF assms(1) this] None show ?thesis by (simp add: do_resume_def)
qed

section \<open>Forced input\<close>

lemma force_input_ok:
  assumes "sched_ok ts" "world_ok db"
  shows "\<exists>q ts1 ts'. have_tqueue db conn ts = Some (q, ts1) \<and> enqueue_input_task nw q line at_front ts1 = Some ts' \<and> sched_ok ts'"
proof -
  obtain q ts1 tq where "have_tqueue db conn ts = Some (q, ts1)" "sched_ok ts1" "tk_queues ts1 q = Some tq"
    by (rule have_tqueue_ok[OF assms, of conn]) blast
  then show ?thesis using enqueue_input_ok by blast
qed

lemma flush_conn_ok:
  assumes "sched_ok ts" "world_ok db"
  shows "\<exists>q ts1 ts'. have_tqueue db conn ts = Some (q, ts1) \<and> flush_input nw q show_messages ts1 = Some ts' \<and> sched_ok ts'"
proof -
  obtain q ts1 tq where "have_tqueue db conn ts = Some (q, ts1)" "sched_ok ts1" "tk_queues ts1 q = Some tq"
    by (rule have_tqueue_ok[OF assms, of conn]) blast
  then show ?thesis using flush_input_ok by blast
qed

end
