(* ===== verification/Task_Logins.thy ===== *)
theory Task_Logins
  imports Task_Kills
begin

text \<open>
  Connections and logins: opening and closing a connection, its options, and the queue of a player
  that a connection takes over, keep the queues in order.
\<close>

section \<open>Handles\<close>

lemma find_handle_in:
  "find_shandle p c = Some h \<Longrightarrow> h \<in> set (cn_handles c) \<and> sh_player h = p"
  "shandle_at k c = Some h \<Longrightarrow> h \<in> set (cn_handles c) \<and> sh_ptr h = k"
  by (auto simp: find_shandle_def shandle_at_def find_Some_iff in_set_conv_nth)

lemma wiredD:
  assumes "wired ts" "h \<in> set (cn_handles (tk_net ts))"
  obtains tq where "tk_queues ts (sh_tasks h) = Some tq" "tq_connected tq" "tq_player tq = sh_player h"
    "sh_ptr h < cn_fresh (tk_net ts)" "sh_player h > cn_next_player (tk_net ts)" "sh_player h \<noteq> NOTHING"
  using assms unfolding wired_def Let_def by blast

lemma wired_queue:
  assumes "wired ts" "tk_queues ts q = Some tq" "tq_connected tq"
  obtains h where "h \<in> set (cn_handles (tk_net ts))" "sh_tasks h = q" "sh_player h = tq_player tq"
proof -
  obtain h where h: "h \<in> set (cn_handles (tk_net ts))" "sh_tasks h = q" using assms unfolding wired_def Let_def by blast
  then have "sh_player h = tq_player tq" by (metis assms(1,2) option.inject wiredD)
  with h that show thesis by blast
qed

lemma wired_touch:
  assumes "wired ts" "\<And>h. sh_ptr (f h) = sh_ptr h" "\<And>h. sh_tasks (f h) = sh_tasks h" "\<And>h. sh_player (f h) = sh_player h"
  shows "wired (at_net (upd_shandle p f) ts)"
proof -
  let ?g = "\<lambda>h. if sh_ptr h = p then f h else h"
  let ?c = "upd_shandle p f (tk_net ts)"
  have m: "map sh_ptr (cn_handles ?c) = map sh_ptr (cn_handles (tk_net ts))"
    "map sh_tasks (cn_handles ?c) = map sh_tasks (cn_handles (tk_net ts))"
    using assms(2,3) by (auto simp: upd_shandle_def)
  then have i: "sh_tasks ` set (cn_handles ?c) = sh_tasks ` set (cn_handles (tk_net ts))" by (metis list.set_map)
  have k: "\<exists>k \<in> set (cn_handles (tk_net ts)). sh_ptr h = sh_ptr k \<and> sh_tasks h = sh_tasks k \<and> sh_player h = sh_player k"
    if "h \<in> set (cn_handles ?c)" for h
    using that assms(2-4) by (auto simp: upd_shandle_def)
  have c: "cn_fresh ?c = cn_fresh (tk_net ts)" "cn_next_player ?c = cn_next_player (tk_net ts)" by (simp_all add: upd_shandle_def)
  show ?thesis using assms(1) k unfolding wired_def Let_def at_net_simps m i c by metis
qed

lemma sched_touch:
  assumes "sched_but X ts" "\<And>h. sh_ptr (f h) = sh_ptr h" "\<And>h. sh_tasks (f h) = sh_tasks h" "\<And>h. sh_player (f h) = sh_player h"
  shows "sched_but X (at_net (upd_shandle p f) ts)"
  using assms wired_touch[of ts f p] by (simp add: sched_but_def)

section \<open>Opening and closing\<close>

lemma wired_open:
  assumes "wired ts" "tk_queues ts q = Some tq" "\<not> tq_connected tq" "tq_player tq = cn_next_player (tk_net ts)"
    "tq_connected t'" "tq_player t' = tq_player tq" "sh_ptr h = cn_fresh (tk_net ts)" "sh_tasks h = q" "sh_player h = tq_player tq"
  shows "wired (at_net (\<lambda>c. c\<lparr>cn_handles := h # cn_handles c, cn_fresh := cn_fresh (tk_net ts) + 1,
    cn_next_player := cn_next_player (tk_net ts) - 1\<rparr>) (ts\<lparr>tk_queues := (tk_queues ts)(q \<mapsto> t')\<rparr>))"
proof -
  let ?hs = "cn_handles (tk_net ts)"
  have q: "sh_tasks k \<noteq> q" if "k \<in> set ?hs" for k using wiredD[OF assms(1) that] assms(2,3) by (metis option.inject)
  have p: "sh_ptr k < cn_fresh (tk_net ts) \<and> sh_player k > cn_next_player (tk_net ts) \<and> sh_player k \<noteq> NOTHING \<and>
      (\<exists>t. tk_queues ts (sh_tasks k) = Some t \<and> tq_connected t \<and> tq_player t = sh_player k)" if "k \<in> set ?hs" for k
    using wiredD[OF assms(1) that] by metis
  have d: "distinct (map sh_ptr ?hs)" "distinct (map sh_tasks ?hs)" "cn_next_player (tk_net ts) < NOTHING"
    "\<And>r t. tk_queues ts r = Some t \<Longrightarrow> tq_connected t \<Longrightarrow> r \<in> sh_tasks ` set ?hs"
    using assms(1) unfolding wired_def Let_def by blast+
  show ?thesis unfolding wired_def Let_def
    using d p q assms(4-9) by (fastforce split: if_splits)
qed

lemma server_new_connection_ok:
  assumes "sched_ok ts" "world_ok db"
  shows "\<exists>p ts'. server_new_connection nw db l nh ts = Some (p, ts') \<and> sched_ok ts'"
proof -
  obtain now ts1 where 1: "time_now nw ts = (now, ts1)" by fastforce
  have ok1: "sched_ok ts1" using time_now_ok(1)[OF 1] assms(1) by simp
  define player where "player = cn_next_player (tk_net ts1)"
  obtain q ts2 tq where 2: "have_tqueue db player ts1 = Some (q, ts2)" "sched_ok ts2" "tk_queues ts2 q = Some tq"
    "tq_player tq = player" "tk_net ts2 = tk_net ts1"
    by (rule have_tqueue_ok[OF ok1 assms(2), of player]) blast
  note ok = sched_butD[OF 2(2)]
  have new: "\<not> tq_connected tq"
  proof
    assume "tq_connected tq"
    then obtain h where "h \<in> set (cn_handles (tk_net ts2))" "sh_player h = player"
      using wired_queue[OF ok(2) 2(3)] 2(4) by metis
    then show False using wiredD[OF ok(2)] 2(5) by (metis less_irrefl player_def)
  qed
  let ?listener = "case l of Some l \<Rightarrow> sl_oid l | None \<Rightarrow> SYSTEM_OBJECT"
  let ?t = "tq\<lparr>tq_connected := True, tq_handler := ?listener\<rparr>"
  let ?h = "\<lparr>sh_ptr = cn_fresh (tk_net ts1), sh_nhandle = nh, sh_connection_time = 0, sh_last_activity_time = now,
       sh_player = player, sh_listener = ?listener, sh_tasks = q, sh_disconnect_me = False,
       sh_outbound = (l = None), sh_binary = False,
       sh_print_messages = (case l of Some l \<Rightarrow> sl_print_messages l | None \<Rightarrow> False)\<rparr>"
  let ?s = "at_net (\<lambda>c. c\<lparr>cn_handles := ?h # cn_handles c, cn_fresh := cn_fresh (tk_net ts2) + 1,
    cn_next_player := cn_next_player (tk_net ts2) - 1\<rparr>) (ts2\<lparr>tk_queues := (tk_queues ts2)(q \<mapsto> ?t)\<rparr>)"
  define S where "S = ?s"
  have "counted (tk_waiting ts2) ?t" using ok(7)[OF 2(3)] by (simp add: counted_def)
  moreover have "rested ?t" using ok(8)[OF 2(3)] by (auto simp: rested_def may_run_def is_out_of_input_def)
  ultimately have "queues_ok (ts2\<lparr>tk_queues := (tk_queues ts2)(q \<mapsto> ?t)\<rparr>)" by (intro queues_upd[OF ok(1) 2(3)]) auto
  moreover have "wired ?s" by (rule wired_open[OF ok(2) 2(3) new]) (simp_all add: 2(4,5) player_def)
  ultimately have s: "sched_ok S" by (simp add: sched_but_def S_def)
  have sq: "tk_queues S q = Some ?t" by (simp add: S_def)
  obtain ts3 t3 where 3: "new_input_task nw q [] S = Some ts3" "sched_ok ts3" "tk_queues ts3 q = Some t3"
    using new_input_ok[OF s sq] by blast
  obtain ts4 where 4: "task_suspend_input nw q ts3 = Some ts4" "sched_ok ts4"
    using suspend_if_ok[OF 3(2,3)] by (auto simp: task_suspend_input_def)
  have "server_new_connection nw db l nh ts = (if l = None then Some (cn_fresh (tk_net ts1), S) else
      Option.bind (new_input_task nw q [] S) (\<lambda>ts. Option.bind (task_suspend_input nw q ts) (\<lambda>ts. Some (cn_fresh (tk_net ts1), ts))))"
    using 1 2(1,3,5) by (simp add: server_new_connection_def new_task_queue_def upd_tq_def player_def[symmetric] Let_def S_def)
  then show ?thesis using s 3(1) 4 by (cases "l = None") simp_all
qed

lemma free_shandle_ok:
  assumes "sched_ok ts" "shandle_at p (tk_net ts) = Some h"
  shows "\<exists>ts'. free_shandle p ts = Some ts' \<and> sched_ok ts'"
proof -
  note ok = sched_butD[OF assms(1)]
  have h: "h \<in> set (cn_handles (tk_net ts))" "sh_ptr h = p" using find_handle_in(2)[OF assms(2)] by auto
  obtain tq where q: "tk_queues ts (sh_tasks h) = Some tq" by (rule wiredD[OF ok(2) h(1)])
  let ?t = "tq\<lparr>tq_connected := False\<rparr>"
  let ?n = "at_net (drop_shandle p) ts"
  let ?s = "?n\<lparr>tk_queues := (tk_queues ts)(sh_tasks h \<mapsto> ?t)\<rparr>"
  have n: "queues_ok ?n" "tk_queues ?n (sh_tasks h) = Some tq" using ok(1) q by simp_all
  have c: "counted (tk_waiting ts) ?t" using ok(7)[OF q] by (simp add: counted_def)
  have w: "wired ?s"
  proof -
    let ?hs = "cn_handles (tk_net ts)"
    have d: "distinct (map sh_ptr ?hs)" "distinct (map sh_tasks ?hs)" "cn_next_player (tk_net ts) < NOTHING"
      "\<And>r t. tk_queues ts r = Some t \<Longrightarrow> tq_connected t \<Longrightarrow> r \<in> sh_tasks ` set ?hs"
      using ok(2) unfolding wired_def Let_def by blast+
    have one: "sh_tasks k = sh_tasks h \<longleftrightarrow> sh_ptr k = p" if "k \<in> set ?hs" for k
      using d(1,2) that h by (metis distinct_map inj_on_eq_iff)
    have p: "sh_ptr k < cn_fresh (tk_net ts) \<and> sh_player k > cn_next_player (tk_net ts) \<and> sh_player k \<noteq> NOTHING \<and>
        (\<exists>t. tk_queues ts (sh_tasks k) = Some t \<and> tq_connected t \<and> tq_player t = sh_player k)" if "k \<in> set ?hs" for k
      using wiredD[OF ok(2) that] by metis
    have conn: "r \<in> sh_tasks ` set (filter (\<lambda>k. sh_ptr k \<noteq> p) ?hs)"
      if r: "tk_queues ?s r = Some t" "tq_connected t" for r t
    proof -
      have "r \<noteq> sh_tasks h" using r by auto
      moreover from this r have "r \<in> sh_tasks ` set ?hs" using d(4)[of r t] by simp
      ultimately show ?thesis using one by auto
    qed
    have "distinct (map sh_ptr (filter (\<lambda>k. sh_ptr k \<noteq> p) ?hs))" "distinct (map sh_tasks (filter (\<lambda>k. sh_ptr k \<noteq> p) ?hs))"
      using d(1,2) by (auto simp: distinct_map inj_on_def)
    then show ?thesis unfolding wired_def Let_def using d(3) p one conn by (auto simp: drop_shandle_def)
  qed
  have run: "free_shandle p ts = (if tq_reading ?t \<noteq> None then ensure_usage (sh_tasks h) ?s else Some ?s)"
    using assms(2) q by (simp add: free_shandle_def free_task_queue_def upd_tq_def)
  show ?thesis
  proof (cases "tq_reading tq = None")
    case True
    then have "rested ?t" using ok(8)[OF q] by (auto simp: rested_def may_run_def is_out_of_input_def)
    with c have "queues_ok ?s" using queues_upd[OF n, of ?t "{}"] by simp
    then show ?thesis using run w True by (simp add: sched_but_def)
  next
    case False
    have "queues_but {sh_tasks h} ?s" using c queues_upd[OF n, of ?t "{sh_tasks h}"] by simp
    then have "sched_but {sh_tasks h} ?s" using w by (simp add: sched_but_def)
    then obtain ts' where "ensure_usage (sh_tasks h) ?s = Some ts'" "sched_ok ts'"
      by (rule ensure_usage_ok[where q = "sh_tasks h" and tq = ?t]) auto
    then show ?thesis using run False by simp
  qed
qed

lemma server_receive_line_ok:
  assumes "sched_ok ts" "shandle_at p (tk_net ts) = Some h"
  shows "\<exists>ts'. server_receive_line nw p line ts = Some ts' \<and> sched_ok ts'"
proof -
  obtain now ts1 where 1: "time_now nw ts = (now, ts1)" by fastforce
  have ok1: "sched_ok ts1" using time_now_ok(1)[OF 1] assms(1) by simp
  obtain tq where q: "tk_queues ts (sh_tasks h) = Some tq"
    using wiredD[OF sched_butD(2)[OF assms(1)]] find_handle_in(2)[OF assms(2)] by metis
  let ?s = "at_net (upd_shandle p (sh_last_activity_time_update (\<lambda>_. now))) ts1"
  have "sched_ok ?s" by (rule sched_touch[OF ok1]) simp_all
  moreover have "tk_queues ?s (sh_tasks h) = Some tq" using q time_now_ok(2)[OF 1] by simp
  ultimately obtain ts' where "new_input_task nw (sh_tasks h) line ?s = Some ts'" "sched_ok ts'" using new_input_ok by blast
  then show ?thesis using assms(2) 1 by (simp add: server_receive_line_def)
qed

lemma tasks_set_connection_option_ok:
  assumes "sched_ok ts" "tk_queues ts q = Some tq"
  shows "\<exists>b ts'. tasks_set_connection_option q option v ts = Some (b, ts') \<and> sched_ok ts'"
proof -
  note ok = sched_butD[OF assms(1)]
  consider "mystrcasecmp option ''flush-command'' = 0" | "mystrcasecmp option ''flush-command'' \<noteq> 0" "mystrcasecmp option ''hold-input'' = 0"
    | "mystrcasecmp option ''flush-command'' \<noteq> 0" "mystrcasecmp option ''hold-input'' \<noteq> 0" by blast
  then show ?thesis
  proof cases
    case 1
    let ?t = "tq\<lparr>tq_flush_cmd := (case v of VStr (c # cs) \<Rightarrow> Some (c # cs) | _ \<Rightarrow> None)\<rparr>"
    have "sched_ok (ts\<lparr>tk_queues := (tk_queues ts)(q \<mapsto> ?t)\<rparr>)"
      using ok(7,8)[OF assms(2)]
      by (intro sched_upd[OF assms]) (auto simp: counted_def rested_def may_run_def is_out_of_input_def)
    then show ?thesis using 1 assms(2)
      by (intro exI[of _ True] exI[of _ "ts\<lparr>tk_queues := (tk_queues ts)(q \<mapsto> ?t)\<rparr>"])
        (simp add: tasks_set_connection_option_def upd_tq_def)
  next
    case 2
    let ?t = "tq\<lparr>tq_hold_input := is_true v\<rparr>"
    let ?s = "ts\<lparr>tk_queues := (tk_queues ts)(q \<mapsto> ?t)\<rparr>"
    have c: "counted (tk_waiting ts) ?t" using ok(7)[OF assms(2)] by (simp add: counted_def)
    have run: "tasks_set_connection_option q option v ts = Option.bind
        (if \<not> tq_hold_input ?t \<and> tq_input ?t \<noteq> [] then ensure_usage q ?s else Some ?s) (\<lambda>ts. Some (True, ts))"
      using 2 assms(2) by (simp add: tasks_set_connection_option_def upd_tq_def)
    show ?thesis
    proof (cases "\<not> tq_hold_input ?t \<and> tq_input ?t \<noteq> []")
      case True
      have "sched_but {q} ?s" using c by (intro sched_upd[OF assms]) auto
      then obtain ts' where "ensure_usage q ?s = Some ts'" "sched_ok ts'"
        by (rule ensure_usage_ok[where q = q and tq = ?t]) auto
      then show ?thesis using run True by (intro exI[of _ True] exI[of _ ts']) simp
    next
      case False
      then have "rested ?t" using ok(8)[OF assms(2)] by (auto simp: rested_def may_run_def is_out_of_input_def)
      with c have "sched_ok ?s" by (intro sched_upd[OF assms]) auto
      moreover have "tasks_set_connection_option q option v ts = Some (True, ?s)" using run False by (simp only: if_False bind.bind_lunit)
      ultimately show ?thesis by blast
    qed
  next
    case 3
    then show ?thesis using assms(1)
      by (intro exI[of _ False] exI[of _ ts]) (simp add: tasks_set_connection_option_def)
  qed
qed

section \<open>Logging in\<close>

text \<open>What remains of a queue that is emptied into another one.\<close>

definition emptied :: "'k tqueue \<Rightarrow> 'k tqueue" where
  "emptied tq = tq\<lparr>tq_input := [], tq_total_input_length := tq_total_input_length tq - int (sum_list (map length (tq_input tq))),
     tq_bg := [], tq_num_bg_tasks := tq_num_bg_tasks tq - int (length (tq_bg tq))\<rparr>"

lemma requeue: "(ts\<lparr>tk_queues := a\<rparr>)\<lparr>tk_queues := b\<rparr> = ts\<lparr>tk_queues := b\<rparr>"
  by simp

lemma drain_queue_all:
  assumes "d \<noteq> q" "tk_queues ts d = Some dq" "tk_queues ts q = Some tq" "\<not> tq_connected dq"
    "n = length (tq_input dq) + length (tq_bg dq)"
  shows "drain_queue nw d q n ts = Some (ts\<lparr>tk_queues := (tk_queues ts)(d \<mapsto> emptied dq, q \<mapsto> tq\<lparr>tq_bg := tq_bg tq @ tq_bg dq\<rparr>)\<rparr>)"
  using assms(2-)
proof (induction n arbitrary: ts dq tq)
  case 0
  then have "emptied dq = dq" "tq\<lparr>tq_bg := tq_bg tq @ tq_bg dq\<rparr> = tq" by (simp_all add: emptied_def)
  moreover have "(tk_queues ts)(d \<mapsto> dq, q \<mapsto> tq) = tk_queues ts" using 0 by auto
  moreover have "ts\<lparr>tk_queues := tk_queues ts\<rparr> = ts" by simp
  ultimately show ?case by (simp only: drain_queue.simps)
next
  case (Suc n)
  show ?case
  proof (cases "tq_input dq")
    case (Cons s inp)
    let ?d = "dq\<lparr>tq_input := inp, tq_total_input_length := tq_total_input_length dq - int (length s)\<rparr>"
    let ?ts = "ts\<lparr>tk_queues := (tk_queues ts)(d \<mapsto> ?d)\<rparr>"
    have e: "emptied ?d = emptied dq" using Cons by (simp add: emptied_def)
    have "dequeue_any_task nw d ts = Some (Some (Input s), ?ts)"
      using Suc.prems Cons by (simp add: dequeue_any_task_def dequeue_input_task_def upd_tq_def Let_def)
    then have "drain_queue nw d q (Suc n) ts = drain_queue nw d q n ?ts" by simp
    also have "\<dots> = Some (?ts\<lparr>tk_queues := (tk_queues ?ts)(d \<mapsto> emptied ?d, q \<mapsto> tq\<lparr>tq_bg := tq_bg tq @ tq_bg ?d\<rparr>)\<rparr>)"
      using Suc.prems assms(1) Cons by (intro Suc.IH) auto
    also have "(tk_queues ?ts)(d \<mapsto> emptied ?d, q \<mapsto> tq\<lparr>tq_bg := tq_bg tq @ tq_bg ?d\<rparr>) =
        (tk_queues ts)(d \<mapsto> emptied dq, q \<mapsto> tq\<lparr>tq_bg := tq_bg tq @ tq_bg dq\<rparr>)" by (simp add: e)
    finally show ?thesis by (simp only: requeue)
  next
    case Nil
    then obtain t bg where bg: "tq_bg dq = t # bg" using Suc.prems by (cases "tq_bg dq") auto
    let ?d = "dq\<lparr>tq_bg := bg, tq_num_bg_tasks := tq_num_bg_tasks dq - 1\<rparr>"
    let ?q = "tq\<lparr>tq_bg := tq_bg tq @ [t]\<rparr>"
    let ?ts = "ts\<lparr>tk_queues := (tk_queues ts)(d \<mapsto> ?d, q \<mapsto> ?q)\<rparr>"
    have e: "emptied ?d = emptied dq" using bg by (simp add: emptied_def)
    have "dequeue_any_task nw d ts = Some (Some (Background t), ts\<lparr>tk_queues := (tk_queues ts)(d \<mapsto> ?d)\<rparr>)"
      using Suc.prems Nil bg by (simp add: dequeue_any_task_def dequeue_input_task_def dequeue_bg_task_def upd_tq_def)
    moreover have "enqueue_bg_task q t (ts\<lparr>tk_queues := (tk_queues ts)(d \<mapsto> ?d)\<rparr>) = Some ?ts"
      using Suc.prems(2) assms(1) by (cases tq) (simp add: enqueue_bg_task_def upd_tq_def)
    ultimately have "drain_queue nw d q (Suc n) ts = drain_queue nw d q n ?ts" by simp
    also have "\<dots> = Some (?ts\<lparr>tk_queues := (tk_queues ?ts)(d \<mapsto> emptied ?d, q \<mapsto> ?q\<lparr>tq_bg := tq_bg ?q @ tq_bg ?d\<rparr>)\<rparr>)"
      using Suc.prems assms(1) Nil bg by (intro Suc.IH) auto
    also have "(tk_queues ?ts)(d \<mapsto> emptied ?d, q \<mapsto> ?q\<lparr>tq_bg := tq_bg ?q @ tq_bg ?d\<rparr>) =
        (tk_queues ts)(d \<mapsto> emptied dq, q \<mapsto> tq\<lparr>tq_bg := tq_bg tq @ tq_bg dq\<rparr>)"
      using assms(1) bg by (auto simp: e fun_eq_iff)
    finally show ?thesis by (simp only: requeue)
  qed
qed


text \<open>
  A connection without tasks of its own logs in as a player who has no other connection: the queue
  the player has left is emptied into that of the connection, whose handle is then named.
\<close>

lemma wired_name:
  assumes "wired ts" "h \<in> set (cn_handles (tk_net ts))" "sh_tasks h = q" "new > cn_next_player (tk_net ts)" "new \<noteq> NOTHING"
    "tk_queues ts' q = Some t" "tq_connected t" "tq_player t = new" "tk_net ts' = tk_net ts"
    "\<And>r t. r \<noteq> q \<Longrightarrow> tk_queues ts r = Some t \<Longrightarrow> tq_connected t \<Longrightarrow> tk_queues ts' r = Some t"
    "\<And>r t. r \<noteq> q \<Longrightarrow> tk_queues ts' r = Some t \<Longrightarrow> tq_connected t \<Longrightarrow> tk_queues ts r = Some t"
  shows "wired (name_connection nw h new ts')"
proof -
  obtain now n where now: "nw_time nw (cn_net (tk_net ts)) = (now, n)" by fastforce
  let ?g = "\<lambda>k. if sh_ptr k = sh_ptr h then k\<lparr>sh_player := new, sh_connection_time := now\<rparr> else k"
  let ?hs = "cn_handles (tk_net ts)"
  let ?c = "upd_shandle (sh_ptr h) (\<lambda>k. k\<lparr>sh_player := new, sh_connection_time := now\<rparr>) (on_net (\<lambda>_. n) (tk_net ts))"
  have s: "name_connection nw h new ts' = ts'\<lparr>tk_net := ?c\<rparr>"
    using now assms(9) by (simp add: name_connection_def time_now_def ask_net_def at_net_def on_net_def)
  have m: "map sh_ptr (cn_handles ?c) = map sh_ptr ?hs" "map sh_tasks (cn_handles ?c) = map sh_tasks ?hs"
    by (auto simp: upd_shandle_def on_net_def)
  then have i: "sh_tasks ` set (cn_handles ?c) = sh_tasks ` set ?hs" by (metis list.set_map)
  have c: "cn_fresh ?c = cn_fresh (tk_net ts)" "cn_next_player ?c = cn_next_player (tk_net ts)"
    by (simp_all add: upd_shandle_def on_net_def)
  have d: "distinct (map sh_ptr ?hs)" "distinct (map sh_tasks ?hs)" "cn_next_player (tk_net ts) < NOTHING"
    "\<And>r t. tk_queues ts r = Some t \<Longrightarrow> tq_connected t \<Longrightarrow> r \<in> sh_tasks ` set ?hs"
    using assms(1) unfolding wired_def Let_def by blast+
  have one: "sh_tasks k = q \<longleftrightarrow> sh_ptr k = sh_ptr h" if "k \<in> set ?hs" for k
    using d(1,2) that assms(2,3) by (metis distinct_map inj_on_eq_iff)
  have p: "sh_ptr k < cn_fresh ?c \<and> sh_player k > cn_next_player ?c \<and> sh_player k \<noteq> NOTHING \<and>
      (\<exists>t. tk_queues (ts'\<lparr>tk_net := ?c\<rparr>) (sh_tasks k) = Some t \<and> tq_connected t \<and> tq_player t = sh_player k)"
    if k: "k \<in> set (cn_handles ?c)" for k
  proof -
    obtain j where j: "j \<in> set ?hs" "k = ?g j" using k by (auto simp: upd_shandle_def on_net_def)
    obtain tj where tj: "tk_queues ts (sh_tasks j) = Some tj" "tq_connected tj" "tq_player tj = sh_player j"
      "sh_ptr j < cn_fresh (tk_net ts)" "sh_player j > cn_next_player (tk_net ts)" "sh_player j \<noteq> NOTHING"
      by (rule wiredD[OF assms(1) j(1)])
    show ?thesis
    proof (cases "sh_tasks j = q")
      case True
      then show ?thesis using one[OF j(1)] j(2) c tj(4) assms(4-8) by simp
    next
      case False
      then show ?thesis using one[OF j(1)] j(2) c tj assms(10)[OF False tj(1,2)] by simp
    qed
  qed
  have w: "r \<in> sh_tasks ` set ?hs" if "tk_queues (ts'\<lparr>tk_net := ?c\<rparr>) r = Some t" "tq_connected t" for r t
  proof (cases "r = q")
    case True
    then show ?thesis using assms(2,3) by blast
  next
    case False
    then show ?thesis using that assms(11)[of r t] d(4) by simp
  qed
  have "tk_net (ts'\<lparr>tk_net := ?c\<rparr>) = ?c" by simp
  then show ?thesis using d(1-3) p w unfolding s wired_def Let_def by (simp only: m i c) blast
qed

end
