(* ===== verification/Task_Ops.thy ===== *)
theory Task_Ops
  imports Task_Logins
begin

text \<open>
  Logins, and the calls the queues of src/src/tasks.c receive, in any order: each of them returns, and the
  queues stay in order.
\<close>

section \<open>The queue of a player changes hands\<close>

lemma handed_over:
  assumes "sched_ok ts" "tk_queues ts q = Some tq" "waiting_for (tq_player tq) (tk_waiting ts) = 0"
    and new: "heap q = Some t'" "tq_player t' = new" "tq_usage t' = tq_usage tq" "tq_usage tq \<noteq> NO_USAGE" "counted (tk_waiting ts) t'"
    and others: "\<And>r t. r \<noteq> q \<Longrightarrow> heap r = Some t \<Longrightarrow> \<exists>s. tk_queues ts r = Some s \<and> tq_usage t = tq_usage s \<and>
      (t = s \<or> tq_player t = NOTHING) \<and> tq_player t \<noteq> new \<and> counted (tk_waiting ts) t \<and> rested t"
    and kept: "\<And>r s. r \<noteq> q \<Longrightarrow> tk_queues ts r = Some s \<Longrightarrow> tq_player s \<noteq> new \<Longrightarrow> heap r = Some s"
    and dom: "dom heap = dom (tk_queues ts)"
  shows "queues_ok (ts\<lparr>tk_queues := heap\<rparr>)"
proof -
  note ok = sched_butD[OF assms(1)]
  let ?ts = "ts\<lparr>tk_queues := heap\<rparr>"
  have same: "tq_usage t = tq_usage s" if "heap r = Some t" "tk_queues ts r = Some s" for r t s
    using that others[of r t] new(1,3) assms(2) by (cases "r = q") auto
  have "usage_of ?ts r = usage_of ts r" for r
  proof (cases "tk_queues ts r")
    case None
    then have "heap r = None" using dom by blast
    with None show ?thesis by (simp add: usage_of_def)
  next
    case (Some s)
    then obtain t where "heap r = Some t" using dom by blast
    with same[OF this Some] Some show ?thesis by (simp add: usage_of_def)
  qed
  then have u: "usage_of ?ts = usage_of ts" by blast
  have i: "r \<in> set (tk_idle ts) \<longleftrightarrow> tq_usage t = NO_USAGE" if "heap r = Some t" for r t
  proof -
    from that obtain s where "tk_queues ts r = Some s" using dom by blast
    moreover from this have "r \<in> set (tk_idle ts) \<longleftrightarrow> tq_usage s = NO_USAGE" using ok(3) unfolding threaded_def by blast
    ultimately show ?thesis using same[OF that] by simp
  qed
  have d: "distinct (tk_active ts @ tk_idle ts)" "dom (tk_queues ts) = set (tk_active ts) \<union> set (tk_idle ts)"
    "\<forall>q \<in> dom (tk_queues ts). q < tk_fresh ts" "sorted (map (usage_of ts) (tk_active ts))"
    using ok(3) unfolding threaded_def by blast+
  have f: "tk_active ?ts = tk_active ts" "tk_idle ?ts = tk_idle ts" "tk_queues ?ts = heap" "tk_fresh ?ts = tk_fresh ts" by simp_all
  have "threaded ?ts" unfolding threaded_def u f dom using d i by blast
  moreover have "players_apart ?ts" unfolding players_apart_def
  proof (intro allI impI, elim conjE)
    fix r r' a b assume r: "tk_queues ?ts r = Some a" "tk_queues ?ts r' = Some b" "tq_player a = tq_player b" "tq_player a \<noteq> NOTHING"
    then have h: "heap r = Some a" "heap r' = Some b" by simp_all
    show "r = r'"
    proof (cases "r = q \<or> r' = q")
      case True
      then show ?thesis using others h r(3) new(1,2) by (metis option.inject)
    next
      case False
      then have "tk_queues ts r = Some a" "tk_queues ts r' = Some b"
        using others[of r a] others[of r' b] h r(3,4) by auto
      then show ?thesis using ok(4) r(3,4) unfolding players_apart_def by blast
    qed
  qed
  moreover have "owned ?ts" unfolding owned_def
  proof (intro conjI allI impI ballI)
    fix p assume p: "p \<noteq> NOTHING \<and> waiting_for p (tk_waiting ?ts) \<noteq> 0"
    then obtain r s where r: "tk_queues ts r = Some s" "tq_player s = p" using ok(5) by (auto simp: owned_def)
    show "\<exists>r t. tk_queues ?ts r = Some t \<and> tq_player t = p"
    proof (cases "p = new")
      case True
      then show ?thesis using new(1,2) by (intro exI[of _ q] exI[of _ t']) simp
    next
      case False
      have "r \<noteq> q" using r p assms(2,3) by auto
      then show ?thesis using kept[OF _ r(1)] r(2) False by (intro exI[of _ r] exI[of _ s]) simp
    qed
  qed (use ok(5) in \<open>simp add: owned_def\<close>)
  moreover have "counted (tk_waiting ts) t \<and> rested t" if "tk_queues ?ts r = Some t" for r t
    using that others[of r t] new by (cases "r = q") (auto simp: rested_def)
  ultimately show ?thesis using ok(6) by (simp add: queues_but_def)
qed

lemma name_connection_queues [simp]: "queues_but X (name_connection nw h new ts) = queues_but X ts"
  by (simp add: name_connection_def time_now_def ask_net_def split: prod.splits)

lemma log_in_ok:
  assumes "sched_ok ts" "tk_queues ts q = Some tq" "tq_connected tq" "tq_usage tq \<noteq> NO_USAGE" "tq_num_bg_tasks tq = 0"
    "new > cn_next_player (tk_net ts)" "new \<noteq> NOTHING" "find_shandle new (tk_net ts) = None"
    "find_shandle (tq_player tq) (tk_net ts) = Some h"
  shows "\<exists>ts'. hand_over nw db q new ts = Some ts' \<and> sched_ok (name_connection nw h new ts')"
proof -
  note ok = sched_butD[OF assms(1)]
  have h: "h \<in> set (cn_handles (tk_net ts))" "sh_player h = tq_player tq" using find_handle_in(1)[OF assms(9)] by auto
  obtain hq where hq: "tk_queues ts (sh_tasks h) = Some hq" "tq_player hq = tq_player tq" "tq_player tq \<noteq> NOTHING"
    using wiredD[OF ok(2) h(1)] h(2) by metis
  then have tasks: "sh_tasks h = q" using ok(4) assms(2) unfolding players_apart_def by metis
  have none: "tq_bg tq = []" "waiting_for (tq_player tq) (tk_waiting ts) = 0"
    using ok(7)[OF assms(2)] assms(5) hq(3) unfolding counted_def by (simp_all add: length_0_conv[symmetric] del: length_0_conv)
  have unconn: "\<not> tq_connected s" if "tk_queues ts r = Some s" "tq_player s = new" for r s
    using wired_handle[OF ok(2) that(1)] that(2) assms(8) by auto
  let ?q = "tq\<lparr>tq_player := new\<rparr>"
  let ?ts = "ts\<lparr>tk_queues := (tk_queues ts)(q \<mapsto> ?q)\<rparr>"
  show ?thesis
  proof (cases rule: find_tqueue_ok[OF assms(1), of new])
    case 1
    have "counted (tk_waiting ts) ?q"
      using ok(7)[OF assms(2)] owned_none[OF ok(5) 1(2)] assms(5,7) none by (simp add: counted_def)
    then have "queues_ok ?ts"
      using 1(2) ok(7,8) assms(2,4)
      by (intro handed_over[OF assms(1,2) none(2), of _ ?q new]) (auto split: if_splits)
    moreover have "wired (name_connection nw h new ?ts)"
      by (rule wired_name[OF ok(2) h(1) tasks assms(6,7), of ?ts ?q]) (use assms(3) in auto)
    moreover have "hand_over nw db q new ts = Some ?ts"
      using 1(1) assms(2,5) by (simp add: hand_over_def upd_tq_def keep_anonymous_tasks_def take_over_queue_def)
    ultimately show ?thesis by (simp add: sched_but_def)
  next
    case (2 d dq)
    have dq: "d \<noteq> q" "\<not> tq_connected dq" using unconn[OF 2(2,3)] assms(2,3) 2(2) by auto
    let ?q1 = "?q\<lparr>tq_num_bg_tasks := tq_num_bg_tasks dq\<rparr>"
    let ?q2 = "?q1\<lparr>tq_bg := tq_bg dq\<rparr>"
    let ?d = "(emptied dq)\<lparr>tq_player := NOTHING, tq_num_bg_tasks := 0\<rparr>"
    let ?heap = "(tk_queues ts)(q \<mapsto> ?q2, d \<mapsto> ?d)"
    have cd: "counted (tk_waiting ts) dq" "rested dq" using ok(7,8)[OF 2(2)] by auto
    have "counted (tk_waiting ts) ?q2"
      using ok(7)[OF assms(2)] cd(1) 2(3) assms(7) by (simp add: counted_def)
    moreover have "counted (tk_waiting ts) ?d" using cd(1) by (simp add: counted_def emptied_def)
    moreover have "rested ?d"
      using cd(2) dq(2) by (auto simp: rested_def may_run_def is_out_of_input_def emptied_def)
    moreover have "tq_usage ?d = tq_usage dq" by (simp add: emptied_def)
    moreover have "tq_player s \<noteq> new" if "tk_queues ts r = Some s" "r \<noteq> d" for r s
      using ok(4) that 2(2,3) assms(7) unfolding players_apart_def by metis
    ultimately have "queues_ok (ts\<lparr>tk_queues := ?heap\<rparr>)"
      using 2(2,3) ok(7,8) assms(2,4,7) dq(1)
      by (intro handed_over[OF assms(1,2) none(2), of ?heap ?q2 new]) (auto split: if_splits)
    moreover have "wired (name_connection nw h new (ts\<lparr>tk_queues := ?heap\<rparr>))"
      by (rule wired_name[OF ok(2) h(1) tasks assms(6,7), of _ ?q2]) (use assms(3) dq 2(2) in \<open>auto simp: emptied_def split: if_splits\<close>)
    moreover have "hand_over nw db q new ts = Some (ts\<lparr>tk_queues := ?heap\<rparr>)"
    proof -
      let ?s = "ts\<lparr>tk_queues := (tk_queues ts)(q \<mapsto> ?q1)\<rparr>"
      have "drain_queue nw d q (length (tq_input dq) + length (tq_bg dq)) ?s =
          Some (?s\<lparr>tk_queues := (tk_queues ?s)(d \<mapsto> emptied dq, q \<mapsto> ?q1\<lparr>tq_bg := tq_bg ?q1 @ tq_bg dq\<rparr>)\<rparr>)"
        using dq 2(2) by (intro drain_queue_all) auto
      also have "(tk_queues ?s)(d \<mapsto> emptied dq, q \<mapsto> ?q1\<lparr>tq_bg := tq_bg ?q1 @ tq_bg dq\<rparr>) =
          (tk_queues ts)(d \<mapsto> emptied dq, q \<mapsto> ?q2)" using dq(1) none(1) by (auto simp: fun_eq_iff)
      finally have drain: "drain_queue nw d q (length (tq_input dq) + length (tq_bg dq)) ?s =
          Some (ts\<lparr>tk_queues := (tk_queues ts)(d \<mapsto> emptied dq, q \<mapsto> ?q2)\<rparr>)" by (simp only: requeue)
      have take: "take_over_queue nw q (Some d) ?ts = Some (ts\<lparr>tk_queues := ?heap\<rparr>)"
        using drain dq(1) 2(2) by (simp add: take_over_queue_def upd_tq_def fun_upd_twist)
      show ?thesis using take 2(1) assms(2,5) by (simp add: hand_over_def upd_tq_def keep_anonymous_tasks_def)
    qed
    ultimately show ?thesis by (simp add: sched_but_def)
  qed
qed

section \<open>The calls of the queues\<close>

text \<open>
  From the network layer: a connection opens, sends a line, is closed. From built-in functions and
  from the interpreter: an option of a connection, tasks that are forked, suspended, made to read,
  killed and resumed, forced and flushed input. From the scheduler: waiting tasks are woken, a task is
  taken from the first active queue, that queue is charged or put to rest, and empty queues are freed.
  And a connection logs in.
\<close>

datatype 'k queue_op =
    Connect "slistener option" nat | Line nat string | Close nat | Set_Option nat string var
  | Fork program "'k activation" "var list" int int int32 | Suspend "'k saved_vm" int32
  | Read "'k saved_vm" objid | Read_Now objid | Kill int32 objid | Resume int32 var objid
  | Force objid string bool | Flush objid bool | Wake | Take | Charge int | Rest | Sweep | Log_In nat objid

fun perform :: "'n network \<Rightarrow> db \<Rightarrow> 'k queue_op \<Rightarrow> ('k, 'n) tasks \<Rightarrow> ('k, 'n) tasks option" where
  "perform nw db (Connect l nh) ts = map_option snd (server_new_connection nw db l nh ts)"
| "perform nw db (Line p line) ts = server_receive_line nw p line ts"
| "perform nw db (Close p) ts = free_shandle p ts"
| "perform nw db (Set_Option p option v) ts = do {
     h \<leftarrow> shandle_at p (tk_net ts);
     map_option snd (tasks_set_connection_option (sh_tasks h) option v ts) }"
| "perform nw db (Fork prog a env f_index start_time tid) ts = enqueue_ft db prog a env f_index start_time tid ts"
| "perform nw db (Suspend m after_seconds) ts = map_option snd (do_enqueue_suspended nw db m after_seconds ts)"
| "perform nw db (Read m player) ts = map_option snd (do_make_reading m player ts)"
| "perform nw db (Read_Now connection) ts = map_option snd (read_input_now nw connection ts)"
| "perform nw db (Kill tid owner) ts = map_option snd (kill_task db tid owner ts)"
| "perform nw db (Resume tid v progr) ts = map_option snd (do_resume nw db tid v progr ts)"
| "perform nw db (Force conn line at_front) ts = do {
     (q, ts) \<leftarrow> have_tqueue db conn ts;
     enqueue_input_task nw q line at_front ts }"
| "perform nw db (Flush conn show_messages) ts = do {
     (q, ts) \<leftarrow> have_tqueue db conn ts;
     flush_input nw q show_messages ts }"
| "perform nw db Wake ts = (case time_now nw ts of (now, ts) \<Rightarrow> wake_tasks db now (tk_waiting ts) ts)"
| "perform nw db Take ts = (case tk_active ts of [] \<Rightarrow> Some ts | q # _ \<Rightarrow> map_option snd (next_task nw q ts))"
| "perform nw db (Charge start) ts =
     (case tk_active ts of [] \<Rightarrow> Some ts | q # _ \<Rightarrow> charge_queue nw start q (unlink_head q ts))"
| "perform nw db Rest ts =
     (case tk_active ts of [] \<Rightarrow> Some ts | q # _ \<Rightarrow> deactivate_tqueue q (unlink_head q ts))"
| "perform nw db Sweep ts = free_empty_queues (tk_idle ts) ts"
| "perform nw db (Log_In q new_player) ts = do {
     tq \<leftarrow> tk_queues ts q;
     h \<leftarrow> find_shandle (tq_player tq) (tk_net ts);
     ts \<leftarrow> hand_over nw db q new_player ts;
     Some (name_connection nw h new_player ts) }"

text \<open>
  What the callers see to: pointers are those of connections, a saved machine has an activation, only
  a queue with nothing to run rests, the seconds charged do not make the usage that of an idle queue,
  and a connection that logs in is at the head of the active queues, has no tasks of its own, and
  the player has no other connection.
\<close>

fun allowed :: "'n network \<Rightarrow> 'k queue_op \<Rightarrow> ('k, 'n) tasks \<Rightarrow> bool" where
  "allowed nw (Line p line) ts = (shandle_at p (tk_net ts) \<noteq> None)"
| "allowed nw (Close p) ts = (shandle_at p (tk_net ts) \<noteq> None)"
| "allowed nw (Set_Option p option v) ts = (shandle_at p (tk_net ts) \<noteq> None)"
| "allowed nw (Suspend m s) ts = (top_activ m \<noteq> None)"
| "allowed nw (Read m p) ts = (top_activ m \<noteq> None)"
| "allowed nw (Charge start) ts = (case tk_active ts of [] \<Rightarrow> True | q # _ \<Rightarrow>
     (word_of_int (usage_of ts q + (fst (nw_time nw (cn_net (tk_net ts))) - start)) :: int32) \<noteq> NO_USAGE)"
| "allowed nw Rest ts = (case tk_active ts of [] \<Rightarrow> True | q # _ \<Rightarrow>
     (case tk_queues ts q of Some tq \<Rightarrow> \<not> may_run tq | None \<Rightarrow> True))"
| "allowed nw (Log_In q new_player) ts = (case tk_queues ts q of
     Some tq \<Rightarrow> tq_connected tq \<and> tq_usage tq \<noteq> NO_USAGE \<and> tq_num_bg_tasks tq = 0 \<and>
       new_player > cn_next_player (tk_net ts) \<and> new_player \<noteq> NOTHING \<and> find_shandle new_player (tk_net ts) = None
   | None \<Rightarrow> False)"
| "allowed nw _ ts = True"

lemma charge_time:
  assumes "time_now nw (unlink_head q ts) = (now, ts')"
  shows "now = fst (nw_time nw (cn_net (tk_net ts)))"
  using assms by (auto simp: time_now_def ask_net_def unlink_head_def split: prod.splits)

lemma head_queue:
  assumes "sched_but X ts" "tk_active ts = q # qs"
  obtains tq where "tk_queues ts q = Some tq"
  using threaded_head(1)[OF sched_butD(3)[OF assms(1)] assms(2)] by blast

lemma perform_ok:
  assumes "sched_ok ts" "world_ok db" "allowed nw op ts"
  shows "\<exists>ts'. perform nw db op ts = Some ts' \<and> sched_ok ts'"
proof (cases op)
  case (Connect l nh)
  then show ?thesis using server_new_connection_ok[OF assms(1,2), of nw l nh] by auto
next
  case (Line p line)
  then show ?thesis using server_receive_line_ok[OF assms(1)] assms(3) by auto
next
  case (Close p)
  then show ?thesis using free_shandle_ok[OF assms(1)] assms(3) by auto
next
  case (Set_Option p option v)
  then obtain h where h: "shandle_at p (tk_net ts) = Some h" using assms(3) by auto
  obtain tq where "tk_queues ts (sh_tasks h) = Some tq"
    using wiredD[OF sched_butD(2)[OF assms(1)]] find_handle_in(2)[OF h] by metis
  from tasks_set_connection_option_ok[OF assms(1) this] Set_Option h show ?thesis by fastforce
next
  case (Fork prog a env f_index start_time tid)
  then show ?thesis using enqueue_ft_ok[OF assms(1,2)] by auto
next
  case (Suspend m s)
  then show ?thesis using do_enqueue_suspended_ok[OF assms(1,2), of m nw s] assms(3) by auto
next
  case (Read m p)
  then show ?thesis using do_make_reading_ok[OF assms(1), of m p] assms(3) by auto
next
  case (Read_Now c)
  then show ?thesis using read_input_now_ok[OF assms(1), of nw c] by auto
next
  case (Kill tid owner)
  then show ?thesis using kill_task_ok[OF assms(1), of db tid owner] by auto
next
  case (Resume tid v progr)
  then show ?thesis using do_resume_ok[OF assms(1,2), of nw tid v progr] by auto
next
  case (Force conn line at_front)
  then show ?thesis using force_input_ok[OF assms(1,2), of conn nw line at_front] by auto
next
  case (Flush conn b)
  then show ?thesis using flush_conn_ok[OF assms(1,2), of conn nw b] by auto
next
  case Wake
  obtain now ts1 where 1: "time_now nw ts = (now, ts1)" by fastforce
  have "sched_ok (ts1\<lparr>tk_waiting := tk_waiting ts1\<rparr>)" using time_now_ok(1)[OF 1] assms(1) by simp
  from wake_tasks_ok[OF this assms(2), of now] 1 Wake show ?thesis by simp
next
  case Take
  show ?thesis
  proof (cases "tk_active ts")
    case (Cons q qs)
    obtain tq where "tk_queues ts q = Some tq" by (rule head_queue[OF assms(1) Cons])
    from next_task_ok[OF assms(1) this, of nw] Take Cons show ?thesis by auto
  qed (use Take assms(1) in simp)
next
  case (Charge start)
  show ?thesis
  proof (cases "tk_active ts")
    case (Cons q qs)
    obtain tq where q: "tk_queues ts q = Some tq" by (rule head_queue[OF assms(1) Cons])
    have c: "(word_of_int (sint (tq_usage tq) + (now - start)) :: int32) \<noteq> NO_USAGE"
      if "time_now nw (unlink_head q ts) = (now, ts')" for now ts'
      using assms(3) charge_time[OF that] Charge Cons q by (simp add: usage_of_def)
    from charge_queue_ok[OF assms(1) Cons q c] Charge Cons show ?thesis by simp
  qed (use Charge assms(1) in simp)
next
  case Rest
  show ?thesis
  proof (cases "tk_active ts")
    case (Cons q qs)
    obtain tq where q: "tk_queues ts q = Some tq" by (rule head_queue[OF assms(1) Cons])
    from deactivate_head_ok[OF assms(1) Cons q] assms(3) Rest Cons q show ?thesis by simp
  qed (use Rest assms(1) in simp)
next
  case Sweep
  have "distinct (tk_idle ts)" using sched_butD(3)[OF assms(1)] by (simp add: threaded_def)
  from free_empty_queues_ok[OF assms(1) subset_refl this] Sweep show ?thesis by simp
next
  case (Log_In q new)
  then obtain tq where q: "tk_queues ts q = Some tq" "tq_connected tq" "tq_usage tq \<noteq> NO_USAGE" "tq_num_bg_tasks tq = 0"
    "new > cn_next_player (tk_net ts)" "new \<noteq> NOTHING" "find_shandle new (tk_net ts) = None"
    using assms(3) by (auto split: option.splits)
  obtain h where h: "find_shandle (tq_player tq) (tk_net ts) = Some h"
    using wired_handle[OF sched_butD(2)[OF assms(1)] q(1,2)] by blast
  from log_in_ok[OF assms(1) q h, of nw db] q(1) h Log_In show ?thesis by auto
qed

section \<open>Reachable queues\<close>

definition no_tasks :: "'n \<Rightarrow> ('k, 'n) tasks" where
  "no_tasks n = \<lparr>tk_queues = (\<lambda>_. None), tk_fresh = 0, tk_idle = [], tk_active = [], tk_waiting = [], tk_current = 0,
     tk_net = \<lparr>cn_handles = [], cn_listeners = [], cn_fresh = 0, cn_next_player = -2, cn_shutdown = None,
       cn_checkpoint = False, cn_net = n\<rparr>\<rparr>"

inductive queues_reach :: "'n network \<Rightarrow> ('k, 'n) tasks \<Rightarrow> bool" for nw where
  start: "queues_reach nw (no_tasks n)"
| call: "queues_reach nw ts \<Longrightarrow> world_ok db \<Longrightarrow> allowed nw op ts \<Longrightarrow> perform nw db op ts = Some ts' \<Longrightarrow> queues_reach nw ts'"

lemma queues_reach_ok: "queues_reach nw ts \<Longrightarrow> sched_ok ts"
proof (induction rule: queues_reach.induct)
  case (start n)
  show ?case
    by (simp add: sched_but_def queues_but_def threaded_def players_apart_def owned_def wired_def no_tasks_def)
next
  case (call ts db op ts')
  from perform_ok[OF call.IH call.hyps(2,3)] call.hyps(4) show ?case by simp
qed

lemma idle_quiet:
  assumes "sched_ok ts" "q \<in> set (tk_idle ts)"
  shows "\<exists>tq. tk_queues ts q = Some tq \<and> \<not> may_run tq"
proof -
  obtain tq where q: "tk_queues ts q = Some tq" using threaded_cell[OF sched_butD(3)[OF assms(1)], of q] assms(2) by blast
  moreover have "tq_usage tq = NO_USAGE" using sched_butD(3)[OF assms(1)] assms(2) q unfolding threaded_def by blast
  ultimately show ?thesis using sched_butD(8)[OF assms(1) q] by (simp add: rested_def)
qed

end
