(* ===== verification/Task_Demo.thy ===== *)
theory Task_Demo
  imports Task_Ops Bf_Demo
begin

text \<open>
  A network that accepts every line and sends none, and the queues after their first calls: a connection
  opens at a listening point, which gives it the task of its login, and sends a line.
\<close>

definition demo_network :: "unit network" where
  "demo_network = \<lparr>nw_time = (\<lambda>n. (1000, n)), nw_random = (\<lambda>n. (7, n)), nw_send_line = (\<lambda>nh s b n. (1, n)),
     nw_send_bytes = (\<lambda>nh s b n. (1, n)), nw_suspend_input = (\<lambda>nh n. n), nw_resume_input = (\<lambda>nh n. n),
     nw_close = (\<lambda>nh n. n), nw_connection_name = (\<lambda>nh n. ''port 7777''), nw_set_binary = (\<lambda>nh b n. n),
     nw_set_option = (\<lambda>nh s v n. (False, n)), nw_option = (\<lambda>nh s n. None), nw_options = (\<lambda>nh vs n. vs),
     nw_buffered_output_length = (\<lambda>nh n. 0), nw_make_listener = (\<lambda>nh a b n. (Inl E_INVARG, n)),
     nw_listen = (\<lambda>nh n. (False, n)), nw_close_listener = (\<lambda>nh n. n), nw_parse = (\<lambda>s. (None, []))\<rparr>"

definition demo_point :: slistener where
  "demo_point = \<lparr>sl_ptr = 0, sl_nlistener = 0, sl_oid = 0, sl_desc = VInt 7777, sl_options = VList [],
     sl_print_messages = False, sl_name = ''port 7777''\<rparr>"

definition demo_run :: "bf_data queue_op list \<Rightarrow> (bf_data, unit) tasks option" where
  "demo_run ops = fold (\<lambda>op r. Option.bind r (perform demo_network demo_db op)) ops (Some (no_tasks ()))"

lemma demo_connected:
  "map_option (\<lambda>ts. (tk_active ts, tk_idle ts, map_option (\<lambda>tq. (tq_player tq, length (tq_input tq))) (tk_queues ts 0)))
     (demo_run [Connect (Some demo_point) 5, Line 0 ''look'']) = Some ([0], [], Some (-2, 2))"
  by code_simp

lemma demo_allowed:
  "map_option (\<lambda>ts. (tk_active ts, shandle_at 0 (tk_net ts) \<noteq> None)) (demo_run [Connect (Some demo_point) 5]) = Some ([0], True)"
  by code_simp

lemma demo_reach:
  assumes "demo_run [Connect (Some demo_point) 5, Line 0 ''look''] = Some ts"
  shows "queues_reach demo_network ts"
proof -
  obtain ts1 where 1: "perform demo_network demo_db (Connect (Some demo_point) 5) (no_tasks ()) = Some ts1"
    and 2: "perform demo_network demo_db (Line 0 ''look'') ts1 = Some ts"
    using assms unfolding demo_run_def by (auto simp del: perform.simps simp: bind_eq_Some_conv)
  have "queues_reach demo_network ts1" by (rule queues_reach.call[OF queues_reach.start demo_world _ 1]) simp
  moreover have "allowed demo_network (Line 0 ''look'') ts1"
    using demo_allowed 1 unfolding demo_run_def by (auto simp del: perform.simps)
  ultimately show ?thesis using queues_reach.call[OF _ demo_world _ 2] by blast
qed

end
