(* ===== verification/Spec2Isabelle.thy ===== *)
theory Spec2Isabelle
  imports Moo_Pattern Moo_Numbers Db_Demo Vm_Tasks Code_Operands Bf_Demo Task_Demo
begin

text \<open>
  LambdaMOO server: a verification development.

  The server keeps a database of objects with properties and verbs, reads command lines from
  players, finds the verb a command calls, and runs its compiled program, which calls built-in
  functions that change the database. The development follows the layers of the code, bottom up;
  each theory opens with the source files it models.

  Values. Moo_Structures holds the tagged union Var of include/structures.h as the datatype var and
  the packages a built-in function returns. Moo_Strings and Moo_Utils are src/utils.c: comparison
  with case folding, verb-name matching, hashing, equality, substring search and replacement,
  binary strings. Moo_List and Bf_List are src/list.c and the printer of literals, Moo_Numbers is
  src/numbers.c, Moo_Pattern is src/pattern.c with the pattern cache of src/list.c.

  Database. Db_State holds the records of include/db_private.h and include/program.h and the flags
  of src/db_objects.c. Db_Chain is the child and contents lists threaded through the objects: the
  locale linked_list states what LL_REMOVE and LL_APPEND need of a list and shows what they do, and
  is interpreted for children and for contents. Db_Hierarchy states that the parent relation is a
  forest and gives the recursion over a subtree. Db_Properties is src/db_properties.c; Db_Layout
  states the layout invariant, that the slots of an object are its own definitions and then its
  ancestors', and what a name looks up; Db_Layout_Ops and Db_Layout_Laws show what adding, deleting
  and renaming a definition do. Db_Objects is the rest of src/db_objects.c and src/quota.c; Db_Fix
  and Db_Chparent show that changing a parent moves the slots with the object, Db_Lifecycle shows
  creation, destruction and moves. Db_Preps and Db_Verbs are src/db_verbs.c; Db_Verb_Cache shows
  that the verb cache is transparent, as an interpretation of the locale memo_table of Moo_Prelude,
  which the pattern cache interprets too. Db_Reach puts the operations together as one step
  relation and shows the invariant of every reachable database.

  Commands. Parse_Words is parse_into_words of src/parse_cmd.c, which works in place on its buffer;
  Parse_Cmd is the rest of that file and src/match.c, and Match_Laws says which object a phrase
  means and how a command is cut.

  Compiler. Moo_Ast is include/ast.h, Moo_Opcode include/opcode.h, and Code_Gen is src/code_gen.c:
  the trees of a verb become a vector of bytes with references to literals, variables, labels and
  stack slots. Code_Gen_Laws has the invariant of the generator's state, Code_Shape says which trees
  the parser makes and which code an expression has, Code_Gen_Expr and Code_Gen_Stmt show that the
  generator succeeds on all of them, Code_Stack that it asks for the stack its syntax says, and
  Code_Link and Code_Operands that the references in the linked vector read back as what they name.

  Machine. Vm_State has the activations of include/execute.h, the environments of src/eval_env.c and
  the table of src/functions.c; Vm_Values is what the instructions compute on values; Vm_Unwind is
  calls, errors and unwinding; Vm_Run is the interpreter run() of src/execute.c, one definition for
  each instruction; Vm_Tasks is the entry points of tasks and the built-in functions of
  src/execute.c. Server_Options is the look-up of server options. The built-in functions, the task
  queues and the line numbers are fields of the record server, which the machine takes as an
  argument.

  Built-in functions. Bf_Property is src/property.c, Bf_Verbs is src/verbs.c and Bf_Objects is
  src/objects.c with eval(); a function that works on the database alone is a db_bf, one that calls
  a verb returns BI_CALL and is entered again at the program counter it names. Bf_Registry is the
  table of src/functions.c. Bf_Laws shows that a function that fails has changed nothing, Bf_World
  that the others keep the invariant of Db_Reach and every object closed to the programmer,
  Bf_Recycle the invariant over verb calls, Bf_Recycle_Ends that the loops of recycle() end, and
  Bf_Names when the test of two verb names ends.

  Tasks and connections. Task_Queues holds the queues of src/tasks.c, one for each player or
  connection, as cells of a store with the lists of idle and of active ones; Task_Sched adds lines
  of input and forked, suspended and reading tasks, Task_Run runs commands and the typing of
  programs, Task_Ready is logins and run_ready_tasks, the scheduler, and Task_Bf the built-in
  functions. Server_Net, Server_Conns and Server_Bf are the connections and listening points of
  src/server.c and its built-in functions. Task_Invariant says when the queues are in order;
  Task_Laws, Task_Keeps, Task_Waits, Task_Rounds, Task_Kills and Task_Logins show, operation by operation,
  that each of them returns and keeps it; Task_Ops puts the operations together as one relation on
  the queues and shows the invariant of every state it reaches. What a task does to the queues
  while it runs is a sequence of these operations.

  Conventions. A result None of an operation stands for a run without a defined continuation: a
  call of server_panic, a null, dangling or out-of-bounds access, a division trap, or a loop that
  does not end; loops that may not end are partial functions, and the theorems about them state
  that they do return. Errors that a MOO program can see are values. An int is a 32-bit word and its
  overflow wraps, as the compilers in use make it; object numbers are integers. Sizes are those of
  64-bit targets. A C string is the list of its characters before the NUL. A pointer to a verb or a
  property slot is the object that owns it and a position. Static result buffers are returned by
  value. Reference counts and freeing have no counterpart.

  Parameters. The regular expression compiler and matcher (src/regexpr.c), the arithmetic of
  doubles and the math library, strtod and printf of doubles, strftime, random() and the clock are
  arguments of the definitions that use them. The network layer (src/network.c) is the record network
  of Server_Net, whose fields are the functions of include/network.h.

  Bounds. No operation is cut off by fuel: loops are structural recursions, functions with a
  termination measure, or partial functions whose results are shown to exist.

  Not modelled. Files, sockets, signals, logging and memory management are operating system I/O, and
  so are emergency mode, start-up and the checkpoints of the main loop in src/server.c;
  the list of components in the manifest names every source file left out and why.
\<close>

section \<open>The database as a whole\<close>



text \<open>
  C2. Moving an object takes it out of the contents list of its old location and appends it to the
  new one, leaves every other contents list and every other location as it was, and keeps the
  lists exact; a location that is not valid is only recorded.
\<close>

theorem change_location_exact:
  assumes "table_ok db" "contents_ok db" "objects db r = Some rob"
  shows "\<exists>db'. db_change_location db r loc = Some db' \<and> contents_ok db' \<and>
    (\<forall>x. link ob_location db' x = (if x = r then Some loc else link ob_location db x)) \<and>
    (\<forall>p cs. db_contents db p = Some cs \<longrightarrow>
       db_contents db' p = Some (if p = loc then remove1 r cs @ [r] else remove1 r cs)) \<and>
    (layout_ok db \<longrightarrow> layout_ok db')"
  using change_location_correct[OF assms, of loc] by auto

lemma change_location_exact_witness:
  "\<exists>db'. db_change_location demo_db 2 0 = Some db' \<and> db_contents db' 1 = Some [] \<and> db_contents db' 0 = Some [2]"
proof -
  obtain db' where d: "db_change_location demo_db 2 0 = Some db'"
    "\<forall>p cs. db_contents demo_db p = Some cs \<longrightarrow>
       db_contents db' p = Some (if p = 0 then remove1 2 cs @ [2] else remove1 2 cs)"
    using change_location_exact[OF hier_okD(1)[OF demo_hier] demo_contents demo_objects(3), of 0] by blast
  moreover have "db_contents demo_db 1 = Some [2]" "db_contents demo_db 0 = Some []"
    using demo_contents_lists by blast+
  ultimately show ?thesis by (intro exI[of _ db']) simp
qed

section \<open>Verbs\<close>





section \<open>Words and prepositions\<close>

text \<open>
  C5. Splitting a line into words, done in place over the buffer that holds it, never reads or
  writes outside the buffer, returns, and leaves at the positions it reports the words that the
  reference definition finds; a line of quoted words splits back into the words.
\<close>

theorem parse_words_correct:
  "(c_string s \<longrightarrow> (\<exists>offs buf. parse_into_words (s @ [NUL]) = Some (offs, buf) \<and>
      map (c_str buf) offs = split_words s)) \<and>
    ((\<forall>w \<in> set ws. c_string w) \<longrightarrow> words_of (build_string (map quote_word ws)) = Some ws)"
  using words_of_split_words[of s] words_of_split_words[of "build_string (map quote_word ws)"]
    split_words_build_string[of ws] c_string_build_string[of "map quote_word ws"]
  by (auto simp: words_of_def quote_word_def ch_def split: option.splits)

lemma parse_words_correct_witness:
  "(\<exists>offs buf. parse_into_words (''  put  x '' @ [NUL]) = Some (offs, buf) \<and>
      map (c_str buf) offs = [''put'', ''x'']) \<and>
    words_of (build_string (map quote_word [''a b'', ''''])) = Some [''a b'', '''']"
proof -
  have "split_words ''  put  x '' = [''put'', ''x'']" by code_simp
  then show ?thesis
    using parse_words_correct[of "''  put  x ''" "[''a b'', '''']"]
    by (simp add: ch_def)
qed



section \<open>Commands\<close>



text \<open>
  C8. Parsing a command returns on a well-formed database. A command without words gives no result;
  any other gives its first word as the verb and the rest as arguments, and cuts the rest into
  direct object, preposition and indirect object: the preposition is the first place where the
  words of a known preposition stand, and without one everything is the direct object. The object
  phrases are the words joined by single spaces, and the objects are what the phrases mean.
\<close>

theorem parse_command_correct:
  assumes "names_ok db" "layout_ok db" "contents_ok db" "c_string command"
    "command_text command = (buf, argstr)"
  shows "if split_words buf = [] then parse_command db command user = Some None
    else \<exists>pc ds ps ios. parse_command db command user = Some (Some pc) \<and>
      pc_verb pc = hd (split_words buf) \<and> pc_args pc = map VStr (tl (split_words buf)) \<and> pc_argstr pc = argstr \<and>
      command_parts (tl (split_words buf)) (pc_prep pc) ds ps ios \<and>
      pc_dobjstr pc = build_string ds \<and> pc_prepstr pc = build_string ps \<and> pc_iobjstr pc = build_string ios \<and>
      (if ds = [] then pc_dobj pc = NOTHING else match_object db user (build_string ds) = Some (pc_dobj pc)) \<and>
      (if pc_prep pc = PREP_NONE then pc_iobj pc = NOTHING else match_object db user (build_string ios) = Some (pc_iobj pc))"
  using parse_command_parts[OF assms] .

lemma parse_command_correct_witness:
  "\<exists>pc. parse_command demo_db ''get al'' 1 = Some (Some pc) \<and> pc_verb pc = ''get'' \<and> pc_args pc = [VStr ''al'']"
proof -
  have "command_text ''get al'' = (''get al'', ''al'')" by code_simp
  moreover have "split_words ''get al'' = [''get'', ''al'']" by code_simp
  ultimately show ?thesis
    using parse_command_correct[OF demo_names_ok demo_layout demo_contents, of "''get al''" "''get al''" "''al''" 1]
    by (auto simp: ch_def)
qed

section \<open>Objects and properties\<close>

text \<open>
  C9. Changing the parent of an object of a well-formed database returns. When a name would be
  defined twice it refuses and changes nothing; otherwise the result is a well-formed database,
  in which the lists of children, the parent relation and the property slots of the object and
  of all its descendants fit the new place, every definition is where it was, and only the
  parent of that object has changed.
\<close>

theorem change_parent_keeps_layout:
  assumes "layout_ok db" "objects db r = Some rob" "np \<notin> subtree db r"
    "np = NOTHING \<or> objects db np \<noteq> None"
  shows "if chparent_ok db r np
    then \<exists>db'. db_change_parent db r np = Some (True, db') \<and> layout_ok db' \<and>
      (\<forall>x. link ob_parent db' x = (if x = r then Some np else link ob_parent db x)) \<and>
      (\<forall>x. defs_of db' x = defs_of db x)
    else db_change_parent db r np = Some (False, db)"
  using db_change_parent_correct[OF assms] db_change_parent_refused[OF assms(1,2)] by auto

lemma change_parent_keeps_layout_witness:
  "\<exists>db'. db_change_parent demo_db 2 1 = Some (True, db') \<and> layout_ok db' \<and>
    (\<forall>x. link ob_parent db' x = (if x = 2 then Some 1 else link ob_parent demo_db x)) \<and>
    (\<forall>x. defs_of db' x = defs_of demo_db x)"
  using change_parent_keeps_layout[OF demo_layout demo_objects(3), of 1] demo_chparent demo_objects(2)
  by (simp add: demo_subtree)

text \<open>
  C10. Looking a property up on a well-formed database returns, for every name that is not
  built in. The handle is null exactly when neither the object nor an ancestor defines the name;
  otherwise it points to the slot of the object, names an ancestor that defines the property, and
  the value is that of the first slot on the way up that is not clear.
\<close>

theorem find_property_correct:
  assumes "layout_ok db" "c_string nm" "bi_lookup nm = None" "objects db x = Some ob"
  shows "case index_of (\<lambda>d. key d = fold_case nm) (all_defs db x) of
      None \<Rightarrow> db_find_property db x nm True =
        Some (\<lparr>h_built_in = BP_NONE, h_definer = NOTHING, h_ptr = Null\<rparr>, None)
    | Some i \<Rightarrow> \<exists>definer v. db_find_property db x nm True =
          Some (\<lparr>h_built_in = BP_NONE, h_definer = definer, h_ptr = Slot x i\<rparr>, Some v) \<and>
        definer \<in> set (ancs db x) \<and> (\<exists>d \<in> set (defs_of db definer). key d = fold_case nm) \<and>
        inherited_value db nm x = Some v \<and> v \<noteq> VClear"
  using db_find_property_none[OF assms(1-3)] db_find_property_slot[OF assms]
  by (auto split: option.splits) metis

lemma find_property_correct_witness:
  "\<exists>definer v. db_find_property demo_db 1 ''size'' True =
      Some (\<lparr>h_built_in = BP_NONE, h_definer = definer, h_ptr = Slot 1 1\<rparr>, Some v) \<and>
    definer \<in> set (ancs demo_db 1) \<and> inherited_value demo_db ''size'' 1 = Some v"
proof -
  have bi: "bi_lookup ''size'' = None"
    by (simp add: bi_lookup_def ptable_def ascii_tolower_def ch_def)
  have "index_of (\<lambda>d. key d = fold_case ''size'') (all_defs demo_db 1) = Some 1"
    by (simp add: demo_all_defs ascii_tolower_def ch_def)
  with find_property_correct[OF demo_layout demo_names(3) bi demo_objects(2)] show ?thesis by auto
qed

text \<open>
  C11. Defining a new property on an object of a well-formed database gives a well-formed database
  in which every object that inherits from it sees the value, and no other property of any object
  has changed. A name that is built in, or defined by an ancestor or a descendant, is refused.
\<close>

theorem add_propdef_correct:
  assumes "layout_ok db" "objects db r = Some rob" "c_string nm" "v \<noteq> VClear"
  shows "if fresh_prop db r nm
    then \<exists>db'. db_add_propdef db r nm v owner flags = Some (True, db') \<and> layout_ok db' \<and>
      (\<forall>x ob. objects db x = Some ob \<longrightarrow> x \<in> subtree db r \<longrightarrow> inherited_value db' nm x = Some v) \<and>
      (\<forall>x nm'. objects db x \<noteq> None \<longrightarrow> fold_case nm' \<noteq> fold_case nm \<longrightarrow>
        inherited_value db' nm' x = inherited_value db nm' x)
    else db_add_propdef db r nm v owner flags = Some (False, db)"
  using add_propdef_cases[OF assms] .

lemma add_propdef_correct_witness:
  "\<exists>db'. db_add_propdef demo_db 0 ''weight'' (VInt 3) 0 1 = Some (True, db') \<and> layout_ok db' \<and>
    inherited_value db' ''weight'' 1 = Some (VInt 3)"
  using add_propdef_correct[OF demo_layout demo_objects(1), of "''weight''" "VInt 3" 0 1]
    demo_fresh demo_objects(2) demo_subtree[of 1 0] by (auto simp: ch_def)

text \<open>
  C12. Deleting a property definition from an object that has it gives a well-formed database in
  which the objects below no longer have the name and every other property of every object has
  the value it had; deleting a name the object does not define changes nothing.
\<close>

theorem delete_propdef_correct:
  assumes "layout_ok db" "objects db r = Some rob" "c_string nm"
  shows "if \<exists>d \<in> set (ob_propdefs rob). key d = fold_case nm
    then \<exists>db'. db_delete_propdef db r nm = Some (True, db') \<and> layout_ok db' \<and>
      (\<forall>x \<in> subtree db r. prop_slot db' nm x = None) \<and>
      (\<forall>x nm'. objects db x \<noteq> None \<longrightarrow> fold_case nm' \<noteq> fold_case nm \<longrightarrow>
        inherited_value db' nm' x = inherited_value db nm' x)
    else db_delete_propdef db r nm = Some (False, db)"
  using delete_propdef_cases[OF assms] .

lemma delete_propdef_correct_witness:
  "\<exists>db'. db_delete_propdef demo_db 0 ''size'' = Some (True, db') \<and> layout_ok db' \<and>
    prop_slot db' ''size'' 1 = None"
proof -
  have "\<exists>d \<in> set (ob_propdefs demo_root). key d = fold_case ''size''" by (simp add: demo_ob_defs)
  with delete_propdef_correct[OF demo_layout demo_objects(1) demo_names(3)]
  obtain db' where db': "db_delete_propdef demo_db 0 ''size'' = Some (True, db')" "layout_ok db'"
    "\<forall>x \<in> subtree demo_db 0. prop_slot db' ''size'' x = None" by metis
  then show ?thesis using demo_subtree[of 1 0] by blast
qed

text \<open>
  C13. Deleting a property that has just been added gives back every object as it was, but for the
  room that the definer keeps for definitions.
\<close>

theorem add_delete_propdef:
  assumes "layout_ok db" "objects db r = Some rob" "c_string nm" "v \<noteq> VClear"
    "db_add_propdef db r nm v owner flags = Some (True, db1)"
  shows "\<exists>db2 m. db_delete_propdef db1 r nm = Some (True, db2) \<and>
    (\<forall>x. objects db2 x = (if x = r then Some (rob\<lparr>ob_max_props := m\<rparr>) else objects db x))"
proof -
  let ?pv = "\<lparr>pv_var = v, pv_owner = owner, pv_perms = ucast flags\<rparr>"
  have "fresh_prop db r nm" "db1 = added db r rob nm ?pv"
    using db_add_propdef_eq[OF assms(1-3), of v owner flags] assms(5) by (auto split: if_splits)
  then show ?thesis using delete_added[OF assms(1-3), of ?pv] assms(4) by simp
qed

lemma add_delete_propdef_witness:
  "\<exists>db1 db2 m. db_add_propdef demo_db 0 ''weight'' (VInt 3) 0 1 = Some (True, db1) \<and>
    db_delete_propdef db1 0 ''weight'' = Some (True, db2) \<and>
    (\<forall>x. objects db2 x = (if x = 0 then Some (demo_root\<lparr>ob_max_props := m\<rparr>) else objects demo_db x))"
proof -
  have c: "c_string ''weight''" by (simp add: ch_def)
  obtain db1 where db1: "db_add_propdef demo_db 0 ''weight'' (VInt 3) 0 1 = Some (True, db1)"
    using db_add_propdef_eq[OF demo_layout demo_objects(1) c] demo_fresh by auto
  from add_delete_propdef[OF demo_layout demo_objects(1) c _ this] show ?thesis using db1 by auto
qed



section \<open>Compiled code\<close>

definition demo_stmts :: "stmt list" where
  "demo_stmts = [STMT_WHILE (-1) (EXPR_ID 40) [STMT_BREAK (-1)], STMT_RETURN (Some (EXPR_VAR (VStr ''a'')))]"

text \<open>
  C15. The code generator compiles every program that the parser can make: no label chain is broken, no
  loop to leave is missing, no left side is refused, and the loop that links the code writes
  exactly as many bytes as were allocated, for the main vector and for every forked one. The
  premise bounds the depth of the run-time stack, beyond which stack references get too long.
\<close>

theorem compiler_total:
  assumes "wf_stmts [] sts" "stmts_depth sts < 256"
  shows "\<exists>p. generate_code sts version = Some p \<and> pg_version p = version \<and>
    int (bc_max_stack (pg_main_vector p)) \<le> stmts_depth sts"
proof -
  have l: "\<forall>v \<in> set (gs_literals init_gstate). plain_literal v" by (simp add: init_gstate_def)
  show ?thesis
  proof (rule stmt_to_code_ok[OF assms l])
    fix s bc g' assume "stmt_to_code sts init_gstate = Some (bc, g')" "bc_max_stack bc = nat (max_stack s)"
      "max_stack s \<le> stmts_depth sts"
    then show ?thesis using stmts_depth_pos(1)[of sts] by (simp add: generate_code_def)
  qed
qed

lemma compiler_total_witness:
  "\<exists>p. generate_code demo_stmts 3 = Some p \<and> pg_version p = 3 \<and> int (bc_max_stack (pg_main_vector p)) \<le> 1"
  using compiler_total[of demo_stmts 3] by (simp add: demo_stmts_def exit_ok_def)





section \<open>Built-in functions\<close>

text \<open>
  C18. recycle() returns when no verb is there to be called: its loops end, the object is gone, every
  object it held is nowhere, every child belongs to its parent, and nothing else has moved.
\<close>

theorem recycle_ends:
  assumes "world_ok (vm_db vm)" "silent (vm_db vm)" "valid (vm_db vm) x" "controls (vm_db vm) progr x = Some True"
  shows "\<exists>vm'. bf_recycle sv (VList [VObj x]) 1 d progr vm = Some (no_var_pack, vm') \<and>
    world_ok (vm_db vm') \<and> objects (vm_db vm') x = None \<and>
    (\<forall>y. y \<noteq> x \<longrightarrow> (objects (vm_db vm') y = None \<longleftrightarrow> objects (vm_db vm) y = None) \<and>
      link ob_parent (vm_db vm') y = (if link ob_parent (vm_db vm) y = Some x
        then link ob_parent (vm_db vm) x else link ob_parent (vm_db vm) y) \<and>
      link ob_location (vm_db vm') y = (if link ob_location (vm_db vm) y = Some x
        then Some NOTHING else link ob_location (vm_db vm) y))"
  using bf_recycle_ends[OF assms, of sv d] unfolding left_behind_def by blast

lemma recycle_ends_witness:
  "\<forall>sv. \<exists>vm'. bf_recycle sv (VList [VObj 0]) 1 None 0 demo_vm = Some (no_var_pack, vm') \<and>
    objects (vm_db vm') 0 = None \<and> link ob_parent (vm_db vm') 1 = Some NOTHING"
proof
  fix sv
  have "valid demo_db 0" "controls demo_db 0 0 = Some True"
    using demo_objects valid_world[OF demo_world] demo_wizard by (simp_all add: controls_def)
  with recycle_ends[of demo_vm 0 0 sv None] demo_world demo_silent
  show "\<exists>vm'. bf_recycle sv (VList [VObj 0]) 1 None 0 demo_vm = Some (no_var_pack, vm') \<and>
    objects (vm_db vm') 0 = None \<and> link ob_parent (vm_db vm') 1 = Some NOTHING"
    by (auto simp: demo_link_parent)
qed



text \<open>
  C20. A programmer to whom no write permission on an object, on a verb of it or on a property slot of it
  is granted cannot change its verbs, its property definitions, its parent or its location by any
  of the functions on objects, properties and verbs that run without calling a verb.
\<close>

theorem closed_object_kept:
  assumes "f \<in> set (db_functions unparse parse late null_prog fp)" "world_ok db" "good_args args"
    "f db progr args = Some (p, db')" "closed_to db progr x"
  shows "verbs_of db' x = verbs_of db x \<and> defs_of db' x = defs_of db x \<and>
    link ob_parent db' x = link ob_parent db x \<and> link ob_location db' x = link ob_location db x"
proof -
  have "kept db db' x"
    using endsD[OF db_functions_orderly[OF assms(2,3,1)] assms(4)] assms(5) by (simp add: orderly_def keeps_def)
  then show ?thesis
    by (cases "objects db x"; cases "objects db' x") (auto simp: kept_def outer_def verbs_of_def link_def)
qed

lemma closed_object_kept_witness:
  "\<exists>p db'. bf_set_prop_info demo_db 1 [VObj 1, VStr ''colour'', VList [VObj 1, VStr ''r'']] = Some (p :: bf_data package, db') \<and>
    defs_of db' 0 = defs_of demo_db 0 \<and> link ob_parent db' 0 = link ob_parent demo_db 0"
proof -
  obtain p db' where r: "bf_set_prop_info demo_db 1 [VObj 1, VStr ''colour'', VList [VObj 1, VStr ''r'']] =
      Some (p :: bf_data package, db')"
    using demo_set_info_pack by (auto simp: map_option_eq_Some)
  have "bf_set_prop_info \<in> set (db_functions undefined undefined False undefined undefined)"
    by (simp add: db_functions_def)
  from closed_object_kept[OF this demo_world _ r demo_closed] r show ?thesis by (simp add: ch_def)
qed



text \<open>
  C22. The test of two verb names for a common name ends unless only the second name has met its star at
  the first star or difference, and the scan that follows then comes to a star of the first name:
  exactly then its third loop goes round for ever.
\<close>

theorem name_test_hangs:
  "single_names_share_namespace foo bar = None \<longleftrightarrow>
    (\<exists>f b q b' f'. ns_start foo bar = Inr (f, b) \<and> \<not> starts_star f \<and> starts_star b \<and>
      ns_scan False b f = Some (q, b', f') \<and> starts_star f')"
  by (rule share_namespace_hangs)

text \<open>
  C23. Up to 256 functions whose names differ in more than case are registered at the numbers of their
  rows: a name in any case is looked up to that number, and the number to the name.
\<close>

theorem function_table_roundtrip:
  assumes "length rows \<le> MAX_FUNC" "\<forall>r \<in> set rows. c_string (fst r)" "distinct (map (\<lambda>r. fold_case (fst r)) rows)"
    "i < length rows" "sv_table sv = register_all rows" "c_string nm" "fold_case nm = fold_case (fst (rows ! i))"
  shows "number_func_by_name sv nm = i \<and> name_func_by_num sv i = fst (rows ! i)"
  using registered_function[OF assms] by blast

lemma function_table_roundtrip_witness:
  "\<forall>sv f. number_func_by_name (sv\<lparr>sv_table := register_all [(''move'', 2, 2, f, [1, 1]), (''valid'', 1, 1, f, [1])]\<rparr>) ''VALID'' = 1"
proof -
  have "number_func_by_name (sv\<lparr>sv_table := register_all [(''move'', 2, 2, f, [1, 1]), (''valid'', 1, 1, f, [1])]\<rparr>) ''VALID'' = 1" for sv f
  proof -
    let ?rows = "[(''move'', 2 :: int, 2 :: int, f, [1 :: int, 1]), (''valid'', 1, 1, f, [1])]"
    have "c_string ''move''" "c_string ''valid''" "c_string ''VALID''" "fold_case ''VALID'' = fold_case ''valid''"
      "fold_case ''move'' \<noteq> fold_case ''valid''" by code_simp+
    then show ?thesis
      using function_table_roundtrip[of ?rows 1 "sv\<lparr>sv_table := register_all ?rows\<rparr>" "''VALID''"] by (simp add: MAX_FUNC_def)
  qed
  then show ?thesis by blast
qed

section \<open>The scheduler\<close>



section \<open>Strings and lists\<close>


text \<open>
  C26. The equality test of the server decides structural equality of values, with strings compared
  up to case unless case matters, on all values a program can hold.
\<close>

theorem equality_correct:
  assumes "moo_value v" "c_value v" "c_value w"
  shows "equality v w cm = Some (val_eq cm v w)"
  using assms by (rule equality_val_eq)

lemma equality_correct_witness:
  "equality (VList [VStr ''Ab'', VInt 3]) (VList [VStr ''aB'', VInt 3]) False = Some True"
proof -
  have "val_eq False (VList [VStr ''Ab'', VInt 3]) (VList [VStr ''aB'', VInt 3])" by code_simp
  then show ?thesis
    using equality_correct[of "VList [VStr ''Ab'', VInt 3]" "VList [VStr ''aB'', VInt 3]" False]
    by (simp add: ch_def del: equality_simps val_eq.simps)
qed

text \<open>
  C27. Substitution returns when the string to replace is not empty, and the result is the source with
  the leftmost occurrences, without overlap, replaced one after the other.
\<close>

theorem strsub_correct:
  assumes "what \<noteq> []" "c_string what" "c_string s"
  shows "\<exists>r. strsub_loop cc what with s [] = Some r \<and> replaced cc what with s r"
  using strsub_loop_replaced[OF assms, of cc "with" "[]"] by simp

lemma strsub_correct_witness:
  "\<exists>r. strsub_loop True ''b'' ''xy'' ''abc'' [] = Some r \<and> replaced True ''b'' ''xy'' ''abc'' r"
  using strsub_correct[of "''b''" "''abc''" True "''xy''"] by (simp add: ch_def)

text \<open>
  C28. The search for a substring returns the first position at which it occurs, counted from one, and
  zero when it does not occur.
\<close>

theorem strindex_correct:
  assumes "c_string s" "c_string what"
  shows "strindex s what cc =
    (if \<exists>k. occurs_at cc s what k then (LEAST k. occurs_at cc s what k) + 1 else 0)"
  using strindex_loop_spec[OF assms, of cc 0] by (simp add: strindex_def)

lemma strindex_correct_witness: "strindex ''abcb'' ''b'' True = (if \<exists>k. occurs_at True ''abcb'' ''b'' k
    then (LEAST k. occurs_at True ''abcb'' ''b'' k) + 1 else 0)"
  using strindex_correct[of "''abcb''" "''b''" True] by (simp add: ch_def)



text \<open>
  C30. Every sequence of bytes survives its encoding as a binary string, and the encoding consists of
  printable characters and blanks.
\<close>

theorem binary_roundtrip:
  "binary_to_raw_bytes (raw_bytes_to_binary bs) = Some bs \<and>
    list_all (\<lambda>c. isgraph c \<or> c = CHR '' '') (raw_bytes_to_binary bs)"
  using binary_to_raw_bytes_to_binary raw_bytes_to_binary_printable[of _ bs] by (auto simp: list_all_iff)

text \<open>
  C31. What decode_binary() returns for a binary string, in either mode, is encoded by encode_binary()
  as the canonical form of the same bytes.
\<close>

theorem decode_encode_binary:
  assumes "binary_to_raw_bytes str = Some raw"
  shows "\<exists>vs. bf_decode_binary (VStr str # opt) = Some (make_var_pack (VList vs)) \<and>
    bf_encode_binary vs = Some (make_var_pack (VStr (raw_bytes_to_binary raw)))"
  using assms by (rule bf_decode_binary_encode)

lemma decode_encode_binary_witness:
  "\<exists>vs. bf_decode_binary [VStr ''ab''] = Some (make_var_pack (VList vs)) \<and>
    bf_encode_binary vs = Some (make_var_pack (VStr (raw_bytes_to_binary ''ab'')))"
  by (rule decode_encode_binary) (simp add: ch_def)



text \<open>
  C33. Adding to a set appends a value that is not a member and nothing else; removing takes the first
  member equal to the value out and nothing else.
\<close>

theorem setremove_setadd:
  assumes "moo_value v" "c_value v" "\<forall>x \<in> set xs. c_value x"
  shows "setadd xs v = Some (if \<exists>x \<in> set xs. val_eq False v x then xs else xs @ [v]) \<and>
    (setremove xs v = Some xs \<and> (\<forall>x \<in> set xs. \<not> val_eq False v x) \<or>
      (\<exists>ys y zs. xs = ys @ y # zs \<and> val_eq False v y \<and> (\<forall>z \<in> set ys. \<not> val_eq False v z) \<and>
        setremove xs v = Some (ys @ zs)))"
  using setadd_spec[OF assms] setremove_spec[OF assms] by simp

lemma setremove_setadd_witness:
  "setadd [VInt 1, VInt 2] (VInt 2) = Some [VInt 1, VInt 2]"
  using setremove_setadd[of "VInt 2" "[VInt 1, VInt 2]"] by simp

section \<open>Numbers\<close>

text \<open>
  C34. Dividing two integers by a divisor that is not zero gives the quotient rounded towards zero
  and the remainder that goes with it, which is smaller than the divisor and has the sign of the
  dividend. The one pair without a result is the least integer and -1, where the processor
  traps. A zero divisor gives E_DIV and two types E_TYPE.
\<close>

theorem division_correct:
  "(b \<noteq> 0 \<and> \<not> (a = INT_MIN \<and> b = -1) \<longrightarrow> (\<exists>q m. do_divide fp (VInt a) (VInt b) = Some (VInt q) \<and>
      do_modulus fp (VInt a) (VInt b) = Some (VInt m) \<and> sint q * sint b + sint m = sint a \<and>
      \<bar>sint m\<bar> < \<bar>sint b\<bar> \<and> (sint m = 0 \<or> sgn (sint m) = sgn (sint a)))) \<and>
    do_divide fp (VInt INT_MIN) (VInt (-1)) = None \<and> do_modulus fp (VInt INT_MIN) (VInt (-1)) = None \<and>
    do_divide fp (VInt a) (VInt 0) = Some (VErr E_DIV) \<and> do_modulus fp (VInt a) (VInt 0) = Some (VErr E_DIV) \<and>
    (var_type v \<noteq> var_type w \<longrightarrow> do_divide fp v w = Some (VErr E_TYPE))"
  using c_div_mod[of b a]
  by (auto simp: do_divide_def do_modulus_def c_div_def c_mod_def division_op_type)

lemma division_correct_witness:
  "\<exists>q m. do_divide demo_fp (VInt (-7)) (VInt 2) = Some (VInt q) \<and>
      do_modulus demo_fp (VInt (-7)) (VInt 2) = Some (VInt m) \<and> sint q * 2 + sint m = -7 \<and>
      \<bar>sint m\<bar> < 2 \<and> (sint m = 0 \<or> sgn (sint m) = -1) \<and>
      do_divide demo_fp (VInt 1) (VStr []) = Some (VErr E_TYPE)"
  using division_correct[of 2 "-7" demo_fp "VInt 1" "VStr []"]
  by (simp add: INT_MIN_def)

text \<open>
  C35. Raising an integer to a power that is not negative returns the power modulo 2^32, although
  the loop squares and multiplies; a negative power is the fraction rounded towards zero, and
  E_DIV for base zero.
\<close>

theorem power_correct:
  "do_power fp (VInt a) (VInt b) =
    (if 0 \<le> sint b then VInt (a ^ nat (sint b))
     else if a = 0 then VErr E_DIV else VInt (word_of_int (1 sdiv (sint a ^ nat (- sint b)))))"
  by (simp add: power_loop_power power_negative_cases unat_eq_nat_sint)

lemma power_correct_witness:
  "do_power demo_fp (VInt 3) (VInt 20) = VInt (3 ^ 20) \<and> do_power demo_fp (VInt (-1)) (VInt (-3)) = VInt (-1)"
  using power_correct[of demo_fp 3 20] power_correct[of demo_fp "-1" "-3"] by simp



text \<open>
  C37. min() and max() of integers return one of their arguments that no other argument is below,
  or above; an argument of another type makes them raise E_TYPE.
\<close>

theorem min_max_correct:
  "(\<exists>r. bf_min (map VInt (n # ns)) = Some (BI_RETURN (VInt r)) \<and> r \<in> set (n # ns) \<and>
      (\<forall>x \<in> set (n # ns). sint r \<le> sint x)) \<and>
    (\<exists>r. bf_max (map VInt (n # ns)) = Some (BI_RETURN (VInt r)) \<and> r \<in> set (n # ns) \<and>
      (\<forall>x \<in> set (n # ns). sint x \<le> sint r)) \<and>
    ((\<exists>v \<in> set vs. var_type v \<noteq> 0) \<longrightarrow> bf_min (VInt n # vs) = Some (make_error_pack E_TYPE) \<and>
      bf_max (VInt n # vs) = Some (make_error_pack E_TYPE))"
  using bf_best_ints[of True n ns] bf_best_ints[of False n ns]
  by (simp only: bf_min_def bf_max_def if_True if_False simp_thms) (blast intro: bf_best_bad)

lemma min_max_correct_witness:
  "(\<exists>r. bf_min (map VInt [3, -1, 2]) = Some (BI_RETURN (VInt r)) \<and> r \<in> set [3, -1, 2] \<and>
      (\<forall>x \<in> set [3, -1, 2 :: int32]. sint r \<le> sint x)) \<and>
    bf_min [VInt 3, VObj 1] = Some (make_error_pack E_TYPE)"
  using min_max_correct[of 3 "[-1, 2]" "[VObj 1]"] by simp

section \<open>Patterns\<close>

text \<open>
  C38. Whatever was matched before, the pattern cache returns for every request the pattern that
  compiling the string would give: a run of requests from the empty cache is the list of the
  compilations.
\<close>

theorem pattern_cache_transparent:
  assumes "\<forall>k \<in> set ks. c_string (fst k)"
  shows "\<exists>cache. memo_run (get_pattern compile) setup_pattern_cache ks =
    Some (map (\<lambda>(s, cm). new_pattern compile s cm) ks, cache)"
  using pcache.memo_run_correct[OF setup_pattern_cache_ok, of ks compile] assms
  by (auto simp: case_prod_beta)

lemma pattern_cache_transparent_witness:
  "\<exists>cache. memo_run (get_pattern (\<lambda>s _. Some s)) setup_pattern_cache
      [(''ab'', True), (''%b'', False), (''ab'', True)] =
    Some (map (\<lambda>(s, cm). new_pattern (\<lambda>s _. Some s) s cm) [(''ab'', True), (''%b'', False), (''ab'', True)], cache)"
  by (rule pattern_cache_transparent) (simp add: ch_def)



text \<open>
  C40. substitute() never reads outside its subject, whatever its arguments are: a call with a string
  and a list always returns a package.
\<close>

theorem substitute_safe: "bf_substitute [VStr template, VList subs] \<noteq> None"
  by (rule bf_substitute_safe)

end
